(* ===== verification/Prelude.thy ===== *)
theory Prelude
  imports Main "HOL-Library.Word"
begin

unbundle bit_operations_syntax

text \<open>
  Vocabulary shared by every theory of the development: fallible results, bytes and
  characters, bit-field arithmetic on natural numbers, decimal numerals, index loops over
  strings, and the interface of a self-delimiting code. Nothing here is specific to one file
  of the repository.
\<close>

section \<open>Collections\<close>

named_theorems bits \<open>bit-field expressions of the code as arithmetic\<close>
named_theorems run \<open>evaluation of a step of a backend on a known input\<close>

section \<open>Fallible results\<close>

text \<open>
  A call that may throw returns \<open>Inl\<close> of what it throws or \<open>Inr\<close> of what it returns;
  \<open>and_then\<close> is the sequencing of two such calls, where the second one runs only if the
  first one returned.
\<close>

type_synonym 'a fallible = "string + 'a"

fun and_then :: "'e + 'a \<Rightarrow> ('a \<Rightarrow> 'e + 'b) \<Rightarrow> 'e + 'b" where
  "and_then (Inl e) f = Inl e"
| "and_then (Inr x) f = f x"

lemma and_then_cong [fundef_cong]:
  "m = m' \<Longrightarrow> (\<And>x. m' = Inr x \<Longrightarrow> f x = g x) \<Longrightarrow> and_then m f = and_then m' g"
  by (cases m') auto

lemma and_then_Inr_iff [simp]: "and_then m f = Inr y \<longleftrightarrow> (\<exists>x. m = Inr x \<and> f x = Inr y)"
  by (cases m) auto

lemma and_then_Inl_iff:
  "and_then m f = Inl e \<longleftrightarrow> m = Inl e \<or> (\<exists>x. m = Inr x \<and> f x = Inl e)"
  by (cases m) auto

lemma and_then_assoc: "and_then (and_then m f) g = and_then m (\<lambda>x. and_then (f x) g)"
  by (cases m) auto

lemma and_then_return [simp]: "and_then m Inr = m"
  by (cases m) auto

lemma map_sum_Inr_iff [simp]: "map_sum f g m = Inr y \<longleftrightarrow> (\<exists>x. m = Inr x \<and> y = g x)"
  by (cases m) auto

definition guard :: "bool \<Rightarrow> 'e \<Rightarrow> 'e + unit" where
  "guard ok e = (if ok then Inr () else Inl e)"

lemma guard_Inr [simp]: "guard ok e = Inr u \<longleftrightarrow> ok"
  by (simp add: guard_def)

lemma guard_True [simp]: "guard True e = Inr ()"
  by (simp add: guard_def)

lemma guard_False [simp]: "guard False e = Inl e"
  by (simp add: guard_def)

text \<open>
  Fuel. A call that ran out of fuel is told by the empty message, which the code never throws.
\<close>

definition spoken :: "'a fallible \<Rightarrow> bool" where
  "spoken m \<longleftrightarrow> m \<noteq> Inl []"

lemma spoken_Inr [simp]: "spoken (Inr x)"
  by (simp add: spoken_def)

lemma spoken_guard [simp]: "spoken (guard b e) \<longleftrightarrow> b \<or> e \<noteq> []"
  by (simp add: spoken_def guard_def)

lemma spoken_and_then: "spoken m \<Longrightarrow> (\<And>x. m = Inr x \<Longrightarrow> spoken (f x)) \<Longrightarrow> spoken (and_then m f)"
  by (cases m) (auto simp: spoken_def)

lemma and_then_fuel:
  "spoken (and_then m f) \<Longrightarrow> (spoken m \<Longrightarrow> m' = m) \<Longrightarrow> (\<And>x. m = Inr x \<Longrightarrow> spoken (f x) \<Longrightarrow> f' x = f x) \<Longrightarrow>
     and_then m' f' = and_then m f"
  by (cases m) (auto simp: spoken_def)

section \<open>Bytes and characters\<close>

type_synonym byte = "8 word"

text \<open>
  A \<open>char\<close> of the source is a byte; \<open>code_of\<close> is the conversion to
  \<open>unsigned char\<close> and \<open>char_of\<close> the conversion back, which keeps the low byte.
\<close>

definition code_of :: "char \<Rightarrow> nat" where
  "code_of c = of_char c"

lemma code_of_char_of: "n < 256 \<Longrightarrow> code_of (char_of n) = n"
  by (simp add: code_of_def)

lemma char_of_code_of [simp]: "char_of (code_of c) = c"
  by (simp add: code_of_def)

lemma code_of_less [simp]: "code_of c < 256"
  by (metis char_of_code_of code_of_def mod_less_divisor of_char_of zero_less_numeral)

lemma code_of_inj: "code_of a = code_of b \<longleftrightarrow> a = b"
  by (metis char_of_code_of)

definition byte_of_char :: "char \<Rightarrow> byte" where
  "byte_of_char c = word_of_nat (code_of c)"

definition char_of_byte :: "byte \<Rightarrow> char" where
  "char_of_byte b = char_of (unat b)"

lemma char_of_byte_of_char [simp]: "char_of_byte (byte_of_char c) = c"
  by (simp add: char_of_byte_def byte_of_char_def unat_of_nat)

lemma byte_of_char_of_byte [simp]: "byte_of_char (char_of_byte b) = b"
  using unsigned_less [of b, where 'a = nat]
  by (simp add: char_of_byte_def byte_of_char_def code_of_char_of)

section \<open>Bit fields as arithmetic\<close>

lemma and_mask_mod: "(x::nat) AND (2 ^ k - 1) = x mod 2 ^ k"
  using take_bit_eq_mask [of k x] by (simp add: mask_eq_exp_minus_1 take_bit_eq_mod)

lemma and_field [bits]:
  "(x::nat) AND 7 = x mod 8" "x AND 15 = x mod 16" "x AND 31 = x mod 32"
  "x AND 63 = x mod 64" "x AND 127 = x mod 128" "x AND 255 = x mod 256"
  "x AND 1023 = x mod 1024"
  using and_mask_mod [of x 3] and_mask_mod [of x 4] and_mask_mod [of x 5] and_mask_mod [of x 6]
    and_mask_mod [of x 7] and_mask_mod [of x 8] and_mask_mod [of x 10]
  by simp_all

lemma push_or_add: "b < 2 ^ k \<Longrightarrow> push_bit k a OR (b::nat) = a * 2 ^ k + b"
proof -
  assume "b < 2 ^ k"
  then have low: "take_bit k b = b"
    by (simp add: take_bit_nat_eq_self)
  have "push_bit k a + b = push_bit k a OR b"
    by (rule disjunctive_add) (metis low bit_push_bit_iff bit_take_bit_iff linorder_not_less)
  then show ?thesis
    by (simp add: push_bit_eq_mult)
qed

lemma mult_or_add: "b < 2 ^ k \<Longrightarrow> (a * 2 ^ k) OR (b::nat) = a * 2 ^ k + b"
  using push_or_add [of b k a] by (simp add: push_bit_eq_mult)

lemma and_high_bits:
  assumes "(x::nat) < 256" "k \<le> 8"
  shows "x AND (256 - 2 ^ k) = x - x mod 2 ^ k"
proof -
  have parts: "256 - 2 ^ k = push_bit k (mask (8 - k) :: nat)"
    using assms(2) by (simp add: mask_eq_exp_minus_1 push_bit_eq_mult diff_mult_distrib flip: power_add)
  have low: "2 ^ k - 1 = (mask k :: nat)"
    by (simp add: mask_eq_exp_minus_1)
  have "(x AND (256 - 2 ^ k)) AND (x AND (2 ^ k - 1)) = 0"
    unfolding parts low by (rule bit_eqI) (auto simp: bit_simps)
  then have "(x AND (256 - 2 ^ k)) + (x AND (2 ^ k - 1)) = x AND ((256 - 2 ^ k) OR (2 ^ k - 1))"
    by (subst disjunctive_add_eq_or) (auto intro!: bit_eqI simp: bit_simps)
  also have "(256 - 2 ^ k) OR (2 ^ k - 1) = (2 ^ 8 - 1 :: nat)"
    using mult_or_add [of "2 ^ k - 1" k "mask (8 - k)"] assms(2)
      power_increasing [of k 8 "2 :: nat"] unfolding parts
    by (simp add: push_bit_eq_mult mask_eq_exp_minus_1 diff_mult_distrib flip: power_add)
  also have "x AND \<dots> = x"
    using assms(1) and_mask_mod [of x 8] by simp
  finally show ?thesis
    unfolding and_mask_mod by simp
qed

lemma and_high_field [bits]:
  assumes "(x::nat) < 256"
  shows "x AND 0xC0 = x - x mod 64" "x AND 0xE0 = x - x mod 32"
    "x AND 0xF0 = x - x mod 16" "x AND 0xF8 = x - x mod 8"
  using and_high_bits [OF assms, of 6] and_high_bits [OF assms, of 5]
    and_high_bits [OF assms, of 4] and_high_bits [OF assms, of 3] by simp_all

lemma or_field [bits]:
  "(x::nat) < 64 \<Longrightarrow> 0x80 OR x = 128 + x" "x < 32 \<Longrightarrow> 0xC0 OR x = 192 + x"
  "x < 16 \<Longrightarrow> 0xE0 OR x = 224 + x" "x < 8 \<Longrightarrow> 0xF0 OR x = 240 + x"
  using mult_or_add [of x 6 2] mult_or_add [of x 5 6] mult_or_add [of x 4 14] mult_or_add [of x 3 30]
  by simp_all

lemma shift_or_field [bits]:
  "(b::nat) < 64 \<Longrightarrow> push_bit 6 a OR b = 64 * a + b"
  using push_or_add [of b 6 a] by simp

lemma field_mod [simp]:
  "(b::nat) < 64 \<Longrightarrow> (128 + b) mod 64 = b" "b < 32 \<Longrightarrow> (192 + b) mod 32 = b"
  "b < 16 \<Longrightarrow> (224 + b) mod 16 = b" "b < 8 \<Longrightarrow> (240 + b) mod 8 = b"
  using mod_mult_self3 [of 2 64 b] mod_mult_self3 [of 6 32 b] mod_mult_self3 [of 14 16 b]
    mod_mult_self3 [of 30 8 b] by simp_all

section \<open>Index loops over a string\<close>

text \<open>
  \<open>char_at s i\<close> is \<open>i < s.size() ? s[i] : '\0'\<close>, the read with which the readers look at
  their input; \<open>scan_while p s i\<close> is \<open>while (p(s[i])) ++i;\<close> with the same bound.
\<close>

definition char_at :: "string \<Rightarrow> nat \<Rightarrow> char" where
  "char_at s i = (if i < length s then s ! i else CHR 0x00)"

function scan_while :: "(char \<Rightarrow> bool) \<Rightarrow> string \<Rightarrow> nat \<Rightarrow> nat" where
  "scan_while p s i = (if i < length s \<and> p (s ! i) then scan_while p s (Suc i) else i)"
  by pat_completeness auto
termination
  by (relation "measure (\<lambda>(p, s, i). length s - i)") auto

declare scan_while.simps [simp del]

lemma drop_Cons_nth: "drop i s = c # rest \<Longrightarrow> i < length s \<and> s ! i = c \<and> drop (Suc i) s = rest"
  by (metis Cons_nth_drop_Suc drop_all list.distinct(1) list.inject not_le_imp_less)

lemma drop_append_shift: "drop i s = xs @ rest \<Longrightarrow> drop (i + length xs) s = rest"
  by (metis add.commute append_eq_conv_conj drop_drop)

lemma drop_append_length: "drop i s = xs @ rest \<Longrightarrow> xs \<noteq> [] \<Longrightarrow> i + length xs + length rest = length s"
  by (metis append_is_Nil_conv drop_all length_append length_drop add.assoc
      le_add_diff_inverse linorder_linear)

lemma char_at_drop: "drop i s = c # rest \<Longrightarrow> char_at s i = c"
  by (auto simp: char_at_def dest: drop_Cons_nth)

lemma char_at_end: "drop i s = [] \<Longrightarrow> char_at s i = CHR 0x00"
  by (simp add: char_at_def)

lemma scan_while_drop:
  assumes "drop i s = xs @ rest" and "\<forall>x\<in>set xs. p x" and "rest = [] \<or> \<not> p (hd rest)"
  shows "scan_while p s i = i + length xs"
  using assms
proof (induction xs arbitrary: i)
  case Nil
  show ?case
  proof (cases "i < length s")
    case True
    with Nil.prems(1) have "hd rest = s ! i" "rest \<noteq> []" by (auto simp: hd_drop_conv_nth)
    with True Nil show ?thesis by (auto simp: scan_while.simps [of p s i])
  qed (simp add: scan_while.simps [of p s i])
next
  case (Cons x xs)
  from Cons.prems(1) have "i < length s" "s ! i = x" "drop (Suc i) s = xs @ rest"
    by (auto dest: drop_Cons_nth)
  with Cons show ?case by (simp add: scan_while.simps [of p s i])
qed

lemma scan_while_spec:
  "i \<le> length s \<Longrightarrow> scan_while p s i = i + length (takeWhile p (drop i s))"
  by (rule scan_while_drop [where rest = "dropWhile p (drop i s)"])
     (simp, blast dest: set_takeWhileD, use hd_dropWhile in blast)

lemma scan_while_bounds: "i \<le> scan_while p s i \<and> (i \<le> length s \<longrightarrow> scan_while p s i \<le> length s)"
proof (induction p s i rule: scan_while.induct)
  case (1 p s i)
  then show ?case by (cases "i < length s \<and> p (s ! i)") (auto simp: scan_while.simps [of p s i])
qed

section \<open>Decimal numerals\<close>

definition is_digit :: "char \<Rightarrow> bool" where
  "is_digit c \<longleftrightarrow> 48 \<le> code_of c \<and> code_of c \<le> 57"

fun show_nat :: "nat \<Rightarrow> string" where
  "show_nat n = (if n < 10 then [char_of (48 + n)]
     else show_nat (n div 10) @ [char_of (48 + n mod 10)])"

declare show_nat.simps [simp del]

definition show_int :: "int \<Rightarrow> string" where
  "show_int i = (if i < 0 then CHR ''-'' # show_nat (nat (- i)) else show_nat (nat i))"

definition decimal_value :: "string \<Rightarrow> nat" where
  "decimal_value = foldl (\<lambda>n c. 10 * n + (code_of c - 48)) 0"

text \<open>
  \<open>std::from_chars\<close> on an integer type with the given range: an optional minus sign for a
  signed type, then the longest run of digits. \<open>Parsed v n\<close> carries the number of characters
  consumed (\<open>ptr - first\<close>).
\<close>

datatype chars_result = Invalid_Argument | Out_Of_Range nat | Parsed int nat

definition from_chars :: "int \<Rightarrow> int \<Rightarrow> string \<Rightarrow> chars_result" where
  "from_chars lo hi s =
     (let negative = (lo < 0 \<and> s \<noteq> [] \<and> hd s = CHR ''-'');
          digits = takeWhile is_digit (if negative then tl s else s);
          value = (if negative then - int (decimal_value digits) else int (decimal_value digits));
          used = length digits + (if negative then 1 else 0)
      in if digits = [] then Invalid_Argument
         else if value < lo \<or> hi < value then Out_Of_Range used else Parsed value used)"

lemma code_of_digit [simp]: "(d::nat) < 10 \<Longrightarrow> code_of (char_of (48 + d)) = 48 + d"
  by (simp add: code_of_char_of)

lemma is_digit_digit [simp]: "(d::nat) < 10 \<Longrightarrow> is_digit (char_of (48 + d))"
  by (simp add: is_digit_def)

lemma show_nat_not_Nil [simp]: "show_nat n \<noteq> []"
  by (subst show_nat.simps) simp

lemma show_nat_digits: "c \<in> set (show_nat n) \<Longrightarrow> is_digit c"
proof (induction n rule: show_nat.induct)
  case (1 n)
  then show ?case by (cases "n < 10") (auto simp: show_nat.simps [of n])
qed

lemma decimal_value_show_nat [simp]: "decimal_value (show_nat n) = n"
proof (induction n rule: show_nat.induct)
  case (1 n)
  then show ?case
    by (cases "n < 10") (auto simp: show_nat.simps [of n] decimal_value_def)
qed

lemma show_nat_inj [simp]: "show_nat m = show_nat n \<longleftrightarrow> m = n"
  by (metis decimal_value_show_nat)

text \<open>No numeral of more than one digit starts with a zero.\<close>

lemma show_nat_leading_zero: "hd (show_nat n) = CHR ''0'' \<longleftrightarrow> n = 0"
proof (induction n rule: show_nat.induct)
  case (1 n)
  show ?case
  proof (cases "n < 10")
    case True
    have "char_of (48 + n) = CHR ''0'' \<longleftrightarrow> code_of (char_of (48 + n)) = code_of (CHR ''0'')"
      by (simp add: code_of_inj)
    with True show ?thesis by (simp add: show_nat.simps [of n]) (simp add: code_of_def)
  next
    case False
    with 1 show ?thesis by (simp add: show_nat.simps [of n])
  qed
qed

lemma from_chars_show_nat:
  assumes "lo \<le> int n" "int n \<le> hi" "rest = [] \<or> \<not> is_digit (hd rest)"
  shows "from_chars lo hi (show_nat n @ rest) = Parsed (int n) (length (show_nat n))"
proof -
  have first: "hd (show_nat n @ rest) \<noteq> CHR ''-''"
    using show_nat_digits [of "hd (show_nat n)" n] by (auto simp: is_digit_def code_of_def)
  have "takeWhile is_digit (show_nat n @ rest) = show_nat n"
    using assms(3) show_nat_digits [of _ n] by (cases rest) (auto simp: takeWhile_append)
  with assms first show ?thesis by (simp add: from_chars_def)
qed

lemma from_chars_show_int:
  assumes "lo < 0 \<or> 0 \<le> i" "lo \<le> i" "i \<le> hi" "rest = [] \<or> \<not> is_digit (hd rest)"
  shows "from_chars lo hi (show_int i @ rest) = Parsed i (length (show_int i))"
proof (cases "i < 0")
  case True
  have "takeWhile is_digit (show_nat (nat (- i)) @ rest) = show_nat (nat (- i))"
    using assms(4) show_nat_digits [of _ "nat (- i)"] by (cases rest) (auto simp: takeWhile_append)
  with True assms show ?thesis by (simp add: from_chars_def show_int_def)
next
  case False
  with assms from_chars_show_nat [of lo "nat i" hi rest] show ?thesis by (simp add: show_int_def)
qed

section \<open>Self-delimiting codes\<close>

text \<open>
  The interface between a routine that appends the code of a value to an output and the one
  that decodes a value at an index of an input and advances the index. A client may rely on
  two laws: decoding at a place where the code of a valid value starts gives that value and
  stops right behind it, whatever follows; and no code is empty. Everything a client of such
  a pair needs to know about runs of codes follows.
\<close>

primrec decode_run :: "('b list \<Rightarrow> nat \<Rightarrow> 'e + ('a \<times> nat)) \<Rightarrow> nat \<Rightarrow> 'b list \<Rightarrow> nat \<Rightarrow> 'e + ('a list \<times> nat)" where
  "decode_run dec 0 s i = Inr ([], i)"
| "decode_run dec (Suc n) s i =
     and_then (dec s i) (\<lambda>(x, j). and_then (decode_run dec n s j) (\<lambda>(xs, k). Inr (x # xs, k)))"

locale prefix_code =
  fixes enc :: "'a \<Rightarrow> 'b list"
    and dec :: "'b list \<Rightarrow> nat \<Rightarrow> 'e + ('a \<times> nat)"
    and valid :: "'a \<Rightarrow> bool"
  assumes dec_at: "valid x \<Longrightarrow> drop i s = enc x @ rest \<Longrightarrow> dec s i = Inr (x, i + length (enc x))"
    and enc_nonempty: "valid x \<Longrightarrow> enc x \<noteq> []"
begin

lemma dec_start: "valid x \<Longrightarrow> dec (enc x @ rest) 0 = Inr (x, length (enc x))"
  using dec_at [of x 0 "enc x @ rest" rest] by simp

lemma prefix_free:
  assumes "valid x" "valid y" "enc x @ s = enc y @ t"
  shows "x = y \<and> s = t"
proof -
  have "dec (enc x @ s) 0 = Inr (x, length (enc x))" "dec (enc y @ t) 0 = Inr (y, length (enc y))"
    using assms(1,2) by (simp_all only: dec_start)
  with assms(3) have "x = y" by (simp only:) simp
  with assms(3) show ?thesis by simp
qed

lemma enc_inj: "valid x \<Longrightarrow> valid y \<Longrightarrow> enc x = enc y \<Longrightarrow> x = y"
  using prefix_free [of x y "[]" "[]"] by simp

lemma concat_inj:
  "\<forall>x\<in>set xs. valid x \<Longrightarrow> \<forall>y\<in>set ys. valid y \<Longrightarrow>
     concat (map enc xs) = concat (map enc ys) \<Longrightarrow> xs = ys"
proof (induction xs arbitrary: ys)
  case Nil
  then show ?case using enc_nonempty by (cases ys) fastforce+
next
  case (Cons x xs)
  note prems = Cons.prems and IH = Cons.IH
  show ?case
  proof (cases ys)
    case Nil
    with prems enc_nonempty [of x] show ?thesis by simp
  next
    case (Cons y ys')
    have "enc x @ concat (map enc xs) = enc y @ concat (map enc ys')"
      using prems(3) Cons by simp
    then have "x = y \<and> concat (map enc xs) = concat (map enc ys')"
      using prems(1,2) Cons by (intro prefix_free) simp_all
    with IH [of ys'] prems(1,2) Cons show ?thesis by simp
  qed
qed

lemma decode_run_at:
  "\<forall>x\<in>set xs. valid x \<Longrightarrow> drop i s = concat (map enc xs) @ rest \<Longrightarrow>
     decode_run dec (length xs) s i = Inr (xs, i + length (concat (map enc xs)))"
proof (induction xs arbitrary: i)
  case (Cons x xs)
  then have here: "drop i s = enc x @ concat (map enc xs) @ rest" by simp
  with Cons.prems have "dec s i = Inr (x, i + length (enc x))" by (intro dec_at) auto
  moreover from here have "drop (i + length (enc x)) s = concat (map enc xs) @ rest"
    by (rule drop_append_shift)
  ultimately show ?case using Cons by (simp add: add.assoc)
qed simp

end

end
