(* ===== verification/Base64.thy ===== *)
theory Base64
  imports Prelude
begin

text \<open>
  Base64 (RFC 4648 with padding): \<open>include/reflgen/json/base64.h\<close>, the encoding in which the
  JSON backend carries byte strings. The 32-bit chunk of the source holds at most 24 bits, so
  it is a natural number here and nothing wraps.
\<close>

section \<open>The routines\<close>

definition base64_alphabet :: string where
  "base64_alphabet = ''ABCDEFGHIJKLMNOPQRSTUVWXYZabcdefghijklmnopqrstuvwxyz0123456789+/''"

fun encode_rest :: "string \<Rightarrow> byte list \<Rightarrow> string" where
  "encode_rest result (x # y # z # bytes) =
     (let chunk = push_bit 16 (unat x) OR push_bit 8 (unat y) OR unat z
      in encode_rest (result @
           [base64_alphabet ! (drop_bit 18 chunk AND 0x3F), base64_alphabet ! (drop_bit 12 chunk AND 0x3F),
            base64_alphabet ! (drop_bit 6 chunk AND 0x3F), base64_alphabet ! (chunk AND 0x3F)]) bytes)"
| "encode_rest result [x, y] =
     (let chunk = push_bit 16 (unat x) OR push_bit 8 (unat y)
      in result @
           [base64_alphabet ! (drop_bit 18 chunk AND 0x3F), base64_alphabet ! (drop_bit 12 chunk AND 0x3F),
            base64_alphabet ! (drop_bit 6 chunk AND 0x3F), CHR ''=''])"
| "encode_rest result [x] =
     (let chunk = push_bit 16 (unat x)
      in result @
           [base64_alphabet ! (drop_bit 18 chunk AND 0x3F), base64_alphabet ! (drop_bit 12 chunk AND 0x3F),
            CHR ''='', CHR ''=''])"
| "encode_rest result [] = result"

definition base64_encode :: "byte list \<Rightarrow> string" where
  "base64_encode bytes = encode_rest [] bytes"

definition base64_value :: "char \<Rightarrow> int" where
  "base64_value c =
     (let n = int (code_of c)
      in if 65 \<le> n \<and> n \<le> 90 then n - 65
         else if 97 \<le> n \<and> n \<le> 122 then n - 97 + 26
         else if 48 \<le> n \<and> n \<le> 57 then n - 48 + 52
         else if c = CHR ''+'' then 62
         else if c = CHR ''/'' then 63
         else - 1)"

text \<open>The inner loop over the four characters of a group, from character \<open>j\<close> on.\<close>

fun decode_chunk :: "nat \<Rightarrow> nat \<Rightarrow> string \<Rightarrow> nat \<Rightarrow> nat fallible" where
  "decode_chunk padding j [] chunk = Inr chunk"
| "decode_chunk padding j (c # cs) chunk =
     (if 4 - padding \<le> j then decode_chunk padding (Suc j) cs (push_bit 6 chunk)
      else let v = base64_value c
           in if v < 0 then Inl ''invalid base64 character''
              else decode_chunk padding (Suc j) cs (push_bit 6 chunk OR nat v))"

fun decode_groups :: "byte list \<Rightarrow> string \<Rightarrow> byte list fallible" where
  "decode_groups result (c0 # c1 # c2 # c3 # text) =
     (let last = (text = []);
          padding = (if last then (if c3 = CHR ''='' then (if c2 = CHR ''='' then 2 else 1) else 0) else 0)
      in and_then (decode_chunk padding 0 [c0, c1, c2, c3] 0) (\<lambda>chunk.
           decode_groups (result @ [word_of_nat (drop_bit 16 chunk AND 0xFF)]
             @ (if padding < 2 then [word_of_nat (drop_bit 8 chunk AND 0xFF)] else [])
             @ (if padding < 1 then [word_of_nat (chunk AND 0xFF)] else [])) text))"
| "decode_groups result rest = Inr result"

definition base64_decode :: "string \<Rightarrow> byte list fallible" where
  "base64_decode text =
     (if length text mod 4 \<noteq> 0 then Inl ''invalid base64 length'' else decode_groups [] text)"

section \<open>Decoding undoes encoding\<close>

definition symbol :: "nat \<Rightarrow> char" where
  "symbol n = base64_alphabet ! n"

lemma symbol_table:
  "list_all (\<lambda>(n, c). base64_value c = int n \<and> c \<noteq> CHR ''='') (enumerate 0 base64_alphabet)"
  by (simp add: base64_alphabet_def base64_value_def code_of_def)

lemma symbol_value [simp]:
  assumes "n < 64"
  shows "base64_value (symbol n) = int n" "symbol n \<noteq> CHR ''=''"
proof -
  have "length base64_alphabet = 64" by (simp add: base64_alphabet_def)
  with assms symbol_table show "base64_value (symbol n) = int n" "symbol n \<noteq> CHR ''=''"
    by (auto simp: list_all_length nth_enumerate_eq symbol_def)
qed

lemma byte_less [simp]: "unat (b :: byte) < 256"
  using unsigned_less [of b, where 'a = nat] by simp

text \<open>A group of the encoding in arithmetic form: its four sextets.\<close>

definition sextets :: "nat \<Rightarrow> string" where
  "sextets n = map symbol [n div 262144 mod 64, n div 4096 mod 64, n div 64 mod 64, n mod 64]"

lemma or_bytes: "push_bit 16 (unat (x::byte)) OR push_bit 8 (unat (y::byte)) = 65536 * unat x + 256 * unat y"
  using push_or_add [of "push_bit 8 (unat y)" 16 "unat x"] byte_less [of y] by (simp add: push_bit_eq_mult)

lemma or_bytes3:
  "push_bit 16 (unat (x::byte)) OR push_bit 8 (unat (y::byte)) OR unat (z::byte)
     = 65536 * unat x + 256 * unat y + unat z"
  using push_or_add [of "unat z" 8 "unat y"] push_or_add [of "256 * unat y + unat z" 16 "unat x"]
    byte_less [of y] byte_less [of z]
  by (simp add: mult.commute)

lemma encode_rest_eqs:
  "encode_rest r (x # y # z # bs) =
     encode_rest (r @ sextets (65536 * unat x + 256 * unat y + unat z)) bs"
  "encode_rest r [x, y] = r @ take 3 (sextets (65536 * unat x + 256 * unat y)) @ ''=''"
  "encode_rest r [x] = r @ take 2 (sextets (65536 * unat x)) @ ''==''"
  by (simp_all only: encode_rest.simps Let_def or_bytes or_bytes3)
     (simp_all add: sextets_def symbol_def bits drop_bit_eq_div push_bit_eq_mult mult.commute numeral_3_eq_3)

declare encode_rest.simps(1-3) [simp del] encode_rest_eqs [simp]

lemma triples_induct [case_names Nil one two three]:
  assumes "P []" "\<And>x. P [x]" "\<And>x y. P [x, y]" "\<And>x y z bs. P bs \<Longrightarrow> P (x # y # z # bs)"
  shows "P bs"
proof (induction "length bs" arbitrary: bs rule: less_induct)
  case less
  show ?case
  proof (cases "length bs < 3")
    case True
    with assms(1-3) show ?thesis
      by (cases bs; cases "tl bs"; cases "tl (tl bs)") auto
  next
    case False
    then obtain x y z cs where "bs = x # y # z # cs"
      by (cases bs; cases "tl bs"; cases "tl (tl bs)") auto
    with less assms(4) show ?thesis by simp
  qed
qed

lemma encode_rest_append: "encode_rest r bs = r @ encode_rest [] bs"
proof (induction bs arbitrary: r rule: triples_induct)
  case (three x y z bs)
  let ?q = "sextets (65536 * unat x + 256 * unat y + unat z)"
  from three [of "r @ ?q"] three [of ?q] show ?case by simp
qed simp_all

lemma length_sextets [simp]: "length (sextets n) = 4"
  by (simp add: sextets_def)

lemma length_encode: "length (encode_rest [] bs) = 4 * ((length bs + 2) div 3)"
proof (induction bs rule: triples_induct)
  case (three x y z bs)
  moreover have "(length (x # y # z # bs) + 2) div 3 = Suc ((length bs + 2) div 3)" by simp
  ultimately show ?case by (simp add: encode_rest_append [of "sextets _"] del: add_2_eq_Suc')
qed simp_all

lemma decode_chunk_symbol [simp]:
  "n < 64 \<Longrightarrow> j < 4 - padding \<Longrightarrow>
     decode_chunk padding j (symbol n # cs) chunk = decode_chunk padding (Suc j) cs (64 * chunk + n)"
  by (simp add: bits)

lemma decode_chunk_padding [simp]:
  "4 - padding \<le> j \<Longrightarrow>
     decode_chunk padding j (c # cs) chunk = decode_chunk padding (Suc j) cs (64 * chunk)"
  by (simp add: push_bit_eq_mult mult.commute)

declare decode_chunk.simps(2) [simp del]

lemma sextets_value: "n < 16777216 \<Longrightarrow>
  64 * (64 * (64 * (n div 262144 mod 64) + n div 4096 mod 64) + n div 64 mod 64) + n mod 64 = (n::nat)"
proof -
  assume n: "n < 16777216"
  have split: "64 * (k div 64) + k mod 64 = k" for k :: nat by simp
  have "n div 4096 = n div 64 div 64" "n div 262144 = n div 64 div 64 div 64"
    by (simp_all flip: div_mult2_eq)
  moreover from n have "n div 262144 mod 64 = n div 262144" by simp
  ultimately show ?thesis by (simp only: split)
qed

text \<open>One group of a text in arithmetic form.\<close>

lemma sextets_cases:
  obtains a b c d where "sextets n = [a, b, c, d]" "c \<noteq> CHR ''=''" "d \<noteq> CHR ''=''"
  by (simp add: sextets_def)

lemma decode_chunk_sextets:
  "n < 16777216 \<Longrightarrow> decode_chunk 0 0 (sextets n) 0 = Inr n"
  "n < 65536 \<Longrightarrow> decode_chunk 1 0 (take 3 (sextets (256 * n)) @ ''='') 0 = Inr (256 * n)"
  "n < 256 \<Longrightarrow> decode_chunk 2 0 (take 2 (sextets (65536 * n)) @ ''=='') 0 = Inr (65536 * n)"
proof -
  show "decode_chunk 0 0 (sextets n) 0 = Inr n" if "n < 16777216"
  proof -
    have "n div 262144 < 64" "n div 262144 mod 64 = n div 262144" using that by simp_all
    with sextets_value [OF that] show ?thesis by (simp add: sextets_def)
  qed
  show "decode_chunk 1 0 (take 3 (sextets (256 * n)) @ ''='') 0 = Inr (256 * n)" if n: "n < 65536"
  proof -
    have "256 * n mod 64 = 0" using mod_mult_self1_is_0 [of 64 "4 * n"] by simp
    with sextets_value [of "256 * n"] n show ?thesis by (simp add: sextets_def numeral_3_eq_3)
  qed
  show "decode_chunk 2 0 (take 2 (sextets (65536 * n)) @ ''=='') 0 = Inr (65536 * n)" if n: "n < 256"
  proof -
    have "65536 * n div 64 = 64 * (16 * n)" by simp
    then have "65536 * n mod 64 = 0" "65536 * n div 64 mod 64 = 0" by (simp_all only: mod_mult_self1_is_0, simp)
    with sextets_value [of "65536 * n"] n show ?thesis by (simp only: sextets_def) (simp add: numeral_2_eq_2)
  qed
qed

lemma decode_full_group:
  assumes "n < 16777216"
  shows "decode_groups r (sextets n @ text) =
    decode_groups (r @ [word_of_nat (n div 65536), word_of_nat (n div 256 mod 256), word_of_nat (n mod 256)]) text"
proof -
  obtain a b c d where q: "sextets n = [a, b, c, d]" "c \<noteq> CHR ''=''" "d \<noteq> CHR ''=''"
    by (rule sextets_cases)
  have "n div 65536 mod 256 = n div 65536" using assms by simp
  then have bytes: "drop_bit 16 n AND 255 = n div 65536" "drop_bit 8 n AND 255 = n div 256 mod 256"
    "n AND 255 = n mod 256"
    by (simp_all add: bits drop_bit_eq_div)
  from decode_chunk_sextets(1) [OF assms] q have "decode_chunk 0 0 [a, b, c, d] 0 = Inr n" by simp
  with q show ?thesis by (simp only: append.simps decode_groups.simps(1) Let_def) (simp add: bytes)
qed

lemma decode_padded_group:
  assumes "n < 65536"
  shows "decode_groups r (take 3 (sextets (256 * n)) @ ''='') =
     Inr (r @ [word_of_nat (n div 256), word_of_nat (n mod 256)])"
proof -
  obtain a b c d where q: "sextets (256 * n) = [a, b, c, d]" "c \<noteq> CHR ''=''"
    by (rule sextets_cases)
  have bytes: "drop_bit 16 (256 * n) AND 255 = n div 256" "drop_bit 8 (256 * n) AND 255 = n mod 256"
    using assms by (simp_all add: bits drop_bit_eq_div)
  from decode_chunk_sextets(2) [OF assms] q
  have "decode_chunk 1 0 [a, b, c, CHR ''=''] 0 = Inr (256 * n)" by (simp add: numeral_3_eq_3)
  with q show ?thesis
    by (simp add: numeral_3_eq_3 bytes del: decode_chunk_padding)
qed

lemma decode_padded_group2:
  assumes "n < 256"
  shows "decode_groups r (take 2 (sextets (65536 * n)) @ ''=='') = Inr (r @ [word_of_nat n])"
proof -
  obtain a b c d where q: "sextets (65536 * n) = [a, b, c, d]" by (rule sextets_cases)
  have bytes: "drop_bit 16 (65536 * n) AND 255 = n"
    using assms by (simp add: bits drop_bit_eq_div)
  from decode_chunk_sextets(3) [OF assms] q
  have "decode_chunk 2 0 [a, b, CHR ''='', CHR ''=''] 0 = Inr (65536 * n)" by (simp add: numeral_2_eq_2)
  with q show ?thesis
    by (simp add: numeral_2_eq_2 bytes del: decode_chunk_padding)
qed

lemma radix_div: "(b::nat) < 256 \<Longrightarrow> c < 256 \<Longrightarrow> (65536 * a + 256 * b + c) div 65536 = a"
    "c < 256 \<Longrightarrow> (65536 * a + 256 * b + c) div 256 = 256 * a + b"
  by (rule div_nat_eqI; simp)+

lemma unat_bytes [simp]:
  "word_of_nat ((65536 * unat (x::byte) + 256 * unat (y::byte) + unat (z::byte)) div 65536) = x"
  "word_of_nat ((65536 * unat x + 256 * unat y + unat z) div 256 mod 256) = y"
  "word_of_nat ((65536 * unat x + 256 * unat y + unat z) mod 256) = z"
proof -
  have less: "unat x < 256" "unat y < 256" "unat z < 256" by (rule byte_less)+
  have "(65536 * unat x + 256 * unat y + unat z) div 65536 = unat x" using less by (simp only: radix_div)
  moreover have "(65536 * unat x + 256 * unat y + unat z) div 256 = 256 * unat x + unat y"
    using less by (simp only: radix_div)
  moreover have "(256 * unat x + unat y) mod 256 = unat y" using less by simp
  moreover have "(65536 * unat x + 256 * unat y + unat z) mod 256 = unat z"
    using mod_mult_self3 [of "256 * unat x + unat y" 256 "unat z"] less by (simp add: algebra_simps)
  ultimately show
    "word_of_nat ((65536 * unat x + 256 * unat y + unat z) div 65536) = x"
    "word_of_nat ((65536 * unat x + 256 * unat y + unat z) div 256 mod 256) = y"
    "word_of_nat ((65536 * unat x + 256 * unat y + unat z) mod 256) = z"
    by (simp_all only: of_nat_unat ucast_id)
qed

lemma decode_groups_encode: "decode_groups r (encode_rest [] bs) = Inr (r @ bs)"
proof (induction bs arbitrary: r rule: triples_induct)
  case (one x)
  then show ?case using decode_padded_group2 [of "unat x" r] by simp
next
  case (two x y)
  have "decode_groups r (take 3 (sextets (256 * (256 * unat x + unat y))) @ ''='')
      = Inr (r @ [word_of_nat ((256 * unat x + unat y) div 256), word_of_nat ((256 * unat x + unat y) mod 256)])"
    using byte_less [of x] byte_less [of y] by (intro decode_padded_group) linarith
  moreover have "(256 * unat x + unat y) div 256 = unat x" "(256 * unat x + unat y) mod 256 = unat y"
    using byte_less [of y] by simp_all
  ultimately show ?case by (simp add: algebra_simps)
next
  case (three x y z bs)
  have "65536 * unat x + 256 * unat y + unat z < 16777216"
    using byte_less [of x] byte_less [of y] byte_less [of z] by linarith
  then show ?case using three
    by (simp add: encode_rest_append [of "sextets _"] decode_full_group)
qed simp

section \<open>Properties\<close>

text \<open>C14: base64 is a faithful carrier of byte strings: decoding the encoding of any byte string
  returns exactly that byte string, and the encoding is \<open>4 * ceil(n / 3)\<close> characters long, the
  length the decoder demands.\<close>

theorem base64_round_trip:
  "base64_decode (base64_encode bs) = Inr bs \<and>
     length (base64_encode bs) = 4 * ((length bs + 2) div 3)"
  by (simp add: base64_decode_def base64_encode_def length_encode decode_groups_encode)

end
