(* ===== verification/Error_Path.thy ===== *)
theory Error_Path
  imports Prelude
begin

text \<open>
  Serialization errors and their paths: \<open>include/reflgen/serial/error.h\<close> and
  \<open>include/reflgen/serial/detail/path.h\<close>. The thread-local stack of segments that a
  serialization pushes on entering a level and pops on leaving it is a list, innermost segment
  last; an error takes a copy of it, rendered as an RFC 6901 pointer, when it is constructed.
\<close>

section \<open>The active path\<close>

record path_segment =
  seg_key :: string
  seg_index :: nat
  seg_is_index :: bool

type_synonym path = "path_segment list"

definition key_segment :: "string \<Rightarrow> path_segment" where
  "key_segment k = \<lparr>seg_key = k, seg_index = 0, seg_is_index = False\<rparr>"

definition index_segment :: "nat \<Rightarrow> path_segment" where
  "index_segment i = \<lparr>seg_key = [], seg_index = i, seg_is_index = True\<rparr>"

fun escape_char :: "char \<Rightarrow> string" where
  "escape_char c = (if c = CHR ''~'' then ''~0'' else if c = CHR ''/'' then ''~1'' else [c])"

definition append_escaped :: "string \<Rightarrow> string \<Rightarrow> string" where
  "append_escaped out segment = foldl (\<lambda>out c. out @ escape_char c) (out @ ''/'') segment"

definition current_path :: "path \<Rightarrow> string" where
  "current_path active = foldl (\<lambda>result segment.
      if seg_is_index segment then (result @ ''/'') @ show_nat (seg_index segment)
      else append_escaped result (seg_key segment)) [] active"

section \<open>The exception\<close>

record serialization_error =
  message :: string
  err_path :: string

definition throw_at :: "path \<Rightarrow> string \<Rightarrow> serialization_error" where
  "throw_at active msg = \<lparr>message = msg, err_path = current_path active\<rparr>"

definition with_parent :: "string \<Rightarrow> serialization_error \<Rightarrow> serialization_error" where
  "with_parent segment e = e\<lparr>err_path := append_escaped [] segment @ err_path e\<rparr>"

definition with_child :: "string \<Rightarrow> serialization_error \<Rightarrow> serialization_error" where
  "with_child segment e = e\<lparr>err_path := append_escaped (err_path e) segment\<rparr>"

definition what :: "serialization_error \<Rightarrow> string" where
  "what e = (if err_path e = [] then message e else message e @ '' (at '' @ err_path e @ '')'')"

text \<open>
  A call of a format backend throws with the path of the level that made the call:
  \<open>lift\<close> turns the message of a backend into the error that the constructor builds.
\<close>

definition lift :: "path \<Rightarrow> 'a fallible \<Rightarrow> serialization_error + 'a" where
  "lift active m = map_sum (throw_at active) id m"

definition throw :: "path \<Rightarrow> string \<Rightarrow> serialization_error + 'a" where
  "throw active msg = Inl (throw_at active msg)"

lemma lift_Inr [simp]: "lift p m = Inr x \<longleftrightarrow> m = Inr x"
  by (cases m) (auto simp: lift_def)

lemma lift_Inr_eq [simp]: "lift p (Inr x) = Inr x"
  by (simp add: lift_def)

lemma throw_not_Inr [simp]: "throw p msg \<noteq> Inr x"
  by (simp add: throw_def)

section \<open>Reading a pointer back\<close>

text \<open>
  The reference for what a path means: RFC 6901 splits a pointer at its slashes and undoes the
  two escapes in each token.
\<close>

fun unescape :: "string \<Rightarrow> string" where
  "unescape (c # d # s) =
     (if c = CHR ''~'' \<and> d = CHR ''0'' then CHR ''~'' # unescape s
      else if c = CHR ''~'' \<and> d = CHR ''1'' then CHR ''/'' # unescape s
      else c # unescape (d # s))"
| "unescape s = s"

fun split_slash :: "string \<Rightarrow> string list" where
  "split_slash [] = [[]]"
| "split_slash (c # s) =
     (if c = CHR ''/'' then [] # split_slash s
      else case split_slash s of [] \<Rightarrow> [[c]] | t # ts \<Rightarrow> (c # t) # ts)"

definition pointer_tokens :: "string \<Rightarrow> string list" where
  "pointer_tokens s = map unescape (tl (split_slash s))"

definition segment_token :: "path_segment \<Rightarrow> string" where
  "segment_token g = (if seg_is_index g then show_nat (seg_index g) else seg_key g)"

definition escaped :: "string \<Rightarrow> string" where
  "escaped s = concat (map escape_char s)"

definition rendered :: "path_segment \<Rightarrow> string" where
  "rendered g = (if seg_is_index g then show_nat (seg_index g) else escaped (seg_key g))"

lemma append_escaped_eq: "append_escaped out s = out @ CHR ''/'' # escaped s"
proof -
  have "foldl (\<lambda>out c. out @ escape_char c) out s = out @ escaped s" for out
    by (induction s arbitrary: out) (simp_all add: escaped_def)
  then show ?thesis by (simp add: append_escaped_def)
qed

lemma current_path_eq: "current_path p = concat (map (\<lambda>g. CHR ''/'' # rendered g) p)"
proof -
  have "foldl (\<lambda>result segment.
      if seg_is_index segment then (result @ ''/'') @ show_nat (seg_index segment)
      else append_escaped result (seg_key segment)) out p
    = out @ concat (map (\<lambda>g. CHR ''/'' # rendered g) p)" for out
    by (induction p arbitrary: out) (simp_all add: append_escaped_eq rendered_def)
  then show ?thesis by (simp add: current_path_def)
qed

lemma current_path_append: "current_path (p @ q) = current_path p @ current_path q"
  by (simp add: current_path_eq)

lemma unescape_escape_char: "unescape (escape_char c @ s) = c # unescape s"
  by (cases s) auto

lemma unescape_escaped: "unescape (escaped s) = s"
  by (induction s) (auto simp: escaped_def unescape_escape_char simp del: escape_char.simps)

lemma escaped_no_slash: "CHR ''/'' \<notin> set (escaped s)"
  by (induction s) (auto simp: escaped_def)

lemma rendered_no_slash: "CHR ''/'' \<notin> set (rendered g)"
  using show_nat_digits [of "CHR ''/''" "seg_index g"] escaped_no_slash
  by (auto simp: rendered_def is_digit_def code_of_def)

lemma split_slash_token:
  "CHR ''/'' \<notin> set t \<Longrightarrow> split_slash (t @ CHR ''/'' # s) = t # split_slash s"
  by (induction t) auto

lemma split_slash_last: "CHR ''/'' \<notin> set t \<Longrightarrow> split_slash t = [t]"
  by (induction t) auto

lemma split_slash_rendered:
  "CHR ''/'' \<notin> set t \<Longrightarrow> split_slash (t @ current_path p) = t # map rendered p"
proof (induction p arbitrary: t)
  case Nil
  then show ?case by (simp add: current_path_eq split_slash_last)
next
  case (Cons g p)
  have "split_slash (t @ current_path (g # p)) = split_slash (t @ CHR ''/'' # (rendered g @ current_path p))"
    by (simp add: current_path_eq)
  also have "\<dots> = t # split_slash (rendered g @ current_path p)"
    using Cons.prems by (rule split_slash_token)
  finally show ?case by (simp add: Cons.IH rendered_no_slash)
qed

lemma no_tilde_unescape: "CHR ''~'' \<notin> set s \<Longrightarrow> unescape s = s"
  by (induction s rule: unescape.induct) auto

lemma unescape_rendered: "unescape (rendered g) = segment_token g"
proof (cases "seg_is_index g")
  case True
  have "CHR ''~'' \<notin> set (show_nat (seg_index g))"
    using show_nat_digits [of "CHR ''~''" "seg_index g"] by (auto simp: is_digit_def code_of_def)
  with True show ?thesis by (simp add: rendered_def segment_token_def no_tilde_unescape)
qed (simp add: rendered_def segment_token_def unescape_escaped)

text \<open>C15: the path of an error is a faithful RFC 6901 pointer. Splitting it at the slashes and
  undoing the escapes gives back exactly the keys and indices of the levels that were open when
  the error was thrown, outermost first, whatever characters the keys contain.\<close>

theorem path_round_trip:
  "pointer_tokens (err_path (throw_at p msg)) = map segment_token p"
  using split_slash_rendered [of "[]" p]
  by (simp add: throw_at_def pointer_tokens_def unescape_rendered)

text \<open>naming a child of the place of an error appends one token to its path and naming a
  parent prepends one, both without touching the message.\<close>

theorem child_and_parent_tokens:
  "pointer_tokens (err_path (with_child k (throw_at p msg))) = map segment_token p @ [k] \<and>
   pointer_tokens (err_path (with_parent k (throw_at p msg))) = k # map segment_token p \<and>
   message (with_child k e) = message e \<and> message (with_parent k e) = message e"
proof -
  have seg: "CHR ''/'' # escaped k = current_path [key_segment k]"
    by (simp add: current_path_eq rendered_def key_segment_def)
  have token: "segment_token (key_segment k) = k"
    by (simp add: segment_token_def key_segment_def)
  have child: "err_path (with_child k (throw_at p msg)) = current_path (p @ [key_segment k])"
    by (simp add: with_child_def throw_at_def append_escaped_eq seg current_path_append)
  have parent: "err_path (with_parent k (throw_at p msg)) = current_path (key_segment k # p)"
    using seg current_path_append [of "[key_segment k]" p]
    by (simp add: with_parent_def throw_at_def append_escaped_eq)
  show ?thesis
    using split_slash_rendered [of "[]" "p @ [key_segment k]"] split_slash_rendered [of "[]" "key_segment k # p"]
    by (simp add: child parent pointer_tokens_def unescape_rendered token)
      (simp add: with_child_def with_parent_def)
qed

end
