(* ===== verification/Ieee.thy ===== *)
theory Ieee
  imports Prelude
begin

text \<open>
  The floating-point types of the program, as IEEE 754 bit patterns: \<open>double\<close> is a 64-bit word
  and \<open>float\<close> a 32-bit word, the view that \<open>std::bit_cast\<close> gives of them. The magnitude bits
  of a finite number, read as an integer, stand for a natural number of units of the least
  subnormal; rounding to nearest, ties to even, is integer arithmetic on that scale.
\<close>

section \<open>Magnitudes\<close>

datatype precision = Binary32 | Binary64

fun fraction_bits :: "precision \<Rightarrow> nat" where
  "fraction_bits Binary32 = 23"
| "fraction_bits Binary64 = 52"

text \<open>The magnitude of infinity; every smaller magnitude is finite.\<close>

fun infinity :: "precision \<Rightarrow> nat" where
  "infinity Binary32 = 255 * 2 ^ 23"
| "infinity Binary64 = 2047 * 2 ^ 52"

text \<open>The least subnormal is \<open>2 ^ - unit_exponent p\<close>.\<close>

fun unit_exponent :: "precision \<Rightarrow> nat" where
  "unit_exponent Binary32 = 149"
| "unit_exponent Binary64 = 1074"

definition units :: "precision \<Rightarrow> nat \<Rightarrow> nat" where
  "units p b =
     (let f = 2 ^ fraction_bits p; e = b div f
      in if e = 0 then b else (f + b mod f) * 2 ^ (e - 1))"

text \<open>The number of low bits that do not fit in the significand of a format.\<close>

function excess :: "precision \<Rightarrow> nat \<Rightarrow> nat" where
  "excess p q = (if q < 2 * 2 ^ fraction_bits p then 0 else Suc (excess p (q div 2)))"
  by pat_completeness auto
termination
proof (relation "measure snd")
  fix p and q :: nat
  assume "\<not> q < 2 * 2 ^ fraction_bits p"
  then have "0 < q" by (cases q) simp_all
  then show "((p, q div 2), p, q) \<in> measure snd" by simp
qed simp

declare excess.simps [simp del]

definition round_units :: "precision \<Rightarrow> nat \<Rightarrow> nat \<Rightarrow> nat" where
  "round_units p a d =
     (let q = a div d; k = excess p q; m = q div 2 ^ k;
          r = a - m * 2 ^ k * d; step = 2 ^ k * d;
          up = (if 2 * r > step \<or> (2 * r = step \<and> odd m) then 1 else 0)
      in min (infinity p) (k * 2 ^ fraction_bits p + m + up))"

section \<open>Conversions\<close>

definition double_of :: "bool \<Rightarrow> nat \<Rightarrow> 64 word" where
  "double_of negative b = word_of_nat (b + (if negative then 2 ^ 63 else 0))"

definition float_of :: "bool \<Rightarrow> nat \<Rightarrow> 32 word" where
  "float_of negative b = word_of_nat (b + (if negative then 2 ^ 31 else 0))"

definition double_negative :: "64 word \<Rightarrow> bool" where
  "double_negative x \<longleftrightarrow> 2 ^ 63 \<le> unat x"

definition double_magnitude :: "64 word \<Rightarrow> nat" where
  "double_magnitude x = unat x mod 2 ^ 63"

definition float_negative :: "32 word \<Rightarrow> bool" where
  "float_negative x \<longleftrightarrow> 2 ^ 31 \<le> unat x"

definition float_magnitude :: "32 word \<Rightarrow> nat" where
  "float_magnitude x = unat x mod 2 ^ 31"

definition double_finite :: "64 word \<Rightarrow> bool" where
  "double_finite x \<longleftrightarrow> double_magnitude x < infinity Binary64"

definition float_finite :: "32 word \<Rightarrow> bool" where
  "float_finite x \<longleftrightarrow> float_magnitude x < infinity Binary32"

text \<open>\<open>static_cast<double>\<close> of an integer.\<close>

definition double_of_int :: "int \<Rightarrow> 64 word" where
  "double_of_int i = double_of (i < 0) (round_units Binary64 (nat \<bar>i\<bar> * 2 ^ 1074) 1)"

text \<open>
  \<open>static_cast<double>\<close> of a float and \<open>static_cast<float>\<close> of a double. A NaN keeps its sign
  and the leading bits of its payload and becomes quiet.
\<close>

definition widen :: "32 word \<Rightarrow> 64 word" where
  "widen x =
     (let b = float_magnitude x
      in double_of (float_negative x)
           (if b < infinity Binary32 then round_units Binary64 (units Binary32 b * 2 ^ 925) 1
            else if b = infinity Binary32 then infinity Binary64
            else infinity Binary64 + 2 ^ 51 + (b mod 2 ^ 22) * 2 ^ 29))"

definition narrow :: "64 word \<Rightarrow> 32 word" where
  "narrow x =
     (let b = double_magnitude x
      in float_of (double_negative x)
           (if b < infinity Binary64 then round_units Binary32 (units Binary64 b) (2 ^ 925)
            else if b = infinity Binary64 then infinity Binary32
            else infinity Binary32 + 2 ^ 22 + (b mod 2 ^ 51) div 2 ^ 29))"

text \<open>\<open>static_cast<double>(std::numeric_limits<float>::max())\<close>, as a magnitude.\<close>

definition float_max :: nat where
  "float_max = 0x47EFFFFFE0000000"

text \<open>A NaN that arithmetic leaves as it is.\<close>

definition float_settled :: "32 word \<Rightarrow> bool" where
  "float_settled x \<longleftrightarrow> float_magnitude x \<le> infinity Binary32 \<or> bit x 22"

section \<open>Rounding is exact on representable numbers\<close>

lemma excess_scaled:
  assumes "m < 2 * 2 ^ fraction_bits p" "2 ^ fraction_bits p \<le> m"
  shows "excess p (m * 2 ^ j) = j"
proof (induction j)
  case 0
  with assms show ?case by (simp add: excess.simps)
next
  case (Suc j)
  have "2 ^ fraction_bits p \<le> m * 2 ^ j" using mult_le_mono [OF assms(2), of 1 "2 ^ j"] by simp
  then have "\<not> m * 2 ^ Suc j < 2 * 2 ^ fraction_bits p" by simp
  then have "excess p (m * 2 ^ Suc j) = Suc (excess p (m * 2 ^ Suc j div 2))"
    by (subst excess.simps) simp
  also have "m * 2 ^ Suc j div 2 = m * 2 ^ j" by simp
  finally show ?case by (simp only: Suc)
qed

lemma excess_le: "q < 2 ^ (Suc (fraction_bits p) + j) \<Longrightarrow> excess p q \<le> j"
proof (induction j arbitrary: q)
  case 0
  then show ?case by (simp add: excess.simps)
next
  case (Suc j)
  then have "q div 2 < 2 ^ (Suc (fraction_bits p) + j)" by simp
  with Suc.IH show ?case by (subst excess.simps) simp
qed

lemma excess_bounds:
  "q div 2 ^ excess p q < 2 * 2 ^ fraction_bits p \<and>
     (excess p q = 0 \<or> 2 ^ fraction_bits p \<le> q div 2 ^ excess p q)"
proof (induction p q rule: excess.induct)
  case (1 p q)
  show ?case
  proof (cases "q < 2 * 2 ^ fraction_bits p")
    case True
    then show ?thesis by (simp add: excess.simps)
  next
    case False
    have step: "excess p q = Suc (excess p (q div 2))" using False by (simp add: excess.simps [of p q])
    have half: "q div 2 ^ Suc (excess p (q div 2)) = q div 2 div 2 ^ excess p (q div 2)"
      by (simp add: div_mult2_eq)
    from 1 [OF False] False show ?thesis
      unfolding step half by (cases "excess p (q div 2) = 0") auto
  qed
qed

text \<open>The magnitude with a given exponent offset and significand.\<close>

lemma units_scaled:
  assumes "m < 2 * 2 ^ fraction_bits p" "k = 0 \<or> 2 ^ fraction_bits p \<le> m"
  shows "units p (k * 2 ^ fraction_bits p + m) = m * 2 ^ k"
proof (cases "m < 2 ^ fraction_bits p")
  case True
  with assms show ?thesis by (simp add: units_def)
next
  case False
  define n where "n = m - 2 ^ fraction_bits p"
  have n: "m = 2 ^ fraction_bits p + n" "n < 2 ^ fraction_bits p"
    using False assms(1) by (simp_all add: n_def)
  have "k * 2 ^ fraction_bits p + m = n + Suc k * 2 ^ fraction_bits p" using n(1) by simp
  then have "(k * 2 ^ fraction_bits p + m) div 2 ^ fraction_bits p = Suc k"
    "(k * 2 ^ fraction_bits p + m) mod 2 ^ fraction_bits p = n"
    using n(2) by (simp_all only: div_mult_self1 mod_mult_self1) simp_all
  then show ?thesis using n(1) by (simp add: units_def)
qed

lemma units_parts:
  obtains m k where "b = k * 2 ^ fraction_bits p + m" "m < 2 * 2 ^ fraction_bits p"
    "k = 0 \<or> 2 ^ fraction_bits p \<le> m" "units p b = m * 2 ^ k"
proof -
  let ?f = "2 ^ fraction_bits p :: nat"
  show thesis
  proof (cases "b div ?f")
    case 0
    then have "b < ?f" by (simp add: div_eq_0_iff)
    then show thesis using that [of 0 b] units_scaled [of b p 0] by simp
  next
    case (Suc k)
    have "b = k * ?f + (?f + b mod ?f)" using Suc div_mult_mod_eq [of b ?f] by simp
    moreover have "?f + b mod ?f < 2 * ?f" by simp
    ultimately show thesis
      using that [of k "?f + b mod ?f"] units_scaled [of "?f + b mod ?f" p k] by simp
  qed
qed

lemma round_units_scaled:
  assumes "0 < d" "m < 2 * 2 ^ fraction_bits p" "k = 0 \<or> 2 ^ fraction_bits p \<le> m"
  shows "round_units p (m * 2 ^ k * d) d = min (infinity p) (k * 2 ^ fraction_bits p + m)"
proof -
  have "excess p (m * 2 ^ k) = k"
  proof (cases "2 ^ fraction_bits p \<le> m")
    case True
    with assms show ?thesis by (intro excess_scaled)
  next
    case False
    with assms show ?thesis by (simp add: excess.simps)
  qed
  with assms(1) show ?thesis by (simp add: round_units_def)
qed

lemma round_units_exact:
  "0 < d \<Longrightarrow> round_units p (units p b * d) d = min (infinity p) b"
  by (rule units_parts [of b p]) (simp add: round_units_scaled)

text \<open>A natural number of units with a short significand is a magnitude of the format.\<close>

lemma units_representable:
  assumes "q = m * 2 ^ j" "m < 2 * 2 ^ fraction_bits p"
  shows "\<exists>b. units p b = q \<and> b < Suc (Suc j) * 2 ^ fraction_bits p"
proof -
  define k where "k = excess p q"
  have "m * 2 ^ j < (2 * 2 ^ fraction_bits p) * 2 ^ j" using assms(2) by simp
  then have "k \<le> j" using assms(1) excess_le [of q p j] by (simp add: k_def power_add)
  then have "2 ^ k dvd q" using assms(1) by (simp add: le_imp_power_dvd)
  then have q: "q div 2 ^ k * 2 ^ k = q" by simp
  have bounds: "q div 2 ^ k < 2 * 2 ^ fraction_bits p" "k = 0 \<or> 2 ^ fraction_bits p \<le> q div 2 ^ k"
    using excess_bounds [of q p] by (auto simp: k_def)
  have "k * 2 ^ fraction_bits p + q div 2 ^ k < k * 2 ^ fraction_bits p + 2 * 2 ^ fraction_bits p"
    using bounds(1) by simp
  also have "\<dots> \<le> Suc (Suc j) * 2 ^ fraction_bits p"
    using \<open>k \<le> j\<close> mult_le_mono1 [of "k + 2" "Suc (Suc j)" "2 ^ fraction_bits p"]
    by (simp add: add_mult_distrib)
  finally show ?thesis
    using units_scaled [OF bounds] q by (intro exI [of _ "k * 2 ^ fraction_bits p + q div 2 ^ k"]) simp
qed

lemma double_of_parts:
  assumes "b < 2 ^ 63"
  shows "double_magnitude (double_of s b) = b" "double_negative (double_of s b) = s"
proof -
  have "unat (double_of s b) = b + (if s then 2 ^ 63 else 0)"
    using assms by (subst double_of_def, subst unat_of_nat) simp
  with assms show "double_magnitude (double_of s b) = b" "double_negative (double_of s b) = s"
    by (simp_all add: double_magnitude_def double_negative_def)
qed

lemma float_of_parts:
  assumes "b < 2 ^ 31"
  shows "float_magnitude (float_of s b) = b" "float_negative (float_of s b) = s"
proof -
  have "unat (float_of s b) = b + (if s then 2 ^ 31 else 0)"
    using assms by (subst float_of_def, subst unat_of_nat) simp
  with assms show "float_magnitude (float_of s b) = b" "float_negative (float_of s b) = s"
    by (simp_all add: float_magnitude_def float_negative_def)
qed

lemma double_of_magnitude [simp]: "double_of (double_negative x) (double_magnitude x) = x"
proof -
  have "unat x < 2 ^ 64" using unsigned_less [of x, where 'a = nat] by simp
  then have "double_magnitude x + (if double_negative x then 2 ^ 63 else 0) = unat x"
    by (auto simp: double_magnitude_def double_negative_def le_mod_geq)
  then show ?thesis by (simp add: double_of_def del: of_nat_add)
qed

lemma float_of_magnitude [simp]: "float_of (float_negative x) (float_magnitude x) = x"
proof -
  have "unat x < 2 ^ 32" using unsigned_less [of x, where 'a = nat] by simp
  then have "float_magnitude x + (if float_negative x then 2 ^ 31 else 0) = unat x"
    by (auto simp: float_magnitude_def float_negative_def le_mod_geq)
  then show ?thesis by (simp add: float_of_def del: of_nat_add)
qed

lemma widen_units:
  assumes "b < infinity Binary32"
  obtains c where "round_units Binary64 (units Binary32 b * 2 ^ 925) 1 = c"
    "c < infinity Binary64" "units Binary64 c = units Binary32 b * 2 ^ 925"
proof -
  obtain m k where b: "b = k * 2 ^ 23 + m" "m < 2 * 2 ^ 23" "units Binary32 b = m * 2 ^ k"
    by (rule units_parts [of b Binary32]) auto
  have "k < 255" using b(1) assms by simp
  have "\<exists>c. units Binary64 c = m * 2 ^ (k + 925) \<and> c < Suc (Suc (k + 925)) * 2 ^ fraction_bits Binary64"
    using b(2) by (intro units_representable [OF refl]) simp
  then obtain c where c: "units Binary64 c = m * 2 ^ (k + 925)" "c < (k + 927) * 2 ^ 52"
    by auto
  have "(k + 927) * 2 ^ 52 \<le> infinity Binary64" using \<open>k < 255\<close> by simp
  with c(2) have "c < infinity Binary64" by (rule less_le_trans)
  moreover have "units Binary64 c = units Binary32 b * 2 ^ 925"
    using c(1) b(3) by (simp only: power_add mult.assoc)
  moreover have "round_units Binary64 (units Binary64 c * 1) 1 = c"
    using \<open>c < infinity Binary64\<close> by (subst round_units_exact) simp_all
  ultimately show thesis using that [of c] by (simp only: mult_1_right)
qed

lemma float_settled_payload:
  assumes "float_settled x" "infinity Binary32 < float_magnitude x"
  shows "float_magnitude x = infinity Binary32 + 2 ^ 22 + float_magnitude x mod 2 ^ 22"
proof -
  have "bit x 22" using assms by (auto simp: float_settled_def)
  then have "odd (unat x div 2 ^ 22)" by (simp only: bit_iff_odd [symmetric]) (simp add: bit_unsigned_iff)
  moreover have "unat x mod 2 ^ 31 div 2 ^ 22 = unat x div 2 ^ 22 mod 2 ^ 9"
    using div_exp_mod_exp_eq [of "unat x" 22 9] by simp
  ultimately have "odd (float_magnitude x div 2 ^ 22)"
    by (simp add: float_magnitude_def) (metis dvd_mod_iff even_numeral)
  moreover have "float_magnitude x < 2 ^ 31" by (simp add: float_magnitude_def)
  then have "float_magnitude x div 2 ^ 22 < 512" by (simp add: less_mult_imp_div_less)
  moreover have "510 \<le> float_magnitude x div 2 ^ 22"
    using div_le_mono [of "infinity Binary32" "float_magnitude x" "2 ^ 22"] assms(2) by simp
  moreover have "n = 511" if "odd n" "n < 512" "510 \<le> n" for n :: nat
    using that by presburger
  ultimately have "float_magnitude x div 2 ^ 22 = 511" by blast
  then show ?thesis using div_mult_mod_eq [of "float_magnitude x" "2 ^ 22"] by simp
qed

lemma narrow_widen: "float_settled x \<Longrightarrow> narrow (widen x) = x"
proof -
  assume settled: "float_settled x"
  let ?b = "float_magnitude x"
  consider "?b < infinity Binary32" | "?b = infinity Binary32" | "infinity Binary32 < ?b"
    by linarith
  then show ?thesis
  proof cases
    case 1
    then obtain c where c: "round_units Binary64 (units Binary32 ?b * 2 ^ 925) 1 = c"
      "c < infinity Binary64" "units Binary64 c = units Binary32 ?b * 2 ^ 925"
      by (rule widen_units)
    then have "c < 2 ^ 63" by simp
    moreover have "widen x = double_of (float_negative x) c"
      using 1 c(1) by (simp only: widen_def Let_def if_True)
    moreover have "round_units Binary32 (units Binary64 c) (2 ^ 925) = ?b"
      using round_units_exact [of "2 ^ 925" Binary32 ?b] 1 c(3) by simp
    ultimately show ?thesis using c(2)
      by (simp only: narrow_def Let_def double_of_parts if_True float_of_magnitude)
  next
    case 2
    then have "widen x = double_of (float_negative x) (infinity Binary64)"
      by (simp add: widen_def del: infinity.simps)
    moreover have "infinity Binary64 < 2 ^ 63" by simp
    ultimately show ?thesis using 2 float_of_magnitude [of x]
      by (simp add: narrow_def double_of_parts del: infinity.simps float_of_magnitude)
  next
    case 3
    let ?c = "infinity Binary64 + 2 ^ 51 + (?b mod 2 ^ 22) * 2 ^ 29"
    have widened: "widen x = double_of (float_negative x) ?c"
      using 3 by (simp add: widen_def del: infinity.simps)
    have payload: "(?b mod 2 ^ 22) * 2 ^ 29 < 2 ^ 51" by simp
    then have "?c < 2 ^ 63" by simp
    moreover have "?c mod 2 ^ 51 = (?b mod 2 ^ 22) * 2 ^ 29"
    proof -
      have "?c = (?b mod 2 ^ 22) * 2 ^ 29 + 4095 * 2 ^ 51" by simp
      then show ?thesis using payload by (simp only: mod_mult_self3 mod_mult_self1 mod_less)
    qed
    moreover have "\<not> ?c < infinity Binary64" "?c \<noteq> infinity Binary64" by simp_all
    ultimately have "narrow (widen x) = float_of (float_negative x) (infinity Binary32 + 2 ^ 22 + ?b mod 2 ^ 22)"
      by (simp only: widened narrow_def Let_def double_of_parts if_False) simp
    with float_settled_payload [OF settled 3] show ?thesis by simp
  qed
qed

lemma units_Suc: "units p b < units p (Suc b)"
proof -
  obtain m k where b: "b = k * 2 ^ fraction_bits p + m" "m < 2 * 2 ^ fraction_bits p"
    "k = 0 \<or> 2 ^ fraction_bits p \<le> m" "units p b = m * 2 ^ k"
    by (rule units_parts)
  have "units p (Suc b) = Suc m * 2 ^ k"
  proof (cases "Suc m < 2 * 2 ^ fraction_bits p")
    case True
    with units_scaled [of "Suc m" p k] b show ?thesis by auto
  next
    case False
    with b(2) have m: "Suc m = 2 * 2 ^ fraction_bits p" by linarith
    then have "Suc b = Suc k * 2 ^ fraction_bits p + 2 ^ fraction_bits p"
      using b(1) by (simp add: add_mult_distrib)
    then show ?thesis using units_scaled [of "2 ^ fraction_bits p" p "Suc k"] by (simp add: m)
  qed
  with b(4) show ?thesis by simp
qed

lemma units_less: "b < c \<Longrightarrow> units p b < units p c"
  using units_Suc by (rule lift_Suc_mono_less)

lemma widen_in_range: "\<not> (double_finite (widen x) \<and> float_max < double_magnitude (widen x))"
proof
  assume wide: "double_finite (widen x) \<and> float_max < double_magnitude (widen x)"
  let ?b = "float_magnitude x"
  show False
  proof (cases "?b < infinity Binary32")
    case True
    then obtain c where c: "round_units Binary64 (units Binary32 ?b * 2 ^ 925) 1 = c"
      "c < infinity Binary64" "units Binary64 c = units Binary32 ?b * 2 ^ 925"
      by (rule widen_units)
    have "c < 2 ^ 63" using c(2) by simp
    moreover have "widen x = double_of (float_negative x) c"
      using True c(1) by (simp only: widen_def Let_def if_True)
    ultimately have "float_max < c" using wide by (simp add: double_of_parts)
    then have "units Binary64 float_max < units Binary64 c" by (rule units_less)
    moreover have "units Binary64 float_max = units Binary32 0x7F7FFFFF * 2 ^ 925"
      by (simp add: units_def float_max_def)
    ultimately have "units Binary32 0x7F7FFFFF < units Binary32 ?b" using c(3) by simp
    moreover have "?b \<le> 0x7F7FFFFF" using True by simp
    ultimately show False using units_less [of ?b "0x7F7FFFFF" Binary32] by (cases "?b = 0x7F7FFFFF") auto
  next
    case False
    let ?c = "if ?b = infinity Binary32 then infinity Binary64
      else infinity Binary64 + 2 ^ 51 + (?b mod 2 ^ 22) * 2 ^ 29"
    have "(?b mod 2 ^ 22) * 2 ^ 29 < 2 ^ 51" by simp
    then have "?c < 2 ^ 63" "infinity Binary64 \<le> ?c" by simp_all
    moreover have "widen x = double_of (float_negative x) ?c"
      using False by (simp add: widen_def del: infinity.simps)
    ultimately show False using wide by (simp add: double_finite_def double_of_parts del: infinity.simps)
  qed
qed

end
