(* ===== verification/Data_Model.thy ===== *)
theory Data_Model
  imports Error_Path Ieee
begin

text \<open>
  The data model of serialization and the two interfaces that every format backend implements:
  \<open>include/reflgen/serial/writer.h\<close> and \<open>include/reflgen/serial/reader.h\<close>. A C++ abstract class
  is a record of its virtual functions over a state; a call takes the state and returns the
  message of the exception it throws or its result with the new state. The locales state what a
  backend promises to the serialization layer.
\<close>

section \<open>Values\<close>

datatype value_kind = KNull | KBoolean | KInteger | KFloating | KString | KBytes | KArray | KObject

text \<open>
  A value of the data model: what one complete sequence of writer calls describes. Integers are
  signed or unsigned 64-bit words, floating-point numbers are bit patterns.
\<close>

datatype node =
    NNull
  | NBool bool
  | NInt "64 word"
  | NUint "64 word"
  | NFloat "64 word"
  | NFloat32 "32 word"
  | NString string
  | NBytes "byte list"
  | NArray "node list"
  | NObject "(string \<times> node) list"

section \<open>The interfaces\<close>

record 'w writer =
  write_null :: "'w \<Rightarrow> 'w fallible"
  write_bool :: "bool \<Rightarrow> 'w \<Rightarrow> 'w fallible"
  write_int :: "64 word \<Rightarrow> 'w \<Rightarrow> 'w fallible"
  write_uint :: "64 word \<Rightarrow> 'w \<Rightarrow> 'w fallible"
  write_float :: "64 word \<Rightarrow> 'w \<Rightarrow> 'w fallible"
  write_float32 :: "32 word \<Rightarrow> 'w \<Rightarrow> 'w fallible"
  write_string :: "string \<Rightarrow> 'w \<Rightarrow> 'w fallible"
  write_bytes :: "byte list \<Rightarrow> 'w \<Rightarrow> 'w fallible"
  prefer_inline :: "'w \<Rightarrow> 'w fallible"
  begin_array :: "nat \<Rightarrow> 'w \<Rightarrow> 'w fallible"
  end_array :: "'w \<Rightarrow> 'w fallible"
  begin_object :: "nat \<Rightarrow> 'w \<Rightarrow> 'w fallible"
  write_key :: "string \<Rightarrow> 'w \<Rightarrow> 'w fallible"
  end_object :: "'w \<Rightarrow> 'w fallible"

text \<open>The two functions of \<open>writer\<close> with a default implementation.\<close>

definition default_write_float32 :: "(64 word \<Rightarrow> 'w \<Rightarrow> 'w fallible) \<Rightarrow> 32 word \<Rightarrow> 'w \<Rightarrow> 'w fallible" where
  "default_write_float32 wide x w = wide (widen x) w"

definition default_prefer_inline :: "'w \<Rightarrow> 'w fallible" where
  "default_prefer_inline w = Inr w"

record 'r reader =
  peek :: "'r \<Rightarrow> string + (value_kind \<times> 'r)"
  read_null :: "'r \<Rightarrow> 'r fallible"
  read_bool :: "'r \<Rightarrow> string + (bool \<times> 'r)"
  read_int :: "'r \<Rightarrow> string + (64 word \<times> 'r)"
  read_uint :: "'r \<Rightarrow> string + (64 word \<times> 'r)"
  read_float :: "'r \<Rightarrow> string + (64 word \<times> 'r)"
  read_float32 :: "'r \<Rightarrow> string + (32 word \<times> 'r)"
  read_string :: "'r \<Rightarrow> string + (string \<times> 'r)"
  read_bytes :: "'r \<Rightarrow> string + (byte list \<times> 'r)"
  begin_array_in :: "'r \<Rightarrow> string + (nat option \<times> 'r)"
  next_element :: "'r \<Rightarrow> string + (bool \<times> 'r)"
  end_array_in :: "'r \<Rightarrow> 'r fallible"
  begin_object_in :: "'r \<Rightarrow> string + (nat option \<times> 'r)"
  next_key :: "'r \<Rightarrow> string + (string option \<times> 'r)"
  end_object_in :: "'r \<Rightarrow> 'r fallible"
  skip_value :: "'r \<Rightarrow> 'r fallible"

text \<open>
  \<open>std::to_string\<close> of a double beyond the range of float, which is an integer: its digits and
  the six decimals of the \<open>f\<close> conversion. Then the default \<open>reader::read_float32\<close>.
\<close>

definition show_huge_double :: "64 word \<Rightarrow> string" where
  "show_huge_double x =
     (if double_negative x then ''-'' else []) @
     show_nat (units Binary64 (double_magnitude x) div 2 ^ 1074) @ ''.000000''"

definition default_read_float32 ::
  "('r \<Rightarrow> string + (64 word \<times> 'r)) \<Rightarrow> 'r \<Rightarrow> string + (32 word \<times> 'r)" where
  "default_read_float32 wide r =
     and_then (wide r) (\<lambda>(x, r).
       if double_finite x \<and> double_magnitude x > float_max
       then Inl (''value '' @ show_huge_double x @ '' is out of range for float'')
       else Inr (narrow x, r))"

section \<open>Writing a value of the data model\<close>

text \<open>The sequence of calls that the interface prescribes for a value.\<close>

fun write_node :: "'w writer \<Rightarrow> node \<Rightarrow> 'w \<Rightarrow> 'w fallible"
  and write_nodes :: "'w writer \<Rightarrow> node list \<Rightarrow> 'w \<Rightarrow> 'w fallible"
  and write_members :: "'w writer \<Rightarrow> (string \<times> node) list \<Rightarrow> 'w \<Rightarrow> 'w fallible" where
  "write_node W NNull w = write_null W w"
| "write_node W (NBool b) w = write_bool W b w"
| "write_node W (NInt i) w = write_int W i w"
| "write_node W (NUint i) w = write_uint W i w"
| "write_node W (NFloat x) w = write_float W x w"
| "write_node W (NFloat32 x) w = write_float32 W x w"
| "write_node W (NString s) w = write_string W s w"
| "write_node W (NBytes bs) w = write_bytes W bs w"
| "write_node W (NArray ns) w =
     and_then (begin_array W (length ns) w) (\<lambda>w. and_then (write_nodes W ns w) (end_array W))"
| "write_node W (NObject ms) w =
     and_then (begin_object W (length ms) w) (\<lambda>w. and_then (write_members W ms w) (end_object W))"
| "write_nodes W [] w = Inr w"
| "write_nodes W (n # ns) w = and_then (write_node W n w) (write_nodes W ns)"
| "write_members W [] w = Inr w"
| "write_members W ((k, n) # ms) w =
     and_then (write_key W k w) (\<lambda>w. and_then (write_node W n w) (write_members W ms))"

fun depth :: "node \<Rightarrow> nat" where
  "depth (NArray ns) = Suc (Max (set (0 # map depth ns)))"
| "depth (NObject ms) = Suc (Max (set (0 # map (depth \<circ> snd) ms)))"
| "depth n = 0"

lemma depth_le:
  "n \<in> set ns \<Longrightarrow> depth n < depth (NArray ns)"
  "m \<in> set ms \<Longrightarrow> depth (snd m) < depth (NObject ms)"
  by (auto simp: less_Suc_eq_le intro!: Max_ge)

text \<open>Induction on a value, with the hypothesis for the members of an array or object.\<close>

lemma node_induct [case_names leaf array object]:
  assumes "\<And>n. depth n = 0 \<Longrightarrow> P n"
    and "\<And>ns. (\<And>n. n \<in> set ns \<Longrightarrow> P n) \<Longrightarrow> P (NArray ns)"
    and "\<And>ms. (\<And>m. m \<in> set ms \<Longrightarrow> P (snd m)) \<Longrightarrow> P (NObject ms)"
  shows "P n"
proof (induction n)
  case (NArray ns)
  then show ?case using assms(2) by blast
next
  case (NObject ms)
  then show ?case using assms(3) by (metis prod.collapse snds.intros)
qed (auto intro: assms(1))

lemma depth_array_le: "depth (NArray ns) \<le> d \<longleftrightarrow> 0 < d \<and> list_all (\<lambda>n. depth n \<le> d - 1) ns"
  by (cases d) (auto simp: list_all_iff)

lemma depth_object_le: "depth (NObject ms) \<le> d \<longleftrightarrow> 0 < d \<and> list_all (\<lambda>m. depth (snd m) \<le> d - 1) ms"
  by (cases d) (auto simp: list_all_iff)

text \<open>The integer that a number node stands for.\<close>

fun node_integer :: "node \<Rightarrow> int option" where
  "node_integer (NInt i) = Some (sint i)"
| "node_integer (NUint i) = Some (uint i)"
| "node_integer n = None"

text \<open>
  What \<open>peek\<close> may say of a value: its kind, except that a text format carries a byte string as
  a string.
\<close>

fun kind_of :: "node \<Rightarrow> value_kind" where
  "kind_of NNull = KNull"
| "kind_of (NBool b) = KBoolean"
| "kind_of (NInt i) = KInteger"
| "kind_of (NUint i) = KInteger"
| "kind_of (NFloat x) = KFloating"
| "kind_of (NFloat32 x) = KFloating"
| "kind_of (NString s) = KString"
| "kind_of (NBytes bs) = KBytes"
| "kind_of (NArray ns) = KArray"
| "kind_of (NObject ms) = KObject"

definition peeks_as :: "value_kind \<Rightarrow> node \<Rightarrow> bool" where
  "peeks_as k n \<longleftrightarrow> k = kind_of n \<or> (k = KString \<and> kind_of n = KBytes)"

lemma peeks_as_simps [simp]:
  "peeks_as KNull n \<longleftrightarrow> n = NNull" "peeks_as k NNull \<longleftrightarrow> k = KNull"
  "peeks_as k (NString s) \<longleftrightarrow> k = KString" "peeks_as k (NInt i) \<longleftrightarrow> k = KInteger"
  "peeks_as k (NUint i) \<longleftrightarrow> k = KInteger" "peeks_as k (NArray ns) \<longleftrightarrow> k = KArray"
  "peeks_as k (NObject ms) \<longleftrightarrow> k = KObject" "peeks_as k (NBool b) \<longleftrightarrow> k = KBoolean"
  "peeks_as k (NFloat x) \<longleftrightarrow> k = KFloating" "peeks_as k (NFloat32 y) \<longleftrightarrow> k = KFloating"
  "peeks_as k (NBytes bs) \<longleftrightarrow> k = KBytes \<or> k = KString"
  by (cases n; auto simp: peeks_as_def)+

definition int64_range :: "int \<Rightarrow> bool" where
  "int64_range i \<longleftrightarrow> - (2 ^ 63) \<le> i \<and> i < 2 ^ 63"

definition uint64_range :: "int \<Rightarrow> bool" where
  "uint64_range i \<longleftrightarrow> 0 \<le> i \<and> i < 2 ^ 64"

lemma int64_sint: "int64_range (sint (x :: 64 word))"
  using sint_greater_eq [of x] sint_less [of x] by (simp add: int64_range_def)

lemma uint64_uint: "uint64_range (uint (x :: 64 word))"
  using uint_bounded [of x] by (simp add: uint64_range_def)

section \<open>What a reader promises\<close>

text \<open>
  \<open>sees r n r'\<close>: the next value of reader \<open>r\<close> is \<open>n\<close>, and \<open>r'\<close> is the reader that has consumed
  it. \<open>elements r ns r'\<close> and \<open>members r ms r'\<close>: the reader is inside an array or object that has
  the values \<open>ns\<close> or the entries \<open>ms\<close> left, and \<open>r'\<close> has closed it. A number is given at the
  width asked for or refused: no read truncates.
\<close>

locale pull_reader =
  fixes R :: "'r reader"
    and sees :: "'r \<Rightarrow> node \<Rightarrow> 'r \<Rightarrow> bool"
    and elements :: "'r \<Rightarrow> node list \<Rightarrow> 'r \<Rightarrow> bool"
    and members :: "'r \<Rightarrow> (string \<times> node) list \<Rightarrow> 'r \<Rightarrow> bool"
  assumes peek_sees: "sees r n r' \<Longrightarrow> \<exists>k r1. peek R r = Inr (k, r1) \<and> peeks_as k n \<and> sees r1 n r'"
    and null_sees: "sees r NNull r' \<Longrightarrow> read_null R r = Inr r'"
    and bool_sees: "sees r (NBool b) r' \<Longrightarrow> read_bool R r = Inr (b, r')"
    and int_sees: "sees r n r' \<Longrightarrow> node_integer n = Some i \<Longrightarrow>
      (if int64_range i then read_int R r = Inr (word_of_int i, r') else \<exists>e. read_int R r = Inl e)"
    and uint_sees: "sees r n r' \<Longrightarrow> node_integer n = Some i \<Longrightarrow>
      (if uint64_range i then read_uint R r = Inr (word_of_int i, r') else \<exists>e. read_uint R r = Inl e)"
    and float_sees: "sees r (NFloat x) r' \<Longrightarrow> read_float R r = Inr (x, r')"
    and float_of_int_sees: "sees r n r' \<Longrightarrow> node_integer n = Some i \<Longrightarrow> read_float R r = Inr (double_of_int i, r')"
    and float32_sees: "sees r (NFloat32 y) r' \<Longrightarrow> read_float32 R r = Inr (y, r')"
    and string_sees: "sees r (NString s) r' \<Longrightarrow> read_string R r = Inr (s, r')"
    and bytes_sees: "sees r (NBytes bs) r' \<Longrightarrow> read_bytes R r = Inr (bs, r')"
    and array_sees: "sees r (NArray ns) r' \<Longrightarrow> \<exists>hint r1. begin_array_in R r = Inr (hint, r1) \<and> elements r1 ns r'"
    and elements_Nil: "elements r [] r' \<Longrightarrow> \<exists>r1. next_element R r = Inr (False, r1) \<and> end_array_in R r1 = Inr r'"
    and elements_Cons: "elements r (n # ns) r' \<Longrightarrow>
      \<exists>r1 r2. next_element R r = Inr (True, r1) \<and> sees r1 n r2 \<and> elements r2 ns r'"
    and object_sees: "sees r (NObject ms) r' \<Longrightarrow> \<exists>hint r1. begin_object_in R r = Inr (hint, r1) \<and> members r1 ms r'"
    and members_Nil: "members r [] r' \<Longrightarrow> \<exists>r1. next_key R r = Inr (None, r1) \<and> end_object_in R r1 = Inr r'"
    and members_Cons: "members r ((k, n) # ms) r' \<Longrightarrow>
      \<exists>r1 r2. next_key R r = Inr (Some k, r1) \<and> sees r1 n r2 \<and> members r2 ms r'"
    and skip_sees: "sees r n r' \<Longrightarrow> skip_value R r = Inr r'"

text \<open>
  A format: a writer and a reader such that what the calls for a value produce on a fresh
  document is seen by a reader opened on the output, up to its end.
\<close>

locale format = pull_reader R sees elements members
  for R :: "'r reader" and sees elements members +
  fixes W :: "'w writer"
    and fresh :: 'w
    and complete :: "'w \<Rightarrow> bool"
    and open_reader :: "'w \<Rightarrow> 'r"
    and finish :: "'r \<Rightarrow> 'r fallible"
    and okay :: "node \<Rightarrow> bool"
  assumes written: "okay n \<Longrightarrow> \<exists>w r. write_node W n fresh = Inr w \<and> complete w \<and>
    sees (open_reader w) n r \<and> finish r = Inr r"

end
