(* ===== verification/Binary.thy ===== *)
theory Binary
  imports Data_Model
begin

text \<open>
  The binary backend: \<open>include/reflgen/binary/format.h\<close>, \<open>binary/detail/endian.h\<close>,
  \<open>binary/writer.h\<close> and \<open>binary/reader.h\<close>. The output vector and the frame stack are lists, the
  innermost frame first. Sizes are natural numbers; they enter a varint through the conversion to
  64 bits that the code performs.
\<close>

section \<open>The format\<close>

datatype tag =
    Tag_Null | Tag_False | Tag_True | Tag_Signed_Integer | Tag_Unsigned_Integer
  | Tag_Floating | Tag_String | Tag_Bytes | Tag_Array | Tag_Object

fun tag_code :: "tag \<Rightarrow> byte" where
  "tag_code Tag_Null = 0x00"
| "tag_code Tag_False = 0x01"
| "tag_code Tag_True = 0x02"
| "tag_code Tag_Signed_Integer = 0x03"
| "tag_code Tag_Unsigned_Integer = 0x04"
| "tag_code Tag_Floating = 0x05"
| "tag_code Tag_String = 0x06"
| "tag_code Tag_Bytes = 0x07"
| "tag_code Tag_Array = 0x08"
| "tag_code Tag_Object = 0x09"

text \<open>\<open>static_cast<tag>\<close> of a byte that is at most \<open>tag::object\<close>.\<close>

definition tag_of_code :: "byte \<Rightarrow> tag" where
  "tag_of_code b =
     [Tag_Null, Tag_False, Tag_True, Tag_Signed_Integer, Tag_Unsigned_Integer,
      Tag_Floating, Tag_String, Tag_Bytes, Tag_Array, Tag_Object] ! unat b"

definition little_bytes :: "64 word \<Rightarrow> byte list" where
  "little_bytes value = map (\<lambda>i. ucast (drop_bit (i * 8) value AND 0xFF)) [0..<8]"

definition little_value :: "byte list \<Rightarrow> 64 word" where
  "little_value bytes = foldl (\<lambda>value i. value OR push_bit (i * 8) (ucast (bytes ! i))) 0 [0..<8]"

section \<open>The writer\<close>

record bin_writer_frame =
  bwf_is_object :: bool
  bwf_remaining :: nat
  bwf_awaiting_value :: bool

record bin_writer =
  bw_output :: "byte list"
  bw_max_depth :: nat
  bw_stack :: "bin_writer_frame list"
  bw_root_started :: bool

definition bin_writer :: "nat \<Rightarrow> bin_writer" where
  "bin_writer limit = \<lparr>bw_output = [], bw_max_depth = limit, bw_stack = [], bw_root_started = False\<rparr>"

definition put_bytes :: "byte list \<Rightarrow> bin_writer \<Rightarrow> bin_writer" where
  "put_bytes bs w = w\<lparr>bw_output := bw_output w @ bs\<rparr>"

definition put_tag :: "tag \<Rightarrow> bin_writer \<Rightarrow> bin_writer" where
  "put_tag t w = put_bytes [tag_code t] w"

function put_varint :: "64 word \<Rightarrow> bin_writer \<Rightarrow> bin_writer" where
  "put_varint value w =
     (if value \<ge> 0x80
      then put_varint (drop_bit 7 value) (put_bytes [ucast ((value AND 0x7F) OR 0x80)] w)
      else put_bytes [ucast value] w)"
  by pat_completeness auto
termination
proof (relation "measure (unat \<circ> fst)")
  fix v :: "64 word" and w :: bin_writer
  assume "v \<ge> 0x80"
  then have "0x80 \<le> unat v" by (simp add: word_le_nat_alt)
  then have "unat v div 2 ^ 7 < unat v" by simp
  then show "((drop_bit 7 v, put_bytes [ucast ((v AND 0x7F) OR 0x80)] w), v, w) \<in> measure (unat \<circ> fst)"
    by (simp add: unat_div drop_bit_eq_div)
qed simp

declare put_varint.simps [simp del]

definition put_text :: "string \<Rightarrow> bin_writer \<Rightarrow> bin_writer" where
  "put_text text w = put_bytes (map byte_of_char text) (put_varint (word_of_nat (length text)) w)"

definition bin_check_depth :: "bin_writer \<Rightarrow> unit fallible" where
  "bin_check_depth w =
     guard (\<not> length (bw_stack w) \<ge> bw_max_depth w)
       (''binary writer: nesting is deeper than '' @ show_nat (bw_max_depth w))"

definition bin_begin_value :: "bin_writer \<Rightarrow> bin_writer fallible" where
  "bin_begin_value w =
     (case bw_stack w of
        [] \<Rightarrow> if bw_root_started w then Inl ''binary writer: a document holds exactly one root value''
             else Inr (w\<lparr>bw_root_started := True\<rparr>)
      | frame # rest \<Rightarrow>
          if bwf_is_object frame
          then if \<not> bwf_awaiting_value frame
               then Inl ''binary writer: write_key must precede each value inside an object''
               else Inr (w\<lparr>bw_stack := frame\<lparr>bwf_awaiting_value := False\<rparr> # rest\<rparr>)
          else if bwf_remaining frame = 0
               then Inl ''binary writer: more elements than declared in begin_array''
               else Inr (w\<lparr>bw_stack := frame\<lparr>bwf_remaining := bwf_remaining frame - 1\<rparr> # rest\<rparr>))"

definition bin_close :: "bin_writer \<Rightarrow> bin_writer fallible" where
  "bin_close w =
     (if bwf_remaining (hd (bw_stack w)) \<noteq> 0 then Inl ''binary writer: fewer elements than declared''
      else Inr (w\<lparr>bw_stack := tl (bw_stack w)\<rparr>))"

definition bin_write_null :: "bin_writer \<Rightarrow> bin_writer fallible" where
  "bin_write_null w = and_then (bin_begin_value w) (\<lambda>w. Inr (put_tag Tag_Null w))"

definition bin_write_bool :: "bool \<Rightarrow> bin_writer \<Rightarrow> bin_writer fallible" where
  "bin_write_bool value w =
     and_then (bin_begin_value w) (\<lambda>w. Inr (put_tag (if value then Tag_True else Tag_False) w))"

definition zigzag :: "64 word \<Rightarrow> 64 word" where
  "zigzag value = push_bit 1 value XOR signed_drop_bit 63 value"

definition bin_write_int :: "64 word \<Rightarrow> bin_writer \<Rightarrow> bin_writer fallible" where
  "bin_write_int value w =
     and_then (bin_begin_value w) (\<lambda>w. Inr (put_varint (zigzag value) (put_tag Tag_Signed_Integer w)))"

definition bin_write_uint :: "64 word \<Rightarrow> bin_writer \<Rightarrow> bin_writer fallible" where
  "bin_write_uint value w =
     and_then (bin_begin_value w) (\<lambda>w. Inr (put_varint value (put_tag Tag_Unsigned_Integer w)))"

definition bin_write_float :: "64 word \<Rightarrow> bin_writer \<Rightarrow> bin_writer fallible" where
  "bin_write_float value w =
     and_then (bin_begin_value w) (\<lambda>w. Inr (put_bytes (little_bytes value) (put_tag Tag_Floating w)))"

definition bin_write_string :: "string \<Rightarrow> bin_writer \<Rightarrow> bin_writer fallible" where
  "bin_write_string value w =
     and_then (bin_begin_value w) (\<lambda>w. Inr (put_text value (put_tag Tag_String w)))"

definition bin_write_bytes :: "byte list \<Rightarrow> bin_writer \<Rightarrow> bin_writer fallible" where
  "bin_write_bytes value w =
     and_then (bin_begin_value w) (\<lambda>w.
       Inr (put_bytes value (put_varint (word_of_nat (length value)) (put_tag Tag_Bytes w))))"

definition bin_push_frame :: "bool \<Rightarrow> nat \<Rightarrow> bin_writer \<Rightarrow> bin_writer" where
  "bin_push_frame object count w =
     w\<lparr>bw_stack := \<lparr>bwf_is_object = object, bwf_remaining = count, bwf_awaiting_value = False\<rparr> # bw_stack w\<rparr>"

definition bin_begin_array :: "nat \<Rightarrow> bin_writer \<Rightarrow> bin_writer fallible" where
  "bin_begin_array count w =
     and_then (bin_check_depth w) (\<lambda>_.
     and_then (bin_begin_value w) (\<lambda>w.
       Inr (bin_push_frame False count (put_varint (word_of_nat count) (put_tag Tag_Array w)))))"

definition bin_end_array :: "bin_writer \<Rightarrow> bin_writer fallible" where
  "bin_end_array w =
     (if bw_stack w = [] \<or> bwf_is_object (hd (bw_stack w))
      then Inl ''binary writer: end_array without a matching begin_array''
      else bin_close w)"

definition bin_begin_object :: "nat \<Rightarrow> bin_writer \<Rightarrow> bin_writer fallible" where
  "bin_begin_object count w =
     and_then (bin_check_depth w) (\<lambda>_.
     and_then (bin_begin_value w) (\<lambda>w.
       Inr (bin_push_frame True count (put_varint (word_of_nat count) (put_tag Tag_Object w)))))"

definition bin_write_key :: "string \<Rightarrow> bin_writer \<Rightarrow> bin_writer fallible" where
  "bin_write_key key w =
     (case bw_stack w of
        [] \<Rightarrow> Inl ''binary writer: write_key is only valid inside an object, before a value''
      | frame # rest \<Rightarrow>
          if \<not> bwf_is_object frame \<or> bwf_awaiting_value frame
          then Inl ''binary writer: write_key is only valid inside an object, before a value''
          else if bwf_remaining frame = 0
          then Inl ''binary writer: more keys than declared in begin_object''
          else Inr (put_text key (w\<lparr>bw_stack :=
                 frame\<lparr>bwf_remaining := bwf_remaining frame - 1, bwf_awaiting_value := True\<rparr> # rest\<rparr>)))"

definition bin_end_object :: "bin_writer \<Rightarrow> bin_writer fallible" where
  "bin_end_object w =
     (case bw_stack w of
        [] \<Rightarrow> Inl ''binary writer: end_object without a matching begin_object''
      | frame # rest \<Rightarrow>
          if \<not> bwf_is_object frame \<or> bwf_awaiting_value frame
          then Inl ''binary writer: end_object without a matching begin_object''
          else bin_close w)"

definition bin_complete :: "bin_writer \<Rightarrow> bool" where
  "bin_complete w \<longleftrightarrow> bw_root_started w \<and> bw_stack w = []"

definition binary_writer :: "bin_writer writer" where
  "binary_writer = \<lparr>
     write_null = bin_write_null, write_bool = bin_write_bool, write_int = bin_write_int,
     write_uint = bin_write_uint, write_float = bin_write_float,
     write_float32 = default_write_float32 bin_write_float,
     write_string = bin_write_string, write_bytes = bin_write_bytes,
     prefer_inline = default_prefer_inline,
     begin_array = bin_begin_array, end_array = bin_end_array,
     begin_object = bin_begin_object, write_key = bin_write_key, end_object = bin_end_object\<rparr>"

section \<open>The reader\<close>

record bin_reader_frame =
  brf_is_object :: bool
  brf_remaining :: nat

record bin_reader =
  br_input :: "byte list"
  br_position :: nat
  br_max_depth :: nat
  br_stack :: "bin_reader_frame list"

definition bin_reader :: "byte list \<Rightarrow> nat \<Rightarrow> bin_reader" where
  "bin_reader input limit = \<lparr>br_input = input, br_position = 0, br_max_depth = limit, br_stack = []\<rparr>"

definition bin_fail_at :: "nat \<Rightarrow> string \<Rightarrow> 'a fallible" where
  "bin_fail_at offset msg = Inl (''binary: '' @ msg @ '' at offset '' @ show_nat offset)"

definition bin_fail :: "bin_reader \<Rightarrow> string \<Rightarrow> 'a fallible" where
  "bin_fail r msg = bin_fail_at (br_position r) msg"

definition bin_skip :: "nat \<Rightarrow> bin_reader \<Rightarrow> bin_reader" where
  "bin_skip n r = r\<lparr>br_position := br_position r + n\<rparr>"

definition bin_require :: "nat \<Rightarrow> bin_reader \<Rightarrow> unit fallible" where
  "bin_require count r =
     (if length (br_input r) - br_position r < count then bin_fail r ''unexpected end of input'' else Inr ())"

definition peek_tag :: "bin_reader \<Rightarrow> tag fallible" where
  "peek_tag r =
     and_then (bin_require 1 r) (\<lambda>_.
       let value = br_input r ! br_position r
       in if value > tag_code Tag_Object then bin_fail r ''unknown tag'' else Inr (tag_of_code value))"

definition take_tag :: "bin_reader \<Rightarrow> string + (tag \<times> bin_reader)" where
  "take_tag r = and_then (peek_tag r) (\<lambda>t. Inr (t, bin_skip 1 r))"

definition expect_tag :: "tag \<Rightarrow> string \<Rightarrow> bin_reader \<Rightarrow> bin_reader fallible" where
  "expect_tag expected msg r =
     and_then (peek_tag r) (\<lambda>t. if t \<noteq> expected then bin_fail r msg else Inr (bin_skip 1 r))"

function take_varint_from :: "nat \<Rightarrow> 64 word \<Rightarrow> bin_reader \<Rightarrow> string + (64 word \<times> bin_reader)" where
  "take_varint_from shift value r =
     (if shift < 64
      then and_then (bin_require 1 r) (\<lambda>_.
             let byte = ucast (br_input r ! br_position r) :: 64 word;
                 r = bin_skip 1 r
             in if shift = 63 \<and> byte > 1 then bin_fail r ''varint overflows 64 bits''
                else let value = value OR push_bit shift (byte AND 0x7F)
                     in if byte AND 0x80 = 0 then Inr (value, r)
                        else take_varint_from (shift + 7) value r)
      else bin_fail r ''varint overflows 64 bits'')"
  by pat_completeness auto
termination by (relation "measure (\<lambda>(shift, _). 64 - shift)") auto

declare take_varint_from.simps [simp del]

definition take_varint :: "bin_reader \<Rightarrow> string + (64 word \<times> bin_reader)" where
  "take_varint r = take_varint_from 0 0 r"

definition take_length :: "nat \<Rightarrow> bin_reader \<Rightarrow> string + (nat \<times> bin_reader)" where
  "take_length minimum_item_size r =
     (let start = br_position r
      in and_then (take_varint r) (\<lambda>(len, r).
           let available = length (br_input r) - br_position r
           in if unat len > available div minimum_item_size
              then bin_fail_at start ''length exceeds the remaining input''
              else Inr (unat len, r)))"

definition take_slice :: "nat \<Rightarrow> bin_reader \<Rightarrow> byte list \<times> bin_reader" where
  "take_slice count r = (take count (drop (br_position r) (br_input r)), bin_skip count r)"

definition take_text :: "bin_reader \<Rightarrow> string + (string \<times> bin_reader)" where
  "take_text r = and_then (take_length 1 r) (\<lambda>(count, r).
     let (bytes, r) = take_slice count r in Inr (map char_of_byte bytes, r))"

definition bin_enter :: "bool \<Rightarrow> nat \<Rightarrow> bin_reader \<Rightarrow> bin_reader fallible" where
  "bin_enter object count r =
     (if length (br_stack r) \<ge> br_max_depth r
      then bin_fail r (''nesting is deeper than '' @ show_nat (br_max_depth r))
      else Inr (r\<lparr>br_stack := \<lparr>brf_is_object = object, brf_remaining = count\<rparr> # br_stack r\<rparr>))"

definition consume_slot :: "bin_reader \<Rightarrow> bool \<times> bin_reader" where
  "consume_slot r =
     (let frame = hd (br_stack r)
      in if brf_remaining frame = 0 then (False, r)
         else (True, r\<lparr>br_stack := frame\<lparr>brf_remaining := brf_remaining frame - 1\<rparr> # tl (br_stack r)\<rparr>))"

definition bin_leave :: "bin_reader \<Rightarrow> bin_reader fallible" where
  "bin_leave r =
     (if brf_remaining (hd (br_stack r)) \<noteq> 0 then bin_fail r ''container closed with unread elements''
      else Inr (r\<lparr>br_stack := tl (br_stack r)\<rparr>))"

fun tag_kind :: "tag \<Rightarrow> value_kind" where
  "tag_kind Tag_Null = KNull"
| "tag_kind Tag_False = KBoolean"
| "tag_kind Tag_True = KBoolean"
| "tag_kind Tag_Signed_Integer = KInteger"
| "tag_kind Tag_Unsigned_Integer = KInteger"
| "tag_kind Tag_Floating = KFloating"
| "tag_kind Tag_String = KString"
| "tag_kind Tag_Bytes = KBytes"
| "tag_kind Tag_Array = KArray"
| "tag_kind Tag_Object = KObject"

definition bin_peek :: "bin_reader \<Rightarrow> string + (value_kind \<times> bin_reader)" where
  "bin_peek r = and_then (peek_tag r) (\<lambda>t. Inr (tag_kind t, r))"

definition bin_read_null :: "bin_reader \<Rightarrow> bin_reader fallible" where
  "bin_read_null r = expect_tag Tag_Null ''expected null'' r"

definition bin_read_bool :: "bin_reader \<Rightarrow> string + (bool \<times> bin_reader)" where
  "bin_read_bool r =
     and_then (take_tag r) (\<lambda>(t, r).
       if t = Tag_True then Inr (True, r)
       else if t = Tag_False then Inr (False, r)
       else bin_fail_at (br_position r - 1) ''expected a boolean'')"

definition unzigzag :: "64 word \<Rightarrow> 64 word" where
  "unzigzag encoded = drop_bit 1 encoded XOR - (encoded AND 1)"

definition bin_read_int :: "bin_reader \<Rightarrow> string + (64 word \<times> bin_reader)" where
  "bin_read_int r =
     (let start = br_position r
      in and_then (take_tag r) (\<lambda>(t, r).
           if t = Tag_Signed_Integer then
             and_then (take_varint r) (\<lambda>(encoded, r). Inr (unzigzag encoded, r))
           else if t = Tag_Unsigned_Integer then
             and_then (take_varint r) (\<lambda>(encoded, r).
               if encoded > 0x7FFFFFFFFFFFFFFF then bin_fail_at start ''integer out of range for int64''
               else Inr (encoded, r))
           else bin_fail_at start ''expected an integer''))"

definition bin_read_uint :: "bin_reader \<Rightarrow> string + (64 word \<times> bin_reader)" where
  "bin_read_uint r =
     (let start = br_position r
      in and_then (take_tag r) (\<lambda>(t, r).
           if t = Tag_Unsigned_Integer then take_varint r
           else if t = Tag_Signed_Integer then
             and_then (take_varint r) (\<lambda>(encoded, r).
               let decoded = unzigzag encoded
               in if sint decoded < 0 then bin_fail_at start ''expected a non-negative integer''
                  else Inr (decoded, r))
           else bin_fail_at start ''expected a non-negative integer''))"

definition bin_read_float :: "bin_reader \<Rightarrow> string + (64 word \<times> bin_reader)" where
  "bin_read_float r =
     (let start = br_position r
      in and_then (peek_tag r) (\<lambda>t.
           if t = Tag_Signed_Integer then
             and_then (bin_read_int r) (\<lambda>(i, r). Inr (double_of_int (sint i), r))
           else if t = Tag_Unsigned_Integer then
             and_then (bin_read_uint r) (\<lambda>(i, r). Inr (double_of_int (uint i), r))
           else if t \<noteq> Tag_Floating then bin_fail_at start ''expected a number''
           else let r = bin_skip 1 r
                in and_then (bin_require 8 r) (\<lambda>_.
                     Inr (little_value (take 8 (drop (br_position r) (br_input r))), bin_skip 8 r))))"

definition bin_read_string :: "bin_reader \<Rightarrow> string + (string \<times> bin_reader)" where
  "bin_read_string r = and_then (expect_tag Tag_String ''expected a string'' r) take_text"

definition bin_read_bytes :: "bin_reader \<Rightarrow> string + (byte list \<times> bin_reader)" where
  "bin_read_bytes r =
     and_then (expect_tag Tag_Bytes ''expected bytes'' r) (\<lambda>r.
     and_then (take_length 1 r) (\<lambda>(count, r). Inr (take_slice count r)))"

definition bin_begin_array_in :: "bin_reader \<Rightarrow> string + (nat option \<times> bin_reader)" where
  "bin_begin_array_in r =
     and_then (expect_tag Tag_Array ''expected an array'' r) (\<lambda>r.
     and_then (take_length 1 r) (\<lambda>(count, r).
     and_then (bin_enter False count r) (\<lambda>r. Inr (Some count, r))))"

definition bin_next_element :: "bin_reader \<Rightarrow> string + (bool \<times> bin_reader)" where
  "bin_next_element r =
     (if br_stack r = [] \<or> brf_is_object (hd (br_stack r))
      then bin_fail r ''next_element outside of an array''
      else Inr (consume_slot r))"

definition bin_end_array_in :: "bin_reader \<Rightarrow> bin_reader fallible" where
  "bin_end_array_in r =
     (if br_stack r = [] \<or> brf_is_object (hd (br_stack r))
      then bin_fail r ''end_array outside of an array''
      else bin_leave r)"

definition bin_begin_object_in :: "bin_reader \<Rightarrow> string + (nat option \<times> bin_reader)" where
  "bin_begin_object_in r =
     and_then (expect_tag Tag_Object ''expected an object'' r) (\<lambda>r.
     and_then (take_length 2 r) (\<lambda>(count, r).
     and_then (bin_enter True count r) (\<lambda>r. Inr (Some count, r))))"

definition bin_next_key :: "bin_reader \<Rightarrow> string + (string option \<times> bin_reader)" where
  "bin_next_key r =
     (if br_stack r = [] \<or> \<not> brf_is_object (hd (br_stack r))
      then bin_fail r ''next_key outside of an object''
      else let (more, r) = consume_slot r
           in if \<not> more then Inr (None, r)
              else and_then (take_text r) (\<lambda>(key, r). Inr (Some key, r)))"

definition bin_end_object_in :: "bin_reader \<Rightarrow> bin_reader fallible" where
  "bin_end_object_in r =
     (if br_stack r = [] \<or> \<not> brf_is_object (hd (br_stack r))
      then bin_fail r ''end_object outside of an object''
      else bin_leave r)"

text \<open>
  \<open>skip_value\<close> calls itself from the loop over the elements of a container, which ends because
  every value takes at least one byte. The recursion is bounded by fuel; running out of it is the
  empty message, which no call of the code throws, and \<open>bin_skip_value\<close> provides enough for the
  bytes that are left (\<open>skip_fuel_enough\<close> below).
\<close>

fun skip_fuel :: "nat \<Rightarrow> bin_reader \<Rightarrow> bin_reader fallible"
  and skip_elements :: "nat \<Rightarrow> bin_reader \<Rightarrow> bin_reader fallible"
  and skip_entries :: "nat \<Rightarrow> bin_reader \<Rightarrow> bin_reader fallible" where
  "skip_fuel 0 r = Inl []"
| "skip_fuel (Suc fuel) r =
     and_then (bin_peek r) (\<lambda>(k, r).
       case k of
         KNull \<Rightarrow> bin_read_null r
       | KBoolean \<Rightarrow> and_then (bin_read_bool r) (\<lambda>(_, r). Inr r)
       | KInteger \<Rightarrow> and_then (bin_read_float r) (\<lambda>(_, r). Inr r)
       | KFloating \<Rightarrow> and_then (bin_read_float r) (\<lambda>(_, r). Inr r)
       | KString \<Rightarrow> and_then (bin_read_string r) (\<lambda>(_, r). Inr r)
       | KBytes \<Rightarrow> and_then (expect_tag Tag_Bytes ''expected bytes'' r) (\<lambda>r.
                   and_then (take_length 1 r) (\<lambda>(count, r). Inr (bin_skip count r)))
       | KArray \<Rightarrow> and_then (bin_begin_array_in r) (\<lambda>(_, r).
                   and_then (skip_elements fuel r) bin_end_array_in)
       | KObject \<Rightarrow> and_then (bin_begin_object_in r) (\<lambda>(_, r).
                    and_then (skip_entries fuel r) bin_end_object_in))"
| "skip_elements 0 r = Inl []"
| "skip_elements (Suc fuel) r =
     and_then (bin_next_element r) (\<lambda>(more, r).
       if more then and_then (skip_fuel fuel r) (skip_elements fuel) else Inr r)"
| "skip_entries 0 r = Inl []"
| "skip_entries (Suc fuel) r =
     and_then (bin_next_key r) (\<lambda>(key, r).
       if key \<noteq> None then and_then (skip_fuel fuel r) (skip_entries fuel) else Inr r)"

definition bin_skip_value :: "bin_reader \<Rightarrow> bin_reader fallible" where
  "bin_skip_value r = skip_fuel (2 * (length (br_input r) - br_position r) + 1) r"

definition bin_finish :: "bin_reader \<Rightarrow> bin_reader fallible" where
  "bin_finish r =
     (if br_position r \<noteq> length (br_input r) then bin_fail r ''unexpected bytes after the root value''
      else Inr r)"

definition binary_reader :: "bin_reader reader" where
  "binary_reader = \<lparr>
     peek = bin_peek, read_null = bin_read_null, read_bool = bin_read_bool, read_int = bin_read_int,
     read_uint = bin_read_uint, read_float = bin_read_float,
     read_float32 = default_read_float32 bin_read_float,
     read_string = bin_read_string, read_bytes = bin_read_bytes,
     begin_array_in = bin_begin_array_in, next_element = bin_next_element, end_array_in = bin_end_array_in,
     begin_object_in = bin_begin_object_in, next_key = bin_next_key, end_object_in = bin_end_object_in,
     skip_value = bin_skip_value\<rparr>"

end
