(* ===== verification/Binary_Format.thy ===== *)
theory Binary_Format
  imports Binary
begin

text \<open>
  What the binary backend does, stated over the byte code of a value: the code that the comment
  of \<open>binary/format.h\<close> lays out is a function of the value, the writer appends it, and the reader
  consumes it. With that the backend is a \<open>format\<close>.
\<close>

section \<open>Variable-length integers\<close>

text \<open>The code of an unsigned integer: groups of seven bits, least significant first.\<close>

function varint :: "64 word \<Rightarrow> byte list" where
  "varint v = (if v < 0x80 then [ucast v] else ucast ((v AND 0x7F) OR 0x80) # varint (drop_bit 7 v))"
  by pat_completeness auto
termination
proof (relation "measure unat")
  fix v :: "64 word"
  assume "\<not> v < 0x80"
  then have "0x80 \<le> unat v" by (simp add: not_less word_le_nat_alt)
  then have "unat v div 2 ^ 7 < unat v" by simp
  then show "(drop_bit 7 v, v) \<in> measure unat" by (simp add: unat_div drop_bit_eq_div)
qed simp

declare varint.simps [simp del]

lemma put_bytes_simps [simp]:
  "put_bytes [] w = w" "put_bytes bs (put_bytes cs w) = put_bytes (cs @ bs) w"
  by (simp_all add: put_bytes_def)

lemma put_varint_eq: "put_varint v w = put_bytes (varint v) w"
proof (induction v arbitrary: w rule: varint.induct)
  case (1 v)
  show ?case
  proof (cases "v < 0x80")
    case True
    then show ?thesis by (simp add: put_varint.simps [of v] varint.simps [of v] not_le [symmetric])
  next
    case False
    with 1 [OF False] show ?thesis by (subst put_varint.simps, subst varint.simps) simp
  qed
qed

lemma low_byte: "(v::64 word) < 0x80 \<longleftrightarrow> take_bit 7 v = v"
proof -
  have "take_bit 7 v = v \<longleftrightarrow> unat v mod 128 = unat v"
    by (simp add: word_unat_eq_iff take_bit_eq_mod unat_mod)
  also have "\<dots> \<longleftrightarrow> unat v < 128" by (metis mod_less mod_less_divisor zero_less_numeral)
  finally show ?thesis by (simp add: word_less_nat_alt)
qed


lemma and_7F: "(v :: 'a::len word) AND 0x7F = take_bit 7 v"
  by (simp add: take_bit_eq_mask mask_eq_exp_minus_1)

lemma bit_80: "bit (128 :: 'a::linordered_euclidean_semiring_bit_operations) n \<longleftrightarrow> n = 7"
proof -
  have "(128 :: 'a) = 2 ^ 7" by simp
  then show ?thesis by (simp only: bit_exp_iff) auto
qed

lemma and_80: "(v :: 'a::len word) AND 0x80 = 0 \<longleftrightarrow> \<not> bit v 7"
proof
  assume "v AND 0x80 = 0"
  then have "\<not> bit (v AND 0x80) 7" by simp
  then show "\<not> bit v 7"
    by (auto simp: bit_and_iff bit_80 dest: bit_imp_le_length)
next
  assume "\<not> bit v 7"
  then show "v AND 0x80 = 0"
    by (intro bit_word_eqI) (auto simp: bit_and_iff bit_80)
qed

lemma continuation_byte:
  fixes v :: "64 word"
  defines "b \<equiv> ucast (ucast ((v AND 0x7F) OR 0x80) :: byte) :: 64 word"
  shows "b AND 0x7F = take_bit 7 v" "b AND 0x80 \<noteq> 0"
  unfolding b_def and_7F and_80
  by (auto intro!: bit_word_eqI simp: bit_simps bit_80)

lemma final_byte:
  fixes v :: "64 word"
  assumes "v < 0x80"
  defines "b \<equiv> ucast (ucast v :: byte) :: 64 word"
  shows "b = v" "b AND 0x7F = take_bit 7 v" "b AND 0x80 = 0"
proof -
  have small: "v = take_bit 7 v" using assms(1) by (simp add: low_byte)
  then have bits: "bit v n \<Longrightarrow> n < 7" for n by (metis bit_take_bit_iff)
  show "b = v" unfolding b_def by (intro bit_word_eqI) (auto simp: bit_simps dest: bits)
  then show "b AND 0x7F = take_bit 7 v" "b AND 0x80 = 0"
    unfolding and_7F and_80 using bits by auto
qed

definition at :: "bin_reader \<Rightarrow> byte list \<Rightarrow> bool" where
  "at r bs \<longleftrightarrow> drop (br_position r) (br_input r) = bs"

lemma at_Cons: "at r (b # bs) \<Longrightarrow>
  bin_require (Suc 0) r = Inr () \<and> br_input r ! br_position r = b \<and> at (bin_skip (Suc 0) r) bs"
  unfolding at_def by (drule drop_Cons_nth) (simp add: bin_require_def bin_skip_def)

lemma at_append: "at r (bs @ cs) \<Longrightarrow> at (bin_skip (length bs) r) cs"
  unfolding at_def by (drule drop_append_shift) (simp add: bin_skip_def)

lemma bin_skip_simps [simp]:
  "bin_skip m (bin_skip n r) = bin_skip (n + m) r" "br_input (bin_skip n r) = br_input r"
  "br_position (bin_skip n r) = br_position r + n" "br_stack (bin_skip n r) = br_stack r"
  "br_max_depth (bin_skip n r) = br_max_depth r" "bin_skip 0 r = r"
  by (simp_all add: bin_skip_def)

lemma take_bit_step:
  "take_bit n V OR push_bit n (take_bit m (drop_bit n V)) = take_bit (n + m) (V :: 64 word)"
  by (rule bit_word_eqI) (auto simp: bit_simps)

lemma take_varint_from_at:
  assumes "at r (varint (drop_bit (7 * k) V) @ rest)" "k \<le> 9"
  shows "take_varint_from (7 * k) (take_bit (7 * k) V) r =
    Inr (V, bin_skip (length (varint (drop_bit (7 * k) V))) r)"
  using assms
proof (induction "9 - k" arbitrary: k r)
  case 0
  then have k: "7 * k = 63" by simp
  let ?d = "drop_bit 63 V"
  have small: "?d \<le> 1"
    using unsigned_less [of V, where 'a = nat]
    by (simp add: word_le_nat_alt unat_drop_bit_eq) (simp add: drop_bit_eq_div)
  then have less: "?d < 0x80" by (rule le_less_trans) simp
  have step: "take_bit 63 V OR push_bit 63 (take_bit 7 ?d) = V"
    using take_bit_step [of 63 V 7] by (simp add: take_bit_word_eq_self)
  from 0(2) k less have here: "at r (ucast ?d # rest)" by (simp add: varint.simps [of ?d])
  have big: "(1 < ?d) = False" using small by (simp add: not_less)
  from here show ?case using at_Cons [OF here] final_byte [OF less] step unfolding k
    by (subst take_varint_from.simps) (simp add: Let_def varint.simps [of ?d] less big)
next
  case (Suc n)
  then have "k < 9" by simp
  let ?d = "drop_bit (7 * k) V"
  have step: "take_bit (7 * k) V OR push_bit (7 * k) (take_bit 7 ?d) = take_bit (7 * Suc k) V"
    using take_bit_step [of "7 * k" V 7] by (simp add: add.commute)
  show ?case
  proof (cases "?d < 0x80")
    case True
    then have "take_bit 7 ?d = ?d" by (simp add: low_byte)
    moreover have "take_bit (7 * k) V OR push_bit (7 * k) ?d = V"
      by (rule bit_word_eqI) (auto simp: bit_simps, metis le_add_diff_inverse not_less)
    ultimately have all: "take_bit (7 * Suc k) V = V"
      unfolding step [symmetric] by (simp only:)
    from Suc.prems(1) True have here: "at r (ucast ?d # rest)" by (simp add: varint.simps [of ?d])
    from at_Cons [OF here] final_byte [OF True] step all \<open>k < 9\<close> show ?thesis
      by (subst take_varint_from.simps) (simp add: Let_def varint.simps [of ?d] True del: push_bit_and)
  next
    case False
    have tail: "drop_bit 7 ?d = drop_bit (7 * Suc k) V" by (simp add: drop_bit_drop_bit add.commute)
    let ?b = "ucast ((?d AND 0x7F) OR 0x80) :: byte"
    have unfold: "varint ?d = ?b # varint (drop_bit (7 * Suc k) V)"
      using False by (subst varint.simps) (simp only: if_False tail)
    with Suc.prems(1) have here: "at r (?b # (varint (drop_bit (7 * Suc k) V) @ rest))" by simp
    from Suc.hyps(1) [of "Suc k" "bin_skip (Suc 0) r"] Suc.hyps(2) at_Cons [OF here] \<open>k < 9\<close>
    have "take_varint_from (7 * Suc k) (take_bit (7 * Suc k) V) (bin_skip (Suc 0) r) =
      Inr (V, bin_skip (length (varint (drop_bit (7 * Suc k) V))) (bin_skip (Suc 0) r))" by simp
    with at_Cons [OF here] continuation_byte [of ?d] step \<open>k < 9\<close> show ?thesis
      by (subst take_varint_from.simps) (simp add: unfold Let_def add.commute del: push_bit_and)
  qed
qed

lemma take_varint_at:
  "at r (varint v @ rest) \<Longrightarrow> take_varint r = Inr (v, bin_skip (length (varint v)) r)"
  using take_varint_from_at [of r 0 v rest] by (simp add: take_varint_def)

lemma varint_not_Nil [simp]: "varint v \<noteq> []"
  by (subst varint.simps) simp

lemma unzigzag_zigzag [simp]: "unzigzag (zigzag v) = v"
proof (cases "bit v 63")
  case True
  have "zigzag v = NOT (push_bit 1 v)"
  proof (rule bit_word_eqI)
    fix n assume "n < LENGTH(64)"
    with True show "bit (zigzag v) n = bit (NOT (push_bit 1 v)) n"
      by (cases n) (simp_all add: zigzag_def bit_xor_iff bit_not_iff bit_push_bit_iff bit_signed_drop_bit_iff del: bit_0 push_bit_Suc)
  qed
  moreover have "NOT (push_bit 1 v) AND 1 = 1"
    by (simp add: and_one_eq mod2_eq_if even_push_bit_iff)
  moreover have "drop_bit 1 (NOT (push_bit 1 v)) XOR - 1 = v"
  proof (rule bit_word_eqI)
    fix n assume "n < LENGTH(64)"
    with True show "bit (drop_bit 1 (NOT (push_bit 1 v)) XOR - 1) n = bit v n"
      by (cases "n = 63") (auto simp: bit_xor_iff bit_not_iff bit_push_bit_iff bit_drop_bit_eq simp del: push_bit_Suc drop_bit_Suc)
  qed
  ultimately show ?thesis by (simp add: unzigzag_def)
next
  case False
  have "zigzag v = push_bit 1 v"
  proof (rule bit_word_eqI)
    fix n assume "n < LENGTH(64)"
    with False show "bit (zigzag v) n = bit (push_bit 1 v) n"
      by (cases n) (simp_all add: zigzag_def bit_xor_iff bit_push_bit_iff bit_signed_drop_bit_iff del: bit_0 push_bit_Suc)
  qed
  moreover have "push_bit 1 v AND 1 = 0"
    by (rule bit_word_eqI) (auto simp: bit_and_iff bit_push_bit_iff bit_1_iff simp del: push_bit_Suc)
  moreover have "drop_bit 1 (push_bit 1 v) = v"
  proof (rule bit_word_eqI)
    fix n assume "n < LENGTH(64)"
    with False show "bit (drop_bit 1 (push_bit 1 v)) n = bit v n"
      by (cases "n = 63") (auto simp: bit_push_bit_iff bit_drop_bit_eq simp del: push_bit_Suc drop_bit_Suc)
  qed
  ultimately show ?thesis by (simp add: unzigzag_def)
qed

lemma little_byte: "ucast (ucast ((x :: 64 word) AND 0xFF) :: byte) = take_bit 8 x"
proof -
  have "x AND 0xFF = take_bit 8 x"
    by (simp add: take_bit_eq_mask mask_eq_exp_minus_1)
  then show ?thesis
    by (simp only:) (rule bit_word_eqI, auto simp: bit_simps)
qed

lemma little_value_bytes: "little_value (little_bytes v) = v"
proof -
  have "foldl (\<lambda>value i. value OR push_bit (i * 8) (ucast (little_bytes v ! i))) 0 [0..<k] = take_bit (8 * k) v"
    if "k \<le> 8" for k
    using that
  proof (induction k)
    case (Suc k)
    then have "little_bytes v ! k = ucast (drop_bit (k * 8) v AND 0xFF)"
      by (simp add: little_bytes_def del: upt_Suc)
    with Suc take_bit_step [of "k * 8" v 8] show ?case
      by (simp add: little_byte mult.commute add.commute)
  qed simp
  from this [of 8] show ?thesis by (simp add: little_value_def take_bit_word_eq_self)
qed

lemma length_little_bytes [simp]: "length (little_bytes v) = 8"
  by (simp add: little_bytes_def)


section \<open>The code of a value\<close>

definition text_code :: "string \<Rightarrow> byte list" where
  "text_code s = varint (word_of_nat (length s)) @ map byte_of_char s"

fun encode :: "node \<Rightarrow> byte list" where
  "encode NNull = [0x00]"
| "encode (NBool b) = [if b then 0x02 else 0x01]"
| "encode (NInt i) = 0x03 # varint (zigzag i)"
| "encode (NUint i) = 0x04 # varint i"
| "encode (NFloat x) = 0x05 # little_bytes x"
| "encode (NFloat32 x) = 0x05 # little_bytes (widen x)"
| "encode (NString s) = 0x06 # text_code s"
| "encode (NBytes bs) = 0x07 # varint (word_of_nat (length bs)) @ bs"
| "encode (NArray ns) = 0x08 # varint (word_of_nat (length ns)) @ concat (map encode ns)"
| "encode (NObject ms) =
     0x09 # varint (word_of_nat (length ms)) @ concat (map (\<lambda>m. text_code (fst m) @ encode (snd m)) ms)"

text \<open>
  The values that the code can carry: sizes fit in 64 bits, and a float is not a signalling NaN
  (the format stores it as a double, and the conversion quiets one).
\<close>

fun storable :: "node \<Rightarrow> bool" where
  "storable (NFloat32 x) = float_settled x"
| "storable (NString s) = (length s < 2 ^ 64)"
| "storable (NBytes bs) = (length bs < 2 ^ 64)"
| "storable (NArray ns) = (length ns < 2 ^ 64 \<and> list_all storable ns)"
| "storable (NObject ms) =
     (length ms < 2 ^ 64 \<and> list_all (\<lambda>m. length (fst m) < 2 ^ 64 \<and> storable (snd m)) ms)"
| "storable n = True"

abbreviation members_code :: "(string \<times> node) list \<Rightarrow> byte list" where
  "members_code ms \<equiv> concat (map (\<lambda>m. text_code (fst m) @ encode (snd m)) ms)"

lemma text_code_not_Nil [simp]: "text_code s \<noteq> []"
  by (simp add: text_code_def)

lemma encode_not_Nil [simp]: "encode n \<noteq> []"
  by (cases n) simp_all

lemma length_nodes_code: "length ns \<le> length (concat (map encode ns))"
proof (induction ns)
  case (Cons n ns)
  have "Suc 0 \<le> length (encode n)" by (simp add: Suc_le_eq)
  with Cons show ?case by simp
qed simp

lemma length_members_code: "2 * length ms \<le> length (members_code ms)"
proof (induction ms)
  case (Cons m ms)
  have "Suc 0 \<le> length (encode (snd m))" "Suc 0 \<le> length (text_code (fst m))"
    by (simp_all add: Suc_le_eq)
  with Cons show ?case by simp
qed simp

section \<open>The writer appends the code\<close>

lemma put_text_eq: "put_text s w = put_bytes (text_code s) w"
  by (simp add: put_text_def put_varint_eq text_code_def)

lemmas bin_write_defs = bin_write_null_def bin_write_bool_def bin_write_int_def bin_write_uint_def
  bin_write_float_def bin_write_string_def bin_write_bytes_def default_write_float32_def

lemma write_leaf:
  assumes "bin_begin_value w = Inr w1" "depth n = 0"
  shows "write_node binary_writer n w = Inr (put_bytes (encode n) w1)"
  using assms
  by (cases n) (simp_all add: binary_writer_def bin_write_defs put_varint_eq put_text_eq put_tag_def)

definition fits :: "bin_writer \<Rightarrow> node \<Rightarrow> bool" where
  "fits w n \<longleftrightarrow> length (bw_stack w) + depth n \<le> bw_max_depth w"

lemma bin_begin_value_keeps:
  "bin_begin_value w = Inr w1 \<Longrightarrow> length (bw_stack w1) = length (bw_stack w) \<and>
     bw_max_depth w1 = bw_max_depth w \<and> bw_output w1 = bw_output w"
  by (auto simp: bin_begin_value_def split: list.splits if_splits)

definition too_deep :: "nat \<Rightarrow> string" where
  "too_deep limit = ''binary writer: nesting is deeper than '' @ show_nat limit"

definition writes :: "node \<Rightarrow> bool" where
  "writes n \<longleftrightarrow> (\<forall>w w1. bin_begin_value w = Inr w1 \<longrightarrow> length (bw_stack w) \<le> bw_max_depth w \<longrightarrow> write_node binary_writer n w =
     (if fits w n then Inr (put_bytes (encode n) w1) else Inl (too_deep (bw_max_depth w))))"

text \<open>A frame of the writer, and the state with a new innermost frame.\<close>

abbreviation bwf :: "bool \<Rightarrow> nat \<Rightarrow> bool \<Rightarrow> bin_writer_frame" where
  "bwf object left await \<equiv> \<lparr>bwf_is_object = object, bwf_remaining = left, bwf_awaiting_value = await\<rparr>"

lemma write_nodes_eq:
  assumes "\<And>n. n \<in> set ns \<Longrightarrow> writes n" "bw_stack w = bwf False (length ns) False # st"
    "length (bw_stack w) \<le> bw_max_depth w"
  shows "write_nodes binary_writer ns w =
    (if list_all (fits w) ns
     then Inr (put_bytes (concat (map encode ns)) (w\<lparr>bw_stack := bwf False 0 False # st\<rparr>))
     else Inl (too_deep (bw_max_depth w)))"
  using assms
proof (induction ns arbitrary: w)
  case (Cons n ns)
  define w1 where "w1 = w\<lparr>bw_stack := bwf False (length ns) False # st\<rparr>"
  have "bin_begin_value w = Inr w1"
    using Cons.prems(2) by (simp add: bin_begin_value_def w1_def)
  then have head: "write_node binary_writer n w =
      (if fits w n then Inr (put_bytes (encode n) w1) else Inl (too_deep (bw_max_depth w)))"
    using Cons.prems(1) [of n] Cons.prems(3) by (simp add: writes_def)
  define w2 where "w2 = put_bytes (encode n) w1"
  have "write_nodes binary_writer ns w2 =
    (if list_all (fits w2) ns
     then Inr (put_bytes (concat (map encode ns)) (w2\<lparr>bw_stack := bwf False 0 False # st\<rparr>))
     else Inl (too_deep (bw_max_depth w2)))"
    using Cons.prems by (intro Cons.IH) (simp_all add: w1_def w2_def put_bytes_def)
  moreover have "fits w2 = fits w" "bw_max_depth w2 = bw_max_depth w"
    using Cons.prems(2) by (simp_all add: fun_eq_iff fits_def w1_def w2_def put_bytes_def)
  ultimately show ?case using head by (simp add: w2_def) (simp add: w1_def put_bytes_def)
qed (simp add: put_bytes_def)

lemma write_members_eq:
  assumes "\<And>m. m \<in> set ms \<Longrightarrow> writes (snd m)" "bw_stack w = bwf True (length ms) False # st"
    "length (bw_stack w) \<le> bw_max_depth w"
  shows "write_members binary_writer ms w =
    (if list_all (\<lambda>m. fits w (snd m)) ms
     then Inr (put_bytes (members_code ms) (w\<lparr>bw_stack := bwf True 0 False # st\<rparr>))
     else Inl (too_deep (bw_max_depth w)))"
  using assms
proof (induction ms arbitrary: w)
  case (Cons m ms)
  obtain k n where m: "m = (k, n)" by (cases m)
  define w1 where "w1 = put_bytes (text_code k) (w\<lparr>bw_stack := bwf True (length ms) True # st\<rparr>)"
  define w2 where "w2 = w1\<lparr>bw_stack := bwf True (length ms) False # st\<rparr>"
  have key: "bin_write_key k w = Inr w1"
    using Cons.prems(2) by (simp add: bin_write_key_def w1_def put_text_eq)
  have "bin_begin_value w1 = Inr w2"
    by (simp add: bin_begin_value_def w1_def w2_def put_bytes_def)
  moreover have same: "fits w1 = fits w" "bw_max_depth w1 = bw_max_depth w"
    using Cons.prems(2) by (simp_all add: fun_eq_iff fits_def w1_def put_bytes_def)
  ultimately have head: "write_node binary_writer n w1 =
      (if fits w n then Inr (put_bytes (encode n) w2) else Inl (too_deep (bw_max_depth w)))"
    using Cons.prems(1) [of m] Cons.prems(2,3) m by (simp add: writes_def) (simp add: w1_def put_bytes_def)
  define w3 where "w3 = put_bytes (encode n) w2"
  have "write_members binary_writer ms w3 =
    (if list_all (\<lambda>m. fits w3 (snd m)) ms
     then Inr (put_bytes (members_code ms) (w3\<lparr>bw_stack := bwf True 0 False # st\<rparr>))
     else Inl (too_deep (bw_max_depth w3)))"
    using Cons.prems by (intro Cons.IH) (simp_all add: w1_def w2_def w3_def put_bytes_def)
  moreover have "fits w3 = fits w" "bw_max_depth w3 = bw_max_depth w"
    using Cons.prems(2) by (simp_all add: fun_eq_iff fits_def w1_def w2_def w3_def put_bytes_def)
  ultimately show ?case using head key
    by (simp add: m binary_writer_def flip: w3_def) (simp add: w1_def w2_def w3_def put_bytes_def)
qed (simp add: put_bytes_def)

lemma fits_members:
  "fits w (NArray ns) \<longleftrightarrow> length (bw_stack w) < bw_max_depth w \<and>
     list_all (\<lambda>n. Suc (length (bw_stack w) + depth n) \<le> bw_max_depth w) ns"
  "fits w (NObject ms) \<longleftrightarrow> length (bw_stack w) < bw_max_depth w \<and>
     list_all (\<lambda>m. Suc (length (bw_stack w) + depth (snd m)) \<le> bw_max_depth w) ms"
proof -
  have max: "Suc (a + Max (set (0 # map f xs))) \<le> b \<longleftrightarrow> a < b \<and> list_all (\<lambda>x. Suc (a + f x) \<le> b) xs"
    for a b :: nat and f :: "'c \<Rightarrow> nat" and xs
  proof -
    define M where "M = Max (set (0 # map f xs))"
    have "M \<le> c \<longleftrightarrow> list_all (\<lambda>x. f x \<le> c) xs" for c
      unfolding M_def by (subst Max_le_iff) (auto simp: list_all_iff)
    from this [of "b - Suc a"] have "Suc (a + M) \<le> b \<longleftrightarrow> a < b \<and> list_all (\<lambda>x. Suc (a + f x) \<le> b) xs"
      by (cases "a < b") (auto simp: list_all_iff le_diff_conv2 add.commute)
    then show ?thesis by (simp only: M_def)
  qed
  show "fits w (NArray ns) \<longleftrightarrow> length (bw_stack w) < bw_max_depth w \<and>
     list_all (\<lambda>n. Suc (length (bw_stack w) + depth n) \<le> bw_max_depth w) ns"
    using max [of "length (bw_stack w)" depth ns "bw_max_depth w"] by (simp add: fits_def)
  show "fits w (NObject ms) \<longleftrightarrow> length (bw_stack w) < bw_max_depth w \<and>
     list_all (\<lambda>m. Suc (length (bw_stack w) + depth (snd m)) \<le> bw_max_depth w) ms"
    using max [of "length (bw_stack w)" "depth \<circ> snd" ms "bw_max_depth w"] by (simp add: fits_def)
qed

lemma writes_array:
  assumes "\<And>n. n \<in> set ns \<Longrightarrow> writes n"
  shows "writes (NArray ns)"
  unfolding writes_def
proof (intro allI impI)
  fix w w1
  assume begun: "bin_begin_value w = Inr w1" and bound: "length (bw_stack w) \<le> bw_max_depth w"
  define w2 where "w2 = bin_push_frame False (length ns)
    (put_bytes (0x08 # varint (word_of_nat (length ns))) w1)"
  have start: "bin_begin_array (length ns) w =
      (if length (bw_stack w) < bw_max_depth w then Inr w2 else Inl (too_deep (bw_max_depth w)))"
    using begun by (simp add: bin_begin_array_def bin_check_depth_def w2_def put_varint_eq put_tag_def too_deep_def)
  show "write_node binary_writer (NArray ns) w =
    (if fits w (NArray ns) then Inr (put_bytes (encode (NArray ns)) w1) else Inl (too_deep (bw_max_depth w)))"
  proof (cases "length (bw_stack w) < bw_max_depth w")
    case True
    have "write_nodes binary_writer ns w2 = (if list_all (fits w2) ns
        then Inr (put_bytes (concat (map encode ns)) (w2\<lparr>bw_stack := bwf False 0 False # bw_stack w1\<rparr>))
        else Inl (too_deep (bw_max_depth w2)))"
      using True bin_begin_value_keeps [OF begun] assms
      by (intro write_nodes_eq) (simp_all add: w2_def bin_push_frame_def put_bytes_def)
    moreover have "list_all (fits w2) ns = fits w (NArray ns)" "bw_max_depth w2 = bw_max_depth w"
      using True bin_begin_value_keeps [OF begun] unfolding fits_members
      by (simp_all add: list_all_iff fits_def w2_def bin_push_frame_def put_bytes_def)
    ultimately show ?thesis using True start
      by (simp add: binary_writer_def)
        (simp add: bin_end_array_def bin_close_def put_bytes_def w2_def bin_push_frame_def)
  next
    case False
    with start show ?thesis by (simp add: binary_writer_def fits_members(1))
  qed
qed

lemma writes_object:
  assumes "\<And>m. m \<in> set ms \<Longrightarrow> writes (snd m)"
  shows "writes (NObject ms)"
  unfolding writes_def
proof (intro allI impI)
  fix w w1
  assume begun: "bin_begin_value w = Inr w1" and bound: "length (bw_stack w) \<le> bw_max_depth w"
  define w2 where "w2 = bin_push_frame True (length ms)
    (put_bytes (0x09 # varint (word_of_nat (length ms))) w1)"
  have start: "bin_begin_object (length ms) w =
      (if length (bw_stack w) < bw_max_depth w then Inr w2 else Inl (too_deep (bw_max_depth w)))"
    using begun by (simp add: bin_begin_object_def bin_check_depth_def w2_def put_varint_eq put_tag_def too_deep_def)
  show "write_node binary_writer (NObject ms) w =
    (if fits w (NObject ms) then Inr (put_bytes (encode (NObject ms)) w1) else Inl (too_deep (bw_max_depth w)))"
  proof (cases "length (bw_stack w) < bw_max_depth w")
    case True
    have "write_members binary_writer ms w2 = (if list_all (\<lambda>m. fits w2 (snd m)) ms
        then Inr (put_bytes (members_code ms) (w2\<lparr>bw_stack := bwf True 0 False # bw_stack w1\<rparr>))
        else Inl (too_deep (bw_max_depth w2)))"
      using True bin_begin_value_keeps [OF begun] assms
      by (intro write_members_eq) (simp_all add: w2_def bin_push_frame_def put_bytes_def)
    moreover have "list_all (\<lambda>m. fits w2 (snd m)) ms = fits w (NObject ms)" "bw_max_depth w2 = bw_max_depth w"
      using True bin_begin_value_keeps [OF begun] unfolding fits_members
      by (simp_all add: list_all_iff fits_def w2_def bin_push_frame_def put_bytes_def)
    ultimately show ?thesis using True start
      by (simp add: binary_writer_def)
        (simp add: bin_end_object_def bin_close_def put_bytes_def w2_def bin_push_frame_def)
  next
    case False
    with start show ?thesis by (simp add: binary_writer_def fits_members(2))
  qed
qed

lemma writes_all: "writes n"
proof (induction n rule: node_induct)
  case (leaf n)
  then have "fits w n" if "length (bw_stack w) \<le> bw_max_depth w" for w
    using that by (simp add: fits_def)
  with leaf show ?case by (simp add: writes_def write_leaf)
qed (auto intro: writes_array writes_object)

section \<open>The reader consumes the code\<close>

lemma at_length: "at r bs \<Longrightarrow> length (br_input r) - br_position r = length bs"
  unfolding at_def by (metis length_drop)

lemma peek_tag_at:
  assumes "at r (tag_code t # bs)"
  shows "peek_tag r = Inr t"
  using at_Cons [OF assms] by (cases t) (simp_all add: peek_tag_def tag_of_code_def Let_def)

lemma tag_at:
  assumes "at r (tag_code t # bs)"
  shows "take_tag r = Inr (t, bin_skip 1 r)" "expect_tag t msg r = Inr (bin_skip 1 r)" "at (bin_skip 1 r) bs"
  using peek_tag_at [OF assms] at_Cons [OF assms] by (simp_all add: take_tag_def expect_tag_def)

lemma take_length_at:
  assumes "at r (varint (word_of_nat c) @ bs)" "c < 2 ^ 64" "c \<le> length bs div m"
  shows "take_length m r = Inr (c, bin_skip (length (varint (word_of_nat c))) r)"
proof -
  have "unat (word_of_nat c :: 64 word) = c" using assms(2) by (simp add: unat_of_nat)
  moreover have "length (br_input r) - (br_position r + length (varint (word_of_nat c))) = length bs"
    using at_length [OF at_append [OF assms(1)]] by simp
  ultimately show ?thesis
    using assms(3) by (simp add: take_length_def take_varint_at [OF assms(1)] Let_def not_less)
qed

lemma take_slice_at:
  "at r (bs @ rest) \<Longrightarrow> take_slice (length bs) r = (bs, bin_skip (length bs) r)"
  by (simp add: take_slice_def at_def)

lemma take_text_at:
  assumes "at r (text_code s @ rest)" "length s < 2 ^ 64"
  shows "take_text r = Inr (s, bin_skip (length (text_code s)) r)"
proof -
  let ?v = "varint (word_of_nat (length s))"
  have head: "at r (?v @ map byte_of_char s @ rest)" using assms(1) by (simp add: text_code_def)
  have "take_length 1 r = Inr (length s, bin_skip (length ?v) r)"
    by (rule take_length_at [OF head assms(2)]) simp
  moreover have "take_slice (length s) (bin_skip (length ?v) r) =
      (map byte_of_char s, bin_skip (length s + length ?v) r)"
    using take_slice_at [OF at_append [OF head]] by (simp add: add.commute)
  ultimately show ?thesis
    by (simp add: take_text_def Let_def comp_def text_code_def add.commute)
qed

definition room :: "bin_reader \<Rightarrow> node \<Rightarrow> bool" where
  "room r n \<longleftrightarrow> length (br_stack r) + depth n \<le> br_max_depth r"

definition bin_sees :: "bin_reader \<Rightarrow> node \<Rightarrow> bin_reader \<Rightarrow> bool" where
  "bin_sees r n r' \<longleftrightarrow> storable n \<and> room r n \<and> (\<exists>rest. at r (encode n @ rest)) \<and>
     r' = bin_skip (length (encode n)) r"

definition bin_elements :: "bin_reader \<Rightarrow> node list \<Rightarrow> bin_reader \<Rightarrow> bool" where
  "bin_elements r ns r' \<longleftrightarrow> (\<exists>st rest. list_all storable ns \<and> list_all (room r) ns \<and>
     at r (concat (map encode ns) @ rest) \<and>
     br_stack r = \<lparr>brf_is_object = False, brf_remaining = length ns\<rparr> # st \<and>
     r' = (bin_skip (length (concat (map encode ns))) r)\<lparr>br_stack := st\<rparr>)"

definition bin_members :: "bin_reader \<Rightarrow> (string \<times> node) list \<Rightarrow> bin_reader \<Rightarrow> bool" where
  "bin_members r ms r' \<longleftrightarrow> (\<exists>st rest.
     list_all (\<lambda>m. length (fst m) < 2 ^ 64 \<and> storable (snd m)) ms \<and> list_all (\<lambda>m. room r (snd m)) ms \<and>
     at r (members_code ms @ rest) \<and>
     br_stack r = \<lparr>brf_is_object = True, brf_remaining = length ms\<rparr> # st \<and>
     r' = (bin_skip (length (members_code ms)) r)\<lparr>br_stack := st\<rparr>)"

lemma bin_seesE:
  assumes "bin_sees r n r'"
  obtains rest where "at r (encode n @ rest)" "r' = bin_skip (length (encode n)) r" "storable n" "room r n"
  using assms by (auto simp: bin_sees_def)

lemma at_update [simp]: "at (r\<lparr>br_stack := st\<rparr>) bs = at r bs"
  by (simp add: at_def)

lemma bin_skip_update [simp]: "bin_skip k (r\<lparr>br_stack := st\<rparr>) = (bin_skip k r)\<lparr>br_stack := st\<rparr>"
  by (simp add: bin_skip_def)

lemma at_Tag:
  "at r (b # bs) \<Longrightarrow> b = tag_code t \<Longrightarrow> take_tag r = Inr (t, bin_skip 1 r) \<and> peek_tag r = Inr t \<and>
     (\<forall>msg. expect_tag t msg r = Inr (bin_skip 1 r)) \<and> at (bin_skip 1 r) bs"
  using tag_at [of r t bs] peek_tag_at [of r t bs] by simp

lemma tag_codes:
  "(0x00 :: byte) = tag_code Tag_Null" "(0x01 :: byte) = tag_code Tag_False" "(0x02 :: byte) = tag_code Tag_True"
  "(0x03 :: byte) = tag_code Tag_Signed_Integer" "(0x04 :: byte) = tag_code Tag_Unsigned_Integer"
  "(0x05 :: byte) = tag_code Tag_Floating" "(0x06 :: byte) = tag_code Tag_String" "(0x07 :: byte) = tag_code Tag_Bytes"
  "(0x08 :: byte) = tag_code Tag_Array" "(0x09 :: byte) = tag_code Tag_Object"
  by simp_all

lemmas at_tags = tag_codes [THEN at_Tag [rotated]]

lemma bin_peek_sees: "bin_sees r n r' \<Longrightarrow> bin_peek r = Inr (kind_of n, r)"
  by (cases n) (auto elim!: bin_seesE dest!: at_tags simp: bin_peek_def split: if_splits)

lemma int64_uint: "int64_range (uint (x :: 64 word)) \<longleftrightarrow> \<not> 0x7FFFFFFFFFFFFFFF < x"
proof -
  have "- (2 ^ 63) \<le> uint x" by (rule order_trans [of _ 0]) simp_all
  then show ?thesis by (auto simp: int64_range_def word_less_def)
qed

lemma uint64_sint: "uint64_range (sint (x :: 64 word)) \<longleftrightarrow> \<not> sint x < 0"
  using sint_less [of x] by (auto simp: uint64_range_def)

lemma read_signed_at:
  assumes "at r (0x03 # varint (zigzag x) @ rest)"
  defines "r' \<equiv> bin_skip (Suc (length (varint (zigzag x)))) r"
  shows "bin_read_int r = Inr (x, r')"
    "bin_read_uint r = (if sint x < 0 then bin_fail_at (br_position r) ''expected a non-negative integer'' else Inr (x, r'))"
    "bin_read_float r = Inr (double_of_int (sint x), r')"
proof -
  from at_tags(4) [OF assms(1)] take_varint_at [of "bin_skip 1 r" "zigzag x" rest]
  have step: "take_tag r = Inr (Tag_Signed_Integer, bin_skip 1 r)" "peek_tag r = Inr Tag_Signed_Integer"
    "take_varint (bin_skip 1 r) = Inr (zigzag x, r')"
    by (simp_all add: r'_def)
  then show "bin_read_int r = Inr (x, r')" by (simp add: bin_read_int_def Let_def)
  with step show "bin_read_float r = Inr (double_of_int (sint x), r')"
    by (simp add: bin_read_float_def Let_def)
  from step show "bin_read_uint r = (if sint x < 0 then bin_fail_at (br_position r) ''expected a non-negative integer'' else Inr (x, r'))"
    by (simp add: bin_read_uint_def Let_def)
qed

lemma read_unsigned_at:
  assumes "at r (0x04 # varint x @ rest)"
  defines "r' \<equiv> bin_skip (Suc (length (varint x))) r"
  shows "bin_read_uint r = Inr (x, r')"
    "bin_read_int r = (if x > 0x7FFFFFFFFFFFFFFF then bin_fail_at (br_position r) ''integer out of range for int64'' else Inr (x, r'))"
    "bin_read_float r = Inr (double_of_int (uint x), r')"
proof -
  from at_tags(5) [OF assms(1)] take_varint_at [of "bin_skip 1 r" x rest]
  have step: "take_tag r = Inr (Tag_Unsigned_Integer, bin_skip 1 r)" "peek_tag r = Inr Tag_Unsigned_Integer"
    "take_varint (bin_skip 1 r) = Inr (x, r')"
    by (simp_all add: r'_def)
  then show "bin_read_uint r = Inr (x, r')" by (simp add: bin_read_uint_def Let_def)
  with step show "bin_read_float r = Inr (double_of_int (uint x), r')"
    by (simp add: bin_read_float_def Let_def)
  from step show "bin_read_int r = (if x > 0x7FFFFFFFFFFFFFFF then bin_fail_at (br_position r) ''integer out of range for int64'' else Inr (x, r'))"
    by (simp add: bin_read_int_def Let_def)
qed

lemma bin_read_numbers:
  assumes "bin_sees r n r'" "node_integer n = Some i"
  shows "if int64_range i then bin_read_int r = Inr (word_of_int i, r') else \<exists>e. bin_read_int r = Inl e"
    and "if uint64_range i then bin_read_uint r = Inr (word_of_int i, r') else \<exists>e. bin_read_uint r = Inl e"
    and "bin_read_float r = Inr (double_of_int i, r')"
proof -
  obtain rest where here: "at r (encode n @ rest)" "r' = bin_skip (length (encode n)) r"
    using assms(1) by (rule bin_seesE)
  from assms(2) consider x where "n = NInt x" "i = sint x" | x where "n = NUint x" "i = uint x"
    by (cases n) auto
  then have "(if int64_range i then bin_read_int r = Inr (word_of_int i, r') else \<exists>e. bin_read_int r = Inl e) \<and>
      (if uint64_range i then bin_read_uint r = Inr (word_of_int i, r') else \<exists>e. bin_read_uint r = Inl e) \<and>
      bin_read_float r = Inr (double_of_int i, r')"
  proof cases
    case (1 x)
    with here have "at r (0x03 # varint (zigzag x) @ rest)" "r' = bin_skip (Suc (length (varint (zigzag x)))) r"
      by simp_all
    with read_signed_at [OF this(1)] 1(2) show ?thesis
      by (simp add: int64_sint uint64_sint bin_fail_at_def)
  next
    case (2 x)
    with here have "at r (0x04 # varint x @ rest)" "r' = bin_skip (Suc (length (varint x))) r"
      by simp_all
    with read_unsigned_at [OF this(1)] 2(2) show ?thesis
      by (simp add: int64_uint uint64_uint bin_fail_at_def)
  qed
  then show "if int64_range i then bin_read_int r = Inr (word_of_int i, r') else \<exists>e. bin_read_int r = Inl e"
    and "if uint64_range i then bin_read_uint r = Inr (word_of_int i, r') else \<exists>e. bin_read_uint r = Inl e"
    and "bin_read_float r = Inr (double_of_int i, r')" by blast+
qed

lemma bin_read_float_at:
  assumes "at r (0x05 # little_bytes x @ rest)"
  shows "bin_read_float r = Inr (x, bin_skip 9 r)"
proof -
  have tail: "peek_tag r = Inr Tag_Floating" "at (bin_skip 1 r) (little_bytes x @ rest)"
    using at_tags(6) [OF assms] by simp_all
  have "bin_require 8 (bin_skip 1 r) = Inr ()"
    using at_length [OF tail(2)] by (simp add: bin_require_def)
  moreover have "take 8 (drop (Suc (br_position r)) (br_input r)) = little_bytes x"
    using tail(2) by (simp add: at_def)
  ultimately show ?thesis
    by (simp add: bin_read_float_def tail(1) Let_def little_value_bytes)
qed

lemma bin_read_float_sees: "bin_sees r (NFloat x) r' \<Longrightarrow> bin_read_float r = Inr (x, r')"
  by (auto elim!: bin_seesE simp: bin_read_float_at)


lemma bin_read_string_sees: "bin_sees r (NString s) r' \<Longrightarrow> bin_read_string r = Inr (s, r')"
proof (elim bin_seesE)
  fix rest
  assume here: "at r (encode (NString s) @ rest)" "r' = bin_skip (length (encode (NString s))) r"
    and "storable (NString s)"
  from here(1) have "at r (0x06 # text_code s @ rest)" by simp
  with at_tags(7) take_text_at [of "bin_skip 1 r" s rest] here(2) \<open>storable (NString s)\<close>
  show ?thesis by (fastforce simp: bin_read_string_def)
qed

lemma take_length_tail:
  assumes "at r (b # varint (word_of_nat c) @ bs)" "b = tag_code t" "c < 2 ^ 64" "c \<le> length bs div m"
  shows "expect_tag t msg r = Inr (bin_skip 1 r)"
    "take_length m (bin_skip 1 r) = Inr (c, bin_skip (Suc (length (varint (word_of_nat c)))) r)"
    "at (bin_skip (Suc (length (varint (word_of_nat c)))) r) bs"
proof -
  have tail: "at (bin_skip 1 r) (varint (word_of_nat c) @ bs)" using at_Tag [OF assms(1,2)] by simp
  show "expect_tag t msg r = Inr (bin_skip 1 r)" using at_Tag [OF assms(1,2)] by simp
  show "take_length m (bin_skip 1 r) = Inr (c, bin_skip (Suc (length (varint (word_of_nat c)))) r)"
    using take_length_at [OF tail assms(3,4)] by simp
  show "at (bin_skip (Suc (length (varint (word_of_nat c)))) r) bs"
    using at_append [OF tail] by simp
qed

lemma bin_read_bytes_sees: "bin_sees r (NBytes bs) r' \<Longrightarrow> bin_read_bytes r = Inr (bs, r')"
proof (elim bin_seesE)
  fix rest
  assume here: "at r (encode (NBytes bs) @ rest)" "r' = bin_skip (length (encode (NBytes bs))) r"
    and "storable (NBytes bs)"
  from here(1) have "at r (0x07 # varint (word_of_nat (length bs)) @ bs @ rest)" by simp
  from take_length_tail [OF this, of Tag_Bytes 1] \<open>storable (NBytes bs)\<close> here(2)
    take_slice_at [of "bin_skip (Suc (length (varint (word_of_nat (length bs))))) r" bs rest]
  show ?thesis by (simp add: bin_read_bytes_def add.commute)
qed

lemma bin_array_sees:
  "bin_sees r (NArray ns) r' \<Longrightarrow> \<exists>hint r1. bin_begin_array_in r = Inr (hint, r1) \<and> bin_elements r1 ns r'"
proof (elim bin_seesE)
  fix rest
  let ?v = "varint (word_of_nat (length ns))" and ?body = "concat (map encode ns)"
  assume here: "at r (encode (NArray ns) @ rest)" "r' = bin_skip (length (encode (NArray ns))) r"
    and okay: "storable (NArray ns)" "room r (NArray ns)"
  from here(1) have "at r (0x08 # ?v @ ?body @ rest)" by simp
  from take_length_tail [OF this, of Tag_Array 1] okay length_nodes_code [of ns]
  have steps: "expect_tag Tag_Array msg r = Inr (bin_skip 1 r)"
    "take_length 1 (bin_skip 1 r) = Inr (length ns, bin_skip (Suc (length ?v)) r)"
    "at (bin_skip (Suc (length ?v)) r) (?body @ rest)" for msg by simp_all
  have roomy: "Suc (length (br_stack r) + depth n) \<le> br_max_depth r" if "n \<in> set ns" for n
    using depth_le(1) [OF that] okay(2) by (simp add: room_def)
  define r1 where "r1 = (bin_skip (Suc (length ?v)) r)\<lparr>br_stack :=
    \<lparr>brf_is_object = False, brf_remaining = length ns\<rparr> # br_stack r\<rparr>"
  have "bin_begin_array_in r = Inr (Some (length ns), r1)"
    using okay(2) steps(1,2) by (simp add: bin_begin_array_in_def bin_enter_def room_def r1_def)
  moreover have "bin_elements r1 ns r'"
    unfolding bin_elements_def using steps(3) okay(1) roomy here(2)
    by (intro exI [of _ "br_stack r"] exI [of _ rest])
      (simp add: r1_def list_all_iff room_def add.commute bin_skip_def)
  ultimately show ?thesis by blast
qed

lemma bin_object_sees:
  "bin_sees r (NObject ms) r' \<Longrightarrow> \<exists>hint r1. bin_begin_object_in r = Inr (hint, r1) \<and> bin_members r1 ms r'"
proof (elim bin_seesE)
  fix rest
  let ?v = "varint (word_of_nat (length ms))" and ?body = "members_code ms"
  assume here: "at r (encode (NObject ms) @ rest)" "r' = bin_skip (length (encode (NObject ms))) r"
    and okay: "storable (NObject ms)" "room r (NObject ms)"
  from here(1) have "at r (0x09 # ?v @ ?body @ rest)" by simp
  from take_length_tail [OF this, of Tag_Object 2] okay length_members_code [of ms]
  have steps: "expect_tag Tag_Object msg r = Inr (bin_skip 1 r)"
    "take_length 2 (bin_skip 1 r) = Inr (length ms, bin_skip (Suc (length ?v)) r)"
    "at (bin_skip (Suc (length ?v)) r) (?body @ rest)" for msg by simp_all
  have roomy: "Suc (length (br_stack r) + depth (snd m)) \<le> br_max_depth r" if "m \<in> set ms" for m
    using depth_le(2) [OF that] okay(2) by (simp add: room_def)
  define r1 where "r1 = (bin_skip (Suc (length ?v)) r)\<lparr>br_stack :=
    \<lparr>brf_is_object = True, brf_remaining = length ms\<rparr> # br_stack r\<rparr>"
  have "bin_begin_object_in r = Inr (Some (length ms), r1)"
    using okay(2) steps(1,2) by (simp add: bin_begin_object_in_def bin_enter_def room_def r1_def)
  moreover have "bin_members r1 ms r'"
    unfolding bin_members_def using steps(3) okay(1) roomy here(2)
    by (intro exI [of _ "br_stack r"] exI [of _ rest])
      (simp add: r1_def list_all_iff room_def add.commute bin_skip_def)
  ultimately show ?thesis by blast
qed

lemma bin_elements_Nil:
  "bin_elements r [] r' \<Longrightarrow> bin_next_element r = Inr (False, r) \<and> bin_end_array_in r = Inr r'"
  by (auto simp: bin_elements_def bin_next_element_def bin_end_array_in_def consume_slot_def bin_leave_def)

lemma bin_members_Nil:
  "bin_members r [] r' \<Longrightarrow> bin_next_key r = Inr (None, r) \<and> bin_end_object_in r = Inr r'"
  by (auto simp: bin_members_def bin_next_key_def bin_end_object_in_def consume_slot_def bin_leave_def)

lemma bin_elements_Cons:
  assumes "bin_elements r (n # ns) r'"
  shows "\<exists>r1 r2. bin_next_element r = Inr (True, r1) \<and> bin_sees r1 n r2 \<and> bin_elements r2 ns r'"
proof -
  obtain st rest where e: "list_all storable (n # ns)" "list_all (room r) (n # ns)"
    "at r (encode n @ concat (map encode ns) @ rest)"
    "br_stack r = \<lparr>brf_is_object = False, brf_remaining = Suc (length ns)\<rparr> # st"
    "r' = (bin_skip (length (encode n) + length (concat (map encode ns))) r)\<lparr>br_stack := st\<rparr>"
    using assms by (auto simp: bin_elements_def)
  define r1 where "r1 = r\<lparr>br_stack := \<lparr>brf_is_object = False, brf_remaining = length ns\<rparr> # st\<rparr>"
  define r2 where "r2 = bin_skip (length (encode n)) r1"
  have "bin_next_element r = Inr (True, r1)"
    using e(4) by (simp add: bin_next_element_def consume_slot_def r1_def)
  moreover have "bin_sees r1 n r2"
    using e by (auto simp: bin_sees_def r1_def r2_def room_def)
  moreover have "bin_elements r2 ns r'"
    unfolding bin_elements_def using e at_append [OF e(3)]
    by (intro exI [of _ st] exI [of _ rest])
      (simp add: r1_def r2_def room_def list_all_iff add.commute bin_skip_def at_def)
  ultimately show ?thesis by blast
qed

lemma bin_members_Cons:
  assumes "bin_members r ((k, n) # ms) r'"
  shows "\<exists>r1 r2. bin_next_key r = Inr (Some k, r1) \<and> bin_sees r1 n r2 \<and> bin_members r2 ms r'"
proof -
  obtain st rest where e: "length k < 2 ^ 64" "storable n"
    "list_all (\<lambda>m. length (fst m) < 2 ^ 64 \<and> storable (snd m)) ms"
    "room r n" "list_all (\<lambda>m. room r (snd m)) ms"
    "at r (text_code k @ encode n @ members_code ms @ rest)"
    "br_stack r = \<lparr>brf_is_object = True, brf_remaining = Suc (length ms)\<rparr> # st"
    "r' = (bin_skip (length (text_code k) + (length (encode n) + length (members_code ms))) r)\<lparr>br_stack := st\<rparr>"
    using assms by (auto simp: bin_members_def)
  define r0 where "r0 = r\<lparr>br_stack := \<lparr>brf_is_object = True, brf_remaining = length ms\<rparr> # st\<rparr>"
  define r1 where "r1 = bin_skip (length (text_code k)) r0"
  define r2 where "r2 = bin_skip (length (encode n)) r1"
  have at0: "at r0 (text_code k @ encode n @ members_code ms @ rest)"
    using e(6) by (simp add: r0_def)
  have "bin_next_key r = Inr (Some k, r1)"
    using e(7) take_text_at [OF at0 e(1)] by (simp add: bin_next_key_def consume_slot_def r1_def flip: r0_def)
  moreover have "bin_sees r1 n r2"
    using e at_append [OF at0] by (auto simp: bin_sees_def r0_def r1_def r2_def room_def)
  moreover have "bin_members r2 ms r'"
    unfolding bin_members_def using e at_append [OF at_append [OF at0]]
    by (intro exI [of _ st] exI [of _ rest])
      (simp add: r0_def r1_def r2_def room_def list_all_iff add.commute add.left_commute bin_skip_def at_def)
  ultimately show ?thesis by blast
qed

lemma bin_read_bool_sees: "bin_sees r (NBool b) r' \<Longrightarrow> bin_read_bool r = Inr (b, r')"
proof (elim bin_seesE)
  fix rest assume here: "at r (encode (NBool b) @ rest)" "r' = bin_skip (length (encode (NBool b))) r"
  show ?thesis
  proof (cases b)
    case True
    with here at_tags(3) [of r rest] show ?thesis by (simp add: bin_read_bool_def)
  next
    case False
    with here at_tags(2) [of r rest] show ?thesis by (simp add: bin_read_bool_def)
  qed
qed

lemma bin_read_wide: "bin_sees r (NFloat32 y) r' \<Longrightarrow> bin_read_float r = Inr (widen y, r')"
  by (auto elim!: bin_seesE simp: bin_read_float_at)

lemma bin_read_float32_sees:
  assumes "bin_sees r (NFloat32 y) r'"
  shows "default_read_float32 bin_read_float r = Inr (y, r')"
proof -
  have "float_settled y" using assms by (rule bin_seesE) simp
  then have "narrow (widen y) = y" by (rule narrow_widen)
  moreover have "(double_finite (widen y) \<and> double_magnitude (widen y) > float_max) = False"
    using widen_in_range by blast
  ultimately show ?thesis
    using bin_read_wide [OF assms] by (simp only: default_read_float32_def and_then.simps prod.case if_False)
qed

lemma bin_read_null_sees: "bin_sees r NNull r' \<Longrightarrow> bin_read_null r = Inr r'"
  by (auto elim!: bin_seesE dest!: at_tags simp: bin_read_null_def)

section \<open>Skipping\<close>

definition skips :: "node \<Rightarrow> bool" where
  "skips n \<longleftrightarrow> (\<forall>r r' fuel. bin_sees r n r' \<longrightarrow> 2 * length (encode n) < fuel \<longrightarrow> skip_fuel fuel r = Inr r')"

lemma skip_elements_sees:
  "(\<And>n. n \<in> set ns \<Longrightarrow> skips n) \<Longrightarrow> bin_elements r ns r' \<Longrightarrow>
     2 * length (concat (map encode ns)) + 1 < fuel \<Longrightarrow>
     and_then (skip_elements fuel r) bin_end_array_in = Inr r'"
proof (induction ns arbitrary: r fuel)
  case Nil
  then obtain fuel' where "fuel = Suc fuel'" by (cases fuel) auto
  with bin_elements_Nil [OF Nil.prems(2)] show ?case by simp
next
  case (Cons n ns)
  then obtain fuel' where fuel: "fuel = Suc fuel'" by (cases fuel) auto
  obtain r1 r2 where steps: "bin_next_element r = Inr (True, r1)" "bin_sees r1 n r2" "bin_elements r2 ns r'"
    using bin_elements_Cons [OF Cons.prems(2)] by blast
  have "0 < length (encode n)" by simp
  have "skip_fuel fuel' r1 = Inr r2"
    using Cons.prems(1) [of n] steps(2) Cons.prems(3) fuel by (simp add: skips_def)
  moreover have "and_then (skip_elements fuel' r2) bin_end_array_in = Inr r'"
    using Cons.prems steps(3) fuel \<open>0 < length (encode n)\<close> by (intro Cons.IH) (simp_all del: length_greater_0_conv)
  ultimately show ?case using steps(1) fuel by simp
qed

lemma skip_entries_sees:
  "(\<And>m. m \<in> set ms \<Longrightarrow> skips (snd m)) \<Longrightarrow> bin_members r ms r' \<Longrightarrow>
     2 * length (members_code ms) + 1 < fuel \<Longrightarrow>
     and_then (skip_entries fuel r) bin_end_object_in = Inr r'"
proof (induction ms arbitrary: r fuel)
  case Nil
  then obtain fuel' where "fuel = Suc fuel'" by (cases fuel) auto
  with bin_members_Nil [OF Nil.prems(2)] show ?case by simp
next
  case (Cons m ms)
  obtain k n where m: "m = (k, n)" by (cases m)
  from Cons.prems(3) obtain fuel' where fuel: "fuel = Suc fuel'" by (cases fuel) auto
  obtain r1 r2 where steps: "bin_next_key r = Inr (Some k, r1)" "bin_sees r1 n r2" "bin_members r2 ms r'"
    using bin_members_Cons [of r k n ms r'] Cons.prems(2) m by blast
  have "0 < length (encode n)" by simp
  have "skip_fuel fuel' r1 = Inr r2"
    using Cons.prems(1) [of m] steps(2) Cons.prems(3) fuel m by (simp add: skips_def)
  moreover have "and_then (skip_entries fuel' r2) bin_end_object_in = Inr r'"
    using Cons.prems steps(3) fuel m \<open>0 < length (encode n)\<close>
    by (intro Cons.IH) (simp_all del: length_greater_0_conv)
  ultimately show ?case using steps(1) fuel by simp
qed

lemma skips_all: "skips n"
proof (induction n rule: node_induct)
  case (leaf n)
  show ?case unfolding skips_def
  proof (intro allI impI)
    fix r r' fuel
    assume sees: "bin_sees r n r'" and "2 * length (encode n) < fuel"
    then obtain fuel' where "fuel = Suc fuel'" by (cases fuel) auto
    with leaf sees bin_peek_sees [OF sees] bin_read_float_sees [of r _ r'] bin_read_string_sees [of r _ r']
      bin_read_numbers(3) [OF sees]
    show "skip_fuel fuel r = Inr r'"
    proof (cases n)
      case (NBool b)
      with sees have "bin_read_bool r = Inr (b, r')" using bin_read_bool_sees by blast
      with NBool \<open>fuel = Suc fuel'\<close> bin_peek_sees [OF sees] show ?thesis by simp
    next
      case NNull
      with sees have "bin_read_null r = Inr r'" using bin_read_null_sees by blast
      with NNull \<open>fuel = Suc fuel'\<close> bin_peek_sees [OF sees] show ?thesis by simp
    next
      case (NFloat32 y)
      with sees have "bin_read_float r = Inr (widen y, r')" using bin_read_wide by blast
      with NFloat32 \<open>fuel = Suc fuel'\<close> bin_peek_sees [OF sees] show ?thesis by simp
    next
      case (NBytes bs)
      with sees obtain rest where here: "at r (0x07 # varint (word_of_nat (length bs)) @ bs @ rest)"
        "r' = bin_skip (length (encode n)) r" "storable n"
        by (elim bin_seesE) simp
      from take_length_tail [OF here(1), of Tag_Bytes 1] here(2,3) NBytes
      show ?thesis using \<open>fuel = Suc fuel'\<close> bin_peek_sees [OF sees] by (simp add: add.commute)
    qed simp_all
  qed
next
  case (array ns)
  show ?case unfolding skips_def
  proof (intro allI impI)
    fix r r' fuel
    assume sees: "bin_sees r (NArray ns) r'" and "2 * length (encode (NArray ns)) < fuel"
    then obtain fuel' where fuel: "fuel = Suc fuel'" "2 * length (concat (map encode ns)) + 1 < fuel'"
      by (cases fuel) auto
    obtain hint r1 where "bin_begin_array_in r = Inr (hint, r1)" "bin_elements r1 ns r'"
      using bin_array_sees [OF sees] by blast
    with skip_elements_sees [OF array this(2) fuel(2)] bin_peek_sees [OF sees] fuel(1)
    show "skip_fuel fuel r = Inr r'" by simp
  qed
next
  case (object ms)
  show ?case unfolding skips_def
  proof (intro allI impI)
    fix r r' fuel
    assume sees: "bin_sees r (NObject ms) r'" and "2 * length (encode (NObject ms)) < fuel"
    then obtain fuel' where fuel: "fuel = Suc fuel'" "2 * length (members_code ms) + 1 < fuel'"
      by (cases fuel) auto
    obtain hint r1 where "bin_begin_object_in r = Inr (hint, r1)" "bin_members r1 ms r'"
      using bin_object_sees [OF sees] by blast
    with skip_entries_sees [OF object this(2) fuel(2)] bin_peek_sees [OF sees] fuel(1)
    show "skip_fuel fuel r = Inr r'" by simp
  qed
qed

lemma bin_skip_sees: "bin_sees r n r' \<Longrightarrow> bin_skip_value r = Inr r'"
proof -
  assume sees: "bin_sees r n r'"
  then obtain rest where "at r (encode n @ rest)" by (rule bin_seesE)
  then have "length (encode n) \<le> length (br_input r) - br_position r"
    by (simp add: at_length)
  then show ?thesis
    using skips_all [of n] sees by (simp add: skips_def bin_skip_value_def del: skip_fuel.simps)
qed

section \<open>The backend is a format\<close>

definition bin_open :: "nat \<Rightarrow> bin_writer \<Rightarrow> bin_reader" where
  "bin_open limit w = bin_reader (bw_output w) limit"

definition bin_okay :: "nat \<Rightarrow> node \<Rightarrow> bool" where
  "bin_okay limit n \<longleftrightarrow> storable n \<and> depth n \<le> limit"

lemma bin_written:
  "write_node binary_writer n (bin_writer limit) =
     (if depth n \<le> limit
      then Inr \<lparr>bw_output = encode n, bw_max_depth = limit, bw_stack = [], bw_root_started = True\<rparr>
      else Inl (''binary writer: nesting is deeper than '' @ show_nat limit))"
  using writes_all [of n]
  by (simp add: writes_def bin_begin_value_def bin_writer_def fits_def put_bytes_def too_deep_def)

interpretation binary: format binary_reader bin_sees bin_elements bin_members
  binary_writer "bin_writer limit" bin_complete "bin_open limit" bin_finish "bin_okay limit" for limit
proof unfold_locales
  show "\<exists>k r1. peek binary_reader r = Inr (k, r1) \<and> peeks_as k n \<and> bin_sees r1 n r'" if "bin_sees r n r'" for r n r'
    using bin_peek_sees [OF that] that by (simp add: binary_reader_def peeks_as_def)
  show "\<exists>w r. write_node binary_writer n (bin_writer limit) = Inr w \<and> bin_complete w \<and>
      bin_sees (bin_open limit w) n r \<and> bin_finish r = Inr r" if "bin_okay limit n" for n
    using that
    by (auto simp: bin_okay_def bin_written bin_complete_def bin_open_def bin_reader_def bin_sees_def
        room_def at_def bin_finish_def)
  show "\<exists>r1 r2. next_element binary_reader r = Inr (True, r1) \<and> bin_sees r1 n r2 \<and> bin_elements r2 ns r'"
    if "bin_elements r (n # ns) r'" for r n ns r'
    using bin_elements_Cons [OF that] by (simp add: binary_reader_def)
  show "\<exists>r1 r2. next_key binary_reader r = Inr (Some k, r1) \<and> bin_sees r1 n r2 \<and> bin_members r2 ms r'"
    if "bin_members r ((k, n) # ms) r'" for r k n ms r'
    using bin_members_Cons [OF that] by (simp add: binary_reader_def)
qed (auto simp: binary_reader_def bin_read_numbers bin_read_float_sees bin_read_string_sees bin_read_bytes_sees
    bin_read_null_sees bin_read_bool_sees bin_read_float32_sees bin_skip_sees
    dest: bin_array_sees bin_object_sees bin_elements_Nil bin_members_Nil
    intro: bin_read_numbers(1,2))

end
