(* ===== verification/Binary_Safety.thy ===== *)
theory Binary_Safety
  imports Binary_Format
begin

text \<open>
  What the binary reader does on bytes it did not write: it never moves past the input, a length
  it accepts fits in what is left, and skipping always ends.
\<close>

section \<open>Progress\<close>

text \<open>A successful read consumes at least one byte and stays inside the input.\<close>

definition consumed :: "bin_reader \<Rightarrow> bin_reader \<Rightarrow> bool" where
  "consumed r r' \<longleftrightarrow> br_input r' = br_input r \<and> br_position r < br_position r' \<and>
     br_position r' \<le> length (br_input r)"

text \<open>No message of the reader is empty.\<close>

lemma spoken_simps [simp]:
  "spoken (bin_fail r msg)" "spoken (bin_fail_at offset msg)"
  by (simp_all add: spoken_def bin_fail_def bin_fail_at_def)

lemma fail_not_Inr [simp]: "bin_fail r msg \<noteq> Inr x" "bin_fail_at offset msg \<noteq> Inr x"
  by (simp_all add: bin_fail_def bin_fail_at_def)

lemma require_Inr [simp]: "bin_require n r = Inr u \<longleftrightarrow> n \<le> length (br_input r) - br_position r"
  by (simp add: bin_require_def)

lemma spoken_require [simp]: "spoken (bin_require n r)"
  by (simp add: bin_require_def)

lemma peek_tag_inside: "peek_tag r = Inr t \<Longrightarrow> br_position r < length (br_input r)"
  by (auto simp: peek_tag_def)

lemma spoken_peek_tag [simp]: "spoken (peek_tag r)"
  by (auto simp: peek_tag_def Let_def intro!: spoken_and_then)

lemma consumed_skip: "br_position r < length (br_input r) \<Longrightarrow> consumed r (bin_skip (Suc 0) r)"
  by (simp add: consumed_def)

lemma take_tag_consumed: "take_tag r = Inr (t, r') \<Longrightarrow> consumed r r'"
  by (auto simp: take_tag_def consumed_skip dest: peek_tag_inside)

lemma expect_tag_consumed: "expect_tag t msg r = Inr r' \<Longrightarrow> consumed r r'"
  by (auto simp: expect_tag_def consumed_skip dest: peek_tag_inside split: if_splits)

lemma spoken_tags [simp]: "spoken (take_tag r)" "spoken (expect_tag t msg r)"
  by (auto simp: take_tag_def expect_tag_def intro!: spoken_and_then)

lemma consumed_trans: "consumed r r1 \<Longrightarrow> consumed r1 r2 \<Longrightarrow> consumed r r2"
  by (auto simp: consumed_def)

lemma take_varint_from_consumed:
  "take_varint_from shift v r = Inr (x, r') \<Longrightarrow> consumed r r'"
proof (induction "64 - shift" arbitrary: shift v r rule: less_induct)
  case less
  have inside: "br_position r < length (br_input r)" "shift < 64"
    using less.prems by (subst (asm) take_varint_from.simps, auto split: if_splits)+
  then have step: "consumed r (bin_skip (Suc 0) r)" by (simp add: consumed_skip)
  from less.prems have "r' = bin_skip (Suc 0) r \<or>
      (\<exists>v'. take_varint_from (shift + 7) v' (bin_skip (Suc 0) r) = Inr (x, r'))"
    by (subst (asm) take_varint_from.simps) (auto simp: Let_def split: if_splits)
  then show ?case
  proof
    assume "\<exists>v'. take_varint_from (shift + 7) v' (bin_skip (Suc 0) r) = Inr (x, r')"
    then obtain v' where "take_varint_from (shift + 7) v' (bin_skip (Suc 0) r) = Inr (x, r')" ..
    with less.hyps [of "shift + 7" v'] inside(2) consumed_trans [OF step] show ?thesis by auto
  qed (use step in simp)
qed

lemma spoken_varint_from: "spoken (take_varint_from shift v r)"
proof (induction shift v r rule: take_varint_from.induct)
  case (1 shift v r)
  then show ?case
    by (subst take_varint_from.simps) (auto simp: Let_def intro!: spoken_and_then)
qed

lemma take_varint_consumed: "take_varint r = Inr (x, r') \<Longrightarrow> consumed r r'"
  by (simp add: take_varint_def take_varint_from_consumed)

lemma spoken_varint [simp]: "spoken (take_varint r)"
  by (simp add: take_varint_def spoken_varint_from)

lemma take_length_consumed:
  "take_length m r = Inr (n, r') \<Longrightarrow> consumed r r' \<and> n \<le> (length (br_input r') - br_position r') div m"
  by (auto simp: take_length_def Let_def not_less dest: take_varint_consumed split: if_splits)

lemma spoken_length [simp]: "spoken (take_length m r)"
  by (auto simp: take_length_def Let_def intro!: spoken_and_then)

lemma take_text_consumed: "take_text r = Inr (s, r') \<Longrightarrow> consumed r r'"
  by (auto simp: take_text_def take_slice_def consumed_def dest!: take_length_consumed)

lemma spoken_text [simp]: "spoken (take_text r)"
  by (auto simp: take_text_def take_slice_def intro!: spoken_and_then)

lemma read_leaf_consumed:
  "bin_read_null r = Inr r' \<Longrightarrow> consumed r r'"
  "bin_read_bool r = Inr (b, r') \<Longrightarrow> consumed r r'"
  "bin_read_int r = Inr (i, r') \<Longrightarrow> consumed r r'"
  "bin_read_uint r = Inr (i, r') \<Longrightarrow> consumed r r'"
  "bin_read_string r = Inr (s, r') \<Longrightarrow> consumed r r'"
  "bin_read_bytes r = Inr (bs, r') \<Longrightarrow> consumed r r'"
proof -
  note steps = take_tag_consumed take_varint_consumed expect_tag_consumed take_text_consumed
  show "bin_read_null r = Inr r' \<Longrightarrow> consumed r r'" by (auto simp: bin_read_null_def dest: steps)
  show "bin_read_bool r = Inr (b, r') \<Longrightarrow> consumed r r'"
    by (auto simp: bin_read_bool_def split: if_splits dest: steps)
  show "bin_read_int r = Inr (i, r') \<Longrightarrow> consumed r r'"
    by (auto simp: bin_read_int_def Let_def split: if_splits dest!: steps intro: consumed_trans)
  show "bin_read_uint r = Inr (i, r') \<Longrightarrow> consumed r r'"
    by (auto simp: bin_read_uint_def Let_def split: if_splits dest!: steps intro: consumed_trans)
  show "bin_read_string r = Inr (s, r') \<Longrightarrow> consumed r r'"
    by (auto simp: bin_read_string_def dest!: steps intro: consumed_trans)
  show "bin_read_bytes r = Inr (bs, r') \<Longrightarrow> consumed r r'"
    by (auto simp: bin_read_bytes_def take_slice_def consumed_def dest!: steps take_length_consumed)
qed

lemma read_float_consumed: "bin_read_float r = Inr (x, r') \<Longrightarrow> consumed r r'"
  by (auto simp: bin_read_float_def Let_def consumed_def split: if_splits
      dest!: read_leaf_consumed(3,4) peek_tag_inside)

lemma spoken_leaves [simp]:
  "spoken (bin_read_null r)" "spoken (bin_read_bool r)" "spoken (bin_read_int r)" "spoken (bin_read_uint r)"
  "spoken (bin_read_float r)" "spoken (bin_read_string r)" "spoken (bin_read_bytes r)" "spoken (bin_peek r)"
proof -
  show ints: "spoken (bin_read_int r)" "spoken (bin_read_uint r)"
    by (auto simp: bin_read_int_def bin_read_uint_def Let_def intro!: spoken_and_then)
  then show "spoken (bin_read_float r)"
    by (auto simp: bin_read_float_def Let_def intro!: spoken_and_then)
qed (auto simp: bin_read_null_def bin_read_bool_def bin_read_string_def bin_read_bytes_def bin_peek_def
    intro!: spoken_and_then)

lemma begin_consumed:
  "bin_begin_array_in r = Inr (hint, r') \<Longrightarrow> consumed r r'"
  "bin_begin_object_in r = Inr (hint, r') \<Longrightarrow> consumed r r'"
  by (auto simp: bin_begin_array_in_def bin_begin_object_in_def bin_enter_def consumed_def
      split: if_splits dest!: expect_tag_consumed take_length_consumed)

lemma spoken_containers [simp]:
  "spoken (bin_begin_array_in r)" "spoken (bin_begin_object_in r)" "spoken (bin_next_element r)"
  "spoken (bin_next_key r)" "spoken (bin_end_array_in r)" "spoken (bin_end_object_in r)"
  by (auto simp: bin_begin_array_in_def bin_begin_object_in_def bin_enter_def bin_next_element_def
      bin_next_key_def bin_end_array_in_def bin_end_object_in_def bin_leave_def split: prod.splits
      intro!: spoken_and_then)

text \<open>The steps of the loops over a container do not consume, but they do not move back either.\<close>

definition kept :: "bin_reader \<Rightarrow> bin_reader \<Rightarrow> bool" where
  "kept r r' \<longleftrightarrow> br_input r' = br_input r \<and> br_position r \<le> br_position r' \<and>
     (br_position r \<le> length (br_input r) \<longrightarrow> br_position r' \<le> length (br_input r))"

lemma container_kept:
  "bin_next_element r = Inr (another, r') \<Longrightarrow> kept r r'"
  "bin_next_key r = Inr (key, r') \<Longrightarrow> kept r r'"
  "bin_end_array_in r = Inr r' \<Longrightarrow> kept r r'"
  "bin_end_object_in r = Inr r' \<Longrightarrow> kept r r'"
  by (auto simp: kept_def bin_next_element_def bin_next_key_def bin_end_array_in_def bin_end_object_in_def
      bin_leave_def consume_slot_def Let_def consumed_def split: if_splits dest!: take_text_consumed)

lemma consumed_kept: "consumed r r1 \<Longrightarrow> kept r1 r2 \<Longrightarrow> consumed r r2"
  and kept_consumed: "kept r r1 \<Longrightarrow> consumed r1 r2 \<Longrightarrow> consumed r r2"
  and kept_trans: "kept r r1 \<Longrightarrow> kept r1 r2 \<Longrightarrow> kept r r2"
  by (auto simp: consumed_def kept_def)

lemma skip_consumed:
  "skip_fuel fuel r = Inr r' \<Longrightarrow> consumed r r'"
  "skip_elements fuel r = Inr r' \<Longrightarrow> kept r r'"
  "skip_entries fuel r = Inr r' \<Longrightarrow> kept r r'"
proof (induction fuel r and fuel r and fuel r arbitrary: r' and r' and r'
    rule: skip_fuel_skip_elements_skip_entries.induct)
  case (2 fuel r)
  then obtain k where k: "bin_peek r = Inr (k, r)" by (auto simp: bin_peek_def)
  show ?case
  proof (cases k)
    case KBytes
    with 2(3) k show ?thesis
      by (auto simp: consumed_def dest!: expect_tag_consumed take_length_consumed)
  next
    case KArray
    with 2(3) k obtain hint r1 r2 where s: "bin_begin_array_in r = Inr (hint, r1)"
      "skip_elements fuel r1 = Inr r2" "bin_end_array_in r2 = Inr r'" by auto
    have "kept r1 r2" using 2(1) k KArray s by blast
    then show ?thesis
      using begin_consumed(1) [OF s(1)] container_kept(3) [OF s(3)] consumed_kept by blast
  next
    case KObject
    with 2(3) k obtain hint r1 r2 where s: "bin_begin_object_in r = Inr (hint, r1)"
      "skip_entries fuel r1 = Inr r2" "bin_end_object_in r2 = Inr r'" by auto
    have "kept r1 r2" using 2(2) k KObject s by blast
    then show ?thesis
      using begin_consumed(2) [OF s(1)] container_kept(4) [OF s(3)] consumed_kept by blast
  qed (use 2(3) k in \<open>auto dest: read_leaf_consumed read_float_consumed\<close>)
next
  case (4 fuel r)
  then obtain another r1 where next_step: "bin_next_element r = Inr (another, r1)" by auto
  note k1 = container_kept(1) [OF next_step]
  show ?case
  proof (cases another)
    case True
    with 4(3) next_step obtain r2 where s: "skip_fuel fuel r1 = Inr r2" "skip_elements fuel r2 = Inr r'" by auto
    then have "consumed r1 r2" "kept r2 r'" using 4(1,2) next_step True by auto
    with k1 show ?thesis by (auto simp: kept_def consumed_def)
  qed (use 4(3) next_step k1 in simp)
next
  case (6 fuel r)
  then obtain key r1 where next_step: "bin_next_key r = Inr (key, r1)" by auto
  note k1 = container_kept(2) [OF next_step]
  show ?case
  proof (cases "key = None")
    case False
    with 6(3) next_step obtain r2 where s: "skip_fuel fuel r1 = Inr r2" "skip_entries fuel r2 = Inr r'" by auto
    then have "consumed r1 r2" "kept r2 r'" using 6(1,2) next_step False by auto
    with k1 show ?thesis by (auto simp: kept_def consumed_def)
  qed (use 6(3) next_step k1 in simp)
qed simp_all

definition left :: "bin_reader \<Rightarrow> nat" where
  "left r = length (br_input r) - br_position r"

lemma consumed_left: "consumed r r' \<Longrightarrow> left r' < left r"
  by (auto simp: consumed_def left_def)

lemma kept_left: "kept r r' \<Longrightarrow> left r' \<le> left r"
  by (auto simp: kept_def left_def)

lemma skip_spoken:
  "2 * left r < fuel \<Longrightarrow> spoken (skip_fuel fuel r)"
  "2 * left r + 1 < fuel \<Longrightarrow> spoken (skip_elements fuel r)"
  "2 * left r + 1 < fuel \<Longrightarrow> spoken (skip_entries fuel r)"
proof (induction fuel r and fuel r and fuel r rule: skip_fuel_skip_elements_skip_entries.induct)
  case (2 fuel r)
  show ?case
  proof (cases "bin_peek r")
    case (Inl e)
    with spoken_leaves(8) [of r] show ?thesis by (simp add: spoken_def)
  next
    case (Inr kr)
    then obtain k where k: "bin_peek r = Inr (k, r)" by (auto simp: bin_peek_def)
    show ?thesis
    proof (cases k)
      case KArray
      have "spoken (skip_elements fuel r1)" if "bin_begin_array_in r = Inr (hint, r1)" for hint r1
        using 2(1) [OF k refl KArray that refl] consumed_left [OF begin_consumed(1) [OF that]] 2(3) by simp
      with k KArray show ?thesis by (auto intro!: spoken_and_then split: prod.splits)
    next
      case KObject
      have "spoken (skip_entries fuel r1)" if "bin_begin_object_in r = Inr (hint, r1)" for hint r1
        using 2(2) [OF k refl KObject that refl] consumed_left [OF begin_consumed(2) [OF that]] 2(3) by simp
      with k KObject show ?thesis by (auto intro!: spoken_and_then split: prod.splits)
    qed (use k in \<open>auto intro!: spoken_and_then split: prod.splits\<close>)
  qed
next
  case (4 fuel r)
  have "spoken (and_then (skip_fuel fuel r1) (skip_elements fuel))" if "bin_next_element r = Inr (True, r1)" for r1
  proof (rule spoken_and_then)
    have "left r1 \<le> left r" using container_kept(1) [OF that] by (rule kept_left)
    then show "spoken (skip_fuel fuel r1)" using 4(1) [OF that refl] 4(3) by simp
    fix r2 assume r2: "skip_fuel fuel r1 = Inr r2"
    have "left r2 < left r1" using skip_consumed(1) [OF r2] by (rule consumed_left)
    then show "spoken (skip_elements fuel r2)" using 4(2) [OF that refl _ r2] 4(3) \<open>left r1 \<le> left r\<close> by simp
  qed
  then show ?case by (auto intro!: spoken_and_then split: prod.splits)
next
  case (6 fuel r)
  have "spoken (and_then (skip_fuel fuel r1) (skip_entries fuel))" if "bin_next_key r = Inr (key, r1)" "key \<noteq> None" for key r1
  proof (rule spoken_and_then)
    have "left r1 \<le> left r" using container_kept(2) [OF that(1)] by (rule kept_left)
    then show "spoken (skip_fuel fuel r1)" using 6(1) [OF that(1) refl that(2)] 6(3) by simp
    fix r2 assume r2: "skip_fuel fuel r1 = Inr r2"
    have "left r2 < left r1" using skip_consumed(1) [OF r2] by (rule consumed_left)
    then show "spoken (skip_entries fuel r2)"
      using 6(2) [OF that(1) refl that(2) r2] 6(3) \<open>left r1 \<le> left r\<close> by simp
  qed
  then show ?case by (auto intro!: spoken_and_then split: prod.splits)
qed simp_all

text \<open>An answer that was not cut short does not depend on the fuel.\<close>

lemma skip_fuel_step:
  "spoken (skip_fuel fuel r) \<Longrightarrow> skip_fuel (Suc fuel) r = skip_fuel fuel r"
  "spoken (skip_elements fuel r) \<Longrightarrow> skip_elements (Suc fuel) r = skip_elements fuel r"
  "spoken (skip_entries fuel r) \<Longrightarrow> skip_entries (Suc fuel) r = skip_entries fuel r"
proof (induction fuel r and fuel r and fuel r rule: skip_fuel_skip_elements_skip_entries.induct)
  case (2 fuel r)
  from 2(3) show ?case
    unfolding skip_fuel.simps(2) [of "Suc fuel" r] skip_fuel.simps(2) [of fuel r]
    by (elim and_then_fuel) (auto split: value_kind.splits prod.splits elim!: and_then_fuel intro: 2(1,2)
      simp del: skip_fuel.simps skip_elements.simps skip_entries.simps)
next
  case (4 fuel r)
  from 4(3) show ?case
    unfolding skip_elements.simps(2) [of "Suc fuel" r] skip_elements.simps(2) [of fuel r]
    by (elim and_then_fuel) (auto split: prod.splits if_splits elim!: and_then_fuel intro: 4(1,2)
      simp del: skip_fuel.simps skip_elements.simps skip_entries.simps)
next
  case (6 fuel r)
  from 6(3) show ?case
    unfolding skip_entries.simps(2) [of "Suc fuel" r] skip_entries.simps(2) [of fuel r]
    by (elim and_then_fuel) (auto split: prod.splits if_splits elim!: and_then_fuel intro: 6(1,2)
      simp del: skip_fuel.simps skip_elements.simps skip_entries.simps)
qed (simp_all add: spoken_def)

lemma skip_fuel_more: "spoken (skip_fuel fuel r) \<Longrightarrow> skip_fuel (fuel + k) r = skip_fuel fuel r"
proof (induction k)
  case (Suc k)
  then show ?case using skip_fuel_step(1) [of "fuel + k" r] by simp
qed simp

section \<open>Properties\<close>

text \<open>C8: the binary writer, driven through the calls that the interface prescribes for a value,
  produces exactly the byte code that \<open>binary/format.h\<close> lays out for it, in one complete document,
  when the value is not nested deeper than the limit; otherwise it throws the depth error.\<close>

theorem binary_write_value:
  "write_node binary_writer n (bin_writer limit) =
     (if depth n \<le> limit
      then Inr \<lparr>bw_output = encode n, bw_max_depth = limit, bw_stack = [], bw_root_started = True\<rparr>
      else Inl (''binary writer: nesting is deeper than '' @ show_nat limit))"
  by (rule bin_written)

text \<open>A varint survives the round trip for every 64-bit value: behind whatever was written
  before and in front of whatever follows, \<open>take_varint\<close> returns the number that \<open>put_varint\<close>
  appended and stops behind its last byte; and \<open>write_int\<close> and \<open>read_int\<close> agree on the zigzag
  form.\<close>

lemma varint_round_trip:
  "take_varint \<lparr>br_input = bw_output (put_varint v w) @ rest, br_position = length (bw_output w),
       br_max_depth = limit, br_stack = st\<rparr> =
     Inr (v, \<lparr>br_input = bw_output (put_varint v w) @ rest, br_position = length (bw_output (put_varint v w)),
       br_max_depth = limit, br_stack = st\<rparr>) \<and> unzigzag (zigzag v) = v"
proof -
  let ?r = "\<lparr>br_input = bw_output (put_varint v w) @ rest, br_position = length (bw_output w),
       br_max_depth = limit, br_stack = st\<rparr>"
  have "at ?r (varint v @ rest)" by (simp add: at_def put_varint_eq put_bytes_def)
  from take_varint_at [OF this] show ?thesis
    by (simp add: bin_skip_def put_varint_eq put_bytes_def)
qed

text \<open>Skipping a value terminates on every input, well formed or not: the fuel that
  \<open>bin_skip_value\<close> takes from the number of bytes left is never used up, and more of it changes
  nothing. When it succeeds it has moved forward and not past the end of the input.\<close>

lemma bin_skip_terminates:
  "skip_fuel (2 * (length (br_input r) - br_position r) + 1 + k) r = bin_skip_value r \<and>
   (case bin_skip_value r of
      Inl e \<Rightarrow> e \<noteq> []
    | Inr r' \<Rightarrow> br_input r' = br_input r \<and> br_position r < br_position r' \<and>
                br_position r' \<le> length (br_input r))"
proof -
  have "spoken (skip_fuel (2 * (length (br_input r) - br_position r) + 1) r)"
    by (rule skip_spoken(1)) (simp add: left_def)
  then show ?thesis
    using skip_fuel_more [of "2 * (length (br_input r) - br_position r) + 1" r k] skip_consumed(1)
    by (auto simp: bin_skip_value_def spoken_def consumed_def simp del: skip_fuel.simps split: sum.splits)
qed

text \<open>C11: a length or element count that the reader accepts is covered by the bytes that are left:
  \<open>n\<close> items of at least \<open>Suc m\<close> bytes each fit between the new position and the end of the
  input. A few bytes of input cannot announce a container large enough to exhaust memory.\<close>

theorem length_is_covered:
  "case take_length (Suc m) r of
     Inl e \<Rightarrow> e \<noteq> []
   | Inr (n, r') \<Rightarrow> br_position r < br_position r' \<and> br_position r' + n * Suc m \<le> length (br_input r)"
proof (cases "take_length (Suc m) r")
  case (Inl e)
  with spoken_length [of "Suc m" r] show ?thesis by (simp add: spoken_def)
next
  case (Inr nr)
  then obtain n r' where nr: "take_length (Suc m) r = Inr (n, r')" by (cases nr) auto
  let ?a = "length (br_input r) - br_position r'"
  from take_length_consumed [OF nr] have step: "consumed r r'" "n \<le> ?a div Suc m"
    by (auto simp: consumed_def)
  have "n * Suc m \<le> ?a div Suc m * Suc m" using step(2) by (rule mult_le_mono1)
  also have "\<dots> \<le> ?a" by (rule div_times_less_eq_dividend)
  finally show ?thesis using step(1) nr by (auto simp: consumed_def)
qed

end
