(* ===== verification/Float_Text.thy ===== *)
theory Float_Text
  imports Ieee
begin

text \<open>
  Decimal text of floating-point numbers: the two standard library routines that
  \<open>include/reflgen/json/writer.h\<close> and \<open>json/reader.h\<close> call, \<open>std::to_chars\<close> in its shortest
  form and \<open>std::from_chars\<close> in the general form, for \<open>float\<close> and \<open>double\<close>. Reading rounds the
  exact decimal value to nearest, ties to even, and reports a value that overflows to infinity or
  underflows to zero as out of range.
\<close>

section \<open>Reading\<close>

text \<open>The magnitude nearest to \<open>n * 10 ^ e\<close>.\<close>

definition decimal_magnitude :: "precision \<Rightarrow> nat \<Rightarrow> int \<Rightarrow> nat" where
  "decimal_magnitude p n e =
     (if 0 \<le> e then round_units p (n * 10 ^ nat e * 2 ^ unit_exponent p) 1
      else round_units p (n * 2 ^ unit_exponent p) (10 ^ nat (- e)))"

datatype float_result = Float_Invalid | Float_Out_Of_Range nat | Float_Parsed bool nat nat

definition starts_with :: "string \<Rightarrow> string \<Rightarrow> bool" where
  "starts_with cs s \<longleftrightarrow> s \<noteq> [] \<and> hd s \<in> set cs"

text \<open>
  The exponent part at the start of a text: its value and the number of characters it takes, or
  nothing when the text does not go on with a complete exponent.
\<close>

definition exponent_part :: "string \<Rightarrow> int \<times> nat" where
  "exponent_part s =
     (if starts_with ''eE'' s then
        let signed = starts_with ''+-'' (tl s);
            digits = takeWhile is_digit (if signed then tl (tl s) else tl s);
            value = int (decimal_value digits)
        in if digits = [] then (0, 0)
           else (if starts_with ''-'' (tl s) then - value else value,
                 1 + (if signed then 1 else 0) + length digits)
      else (0, 0))"

definition float_from_chars :: "precision \<Rightarrow> string \<Rightarrow> float_result" where
  "float_from_chars p s =
     (let negative = starts_with ''-'' s;
          s1 = (if negative then tl s else s);
          whole = takeWhile is_digit s1;
          s2 = drop (length whole) s1;
          point = starts_with ''.'' s2;
          fraction = (if point then takeWhile is_digit (tl s2) else []);
          s3 = (if point then drop (length fraction) (tl s2) else s2);
          (scale, taken) = exponent_part s3;
          n = decimal_value (whole @ fraction);
          b = decimal_magnitude p n (scale - int (length fraction));
          used = (if negative then 1 else 0) + length whole + (if point then 1 + length fraction else 0) + taken
      in if whole = [] \<and> fraction = [] then Float_Invalid
         else if b = infinity p \<or> (n \<noteq> 0 \<and> b = 0) then Float_Out_Of_Range used
         else Float_Parsed negative b used)"

section \<open>Writing\<close>

text \<open>
  The shortest form: for one digit, two digits and so on, the two decimals of that many digits
  around the value; the first that reads back as the value, and the closer one if both do.
\<close>

fun strip_zeros :: "nat \<Rightarrow> int \<Rightarrow> nat \<times> int" where
  "strip_zeros n e = (if n = 0 \<or> n mod 10 \<noteq> 0 then (n, e) else strip_zeros (n div 10) (e + 1))"

declare strip_zeros.simps [simp del]

text \<open>The decimal exponent of the leading digit of \<open>a / d\<close>, for a positive number above \<open>10 ^ -400\<close>.\<close>

definition leading_exponent :: "nat \<Rightarrow> nat \<Rightarrow> int" where
  "leading_exponent a d =
     (if d \<le> a then int (length (show_nat (a div d))) - 1
      else case find (\<lambda>k. d \<le> a * 10 ^ k) [1..<400] of Some k \<Rightarrow> - int k | None \<Rightarrow> 0)"

definition reads_as :: "precision \<Rightarrow> nat \<Rightarrow> nat \<times> int \<Rightarrow> bool" where
  "reads_as p b c \<longleftrightarrow> decimal_magnitude p (fst c) (snd c) = b"

definition candidates :: "precision \<Rightarrow> nat \<Rightarrow> nat \<Rightarrow> (nat \<times> int) list" where
  "candidates p b digits =
     (let a = units p b; d = 2 ^ unit_exponent p;
          e = leading_exponent a d - int digits + 1;
          num = (if 0 \<le> e then a else a * 10 ^ nat (- e));
          den = (if 0 \<le> e then d * 10 ^ nat e else d);
          low = num div den; rest = 2 * (num mod den);
          lower = strip_zeros low e; upper = strip_zeros (low + 1) e
      in filter (reads_as p b)
           (if rest < den \<or> (rest = den \<and> even low) then [lower, upper] else [upper, lower]))"

definition shortest :: "precision \<Rightarrow> nat \<Rightarrow> nat \<times> int" where
  "shortest p b =
     (case concat (map (candidates p b) [1..<18]) of
        c # _ \<Rightarrow> c
      | [] \<Rightarrow> (units p b * 5 ^ unit_exponent p, - int (unit_exponent p)))"

definition zeros :: "nat \<Rightarrow> string" where
  "zeros n = replicate n (CHR ''0'')"

definition scientific :: "nat \<Rightarrow> int \<Rightarrow> string" where
  "scientific n e =
     (let digits = show_nat n; x = e + int (length digits) - 1; xs = show_nat (nat \<bar>x\<bar>)
      in take 1 digits @ (if length digits = 1 then [] else ''.'' @ drop 1 digits) @
         ''e'' @ (if x < 0 then ''-'' else ''+'') @ zeros (2 - length xs) @ xs)"

text \<open>
  Positional notation. An integral value is written exactly: its digits beyond the shortest ones
  are those of the number, not zeros.
\<close>

definition fixed :: "precision \<Rightarrow> nat \<Rightarrow> nat \<Rightarrow> int \<Rightarrow> string" where
  "fixed p b n e =
     (let digits = show_nat n; x = e + int (length digits) - 1
      in if 0 \<le> e then
           (if 2 ^ unit_exponent p dvd units p b then show_nat (units p b div 2 ^ unit_exponent p)
            else digits @ zeros (nat e))
         else if 0 \<le> x then take (nat (x + 1)) digits @ ''.'' @ drop (nat (x + 1)) digits
         else ''0.'' @ zeros (nat (- x - 1)) @ digits)"

definition magnitude_to_chars :: "precision \<Rightarrow> nat \<Rightarrow> string" where
  "magnitude_to_chars p b =
     (if b = 0 then ''0''
      else let (n, e) = shortest p b; f = fixed p b n e; s = scientific n e
           in if length f \<le> length s then f else s)"

definition float_to_chars :: "precision \<Rightarrow> bool \<Rightarrow> nat \<Rightarrow> string" where
  "float_to_chars p negative b = (if negative then ''-'' else []) @ magnitude_to_chars p b"

section \<open>Numbers as text\<close>

text \<open>
  The parts of a number in decimal notation, with the exponent as its letter, its sign and its
  digits.
\<close>

record number =
  negative :: bool
  whole :: string
  fraction :: "string option"
  exponent :: "(char \<times> string \<times> string) option"

definition number_text :: "number \<Rightarrow> string" where
  "number_text n =
     (if negative n then ''-'' else []) @ whole n @
     (case fraction n of None \<Rightarrow> [] | Some ds \<Rightarrow> ''.'' @ ds) @
     (case exponent n of None \<Rightarrow> [] | Some (letter, sign, ds) \<Rightarrow> letter # sign @ ds)"

definition digits :: "string \<Rightarrow> bool" where
  "digits ds \<longleftrightarrow> ds \<noteq> [] \<and> list_all is_digit ds"

definition well_formed :: "number \<Rightarrow> bool" where
  "well_formed n \<longleftrightarrow> digits (whole n) \<and>
     (case fraction n of None \<Rightarrow> True | Some ds \<Rightarrow> digits ds) \<and>
     (case exponent n of None \<Rightarrow> True
      | Some (letter, sign, ds) \<Rightarrow> letter \<in> set ''eE'' \<and> sign \<in> {[], ''+'', ''-''} \<and> digits ds)"

definition exponent_value :: "number \<Rightarrow> int" where
  "exponent_value n = (case exponent n of None \<Rightarrow> 0
     | Some (letter, sign, ds) \<Rightarrow>
         if sign = ''-'' then - int (decimal_value ds) else int (decimal_value ds))"

definition fraction_digits :: "number \<Rightarrow> string" where
  "fraction_digits n = (case fraction n of None \<Rightarrow> [] | Some ds \<Rightarrow> ds)"

definition number_magnitude :: "precision \<Rightarrow> number \<Rightarrow> nat" where
  "number_magnitude p n = decimal_magnitude p (decimal_value (whole n @ fraction_digits n))
     (exponent_value n - int (length (fraction_digits n)))"

definition in_range :: "precision \<Rightarrow> number \<Rightarrow> bool" where
  "in_range p n \<longleftrightarrow> number_magnitude p n \<noteq> infinity p \<and>
     (decimal_value (whole n @ fraction_digits n) = 0 \<or> number_magnitude p n \<noteq> 0)"

text \<open>What may follow a number without becoming part of it.\<close>

definition number_end :: "string \<Rightarrow> bool" where
  "number_end s \<longleftrightarrow> s = [] \<or> \<not> (is_digit (hd s) \<or> hd s \<in> set ''.eE'')"

lemma not_digits [simp]:
  "\<not> is_digit (CHR ''-'')" "\<not> is_digit (CHR ''+'')" "\<not> is_digit (CHR ''.'')"
  "\<not> is_digit (CHR ''e'')" "\<not> is_digit (CHR ''E'')"
  by (simp_all add: is_digit_def code_of_def)

lemma digits_hd: "digits ds \<Longrightarrow> ds \<noteq> [] \<and> is_digit (hd ds)"
  by (cases ds) (auto simp: digits_def)

lemma takeWhile_digits:
  "list_all is_digit ds \<Longrightarrow> s = [] \<or> \<not> is_digit (hd s) \<Longrightarrow> takeWhile is_digit (ds @ s) = ds"
  by (cases s) (auto simp: takeWhile_append list_all_iff)

lemma starts_with_simps [simp]:
  "\<not> starts_with cs []" "starts_with cs (c # s) \<longleftrightarrow> c \<in> set cs"
  by (auto simp: starts_with_def)

lemma starts_with_digits: "digits ds \<Longrightarrow> \<forall>c\<in>set cs. \<not> is_digit c \<Longrightarrow> \<not> starts_with cs (ds @ s)"
  using digits_hd [of ds] by (cases ds) auto

lemma starts_with_number_end: "number_end s \<Longrightarrow> set cs \<subseteq> set ''.eE'' \<Longrightarrow> \<not> starts_with cs s"
  by (cases s) (auto simp: number_end_def)

lemma exponent_part_number:
  assumes "digits ds" "sign \<in> {[], ''+'', ''-''}" "letter \<in> set ''eE''" "number_end s"
  shows "exponent_part (letter # sign @ ds @ s) =
    (if sign = ''-'' then - int (decimal_value ds) else int (decimal_value ds), 1 + length sign + length ds)"
proof -
  have run: "takeWhile is_digit (ds @ s) = ds"
    using assms(1,4) by (intro takeWhile_digits) (auto simp: digits_def number_end_def)
  have no_sign: "\<not> starts_with ''+-'' (ds @ s)" "\<not> starts_with ''-'' (ds @ s)"
    using starts_with_digits [OF assms(1)] by simp_all
  have "ds \<noteq> []" using assms(1) by (simp add: digits_def)
  from assms(2) consider "sign = []" | "sign = ''+''" | "sign = ''-''" by auto
  then show ?thesis
    by cases (use run no_sign \<open>ds \<noteq> []\<close> assms(3) in \<open>simp_all add: exponent_part_def Let_def\<close>)
qed

lemma number_text_parts:
  obtains s3 where "number_text n @ s = (if negative n then ''-'' else []) @ whole n @
      (case fraction n of None \<Rightarrow> [] | Some ds \<Rightarrow> ''.'' @ ds) @ s3"
    "s3 = (case exponent n of None \<Rightarrow> [] | Some (letter, sign, ds) \<Rightarrow> letter # sign @ ds) @ s"
  by (simp add: number_text_def)

lemma float_from_chars_number:
  assumes "well_formed n" "number_end s"
  shows "float_from_chars p (number_text n @ s) =
    (if in_range p n then Float_Parsed (negative n) (number_magnitude p n) (length (number_text n))
     else Float_Out_Of_Range (length (number_text n)))"
proof -
  define e where "e = (case exponent n of None \<Rightarrow> [] | Some (letter, sign, ds) \<Rightarrow> letter # sign @ ds)"
  define f where "f = (case fraction n of None \<Rightarrow> [] | Some ds \<Rightarrow> ''.'' @ ds)"
  define fd where "fd = fraction_digits n"
  have wd: "digits (whole n)" using assms(1) by (simp add: well_formed_def)
  have expo: "exponent_part (e @ s) = (exponent_value n, length e)"
  proof (cases "exponent n")
    case None
    with starts_with_number_end [OF assms(2), of "''eE''"] show ?thesis
      by (simp add: e_def exponent_value_def exponent_part_def)
  next
    case (Some x)
    obtain letter sign ds where x: "x = (letter, sign, ds)" by (cases x)
    with Some assms(1) have "digits ds" "sign \<in> {[], ''+'', ''-''}" "letter \<in> set ''eE''"
      by (simp_all add: well_formed_def)
    from exponent_part_number [OF this assms(2)] Some x show ?thesis
      by (simp add: e_def exponent_value_def)
  qed
  have e_end: "e @ s = [] \<or> \<not> is_digit (hd (e @ s)) \<and> hd (e @ s) \<noteq> CHR ''.''"
    using assms by (auto simp: e_def well_formed_def number_end_def split: option.splits)
  have tail: "f @ e @ s = [] \<or> \<not> is_digit (hd (f @ e @ s))"
    using e_end by (auto simp: f_def split: option.splits)
  have run: "takeWhile is_digit (whole n @ f @ e @ s) = whole n"
    using wd tail by (intro takeWhile_digits) (simp_all add: digits_def)
  have no_minus: "\<not> starts_with ''-'' (whole n @ f @ e @ s)"
    using starts_with_digits [OF wd] by simp
  have point: "starts_with ''.'' (f @ e @ s) \<longleftrightarrow> fraction n \<noteq> None"
    using e_end by (cases "fraction n") (auto simp: f_def starts_with_def)
  have frac: "(if fraction n \<noteq> None then takeWhile is_digit (tl (f @ e @ s)) else []) = fd"
    using assms(1) e_end
    by (auto simp: f_def fd_def fraction_digits_def well_formed_def digits_def intro!: takeWhile_digits
        split: option.splits)
  have rest: "(if fraction n \<noteq> None then drop (length fd) (tl (f @ e @ s)) else f @ e @ s) = e @ s"
    by (auto simp: f_def fd_def fraction_digits_def split: option.splits)
  have "whole n \<noteq> []" using wd by (simp add: digits_def)
  have shape: "number_text n @ s = (if negative n then ''-'' else []) @ whole n @ f @ e @ s"
    by (simp add: number_text_def e_def f_def)
  have len: "length (number_text n) = (if negative n then 1 else 0) + length (whole n) +
      (if fraction n \<noteq> None then 1 + length fd else 0) + length e"
    by (auto simp: number_text_def e_def fd_def fraction_digits_def split: option.splits)
  have sign: "starts_with ''-'' (number_text n @ s) = negative n"
    "(if negative n then tl (number_text n @ s) else number_text n @ s) = whole n @ f @ e @ s"
    using no_minus by (simp_all add: shape)
  have skipped: "drop (length (whole n)) (whole n @ f @ e @ s) = f @ e @ s" by simp
  have nonempty: "(whole n = [] \<and> fd = []) = False" using \<open>whole n \<noteq> []\<close> by simp
  have "decimal_magnitude p (decimal_value (whole n @ fd)) (exponent_value n - int (length fd)) = number_magnitude p n"
    by (simp add: number_magnitude_def fd_def)
  then show ?thesis
    unfolding float_from_chars_def Let_def sign run skipped point frac rest expo prod.case nonempty if_False len
    by (simp add: in_range_def fd_def)
qed

section \<open>What is written reads back\<close>

lemma round_units_cong:
  assumes "a * d' = a' * d" "0 < d" "0 < d'"
  shows "round_units p a d = round_units p a' d'"
proof -
  have scale: "round_units p (c * x) (c * y) = round_units p x y" if "0 < c" "0 < y" for c x y :: nat
  proof -
    let ?q = "x div y" let ?k = "excess p ?q" let ?m = "?q div 2 ^ ?k"
    have q: "c * x div (c * y) = ?q" using that by simp
    have r: "c * x - ?m * 2 ^ ?k * (c * y) = c * (x - ?m * 2 ^ ?k * y)"
      by (simp add: diff_mult_distrib2 mult.left_commute)
    have cmp: "2 * (c * u) > 2 ^ ?k * (c * y) \<longleftrightarrow> 2 * u > 2 ^ ?k * y"
      "2 * (c * u) = 2 ^ ?k * (c * y) \<longleftrightarrow> 2 * u = 2 ^ ?k * y" for u
      using that by (simp_all add: mult.left_commute [of _ c])
    show ?thesis unfolding round_units_def Let_def q r cmp ..
  qed
  have "round_units p a d = round_units p (d' * a) (d' * d)" using scale assms by simp
  also have "\<dots> = round_units p (d * a') (d * d')" using assms(1) by (simp add: mult.commute)
  also have "\<dots> = round_units p a' d'" using scale assms by simp
  finally show ?thesis .
qed

text \<open>Appending zeros to the digits and lowering the exponent does not change the number.\<close>

lemma decimal_magnitude_shift: "decimal_magnitude p (n * 10 ^ k) (e - int k) = decimal_magnitude p n e"
proof (cases "0 \<le> e")
  case True
  show ?thesis
  proof (cases "int k \<le> e")
    case le: True
    then have "nat e = k + nat (e - int k)" by linarith
    then have "(10::nat) ^ nat e = 10 ^ k * 10 ^ nat (e - int k)" by (simp only: power_add)
    with True le show ?thesis by (simp add: decimal_magnitude_def mult.assoc)
  next
    case False
    define j where "j = nat (- (e - int k))"
    have "k = nat e + j" using True False by (simp add: j_def)
    then have "(10::nat) ^ k = 10 ^ nat e * 10 ^ j" by (simp add: power_add)
    with True False show ?thesis unfolding decimal_magnitude_def j_def [symmetric]
      by simp (rule round_units_cong, simp_all add: mult_ac)
  qed
next
  case False
  then have "nat (- (e - int k)) = k + nat (- e)" by linarith
  then have "(10::nat) ^ nat (- (e - int k)) = 10 ^ k * 10 ^ nat (- e)" by (simp only: power_add)
  with False show ?thesis
    by (simp add: decimal_magnitude_def) (rule round_units_cong, simp_all add: mult_ac)
qed

lemma decimal_value_append: "decimal_value (xs @ ys) = decimal_value xs * 10 ^ length ys + decimal_value ys"
proof -
  have run: "foldl (\<lambda>n c. 10 * n + (code_of c - 48)) m ys = m * 10 ^ length ys + decimal_value ys" for m
  proof (induction ys arbitrary: m)
    case (Cons y ys)
    let ?d = "code_of y - 48"
    have "decimal_value (y # ys) = ?d * 10 ^ length ys + decimal_value ys"
      using Cons [of ?d] by (simp add: decimal_value_def)
    moreover have "(10 * m + ?d) * 10 ^ length ys = m * 10 ^ length (y # ys) + ?d * 10 ^ length ys"
      by (simp add: add_mult_distrib)
    ultimately show ?case using Cons [of "10 * m + ?d"] by (simp only: foldl_Cons)
  qed (simp add: decimal_value_def)
  have "decimal_value (xs @ ys) = foldl (\<lambda>n c. 10 * n + (code_of c - 48)) (decimal_value xs) ys"
    by (simp add: decimal_value_def)
  then show ?thesis by (simp only: run)
qed

lemma decimal_value_zeros [simp]: "decimal_value (zeros k) = 0"
  by (induction k) (simp_all add: zeros_def decimal_value_def code_of_def)

lemma decimal_value_zeros_append [simp]: "decimal_value (zeros k @ s) = decimal_value s"
  by (simp add: decimal_value_append)

lemma decimal_value_zero_Cons [simp]: "decimal_value (CHR ''0'' # s) = decimal_value s"
  using decimal_value_zeros_append [of 1 s] by (simp add: zeros_def)

lemma digits_zeros [simp]: "list_all is_digit (zeros k)" "length (zeros k) = k"
  by (auto simp: zeros_def list_all_iff is_digit_def code_of_def)

lemma digits_show_nat [simp]: "list_all is_digit (show_nat n)" "digits (show_nat n)"
  using show_nat_digits [of _ n] by (auto simp: digits_def list_all_iff)

lemma list_all_take_drop: "list_all P xs \<Longrightarrow> list_all P (take k xs) \<and> list_all P (drop k xs)"
  by (auto simp: list_all_iff dest: in_set_takeD in_set_dropD)

text \<open>A JSON number also has no superfluous leading zero.\<close>

definition no_leading_zero :: "number \<Rightarrow> bool" where
  "no_leading_zero n \<longleftrightarrow> hd (whole n) = CHR ''0'' \<longrightarrow> length (whole n) = 1"

definition represents :: "precision \<Rightarrow> nat \<Rightarrow> string \<Rightarrow> number \<Rightarrow> bool" where
  "represents p b s n \<longleftrightarrow> well_formed n \<and> no_leading_zero n \<and> \<not> negative n \<and>
     number_magnitude p n = b \<and> number_text n = s \<and>
     (b \<noteq> 0 \<or> decimal_value (whole n @ fraction_digits n) = 0)"

lemma represents_scientific:
  assumes "reads_as p b (n, e)" "n \<noteq> 0" "b \<noteq> 0"
  shows "\<exists>m. represents p b (scientific n e) m"
proof -
  let ?ds = "show_nat n" let ?x = "e + int (length ?ds) - 1" let ?xs = "show_nat (nat \<bar>?x\<bar>)"
  let ?es = "zeros (2 - length ?xs) @ ?xs"
  obtain d ds where ds: "?ds = d # ds" by (cases ?ds) simp_all
  define m where "m = \<lparr>negative = False, whole = [d], fraction = (if ds = [] then None else Some ds),
    exponent = Some (CHR ''e'', (if ?x < 0 then ''-'' else ''+''), ?es)\<rparr>"
  have dig: "is_digit d" "list_all is_digit ds" using digits_show_nat(1) [of n] ds by simp_all
  then have "well_formed m"
    by (auto simp: m_def well_formed_def digits_def split: option.splits)
  moreover have "exponent_value m = ?x" by (simp add: m_def exponent_value_def)
  then have "number_magnitude p m = b"
    using assms(1) ds decimal_value_show_nat [of n]
    by (auto simp: number_magnitude_def m_def fraction_digits_def reads_as_def)
  moreover have "number_text m = scientific n e"
    using ds by (simp add: m_def number_text_def scientific_def Let_def)
  ultimately show ?thesis using assms(3) by (auto simp: represents_def no_leading_zero_def m_def)
qed

lemma represents_fixed:
  assumes "reads_as p b (n, e)" "n \<noteq> 0" "b < infinity p" "b \<noteq> 0"
  shows "\<exists>m. represents p b (fixed p b n e) m"
proof -
  let ?ds = "show_nat n" let ?x = "e + int (length ?ds) - 1"
  have val: "decimal_value ?ds = n" by simp
  have lead: "hd ?ds \<noteq> CHR ''0''" using assms(2) by (simp add: show_nat_leading_zero)
  consider (exact) "0 \<le> e" "2 ^ unit_exponent p dvd units p b"
    | (padded) "0 \<le> e" "\<not> 2 ^ unit_exponent p dvd units p b"
    | (middle) "e < 0" "0 \<le> ?x" | (small) "e < 0" "?x < 0" by linarith
  then show ?thesis
  proof cases
    case exact
    let ?q = "units p b div 2 ^ unit_exponent p"
    define m where "m = \<lparr>negative = False, whole = show_nat ?q, fraction = None, exponent = None\<rparr>"
    have "length (show_nat 0) = 1" by (simp add: show_nat.simps)
    then have "no_leading_zero m" by (auto simp: no_leading_zero_def m_def show_nat_leading_zero)
    moreover have "number_magnitude p m = b"
      using exact assms(3) round_units_exact [of 1 p b]
      by (simp add: m_def number_magnitude_def fraction_digits_def exponent_value_def decimal_magnitude_def)
    ultimately show ?thesis using exact assms(4)
      by (intro exI [of _ m])
        (simp add: represents_def well_formed_def m_def number_text_def fixed_def)
  next
    case padded
    define m where "m = \<lparr>negative = False, whole = ?ds @ zeros (nat e), fraction = None, exponent = None\<rparr>"
    have "hd (whole m) \<noteq> CHR ''0''" using lead by (simp add: m_def)
    moreover have "number_magnitude p m = b"
      using padded assms(1) decimal_magnitude_shift [of p n "nat e" e]
      by (simp add: m_def number_magnitude_def fraction_digits_def exponent_value_def decimal_value_append reads_as_def)
    ultimately show ?thesis using padded assms(4)
      by (intro exI [of _ m])
        (simp add: represents_def no_leading_zero_def well_formed_def digits_def m_def number_text_def fixed_def)
  next
    case middle
    let ?k = "nat (?x + 1)"
    have k: "0 < ?k" "?k < length ?ds" using middle by linarith+
    define m where "m = \<lparr>negative = False, whole = take ?k ?ds, fraction = Some (drop ?k ?ds), exponent = None\<rparr>"
    have "well_formed m"
      using k list_all_take_drop [OF digits_show_nat(1) [of n], of ?k]
      by (auto simp: m_def well_formed_def digits_def)
    moreover have "no_leading_zero m"
      using lead k by (simp add: m_def no_leading_zero_def hd_take)
    moreover have "0 - int (length (drop ?k ?ds)) = e" using k middle by simp
    then have "number_magnitude p m = b"
      using assms(1) val
      by (simp add: m_def number_magnitude_def fraction_digits_def exponent_value_def reads_as_def del: length_drop)
    ultimately show ?thesis using middle assms(4)
      by (intro exI [of _ m])
        (simp add: represents_def m_def number_text_def fixed_def Let_def)
  next
    case small
    let ?k = "nat (- ?x - 1)"
    define m where "m = \<lparr>negative = False, whole = ''0'', fraction = Some (zeros ?k @ ?ds), exponent = None\<rparr>"
    have "well_formed m"
      by (simp add: m_def well_formed_def digits_def) (simp add: is_digit_def code_of_def)
    moreover have "- int (?k + length ?ds) = e" using small by linarith
    then have "number_magnitude p m = b"
      using assms(1) val
      by (simp add: m_def number_magnitude_def fraction_digits_def exponent_value_def reads_as_def)
    ultimately show ?thesis using small assms(4)
      by (intro exI [of _ m])
        (simp add: represents_def no_leading_zero_def m_def number_text_def fixed_def Let_def)
  qed
qed

lemma shortest_reads_as:
  assumes "b < infinity p"
  shows "reads_as p b (shortest p b)"
proof (cases "concat (map (candidates p b) [1..<18])")
  case Nil
  have "decimal_magnitude p (units p b * 5 ^ unit_exponent p) (- int (unit_exponent p)) = b"
  proof -
    have "0 < unit_exponent p" by (cases p) simp_all
    have ten: "(10::nat) ^ u = 5 ^ u * 2 ^ u" for u using power_mult_distrib [of "5::nat" 2 u] by simp
    have "round_units p (units p b * 5 ^ unit_exponent p * 2 ^ unit_exponent p) (10 ^ unit_exponent p)
        = round_units p (units p b * 10 ^ unit_exponent p) (10 ^ unit_exponent p)"
      by (simp only: ten mult.assoc)
    also have "\<dots> = b" using round_units_exact [of "10 ^ unit_exponent p" p b] assms by simp
    finally show ?thesis using \<open>0 < unit_exponent p\<close> by (simp add: decimal_magnitude_def)
  qed
  with Nil show ?thesis by (simp only: shortest_def list.case reads_as_def fst_conv snd_conv)
next
  case (Cons c cs)
  then have "c \<in> set (concat (map (candidates p b) [1..<18]))" by (simp only: list.set_intros)
  then obtain k where "c \<in> set (candidates p b k)" unfolding set_concat set_map by blast
  then have "reads_as p b c" by (auto simp: candidates_def Let_def split: if_splits)
  with Cons show ?thesis by (simp only: shortest_def list.case)
qed

lemma round_units_zero: "round_units p 0 d = 0"
proof -
  have "excess p 0 = 0" by (subst excess.simps) simp
  then show ?thesis by (simp add: round_units_def)
qed

lemma reads_as_zero: "reads_as p b (0, e) \<Longrightarrow> b = 0"
  by (simp add: reads_as_def decimal_magnitude_def round_units_zero split: if_splits)

lemma represents_magnitude:
  assumes "b < infinity p"
  shows "\<exists>m. represents p b (magnitude_to_chars p b) m"
proof (cases "b = 0")
  case True
  define m where "m = \<lparr>negative = False, whole = ''0'', fraction = None, exponent = None\<rparr>"
  have "represents p b ''0'' m" using True
    by (simp add: represents_def well_formed_def no_leading_zero_def m_def number_text_def number_magnitude_def
        fraction_digits_def exponent_value_def decimal_magnitude_def digits_def)
      (simp add: is_digit_def decimal_value_def code_of_def round_units_zero)
  with True show ?thesis by (auto simp: magnitude_to_chars_def)
next
  case False
  obtain n e where ne: "shortest p b = (n, e)" by (cases "shortest p b")
  with shortest_reads_as [OF assms] have "reads_as p b (n, e)" by simp
  moreover from this False have "n \<noteq> 0" using reads_as_zero [of p b e] by (cases "n = 0") auto
  ultimately show ?thesis using represents_scientific [of p b n e] represents_fixed [of p b n e] assms False ne
    by (simp add: magnitude_to_chars_def Let_def)
qed

text \<open>
  The text that the JSON writer produces for a number: the shortest form, made recognisable as
  non-integral.
\<close>

definition contains_any :: "string \<Rightarrow> string \<Rightarrow> bool" where
  "contains_any cs s \<longleftrightarrow> list_ex (\<lambda>c. c \<in> set cs) s"

definition with_point :: "string \<Rightarrow> string" where
  "with_point s = (if contains_any ''.eE'' s then s else s @ ''.0'')"

lemma contains_any_simps [simp]:
  "\<not> contains_any cs []" "contains_any cs (c # s) \<longleftrightarrow> c \<in> set cs \<or> contains_any cs s"
  "contains_any cs (s @ t) \<longleftrightarrow> contains_any cs s \<or> contains_any cs t"
  by (simp_all add: contains_any_def)

lemma digits_contain: "list_all is_digit ds \<Longrightarrow> \<not> contains_any ''.eE'' ds"
  by (induction ds) (auto simp: is_digit_def code_of_def)

lemma number_contains:
  "well_formed n \<Longrightarrow> contains_any ''.eE'' (number_text n) \<longleftrightarrow> fraction n \<noteq> None \<or> exponent n \<noteq> None"
  by (auto simp: number_text_def well_formed_def digits_def digits_contain split: option.splits)

lemma float_text_number:
  assumes "b < infinity p"
  obtains n where "well_formed n" "no_leading_zero n" "negative n = neg" "number_magnitude p n = b"
    "fraction n \<noteq> None \<or> exponent n \<noteq> None" "in_range p n"
    "number_text n = with_point (float_to_chars p neg b)"
proof -
  obtain m where m: "well_formed m" "no_leading_zero m" "\<not> negative m" "number_magnitude p m = b"
    "number_text m = magnitude_to_chars p b" "b \<noteq> 0 \<or> decimal_value (whole m @ fraction_digits m) = 0"
    using represents_magnitude [OF assms] by (auto simp: represents_def)
  define k where "k = (if fraction m \<noteq> None \<or> exponent m \<noteq> None then m else m\<lparr>fraction := Some ''0''\<rparr>)"
  have k: "well_formed k" "no_leading_zero k" "fraction k \<noteq> None \<or> exponent k \<noteq> None"
    using m by (auto simp: k_def well_formed_def no_leading_zero_def digits_def is_digit_def code_of_def)
  have mag: "number_magnitude p k = b"
  proof (cases "fraction m \<noteq> None \<or> exponent m \<noteq> None")
    case False
    then have plain: "fraction m = None" "exponent m = None" by blast+
    then have "number_magnitude p k = decimal_magnitude p (decimal_value (whole m) * 10 ^ 1) (0 - int 1)"
      by (simp add: k_def number_magnitude_def fraction_digits_def exponent_value_def decimal_value_append)
        (simp add: decimal_value_def code_of_def)
    also have "\<dots> = decimal_magnitude p (decimal_value (whole m)) 0" by (rule decimal_magnitude_shift)
    also have "\<dots> = b" using plain m(4)
      by (simp add: number_magnitude_def fraction_digits_def exponent_value_def)
    finally show ?thesis .
  qed (use m(4) in \<open>simp add: k_def\<close>)
  have has: "contains_any ''.eE'' (magnitude_to_chars p b) \<longleftrightarrow> fraction m \<noteq> None \<or> exponent m \<noteq> None"
    using number_contains [OF m(1)] by (simp only: m(5))
  have text_m: "number_text (m\<lparr>negative := neg\<rparr>) = float_to_chars p neg b"
    using m(3) by (simp add: float_to_chars_def m(5) [symmetric] number_text_def)
  have written: "number_text (k\<lparr>negative := neg\<rparr>) = with_point (float_to_chars p neg b)"
  proof (cases "fraction m \<noteq> None \<or> exponent m \<noteq> None")
    case True
    with has text_m show ?thesis by (simp add: with_point_def float_to_chars_def k_def)
  next
    case False
    then have plain: "fraction m = None" "exponent m = None" by blast+
    then have "number_text (k\<lparr>negative := neg\<rparr>) = number_text (m\<lparr>negative := neg\<rparr>) @ ''.0''"
      by (simp add: k_def number_text_def)
    with has plain text_m show ?thesis by (simp add: with_point_def float_to_chars_def)
  qed
  define n where "n = k\<lparr>negative := neg\<rparr>"
  have nmag: "number_magnitude p n = b" "fraction_digits n = fraction_digits k" "whole n = whole k"
    using mag by (simp_all add: n_def number_magnitude_def fraction_digits_def exponent_value_def)
  have "decimal_value (whole k @ fraction_digits k) = 0" if "b = 0"
    using m(6) that
    by (auto simp: k_def fraction_digits_def decimal_value_append)
  moreover have "infinity p \<noteq> 0" by (cases p) simp_all
  ultimately have "in_range p n" using nmag assms by (auto simp: in_range_def)
  then show thesis using k written nmag by (intro that [of n]) (simp_all add: n_def well_formed_def no_leading_zero_def)
qed

end
