(* ===== verification/Utf.thy ===== *)
theory Utf
  imports Error_Path
begin

text \<open>
  Unicode conversions: \<open>include/reflgen/serial/detail/utf.h\<close>. Strings of the data model are
  UTF-8 byte strings. A code point (\<open>char32_t\<close>) and a code unit are natural numbers; every
  intermediate value of these routines stays below \<open>2 ^ 21\<close>, so the 32-bit arithmetic of the
  source never wraps.
\<close>

section \<open>The routines\<close>

definition is_surrogate :: "nat \<Rightarrow> bool" where
  "is_surrogate cp \<longleftrightarrow> 0xD800 \<le> cp \<and> cp \<le> 0xDFFF"

definition append_utf8 :: "string \<Rightarrow> nat \<Rightarrow> string fallible" where
  "append_utf8 out cp =
     (if cp > 0x10FFFF \<or> is_surrogate cp then Inl ''invalid Unicode code point''
      else if cp < 0x80 then Inr (out @ [char_of cp])
      else if cp < 0x800 then
        Inr (out @ [char_of (0xC0 OR drop_bit 6 cp), char_of (0x80 OR (cp AND 0x3F))])
      else if cp < 0x10000 then
        Inr (out @ [char_of (0xE0 OR drop_bit 12 cp),
                    char_of (0x80 OR (drop_bit 6 cp AND 0x3F)),
                    char_of (0x80 OR (cp AND 0x3F))])
      else
        Inr (out @ [char_of (0xF0 OR drop_bit 18 cp),
                    char_of (0x80 OR (drop_bit 12 cp AND 0x3F)),
                    char_of (0x80 OR (drop_bit 6 cp AND 0x3F)),
                    char_of (0x80 OR (cp AND 0x3F))]))"

text \<open>The loop over the continuation bytes: \<open>count\<close> more of them from index \<open>i\<close>.\<close>

primrec decode_continuation :: "string \<Rightarrow> nat \<Rightarrow> nat \<Rightarrow> nat \<Rightarrow> nat fallible" where
  "decode_continuation text i 0 cp = Inr cp"
| "decode_continuation text i (Suc count) cp =
     (let continuation = code_of (text ! i)
      in if continuation AND 0xC0 \<noteq> 0x80 then Inl ''invalid UTF-8 continuation byte''
         else decode_continuation text (Suc i) count (push_bit 6 cp OR (continuation AND 0x3F)))"

text \<open>
  \<open>decode_utf8\<close> is called with \<open>position < text.size()\<close> only (every caller checks it); the
  result is the code point and the advanced position.
\<close>

definition decode_sequence :: "string \<Rightarrow> nat \<Rightarrow> nat \<Rightarrow> nat \<Rightarrow> nat \<Rightarrow> (nat \<times> nat) fallible" where
  "decode_sequence text position len lead_bits minimum =
     (if position + len > length text then Inl ''truncated UTF-8 sequence''
      else and_then (decode_continuation text (Suc position) (len - 1) lead_bits) (\<lambda>cp.
        if cp < minimum \<or> cp > 0x10FFFF \<or> is_surrogate cp then Inl ''invalid UTF-8 sequence''
        else Inr (cp, position + len)))"

definition decode_utf8 :: "string \<Rightarrow> nat \<Rightarrow> (nat \<times> nat) fallible" where
  "decode_utf8 text position =
     (let lead = code_of (text ! position)
      in if lead < 0x80 then Inr (lead, Suc position)
         else if lead AND 0xE0 = 0xC0 then decode_sequence text position 2 (lead AND 0x1F) 0x80
         else if lead AND 0xF0 = 0xE0 then decode_sequence text position 3 (lead AND 0x0F) 0x800
         else if lead AND 0xF8 = 0xF0 then decode_sequence text position 4 (lead AND 0x07) 0x10000
         else Inl ''invalid UTF-8 lead byte'')"

lemma decode_utf8_advances: "decode_utf8 text i = Inr (cp, j) \<Longrightarrow> i < j"
  by (auto simp: decode_utf8_def decode_sequence_def Let_def split: if_splits)

function decode_all :: "string \<Rightarrow> nat \<Rightarrow> nat list fallible" where
  "decode_all text position =
     (if position < length text
      then and_then (decode_utf8 text position) (\<lambda>(cp, next).
             and_then (decode_all text next) (\<lambda>cps. Inr (cp # cps)))
      else Inr [])"
  by pat_completeness auto
termination
  by (relation "measure (\<lambda>(text, position). length text - position)")
     (auto dest: decode_utf8_advances)

declare decode_all.simps [simp del]

definition validate_utf8 :: "string \<Rightarrow> unit fallible" where
  "validate_utf8 text = and_then (decode_all text 0) (\<lambda>_. Inr ())"

text \<open>\<open>to_utf8\<close> for two-byte and four-byte code units, and \<open>from_utf8\<close> for the same.\<close>

fun utf16_to_utf8 :: "string \<Rightarrow> 16 word list \<Rightarrow> string fallible" where
  "utf16_to_utf8 result [] = Inr result"
| "utf16_to_utf8 result (u # rest) =
     (let unit = unat u
      in if 0xD800 \<le> unit \<and> unit \<le> 0xDBFF then
           (case rest of
              [] \<Rightarrow> Inl ''unpaired UTF-16 surrogate''
            | l # rest' \<Rightarrow>
                let low = unat l
                in if low < 0xDC00 \<or> low > 0xDFFF then Inl ''unpaired UTF-16 surrogate''
                   else and_then (append_utf8 result (0x10000 + push_bit 10 (unit - 0xD800) + (low - 0xDC00)))
                          (\<lambda>r. utf16_to_utf8 r rest'))
         else and_then (append_utf8 result unit) (\<lambda>r. utf16_to_utf8 r rest))"

fun utf32_to_utf8 :: "string \<Rightarrow> 32 word list \<Rightarrow> string fallible" where
  "utf32_to_utf8 result [] = Inr result"
| "utf32_to_utf8 result (u # rest) =
     and_then (append_utf8 result (unat u)) (\<lambda>r. utf32_to_utf8 r rest)"

definition utf16_units :: "nat \<Rightarrow> 16 word list" where
  "utf16_units cp =
     (if cp \<ge> 0x10000
      then let offset = cp - 0x10000
           in [word_of_nat (0xD800 + drop_bit 10 offset), word_of_nat (0xDC00 + (offset AND 0x3FF))]
      else [word_of_nat cp])"

definition utf8_to_utf16 :: "string \<Rightarrow> 16 word list fallible" where
  "utf8_to_utf16 text = and_then (decode_all text 0) (\<lambda>cps. Inr (concat (map utf16_units cps)))"

definition utf8_to_utf32 :: "string \<Rightarrow> 32 word list fallible" where
  "utf8_to_utf32 text = and_then (decode_all text 0) (\<lambda>cps. Inr (map word_of_nat cps))"

section \<open>The code of a code point\<close>

definition is_scalar :: "nat \<Rightarrow> bool" where
  "is_scalar cp \<longleftrightarrow> cp \<le> 0x10FFFF \<and> \<not> is_surrogate cp"

definition utf8_bytes :: "nat \<Rightarrow> string" where
  "utf8_bytes cp = map char_of
     (if cp < 128 then [cp]
      else if cp < 2048 then [192 + cp div 64, 128 + cp mod 64]
      else if cp < 65536 then [224 + cp div 4096, 128 + cp div 64 mod 64, 128 + cp mod 64]
      else [240 + cp div 262144, 128 + cp div 4096 mod 64, 128 + cp div 64 mod 64, 128 + cp mod 64])"

lemma append_utf8_eq:
  "append_utf8 out cp =
     (if is_scalar cp then Inr (out @ utf8_bytes cp) else Inl ''invalid Unicode code point'')"
  by (auto simp: append_utf8_def is_scalar_def utf8_bytes_def bits drop_bit_eq_div)

lemma decode_continuation_Suc:
  "decode_continuation text i (Suc count) cp = Inr r \<longleftrightarrow>
     (\<exists>b<64. code_of (text ! i) = 128 + b \<and> decode_continuation text (Suc i) count (64 * cp + b) = Inr r)"
proof -
  let ?c = "code_of (text ! i)"
  have "?c - ?c mod 64 = 128 \<longleftrightarrow> (\<exists>b<64. ?c = 128 + b)"
  proof
    assume "?c - ?c mod 64 = 128"
    then have "?c = 128 + ?c mod 64" "?c mod 64 < 64" by auto
    then show "\<exists>b<64. ?c = 128 + b" by blast
  qed auto
  then show ?thesis by (auto simp: bits Let_def decode_continuation.simps(2))
qed

declare decode_continuation.simps(2) [simp del] decode_continuation_Suc [simp]

lemma utf8_bytes_length:
  "length (utf8_bytes cp) = (if cp < 128 then 1 else if cp < 2048 then 2 else if cp < 65536 then 3 else 4)"
  by (simp add: utf8_bytes_def)

lemma utf8_bytes_not_Nil [simp]: "utf8_bytes cp \<noteq> []"
  by (simp add: utf8_bytes_def)

text \<open>The four byte shapes that \<open>decode_utf8\<close> accepts, with the code point each stands for.\<close>

lemma decode_utf8_1: "code_of (s ! i) < 128 \<Longrightarrow> decode_utf8 s i = Inr (code_of (s ! i), Suc i)"
  by (simp add: decode_utf8_def)

lemma decode_utf8_2:
  "code_of (s ! i) = 192 + a \<Longrightarrow> a < 32 \<Longrightarrow> decode_utf8 s i = decode_sequence s i 2 a 0x80"
  by (simp add: decode_utf8_def bits Let_def)

lemma decode_utf8_3:
  "code_of (s ! i) = 224 + a \<Longrightarrow> a < 16 \<Longrightarrow> decode_utf8 s i = decode_sequence s i 3 a 0x800"
proof -
  assume "code_of (s ! i) = 224 + a" "a < 16"
  moreover from this have "(224 + a) mod 32 = a" using mod_mult_self3 [of 7 32 a] by simp
  ultimately show ?thesis by (simp add: decode_utf8_def bits Let_def)
qed

lemma decode_utf8_4:
  "code_of (s ! i) = 240 + a \<Longrightarrow> a < 8 \<Longrightarrow> decode_utf8 s i = decode_sequence s i 4 a 0x10000"
proof -
  assume "code_of (s ! i) = 240 + a" "a < 8"
  moreover from this have "(240 + a) mod 32 = 16 + a" "(240 + a) mod 16 = a"
    using mod_mult_self3 [of 7 32 "16 + a"] mod_mult_self3 [of 15 16 a] by simp_all
  ultimately show ?thesis by (simp add: decode_utf8_def bits Let_def)
qed

lemmas decode_shapes = decode_utf8_1 decode_utf8_2 decode_utf8_3 decode_utf8_4

lemma decode_sequence_eq:
  "decode_sequence s i n a lo = Inr (cp, j) \<longleftrightarrow>
     i + n \<le> length s \<and> j = i + n \<and> lo \<le> cp \<and> is_scalar cp \<and>
     decode_continuation s (Suc i) (n - 1) a = Inr cp"
  by (cases "decode_continuation s (Suc i) (n - 1) a") (auto simp: decode_sequence_def is_scalar_def)

lemma decode_utf8_bytes:
  assumes "is_scalar cp" and "drop i s = utf8_bytes cp @ rest"
  shows "decode_utf8 s i = Inr (cp, i + length (utf8_bytes cp))"
proof -
  have len: "i + length (utf8_bytes cp) \<le> length s"
    using drop_append_length [OF assms(2) utf8_bytes_not_Nil] by simp
  have nth: "k < length (utf8_bytes cp) \<Longrightarrow> s ! (i + k) = utf8_bytes cp ! k" for k
    using assms(2) len by (metis add_leD1 nth_append nth_drop)
  consider "cp < 128" | "128 \<le> cp" "cp < 2048" | "2048 \<le> cp" "cp < 65536" | "65536 \<le> cp" "cp \<le> 0x10FFFF"
    using assms(1) by (auto simp: is_scalar_def) linarith
  then show ?thesis
  proof cases
    case 1
    with nth [of 0] show ?thesis by (simp add: utf8_bytes_def code_of_char_of decode_shapes)
  next
    case 2
    then have "code_of (s ! i) = 192 + cp div 64" "code_of (s ! Suc i) = 128 + cp mod 64"
      using nth [of 0] nth [of 1] by (simp_all add: utf8_bytes_def code_of_char_of)
    moreover have "64 * (cp div 64) + cp mod 64 = cp" by simp
    ultimately show ?thesis using 2 len assms(1)
      by (simp add: utf8_bytes_length decode_utf8_2 decode_sequence_eq numeral_2_eq_2)
  next
    case 3
    then have "code_of (s ! i) = 224 + cp div 4096" "code_of (s ! Suc i) = 128 + cp div 64 mod 64"
      "code_of (s ! Suc (Suc i)) = 128 + cp mod 64"
      using nth [of 0] nth [of 1] nth [of 2] by (simp_all add: utf8_bytes_def code_of_char_of)
    moreover have "cp div 4096 = cp div 64 div 64" by (simp flip: div_mult2_eq)
    then have "64 * (64 * (cp div 4096) + cp div 64 mod 64) + cp mod 64 = cp" by simp
    ultimately show ?thesis using 3 len assms(1)
      by (simp add: utf8_bytes_length decode_utf8_3 decode_sequence_eq numeral_3_eq_3)
  next
    case 4
    then have "code_of (s ! i) = 240 + cp div 262144" "code_of (s ! Suc i) = 128 + cp div 4096 mod 64"
      "code_of (s ! Suc (Suc i)) = 128 + cp div 64 mod 64"
      "code_of (s ! Suc (Suc (Suc i))) = 128 + cp mod 64"
      using nth [of 0] nth [of 1] nth [of 2] nth [of 3]
      by (simp_all add: utf8_bytes_def code_of_char_of numeral_3_eq_3)
    moreover have "cp div 4096 = cp div 64 div 64" "cp div 262144 = cp div 4096 div 64"
      by (simp_all flip: div_mult2_eq)
    then have "64 * (64 * (64 * (cp div 262144) + cp div 4096 mod 64) + cp div 64 mod 64) + cp mod 64 = cp"
      by simp
    ultimately show ?thesis using 4 len assms(1)
      by (simp add: utf8_bytes_length decode_utf8_4 decode_sequence_eq numeral_3_eq_3)
  qed
qed

interpretation utf8: prefix_code utf8_bytes decode_utf8 is_scalar
  by unfold_locales (simp_all add: decode_utf8_bytes utf8_bytes_def)

text \<open>
  The converse: what \<open>decode_utf8\<close> accepts is the code of what it returns. Overlong forms,
  surrogates and values beyond the Unicode range are refused.
\<close>

lemma char_eqI: "code_of c = n \<Longrightarrow> char_of n = c"
  by (metis char_of_code_of)

lemma radix_64: "(c::nat) < 64 \<Longrightarrow> (64 * x + c) div 64 = x" "c < 64 \<Longrightarrow> (64 * x + c) mod 64 = c"
  by simp_all

lemma drop_eq_Cons: "i < length s \<Longrightarrow> drop i s = s ! i # drop (Suc i) s"
  by (simp add: Cons_nth_drop_Suc)

lemma decode_utf8_sound:
  assumes "i < length s" and "decode_utf8 s i = Inr (cp, j)"
  shows "is_scalar cp \<and> j \<le> length s \<and> drop i s = utf8_bytes cp @ drop j s"
proof -
  let ?c = "code_of (s ! i)"
  consider "?c < 128"
    | a where "?c = 192 + a" "a < 32" | a where "?c = 224 + a" "a < 16" | a where "?c = 240 + a" "a < 8"
  proof -
    from assms(2) have "?c < 128 \<or> ?c - ?c mod 32 = 192 \<or> ?c - ?c mod 16 = 224 \<or> ?c - ?c mod 8 = 240"
      by (auto simp: decode_utf8_def Let_def bits split: if_splits)
    then have "?c < 128 \<or> ?c = 192 + ?c mod 32 \<or> ?c = 224 + ?c mod 16 \<or> ?c = 240 + ?c mod 8"
      by linarith
    with that(1) that(2) [of "?c mod 32"] that(3) [of "?c mod 16"] that(4) [of "?c mod 8"]
    show ?thesis by fastforce
  qed
  then show ?thesis
  proof cases
    case 1
    with assms show ?thesis
      by (auto simp: decode_utf8_1 is_scalar_def is_surrogate_def utf8_bytes_def drop_eq_Cons)
  next
    case (2 a)
    with assms(2) obtain b where b: "b < 64" "code_of (s ! Suc i) = 128 + b" "cp = 64 * a + b"
      and "i + 2 \<le> length s" "j = i + 2" "128 \<le> cp" "is_scalar cp"
      by (auto simp: decode_utf8_2 decode_sequence_eq numeral_2_eq_2)
    moreover have "utf8_bytes cp = [char_of (192 + a), char_of (128 + b)]"
      using 2 b \<open>128 \<le> cp\<close> by (simp add: utf8_bytes_def)
    ultimately show ?thesis using 2 by (simp add: drop_eq_Cons char_eqI)
  next
    case (3 a)
    with assms(2) obtain b c where b: "b < 64" "code_of (s ! Suc i) = 128 + b" "c < 64"
      "code_of (s ! Suc (Suc i)) = 128 + c" "cp = 64 * (64 * a + b) + c"
      and "i + 3 \<le> length s" "j = i + 3" "2048 \<le> cp" "is_scalar cp"
      by (auto simp: decode_utf8_3 decode_sequence_eq numeral_3_eq_3)
    moreover have "cp div 64 = 64 * a + b" "cp mod 64 = c" "cp < 65536"
      using radix_64 [OF b(3), of "64 * a + b"] 3 b by simp_all
    then have "utf8_bytes cp = [char_of (224 + a), char_of (128 + b), char_of (128 + c)]"
      using radix_64 [OF b(1), of a] \<open>2048 \<le> cp\<close> div_mult2_eq [of cp 64 64]
      by (simp add: utf8_bytes_def)
    ultimately show ?thesis using 3 by (simp add: drop_eq_Cons char_eqI numeral_3_eq_3)
  next
    case (4 a)
    with assms(2) obtain b c d where b: "b < 64" "code_of (s ! Suc i) = 128 + b" "c < 64"
      "code_of (s ! Suc (Suc i)) = 128 + c" "d < 64" "code_of (s ! Suc (Suc (Suc i))) = 128 + d"
      "cp = 64 * (64 * (64 * a + b) + c) + d"
      and "i + 4 \<le> length s" "j = i + 4" "65536 \<le> cp" "is_scalar cp"
      by (auto simp: decode_utf8_4 decode_sequence_eq numeral_3_eq_3)
    moreover have "cp div 64 = 64 * (64 * a + b) + c" "cp mod 64 = d"
      using radix_64 [OF b(5), of "64 * (64 * a + b) + c"] b by simp_all
    then have "utf8_bytes cp =
        [char_of (240 + a), char_of (128 + b), char_of (128 + c), char_of (128 + d)]"
      using radix_64 [OF b(3), of "64 * a + b"] radix_64 [OF b(1), of a] \<open>65536 \<le> cp\<close>
        div_mult2_eq [of cp 64 64] div_mult2_eq [of cp "64 * 64" 64]
      by (simp add: utf8_bytes_def)
    moreover have "j = Suc (Suc (Suc (Suc i)))" using \<open>j = i + 4\<close> by simp
    ultimately show ?thesis using 4 by (simp add: drop_eq_Cons char_eqI)
  qed
qed

lemma decode_all_complete:
  "\<forall>cp\<in>set cps. is_scalar cp \<Longrightarrow> drop i s = concat (map utf8_bytes cps) \<Longrightarrow> decode_all s i = Inr cps"
proof (induction cps arbitrary: i)
  case Nil
  then show ?case by (simp add: decode_all.simps [of s i])
next
  case (Cons cp cps)
  then have here: "drop i s = utf8_bytes cp @ concat (map utf8_bytes cps)" by simp
  with Cons.prems have "decode_utf8 s i = Inr (cp, i + length (utf8_bytes cp))"
    by (intro decode_utf8_bytes) auto
  moreover have "i < length s"
    using here drop_append_length [OF here utf8_bytes_not_Nil] by (simp add: utf8_bytes_length split: if_splits)
  ultimately show ?case
    using Cons drop_append_shift [OF here] by (simp add: decode_all.simps [of s i])
qed

lemma decode_all_sound:
  "decode_all s i = Inr cps \<Longrightarrow> (\<forall>cp\<in>set cps. is_scalar cp) \<and> drop i s = concat (map utf8_bytes cps)"
proof (induction s i arbitrary: cps rule: decode_all.induct)
  case (1 s i)
  show ?case
  proof (cases "i < length s")
    case True
    with 1 obtain cp j cps' where step: "decode_utf8 s i = Inr (cp, j)"
      "decode_all s j = Inr cps'" "cps = cp # cps'"
      by (auto simp: decode_all.simps [of s i])
    with 1 True decode_utf8_sound [OF True step(1)] show ?thesis by auto
  next
    case False
    with 1 show ?thesis by (simp add: decode_all.simps [of s i])
  qed
qed

lemma decode_all_iff:
  "decode_all s 0 = Inr cps \<longleftrightarrow> (\<forall>cp\<in>set cps. is_scalar cp) \<and> s = concat (map utf8_bytes cps)"
  using decode_all_complete [of cps 0 s] decode_all_sound [of s 0 cps] by auto

section \<open>Properties\<close>

text \<open>\<open>decode_utf8\<close> undoes \<open>append_utf8\<close>. Whatever the output held before and whatever
  follows the appended bytes, decoding at the place where a code point was appended returns that
  code point and stops right behind it.\<close>

theorem decode_appended:
  "append_utf8 out cp = Inr s \<Longrightarrow> decode_utf8 (s @ rest) (length out) = Inr (cp, length s)"
  using decode_utf8_bytes [of cp "length out" "s @ rest" rest]
  by (auto simp: append_utf8_eq split: if_splits)

theorem decode_appended_witness:
  "decode_utf8 (''A'' @ map char_of [0xF0 :: nat, 0x9F, 0x98, 0x80] @ ''z'') 1 = Inr (0x1F600, 5)"
  using decode_appended [of "''A''" "0x1F600" "''A'' @ map char_of [0xF0 :: nat, 0x9F, 0x98, 0x80]" "''z''"]
  by (simp add: append_utf8_eq is_scalar_def is_surrogate_def utf8_bytes_def)

lemma ascii_utf8:
  assumes "list_all (\<lambda>c. of_char c < (128::nat)) s"
  shows "validate_utf8 s = Inr ()"
proof -
  have "s = concat (map utf8_bytes (map of_char s))"
    using assms by (induction s) (auto simp: utf8_bytes_def)
  moreover have "\<forall>cp\<in>set (map of_char s). is_scalar cp"
    using assms by (auto simp: list_all_iff is_scalar_def is_surrogate_def)
  ultimately have "decode_all s 0 = Inr (map of_char s)" by (rule decode_all_iff [THEN iffD2, OF conjI, rotated])
  then show ?thesis by (simp add: validate_utf8_def)
qed

text \<open>C12: \<open>validate_utf8\<close> accepts exactly the well-formed UTF-8 strings: the concatenations of
  the shortest codes of Unicode scalar values. Overlong forms, surrogates, values above U+10FFFF,
  stray continuation bytes and truncated sequences are all refused.\<close>

theorem validate_utf8_iff:
  "validate_utf8 s = Inr () \<longleftrightarrow> (\<exists>cps. list_all is_scalar cps \<and> s = concat (map utf8_bytes cps))"
  by (simp add: validate_utf8_def decode_all_iff list_all_iff)

lemma utf16_units_pair:
  assumes "0xD800 \<le> u" "u \<le> 0xDBFF" "0xDC00 \<le> l" "l \<le> 0xDFFF"
  defines "cp \<equiv> 0x10000 + push_bit 10 (u - 0xD800) + (l - 0xDC00)"
  shows "is_scalar cp \<and> utf16_units cp = [word_of_nat u, word_of_nat l]"
proof -
  define h where "h = u - 0xD800"
  define k where "k = l - 0xDC00"
  have "u = 0xD800 + h" "l = 0xDC00 + k" "h < 1024" "k < 1024"
    using assms(1-4) by (simp_all add: h_def k_def)
  then show ?thesis
    by (simp add: cp_def is_scalar_def is_surrogate_def utf16_units_def bits drop_bit_eq_div push_bit_eq_mult)
qed

lemma utf16_to_utf8_sound:
  "utf16_to_utf8 r us = Inr s \<Longrightarrow>
     \<exists>cps. list_all is_scalar cps \<and> s = r @ concat (map utf8_bytes cps) \<and> us = concat (map utf16_units cps)"
proof (induction r us rule: utf16_to_utf8.induct)
  case (1 r)
  then show ?case by (auto intro!: exI [of _ "[]"])
next
  case (2 r u rest)
  have u: "unat u < 65536" using unsigned_less [of u, where 'a = nat] by simp
  show ?case
  proof (cases "0xD800 \<le> unat u \<and> unat u \<le> 0xDBFF")
    case True
    with "2.prems" obtain l rest' where rest: "rest = l # rest'"
      and low: "0xDC00 \<le> unat l" "unat l \<le> 0xDFFF"
      by (auto simp: Let_def split: list.splits if_splits)
    define cp where "cp = 0x10000 + push_bit 10 (unat u - 0xD800) + (unat l - 0xDC00)"
    have cp: "is_scalar cp" "utf16_units cp = [u, l]"
      using utf16_units_pair [of "unat u" "unat l"] True low by (simp_all add: cp_def)
    from "2.prems" True low rest cp(1) have "utf16_to_utf8 (r @ utf8_bytes cp) rest' = Inr s"
      by (simp add: Let_def append_utf8_eq flip: cp_def)
    moreover have "append_utf8 r (0x10000 + push_bit 10 (unat u - 0xD800) + (unat l - 0xDC00)) =
        Inr (r @ utf8_bytes cp)"
      using cp(1) by (simp add: append_utf8_eq cp_def)
    ultimately obtain cps where "list_all is_scalar cps"
      "s = r @ utf8_bytes cp @ concat (map utf8_bytes cps)" "rest' = concat (map utf16_units cps)"
      using "2.IH"(1) [OF refl True rest refl] low by auto
    with cp rest show ?thesis by (intro exI [of _ "cp # cps"]) simp
  next
    case False
    with "2.prems" have cp: "is_scalar (unat u)" "utf16_to_utf8 (r @ utf8_bytes (unat u)) rest = Inr s"
      by (auto simp: Let_def append_utf8_eq split: if_splits)
    moreover have "append_utf8 r (unat u) = Inr (r @ utf8_bytes (unat u))"
      using cp(1) by (simp add: append_utf8_eq)
    ultimately obtain cps where "list_all is_scalar cps"
      "s = r @ utf8_bytes (unat u) @ concat (map utf8_bytes cps)" "rest = concat (map utf16_units cps)"
      using "2.IH"(2) [OF refl False] by auto
    moreover have "utf16_units (unat u) = [u]" using u by (simp add: utf16_units_def)
    ultimately show ?thesis using cp(1) by (intro exI [of _ "unat u # cps"]) simp
  qed
qed

lemma utf16_to_utf8_step:
  assumes "is_scalar cp"
  shows "utf16_to_utf8 r (utf16_units cp @ us) = utf16_to_utf8 (r @ utf8_bytes cp) us"
proof (cases "cp < 0x10000")
  case True
  with assms show ?thesis
    by (auto simp: utf16_units_def append_utf8_eq unat_of_nat is_scalar_def is_surrogate_def Let_def)
next
  case False
  define h where "h = (cp - 0x10000) div 1024"
  define k where "k = (cp - 0x10000) mod 1024"
  have hk: "cp = 0x10000 + (h * 1024 + k)" "h < 1024" "k < 1024"
    using False assms by (auto simp: h_def k_def is_scalar_def)
  define u :: "16 word" where "u = word_of_nat (0xD800 + h)"
  define l :: "16 word" where "l = word_of_nat (0xDC00 + k)"
  have "utf16_units cp = [u, l]"
    using hk by (simp add: utf16_units_def bits drop_bit_eq_div u_def l_def)
  moreover have "unat u = 0xD800 + h" "unat l = 0xDC00 + k"
    using hk unfolding u_def l_def by (subst unat_of_nat, simp)+
  ultimately show ?thesis
    using hk assms by (simp add: Let_def append_utf8_eq push_bit_eq_mult add.assoc)
qed

lemma utf16_to_utf8_complete:
  "list_all is_scalar cps \<Longrightarrow>
     utf16_to_utf8 r (concat (map utf16_units cps)) = Inr (r @ concat (map utf8_bytes cps))"
  by (induction cps arbitrary: r) (simp_all add: utf16_to_utf8_step)

lemma utf16_utf8_back: "utf16_to_utf8 [] us = Inr s \<longleftrightarrow> utf8_to_utf16 s = Inr us"
proof
  assume "utf16_to_utf8 [] us = Inr s"
  then show "utf8_to_utf16 s = Inr us"
    using utf16_to_utf8_sound [of "[]" us s] by (auto simp: utf8_to_utf16_def decode_all_iff list_all_iff)
next
  assume "utf8_to_utf16 s = Inr us"
  then show "utf16_to_utf8 [] us = Inr s"
    using utf16_to_utf8_complete [of _ "[]"] by (auto simp: utf8_to_utf16_def decode_all_iff list_all_iff)
qed

text \<open>C13: the conversions between UTF-16 and UTF-8 are inverse to each other, errors included: a
  UTF-16 string converts to the byte string \<open>s\<close> exactly when \<open>s\<close> converts back to it, so ill-formed
  input (an unpaired surrogate on one side, malformed UTF-8 on the other) converts in neither
  direction and nothing is lost in either.\<close>

theorem utf16_utf8_inverse: "utf16_to_utf8 [] us = Inr s \<longleftrightarrow> utf8_to_utf16 s = Inr us"
  by (rule utf16_utf8_back)

lemma utf32_to_utf8_eq:
  "utf32_to_utf8 r us = Inr s \<longleftrightarrow>
     list_all is_scalar (map unat us) \<and> s = r @ concat (map (\<lambda>u. utf8_bytes (unat u)) us)"
  by (induction us arbitrary: r) (auto simp: append_utf8_eq)

lemma utf32_utf8_back: "utf32_to_utf8 [] us = Inr s \<longleftrightarrow> utf8_to_utf32 s = Inr us"
proof
  assume "utf32_to_utf8 [] us = Inr s"
  then have "decode_all s 0 = Inr (map unat us)"
    by (simp add: utf32_to_utf8_eq decode_all_iff list_all_iff comp_def)
  then show "utf8_to_utf32 s = Inr us" by (simp add: utf8_to_utf32_def comp_def)
next
  assume "utf8_to_utf32 s = Inr us"
  then obtain cps where cps: "list_all is_scalar cps" "s = concat (map utf8_bytes cps)" "us = map word_of_nat cps"
    by (auto simp: utf8_to_utf32_def decode_all_iff list_all_iff)
  then have "map unat us = cps"
    by (auto simp: list_all_iff is_scalar_def unat_of_nat comp_def intro!: map_idI)
  then have "map (\<lambda>u. utf8_bytes (unat u)) us = map utf8_bytes cps"
    by (metis (mono_tags, lifting) map_eq_conv map_map comp_apply)
  then have "s = concat (map (\<lambda>u. utf8_bytes (unat u)) us)"
    using cps(2) by (simp only:)
  moreover have "list_all is_scalar (map unat us)"
    using \<open>map unat us = cps\<close> cps(1) by (simp only:)
  ultimately show "utf32_to_utf8 [] us = Inr s"
    by (simp add: utf32_to_utf8_eq)
qed

text \<open>The same for four-byte code units.\<close>

lemma utf32_utf8_inverse: "utf32_to_utf8 [] us = Inr s \<longleftrightarrow> utf8_to_utf32 s = Inr us"
  by (rule utf32_utf8_back)

end
