(* ===== verification/Json.thy ===== *)
theory Json
  imports Data_Model Float_Text Base64 Utf
begin

text \<open>
  The JSON backend: \<open>include/reflgen/json/writer.h\<close> and \<open>json/reader.h\<close>. The output string and
  the frame stack are lists, the innermost frame first; the reader holds the whole input and an
  index into it.
\<close>

section \<open>The writer\<close>

record json_writer_frame =
  jwf_is_object :: bool
  jwf_has_items :: bool
  jwf_awaiting_value :: bool
  jwf_is_inline :: bool

record json_writer =
  jw_output :: string
  jw_indent :: nat
  jw_max_depth :: nat
  jw_stack :: "json_writer_frame list"
  jw_root_started :: bool
  jw_inline_next :: bool

definition json_writer :: "nat \<Rightarrow> nat \<Rightarrow> json_writer" where
  "json_writer indent limit = \<lparr>jw_output = [], jw_indent = indent, jw_max_depth = limit, jw_stack = [],
     jw_root_started = False, jw_inline_next = False\<rparr>"

definition emit :: "string \<Rightarrow> json_writer \<Rightarrow> json_writer" where
  "emit s w = w\<lparr>jw_output := jw_output w @ s\<rparr>"

definition newline :: "nat \<Rightarrow> json_writer \<Rightarrow> json_writer" where
  "newline level w =
     (if jw_indent w = 0 then w else emit (CHR 0x0A # replicate (level * jw_indent w) (CHR '' '')) w)"

definition push_frame :: "bool \<Rightarrow> json_writer \<Rightarrow> json_writer" where
  "push_frame object w =
     (let is_inline = (jw_inline_next w \<or> (jw_stack w \<noteq> [] \<and> jwf_is_inline (hd (jw_stack w))))
      in w\<lparr>jw_inline_next := False,
           jw_stack := \<lparr>jwf_is_object = object, jwf_has_items = False, jwf_awaiting_value = False,
                        jwf_is_inline = is_inline\<rparr> # jw_stack w\<rparr>)"

definition separate :: "json_writer_frame \<Rightarrow> json_writer \<Rightarrow> json_writer" where
  "separate frame w =
     (let w = (if jwf_has_items frame
               then (let w = emit '','' w
                     in if jwf_is_inline frame \<and> jw_indent w > 0 then emit '' '' w else w)
               else w)
      in if \<not> jwf_is_inline frame then newline (length (jw_stack w)) w else w)"

definition json_check_depth :: "json_writer \<Rightarrow> unit fallible" where
  "json_check_depth w =
     guard (\<not> length (jw_stack w) \<ge> jw_max_depth w)
       (''json writer: nesting is deeper than '' @ show_nat (jw_max_depth w))"

definition set_frame :: "json_writer_frame \<Rightarrow> json_writer \<Rightarrow> json_writer" where
  "set_frame frame w = w\<lparr>jw_stack := frame # tl (jw_stack w)\<rparr>"

definition json_begin_value :: "json_writer \<Rightarrow> json_writer fallible" where
  "json_begin_value w =
     (case jw_stack w of
        [] \<Rightarrow> if jw_root_started w then Inl ''json writer: a document holds exactly one root value''
             else Inr (w\<lparr>jw_root_started := True\<rparr>)
      | frame # _ \<Rightarrow>
          if jwf_is_object frame
          then if \<not> jwf_awaiting_value frame
               then Inl ''json writer: write_key must precede each value inside an object''
               else Inr (set_frame (frame\<lparr>jwf_awaiting_value := False\<rparr>) w)
          else Inr (set_frame (frame\<lparr>jwf_has_items := True\<rparr>) (separate frame w)))"

definition json_close :: "char \<Rightarrow> json_writer \<Rightarrow> json_writer" where
  "json_close bracket w =
     (let had_items = jwf_has_items (hd (jw_stack w)); is_inline = jwf_is_inline (hd (jw_stack w));
          w = w\<lparr>jw_stack := tl (jw_stack w)\<rparr>;
          w = (if had_items \<and> \<not> is_inline then newline (length (jw_stack w)) w else w)
      in emit [bracket] w)"

definition hex :: string where
  "hex = ''0123456789abcdef''"

text \<open>
  The switch over one character of a string. The control characters of the source are the code
  points 8, 12, 10, 13 and 9; a character below 32 is not negative, so its two hexadecimal digits
  are those of its code.
\<close>

definition quoted_char :: "char \<Rightarrow> string" where
  "quoted_char c =
     (if c = CHR 0x22 then [CHR 0x5C, CHR 0x22]
      else if c = CHR 0x5C then [CHR 0x5C, CHR 0x5C]
      else if c = CHR 0x08 then [CHR 0x5C, CHR ''b'']
      else if c = CHR 0x0C then [CHR 0x5C, CHR ''f'']
      else if c = CHR 0x0A then [CHR 0x5C, CHR ''n'']
      else if c = CHR 0x0D then [CHR 0x5C, CHR ''r'']
      else if c = CHR 0x09 then [CHR 0x5C, CHR ''t'']
      else if code_of c < 0x20
      then [CHR 0x5C, CHR ''u'', CHR ''0'', CHR ''0'',
            hex ! (drop_bit 4 (code_of c) AND 0x0F), hex ! (code_of c AND 0x0F)]
      else [c])"

definition append_quoted :: "string \<Rightarrow> json_writer \<Rightarrow> json_writer fallible" where
  "append_quoted text w =
     and_then (validate_utf8 text) (\<lambda>_.
       Inr (emit [CHR 0x22] (foldl (\<lambda>w c. emit (quoted_char c) w) (emit [CHR 0x22] w) text)))"

definition json_write_null :: "json_writer \<Rightarrow> json_writer fallible" where
  "json_write_null w = and_then (json_begin_value w) (\<lambda>w. Inr (emit ''null'' w))"

definition json_write_bool :: "bool \<Rightarrow> json_writer \<Rightarrow> json_writer fallible" where
  "json_write_bool value w =
     and_then (json_begin_value w) (\<lambda>w. Inr (emit (if value then ''true'' else ''false'') w))"

definition json_write_int :: "64 word \<Rightarrow> json_writer \<Rightarrow> json_writer fallible" where
  "json_write_int value w = and_then (json_begin_value w) (\<lambda>w. Inr (emit (show_int (sint value)) w))"

definition json_write_uint :: "64 word \<Rightarrow> json_writer \<Rightarrow> json_writer fallible" where
  "json_write_uint value w = and_then (json_begin_value w) (\<lambda>w. Inr (emit (show_int (uint value)) w))"

definition append_floating :: "precision \<Rightarrow> bool \<Rightarrow> nat \<Rightarrow> json_writer \<Rightarrow> json_writer fallible" where
  "append_floating p neg magnitude w =
     (if \<not> magnitude < infinity p then Inl ''json: NaN and infinity have no JSON representation''
      else and_then (json_begin_value w) (\<lambda>w.
        let written = float_to_chars p neg magnitude;
            w = emit written w
        in Inr (if \<not> contains_any ''.eE'' written then emit ''.0'' w else w)))"

definition json_write_float :: "64 word \<Rightarrow> json_writer \<Rightarrow> json_writer fallible" where
  "json_write_float value w = append_floating Binary64 (double_negative value) (double_magnitude value) w"

definition json_write_float32 :: "32 word \<Rightarrow> json_writer \<Rightarrow> json_writer fallible" where
  "json_write_float32 value w = append_floating Binary32 (float_negative value) (float_magnitude value) w"

definition json_prefer_inline :: "json_writer \<Rightarrow> json_writer fallible" where
  "json_prefer_inline w = Inr (w\<lparr>jw_inline_next := True\<rparr>)"

definition json_write_string :: "string \<Rightarrow> json_writer \<Rightarrow> json_writer fallible" where
  "json_write_string value w = and_then (json_begin_value w) (append_quoted value)"

definition json_write_bytes :: "byte list \<Rightarrow> json_writer \<Rightarrow> json_writer fallible" where
  "json_write_bytes value w =
     and_then (json_begin_value w) (\<lambda>w.
       Inr (emit [CHR 0x22] (emit (base64_encode value) (emit [CHR 0x22] w))))"

definition json_begin_array :: "nat \<Rightarrow> json_writer \<Rightarrow> json_writer fallible" where
  "json_begin_array count w =
     and_then (json_check_depth w) (\<lambda>_.
     and_then (json_begin_value w) (\<lambda>w. Inr (push_frame False (emit ''['' w))))"

definition json_end_array :: "json_writer \<Rightarrow> json_writer fallible" where
  "json_end_array w =
     (if jw_stack w = [] \<or> jwf_is_object (hd (jw_stack w))
      then Inl ''json writer: end_array without a matching begin_array''
      else Inr (json_close (CHR '']'') w))"

definition json_begin_object :: "nat \<Rightarrow> json_writer \<Rightarrow> json_writer fallible" where
  "json_begin_object count w =
     and_then (json_check_depth w) (\<lambda>_.
     and_then (json_begin_value w) (\<lambda>w. Inr (push_frame True (emit ''{'' w))))"

definition json_write_key :: "string \<Rightarrow> json_writer \<Rightarrow> json_writer fallible" where
  "json_write_key key w =
     (case jw_stack w of
        [] \<Rightarrow> Inl ''json writer: write_key is only valid inside an object, before a value''
      | frame # _ \<Rightarrow>
          if \<not> jwf_is_object frame \<or> jwf_awaiting_value frame
          then Inl ''json writer: write_key is only valid inside an object, before a value''
          else and_then (append_quoted key (separate frame w)) (\<lambda>w.
                 Inr (set_frame (frame\<lparr>jwf_has_items := True, jwf_awaiting_value := True\<rparr>)
                   (emit (if jw_indent w > 0 then '': '' else '':'') w))))"

definition json_end_object :: "json_writer \<Rightarrow> json_writer fallible" where
  "json_end_object w =
     (case jw_stack w of
        [] \<Rightarrow> Inl ''json writer: end_object without a matching begin_object''
      | frame # _ \<Rightarrow>
          if \<not> jwf_is_object frame \<or> jwf_awaiting_value frame
          then Inl ''json writer: end_object without a matching begin_object''
          else Inr (json_close (CHR ''}'') w))"

definition json_complete :: "json_writer \<Rightarrow> bool" where
  "json_complete w \<longleftrightarrow> jw_root_started w \<and> jw_stack w = []"

definition json_writer_ops :: "json_writer writer" where
  "json_writer_ops = \<lparr>
     write_null = json_write_null, write_bool = json_write_bool, write_int = json_write_int,
     write_uint = json_write_uint, write_float = json_write_float, write_float32 = json_write_float32,
     write_string = json_write_string, write_bytes = json_write_bytes,
     prefer_inline = json_prefer_inline,
     begin_array = json_begin_array, end_array = json_end_array,
     begin_object = json_begin_object, write_key = json_write_key, end_object = json_end_object\<rparr>"

section \<open>The reader\<close>

record json_reader_frame =
  jrf_is_object :: bool
  jrf_first :: bool

record json_reader =
  jr_input :: string
  jr_position :: nat
  jr_max_depth :: nat
  jr_stack :: "json_reader_frame list"

definition json_reader :: "string \<Rightarrow> nat \<Rightarrow> json_reader" where
  "json_reader input limit = \<lparr>jr_input = input, jr_position = 0, jr_max_depth = limit, jr_stack = []\<rparr>"

text \<open>The line and the column of an offset, counted from one.\<close>

definition line_column :: "string \<Rightarrow> nat \<Rightarrow> nat \<times> nat" where
  "line_column input offset =
     foldl (\<lambda>(line, column) c. if c = CHR 0x0A then (line + 1, 1) else (line, column + 1)) (1, 1)
       (take offset input)"

definition json_fail_at :: "json_reader \<Rightarrow> nat \<Rightarrow> string \<Rightarrow> 'a fallible" where
  "json_fail_at r offset msg =
     (let (line, column) = line_column (jr_input r) offset
      in Inl (''json: '' @ msg @ '' at line '' @ show_nat line @ '', column '' @ show_nat column))"

definition json_fail :: "json_reader \<Rightarrow> string \<Rightarrow> 'a fallible" where
  "json_fail r msg =
     json_fail_at r (jr_position r)
       (if jr_position r \<ge> length (jr_input r) then ''unexpected end of input; '' @ msg else msg)"

definition current :: "json_reader \<Rightarrow> char" where
  "current r = char_at (jr_input r) (jr_position r)"

definition ahead :: "nat \<Rightarrow> json_reader \<Rightarrow> json_reader" where
  "ahead n r = r\<lparr>jr_position := jr_position r + n\<rparr>"

definition goto :: "nat \<Rightarrow> json_reader \<Rightarrow> json_reader" where
  "goto i r = r\<lparr>jr_position := i\<rparr>"

definition is_space :: "char \<Rightarrow> bool" where
  "is_space c \<longleftrightarrow> c = CHR '' '' \<or> c = CHR 0x09 \<or> c = CHR 0x0A \<or> c = CHR 0x0D"

definition skip_whitespace :: "json_reader \<Rightarrow> json_reader" where
  "skip_whitespace r = goto (scan_while is_space (jr_input r) (jr_position r)) r"

definition skip_digits :: "json_reader \<Rightarrow> json_reader" where
  "skip_digits r = goto (scan_while is_digit (jr_input r) (jr_position r)) r"

definition expect_literal :: "string \<Rightarrow> json_reader \<Rightarrow> json_reader fallible" where
  "expect_literal literal r =
     (if take (length literal) (drop (jr_position r) (jr_input r)) \<noteq> literal
      then json_fail r (''expected '' @ [CHR 0x27] @ literal @ [CHR 0x27])
      else Inr (ahead (length literal) r))"

definition is_integer_token :: "string \<Rightarrow> bool" where
  "is_integer_token token \<longleftrightarrow> \<not> contains_any ''.eE'' token"

definition scan_whole :: "nat \<Rightarrow> json_reader \<Rightarrow> json_reader fallible" where
  "scan_whole start r =
     (if current r = CHR ''0'' then Inr (ahead 1 r)
      else if is_digit (current r) then Inr (skip_digits r)
      else json_fail_at r start ''invalid number'')"

definition scan_fraction :: "nat \<Rightarrow> json_reader \<Rightarrow> json_reader fallible" where
  "scan_fraction start r =
     (if current r = CHR ''.''
      then let r = ahead 1 r
           in if \<not> is_digit (current r) then json_fail_at r start ''invalid number''
              else Inr (skip_digits r)
      else Inr r)"

definition scan_exponent :: "nat \<Rightarrow> json_reader \<Rightarrow> json_reader fallible" where
  "scan_exponent start r =
     (if current r = CHR ''e'' \<or> current r = CHR ''E''
      then let r = ahead 1 r;
               r = (if current r = CHR ''+'' \<or> current r = CHR ''-'' then ahead 1 r else r)
           in if \<not> is_digit (current r) then json_fail_at r start ''invalid number''
              else Inr (skip_digits r)
      else Inr r)"

definition scan_number :: "json_reader \<Rightarrow> string + (string \<times> json_reader)" where
  "scan_number r =
     (let start = jr_position r;
          r = (if current r = CHR ''-'' then ahead 1 r else r)
      in and_then (scan_whole start r) (\<lambda>r.
         and_then (scan_fraction start r) (\<lambda>r.
         and_then (scan_exponent start r) (\<lambda>r.
           Inr (take (jr_position r - start) (drop start (jr_input r)), r)))))"

definition hex_digit :: "char \<Rightarrow> nat option" where
  "hex_digit c =
     (let n = code_of c
      in if 48 \<le> n \<and> n \<le> 57 then Some (n - 48)
         else if 97 \<le> n \<and> n \<le> 102 then Some (n - 97 + 10)
         else if 65 \<le> n \<and> n \<le> 70 then Some (n - 65 + 10)
         else None)"

text \<open>The loop of \<open>read_hex4\<close>, with \<open>count\<close> digits to go.\<close>

primrec read_hex :: "nat \<Rightarrow> nat \<Rightarrow> json_reader \<Rightarrow> string + (nat \<times> json_reader)" where
  "read_hex 0 v r = Inr (v, r)"
| "read_hex (Suc count) v r =
     (case hex_digit (current r) of
        None \<Rightarrow> json_fail r (''invalid '' @ [CHR 0x5C] @ ''u escape'')
      | Some d \<Rightarrow> read_hex count (push_bit 4 v OR d) (ahead 1 r))"

definition read_hex4 :: "json_reader \<Rightarrow> string + (nat \<times> json_reader)" where
  "read_hex4 r = read_hex 4 0 r"

definition unpaired :: string where
  "unpaired = ''unpaired UTF-16 surrogate in '' @ [CHR 0x5C] @ ''u escape''"

definition unicode_escape :: "string \<Rightarrow> json_reader \<Rightarrow> string + (string \<times> json_reader)" where
  "unicode_escape result r =
     and_then (read_hex4 r) (\<lambda>(code_point, r).
     and_then
       (if code_point \<ge> 0xD800 \<and> code_point \<le> 0xDBFF
        then if current r \<noteq> CHR 0x5C \<or> jr_position r + 1 \<ge> length (jr_input r) \<or>
                jr_input r ! (jr_position r + 1) \<noteq> CHR ''u''
             then json_fail r unpaired
             else and_then (read_hex4 (ahead 2 r)) (\<lambda>(low, r).
                    if low < 0xDC00 \<or> low > 0xDFFF then json_fail r unpaired
                    else Inr (0x10000 + push_bit 10 (code_point - 0xD800) + (low - 0xDC00), r))
        else if code_point \<ge> 0xDC00 \<and> code_point \<le> 0xDFFF then json_fail r unpaired
        else Inr (code_point, r))
       (\<lambda>(code_point, r). and_then (append_utf8 result code_point) (\<lambda>result. Inr (result, r))))"

definition append_escape :: "string \<Rightarrow> json_reader \<Rightarrow> string + (string \<times> json_reader)" where
  "append_escape result r =
     (let c = current r; r = ahead 1 r
      in if c = CHR 0x22 then Inr (result @ [CHR 0x22], r)
         else if c = CHR 0x5C then Inr (result @ [CHR 0x5C], r)
         else if c = CHR ''/'' then Inr (result @ ''/'', r)
         else if c = CHR ''b'' then Inr (result @ [CHR 0x08], r)
         else if c = CHR ''f'' then Inr (result @ [CHR 0x0C], r)
         else if c = CHR ''n'' then Inr (result @ [CHR 0x0A], r)
         else if c = CHR ''r'' then Inr (result @ [CHR 0x0D], r)
         else if c = CHR ''t'' then Inr (result @ [CHR 0x09], r)
         else if c = CHR ''u'' then unicode_escape result r
         else json_fail r ''invalid escape sequence'')"

text \<open>\<open>r'\<close> reads the same input as \<open>r\<close>, further on.\<close>

definition further :: "json_reader \<Rightarrow> json_reader \<Rightarrow> bool" where
  "further r r' \<longleftrightarrow> jr_input r' = jr_input r \<and> jr_position r < jr_position r' \<and>
     jr_max_depth r' = jr_max_depth r \<and> jr_stack r' = jr_stack r"

lemma json_fail_not_Inr [simp]: "json_fail r msg \<noteq> Inr x" "json_fail_at r offset msg \<noteq> Inr x"
  by (simp_all add: json_fail_def json_fail_at_def split: prod.split)

lemma ahead_simps [simp]:
  "jr_input (ahead n r) = jr_input r" "jr_position (ahead n r) = jr_position r + n"
  "jr_stack (ahead n r) = jr_stack r" "jr_max_depth (ahead n r) = jr_max_depth r"
  "ahead m (ahead n r) = ahead (n + m) r" "ahead 0 r = r"
  by (simp_all add: ahead_def)

lemma goto_simps [simp]:
  "jr_input (goto i r) = jr_input r" "jr_position (goto i r) = i"
  "jr_stack (goto i r) = jr_stack r" "jr_max_depth (goto i r) = jr_max_depth r"
  by (simp_all add: goto_def)

lemma read_hex_ahead: "read_hex count v r = Inr (x, r') \<Longrightarrow> r' = ahead count r"
  by (induction count arbitrary: v r) (simp, fastforce split: option.splits)

lemma unicode_escape_further: "unicode_escape result r = Inr (s, r') \<Longrightarrow> further r r'"
  by (auto simp: unicode_escape_def read_hex4_def further_def dest!: read_hex_ahead split: if_splits)

lemma append_escape_further: "append_escape result r = Inr (s, r') \<Longrightarrow> further r r'"
  by (auto simp: append_escape_def Let_def further_def dest: unicode_escape_further split: if_splits)

text \<open>
  The loop of \<open>parse_string\<close>: \<open>start\<close> is the position of the opening quote, where an unterminated
  string is reported.
\<close>

function parse_string_from :: "nat \<Rightarrow> string \<Rightarrow> json_reader \<Rightarrow> string + (string \<times> json_reader)" where
  "parse_string_from start result r =
     (if jr_position r \<ge> length (jr_input r) then json_fail_at r start ''unterminated string''
      else let c = jr_input r ! jr_position r
           in if c = CHR 0x22 then Inr (result, ahead 1 r)
              else if code_of c < 0x20 then json_fail r ''control character in string''
              else if c = CHR 0x5C
              then and_then (append_escape result (ahead 1 r)) (\<lambda>(result, r). parse_string_from start result r)
              else if code_of c < 0x80 then parse_string_from start (result @ [c]) (ahead 1 r)
              else case decode_utf8 (jr_input r) (jr_position r) of
                     Inl e \<Rightarrow> json_fail_at r (jr_position r) e
                   | Inr (_, next) \<Rightarrow>
                       parse_string_from start
                         (result @ take (next - jr_position r) (drop (jr_position r) (jr_input r))) (goto next r))"
  by pat_completeness auto
termination
  by (relation "measure (\<lambda>(start, result, r). length (jr_input r) - jr_position r)")
     (auto simp: further_def dest!: append_escape_further decode_utf8_advances)

declare parse_string_from.simps [simp del]

definition parse_string :: "json_reader \<Rightarrow> string + (string \<times> json_reader)" where
  "parse_string r = parse_string_from (jr_position r) [] (ahead 1 r)"

definition json_enter :: "bool \<Rightarrow> json_reader \<Rightarrow> json_reader fallible" where
  "json_enter object r =
     (if length (jr_stack r) \<ge> jr_max_depth r
      then json_fail r (''nesting is deeper than '' @ show_nat (jr_max_depth r))
      else Inr (r\<lparr>jr_stack := \<lparr>jrf_is_object = object, jrf_first = True\<rparr> # jr_stack r\<rparr>))"

definition advance :: "char \<Rightarrow> json_reader \<Rightarrow> string + (bool \<times> json_reader)" where
  "advance closing r =
     (let r = skip_whitespace r; frame = hd (jr_stack r)
      in if jrf_first frame then
           Inr (current r \<noteq> closing, r\<lparr>jr_stack := frame\<lparr>jrf_first := False\<rparr> # tl (jr_stack r)\<rparr>)
         else if current r = closing then Inr (False, r)
         else if current r \<noteq> CHR '','' then
           json_fail r (''expected '' @ [CHR 0x27] @ '','' @ [CHR 0x27] @ '' or '' @ [CHR 0x27, closing, CHR 0x27])
         else let r = skip_whitespace (ahead 1 r)
              in if current r = closing then json_fail r ''trailing comma'' else Inr (True, r))"

definition json_peek :: "json_reader \<Rightarrow> string + (value_kind \<times> json_reader)" where
  "json_peek r =
     (let r = skip_whitespace r; c = current r
      in if c = CHR ''n'' then Inr (KNull, r)
         else if c = CHR ''t'' \<or> c = CHR ''f'' then Inr (KBoolean, r)
         else if c = CHR 0x22 then Inr (KString, r)
         else if c = CHR ''['' then Inr (KArray, r)
         else if c = CHR ''{'' then Inr (KObject, r)
         else if c = CHR ''-'' \<or> is_digit c then
           and_then (scan_number r) (\<lambda>(token, _).
             Inr (if is_integer_token token then KInteger else KFloating, r))
         else json_fail r (if jr_position r \<ge> length (jr_input r) then ''expected a value''
                           else ''unexpected character''))"

definition json_read_null :: "json_reader \<Rightarrow> json_reader fallible" where
  "json_read_null r = expect_literal ''null'' (skip_whitespace r)"

definition json_read_bool :: "json_reader \<Rightarrow> string + (bool \<times> json_reader)" where
  "json_read_bool r =
     (let r = skip_whitespace r
      in if current r = CHR ''t'' then and_then (expect_literal ''true'' r) (\<lambda>r. Inr (True, r))
         else if current r = CHR ''f'' then and_then (expect_literal ''false'' r) (\<lambda>r. Inr (False, r))
         else json_fail r ''expected a boolean'')"

definition json_read_int :: "json_reader \<Rightarrow> string + (64 word \<times> json_reader)" where
  "json_read_int r =
     (let r = skip_whitespace r; start = jr_position r
      in and_then (scan_number r) (\<lambda>(token, r).
           if \<not> is_integer_token token then json_fail_at r start ''expected an integer''
           else case from_chars (- (2 ^ 63)) (2 ^ 63 - 1) token of
                  Parsed i _ \<Rightarrow> Inr (word_of_int i, r)
                | _ \<Rightarrow> json_fail_at r start ''integer out of range for int64''))"

definition json_read_uint :: "json_reader \<Rightarrow> string + (64 word \<times> json_reader)" where
  "json_read_uint r =
     (let r = skip_whitespace r; start = jr_position r
      in and_then (scan_number r) (\<lambda>(token, r).
           if \<not> is_integer_token token \<or> hd token = CHR ''-''
           then json_fail_at r start ''expected a non-negative integer''
           else case from_chars 0 (2 ^ 64 - 1) token of
                  Parsed i _ \<Rightarrow> Inr (word_of_int i, r)
                | _ \<Rightarrow> json_fail_at r start ''integer out of range for uint64''))"

definition json_read_float :: "json_reader \<Rightarrow> string + (64 word \<times> json_reader)" where
  "json_read_float r =
     (let r = skip_whitespace r; start = jr_position r
      in and_then (scan_number r) (\<lambda>(token, r).
           case float_from_chars Binary64 token of
             Float_Parsed neg b used \<Rightarrow>
               if used = length token then Inr (double_of neg b, r)
               else json_fail_at r start ''number out of range for double''
           | _ \<Rightarrow> json_fail_at r start ''number out of range for double''))"

definition json_read_float32 :: "json_reader \<Rightarrow> string + (32 word \<times> json_reader)" where
  "json_read_float32 r =
     (let r = skip_whitespace r; start = jr_position r
      in and_then (scan_number r) (\<lambda>(token, r').
           let otherwise = default_read_float32 json_read_float (goto start r')
           in case float_from_chars Binary32 token of
                Float_Parsed neg b used \<Rightarrow>
                  if used = length token then Inr (float_of neg b, r') else otherwise
              | _ \<Rightarrow> otherwise))"

definition json_read_string :: "json_reader \<Rightarrow> string + (string \<times> json_reader)" where
  "json_read_string r =
     (let r = skip_whitespace r
      in if current r \<noteq> CHR 0x22 then json_fail r ''expected a string'' else parse_string r)"

definition json_read_bytes :: "json_reader \<Rightarrow> string + (byte list \<times> json_reader)" where
  "json_read_bytes r =
     (let r = skip_whitespace r; start = jr_position r
      in and_then (json_read_string r) (\<lambda>(text, r).
           case base64_decode text of
             Inl e \<Rightarrow> json_fail_at r start e
           | Inr bytes \<Rightarrow> Inr (bytes, r)))"

definition json_begin_array_in :: "json_reader \<Rightarrow> string + (nat option \<times> json_reader)" where
  "json_begin_array_in r =
     (let r = skip_whitespace r
      in if current r \<noteq> CHR ''['' then json_fail r ''expected an array''
         else and_then (json_enter False r) (\<lambda>r. Inr (None, ahead 1 r)))"

definition json_next_element :: "json_reader \<Rightarrow> string + (bool \<times> json_reader)" where
  "json_next_element r =
     (if jr_stack r = [] \<or> jrf_is_object (hd (jr_stack r))
      then json_fail r ''next_element outside of an array''
      else advance (CHR '']'') r)"

definition json_end_array_in :: "json_reader \<Rightarrow> json_reader fallible" where
  "json_end_array_in r =
     (if jr_stack r = [] \<or> jrf_is_object (hd (jr_stack r))
      then json_fail r ''end_array outside of an array''
      else let r = skip_whitespace r
           in if current r \<noteq> CHR '']'' then json_fail r (''expected '' @ [CHR 0x27] @ '']'' @ [CHR 0x27])
              else Inr ((ahead 1 r)\<lparr>jr_stack := tl (jr_stack r)\<rparr>))"

definition json_begin_object_in :: "json_reader \<Rightarrow> string + (nat option \<times> json_reader)" where
  "json_begin_object_in r =
     (let r = skip_whitespace r
      in if current r \<noteq> CHR ''{'' then json_fail r ''expected an object''
         else and_then (json_enter True r) (\<lambda>r. Inr (None, ahead 1 r)))"

definition json_next_key :: "json_reader \<Rightarrow> string + (string option \<times> json_reader)" where
  "json_next_key r =
     (if jr_stack r = [] \<or> \<not> jrf_is_object (hd (jr_stack r))
      then json_fail r ''next_key outside of an object''
      else and_then (advance (CHR ''}'') r) (\<lambda>(another, r).
        if \<not> another then Inr (None, r)
        else if current r \<noteq> CHR 0x22 then json_fail r ''expected a string key''
        else and_then (parse_string r) (\<lambda>(key, r).
          let r = skip_whitespace r
          in if current r \<noteq> CHR '':'' then json_fail r (''expected '' @ [CHR 0x27] @ '':'' @ [CHR 0x27])
             else Inr (Some key, ahead 1 r))))"

definition json_end_object_in :: "json_reader \<Rightarrow> json_reader fallible" where
  "json_end_object_in r =
     (if jr_stack r = [] \<or> \<not> jrf_is_object (hd (jr_stack r))
      then json_fail r ''end_object outside of an object''
      else let r = skip_whitespace r
           in if current r \<noteq> CHR ''}'' then json_fail r (''expected '' @ [CHR 0x27] @ ''}'' @ [CHR 0x27])
              else Inr ((ahead 1 r)\<lparr>jr_stack := tl (jr_stack r)\<rparr>))"

text \<open>
  \<open>skip_value\<close>, with fuel for the loops over the elements of a container as in the binary reader;
  running out of it is the empty message, which no call of the code throws.
\<close>

fun json_skip_fuel :: "nat \<Rightarrow> json_reader \<Rightarrow> json_reader fallible"
  and json_skip_elements :: "nat \<Rightarrow> json_reader \<Rightarrow> json_reader fallible"
  and json_skip_entries :: "nat \<Rightarrow> json_reader \<Rightarrow> json_reader fallible" where
  "json_skip_fuel 0 r = Inl []"
| "json_skip_fuel (Suc fuel) r =
     and_then (json_peek r) (\<lambda>(k, r).
       case k of
         KNull \<Rightarrow> json_read_null r
       | KBoolean \<Rightarrow> and_then (json_read_bool r) (\<lambda>(_, r). Inr r)
       | KInteger \<Rightarrow> and_then (scan_number r) (\<lambda>(_, r). Inr r)
       | KFloating \<Rightarrow> and_then (scan_number r) (\<lambda>(_, r). Inr r)
       | KString \<Rightarrow> and_then (parse_string r) (\<lambda>(_, r). Inr r)
       | KBytes \<Rightarrow> and_then (parse_string r) (\<lambda>(_, r). Inr r)
       | KArray \<Rightarrow> and_then (json_begin_array_in r) (\<lambda>(_, r).
                   and_then (json_skip_elements fuel r) json_end_array_in)
       | KObject \<Rightarrow> and_then (json_begin_object_in r) (\<lambda>(_, r).
                    and_then (json_skip_entries fuel r) json_end_object_in))"
| "json_skip_elements 0 r = Inl []"
| "json_skip_elements (Suc fuel) r =
     and_then (json_next_element r) (\<lambda>(another, r).
       if another then and_then (json_skip_fuel fuel r) (json_skip_elements fuel) else Inr r)"
| "json_skip_entries 0 r = Inl []"
| "json_skip_entries (Suc fuel) r =
     and_then (json_next_key r) (\<lambda>(key, r).
       if key \<noteq> None then and_then (json_skip_fuel fuel r) (json_skip_entries fuel) else Inr r)"

definition json_skip_value :: "json_reader \<Rightarrow> json_reader fallible" where
  "json_skip_value r = json_skip_fuel (2 * (length (jr_input r) - jr_position r) + 1) r"

definition json_finish :: "json_reader \<Rightarrow> json_reader fallible" where
  "json_finish r =
     (let r = skip_whitespace r
      in if jr_position r \<noteq> length (jr_input r) then json_fail r ''unexpected characters after the root value''
         else Inr r)"

definition json_reader_ops :: "json_reader reader" where
  "json_reader_ops = \<lparr>
     peek = json_peek, read_null = json_read_null, read_bool = json_read_bool, read_int = json_read_int,
     read_uint = json_read_uint, read_float = json_read_float, read_float32 = json_read_float32,
     read_string = json_read_string, read_bytes = json_read_bytes,
     begin_array_in = json_begin_array_in, next_element = json_next_element, end_array_in = json_end_array_in,
     begin_object_in = json_begin_object_in, next_key = json_next_key, end_object_in = json_end_object_in,
     skip_value = json_skip_value\<rparr>"

end
