(* ===== verification/Json_Grammar.thy ===== *)
theory Json_Grammar
  imports Json
begin

text \<open>
  The language of the JSON reader. RFC 8259 is a type of syntax trees that keep every choice a
  text leaves open (white space, escapes, the form of a number), with the text of a tree, the
  condition under which it is JSON, and the values it stands for. The reader consumes exactly
  the texts of the valid trees.
\<close>

section \<open>Strings\<close>

datatype json_char = Raw nat | Short char | Unicode string | Pair string string

definition hex_value :: "string \<Rightarrow> nat" where
  "hex_value hs = foldl (\<lambda>n c. 16 * n + the (hex_digit c)) 0 hs"

definition hex4 :: "string \<Rightarrow> bool" where
  "hex4 hs \<longleftrightarrow> length hs = 4 \<and> list_all (\<lambda>c. hex_digit c \<noteq> None) hs"

definition short_escapes :: "(char \<times> char) list" where
  "short_escapes =
     [(CHR 0x22, CHR 0x22), (CHR 0x5C, CHR 0x5C), (CHR ''/'', CHR ''/''), (CHR ''b'', CHR 0x08),
      (CHR ''f'', CHR 0x0C), (CHR ''n'', CHR 0x0A), (CHR ''r'', CHR 0x0D), (CHR ''t'', CHR 0x09)]"

definition pair_value :: "string \<Rightarrow> string \<Rightarrow> nat" where
  "pair_value hs ls = 0x10000 + push_bit 10 (hex_value hs - 0xD800) + (hex_value ls - 0xDC00)"

fun char_text :: "json_char \<Rightarrow> string" where
  "char_text (Raw cp) = utf8_bytes cp"
| "char_text (Short c) = [CHR 0x5C, c]"
| "char_text (Unicode hs) = CHR 0x5C # CHR ''u'' # hs"
| "char_text (Pair hs ls) = (CHR 0x5C # CHR ''u'' # hs) @ (CHR 0x5C # CHR ''u'' # ls)"

fun char_value :: "json_char \<Rightarrow> string" where
  "char_value (Raw cp) = utf8_bytes cp"
| "char_value (Short c) = [the (map_of short_escapes c)]"
| "char_value (Unicode hs) = utf8_bytes (hex_value hs)"
| "char_value (Pair hs ls) = utf8_bytes (pair_value hs ls)"

fun char_valid :: "json_char \<Rightarrow> bool" where
  "char_valid (Raw cp) \<longleftrightarrow> is_scalar cp \<and> 0x20 \<le> cp \<and> cp \<noteq> 0x22 \<and> cp \<noteq> 0x5C"
| "char_valid (Short c) \<longleftrightarrow> map_of short_escapes c \<noteq> None"
| "char_valid (Unicode hs) \<longleftrightarrow> hex4 hs \<and> \<not> is_surrogate (hex_value hs)"
| "char_valid (Pair hs ls) \<longleftrightarrow> hex4 hs \<and> 0xD800 \<le> hex_value hs \<and> hex_value hs \<le> 0xDBFF \<and>
     hex4 ls \<and> 0xDC00 \<le> hex_value ls \<and> hex_value ls \<le> 0xDFFF"

definition body_text :: "json_char list \<Rightarrow> string" where
  "body_text cs = concat (map char_text cs)"

definition body_value :: "json_char list \<Rightarrow> string" where
  "body_value cs = concat (map char_value cs)"

subsection \<open>Looking at the input\<close>

definition sits :: "json_reader \<Rightarrow> string \<Rightarrow> bool" where
  "sits r s \<longleftrightarrow> drop (jr_position r) (jr_input r) = s"

lemma sits_Cons:
  "sits r (c # s) \<Longrightarrow> jr_position r < length (jr_input r) \<and> jr_input r ! jr_position r = c \<and>
     current r = c \<and> sits (ahead (Suc 0) r) s"
  unfolding sits_def current_def by (auto dest: drop_Cons_nth simp: char_at_def)

lemma sits_append: "sits r (s @ t) \<Longrightarrow> sits (ahead (length s) r) t"
  unfolding sits_def by (drule drop_append_shift) simp

lemma sits_Nil: "sits r [] \<Longrightarrow> current r = CHR 0x00 \<and> jr_position r \<ge> length (jr_input r)"
  by (auto simp: sits_def current_def char_at_def)

lemma sits_self: "sits r (drop (jr_position r) (jr_input r))"
  by (simp add: sits_def)

lemma goto_ahead [simp]: "goto (jr_position r + n) r = ahead n r"
  by (simp add: goto_def ahead_def)

lemma sits_unique: "sits r s \<Longrightarrow> sits r t \<Longrightarrow> s = t"
  by (simp add: sits_def)

lemma current_sits: "sits r s \<Longrightarrow> current r = (case s of [] \<Rightarrow> CHR 0x00 | c # _ \<Rightarrow> c)"
  by (cases s) (auto dest: sits_Cons sits_Nil)

subsection \<open>Escapes\<close>

lemma hex_digit_less: "hex_digit c = Some d \<Longrightarrow> d < 16"
  by (auto simp: hex_digit_def Let_def split: if_splits)

lemma push_or_hex: "d < 16 \<Longrightarrow> push_bit 4 v OR d = 16 * v + (d::nat)"
  using push_or_add [of d 4 v] by simp

lemma read_hex_sits:
  "list_all (\<lambda>c. hex_digit c \<noteq> None) hs \<Longrightarrow> sits r (hs @ rest) \<Longrightarrow>
     read_hex (length hs) v r = Inr (foldl (\<lambda>n c. 16 * n + the (hex_digit c)) v hs, ahead (length hs) r)"
proof (induction hs arbitrary: v r)
  case (Cons h hs)
  then obtain d where d: "hex_digit h = Some d" by auto
  have here: "current r = h" "sits (ahead (Suc 0) r) (hs @ rest)"
    using sits_Cons [of r h "hs @ rest"] Cons.prems(2) by simp_all
  from Cons.IH [OF _ here(2), of "16 * v + d"] Cons.prems(1) d here(1) hex_digit_less [OF d]
  show ?case by (simp add: push_or_hex)
qed simp

lemma read_hex4_sits: "hex4 hs \<Longrightarrow> sits r (hs @ rest) \<Longrightarrow> read_hex4 r = Inr (hex_value hs, ahead 4 r)"
  using read_hex_sits [of hs r rest 0] by (simp add: read_hex4_def hex4_def hex_value_def)

lemma read_hex_sound:
  "read_hex n v r = Inr (x, r') \<Longrightarrow> \<exists>hs. length hs = n \<and> list_all (\<lambda>c. hex_digit c \<noteq> None) hs \<and>
     sits r (hs @ drop (jr_position r') (jr_input r)) \<and> r' = ahead n r \<and>
     x = foldl (\<lambda>n c. 16 * n + the (hex_digit c)) v hs"
proof (induction n arbitrary: v r)
  case 0
  then show ?case by (auto simp: sits_def)
next
  case (Suc n)
  then obtain d where d: "hex_digit (current r) = Some d"
    "read_hex n (16 * v + d) (ahead 1 r) = Inr (x, r')"
    by (auto split: option.splits simp: push_or_hex dest: hex_digit_less)
  have "jr_position r < length (jr_input r)"
    using d(1) by (auto simp: current_def char_at_def hex_digit_def code_of_def split: if_splits)
  then have here: "drop (jr_position r) (jr_input r) = current r # drop (Suc (jr_position r)) (jr_input r)"
    by (simp add: current_def char_at_def Cons_nth_drop_Suc)
  obtain hs where hs: "length hs = n" "list_all (\<lambda>c. hex_digit c \<noteq> None) hs"
    "sits (ahead 1 r) (hs @ drop (jr_position r') (jr_input r))" "r' = ahead n (ahead 1 r)"
    "x = foldl (\<lambda>n c. 16 * n + the (hex_digit c)) (16 * v + d) hs"
    using Suc.IH [OF d(2)] by auto
  then show ?case using d(1) here
    by (intro exI [of _ "current r # hs"]) (simp add: sits_def)
qed

lemma read_hex4_sound:
  "read_hex4 r = Inr (x, r') \<Longrightarrow> \<exists>hs. hex4 hs \<and> x = hex_value hs \<and> r' = ahead 4 r \<and>
     sits r (hs @ drop (jr_position r') (jr_input r))"
  using read_hex_sound [of 4 0 r x r'] by (auto simp: read_hex4_def hex4_def hex_value_def)

lemma hex_value_less: "hex4 hs \<Longrightarrow> hex_value hs < 0x10000"
proof -
  assume "hex4 hs"
  then obtain a b c d where "hs = [a, b, c, d]" "list_all (\<lambda>c. hex_digit c \<noteq> None) hs"
    by (auto simp: hex4_def numeral_eq_Suc length_Suc_conv)
  then have "the (hex_digit a) < 16" "the (hex_digit b) < 16" "the (hex_digit c) < 16" "the (hex_digit d) < 16"
    using hex_digit_less by auto
  then show ?thesis using \<open>hs = [a, b, c, d]\<close> by (simp add: hex_value_def)
qed

lemma pair_value_scalar:
  "0xD800 \<le> hex_value hs \<Longrightarrow> hex_value hs \<le> 0xDBFF \<Longrightarrow> 0xDC00 \<le> hex_value ls \<Longrightarrow>
     hex_value ls \<le> 0xDFFF \<Longrightarrow> is_scalar (pair_value hs ls)"
  by (auto simp: pair_value_def is_scalar_def is_surrogate_def push_bit_eq_mult)

lemma escape_sits:
  assumes "char_valid c" "char_text c = CHR 0x5C # s" "sits r (s @ rest)" "\<And>cp. c \<noteq> Raw cp"
  shows "append_escape result r = Inr (result @ char_value c, ahead (length s) r)"
proof (cases c)
  case (Short e)
  then have "s = [e]" using assms(2) by simp
  with assms(1,3) Short sits_Cons [of r e rest] show ?thesis
    by (auto simp: append_escape_def short_escapes_def Let_def split: if_splits)
next
  case (Unicode hs)
  then have s: "s = CHR ''u'' # hs" using assms(2) by simp
  have hs: "hex4 hs" "\<not> is_surrogate (hex_value hs)" using assms(1) Unicode by simp_all
  have u: "current r = CHR ''u''" "sits (ahead (Suc 0) r) (hs @ rest)"
    using sits_Cons [of r "CHR ''u''" "hs @ rest"] assms(3) s by simp_all
  have "is_scalar (hex_value hs)" using hs hex_value_less [OF hs(1)] by (simp add: is_scalar_def)
  then show ?thesis using read_hex4_sits [OF hs(1) u(2)] hs u(1) Unicode s
    by (auto simp: append_escape_def unicode_escape_def append_utf8_eq is_surrogate_def hex4_def Let_def)
next
  case (Pair hs ls)
  then have s: "s = CHR ''u'' # hs @ CHR 0x5C # CHR ''u'' # ls" using assms(2) by simp
  have v: "hex4 hs" "0xD800 \<le> hex_value hs" "hex_value hs \<le> 0xDBFF"
    "hex4 ls" "0xDC00 \<le> hex_value ls" "hex_value ls \<le> 0xDFFF"
    using assms(1) Pair by simp_all
  have u: "current r = CHR ''u''" "sits (ahead (Suc 0) r) (hs @ CHR 0x5C # CHR ''u'' # ls @ rest)"
    using sits_Cons [of r "CHR ''u''" "hs @ CHR 0x5C # CHR ''u'' # ls @ rest"] assms(3) s by simp_all
  have four: "length hs = 4" "length ls = 4" using v by (simp_all add: hex4_def)
  let ?r5 = "ahead 5 r"
  have esc: "sits ?r5 (CHR 0x5C # CHR ''u'' # ls @ rest)" using sits_append [OF u(2)] four by simp
  have b: "current ?r5 = CHR 0x5C" "sits (ahead 6 r) (CHR ''u'' # ls @ rest)"
    using sits_Cons [OF esc] by simp_all
  have c: "6 + jr_position r < length (jr_input r)" "jr_input r ! (6 + jr_position r) = CHR ''u''"
    "sits (ahead 7 r) (ls @ rest)"
    using sits_Cons [OF b(2)] by (simp_all add: add.commute)
  have "is_scalar (pair_value hs ls)" using pair_value_scalar v by simp
  then show ?thesis
    using read_hex4_sits [OF v(1) u(2)] read_hex4_sits [OF v(4) c(3)] v u(1) b(1) c(1,2) Pair s four
    by (simp add: append_escape_def unicode_escape_def append_utf8_eq Let_def pair_value_def)
qed (use assms(4) in simp)

subsection \<open>The loop\<close>

lemma scalar_head:
  assumes "is_scalar cp" "0x20 \<le> cp" "cp \<noteq> 0x22" "cp \<noteq> 0x5C"
  obtains c cs where "utf8_bytes cp = c # cs" "c \<noteq> CHR 0x22" "c \<noteq> CHR 0x5C" "0x20 \<le> code_of c"
    "code_of c < 0x80 \<Longrightarrow> cs = [] \<and> c = char_of cp" "cp < 0x80 \<Longrightarrow> code_of c < 0x80"
proof -
  have code: "code_of (CHR 0x22) = 0x22" "code_of (CHR 0x5C) = 0x5C" by (simp_all add: code_of_def)
  have len: "length (utf8_bytes cp) = (if cp < 0x80 then 1 else if cp < 0x800 then 2 else if cp < 0x10000 then 3 else 4)"
    by (rule utf8_bytes_length)
  obtain c cs where cs: "utf8_bytes cp = c # cs" using utf8_bytes_not_Nil [of cp] by (cases "utf8_bytes cp") auto
  have head: "code_of c = (if cp < 0x80 then cp else if cp < 0x800 then 192 + cp div 64
      else if cp < 0x10000 then 224 + cp div 4096 else 240 + cp div 262144)"
    using cs assms(1) by (auto simp: utf8_bytes_def is_scalar_def code_of_char_of split: if_splits)
  then have "0x20 \<le> code_of c" "c \<noteq> CHR 0x22" "c \<noteq> CHR 0x5C"
    using assms code by (auto split: if_splits)
  moreover have "cs = [] \<and> c = char_of cp" if "code_of c < 0x80"
  proof -
    have "cp < 0x80" using head that by (simp split: if_splits)
    then show ?thesis using cs by (simp add: utf8_bytes_def)
  qed
  moreover have "cp < 0x80 \<Longrightarrow> code_of c < 0x80" using head by simp
  ultimately show thesis using that [OF cs] by blast
qed

lemma parse_string_from_sits:
  "list_all char_valid cs \<Longrightarrow> sits r (body_text cs @ CHR 0x22 # rest) \<Longrightarrow>
     parse_string_from start result r =
       Inr (result @ body_value cs, ahead (Suc (length (body_text cs))) r)"
proof (induction cs arbitrary: result r)
  case Nil
  then have "sits r (CHR 0x22 # rest)" by (simp add: body_text_def)
  from sits_Cons [OF this] show ?case
    by (simp add: parse_string_from.simps [of start result r] body_text_def body_value_def Let_def)
next
  case (Cons c cs)
  have here: "sits r (char_text c @ body_text cs @ CHR 0x22 # rest)"
    using Cons.prems(2) by (simp add: body_text_def)
  have tail: "sits (ahead (length (char_text c)) r) (body_text cs @ CHR 0x22 # rest)"
    using sits_append [OF here] .
  have IH: "parse_string_from start res (ahead (length (char_text c)) r) =
      Inr (res @ body_value cs, ahead (Suc (length (body_text (c # cs)))) r)" for res
    using Cons.IH [OF _ tail] Cons.prems(1) by (simp add: body_text_def)
  have valid: "char_valid c" using Cons.prems(1) by simp
  show ?case
  proof (cases "\<exists>cp. c = Raw cp")
    case True
    then obtain cp where c: "c = Raw cp" by auto
    with valid obtain d ds where d: "utf8_bytes cp = d # ds" "d \<noteq> CHR 0x22" "d \<noteq> CHR 0x5C" "0x20 \<le> code_of d"
      "code_of d < 0x80 \<Longrightarrow> ds = [] \<and> d = char_of cp"
      by (auto elim!: scalar_head)
    have at_d: "sits r (d # ds @ body_text cs @ CHR 0x22 # rest)" using here c d(1) by simp
    show ?thesis
    proof (cases "code_of d < 0x80")
      case True
      with d sits_Cons [OF at_d] IH c show ?thesis
        by (subst parse_string_from.simps) (simp add: body_value_def Let_def)
    next
      case False
      have dec: "decode_utf8 (jr_input r) (jr_position r) = Inr (cp, jr_position r + length (d # ds))"
        using valid c here d(1) decode_utf8_bytes [of cp "jr_position r" "jr_input r"] by (simp add: sits_def)
      have slice: "take (length (d # ds)) (drop (jr_position r) (jr_input r)) = d # ds"
        using at_d by (simp add: sits_def)
      show ?thesis
        using d(2-4) False sits_Cons [OF at_d] IH [of "result @ d # ds"] c d(1) dec slice
        by (subst parse_string_from.simps) (simp add: body_value_def Let_def del: list.size take_Suc_Cons)
    qed
  next
    case False
    then obtain s where s: "char_text c = CHR 0x5C # s" by (cases c) auto
    have at_b: "sits r (CHR 0x5C # s @ body_text cs @ CHR 0x22 # rest)" using here s by simp
    have "append_escape result (ahead (Suc 0) r) = Inr (result @ char_value c, ahead (length s) (ahead (Suc 0) r))"
      using escape_sits [OF valid s, of "ahead (Suc 0) r"] sits_Cons [OF at_b] False by blast
    with sits_Cons [OF at_b] IH s show ?thesis
      by (subst parse_string_from.simps) (simp add: body_value_def Let_def code_of_def)
  qed
qed

lemma parse_string_sits:
  "list_all char_valid cs \<Longrightarrow> sits r (CHR 0x22 # body_text cs @ CHR 0x22 # rest) \<Longrightarrow>
     parse_string r = Inr (body_value cs, ahead (2 + length (body_text cs)) r)"
  using parse_string_from_sits [of cs "ahead (Suc 0) r" rest "jr_position r" "[]"]
    sits_Cons [of r "CHR 0x22" "body_text cs @ CHR 0x22 # rest"]
  by (simp add: parse_string_def)

lemma escape_sound:
  assumes "append_escape result r = Inr (s, r')"
  shows "\<exists>c t. char_valid c \<and> char_text c = CHR 0x5C # t \<and> s = result @ char_value c \<and>
    sits r (t @ drop (jr_position r') (jr_input r)) \<and> r' = ahead (length t) r"
proof (cases "current r = CHR ''u''")
  case False
  with assms obtain v where v: "map_of short_escapes (current r) = Some v" "s = result @ [v]" "r' = ahead 1 r"
    by (auto simp: append_escape_def short_escapes_def Let_def split: if_splits)
  have "current r \<noteq> CHR 0x00" using v(1) by (auto simp: short_escapes_def split: if_splits)
  then have "jr_position r < length (jr_input r)" by (auto simp: current_def char_at_def split: if_splits)
  then have "sits r ([current r] @ drop (jr_position r') (jr_input r))"
    using v(3) by (simp add: sits_def current_def char_at_def Cons_nth_drop_Suc)
  with v show ?thesis by (intro exI [of _ "Short (current r)"] exI [of _ "[current r]"]) simp
next
  case True
  then have "jr_position r < length (jr_input r)" by (auto simp: current_def char_at_def split: if_splits)
  then have here: "drop (jr_position r) (jr_input r) = CHR ''u'' # drop (Suc (jr_position r)) (jr_input r)"
    using True drop_eq_Cons [of "jr_position r" "jr_input r"] by (simp add: current_def char_at_def)
  from assms True have esc: "unicode_escape result (ahead 1 r) = Inr (s, r')"
    by (simp add: append_escape_def Let_def)
  then obtain cp r1 where r1: "read_hex4 (ahead 1 r) = Inr (cp, r1)"
    by (auto simp: unicode_escape_def)
  have cases: "0xD800 \<le> cp \<and> cp \<le> 0xDBFF \<and> current r1 = CHR 0x5C \<and> jr_position r1 + 1 < length (jr_input r1) \<and>
        jr_input r1 ! (jr_position r1 + 1) = CHR ''u'' \<and>
        (\<exists>low. read_hex4 (ahead 2 r1) = Inr (low, r') \<and> 0xDC00 \<le> low \<and> low \<le> 0xDFFF \<and>
           append_utf8 result (0x10000 + push_bit 10 (cp - 0xD800) + (low - 0xDC00)) = Inr s)
      \<or> \<not> is_surrogate cp \<and> r' = r1 \<and> append_utf8 result cp = Inr s"
  proof (cases "0xD800 \<le> cp \<and> cp \<le> 0xDBFF")
    case True
    with esc r1 show ?thesis by (auto simp: unicode_escape_def not_le not_less split: if_splits)
  next
    case False
    with esc r1 show ?thesis by (auto simp: unicode_escape_def is_surrogate_def split: if_splits)
  qed
  obtain hs where hs: "hex4 hs" "cp = hex_value hs" "r1 = ahead 5 r"
    "sits (ahead 1 r) (hs @ drop (jr_position r1) (jr_input r))"
    using read_hex4_sound [OF r1] by auto
  have four: "length hs = 4" using hs(1) by (simp add: hex4_def)
  from cases show ?thesis
  proof
    assume "\<not> is_surrogate cp \<and> r' = r1 \<and> append_utf8 result cp = Inr s"
    with hs here four show ?thesis
      by (intro exI [of _ "Unicode hs"] exI [of _ "CHR ''u'' # hs"])
        (auto simp: append_utf8_eq sits_def split: if_splits)
  next
    assume pair: "0xD800 \<le> cp \<and> cp \<le> 0xDBFF \<and> current r1 = CHR 0x5C \<and> jr_position r1 + 1 < length (jr_input r1) \<and>
        jr_input r1 ! (jr_position r1 + 1) = CHR ''u'' \<and>
        (\<exists>low. read_hex4 (ahead 2 r1) = Inr (low, r') \<and> 0xDC00 \<le> low \<and> low \<le> 0xDFFF \<and>
           append_utf8 result (0x10000 + push_bit 10 (cp - 0xD800) + (low - 0xDC00)) = Inr s)"
    then obtain low where low: "read_hex4 (ahead 2 r1) = Inr (low, r')" "0xDC00 \<le> low" "low \<le> 0xDFFF"
      "append_utf8 result (0x10000 + push_bit 10 (cp - 0xD800) + (low - 0xDC00)) = Inr s" by blast
    obtain ls where ls: "hex4 ls" "low = hex_value ls" "r' = ahead 4 (ahead 2 r1)"
      "sits (ahead 2 r1) (ls @ drop (jr_position r') (jr_input r))"
      using read_hex4_sound [OF low(1)] hs(3) by auto
    have "length ls = 4" using ls(1) by (simp add: hex4_def)
    have "current r1 = CHR 0x5C" "Suc (jr_position r1) < length (jr_input r1)"
      "jr_input r1 ! Suc (jr_position r1) = CHR ''u''" using pair by simp_all
    then have "drop (jr_position r1) (jr_input r1) = CHR 0x5C # CHR ''u'' # drop (jr_position r1 + 2) (jr_input r1)"
      using drop_eq_Cons [of "jr_position r1" "jr_input r1"] drop_eq_Cons [of "Suc (jr_position r1)" "jr_input r1"]
      by (simp add: current_def char_at_def)
    then have "sits r ((CHR ''u'' # hs @ CHR 0x5C # CHR ''u'' # ls) @ drop (jr_position r') (jr_input r))"
      using here hs(3,4) ls(4) by (simp add: sits_def add.commute)
    then show ?thesis using hs ls low pair four \<open>length ls = 4\<close>
      by (intro exI [of _ "Pair hs ls"] exI [of _ "CHR ''u'' # hs @ CHR 0x5C # CHR ''u'' # ls"])
        (auto simp: append_utf8_eq pair_value_def split: if_splits)
  qed
qed

text \<open>What is left of the input at a reader.\<close>

definition left :: "json_reader \<Rightarrow> string" where
  "left r = drop (jr_position r) (jr_input r)"

lemma sits_left: "sits r s \<longleftrightarrow> left r = s"
  by (simp add: sits_def left_def)

text \<open>\<open>took r s r'\<close>: the text \<open>s\<close> is next at \<open>r\<close>, and \<open>r'\<close> stands behind it.\<close>

definition took :: "json_reader \<Rightarrow> string \<Rightarrow> json_reader \<Rightarrow> bool" where
  "took r s r' \<longleftrightarrow> left r = s @ left r' \<and> r' = ahead (length s) r"

lemma tookI: "sits r (s @ rest) \<Longrightarrow> took r s (ahead (length s) r)"
  using sits_append [of r s rest] by (simp add: took_def sits_left)

lemma took_trans: "took r s r1 \<Longrightarrow> took r1 t r2 \<Longrightarrow> took r (s @ t) r2"
  by (simp add: took_def)

lemma took_Nil [simp]: "took r [] r"
  by (simp add: took_def)

lemma left_Cons: "jr_position r < length (jr_input r) \<Longrightarrow> left r = jr_input r ! jr_position r # left (ahead 1 r)"
  by (simp add: left_def drop_eq_Cons)

lemma took_one: "jr_position r < length (jr_input r) \<Longrightarrow> took r [jr_input r ! jr_position r] (ahead 1 r)"
  using left_Cons [of r] by (simp add: took_def)

lemma current_took: "current r \<noteq> CHR 0x00 \<Longrightarrow> took r [current r] (ahead 1 r)"
  using took_one [of r] by (auto simp: current_def char_at_def split: if_splits)

lemma parse_string_from_sound:
  "parse_string_from start result r = Inr (s, r') \<Longrightarrow>
     \<exists>cs. list_all char_valid cs \<and> s = result @ body_value cs \<and> took r (body_text cs @ [CHR 0x22]) r'"
proof (induction start result r arbitrary: s r' rule: parse_string_from.induct)
  case (1 start result r)
  let ?c = "jr_input r ! jr_position r"
  have inside: "jr_position r < length (jr_input r)"
    using "1.prems" by (subst (asm) parse_string_from.simps) (auto split: if_splits)
  note one = took_one [OF inside]
  consider (quote) "?c = CHR 0x22" "s = result" "r' = ahead 1 r"
    | (escape) res r1 where "?c = CHR 0x5C" "append_escape result (ahead 1 r) = Inr (res, r1)"
        "parse_string_from start res r1 = Inr (s, r')"
    | (ascii) "?c \<noteq> CHR 0x22" "?c \<noteq> CHR 0x5C" "0x20 \<le> code_of ?c" "code_of ?c < 0x80"
        "parse_string_from start (result @ [?c]) (ahead 1 r) = Inr (s, r')"
    | (wide) cp nxt where "0x80 \<le> code_of ?c" "decode_utf8 (jr_input r) (jr_position r) = Inr (cp, nxt)"
        "parse_string_from start (result @ take (nxt - jr_position r) (drop (jr_position r) (jr_input r))) (goto nxt r)
          = Inr (s, r')"
    using "1.prems" inside
    by (subst (asm) parse_string_from.simps) (auto simp: Let_def not_less split: if_splits sum.splits)
  then show ?case
  proof cases
    case quote
    then show ?thesis using one by (intro exI [of _ "[]"]) (simp add: body_text_def body_value_def)
  next
    case escape
    then have "\<not> jr_position r \<ge> length (jr_input r)" "?c \<noteq> CHR 0x22" "\<not> code_of ?c < 0x20"
      using inside by (simp_all add: code_of_def)
    then obtain cs where cs: "list_all char_valid cs" "s = res @ body_value cs" "took r1 (body_text cs @ [CHR 0x22]) r'"
      using "1.IH"(1) [OF _ refl _ _ escape(1,2) refl escape(3)] by auto
    obtain c t where c: "char_valid c" "char_text c = CHR 0x5C # t" "res = result @ char_value c"
      "sits (ahead 1 r) (t @ drop (jr_position r1) (jr_input r))" "r1 = ahead (length t) (ahead 1 r)"
      using escape_sound [OF escape(2)] by auto
    then have "took (ahead 1 r) t r1" using tookI [OF c(4)] by simp
    then have "took r (char_text c) r1" using took_trans [OF one] escape(1) c(2) by simp
    from took_trans [OF this cs(3)] cs c show ?thesis
      by (intro exI [of _ "c # cs"]) (simp add: body_text_def body_value_def)
  next
    case ascii
    then obtain cs where cs: "list_all char_valid cs" "s = result @ [?c] @ body_value cs"
      "took (ahead 1 r) (body_text cs @ [CHR 0x22]) r'"
      using "1.IH"(2) [OF _ refl] inside by (auto simp: not_le not_less)
    have "utf8_bytes (code_of ?c) = [?c]" using ascii(4) by (simp add: utf8_bytes_def)
    moreover have "code_of ?c \<noteq> 0x22" "code_of ?c \<noteq> 0x5C"
      using ascii(1,2) code_of_inj [of ?c "CHR 0x22"] code_of_inj [of ?c "CHR 0x5C"] by (auto simp: code_of_def)
    ultimately show ?thesis using took_trans [OF one cs(3)] cs ascii(3,4)
      by (intro exI [of _ "Raw (code_of ?c) # cs"])
        (simp add: body_text_def body_value_def is_scalar_def is_surrogate_def)
  next
    case wide
    from decode_utf8_sound [OF inside wide(2)] have cp: "is_scalar cp" "nxt \<le> length (jr_input r)"
      "left r = utf8_bytes cp @ drop nxt (jr_input r)" by (simp_all add: left_def)
    have "length (left r) = length (jr_input r) - jr_position r" by (simp add: left_def)
    then have next_eq: "nxt = jr_position r + length (utf8_bytes cp)"
      using cp inside decode_utf8_advances [OF wide(2)] by simp
    have slice: "take (nxt - jr_position r) (drop (jr_position r) (jr_input r)) = utf8_bytes cp"
      using cp(3) next_eq by (simp add: left_def)
    have step: "took r (utf8_bytes cp) (goto nxt r)"
      using cp(3) next_eq by (simp add: took_def left_def)
    have "0x80 \<le> cp"
    proof (rule ccontr)
      assume "\<not> 0x80 \<le> cp"
      then have "utf8_bytes cp = [char_of cp]" "code_of (char_of cp) = cp"
        by (simp_all add: utf8_bytes_def code_of_char_of)
      with cp(3) left_Cons [OF inside] wide(1) \<open>\<not> 0x80 \<le> cp\<close> show False by simp
    qed
    have "?c \<noteq> CHR 0x22" "?c \<noteq> CHR 0x5C" using wide(1) by (auto simp: code_of_def)
    with wide inside obtain cs where cs: "list_all char_valid cs" "s = result @ utf8_bytes cp @ body_value cs"
      "took (goto nxt r) (body_text cs @ [CHR 0x22]) r'"
      using "1.IH"(3) [OF _ refl _ _ _ _ wide(2) refl wide(3)] slice by auto
    from took_trans [OF step cs(3)] cs cp(1) \<open>0x80 \<le> cp\<close> show ?thesis
      by (intro exI [of _ "Raw cp # cs"]) (simp add: body_text_def body_value_def)
  qed
qed

lemma parse_string_sound:
  assumes "current r = CHR 0x22" "parse_string r = Inr (s, r')"
  shows "\<exists>cs. list_all char_valid cs \<and> s = body_value cs \<and> took r (CHR 0x22 # body_text cs @ [CHR 0x22]) r'"
proof -
  have one: "took r [CHR 0x22] (ahead 1 r)" using current_took [of r] assms(1) by simp
  obtain cs where cs: "list_all char_valid cs" "s = body_value cs" "took (ahead 1 r) (body_text cs @ [CHR 0x22]) r'"
    using parse_string_from_sound [of "jr_position r" "[]" "ahead 1 r" s r'] assms(2) by (auto simp: parse_string_def)
  with took_trans [OF one cs(3)] show ?thesis by auto
qed

section \<open>Numbers\<close>

lemma skip_digits_sits:
  "sits r (ds @ rest) \<Longrightarrow> list_all is_digit ds \<Longrightarrow> rest = [] \<or> \<not> is_digit (hd rest) \<Longrightarrow>
     skip_digits r = ahead (length ds) r"
  using scan_while_drop [of "jr_position r" "jr_input r" ds rest is_digit]
  by (simp add: skip_digits_def sits_def list_all_iff)

lemma scan_whole_sits:
  assumes "digits ds" "hd ds = CHR ''0'' \<longrightarrow> length ds = 1" "sits r (ds @ rest)"
    "rest = [] \<or> \<not> is_digit (hd rest)"
  shows "scan_whole start r = Inr (ahead (length ds) r)"
proof -
  obtain d ds' where d: "ds = d # ds'" "is_digit d" using assms(1) by (cases ds) (auto simp: digits_def)
  with assms(3) sits_Cons [of r d "ds' @ rest"] have "current r = d" by simp
  with d assms skip_digits_sits [OF assms(3)] show ?thesis
    by (auto simp: scan_whole_def digits_def)
qed

lemma scan_exponent_sits:
  assumes "digits ds" "sign \<in> {[], ''+'', ''-''}" "letter = CHR ''e'' \<or> letter = CHR ''E''" "number_end rest"
    "sits r (letter # sign @ ds @ rest)"
  shows "scan_exponent p r = Inr (ahead (Suc (length sign + length ds)) r)"
proof -
  have after: "sits (ahead 1 r) (sign @ ds @ rest)" "current r = letter" using sits_Cons [OF assms(5)] by simp_all
  let ?r4 = "ahead (Suc (length sign)) r"
  have s4: "sits ?r4 (ds @ rest)" using sits_append [OF after(1)] by simp
  have dig: "is_digit (current ?r4)" using assms(1) current_sits [OF s4] by (cases ds) (auto simp: digits_def)
  have run: "skip_digits ?r4 = ahead (length ds) ?r4"
    using assms(1,4) by (intro skip_digits_sits [OF s4]) (auto simp: digits_def number_end_def)
  from assms(2) consider "sign = []" | "sign = ''+''" | "sign = ''-''" by auto
  then show ?thesis
  proof cases
    case 1
    with dig have "current (ahead 1 r) \<noteq> CHR ''+''" "current (ahead 1 r) \<noteq> CHR ''-''" by auto
    with 1 dig run after(2) assms(3) show ?thesis by (simp add: scan_exponent_def Let_def)
  next
    case 2
    with current_sits [OF after(1)] dig run after(2) assms(3) show ?thesis
      by (simp add: scan_exponent_def Let_def numeral_2_eq_2)
  next
    case 3
    with current_sits [OF after(1)] dig run after(2) assms(3) show ?thesis
      by (simp add: scan_exponent_def Let_def numeral_2_eq_2)
  qed
qed

lemma scan_number_sits:
  assumes "well_formed n" "no_leading_zero n" "sits r (number_text n @ rest)" "number_end rest"
  shows "scan_number r = Inr (number_text n, ahead (length (number_text n)) r)"
proof -
  define e where "e = (case exponent n of None \<Rightarrow> [] | Some (letter, sign, ds) \<Rightarrow> letter # sign @ ds)"
  define f where "f = (case fraction n of None \<Rightarrow> [] | Some ds \<Rightarrow> ''.'' @ ds)"
  define m where "m = (if negative n then ''-'' else [])"
  have all: "number_text n = m @ whole n @ f @ e"
    by (simp add: number_text_def m_def f_def e_def)
  have here: "sits r (m @ whole n @ f @ e @ rest)" using assms(3) all by simp
  have wd: "digits (whole n)" using assms(1) by (simp add: well_formed_def)
  have e_end: "e @ rest = [] \<or> \<not> is_digit (hd (e @ rest)) \<and> hd (e @ rest) \<noteq> CHR ''.''"
    using assms(1,4) by (auto simp: e_def well_formed_def number_end_def split: option.splits)
  have f_end: "f @ e @ rest = [] \<or> \<not> is_digit (hd (f @ e @ rest))"
    using e_end by (auto simp: f_def split: option.splits)
  let ?r0 = "ahead (length m) r" let ?r1 = "ahead (length (whole n)) ?r0"
  let ?r2 = "ahead (length f) ?r1" let ?r3 = "ahead (length e) ?r2"
  have s0: "sits ?r0 (whole n @ f @ e @ rest)" using sits_append [OF here] .
  have s1: "sits ?r1 (f @ e @ rest)" using sits_append [OF s0] .
  have s2: "sits ?r2 (e @ rest)" using sits_append [OF s1] .
  have start: "(if current r = CHR ''-'' then ahead 1 r else r) = ?r0"
  proof (cases "negative n")
    case True
    with here sits_Cons [of r "CHR ''-''" "whole n @ f @ e @ rest"] show ?thesis by (simp add: m_def)
  next
    case False
    obtain d ds where "whole n = d # ds" "is_digit d" using wd by (cases "whole n") (auto simp: digits_def)
    with False here sits_Cons [of r d "ds @ f @ e @ rest"] show ?thesis by (auto simp: m_def)
  qed
  have "scan_whole p ?r0 = Inr ?r1" for p
    using scan_whole_sits [OF wd _ s0 f_end] assms(2) by (simp add: no_leading_zero_def)
  moreover have "scan_fraction p ?r1 = Inr ?r2" for p
  proof (cases "fraction n")
    case None
    then have "sits ?r1 (e @ rest)" using s1 by (simp add: f_def)
    from current_sits [OF this] e_end have "current ?r1 \<noteq> CHR ''.''" by (cases "e @ rest") auto
    with None show ?thesis by (simp add: scan_fraction_def f_def)
  next
    case (Some ds)
    have ds: "digits ds" using assms(1) Some by (simp add: well_formed_def)
    have point: "sits ?r1 (CHR ''.'' # ds @ e @ rest)" using s1 Some by (simp add: f_def)
    have after: "sits (ahead 1 ?r1) (ds @ e @ rest)" using sits_Cons [OF point] by simp
    have "skip_digits (ahead 1 ?r1) = ahead (length ds) (ahead 1 ?r1)"
      using ds e_end by (intro skip_digits_sits [OF after]) (auto simp: digits_def)
    moreover have "is_digit (current (ahead 1 ?r1))"
      using ds current_sits [OF after] by (cases ds) (auto simp: digits_def)
    ultimately show ?thesis using sits_Cons [OF point] Some by (simp add: scan_fraction_def f_def)
  qed
  moreover have "scan_exponent p ?r2 = Inr ?r3" for p
  proof (cases "exponent n")
    case None
    then have "sits ?r2 rest" using s2 by (simp add: e_def)
    from current_sits [OF this] assms(4) have "current ?r2 \<noteq> CHR ''e''" "current ?r2 \<noteq> CHR ''E''"
      by (cases rest; auto simp: number_end_def)+
    with None show ?thesis by (simp add: scan_exponent_def e_def)
  next
    case (Some x)
    obtain letter sign ds where x: "x = (letter, sign, ds)" by (cases x)
    have parts: "digits ds" "sign \<in> {[], ''+'', ''-''}" "letter = CHR ''e'' \<or> letter = CHR ''E''"
      using assms(1) Some x by (auto simp: well_formed_def)
    have "sits ?r2 (letter # sign @ ds @ rest)" using s2 Some x by (simp add: e_def)
    from scan_exponent_sits [OF parts assms(4) this] show ?thesis using Some x by (simp add: e_def)
  qed
  moreover have "take (length (number_text n)) (drop (jr_position r) (jr_input r)) = number_text n"
    using assms(3) by (simp add: sits_def)
  ultimately show ?thesis by (simp add: scan_number_def start Let_def all add.assoc)
qed

lemma skip_digits_took:
  "\<exists>ds. list_all is_digit ds \<and> took r ds (skip_digits r) \<and> (is_digit (current r) \<longrightarrow> ds \<noteq> [] \<and> hd ds = current r)"
proof (cases "jr_position r \<le> length (jr_input r)")
  case True
  let ?ds = "takeWhile is_digit (drop (jr_position r) (jr_input r))"
  have to: "skip_digits r = ahead (length ?ds) r"
    using scan_while_spec [OF True, of is_digit] by (simp add: skip_digits_def)
  have "sits r (?ds @ dropWhile is_digit (drop (jr_position r) (jr_input r)))" by (simp add: sits_def)
  from tookI [OF this] to have "took r ?ds (skip_digits r)" by simp
  moreover have "list_all is_digit ?ds" by (auto simp: list_all_iff dest: set_takeWhileD)
  moreover have "?ds \<noteq> [] \<and> hd ?ds = current r" if "is_digit (current r)"
  proof -
    have "jr_position r < length (jr_input r)"
      using that by (auto simp: current_def char_at_def is_digit_def code_of_def split: if_splits)
    with left_Cons [OF this] that show ?thesis by (simp add: left_def current_def char_at_def)
  qed
  ultimately show ?thesis by blast
next
  case False
  then have "skip_digits r = r" "current r = CHR 0x00"
    by (simp_all add: skip_digits_def goto_def scan_while.simps current_def char_at_def)
  then show ?thesis by (intro exI [of _ "[]"]) (simp add: is_digit_def code_of_def)
qed

lemma skip_digits_sound: "is_digit (current r) \<Longrightarrow> \<exists>ds. digits ds \<and> hd ds = current r \<and> took r ds (skip_digits r)"
  using skip_digits_took [of r] by (auto simp: digits_def)

lemma current_took_eq: "current r = c \<Longrightarrow> c \<noteq> CHR 0x00 \<Longrightarrow> took r [c] (ahead 1 r)"
  using current_took [of r] by simp

lemma scan_whole_sound:
  "scan_whole p r = Inr r' \<Longrightarrow> \<exists>ds. digits ds \<and> (hd ds = CHR ''0'' \<longrightarrow> length ds = 1) \<and> took r ds r'"
  using skip_digits_sound [of r] current_took_eq [of r "CHR ''0''"]
  by (auto simp: scan_whole_def digits_def is_digit_def code_of_def split: if_splits intro: exI [of _ "''0''"])

lemma scan_fraction_sound:
  assumes "scan_fraction p r = Inr r'"
  shows "\<exists>f. (case f of None \<Rightarrow> True | Some ds \<Rightarrow> digits ds) \<and>
    took r (case f of None \<Rightarrow> [] | Some ds \<Rightarrow> ''.'' @ ds) r'"
proof (cases "current r = CHR ''.''")
  case True
  have "took r ''.'' (ahead 1 r)" using current_took_eq [OF True] by simp
  moreover obtain ds where "digits ds" "took (ahead 1 r) ds r'"
    using assms True skip_digits_sound [of "ahead 1 r"] by (auto simp: scan_fraction_def Let_def split: if_splits)
  ultimately show ?thesis using took_trans by (intro exI [of _ "Some ds"]) fastforce
qed (use assms in \<open>auto simp: scan_fraction_def intro!: exI [of _ None]\<close>)

lemma scan_exponent_sound:
  assumes "scan_exponent p r = Inr r'"
  shows "\<exists>x. (case x of None \<Rightarrow> True
      | Some (letter, sign, ds) \<Rightarrow> letter \<in> set ''eE'' \<and> sign \<in> {[], ''+'', ''-''} \<and> digits ds) \<and>
    took r (case x of None \<Rightarrow> [] | Some (letter, sign, ds) \<Rightarrow> letter # sign @ ds) r'"
proof (cases "current r = CHR ''e'' \<or> current r = CHR ''E''")
  case True
  define r1 where "r1 = (if current (ahead 1 r) = CHR ''+'' \<or> current (ahead 1 r) = CHR ''-'' then ahead 1 (ahead 1 r) else ahead 1 r)"
  have one: "took r [current r] (ahead 1 r)" using True by (intro current_took) auto
  define sign where "sign = (if current (ahead 1 r) = CHR ''+'' \<or> current (ahead 1 r) = CHR ''-''
    then [current (ahead 1 r)] else [])"
  have sign: "sign \<in> {[], ''+'', ''-''}" "took (ahead 1 r) sign r1"
    using current_took [of "ahead 1 r"] by (auto simp: sign_def r1_def)
  have "is_digit (current r1) \<and> r' = skip_digits r1"
    using assms True by (auto simp: scan_exponent_def Let_def r1_def split: if_splits)
  then obtain ds where ds: "digits ds" "took r1 ds r'"
    using skip_digits_sound [of r1] by blast
  have "took r ([current r] @ sign @ ds) r'" using took_trans [OF one took_trans [OF sign(2) ds(2)]] .
  then show ?thesis using True sign(1) ds(1) by (intro exI [of _ "Some (current r, sign, ds)"]) auto
qed (use assms in \<open>auto simp: scan_exponent_def intro!: exI [of _ None]\<close>)

lemma scan_number_sound:
  assumes "scan_number r = Inr (token, r')"
  shows "\<exists>n. well_formed n \<and> no_leading_zero n \<and> token = number_text n \<and> took r token r'"
proof -
  define m where "m = (if current r = CHR ''-'' then ''-'' else [])"
  define r0 where "r0 = (if current r = CHR ''-'' then ahead 1 r else r)"
  have r0: "took r m r0" using current_took_eq [of r "CHR ''-''"] by (simp add: m_def r0_def)
  obtain r1 r2 where r: "scan_whole (jr_position r) r0 = Inr r1" "scan_fraction (jr_position r) r1 = Inr r2"
    "scan_exponent (jr_position r) r2 = Inr r'" and
    token: "token = take (jr_position r' - jr_position r) (drop (jr_position r) (jr_input r'))"
    using assms by (auto simp: scan_number_def Let_def r0_def)
  obtain ds where ds: "digits ds" "hd ds = CHR ''0'' \<longrightarrow> length ds = 1" "took r0 ds r1"
    using scan_whole_sound [OF r(1)] by auto
  obtain f where f: "case f of None \<Rightarrow> True | Some ds \<Rightarrow> digits ds"
    "took r1 (case f of None \<Rightarrow> [] | Some ds \<Rightarrow> ''.'' @ ds) r2"
    using scan_fraction_sound [OF r(2)] by auto
  obtain x where x: "case x of None \<Rightarrow> True
      | Some (letter, sign, ds) \<Rightarrow> letter \<in> set ''eE'' \<and> sign \<in> {[], ''+'', ''-''} \<and> digits ds"
    "took r2 (case x of None \<Rightarrow> [] | Some (letter, sign, ds) \<Rightarrow> letter # sign @ ds) r'"
    using scan_exponent_sound [OF r(3)] by auto
  define n where "n = \<lparr>negative = current r = CHR ''-'', whole = ds, fraction = f, exponent = x\<rparr>"
  have all: "took r (number_text n) r'"
    using took_trans [OF r0 took_trans [OF ds(3) took_trans [OF f(2) x(2)]]]
    by (simp add: number_text_def n_def m_def)
  then have "token = number_text n" by (simp add: took_def token left_def)
  then show ?thesis using all ds f(1) x(1)
    by (intro exI [of _ n]) (simp add: well_formed_def no_leading_zero_def n_def)
qed

end
