(* ===== verification/Json_Conformance.thy ===== *)
theory Json_Conformance
  imports Json_Grammar
begin

text \<open>
  RFC 8259 and \<open>reader::skip_value\<close> of \<open>include/reflgen/json/reader.h\<close>. The grammar is the type of
  syntax trees \<open>json\<close> with the text of a tree; the reader skips a value, and accepts a document,
  exactly when its text is that of a valid tree no deeper than the limit.
\<close>

section \<open>The grammar\<close>

text \<open>
  An array or object that is empty keeps the white space between its brackets; an item keeps the
  white space before and after its value, an entry also that around its colon.
\<close>

datatype json =
    JNull
  | JBool bool
  | JNumber number
  | JString "json_char list"
  | JArray string "json_item list"
  | JObject string "json_entry list"
and json_item = Item string json string
and json_entry = Entry string "json_char list" string string json string

definition blanks :: "string \<Rightarrow> bool" where
  "blanks s \<longleftrightarrow> list_all is_space s"

definition quoted :: "json_char list \<Rightarrow> string" where
  "quoted cs = CHR 0x22 # body_text cs @ [CHR 0x22]"

fun json_text :: "json \<Rightarrow> string"
  and items_text :: "json_item list \<Rightarrow> string"
  and entries_text :: "json_entry list \<Rightarrow> string" where
  "json_text JNull = ''null''"
| "json_text (JBool b) = (if b then ''true'' else ''false'')"
| "json_text (JNumber n) = number_text n"
| "json_text (JString cs) = quoted cs"
| "json_text (JArray w items) = ''['' @ (if items = [] then w else items_text items) @ '']''"
| "json_text (JObject w entries) = ''{'' @ (if entries = [] then w else entries_text entries) @ ''}''"
| "items_text [] = []"
| "items_text (Item u t v # items) =
     u @ json_text t @ v @ (if items = [] then [] else '','' @ items_text items)"
| "entries_text [] = []"
| "entries_text (Entry u k v x t y # entries) =
     u @ quoted k @ v @ '':'' @ x @ json_text t @ y @ (if entries = [] then [] else '','' @ entries_text entries)"

fun json_valid :: "json \<Rightarrow> bool"
  and items_valid :: "json_item list \<Rightarrow> bool"
  and entries_valid :: "json_entry list \<Rightarrow> bool" where
  "json_valid JNull \<longleftrightarrow> True"
| "json_valid (JBool b) \<longleftrightarrow> True"
| "json_valid (JNumber n) \<longleftrightarrow> well_formed n \<and> no_leading_zero n"
| "json_valid (JString cs) \<longleftrightarrow> list_all char_valid cs"
| "json_valid (JArray w items) \<longleftrightarrow> blanks w \<and> items_valid items"
| "json_valid (JObject w entries) \<longleftrightarrow> blanks w \<and> entries_valid entries"
| "items_valid [] \<longleftrightarrow> True"
| "items_valid (Item u t v # items) \<longleftrightarrow> blanks u \<and> json_valid t \<and> blanks v \<and> items_valid items"
| "entries_valid [] \<longleftrightarrow> True"
| "entries_valid (Entry u k v x t y # entries) \<longleftrightarrow> blanks u \<and> list_all char_valid k \<and> blanks v \<and> blanks x \<and>
     json_valid t \<and> blanks y \<and> entries_valid entries"

fun json_depth :: "json \<Rightarrow> nat"
  and items_depth :: "json_item list \<Rightarrow> nat"
  and entries_depth :: "json_entry list \<Rightarrow> nat" where
  "json_depth (JArray w items) = Suc (items_depth items)"
| "json_depth (JObject w entries) = Suc (entries_depth entries)"
| "json_depth JNull = 0"
| "json_depth (JBool b) = 0"
| "json_depth (JNumber n) = 0"
| "json_depth (JString cs) = 0"
| "items_depth [] = 0"
| "items_depth (Item u t v # items) = max (json_depth t) (items_depth items)"
| "entries_depth [] = 0"
| "entries_depth (Entry u k v x t y # entries) = max (json_depth t) (entries_depth entries)"

text \<open>What is left of an array or object behind a value and the white space \<open>v\<close>.\<close>

definition items_tail :: "string \<Rightarrow> json_item list \<Rightarrow> string" where
  "items_tail v items = v @ (if items = [] then [] else '','' @ items_text items)"

definition entries_tail :: "string \<Rightarrow> json_entry list \<Rightarrow> string" where
  "entries_tail v entries = v @ (if entries = [] then [] else '','' @ entries_text entries)"

lemma items_text_Cons: "items_text (Item u t v # items) = u @ json_text t @ items_tail v items"
  by (simp add: items_tail_def)

lemma entries_text_Cons:
  "entries_text (Entry u k v x t y # entries) = u @ quoted k @ v @ '':'' @ x @ json_text t @ entries_tail y entries"
  by (simp add: entries_tail_def)

text \<open>What may follow the text of a value without changing how it is read.\<close>

definition may_follow :: "json \<Rightarrow> string \<Rightarrow> bool" where
  "may_follow t s \<longleftrightarrow> (case t of JNumber _ \<Rightarrow> number_end s | _ \<Rightarrow> True)"

lemma blanks_simps [simp]:
  "blanks []" "blanks (c # s) \<longleftrightarrow> is_space c \<and> blanks s" "blanks (s @ t) \<longleftrightarrow> blanks s \<and> blanks t"
  by (simp_all add: blanks_def)

lemma is_space_simps [simp]:
  "is_space (CHR '' '')" "is_space (CHR 0x0A)" "\<not> is_space (CHR 0x00)" "\<not> is_space (CHR 0x22)"
  "\<not> is_space (CHR ''['')" "\<not> is_space (CHR '']'')" "\<not> is_space (CHR ''{'')" "\<not> is_space (CHR ''}'')"
  "\<not> is_space (CHR '','')" "\<not> is_space (CHR '':'')" "\<not> is_space (CHR ''n'')" "\<not> is_space (CHR ''t'')"
  "\<not> is_space (CHR ''f'')" "\<not> is_space (CHR ''-'')"
  by (simp_all add: is_space_def)

lemma digit_not_space: "is_digit c \<Longrightarrow> \<not> is_space c"
  by (auto simp: is_digit_def is_space_def code_of_def)

lemma number_end_space: "blanks v \<Longrightarrow> number_end s \<Longrightarrow> number_end (v @ s)"
  by (cases v) (auto simp: number_end_def is_space_def is_digit_def code_of_def)

lemma number_end_simps [simp]:
  "number_end []" "number_end (CHR '']'' # s)" "number_end (CHR ''}'' # s)" "number_end (CHR '','' # s)"
  by (auto simp: number_end_def is_digit_def code_of_def)

lemma may_follow_tail:
  "blanks v \<Longrightarrow> s = [] \<or> hd s \<in> set '']},'' \<Longrightarrow> may_follow t (v @ s)"
  by (cases s) (auto simp: may_follow_def intro!: number_end_space [of v "[]", simplified] number_end_space split: json.split)

text \<open>The first character of a value tells its kind.\<close>

fun first_kind :: "json \<Rightarrow> value_kind" where
  "first_kind JNull = KNull"
| "first_kind (JBool b) = KBoolean"
| "first_kind (JNumber n) = (if fraction n = None \<and> exponent n = None then KInteger else KFloating)"
| "first_kind (JString cs) = KString"
| "first_kind (JArray w items) = KArray"
| "first_kind (JObject w entries) = KObject"

lemma number_text_hd:
  "well_formed n \<Longrightarrow> number_text n \<noteq> [] \<and> (hd (number_text n) = CHR ''-'' \<or> is_digit (hd (number_text n)))"
  by (cases "whole n") (auto simp: number_text_def well_formed_def digits_def)

lemma digit_facts:
  "is_digit c \<Longrightarrow> c \<notin> set '']},:'' \<and> c \<noteq> CHR ''n'' \<and> c \<noteq> CHR ''t'' \<and> c \<noteq> CHR ''f'' \<and> c \<noteq> CHR 0x22 \<and>
     c \<noteq> CHR ''['' \<and> c \<noteq> CHR ''{'' \<and> \<not> is_space c"
  by (auto simp: is_digit_def is_space_def code_of_def)

lemma json_text_hd:
  "json_valid t \<Longrightarrow> json_text t \<noteq> [] \<and> \<not> is_space (hd (json_text t)) \<and> hd (json_text t) \<notin> set '']},:''"
proof (cases t)
  case (JNumber n)
  assume "json_valid t"
  with JNumber number_text_hd [of n] digit_facts [of "hd (number_text n)"] show ?thesis by auto
qed (auto simp: quoted_def)

section \<open>The reader on a text\<close>

text \<open>A reader whose innermost frame is an array or object just entered or not.\<close>

definition inside :: "bool \<Rightarrow> bool \<Rightarrow> json_reader \<Rightarrow> json_reader" where
  "inside object first r = r\<lparr>jr_stack := \<lparr>jrf_is_object = object, jrf_first = first\<rparr> # jr_stack r\<rparr>"

lemma inside_simps [simp]:
  "jr_input (inside b f r) = jr_input r" "jr_position (inside b f r) = jr_position r"
  "jr_max_depth (inside b f r) = jr_max_depth r"
  "jr_stack (inside b f r) = \<lparr>jrf_is_object = b, jrf_first = f\<rparr> # jr_stack r"
  "ahead n (inside b f r) = inside b f (ahead n r)" "goto i (inside b f r) = inside b f (goto i r)"
  "current (inside b f r) = current r" "sits (inside b f r) s = sits r s"
  "skip_whitespace (inside b f r) = inside b f (skip_whitespace r)"
  "left (inside b f r) = left r"
  by (auto simp: inside_def ahead_def goto_def current_def sits_def skip_whitespace_def left_def)

lemma inside_inj [simp]: "inside b f r = inside b f r' \<longleftrightarrow> r = r'"
  by (cases r; cases r') (simp add: inside_def)

lemma took_inside [simp]: "took (inside b f r) s (inside b f r') \<longleftrightarrow> took r s r'"
  by (simp add: took_def)

lemma inside_pop [simp]: "inside b f r\<lparr>jr_stack := jr_stack r\<rparr> = r"
  by (simp add: inside_def)

lemma inside_change [simp]:
  "inside b f r\<lparr>jr_stack := \<lparr>jrf_is_object = b, jrf_first = g\<rparr> # jr_stack r\<rparr> = inside b g r"
  by (simp add: inside_def)

lemma skip_whitespace_frame [simp]:
  "jr_stack (skip_whitespace r) = jr_stack r" "jr_max_depth (skip_whitespace r) = jr_max_depth r"
  "jr_input (skip_whitespace r) = jr_input r"
  by (simp_all add: skip_whitespace_def)

lemma skip_whitespace_sits:
  "sits r (w @ s) \<Longrightarrow> blanks w \<Longrightarrow> s = [] \<or> \<not> is_space (hd s) \<Longrightarrow> skip_whitespace r = ahead (length w) r"
  using scan_while_drop [of "jr_position r" "jr_input r" w s is_space]
  by (simp add: skip_whitespace_def sits_def blanks_def list_all_iff)

lemma skip_whitespace_took:
  "\<exists>w. blanks w \<and> took r w (skip_whitespace r) \<and> \<not> is_space (current (skip_whitespace r))"
proof (cases "jr_position r \<le> length (jr_input r)")
  case True
  let ?w = "takeWhile is_space (drop (jr_position r) (jr_input r))"
  let ?s = "dropWhile is_space (drop (jr_position r) (jr_input r))"
  have here: "sits r (?w @ ?s)" by (simp add: sits_def)
  have to: "skip_whitespace r = ahead (length ?w) r"
    using scan_while_spec [OF True, of is_space] by (simp add: skip_whitespace_def)
  have "blanks ?w" by (auto simp: blanks_def list_all_iff dest: set_takeWhileD)
  moreover have "took r ?w (skip_whitespace r)" unfolding to by (rule tookI [OF here])
  moreover have "\<not> is_space (current (skip_whitespace r))"
    using current_sits [OF sits_append [OF here]] by (cases ?s) (auto simp: to dropWhile_eq_Cons_conv)
  ultimately show ?thesis by blast
next
  case False
  then have "skip_whitespace r = r" "current r = CHR 0x00"
    by (simp_all add: skip_whitespace_def goto_def scan_while.simps current_def char_at_def)
  then show ?thesis by (intro exI [of _ "[]"]) simp
qed

lemma skip_whitespace_stay: "\<not> is_space (current r) \<Longrightarrow> skip_whitespace r = r"
  by (cases "jr_position r < length (jr_input r)")
    (simp_all add: skip_whitespace_def goto_def scan_while.simps current_def char_at_def)

lemma skip_whitespace_twice [simp]: "skip_whitespace (skip_whitespace r) = skip_whitespace r"
  using skip_whitespace_took [of r] skip_whitespace_stay by blast

lemma json_fail_inside [simp]: "json_fail (inside b f r) m = json_fail r m"
  by (simp add: json_fail_def json_fail_at_def)

lemma advance_first:
  "advance c (inside b True r) = Inr (current (skip_whitespace r) \<noteq> c, inside b False (skip_whitespace r))"
  using inside_change [of b True "skip_whitespace r" False] by (simp add: advance_def Let_def)

lemma advance_next:
  "advance c (inside b False r) =
     (let s = skip_whitespace r
      in if current s = c then Inr (False, inside b False s)
         else if current s \<noteq> CHR '','' then
           json_fail s (''expected '' @ [CHR 0x27] @ '','' @ [CHR 0x27] @ '' or '' @ [CHR 0x27, c, CHR 0x27])
         else let q = skip_whitespace (ahead 1 s)
              in if current q = c then json_fail q ''trailing comma'' else Inr (True, inside b False q))"
  by (simp add: advance_def Let_def)

lemma advance_end:
  assumes "sits r (w @ c # rest)" "blanks w" "\<not> is_space c"
  shows "advance c (inside b f r) = Inr (False, inside b False (ahead (length w) r))"
proof -
  have "skip_whitespace r = ahead (length w) r"
    using skip_whitespace_sits [OF assms(1,2)] assms(3) by simp
  with current_sits [OF sits_append [OF assms(1)]] show ?thesis
    by (cases f) (simp_all add: advance_first advance_next)
qed

lemma advance_item:
  assumes "sits r ((if f then [] else v @ '','') @ u @ d # rest)" "blanks v" "blanks u" "\<not> is_space d" "d \<noteq> c"
    "c \<noteq> CHR '',''"
  shows "advance c (inside b f r) = Inr (True, inside b False (ahead (length (if f then u else v @ '','' @ u)) r))"
proof (cases f)
  case True
  then have here: "sits r (u @ d # rest)" using assms(1) by simp
  have "skip_whitespace r = ahead (length u) r" using skip_whitespace_sits [OF here assms(3)] assms(4) by simp
  with current_sits [OF sits_append [OF here]] True assms(5) show ?thesis by (simp add: advance_first)
next
  case False
  then have here: "sits r (v @ CHR '','' # u @ d # rest)" using assms(1) by simp
  have one: "skip_whitespace r = ahead (length v) r" using skip_whitespace_sits [OF here assms(2)] by simp
  have comma: "sits (ahead (length v) r) (CHR '','' # u @ d # rest)" using sits_append [OF here] .
  have after: "sits (ahead (Suc (length v)) r) (u @ d # rest)" using sits_Cons [OF comma] by simp
  have two: "skip_whitespace (ahead (Suc (length v)) r) = ahead (length (v @ '','' @ u)) r"
    using skip_whitespace_sits [OF after assms(3)] assms(4) by simp
  have "current (ahead (length (v @ '','' @ u)) r) = d"
    using current_sits [OF sits_append [OF after]] by (simp add: add.commute)
  with current_sits [OF comma] False assms(5,6) one two show ?thesis by (simp add: advance_next)
qed

text \<open>What is left of an array or object: before its first item, or behind one.\<close>

definition items_left :: "bool \<Rightarrow> string \<Rightarrow> json_item list \<Rightarrow> string" where
  "items_left f w items = (if f then if items = [] then w else items_text items else items_tail w items)"

definition entries_left :: "bool \<Rightarrow> string \<Rightarrow> json_entry list \<Rightarrow> string" where
  "entries_left f w entries = (if f then if entries = [] then w else entries_text entries else entries_tail w entries)"

lemma left_Nil [simp]: "items_left f w [] = w" "entries_left f w [] = w"
  by (simp_all add: items_left_def items_tail_def entries_left_def entries_tail_def)

lemma items_left_Cons:
  "items_left f w (Item u t v # items) = (if f then [] else w @ '','') @ u @ json_text t @ items_left False v items"
  by (simp add: items_left_def items_tail_def)

lemma entries_left_Cons:
  "entries_left f w (Entry u k v x t y # entries) =
     (if f then [] else w @ '','') @ u @ quoted k @ v @ '':'' @ x @ json_text t @ entries_left False y entries"
  by (simp add: entries_left_def entries_tail_def)

lemma may_follow_items: "blanks v \<Longrightarrow> may_follow t (items_left False v items @ CHR '']'' # rest)"
  using may_follow_tail [of v "(if items = [] then [] else '','' @ items_text items) @ CHR '']'' # rest" t]
  by (simp add: items_left_def items_tail_def split: if_splits)

lemma may_follow_entries: "blanks v \<Longrightarrow> may_follow t (entries_left False v entries @ CHR ''}'' # rest)"
  using may_follow_tail [of v "(if entries = [] then [] else '','' @ entries_text entries) @ CHR ''}'' # rest" t]
  by (simp add: entries_left_def entries_tail_def split: if_splits)

lemma next_element_Nil:
  "sits r (w @ CHR '']'' # rest) \<Longrightarrow> blanks w \<Longrightarrow>
     json_next_element (inside False f r) = Inr (False, inside False False (ahead (length w) r))"
  by (simp add: json_next_element_def advance_end)

lemma next_element_Cons:
  assumes "sits r (items_left f w (Item u t v # items) @ CHR '']'' # rest)" "blanks w" "blanks u" "json_valid t"
  shows "\<exists>n. json_next_element (inside False f r) = Inr (True, inside False False (ahead n r)) \<and>
    sits (ahead n r) (json_text t @ items_left False v items @ CHR '']'' # rest) \<and>
    length (items_left f w (Item u t v # items)) = n + length (json_text t) + length (items_left False v items)"
proof -
  let ?s = "json_text t @ items_left False v items @ CHR '']'' # rest"
  obtain d ds where d: "json_text t = d # ds" "\<not> is_space d" "d \<noteq> CHR '']''"
    using json_text_hd [OF assms(4)] by (cases "json_text t") auto
  have here: "sits r ((if f then [] else w @ '','') @ u @ ?s)" using assms(1) by (simp add: items_left_Cons)
  have "sits (ahead (length (if f then u else w @ '','' @ u)) r) ?s"
    using sits_append [of r "if f then u else w @ '','' @ u" ?s] here by (cases f) auto
  moreover have "json_next_element (inside False f r) =
      Inr (True, inside False False (ahead (length (if f then u else w @ '','' @ u)) r))"
    using advance_item [of r f w u d _ "CHR '']''" False] here assms(2,3) d
    by (simp add: json_next_element_def)
  ultimately show ?thesis by (intro exI conjI) (auto simp: items_left_Cons)
qed

lemma end_array_sits:
  "sits r (CHR '']'' # rest) \<Longrightarrow> json_end_array_in (inside False f r) = Inr (ahead 1 r)"
  using skip_whitespace_sits [of r "[]" "CHR '']'' # rest"] current_sits [of r "CHR '']'' # rest"]
  by (simp add: json_end_array_in_def)

lemma begin_array_sits:
  "sits r (w @ CHR ''['' # rest) \<Longrightarrow> blanks w \<Longrightarrow> length (jr_stack r) < jr_max_depth r \<Longrightarrow>
     json_begin_array_in r = Inr (None, inside False True (ahead (Suc (length w)) r))"
  using skip_whitespace_sits [of r w "CHR ''['' # rest"] current_sits [OF sits_append [of r w "CHR ''['' # rest"]]
  by (simp add: json_begin_array_in_def json_enter_def inside_def ahead_def)

lemma next_key_Nil:
  "sits r (w @ CHR ''}'' # rest) \<Longrightarrow> blanks w \<Longrightarrow>
     json_next_key (inside True f r) = Inr (None, inside True False (ahead (length w) r))"
  by (simp add: json_next_key_def advance_end)

lemma end_object_sits:
  "sits r (CHR ''}'' # rest) \<Longrightarrow> json_end_object_in (inside True f r) = Inr (ahead 1 r)"
  using skip_whitespace_sits [of r "[]" "CHR ''}'' # rest"] current_sits [of r "CHR ''}'' # rest"]
  by (simp add: json_end_object_in_def)

lemma begin_object_sits:
  "sits r (w @ CHR ''{'' # rest) \<Longrightarrow> blanks w \<Longrightarrow> length (jr_stack r) < jr_max_depth r \<Longrightarrow>
     json_begin_object_in r = Inr (None, inside True True (ahead (Suc (length w)) r))"
  using skip_whitespace_sits [of r w "CHR ''{'' # rest"] current_sits [OF sits_append [of r w "CHR ''{'' # rest"]]
  by (simp add: json_begin_object_in_def json_enter_def inside_def ahead_def)


lemma next_key_Cons:
  assumes "sits r (entries_left f w (Entry u k v x t y # entries) @ CHR ''}'' # rest)" "blanks w" "blanks u"
    "list_all char_valid k" "blanks v"
  shows "\<exists>n. json_next_key (inside True f r) = Inr (Some (body_value k), inside True False (ahead n r)) \<and>
    sits (ahead n r) (x @ json_text t @ entries_left False y entries @ CHR ''}'' # rest) \<and>
    length (entries_left f w (Entry u k v x t y # entries)) =
      n + length x + length (json_text t) + length (entries_left False y entries)"
proof -
  let ?s = "x @ json_text t @ entries_left False y entries @ CHR ''}'' # rest"
  define m where "m = length (if f then u else w @ '','' @ u)"
  have here: "sits r ((if f then [] else w @ '','') @ u @ CHR 0x22 # body_text k @ CHR 0x22 # v @ CHR '':'' # ?s)"
    using assms(1) by (simp add: entries_left_Cons quoted_def)
  have adv: "advance (CHR ''}'') (inside True f r) = Inr (True, inside True False (ahead m r))"
    using advance_item [OF here assms(2,3)] by (simp add: m_def)
  have key: "sits (ahead m r) (CHR 0x22 # body_text k @ CHR 0x22 # v @ CHR '':'' # ?s)"
    using sits_append [of r "if f then u else w @ '','' @ u"] here by (cases f) (auto simp: m_def)
  then have parse: "parse_string (inside True False (ahead m r)) =
      Inr (body_value k, inside True False (ahead (m + (2 + length (body_text k))) r))"
    using parse_string_sits [OF assms(4), of "inside True False (ahead m r)"] by (simp add: add.commute)
  have colon: "sits (ahead (m + (2 + length (body_text k))) r) (v @ CHR '':'' # ?s)"
    using sits_append [of "ahead m r" "CHR 0x22 # body_text k @ [CHR 0x22]"] key by (simp add: add.commute)
  have ws: "skip_whitespace (ahead (m + (2 + length (body_text k))) r) = ahead (m + (2 + length (body_text k)) + length v) r"
    using skip_whitespace_sits [OF colon assms(5)] by (simp add: add.commute)
  have at_colon: "sits (ahead (m + (2 + length (body_text k)) + length v) r) (CHR '':'' # ?s)"
    using sits_append [OF colon] by (simp add: add.commute)
  let ?n = "m + (2 + length (body_text k)) + length v + 1"
  have "json_next_key (inside True f r) = Inr (Some (body_value k), inside True False (ahead ?n r))"
    using adv parse ws current_sits [OF key] current_sits [OF at_colon]
    by (simp add: json_next_key_def)
  moreover have "sits (ahead ?n r) ?s" using sits_Cons [OF at_colon] by simp
  ultimately show ?thesis
    by (intro exI [of _ ?n]) (auto simp: entries_left_Cons m_def quoted_def)
qed

text \<open>Peeking at a value.\<close>

lemma json_peek_sits:
  assumes "sits r (w @ json_text t @ rest)" "blanks w" "json_valid t" "may_follow t rest"
  shows "json_peek r = Inr (first_kind t, ahead (length w) r)"
proof -
  let ?r = "ahead (length w) r"
  obtain d ds where d: "json_text t = d # ds" "\<not> is_space d"
    using json_text_hd [OF assms(3)] by (cases "json_text t") auto
  have ws: "skip_whitespace r = ?r" using skip_whitespace_sits [OF assms(1,2)] d by simp
  have here: "sits ?r (json_text t @ rest)" using sits_append [OF assms(1)] .
  then have cur: "current ?r = d" using current_sits [OF here] d by simp
  show ?thesis
  proof (cases t)
    case (JNumber n)
    then have n: "well_formed n" "no_leading_zero n" "number_end rest" "json_text t = number_text n"
      using assms(3,4) by (simp_all add: may_follow_def)
    have "d = CHR ''-'' \<or> is_digit d" using number_text_hd [OF n(1)] d n(4) by simp
    moreover have "scan_number ?r = Inr (number_text n, ahead (length (number_text n)) ?r)"
      using scan_number_sits [OF n(1,2) _ n(3), of ?r] here n(4) by simp
    ultimately show ?thesis using digit_facts [of d] cur ws JNumber number_contains [OF n(1)]
      by (auto simp: json_peek_def Let_def is_integer_token_def)
  qed (use d cur ws in \<open>auto simp: json_peek_def Let_def quoted_def split: if_splits\<close>)
qed

lemma expect_literal_sits: "sits r (s @ rest) \<Longrightarrow> expect_literal s r = Inr (ahead (length s) r)"
  by (simp add: expect_literal_def sits_def)

section \<open>Every text of the grammar is accepted\<close>

lemma skip_whitespace_at: "sits r s \<Longrightarrow> s = [] \<or> \<not> is_space (hd s) \<Longrightarrow> skip_whitespace r = r"
  using skip_whitespace_sits [of r "[]" s] by simp

lemma json_skip_scalar:
  assumes "sits r (w @ json_text t @ rest)" "blanks w" "json_valid t" "may_follow t rest"
    "first_kind t \<noteq> KArray" "first_kind t \<noteq> KObject"
  shows "json_skip_fuel (Suc fuel) r = Inr (ahead (length w + length (json_text t)) r)"
proof -
  let ?r = "ahead (length w) r"
  have peek: "json_peek r = Inr (first_kind t, ?r)" using json_peek_sits [OF assms(1-4)] .
  have here: "sits ?r (json_text t @ rest)" using sits_append [OF assms(1)] .
  have ws: "skip_whitespace ?r = ?r"
    using skip_whitespace_at [OF here] json_text_hd [OF assms(3)] by simp
  show ?thesis
  proof (cases t)
    case JNull
    with expect_literal_sits [of ?r "''null''" rest] here peek ws show ?thesis
      by (simp add: json_read_null_def add.commute)
  next
    case (JBool b)
    with expect_literal_sits [of ?r "json_text t" rest] here peek ws current_sits [OF here] show ?thesis
      by (cases b) (simp_all add: json_read_bool_def Let_def add.commute)
  next
    case (JNumber n)
    with scan_number_sits [of n ?r rest] here peek assms(3,4) show ?thesis
      by (simp add: may_follow_def add.commute)
  next
    case (JString cs)
    with parse_string_sits [of cs ?r rest] here peek assms(3) show ?thesis
      by (simp add: quoted_def add.commute)
  qed (use assms(5,6) in simp_all)
qed

definition deep_enough :: "json_reader \<Rightarrow> nat \<Rightarrow> bool" where
  "deep_enough r d \<longleftrightarrow> d = 0 \<or> length (jr_stack r) + d \<le> jr_max_depth r"

lemma deep_enough_frame [simp]:
  "deep_enough (inside b f r) d \<longleftrightarrow> d = 0 \<or> length (jr_stack r) + Suc d \<le> jr_max_depth r"
  "deep_enough r 0"
  by (auto simp: deep_enough_def)

lemma deep_enough_max [simp]: "deep_enough r (max d e) \<longleftrightarrow> deep_enough r d \<and> deep_enough r e"
  by (auto simp: deep_enough_def max_def)

lemma json_skips:
  "json_valid t \<Longrightarrow> blanks w \<Longrightarrow> sits r (w @ json_text t @ rest) \<Longrightarrow> may_follow t rest \<Longrightarrow>
     deep_enough r (json_depth t) \<Longrightarrow> length (json_text t) \<le> fuel \<Longrightarrow>
     json_skip_fuel fuel r = Inr (ahead (length w + length (json_text t)) r)"
  "items_valid items \<Longrightarrow> blanks w \<Longrightarrow> sits r (items_left f w items @ CHR '']'' # rest) \<Longrightarrow>
     deep_enough (inside False f r) (items_depth items) \<Longrightarrow> length (items_text items) < fuel \<Longrightarrow>
     json_skip_elements fuel (inside False f r) = Inr (inside False False (ahead (length (items_left f w items)) r))"
  "entries_valid entries \<Longrightarrow> blanks w \<Longrightarrow> sits r (entries_left f w entries @ CHR ''}'' # rest) \<Longrightarrow>
     deep_enough (inside True f r) (entries_depth entries) \<Longrightarrow> length (entries_text entries) < fuel \<Longrightarrow>
     json_skip_entries fuel (inside True f r) = Inr (inside True False (ahead (length (entries_left f w entries)) r))"
proof (induction t and items and entries arbitrary: w r rest fuel and f w r rest fuel and f w r rest fuel
    rule: json_valid_items_valid_entries_valid.induct)
  case (5 w' items)
  obtain n where fuel: "fuel = Suc n" using "5.prems"(6) by (cases fuel) auto
  let ?r = "ahead (Suc (length w)) r"
  let ?body = "items_left True w' items"
  have shape: "json_text (JArray w' items) = ''['' @ ?body @ '']''" by (simp add: items_left_def)
  have open_r: "json_begin_array_in (ahead (length w) r) = Inr (None, inside False True ?r)"
    using begin_array_sits [of "ahead (length w) r" "[]"] sits_append [OF "5.prems"(3)] "5.prems"(5) by (simp add: deep_enough_def)
  have here: "sits ?r (?body @ CHR '']'' # rest)"
    using sits_append [of r "w @ ''[''"] "5.prems"(3) shape by simp
  have "json_skip_elements n (inside False True ?r) = Inr (inside False False (ahead (length ?body) ?r))"
    using "5.prems" here fuel by (intro "5.IH") (auto simp: deep_enough_def split: if_splits)
  moreover have "json_end_array_in (inside False False (ahead (length ?body) ?r)) = Inr (ahead 1 (ahead (length ?body) ?r))"
    using end_array_sits sits_append [OF here] by blast
  ultimately show ?case
    using fuel open_r json_peek_sits [OF "5.prems"(3,2,1,4)]
    by (simp add: shape add.commute del: json_text.simps)
next
  case (6 w' entries)
  obtain n where fuel: "fuel = Suc n" using "6.prems"(6) by (cases fuel) auto
  let ?r = "ahead (Suc (length w)) r"
  let ?body = "entries_left True w' entries"
  have shape: "json_text (JObject w' entries) = ''{'' @ ?body @ ''}''" by (simp add: entries_left_def)
  have open_r: "json_begin_object_in (ahead (length w) r) = Inr (None, inside True True ?r)"
    using begin_object_sits [of "ahead (length w) r" "[]"] sits_append [OF "6.prems"(3)] "6.prems"(5) by (simp add: deep_enough_def)
  have here: "sits ?r (?body @ CHR ''}'' # rest)"
    using sits_append [of r "w @ ''{''"] "6.prems"(3) shape by simp
  have "json_skip_entries n (inside True True ?r) = Inr (inside True False (ahead (length ?body) ?r))"
    using "6.prems" here fuel by (intro "6.IH") (auto simp: deep_enough_def split: if_splits)
  moreover have "json_end_object_in (inside True False (ahead (length ?body) ?r)) = Inr (ahead 1 (ahead (length ?body) ?r))"
    using end_object_sits sits_append [OF here] by blast
  ultimately show ?case
    using fuel open_r json_peek_sits [OF "6.prems"(3,2,1,4)]
    by (simp add: shape add.commute del: json_text.simps)
next
  case (8 u t v items)
  obtain n where fuel: "fuel = Suc n" using "8.prems"(5) by (cases fuel) auto
  have valid: "blanks u" "json_valid t" "blanks v" "items_valid items" using "8.prems"(1) by simp_all
  obtain k where k: "json_next_element (inside False f r) = Inr (True, inside False False (ahead k r))"
    "sits (ahead k r) (json_text t @ items_left False v items @ CHR '']'' # rest)"
    "length (items_left f w (Item u t v # items)) = k + length (json_text t) + length (items_left False v items)"
    using next_element_Cons [OF "8.prems"(3,2) valid(1,2)] by blast
  let ?q = "ahead (length (json_text t)) (ahead k r)"
  obtain l where len: "length (json_text t) = Suc l"
    using json_text_hd [OF valid(2)] by (cases "json_text t") auto
  have deep: "deep_enough (inside False False (ahead k r)) (json_depth t)" "deep_enough (inside False False ?q) (items_depth items)"
    using "8.prems"(4) by (auto simp: deep_enough_def)
  have "json_skip_fuel n (inside False False (ahead k r)) = Inr (inside False False ?q)"
    using deep "8.IH"(1) [of "[]" "inside False False (ahead k r)" "items_left False v items @ CHR '']'' # rest" n]
      k(2) valid may_follow_items [OF valid(3)] "8.prems"(5) fuel by (simp add: items_text_Cons)
  moreover have "json_skip_elements n (inside False False ?q) = Inr (inside False False (ahead (length (items_left False v items)) ?q))"
  proof (rule "8.IH"(2) [OF valid(4,3)])
    show "sits ?q (items_left False v items @ CHR '']'' # rest)" using sits_append [OF k(2)] .
    show "length (items_text items) < n" using "8.prems"(5) fuel len by (cases items) auto
  qed (use deep in simp)
  ultimately show ?case using k(1,3) fuel by (simp add: add.commute add.left_commute)
next
  case (10 u k v x t y entries)
  obtain n where fuel: "fuel = Suc n" using "10.prems"(5) by (cases fuel) auto
  have valid: "blanks u" "list_all char_valid k" "blanks v" "blanks x" "json_valid t" "blanks y" "entries_valid entries"
    using "10.prems"(1) by simp_all
  obtain m where m: "json_next_key (inside True f r) = Inr (Some (body_value k), inside True False (ahead m r))"
    "sits (ahead m r) (x @ json_text t @ entries_left False y entries @ CHR ''}'' # rest)"
    "length (entries_left f w (Entry u k v x t y # entries)) =
       m + length x + length (json_text t) + length (entries_left False y entries)"
    using next_key_Cons [OF "10.prems"(3,2) valid(1-3)] by blast
  let ?q = "ahead (length (x @ json_text t)) (ahead m r)"
  obtain l where len: "length (json_text t) = Suc l"
    using json_text_hd [OF valid(5)] by (cases "json_text t") auto
  have deep: "deep_enough (inside True False (ahead m r)) (json_depth t)" "deep_enough (inside True False ?q) (entries_depth entries)"
    using "10.prems"(4) by (auto simp: deep_enough_def)
  have "json_skip_fuel n (inside True False (ahead m r)) = Inr (inside True False ?q)"
    using deep "10.IH"(1) [of x "inside True False (ahead m r)" "entries_left False y entries @ CHR ''}'' # rest" n]
      m(2) valid may_follow_entries [OF valid(6)] "10.prems"(5) fuel by (simp add: entries_text_Cons)
  moreover have "json_skip_entries n (inside True False ?q) = Inr (inside True False (ahead (length (entries_left False y entries)) ?q))"
  proof (rule "10.IH"(2) [OF valid(7,6)])
    show "sits ?q (entries_left False y entries @ CHR ''}'' # rest)" using sits_append [of "ahead m r" "x @ json_text t"] m(2) by simp
    show "length (entries_text entries) < n" using "10.prems"(5) fuel len by (cases entries) auto
  qed (use deep in simp)
  ultimately show ?case using m(1,3) fuel by (simp add: add.commute add.left_commute)
next
  case (7 f w r rest fuel)
  obtain n where fuel: "fuel = Suc n" using "7.prems"(5) by (cases fuel) auto
  with next_element_Nil [of r w rest f] "7.prems"(2,3) show ?case by simp
next
  case (9 f w r rest fuel)
  obtain n where fuel: "fuel = Suc n" using "9.prems"(5) by (cases fuel) auto
  with next_key_Nil [of r w rest f] "9.prems"(2,3) show ?case by simp
next
  case (1 w r rest fuel)
  then show ?case using json_skip_scalar [of r w JNull rest] by (cases fuel) auto
next
  case (2 b w r rest fuel)
  then show ?case using json_skip_scalar [of r w "JBool b" rest] by (cases fuel) (auto split: if_splits)
next
  case (3 n w r rest fuel)
  have "0 < length (json_text (JNumber n))" using json_text_hd [OF 3(1)] by blast
  with 3 show ?case using json_skip_scalar [of r w "JNumber n" rest]
    by (cases fuel) (auto simp del: json_skip_fuel.simps split: if_splits)
next
  case (4 cs w r rest fuel)
  then show ?case using json_skip_scalar [of r w "JString cs" rest] by (cases fuel) (auto simp: quoted_def)
qed

section \<open>Only texts of the grammar are accepted\<close>

lemma took_left: "took r s r' \<Longrightarrow> left r = s @ left r'"
  by (simp add: took_def)

lemma took_insideD: "took (inside b f r) s q \<Longrightarrow> \<exists>q'. q = inside b f q' \<and> took r s q'"
  by (intro exI [of _ "ahead (length s) r"]) (simp add: took_def)

lemma expect_literal_sound: "expect_literal s r = Inr r' \<Longrightarrow> took r s r'"
proof -
  assume "expect_literal s r = Inr r'"
  then have "take (length s) (left r) = s" "r' = ahead (length s) r"
    by (auto simp: expect_literal_def left_def split: if_splits)
  then show ?thesis using append_take_drop_id [of "length s" "left r"]
    by (simp add: took_def left_def add.commute)
qed

lemma json_peek_sound:
  "json_peek r = Inr (k, r1) \<Longrightarrow> r1 = skip_whitespace r \<and>
     (case k of KNull \<Rightarrow> current r1 = CHR ''n'' | KBoolean \<Rightarrow> current r1 = CHR ''t'' \<or> current r1 = CHR ''f''
      | KString \<Rightarrow> current r1 = CHR 0x22 | KBytes \<Rightarrow> False | KArray \<Rightarrow> current r1 = CHR ''[''
      | KObject \<Rightarrow> current r1 = CHR ''{'' | _ \<Rightarrow> True)"
  by (auto simp: json_peek_def Let_def split: if_splits)

lemma advance_False_sound:
  "advance c (inside b f r) = Inr (False, q) \<Longrightarrow>
     \<exists>w r2. q = inside b False r2 \<and> blanks w \<and> took r w r2 \<and> current r2 = c"
  using skip_whitespace_took [of r]
  by (cases f) (auto simp: advance_first advance_next Let_def split: if_splits)

lemma advance_True_sound:
  assumes "advance c (inside b f r) = Inr (True, q)"
  shows "\<exists>w u r2. q = inside b False r2 \<and> blanks w \<and> blanks u \<and> took r ((if f then [] else w @ '','') @ u) r2"
proof -
  let ?s = "skip_whitespace r" let ?t = "skip_whitespace (ahead 1 ?s)"
  obtain w where w: "blanks w" "took r w ?s" using skip_whitespace_took [of r] by blast
  obtain u where u: "blanks u" "took (ahead 1 ?s) u ?t" using skip_whitespace_took [of "ahead 1 ?s"] by blast
  show ?thesis
  proof (cases f)
    case True
    with assms w show ?thesis by (auto simp: advance_first)
  next
    case False
    with assms have q: "q = inside b False ?t" "current ?s = CHR '',''"
      by (auto simp: advance_next Let_def split: if_splits)
    then have "took ?s '','' (ahead 1 ?s)" using current_took_eq [of ?s "CHR '',''"] by simp
    from took_trans [OF w(2) took_trans [OF this u(2)]] q w(1) u(1) False show ?thesis by auto
  qed
qed

lemma next_key_sound:
  assumes "json_next_key (inside True f r) = Inr (Some key, q)"
  shows "\<exists>w u k v r2. q = inside True False r2 \<and> blanks w \<and> blanks u \<and> list_all char_valid k \<and> blanks v \<and>
    key = body_value k \<and> took r ((if f then [] else w @ '','') @ u @ quoted k @ v @ '':'') r2"
proof -
  obtain q1 q2 where q: "advance (CHR ''}'') (inside True f r) = Inr (True, q1)" "current q1 = CHR 0x22"
    "parse_string q1 = Inr (key, q2)" "current (skip_whitespace q2) = CHR '':''"
    "q = ahead 1 (skip_whitespace q2)"
    using assms by (auto simp: json_next_key_def Let_def split: if_splits)
  obtain w u r1 where u: "q1 = inside True False r1" "blanks w" "blanks u" "took r ((if f then [] else w @ '','') @ u) r1"
    using advance_True_sound [OF q(1)] by blast
  obtain k where k: "list_all char_valid k" "key = body_value k" "took q1 (quoted k) q2"
    using parse_string_sound [OF q(2,3)] by (auto simp: quoted_def)
  then obtain r2 where r2: "q2 = inside True False r2" "took r1 (quoted k) r2"
    using took_insideD u(1) by blast
  obtain v where v: "blanks v" "took r2 v (skip_whitespace r2)"
    using skip_whitespace_took [of r2] by blast
  have "took (skip_whitespace r2) '':'' (ahead 1 (skip_whitespace r2))"
    using current_took_eq [of "skip_whitespace r2" "CHR '':''"] q(4) r2(1) by simp
  from took_trans [OF u(4) took_trans [OF r2(2) took_trans [OF v(2) this]]] q(5) r2(1) u(2,3) k(1,2) v(1)
  show ?thesis by (intro exI [of _ w] exI [of _ u] exI [of _ k] exI [of _ v]) auto
qed

lemma next_key_None_sound:
  "json_next_key (inside True f r) = Inr (None, q) \<Longrightarrow>
     \<exists>w r2. q = inside True False r2 \<and> blanks w \<and> took r w r2 \<and> current r2 = CHR ''}''"
  by (rule advance_False_sound) (auto simp: json_next_key_def Let_def split: if_splits)

lemma skip_scalar_sound:
  assumes "json_skip_fuel (Suc n) r = Inr r'" "json_peek r = Inr (k, r1)" "k \<noteq> KArray" "k \<noteq> KObject"
  shows "\<exists>w t. blanks w \<and> json_valid t \<and> took r (w @ json_text t) r' \<and> json_depth t = 0"
proof -
  obtain w where w: "blanks w" "took r w r1"
    using skip_whitespace_took [of r] json_peek_sound [OF assms(2)] by blast
  have ws [simp]: "skip_whitespace r1 = r1" using json_peek_sound [OF assms(2)] by simp
  have "\<exists>t. json_valid t \<and> took r1 (json_text t) r' \<and> json_depth t = 0"
  proof (cases k)
    case KNull
    with assms(1,2) show ?thesis
      by (intro exI [of _ JNull]) (simp add: json_read_null_def expect_literal_sound)
  next
    case KBoolean
    with assms(1,2) obtain b where "expect_literal (if b then ''true'' else ''false'') r1 = Inr r'"
      by (auto simp: json_read_bool_def Let_def split: if_splits intro: that [of True] that [of False])
    then show ?thesis by (intro exI [of _ "JBool b"]) (simp add: expect_literal_sound)
  next
    case KString
    then obtain s where "parse_string r1 = Inr (s, r')" "current r1 = CHR 0x22"
      using assms(1,2) json_peek_sound [OF assms(2)] by auto
    from parse_string_sound [OF this(2,1)] obtain cs where "list_all char_valid cs" "took r1 (quoted cs) r'"
      by (auto simp: quoted_def)
    then show ?thesis by (intro exI [of _ "JString cs"]) simp
  next
    case KBytes
    then show ?thesis using json_peek_sound [OF assms(2)] by simp
  next
    case KInteger
    then obtain token where "scan_number r1 = Inr (token, r')" using assms(1,2) by auto
    from scan_number_sound [OF this] show ?thesis by (auto intro: exI [of _ "JNumber n" for n])
  next
    case KFloating
    then obtain token where "scan_number r1 = Inr (token, r')" using assms(1,2) by auto
    from scan_number_sound [OF this] show ?thesis by (auto intro: exI [of _ "JNumber n" for n])
  qed (use assms(3,4) in simp_all)
  with w show ?thesis by (blast intro: took_trans)
qed

lemma took_stack: "took r s r' \<Longrightarrow> jr_stack r' = jr_stack r \<and> jr_max_depth r' = jr_max_depth r"
  by (simp add: took_def)

lemma begin_array_sound:
  "json_begin_array_in r = Inr (h, q) \<Longrightarrow> skip_whitespace r = r \<Longrightarrow>
     q = inside False True (ahead 1 r) \<and> length (jr_stack r) < jr_max_depth r"
  by (auto simp: json_begin_array_in_def json_enter_def Let_def inside_def ahead_def split: if_splits)

lemma begin_object_sound:
  "json_begin_object_in r = Inr (h, q) \<Longrightarrow> skip_whitespace r = r \<Longrightarrow>
     q = inside True True (ahead 1 r) \<and> length (jr_stack r) < jr_max_depth r"
  by (auto simp: json_begin_object_in_def json_enter_def Let_def inside_def ahead_def split: if_splits)

lemma took_deep: "took r s r' \<Longrightarrow> deep_enough r' d \<longleftrightarrow> deep_enough r d"
  by (simp add: took_def deep_enough_def)

lemma json_skip_sound:
  "json_skip_fuel n r = Inr r' \<Longrightarrow>
     \<exists>w t. blanks w \<and> json_valid t \<and> took r (w @ json_text t) r' \<and> deep_enough r (json_depth t)"
  "json_skip_elements n (inside False f r) = Inr q \<Longrightarrow>
     \<exists>w items r2. q = inside False False r2 \<and> blanks w \<and> items_valid items \<and> took r (items_left f w items) r2 \<and>
       current r2 = CHR '']'' \<and> deep_enough (inside False f r) (items_depth items)"
  "json_skip_entries n (inside True f r) = Inr q \<Longrightarrow>
     \<exists>w entries r2. q = inside True False r2 \<and> blanks w \<and> entries_valid entries \<and> took r (entries_left f w entries) r2 \<and>
       current r2 = CHR ''}'' \<and> deep_enough (inside True f r) (entries_depth entries)"
proof (induction n arbitrary: f r r' q)
  case 0
  { case 1 then show ?case by simp next case 2 then show ?case by simp next case 3 then show ?case by simp }
next
  case (Suc n)
  { case 1
    then obtain k r1 where peek: "json_peek r = Inr (k, r1)" by auto
    have ws: "skip_whitespace r1 = r1" using json_peek_sound [OF peek] by simp
    obtain w where w: "blanks w" "took r w r1" using skip_whitespace_took [of r] json_peek_sound [OF peek] by blast
    note frame = took_stack [OF w(2)]
    consider (array) "k = KArray" | (object) "k = KObject" | (scalar) "k \<noteq> KArray" "k \<noteq> KObject" by blast
    then show ?case
    proof cases
      case array
      with 1 peek obtain h q q' where q: "json_begin_array_in r1 = Inr (h, q)" "json_skip_elements n q = Inr q'"
        "json_end_array_in q' = Inr r'" by auto
      note here = begin_array_sound [OF q(1) ws]
      have "current r1 = CHR ''[''" using json_peek_sound [OF peek] array by auto
      then have bracket: "took r1 ''['' (ahead 1 r1)" by (rule current_took_eq) simp
      obtain w' items r2 where items: "q' = inside False False r2" "blanks w'" "items_valid items"
        "took (ahead 1 r1) (items_left True w' items) r2" "current r2 = CHR '']''"
        "deep_enough (inside False True r1) (items_depth items)"
        using Suc.IH(2) [OF q(2) [unfolded conjunct1 [OF here]]] by auto
      have "r' = ahead 1 r2" using q(3) items(1,5) by (auto simp: json_end_array_in_def skip_whitespace_stay)
      then have "took r2 '']'' r'" using current_took_eq [OF items(5)] by simp
      from took_trans [OF w(2) took_trans [OF bracket took_trans [OF items(4) this]]] items w(1) here frame show ?thesis
        by (intro exI [of _ w] exI [of _ "JArray w' items"]) (auto simp: items_left_def deep_enough_def split: if_splits)
    next
      case object
      with 1 peek obtain h q q' where q: "json_begin_object_in r1 = Inr (h, q)" "json_skip_entries n q = Inr q'"
        "json_end_object_in q' = Inr r'" by auto
      note here = begin_object_sound [OF q(1) ws]
      have "current r1 = CHR ''{''" using json_peek_sound [OF peek] object by auto
      then have bracket: "took r1 ''{'' (ahead 1 r1)" by (rule current_took_eq) simp
      obtain w' entries r2 where entries: "q' = inside True False r2" "blanks w'" "entries_valid entries"
        "took (ahead 1 r1) (entries_left True w' entries) r2" "current r2 = CHR ''}''"
        "deep_enough (inside True True r1) (entries_depth entries)"
        using Suc.IH(3) [OF q(2) [unfolded conjunct1 [OF here]]] by auto
      have "r' = ahead 1 r2" using q(3) entries(1,5) by (auto simp: json_end_object_in_def skip_whitespace_stay)
      then have "took r2 ''}'' r'" using current_took_eq [OF entries(5)] by simp
      from took_trans [OF w(2) took_trans [OF bracket took_trans [OF entries(4) this]]] entries w(1) here frame show ?thesis
        by (intro exI [of _ w] exI [of _ "JObject w' entries"]) (auto simp: entries_left_def deep_enough_def split: if_splits)
    next
      case scalar
      from skip_scalar_sound [OF 1(1) peek scalar] obtain w t where
        "blanks w" "json_valid t" "took r (w @ json_text t) r'" "json_depth t = 0" by blast
      then show ?thesis by (intro exI [of _ w] exI [of _ t]) simp
    qed
  next
    case 2
    then obtain b q1 where q1: "json_next_element (inside False f r) = Inr (b, q1)"
      "if b then and_then (json_skip_fuel n q1) (json_skip_elements n) = Inr q else q = q1" by (auto split: if_splits)
    then have adv: "advance (CHR '']'') (inside False f r) = Inr (b, q1)" by (simp add: json_next_element_def)
    show ?case
    proof (cases b)
      case False
      then obtain w r2 where w: "q1 = inside False False r2" "blanks w" "took r w r2" "current r2 = CHR '']''"
        using advance_False_sound [of "CHR '']''" False f r q1] adv by auto
      with q1(2) False show ?thesis by (intro exI [of _ w] exI [of _ "[]"]) simp
    next
      case True
      then obtain w u r1 where w: "q1 = inside False False r1" "blanks w" "blanks u"
        "took r ((if f then [] else w @ '','') @ u) r1"
        using advance_True_sound [of "CHR '']''" False f r q1] adv by auto
      obtain q2 where q2: "json_skip_fuel n (inside False False r1) = Inr q2" "json_skip_elements n q2 = Inr q"
        using q1(2) True w(1) by auto
      note frame = took_stack [OF w(4)]
      obtain u' t where t: "blanks u'" "json_valid t" "took (inside False False r1) (u' @ json_text t) q2"
        "deep_enough (inside False f r1) (json_depth t)"
        using Suc.IH(1) [OF q2(1)] by auto
      obtain r2 where r2: "q2 = inside False False r2" "took r1 (u' @ json_text t) r2"
        using took_insideD [OF t(3)] by auto
      obtain v items r3 where items: "q = inside False False r3" "blanks v" "items_valid items"
        "took r2 (items_left False v items) r3" "current r3 = CHR '']''"
        "deep_enough (inside False f r2) (items_depth items)"
        using Suc.IH(2) [OF q2(2) [unfolded r2(1)]] by auto
      from took_trans [OF w(4) took_trans [OF r2(2) items(4)]] w(2,3) t(1,2,4) items frame took_stack [OF r2(2)] show ?thesis
        by (intro exI [of _ w] exI [of _ "Item (u @ u') t v # items"] exI [of _ r3]) (simp add: items_left_Cons)
    qed
  next
    case 3
    then obtain b q1 where q1: "json_next_key (inside True f r) = Inr (b, q1)"
      "if b \<noteq> None then and_then (json_skip_fuel n q1) (json_skip_entries n) = Inr q else q = q1" by (auto split: if_splits)
    show ?case
    proof (cases b)
      case None
      then obtain w r2 where w: "q1 = inside True False r2" "blanks w" "took r w r2" "current r2 = CHR ''}''"
        using next_key_None_sound [of f r q1] q1(1) by auto
      with q1(2) None show ?thesis by (intro exI [of _ w] exI [of _ "[]"]) simp
    next
      case (Some key)
      then obtain w u k v r1 where w: "q1 = inside True False r1" "blanks w" "blanks u" "list_all char_valid k" "blanks v"
        "took r ((if f then [] else w @ '','') @ u @ quoted k @ v @ '':'') r1"
        using next_key_sound [of f r key q1] q1(1) by auto
      obtain q2 where q2: "json_skip_fuel n (inside True False r1) = Inr q2" "json_skip_entries n q2 = Inr q"
        using q1(2) Some w(1) by auto
      note frame = took_stack [OF w(6)]
      obtain x t where t: "blanks x" "json_valid t" "took (inside True False r1) (x @ json_text t) q2"
        "deep_enough (inside True f r1) (json_depth t)"
        using Suc.IH(1) [OF q2(1)] by auto
      obtain r2 where r2: "q2 = inside True False r2" "took r1 (x @ json_text t) r2"
        using took_insideD [OF t(3)] by auto
      obtain y entries r3 where entries: "q = inside True False r3" "blanks y" "entries_valid entries"
        "took r2 (entries_left False y entries) r3" "current r3 = CHR ''}''"
        "deep_enough (inside True f r2) (entries_depth entries)"
        using Suc.IH(3) [OF q2(2) [unfolded r2(1)]] by auto
      from took_trans [OF w(6) took_trans [OF r2(2) entries(4)]] w(2-5) t(1,2,4) entries frame took_stack [OF r2(2)] show ?thesis
        by (intro exI [of _ w] exI [of _ "Entry u k v x t y # entries"] exI [of _ r3]) (simp add: entries_left_Cons)
    qed
  }
qed

section \<open>The fuel of a skip is enough\<close>

lemma spoken_json_fail [simp]: "spoken (json_fail r msg)" "spoken (json_fail_at r offset msg)"
  by (simp_all add: spoken_def json_fail_def json_fail_at_def split: prod.split)

lemma spoken_scan_parts [simp]:
  "spoken (scan_whole p r)" "spoken (scan_fraction p r)" "spoken (scan_exponent p r)"
  by (simp_all add: scan_whole_def scan_fraction_def scan_exponent_def Let_def)

lemma spoken_scan [simp]: "spoken (scan_number r)"
  unfolding scan_number_def Let_def by (intro spoken_and_then) simp_all

lemma spoken_read_hex [simp]: "spoken (read_hex n v r)"
  by (induction n arbitrary: v r) (auto split: option.splits)

lemma spoken_escape [simp]: "spoken (append_escape result r)"
  by (auto simp: append_escape_def unicode_escape_def read_hex4_def append_utf8_eq Let_def spoken_def [of "Inl _"]
      intro!: spoken_and_then split: prod.splits)

lemma spoken_string_from: "spoken (parse_string_from start result r)"
  by (induction start result r rule: parse_string_from.induct)
    (subst parse_string_from.simps, auto simp: Let_def intro!: spoken_and_then split: sum.splits)

lemma spoken_string [simp]: "spoken (parse_string r)"
  by (simp add: parse_string_def spoken_string_from)

lemma spoken_literal [simp]: "spoken (expect_literal s r)"
  by (simp add: expect_literal_def)

lemma spoken_advance [simp]: "spoken (advance c r)"
  by (simp add: advance_def Let_def)

lemma spoken_json_leaves [simp]:
  "spoken (json_peek r)" "spoken (json_read_null r)" "spoken (json_read_bool r)"
  by (auto simp: json_peek_def json_read_null_def json_read_bool_def Let_def intro!: spoken_and_then)

lemma spoken_json_containers [simp]:
  "spoken (json_begin_array_in r)" "spoken (json_next_element r)" "spoken (json_end_array_in r)"
  "spoken (json_begin_object_in r)" "spoken (json_next_key r)" "spoken (json_end_object_in r)"
  by (auto simp: json_begin_array_in_def json_next_element_def json_end_array_in_def json_begin_object_in_def
      json_next_key_def json_end_object_in_def json_enter_def Let_def intro!: spoken_and_then split: prod.splits)

definition room :: "json_reader \<Rightarrow> nat" where
  "room r = length (left r)"

lemma took_room: "took r s r' \<Longrightarrow> room r = length s + room r'"
  by (simp add: room_def took_def)

lemma room_inside [simp]: "room (inside b f r) = room r"
  by (simp add: room_def)

lemma skip_fuel_room: "json_skip_fuel n r = Inr r' \<Longrightarrow> room r' < room r"
proof -
  assume "json_skip_fuel n r = Inr r'"
  then obtain w t where t: "json_valid t" "took r (w @ json_text t) r'" using json_skip_sound(1) by blast
  then show ?thesis using took_room [OF t(2)] json_text_hd [OF t(1)] by (cases "json_text t") auto
qed

lemma current_room: "current r = c \<Longrightarrow> c \<noteq> CHR 0x00 \<Longrightarrow> room (ahead 1 r) < room r"
  using took_room current_took_eq by fastforce

lemma json_skip_spoken:
  "2 * room r < fuel \<Longrightarrow> spoken (json_skip_fuel fuel r)"
  "2 * room r + 1 < fuel \<Longrightarrow> spoken (json_skip_elements fuel (inside False f r))"
  "2 * room r + 1 < fuel \<Longrightarrow> spoken (json_skip_entries fuel (inside True f r))"
proof (induction fuel arbitrary: f r)
  case (Suc n)
  { case 1
    have branch: "spoken (json_skip_fuel (Suc n) r)" if peek: "json_peek r = Inr (k, r1)" for k r1
    proof -
      note facts = json_peek_sound [OF peek]
      have ws: "skip_whitespace r1 = r1" using facts by simp
      have "room r1 \<le> room r" using facts skip_whitespace_took [of r] took_room [of r _ r1] by auto
      then have less: "2 * room (ahead 1 r1) + 1 < n" if "k = KArray \<or> k = KObject"
        using facts that 1 current_room [of r1] by auto
      have "spoken (json_skip_elements n q)" if "json_begin_array_in r1 = Inr (h, q)" "k = KArray" for h q
        using begin_array_sound [OF that(1) ws] Suc.IH(2) [OF less] that(2) by blast
      moreover have "spoken (json_skip_entries n q)" if "json_begin_object_in r1 = Inr (h, q)" "k = KObject" for h q
        using begin_object_sound [OF that(1) ws] Suc.IH(3) [OF less] that(2) by blast
      ultimately show ?thesis using peek facts
        by (cases k) (auto intro!: spoken_and_then split: prod.splits)
    qed
    then show ?case using spoken_json_leaves(1) [of r] by (cases "json_peek r") (auto simp: spoken_def)
  next
    case 2
    have "spoken (and_then (json_skip_fuel n q) (json_skip_elements n))"
      if next_step: "json_next_element (inside False f r) = Inr (True, q)" for q
    proof -
      obtain w u r1 where w: "q = inside False False r1" "took r ((if f then [] else w @ '','') @ u) r1"
        using next_step advance_True_sound [of "CHR '']''" False f r q] by (auto simp: json_next_element_def)
      have less: "2 * room (inside False False r1) < n" using took_room [OF w(2)] 2 by simp
      show ?thesis unfolding w(1)
      proof (intro spoken_and_then Suc.IH(1) [OF less])
        fix q2 assume q2: "json_skip_fuel n (inside False False r1) = Inr q2"
        then obtain s r2 where "q2 = inside False False r2" "took r1 s r2"
          using json_skip_sound(1) took_insideD by blast
        moreover have "room q2 < room r1" using skip_fuel_room [OF q2] by simp
        ultimately show "spoken (json_skip_elements n q2)" using Suc.IH(2) [of r2 False] less by simp
      qed
    qed
    then show ?case by (auto intro!: spoken_and_then split: prod.splits)
  next
    case 3
    have "spoken (and_then (json_skip_fuel n q) (json_skip_entries n))"
      if next_step: "json_next_key (inside True f r) = Inr (Some key, q)" for key q
    proof -
      obtain s r1 where w: "q = inside True False r1" "took r s r1"
        using next_key_sound [OF next_step] by blast
      have less: "2 * room (inside True False r1) < n" using took_room [OF w(2)] 3 by simp
      show ?thesis unfolding w(1)
      proof (intro spoken_and_then Suc.IH(1) [OF less])
        fix q2 assume q2: "json_skip_fuel n (inside True False r1) = Inr q2"
        then obtain s r2 where "q2 = inside True False r2" "took r1 s r2"
          using json_skip_sound(1) took_insideD by blast
        moreover have "room q2 < room r1" using skip_fuel_room [OF q2] by simp
        ultimately show "spoken (json_skip_entries n q2)" using Suc.IH(3) [of r2 False] less by simp
      qed
    qed
    then show ?case unfolding json_skip_entries.simps
      by (intro spoken_and_then [of "json_next_key (inside True f r)"]) (auto split: prod.splits)
  }
qed simp_all

lemma json_skip_fuel_step:
  "spoken (json_skip_fuel fuel r) \<Longrightarrow> json_skip_fuel (Suc fuel) r = json_skip_fuel fuel r"
  "spoken (json_skip_elements fuel r) \<Longrightarrow> json_skip_elements (Suc fuel) r = json_skip_elements fuel r"
  "spoken (json_skip_entries fuel r) \<Longrightarrow> json_skip_entries (Suc fuel) r = json_skip_entries fuel r"
proof (induction fuel r and fuel r and fuel r rule: json_skip_fuel_json_skip_elements_json_skip_entries.induct)
  case (2 fuel r)
  from 2(3) show ?case
    unfolding json_skip_fuel.simps(2) [of "Suc fuel" r] json_skip_fuel.simps(2) [of fuel r]
    by (elim and_then_fuel) (auto split: value_kind.splits prod.splits elim!: and_then_fuel intro: 2(1,2)
      simp del: json_skip_fuel.simps json_skip_elements.simps json_skip_entries.simps)
next
  case (4 fuel r)
  from 4(3) show ?case
    unfolding json_skip_elements.simps(2) [of "Suc fuel" r] json_skip_elements.simps(2) [of fuel r]
    by (elim and_then_fuel) (auto split: prod.splits if_splits elim!: and_then_fuel intro: 4(1,2)
      simp del: json_skip_fuel.simps json_skip_elements.simps json_skip_entries.simps)
next
  case (6 fuel r)
  from 6(3) show ?case
    unfolding json_skip_entries.simps(2) [of "Suc fuel" r] json_skip_entries.simps(2) [of fuel r]
    by (elim and_then_fuel) (auto split: prod.splits if_splits elim!: and_then_fuel intro: 6(1,2)
      simp del: json_skip_fuel.simps json_skip_elements.simps json_skip_entries.simps)
qed (simp_all add: spoken_def)

lemma json_skip_fuel_more: "spoken (json_skip_fuel fuel r) \<Longrightarrow> json_skip_fuel (fuel + k) r = json_skip_fuel fuel r"
proof (induction k)
  case (Suc k)
  then show ?case using json_skip_fuel_step(1) [of "fuel + k" r] by simp
qed simp

text \<open>C10: Skipping a JSON value terminates on every input and in every state of the reader: the fuel that
  \<open>json_skip_value\<close> takes from the number of characters left is never used up, more of it changes
  nothing, and on success the reader has consumed the text of exactly one valid value behind some white
  space, with its stack of frames as it was.\<close>

theorem json_skip_terminates:
  "json_skip_fuel (2 * (length (jr_input r) - jr_position r) + 1 + k) r = json_skip_value r \<and>
   (case json_skip_value r of
      Inl e \<Rightarrow> e \<noteq> []
    | Inr r' \<Rightarrow> \<exists>w t. blanks w \<and> json_valid t \<and> r' = r\<lparr>jr_position := jr_position r'\<rparr> \<and>
        drop (jr_position r) (jr_input r) = w @ json_text t @ drop (jr_position r') (jr_input r))"
proof -
  have "spoken (json_skip_fuel (2 * (length (jr_input r) - jr_position r) + 1) r)"
    by (rule json_skip_spoken(1)) (simp add: room_def left_def)
  moreover have "\<exists>w t. blanks w \<and> json_valid t \<and> r' = r\<lparr>jr_position := jr_position r'\<rparr> \<and>
        drop (jr_position r) (jr_input r) = w @ json_text t @ drop (jr_position r') (jr_input r)"
    if ok: "json_skip_value r = Inr r'" for r'
  proof -
    obtain w t where t: "blanks w" "json_valid t" "took r (w @ json_text t) r'"
      using json_skip_sound(1) [OF ok [unfolded json_skip_value_def]] by blast
    have "r' = ahead (length (w @ json_text t)) r" using t(3) by (simp add: took_def)
    then have "r' = r\<lparr>jr_position := jr_position r'\<rparr>" "jr_input r' = jr_input r" by (simp_all add: ahead_def)
    then show ?thesis using t(1,2) took_left [OF t(3)] unfolding left_def
      by (intro exI [of _ w] exI [of _ t]) simp
  qed
  ultimately show ?thesis
    using json_skip_fuel_more [of "2 * (length (jr_input r) - jr_position r) + 1" r k]
    by (auto simp: json_skip_value_def spoken_def simp del: json_skip_fuel.simps split: sum.splits)
qed

section \<open>Documents\<close>

definition accepts :: "nat \<Rightarrow> string \<Rightarrow> bool" where
  "accepts limit s \<longleftrightarrow> (\<exists>r. and_then (json_skip_value (json_reader s limit)) json_finish = Inr r)"

lemma accepts_iff:
  "accepts limit s = (\<exists>w t v. blanks w \<and> json_valid t \<and> blanks v \<and> json_depth t \<le> limit \<and> s = w @ json_text t @ v)"
  (is "_ = ?text")
proof
  let ?r = "json_reader s limit"
  assume "accepts limit s"
  then obtain r1 r2 where r: "json_skip_value ?r = Inr r1" "json_finish r1 = Inr r2"
    by (auto simp: accepts_def)
  obtain w t where t: "blanks w" "json_valid t" "took ?r (w @ json_text t) r1" "json_depth t \<le> limit"
    using json_skip_sound(1) [OF r(1) [unfolded json_skip_value_def]] by (auto simp: json_reader_def deep_enough_def)
  obtain v where v: "blanks v" "took r1 v (skip_whitespace r1)" using skip_whitespace_took by blast
  have "left (skip_whitespace r1) = []"
    using r(2) by (auto simp: json_finish_def Let_def left_def split: if_splits)
  then have "left ?r = w @ json_text t @ v"
    using took_left [OF took_trans [OF t(3) v(2)]] by simp
  then have "s = w @ json_text t @ v" by (simp add: left_def json_reader_def)
  with t v show ?text by blast
next
  let ?r = "json_reader s limit"
  assume ?text
  then obtain w t v where t: "blanks w" "json_valid t" "blanks v" "json_depth t \<le> limit" "s = w @ json_text t @ v"
    by blast
  have here: "sits ?r (w @ json_text t @ v)" using t(5) by (simp add: sits_def json_reader_def)
  have "json_skip_value ?r = Inr (ahead (length w + length (json_text t)) ?r)"
    unfolding json_skip_value_def
    using t(4,5) may_follow_tail [OF t(3), of "[]" t]
    by (intro json_skips(1) [OF t(2,1) here]) (simp_all add: json_reader_def deep_enough_def)
  moreover have "sits (ahead (length w + length (json_text t)) ?r) (v @ [])"
    using sits_append [of ?r "w @ json_text t" v] here by simp
  then have "skip_whitespace (ahead (length w + length (json_text t)) ?r) = ahead (length s) ?r"
    using skip_whitespace_sits [of _ v "[]"] t(3,5) by (simp add: add.commute add.left_commute)
  ultimately show "accepts limit s"
    by (simp add: accepts_def json_finish_def json_reader_def)
qed

text \<open>C7: Conformance to RFC 8259. Skipping the root value and finishing accepts a document exactly
  when it is the text of a valid JSON syntax tree (numbers without superfluous leading zeros, strings of
  unescaped scalar values and of escapes with paired surrogates, no trailing comma) between white space,
  nested no deeper than the limit of the reader.\<close>

theorem json_conformance:
  "accepts limit s = (\<exists>w t v. blanks w \<and> json_valid t \<and> blanks v \<and> json_depth t \<le> limit \<and> s = w @ json_text t @ v)"
  by (rule accepts_iff)

end
