(* ===== verification/Json_Format.thy ===== *)
theory Json_Format
  imports Json_Conformance
begin

text \<open>
  The JSON backend as a format, reading side: the values of the data model that a JSON text denotes,
  and the proof that \<open>json/reader.h\<close> reads a text as any of them. The last section gives the syntax
  trees of the strings that \<open>json/writer.h\<close> writes; the writer itself is in \<open>Json_Backend\<close>.
\<close>

section \<open>The values of a text\<close>

definition token_integer :: "number \<Rightarrow> int" where
  "token_integer m = (if negative m then - int (decimal_value (whole m)) else int (decimal_value (whole m)))"

definition is_integer_number :: "number \<Rightarrow> bool" where
  "is_integer_number m \<longleftrightarrow> fraction m = None \<and> exponent m = None"

text \<open>
  A number without fraction and exponent denotes an integer (not the zero of \<open>-0\<close>, which is no
  unsigned number), any other one a floating-point number; a string denotes its characters, and
  the bytes that it is the base64 text of.
\<close>

fun denotes :: "json \<Rightarrow> node \<Rightarrow> bool"
  and items_denote :: "json_item list \<Rightarrow> node list \<Rightarrow> bool"
  and entries_denote :: "json_entry list \<Rightarrow> (string \<times> node) list \<Rightarrow> bool" where
  "denotes t NNull \<longleftrightarrow> t = JNull"
| "denotes t (NBool b) \<longleftrightarrow> t = JBool b"
| "denotes t (NInt i) \<longleftrightarrow> (case t of JNumber m \<Rightarrow>
     is_integer_number m \<and> token_integer m = sint i \<and> (negative m \<longleftrightarrow> sint i < 0) | _ \<Rightarrow> False)"
| "denotes t (NUint i) \<longleftrightarrow> (case t of JNumber m \<Rightarrow>
     is_integer_number m \<and> token_integer m = uint i \<and> \<not> negative m | _ \<Rightarrow> False)"
| "denotes t (NFloat x) \<longleftrightarrow> (case t of JNumber m \<Rightarrow>
     \<not> is_integer_number m \<and> in_range Binary64 m \<and> x = double_of (negative m) (number_magnitude Binary64 m) | _ \<Rightarrow> False)"
| "denotes t (NFloat32 y) \<longleftrightarrow> (case t of JNumber m \<Rightarrow>
     \<not> is_integer_number m \<and> in_range Binary32 m \<and> y = float_of (negative m) (number_magnitude Binary32 m) | _ \<Rightarrow> False)"
| "denotes t (NString s) \<longleftrightarrow> (case t of JString cs \<Rightarrow> body_value cs = s | _ \<Rightarrow> False)"
| "denotes t (NBytes bs) \<longleftrightarrow> (case t of JString cs \<Rightarrow> base64_decode (body_value cs) = Inr bs | _ \<Rightarrow> False)"
| "denotes t (NArray ns) \<longleftrightarrow> (case t of JArray w items \<Rightarrow> items_denote items ns | _ \<Rightarrow> False)"
| "denotes t (NObject ms) \<longleftrightarrow> (case t of JObject w entries \<Rightarrow> entries_denote entries ms | _ \<Rightarrow> False)"
| "items_denote items [] \<longleftrightarrow> items = []"
| "items_denote items (n # ns) \<longleftrightarrow> (case items of [] \<Rightarrow> False
     | Item u t v # items \<Rightarrow> denotes t n \<and> items_denote items ns)"
| "entries_denote entries [] \<longleftrightarrow> entries = []"
| "entries_denote entries ((key, n) # ms) \<longleftrightarrow> (case entries of [] \<Rightarrow> False
     | Entry u k v x t y # entries \<Rightarrow> body_value k = key \<and> denotes t n \<and> entries_denote entries ms)"

lemma denotes_kind: "denotes t n \<Longrightarrow> peeks_as (first_kind t) n"
  by (cases n; cases t) (auto simp: peeks_as_def is_integer_number_def)

section \<open>What the reader sees\<close>

definition json_sees :: "json_reader \<Rightarrow> node \<Rightarrow> json_reader \<Rightarrow> bool" where
  "json_sees r n r' \<longleftrightarrow> (\<exists>w t. blanks w \<and> json_valid t \<and> denotes t n \<and> took r (w @ json_text t) r' \<and>
     may_follow t (left r') \<and> deep_enough r (json_depth t))"

definition json_elements :: "json_reader \<Rightarrow> node list \<Rightarrow> json_reader \<Rightarrow> bool" where
  "json_elements q ns r' \<longleftrightarrow> (\<exists>f r w items. q = inside False f r \<and> blanks w \<and> items_valid items \<and>
     items_denote items ns \<and> took r (items_left f w items @ '']'') r' \<and> deep_enough q (items_depth items))"

definition json_members :: "json_reader \<Rightarrow> (string \<times> node) list \<Rightarrow> json_reader \<Rightarrow> bool" where
  "json_members q ms r' \<longleftrightarrow> (\<exists>f r w entries. q = inside True f r \<and> blanks w \<and> entries_valid entries \<and>
     entries_denote entries ms \<and> took r (entries_left f w entries @ ''}'') r' \<and> deep_enough q (entries_depth entries))"

lemma took_sits: "took r s r' \<Longrightarrow> sits r (s @ left r')"
  by (simp add: took_def sits_left)

lemma took_ahead: "took r s r' \<Longrightarrow> r' = ahead (length s) r"
  by (simp add: took_def)

lemma took_at: "r' = ahead (length s) r \<Longrightarrow> sits r (s @ left r') \<Longrightarrow> took r s r'"
  by (simp add: took_def sits_left)

lemma took_split: "took r (s @ t) r' \<Longrightarrow> took (ahead (length s) r) t r'"
proof -
  assume "took r (s @ t) r'"
  then have "sits (ahead (length s) r) (t @ left r')" "r' = ahead (length t) (ahead (length s) r)"
    using sits_append [of r s "t @ left r'"] took_sits [of r "s @ t" r'] took_ahead [of r "s @ t" r']
    by (simp_all add: add.commute)
  then show ?thesis using tookI by metis
qed

lemma deep_enough_ahead [simp]: "deep_enough (ahead n r) d = deep_enough r d"
  by (simp add: deep_enough_def)

text \<open>At a value: where it starts once white space is skipped.\<close>

lemma json_sees_start:
  assumes "json_sees r n r'"
  obtains t where "json_valid t" "denotes t n" "took (skip_whitespace r) (json_text t) r'"
    "sits (skip_whitespace r) (json_text t @ left r')" "may_follow t (left r')" "deep_enough r (json_depth t)"
    "json_peek r = Inr (first_kind t, skip_whitespace r)"
proof -
  obtain w t where t: "blanks w" "json_valid t" "denotes t n" "took r (w @ json_text t) r'"
    "may_follow t (left r')" "deep_enough r (json_depth t)"
    using assms by (auto simp: json_sees_def)
  have here: "sits r (w @ json_text t @ left r')" using took_sits [OF t(4)] by simp
  have ws: "skip_whitespace r = ahead (length w) r"
    using skip_whitespace_sits [OF here t(1)] json_text_hd [OF t(2)] by simp
  have tk: "took (skip_whitespace r) (json_text t) r'" unfolding ws by (rule took_split [OF t(4)])
  show thesis
    using that [OF t(2,3) tk took_sits [OF tk] t(5,6)] json_peek_sits [OF here t(1,2,5)] ws by simp
qed

lemma json_peek_sees: "json_sees r n r' \<Longrightarrow> \<exists>k r1. json_peek r = Inr (k, r1) \<and> peeks_as k n \<and> json_sees r1 n r'"
proof (erule json_sees_start)
  fix t assume t: "json_valid t" "denotes t n" "took (skip_whitespace r) (json_text t) r'"
    "may_follow t (left r')" "deep_enough r (json_depth t)" "json_peek r = Inr (first_kind t, skip_whitespace r)"
  then have "json_sees (skip_whitespace r) n r'"
    unfolding json_sees_def by (intro exI [of _ "[]"] exI [of _ t]) (simp add: deep_enough_def)
  with t denotes_kind [OF t(2)] show ?thesis by blast
qed

lemma json_null_sees: "json_sees r NNull r' \<Longrightarrow> json_read_null r = Inr r'"
proof (erule json_sees_start)
  fix t assume t: "denotes t NNull" "took (skip_whitespace r) (json_text t) r'"
    "sits (skip_whitespace r) (json_text t @ left r')"
  then show ?thesis using expect_literal_sits [OF t(3)] took_ahead [OF t(2)] by (simp add: json_read_null_def)
qed

lemma json_bool_sees: "json_sees r (NBool b) r' \<Longrightarrow> json_read_bool r = Inr (b, r')"
proof (erule json_sees_start)
  fix t assume t: "denotes t (NBool b)" "took (skip_whitespace r) (json_text t) r'"
    "sits (skip_whitespace r) (json_text t @ left r')"
  then show ?thesis
    using expect_literal_sits [OF t(3)] current_sits [OF t(3)] took_ahead [OF t(2)]
    by (cases b) (simp_all add: json_read_bool_def Let_def)
qed

text \<open>Numbers.\<close>

lemma json_number_sees:
  assumes "json_valid (JNumber m)" "sits r (json_text (JNumber m) @ rest)" "may_follow (JNumber m) rest"
    "took r (json_text (JNumber m)) r'"
  shows "scan_number r = Inr (number_text m, r')"
  using scan_number_sits [of m r rest] assms took_ahead [OF assms(4)] by (simp add: may_follow_def)

lemma integer_token:
  "well_formed m \<Longrightarrow> is_integer_token (number_text m) \<longleftrightarrow> is_integer_number m"
  by (cases "exponent m") (simp_all add: is_integer_token_def is_integer_number_def number_contains)

lemma integer_text:
  "is_integer_number m \<Longrightarrow> number_text m = (if negative m then ''-'' else []) @ whole m"
  by (simp add: is_integer_number_def number_text_def)

lemma whole_first: "well_formed m \<Longrightarrow> whole m \<noteq> [] \<and> hd (whole m) \<noteq> CHR ''-''"
  by (cases "whole m") (auto simp: well_formed_def digits_def)

lemma from_chars_token:
  assumes "well_formed m" "is_integer_number m" "lo < 0 \<or> \<not> negative m" "lo \<le> 0"
  shows "from_chars lo hi (number_text m) =
    (if token_integer m < lo \<or> hi < token_integer m then Out_Of_Range (length (number_text m))
     else Parsed (token_integer m) (length (number_text m)))"
proof -
  have run: "takeWhile is_digit (whole m) = whole m"
    using assms(1) takeWhile_digits [of "whole m" "[]"] by (simp add: well_formed_def digits_def)
  show ?thesis using assms(3) whole_first [OF assms(1)]
    by (cases "negative m") (simp_all add: integer_text [OF assms(2)] run from_chars_def token_integer_def Let_def)
qed

lemma node_token:
  "denotes t n \<Longrightarrow> node_integer n = Some i \<Longrightarrow>
     \<exists>m. t = JNumber m \<and> is_integer_number m \<and> token_integer m = i \<and> (negative m \<longleftrightarrow> i < 0)"
  by (cases n; cases t) auto

lemma json_integer_sees:
  assumes "json_sees r n r'" "node_integer n = Some i"
  obtains m where "well_formed m" "is_integer_number m" "token_integer m = i" "negative m \<longleftrightarrow> i < 0"
    "scan_number (skip_whitespace r) = Inr (number_text m, r')"
  using assms(1)
proof (rule json_sees_start)
  fix t assume t: "json_valid t" "denotes t n" "took (skip_whitespace r) (json_text t) r'"
    "sits (skip_whitespace r) (json_text t @ left r')" "may_follow t (left r')"
  obtain m where m: "t = JNumber m" "is_integer_number m" "token_integer m = i" "negative m \<longleftrightarrow> i < 0"
    using node_token [OF t(2) assms(2)] by blast
  show thesis using json_number_sees [of m] t m by (intro that [of m]) simp_all
qed

lemma json_int_sees:
  assumes "json_sees r n r'" "node_integer n = Some i"
  shows "if int64_range i then json_read_int r = Inr (word_of_int i, r') else \<exists>e. json_read_int r = Inl e"
proof -
  obtain m where "well_formed m" "is_integer_number m" "token_integer m = i" "negative m \<longleftrightarrow> i < 0"
    "scan_number (skip_whitespace r) = Inr (number_text m, r')"
    using json_integer_sees [OF assms] .
  then show ?thesis using from_chars_token [of m "- (2 ^ 63)" "2 ^ 63 - 1"] integer_token [of m]
    by (simp add: json_read_int_def Let_def int64_range_def json_fail_at_def split: prod.split)
qed

lemma json_uint_sees:
  assumes "json_sees r n r'" "node_integer n = Some i"
  shows "if uint64_range i then json_read_uint r = Inr (word_of_int i, r') else \<exists>e. json_read_uint r = Inl e"
proof -
  obtain m where m: "well_formed m" "is_integer_number m" "token_integer m = i" "negative m \<longleftrightarrow> i < 0"
    "scan_number (skip_whitespace r) = Inr (number_text m, r')"
    using json_integer_sees [OF assms] .
  have "hd (number_text m) = CHR ''-'' \<longleftrightarrow> i < 0"
    using integer_text [OF m(2)] whole_first [OF m(1)] m(4) by simp
  with m show ?thesis using from_chars_token [of m 0 "2 ^ 64 - 1"] integer_token [of m]
    by (simp add: json_read_uint_def Let_def uint64_range_def json_fail_at_def split: prod.split)
qed

lemma json_float_token:
  "well_formed m \<Longrightarrow> in_range p m \<Longrightarrow>
     float_from_chars p (number_text m) = Float_Parsed (negative m) (number_magnitude p m) (length (number_text m))"
  using float_from_chars_number [of m "[]" p] by simp

lemma json_float_sees: "json_sees r (NFloat x) r' \<Longrightarrow> json_read_float r = Inr (x, r')"
proof (erule json_sees_start)
  fix t assume t: "json_valid t" "denotes t (NFloat x)" "took (skip_whitespace r) (json_text t) r'"
    "sits (skip_whitespace r) (json_text t @ left r')" "may_follow t (left r')"
  then obtain m where m: "t = JNumber m" "in_range Binary64 m" "x = double_of (negative m) (number_magnitude Binary64 m)"
    by (cases t) auto
  then show ?thesis using json_number_sees [of m] json_float_token [of m Binary64] t
    by (simp add: json_read_float_def Let_def)
qed

lemma json_float32_sees: "json_sees r (NFloat32 x) r' \<Longrightarrow> json_read_float32 r = Inr (x, r')"
proof (erule json_sees_start)
  fix t assume t: "json_valid t" "denotes t (NFloat32 x)" "took (skip_whitespace r) (json_text t) r'"
    "sits (skip_whitespace r) (json_text t @ left r')" "may_follow t (left r')"
  then obtain m where m: "t = JNumber m" "in_range Binary32 m" "x = float_of (negative m) (number_magnitude Binary32 m)"
    by (cases t) auto
  then show ?thesis using json_number_sees [of m] json_float_token [of m Binary32] t
    by (simp add: json_read_float32_def Let_def)
qed

text \<open>An integer below \<open>2 ^ 64\<close> as a double is neither zero, unless it is zero, nor infinite.\<close>

lemma round_integer:
  assumes "0 < n" "n < 2 ^ 64"
  shows "round_units Binary64 (n * 2 ^ 1074) 1 < infinity Binary64 \<and> 0 < round_units Binary64 (n * 2 ^ 1074) 1"
proof -
  define a where "a = n * 2 ^ 1074"
  define k where "k = excess Binary64 a"
  define m where "m = a div 2 ^ k"
  define f :: nat where "f = 2 ^ 52"
  define up :: nat where "up = (if 2 * (a - m * 2 ^ k * 1) > 2 ^ k * 1 \<or> (2 * (a - m * 2 ^ k * 1) = 2 ^ k * 1 \<and> odd m) then 1 else 0)"
  have "n * 2 ^ 1074 < 2 ^ 64 * (2 ^ 1074 :: nat)" using assms(2) by (rule mult_less_mono1) (rule zero_less_power, rule zero_less_numeral)
  also have "2 ^ 64 * (2 ^ 1074 :: nat) = 2 ^ (64 + 1074)" by (rule power_add [symmetric])
  also have "64 + 1074 = Suc (fraction_bits Binary64) + 1085" by simp
  finally have "k \<le> 1085" unfolding k_def a_def by (rule excess_le)
  have bounds: "m < 2 * f" "k = 0 \<or> f \<le> m"
    using excess_bounds [of a Binary64] by (simp_all add: m_def k_def f_def)
  have "up \<le> 1" by (simp add: up_def)
  have rounds: "round_units Binary64 a 1 = min (infinity Binary64) (k * f + m + up)"
    by (simp add: round_units_def Let_def k_def m_def up_def f_def)
  have "k * f \<le> 1085 * f" using \<open>k \<le> 1085\<close> by simp
  then have "k * f + m + up < 2047 * f" using bounds(1) \<open>up \<le> 1\<close> by (simp add: f_def)
  moreover have "infinity Binary64 = 2047 * f" by (simp add: f_def)
  moreover have "0 < k * f + m + up"
  proof (cases "k = 0")
    case True
    then have "m = a" by (simp add: m_def)
    moreover have "0 < a" unfolding a_def using assms(1) by (rule mult_pos_pos) (rule zero_less_power, rule zero_less_numeral)
    ultimately show ?thesis by simp
  qed (simp add: f_def)
  ultimately show ?thesis unfolding a_def [symmetric] rounds by simp
qed

lemma json_float_of_int_sees:
  assumes "json_sees r n r'" "node_integer n = Some i"
  shows "json_read_float r = Inr (double_of_int i, r')"
proof -
  obtain m where m: "well_formed m" "is_integer_number m" "token_integer m = i" "negative m \<longleftrightarrow> i < 0"
    "scan_number (skip_whitespace r) = Inr (number_text m, r')"
    using json_integer_sees [OF assms] .
  define v where "v = decimal_value (whole m)"
  have v: "nat \<bar>i\<bar> = v" using m(3) by (simp add: v_def token_integer_def split: if_splits)
  have "- (2 ^ 63) \<le> i \<and> i < 2 ^ 64"
  proof (cases n)
    case (NInt w)
    then show ?thesis using assms(2) sint_ge [of w] sint_less [of w] by simp
  next
    case (NUint w)
    then show ?thesis using assms(2) uint_lt2p [of w] uint_ge_0 [of w] by simp
  qed (use assms(2) in simp_all)
  then have small: "v < 2 ^ 64" using v by auto
  have parts: "fraction_digits m = []" "exponent_value m = 0"
    using m(2) by (simp_all add: is_integer_number_def fraction_digits_def exponent_value_def)
  have mag: "number_magnitude Binary64 m = round_units Binary64 (v * 2 ^ 1074) 1"
    by (simp only: number_magnitude_def parts decimal_magnitude_def v_def) simp
  have "in_range Binary64 m"
  proof (cases "v = 0")
    case True
    then have "number_magnitude Binary64 m = 0" by (simp only: mag mult_0 round_units_zero)
    then show ?thesis using True parts by (simp add: in_range_def v_def)
  next
    case False
    then show ?thesis using round_integer [of v] small unfolding in_range_def mag by linarith
  qed
  moreover have "double_of_int i = double_of (negative m) (number_magnitude Binary64 m)"
    unfolding double_of_int_def v mag using m(4) by (simp only:)
  ultimately show ?thesis using json_float_token [OF m(1), of Binary64] m(5)
    by (simp add: json_read_float_def Let_def)
qed

text \<open>Strings and bytes.\<close>

lemma json_text_sees:
  assumes "json_sees r n r'" "\<And>t. denotes t n \<Longrightarrow> \<exists>cs. t = JString cs"
  obtains cs where "denotes (JString cs) n" "json_read_string r = Inr (body_value cs, r')"
  using assms(1)
proof (rule json_sees_start)
  fix t assume t: "json_valid t" "denotes t n" "took (skip_whitespace r) (json_text t) r'"
    "sits (skip_whitespace r) (json_text t @ left r')"
  obtain cs where cs: "t = JString cs" using assms(2) t(2) by blast
  show thesis
    using that [of cs] t cs parse_string_sits [of cs "skip_whitespace r" "left r'"] took_ahead [OF t(3)] current_sits [OF t(4)]
    by (simp add: json_read_string_def Let_def quoted_def)
qed

lemma json_read_string_blank [simp]: "json_read_string (skip_whitespace r) = json_read_string r"
  by (simp add: json_read_string_def)

lemma json_string_sees: "json_sees r (NString s) r' \<Longrightarrow> json_read_string r = Inr (s, r')"
  by (erule json_text_sees) (auto split: json.splits)

lemma json_bytes_sees: "json_sees r (NBytes bs) r' \<Longrightarrow> json_read_bytes r = Inr (bs, r')"
  by (erule json_text_sees) (auto simp: json_read_bytes_def Let_def split: json.splits)

text \<open>Arrays and objects.\<close>

lemma json_array_sees:
  "json_sees r (NArray ns) r' \<Longrightarrow> \<exists>hint r1. json_begin_array_in r = Inr (hint, r1) \<and> json_elements r1 ns r'"
proof (erule json_sees_start)
  fix t assume t: "json_valid t" "denotes t (NArray ns)" "took (skip_whitespace r) (json_text t) r'"
    "sits (skip_whitespace r) (json_text t @ left r')" "deep_enough r (json_depth t)"
  obtain w items where tree: "t = JArray w items" "items_denote items ns" using t(2) by (cases t) auto
  let ?q = "skip_whitespace r"
  have shape: "json_text t = ''['' @ items_left True w items @ '']''" by (simp add: tree(1) items_left_def)
  have "json_begin_array_in ?q = Inr (None, inside False True (ahead 1 ?q))"
    using begin_array_sits [of ?q "[]"] t(4,5) shape tree(1) by (simp add: deep_enough_def)
  then have "json_begin_array_in r = Inr (None, inside False True (ahead 1 ?q))"
    by (simp add: json_begin_array_in_def)
  moreover have "took (ahead 1 ?q) (items_left True w items @ '']'') r'"
    using took_split [of ?q "''[''"] t(3) shape by simp
  ultimately show ?thesis using t(1,5) tree
    by (auto simp: json_elements_def deep_enough_def)
qed

lemma json_elements_Nil:
  assumes "json_elements q [] r'"
  shows "\<exists>q1. json_next_element q = Inr (False, q1) \<and> json_end_array_in q1 = Inr r'"
proof -
  obtain f r w where q: "q = inside False f r" "blanks w" "took r (w @ '']'') r'"
    using assms by (auto simp: json_elements_def)
  have "sits (ahead (length w) r) (CHR '']'' # left r')" using sits_append took_sits [OF q(3)] by fastforce
  then show ?thesis
    using next_element_Nil [of r w "left r'" f] q took_sits [OF q(3)] took_ahead [OF q(3)] end_array_sits
    by simp
qed

lemma denote_Cons:
  "items_denote items (n # ns) \<Longrightarrow>
     \<exists>u t v items'. items = Item u t v # items' \<and> denotes t n \<and> items_denote items' ns"
  "entries_denote entries ((key, n) # ms) \<Longrightarrow> \<exists>u k v x t y entries'.
     entries = Entry u k v x t y # entries' \<and> body_value k = key \<and> denotes t n \<and> entries_denote entries' ms"
  by (auto split: list.splits json_item.splits json_entry.splits)

lemma json_elements_Cons:
  assumes "json_elements q (n # ns) r'"
  shows "\<exists>q1 q2. json_next_element q = Inr (True, q1) \<and> json_sees q1 n q2 \<and> json_elements q2 ns r'"
proof -
  obtain f r w u t v items where q: "q = inside False f r" "blanks w" "blanks u" "json_valid t" "blanks v"
    "items_valid items" "denotes t n" "items_denote items ns" "took r (items_left f w (Item u t v # items) @ '']'') r'"
    "deep_enough q (max (json_depth t) (items_depth items))"
    using assms by (auto simp: json_elements_def simp del: items_denote.simps deep_enough_frame dest!: denote_Cons(1))
  obtain k where k: "json_next_element (inside False f r) = Inr (True, inside False False (ahead k r))"
    "sits (ahead k r) (json_text t @ items_left False v items @ CHR '']'' # left r')"
    "length (items_left f w (Item u t v # items)) = k + length (json_text t) + length (items_left False v items)"
    using next_element_Cons [OF _ q(2-4)] took_sits [OF q(9)] by fastforce
  let ?q2 = "inside False False (ahead (length (json_text t)) (ahead k r))"
  have "took (inside False False (ahead k r)) (json_text t) ?q2"
    using tookI [OF k(2)] by simp
  moreover have "left ?q2 = items_left False v items @ CHR '']'' # left r'"
    using sits_append [OF k(2)] by (simp add: sits_left)
  ultimately have "json_sees (inside False False (ahead k r)) n ?q2"
    unfolding json_sees_def using q may_follow_items [OF q(5)]
    by (intro exI [of _ "[]"] exI [of _ t]) (auto simp: deep_enough_def)
  moreover have "r' = ahead (length (items_left False v items @ '']'')) (ahead (length (json_text t)) (ahead k r))"
    using took_ahead [OF q(9)] k(3) by (simp add: add.commute add.left_commute)
  then have "took (ahead (length (json_text t)) (ahead k r)) (items_left False v items @ '']'') r'"
    by (rule took_at) (use sits_append [OF k(2)] in simp)
  then have "json_elements ?q2 ns r'"
    unfolding json_elements_def using q(5,6,8,10) q(1)
    by (intro exI [of _ False] exI [of _ "ahead (length (json_text t)) (ahead k r)"] exI [of _ v] exI [of _ items])
      (auto simp: deep_enough_def)
  ultimately show ?thesis using k(1) q(1) by blast
qed

lemma json_object_sees:
  "json_sees r (NObject ms) r' \<Longrightarrow> \<exists>hint r1. json_begin_object_in r = Inr (hint, r1) \<and> json_members r1 ms r'"
proof (erule json_sees_start)
  fix t assume t: "json_valid t" "denotes t (NObject ms)" "took (skip_whitespace r) (json_text t) r'"
    "sits (skip_whitespace r) (json_text t @ left r')" "deep_enough r (json_depth t)"
  obtain w entries where tree: "t = JObject w entries" "entries_denote entries ms" using t(2) by (cases t) auto
  let ?q = "skip_whitespace r"
  have shape: "json_text t = ''{'' @ entries_left True w entries @ ''}''" by (simp add: tree(1) entries_left_def)
  have "json_begin_object_in ?q = Inr (None, inside True True (ahead 1 ?q))"
    using begin_object_sits [of ?q "[]"] t(4,5) shape tree(1) by (simp add: deep_enough_def)
  then have "json_begin_object_in r = Inr (None, inside True True (ahead 1 ?q))"
    by (simp add: json_begin_object_in_def)
  moreover have "took (ahead 1 ?q) (entries_left True w entries @ ''}'') r'"
    using took_split [of ?q "''{''"] t(3) shape by simp
  ultimately show ?thesis using t(1,5) tree
    by (auto simp: json_members_def deep_enough_def)
qed

lemma json_members_Nil:
  assumes "json_members q [] r'"
  shows "\<exists>q1. json_next_key q = Inr (None, q1) \<and> json_end_object_in q1 = Inr r'"
proof -
  obtain f r w where q: "q = inside True f r" "blanks w" "took r (w @ ''}'') r'"
    using assms by (auto simp: json_members_def)
  have "sits (ahead (length w) r) (CHR ''}'' # left r')" using sits_append took_sits [OF q(3)] by fastforce
  then show ?thesis
    using next_key_Nil [of r w "left r'" f] q took_sits [OF q(3)] took_ahead [OF q(3)] end_object_sits
    by simp
qed

lemma json_members_Cons:
  assumes "json_members q ((key, n) # ms) r'"
  shows "\<exists>q1 q2. json_next_key q = Inr (Some key, q1) \<and> json_sees q1 n q2 \<and> json_members q2 ms r'"
proof -
  obtain f r w u k v x t y entries where q: "q = inside True f r" "blanks w" "blanks u" "list_all char_valid k" "blanks v"
    "blanks x" "json_valid t" "blanks y" "entries_valid entries" "body_value k = key" "denotes t n"
    "entries_denote entries ms" "took r (entries_left f w (Entry u k v x t y # entries) @ ''}'') r'"
    "deep_enough q (max (json_depth t) (entries_depth entries))"
    using assms by (auto simp: json_members_def simp del: entries_denote.simps deep_enough_frame dest!: denote_Cons(2))
  obtain m where m: "json_next_key (inside True f r) = Inr (Some (body_value k), inside True False (ahead m r))"
    "sits (ahead m r) (x @ json_text t @ entries_left False y entries @ CHR ''}'' # left r')"
    "length (entries_left f w (Entry u k v x t y # entries)) =
       m + length x + length (json_text t) + length (entries_left False y entries)"
    using next_key_Cons [OF _ q(2-5)] took_sits [OF q(13)] by fastforce
  let ?r2 = "ahead (length (x @ json_text t)) (ahead m r)"
  have here: "sits (ahead m r) ((x @ json_text t) @ entries_left False y entries @ CHR ''}'' # left r')"
    using m(2) by simp
  have "took (inside True False (ahead m r)) (x @ json_text t) (inside True False ?r2)"
    using tookI [OF here] by simp
  moreover have "left (inside True False ?r2) = entries_left False y entries @ CHR ''}'' # left r'"
    using sits_append [OF here] by (simp add: sits_left)
  ultimately have "json_sees (inside True False (ahead m r)) n (inside True False ?r2)"
    unfolding json_sees_def using q may_follow_entries [OF q(8)]
    by (intro exI [of _ x] exI [of _ t]) (auto simp: deep_enough_def)
  moreover have "r' = ahead (length (entries_left False y entries @ ''}'')) ?r2"
    using took_ahead [OF q(13)] m(3) by (simp add: add.commute add.left_commute)
  then have "took ?r2 (entries_left False y entries @ ''}'') r'"
    by (rule took_at) (use sits_append [OF here] in simp)
  then have "json_members (inside True False ?r2) ms r'"
    unfolding json_members_def using q(8,9,12,14) q(1)
    by (intro exI [of _ False] exI [of _ ?r2] exI [of _ y] exI [of _ entries]) (auto simp: deep_enough_def)
  ultimately show ?thesis using m(1) q(1,10) by blast
qed

lemma json_skip_sees: "json_sees r n r' \<Longrightarrow> json_skip_value r = Inr r'"
proof -
  assume "json_sees r n r'"
  then obtain w t where t: "blanks w" "json_valid t" "took r (w @ json_text t) r'" "may_follow t (left r')"
    "deep_enough r (json_depth t)" by (auto simp: json_sees_def)
  have here: "sits r (w @ json_text t @ left r')" using took_sits [OF t(3)] by simp
  then have "length (json_text t) \<le> length (jr_input r) - jr_position r"
    unfolding sits_def by (metis length_append length_drop le_add1 le_add2 le_trans)
  with json_skips(1) [OF t(2,1) here t(4,5)] took_ahead [OF t(3)] show ?thesis
    by (simp add: json_skip_value_def del: json_skip_fuel.simps)
qed

section \<open>Strings as written\<close>

lemma hex_digit_hex: "k < 16 \<Longrightarrow> hex_digit (hex ! k) = Some k"
proof -
  have "list_all (\<lambda>k. hex_digit (hex ! k) = Some k) [0..<16]"
    by (simp add: hex_def hex_digit_def upt_rec numeral_nat(1) code_of_def Let_def)
  then show "k < 16 \<Longrightarrow> ?thesis" by (simp add: list_all_iff)
qed

definition char_tree :: "nat \<Rightarrow> json_char" where
  "char_tree cp =
     (if cp < 0x80 then
        let q = quoted_char (char_of cp)
        in if length q = 2 then Short (q ! 1) else if length q = 6 then Unicode (drop 2 q) else Raw cp
      else Raw cp)"

lemma char_of_eq: "n < 256 \<Longrightarrow> char_of n = c \<longleftrightarrow> n = code_of c"
  by (auto simp: code_of_char_of)

lemma char_tree_ascii:
  assumes "cp < 0x80"
  shows "char_valid (char_tree cp) \<and> char_value (char_tree cp) = utf8_bytes cp \<and>
    char_text (char_tree cp) = quoted_char (char_of cp)"
proof -
  have one: "utf8_bytes cp = [char_of cp]" using assms by (simp add: utf8_bytes_def)
  have code: "code_of (char_of cp :: char) = cp" using assms by (simp add: code_of_char_of)
  show ?thesis
  proof (cases "(char_of cp :: char) \<in> {CHR 0x22, CHR 0x5C, CHR 0x08, CHR 0x0C, CHR 0x0A, CHR 0x0D, CHR 0x09}")
    case True
    then show ?thesis unfolding one using assms
      by (auto simp: char_tree_def quoted_char_def short_escapes_def)
  next
    case False
    then have special: "char_of cp \<noteq> CHR 0x22" "char_of cp \<noteq> CHR 0x5C" "char_of cp \<noteq> CHR 0x08"
      "char_of cp \<noteq> CHR 0x0C" "char_of cp \<noteq> CHR 0x0A" "char_of cp \<noteq> CHR 0x0D" "char_of cp \<noteq> CHR 0x09"
      by simp_all
    have plain: "cp \<noteq> 0x22" "cp \<noteq> 0x5C" using special(1,2) by (auto simp: char_of_eq code_of_def)
    show ?thesis
    proof (cases "cp < 0x20")
      case True
      have digits: "drop_bit 4 cp AND 15 = cp div 16" "cp AND 15 = cp mod 16" "cp div 16 < 16" "cp mod 16 < 16"
        using True by (simp_all add: bits drop_bit_eq_div)
      let ?hs = "[CHR ''0'', CHR ''0'', hex ! (cp div 16), hex ! (cp mod 16)]"
      have q: "quoted_char (char_of cp) = CHR 0x5C # CHR ''u'' # ?hs"
        using special code True digits by (simp add: quoted_char_def)
      have zero: "hex_digit (CHR ''0'') = Some 0" by (simp add: hex_digit_def code_of_def)
      have "hex4 ?hs" "hex_value ?hs = cp"
        using hex_digit_hex [OF digits(3)] hex_digit_hex [OF digits(4)] zero
        by (simp_all add: hex4_def hex_value_def)
      then show ?thesis using True q by (simp add: char_tree_def is_surrogate_def)
    next
      case wide: False
      then show ?thesis using special plain code assms wide one
        by (simp add: char_tree_def quoted_char_def is_scalar_def is_surrogate_def)
    qed
  qed
qed

lemma quoted_char_wide: "0x80 \<le> code_of c \<Longrightarrow> quoted_char c = [c]"
proof -
  assume wide: "0x80 \<le> code_of c"
  have "code_of d < 0x80" if "d \<in> {CHR 0x22, CHR 0x5C, CHR 0x08, CHR 0x0C, CHR 0x0A, CHR 0x0D, CHR 0x09}" for d
    using that by (auto simp: code_of_def)
  with wide have "c \<notin> {CHR 0x22, CHR 0x5C, CHR 0x08, CHR 0x0C, CHR 0x0A, CHR 0x0D, CHR 0x09}"
    by (meson not_le)
  with wide show ?thesis by (simp add: quoted_char_def)
qed

lemma utf8_bytes_wide: "0x80 \<le> cp \<Longrightarrow> is_scalar cp \<Longrightarrow> c \<in> set (utf8_bytes cp) \<Longrightarrow> 0x80 \<le> code_of c"
proof -
  assume wide: "0x80 \<le> cp" and scalar: "is_scalar cp" and c: "c \<in> set (utf8_bytes cp)"
  have small: "cp < 2048 \<Longrightarrow> cp div 64 < 32" "cp < 65536 \<Longrightarrow> cp div 4096 < 16" "cp div 262144 < 8"
    using scalar by (auto simp: is_scalar_def)
  from c obtain n :: nat where n: "c = char_of n" "n \<in> set
     (if cp < 128 then [cp]
      else if cp < 2048 then [192 + cp div 64, 128 + cp mod 64]
      else if cp < 65536 then [224 + cp div 4096, 128 + cp div 64 mod 64, 128 + cp mod 64]
      else [240 + cp div 262144, 128 + cp div 4096 mod 64, 128 + cp div 64 mod 64, 128 + cp mod 64])"
    unfolding utf8_bytes_def set_map by blast
  have mod: "a mod 64 < 128" for a :: nat by (rule less_trans [of _ 64]) simp_all
  from n(2) have "0x80 \<le> n" "n < 256"
    using wide small mod [of cp] mod [of "cp div 64"] mod [of "cp div 4096"] by (auto split: if_splits)
  with n(1) have "0x80 \<le> n" "n < 256" "c = char_of n" by simp_all
  then show "0x80 \<le> code_of c" by (simp add: code_of_char_of)
qed

lemma char_tree_text:
  assumes "is_scalar cp"
  shows "char_valid (char_tree cp) \<and> char_value (char_tree cp) = utf8_bytes cp \<and>
    char_text (char_tree cp) = concat (map quoted_char (utf8_bytes cp))"
proof (cases "cp < 0x80")
  case True
  then have "utf8_bytes cp = [char_of cp]" by (simp add: utf8_bytes_def)
  with char_tree_ascii [OF True] show ?thesis by simp
next
  case False
  have "concat (map quoted_char s) = s" if "\<forall>c\<in>set s. 0x80 \<le> code_of c" for s
    using that by (induction s) (simp_all add: quoted_char_wide)
  with utf8_bytes_wide [of cp] False assms show ?thesis by (simp add: char_tree_def)
qed

lemma string_tree:
  assumes "validate_utf8 s = Inr ()"
  obtains cs where "list_all char_valid cs" "body_value cs = s" "body_text cs = concat (map quoted_char s)"
proof -
  obtain cps where cps: "list_all is_scalar cps" "s = concat (map utf8_bytes cps)"
    using assms by (auto simp: validate_utf8_def decode_all_iff list_all_iff)
  have "list_all char_valid (map char_tree cps) \<and> body_value (map char_tree cps) = concat (map utf8_bytes cps) \<and>
      body_text (map char_tree cps) = concat (map quoted_char (concat (map utf8_bytes cps)))"
    using cps(1) by (induction cps) (auto simp: body_value_def body_text_def char_tree_text)
  with cps(2) that show thesis by blast
qed

text \<open>The text of a byte string is plain: none of its characters is escaped.\<close>

definition plain_char :: "char \<Rightarrow> bool" where
  "plain_char c \<longleftrightarrow> 0x20 \<le> code_of c \<and> code_of c < 0x80 \<and> c \<noteq> CHR 0x22 \<and> c \<noteq> CHR 0x5C"

lemma plain_alphabet: "n < 64 \<Longrightarrow> plain_char (base64_alphabet ! n)"
proof -
  assume "n < 64"
  then have "base64_alphabet ! n \<in> set base64_alphabet" by (intro nth_mem) (simp add: base64_alphabet_def)
  moreover have "list_all plain_char base64_alphabet"
    by (simp add: base64_alphabet_def plain_char_def code_of_def)
  ultimately show ?thesis by (simp add: list_all_iff)
qed

lemma plain_sextets: "list_all plain_char (sextets q)"
  by (simp add: sextets_def symbol_def plain_alphabet)

lemma plain_base64: "list_all plain_char (base64_encode bs)"
proof -
  have "list_all plain_char (encode_rest result bs)" if "list_all plain_char result" for result
    using that
  proof (induction result bs rule: encode_rest.induct)
    case (1 result x y z bytes)
    show ?case unfolding encode_rest.simps Let_def
      by (rule 1(1) [OF refl]) (use 1(2) in \<open>simp add: plain_alphabet bits\<close>)
  qed (auto simp: list_all_take_drop [OF plain_sextets], simp_all add: plain_char_def code_of_def)
  then show ?thesis by (simp add: base64_encode_def)
qed

lemma plain_tree:
  assumes "list_all plain_char s"
  shows "list_all char_valid (map (\<lambda>c. Raw (code_of c)) s) \<and> body_value (map (\<lambda>c. Raw (code_of c)) s) = s \<and>
    body_text (map (\<lambda>c. Raw (code_of c)) s) = s"
  using assms
proof (induction s)
  case (Cons c s)
  then have c: "0x20 \<le> code_of c" "code_of c < 0x80" "code_of c \<noteq> 0x22" "code_of c \<noteq> 0x5C"
    using code_of_inj [of c "CHR 0x22"] code_of_inj [of c "CHR 0x5C"] by (auto simp: plain_char_def code_of_def)
  then have "utf8_bytes (code_of c) = [c]" by (simp add: utf8_bytes_def)
  with c Cons show ?case by (simp add: body_value_def body_text_def is_scalar_def is_surrogate_def)
qed (simp add: body_value_def body_text_def)

end
