(* ===== verification/Json_Backend.thy ===== *)
theory Json_Backend
  imports Json_Format
begin

text \<open>
  What \<open>json/writer.h\<close> writes for a value of the data model: the text of a syntax tree that denotes
  the value, laid out with the indentation of the writer; or an error, exactly when a string is not
  UTF-8, a number is not finite or the nesting is too deep. With the reader of \<open>Json_Format\<close> this
  makes the backend a \<open>format\<close>.
\<close>

section \<open>What is written\<close>

lemma emit_simps [simp]:
  "jw_stack (emit s w) = jw_stack w" "jw_indent (emit s w) = jw_indent w" "jw_max_depth (emit s w) = jw_max_depth w"
  "jw_inline_next (emit s w) = jw_inline_next w" "jw_root_started (emit s w) = jw_root_started w"
  "jw_output (emit s w) = jw_output w @ s" "emit t (emit s w) = emit (s @ t) w" "emit [] w = w"
  by (simp_all add: emit_def)

lemma emit_quoted: "foldl (\<lambda>w c. emit (quoted_char c) w) w s = emit (concat (map quoted_char s)) w"
  by (induction s arbitrary: w) simp_all

lemma append_quoted_eq:
  "append_quoted s w = and_then (validate_utf8 s) (\<lambda>_. Inr (emit (CHR 0x22 # concat (map quoted_char s) @ [CHR 0x22]) w))"
  by (simp add: append_quoted_def emit_quoted)

definition line :: "json_writer \<Rightarrow> nat \<Rightarrow> string" where
  "line w level = (if jw_indent w = 0 then [] else CHR 0x0A # replicate (level * jw_indent w) (CHR '' ''))"

lemma newline_line: "newline level w = emit (line w level) w"
  by (simp add: newline_def line_def)

lemma blanks_line [simp]: "blanks (line w level)"
  by (simp add: line_def blanks_def list_all_iff)

lemma line_emit [simp]: "line (emit s w) level = line w level"
  by (simp add: line_def)

text \<open>A writer that nobody asked to write on one line, and one inside an array or object.\<close>

definition plain :: "json_writer \<Rightarrow> bool" where
  "plain w \<longleftrightarrow> \<not> jw_inline_next w \<and> list_all (\<lambda>frame. \<not> jwf_is_inline frame) (jw_stack w)"

definition opened :: "bool \<Rightarrow> bool \<Rightarrow> bool \<Rightarrow> json_writer \<Rightarrow> json_writer" where
  "opened object items await w = w\<lparr>jw_stack :=
     \<lparr>jwf_is_object = object, jwf_has_items = items, jwf_awaiting_value = await, jwf_is_inline = False\<rparr> # jw_stack w\<rparr>"

lemma opened_simps [simp]:
  "jw_stack (opened b h a w) =
     \<lparr>jwf_is_object = b, jwf_has_items = h, jwf_awaiting_value = a, jwf_is_inline = False\<rparr> # jw_stack w"
  "jw_indent (opened b h a w) = jw_indent w" "jw_max_depth (opened b h a w) = jw_max_depth w"
  "emit s (opened b h a w) = opened b h a (emit s w)" "line (opened b h a w) level = line w level"
  "plain (opened b h a w) = plain w" "plain (emit s w) = plain w"
  by (simp_all add: opened_def emit_def line_def plain_def)

lemma set_frame_opened:
  "set_frame \<lparr>jwf_is_object = b, jwf_has_items = h', jwf_awaiting_value = a', jwf_is_inline = False\<rparr> (opened b h a w) =
     opened b h' a' w"
  by (simp add: set_frame_def opened_def)

lemma push_frame_opened: "plain w \<Longrightarrow> push_frame object w = opened object False False w"
  by (cases "jw_stack w") (simp_all add: push_frame_def opened_def plain_def)

definition gap :: "bool \<Rightarrow> json_writer \<Rightarrow> string" where
  "gap h w = (if h then '','' else []) @ line w (Suc (length (jw_stack w)))"

lemma separate_opened:
  "separate \<lparr>jwf_is_object = b, jwf_has_items = h, jwf_awaiting_value = a, jwf_is_inline = False\<rparr> (opened b h a w) =
     opened b h a (emit (gap h w) w)"
  by (simp add: separate_def newline_line gap_def)

lemma begin_item: "json_begin_value (opened False h False w) = Inr (opened False True False (emit (gap h w) w))"
  by (simp add: json_begin_value_def separate_opened set_frame_opened)

lemma begin_entry: "json_begin_value (opened True True True w) = Inr (opened True True False w)"
  by (simp add: json_begin_value_def set_frame_opened)

definition colon :: "json_writer \<Rightarrow> string" where
  "colon w = (if jw_indent w > 0 then '' '' else [])"

lemma write_key_opened:
  "json_write_key k (opened True h False w) = and_then (validate_utf8 k) (\<lambda>_. Inr (opened True True True
     (emit (gap h w @ (CHR 0x22 # concat (map quoted_char k) @ [CHR 0x22]) @ '':'' @ colon w) w)))"
  by (simp add: json_write_key_def separate_opened append_quoted_eq set_frame_opened colon_def and_then_assoc)

lemma close_opened:
  "json_end_array (opened False h a w) = Inr (emit ((if h then line w (length (jw_stack w)) else []) @ '']'') w)"
  "json_end_object (opened True h False w) = Inr (emit ((if h then line w (length (jw_stack w)) else []) @ ''}'') w)"
proof -
  have pop: "opened b h a w\<lparr>jw_stack := jw_stack w\<rparr> = w" for b a by (simp add: opened_def)
  show "json_end_array (opened False h a w) = Inr (emit ((if h then line w (length (jw_stack w)) else []) @ '']'') w)"
    "json_end_object (opened True h False w) = Inr (emit ((if h then line w (length (jw_stack w)) else []) @ ''}'') w)"
    by (simp_all add: json_end_array_def json_end_object_def json_close_def pop newline_line)
qed

text \<open>Opening a value leaves the frames and the bounds as they are.\<close>

lemma begin_value_keeps:
  assumes "json_begin_value w = Inr w1" "plain w"
  shows "plain w1 \<and> length (jw_stack w1) = length (jw_stack w) \<and> jw_max_depth w1 = jw_max_depth w \<and>
    jw_indent w1 = jw_indent w"
  using assms
  by (auto simp: json_begin_value_def separate_def newline_line set_frame_def plain_def split: list.splits if_splits)

section \<open>Every value that has a JSON text is written as one\<close>

text \<open>The values that JSON can carry: text is UTF-8 and numbers are finite.\<close>

fun expressible :: "node \<Rightarrow> bool" where
  "expressible (NString s) \<longleftrightarrow> validate_utf8 s = Inr ()"
| "expressible (NFloat x) \<longleftrightarrow> double_finite x"
| "expressible (NFloat32 x) \<longleftrightarrow> float_finite x"
| "expressible (NArray ns) \<longleftrightarrow> list_all expressible ns"
| "expressible (NObject ms) \<longleftrightarrow> list_all (\<lambda>m. validate_utf8 (fst m) = Inr () \<and> expressible (snd m)) ms"
| "expressible n \<longleftrightarrow> True"

definition integer_number :: "int \<Rightarrow> number" where
  "integer_number i = \<lparr>negative = i < 0, whole = show_nat (nat \<bar>i\<bar>), fraction = None, exponent = None\<rparr>"

lemma integer_number:
  "well_formed (integer_number i)" "no_leading_zero (integer_number i)" "is_integer_number (integer_number i)"
  "token_integer (integer_number i) = i" "negative (integer_number i) \<longleftrightarrow> i < 0"
  "number_text (integer_number i) = show_int i"
proof -
  have "show_nat n = [CHR ''0'']" if "hd (show_nat n) = CHR ''0''" for n
    using that char_eqI [of "CHR ''0''" 48]
    by (simp add: show_nat_leading_zero show_nat.simps [of 0]) (simp add: code_of_def)
  then have "hd (show_nat n) = CHR ''0'' \<longrightarrow> length (show_nat n) = 1" for n by force
  then show "no_leading_zero (integer_number i)" by (simp add: no_leading_zero_def integer_number_def)
qed (auto simp: well_formed_def integer_number_def is_integer_number_def token_integer_def number_text_def show_int_def)

lemma number_with_point:
  assumes "b < infinity p"
  obtains m where "json_valid (JNumber m)" "\<not> is_integer_number m" "in_range p m" "negative m = neg"
    "number_magnitude p m = b" "number_text m = with_point (float_to_chars p neg b)"
  using float_text_number [OF assms, of neg] by (metis is_integer_number_def json_valid.simps(3))

lemma append_floating_eq:
  "append_floating p neg b w =
     (if \<not> b < infinity p then Inl ''json: NaN and infinity have no JSON representation''
      else and_then (json_begin_value w) (\<lambda>w. Inr (emit (with_point (float_to_chars p neg b)) w)))"
  by (cases "json_begin_value w") (simp_all add: append_floating_def with_point_def)

definition shallow :: "json_writer \<Rightarrow> node \<Rightarrow> bool" where
  "shallow w n \<longleftrightarrow> depth n = 0 \<or> length (jw_stack w) + depth n \<le> jw_max_depth w"

definition writes_text :: "node \<Rightarrow> bool" where
  "writes_text n \<longleftrightarrow> (\<forall>w w1. json_begin_value w = Inr w1 \<longrightarrow> plain w \<longrightarrow>
     (if expressible n \<and> shallow w n
      then \<exists>t. json_valid t \<and> denotes t n \<and>
        (json_depth t = 0 \<or> length (jw_stack w) + json_depth t \<le> jw_max_depth w) \<and>
        write_node json_writer_ops n w = Inr (emit (json_text t) w1)
      else \<exists>e. write_node json_writer_ops n w = Inl e))"

lemmas json_write_defs = json_writer_ops_def json_write_null_def json_write_bool_def json_write_int_def
  json_write_uint_def json_write_float_def json_write_float32_def json_write_string_def json_write_bytes_def

lemma writes_leaf: "depth n = 0 \<Longrightarrow> writes_text n"
proof -
  assume leaf: "depth n = 0"
  show ?thesis unfolding writes_text_def
  proof (intro allI impI)
    fix w w1 assume w: "json_begin_value w = Inr w1" "plain w"
    have shallow: "shallow w n" using leaf by (simp add: shallow_def)
    have tree: "if expressible n then \<exists>t. json_valid t \<and> denotes t n \<and> json_depth t = 0 \<and>
        write_node json_writer_ops n w = Inr (emit (json_text t) w1)
      else \<exists>e. write_node json_writer_ops n w = Inl e"
    proof (cases n)
      case NNull
      with w show ?thesis by (simp add: json_write_defs)
    next
      case (NBool b)
      with w show ?thesis by (simp add: json_write_defs)
    next
      case (NInt i)
      with w integer_number [of "sint i"] show ?thesis
        by (auto simp: json_write_defs intro!: exI [of _ "JNumber (integer_number (sint i))"])
    next
      case (NUint i)
      with w integer_number [of "uint i"] show ?thesis
        by (auto simp: json_write_defs intro!: exI [of _ "JNumber (integer_number (uint i))"])
    next
      case (NFloat x)
      show ?thesis
      proof (cases "double_finite x")
        case True
        then have "double_magnitude x < infinity Binary64" by (simp add: double_finite_def)
        from number_with_point [OF this, of "double_negative x"] obtain m where
          m: "json_valid (JNumber m)" "\<not> is_integer_number m" "in_range Binary64 m" "negative m = double_negative x"
          "number_magnitude Binary64 m = double_magnitude x"
          "number_text m = with_point (float_to_chars Binary64 (double_negative x) (double_magnitude x))" .
        have "denotes (JNumber m) (NFloat x)"
          by (simp add: m(2,3)) (simp only: m(4,5) double_of_magnitude)
        moreover have "write_node json_writer_ops n w = Inr (emit (json_text (JNumber m)) w1)"
          using NFloat w True m(6) by (simp add: json_write_defs append_floating_eq double_finite_def)
        ultimately have "json_valid (JNumber m) \<and> denotes (JNumber m) n \<and> json_depth (JNumber m) = 0 \<and>
            write_node json_writer_ops n w = Inr (emit (json_text (JNumber m)) w1)"
          using m(1) NFloat by (simp del: denotes.simps)
        then have "\<exists>t. json_valid t \<and> denotes t n \<and> json_depth t = 0 \<and>
            write_node json_writer_ops n w = Inr (emit (json_text t) w1)" by (rule exI)
        moreover have "expressible n" using True NFloat by simp
        ultimately show ?thesis by (simp only: if_True simp_thms)
      qed (use NFloat in \<open>simp add: json_write_defs append_floating_eq double_finite_def\<close>)
    next
      case (NFloat32 x)
      show ?thesis
      proof (cases "float_finite x")
        case True
        then have "float_magnitude x < infinity Binary32" by (simp add: float_finite_def)
        from number_with_point [OF this, of "float_negative x"] obtain m where
          m: "json_valid (JNumber m)" "\<not> is_integer_number m" "in_range Binary32 m" "negative m = float_negative x"
          "number_magnitude Binary32 m = float_magnitude x"
          "number_text m = with_point (float_to_chars Binary32 (float_negative x) (float_magnitude x))" .
        have "denotes (JNumber m) (NFloat32 x)"
          by (simp add: m(2,3)) (simp only: m(4,5) float_of_magnitude)
        moreover have "write_node json_writer_ops n w = Inr (emit (json_text (JNumber m)) w1)"
          using NFloat32 w True m(6) by (simp add: json_write_defs append_floating_eq float_finite_def)
        ultimately have "json_valid (JNumber m) \<and> denotes (JNumber m) n \<and> json_depth (JNumber m) = 0 \<and>
            write_node json_writer_ops n w = Inr (emit (json_text (JNumber m)) w1)"
          using m(1) NFloat32 by (simp del: denotes.simps)
        then have "\<exists>t. json_valid t \<and> denotes t n \<and> json_depth t = 0 \<and>
            write_node json_writer_ops n w = Inr (emit (json_text t) w1)" by (rule exI)
        moreover have "expressible n" using True NFloat32 by simp
        ultimately show ?thesis by (simp only: if_True simp_thms)
      qed (use NFloat32 in \<open>simp add: json_write_defs append_floating_eq float_finite_def\<close>)
    next
      case (NString s)
      show ?thesis
      proof (cases "validate_utf8 s")
        case (Inl e)
        with NString w show ?thesis by (simp add: json_write_defs append_quoted_eq)
      next
        case (Inr u)
        then have valid: "validate_utf8 s = Inr ()" by simp
        from string_tree [OF this] obtain cs where "list_all char_valid cs" "body_value cs = s"
          "body_text cs = concat (map quoted_char s)" .
        with valid NString w show ?thesis
          by (auto simp: json_write_defs append_quoted_eq quoted_def intro!: exI [of _ "JString cs"])
      qed
    next
      case (NBytes bs)
      with w plain_tree [OF plain_base64, of bs] base64_round_trip [of bs] show ?thesis
        by (auto simp: json_write_defs quoted_def intro!: exI [of _ "JString (map (\<lambda>c. Raw (code_of c)) (base64_encode bs))"])
    qed (use leaf in simp_all)
    with shallow leaf show "if expressible n \<and> shallow w n
      then \<exists>t. json_valid t \<and> denotes t n \<and>
        (json_depth t = 0 \<or> length (jw_stack w) + json_depth t \<le> jw_max_depth w) \<and>
        write_node json_writer_ops n w = Inr (emit (json_text t) w1)
      else \<exists>e. write_node json_writer_ops n w = Inl e" by auto
  qed
qed

lemma write_nodes_text:
  assumes "\<And>n. n \<in> set ns \<Longrightarrow> writes_text n" "plain w" "blanks e" "length (jw_stack w) < jw_max_depth w"
  shows "if list_all expressible ns \<and> list_all (\<lambda>n. Suc (length (jw_stack w)) + depth n \<le> jw_max_depth w) ns
    then \<exists>items s. items_valid items \<and> items_denote items ns \<and>
      Suc (length (jw_stack w)) + items_depth items \<le> jw_max_depth w \<and>
      write_nodes json_writer_ops ns (opened False h False w) = Inr (opened False (h \<or> ns \<noteq> []) False (emit s w)) \<and>
      s @ (if ns = [] then [] else e) = items_left (\<not> h) [] items
    else \<exists>x. write_nodes json_writer_ops ns (opened False h False w) = Inl x"
  using assms
proof (induction ns arbitrary: h w)
  case Nil
  then show ?case by (intro if_splits(1) [THEN iffD2]) (auto intro!: exI [of _ "[]"])
next
  case (Cons n ns)
  let ?w = "opened False h False w" let ?v = "emit (gap h w) w"
  have ready: "json_begin_value ?w = Inr (opened False True False ?v)" by (rule begin_item)
  have "writes_text n" using Cons.prems(1) by simp
  note node = this [unfolded writes_text_def, rule_format, OF ready]
  show ?case
  proof (cases "expressible n \<and> Suc (length (jw_stack w)) + depth n \<le> jw_max_depth w")
    case True
    then have "expressible n \<and> shallow ?w n" by (simp add: shallow_def)
    then obtain t where t: "json_valid t" "denotes t n" "Suc (length (jw_stack w)) + json_depth t \<le> jw_max_depth w"
      "write_node json_writer_ops n ?w = Inr (emit (json_text t) (opened False True False ?v))"
      using node Cons.prems(2,4) by auto
    define v where "v = emit (gap h w @ json_text t) w"
    have v: "plain v" "length (jw_stack v) = length (jw_stack w)" "jw_max_depth v = jw_max_depth w"
      using Cons.prems(2) by (simp_all add: v_def)
    have written: "write_node json_writer_ops n ?w = Inr (opened False True False v)" using t(4) by (simp add: v_def)
    have IH: "if list_all expressible ns \<and> list_all (\<lambda>n. Suc (length (jw_stack w)) + depth n \<le> jw_max_depth w) ns
      then \<exists>items s. items_valid items \<and> items_denote items ns \<and>
        Suc (length (jw_stack w)) + items_depth items \<le> jw_max_depth w \<and>
        write_nodes json_writer_ops ns (opened False True False v) = Inr (opened False (True \<or> ns \<noteq> []) False (emit s v)) \<and>
        s @ (if ns = [] then [] else e) = items_left (\<not> True) [] items
      else \<exists>x. write_nodes json_writer_ops ns (opened False True False v) = Inl x"
      using Cons.IH [of v True, OF _ v(1) Cons.prems(3)] Cons.prems(1,4) unfolding v by simp
    show ?thesis
    proof (cases "list_all expressible ns \<and> list_all (\<lambda>n. Suc (length (jw_stack w)) + depth n \<le> jw_max_depth w) ns")
      case all: True
      with IH obtain items s where rest: "items_valid items" "items_denote items ns"
        "Suc (length (jw_stack w)) + items_depth items \<le> jw_max_depth w"
        "write_nodes json_writer_ops ns (opened False True False v) = Inr (opened False True False (emit s v))"
        "s @ (if ns = [] then [] else e) = items_left False [] items" by auto
      define a where "a = (if ns = [] then e else [])"
      have after: "s @ e = items_left False a items"
        using rest(2,5) by (cases ns) (auto simp: a_def items_left_def items_tail_def)
      let ?u = "line w (Suc (length (jw_stack w)))"
      have "(gap h w @ json_text t @ s) @ e = items_left (\<not> h) [] (Item ?u t a # items)"
        using after by (simp add: items_left_Cons gap_def)
      moreover have "blanks a" using Cons.prems(3) by (simp add: a_def)
      moreover have "Suc (length (jw_stack w)) + max (json_depth t) (items_depth items) \<le> jw_max_depth w"
        using t(3) rest(3) True by (cases "json_depth t \<le> items_depth items") simp_all
      ultimately have result: "items_valid (Item ?u t a # items) \<and> items_denote (Item ?u t a # items) (n # ns) \<and>
          Suc (length (jw_stack w)) + items_depth (Item ?u t a # items) \<le> jw_max_depth w \<and>
          write_nodes json_writer_ops (n # ns) ?w =
            Inr (opened False (h \<or> n # ns \<noteq> []) False (emit (gap h w @ json_text t @ s) w)) \<and>
          (gap h w @ json_text t @ s) @ (if n # ns = [] then [] else e) = items_left (\<not> h) [] (Item ?u t a # items)"
        using t(1,2) rest(1,2,4) written by (simp add: v_def)
      have cond: "list_all expressible (n # ns) \<and> list_all (\<lambda>n. Suc (length (jw_stack w)) + depth n \<le> jw_max_depth w) (n # ns)"
        using all True by simp
      show ?thesis unfolding if_P [OF cond] using result by blast
    next
      case False
      with IH written True show ?thesis by auto
    qed
  next
    case False
    then have "\<not> (expressible n \<and> shallow ?w n)" using Cons.prems(4) by (auto simp: shallow_def)
    with node Cons.prems(2) obtain x where "write_node json_writer_ops n ?w = Inl x" by auto
    with False show ?thesis by auto
  qed
qed

lemma write_members_text:
  assumes "\<And>m. m \<in> set ms \<Longrightarrow> writes_text (snd m)" "plain w" "blanks e" "length (jw_stack w) < jw_max_depth w"
  shows "if list_all (\<lambda>m. validate_utf8 (fst m) = Inr () \<and> expressible (snd m)) ms \<and>
      list_all (\<lambda>m. Suc (length (jw_stack w)) + depth (snd m) \<le> jw_max_depth w) ms
    then \<exists>entries s. entries_valid entries \<and> entries_denote entries ms \<and>
      Suc (length (jw_stack w)) + entries_depth entries \<le> jw_max_depth w \<and>
      write_members json_writer_ops ms (opened True h False w) = Inr (opened True (h \<or> ms \<noteq> []) False (emit s w)) \<and>
      s @ (if ms = [] then [] else e) = entries_left (\<not> h) [] entries
    else \<exists>x. write_members json_writer_ops ms (opened True h False w) = Inl x"
  using assms
proof (induction ms arbitrary: h w)
  case Nil
  then show ?case by (intro if_splits(1) [THEN iffD2]) (auto intro!: exI [of _ "[]"])
next
  case (Cons m ms)
  obtain k n where m: "m = (k, n)" by (cases m)
  let ?q = "CHR 0x22 # concat (map quoted_char k) @ [CHR 0x22]"
  let ?v = "emit (gap h w @ ?q @ '':'' @ colon w) w"
  have key: "write_key json_writer_ops k (opened True h False w) =
      and_then (validate_utf8 k) (\<lambda>_. Inr (opened True True True ?v))"
    using write_key_opened [of k h w] by (simp add: json_writer_ops_def)
  have "writes_text n" using Cons.prems(1) [of m] m by simp
  note node = this [unfolded writes_text_def, rule_format, OF begin_entry, of ?v]
  show ?case
  proof (cases "validate_utf8 k = Inr () \<and> expressible n \<and> Suc (length (jw_stack w)) + depth n \<le> jw_max_depth w")
    case True
    then have "expressible n \<and> shallow (opened True True True ?v) n" by (simp add: shallow_def)
    then obtain t where t: "json_valid t" "denotes t n" "Suc (length (jw_stack w)) + json_depth t \<le> jw_max_depth w"
      "write_node json_writer_ops n (opened True True True ?v) = Inr (emit (json_text t) (opened True True False ?v))"
      using node Cons.prems(2,4) by auto
    obtain cs where cs: "list_all char_valid cs" "body_value cs = k" "body_text cs = concat (map quoted_char k)"
      using string_tree [of k] True by blast
    define v where "v = emit (gap h w @ quoted cs @ '':'' @ colon w @ json_text t) w"
    have v: "plain v" "length (jw_stack v) = length (jw_stack w)" "jw_max_depth v = jw_max_depth w"
      using Cons.prems(2) by (simp_all add: v_def)
    have written: "and_then (write_key json_writer_ops k (opened True h False w)) (\<lambda>w.
        and_then (write_node json_writer_ops n w) (write_members json_writer_ops ms)) =
      write_members json_writer_ops ms (opened True True False v)"
      using key True t(4) by (simp add: v_def quoted_def cs(3))
    let ?good = "list_all (\<lambda>m. validate_utf8 (fst m) = Inr () \<and> expressible (snd m)) ms \<and>
      list_all (\<lambda>m. Suc (length (jw_stack w)) + depth (snd m) \<le> jw_max_depth w) ms"
    have IH: "if ?good
      then \<exists>entries s. entries_valid entries \<and> entries_denote entries ms \<and>
        Suc (length (jw_stack w)) + entries_depth entries \<le> jw_max_depth w \<and>
        write_members json_writer_ops ms (opened True True False v) = Inr (opened True (True \<or> ms \<noteq> []) False (emit s v)) \<and>
        s @ (if ms = [] then [] else e) = entries_left (\<not> True) [] entries
      else \<exists>x. write_members json_writer_ops ms (opened True True False v) = Inl x"
      using Cons.IH [of v True, OF _ v(1) Cons.prems(3)] Cons.prems(1,4) unfolding v by simp
    show ?thesis
    proof (cases ?good)
      case all: True
      with IH obtain entries s where rest: "entries_valid entries" "entries_denote entries ms"
        "Suc (length (jw_stack w)) + entries_depth entries \<le> jw_max_depth w"
        "write_members json_writer_ops ms (opened True True False v) = Inr (opened True True False (emit s v))"
        "s @ (if ms = [] then [] else e) = entries_left False [] entries" by auto
      define a where "a = (if ms = [] then e else [])"
      have after: "s @ e = entries_left False a entries"
        using rest(2,5) by (cases ms) (auto simp: a_def entries_left_def entries_tail_def)
      let ?entry = "Entry (line w (Suc (length (jw_stack w)))) cs [] (colon w) t a"
      let ?s = "gap h w @ quoted cs @ '':'' @ colon w @ json_text t @ s"
      have "?s @ e = entries_left (\<not> h) [] (?entry # entries)"
        using after by (simp add: entries_left_Cons gap_def)
      moreover have "blanks a" "blanks (colon w)" using Cons.prems(3) by (simp_all add: a_def colon_def)
      moreover have "Suc (length (jw_stack w)) + max (json_depth t) (entries_depth entries) \<le> jw_max_depth w"
        using t(3) rest(3) True by (cases "json_depth t \<le> entries_depth entries") simp_all
      ultimately have result: "entries_valid (?entry # entries) \<and> entries_denote (?entry # entries) (m # ms) \<and>
          Suc (length (jw_stack w)) + entries_depth (?entry # entries) \<le> jw_max_depth w \<and>
          write_members json_writer_ops (m # ms) (opened True h False w) =
            Inr (opened True (h \<or> m # ms \<noteq> []) False (emit ?s w)) \<and>
          ?s @ (if m # ms = [] then [] else e) = entries_left (\<not> h) [] (?entry # entries)"
        using t(1,2) rest(1,2,4) written cs(1,2) m by (simp add: v_def)
      have cond: "list_all (\<lambda>m. validate_utf8 (fst m) = Inr () \<and> expressible (snd m)) (m # ms) \<and>
          list_all (\<lambda>m. Suc (length (jw_stack w)) + depth (snd m) \<le> jw_max_depth w) (m # ms)"
        using all True m by simp
      show ?thesis unfolding if_P [OF cond] using result by blast
    next
      case False
      with IH written True m show ?thesis by auto
    qed
  next
    case False
    have "\<exists>x. and_then (write_key json_writer_ops k (opened True h False w)) (\<lambda>w.
        and_then (write_node json_writer_ops n w) (write_members json_writer_ops ms)) = Inl x"
    proof (cases "validate_utf8 k")
      case (Inl x)
      then show ?thesis using key by simp
    next
      case (Inr u)
      with False have "\<not> (expressible n \<and> shallow (opened True True True ?v) n)"
        using Cons.prems(4) by (auto simp: shallow_def)
      with node Cons.prems(2) obtain x where "write_node json_writer_ops n (opened True True True ?v) = Inl x" by auto
      with Inr key show ?thesis by simp
    qed
    with False m show ?thesis by auto
  qed
qed

lemma texts_array:
  assumes "\<And>n. n \<in> set ns \<Longrightarrow> writes_text n"
  shows "writes_text (NArray ns)"
  unfolding writes_text_def
proof (intro allI impI)
  fix w w1 assume w: "json_begin_value w = Inr w1" "plain w"
  note keeps = begin_value_keeps [OF w]
  let ?v = "emit ''['' w1"
  let ?e = "line w1 (length (jw_stack w))"
  let ?tail = "if ns = [] then [] else ?e"
  have deep: "shallow w (NArray ns) \<longleftrightarrow> length (jw_stack w) < jw_max_depth w \<and>
      list_all (\<lambda>n. Suc (length (jw_stack ?v)) + depth n \<le> jw_max_depth ?v) ns"
    using depth_array_le [of ns "jw_max_depth w - length (jw_stack w)"] keeps
    by (auto simp: shallow_def list_all_iff simp del: depth.simps)
  show "if expressible (NArray ns) \<and> shallow w (NArray ns)
    then \<exists>t. json_valid t \<and> denotes t (NArray ns) \<and>
      (json_depth t = 0 \<or> length (jw_stack w) + json_depth t \<le> jw_max_depth w) \<and>
      write_node json_writer_ops (NArray ns) w = Inr (emit (json_text t) w1)
    else \<exists>e. write_node json_writer_ops (NArray ns) w = Inl e"
  proof (cases "length (jw_stack w) < jw_max_depth w")
    case room: True
    have started: "begin_array json_writer_ops (length ns) w = Inr (opened False False False ?v)"
      using w(1) room keeps
      by (simp add: json_writer_ops_def json_begin_array_def json_check_depth_def push_frame_opened)
    have v: "plain ?v" "length (jw_stack ?v) < jw_max_depth ?v" using room keeps by simp_all
    note inner = write_nodes_text [where ns = ns and h = False, OF assms v(1) blanks_line [of w1 "length (jw_stack w)"] v(2)]
    show ?thesis
    proof (cases "expressible (NArray ns) \<and> shallow w (NArray ns)")
      case True
      with deep inner obtain items s where items: "items_valid items" "items_denote items ns"
        "Suc (length (jw_stack ?v)) + items_depth items \<le> jw_max_depth ?v"
        "write_nodes json_writer_ops ns (opened False False False ?v) =
           Inr (opened False (ns \<noteq> []) False (emit s ?v))"
        "s @ ?tail = items_left True [] items" by auto
      have "end_array json_writer_ops (opened False (ns \<noteq> []) False (emit s ?v)) = Inr (emit (s @ ?tail @ '']'') ?v)"
        using close_opened(1) [of "ns \<noteq> []" False "emit s ?v"] keeps
        by (simp add: json_writer_ops_def line_def)
      moreover have "s @ ?tail @ '']'' = items_left True [] items @ '']''" using items(5) by simp
      moreover have "json_text (JArray [] items) = ''['' @ items_left True [] items @ '']''"
        by (simp add: items_left_def)
      ultimately have "write_node json_writer_ops (NArray ns) w = Inr (emit (json_text (JArray [] items)) w1)"
        using started items(4) by simp
      moreover have "json_valid (JArray [] items) \<and> denotes (JArray [] items) (NArray ns) \<and>
          length (jw_stack w) + json_depth (JArray [] items) \<le> jw_max_depth w"
        using items(1-3) keeps by simp
      ultimately show ?thesis unfolding if_P [OF True] by blast
    next
      case False
      with deep room inner obtain x where
        "write_nodes json_writer_ops ns (opened False False False ?v) = Inl x" by auto
      with False started show ?thesis by auto
    qed
  next
    case False
    then have "begin_array json_writer_ops (length ns) w =
        Inl (''json writer: nesting is deeper than '' @ show_nat (jw_max_depth w))"
      by (simp add: json_writer_ops_def json_begin_array_def json_check_depth_def)
    moreover have "\<not> (expressible (NArray ns) \<and> shallow w (NArray ns))" using deep False by blast
    ultimately show ?thesis by simp
  qed
qed

lemma texts_object:
  assumes "\<And>m. m \<in> set ms \<Longrightarrow> writes_text (snd m)"
  shows "writes_text (NObject ms)"
  unfolding writes_text_def
proof (intro allI impI)
  fix w w1 assume w: "json_begin_value w = Inr w1" "plain w"
  note keeps = begin_value_keeps [OF w]
  let ?v = "emit ''{'' w1"
  let ?e = "line w1 (length (jw_stack w))"
  let ?tail = "if ms = [] then [] else ?e"
  have deep: "shallow w (NObject ms) \<longleftrightarrow> length (jw_stack w) < jw_max_depth w \<and>
      list_all (\<lambda>m. Suc (length (jw_stack ?v)) + depth (snd m) \<le> jw_max_depth ?v) ms"
    using depth_object_le [of ms "jw_max_depth w - length (jw_stack w)"] keeps
    by (auto simp: shallow_def list_all_iff simp del: depth.simps)
  show "if expressible (NObject ms) \<and> shallow w (NObject ms)
    then \<exists>t. json_valid t \<and> denotes t (NObject ms) \<and>
      (json_depth t = 0 \<or> length (jw_stack w) + json_depth t \<le> jw_max_depth w) \<and>
      write_node json_writer_ops (NObject ms) w = Inr (emit (json_text t) w1)
    else \<exists>e. write_node json_writer_ops (NObject ms) w = Inl e"
  proof (cases "length (jw_stack w) < jw_max_depth w")
    case room: True
    have started: "begin_object json_writer_ops (length ms) w = Inr (opened True False False ?v)"
      using w(1) room keeps
      by (simp add: json_writer_ops_def json_begin_object_def json_check_depth_def push_frame_opened)
    have v: "plain ?v" "length (jw_stack ?v) < jw_max_depth ?v" using room keeps by simp_all
    note inner = write_members_text [where ms = ms and h = False, OF assms v(1) blanks_line [of w1 "length (jw_stack w)"] v(2)]
    show ?thesis
    proof (cases "expressible (NObject ms) \<and> shallow w (NObject ms)")
      case True
      with deep inner obtain items s where items: "entries_valid items" "entries_denote items ms"
        "Suc (length (jw_stack ?v)) + entries_depth items \<le> jw_max_depth ?v"
        "write_members json_writer_ops ms (opened True False False ?v) =
           Inr (opened True (ms \<noteq> []) False (emit s ?v))"
        "s @ ?tail = entries_left True [] items" by auto
      have "end_object json_writer_ops (opened True (ms \<noteq> []) False (emit s ?v)) = Inr (emit (s @ ?tail @ ''}'') ?v)"
        using close_opened(2) [of "ms \<noteq> []" "emit s ?v"] keeps
        by (simp add: json_writer_ops_def line_def)
      moreover have "s @ ?tail @ ''}'' = entries_left True [] items @ ''}''" using items(5) by simp
      moreover have "json_text (JObject [] items) = ''{'' @ entries_left True [] items @ ''}''"
        by (simp add: entries_left_def)
      ultimately have "write_node json_writer_ops (NObject ms) w = Inr (emit (json_text (JObject [] items)) w1)"
        using started items(4) by simp
      moreover have "json_valid (JObject [] items) \<and> denotes (JObject [] items) (NObject ms) \<and>
          length (jw_stack w) + json_depth (JObject [] items) \<le> jw_max_depth w"
        using items(1-3) keeps by simp
      ultimately show ?thesis unfolding if_P [OF True] by blast
    next
      case False
      with deep room inner obtain x where
        "write_members json_writer_ops ms (opened True False False ?v) = Inl x" by auto
      with False started show ?thesis by auto
    qed
  next
    case False
    then have "begin_object json_writer_ops (length ms) w =
        Inl (''json writer: nesting is deeper than '' @ show_nat (jw_max_depth w))"
      by (simp add: json_writer_ops_def json_begin_object_def json_check_depth_def)
    moreover have "\<not> (expressible (NObject ms) \<and> shallow w (NObject ms))" using deep False by blast
    ultimately show ?thesis by simp
  qed
qed

lemma writes_text_all: "writes_text n"
  by (induction n rule: node_induct) (simp_all add: writes_leaf texts_array texts_object)

section \<open>The backend is a format\<close>

definition json_okay :: "nat \<Rightarrow> node \<Rightarrow> bool" where
  "json_okay limit n \<longleftrightarrow> expressible n \<and> depth n \<le> limit"

definition json_open :: "nat \<Rightarrow> json_writer \<Rightarrow> json_reader" where
  "json_open limit w = json_reader (jw_output w) limit"

lemma json_written:
  "if json_okay limit n
   then \<exists>t. json_valid t \<and> denotes t n \<and> json_depth t \<le> limit \<and> write_node json_writer_ops n (json_writer indent limit) =
     Inr ((json_writer indent limit)\<lparr>jw_output := json_text t, jw_root_started := True\<rparr>)
   else \<exists>e. write_node json_writer_ops n (json_writer indent limit) = Inl e"
proof -
  let ?w = "json_writer indent limit"
  have start: "json_begin_value ?w = Inr (?w\<lparr>jw_root_started := True\<rparr>)" "plain ?w"
    by (simp_all add: json_begin_value_def json_writer_def plain_def)
  have "emit s (?w\<lparr>jw_root_started := True\<rparr>) = ?w\<lparr>jw_output := s, jw_root_started := True\<rparr>" for s
    by (simp add: emit_def json_writer_def)
  moreover have "shallow ?w n \<longleftrightarrow> depth n \<le> limit" by (auto simp: shallow_def json_writer_def)
  moreover have "json_depth t = 0 \<or> length (jw_stack ?w) + json_depth t \<le> jw_max_depth ?w \<longleftrightarrow> json_depth t \<le> limit" for t
    by (auto simp: json_writer_def)
  ultimately show ?thesis
    using writes_text_all [of n, unfolded writes_text_def, rule_format, OF start]
    by (simp only: json_okay_def)
qed

lemma json_document_sees:
  assumes "json_valid t" "denotes t n" "json_depth t \<le> limit" "blanks u" "blanks v"
  shows "\<exists>r. json_sees (json_reader (u @ json_text t @ v) limit) n r \<and> json_finish r = Inr (ahead (length v) r)"
proof -
  let ?r = "json_reader (u @ json_text t @ v) limit"
  have here: "sits ?r ((u @ json_text t) @ v)" by (simp add: sits_def json_reader_def)
  have after: "sits (ahead (length (u @ json_text t)) ?r) (v @ [])" using sits_append [OF here] by simp
  have "json_sees ?r n (ahead (length (u @ json_text t)) ?r)"
    unfolding json_sees_def
    using assms tookI [OF here] sits_append [OF here] may_follow_tail [OF assms(5), of "[]" t]
    by (intro exI [of _ u] exI [of _ t]) (simp add: deep_enough_def json_reader_def sits_left)
  moreover have "json_finish (ahead (length (u @ json_text t)) ?r) =
      Inr (ahead (length v) (ahead (length (u @ json_text t)) ?r))"
    using skip_whitespace_sits [OF after assms(5)] by (simp add: json_finish_def json_reader_def)
  ultimately show ?thesis by blast
qed

interpretation json: format json_reader_ops json_sees json_elements json_members
  json_writer_ops "json_writer indent limit" json_complete "json_open limit" json_finish "json_okay limit"
  for indent limit
proof unfold_locales
  show "\<exists>k r1. peek json_reader_ops r = Inr (k, r1) \<and> peeks_as k n \<and> json_sees r1 n r'" if "json_sees r n r'" for r n r'
    using json_peek_sees [OF that] by (simp add: json_reader_ops_def)
  show "\<exists>w r. write_node json_writer_ops n (json_writer indent limit) = Inr w \<and> json_complete w \<and>
      json_sees (json_open limit w) n r \<and> json_finish r = Inr r" if okay: "json_okay limit n" for n
  proof -
    obtain t where t: "json_valid t" "denotes t n" "json_depth t \<le> limit"
      "write_node json_writer_ops n (json_writer indent limit) =
         Inr ((json_writer indent limit)\<lparr>jw_output := json_text t, jw_root_started := True\<rparr>)"
      using json_written [of limit n indent] okay by auto
    from json_document_sees [OF t(1-3), of "[]" "[]"] t(4) show ?thesis
      by (auto simp: json_complete_def json_open_def json_writer_def)
  qed
  show "\<exists>r1 r2. next_element json_reader_ops r = Inr (True, r1) \<and> json_sees r1 n r2 \<and> json_elements r2 ns r'"
    if "json_elements r (n # ns) r'" for r n ns r'
    using json_elements_Cons [OF that] by (simp add: json_reader_ops_def)
  show "\<exists>r1 r2. next_key json_reader_ops r = Inr (Some k, r1) \<and> json_sees r1 n r2 \<and> json_members r2 ms r'"
    if "json_members r ((k, n) # ms) r'" for r k n ms r'
    using json_members_Cons [OF that] by (simp add: json_reader_ops_def)
  show "if int64_range i then read_int json_reader_ops r = Inr (word_of_int i, r') else \<exists>e. read_int json_reader_ops r = Inl e"
    if "json_sees r n r'" "node_integer n = Some i" for r n r' i
    using json_int_sees [OF that] by (simp add: json_reader_ops_def)
  show "if uint64_range i then read_uint json_reader_ops r = Inr (word_of_int i, r') else \<exists>e. read_uint json_reader_ops r = Inl e"
    if "json_sees r n r'" "node_integer n = Some i" for r n r' i
    using json_uint_sees [OF that] by (simp add: json_reader_ops_def)
qed (auto simp: json_reader_ops_def json_null_sees json_bool_sees json_float_sees json_float_of_int_sees
    json_float32_sees json_string_sees json_bytes_sees json_skip_sees
    dest: json_array_sees json_object_sees json_elements_Nil json_members_Nil)

section \<open>Properties\<close>

text \<open>C9: The JSON writer, driven through the calls that the interface prescribes for a value and with any
  indentation, succeeds exactly on the values JSON can carry within the depth limit (text and keys in UTF-8,
  finite numbers). It then has written one complete document, which is a JSON text in the sense of RFC 8259
  nested no deeper than the limit.\<close>

theorem json_write_value:
  "case write_node json_writer_ops n (json_writer indent limit) of
     Inl e \<Rightarrow> \<not> json_okay limit n
   | Inr w \<Rightarrow> json_okay limit n \<and> json_complete w \<and> accepts limit (jw_output w)"
proof (cases "json_okay limit n")
  case True
  then obtain t where t: "json_valid t" "json_depth t \<le> limit" "write_node json_writer_ops n (json_writer indent limit) =
      Inr ((json_writer indent limit)\<lparr>jw_output := json_text t, jw_root_started := True\<rparr>)"
    using json_written [of limit n indent] by auto
  have "accepts limit (json_text t)"
    unfolding accepts_iff using t(1,2) by (intro exI [of _ "[]"] exI [of _ t]) simp
  with t(3) True show ?thesis by (simp add: json_complete_def json_writer_def)
next
  case False
  with json_written [of limit n indent] show ?thesis by auto
qed

end
