(* ===== verification/Serial_Types.thy ===== *)
theory Serial_Types
  imports Data_Model Utf
begin

text \<open>
  The types and values that \<open>reflgen::serialize\<close> and \<open>reflgen::deserialize\<close> are instantiated
  at. The C++ templates dispatch on \<open>category_of<T>()\<close> (\<open>serial/detail/traits.h\<close>); the
  universe \<open>ty\<close> has one constructor per category, and a value of any of them is a tree. Only
  smart pointers and reference wrappers leave the tree: they hold the index of a cell of the
  object heap. Described classes (\<open>core/schema.h\<close>, \<open>core/attributes.h\<close>), enumerator tables
  (\<open>core/enum.h\<close>) and the registry of run-time types (\<open>runtime/registry.h\<close>) are data. \<open>long double\<close> and types for
  which the user specializes \<open>serializer\<close> are left out.
\<close>

section \<open>Scalars and text\<close>

record integer_type =
  integer_name :: string
  integer_signed :: bool
  integer_width :: nat

definition lowest :: "integer_type \<Rightarrow> int" where
  "lowest t = (if integer_signed t then - (2 ^ (integer_width t - 1)) else 0)"

definition highest :: "integer_type \<Rightarrow> int" where
  "highest t = (if integer_signed t then 2 ^ (integer_width t - 1) - 1 else 2 ^ integer_width t - 1)"

definition holds :: "integer_type \<Rightarrow> int \<Rightarrow> bool" where
  "holds t i \<longleftrightarrow> lowest t \<le> i \<and> i \<le> highest t"

text \<open>The integer types of C++ have at most 64 bits.\<close>

definition machine_type :: "integer_type \<Rightarrow> bool" where
  "machine_type t \<longleftrightarrow> 0 < integer_width t \<and> integer_width t \<le> 64"

text \<open>
  \<open>enum_entries<E>\<close>, in the order of the table, and the two searches of \<open>core/enum.h\<close>. An
  empty name is what \<open>enum_name\<close> returns for a value without an enumerator.
\<close>

record enum_type =
  enum_type_name :: string
  enum_entries :: "(string \<times> int) list"
  enum_underlying :: integer_type

fun enum_name_in :: "(string \<times> int) list \<Rightarrow> int \<Rightarrow> string" where
  "enum_name_in [] v = []"
| "enum_name_in ((name, value) # entries) v = (if value = v then name else enum_name_in entries v)"

fun enum_cast_in :: "(string \<times> int) list \<Rightarrow> string \<Rightarrow> int option" where
  "enum_cast_in [] s = None"
| "enum_cast_in ((name, value) # entries) s = (if name = s then Some value else enum_cast_in entries s)"

definition enum_name :: "enum_type \<Rightarrow> int \<Rightarrow> string" where
  "enum_name e v = enum_name_in (enum_entries e) v"

definition enum_cast :: "enum_type \<Rightarrow> string \<Rightarrow> int option" where
  "enum_cast e s = enum_cast_in (enum_entries e) s"

text \<open>A table whose names tell its values apart: no name is given twice.\<close>

definition proper_enum :: "enum_type \<Rightarrow> bool" where
  "proper_enum e \<longleftrightarrow> distinct (map fst (enum_entries e))"

lemma enum_name_in_member: "enum_name_in es v \<noteq> [] \<Longrightarrow> (enum_name_in es v, v) \<in> set es"
  by (induction es v rule: enum_name_in.induct) (auto split: if_splits)

lemma enum_cast_in_member: "distinct (map fst es) \<Longrightarrow> enum_cast_in es s = Some v \<longleftrightarrow> (s, v) \<in> set es"
  by (induction es s rule: enum_cast_in.induct) (auto simp: rev_image_eqI)

lemma enum_cast_name: "proper_enum e \<Longrightarrow> enum_name e v \<noteq> [] \<Longrightarrow> enum_cast e (enum_name e v) = Some v"
  by (simp add: enum_cast_def enum_name_def proper_enum_def enum_cast_in_member enum_name_in_member)

text \<open>
  A string of any character type: its code units at one, two or four bytes. The conversions of
  \<open>serial/detail/utf.h\<close>: one-byte text passes through, except that \<open>char8_t\<close> is checked on
  reading.
\<close>

datatype char_type = Char_Type | Char8_Type | Char16_Type string | Char32_Type string

datatype code_units = Text8 string | Text16 "16 word list" | Text32 "32 word list"

fun char_type_name :: "char_type \<Rightarrow> string" where
  "char_type_name Char_Type = ''char''"
| "char_type_name Char8_Type = ''char8_t''"
| "char_type_name (Char16_Type name) = name"
| "char_type_name (Char32_Type name) = name"

fun to_utf8 :: "code_units \<Rightarrow> string fallible" where
  "to_utf8 (Text8 s) = Inr s"
| "to_utf8 (Text16 us) = utf16_to_utf8 [] us"
| "to_utf8 (Text32 us) = utf32_to_utf8 [] us"

fun from_utf8 :: "char_type \<Rightarrow> string \<Rightarrow> code_units fallible" where
  "from_utf8 Char_Type s = Inr (Text8 s)"
| "from_utf8 Char8_Type s = and_then (validate_utf8 s) (\<lambda>_. Inr (Text8 s))"
| "from_utf8 (Char16_Type name) s = and_then (utf8_to_utf16 s) (\<lambda>us. Inr (Text16 us))"
| "from_utf8 (Char32_Type name) s = and_then (utf8_to_utf32 s) (\<lambda>us. Inr (Text32 us))"

fun text_size :: "code_units \<Rightarrow> nat" where
  "text_size (Text8 s) = length s"
| "text_size (Text16 us) = length us"
| "text_size (Text32 us) = length us"

fun text_of_type :: "char_type \<Rightarrow> code_units \<Rightarrow> bool" where
  "text_of_type Char_Type (Text8 s) = True"
| "text_of_type Char8_Type (Text8 s) = True"
| "text_of_type (Char16_Type name) (Text16 us) = True"
| "text_of_type (Char32_Type name) (Text32 us) = True"
| "text_of_type c t = False"

text \<open>A fixed array of characters: the string is what stands before the first NUL.\<close>

fun before_nul :: "code_units \<Rightarrow> code_units" where
  "before_nul (Text8 s) = Text8 (takeWhile (\<lambda>c. c \<noteq> CHR 0x00) s)"
| "before_nul (Text16 us) = Text16 (takeWhile (\<lambda>u. u \<noteq> 0) us)"
| "before_nul (Text32 us) = Text32 (takeWhile (\<lambda>u. u \<noteq> 0) us)"

fun nul_padded :: "nat \<Rightarrow> code_units \<Rightarrow> code_units" where
  "nul_padded n (Text8 s) = Text8 (map (\<lambda>i. if i < length s then s ! i else CHR 0x00) [0..<n])"
| "nul_padded n (Text16 us) = Text16 (map (\<lambda>i. if i < length us then us ! i else 0) [0..<n])"
| "nul_padded n (Text32 us) = Text32 (map (\<lambda>i. if i < length us then us ! i else 0) [0..<n])"

fun empty_text :: "char_type \<Rightarrow> code_units" where
  "empty_text (Char16_Type name) = Text16 []"
| "empty_text (Char32_Type name) = Text32 []"
| "empty_text c = Text8 []"

lemma text_round_trip: "text_of_type c t \<Longrightarrow> to_utf8 t = Inr s \<Longrightarrow> c = Char8_Type \<longrightarrow> validate_utf8 s = Inr () \<Longrightarrow>
    from_utf8 c s = Inr t"
  by (cases "(c, t)" rule: text_of_type.cases) (auto simp: utf16_utf8_back utf32_utf8_back)

lemma from_utf8_type: "from_utf8 c s = Inr t \<Longrightarrow> text_of_type c t"
  by (cases c) auto

section \<open>Values and types\<close>

datatype val =
    VBool bool
  | VChar code_units
  | VByte byte
  | VInteger int
  | VFloat "32 word"
  | VDouble "64 word"
  | VEnum int
  | VNull
  | VObject "val list"
  | VText code_units
  | VCString "code_units option"
  | VOptional "val option"
  | VPointer "nat option"
  | VVariant "(nat \<times> val) option"
  | VBits "bool list"
  | VPath string
  | VReference nat
  | VBytes "byte list"
  | VList "val list"
  | VMap "(val \<times> val) list"

text \<open>The parts of a value of a known category.\<close>

definition bool_in :: "val \<Rightarrow> bool" where
  "bool_in v = (case v of VBool b \<Rightarrow> b | _ \<Rightarrow> False)"

definition text_in :: "val \<Rightarrow> code_units" where
  "text_in v = (case v of VText t \<Rightarrow> t | VChar t \<Rightarrow> t | _ \<Rightarrow> Text8 [])"

definition c_string_in :: "val \<Rightarrow> code_units option" where
  "c_string_in v = (case v of VCString t \<Rightarrow> t | _ \<Rightarrow> None)"

definition byte_in :: "val \<Rightarrow> byte" where
  "byte_in v = (case v of VByte b \<Rightarrow> b | _ \<Rightarrow> 0)"

definition integer_in :: "val \<Rightarrow> int" where
  "integer_in v = (case v of VInteger i \<Rightarrow> i | VEnum i \<Rightarrow> i | _ \<Rightarrow> 0)"

definition float_in :: "val \<Rightarrow> 32 word" where
  "float_in v = (case v of VFloat x \<Rightarrow> x | _ \<Rightarrow> 0)"

definition double_in :: "val \<Rightarrow> 64 word" where
  "double_in v = (case v of VDouble x \<Rightarrow> x | _ \<Rightarrow> 0)"

definition bits_in :: "val \<Rightarrow> bool list" where
  "bits_in v = (case v of VBits bs \<Rightarrow> bs | _ \<Rightarrow> [])"

definition path_in :: "val \<Rightarrow> string" where
  "path_in v = (case v of VPath s \<Rightarrow> s | _ \<Rightarrow> [])"

definition bytes_in :: "val \<Rightarrow> byte list" where
  "bytes_in v = (case v of VBytes bs \<Rightarrow> bs | _ \<Rightarrow> [])"

definition optional_in :: "val \<Rightarrow> val option" where
  "optional_in v = (case v of VOptional x \<Rightarrow> x | _ \<Rightarrow> None)"

definition pointer_in :: "val \<Rightarrow> nat option" where
  "pointer_in v = (case v of VPointer a \<Rightarrow> a | VReference a \<Rightarrow> Some a | _ \<Rightarrow> None)"

definition variant_in :: "val \<Rightarrow> (nat \<times> val) option" where
  "variant_in v = (case v of VVariant x \<Rightarrow> x | _ \<Rightarrow> None)"

definition items_in :: "val \<Rightarrow> val list" where
  "items_in v = (case v of VList vs \<Rightarrow> vs | VObject vs \<Rightarrow> vs | _ \<Rightarrow> [])"

definition entries_in :: "val \<Rightarrow> (val \<times> val) list" where
  "entries_in v = (case v of VMap es \<Rightarrow> es | _ \<Rightarrow> [])"

lemmas val_parts = bool_in_def text_in_def c_string_in_def byte_in_def integer_in_def float_in_def double_in_def
  bits_in_def path_in_def bytes_in_def optional_in_def pointer_in_def variant_in_def items_in_def entries_in_def

lemma part_size:
  "x \<in> set (items_in v) \<Longrightarrow> size x < size v"
  "optional_in v = Some x \<Longrightarrow> size x < size v"
  "variant_in v = Some (i, x) \<Longrightarrow> size x < size v"
  "(k, x) \<in> set (entries_in v) \<Longrightarrow> size k < size v \<and> size x < size v"
proof -
  show "x \<in> set (items_in v) \<Longrightarrow> size x < size v"
    by (cases v) (auto simp: items_in_def less_Suc_eq_le dest: size_list_estimation')
  show "optional_in v = Some x \<Longrightarrow> size x < size v"
    by (cases v) (auto simp: optional_in_def)
  show "variant_in v = Some (i, x) \<Longrightarrow> size x < size v"
    by (cases v) (auto simp: variant_in_def)
  have "(k, x) \<in> set es \<Longrightarrow> size k < size (VMap es) \<and> size x < size (VMap es)" for es
    by (induction es) auto
  then show "(k, x) \<in> set (entries_in v) \<Longrightarrow> size k < size v \<and> size x < size v"
    by (cases v) (auto simp: entries_in_def)
qed

text \<open>
  The containers themselves are library or user code, reached through \<open>container_traits\<close>: a
  container is the list of what iterating over it visits, and inserting into it is a function
  of the type. For a container that is filled by \<open>assign\<close> that function appends.
\<close>

record sequence_traits =
  sequence_add :: "val list \<Rightarrow> val \<Rightarrow> val list"
  element_size :: nat

record map_traits =
  map_add :: "(val \<times> val) list \<Rightarrow> val \<Rightarrow> val \<Rightarrow> (val \<times> val) list"
  unique_keys :: bool

record adapter_traits =
  adapter_push :: "val list \<Rightarrow> val \<Rightarrow> val list"

datatype ty =
    TBool
  | TChar char_type
  | TByte
  | TInteger integer_type
  | TFloat
  | TDouble
  | TEnum enum_type
  | TNull
  | TObject string
  | TString char_type
  | TStringView char_type
  | TCString char_type
  | TCharArray char_type nat
  | TOptional ty
  | TPointer ty
  | TVariant "ty list"
  | TComplex ty
  | TBitset nat
  | TDuration ty
  | TTimePoint ty
  | TPath
  | TAdapter adapter_traits ty
  | TAtomic ty
  | TReference ty
  | TBytes "nat option"
  | TSequence sequence_traits ty
  | TMap map_traits ty ty
  | TFixedRange nat ty
  | TRange ty
  | TTuple "ty list"

section \<open>Described classes\<close>

text \<open>
  A field with the attributes that serialization looks at; a class with its direct bases in the
  order of \<open>base<>\<close> and its own fields. A class without a description may still be a base: it
  has no fields. A class value lists the values of its fields in the order of
  \<open>for_each_field\<close>, bases first, so the subobject of a base is a slice of it.
\<close>

record class_field =
  field_name :: string
  field_type :: ty
  serialized_name :: "string option"
  transient :: bool
  required :: bool

record class_info =
  type_id :: string
  schema_name :: string
  reflectable :: bool
  polymorphic :: bool
  default_fields :: "val list"
  default_constructible :: bool
  constructible :: bool
  writable :: bool
  readable :: bool
  base_serializable :: bool

datatype class_type = Class_Type (class_info: class_info) (direct_bases: "class_type list") (own_fields: "class_field list")

fun for_each_field :: "class_type \<Rightarrow> class_field list" where
  "for_each_field (Class_Type c bs fs) = (if reflectable c then concat (map for_each_field bs) @ fs else [])"

definition field_count :: "class_type \<Rightarrow> nat" where
  "field_count c = length (for_each_field c)"

definition serialized_key :: "class_field \<Rightarrow> string" where
  "serialized_key f = (case serialized_name f of Some name \<Rightarrow> name | None \<Rightarrow> field_name f)"

definition serialized_fields :: "class_type \<Rightarrow> class_field list" where
  "serialized_fields c = filter (\<lambda>f. \<not> transient f) (for_each_field c)"

definition serialized_field_count :: "class_type \<Rightarrow> nat" where
  "serialized_field_count c = length (serialized_fields c)"

definition serialized_keys_unique :: "class_type \<Rightarrow> bool" where
  "serialized_keys_unique c \<longleftrightarrow> distinct (map serialized_key (serialized_fields c))"

definition attributes_consistent :: "class_type \<Rightarrow> bool" where
  "attributes_consistent c \<longleftrightarrow> list_all (\<lambda>f. \<not> (transient f \<and> required f)) (for_each_field c)"

definition check_object_contract :: "class_type \<Rightarrow> bool" where
  "check_object_contract c \<longleftrightarrow> serialized_keys_unique c \<and> attributes_consistent c"

text \<open>Upcasting to a declared ancestor: the object itself, or the first base that leads there.\<close>

fun upcasts :: "class_type \<Rightarrow> string \<Rightarrow> bool" where
  "upcasts (Class_Type c bs fs) target \<longleftrightarrow> type_id c = target \<or> list_ex (\<lambda>b. upcasts b target) bs"

section \<open>The registry\<close>

text \<open>
  Descriptors are identified by the type they describe. Registering is refused for a class
  without a name and for a name that another type has taken.
\<close>

record registry =
  by_name :: "string \<Rightarrow> string option"
  by_rtti :: "string \<Rightarrow> string option"
  registered_types :: "string list"

definition empty_registry :: registry where
  "empty_registry = \<lparr>by_name = Map.empty, by_rtti = Map.empty, registered_types = []\<rparr>"

definition register_type :: "class_info \<Rightarrow> registry \<Rightarrow> registry fallible" where
  "register_type c reg =
     (if schema_name c = [] then Inl ''cannot register a type without a name; name it with schema(...).named()''
      else case by_name reg (schema_name c) of
        Some found \<Rightarrow> if found = type_id c then Inr reg
          else Inl (''a different type is already registered as '' @ [CHR 0x27] @ schema_name c @ [CHR 0x27])
      | None \<Rightarrow> Inr \<lparr>by_name = (by_name reg)(schema_name c \<mapsto> type_id c),
                   by_rtti = (if polymorphic c \<and> by_rtti reg (type_id c) = None
                              then (by_rtti reg)(type_id c \<mapsto> type_id c) else by_rtti reg),
                   registered_types = registered_types reg @ [type_id c]\<rparr>)"

text \<open>
  The program: its classes by type, the registry, and \<open>typeid(T).name()\<close>, which is whatever the
  implementation makes of it.
\<close>

record program =
  classes :: "string \<Rightarrow> class_type option"
  types :: registry
  rtti_name :: "string \<Rightarrow> string"

section \<open>Objects behind pointers\<close>

text \<open>A cell of the heap: the dynamic class of the object, where it has one, and its value.\<close>

record cell =
  cell_class :: string
  cell_value :: val

type_synonym heap = "cell list"

section \<open>Value initialization\<close>

text \<open>\<open>T{}\<close>: what a reader starts from when it makes an element, key or alternative of its own.\<close>

primrec default_value :: "program \<Rightarrow> ty \<Rightarrow> val" where
  "default_value P TBool = VBool False"
| "default_value P (TChar c) = VChar (nul_padded 1 (empty_text c))"
| "default_value P TByte = VByte 0"
| "default_value P (TInteger t) = VInteger 0"
| "default_value P TFloat = VFloat 0"
| "default_value P TDouble = VDouble 0"
| "default_value P (TEnum e) = VEnum 0"
| "default_value P TNull = VNull"
| "default_value P (TObject c) = VObject (case classes P c of Some d \<Rightarrow> default_fields (class_info d) | None \<Rightarrow> [])"
| "default_value P (TString c) = VText (empty_text c)"
| "default_value P (TStringView c) = VText (empty_text c)"
| "default_value P (TCString c) = VCString None"
| "default_value P (TCharArray c n) = VText (nul_padded n (empty_text c))"
| "default_value P (TOptional t) = VOptional None"
| "default_value P (TPointer t) = VPointer None"
| "default_value P (TVariant ts) = VVariant (case map (default_value P) ts of [] \<Rightarrow> None | v # _ \<Rightarrow> Some (0, v))"
| "default_value P (TComplex t) = VList [default_value P t, default_value P t]"
| "default_value P (TBitset n) = VBits (replicate n False)"
| "default_value P (TDuration t) = default_value P t"
| "default_value P (TTimePoint t) = default_value P t"
| "default_value P TPath = VPath []"
| "default_value P (TAdapter a t) = VList []"
| "default_value P (TAtomic t) = default_value P t"
| "default_value P (TReference t) = VReference 0"
| "default_value P (TBytes extent) = VBytes (case extent of Some n \<Rightarrow> replicate n 0 | None \<Rightarrow> [])"
| "default_value P (TSequence s t) = VList []"
| "default_value P (TMap m k t) = VMap []"
| "default_value P (TFixedRange n t) = VList (replicate n (default_value P t))"
| "default_value P (TRange t) = VList []"
| "default_value P (TTuple ts) = VList (map (default_value P) ts)"

end
