(* ===== verification/Serial_Write.thy ===== *)
theory Serial_Write
  imports Serial_Types
begin

text \<open>
  Writing: \<open>serializer<T>::write\<close> (\<open>serial/serializer.h\<close>) and the functions of
  \<open>serial/detail\<close> it dispatches to, one definition each. A function for a composite type takes
  the call \<open>serialize\<close> on its parts as an argument. The two thread-local stacks, the failure
  path and the addresses of the open indirections, are the \<open>scope\<close> of a call.
\<close>

section \<open>The scope of a call\<close>

record scope =
  sc_path :: path
  sc_active :: "nat list"

definition outermost :: scope where
  "outermost = \<lparr>sc_path = [], sc_active = []\<rparr>"

definition fail :: "string \<Rightarrow> scope \<Rightarrow> serialization_error + 'a" where
  "fail msg sc = throw (sc_path sc) msg"

definition call :: "'a fallible \<Rightarrow> scope \<Rightarrow> serialization_error + 'a" where
  "call m sc = lift (sc_path sc) m"

definition with_path :: "string \<Rightarrow> (scope \<Rightarrow> 'a) \<Rightarrow> scope \<Rightarrow> 'a" where
  "with_path segment act sc = act (sc\<lparr>sc_path := sc_path sc @ [key_segment segment]\<rparr>)"

definition with_index :: "nat \<Rightarrow> (scope \<Rightarrow> 'a) \<Rightarrow> scope \<Rightarrow> 'a" where
  "with_index i act sc = act (sc\<lparr>sc_path := sc_path sc @ [index_segment i]\<rparr>)"

text \<open>\<open>indirection_guard\<close> (\<open>cycle.h\<close>).\<close>

definition cyclic_reference :: string where
  "cyclic_reference = ''cyclic reference: the object is already being serialized on this path''"

definition indirection_guard ::
  "nat \<Rightarrow> (scope \<Rightarrow> serialization_error + 'a) \<Rightarrow> scope \<Rightarrow> serialization_error + 'a" where
  "indirection_guard address act sc =
     (if address \<in> set (sc_active sc) then fail cyclic_reference sc
      else act (sc\<lparr>sc_active := sc_active sc @ [address]\<rparr>))"

lemma with_path_cong [fundef_cong]:
  "k = k' \<Longrightarrow> sc = sc' \<Longrightarrow> f (sc'\<lparr>sc_path := sc_path sc' @ [key_segment k']\<rparr>) = g (sc'\<lparr>sc_path := sc_path sc' @ [key_segment k']\<rparr>) \<Longrightarrow>
   with_path k f sc = with_path k' g sc'"
  by (simp add: with_path_def)

lemma with_index_cong [fundef_cong]:
  "k = k' \<Longrightarrow> sc = sc' \<Longrightarrow> f (sc'\<lparr>sc_path := sc_path sc' @ [index_segment k']\<rparr>) = g (sc'\<lparr>sc_path := sc_path sc' @ [index_segment k']\<rparr>) \<Longrightarrow>
   with_index k f sc = with_index k' g sc'"
  by (simp add: with_index_def)

lemma indirection_guard_cong [fundef_cong]:
  "a = a' \<Longrightarrow> sc = sc' \<Longrightarrow>
   (a' \<notin> set (sc_active sc') \<Longrightarrow> f (sc'\<lparr>sc_active := sc_active sc' @ [a']\<rparr>) = g (sc'\<lparr>sc_active := sc_active sc' @ [a']\<rparr>)) \<Longrightarrow>
   indirection_guard a f sc = indirection_guard a' g sc'"
  by (simp add: indirection_guard_def)

section \<open>Scalars and text\<close>

definition write_integer :: "'w writer \<Rightarrow> integer_type \<Rightarrow> int \<Rightarrow> scope \<Rightarrow> 'w \<Rightarrow> serialization_error + 'w" where
  "write_integer W t i sc w =
     (if integer_signed t then call (write_int W (word_of_int i) w) sc
      else call (write_uint W (word_of_int i) w) sc)"

definition write_text :: "'w writer \<Rightarrow> code_units \<Rightarrow> scope \<Rightarrow> 'w \<Rightarrow> serialization_error + 'w" where
  "write_text W t sc w = and_then (call (to_utf8 t) sc) (\<lambda>s. call (write_string W s w) sc)"

text \<open>A character is written as the string of its one code unit, which is not paired with another.\<close>

fun write_character :: "'w writer \<Rightarrow> code_units \<Rightarrow> scope \<Rightarrow> 'w \<Rightarrow> serialization_error + 'w" where
  "write_character W (Text8 s) sc w = call (write_string W s w) sc"
| "write_character W (Text16 us) sc w =
     and_then (call (append_utf8 [] (unat (hd us))) sc) (\<lambda>s. call (write_string W s w) sc)"
| "write_character W (Text32 us) sc w =
     and_then (call (append_utf8 [] (unat (hd us))) sc) (\<lambda>s. call (write_string W s w) sc)"

definition write_enum :: "'w writer \<Rightarrow> enum_type \<Rightarrow> int \<Rightarrow> scope \<Rightarrow> 'w \<Rightarrow> serialization_error + 'w" where
  "write_enum W e v sc w =
     (if enum_name e v \<noteq> [] then call (write_string W (enum_name e v) w) sc
      else write_integer W (enum_underlying e) v sc w)"

fun write_c_string :: "'w writer \<Rightarrow> code_units option \<Rightarrow> scope \<Rightarrow> 'w \<Rightarrow> serialization_error + 'w" where
  "write_c_string W None sc w = call (write_null W w) sc"
| "write_c_string W (Some t) sc w = write_text W t sc w"

definition write_char_array :: "'w writer \<Rightarrow> code_units \<Rightarrow> scope \<Rightarrow> 'w \<Rightarrow> serialization_error + 'w" where
  "write_char_array W t = write_text W (before_nul t)"

text \<open>\<open>std::bitset::to_string\<close>: the most significant bit first; \<open>VBits\<close> counts from the lowest.\<close>

definition bits_text :: "bool list \<Rightarrow> string" where
  "bits_text bs = map (\<lambda>b. if b then CHR ''1'' else CHR ''0'') (rev bs)"

section \<open>Containers\<close>

definition key_codec :: "ty \<Rightarrow> bool" where
  "key_codec t = (case t of TString c \<Rightarrow> c = Char_Type | TBool \<Rightarrow> True | TInteger _ \<Rightarrow> True | TEnum _ \<Rightarrow> True | _ \<Rightarrow> False)"

definition map_as_object :: "map_traits \<Rightarrow> ty \<Rightarrow> bool" where
  "map_as_object m k \<longleftrightarrow> unique_keys m \<and> key_codec k"

definition integer_to_key :: "int \<Rightarrow> string" where
  "integer_to_key i = show_int i"

definition encode_key :: "ty \<Rightarrow> val \<Rightarrow> string" where
  "encode_key t v = (case t of
       TString c \<Rightarrow> (case text_in v of Text8 s \<Rightarrow> s | _ \<Rightarrow> [])
     | TBool \<Rightarrow> if bool_in v then ''true'' else ''false''
     | TEnum e \<Rightarrow> if enum_name e (integer_in v) = [] then integer_to_key (integer_in v) else enum_name e (integer_in v)
     | _ \<Rightarrow> integer_to_key (integer_in v))"

text \<open>The loops over elements, over entries of an object and over \<open>[key, value]\<close> pairs.\<close>

fun write_elements ::
  "(val \<Rightarrow> scope \<Rightarrow> 'w \<Rightarrow> serialization_error + 'w) \<Rightarrow> nat \<Rightarrow> val list \<Rightarrow> scope \<Rightarrow> 'w \<Rightarrow> serialization_error + 'w" where
  "write_elements ser index [] sc w = Inr w"
| "write_elements ser index (v # vs) sc w =
     and_then (with_index index (\<lambda>sc. ser v sc w) sc) (\<lambda>w. write_elements ser (Suc index) vs sc w)"

fun write_keyed ::
  "'w writer \<Rightarrow> ty \<Rightarrow> (val \<Rightarrow> scope \<Rightarrow> 'w \<Rightarrow> serialization_error + 'w) \<Rightarrow> (val \<times> val) list \<Rightarrow> scope \<Rightarrow> 'w \<Rightarrow>
     serialization_error + 'w" where
  "write_keyed W kt ser [] sc w = Inr w"
| "write_keyed W kt ser ((k, v) # es) sc w =
     and_then (call (write_key W (encode_key kt k) w) sc) (\<lambda>w.
       and_then (with_path (encode_key kt k) (\<lambda>sc. ser v sc w) sc) (\<lambda>w. write_keyed W kt ser es sc w))"

fun write_pairs ::
  "'w writer \<Rightarrow> (val \<Rightarrow> scope \<Rightarrow> 'w \<Rightarrow> serialization_error + 'w) \<Rightarrow> (val \<Rightarrow> scope \<Rightarrow> 'w \<Rightarrow> serialization_error + 'w) \<Rightarrow>
     nat \<Rightarrow> (val \<times> val) list \<Rightarrow> scope \<Rightarrow> 'w \<Rightarrow> serialization_error + 'w" where
  "write_pairs W ser_key ser index [] sc w = Inr w"
| "write_pairs W ser_key ser index ((k, v) # es) sc w =
     and_then (with_index index (\<lambda>sc.
         and_then (call (begin_array W 2 w) sc) (\<lambda>w.
         and_then (ser_key k sc w) (\<lambda>w. and_then (ser v sc w) (\<lambda>w. call (end_array W w) sc)))) sc)
       (\<lambda>w. write_pairs W ser_key ser (Suc index) es sc w)"

definition write_map ::
  "'w writer \<Rightarrow> (ty \<Rightarrow> val \<Rightarrow> scope \<Rightarrow> 'w \<Rightarrow> serialization_error + 'w) \<Rightarrow> map_traits \<Rightarrow> ty \<Rightarrow> ty \<Rightarrow> (val \<times> val) list \<Rightarrow>
     scope \<Rightarrow> 'w \<Rightarrow> serialization_error + 'w" where
  "write_map W ser m kt t es sc w =
     (if map_as_object m kt then
        and_then (call (begin_object W (length es) w) sc) (\<lambda>w.
        and_then (write_keyed W kt (ser t) es sc w) (\<lambda>w. call (end_object W w) sc))
      else
        and_then (call (begin_array W (length es) w) sc) (\<lambda>w.
        and_then (write_pairs W (ser kt) (ser t) 0 es sc w) (\<lambda>w. call (end_array W w) sc)))"

text \<open>The branch of \<open>write_container\<close> for sequences, and \<open>write_range\<close>.\<close>

definition write_range ::
  "'w writer \<Rightarrow> (ty \<Rightarrow> val \<Rightarrow> scope \<Rightarrow> 'w \<Rightarrow> serialization_error + 'w) \<Rightarrow> ty \<Rightarrow> val list \<Rightarrow> scope \<Rightarrow> 'w \<Rightarrow>
     serialization_error + 'w" where
  "write_range W ser t vs sc w =
     and_then (call (begin_array W (length vs) w) sc) (\<lambda>w.
     and_then (write_elements (ser t) 0 vs sc w) (\<lambda>w. call (end_array W w) sc))"

section \<open>Wrappers, sums and products\<close>

fun write_optional ::
  "'w writer \<Rightarrow> (ty \<Rightarrow> val \<Rightarrow> scope \<Rightarrow> 'w \<Rightarrow> serialization_error + 'w) \<Rightarrow> ty \<Rightarrow> val option \<Rightarrow> scope \<Rightarrow> 'w \<Rightarrow>
     serialization_error + 'w" where
  "write_optional W ser t (Some v) sc w = ser t v sc w"
| "write_optional W ser t None sc w = call (write_null W w) sc"

fun write_variant ::
  "'w writer \<Rightarrow> (ty \<Rightarrow> val \<Rightarrow> scope \<Rightarrow> 'w \<Rightarrow> serialization_error + 'w) \<Rightarrow> ty list \<Rightarrow> (nat \<times> val) option \<Rightarrow> scope \<Rightarrow> 'w \<Rightarrow>
     serialization_error + 'w" where
  "write_variant W ser ts None sc w = fail ''cannot serialize a valueless variant'' sc"
| "write_variant W ser ts (Some (i, v)) sc w =
     and_then (call (begin_array W 2 w) sc) (\<lambda>w.
     and_then (call (write_uint W (word_of_nat i) w) sc) (\<lambda>w.
     and_then (with_index 1 (\<lambda>sc. ser (ts ! i) v sc w) sc) (\<lambda>w. call (end_array W w) sc)))"

fun write_parts ::
  "(ty \<Rightarrow> val \<Rightarrow> scope \<Rightarrow> 'w \<Rightarrow> serialization_error + 'w) \<Rightarrow> nat \<Rightarrow> ty list \<Rightarrow> val list \<Rightarrow> scope \<Rightarrow> 'w \<Rightarrow>
     serialization_error + 'w" where
  "write_parts ser index (t # ts) (v # vs) sc w =
     and_then (with_index index (\<lambda>sc. ser t v sc w) sc) (\<lambda>w. write_parts ser (Suc index) ts vs sc w)"
| "write_parts ser index [] [] sc w = Inr w"
| "write_parts ser index ts vs sc w = fail [] sc"

definition write_tuple ::
  "'w writer \<Rightarrow> (ty \<Rightarrow> val \<Rightarrow> scope \<Rightarrow> 'w \<Rightarrow> serialization_error + 'w) \<Rightarrow> ty list \<Rightarrow> val list \<Rightarrow> scope \<Rightarrow> 'w \<Rightarrow>
     serialization_error + 'w" where
  "write_tuple W ser ts vs sc w =
     and_then (call (begin_array W (length ts) w) sc) (\<lambda>w.
     and_then (write_parts ser 0 ts vs sc w) (\<lambda>w. call (end_array W w) sc))"

text \<open>The two parts of a complex number are written without a path of their own.\<close>

fun write_complex ::
  "'w writer \<Rightarrow> (ty \<Rightarrow> val \<Rightarrow> scope \<Rightarrow> 'w \<Rightarrow> serialization_error + 'w) \<Rightarrow> ty \<Rightarrow> val list \<Rightarrow> scope \<Rightarrow> 'w \<Rightarrow>
     serialization_error + 'w" where
  "write_complex W ser t [re, im] sc w =
     and_then (call (begin_array W 2 w) sc) (\<lambda>w.
     and_then (ser t re sc w) (\<lambda>w. and_then (ser t im sc w) (\<lambda>w. call (end_array W w) sc)))"
| "write_complex W ser t vs sc w = fail [] sc"

section \<open>Described classes\<close>

definition write_one_field ::
  "'w writer \<Rightarrow> (ty \<Rightarrow> val \<Rightarrow> scope \<Rightarrow> 'w \<Rightarrow> serialization_error + 'w) \<Rightarrow> class_field \<Rightarrow> val \<Rightarrow> scope \<Rightarrow> 'w \<Rightarrow>
     serialization_error + 'w" where
  "write_one_field W ser f v sc w =
     (if transient f then Inr w
      else and_then (call (write_key W (serialized_key f) w) sc)
             (\<lambda>w. with_path (serialized_key f) (\<lambda>sc. ser (field_type f) v sc w) sc))"

fun write_own_fields ::
  "'w writer \<Rightarrow> (ty \<Rightarrow> val \<Rightarrow> scope \<Rightarrow> 'w \<Rightarrow> serialization_error + 'w) \<Rightarrow> class_field list \<Rightarrow> val list \<Rightarrow> scope \<Rightarrow> 'w \<Rightarrow>
     serialization_error + 'w" where
  "write_own_fields W ser (f # fs) (v # vs) sc w =
     and_then (write_one_field W ser f v sc w) (\<lambda>w. write_own_fields W ser fs vs sc w)"
| "write_own_fields W ser [] [] sc w = Inr w"
| "write_own_fields W ser fs vs sc w = fail [] sc"

fun write_own_and_base_fields ::
  "'w writer \<Rightarrow> (ty \<Rightarrow> val \<Rightarrow> scope \<Rightarrow> 'w \<Rightarrow> serialization_error + 'w) \<Rightarrow> class_type \<Rightarrow> val list \<Rightarrow> scope \<Rightarrow> 'w \<Rightarrow>
     serialization_error + 'w"
  and write_base_fields ::
  "'w writer \<Rightarrow> (ty \<Rightarrow> val \<Rightarrow> scope \<Rightarrow> 'w \<Rightarrow> serialization_error + 'w) \<Rightarrow> class_type list \<Rightarrow> class_field list \<Rightarrow> val list \<Rightarrow>
     scope \<Rightarrow> 'w \<Rightarrow> serialization_error + 'w" where
  "write_own_and_base_fields W ser (Class_Type c bs fs) vs sc w =
     (if reflectable c then write_base_fields W ser bs fs vs sc w else Inr w)"
| "write_base_fields W ser [] fs vs sc w = write_own_fields W ser fs vs sc w"
| "write_base_fields W ser (b # bs) fs vs sc w =
     and_then (write_own_and_base_fields W ser b (take (field_count b) vs) sc w)
       (\<lambda>w. write_base_fields W ser bs fs (drop (field_count b) vs) sc w)"

definition write_fields ::
  "'w writer \<Rightarrow> (ty \<Rightarrow> val \<Rightarrow> scope \<Rightarrow> 'w \<Rightarrow> serialization_error + 'w) \<Rightarrow> class_type \<Rightarrow> val list \<Rightarrow> scope \<Rightarrow> 'w \<Rightarrow>
     serialization_error + 'w" where
  "write_fields W ser c vs sc w = write_own_and_base_fields W ser c vs sc w"

definition write_object ::
  "'w writer \<Rightarrow> (ty \<Rightarrow> val \<Rightarrow> scope \<Rightarrow> 'w \<Rightarrow> serialization_error + 'w) \<Rightarrow> class_type \<Rightarrow> val list \<Rightarrow> scope \<Rightarrow> 'w \<Rightarrow>
     serialization_error + 'w" where
  "write_object W ser c vs sc w =
     and_then (call (begin_object W (serialized_field_count c) w) sc) (\<lambda>w.
     and_then (write_fields W ser c vs sc w) (\<lambda>w. call (end_object W w) sc))"

section \<open>Pointers\<close>

text \<open>
  The descriptor that the registry finds for a dynamic type writes the object as that type;
  without one, an object of exactly the static type may still be written. \<open>base\<close> is the static
  element type and \<open>dynamic\<close> the class of the object.
\<close>

definition unregistered :: "program \<Rightarrow> string \<Rightarrow> string" where
  "unregistered P dynamic = ''dynamic type '' @ [CHR 0x27] @ rtti_name P dynamic @ [CHR 0x27] @
     '' of a polymorphic pointer is not registered; call reflgen::register_type<T>()''"

definition found_class :: "program \<Rightarrow> string option \<Rightarrow> class_type option" where
  "found_class P found = (case found of None \<Rightarrow> None | Some c \<Rightarrow> classes P c)"

definition write_instance ::
  "'w writer \<Rightarrow> (ty \<Rightarrow> val \<Rightarrow> scope \<Rightarrow> 'w \<Rightarrow> serialization_error + 'w) \<Rightarrow> class_info \<Rightarrow> val \<Rightarrow> scope \<Rightarrow> 'w \<Rightarrow>
     serialization_error + 'w" where
  "write_instance W ser type v sc w =
     (if \<not> writable type
      then fail (''type '' @ [CHR 0x27] @ schema_name type @ [CHR 0x27] @ '' is not serializable'') sc
      else ser (TObject (type_id type)) v sc w)"

definition write_polymorphic ::
  "program \<Rightarrow> 'w writer \<Rightarrow> (ty \<Rightarrow> val \<Rightarrow> scope \<Rightarrow> 'w \<Rightarrow> serialization_error + 'w) \<Rightarrow> class_info \<Rightarrow> cell \<Rightarrow> scope \<Rightarrow> 'w \<Rightarrow>
     serialization_error + 'w" where
  "write_polymorphic P W ser base c sc w =
     and_then (call (begin_object W 2 w) sc) (\<lambda>w.
     and_then (call (write_key W ''type'' w) sc) (\<lambda>w.
     and_then
       (case found_class P (by_rtti (types P) (cell_class c)) of
          Some type \<Rightarrow>
            and_then (call (write_string W (schema_name (class_info type)) w) sc) (\<lambda>w.
            and_then (call (write_key W ''value'' w) sc) (\<lambda>w.
            with_path ''value'' (\<lambda>sc. write_instance W ser (class_info type) (cell_value c) sc w) sc))
        | None \<Rightarrow>
            if base_serializable base then
              if cell_class c \<noteq> type_id base then fail (unregistered P (cell_class c)) sc
              else and_then (call (write_string W (schema_name base) w) sc) (\<lambda>w.
                   and_then (call (write_key W ''value'' w) sc) (\<lambda>w.
                   with_path ''value'' (\<lambda>sc. ser (TObject (type_id base)) (cell_value c) sc w) sc))
            else fail (unregistered P (cell_class c)) sc)
       (\<lambda>w. call (end_object W w) sc)))"

text \<open>
  The class of the element where it is polymorphic. An address outside the heap is not one a
  program can hold; the call is cut there.
\<close>

definition polymorphic_class :: "program \<Rightarrow> ty \<Rightarrow> class_info option" where
  "polymorphic_class P t = (case t of
       TObject c \<Rightarrow> (case classes P c of
           Some d \<Rightarrow> if polymorphic (class_info d) then Some (class_info d) else None | None \<Rightarrow> None)
     | _ \<Rightarrow> None)"

definition write_pointer ::
  "program \<Rightarrow> 'w writer \<Rightarrow> heap \<Rightarrow> (ty \<Rightarrow> val \<Rightarrow> scope \<Rightarrow> 'w \<Rightarrow> serialization_error + 'w) \<Rightarrow> ty \<Rightarrow> nat option \<Rightarrow>
     scope \<Rightarrow> 'w \<Rightarrow> serialization_error + 'w" where
  "write_pointer P W h ser t p sc w = (case p of
       None \<Rightarrow> call (write_null W w) sc
     | Some a \<Rightarrow>
         if length h \<le> a then fail [] sc
         else indirection_guard a (\<lambda>sc. case polymorphic_class P t of
                  Some base \<Rightarrow> write_polymorphic P W ser base (h ! a) sc w
                | None \<Rightarrow> ser t (cell_value (h ! a)) sc w) sc)"

definition write_reference ::
  "heap \<Rightarrow> (ty \<Rightarrow> val \<Rightarrow> scope \<Rightarrow> 'w \<Rightarrow> serialization_error + 'w) \<Rightarrow> ty \<Rightarrow> nat option \<Rightarrow>
     scope \<Rightarrow> 'w \<Rightarrow> serialization_error + 'w" where
  "write_reference h ser t p sc w = (case p of
       None \<Rightarrow> fail [] sc
     | Some a \<Rightarrow>
         if length h \<le> a then fail [] sc
         else indirection_guard a (\<lambda>sc. ser t (cell_value (h ! a)) sc w) sc)"

section \<open>The dispatch\<close>

text \<open>
  The calls on the parts of a value happen in a scope that has the same open indirections, and
  those on the target of a pointer in one that has one more. This is why the recursion ends:
  the addresses of the heap run out, and between two indirections the value gets smaller, or
  the type does.
\<close>

lemma write_elements_cong [fundef_cong]:
  assumes "i = i'" "vs = vs'" "sc = sc'" "w = w'"
    "\<And>v s w. v \<in> set vs' \<Longrightarrow> sc_active s = sc_active sc' \<Longrightarrow> ser v s w = ser' v s w"
  shows "write_elements ser i vs sc w = write_elements ser' i' vs' sc' w'"
proof -
  have "(\<And>v s w. v \<in> set vs \<Longrightarrow> sc_active s = sc_active sc \<Longrightarrow> ser v s w = ser' v s w) \<Longrightarrow>
      write_elements ser i vs sc w = write_elements ser' i vs sc w"
    by (induction ser i vs sc w rule: write_elements.induct) (auto simp: with_index_def intro!: and_then_cong)
  with assms show ?thesis by simp
qed

lemma write_keyed_cong:
  assumes "\<And>k v s w. (k, v) \<in> set es \<Longrightarrow> sc_active s = sc_active sc \<Longrightarrow> ser v s w = ser' v s w"
  shows "write_keyed W kt ser es sc w = write_keyed W kt ser' es sc w"
  using assms
  by (induction W kt ser es sc w rule: write_keyed.induct) (force simp: with_path_def intro!: and_then_cong)+

lemma write_pairs_cong:
  assumes "\<And>k v s w. (k, v) \<in> set es \<Longrightarrow> sc_active s = sc_active sc \<Longrightarrow> ser_key k s w = ser_key' k s w \<and> ser v s w = ser' v s w"
  shows "write_pairs W ser_key ser i es sc w = write_pairs W ser_key' ser' i es sc w"
  using assms
  by (induction W ser_key ser i es sc w rule: write_pairs.induct) (force simp: with_index_def intro!: and_then_cong)+

lemma write_map_cong [fundef_cong]:
  assumes "m = m'" "kt = kt'" "t = t'" "es = es'" "sc = sc'" "w = w'"
    "\<And>t k v x s w. (k, v) \<in> set es' \<Longrightarrow> x = k \<or> x = v \<Longrightarrow> sc_active s = sc_active sc' \<Longrightarrow> ser t x s w = ser' t x s w"
  shows "write_map W ser m kt t es sc w = write_map W ser' m' kt' t' es' sc' w'"
proof -
  have "write_keyed W kt (ser t) es sc w = write_keyed W kt (ser' t) es sc w" for w
    using assms by (intro write_keyed_cong) blast
  moreover have "write_pairs W (ser kt) (ser t) 0 es sc w = write_pairs W (ser' kt) (ser' t) 0 es sc w" for w
    using assms by (intro write_pairs_cong) blast
  ultimately show ?thesis using assms by (simp add: write_map_def)
qed

lemma write_range_cong [fundef_cong]:
  assumes "t = t'" "vs = vs'" "sc = sc'" "w = w'"
    "\<And>t v s w. v \<in> set vs' \<Longrightarrow> sc_active s = sc_active sc' \<Longrightarrow> ser t v s w = ser' t v s w"
  shows "write_range W ser t vs sc w = write_range W ser' t' vs' sc' w'"
proof -
  have "write_elements (ser t) 0 vs sc w = write_elements (ser' t) 0 vs sc w" for w
    using assms by (intro write_elements_cong) auto
  with assms show ?thesis by (simp add: write_range_def)
qed

lemma write_optional_cong [fundef_cong]:
  assumes "t = t'" "x = x'" "sc = sc'" "w = w'" "\<And>t v s w. x' = Some v \<Longrightarrow> sc_active s = sc_active sc' \<Longrightarrow> ser t v s w = ser' t v s w"
  shows "write_optional W ser t x sc w = write_optional W ser' t' x' sc' w'"
  using assms by (cases x') auto

lemma write_variant_cong [fundef_cong]:
  assumes "ts = ts'" "x = x'" "sc = sc'" "w = w'" "\<And>t i v s w. x' = Some (i, v) \<Longrightarrow> sc_active s = sc_active sc' \<Longrightarrow> ser t v s w = ser' t v s w"
  shows "write_variant W ser ts x sc w = write_variant W ser' ts' x' sc' w'"
  using assms by (cases x') (auto simp: with_index_def intro!: and_then_cong)

lemma write_tuple_cong [fundef_cong]:
  assumes "ts = ts'" "vs = vs'" "sc = sc'" "w = w'" "\<And>t v s w. v \<in> set vs' \<Longrightarrow> sc_active s = sc_active sc' \<Longrightarrow> ser t v s w = ser' t v s w"
  shows "write_tuple W ser ts vs sc w = write_tuple W ser' ts' vs' sc' w'"
proof -
  have "(\<And>t v s w. v \<in> set vs \<Longrightarrow> sc_active s = sc_active sc \<Longrightarrow> ser t v s w = ser' t v s w) \<Longrightarrow>
      write_parts ser i ts vs sc w = write_parts ser' i ts vs sc w" for i w
    by (induction ser i ts vs sc w rule: write_parts.induct) (auto simp: with_index_def intro!: and_then_cong)
  with assms show ?thesis by (simp add: write_tuple_def)
qed

lemma write_complex_cong [fundef_cong]:
  assumes "t = t'" "vs = vs'" "sc = sc'" "w = w'" "\<And>t v s w. v \<in> set vs' \<Longrightarrow> sc_active s = sc_active sc' \<Longrightarrow> ser t v s w = ser' t v s w"
  shows "write_complex W ser t vs sc w = write_complex W ser' t' vs' sc' w'"
proof -
  have "(\<And>t v s w. v \<in> set vs \<Longrightarrow> sc_active s = sc_active sc \<Longrightarrow> ser t v s w = ser' t v s w) \<Longrightarrow>
      write_complex W ser t vs sc w = write_complex W ser' t vs sc w" for t
    by (induction W ser t vs sc w rule: write_complex.induct) (auto intro!: and_then_cong)
  with assms show ?thesis by simp
qed

lemma write_own_fields_cong:
  "(\<And>t v s w. v \<in> set vs \<Longrightarrow> sc_active s = sc_active sc \<Longrightarrow> ser t v s w = ser' t v s w) \<Longrightarrow>
    write_own_fields W ser fs vs sc w = write_own_fields W ser' fs vs sc w"
  by (induction W ser fs vs sc w rule: write_own_fields.induct)
    (auto simp: with_path_def write_one_field_def intro!: and_then_cong)

definition agree :: "val set \<Rightarrow> scope \<Rightarrow> (ty \<Rightarrow> val \<Rightarrow> scope \<Rightarrow> 'a) \<Rightarrow> (ty \<Rightarrow> val \<Rightarrow> scope \<Rightarrow> 'a) \<Rightarrow> bool" where
  "agree vs sc ser ser' \<longleftrightarrow> (\<forall>t v s. v \<in> vs \<longrightarrow> sc_active s = sc_active sc \<longrightarrow> ser t v s = ser' t v s)"

lemma agree_subset: "agree vs sc ser ser' \<Longrightarrow> us \<subseteq> vs \<Longrightarrow> agree us sc ser ser'"
  by (auto simp: agree_def)

lemma write_fields_cong:
  "agree (set vs) sc ser ser' \<Longrightarrow>
    write_own_and_base_fields W ser c vs sc w = write_own_and_base_fields W ser' c vs sc w"
  "agree (set vs) sc ser ser' \<Longrightarrow> write_base_fields W ser bs fs vs sc w = write_base_fields W ser' bs fs vs sc w"
proof (induction W ser c vs sc w and W ser bs fs vs sc w rule: write_own_and_base_fields_write_base_fields.induct)
  case (2 W ser fs vs sc w)
  then have "write_own_fields W ser fs vs sc w = write_own_fields W ser' fs vs sc w"
    by (intro write_own_fields_cong) (simp add: agree_def)
  then show ?case by simp
next
  case (3 W ser b bs fs vs sc w)
  have "agree (set (take (field_count b) vs)) sc ser ser'" "agree (set (drop (field_count b) vs)) sc ser ser'"
    using 3(3) by (blast intro: agree_subset dest: in_set_takeD in_set_dropD)+
  then have "write_own_and_base_fields W ser b (take (field_count b) vs) sc w =
      write_own_and_base_fields W ser' b (take (field_count b) vs) sc w"
    "\<And>x. write_own_and_base_fields W ser b (take (field_count b) vs) sc w = Inr x \<Longrightarrow>
       write_base_fields W ser bs fs (drop (field_count b) vs) sc x = write_base_fields W ser' bs fs (drop (field_count b) vs) sc x"
    using 3(1,2) by blast+
  then show ?case by (auto intro: and_then_cong)
qed simp

lemma write_object_cong [fundef_cong]:
  assumes "c = c'" "vs = vs'" "sc = sc'" "w = w'" "\<And>t v s w. v \<in> set vs' \<Longrightarrow> sc_active s = sc_active sc' \<Longrightarrow> ser t v s w = ser' t v s w"
  shows "write_object W ser c vs sc w = write_object W ser' c' vs' sc' w'"
  using assms write_fields_cong(1) [of vs sc ser ser' W c] by (simp add: write_object_def write_fields_def agree_def ext)

lemma write_polymorphic_cong:
  assumes "\<And>t s w. sc_active s = sc_active sc \<Longrightarrow> ser t (cell_value c) s w = ser' t (cell_value c) s w"
  shows "write_polymorphic P W ser base c sc w = write_polymorphic P W ser' base c sc w"
proof -
  have same: "ser t (cell_value c) (sc\<lparr>sc_path := p\<rparr>) = ser' t (cell_value c) (sc\<lparr>sc_path := p\<rparr>)" for t p
    by (rule ext) (simp add: assms)
  show ?thesis
    unfolding write_polymorphic_def write_instance_def with_path_def same by (rule refl)
qed

lemma write_pointer_cong [fundef_cong]:
  assumes "t = t'" "p = p'" "sc = sc'" "w = w'"
    "\<And>a t s w. p' = Some a \<Longrightarrow> a < length h \<Longrightarrow> a \<notin> set (sc_active sc') \<Longrightarrow> sc_active s = sc_active sc' @ [a] \<Longrightarrow>
       ser t (cell_value (h ! a)) s w = ser' t (cell_value (h ! a)) s w"
  shows "write_pointer P W h ser t p sc w = write_pointer P W h ser' t' p' sc' w'"
  unfolding write_pointer_def indirection_guard_def using assms
  by (auto split: option.split intro!: write_polymorphic_cong)

lemma write_reference_cong [fundef_cong]:
  assumes "t = t'" "p = p'" "sc = sc'" "w = w'"
    "\<And>a t s w. p' = Some a \<Longrightarrow> a < length h \<Longrightarrow> a \<notin> set (sc_active sc') \<Longrightarrow> sc_active s = sc_active sc' @ [a] \<Longrightarrow>
       ser t (cell_value (h ! a)) s w = ser' t (cell_value (h ! a)) s w"
  shows "write_reference h ser t p sc w = write_reference h ser' t' p' sc' w'"
  unfolding write_reference_def indirection_guard_def using assms by (auto split: option.split)

lemma fewer_addresses:
  "a < length h \<Longrightarrow> a \<notin> set active \<Longrightarrow> card ({..<length h} - set active) - Suc 0 < card ({..<length h} - set active)"
  by (rule diff_less) (auto simp: card_gt_0_iff)

function serialize ::
  "program \<Rightarrow> 'w writer \<Rightarrow> heap \<Rightarrow> ty \<Rightarrow> val \<Rightarrow> scope \<Rightarrow> 'w \<Rightarrow> serialization_error + 'w" where
  "serialize P W h type v sc w =
     (case type of
       TBool \<Rightarrow> call (write_bool W (bool_in v) w) sc
     | TChar c \<Rightarrow> write_character W (text_in v) sc w
     | TByte \<Rightarrow> call (write_uint W (ucast (byte_in v)) w) sc
     | TInteger t \<Rightarrow> write_integer W t (integer_in v) sc w
     | TFloat \<Rightarrow> call (write_float32 W (float_in v) w) sc
     | TDouble \<Rightarrow> call (write_float W (double_in v) w) sc
     | TEnum e \<Rightarrow> write_enum W e (integer_in v) sc w
     | TNull \<Rightarrow> call (write_null W w) sc
     | TObject c \<Rightarrow> (case classes P c of
           Some d \<Rightarrow> write_object W (serialize P W h) d (items_in v) sc w | None \<Rightarrow> fail [] sc)
     | TString c \<Rightarrow> write_text W (text_in v) sc w
     | TStringView c \<Rightarrow> write_text W (text_in v) sc w
     | TCString c \<Rightarrow> write_c_string W (c_string_in v) sc w
     | TCharArray c n \<Rightarrow> write_char_array W (text_in v) sc w
     | TOptional t \<Rightarrow> write_optional W (serialize P W h) t (optional_in v) sc w
     | TPointer t \<Rightarrow> write_pointer P W h (serialize P W h) t (pointer_in v) sc w
     | TVariant ts \<Rightarrow> write_variant W (serialize P W h) ts (variant_in v) sc w
     | TComplex t \<Rightarrow> write_complex W (serialize P W h) t (items_in v) sc w
     | TBitset n \<Rightarrow> call (write_string W (bits_text (bits_in v)) w) sc
     | TDuration t \<Rightarrow> serialize P W h t v sc w
     | TTimePoint t \<Rightarrow> serialize P W h t v sc w
     | TPath \<Rightarrow> call (write_string W (path_in v) w) sc
     | TAdapter a t \<Rightarrow> serialize P W h t v sc w
     | TAtomic t \<Rightarrow> serialize P W h t v sc w
     | TReference t \<Rightarrow> write_reference h (serialize P W h) t (pointer_in v) sc w
     | TBytes n \<Rightarrow> call (write_bytes W (bytes_in v) w) sc
     | TSequence s t \<Rightarrow> write_range W (serialize P W h) t (items_in v) sc w
     | TMap m k t \<Rightarrow> write_map W (serialize P W h) m k t (entries_in v) sc w
     | TFixedRange n t \<Rightarrow> write_range W (serialize P W h) t (items_in v) sc w
     | TRange t \<Rightarrow> write_range W (serialize P W h) t (items_in v) sc w
     | TTuple ts \<Rightarrow> write_tuple W (serialize P W h) ts (items_in v) sc w)"
  by pat_completeness auto

termination
  apply (relation "measures [\<lambda>(P, W, h, t, v, sc, w). card ({..<length h} - set (sc_active sc)),
    \<lambda>(P, W, h, t, v, sc, w). size v, \<lambda>(P, W, h, t, v, sc, w). size t]")
  apply simp_all
  apply (blast dest: part_size fewer_addresses)+
  done

declare serialize.simps [simp del]

text \<open>The equation of each category.\<close>

lemmas serialize_at =
  serialize.simps [where type = TBool, unfolded ty.case]
  serialize.simps [where type = "TChar c" for c, unfolded ty.case]
  serialize.simps [where type = TByte, unfolded ty.case]
  serialize.simps [where type = "TInteger t" for t, unfolded ty.case]
  serialize.simps [where type = TFloat, unfolded ty.case]
  serialize.simps [where type = TDouble, unfolded ty.case]
  serialize.simps [where type = "TEnum e" for e, unfolded ty.case]
  serialize.simps [where type = TNull, unfolded ty.case]
  serialize.simps [where type = "TObject c" for c, unfolded ty.case]
  serialize.simps [where type = "TString c" for c, unfolded ty.case]
  serialize.simps [where type = "TStringView c" for c, unfolded ty.case]
  serialize.simps [where type = "TCString c" for c, unfolded ty.case]
  serialize.simps [where type = "TCharArray c m" for c m, unfolded ty.case]
  serialize.simps [where type = "TOptional t" for t, unfolded ty.case]
  serialize.simps [where type = "TPointer t" for t, unfolded ty.case]
  serialize.simps [where type = "TVariant ts" for ts, unfolded ty.case]
  serialize.simps [where type = "TComplex t" for t, unfolded ty.case]
  serialize.simps [where type = "TBitset m" for m, unfolded ty.case]
  serialize.simps [where type = "TDuration t" for t, unfolded ty.case]
  serialize.simps [where type = "TTimePoint t" for t, unfolded ty.case]
  serialize.simps [where type = TPath, unfolded ty.case]
  serialize.simps [where type = "TAdapter a t" for a t, unfolded ty.case]
  serialize.simps [where type = "TAtomic t" for t, unfolded ty.case]
  serialize.simps [where type = "TReference t" for t, unfolded ty.case]
  serialize.simps [where type = "TBytes extent" for extent, unfolded ty.case]
  serialize.simps [where type = "TSequence s t" for s t, unfolded ty.case]
  serialize.simps [where type = "TMap m k t" for m k t, unfolded ty.case]
  serialize.simps [where type = "TFixedRange m t" for m t, unfolded ty.case]
  serialize.simps [where type = "TRange t" for t, unfolded ty.case]
  serialize.simps [where type = "TTuple ts" for ts, unfolded ty.case]

end
