(* ===== verification/Serial_Read.thy ===== *)
theory Serial_Read
  imports Serial_Write
begin

text \<open>
  Reading: \<open>serializer<T>::read\<close> (\<open>serial/serializer.h\<close>) and the functions of
  \<open>serial/detail\<close> it dispatches to. A read is in place: it takes the value that is there and
  returns the one that replaces it, with the heap, to which it adds the objects it creates. A
  read that throws leaves its target partly overwritten in the program; here it only returns the
  error. The recursion and the loops over elements and keys run on fuel; running out of it, and a
  call that does not compile, is the error without a message, which the code never throws.
\<close>

type_synonym 'r read_result = "serialization_error + (val \<times> heap \<times> 'r)"

type_synonym 'r de = "ty \<Rightarrow> val \<Rightarrow> heap \<Rightarrow> scope \<Rightarrow> 'r \<Rightarrow> 'r read_result"

definition quote :: "string \<Rightarrow> string" where
  "quote s = [CHR 0x27] @ s @ [CHR 0x27]"

text \<open>A read that neither looks at the old value nor touches the heap.\<close>

definition give :: "heap \<Rightarrow> ('a \<Rightarrow> val) \<Rightarrow> serialization_error + ('a \<times> 'r) \<Rightarrow> 'r read_result" where
  "give h f m = and_then m (\<lambda>(x, r). Inr (f x, h, r))"

section \<open>Scalars and text\<close>

definition out_of_range :: "integer_type \<Rightarrow> int \<Rightarrow> string" where
  "out_of_range t i = ''value '' @ show_int i @ '' is out of range for '' @ integer_name t"

definition read_integer :: "'r reader \<Rightarrow> integer_type \<Rightarrow> scope \<Rightarrow> 'r \<Rightarrow> serialization_error + (int \<times> 'r)" where
  "read_integer R t sc r =
     (if integer_signed t
      then and_then (call (read_int R r) sc) (\<lambda>(x, r).
             if sint x < lowest t \<or> highest t < sint x then fail (out_of_range t (sint x)) sc else Inr (sint x, r))
      else and_then (call (read_uint R r) sc) (\<lambda>(x, r).
             if highest t < uint x then fail (out_of_range t (uint x)) sc else Inr (uint x, r)))"

definition byte_type :: integer_type where
  "byte_type = \<lparr>integer_name = ''unsigned char'', integer_signed = False, integer_width = 8\<rparr>"

definition read_character :: "'r reader \<Rightarrow> char_type \<Rightarrow> scope \<Rightarrow> 'r \<Rightarrow> serialization_error + (code_units \<times> 'r)" where
  "read_character R c sc r =
     and_then (call (read_string R r) sc) (\<lambda>(s, r).
       if c = Char_Type \<or> c = Char8_Type
       then if length s \<noteq> 1
            then fail (''expected a single character, got a string of length '' @ show_nat (length s)) sc
            else Inr (Text8 s, r)
       else and_then (call (from_utf8 c s) sc) (\<lambda>t.
            if text_size t \<noteq> 1
            then fail (''expected a single character representable in '' @ char_type_name c) sc
            else Inr (t, r)))"

definition read_enum :: "'r reader \<Rightarrow> enum_type \<Rightarrow> scope \<Rightarrow> 'r \<Rightarrow> serialization_error + (int \<times> 'r)" where
  "read_enum R e sc r =
     and_then (call (peek R r) sc) (\<lambda>(kind, r).
       if kind = KString
       then and_then (call (read_string R r) sc) (\<lambda>(name, r).
              case enum_cast e name of
                Some v \<Rightarrow> Inr (v, r)
              | None \<Rightarrow> fail (''unknown enumerator '' @ quote name @ '' for '' @ enum_type_name e) sc)
       else read_integer R (enum_underlying e) sc r)"

definition read_text :: "'r reader \<Rightarrow> char_type \<Rightarrow> scope \<Rightarrow> 'r \<Rightarrow> serialization_error + (code_units \<times> 'r)" where
  "read_text R c sc r =
     and_then (call (read_string R r) sc) (\<lambda>(s, r). and_then (call (from_utf8 c s) sc) (\<lambda>t. Inr (t, r)))"

definition read_char_array :: "'r reader \<Rightarrow> char_type \<Rightarrow> nat \<Rightarrow> scope \<Rightarrow> 'r \<Rightarrow> serialization_error + (code_units \<times> 'r)" where
  "read_char_array R c n sc r =
     and_then (read_text R c sc r) (\<lambda>(t, r).
       if n \<le> text_size t
       then fail (''string of length '' @ show_nat (text_size t) @ '' does not fit a character array of size '' @ show_nat n) sc
       else Inr (nul_padded n t, r))"

definition read_bitset :: "'r reader \<Rightarrow> nat \<Rightarrow> scope \<Rightarrow> 'r \<Rightarrow> serialization_error + (bool list \<times> 'r)" where
  "read_bitset R n sc r =
     and_then (call (read_string R r) sc) (\<lambda>(s, r).
       if length s \<noteq> n \<or> \<not> set s \<subseteq> {CHR ''0'', CHR ''1''}
       then fail (''expected a string of '' @ show_nat n @ '' binary digits'') sc
       else Inr (rev (map (\<lambda>c. c = CHR ''1'') s), r))"

definition read_blob :: "'r reader \<Rightarrow> nat option \<Rightarrow> scope \<Rightarrow> 'r \<Rightarrow> serialization_error + (byte list \<times> 'r)" where
  "read_blob R extent sc r =
     and_then (call (read_bytes R r) sc) (\<lambda>(bs, r). case extent of
         None \<Rightarrow> Inr (bs, r)
       | Some n \<Rightarrow> if length bs \<noteq> n
           then fail (''expected '' @ show_nat n @ '' bytes, got '' @ show_nat (length bs)) sc
           else Inr (bs, r))"

section \<open>Containers\<close>

definition integer_from_key :: "integer_type \<Rightarrow> string \<Rightarrow> int fallible" where
  "integer_from_key t s = (case from_chars (lowest t) (highest t) s of
       Parsed v used \<Rightarrow> if used = length s then Inr v
         else Inl (''map key '' @ quote s @ '' is not a valid '' @ integer_name t)
     | _ \<Rightarrow> Inl (''map key '' @ quote s @ '' is not a valid '' @ integer_name t))"

definition decode_key :: "ty \<Rightarrow> string \<Rightarrow> val fallible" where
  "decode_key t s = (case t of
       TString c \<Rightarrow> Inr (VText (Text8 s))
     | TBool \<Rightarrow> if s = ''true'' \<or> s = ''false'' then Inr (VBool (s = ''true''))
         else Inl (''map key '' @ quote s @ '' is not a valid bool'')
     | TEnum e \<Rightarrow> (case enum_cast e s of
           Some v \<Rightarrow> Inr (VEnum v)
         | None \<Rightarrow> and_then (integer_from_key (enum_underlying e) s) (\<lambda>v. Inr (VEnum v)))
     | TInteger i \<Rightarrow> and_then (integer_from_key i s) (\<lambda>v. Inr (VInteger v))
     | _ \<Rightarrow> Inl [])"

text \<open>The number of elements reserved for a hint, within a budget of one mebibyte.\<close>

definition reserve_budget_bytes :: nat where
  "reserve_budget_bytes = 2 ^ 20"

definition bounded_reserve :: "nat \<Rightarrow> nat \<Rightarrow> nat" where
  "bounded_reserve element_bytes hint =
     (let element_size = (if element_bytes > 0 then element_bytes else 1);
          limit = (if reserve_budget_bytes div element_size > 0 then reserve_budget_bytes div element_size else 1)
      in if hint < limit then hint else limit)"

primrec read_elements ::
  "'r reader \<Rightarrow> (heap \<Rightarrow> scope \<Rightarrow> 'r \<Rightarrow> 'r read_result) \<Rightarrow> (val list \<Rightarrow> val \<Rightarrow> val list) \<Rightarrow> nat \<Rightarrow>
     nat \<Rightarrow> val list \<Rightarrow> heap \<Rightarrow> scope \<Rightarrow> 'r \<Rightarrow> serialization_error + (val list \<times> heap \<times> 'r)" where
  "read_elements R de add 0 index vs h sc r = fail [] sc"
| "read_elements R de add (Suc k) index vs h sc r =
     and_then (call (next_element R r) sc) (\<lambda>(more, r).
       if more then and_then (with_index index (\<lambda>sc. de h sc r) sc)
                      (\<lambda>(v, h, r). read_elements R de add k (Suc index) (add vs v) h sc r)
       else Inr (vs, h, r))"

definition read_sequence ::
  "program \<Rightarrow> 'r reader \<Rightarrow> 'r de \<Rightarrow> nat \<Rightarrow> sequence_traits \<Rightarrow> ty \<Rightarrow> heap \<Rightarrow> scope \<Rightarrow> 'r \<Rightarrow> 'r read_result" where
  "read_sequence P R de k s t h sc r =
     and_then (call (begin_array_in R r) sc) (\<lambda>(hint, r).
     and_then (read_elements R (de t (default_value P t)) (sequence_add s) k 0 [] h sc r) (\<lambda>(vs, h, r).
     and_then (call (end_array_in R r) sc) (\<lambda>r. Inr (VList vs, h, r))))"

primrec read_keyed ::
  "'r reader \<Rightarrow> (heap \<Rightarrow> scope \<Rightarrow> 'r \<Rightarrow> 'r read_result) \<Rightarrow> ty \<Rightarrow> map_traits \<Rightarrow> nat \<Rightarrow>
     (val \<times> val) list \<Rightarrow> heap \<Rightarrow> scope \<Rightarrow> 'r \<Rightarrow> serialization_error + ((val \<times> val) list \<times> heap \<times> 'r)" where
  "read_keyed R de kt m 0 es h sc r = fail [] sc"
| "read_keyed R de kt m (Suc k) es h sc r =
     and_then (call (next_key R r) sc) (\<lambda>(found, r). case found of
         None \<Rightarrow> Inr (es, h, r)
       | Some s \<Rightarrow>
           and_then (with_path s (\<lambda>sc. and_then (call (decode_key kt s) sc) (\<lambda>key.
               and_then (de h sc r) (\<lambda>(v, h, r). Inr (key, v, h, r)))) sc)
             (\<lambda>(key, v, h, r). read_keyed R de kt m k (map_add m es key v) h sc r))"

definition map_entry_error :: string where
  "map_entry_error = ''map entry expects [key, value]''"

primrec read_pairs ::
  "'r reader \<Rightarrow> (heap \<Rightarrow> scope \<Rightarrow> 'r \<Rightarrow> 'r read_result) \<Rightarrow> (heap \<Rightarrow> scope \<Rightarrow> 'r \<Rightarrow> 'r read_result) \<Rightarrow> map_traits \<Rightarrow> nat \<Rightarrow>
     nat \<Rightarrow> (val \<times> val) list \<Rightarrow> heap \<Rightarrow> scope \<Rightarrow> 'r \<Rightarrow> serialization_error + ((val \<times> val) list \<times> heap \<times> 'r)" where
  "read_pairs R de_key de m 0 index es h sc r = fail [] sc"
| "read_pairs R de_key de m (Suc k) index es h sc r =
     and_then (call (next_element R r) sc) (\<lambda>(more, r).
       if more then
         and_then (with_index index (\<lambda>sc.
           and_then (call (begin_array_in R r) sc) (\<lambda>(hint, r).
           and_then (call (next_element R r) sc) (\<lambda>(more, r).
           if \<not> more then fail map_entry_error sc else
           and_then (de_key h sc r) (\<lambda>(key, h, r).
           and_then (call (next_element R r) sc) (\<lambda>(more, r).
           if \<not> more then fail map_entry_error sc else
           and_then (de h sc r) (\<lambda>(v, h, r).
           and_then (call (next_element R r) sc) (\<lambda>(more, r).
           if more then fail map_entry_error sc else
           and_then (call (end_array_in R r) sc) (\<lambda>r. Inr (key, v, h, r))))))))) sc)
           (\<lambda>(key, v, h, r). read_pairs R de_key de m k (Suc index) (map_add m es key v) h sc r)
       else Inr (es, h, r))"

definition read_map ::
  "program \<Rightarrow> 'r reader \<Rightarrow> 'r de \<Rightarrow> nat \<Rightarrow> map_traits \<Rightarrow> ty \<Rightarrow> ty \<Rightarrow> heap \<Rightarrow> scope \<Rightarrow> 'r \<Rightarrow> 'r read_result" where
  "read_map P R de k m kt t h sc r =
     (if map_as_object m kt then
        and_then (call (begin_object_in R r) sc) (\<lambda>(hint, r).
        and_then (read_keyed R (de t (default_value P t)) kt m k [] h sc r) (\<lambda>(es, h, r).
        and_then (call (end_object_in R r) sc) (\<lambda>r. Inr (VMap es, h, r))))
      else
        and_then (call (begin_array_in R r) sc) (\<lambda>(hint, r).
        and_then (read_pairs R (de kt (default_value P kt)) (de t (default_value P t)) m k 0 [] h sc r) (\<lambda>(es, h, r).
        and_then (call (end_array_in R r) sc) (\<lambda>r. Inr (VMap es, h, r)))))"

text \<open>A fixed range is read element by element over what it holds; the count must agree.\<close>

primrec read_in_place ::
  "'r reader \<Rightarrow> 'r de \<Rightarrow> ty \<Rightarrow> nat \<Rightarrow> nat \<Rightarrow> val list \<Rightarrow> heap \<Rightarrow> scope \<Rightarrow> 'r \<Rightarrow>
     serialization_error + (nat \<times> val list \<times> heap \<times> 'r)" where
  "read_in_place R de t 0 index vs h sc r = fail [] sc"
| "read_in_place R de t (Suc k) index vs h sc r =
     and_then (call (next_element R r) sc) (\<lambda>(more, r).
       if \<not> more then Inr (index, vs, h, r)
       else if length vs \<le> index
       then fail (''expected '' @ show_nat (length vs) @ '' elements, got more'') sc
       else and_then (with_index index (\<lambda>sc. de t (vs ! index) h sc r) sc)
              (\<lambda>(v, h, r). read_in_place R de t k (Suc index) (vs[index := v]) h sc r))"

definition read_fixed_range ::
  "'r reader \<Rightarrow> 'r de \<Rightarrow> nat \<Rightarrow> ty \<Rightarrow> val list \<Rightarrow> heap \<Rightarrow> scope \<Rightarrow> 'r \<Rightarrow> 'r read_result" where
  "read_fixed_range R de k t vs h sc r =
     and_then (call (begin_array_in R r) sc) (\<lambda>(hint, r).
     and_then (read_in_place R de t k 0 vs h sc r) (\<lambda>(index, us, h, r).
     if index \<noteq> length vs
     then fail (''expected '' @ show_nat (length vs) @ '' elements, got '' @ show_nat index) sc
     else and_then (call (end_array_in R r) sc) (\<lambda>r. Inr (VList us, h, r))))"

definition read_adapter ::
  "program \<Rightarrow> 'r de \<Rightarrow> adapter_traits \<Rightarrow> ty \<Rightarrow> heap \<Rightarrow> scope \<Rightarrow> 'r \<Rightarrow> 'r read_result" where
  "read_adapter P de a t h sc r =
     and_then (de t (default_value P t) h sc r) (\<lambda>(items, h, r).
       Inr (VList (foldl (adapter_push a) [] (items_in items)), h, r))"

section \<open>Wrappers, sums and products\<close>

definition read_optional ::
  "program \<Rightarrow> 'r reader \<Rightarrow> 'r de \<Rightarrow> ty \<Rightarrow> val option \<Rightarrow> heap \<Rightarrow> scope \<Rightarrow> 'r \<Rightarrow> 'r read_result" where
  "read_optional P R de t old h sc r =
     and_then (call (peek R r) sc) (\<lambda>(kind, r).
       if kind = KNull then and_then (call (read_null R r) sc) (\<lambda>r. Inr (VOptional None, h, r))
       else and_then (de t (case old of Some v \<Rightarrow> v | None \<Rightarrow> default_value P t) h sc r)
              (\<lambda>(v, h, r). Inr (VOptional (Some v), h, r)))"

definition variant_error :: string where
  "variant_error = ''variant expects [index, value]''"

definition read_variant ::
  "program \<Rightarrow> 'r reader \<Rightarrow> 'r de \<Rightarrow> ty list \<Rightarrow> heap \<Rightarrow> scope \<Rightarrow> 'r \<Rightarrow> 'r read_result" where
  "read_variant P R de ts h sc r =
     and_then (call (begin_array_in R r) sc) (\<lambda>(hint, r).
     and_then (call (next_element R r) sc) (\<lambda>(more, r).
     if \<not> more then fail variant_error sc else
     and_then (call (read_uint R r) sc) (\<lambda>(index, r).
     if length ts \<le> unat index
     then fail (''variant index '' @ show_nat (unat index) @ '' is out of range ('' @ show_nat (length ts) @ '' alternatives)'') sc else
     and_then (call (next_element R r) sc) (\<lambda>(more, r).
     if \<not> more then fail variant_error sc else
     and_then (with_index 1 (\<lambda>sc. de (ts ! unat index) (default_value P (ts ! unat index)) h sc r) sc) (\<lambda>(v, h, r).
     and_then (call (next_element R r) sc) (\<lambda>(more, r).
     if more then fail variant_error sc else
     and_then (call (end_array_in R r) sc) (\<lambda>r. Inr (VVariant (Some (unat index, v)), h, r))))))))"

definition element_count_error :: "nat \<Rightarrow> nat \<Rightarrow> string" where
  "element_count_error expected actual =
     ''expected '' @ show_nat expected @ '' elements, got '' @ (if expected < actual then ''more'' else show_nat actual)"

fun read_parts ::
  "'r reader \<Rightarrow> 'r de \<Rightarrow> nat \<Rightarrow> nat \<Rightarrow> ty list \<Rightarrow> val list \<Rightarrow> heap \<Rightarrow> scope \<Rightarrow> 'r \<Rightarrow>
     serialization_error + (val list \<times> heap \<times> 'r)" where
  "read_parts R de count index (t # ts) (v # vs) h sc r =
     and_then (call (next_element R r) sc) (\<lambda>(more, r).
     if \<not> more then fail (element_count_error count index) sc else
     and_then (with_index index (\<lambda>sc. de t v h sc r) sc) (\<lambda>(v, h, r).
     and_then (read_parts R de count (Suc index) ts vs h sc r) (\<lambda>(vs, h, r). Inr (v # vs, h, r))))"
| "read_parts R de count index ts vs h sc r = Inr ([], h, r)"

definition read_tuple ::
  "'r reader \<Rightarrow> 'r de \<Rightarrow> ty list \<Rightarrow> val list \<Rightarrow> heap \<Rightarrow> scope \<Rightarrow> 'r \<Rightarrow> 'r read_result" where
  "read_tuple R de ts vs h sc r =
     and_then (call (begin_array_in R r) sc) (\<lambda>(hint, r).
     and_then (read_parts R de (length ts) 0 ts vs h sc r) (\<lambda>(vs, h, r).
     and_then (call (next_element R r) sc) (\<lambda>(more, r).
     if more then fail (element_count_error (length ts) (length ts + 1)) sc else
     and_then (call (end_array_in R r) sc) (\<lambda>r. Inr (VList vs, h, r)))))"

section \<open>Described classes\<close>

text \<open>
  The search for the field of a key. It returns the place of the field in the order of
  \<open>for_each_field\<close>, or the number of fields when there is none and nothing was consumed.
\<close>

fun read_own_fields ::
  "'r de \<Rightarrow> class_field list \<Rightarrow> val list \<Rightarrow> string \<Rightarrow> nat \<Rightarrow> nat \<Rightarrow> heap \<Rightarrow> scope \<Rightarrow> 'r \<Rightarrow>
     serialization_error + (nat \<times> val list \<times> heap \<times> 'r)" where
  "read_own_fields de (f # fs) (v # vs) key none index h sc r =
     (if transient f \<or> key \<noteq> serialized_key f
      then and_then (read_own_fields de fs vs key none (Suc index) h sc r) (\<lambda>(found, vs, h, r). Inr (found, v # vs, h, r))
      else and_then (with_path key (\<lambda>sc. de (field_type f) v h sc r) sc) (\<lambda>(v, h, r). Inr (index, v # vs, h, r)))"
| "read_own_fields de fs vs key none index h sc r = Inr (none, vs, h, r)"

fun read_own_and_base_field ::
  "'r de \<Rightarrow> class_type \<Rightarrow> val list \<Rightarrow> string \<Rightarrow> heap \<Rightarrow> scope \<Rightarrow> 'r \<Rightarrow>
     serialization_error + (nat \<times> val list \<times> heap \<times> 'r)"
  and read_base_field ::
  "'r de \<Rightarrow> class_type list \<Rightarrow> nat \<Rightarrow> nat \<Rightarrow> nat \<Rightarrow> val list \<Rightarrow> string \<Rightarrow> heap \<Rightarrow> scope \<Rightarrow> 'r \<Rightarrow>
     serialization_error + (nat \<times> val list \<times> heap \<times> 'r)" where
  "read_own_and_base_field de (Class_Type c bs fs) vs key h sc r =
     (let none = field_count (Class_Type c bs fs); inherited = sum_list (map field_count bs)
      in if \<not> reflectable c then Inr (none, vs, h, r)
         else and_then (read_base_field de bs none none 0 (take inherited vs) key h sc r) (\<lambda>(found, us, h, r).
              if found \<noteq> none then Inr (found, us @ drop inherited vs, h, r)
              else and_then (read_own_fields de fs (drop inherited vs) key none inherited h sc r)
                     (\<lambda>(found, ws, h, r). Inr (found, us @ ws, h, r))))"
| "read_base_field de [] none found offset vs key h sc r = Inr (found, vs, h, r)"
| "read_base_field de (b # bs) none found offset vs key h sc r =
     and_then
       (if found = none
        then and_then (read_own_and_base_field de b (take (field_count b) vs) key h sc r) (\<lambda>(index, us, h, r).
               Inr (if index \<noteq> field_count b then offset + index else found, us, h, r))
        else Inr (found, take (field_count b) vs, h, r))
       (\<lambda>(found, us, h, r).
          and_then (read_base_field de bs none found (offset + field_count b) (drop (field_count b) vs) key h sc r)
            (\<lambda>(found, ws, h, r). Inr (found, us @ ws, h, r)))"

definition read_field_at ::
  "'r de \<Rightarrow> class_type \<Rightarrow> val list \<Rightarrow> string \<Rightarrow> heap \<Rightarrow> scope \<Rightarrow> 'r \<Rightarrow>
     serialization_error + (nat \<times> val list \<times> heap \<times> 'r)" where
  "read_field_at de c vs key h sc r = read_own_and_base_field de c vs key h sc r"

primrec read_keys ::
  "'r reader \<Rightarrow> 'r de \<Rightarrow> class_type \<Rightarrow> nat \<Rightarrow> bool list \<Rightarrow> val list \<Rightarrow> heap \<Rightarrow> scope \<Rightarrow> 'r \<Rightarrow>
     serialization_error + (bool list \<times> val list \<times> heap \<times> 'r)" where
  "read_keys R de c 0 seen vs h sc r = fail [] sc"
| "read_keys R de c (Suc k) seen vs h sc r =
     and_then (call (next_key R r) sc) (\<lambda>(found, r). case found of
         None \<Rightarrow> Inr (seen, vs, h, r)
       | Some key \<Rightarrow>
           and_then (read_field_at de c vs key h sc r) (\<lambda>(index, vs, h, r).
           if index = field_count c
           then and_then (call (skip_value R r) sc) (\<lambda>r. read_keys R de c k seen vs h sc r)
           else read_keys R de c k (seen[index := True]) vs h sc r))"

fun missing_required :: "class_field list \<Rightarrow> bool list \<Rightarrow> class_field option" where
  "missing_required (f # fs) (s # seen) = (if required f \<and> \<not> s then Some f else missing_required fs seen)"
| "missing_required fs seen = None"

definition read_object ::
  "'r reader \<Rightarrow> 'r de \<Rightarrow> nat \<Rightarrow> class_type \<Rightarrow> val list \<Rightarrow> heap \<Rightarrow> scope \<Rightarrow> 'r \<Rightarrow> 'r read_result" where
  "read_object R de k c vs h sc r =
     and_then (call (begin_object_in R r) sc) (\<lambda>(hint, r).
     and_then (read_keys R de c k (replicate (field_count c) False) vs h sc r) (\<lambda>(seen, vs, h, r).
     and_then (call (end_object_in R r) sc) (\<lambda>r.
       case missing_required (for_each_field c) seen of
         Some f \<Rightarrow> Inl (with_child (serialized_key f) (throw_at (sc_path sc) ''missing required field''))
       | None \<Rightarrow> Inr (VObject vs, h, r))))"

section \<open>Pointers\<close>

text \<open>
  A pointer is read into a new object, which gets the next address. The class to create is named
  by the document and looked up in the registry; only a declared descendant of the static element
  type is accepted.
\<close>

definition new_object :: "string \<Rightarrow> val \<Rightarrow> heap \<Rightarrow> nat \<times> heap" where
  "new_object c v h = (length h, h @ [\<lparr>cell_class = c, cell_value = v\<rparr>])"

definition read_registered ::
  "program \<Rightarrow> 'r de \<Rightarrow> class_info \<Rightarrow> class_type \<Rightarrow> string \<Rightarrow> heap \<Rightarrow> scope \<Rightarrow> 'r \<Rightarrow>
     serialization_error + (nat \<times> heap \<times> 'r)" where
  "read_registered P de base type name h sc r =
     (if \<not> constructible (class_info type)
      then fail (''type '' @ quote (schema_name (class_info type)) @ '' is not default constructible'') sc
      else if \<not> upcasts type (type_id base)
      then fail (''type '' @ quote name @ '' is not declared as derived from '' @ type_id base @ '' (reflgen::base<>)'') sc
      else and_then (with_path ''value'' (\<lambda>sc.
          if \<not> readable (class_info type)
          then fail (''type '' @ quote (schema_name (class_info type)) @ '' is not deserializable'') sc
          else de (TObject (type_id (class_info type))) (VObject (default_fields (class_info type))) h sc r) sc)
        (\<lambda>(v, h, r). let (a, h) = new_object (type_id (class_info type)) v h in Inr (a, h, r)))"

definition read_unregistered ::
  "program \<Rightarrow> 'r de \<Rightarrow> class_info \<Rightarrow> string \<Rightarrow> heap \<Rightarrow> scope \<Rightarrow> 'r \<Rightarrow>
     serialization_error + (nat \<times> heap \<times> 'r)" where
  "read_unregistered P de base name h sc r =
     (if \<not> (reflectable base \<and> default_constructible base) \<or> name \<noteq> schema_name base
      then fail (''unknown polymorphic type '' @ quote name @ ''; register it with reflgen::register_type<T>()'') sc
      else and_then (with_path ''value'' (\<lambda>sc.
          de (TObject (type_id base)) (VObject (default_fields base)) h sc r) sc)
        (\<lambda>(v, h, r). let (a, h) = new_object (type_id base) v h in Inr (a, h, r)))"

definition read_polymorphic ::
  "program \<Rightarrow> 'r reader \<Rightarrow> 'r de \<Rightarrow> class_info \<Rightarrow> heap \<Rightarrow> scope \<Rightarrow> 'r \<Rightarrow> serialization_error + (nat \<times> heap \<times> 'r)" where
  "read_polymorphic P R de base h sc r =
     and_then (call (begin_object_in R r) sc) (\<lambda>(hint, r).
     and_then (call (next_key R r) sc) (\<lambda>(key, r).
     if key \<noteq> Some ''type''
     then fail (''a polymorphic object must start with a '' @ [CHR 0x22] @ ''type'' @ [CHR 0x22] @ '' key'') sc else
     and_then (call (read_string R r) sc) (\<lambda>(name, r).
     and_then (call (next_key R r) sc) (\<lambda>(key, r).
     if key \<noteq> Some ''value''
     then fail (''a polymorphic object must have a '' @ [CHR 0x22] @ ''value'' @ [CHR 0x22] @ '' key after '' @
            [CHR 0x22] @ ''type'' @ [CHR 0x22]) sc else
     and_then
       (case found_class P (by_name (types P) name) of
          Some type \<Rightarrow> read_registered P de base type name h sc r
        | None \<Rightarrow> read_unregistered P de base name h sc r) (\<lambda>(a, h, r).
     and_then (call (next_key R r) sc) (\<lambda>(key, r). case key of
         Some k \<Rightarrow> fail (''unexpected key '' @ quote k @ '' in a polymorphic object'') sc
       | None \<Rightarrow> and_then (call (end_object_in R r) sc) (\<lambda>r. Inr (a, h, r))))))))"

definition element_class :: "ty \<Rightarrow> string" where
  "element_class t = (case t of TObject c \<Rightarrow> c | _ \<Rightarrow> [])"

definition read_pointer ::
  "program \<Rightarrow> 'r reader \<Rightarrow> 'r de \<Rightarrow> ty \<Rightarrow> heap \<Rightarrow> scope \<Rightarrow> 'r \<Rightarrow> 'r read_result" where
  "read_pointer P R de t h sc r =
     and_then (call (peek R r) sc) (\<lambda>(kind, r).
       if kind = KNull then and_then (call (read_null R r) sc) (\<lambda>r. Inr (VPointer None, h, r))
       else case polymorphic_class P t of
         Some base \<Rightarrow> and_then (read_polymorphic P R de base h sc r) (\<lambda>(a, h, r). Inr (VPointer (Some a), h, r))
       | None \<Rightarrow> and_then (de t (default_value P t) h sc r) (\<lambda>(v, h, r).
           let (a, h) = new_object (element_class t) v h in Inr (VPointer (Some a), h, r)))"

text \<open>
  A reference is read into its target, whatever it is. The target must not be reached from itself
  through another reference: the program would then interleave the two updates.
\<close>

definition read_reference ::
  "'r de \<Rightarrow> ty \<Rightarrow> nat option \<Rightarrow> heap \<Rightarrow> scope \<Rightarrow> 'r \<Rightarrow> 'r read_result" where
  "read_reference de t p h sc r = (case p of
       None \<Rightarrow> fail [] sc
     | Some a \<Rightarrow>
         if length h \<le> a then fail [] sc
         else and_then (de t (cell_value (h ! a)) h sc r) (\<lambda>(v, h, r).
                Inr (VReference a, h[a := (h ! a)\<lparr>cell_value := v\<rparr>], r)))"

section \<open>The dispatch\<close>

fun deserialize ::
  "program \<Rightarrow> 'r reader \<Rightarrow> nat \<Rightarrow> ty \<Rightarrow> val \<Rightarrow> heap \<Rightarrow> scope \<Rightarrow> 'r \<Rightarrow> 'r read_result" where
  "deserialize P R 0 type v h sc r = fail [] sc"
| "deserialize P R (Suc n) type v h sc r =
     (case type of
       TBool \<Rightarrow> give h VBool (call (read_bool R r) sc)
     | TChar c \<Rightarrow> give h VChar (read_character R c sc r)
     | TByte \<Rightarrow> give h (\<lambda>i. VByte (word_of_int i)) (read_integer R byte_type sc r)
     | TInteger t \<Rightarrow> give h VInteger (read_integer R t sc r)
     | TFloat \<Rightarrow> give h VFloat (call (read_float32 R r) sc)
     | TDouble \<Rightarrow> give h VDouble (call (read_float R r) sc)
     | TEnum e \<Rightarrow> give h VEnum (read_enum R e sc r)
     | TNull \<Rightarrow> and_then (call (read_null R r) sc) (\<lambda>r. Inr (VNull, h, r))
     | TObject c \<Rightarrow> (case classes P c of
           Some d \<Rightarrow> read_object R (deserialize P R n) n d (items_in v) h sc r | None \<Rightarrow> fail [] sc)
     | TString c \<Rightarrow> give h VText (read_text R c sc r)
     | TStringView c \<Rightarrow> fail [] sc
     | TCString c \<Rightarrow> fail [] sc
     | TCharArray c m \<Rightarrow> give h VText (read_char_array R c m sc r)
     | TOptional t \<Rightarrow> read_optional P R (deserialize P R n) t (optional_in v) h sc r
     | TPointer t \<Rightarrow> read_pointer P R (deserialize P R n) t h sc r
     | TVariant ts \<Rightarrow> read_variant P R (deserialize P R n) ts h sc r
     | TComplex t \<Rightarrow> read_tuple R (deserialize P R n) [t, t] [default_value P t, default_value P t] h sc r
     | TBitset m \<Rightarrow> give h VBits (read_bitset R m sc r)
     | TDuration t \<Rightarrow> deserialize P R n t (default_value P t) h sc r
     | TTimePoint t \<Rightarrow> deserialize P R n t (default_value P t) h sc r
     | TPath \<Rightarrow> give h VPath (call (read_string R r) sc)
     | TAdapter a t \<Rightarrow> read_adapter P (deserialize P R n) a t h sc r
     | TAtomic t \<Rightarrow> deserialize P R n t (default_value P t) h sc r
     | TReference t \<Rightarrow> read_reference (deserialize P R n) t (pointer_in v) h sc r
     | TBytes extent \<Rightarrow> give h VBytes (read_blob R extent sc r)
     | TSequence s t \<Rightarrow> read_sequence P R (deserialize P R n) n s t h sc r
     | TMap m k t \<Rightarrow> read_map P R (deserialize P R n) n m k t h sc r
     | TFixedRange m t \<Rightarrow> read_fixed_range R (deserialize P R n) n t (items_in v) h sc r
     | TRange t \<Rightarrow> fail [] sc
     | TTuple ts \<Rightarrow> read_tuple R (deserialize P R n) ts (items_in v) h sc r)"

declare deserialize.simps [simp del]

text \<open>The equation of each category.\<close>

lemmas deserialize_at =
  deserialize.simps(1)
  deserialize.simps(2) [where type = TBool, unfolded ty.case]
  deserialize.simps(2) [where type = "TChar c" for c, unfolded ty.case]
  deserialize.simps(2) [where type = TByte, unfolded ty.case]
  deserialize.simps(2) [where type = "TInteger t" for t, unfolded ty.case]
  deserialize.simps(2) [where type = TFloat, unfolded ty.case]
  deserialize.simps(2) [where type = TDouble, unfolded ty.case]
  deserialize.simps(2) [where type = "TEnum e" for e, unfolded ty.case]
  deserialize.simps(2) [where type = TNull, unfolded ty.case]
  deserialize.simps(2) [where type = "TObject c" for c, unfolded ty.case]
  deserialize.simps(2) [where type = "TString c" for c, unfolded ty.case]
  deserialize.simps(2) [where type = "TStringView c" for c, unfolded ty.case]
  deserialize.simps(2) [where type = "TCString c" for c, unfolded ty.case]
  deserialize.simps(2) [where type = "TCharArray c m" for c m, unfolded ty.case]
  deserialize.simps(2) [where type = "TOptional t" for t, unfolded ty.case]
  deserialize.simps(2) [where type = "TPointer t" for t, unfolded ty.case]
  deserialize.simps(2) [where type = "TVariant ts" for ts, unfolded ty.case]
  deserialize.simps(2) [where type = "TComplex t" for t, unfolded ty.case]
  deserialize.simps(2) [where type = "TBitset m" for m, unfolded ty.case]
  deserialize.simps(2) [where type = "TDuration t" for t, unfolded ty.case]
  deserialize.simps(2) [where type = "TTimePoint t" for t, unfolded ty.case]
  deserialize.simps(2) [where type = TPath, unfolded ty.case]
  deserialize.simps(2) [where type = "TAdapter a t" for a t, unfolded ty.case]
  deserialize.simps(2) [where type = "TAtomic t" for t, unfolded ty.case]
  deserialize.simps(2) [where type = "TReference t" for t, unfolded ty.case]
  deserialize.simps(2) [where type = "TBytes extent" for extent, unfolded ty.case]
  deserialize.simps(2) [where type = "TSequence s t" for s t, unfolded ty.case]
  deserialize.simps(2) [where type = "TMap m k t" for m k t, unfolded ty.case]
  deserialize.simps(2) [where type = "TFixedRange m t" for m t, unfolded ty.case]
  deserialize.simps(2) [where type = "TRange t" for t, unfolded ty.case]
  deserialize.simps(2) [where type = "TTuple ts" for ts, unfolded ty.case]

end
