(* ===== verification/Serial_Fields.thy ===== *)
theory Serial_Fields
  imports Serial_Read
begin

text \<open>
  The fields of a described class. Writing and reading walk the hierarchy of the class, base by
  base, each with the slice of the object that is its subobject; here both are shown to be the
  walk along the one list of \<open>for_each_field\<close>, with the indices that the walk along that list
  has.
\<close>

section \<open>Writing\<close>

lemma and_then_fail [simp]: "and_then (fail msg sc) f = fail msg sc"
  by (simp add: fail_def throw_def)

lemma fail_throws [simp]: "fail msg sc \<noteq> Inr x"
  by (simp add: fail_def)

lemma call_Inr [simp]: "call m sc = Inr x \<longleftrightarrow> m = Inr x"
  by (simp add: call_def)

lemma call_Inr_eq [simp]: "call (Inr x) sc = Inr x"
  by (simp add: call_def)

lemma write_own_fields_append:
  "write_own_fields W ser (fs @ gs) vs sc w =
     and_then (write_own_fields W ser fs (take (length fs) vs) sc w)
       (\<lambda>w. write_own_fields W ser gs (drop (length fs) vs) sc w)"
proof (induction fs arbitrary: vs w)
  case Nil
  then show ?case by simp
next
  case (Cons f fs)
  show ?case
  proof (cases vs)
    case Nil
    then show ?thesis by simp
  next
    case (Cons v us)
    then show ?thesis by (cases "write_one_field W ser f v sc w") (simp_all add: Cons.IH)
  qed
qed

lemma write_fields_flat:
  "reflectable (class_info c) \<or> vs = [] \<Longrightarrow>
     write_own_and_base_fields W ser c vs sc w = write_own_fields W ser (for_each_field c) vs sc w"
proof (induction c arbitrary: vs w)
  case (Class_Type c bs fs)
  have bases: "set ds \<subseteq> set bs \<Longrightarrow> write_base_fields W ser ds fs us sc w =
      write_own_fields W ser (concat (map for_each_field ds) @ fs) us sc w" for ds us w
  proof (induction ds arbitrary: us w)
    case (Cons d ds)
    have "reflectable (class_info d) \<or> take (field_count d) us = []"
      by (cases d) (simp add: field_count_def)
    with Cons Class_Type.IH [of d] show ?case
      by (cases "write_own_fields W ser (for_each_field d) (take (field_count d) us) sc w")
        (simp_all add: write_own_fields_append field_count_def add.commute)
  qed simp
  from Class_Type.prems bases [of bs] show ?case by auto
qed

section \<open>Reading\<close>

lemma read_own_fields_found:
  "read_own_fields de fs vs key none i h sc r = Inr (found, us, h', r') \<Longrightarrow>
     length us = length vs \<and> (found = none \<or> i \<le> found \<and> found < i + length fs)"
  by (induction de fs vs key none i h sc r arbitrary: us found h' r' rule: read_own_fields.induct)
    (auto split: if_splits)

text \<open>The same walk with its indices counted from another start.\<close>

lemma read_own_fields_shift:
  assumes "i + length fs \<le> n" "offset + i + length fs \<le> none"
  shows "read_own_fields de fs vs key none (offset + i) h sc r =
    map_sum id (\<lambda>(found, rest). (if found = n then none else offset + found, rest)) (read_own_fields de fs vs key n i h sc r)"
  using assms
proof (induction fs arbitrary: vs i)
  case (Cons f fs)
  show ?case
  proof (cases vs)
    case (Cons v us)
    with Cons.prems Cons.IH [of "Suc i" us] show ?thesis
      by (cases "read_own_fields de fs us key n (Suc i) h sc r";
          cases "with_path key (\<lambda>sc. de (field_type f) v h sc r) sc") auto
  qed simp
qed (cases vs; simp)

lemma read_own_fields_append:
  "i + length fs + length gs \<le> none \<Longrightarrow> length fs \<le> length vs \<Longrightarrow>
   read_own_fields de (fs @ gs) vs key none i h sc r =
     and_then (read_own_fields de fs (take (length fs) vs) key none i h sc r) (\<lambda>(found, us, h, r).
       if found \<noteq> none then Inr (found, us @ drop (length fs) vs, h, r)
       else and_then (read_own_fields de gs (drop (length fs) vs) key none (i + length fs) h sc r)
              (\<lambda>(found, ws, h, r). Inr (found, us @ ws, h, r)))"
proof (induction fs arbitrary: vs i)
  case Nil
  then show ?case by (cases "read_own_fields de gs vs key none i h sc r") auto
next
  case (Cons f fs)
  from Cons.prems(2) obtain v us where vs: "vs = v # us" by (cases vs) auto
  with Cons.prems have "Suc i + length fs + length gs \<le> none" "length fs \<le> length us" by auto
  note IH = Cons.IH [OF this]
  show ?case
  proof (cases "transient f \<or> key \<noteq> serialized_key f")
    case True
    show ?thesis
    proof (cases "read_own_fields de fs (take (length fs) us) key none (Suc i) h sc r")
      case (Inr res)
      obtain found ws h' r' where res: "res = (found, ws, h', r')" by (cases res)
      with True Inr show ?thesis
        by (cases "read_own_fields de gs (drop (length fs) us) key none (Suc (i + length fs)) h' sc r'") (auto simp: vs IH)
    qed (use True in \<open>auto simp: vs IH\<close>)
  next
    case False
    with Cons.prems show ?thesis
      by (cases "with_path key (\<lambda>sc. de (field_type f) v h sc r) sc") (auto simp: vs)
  qed
qed

text \<open>
  The walk by bases. An object of the class has a value for each field, so each base gets as many
  as it has.
\<close>

lemma read_base_skip:
  "found \<noteq> none \<Longrightarrow> read_base_field de bs none found offset vs key h sc r = Inr (found, vs, h, r)"
  by (induction bs arbitrary: offset vs) (auto simp: append_take_drop_id)

lemma read_fields_flat:
  "length vs = field_count c \<Longrightarrow>
     read_own_and_base_field de c vs key h sc r = read_own_fields de (for_each_field c) vs key (field_count c) 0 h sc r"
proof (induction c arbitrary: vs h r)
  case (Class_Type c bs fs)
  have bases: "set ds \<subseteq> set bs \<Longrightarrow> offset + length (concat (map for_each_field ds)) \<le> none \<Longrightarrow>
      length us = length (concat (map for_each_field ds)) \<Longrightarrow>
      read_base_field de ds none none offset us key h sc r =
      read_own_fields de (concat (map for_each_field ds)) us key none offset h sc r" for ds us none offset h r
  proof (induction ds arbitrary: us offset h r)
    case (Cons d ds)
    let ?n = "length (for_each_field d)"
    have own: "read_own_and_base_field de d (take ?n us) key h sc r =
        read_own_fields de (for_each_field d) (take ?n us) key ?n 0 h sc r"
      using Class_Type.IH [of d "take ?n us"] Cons.prems by (simp add: field_count_def)
    have shift: "read_own_fields de (for_each_field d) (take ?n us) key none offset h sc r =
        map_sum id (\<lambda>(found, rest). (if found = ?n then none else offset + found, rest))
          (read_own_fields de (for_each_field d) (take ?n us) key ?n 0 h sc r)"
      using read_own_fields_shift [of 0 "for_each_field d" ?n offset none] Cons.prems by simp
    have rest: "read_base_field de ds none none (offset + ?n) (drop ?n us) key h' sc r' =
        read_own_fields de (concat (map for_each_field ds)) (drop ?n us) key none (offset + ?n) h' sc r'" for h' r'
      using Cons.IH [of "offset + ?n" "drop ?n us"] Cons.prems by (simp add: add.assoc)
    have whole: "read_own_fields de (for_each_field d @ concat (map for_each_field ds)) us key none offset h sc r =
        and_then (read_own_fields de (for_each_field d) (take ?n us) key none offset h sc r) (\<lambda>(found, ws, h, r).
          if found \<noteq> none then Inr (found, ws @ drop ?n us, h, r)
          else and_then (read_own_fields de (concat (map for_each_field ds)) (drop ?n us) key none (offset + ?n) h sc r)
                 (\<lambda>(found, vs, h, r). Inr (found, ws @ vs, h, r)))"
      using Cons.prems by (intro read_own_fields_append) auto
    show ?case
    proof (cases "read_own_fields de (for_each_field d) (take ?n us) key ?n 0 h sc r")
      case (Inl e)
      then show ?thesis by (simp add: field_count_def own whole shift)
    next
      case (Inr res)
      obtain found ws h' r' where res: "res = (found, ws, h', r')" by (cases res)
      with read_own_fields_found [OF Inr [unfolded res]] Cons.prems
      have "found = ?n \<or> offset + found < none" by auto
      with Inr res show ?thesis
        by (auto simp: field_count_def own whole shift read_base_skip rest)
    qed
  qed simp
  let ?m = "sum_list (map field_count bs)" and ?bs = "concat (map for_each_field bs)"
  have m: "?m = length ?bs" by (simp add: length_concat comp_def field_count_def [abs_def])
  show ?case
  proof (cases "reflectable c")
    case False
    then show ?thesis using Class_Type.prems by (simp add: field_count_def)
  next
    case True
    let ?none = "length ?bs + length fs"
    have none: "field_count (Class_Type c bs fs) = ?none" using True by (simp add: field_count_def)
    have "read_base_field de bs ?none ?none 0 (take ?m vs) key h sc r =
        read_own_fields de ?bs (take ?m vs) key ?none 0 h sc r"
      using bases [of bs 0 ?none "take ?m vs"] Class_Type.prems none m by simp
    moreover have "read_own_fields de (?bs @ fs) vs key ?none 0 h sc r =
        and_then (read_own_fields de ?bs (take ?m vs) key ?none 0 h sc r) (\<lambda>(found, us, h, r).
          if found \<noteq> ?none then Inr (found, us @ drop ?m vs, h, r)
          else and_then (read_own_fields de fs (drop ?m vs) key ?none ?m h sc r)
                 (\<lambda>(found, ws, h, r). Inr (found, us @ ws, h, r)))"
      unfolding m using Class_Type.prems none by (subst read_own_fields_append) (simp_all only: add_0 le_refl le_add1)
    ultimately show ?thesis using True none by (simp add: Let_def)
  qed
qed

section \<open>One key\<close>

lemma read_own_fields_unknown:
  "key \<notin> serialized_key ` {f \<in> set fs. \<not> transient f} \<Longrightarrow>
     read_own_fields de fs vs key none i h sc r = Inr (none, vs, h, r)"
  by (induction de fs vs key none i h sc r rule: read_own_fields.induct) (auto simp: image_iff)

lemma read_own_fields_known:
  assumes "distinct (map serialized_key (filter (\<lambda>f. \<not> transient f) fs))" "n < length fs" "length fs \<le> length vs"
    "\<not> transient (fs ! n)"
  shows "read_own_fields de fs vs (serialized_key (fs ! n)) none i h sc r =
    and_then (with_path (serialized_key (fs ! n)) (\<lambda>sc. de (field_type (fs ! n)) (vs ! n) h sc r) sc)
      (\<lambda>(v, h, r). Inr (i + n, vs[n := v], h, r))"
  using assms
proof (induction fs arbitrary: vs n i)
  case (Cons f fs)
  then obtain v us where vs: "vs = v # us" by (cases vs) auto
  show ?case
  proof (cases n)
    case 0
    with Cons.prems show ?thesis
      by (cases "with_path (serialized_key f) (\<lambda>sc. de (field_type f) v h sc r) sc") (auto simp: vs)
  next
    case (Suc m)
    have "transient f \<or> serialized_key (fs ! m) \<noteq> serialized_key f"
    proof (rule ccontr)
      assume no: "\<not> (transient f \<or> serialized_key (fs ! m) \<noteq> serialized_key f)"
      have "fs ! m \<in> set (filter (\<lambda>f. \<not> transient f) fs)" using Cons.prems Suc by simp
      then have "serialized_key (fs ! m) \<in> serialized_key ` set (filter (\<lambda>f. \<not> transient f) fs)" by blast
      with no Cons.prems(1) show False by simp
    qed
    moreover have "distinct (map serialized_key (filter (\<lambda>f. \<not> transient f) fs))"
      using Cons.prems(1) by (simp split: if_splits)
    ultimately show ?thesis
      using Cons.IH [of m us "Suc i"] Cons.prems Suc
      by (cases "with_path (serialized_key (fs ! m)) (\<lambda>sc. de (field_type (fs ! m)) (us ! m) h sc r) sc") (auto simp: vs)
  qed
qed simp

lemma read_field_at_known:
  assumes "check_object_contract c" "length vs = field_count c" "n < field_count c" "\<not> transient (for_each_field c ! n)"
  shows "read_field_at de c vs (serialized_key (for_each_field c ! n)) h sc r =
    and_then (with_path (serialized_key (for_each_field c ! n))
        (\<lambda>sc. de (field_type (for_each_field c ! n)) (vs ! n) h sc r) sc)
      (\<lambda>(v, h, r). Inr (n, vs[n := v], h, r))"
proof -
  have "read_own_fields de (for_each_field c) vs (serialized_key (for_each_field c ! n)) (field_count c) 0 h sc r =
    and_then (with_path (serialized_key (for_each_field c ! n))
        (\<lambda>sc. de (field_type (for_each_field c ! n)) (vs ! n) h sc r) sc)
      (\<lambda>(v, h, r). Inr (0 + n, vs[n := v], h, r))"
    using assms by (intro read_own_fields_known)
      (simp_all add: check_object_contract_def serialized_keys_unique_def serialized_fields_def field_count_def)
  then show ?thesis using assms by (simp only: read_field_at_def read_fields_flat add_0)
qed

lemma read_field_at_unknown:
  assumes "length vs = field_count c" "key \<notin> serialized_key ` set (serialized_fields c)"
  shows "read_field_at de c vs key h sc r = Inr (field_count c, vs, h, r)"
  using assms read_own_fields_unknown [of key "for_each_field c"]
  by (simp add: read_field_at_def read_fields_flat serialized_fields_def)

end
