(* ===== verification/Serial_Nodes.thy ===== *)
theory Serial_Nodes
  imports Serial_Fields
begin

text \<open>
  What writing promises to a backend: every successful call of \<open>serialize\<close> makes the sequence of
  writer calls of exactly one value of the data model. This is the discipline the backends rely
  on; a container, class or pointer never leaves an array or object half written.
\<close>

section \<open>One value\<close>

definition one_value :: "'w writer \<Rightarrow> 'w \<Rightarrow> 'e + 'w \<Rightarrow> bool" where
  "one_value W w m \<longleftrightarrow> (\<forall>w'. m = Inr w' \<longrightarrow> (\<exists>n. write_node W n w = Inr w'))"

definition values_run :: "'w writer \<Rightarrow> nat \<Rightarrow> 'w \<Rightarrow> 'e + 'w \<Rightarrow> bool" where
  "values_run W k w m \<longleftrightarrow> (\<forall>w'. m = Inr w' \<longrightarrow> (\<exists>ns. length ns = k \<and> write_nodes W ns w = Inr w'))"

definition entries_run :: "'w writer \<Rightarrow> nat \<Rightarrow> 'w \<Rightarrow> 'e + 'w \<Rightarrow> bool" where
  "entries_run W k w m \<longleftrightarrow> (\<forall>w'. m = Inr w' \<longrightarrow> (\<exists>ms. length ms = k \<and> write_members W ms w = Inr w'))"

lemma one_valueI: "(\<And>w'. m = Inr w' \<Longrightarrow> \<exists>n. write_node W n w = Inr w') \<Longrightarrow> one_value W w m"
  by (simp add: one_value_def)

lemma one_value_leaf:
  "one_value W w (call (write_null W w) sc)" "one_value W w (call (write_bool W b w) sc)"
  "one_value W w (call (write_int W i w) sc)" "one_value W w (call (write_uint W i w) sc)"
  "one_value W w (call (write_float W x w) sc)" "one_value W w (call (write_float32 W y w) sc)"
  "one_value W w (call (write_string W s w) sc)" "one_value W w (call (write_bytes W bs w) sc)"
  "one_value W w (fail msg sc)"
  unfolding one_value_def call_Inr
  by (metis write_node.simps, metis write_node.simps, metis write_node.simps, metis write_node.simps,
      metis write_node.simps, metis write_node.simps, metis write_node.simps, metis write_node.simps, simp)

lemma one_value_array:
  assumes "\<And>w. values_run W k w (f w)"
  shows "one_value W w (and_then (call (begin_array W k w) sc) (\<lambda>w. and_then (f w) (\<lambda>w. call (end_array W w) sc)))"
proof (rule one_valueI)
  fix w' assume "and_then (call (begin_array W k w) sc) (\<lambda>w. and_then (f w) (\<lambda>w. call (end_array W w) sc)) = Inr w'"
  then obtain w1 w2 where "begin_array W k w = Inr w1" "f w1 = Inr w2" "end_array W w2 = Inr w'" by auto
  moreover from assms this(2) obtain ns where "length ns = k" "write_nodes W ns w1 = Inr w2"
    unfolding values_run_def by blast
  ultimately have "write_node W (NArray ns) w = Inr w'" by simp
  then show "\<exists>n. write_node W n w = Inr w'" ..
qed

lemma one_value_object:
  assumes "\<And>w. entries_run W k w (f w)"
  shows "one_value W w (and_then (call (begin_object W k w) sc) (\<lambda>w. and_then (f w) (\<lambda>w. call (end_object W w) sc)))"
proof (rule one_valueI)
  fix w' assume "and_then (call (begin_object W k w) sc) (\<lambda>w. and_then (f w) (\<lambda>w. call (end_object W w) sc)) = Inr w'"
  then obtain w1 w2 where "begin_object W k w = Inr w1" "f w1 = Inr w2" "end_object W w2 = Inr w'" by auto
  moreover from assms this(2) obtain ms where "length ms = k" "write_members W ms w1 = Inr w2"
    unfolding entries_run_def by blast
  ultimately have "write_node W (NObject ms) w = Inr w'" by simp
  then show "\<exists>n. write_node W n w = Inr w'" ..
qed

lemma values_run_Nil: "values_run W 0 w (Inr w)"
  by (simp add: values_run_def)

lemma values_run_Cons:
  assumes "one_value W w m" "\<And>w. values_run W k w (f w)"
  shows "values_run W (Suc k) w (and_then m f)"
  unfolding values_run_def
proof (intro allI impI)
  fix w' assume "and_then m f = Inr w'"
  then obtain w1 where "m = Inr w1" "f w1 = Inr w'" by auto
  with assms obtain n ns where "write_node W n w = Inr w1" "length ns = k" "write_nodes W ns w1 = Inr w'"
    unfolding one_value_def values_run_def by blast
  then show "\<exists>ns. length ns = Suc k \<and> write_nodes W ns w = Inr w'"
    by (intro exI [of _ "n # ns"]) simp
qed

lemma entries_run_Nil: "entries_run W 0 w (Inr w)"
  by (simp add: entries_run_def)

lemma entries_run_Cons:
  assumes "\<And>w. one_value W w (m w)" "\<And>w. entries_run W k w (f w)"
  shows "entries_run W (Suc k) w (and_then (call (write_key W key w) sc) (\<lambda>w. and_then (m w) f))"
  unfolding entries_run_def
proof (intro allI impI)
  fix w' assume "and_then (call (write_key W key w) sc) (\<lambda>w. and_then (m w) f) = Inr w'"
  then obtain w0 w1 where "write_key W key w = Inr w0" "m w0 = Inr w1" "f w1 = Inr w'" by auto
  moreover with assms obtain n ms where "write_node W n w0 = Inr w1" "length ms = k" "write_members W ms w1 = Inr w'"
    unfolding one_value_def entries_run_def by blast
  ultimately show "\<exists>ms. length ms = Suc k \<and> write_members W ms w = Inr w'"
    by (intro exI [of _ "(key, n) # ms"]) simp
qed

section \<open>The functions of the serializer\<close>

text \<open>Each writes one value if the calls on the parts do.\<close>

lemma one_value_and_then: "(\<And>x. one_value W w (f x)) \<Longrightarrow> one_value W w (and_then m f)"
  by (cases m) (auto simp: one_value_def)

lemma one_value_integer: "one_value W w (write_integer W t i sc w)"
  by (simp add: write_integer_def one_value_leaf)

lemma one_value_text: "one_value W w (write_text W t sc w)"
  by (simp add: write_text_def one_value_and_then one_value_leaf)

lemma one_value_character: "one_value W w (write_character W t sc w)"
  by (cases t) (simp_all add: one_value_and_then one_value_leaf)

lemma one_value_enum: "one_value W w (write_enum W e i sc w)"
  by (simp add: write_enum_def one_value_integer one_value_leaf)

lemma one_value_c_string: "one_value W w (write_c_string W t sc w)"
  by (cases t) (simp_all add: one_value_text one_value_leaf)

lemma one_value_elements:
  "(\<And>v s w. v \<in> set vs \<Longrightarrow> sc_active s = sc_active sc \<Longrightarrow> one_value W w (ser v s w)) \<Longrightarrow>
    values_run W (length vs) w (write_elements ser i vs sc w)"
  by (induction vs arbitrary: i w) (simp_all add: values_run_Nil values_run_Cons with_index_def)

lemma one_value_range:
  assumes "\<And>v s w. v \<in> set vs \<Longrightarrow> sc_active s = sc_active sc \<Longrightarrow> one_value W w (ser t v s w)"
  shows "one_value W w (write_range W ser t vs sc w)"
  unfolding write_range_def using assms by (intro one_value_array one_value_elements)

lemma one_value_keyed:
  "(\<And>k v s w. (k, v) \<in> set es \<Longrightarrow> sc_active s = sc_active sc \<Longrightarrow> one_value W w (ser v s w)) \<Longrightarrow>
    entries_run W (length es) w (write_keyed W kt ser es sc w)"
proof (induction es arbitrary: w)
  case (Cons e es)
  obtain k v where e: "e = (k, v)" by (cases e)
  have "entries_run W (length es) w (write_keyed W kt ser es sc w)" for w
    using Cons.prems by (intro Cons.IH) (auto simp: e)
  moreover have "one_value W w (with_path (encode_key kt k) (\<lambda>sc. ser v sc w) sc)" for w
    using Cons.prems [of k v] by (simp add: e with_path_def)
  ultimately show ?case by (simp add: e entries_run_Cons)
qed (simp add: entries_run_Nil)

lemma one_value_two:
  assumes "\<And>w. one_value W w (f w)" "\<And>w. one_value W w (g w)"
  shows "one_value W w (and_then (call (begin_array W 2 w) sc) (\<lambda>w.
    and_then (f w) (\<lambda>w. and_then (g w) (\<lambda>w. call (end_array W w) sc))))"
proof -
  have "values_run W (Suc (Suc 0)) w (and_then (f w) (\<lambda>w. and_then (g w) Inr))" for w
    by (intro values_run_Cons assms values_run_Nil)
  from one_value_array [of W "Suc (Suc 0)", OF this] show ?thesis
    by (simp add: and_then_assoc numeral_2_eq_2)
qed

lemma one_value_pairs:
  "(\<And>k v s w. (k, v) \<in> set es \<Longrightarrow> sc_active s = sc_active sc \<Longrightarrow> one_value W w (ser_key k s w) \<and> one_value W w (ser v s w)) \<Longrightarrow>
    values_run W (length es) w (write_pairs W ser_key ser i es sc w)"
proof (induction es arbitrary: i w)
  case (Cons e es)
  obtain k v where e: "e = (k, v)" by (cases e)
  have "values_run W (length es) w (write_pairs W ser_key ser (Suc i) es sc w)" for w
    using Cons.prems by (intro Cons.IH) (auto simp: e)
  moreover have "one_value W w (with_index i (\<lambda>sc.
         and_then (call (begin_array W 2 w) sc) (\<lambda>w.
         and_then (ser_key k sc w) (\<lambda>w. and_then (ser v sc w) (\<lambda>w. call (end_array W w) sc)))) sc)" for w
    unfolding with_index_def using Cons.prems [of k v] by (intro one_value_two) (simp_all add: e)
  ultimately show ?case by (simp add: e values_run_Cons)
qed (simp add: values_run_Nil)

lemma one_value_map:
  assumes "\<And>t k v x s w. (k, v) \<in> set es \<Longrightarrow> x = k \<or> x = v \<Longrightarrow> sc_active s = sc_active sc \<Longrightarrow> one_value W w (ser t x s w)"
  shows "one_value W w (write_map W ser m kt t es sc w)"
  unfolding write_map_def using assms
  by (auto intro!: one_value_array one_value_object one_value_keyed one_value_pairs)

lemma one_value_variant:
  assumes "\<And>t i v s w. x = Some (i, v) \<Longrightarrow> sc_active s = sc_active sc \<Longrightarrow> one_value W w (ser t v s w)"
  shows "one_value W w (write_variant W ser ts x sc w)"
proof (cases x)
  case (Some a)
  obtain i v where a: "a = (i, v)" by (cases a)
  have "one_value W w (with_index 1 (\<lambda>sc. ser (ts ! i) v sc w) sc)" for w
    using assms Some a by (simp add: with_index_def)
  then show ?thesis by (simp add: Some a one_value_two one_value_leaf)
qed (simp add: one_value_leaf)

lemma one_value_parts:
  "(\<And>t v s w. v \<in> set vs \<Longrightarrow> sc_active s = sc_active sc \<Longrightarrow> one_value W w (ser t v s w)) \<Longrightarrow>
    values_run W (length ts) w (write_parts ser i ts vs sc w)"
proof (induction ts arbitrary: i vs w)
  case Nil
  then show ?case by (cases vs) (simp_all add: values_run_Nil, simp add: values_run_def)
next
  case (Cons t ts)
  show ?case
  proof (cases vs)
    case (Cons v us)
    then show ?thesis using Cons.prems Cons.IH [of us] by (simp add: values_run_Cons with_index_def)
  qed (simp add: values_run_def)
qed

lemma one_value_tuple:
  assumes "\<And>t v s w. v \<in> set vs \<Longrightarrow> sc_active s = sc_active sc \<Longrightarrow> one_value W w (ser t v s w)"
  shows "one_value W w (write_tuple W ser ts vs sc w)"
  unfolding write_tuple_def using assms by (intro one_value_array one_value_parts)

lemma one_value_complex:
  "(\<And>t v s w. v \<in> set vs \<Longrightarrow> sc_active s = sc_active sc \<Longrightarrow> one_value W w (ser t v s w)) \<Longrightarrow>
    one_value W w (write_complex W ser t vs sc w)"
  by (induction W ser t vs sc w rule: write_complex.induct) (simp_all add: one_value_two one_value_leaf)

lemma one_value_fields:
  "(\<And>t v s w. v \<in> set vs \<Longrightarrow> sc_active s = sc_active sc \<Longrightarrow> one_value W w (ser t v s w)) \<Longrightarrow>
    entries_run W (length (filter (\<lambda>f. \<not> transient f) fs)) w (write_own_fields W ser fs vs sc w)"
proof (induction fs arbitrary: vs w)
  case Nil
  then show ?case by (cases vs) (simp_all add: entries_run_Nil, simp add: entries_run_def)
next
  case (Cons f fs)
  show ?case
  proof (cases vs)
    case (Cons v us)
    then show ?thesis using Cons.prems Cons.IH [of us]
      by (simp add: write_one_field_def and_then_assoc entries_run_Cons with_path_def)
  qed (simp add: entries_run_def)
qed

lemma one_value_class:
  assumes "\<And>t v s w. v \<in> set vs \<Longrightarrow> sc_active s = sc_active sc \<Longrightarrow> one_value W w (ser t v s w)"
  shows "one_value W w (write_object W ser c vs sc w)"
proof -
  have "entries_run W (serialized_field_count c) w (write_fields W ser c vs sc w)" for w
  proof (cases "reflectable (class_info c)")
    case True
    then show ?thesis
      using one_value_fields [of vs sc W ser "for_each_field c" w] assms
      by (simp add: write_fields_def write_fields_flat serialized_field_count_def serialized_fields_def)
  next
    case False
    then show ?thesis
      by (cases c) (simp add: write_fields_def serialized_field_count_def serialized_fields_def entries_run_Nil)
  qed
  then show ?thesis unfolding write_object_def by (rule one_value_object)
qed

lemma one_value_tagged:
  assumes "\<And>w. one_value W w (f w)"
  shows "entries_run W 2 w (and_then (call (write_key W k w) sc) (\<lambda>w. and_then (call (write_string W s w) sc) (\<lambda>w.
    and_then (call (write_key W l w) sc) f)))"
proof -
  have "entries_run W (Suc (Suc 0)) w (and_then (call (write_key W k w) sc) (\<lambda>w. and_then (call (write_string W s w) sc)
      (\<lambda>w. and_then (call (write_key W l w) sc) (\<lambda>w. and_then (f w) Inr))))"
    by (intro entries_run_Cons one_value_leaf assms entries_run_Nil)
  then show ?thesis by (simp add: numeral_2_eq_2)
qed

lemma one_value_polymorphic:
  assumes "\<And>t s w. sc_active s = sc_active sc \<Longrightarrow> one_value W w (ser t (cell_value c) s w)"
  shows "one_value W w (write_polymorphic P W ser base c sc w)"
proof -
  have member: "one_value W w (with_path ''value'' (\<lambda>sc. ser t (cell_value c) sc w) sc)"
    "one_value W w (with_path ''value'' (\<lambda>sc. write_instance W ser type (cell_value c) sc w) sc)" for t type w
    using assms by (simp_all add: with_path_def write_instance_def one_value_leaf)
  have none: "entries_run W 2 w (and_then (call (write_key W ''type'' w) sc) (\<lambda>w. fail msg sc))" for msg w
    by (simp add: entries_run_def)
  show ?thesis
    using one_value_object [of W 2, OF one_value_tagged [OF member(2)]]
      one_value_object [of W 2, OF one_value_tagged [OF member(1)]] one_value_object [of W 2, OF none]
    unfolding write_polymorphic_def
    by (cases "found_class P (by_rtti (types P) (cell_class c))"; cases "base_serializable base";
        cases "cell_class c = type_id base") (simp_all add: and_then_assoc)
qed

lemma one_value_pointer:
  assumes "\<And>a t s w. p = Some a \<Longrightarrow> a < length h \<Longrightarrow> a \<notin> set (sc_active sc) \<Longrightarrow> sc_active s = sc_active sc @ [a] \<Longrightarrow>
     one_value W w (ser t (cell_value (h ! a)) s w)"
  shows "one_value W w (write_pointer P W h ser t p sc w)" "one_value W w (write_reference h ser t p sc w)"
  unfolding write_pointer_def write_reference_def indirection_guard_def using assms
  by (auto simp: one_value_leaf one_value_polymorphic split: option.split)

lemma serialize_one: "one_value W w (serialize P W h t v sc w)"
proof (induction P W h t v sc w rule: serialize.induct)
  case (1 P W h t v sc w)
  have char_array: "one_value W w (write_char_array W u sc w)" for u
    by (simp add: write_char_array_def one_value_text)
  have optional: "(\<And>v. x = Some v \<Longrightarrow> one_value W w (ser t v sc w)) \<Longrightarrow> one_value W w (write_optional W ser t x sc w)" for ser t x
    by (cases x) (simp_all add: one_value_leaf)
  show ?case
    using 1 unfolding serialize.simps [of P W h t v sc w]
    by (cases t; simp add: one_value_leaf one_value_integer one_value_text
        one_value_character one_value_enum one_value_c_string char_array)
      (auto intro!: one_value_class optional one_value_pointer one_value_variant one_value_complex one_value_range
        one_value_map one_value_tuple one_value_leaf split: option.split)
qed

end
