(* ===== verification/Serial_Meaning.thy ===== *)
theory Serial_Meaning
  imports Serial_Nodes
begin

text \<open>
  The values that survive a document and what the document holds for them: \<open>stands P h active t v n\<close>
  says that the value \<open>v\<close> of type \<open>t\<close> is one that the types, the registry and the containers of
  the program can represent faithfully and that it is the value \<open>n\<close> of the data model. Its rules
  follow the categories of the serializer and carry what each asks of the program: integers in
  range, enumerators that a name tells apart, keys with a text, registered polymorphic classes
  that derive from the static type. \<open>same\<close> is equality up to the addresses of objects and the
  transient fields of classes.
\<close>

section \<open>Equal up to addresses\<close>

text \<open>Categories whose values have no parts.\<close>

fun flat :: "ty \<Rightarrow> bool" where
  "flat (TObject c) = False"
| "flat (TOptional t) = False"
| "flat (TPointer t) = False"
| "flat (TVariant ts) = False"
| "flat (TComplex t) = False"
| "flat (TDuration t) = False"
| "flat (TTimePoint t) = False"
| "flat (TAdapter a t) = False"
| "flat (TAtomic t) = False"
| "flat (TReference t) = False"
| "flat (TSequence s t) = False"
| "flat (TMap m k t) = False"
| "flat (TFixedRange n t) = False"
| "flat (TRange t) = False"
| "flat (TTuple ts) = False"
| "flat t = True"

inductive same :: "program \<Rightarrow> heap \<Rightarrow> heap \<Rightarrow> ty \<Rightarrow> val \<Rightarrow> val \<Rightarrow> bool" for P h h' where
  same_flat: "flat t \<Longrightarrow> same P h h' t v v"
| same_none: "same P h h' (TOptional t) (VOptional None) (VOptional None)"
| same_some: "same P h h' t v u \<Longrightarrow> same P h h' (TOptional t) (VOptional (Some v)) (VOptional (Some u))"
| same_null: "same P h h' (TPointer t) (VPointer None) (VPointer None)"
| same_object: "a < length h \<Longrightarrow> b < length h' \<Longrightarrow> polymorphic_class P t = None \<Longrightarrow>
    same P h h' t (cell_value (h ! a)) (cell_value (h' ! b)) \<Longrightarrow>
    same P h h' (TPointer t) (VPointer (Some a)) (VPointer (Some b))"
| same_polymorphic: "a < length h \<Longrightarrow> b < length h' \<Longrightarrow> polymorphic_class P t = Some base \<Longrightarrow>
    cell_class (h' ! b) = cell_class (h ! a) \<Longrightarrow>
    same P h h' (TObject (cell_class (h ! a))) (cell_value (h ! a)) (cell_value (h' ! b)) \<Longrightarrow>
    same P h h' (TPointer t) (VPointer (Some a)) (VPointer (Some b))"
| same_variant: "i < length ts \<Longrightarrow> same P h h' (ts ! i) v u \<Longrightarrow>
    same P h h' (TVariant ts) (VVariant (Some (i, v))) (VVariant (Some (i, u)))"
| same_complex: "list_all2 (same P h h' t) vs us \<Longrightarrow> same P h h' (TComplex t) (VList vs) (VList us)"
| same_duration: "same P h h' t v u \<Longrightarrow> same P h h' (TDuration t) v u"
| same_time_point: "same P h h' t v u \<Longrightarrow> same P h h' (TTimePoint t) v u"
| same_atomic: "same P h h' t v u \<Longrightarrow> same P h h' (TAtomic t) v u"
| same_adapter: "same P h h' t v u \<Longrightarrow> same P h h' (TAdapter a t) v u"
| same_sequence: "list_all2 (same P h h' t) vs us \<Longrightarrow> same P h h' (TSequence s t) (VList vs) (VList us)"
| same_fixed_range: "list_all2 (same P h h' t) vs us \<Longrightarrow> same P h h' (TFixedRange n t) (VList vs) (VList us)"
| same_map: "list_all2 (same P h h' kt) (map fst es) (map fst es') \<Longrightarrow>
    list_all2 (same P h h' t) (map snd es) (map snd es') \<Longrightarrow> same P h h' (TMap m kt t) (VMap es) (VMap es')"
| same_tuple: "length vs = length ts \<Longrightarrow> length us = length ts \<Longrightarrow>
    (\<And>i. i < length ts \<Longrightarrow> same P h h' (ts ! i) (vs ! i) (us ! i)) \<Longrightarrow> same P h h' (TTuple ts) (VList vs) (VList us)"
| same_class: "classes P c = Some d \<Longrightarrow> length vs = field_count d \<Longrightarrow> length us = field_count d \<Longrightarrow>
    (\<And>i. i < field_count d \<Longrightarrow> \<not> transient (for_each_field d ! i) \<Longrightarrow>
       same P h h' (field_type (for_each_field d ! i)) (vs ! i) (us ! i)) \<Longrightarrow>
    same P h h' (TObject c) (VObject vs) (VObject us)"

text \<open>New objects do not disturb it.\<close>

lemma same_grows: "same P h h' t v u \<Longrightarrow> same P h (h' @ g) t v u"
proof (induction rule: same.induct)
  case (same_object a b t)
  then show ?case by (intro same.same_object) (simp_all add: nth_append)
next
  case (same_polymorphic a b t base)
  then show ?case by (intro same.same_polymorphic [where base = base]) (simp_all add: nth_append)
next
  case (same_map kt es es' t m)
  then show ?case by (intro same.same_map) (auto elim: list_all2_mono)
qed (auto intro: same.intros elim: list_all2_mono)

text \<open>
  A container is faithful to a list of elements if inserting equals of them into the empty
  container, one after the other, makes it hold them in that order.
\<close>

definition fills :: "program \<Rightarrow> heap \<Rightarrow> ty \<Rightarrow> (val list \<Rightarrow> val \<Rightarrow> val list) \<Rightarrow> val list \<Rightarrow> bool" where
  "fills P h t add vs \<longleftrightarrow> (\<forall>h' us. list_all2 (same P h h' t) vs us \<longrightarrow> foldl add [] us = us)"

definition fills_map ::
  "program \<Rightarrow> heap \<Rightarrow> ty \<Rightarrow> ty \<Rightarrow> ((val \<times> val) list \<Rightarrow> val \<Rightarrow> val \<Rightarrow> (val \<times> val) list) \<Rightarrow> (val \<times> val) list \<Rightarrow> bool" where
  "fills_map P h kt t add es \<longleftrightarrow>
     (\<forall>h' us. list_all2 (same P h h' kt) (map fst es) (map fst us) \<longrightarrow>
        list_all2 (same P h h' t) (map snd es) (map snd us) \<longrightarrow> foldl (\<lambda>m (k, v). add m k v) [] us = us)"

lemma foldl_append_one: "foldl (\<lambda>vs v. vs @ [v]) us vs = us @ vs"
  by (induction vs arbitrary: us) auto

lemma fills_append [simp]: "fills P h t (\<lambda>vs v. vs @ [v]) vs"
  by (simp add: fills_def foldl_append_one)

lemma foldl_append_pair: "foldl (\<lambda>m (k, v). m @ [(k, v)]) us vs = us @ vs"
  by (induction vs arbitrary: us) auto

lemma fills_map_append [simp]: "fills_map P h kt t (\<lambda>m k v. m @ [(k, v)]) es"
  by (simp add: fills_map_def foldl_append_pair)

section \<open>What a value stands for\<close>

definition integer_node :: "integer_type \<Rightarrow> int \<Rightarrow> node" where
  "integer_node t i = (if integer_signed t then NInt (word_of_int i) else NUint (word_of_int i))"

text \<open>The code units of a code point in UTF-16, and the texts of a character type: the code points that the units and the UTF-8 bytes stand for.\<close>

definition utf16_code :: "nat \<Rightarrow> 16 word list" where
  "utf16_code cp =
     (if cp < 0x10000 then [word_of_nat cp]
      else [word_of_nat (0xD800 + (cp - 0x10000) div 1024), word_of_nat (0xDC00 + (cp - 0x10000) mod 1024)])"

definition utf8_of :: "nat list \<Rightarrow> string \<Rightarrow> bool" where
  "utf8_of cps s \<longleftrightarrow> list_all is_scalar cps \<and> s = concat (map utf8_bytes cps)"

inductive readable_text :: "char_type \<Rightarrow> code_units \<Rightarrow> string \<Rightarrow> bool" where
  readable_char: "readable_text Char_Type (Text8 s) s"
| readable_char8: "utf8_of cps s \<Longrightarrow> readable_text Char8_Type (Text8 s) s"
| readable_char16: "utf8_of cps s \<Longrightarrow> readable_text (Char16_Type name) (Text16 (concat (map utf16_code cps))) s"
| readable_char32: "utf8_of cps s \<Longrightarrow> readable_text (Char32_Type name) (Text32 (map word_of_nat cps)) s"

lemma utf16_code_units: "utf16_units = utf16_code"
  by (rule ext) (simp add: utf16_units_def utf16_code_def Let_def bits drop_bit_eq_div)

lemma readable_text_converts: "readable_text c t s \<Longrightarrow> to_utf8 t = Inr s \<and> from_utf8 c s = Inr t"
proof (induction rule: readable_text.induct)
  case (readable_char8 cps s)
  then show ?case by (auto simp: utf8_of_def validate_utf8_def decode_all_iff list_all_iff)
next
  case (readable_char16 cps s name)
  then have "utf8_to_utf16 s = Inr (concat (map utf16_code cps))"
    by (auto simp: utf8_of_def utf8_to_utf16_def decode_all_iff list_all_iff utf16_code_units)
  then show ?case by (simp add: utf16_utf8_back)
next
  case (readable_char32 cps s name)
  then have "utf8_to_utf32 s = Inr (map word_of_nat cps)"
    by (auto simp: utf8_of_def utf8_to_utf32_def decode_all_iff list_all_iff)
  then show ?case by (simp add: utf32_utf8_back)
qed simp

text \<open>The text that a key of a map has in an object: a string itself, a truth value, a decimal number, the name of an enumerator.\<close>

inductive key_text :: "ty \<Rightarrow> val \<Rightarrow> string \<Rightarrow> bool" where
  key_string: "key_text (TString Char_Type) (VText (Text8 s)) s"
| key_bool: "key_text TBool (VBool b) (if b then ''true'' else ''false'')"
| key_integer: "machine_type t \<Longrightarrow> holds t i \<Longrightarrow> key_text (TInteger t) (VInteger i) (show_int i)"
| key_enumerator: "proper_enum e \<Longrightarrow> enum_name e i \<noteq> [] \<Longrightarrow> key_text (TEnum e) (VEnum i) (enum_name e i)"
| key_enum_number: "machine_type (enum_underlying e) \<Longrightarrow> holds (enum_underlying e) i \<Longrightarrow> enum_name e i = [] \<Longrightarrow>
    show_int i \<notin> fst ` set (enum_entries e) \<Longrightarrow> key_text (TEnum e) (VEnum i) (show_int i)"

lemma key_text_encoded: "key_text kt k s \<Longrightarrow> encode_key kt k = s"
  by (induction rule: key_text.induct) (simp_all add: encode_key_def val_parts integer_to_key_def)

lemma key_texts_encoded: "list_all2 (key_text kt) (map fst es) ks \<Longrightarrow> ks = map (encode_key kt \<circ> fst) es"
proof (induction es arbitrary: ks)
  case (Cons e es)
  then show ?case by (cases ks) (auto dest: key_text_encoded)
qed simp

fun unit_text :: "code_units \<Rightarrow> string" where
  "unit_text (Text8 s) = s"
| "unit_text (Text16 us) = utf8_bytes (unat (hd us))"
| "unit_text (Text32 us) = utf8_bytes (unat (hd us))"

definition single_unit :: "code_units \<Rightarrow> bool" where
  "single_unit t \<longleftrightarrow> text_size t = 1 \<and>
     (case t of Text8 s \<Rightarrow> True | Text16 us \<Rightarrow> is_scalar (unat (hd us)) | Text32 us \<Rightarrow> is_scalar (unat (hd us)))"

fun has_nul :: "code_units \<Rightarrow> bool" where
  "has_nul (Text8 s) = (CHR 0x00 \<in> set s)"
| "has_nul (Text16 us) = (0 \<in> set us)"
| "has_nul (Text32 us) = (0 \<in> set us)"

definition object_entries :: "class_type \<Rightarrow> node list \<Rightarrow> (string \<times> node) list" where
  "object_entries d ns = map (\<lambda>(f, n). (serialized_key f, n)) (filter (\<lambda>(f, n). \<not> transient f) (zip (for_each_field d) ns))"

text \<open>A registered class: found by its dynamic type and by its name, both ways.\<close>

definition registered :: "program \<Rightarrow> string \<Rightarrow> class_type \<Rightarrow> bool" where
  "registered P c d \<longleftrightarrow> by_rtti (types P) c = Some c \<and> classes P c = Some d \<and> type_id (class_info d) = c \<and>
     by_name (types P) (schema_name (class_info d)) = Some c \<and>
     constructible (class_info d) \<and> writable (class_info d) \<and> readable (class_info d)"

definition unregistered_base :: "program \<Rightarrow> class_info \<Rightarrow> bool" where
  "unregistered_base P base \<longleftrightarrow> found_class P (by_rtti (types P) (type_id base)) = None \<and>
     found_class P (by_name (types P) (schema_name base)) = None \<and>
     base_serializable base \<and> reflectable base \<and> default_constructible base"

inductive stands :: "program \<Rightarrow> heap \<Rightarrow> nat list \<Rightarrow> ty \<Rightarrow> val \<Rightarrow> node \<Rightarrow> bool" for P h where
  stands_bool: "stands P h A TBool (VBool b) (NBool b)"
| stands_char: "text_of_type c t \<Longrightarrow> single_unit t \<Longrightarrow> stands P h A (TChar c) (VChar t) (NString (unit_text t))"
| stands_byte: "stands P h A TByte (VByte b) (NUint (ucast b))"
| stands_integer: "machine_type t \<Longrightarrow> holds t i \<Longrightarrow> stands P h A (TInteger t) (VInteger i) (integer_node t i)"
| stands_float: "stands P h A TFloat (VFloat x) (NFloat32 x)"
| stands_double: "stands P h A TDouble (VDouble x) (NFloat x)"
| stands_enumerator: "proper_enum e \<Longrightarrow> enum_name e i \<noteq> [] \<Longrightarrow> stands P h A (TEnum e) (VEnum i) (NString (enum_name e i))"
| stands_enum_number: "machine_type (enum_underlying e) \<Longrightarrow> holds (enum_underlying e) i \<Longrightarrow> enum_name e i = [] \<Longrightarrow>
    stands P h A (TEnum e) (VEnum i) (integer_node (enum_underlying e) i)"
| stands_null: "stands P h A TNull VNull NNull"
| stands_text: "readable_text c t s \<Longrightarrow> stands P h A (TString c) (VText t) (NString s)"
| stands_char_array: "readable_text c t s \<Longrightarrow> \<not> has_nul t \<Longrightarrow> text_size t < n \<Longrightarrow>
    stands P h A (TCharArray c n) (VText (nul_padded n t)) (NString s)"
| stands_none: "stands P h A (TOptional t) (VOptional None) NNull"
| stands_some: "stands P h A t v n \<Longrightarrow> n \<noteq> NNull \<Longrightarrow> stands P h A (TOptional t) (VOptional (Some v)) n"
| stands_null_pointer: "stands P h A (TPointer t) (VPointer None) NNull"
| stands_pointer: "a < length h \<Longrightarrow> a \<notin> set A \<Longrightarrow> polymorphic_class P t = None \<Longrightarrow>
    stands P h (A @ [a]) t (cell_value (h ! a)) n \<Longrightarrow> n \<noteq> NNull \<Longrightarrow>
    stands P h A (TPointer t) (VPointer (Some a)) n"
| stands_registered: "a < length h \<Longrightarrow> a \<notin> set A \<Longrightarrow> polymorphic_class P t = Some base \<Longrightarrow>
    registered P (cell_class (h ! a)) d \<Longrightarrow> upcasts d (type_id base) \<Longrightarrow>
    stands P h (A @ [a]) (TObject (cell_class (h ! a))) (cell_value (h ! a)) n \<Longrightarrow>
    stands P h A (TPointer t) (VPointer (Some a)) (NObject [(''type'', NString (schema_name (class_info d))), (''value'', n)])"
| stands_unregistered: "a < length h \<Longrightarrow> a \<notin> set A \<Longrightarrow> polymorphic_class P t = Some base \<Longrightarrow>
    unregistered_base P base \<Longrightarrow> cell_class (h ! a) = type_id base \<Longrightarrow>
    stands P h (A @ [a]) (TObject (type_id base)) (cell_value (h ! a)) n \<Longrightarrow>
    stands P h A (TPointer t) (VPointer (Some a)) (NObject [(''type'', NString (schema_name base)), (''value'', n)])"
| stands_variant: "i < length ts \<Longrightarrow> i < 2 ^ 64 \<Longrightarrow> stands P h A (ts ! i) v n \<Longrightarrow>
    stands P h A (TVariant ts) (VVariant (Some (i, v))) (NArray [NUint (word_of_nat i), n])"
| stands_complex: "stands P h A t re m \<Longrightarrow> stands P h A t im n \<Longrightarrow>
    stands P h A (TComplex t) (VList [re, im]) (NArray [m, n])"
| stands_bitset: "length bs = n \<Longrightarrow> stands P h A (TBitset n) (VBits bs) (NString (bits_text bs))"
| stands_duration: "stands P h A t v n \<Longrightarrow> stands P h A (TDuration t) v n"
| stands_time_point: "stands P h A t v n \<Longrightarrow> stands P h A (TTimePoint t) v n"
| stands_path: "stands P h A TPath (VPath s) (NString s)"
| stands_adapter: "stands P h A (TSequence s t) (VList vs) n \<Longrightarrow> fills P h t (adapter_push a) vs \<Longrightarrow>
    stands P h A (TAdapter a (TSequence s t)) (VList vs) n"
| stands_atomic: "stands P h A t v n \<Longrightarrow> stands P h A (TAtomic t) v n"
| stands_bytes: "(\<And>k. extent = Some k \<Longrightarrow> length bs = k) \<Longrightarrow> stands P h A (TBytes extent) (VBytes bs) (NBytes bs)"
| stands_sequence: "list_all2 (stands P h A t) vs ns \<Longrightarrow> fills P h t (sequence_add s) vs \<Longrightarrow>
    stands P h A (TSequence s t) (VList vs) (NArray ns)"
| stands_fixed_range: "list_all2 (stands P h A t) vs ns \<Longrightarrow> length vs = k \<Longrightarrow>
    stands P h A (TFixedRange k t) (VList vs) (NArray ns)"
| stands_keyed: "map_as_object m kt \<Longrightarrow> list_all2 (stands P h A t) (map snd es) ns \<Longrightarrow>
    list_all2 (key_text kt) (map fst es) ks \<Longrightarrow> fills_map P h kt t (map_add m) es \<Longrightarrow>
    stands P h A (TMap m kt t) (VMap es) (NObject (zip ks ns))"
| stands_pairs: "\<not> map_as_object m kt \<Longrightarrow> list_all2 (stands P h A kt) (map fst es) ks \<Longrightarrow>
    list_all2 (stands P h A t) (map snd es) ns \<Longrightarrow> fills_map P h kt t (map_add m) es \<Longrightarrow>
    stands P h A (TMap m kt t) (VMap es) (NArray (map (\<lambda>(k, n). NArray [k, n]) (zip ks ns)))"
| stands_tuple: "length vs = length ts \<Longrightarrow> length ns = length ts \<Longrightarrow>
    (\<And>i. i < length ts \<Longrightarrow> stands P h A (ts ! i) (vs ! i) (ns ! i)) \<Longrightarrow>
    stands P h A (TTuple ts) (VList vs) (NArray ns)"
| stands_class: "classes P c = Some d \<Longrightarrow> reflectable (class_info d) \<Longrightarrow> check_object_contract d \<Longrightarrow>
    length vs = field_count d \<Longrightarrow> length ns = field_count d \<Longrightarrow>
    (\<And>i. i < field_count d \<Longrightarrow> \<not> transient (for_each_field d ! i) \<Longrightarrow>
       stands P h A (field_type (for_each_field d ! i)) (vs ! i) (ns ! i)) \<Longrightarrow>
    stands P h A (TObject c) (VObject vs) (NObject (object_entries d ns))"

section \<open>Writing it\<close>

definition written_as :: "program \<Rightarrow> 'w writer \<Rightarrow> heap \<Rightarrow> nat list \<Rightarrow> ty \<Rightarrow> val \<Rightarrow> node \<Rightarrow> bool" where
  "written_as P W h A t v n \<longleftrightarrow>
     (\<forall>sc w w'. sc_active sc = A \<longrightarrow> write_node W n w = Inr w' \<longrightarrow> serialize P W h t v sc w = Inr w')"

lemma written_asD: "written_as P W h A t v n \<Longrightarrow> sc_active sc = A \<Longrightarrow> write_node W n w = Inr w' \<Longrightarrow>
    serialize P W h t v sc w = Inr w'"
  by (simp add: written_as_def)

lemma written_elements:
  "list_all2 (written_as P W h A t) vs ns \<Longrightarrow> sc_active sc = A \<Longrightarrow> write_nodes W ns w = Inr w' \<Longrightarrow>
     write_elements (serialize P W h t) i vs sc w = Inr w'"
  by (induction vs ns arbitrary: i w rule: list_all2_induct) (auto simp: with_index_def written_as_def)

lemma written_range:
  "list_all2 (written_as P W h A t) vs ns \<Longrightarrow> sc_active sc = A \<Longrightarrow> write_node W (NArray ns) w = Inr w' \<Longrightarrow>
     write_range W (serialize P W h) t vs sc w = Inr w'"
  by (auto simp: write_range_def list_all2_lengthD dest: written_elements)

lemma written_keyed:
  "list_all2 (written_as P W h A t) (map snd es) ns \<Longrightarrow> sc_active sc = A \<Longrightarrow>
     write_members W (zip (map (encode_key kt \<circ> fst) es) ns) w = Inr w' \<Longrightarrow>
     write_keyed W kt (serialize P W h t) es sc w = Inr w'"
proof (induction es arbitrary: ns w)
  case (Cons e es)
  then show ?case by (cases e; cases ns) (auto simp: with_path_def written_as_def)
qed simp

lemma written_pairs:
  "list_all2 (written_as P W h A kt) (map fst es) ks \<Longrightarrow> list_all2 (written_as P W h A t) (map snd es) ns \<Longrightarrow>
     sc_active sc = A \<Longrightarrow> write_nodes W (map (\<lambda>(k, n). NArray [k, n]) (zip ks ns)) w = Inr w' \<Longrightarrow>
     write_pairs W (serialize P W h kt) (serialize P W h t) i es sc w = Inr w'"
proof (induction es arbitrary: ks ns w i)
  case (Cons e es)
  obtain k v kn ks' n ns' where lists: "e = (k, v)" "ks = kn # ks'" "ns = n # ns'"
    using Cons.prems(1,2) by (cases e; cases ks; cases ns) auto
  with Cons.prems obtain w1 where pair: "write_node W (NArray [kn, n]) w = Inr w1"
    and rest: "write_nodes W (map (\<lambda>(k, n). NArray [k, n]) (zip ks' ns')) w1 = Inr w'" by auto
  have "write_pairs W (serialize P W h kt) (serialize P W h t) (Suc i) es sc w1 = Inr w'"
    using Cons.prems lists rest by (intro Cons.IH) auto
  moreover have "written_as P W h A kt k kn" "written_as P W h A t v n"
    using Cons.prems lists by auto
  ultimately show ?case
    using pair Cons.prems(3) by (auto simp: lists with_index_def written_as_def numeral_2_eq_2)
qed simp

lemma written_parts:
  "length vs = length ts \<Longrightarrow> length ns = length ts \<Longrightarrow> (\<And>i. i < length ts \<Longrightarrow> written_as P W h A (ts ! i) (vs ! i) (ns ! i)) \<Longrightarrow>
     sc_active sc = A \<Longrightarrow> write_nodes W ns w = Inr w' \<Longrightarrow> write_parts (serialize P W h) i ts vs sc w = Inr w'"
proof (induction ts arbitrary: vs ns w i)
  case (Cons t ts)
  obtain v us n ms where lists: "vs = v # us" "ns = n # ms" using Cons.prems(1,2) by (cases vs; cases ns) auto
  with Cons.prems obtain w1 where w1: "write_node W n w = Inr w1" "write_nodes W ms w1 = Inr w'" by auto
  have "written_as P W h A (ts ! i) (us ! i) (ms ! i)" if "i < length ts" for i
    using Cons.prems(3) [of "Suc i"] that by (simp add: lists)
  with Cons.IH [of us ms w1 "Suc i"] Cons.prems w1 Cons.prems(3) [of 0] show ?case
    by (simp add: lists with_index_def written_as_def)
qed simp

lemma written_fields:
  "length vs = length fs \<Longrightarrow> length ns = length fs \<Longrightarrow>
     (\<And>i. i < length fs \<Longrightarrow> \<not> transient (fs ! i) \<Longrightarrow> written_as P W h A (field_type (fs ! i)) (vs ! i) (ns ! i)) \<Longrightarrow>
     sc_active sc = A \<Longrightarrow>
     write_members W (map (\<lambda>(f, n). (serialized_key f, n)) (filter (\<lambda>(f, n). \<not> transient f) (zip fs ns))) w = Inr w' \<Longrightarrow>
     write_own_fields W (serialize P W h) fs vs sc w = Inr w'"
proof (induction fs arbitrary: vs ns w)
  case (Cons f fs)
  obtain v us n ms where lists: "vs = v # us" "ns = n # ms" using Cons.prems(1,2) by (cases vs; cases ns) auto
  have rest: "\<not> transient (fs ! i) \<Longrightarrow> written_as P W h A (field_type (fs ! i)) (us ! i) (ms ! i)" if "i < length fs" for i
    using Cons.prems(3) [of "Suc i"] that by (simp add: lists)
  show ?case
  proof (cases "transient f")
    case True
    with Cons.IH [of us ms w] Cons.prems rest show ?thesis by (simp add: lists write_one_field_def)
  next
    case False
    with Cons.prems(5) obtain w0 w1 where w: "write_key W (serialized_key f) w = Inr w0" "write_node W n w0 = Inr w1"
      "write_members W (map (\<lambda>(f, n). (serialized_key f, n)) (filter (\<lambda>(f, n). \<not> transient f) (zip fs ms))) w1 = Inr w'"
      by (auto simp: lists)
    from False Cons.prems(3) [of 0] have "written_as P W h A (field_type f) v n" by (simp add: lists)
    with Cons.IH [of us ms w1] Cons.prems rest w False show ?thesis
      by (simp add: lists write_one_field_def with_path_def written_as_def)
  qed
qed simp

lemma length_object_entries: "length ns = field_count d \<Longrightarrow> length (object_entries d ns) = serialized_field_count d"
proof -
  have "length ns = length fs \<Longrightarrow> length (filter (\<lambda>(f, n). \<not> transient f) (zip fs ns)) = length (filter (\<lambda>f. \<not> transient f) fs)"
    for ns and fs :: "class_field list"
    by (induction ns fs rule: list_induct2) auto
  then show "length ns = field_count d \<Longrightarrow> length (object_entries d ns) = serialized_field_count d"
    by (simp add: object_entries_def serialized_field_count_def serialized_fields_def field_count_def)
qed

lemma written_integer: "write_node W (integer_node t i) w = Inr w' \<Longrightarrow> write_integer W t i sc w = Inr w'"
  by (simp add: integer_node_def write_integer_def split: if_splits)

lemma before_nul_padded: "\<not> has_nul t \<Longrightarrow> text_size t \<le> n \<Longrightarrow> before_nul (nul_padded n t) = t"
proof -
  have stop: "z \<notin> set xs \<Longrightarrow> length xs \<le> n \<Longrightarrow>
      takeWhile (\<lambda>x. x \<noteq> z) (map (\<lambda>i. if i < length xs then xs ! i else z) [0..<n]) = xs" for xs :: "'a list" and z
  proof -
    assume xs: "z \<notin> set xs" "length xs \<le> n"
    have "map (\<lambda>i. if i < length xs then xs ! i else z) [0..<n] = xs @ replicate (n - length xs) z"
      using xs(2) by (auto simp: list_eq_iff_nth_eq nth_append)
    with xs(1) show ?thesis by (cases "n - length xs") (auto simp: takeWhile_append)
  qed
  assume "\<not> has_nul t" "text_size t \<le> n"
  then show ?thesis by (cases t) (simp_all add: stop)
qed

lemma written_pointer:
  assumes "a < length h" "a \<notin> set (sc_active sc)" "polymorphic_class P t = None"
    "written_as P W h (sc_active sc @ [a]) t (cell_value (h ! a)) n" "write_node W n w = Inr w'"
  shows "write_pointer P W h (serialize P W h) t (Some a) sc w = Inr w'"
  using assms by (simp add: write_pointer_def indirection_guard_def written_as_def)

lemma written_registered:
  assumes "a < length h" "a \<notin> set (sc_active sc)" "polymorphic_class P t = Some base" "registered P (cell_class (h ! a)) d"
    "written_as P W h (sc_active sc @ [a]) (TObject (cell_class (h ! a))) (cell_value (h ! a)) n"
    "write_node W (NObject [(''type'', NString (schema_name (class_info d))), (''value'', n)]) w = Inr w'"
  shows "write_pointer P W h (serialize P W h) t (Some a) sc w = Inr w'"
  using assms
  by (auto simp: write_pointer_def indirection_guard_def written_as_def write_polymorphic_def write_instance_def
      with_path_def registered_def found_class_def numeral_2_eq_2)

lemma written_unregistered:
  assumes "a < length h" "a \<notin> set (sc_active sc)" "polymorphic_class P t = Some base" "unregistered_base P base"
    "cell_class (h ! a) = type_id base"
    "written_as P W h (sc_active sc @ [a]) (TObject (type_id base)) (cell_value (h ! a)) n"
    "write_node W (NObject [(''type'', NString (schema_name base)), (''value'', n)]) w = Inr w'"
  shows "write_pointer P W h (serialize P W h) t (Some a) sc w = Inr w'"
  using assms
  by (auto simp: write_pointer_def indirection_guard_def written_as_def write_polymorphic_def
      with_path_def unregistered_base_def numeral_2_eq_2)

lemma written_object:
  assumes "reflectable (class_info d)" "length vs = field_count d" "length ns = field_count d"
    "\<And>i. i < field_count d \<Longrightarrow> \<not> transient (for_each_field d ! i) \<Longrightarrow>
       written_as P W h (sc_active sc) (field_type (for_each_field d ! i)) (vs ! i) (ns ! i)"
    "write_node W (NObject (object_entries d ns)) w = Inr w'"
  shows "write_object W (serialize P W h) d vs sc w = Inr w'"
  using assms written_fields [of vs "for_each_field d" ns P W h "sc_active sc" sc]
  by (auto simp: write_object_def write_fields_def write_fields_flat length_object_entries)
    (auto simp: object_entries_def field_count_def)

lemma serialize_stands: "stands P h A t v n \<Longrightarrow> written_as P W h A t v n"
proof (induction rule: stands.induct)
  case (stands_char c t A)
  then show ?case
    by (cases t) (auto simp: written_as_def serialize_at text_in_def single_unit_def append_utf8_eq)
next
  case (stands_tuple vs ts ns A)
  then have "write_nodes W ns w = Inr w' \<Longrightarrow> sc_active sc = A \<Longrightarrow> write_parts (serialize P W h) 0 ts vs sc w = Inr w'" for sc w w'
    by (intro written_parts [where ns = ns and A = A]) auto
  with stands_tuple(2) show ?case
    by (auto simp: written_as_def [of _ _ _ _ _ "VList vs"] serialize_at items_in_def write_tuple_def)
next
  case (stands_complex A t re m im n)
  then show ?case by (auto simp: written_as_def serialize_at items_in_def numeral_2_eq_2)
next
  case (stands_variant i ts A v n)
  then show ?case by (auto simp: written_as_def serialize_at variant_in_def with_index_def numeral_2_eq_2)
next
  case (stands_pointer a A t n)
  then show ?case
    by (auto simp: written_as_def [of _ _ _ _ _ "VPointer _"] serialize_at pointer_in_def intro: written_pointer)
next
  case (stands_registered a A t base d n)
  then show ?case
    unfolding written_as_def [of _ _ _ _ _ "VPointer _"] serialize_at pointer_in_def val.case
    by (blast intro: written_registered)
next
  case (stands_unregistered a A t base n)
  then show ?case
    unfolding written_as_def [of _ _ _ _ _ "VPointer _"] serialize_at pointer_in_def val.case
    by (blast intro: written_unregistered)
next
  case (stands_sequence A t vs ns s)
  then have "list_all2 (written_as P W h A t) vs ns" by (auto elim: list_all2_mono)
  then show ?case
    unfolding written_as_def [of _ _ _ _ _ "VList _"] serialize_at items_in_def val.case by (blast intro: written_range)
next
  case (stands_fixed_range A t vs ns k)
  then have "list_all2 (written_as P W h A t) vs ns" by (auto elim: list_all2_mono)
  then show ?case
    unfolding written_as_def [of _ _ _ _ _ "VList _"] serialize_at items_in_def val.case by (blast intro: written_range)
next
  case (stands_keyed m kt A t es ns ks)
  then have "list_all2 (written_as P W h A t) (map snd es) ns" and ks: "ks = map (encode_key kt \<circ> fst) es"
    by (auto elim: list_all2_mono dest: key_texts_encoded)
  moreover from this(1) have "length es = length ns" by (auto dest: list_all2_lengthD)
  ultimately show ?case using stands_keyed(1) unfolding ks
    by (auto simp: written_as_def [of _ _ _ _ _ "VMap _"] serialize_at entries_in_def write_map_def dest: written_keyed)
next
  case (stands_pairs m kt A es ks t ns)
  then have "list_all2 (written_as P W h A kt) (map fst es) ks" "list_all2 (written_as P W h A t) (map snd es) ns"
    by (auto elim: list_all2_mono)
  moreover from this have "length es = length ks" "length es = length ns" by (auto dest: list_all2_lengthD)
  ultimately show ?case using stands_pairs(1)
    by (auto simp: written_as_def [of _ _ _ _ _ "VMap _"] serialize_at entries_in_def write_map_def dest: written_pairs)
next
  case (stands_class c d vs ns A)
  then show ?case
    by (auto simp: written_as_def [of _ _ _ _ _ "VObject _"] serialize_at items_in_def intro!: written_object
      simp del: write_node.simps)
qed (auto simp: written_as_def serialize_at val_parts written_integer write_enum_def readable_text_converts write_text_def
    write_char_array_def before_nul_padded write_pointer_def)

end
