(* ===== verification/Serial_Round_Trip.thy ===== *)
theory Serial_Round_Trip
  imports Serial_Meaning
begin

text \<open>
  Reading a value back, over any backend that keeps the promises of \<open>pull_reader\<close>: where the
  reader sees the value of the data model that a value of the program stands for, \<open>deserialize\<close>
  returns the same value, up to addresses and transient fields, and has consumed exactly it.
\<close>

section \<open>What is read over\<close>

text \<open>
  Objects, fixed ranges, tuples and present optionals are read in place, so what is there must
  have the shape of the type. Everything else is replaced.
\<close>

fun in_place :: "ty \<Rightarrow> bool" where
  "in_place (TObject c) = True"
| "in_place (TFixedRange n t) = True"
| "in_place (TTuple ts) = True"
| "in_place (TOptional t) = True"
| "in_place t = False"

inductive shaped :: "program \<Rightarrow> ty \<Rightarrow> val \<Rightarrow> bool" for P where
  shaped_replaced: "\<not> in_place t \<Longrightarrow> shaped P t v"
| shaped_object: "classes P c = Some d \<Longrightarrow> length vs = field_count d \<Longrightarrow>
    (\<And>i. i < field_count d \<Longrightarrow> \<not> transient (for_each_field d ! i) \<Longrightarrow>
       shaped P (field_type (for_each_field d ! i)) (vs ! i)) \<Longrightarrow> shaped P (TObject c) (VObject vs)"
| shaped_fixed_range: "length vs = n \<Longrightarrow> (\<And>v. v \<in> set vs \<Longrightarrow> shaped P t v) \<Longrightarrow> shaped P (TFixedRange n t) (VList vs)"
| shaped_tuple: "length vs = length ts \<Longrightarrow> (\<And>i. i < length ts \<Longrightarrow> shaped P (ts ! i) (vs ! i)) \<Longrightarrow>
    shaped P (TTuple ts) (VList vs)"
| shaped_none: "shaped P (TOptional t) (VOptional None)"
| shaped_some: "shaped P t v \<Longrightarrow> shaped P (TOptional t) (VOptional (Some v))"

inductive_simps shaped_simps:
  "shaped P (TObject c) v" "shaped P (TFixedRange n t) v" "shaped P (TTuple ts) v" "shaped P (TOptional t) v"

text \<open>A program whose default member initializers have the shape of their classes.\<close>

definition proper_program :: "program \<Rightarrow> bool" where
  "proper_program P \<longleftrightarrow> (\<forall>c d. classes P c = Some d \<longrightarrow> type_id (class_info d) = c \<and>
     shaped P (TObject c) (VObject (default_fields (class_info d))))"

lemma default_shaped: "stands P h A t v n \<Longrightarrow> proper_program P \<Longrightarrow> shaped P t (default_value P t)"
proof (induction rule: stands.induct)
  case (stands_fixed_range A t vs ns k)
  then have "vs \<noteq> [] \<Longrightarrow> shaped P t (default_value P t)"
    by (cases vs) (auto simp: list_all2_Cons1)
  with stands_fixed_range show ?case
    by (cases "vs = []") (auto intro!: shaped.shaped_fixed_range split: if_splits)
next
  case (stands_tuple vs ts ns A)
  then show ?case by (auto intro!: shaped.shaped_tuple)
next
  case (stands_class c d vs ns A)
  then show ?case by (auto simp: proper_program_def)
qed (auto intro: shaped_replaced shaped.shaped_none)

section \<open>What reading gives\<close>

definition reads_within ::
  "program \<Rightarrow> 'r reader \<Rightarrow> ('r \<Rightarrow> node \<Rightarrow> 'r \<Rightarrow> bool) \<Rightarrow> heap \<Rightarrow> nat \<Rightarrow> ty \<Rightarrow> val \<Rightarrow> node \<Rightarrow> bool" where
  "reads_within P R sees h N t v n \<longleftrightarrow>
     (\<forall>k\<ge>N. \<forall>r r' old g sc. sees r n r' \<longrightarrow> shaped P t old \<longrightarrow>
        (\<exists>u g'. deserialize P R k t old g sc r = Inr (u, g @ g', r') \<and> same P h (g @ g') t v u))"

lemma reads_withinD:
  "reads_within P R sees h N t v n \<Longrightarrow> N \<le> k \<Longrightarrow> sees r n r' \<Longrightarrow> shaped P t old \<Longrightarrow>
     \<exists>u g'. deserialize P R k t old g sc r = Inr (u, g @ g', r') \<and> same P h (g @ g') t v u"
  by (simp add: reads_within_def)

lemma reads_within_mono: "reads_within P R sees h N t v n \<Longrightarrow> N \<le> M \<Longrightarrow> reads_within P R sees h M t v n"
  by (auto simp: reads_within_def)

lemma reads_within_list:
  assumes "list_all2 (\<lambda>v n. \<exists>N. reads_within P R sees h N t v n) vs ns"
  shows "\<exists>N. list_all2 (reads_within P R sees h N t) vs ns"
  using assms
proof (induction rule: list_all2_induct)
  case (Cons v vs n ns)
  then obtain N M where "reads_within P R sees h N t v n" "list_all2 (reads_within P R sees h M t) vs ns" by auto
  then have "list_all2 (reads_within P R sees h (max N M) t) (v # vs) (n # ns)"
    by (auto intro: reads_within_mono elim!: list_all2_mono)
  then show ?case ..
qed simp

lemma reads_within_all:
  assumes "\<And>i. i < (k::nat) \<Longrightarrow> Q i \<Longrightarrow> \<exists>N. reads_within P R sees h N (t i) (v i) (n i)"
  shows "\<exists>N. \<forall>i<k. Q i \<longrightarrow> reads_within P R sees h N (t i) (v i) (n i)"
  using assms
proof (induction k)
  case (Suc k)
  then obtain N where N: "\<forall>i<k. Q i \<longrightarrow> reads_within P R sees h N (t i) (v i) (n i)" by auto
  obtain M where M: "Q k \<longrightarrow> reads_within P R sees h M (t k) (v k) (n k)" using Suc.prems [of k] by auto
  show ?case
    by (rule exI [of _ "max N M"]) (use N M in \<open>auto simp: less_Suc_eq intro: reads_within_mono\<close>)
qed simp

text \<open>A category that is read in one step, whatever was there.\<close>

lemma reads_flat:
  assumes "flat t" "\<And>k old g sc r r'. sees r n r' \<Longrightarrow> deserialize P R (Suc k) t old g sc r = Inr (v, g, r')"
  shows "reads_within P R sees h 1 t v n"
  unfolding reads_within_def
proof (intro allI impI)
  fix k r r' old g sc assume "1 \<le> (k::nat)" "sees r n r'"
  then have "deserialize P R k t old g sc r = Inr (v, g @ [], r')" using assms(2) by (cases k) auto
  with same_flat [OF assms(1), of P h "g @ []" v]
  show "\<exists>u g'. deserialize P R k t old g sc r = Inr (u, g @ g', r') \<and> same P h (g @ g') t v u" by blast
qed

section \<open>Scalars and text\<close>

lemma power_half: "0 < w \<Longrightarrow> w \<le> 64 \<Longrightarrow> (2::int) ^ (w - 1) \<le> 2 ^ 63"
  by (rule power_increasing) auto

lemma signed_64:
  assumes "machine_type t" "holds t i" "integer_signed t"
  shows "int64_range i" "sint (word_of_int i :: 64 word) = i"
proof -
  have "(2::int) ^ (integer_width t - 1) \<le> 2 ^ 63"
    using assms(1) power_half [of "integer_width t"] by (simp add: machine_type_def)
  with assms(2,3) show range: "int64_range i"
    by (simp add: holds_def lowest_def highest_def int64_range_def)
  then show "sint (word_of_int i :: 64 word) = i"
    by (simp add: int64_range_def signed_take_bit_int_eq_self sint_sbintrunc')
qed

lemma unsigned_64:
  assumes "machine_type t" "holds t i" "\<not> integer_signed t"
  shows "uint64_range i" "uint (word_of_int i :: 64 word) = i"
proof -
  have "(2::int) ^ integer_width t \<le> 2 ^ 64"
    using assms(1) power_increasing [of "integer_width t" 64 "2::int"] by (simp add: machine_type_def)
  with assms(2,3) show range: "uint64_range i"
    by (simp add: holds_def lowest_def highest_def uint64_range_def)
  then show "uint (word_of_int i :: 64 word) = i"
    by (simp add: uint64_range_def unsigned_of_int take_bit_int_eq_self)
qed

lemma single_unit_text:
  assumes "text_of_type c t" "single_unit t"
  shows "from_utf8 c (unit_text t) = Inr t \<or> c = Char8_Type" "text_size t = 1"
proof -
  show "text_size t = 1" using assms(2) by (simp add: single_unit_def)
  show "from_utf8 c (unit_text t) = Inr t \<or> c = Char8_Type"
  proof (cases t)
    case (Text8 s)
    with assms show ?thesis by (cases c) auto
  next
    case (Text16 us)
    with assms obtain u where u: "us = [u]" "is_scalar (unat u)"
      by (auto simp: single_unit_def length_Suc_conv)
    then have "utf16_to_utf8 [] [u] = Inr (utf8_bytes (unat u))"
      by (auto simp: is_scalar_def is_surrogate_def Let_def append_utf8_eq)
    then have "utf8_to_utf16 (utf8_bytes (unat u)) = Inr [u]" by (simp only: utf16_utf8_back)
    with Text16 u assms(1) show ?thesis by (cases c) auto
  next
    case (Text32 us)
    with assms obtain u where u: "us = [u]" "is_scalar (unat u)"
      by (auto simp: single_unit_def length_Suc_conv)
    then have "utf32_to_utf8 [] [u] = Inr (utf8_bytes (unat u))"
      by (simp add: append_utf8_eq)
    then have "utf8_to_utf32 (utf8_bytes (unat u)) = Inr [u]" by (simp only: utf32_utf8_back)
    with Text32 u assms(1) show ?thesis by (cases c) auto
  qed
qed

lemma length_unit_text: "text_of_type c t \<Longrightarrow> single_unit t \<Longrightarrow> c = Char_Type \<or> c = Char8_Type \<Longrightarrow>
    Text8 (unit_text t) = t \<and> length (unit_text t) = 1"
  by (cases t; cases c) (auto simp: single_unit_def)

text \<open>A key of a map is read back from its text.\<close>

lemma enum_cast_unknown: "name \<notin> fst ` set es \<Longrightarrow> enum_cast_in es name = None"
  by (induction es name rule: enum_cast_in.induct) auto

lemma integer_key_decoded: "machine_type t \<Longrightarrow> holds t i \<Longrightarrow> integer_from_key t (show_int i) = Inr i"
  using from_chars_show_int [of "lowest t" i "highest t" "[]"]
  by (cases "integer_signed t") (simp_all add: integer_from_key_def holds_def machine_type_def lowest_def)

lemma enum_cast_absent: "name \<notin> fst ` set (enum_entries e) \<Longrightarrow> enum_cast e name = None"
  by (simp add: enum_cast_def enum_cast_unknown)

lemma key_text_decoded: "key_text kt k s \<Longrightarrow> decode_key kt s = Inr k"
  by (induction rule: key_text.induct)
    (simp_all add: decode_key_def integer_key_decoded enum_cast_name enum_cast_absent)

lemma key_texts_decoded: "list_all2 (key_text kt) (map fst es) ks \<Longrightarrow> \<forall>e\<in>set es. decode_key kt (encode_key kt (fst e)) = Inr (fst e)"
proof (induction es arbitrary: ks)
  case (Cons e es)
  then show ?case by (cases ks) (auto simp: key_text_encoded key_text_decoded)
qed simp

text \<open>The keys that some field of a class is read from.\<close>

definition known_key :: "class_type \<Rightarrow> string \<Rightarrow> bool" where
  "known_key d key \<longleftrightarrow> key \<in> serialized_key ` set (serialized_fields d)"

lemma known_key_field: "j < field_count d \<Longrightarrow> \<not> transient (for_each_field d ! j) \<Longrightarrow> known_key d (serialized_key (for_each_field d ! j))"
  by (auto simp: known_key_def serialized_fields_def field_count_def)

context pull_reader
begin

lemma read_integer_node:
  assumes "sees r (integer_node t i) r'" "machine_type t" "holds t i"
  shows "read_integer R t sc r = Inr (i, r')"
proof (cases "integer_signed t")
  case True
  note i = signed_64 [OF assms(2,3) True]
  have "read_int R r = Inr (word_of_int i, r')"
    using int_sees [OF assms(1), of i] True i by (simp add: integer_node_def)
  with True i assms(3) show ?thesis by (simp add: read_integer_def holds_def)
next
  case False
  note i = unsigned_64 [OF assms(2,3) False]
  have "read_uint R r = Inr (word_of_int i, r')"
    using uint_sees [OF assms(1), of i] False i by (simp add: integer_node_def)
  with False i assms(3) show ?thesis by (simp add: read_integer_def holds_def)
qed

text \<open>An integer of any width is read exactly or refused: never narrowed.\<close>

lemma read_integer_exact:
  assumes "sees r n r'" "node_integer n = Some i" "machine_type t"
  shows "if holds t i then read_integer R t sc r = Inr (i, r') else \<exists>e. read_integer R t sc r = Inl e"
proof (cases "integer_signed t")
  case True
  note range = signed_64(1) [OF assms(3) _ True]
  show ?thesis
  proof (cases "int64_range i")
    case in_range: True
    then have "sint (word_of_int i :: 64 word) = i"
      by (simp add: int64_range_def signed_take_bit_int_eq_self sint_sbintrunc')
    with int_sees [OF assms(1,2)] in_range True show ?thesis
      by (auto simp: read_integer_def holds_def fail_def throw_def)
  next
    case False
    with int_sees [OF assms(1,2)] range True show ?thesis by (auto simp: read_integer_def call_def lift_def)
  qed
next
  case False
  note range = unsigned_64(1) [OF assms(3) _ False]
  show ?thesis
  proof (cases "uint64_range i")
    case in_range: True
    then have i: "uint (word_of_int i :: 64 word) = i" "0 \<le> i"
      by (simp_all add: uint64_range_def unsigned_of_int take_bit_int_eq_self)
    with uint_sees [OF assms(1,2)] in_range False show ?thesis
      by (auto simp: read_integer_def holds_def lowest_def fail_def throw_def)
  next
    case not_in: False
    with uint_sees [OF assms(1,2)] range False show ?thesis by (auto simp: read_integer_def call_def lift_def)
  qed
qed

lemma read_byte_node:
  assumes "sees r (NUint (ucast (b :: byte))) r'"
  shows "read_integer R byte_type sc r = Inr (uint b, r')"
proof -
  have "integer_node byte_type (uint b) = NUint (ucast b)"
    by (simp only: integer_node_def byte_type_def integer_type.select_convs if_False ucast_eq)
  moreover have "uint b \<le> 255" "0 \<le> uint b" using uint_lt2p [of b] by auto
  ultimately show ?thesis
    using read_integer_node [of r byte_type "uint b" r'] assms
    by (simp add: machine_type_def byte_type_def holds_def lowest_def highest_def)
qed

lemma peek_kind:
  assumes "sees r n r'"
  obtains k r1 where "peek R r = Inr (k, r1)" "peeks_as k n" "sees r1 n r'"
  using peek_sees [OF assms] by blast

lemma read_enumerator:
  assumes "sees r (NString (enum_name e i)) r'" "proper_enum e" "enum_name e i \<noteq> []"
  shows "read_enum R e sc r = Inr (i, r')"
proof -
  obtain k r1 where "peek R r = Inr (k, r1)" "k = KString" "sees r1 (NString (enum_name e i)) r'"
    using assms(1) by (auto elim: peek_kind)
  then show ?thesis using assms(2,3) string_sees by (simp add: read_enum_def enum_cast_name)
qed

lemma read_enum_number:
  assumes "sees r (integer_node (enum_underlying e) i) r'" "machine_type (enum_underlying e)" "holds (enum_underlying e) i"
  shows "read_enum R e sc r = Inr (i, r')"
proof -
  obtain k r1 where "peek R r = Inr (k, r1)" "k = KInteger" "sees r1 (integer_node (enum_underlying e) i) r'"
    using assms(1) by (auto elim: peek_kind simp: integer_node_def split: if_splits)
  then show ?thesis using read_integer_node assms(2,3) by (simp add: read_enum_def)
qed

lemma read_bits:
  assumes "sees r (NString (bits_text bs)) r'"
  shows "read_bitset R (length bs) sc r = Inr (bs, r')"
proof -
  have "set (bits_text bs) \<subseteq> {CHR ''0'', CHR ''1''}" "length (bits_text bs) = length bs"
    by (auto simp: bits_text_def)
  moreover have "rev (map (\<lambda>c. c = CHR ''1'') (bits_text bs)) = bs"
    by (simp add: bits_text_def rev_map comp_def)
  ultimately show ?thesis using string_sees [OF assms] by (simp add: read_bitset_def)
qed

lemma read_unit:
  assumes "sees r (NString (unit_text t)) r'" "text_of_type c t" "single_unit t"
  shows "read_character R c sc r = Inr (t, r')"
  using string_sees [OF assms(1)] length_unit_text [OF assms(2,3)] single_unit_text [OF assms(2,3)]
  by (auto simp: read_character_def)

section \<open>Loops\<close>

lemma same_list_grows: "list_all2 (same P h g t) vs us \<Longrightarrow> list_all2 (same P h (g @ g') t) vs us"
  by (auto intro: same_grows elim: list_all2_mono)

lemma read_elements_all:
  assumes "list_all2 (reads_within P R sees h N t) vs ns" "elements r ns r'" "shaped P t (default_value P t)"
    "N \<le> K" "length ns < k"
  shows "\<exists>us g' r1. read_elements R (deserialize P R K t (default_value P t)) add k i acc g sc r = Inr (foldl add acc us, g @ g', r1) \<and>
    end_array_in R r1 = Inr r' \<and> list_all2 (same P h (g @ g') t) vs us"
  using assms
proof (induction vs ns arbitrary: r k i acc g rule: list_all2_induct)
  case Nil
  obtain m where k: "k = Suc m" using Nil.prems(4) by (cases k) auto
  from elements_Nil [OF Nil.prems(1)] show ?case by (force simp: k)
next
  case (Cons v vs n ns)
  obtain m where k: "k = Suc m" using Cons.prems(4) by (cases k) auto
  obtain r1 r2 where r: "next_element R r = Inr (True, r1)" "sees r1 n r2" "elements r2 ns r'"
    using elements_Cons [OF Cons.prems(1)] by blast
  obtain u g1 where u: "deserialize P R K t (default_value P t) g (sc\<lparr>sc_path := sc_path sc @ [index_segment i]\<rparr>) r1 = Inr (u, g @ g1, r2)"
    "same P h (g @ g1) t v u"
    using reads_withinD [of P R sees h N t v n, OF Cons.hyps(1) Cons.prems(3) r(2) Cons.prems(2)] by blast
  obtain us g2 r3 where us: "read_elements R (deserialize P R K t (default_value P t)) add m (Suc i) (add acc u) (g @ g1) sc r2 =
      Inr (foldl add (add acc u) us, (g @ g1) @ g2, r3)"
    "end_array_in R r3 = Inr r'" "list_all2 (same P h ((g @ g1) @ g2) t) vs us"
    using Cons.IH [where k = m and acc = "add acc u" and i = "Suc i" and g = "g @ g1", OF r(3) Cons.prems(2,3)] Cons.prems(4) k by auto
  have "list_all2 (same P h (g @ g1 @ g2) t) (v # vs) (u # us)"
    using same_grows [OF u(2), of g2] us(3) by simp
  then show ?case
    using r(1) u(1) us(1,2)
    by (intro exI [of _ "u # us"] exI [of _ "g1 @ g2"] exI [of _ r3]) (simp add: k with_index_def)
qed

lemma read_keyed_all:
  assumes "list_all2 (reads_within P R sees h N t) (map snd es) ns"
    "members r (zip (map (encode_key kt \<circ> fst) es) ns) r'"
    "shaped P t (default_value P t)" "N \<le> K" "length es < k"
    "\<forall>e\<in>set es. decode_key kt (encode_key kt (fst e)) = Inr (fst e)"
  shows "\<exists>us g' r1. read_keyed R (deserialize P R K t (default_value P t)) kt m k acc g sc r =
      Inr (foldl (\<lambda>a (k, v). map_add m a k v) acc (zip (map fst es) us), g @ g', r1) \<and>
    end_object_in R r1 = Inr r' \<and> list_all2 (same P h (g @ g') t) (map snd es) us"
  using assms
proof (induction es arbitrary: ns r k acc g)
  case Nil
  obtain j where k: "k = Suc j" using Nil.prems(5) by (cases k) auto
  from members_Nil [of r r'] Nil.prems show ?case by (force simp: k)
next
  case (Cons e es)
  obtain j where k: "k = Suc j" using Cons.prems(5) by (cases k) auto
  obtain key v n ms where e: "e = (key, v)" "ns = n # ms" using Cons.prems(1) by (cases e; cases ns) auto
  obtain r1 r2 where r: "next_key R r = Inr (Some (encode_key kt key), r1)" "sees r1 n r2"
    "members r2 (zip (map (encode_key kt \<circ> fst) es) ms) r'"
    using members_Cons [of r "encode_key kt key" n "zip (map (encode_key kt \<circ> fst) es) ms" r'] Cons.prems(2) by (auto simp: e comp_def)
  have decoded: "decode_key kt (encode_key kt key) = Inr key" using Cons.prems(6) by (simp add: e)
  have short: "length es < j" using Cons.prems(5) k by simp
  have keys: "\<forall>e\<in>set es. decode_key kt (encode_key kt (fst e)) = Inr (fst e)" using Cons.prems(6) by simp
  have hd: "reads_within P R sees h N t v n" and tl: "list_all2 (reads_within P R sees h N t) (map snd es) ms"
    using Cons.prems(1) by (auto simp: e)
  obtain u g1 where u: "deserialize P R K t (default_value P t) g (sc\<lparr>sc_path := sc_path sc @ [key_segment (encode_key kt key)]\<rparr>) r1 =
      Inr (u, g @ g1, r2)" "same P h (g @ g1) t v u"
    using reads_withinD [OF hd Cons.prems(4) r(2) Cons.prems(3)] by blast
  obtain us g2 r3 where us: "read_keyed R (deserialize P R K t (default_value P t)) kt m j (map_add m acc key u) (g @ g1) sc r2 =
      Inr (foldl (\<lambda>a (k, v). map_add m a k v) (map_add m acc key u) (zip (map fst es) us), (g @ g1) @ g2, r3)"
    "end_object_in R r3 = Inr r'" "list_all2 (same P h ((g @ g1) @ g2) t) (map snd es) us"
    using Cons.IH [where k = j and acc = "map_add m acc key u" and g = "g @ g1", OF tl r(3) Cons.prems(3,4) short keys] by auto
  have "list_all2 (same P h (g @ g1 @ g2) t) (map snd (e # es)) (u # us)"
    using same_grows [OF u(2), of g2] us(3) by (simp add: e)
  then show ?case
    using r(1) u(1) us(1,2) decoded
    by (intro exI [of _ "u # us"] exI [of _ "g1 @ g2"] exI [of _ r3]) (simp add: k e with_path_def)
qed

lemma pair_sees:
  assumes "sees r (NArray [m, n]) r'"
  obtains hint r1 r2 r3 r4 r5 r6 where "begin_array_in R r = Inr (hint, r1)" "next_element R r1 = Inr (True, r2)" "sees r2 m r3"
    "next_element R r3 = Inr (True, r4)" "sees r4 n r5" "next_element R r5 = Inr (False, r6)" "end_array_in R r6 = Inr r'"
proof -
  obtain hint r1 where 1: "begin_array_in R r = Inr (hint, r1)" "elements r1 [m, n] r'"
    using array_sees [OF assms] by blast
  obtain r2 r3 where 2: "next_element R r1 = Inr (True, r2)" "sees r2 m r3" "elements r3 [n] r'"
    using elements_Cons [OF 1(2)] by blast
  obtain r4 r5 where 3: "next_element R r3 = Inr (True, r4)" "sees r4 n r5" "elements r5 [] r'"
    using elements_Cons [OF 2(3)] by blast
  obtain r6 where "next_element R r5 = Inr (False, r6)" "end_array_in R r6 = Inr r'"
    using elements_Nil [OF 3(3)] by blast
  with that 1 2 3 show thesis by blast
qed

lemma read_pairs_all:
  assumes "list_all2 (reads_within P R sees h N kt) (map fst es) ks" "list_all2 (reads_within P R sees h N t) (map snd es) ns"
    "elements r (map (\<lambda>(k, n). NArray [k, n]) (zip ks ns)) r'"
    "shaped P kt (default_value P kt)" "shaped P t (default_value P t)" "N \<le> K" "length es < k"
  shows "\<exists>ls us g' r1. read_pairs R (deserialize P R K kt (default_value P kt)) (deserialize P R K t (default_value P t)) m k i acc g sc r =
      Inr (foldl (\<lambda>a (k, v). map_add m a k v) acc (zip ls us), g @ g', r1) \<and> end_array_in R r1 = Inr r' \<and>
      list_all2 (same P h (g @ g') kt) (map fst es) ls \<and> list_all2 (same P h (g @ g') t) (map snd es) us"
  using assms
proof (induction es arbitrary: ks ns r k acc g i)
  case Nil
  obtain j where k: "k = Suc j" using Nil.prems(7) by (cases k) auto
  from elements_Nil [of r r'] Nil.prems show ?case by (force simp: k)
next
  case (Cons e es)
  obtain j where k: "k = Suc j" using Cons.prems(7) by (cases k) auto
  obtain key v kn ks' n ns' where e: "e = (key, v)" "ks = kn # ks'" "ns = n # ns'"
    using Cons.prems(1,2) by (cases e; cases ks; cases ns) auto
  have short: "length es < j" using Cons.prems(7) k by simp
  have hds: "reads_within P R sees h N kt key kn" "reads_within P R sees h N t v n"
    and tls: "list_all2 (reads_within P R sees h N kt) (map fst es) ks'" "list_all2 (reads_within P R sees h N t) (map snd es) ns'"
    using Cons.prems(1,2) by (auto simp: e)
  obtain r1 r2 where r: "next_element R r = Inr (True, r1)" "sees r1 (NArray [kn, n]) r2"
    "elements r2 (map (\<lambda>(k, n). NArray [k, n]) (zip ks' ns')) r'"
    using elements_Cons [of r "NArray [kn, n]" "map (\<lambda>(k, n). NArray [k, n]) (zip ks' ns')" r'] Cons.prems(3) by (auto simp: e)
  obtain hint s1 s2 s3 s4 s5 s6 where s: "begin_array_in R r1 = Inr (hint, s1)" "next_element R s1 = Inr (True, s2)" "sees s2 kn s3"
    "next_element R s3 = Inr (True, s4)" "sees s4 n s5" "next_element R s5 = Inr (False, s6)" "end_array_in R s6 = Inr r2"
    by (rule pair_sees [OF r(2)])
  let ?sc = "sc\<lparr>sc_path := sc_path sc @ [index_segment i]\<rparr>"
  obtain l g1 where l: "deserialize P R K kt (default_value P kt) g ?sc s2 = Inr (l, g @ g1, s3)" "same P h (g @ g1) kt key l"
    using reads_withinD [OF hds(1) Cons.prems(6) s(3) Cons.prems(4)] by blast
  obtain u g2 where u: "deserialize P R K t (default_value P t) (g @ g1) ?sc s4 = Inr (u, (g @ g1) @ g2, s5)" "same P h ((g @ g1) @ g2) t v u"
    using reads_withinD [OF hds(2) Cons.prems(6) s(5) Cons.prems(5)] by blast
  let ?g = "(g @ g1) @ g2"
  obtain ls us g3 r3 where us: "read_pairs R (deserialize P R K kt (default_value P kt)) (deserialize P R K t (default_value P t)) m j (Suc i)
      (map_add m acc l u) ?g sc r2 = Inr (foldl (\<lambda>a (k, v). map_add m a k v) (map_add m acc l u) (zip ls us), ?g @ g3, r3)"
    "end_array_in R r3 = Inr r'" "list_all2 (same P h (?g @ g3) kt) (map fst es) ls" "list_all2 (same P h (?g @ g3) t) (map snd es) us"
    using Cons.IH [where k = j and acc = "map_add m acc l u" and g = ?g and i = "Suc i", OF tls r(3) Cons.prems(4,5,6) short] by blast
  have "same P h (?g @ g3) kt key l" using same_grows [OF l(2), of "g2 @ g3"] by simp
  moreover have "same P h (?g @ g3) t v u" by (rule same_grows) (rule u(2))
  ultimately have "list_all2 (same P h (g @ g1 @ g2 @ g3) kt) (map fst (e # es)) (l # ls)"
    "list_all2 (same P h (g @ g1 @ g2 @ g3) t) (map snd (e # es)) (u # us)"
    using us(3,4) by (simp_all add: e)
  then show ?case
    using r(1) s l(1) u(1) us(1,2)
    by (intro exI [of _ "l # ls"] exI [of _ "u # us"] exI [of _ "g1 @ g2 @ g3"] exI [of _ r3]) (simp add: k with_index_def)
qed

text \<open>A fixed range, from its place \<open>i\<close> on: the elements before it have been read.\<close>

lemma read_in_place_all:
  assumes "list_all2 (reads_within P R sees h N t) vs ns" "elements r ns r'"
    "\<And>v. v \<in> set (drop i cur) \<Longrightarrow> shaped P t v" "length cur = i + length vs" "N \<le> K" "length ns < k"
  shows "\<exists>us g' r1. read_in_place R (deserialize P R K) t k i cur g sc r = Inr (length cur, take i cur @ us, g @ g', r1) \<and>
    end_array_in R r1 = Inr r' \<and> list_all2 (same P h (g @ g') t) vs us"
  using assms
proof (induction vs ns arbitrary: r k i cur g rule: list_all2_induct)
  case Nil
  obtain m where k: "k = Suc m" using Nil.prems(5) by (cases k) auto
  from elements_Nil [OF Nil.prems(1)] Nil.prems(3) show ?case by (force simp: k)
next
  case (Cons v vs n ns)
  obtain m where k: "k = Suc m" using Cons.prems(5) by (cases k) auto
  obtain r1 r2 where r: "next_element R r = Inr (True, r1)" "sees r1 n r2" "elements r2 ns r'"
    using elements_Cons [OF Cons.prems(1)] by blast
  have i: "i < length cur" using Cons.prems(3) by simp
  then have old: "shaped P t (cur ! i)" using Cons.prems(2) [of "cur ! i"] by (metis Cons_nth_drop_Suc list.set_intros(1))
  obtain u g1 where u: "deserialize P R K t (cur ! i) g (sc\<lparr>sc_path := sc_path sc @ [index_segment i]\<rparr>) r1 = Inr (u, g @ g1, r2)"
    "same P h (g @ g1) t v u"
    using reads_withinD [of P R sees h N t v n, OF Cons.hyps(1) Cons.prems(4) r(2) old] by blast
  have rest: "\<And>v. v \<in> set (drop (Suc i) (cur[i := u])) \<Longrightarrow> shaped P t v"
    using Cons.prems(2) by (metis drop_update_cancel in_set_dropD drop_Suc_Cons lessI in_mono set_drop_subset_set_drop le_SucI order_refl)
  have len: "length (cur[i := u]) = Suc i + length vs" "length ns < m" using Cons.prems(3,5) k by auto
  obtain us g2 r3 where us: "read_in_place R (deserialize P R K) t m (Suc i) (cur[i := u]) (g @ g1) sc r2 =
      Inr (length (cur[i := u]), take (Suc i) (cur[i := u]) @ us, (g @ g1) @ g2, r3)"
    "end_array_in R r3 = Inr r'" "list_all2 (same P h ((g @ g1) @ g2) t) vs us"
    using Cons.IH [where k = m and cur = "cur[i := u]" and i = "Suc i" and g = "g @ g1", OF r(3) rest len(1) Cons.prems(4) len(2)] by blast
  have "take (Suc i) (cur[i := u]) = take i cur @ [u]" using i by (simp add: take_Suc_conv_app_nth)
  moreover have "list_all2 (same P h (g @ g1 @ g2) t) (v # vs) (u # us)"
    using same_grows [OF u(2), of g2] us(3) by simp
  ultimately show ?case
    using r(1) u(1) us(1,2) i
    by (intro exI [of _ "u # us"] exI [of _ "g1 @ g2"] exI [of _ r3]) (simp add: k with_index_def)
qed

lemma read_parts_all:
  assumes "length vs = length ts" "length ns = length ts" "length cur = length ts" "elements r ns r'"
    "\<And>j. j < length ts \<Longrightarrow> reads_within P R sees h N (ts ! j) (vs ! j) (ns ! j)"
    "\<And>j. j < length ts \<Longrightarrow> shaped P (ts ! j) (cur ! j)" "N \<le> K"
  shows "\<exists>us g' r1. read_parts R (deserialize P R K) count i ts cur g sc r = Inr (us, g @ g', r1) \<and> elements r1 [] r' \<and>
    length us = length ts \<and> (\<forall>j<length ts. same P h (g @ g') (ts ! j) (vs ! j) (us ! j))"
  using assms
proof (induction ts arbitrary: vs ns cur r g i)
  case (Cons t ts)
  obtain v vs' n ns' c cur' where lists: "vs = v # vs'" "ns = n # ns'" "cur = c # cur'"
    using Cons.prems(1,2,3) by (cases vs; cases ns; cases cur) auto
  obtain r1 r2 where r: "next_element R r = Inr (True, r1)" "sees r1 n r2" "elements r2 ns' r'"
    using elements_Cons Cons.prems(4) lists(2) by blast
  have "reads_within P R sees h N t v n" "shaped P t c" using Cons.prems(5,6) [of 0] by (simp_all add: lists)
  then obtain u g1 where u: "deserialize P R K t c g (sc\<lparr>sc_path := sc_path sc @ [index_segment i]\<rparr>) r1 = Inr (u, g @ g1, r2)"
    "same P h (g @ g1) t v u"
    using reads_withinD [of P R sees h N t v n, OF _ Cons.prems(7) r(2)] by blast
  have tails: "\<And>j. j < length ts \<Longrightarrow> reads_within P R sees h N (ts ! j) (vs' ! j) (ns' ! j)"
    "\<And>j. j < length ts \<Longrightarrow> shaped P (ts ! j) (cur' ! j)"
    using Cons.prems(5,6) [of "Suc _"] by (simp_all add: lists)
  obtain us g2 r3 where us: "read_parts R (deserialize P R K) count (Suc i) ts cur' (g @ g1) sc r2 = Inr (us, (g @ g1) @ g2, r3)"
    "elements r3 [] r'" "length us = length ts" "\<forall>j<length ts. same P h ((g @ g1) @ g2) (ts ! j) (vs' ! j) (us ! j)"
    using Cons.IH [where vs = vs' and ns = ns' and cur = cur' and g = "g @ g1" and i = "Suc i", OF _ _ _ r(3) tails Cons.prems(7)]
      Cons.prems(1,2,3) by (auto simp: lists)
  have "\<forall>j<length (t # ts). same P h (g @ g1 @ g2) ((t # ts) ! j) (vs ! j) ((u # us) ! j)"
    using same_grows [OF u(2), of g2] us(4) by (auto simp: lists nth_Cons split: nat.split)
  then show ?case
    using r(1) u(1) us(1,2,3)
    by (intro exI [of _ "u # us"] exI [of _ "g1 @ g2"] exI [of _ r3]) (simp add: lists with_index_def)
qed auto

section \<open>Objects\<close>

text \<open>
  The keys of an object arrive in any order and among keys that no field has. A key of a field
  finds its field, an unknown one is skipped with its value, and the fields \<open>js\<close> that were not
  named keep what they hold.
\<close>

lemma read_keys_all:
  assumes "members r ms r'"
    "filter (\<lambda>m. known_key d (fst m)) ms = map (\<lambda>j. (serialized_key (for_each_field d ! j), ns ! j)) js" "distinct js"
    "\<forall>j\<in>set js. j < field_count d \<and> \<not> transient (for_each_field d ! j) \<and>
       reads_within P R sees h N (field_type (for_each_field d ! j)) (vs ! j) (ns ! j) \<and>
       shaped P (field_type (for_each_field d ! j)) (cur ! j)"
    "check_object_contract d" "length cur = field_count d" "length seen = field_count d" "N \<le> K" "length ms < k"
  shows "\<exists>us g' seen' r1. read_keys R (deserialize P R K) d k seen cur g sc r = Inr (seen', us, g @ g', r1) \<and>
    end_object_in R r1 = Inr r' \<and> length us = field_count d \<and> length seen' = field_count d \<and>
    (\<forall>j\<in>set js. same P h (g @ g') (field_type (for_each_field d ! j)) (vs ! j) (us ! j)) \<and>
    (\<forall>j<field_count d. j \<notin> set js \<longrightarrow> us ! j = cur ! j) \<and>
    (\<forall>j<field_count d. seen' ! j \<longleftrightarrow> seen ! j \<or> j \<in> set js)"
  using assms
proof (induction ms arbitrary: js r k seen cur g)
  case Nil
  obtain m where k: "k = Suc m" using Nil.prems(9) by (cases k) auto
  from members_Nil [of r r'] Nil.prems show ?case by (force simp: k)
next
  case (Cons e ms)
  obtain m where k: "k = Suc m" using Cons.prems(9) by (cases k) auto
  have short: "length ms < m" using Cons.prems(9) k by simp
  obtain key n where e: "e = (key, n)" by (cases e)
  obtain r1 r2 where r: "next_key R r = Inr (Some key, r1)" "sees r1 n r2" "members r2 ms r'"
    using members_Cons [of r key n ms r'] Cons.prems(1) by (auto simp: e)
  show ?case
  proof (cases "known_key d key")
    case False
    then have rest: "filter (\<lambda>m. known_key d (fst m)) ms = map (\<lambda>j. (serialized_key (for_each_field d ! j), ns ! j)) js"
      using Cons.prems(2) by (simp add: e)
    have "read_field_at (deserialize P R K) d cur key g sc r1 = Inr (field_count d, cur, g, r1)"
      using read_field_at_unknown [OF Cons.prems(6)] False by (simp add: known_key_def)
    then have step: "read_keys R (deserialize P R K) d k seen cur g sc r = read_keys R (deserialize P R K) d m seen cur g sc r2"
      using r(1) skip_sees [OF r(2)] by (simp add: k)
    show ?thesis
      unfolding step using Cons.IH [OF r(3) rest Cons.prems(3,4,5,6,7,8) short] .
  next
    case True
    obtain j js' where js: "js = j # js'" "key = serialized_key (for_each_field d ! j)" "n = ns ! j"
      and rest: "filter (\<lambda>m. known_key d (fst m)) ms = map (\<lambda>j. (serialized_key (for_each_field d ! j), ns ! j)) js'"
      using Cons.prems(2) True by (auto simp: e Cons_eq_map_conv)
    let ?f = "for_each_field d ! j" and ?key = "serialized_key (for_each_field d ! j)"
    have j: "j < field_count d" "\<not> transient ?f" "reads_within P R sees h N (field_type ?f) (vs ! j) (ns ! j)"
      "shaped P (field_type ?f) (cur ! j)" using Cons.prems(4) js(1) by auto
    obtain u g1 where u: "deserialize P R K (field_type ?f) (cur ! j) g (sc\<lparr>sc_path := sc_path sc @ [key_segment ?key]\<rparr>) r1 =
        Inr (u, g @ g1, r2)" "same P h (g @ g1) (field_type ?f) (vs ! j) u"
      using reads_withinD [OF j(3) Cons.prems(8) r(2) [unfolded js(3)] j(4)] by blast
    have found: "read_field_at (deserialize P R K) d cur ?key g sc r1 = Inr (j, cur[j := u], g @ g1, r2)"
      using read_field_at_known [OF Cons.prems(5,6) j(1,2), where de = "deserialize P R K" and h = g and sc = sc and r = r1] u(1)
      by (simp add: with_path_def)
    have left: "\<forall>i\<in>set js'. i < field_count d \<and> \<not> transient (for_each_field d ! i) \<and>
         reads_within P R sees h N (field_type (for_each_field d ! i)) (vs ! i) (ns ! i) \<and>
         shaped P (field_type (for_each_field d ! i)) (cur[j := u] ! i)"
      using Cons.prems(3,4) js(1) by (metis distinct.simps(2) list.set_intros(2) nth_list_update_neq)
    obtain us g2 seen' r3 where us: "read_keys R (deserialize P R K) d m (seen[j := True]) (cur[j := u]) (g @ g1) sc r2 =
        Inr (seen', us, (g @ g1) @ g2, r3)" "end_object_in R r3 = Inr r'" "length us = field_count d" "length seen' = field_count d"
      "\<forall>i\<in>set js'. same P h ((g @ g1) @ g2) (field_type (for_each_field d ! i)) (vs ! i) (us ! i)"
      "\<forall>i<field_count d. i \<notin> set js' \<longrightarrow> us ! i = cur[j := u] ! i"
      "\<forall>i<field_count d. seen' ! i \<longleftrightarrow> seen[j := True] ! i \<or> i \<in> set js'"
      using Cons.IH [where k = m and seen = "seen[j := True]" and cur = "cur[j := u]" and g = "g @ g1", OF r(3) rest _ left Cons.prems(5)]
        Cons.prems(3,6,7,8) js(1) short by auto
    have "us ! j = u" using us(6) j(1) Cons.prems(3,6) js(1) by simp
    then have "\<forall>i\<in>set js. same P h (g @ g1 @ g2) (field_type (for_each_field d ! i)) (vs ! i) (us ! i)"
      using us(5) same_grows [OF u(2), of g2] js(1) by simp
    moreover have "\<forall>i<field_count d. i \<notin> set js \<longrightarrow> us ! i = cur ! i" using us(6) js(1) by simp
    moreover have "\<forall>i<field_count d. seen' ! i \<longleftrightarrow> seen ! i \<or> i \<in> set js"
    proof (intro allI impI)
      fix i assume i: "i < field_count d"
      then have "seen[j := True] ! i \<longleftrightarrow> i = j \<or> seen ! i" using Cons.prems(7) by (cases "i = j") simp_all
      with us(7) i show "seen' ! i \<longleftrightarrow> seen ! i \<or> i \<in> set js" by (auto simp: js(1))
    qed
    ultimately show ?thesis
      using r(1) found us(1-4) j(1) js(2)
      by (intro exI [of _ us] exI [of _ "g1 @ g2"] exI [of _ seen'] exI [of _ r3]) (simp add: k)
  qed
qed

end

lemma missing_required_first:
  "length seen = length fs \<Longrightarrow> (case missing_required fs seen of
     None \<Rightarrow> \<forall>j<length fs. required (fs ! j) \<longrightarrow> seen ! j
   | Some f \<Rightarrow> \<exists>j<length fs. f = fs ! j \<and> required (fs ! j) \<and> \<not> seen ! j \<and> (\<forall>i<j. required (fs ! i) \<longrightarrow> seen ! i))"
proof (induction fs seen rule: missing_required.induct)
  case (1 f fs s seen)
  show ?case
  proof (cases "required f \<and> \<not> s")
    case False
    with 1 have IH: "case missing_required fs seen of
         None \<Rightarrow> \<forall>j<length fs. required (fs ! j) \<longrightarrow> seen ! j
       | Some f \<Rightarrow> \<exists>j<length fs. f = fs ! j \<and> required (fs ! j) \<and> \<not> seen ! j \<and> (\<forall>i<j. required (fs ! i) \<longrightarrow> seen ! i)"
      by simp
    show ?thesis
    proof (cases "missing_required fs seen")
      case None
      with False IH show ?thesis by (auto simp: nth_Cons split: nat.split)
    next
      case (Some x)
      with IH obtain j where "j < length fs" "x = fs ! j" "required (fs ! j)" "\<not> seen ! j" "\<forall>i<j. required (fs ! i) \<longrightarrow> seen ! i"
        by auto
      with False Some show ?thesis
        by (auto intro!: exI [of _ "Suc j"] simp: nth_Cons split: nat.split)
    qed
  qed (auto intro!: exI [of _ 0])
qed auto

lemma object_entries_indexed:
  assumes "length ns = field_count d"
  shows "object_entries d ns =
    map (\<lambda>j. (serialized_key (for_each_field d ! j), ns ! j)) (filter (\<lambda>j. \<not> transient (for_each_field d ! j)) [0..<field_count d])"
proof -
  have "zip (for_each_field d) ns = map (\<lambda>j. (for_each_field d ! j, ns ! j)) [0..<field_count d]"
    using assms by (intro nth_equalityI) (simp_all add: field_count_def)
  then show ?thesis by (simp only: object_entries_def filter_map map_map comp_def case_prod_conv)
qed

context pull_reader
begin

lemma read_object_some:
  assumes "sees r (NObject ms) r'"
    "filter (\<lambda>m. known_key d (fst m)) ms = map (\<lambda>j. (serialized_key (for_each_field d ! j), ns ! j)) js" "distinct js"
    "\<forall>j\<in>set js. j < field_count d \<and> \<not> transient (for_each_field d ! j) \<and>
       reads_within P R sees h N (field_type (for_each_field d ! j)) (vs ! j) (ns ! j) \<and>
       shaped P (field_type (for_each_field d ! j)) (cur ! j)"
    "check_object_contract d" "length cur = field_count d" "N \<le> K" "length ms < K"
  shows "if \<forall>j<field_count d. required (for_each_field d ! j) \<longrightarrow> j \<in> set js
    then \<exists>us g'. read_object R (deserialize P R K) K d cur g sc r = Inr (VObject us, g @ g', r') \<and> length us = field_count d \<and>
      (\<forall>j\<in>set js. same P h (g @ g') (field_type (for_each_field d ! j)) (vs ! j) (us ! j)) \<and>
      (\<forall>j<field_count d. j \<notin> set js \<longrightarrow> us ! j = cur ! j)
    else \<exists>j<field_count d. required (for_each_field d ! j) \<and> j \<notin> set js \<and> (\<forall>i<j. required (for_each_field d ! i) \<longrightarrow> i \<in> set js) \<and>
      read_object R (deserialize P R K) K d cur g sc r =
        Inl (with_child (serialized_key (for_each_field d ! j)) (throw_at (sc_path sc) ''missing required field''))"
proof -
  obtain hint r1 where r: "begin_object_in R r = Inr (hint, r1)" "members r1 ms r'"
    using object_sees [OF assms(1)] by blast
  obtain us g' seen r2 where us: "read_keys R (deserialize P R K) d K (replicate (field_count d) False) cur g sc r1 =
      Inr (seen, us, g @ g', r2)" "end_object_in R r2 = Inr r'" "length us = field_count d" "length seen = field_count d"
    "\<forall>j\<in>set js. same P h (g @ g') (field_type (for_each_field d ! j)) (vs ! j) (us ! j)"
    "\<forall>j<field_count d. j \<notin> set js \<longrightarrow> us ! j = cur ! j"
    "\<forall>j<field_count d. seen ! j \<longleftrightarrow> replicate (field_count d) False ! j \<or> j \<in> set js"
    using read_keys_all [where k = K and seen = "replicate (field_count d) False" and g = g and sc = sc, OF r(2) assms(2-6) _ assms(7,8)]
    by (auto simp: length_replicate)
  have seen: "\<And>j. j < field_count d \<Longrightarrow> seen ! j \<longleftrightarrow> j \<in> set js" using us(7) by simp
  note first = missing_required_first [of seen "for_each_field d", folded field_count_def, OF us(4)]
  show ?thesis
  proof (cases "missing_required (for_each_field d) seen")
    case None
    with first seen have "\<forall>j<field_count d. required (for_each_field d ! j) \<longrightarrow> j \<in> set js" by simp
    with None r(1) us show ?thesis by (auto simp: read_object_def)
  next
    case (Some f)
    with first obtain j where j: "j < field_count d" "f = for_each_field d ! j" "required (for_each_field d ! j)" "\<not> seen ! j"
      "\<forall>i<j. required (for_each_field d ! i) \<longrightarrow> seen ! i" by auto
    then have before: "\<forall>i<j. required (for_each_field d ! i) \<longrightarrow> i \<in> set js" using seen by (meson less_trans)
    have "read_object R (deserialize P R K) K d cur g sc r =
        Inl (with_child (serialized_key (for_each_field d ! j)) (throw_at (sc_path sc) ''missing required field''))"
      using Some r(1) us(1,2) j(2) by (simp add: read_object_def)
    with j seen before show ?thesis by auto
  qed
qed

lemma read_object_all:
  assumes "sees r (NObject (object_entries d ns)) r'" "length ns = field_count d" "check_object_contract d"
    "\<forall>j<field_count d. \<not> transient (for_each_field d ! j) \<longrightarrow>
       reads_within P R sees h N (field_type (for_each_field d ! j)) (vs ! j) (ns ! j)"
    "\<forall>j<field_count d. \<not> transient (for_each_field d ! j) \<longrightarrow> shaped P (field_type (for_each_field d ! j)) (cur ! j)"
    "length cur = field_count d" "N \<le> K" "field_count d < K"
  shows "\<exists>us g'. read_object R (deserialize P R K) K d cur g sc r = Inr (VObject us, g @ g', r') \<and> length us = field_count d \<and>
    (\<forall>j<field_count d. \<not> transient (for_each_field d ! j) \<longrightarrow>
       same P h (g @ g') (field_type (for_each_field d ! j)) (vs ! j) (us ! j))"
proof -
  let ?js = "filter (\<lambda>j. \<not> transient (for_each_field d ! j)) [0..<field_count d]"
  have known: "filter (\<lambda>m. known_key d (fst m)) (object_entries d ns) =
      map (\<lambda>j. (serialized_key (for_each_field d ! j), ns ! j)) ?js"
    unfolding object_entries_indexed [OF assms(2)] by (rule filter_True) (auto simp: known_key_field)
  have fields: "\<forall>j\<in>set ?js. j < field_count d \<and> \<not> transient (for_each_field d ! j) \<and>
       reads_within P R sees h N (field_type (for_each_field d ! j)) (vs ! j) (ns ! j) \<and>
       shaped P (field_type (for_each_field d ! j)) (cur ! j)"
    using assms(4,5) by simp
  have "length (object_entries d ns) < K"
    unfolding object_entries_indexed [OF assms(2)] using assms(8)
    by (metis diff_zero le_less_trans length_filter_le length_map length_upt)
  moreover have "\<forall>j<field_count d. required (for_each_field d ! j) \<longrightarrow> j \<in> set ?js"
    using assms(3) by (auto simp: check_object_contract_def attributes_consistent_def list_all_length field_count_def)
  ultimately show ?thesis
    using read_object_some [where g = g and sc = sc, OF assms(1) known _ fields assms(3,6,7)] by auto
qed

section \<open>Every category\<close>

lemma reads_SucI:
  assumes "\<And>k r r' old g sc. N \<le> k \<Longrightarrow> sees r n r' \<Longrightarrow> shaped P t old \<Longrightarrow>
     \<exists>u g'. deserialize P R (Suc k) t old g sc r = Inr (u, g @ g', r') \<and> same P h (g @ g') t v u"
  shows "\<exists>N. reads_within P R sees h N t v n"
proof
  show "reads_within P R sees h (Suc N) t v n"
    unfolding reads_within_def using assms by (metis Suc_le_D Suc_le_mono)
qed

lemma peek_value:
  assumes "sees r n r'" "n \<noteq> NNull"
  obtains k r1 where "peek R r = Inr (k, r1)" "k \<noteq> KNull" "sees r1 n r'"
  using peek_sees [OF assms(1)] assms(2) by (metis peeks_as_simps(1))

lemma peek_null:
  assumes "sees r NNull r'"
  obtains r1 where "peek R r = Inr (KNull, r1)" "read_null R r1 = Inr r'"
  using peek_sees [OF assms] null_sees by (metis peeks_as_simps(2))

lemma reads_some:
  assumes "reads_within P R sees h N t v n" "n \<noteq> NNull" "shaped P t (default_value P t)"
  shows "\<exists>N. reads_within P R sees h N (TOptional t) (VOptional (Some v)) n"
proof (rule reads_SucI [of N])
  fix k r r' old g sc assume k: "N \<le> k" and r: "sees r n r'" and old: "shaped P (TOptional t) old"
  obtain kind r1 where p: "peek R r = Inr (kind, r1)" "kind \<noteq> KNull" "sees r1 n r'"
    using peek_value [OF r assms(2)] .
  let ?target = "case optional_in old of Some v \<Rightarrow> v | None \<Rightarrow> default_value P t"
  have "shaped P t ?target" using old assms(3) by (auto simp: shaped_simps optional_in_def)
  from reads_withinD [OF assms(1) k p(3) this] obtain u g' where
    "deserialize P R k t ?target g sc r1 = Inr (u, g @ g', r')" "same P h (g @ g') t v u" by blast
  with p(1,2) show "\<exists>u g'. deserialize P R (Suc k) (TOptional t) old g sc r = Inr (u, g @ g', r') \<and>
      same P h (g @ g') (TOptional t) (VOptional (Some v)) u"
    by (auto simp: deserialize_at read_optional_def intro!: exI same_some)
qed

lemma new_object_same:
  assumes "same P h g t v u"
  shows "same P h (g @ [c]) t v u" "length g < length (g @ [c])" "(g @ [c]) ! length g = c"
  using same_grows [OF assms] by simp_all

lemma reads_pointer:
  assumes "reads_within P R sees h N t (cell_value (h ! a)) n" "n \<noteq> NNull" "shaped P t (default_value P t)"
    "polymorphic_class P t = None" "a < length h"
  shows "\<exists>N. reads_within P R sees h N (TPointer t) (VPointer (Some a)) n"
proof (rule reads_SucI [of N])
  fix k r r' old g sc assume k: "N \<le> k" and r: "sees r n r'"
  obtain kind r1 where p: "peek R r = Inr (kind, r1)" "kind \<noteq> KNull" "sees r1 n r'"
    using peek_value [OF r assms(2)] .
  from reads_withinD [OF assms(1) k p(3) assms(3)] obtain u g' where
    u: "deserialize P R k t (default_value P t) g sc r1 = Inr (u, g @ g', r')" "same P h (g @ g') t (cell_value (h ! a)) u" by blast
  let ?g = "(g @ g') @ [\<lparr>cell_class = element_class t, cell_value = u\<rparr>]"
  have "same P h ?g (TPointer t) (VPointer (Some a)) (VPointer (Some (length (g @ g'))))"
    using new_object_same [OF u(2)] assms(4,5) by (intro same_object) simp_all
  with p(1,2) u(1) assms(4) show "\<exists>u g'. deserialize P R (Suc k) (TPointer t) old g sc r = Inr (u, g @ g', r') \<and>
      same P h (g @ g') (TPointer t) (VPointer (Some a)) u"
    by (intro exI [of _ "VPointer (Some (length (g @ g')))"] exI [of _ "g' @ [\<lparr>cell_class = element_class t, cell_value = u\<rparr>]"])
      (simp add: deserialize_at read_pointer_def new_object_def)
qed

lemma tagged_sees:
  assumes "sees r (NObject [(k, NString s), (l, n)]) r'"
  obtains hint r1 r2 r3 r4 r5 r6 where "begin_object_in R r = Inr (hint, r1)" "next_key R r1 = Inr (Some k, r2)"
    "read_string R r2 = Inr (s, r3)" "next_key R r3 = Inr (Some l, r4)" "sees r4 n r5" "next_key R r5 = Inr (None, r6)"
    "end_object_in R r6 = Inr r'"
proof -
  obtain hint r1 where 1: "begin_object_in R r = Inr (hint, r1)" "members r1 [(k, NString s), (l, n)] r'"
    using object_sees [OF assms] by blast
  obtain r2 r3 where 2: "next_key R r1 = Inr (Some k, r2)" "sees r2 (NString s) r3" "members r3 [(l, n)] r'"
    using members_Cons [OF 1(2)] by blast
  obtain r4 r5 where 3: "next_key R r3 = Inr (Some l, r4)" "sees r4 n r5" "members r5 [] r'"
    using members_Cons [OF 2(3)] by blast
  obtain r6 where "next_key R r5 = Inr (None, r6)" "end_object_in R r6 = Inr r'"
    using members_Nil [OF 3(3)] by blast
  with that 1 2(1) string_sees [OF 2(2)] 3 show thesis by blast
qed

text \<open>
  A polymorphic pointer, whichever way the class to create is found: \<open>create\<close> stands for the two
  branches that look it up.
\<close>

lemma reads_polymorphic:
  assumes "reads_within P R sees h N (TObject c) (cell_value (h ! a)) n" "shaped P (TObject c) (VObject fvs)"
    "polymorphic_class P t = Some base" "a < length h" "cell_class (h ! a) = c"
    and create: "\<And>k g sc r. (case found_class P (by_name (types P) name) of
          Some type \<Rightarrow> read_registered P (deserialize P R k) base type name g sc r
        | None \<Rightarrow> read_unregistered P (deserialize P R k) base name g sc r) =
        and_then (with_path ''value'' (\<lambda>sc. deserialize P R k (TObject c) (VObject fvs) g sc r) sc)
          (\<lambda>(v, h, r). let (a, h) = new_object c v h in Inr (a, h, r))"
  shows "\<exists>N. reads_within P R sees h N (TPointer t) (VPointer (Some a)) (NObject [(''type'', NString name), (''value'', n)])"
proof (rule reads_SucI [of N])
  fix k r r' old g sc assume k: "N \<le> k" and r: "sees r (NObject [(''type'', NString name), (''value'', n)]) r'"
  obtain kind r0 where p: "peek R r = Inr (kind, r0)" "kind \<noteq> KNull" "sees r0 (NObject [(''type'', NString name), (''value'', n)]) r'"
    using peek_value [OF r] by auto
  obtain hint r1 r2 r3 r4 r5 r6 where s: "begin_object_in R r0 = Inr (hint, r1)" "next_key R r1 = Inr (Some ''type'', r2)"
    "read_string R r2 = Inr (name, r3)" "next_key R r3 = Inr (Some ''value'', r4)" "sees r4 n r5" "next_key R r5 = Inr (None, r6)"
    "end_object_in R r6 = Inr r'" by (rule tagged_sees [OF p(3)])
  from reads_withinD [OF assms(1) k s(5) assms(2)] obtain u g' where
    u: "deserialize P R k (TObject c) (VObject fvs) g (sc\<lparr>sc_path := sc_path sc @ [key_segment ''value'']\<rparr>) r4 = Inr (u, g @ g', r5)"
    "same P h (g @ g') (TObject c) (cell_value (h ! a)) u" by blast
  let ?g = "(g @ g') @ [\<lparr>cell_class = c, cell_value = u\<rparr>]"
  have "same P h ?g (TPointer t) (VPointer (Some a)) (VPointer (Some (length (g @ g'))))"
    using new_object_same [OF u(2)] assms(3,4,5) by (intro same_polymorphic [where base = base]) simp_all
  moreover have created: "(case found_class P (by_name (types P) name) of
          Some type \<Rightarrow> read_registered P (deserialize P R k) base type name g sc r4
        | None \<Rightarrow> read_unregistered P (deserialize P R k) base name g sc r4) = Inr (length (g @ g'), ?g, r5)"
    unfolding create using u(1) by (simp add: with_path_def new_object_def)
  have "deserialize P R (Suc k) (TPointer t) old g sc r = Inr (VPointer (Some (length (g @ g'))), ?g, r')"
    using p(1,2) s u(1) assms(3)
      created by (simp add: deserialize_at read_pointer_def read_polymorphic_def)
  ultimately show "\<exists>u g'. deserialize P R (Suc k) (TPointer t) old g sc r = Inr (u, g @ g', r') \<and>
      same P h (g @ g') (TPointer t) (VPointer (Some a)) u"
    by (intro exI [of _ "VPointer (Some (length (g @ g')))"] exI [of _ "g' @ [\<lparr>cell_class = c, cell_value = u\<rparr>]"]) simp
qed

lemma reads_wrapped:
  assumes "reads_within P R sees h N t v n" "shaped P t (default_value P t)"
    "\<And>k old g sc r. deserialize P R (Suc k) t' old g sc r = deserialize P R k t (default_value P t) g sc r"
    "\<And>h' u. same P h h' t v u \<Longrightarrow> same P h h' t' v u"
  shows "\<exists>N. reads_within P R sees h N t' v n"
proof (rule reads_SucI [of N])
  fix k r r' old g sc assume "N \<le> k" "sees r n r'"
  from reads_withinD [OF assms(1) this assms(2)]
  show "\<exists>u g'. deserialize P R (Suc k) t' old g sc r = Inr (u, g @ g', r') \<and> same P h (g @ g') t' v u"
    using assms(3,4) by metis
qed

lemma reads_sequence:
  assumes "list_all2 (reads_within P R sees h N t) vs ns" "fills P h t (sequence_add s) vs" "vs \<noteq> [] \<Longrightarrow> shaped P t (default_value P t)"
  shows "\<exists>N. reads_within P R sees h N (TSequence s t) (VList vs) (NArray ns)"
proof (rule reads_SucI [of "max N (Suc (length ns))"])
  fix k r r' old g sc assume k: "max N (Suc (length ns)) \<le> k" and r: "sees r (NArray ns) r'"
  obtain hint r1 where r1: "begin_array_in R r = Inr (hint, r1)" "elements r1 ns r'" using array_sees [OF r] by blast
  have "\<exists>us g' r2. read_elements R (deserialize P R k t (default_value P t)) (sequence_add s) k 0 [] g sc r1 =
      Inr (foldl (sequence_add s) [] us, g @ g', r2) \<and> end_array_in R r2 = Inr r' \<and> list_all2 (same P h (g @ g') t) vs us"
  proof (cases "vs = []")
    case True
    with assms(1) r1(2) k elements_Nil [of r1 r'] show ?thesis by (cases k) force+
  next
    case False
    with assms(3) read_elements_all [OF assms(1) r1(2)] k show ?thesis by auto
  qed
  then obtain us g' r2 where us: "read_elements R (deserialize P R k t (default_value P t)) (sequence_add s) k 0 [] g sc r1 =
      Inr (foldl (sequence_add s) [] us, g @ g', r2)" "end_array_in R r2 = Inr r'" "list_all2 (same P h (g @ g') t) vs us"
    by blast
  moreover from us(3) assms(2) have "foldl (sequence_add s) [] us = us" by (auto simp: fills_def)
  ultimately have "deserialize P R (Suc k) (TSequence s t) old g sc r = Inr (VList us, g @ g', r')"
    using r1(1) by (simp add: deserialize_at read_sequence_def)
  with same_sequence [OF us(3)]
  show "\<exists>u g'. deserialize P R (Suc k) (TSequence s t) old g sc r = Inr (u, g @ g', r') \<and>
      same P h (g @ g') (TSequence s t) (VList vs) u" by blast
qed

lemma reads_fixed_range:
  assumes "list_all2 (reads_within P R sees h N t) vs ns" "length vs = m"
  shows "\<exists>N. reads_within P R sees h N (TFixedRange m t) (VList vs) (NArray ns)"
proof (rule reads_SucI [of "max N (Suc (length ns))"])
  fix k r r' old g sc
  assume k: "max N (Suc (length ns)) \<le> k" and r: "sees r (NArray ns) r'" and old: "shaped P (TFixedRange m t) old"
  obtain cur where cur: "old = VList cur" "length cur = m" "\<And>v. v \<in> set cur \<Longrightarrow> shaped P t v"
    using old by (auto simp: shaped_simps)
  obtain hint r1 where r1: "begin_array_in R r = Inr (hint, r1)" "elements r1 ns r'" using array_sees [OF r] by blast
  have "\<exists>us g' r2. read_in_place R (deserialize P R k) t k 0 cur g sc r1 = Inr (length cur, take 0 cur @ us, g @ g', r2) \<and>
      end_array_in R r2 = Inr r' \<and> list_all2 (same P h (g @ g') t) vs us"
    by (rule read_in_place_all [OF assms(1) r1(2)]) (use cur assms(2) k in auto)
  then obtain us g' r2 where us: "read_in_place R (deserialize P R k) t k 0 cur g sc r1 = Inr (m, us, g @ g', r2)"
    "end_array_in R r2 = Inr r'" "list_all2 (same P h (g @ g') t) vs us" using cur(2) by auto
  then have "deserialize P R (Suc k) (TFixedRange m t) old g sc r = Inr (VList us, g @ g', r')"
    using r1(1) cur by (simp add: deserialize_at read_fixed_range_def items_in_def)
  with same_fixed_range [OF us(3)]
  show "\<exists>u g'. deserialize P R (Suc k) (TFixedRange m t) old g sc r = Inr (u, g @ g', r') \<and>
      same P h (g @ g') (TFixedRange m t) (VList vs) u" by blast
qed

lemma read_tuple_all:
  assumes "length vs = length ts" "length ns = length ts" "length cur = length ts" "sees r (NArray ns) r'"
    "\<And>j. j < length ts \<Longrightarrow> reads_within P R sees h N (ts ! j) (vs ! j) (ns ! j)"
    "\<And>j. j < length ts \<Longrightarrow> shaped P (ts ! j) (cur ! j)" "N \<le> K"
  shows "\<exists>us g'. read_tuple R (deserialize P R K) ts cur g sc r = Inr (VList us, g @ g', r') \<and>
    length us = length ts \<and> (\<forall>j<length ts. same P h (g @ g') (ts ! j) (vs ! j) (us ! j))"
proof -
  obtain hint r1 where r1: "begin_array_in R r = Inr (hint, r1)" "elements r1 ns r'" using array_sees [OF assms(4)] by blast
  obtain us g' r2 where us: "read_parts R (deserialize P R K) (length ts) 0 ts cur g sc r1 = Inr (us, g @ g', r2)" "elements r2 [] r'"
    "length us = length ts" "\<forall>j<length ts. same P h (g @ g') (ts ! j) (vs ! j) (us ! j)"
    using read_parts_all [OF assms(1,2,3) r1(2) assms(5,6,7)] by blast
  obtain r3 where "next_element R r2 = Inr (False, r3)" "end_array_in R r3 = Inr r'" using elements_Nil [OF us(2)] by blast
  with r1(1) us show ?thesis by (auto simp: read_tuple_def)
qed

lemma reads_tuple:
  assumes "length vs = length ts" "length ns = length ts"
    "\<And>j. j < length ts \<Longrightarrow> reads_within P R sees h N (ts ! j) (vs ! j) (ns ! j)"
  shows "\<exists>N. reads_within P R sees h N (TTuple ts) (VList vs) (NArray ns)"
proof (rule reads_SucI [of N])
  fix k r r' old g sc assume k: "N \<le> k" and r: "sees r (NArray ns) r'" and old: "shaped P (TTuple ts) old"
  obtain cur where cur: "old = VList cur" "length cur = length ts" "\<And>j. j < length ts \<Longrightarrow> shaped P (ts ! j) (cur ! j)"
    using old by (auto simp: shaped_simps)
  obtain us g' where "read_tuple R (deserialize P R k) ts cur g sc r = Inr (VList us, g @ g', r')" "length us = length ts"
    "\<forall>j<length ts. same P h (g @ g') (ts ! j) (vs ! j) (us ! j)"
    using read_tuple_all [OF assms(1,2) cur(2) r assms(3) cur(3) k] by blast
  with cur(1) assms(1) show "\<exists>u g'. deserialize P R (Suc k) (TTuple ts) old g sc r = Inr (u, g @ g', r') \<and>
      same P h (g @ g') (TTuple ts) (VList vs) u"
    by (auto simp: deserialize_at items_in_def intro!: exI same_tuple)
qed

lemma reads_complex:
  assumes "reads_within P R sees h N t re m" "reads_within P R sees h N t im n" "shaped P t (default_value P t)"
  shows "\<exists>N. reads_within P R sees h N (TComplex t) (VList [re, im]) (NArray [m, n])"
proof (rule reads_SucI [of N])
  fix k r r' old g sc assume k: "N \<le> k" and r: "sees r (NArray [m, n]) r'"
  have "\<exists>us g'. read_tuple R (deserialize P R k) [t, t] [default_value P t, default_value P t] g sc r = Inr (VList us, g @ g', r') \<and>
      length us = length [t, t] \<and> (\<forall>j<length [t, t]. same P h (g @ g') ([t, t] ! j) ([re, im] ! j) (us ! j))"
    by (rule read_tuple_all [OF _ _ _ r]) (use assms k in \<open>auto simp: less_Suc_eq\<close>)
  then obtain us g' where us: "read_tuple R (deserialize P R k) [t, t] [default_value P t, default_value P t] g sc r = Inr (VList us, g @ g', r')"
    "length us = 2" "same P h (g @ g') t re (us ! 0)" "same P h (g @ g') t im (us ! 1)"
    by (auto simp: less_Suc_eq numeral_2_eq_2)
  then have "list_all2 (same P h (g @ g') t) [re, im] us"
    by (auto simp: list_all2_conv_all_nth less_Suc_eq numeral_2_eq_2)
  with us(1) show "\<exists>u g'. deserialize P R (Suc k) (TComplex t) old g sc r = Inr (u, g @ g', r') \<and>
      same P h (g @ g') (TComplex t) (VList [re, im]) u"
    by (auto simp: deserialize_at intro!: exI same_complex)
qed

lemma reads_variant:
  assumes "reads_within P R sees h N (ts ! i) v n" "shaped P (ts ! i) (default_value P (ts ! i))" "i < length ts" "i < 2 ^ 64"
  shows "\<exists>N. reads_within P R sees h N (TVariant ts) (VVariant (Some (i, v))) (NArray [NUint (word_of_nat i), n])"
proof (rule reads_SucI [of N])
  fix k r r' old g sc assume k: "N \<le> k" and r: "sees r (NArray [NUint (word_of_nat i), n]) r'"
  obtain hint r1 r2 r3 r4 r5 r6 where s: "begin_array_in R r = Inr (hint, r1)" "next_element R r1 = Inr (True, r2)"
    "sees r2 (NUint (word_of_nat i)) r3" "next_element R r3 = Inr (True, r4)" "sees r4 n r5"
    "next_element R r5 = Inr (False, r6)" "end_array_in R r6 = Inr r'" by (rule pair_sees [OF r])
  have "unat (word_of_nat i :: 64 word) = i" using assms(4) by (simp add: unat_of_nat)
  moreover have "read_uint R r2 = Inr (word_of_nat i, r3)"
    using uint_sees [OF s(3)] by (auto simp: uint64_uint)
  moreover obtain u g' where u: "deserialize P R k (ts ! i) (default_value P (ts ! i)) g (sc\<lparr>sc_path := sc_path sc @ [index_segment 1]\<rparr>) r4 =
      Inr (u, g @ g', r5)" "same P h (g @ g') (ts ! i) v u"
    using reads_withinD [OF assms(1) k s(5) assms(2)] by blast
  ultimately have "deserialize P R (Suc k) (TVariant ts) old g sc r = Inr (VVariant (Some (i, u)), g @ g', r')"
    using s assms(3) by (simp add: deserialize_at read_variant_def with_index_def)
  with same_variant [where h = h, OF assms(3) u(2)]
  show "\<exists>u g'. deserialize P R (Suc k) (TVariant ts) old g sc r = Inr (u, g @ g', r') \<and>
      same P h (g @ g') (TVariant ts) (VVariant (Some (i, v))) u" by blast
qed

lemma zip_fst_snd: "length ls = length us \<Longrightarrow> map fst (zip ls us) = ls \<and> map snd (zip ls us) = us"
  by simp

lemma reads_keyed:
  assumes "map_as_object m kt" "list_all2 (reads_within P R sees h N t) (map snd es) ns"
    "\<forall>e\<in>set es. decode_key kt (encode_key kt (fst e)) = Inr (fst e)" "fills_map P h kt t (map_add m) es"
    "es \<noteq> [] \<Longrightarrow> shaped P t (default_value P t)"
  shows "\<exists>N. reads_within P R sees h N (TMap m kt t) (VMap es) (NObject (zip (map (encode_key kt \<circ> fst) es) ns))"
proof (rule reads_SucI [of "max N (Suc (length es))"])
  fix k r r' old g sc
  assume k: "max N (Suc (length es)) \<le> k" and r: "sees r (NObject (zip (map (encode_key kt \<circ> fst) es) ns)) r'"
  obtain hint r1 where r1: "begin_object_in R r = Inr (hint, r1)" "members r1 (zip (map (encode_key kt \<circ> fst) es) ns) r'"
    using object_sees [OF r] by blast
  have "\<exists>us g' r2. read_keyed R (deserialize P R k t (default_value P t)) kt m k [] g sc r1 =
      Inr (foldl (\<lambda>a (k, v). map_add m a k v) [] (zip (map fst es) us), g @ g', r2) \<and>
    end_object_in R r2 = Inr r' \<and> list_all2 (same P h (g @ g') t) (map snd es) us"
  proof (cases "es = []")
    case True
    with assms(2) r1(2) k members_Nil [of r1 r'] show ?thesis by (cases k) force+
  next
    case False
    with assms(5) read_keyed_all [OF assms(2) r1(2) _ _ _ assms(3)] k show ?thesis by auto
  qed
  then obtain us g' r2 where us: "read_keyed R (deserialize P R k t (default_value P t)) kt m k [] g sc r1 =
      Inr (foldl (\<lambda>a (k, v). map_add m a k v) [] (zip (map fst es) us), g @ g', r2)"
    "end_object_in R r2 = Inr r'" "list_all2 (same P h (g @ g') t) (map snd es) us" by blast
  have "length us = length es" using us(3) by (auto dest: list_all2_lengthD)
  then have parts: "map fst (zip (map fst es) us) = map fst es" "map snd (zip (map fst es) us) = us" by simp_all
  have "flat kt" using assms(1) by (cases kt) (simp_all add: map_as_object_def key_codec_def)
  then have keys: "list_all2 (same P h (g @ g') kt) (map fst es) (map fst es)"
    by (simp add: list_all2_conv_all_nth same_flat)
  have "foldl (\<lambda>a (k, v). map_add m a k v) [] (zip (map fst es) us) = zip (map fst es) us"
    using assms(4) keys us(3) unfolding fills_map_def by (metis parts)
  then have "deserialize P R (Suc k) (TMap m kt t) old g sc r = Inr (VMap (zip (map fst es) us), g @ g', r')"
    using r1(1) us(1,2) assms(1) by (simp add: deserialize_at read_map_def)
  moreover have "same P h (g @ g') (TMap m kt t) (VMap es) (VMap (zip (map fst es) us))"
    using keys us(3) parts by (intro same_map) simp_all
  ultimately show "\<exists>u g'. deserialize P R (Suc k) (TMap m kt t) old g sc r = Inr (u, g @ g', r') \<and>
      same P h (g @ g') (TMap m kt t) (VMap es) u" by blast
qed

lemma reads_pairs:
  assumes "\<not> map_as_object m kt" "list_all2 (reads_within P R sees h N kt) (map fst es) ks"
    "list_all2 (reads_within P R sees h N t) (map snd es) ns" "fills_map P h kt t (map_add m) es"
    "es \<noteq> [] \<Longrightarrow> shaped P kt (default_value P kt) \<and> shaped P t (default_value P t)"
  shows "\<exists>N. reads_within P R sees h N (TMap m kt t) (VMap es) (NArray (map (\<lambda>(k, n). NArray [k, n]) (zip ks ns)))"
proof (rule reads_SucI [of "max N (Suc (length es))"])
  fix k r r' old g sc
  assume k: "max N (Suc (length es)) \<le> k" and r: "sees r (NArray (map (\<lambda>(k, n). NArray [k, n]) (zip ks ns))) r'"
  obtain hint r1 where r1: "begin_array_in R r = Inr (hint, r1)" "elements r1 (map (\<lambda>(k, n). NArray [k, n]) (zip ks ns)) r'"
    using array_sees [OF r] by blast
  have "\<exists>ls us g' r2. read_pairs R (deserialize P R k kt (default_value P kt)) (deserialize P R k t (default_value P t)) m k 0 [] g sc r1 =
      Inr (foldl (\<lambda>a (k, v). map_add m a k v) [] (zip ls us), g @ g', r2) \<and> end_array_in R r2 = Inr r' \<and>
      list_all2 (same P h (g @ g') kt) (map fst es) ls \<and> list_all2 (same P h (g @ g') t) (map snd es) us"
  proof (cases "es = []")
    case True
    with assms(2,3) r1(2) k elements_Nil [of r1 r'] show ?thesis by (cases k) force+
  next
    case False
    with assms(5) read_pairs_all [OF assms(2,3) r1(2)] k show ?thesis by auto
  qed
  then obtain ls us g' r2 where us: "read_pairs R (deserialize P R k kt (default_value P kt)) (deserialize P R k t (default_value P t)) m k 0 [] g sc r1 =
      Inr (foldl (\<lambda>a (k, v). map_add m a k v) [] (zip ls us), g @ g', r2)" "end_array_in R r2 = Inr r'"
    "list_all2 (same P h (g @ g') kt) (map fst es) ls" "list_all2 (same P h (g @ g') t) (map snd es) us" by blast
  have "length ls = length us" using us(3,4) by (auto dest!: list_all2_lengthD)
  then have parts: "map fst (zip ls us) = ls" "map snd (zip ls us) = us" by simp_all
  have "foldl (\<lambda>a (k, v). map_add m a k v) [] (zip ls us) = zip ls us"
    using assms(4) us(3,4) unfolding fills_map_def by (metis parts)
  then have "deserialize P R (Suc k) (TMap m kt t) old g sc r = Inr (VMap (zip ls us), g @ g', r')"
    using r1(1) us(1,2) assms(1) by (simp add: deserialize_at read_map_def)
  moreover have "same P h (g @ g') (TMap m kt t) (VMap es) (VMap (zip ls us))"
    using us(3,4) parts by (intro same_map) simp_all
  ultimately show "\<exists>u g'. deserialize P R (Suc k) (TMap m kt t) old g sc r = Inr (u, g @ g', r') \<and>
      same P h (g @ g') (TMap m kt t) (VMap es) u" by blast
qed

lemma reads_class:
  assumes "classes P c = Some d" "check_object_contract d" "length vs = field_count d" "length ns = field_count d"
    "\<forall>j<field_count d. \<not> transient (for_each_field d ! j) \<longrightarrow>
       reads_within P R sees h N (field_type (for_each_field d ! j)) (vs ! j) (ns ! j)"
  shows "\<exists>N. reads_within P R sees h N (TObject c) (VObject vs) (NObject (object_entries d ns))"
proof (rule reads_SucI [of "max N (Suc (field_count d))"])
  fix k r r' old g sc
  assume k: "max N (Suc (field_count d)) \<le> k" and r: "sees r (NObject (object_entries d ns)) r'" and old: "shaped P (TObject c) old"
  obtain cur where cur: "old = VObject cur" "length cur = field_count d"
    "\<forall>j<field_count d. \<not> transient (for_each_field d ! j) \<longrightarrow> shaped P (field_type (for_each_field d ! j)) (cur ! j)"
    using old assms(1) by (auto simp: shaped_simps)
  obtain us g' where us: "read_object R (deserialize P R k) k d cur g sc r = Inr (VObject us, g @ g', r')" "length us = field_count d"
    "\<forall>j<field_count d. \<not> transient (for_each_field d ! j) \<longrightarrow>
       same P h (g @ g') (field_type (for_each_field d ! j)) (vs ! j) (us ! j)"
    using read_object_all [where K = k and g = g and sc = sc, OF r assms(4,2,5) cur(3,2)] k by auto
  have "same P h (g @ g') (TObject c) (VObject vs) (VObject us)"
    using same_class [OF assms(1,3) us(2)] us(3) by blast
  moreover have "deserialize P R (Suc k) (TObject c) old g sc r = Inr (VObject us, g @ g', r')"
    using us(1) cur(1) assms(1) by (simp add: deserialize_at items_in_def)
  ultimately show "\<exists>u g'. deserialize P R (Suc k) (TObject c) old g sc r = Inr (u, g @ g', r') \<and>
      same P h (g @ g') (TObject c) (VObject vs) u" by blast
qed

lemma reads_adapter:
  assumes "reads_within P R sees h N (TSequence s t) (VList vs) n" "fills P h t (adapter_push a) vs"
  shows "\<exists>N. reads_within P R sees h N (TAdapter a (TSequence s t)) (VList vs) n"
proof (rule reads_SucI [of N])
  fix k r r' old g sc assume k: "N \<le> k" and r: "sees r n r'"
  obtain u g' where u: "deserialize P R k (TSequence s t) (default_value P (TSequence s t)) g sc r = Inr (u, g @ g', r')"
    "same P h (g @ g') (TSequence s t) (VList vs) u"
    using reads_withinD [OF assms(1) k r] by (meson in_place.simps shaped_replaced)
  from u(2) obtain us where us: "u = VList us" "list_all2 (same P h (g @ g') t) vs us"
    by (cases rule: same.cases) auto
  with assms(2) have "foldl (adapter_push a) [] us = us" by (auto simp: fills_def)
  with u us(1) show "\<exists>u g'. deserialize P R (Suc k) (TAdapter a (TSequence s t)) old g sc r = Inr (u, g @ g', r') \<and>
      same P h (g @ g') (TAdapter a (TSequence s t)) (VList vs) u"
    by (auto simp: deserialize_at read_adapter_def items_in_def intro!: exI same_adapter)
qed

lemma reads_list2:
  assumes "list_all2 (\<lambda>v n. stands P h A t v n \<and> (\<exists>N. reads_within P R sees h N t v n)) vs ns" "proper_program P"
  shows "\<exists>N. list_all2 (reads_within P R sees h N t) vs ns" "vs \<noteq> [] \<Longrightarrow> shaped P t (default_value P t)"
proof -
  show "\<exists>N. list_all2 (reads_within P R sees h N t) vs ns"
    using assms(1) by (intro reads_within_list) (auto elim: list_all2_mono)
  show "vs \<noteq> [] \<Longrightarrow> shaped P t (default_value P t)"
    using assms by (cases vs) (auto simp: list_all2_Cons1 dest: default_shaped)
qed

lemma deserialize_stands: "stands P h A t v n \<Longrightarrow> proper_program P \<Longrightarrow> \<exists>N. reads_within P R sees h N t v n"
proof (induction rule: stands.induct)
  case (stands_bool A b)
  show ?case by (rule exI, rule reads_flat) (auto simp: deserialize_at give_def bool_sees)
next
  case (stands_char c t A)
  then show ?case
    by (intro exI [of _ 1] reads_flat) (auto simp: deserialize_at give_def read_unit)
next
  case (stands_byte A b)
  show ?case by (rule exI, rule reads_flat) (auto simp: deserialize_at give_def dest!: read_byte_node)
next
  case (stands_integer t i A)
  then show ?case by (intro exI [of _ 1] reads_flat) (auto simp: deserialize_at give_def read_integer_node)
next
  case (stands_float A x)
  show ?case by (rule exI, rule reads_flat) (auto simp: deserialize_at give_def float32_sees)
next
  case (stands_double A x)
  show ?case by (rule exI, rule reads_flat) (auto simp: deserialize_at give_def float_sees)
next
  case (stands_enumerator e i A)
  then show ?case by (intro exI [of _ 1] reads_flat) (auto simp: deserialize_at give_def read_enumerator)
next
  case (stands_enum_number e i A)
  then show ?case by (intro exI [of _ 1] reads_flat) (auto simp: deserialize_at give_def read_enum_number)
next
  case (stands_null A)
  show ?case by (rule exI, rule reads_flat) (auto simp: deserialize_at null_sees)
next
  case (stands_text c t s A)
  then show ?case
    by (intro exI [of _ 1] reads_flat) (auto simp: deserialize_at give_def read_text_def readable_text_converts dest!: string_sees)
next
  case (stands_char_array c t s n A)
  then show ?case
    by (intro exI [of _ 1] reads_flat)
      (auto simp: deserialize_at give_def read_char_array_def read_text_def readable_text_converts dest!: string_sees intro!: exI [of _ t])
next
  case (stands_none A t)
  show ?case
    by (rule reads_SucI [of 0], elim peek_null)
      (auto simp: deserialize_at read_optional_def intro!: exI [of _ "[]"] same_none)
next
  case (stands_some A t v n)
  then show ?case using reads_some default_shaped by blast
next
  case (stands_null_pointer A t)
  show ?case
    by (rule reads_SucI [of 0], elim peek_null)
      (auto simp: deserialize_at read_pointer_def intro!: exI [of _ "[]"] same_null)
next
  case (stands_pointer a A t n)
  then show ?case using reads_pointer default_shaped by blast
next
  case (stands_registered a A t base d n)
  let ?c = "cell_class (h ! a)"
  have d: "classes P ?c = Some d" "type_id (class_info d) = ?c" "found_class P (by_name (types P) (schema_name (class_info d))) = Some d"
    using stands_registered.hyps(4) by (auto simp: registered_def found_class_def)
  have "shaped P (TObject ?c) (VObject (default_fields (class_info d)))"
    using stands_registered.prems d(1) by (simp add: proper_program_def)
  moreover have "(case found_class P (by_name (types P) (schema_name (class_info d))) of
          Some type \<Rightarrow> read_registered P (deserialize P R k) base type (schema_name (class_info d)) g sc r
        | None \<Rightarrow> read_unregistered P (deserialize P R k) base (schema_name (class_info d)) g sc r) =
        and_then (with_path ''value'' (\<lambda>sc. deserialize P R k (TObject ?c) (VObject (default_fields (class_info d))) g sc r) sc)
          (\<lambda>(v, h, r). let (a, h) = new_object ?c v h in Inr (a, h, r))" for k g sc r
    using stands_registered.hyps(4,5) d by (simp add: registered_def read_registered_def)
  ultimately show ?case
    using reads_polymorphic stands_registered by blast
next
  case (stands_unregistered a A t base n)
  have base: "found_class P (by_name (types P) (schema_name base)) = None" "reflectable base" "default_constructible base"
    using stands_unregistered.hyps(4) by (auto simp: unregistered_base_def)
  obtain d where d: "classes P (type_id base) = Some d" "class_info d = base"
    using stands_unregistered.hyps(3) stands_unregistered.prems
    by (fastforce simp: polymorphic_class_def proper_program_def split: ty.splits option.splits if_splits)
  have "shaped P (TObject (type_id base)) (VObject (default_fields base))"
    using stands_unregistered.prems d by (auto simp: proper_program_def)
  moreover have "(case found_class P (by_name (types P) (schema_name base)) of
          Some type \<Rightarrow> read_registered P (deserialize P R k) base type (schema_name base) g sc r
        | None \<Rightarrow> read_unregistered P (deserialize P R k) base (schema_name base) g sc r) =
        and_then (with_path ''value'' (\<lambda>sc. deserialize P R k (TObject (type_id base)) (VObject (default_fields base)) g sc r) sc)
          (\<lambda>(v, h, r). let (a, h) = new_object (type_id base) v h in Inr (a, h, r))" for k g sc r
    using base by (simp add: read_unregistered_def)
  ultimately show ?case
    using reads_polymorphic stands_unregistered by blast
next
  case (stands_variant i ts A v n)
  then show ?case using reads_variant default_shaped by blast
next
  case (stands_complex A t re m im n)
  then obtain N M where "reads_within P R sees h N t re m" "reads_within P R sees h M t im n" by blast
  then have "reads_within P R sees h (max N M) t re m" "reads_within P R sees h (max N M) t im n"
    by (auto intro: reads_within_mono)
  then show ?case using reads_complex default_shaped stands_complex.hyps(1) stands_complex.prems by blast
next
  case (stands_bitset bs n A)
  then show ?case by (intro exI [of _ 1] reads_flat) (auto simp: deserialize_at give_def read_bits)
next
  case (stands_duration A t v n)
  then show ?case using reads_wrapped [where t = t and t' = "TDuration t"] default_shaped same_duration
    by (auto simp: deserialize_at)
next
  case (stands_time_point A t v n)
  then show ?case using reads_wrapped [where t = t and t' = "TTimePoint t"] default_shaped same_time_point
    by (auto simp: deserialize_at)
next
  case (stands_path A s)
  show ?case by (rule exI, rule reads_flat) (auto simp: deserialize_at give_def string_sees)
next
  case (stands_adapter A s t vs n a)
  then show ?case using reads_adapter by blast
next
  case (stands_atomic A t v n)
  then show ?case using reads_wrapped [where t = t and t' = "TAtomic t"] default_shaped same_atomic
    by (auto simp: deserialize_at)
next
  case (stands_bytes extent bs A)
  then show ?case
    by (intro exI [of _ 1] reads_flat) (auto simp: deserialize_at give_def read_blob_def bytes_sees split: option.split)
next
  case (stands_sequence A t vs ns s)
  then have "list_all2 (\<lambda>v n. stands P h A t v n \<and> (\<exists>N. reads_within P R sees h N t v n)) vs ns"
    by (auto elim: list_all2_mono)
  from reads_list2 [OF this stands_sequence.prems] reads_sequence stands_sequence.hyps show ?case by blast
next
  case (stands_fixed_range A t vs ns k)
  then have "list_all2 (\<lambda>v n. stands P h A t v n \<and> (\<exists>N. reads_within P R sees h N t v n)) vs ns"
    by (auto elim: list_all2_mono)
  from reads_list2 [OF this stands_fixed_range.prems] reads_fixed_range stands_fixed_range.hyps show ?case by blast
next
  case (stands_keyed m kt A t es ns ks)
  then have "list_all2 (\<lambda>v n. stands P h A t v n \<and> (\<exists>N. reads_within P R sees h N t v n)) (map snd es) ns"
    by (auto elim: list_all2_mono)
  from reads_list2 [OF this stands_keyed.prems] obtain N where
    "list_all2 (reads_within P R sees h N t) (map snd es) ns" "es \<noteq> [] \<Longrightarrow> shaped P t (default_value P t)" by auto
  moreover have "\<forall>e\<in>set es. decode_key kt (encode_key kt (fst e)) = Inr (fst e)" "ks = map (encode_key kt \<circ> fst) es"
    using key_texts_decoded [OF stands_keyed.hyps(2)] key_texts_encoded [OF stands_keyed.hyps(2)] by simp_all
  ultimately show ?case using reads_keyed stands_keyed.hyps(1,3) by blast
next
  case (stands_pairs m kt A es ks t ns)
  then have keys: "list_all2 (\<lambda>v n. stands P h A kt v n \<and> (\<exists>N. reads_within P R sees h N kt v n)) (map fst es) ks"
    and vals: "list_all2 (\<lambda>v n. stands P h A t v n \<and> (\<exists>N. reads_within P R sees h N t v n)) (map snd es) ns"
    by (auto elim: list_all2_mono)
  obtain N M where "list_all2 (reads_within P R sees h N kt) (map fst es) ks" "list_all2 (reads_within P R sees h M t) (map snd es) ns"
    using reads_list2 [OF keys stands_pairs.prems] reads_list2 [OF vals stands_pairs.prems] by blast
  then have "list_all2 (reads_within P R sees h (max N M) kt) (map fst es) ks" "list_all2 (reads_within P R sees h (max N M) t) (map snd es) ns"
    by (auto intro: reads_within_mono elim!: list_all2_mono)
  moreover have "es \<noteq> [] \<Longrightarrow> shaped P kt (default_value P kt) \<and> shaped P t (default_value P t)"
    using reads_list2(2) [OF keys stands_pairs.prems] reads_list2(2) [OF vals stands_pairs.prems] by simp
  ultimately show ?case using reads_pairs stands_pairs.hyps(1,2) by blast
next
  case (stands_tuple vs ts ns A)
  have "\<exists>N. \<forall>i<length ts. True \<longrightarrow> reads_within P R sees h N (ts ! i) (vs ! i) (ns ! i)"
    using stands_tuple by (intro reads_within_all) blast
  then obtain N where "\<forall>i<length ts. reads_within P R sees h N (ts ! i) (vs ! i) (ns ! i)" by blast
  with stands_tuple.hyps(1,2) show ?case using reads_tuple by blast
next
  case (stands_class c d vs ns A)
  have "\<exists>N. \<forall>j<field_count d. \<not> transient (for_each_field d ! j) \<longrightarrow>
       reads_within P R sees h N (field_type (for_each_field d ! j)) (vs ! j) (ns ! j)"
    using stands_class by (intro reads_within_all) blast
  with stands_class.hyps show ?case using reads_class by blast
qed

end

text \<open>
  The two halves together: a value of the program survives any format. Writing makes the calls of
  the value it stands for, the format shows that value to the reader it opens on the output, and
  with enough fuel reading it returns the same value and leaves nothing over.
\<close>

context format
begin

lemma serialize_round_trip:
  assumes "stands P h [] t v n" "okay n" "proper_program P" "shaped P t old"
  shows "\<exists>w. serialize P W h t v outermost fresh = Inr w \<and> complete w \<and>
    (\<exists>N. \<forall>k\<ge>N. \<exists>u g' r. deserialize P R k t old g outermost (open_reader w) = Inr (u, g @ g', r) \<and>
       finish r = Inr r \<and> same P h (g @ g') t v u)"
proof -
  obtain w r where w: "write_node W n fresh = Inr w" "complete w" "sees (open_reader w) n r" "finish r = Inr r"
    using written [OF assms(2)] by blast
  have "serialize P W h t v outermost fresh = Inr w"
    using written_asD [OF serialize_stands [OF assms(1)] _ w(1)] by (simp add: outermost_def)
  moreover obtain N where "reads_within P R sees h N t v n"
    using deserialize_stands [OF assms(1,3)] by blast
  ultimately show ?thesis
    using w(2,3,4) assms(4) unfolding reads_within_def by metis
qed

end

end
