(* ===== verification/Documents.thy ===== *)
theory Documents
  imports Binary_Safety Json_Backend Serial_Round_Trip
begin

text \<open>
  Whole documents: \<open>to_bytes\<close> and \<open>from_bytes\<close> (\<open>include/reflgen/binary.h\<close>), \<open>to_string\<close> and
  \<open>from_string\<close> (\<open>include/reflgen/json.h\<close>), and the properties of the serialization layer over
  the two backends. The facts come from the interpretations \<open>binary\<close> and \<open>json\<close> of the format
  interface.
\<close>

section \<open>The functions\<close>

definition to_bytes :: "program \<Rightarrow> heap \<Rightarrow> ty \<Rightarrow> val \<Rightarrow> nat \<Rightarrow> serialization_error + byte list" where
  "to_bytes P h t v max_depth =
     and_then (serialize P binary_writer h t v outermost (bin_writer max_depth)) (\<lambda>w. Inr (bw_output w))"

definition from_bytes ::
  "program \<Rightarrow> nat \<Rightarrow> heap \<Rightarrow> ty \<Rightarrow> byte list \<Rightarrow> val \<Rightarrow> nat \<Rightarrow> serialization_error + (val \<times> heap)" where
  "from_bytes P fuel h t bytes old max_depth =
     and_then (deserialize P binary_reader fuel t old h outermost (bin_reader bytes max_depth)) (\<lambda>(v, h, r).
       and_then (call (bin_finish r) outermost) (\<lambda>r. Inr (v, h)))"

definition to_string :: "program \<Rightarrow> heap \<Rightarrow> ty \<Rightarrow> val \<Rightarrow> nat \<Rightarrow> nat \<Rightarrow> serialization_error + string" where
  "to_string P h t v indent max_depth =
     and_then (serialize P json_writer_ops h t v outermost (json_writer indent max_depth)) (\<lambda>w. Inr (jw_output w))"

definition from_string ::
  "program \<Rightarrow> nat \<Rightarrow> heap \<Rightarrow> ty \<Rightarrow> string \<Rightarrow> val \<Rightarrow> nat \<Rightarrow> serialization_error + (val \<times> heap)" where
  "from_string P fuel h t s old max_depth =
     and_then (deserialize P json_reader_ops fuel t old h outermost (json_reader s max_depth)) (\<lambda>(v, h, r).
       and_then (call (json_finish r) outermost) (\<lambda>r. Inr (v, h)))"

section \<open>Everything that is written is a document\<close>

text \<open>C5: whatever the value (text that is not UTF-8, numbers JSON has no notation for, cycles, any nesting), a
  \<open>to_string\<close> that returns has produced one JSON text in the sense of RFC 8259, nested no deeper than the
  limit. A container, class or pointer can fail on the way, but never leave a document cut short.\<close>

theorem to_string_is_json:
  "case to_string P h t v indent limit of Inl e \<Rightarrow> True | Inr s \<Rightarrow> accepts limit s"
proof (cases "to_string P h t v indent limit")
  case (Inr s)
  then obtain w where w: "serialize P json_writer_ops h t v outermost (json_writer indent limit) = Inr w" "s = jw_output w"
    by (auto simp: to_string_def)
  then obtain n where n: "write_node json_writer_ops n (json_writer indent limit) = Inr w"
    using serialize_one [of json_writer_ops "json_writer indent limit" P h t v outermost] by (auto simp: one_value_def)
  obtain x where "json_valid x" "json_depth x \<le> limit" "s = json_text x"
    using json_written [of limit n indent] n w(2) by (auto split: if_splits)
  then have "accepts limit s"
    unfolding accepts_iff by (intro exI [of _ "[]"] exI [of _ x]) simp
  with Inr show ?thesis by simp
qed simp

text \<open>C6: likewise a \<open>to_bytes\<close> that returns has produced the encoding of exactly one value of the data
  model, nested no deeper than the limit.\<close>

theorem to_bytes_is_value:
  "case to_bytes P h t v limit of Inl e \<Rightarrow> True | Inr bs \<Rightarrow> \<exists>n. bs = encode n \<and> depth n \<le> limit"
proof (cases "to_bytes P h t v limit")
  case (Inr bs)
  then obtain w where w: "serialize P binary_writer h t v outermost (bin_writer limit) = Inr w" "bs = bw_output w"
    by (auto simp: to_bytes_def)
  then obtain n where n: "write_node binary_writer n (bin_writer limit) = Inr w"
    using serialize_one [of binary_writer "bin_writer limit" P h t v outermost] by (auto simp: one_value_def)
  then have "bs = encode n \<and> depth n \<le> limit"
    using w(2) by (auto simp: bin_written split: if_splits)
  with Inr show ?thesis by auto
qed simp

section \<open>Round trips\<close>

lemma bytes_round_trip_lemma:
  assumes "stands P h [] t v n" "bin_okay limit n" "proper_program P" "shaped P t old"
  shows "\<exists>bs. to_bytes P h t v limit = Inr bs \<and>
    (\<exists>N. \<forall>k\<ge>N. \<exists>u g'. from_bytes P k g t bs old limit = Inr (u, g @ g') \<and> same P h (g @ g') t v u)"
proof -
  obtain w N where w: "serialize P binary_writer h t v outermost (bin_writer limit) = Inr w"
    "\<forall>k\<ge>N. \<exists>u g' r. deserialize P binary_reader k t old g outermost (bin_open limit w) = Inr (u, g @ g', r) \<and>
       bin_finish r = Inr r \<and> same P h (g @ g') t v u"
    using format.serialize_round_trip [OF binary.format_axioms assms] by blast
  have "\<exists>u g'. from_bytes P k g t (bw_output w) old limit = Inr (u, g @ g') \<and> same P h (g @ g') t v u" if "N \<le> k" for k
    using w(2) that by (fastforce simp: from_bytes_def bin_open_def)
  with w(1) show ?thesis by (auto simp: to_bytes_def)
qed

lemma string_round_trip_lemma:
  assumes "stands P h [] t v n" "json_okay limit n" "proper_program P" "shaped P t old"
  shows "\<exists>s. to_string P h t v indent limit = Inr s \<and>
    (\<exists>N. \<forall>k\<ge>N. \<exists>u g'. from_string P k g t s old limit = Inr (u, g @ g') \<and> same P h (g @ g') t v u)"
proof -
  obtain w N where w: "serialize P json_writer_ops h t v outermost (json_writer indent limit) = Inr w"
    "\<forall>k\<ge>N. \<exists>u g' r. deserialize P json_reader_ops k t old g outermost (json_open limit w) = Inr (u, g @ g', r) \<and>
       json_finish r = Inr r \<and> same P h (g @ g') t v u"
    using format.serialize_round_trip [OF json.format_axioms assms] by blast
  have "\<exists>u g'. from_string P k g t (jw_output w) old limit = Inr (u, g @ g') \<and> same P h (g @ g') t v u" if "N \<le> k" for k
    using w(2) that by (fastforce simp: from_string_def json_open_def)
  with w(1) show ?thesis by (auto simp: to_string_def)
qed

text \<open>C1: a value survives the binary format. If \<open>v\<close> stands for \<open>n\<close> and \<open>n\<close> is within the depth limit, then \<open>to_bytes\<close> returns, and
  \<open>from_bytes\<close> on its output returns an equal value, with new objects behind its pointers, for every fuel from some bound on. It
  does so over any old value of the right shape and consumes every byte. What stands for a node: integers in range; strings of one-byte characters,
  and of wider ones the units of code points, whose UTF-8 is the text; enumerators whose names are distinct; maps, as objects where the keys are
  strings, truth values, integers in range or enumerators, with the text of each as its key, else as arrays of pairs; polymorphic objects of registered
  classes; containers that hold what is inserted into them; and no cycle of pointers.\<close>

theorem bytes_round_trip:
  assumes "stands P h [] t v n" "bin_okay limit n" "proper_program P" "shaped P t old"
  shows "\<exists>bs. to_bytes P h t v limit = Inr bs \<and>
    (\<exists>N. \<forall>k\<ge>N. \<exists>u g'. from_bytes P k g t bs old limit = Inr (u, g @ g') \<and> same P h (g @ g') t v u)"
  using assms by (rule bytes_round_trip_lemma)

text \<open>C2: a value survives JSON, with any indentation, under the conditions of the binary format and where JSON has a notation for it: text,
  keys included, in UTF-8, and finite numbers. As there, \<open>to_string\<close> returns, and \<open>from_string\<close> returns an equal value for
  every fuel from some bound on, over any old value of the right shape.\<close>

theorem string_round_trip:
  assumes "stands P h [] t v n" "json_okay limit n" "proper_program P" "shaped P t old"
  shows "\<exists>s. to_string P h t v indent limit = Inr s \<and>
    (\<exists>N. \<forall>k\<ge>N. \<exists>u g'. from_string P k g t s old limit = Inr (u, g @ g') \<and> same P h (g @ g') t v u)"
  using assms by (rule string_round_trip_lemma)

section \<open>Documents that do not fit the type\<close>

lemma document_sees:
  assumes "bin_okay limit n"
  shows "\<exists>r. bin_sees (bin_reader (encode n) limit) n r \<and> bin_finish r = Inr r"
  using binary.written [OF assms] assms by (auto simp: bin_written bin_okay_def bin_open_def)

text \<open>C4: no integer is narrowed. An integer of a binary document that was written with any signedness and width is
  read as an integer type of any signedness and width up to 64 bits exactly when its value is one of the
  type; otherwise reading throws.\<close>

theorem integers_are_exact:
  assumes "node_integer n = Some i" "machine_type t"
  shows "if holds t i then from_bytes P (Suc k) h (TInteger t) (encode n) old limit = Inr (VInteger i, h)
    else \<exists>e. from_bytes P (Suc k) h (TInteger t) (encode n) old limit = Inl e"
proof -
  have "bin_okay limit n" using assms(1) by (cases n) (auto simp: bin_okay_def)
  from document_sees [OF this] obtain r where "bin_sees (bin_reader (encode n) limit) n r" "bin_finish r = Inr r" by blast
  with pull_reader.read_integer_exact [OF binary.pull_reader_axioms this(1) assms, of outermost] show ?thesis
    by (auto simp: from_bytes_def deserialize_at give_def)
qed

theorem integers_are_exact_witness:
  "from_bytes \<lparr>classes = Map.empty, types = empty_registry, rtti_name = id\<rparr> 1 []
     (TInteger \<lparr>integer_name = ''unsigned char'', integer_signed = False, integer_width = 8\<rparr>) (encode (NInt 200)) VNull 64 =
     Inr (VInteger 200, []) \<and>
   (\<exists>e. from_bytes \<lparr>classes = Map.empty, types = empty_registry, rtti_name = id\<rparr> 1 []
     (TInteger \<lparr>integer_name = ''unsigned char'', integer_signed = False, integer_width = 8\<rparr>) (encode (NUint 300)) VNull 64 = Inl e)"
  using integers_are_exact [of "NInt 200" 200 "\<lparr>integer_name = ''unsigned char'', integer_signed = False, integer_width = 8\<rparr>"
      "\<lparr>classes = Map.empty, types = empty_registry, rtti_name = id\<rparr>" 0 "[]" VNull 64]
    integers_are_exact [of "NUint 300" 300 "\<lparr>integer_name = ''unsigned char'', integer_signed = False, integer_width = 8\<rparr>"
      "\<lparr>classes = Map.empty, types = empty_registry, rtti_name = id\<rparr>" 0 "[]" VNull 64]
  by (simp add: machine_type_def holds_def lowest_def highest_def)

text \<open>C3: a binary document for a described class may be older or newer than the class. Its entries may come in
  any order, keys that no field has are skipped with their values, and fields that are not named keep what
  the object held; \<open>js\<close> are the fields that are named. Only a missing field that is \<open>required\<close> is an
  error: the first of them, reported at the path of its key.\<close>

theorem object_of_other_version:
  assumes "classes P c = Some d" "check_object_contract d" "proper_program P"
    and "filter (\<lambda>m. known_key d (fst m)) ms = map (\<lambda>j. (serialized_key (for_each_field d ! j), ns ! j)) js" "distinct js"
    and "\<forall>j\<in>set js. j < field_count d \<and> \<not> transient (for_each_field d ! j) \<and>
       stands P h [] (field_type (for_each_field d ! j)) (vs ! j) (ns ! j) \<and> shaped P (field_type (for_each_field d ! j)) (cur ! j)"
    and "length cur = field_count d" "bin_okay limit (NObject ms)"
  shows "\<exists>N. \<forall>k\<ge>N. if \<forall>j<field_count d. required (for_each_field d ! j) \<longrightarrow> j \<in> set js
    then \<exists>us g'. from_bytes P k g (TObject c) (encode (NObject ms)) (VObject cur) limit = Inr (VObject us, g @ g') \<and>
      length us = field_count d \<and>
      (\<forall>j<field_count d. if j \<in> set js then same P h (g @ g') (field_type (for_each_field d ! j)) (vs ! j) (us ! j)
         else us ! j = cur ! j)
    else \<exists>j<field_count d. required (for_each_field d ! j) \<and> j \<notin> set js \<and> (\<forall>i<j. required (for_each_field d ! i) \<longrightarrow> i \<in> set js) \<and>
      from_bytes P k g (TObject c) (encode (NObject ms)) (VObject cur) limit =
        Inl \<lparr>message = ''missing required field'', err_path = append_escaped [] (serialized_key (for_each_field d ! j))\<rparr>"
proof -
  have "\<exists>N. \<forall>j<field_count d. j \<in> set js \<longrightarrow>
      reads_within P binary_reader bin_sees h N (field_type (for_each_field d ! j)) (vs ! j) (ns ! j)"
    using assms(6) pull_reader.deserialize_stands [OF binary.pull_reader_axioms _ assms(3)]
    by (intro reads_within_all) blast
  then obtain N where N: "\<forall>j\<in>set js. j < field_count d \<and> \<not> transient (for_each_field d ! j) \<and>
      reads_within P binary_reader bin_sees h N (field_type (for_each_field d ! j)) (vs ! j) (ns ! j) \<and>
      shaped P (field_type (for_each_field d ! j)) (cur ! j)" using assms(6) by blast
  obtain r where r: "bin_sees (bin_reader (encode (NObject ms)) limit) (NObject ms) r" "bin_finish r = Inr r"
    using document_sees [OF assms(8)] by blast
  show ?thesis
  proof (intro exI [of _ "Suc (max N (Suc (length ms)))"] allI impI)
    fix k assume "Suc (max N (Suc (length ms))) \<le> k"
    then obtain K where k: "k = Suc K" "N \<le> K" "length ms < K" by (cases k) auto
    have from_bytes: "from_bytes P k g (TObject c) (encode (NObject ms)) (VObject cur) limit =
        and_then (read_object binary_reader (deserialize P binary_reader K) K d cur g outermost (bin_reader (encode (NObject ms)) limit))
          (\<lambda>(v, h, r). and_then (call (bin_finish r) outermost) (\<lambda>r. Inr (v, h)))"
      using assms(1) by (simp add: from_bytes_def k(1) deserialize_at items_in_def)
    show "if \<forall>j<field_count d. required (for_each_field d ! j) \<longrightarrow> j \<in> set js
      then \<exists>us g'. from_bytes P k g (TObject c) (encode (NObject ms)) (VObject cur) limit = Inr (VObject us, g @ g') \<and>
        length us = field_count d \<and>
        (\<forall>j<field_count d. if j \<in> set js then same P h (g @ g') (field_type (for_each_field d ! j)) (vs ! j) (us ! j)
           else us ! j = cur ! j)
      else \<exists>j<field_count d. required (for_each_field d ! j) \<and> j \<notin> set js \<and> (\<forall>i<j. required (for_each_field d ! i) \<longrightarrow> i \<in> set js) \<and>
        from_bytes P k g (TObject c) (encode (NObject ms)) (VObject cur) limit =
          Inl \<lparr>message = ''missing required field'', err_path = append_escaped [] (serialized_key (for_each_field d ! j))\<rparr>"
      using pull_reader.read_object_some [OF binary.pull_reader_axioms r(1) assms(4,5) N assms(2,7) k(2,3), of g outermost]
      unfolding from_bytes
      by (auto simp: r(2) with_child_def throw_at_def outermost_def current_path_def split: if_splits) 
  qed
qed

section \<open>A sample program\<close>

text \<open>
  A polymorphic class with a described base, one renamed and one transient field, registered
  under the name of its schema, and a vector of pointers to the base. The properties above are
  applied to it.
\<close>

definition int32_type :: integer_type where
  "int32_type = \<lparr>integer_name = ''int'', integer_signed = True, integer_width = 32\<rparr>"

definition id_field :: class_field where
  "id_field = \<lparr>field_name = ''id'', field_type = TInteger int32_type, serialized_name = None, transient = False, required = True\<rparr>"

definition name_field :: class_field where
  "name_field = \<lparr>field_name = ''name_'', field_type = TString Char_Type, serialized_name = Some ''name'', transient = False, required = False\<rparr>"

definition cache_field :: class_field where
  "cache_field = \<lparr>field_name = ''cache'', field_type = TInteger int32_type, serialized_name = None, transient = True, required = False\<rparr>"

definition entity_class :: class_type where
  "entity_class = Class_Type \<lparr>type_id = ''entity'', schema_name = ''game.entity'', reflectable = True, polymorphic = True,
     default_fields = [VInteger 0], default_constructible = True, constructible = True, writable = True, readable = True,
     base_serializable = True\<rparr> [] [id_field]"

definition player_class :: class_type where
  "player_class = Class_Type \<lparr>type_id = ''player'', schema_name = ''game.player'', reflectable = True, polymorphic = True,
     default_fields = [VInteger 0, VText (Text8 []), VInteger 0], default_constructible = True, constructible = True,
     writable = True, readable = True, base_serializable = True\<rparr> [entity_class] [name_field, cache_field]"

definition game :: program where
  "game = \<lparr>classes = [''entity'' \<mapsto> entity_class, ''player'' \<mapsto> player_class],
     types = \<lparr>by_name = [''game.player'' \<mapsto> ''player''], by_rtti = [''player'' \<mapsto> ''player''], registered_types = [''player'']\<rparr>,
     rtti_name = id\<rparr>"

definition game_heap :: heap where
  "game_heap = [\<lparr>cell_class = ''player'', cell_value = VObject [VInteger 7, VText (Text8 ''Bo''), VInteger 3]\<rparr>]"

definition vector :: sequence_traits where
  "vector = \<lparr>sequence_add = (\<lambda>vs v. vs @ [v]), element_size = 8\<rparr>"

definition players :: ty where
  "players = TSequence vector (TPointer (TObject ''entity''))"

definition players_node :: node where
  "players_node = NArray [NObject [(''type'', NString ''game.player''),
     (''value'', NObject [(''id'', NInt 7), (''name'', NString ''Bo'')])], NNull]"

lemma sample_fields [simp]:
  "for_each_field entity_class = [id_field]" "for_each_field player_class = [id_field, name_field, cache_field]"
  "field_count entity_class = 1" "field_count player_class = 3"
  by (simp_all add: entity_class_def player_class_def field_count_def)

lemmas sample_field_defs = id_field_def name_field_def cache_field_def serialized_key_def int32_type_def

lemma sample_contract: "check_object_contract entity_class" "check_object_contract player_class"
  by (simp_all add: check_object_contract_def serialized_keys_unique_def serialized_fields_def attributes_consistent_def sample_field_defs)

lemma sample_info:
  "type_id (class_info entity_class) = ''entity''" "type_id (class_info player_class) = ''player''"
  "default_fields (class_info entity_class) = [VInteger 0]"
  "default_fields (class_info player_class) = [VInteger 0, VText (Text8 []), VInteger 0]"
  by (simp_all add: entity_class_def player_class_def)

lemma below_three: "(\<forall>j<(3::nat). Q j) \<longleftrightarrow> Q 0 \<and> Q 1 \<and> Q 2"
  by (auto simp: less_Suc_eq numeral_3_eq_3 numeral_2_eq_2)

lemma game_proper: "proper_program game"
proof -
  have "shaped game (TObject ''entity'') (VObject [VInteger 0])"
    by (rule shaped_object [where d = entity_class]) (auto simp: game_def sample_field_defs intro: shaped_replaced)
  moreover have "shaped game (TObject ''player'') (VObject [VInteger 0, VText (Text8 []), VInteger 0])"
    by (rule shaped_object [where d = player_class])
      (auto simp: game_def sample_field_defs less_Suc_eq numeral_3_eq_3 intro: shaped_replaced)
  ultimately show ?thesis
    by (auto simp: proper_program_def game_def sample_info split: if_splits)
qed

lemma player_stands:
  "stands game game_heap [0] (TObject ''player'') (VObject [VInteger 7, VText (Text8 ''Bo''), VInteger 3])
     (NObject [(''id'', NInt 7), (''name'', NString ''Bo'')])"
proof -
  have "stands game game_heap [0] (TInteger int32_type) (VInteger 7) (integer_node int32_type 7)"
    by (rule stands_integer) (simp_all add: machine_type_def holds_def lowest_def highest_def int32_type_def)
  moreover have "stands game game_heap [0] (TString Char_Type) (VText (Text8 ''Bo'')) (NString ''Bo'')"
    by (intro stands_text readable_char)
  ultimately have "stands game game_heap [0] (field_type (for_each_field player_class ! i))
      ([VInteger 7, VText (Text8 ''Bo''), VInteger 3] ! i) ([NInt 7, NString ''Bo'', NNull] ! i)"
    if "i < 3" "\<not> transient (for_each_field player_class ! i)" for i
    using that by (auto simp: less_Suc_eq numeral_3_eq_3 sample_field_defs integer_node_def)
  then have "stands game game_heap [0] (TObject ''player'') (VObject [VInteger 7, VText (Text8 ''Bo''), VInteger 3])
     (NObject (object_entries player_class [NInt 7, NString ''Bo'', NNull]))"
    by (intro stands_class) (simp_all add: game_def sample_contract, simp add: player_class_def)
  then show ?thesis by (simp add: object_entries_def sample_field_defs)
qed

lemma players_stand: "stands game game_heap [] players (VList [VPointer (Some 0), VPointer None]) players_node"
proof -
  have "stands game game_heap [] (TPointer (TObject ''entity'')) (VPointer (Some 0))
      (NObject [(''type'', NString (schema_name (class_info player_class))), (''value'', NObject [(''id'', NInt 7), (''name'', NString ''Bo'')])])"
    by (rule stands_registered [where base = "class_info entity_class"])
      (simp_all add: game_heap_def polymorphic_class_def registered_def player_stands [unfolded game_heap_def], 
       simp_all add: game_def entity_class_def player_class_def)
  then show ?thesis
    unfolding players_def players_node_def
    by (intro stands_sequence) (simp_all add: stands_null_pointer vector_def, simp add: player_class_def)
qed

text \<open>A map from team numbers to players, which is an object with the numbers as keys.\<close>

definition unordered_map :: map_traits where
  "unordered_map = \<lparr>map_add = (\<lambda>m k v. m @ [(k, v)]), unique_keys = True\<rparr>"

definition teams :: ty where
  "teams = TMap unordered_map (TInteger int32_type) players"

definition sample_teams :: val where
  "sample_teams = VMap [(VInteger 12, VList [VPointer (Some 0), VPointer None]), (VInteger (-3), VList [])]"

definition teams_node :: node where
  "teams_node = NObject [(''12'', players_node), (''-3'', NArray [])]"

lemma teams_stand: "stands game game_heap [] teams sample_teams teams_node"
proof -
  have texts: "show_int 12 = ''12''" "show_int (-3) = ''-3''" by code_simp+
  have range: "machine_type int32_type" "holds int32_type 12" "holds int32_type (-3)"
    by (simp_all add: machine_type_def holds_def lowest_def highest_def int32_type_def)
  have keys: "key_text (TInteger int32_type) (VInteger 12) ''12''" "key_text (TInteger int32_type) (VInteger (-3)) ''-3''"
    using key_integer [OF range(1,2)] key_integer [OF range(1,3)] by (simp_all add: texts)
  have empty: "stands game game_heap [] players (VList []) (NArray [])"
    unfolding players_def by (rule stands_sequence) (simp_all add: vector_def)
  have "stands game game_heap [] (TMap unordered_map (TInteger int32_type) players)
      (VMap [(VInteger 12, VList [VPointer (Some 0), VPointer None]), (VInteger (-3), VList [])])
      (NObject (zip [''12'', ''-3''] [players_node, NArray []]))"
    by (rule stands_keyed)
      (simp_all add: map_as_object_def key_codec_def keys players_stand empty unordered_map_def)
  then show ?thesis by (simp add: teams_def sample_teams_def teams_node_def)
qed

lemma teams_okay: "bin_okay 64 teams_node" "json_okay 64 teams_node"
  by (simp_all add: bin_okay_def json_okay_def teams_node_def players_node_def ascii_utf8)

lemma teams_shaped: "shaped game teams (VMap [])"
  by (rule shaped_replaced) (simp add: teams_def)

theorem bytes_round_trip_witness:
  "\<exists>bs. to_bytes game game_heap teams sample_teams 64 = Inr bs \<and>
    (\<exists>N. \<forall>k\<ge>N. \<exists>u g'. from_bytes game k [] teams bs (VMap []) 64 = Inr (u, [] @ g') \<and>
       same game game_heap ([] @ g') teams sample_teams u)"
  using bytes_round_trip [OF teams_stand teams_okay(1) game_proper teams_shaped] by blast

theorem string_round_trip_witness:
  "\<exists>s. to_string game game_heap teams sample_teams 4 64 = Inr s \<and>
    (\<exists>N. \<forall>k\<ge>N. \<exists>u g'. from_string game k [] teams s (VMap []) 64 = Inr (u, [] @ g') \<and>
       same game game_heap ([] @ g') teams sample_teams u)"
  using string_round_trip [OF teams_stand teams_okay(2) game_proper teams_shaped] by blast

text \<open>A document with an unknown key and without the name: the name is kept, the identifier is read.\<close>

theorem object_of_other_version_witness:
  "\<exists>N. \<forall>k\<ge>N. \<exists>us g'. from_bytes game k [] (TObject ''player'')
      (encode (NObject [(''mana'', NArray [NNull]), (''id'', NInt 7)])) (VObject [VInteger 0, VText (Text8 ''Al''), VInteger 5]) 64 =
        Inr (VObject us, [] @ g') \<and> length us = 3 \<and> us ! 1 = VText (Text8 ''Al'') \<and> us ! 2 = VInteger 5"
proof -
  have "\<exists>N. \<forall>k\<ge>N. if \<forall>j<field_count player_class. required (for_each_field player_class ! j) \<longrightarrow> j \<in> set [0]
    then \<exists>us g'. from_bytes game k [] (TObject ''player'')
        (encode (NObject [(''mana'', NArray [NNull]), (''id'', NInt 7)])) (VObject [VInteger 0, VText (Text8 ''Al''), VInteger 5]) 64 =
          Inr (VObject us, [] @ g') \<and>
      length us = field_count player_class \<and>
      (\<forall>j<field_count player_class. if j \<in> set [0] then same game game_heap ([] @ g') (field_type (for_each_field player_class ! j)) ([VInteger 7] ! j) (us ! j)
         else us ! j = [VInteger 0, VText (Text8 ''Al''), VInteger 5] ! j)
    else \<exists>j<field_count player_class. required (for_each_field player_class ! j) \<and> j \<notin> set [0] \<and>
      (\<forall>i<j. required (for_each_field player_class ! i) \<longrightarrow> i \<in> set [0]) \<and>
      from_bytes game k [] (TObject ''player'')
        (encode (NObject [(''mana'', NArray [NNull]), (''id'', NInt 7)])) (VObject [VInteger 0, VText (Text8 ''Al''), VInteger 5]) 64 =
        Inl \<lparr>message = ''missing required field'', err_path = append_escaped [] (serialized_key (for_each_field player_class ! j))\<rparr>"
  proof (rule object_of_other_version [where ns = "[NInt 7]"])
    show "\<forall>j\<in>set [0]. j < field_count player_class \<and> \<not> transient (for_each_field player_class ! j) \<and>
       stands game game_heap [] (field_type (for_each_field player_class ! j)) ([VInteger 7] ! j) ([NInt 7] ! j) \<and>
       shaped game (field_type (for_each_field player_class ! j)) ([VInteger 0, VText (Text8 ''Al''), VInteger 5] ! j)"
      using stands_integer [of int32_type 7 game game_heap "[]"]
      by (auto simp: sample_field_defs machine_type_def holds_def lowest_def highest_def integer_node_def intro: shaped_replaced)
    show "filter (\<lambda>m. known_key player_class (fst m)) [(''mana'', NArray [NNull]), (''id'', NInt 7)] =
        map (\<lambda>j. (serialized_key (for_each_field player_class ! j), [NInt 7] ! j)) [0]"
      by (simp add: known_key_def serialized_fields_def sample_field_defs)
  qed (simp_all add: game_proper sample_contract, simp_all add: game_def bin_okay_def)
  then show ?thesis
    by (simp add: below_three sample_field_defs) (metis nth_Cons_0)
qed

end
