(* ===== verification/Strings.thy ===== *)
theory Strings
  imports Prelude "HOL-Library.Multiset" "HOL-Library.Char_ord" "HOL-Library.List_Lexorder" "HOL-Library.Product_Lexorder"
begin

text \<open>
  Strings as the generator uses them: searching (\<open>find\<close>, \<open>starts_with\<close>), the order of
  \<open>std::string\<close>, which compares the bytes as unsigned, and the character classes of C++
  identifiers.
\<close>

section \<open>Searching\<close>

definition starts_with :: "'a list \<Rightarrow> 'a list \<Rightarrow> bool" where
  "starts_with s p \<longleftrightarrow> take (length p) s = p"

definition ends_with :: "'a list \<Rightarrow> 'a list \<Rightarrow> bool" where
  "ends_with s p \<longleftrightarrow> length p \<le> length s \<and> drop (length s - length p) s = p"

lemma starts_with_append [simp]: "starts_with (p @ s) p"
  by (simp add: starts_with_def)

lemma starts_with_iff: "starts_with s p \<longleftrightarrow> (\<exists>r. s = p @ r)"
  unfolding starts_with_def by (metis append_take_drop_id append_eq_conv_conj)

text \<open>\<open>find(p)\<close>: the first index at which \<open>p\<close> stands, \<open>None\<close> for \<open>npos\<close>.\<close>

fun find_text :: "string \<Rightarrow> string \<Rightarrow> nat option" where
  "find_text p [] = (if p = [] then Some 0 else None)"
| "find_text p (c # s) = (if starts_with (c # s) p then Some 0 else map_option Suc (find_text p s))"

lemma find_text_Some:
  "find_text p s = Some i \<Longrightarrow> s = take i s @ p @ drop (i + length p) s"
proof (induction s arbitrary: i)
  case (Cons c s)
  show ?case
  proof (cases "starts_with (c # s) p")
    case True
    with Cons.prems show ?thesis by (auto simp: starts_with_def) (metis append_take_drop_id)
  next
    case False
    with Cons.prems obtain j where "find_text p s = Some j" "i = Suc j" by auto
    with Cons.IH [of j] show ?thesis by simp
  qed
qed (auto split: if_splits)

lemma find_text_less: "find_text p s = Some i \<Longrightarrow> i + length p \<le> length s"
proof (induction s arbitrary: i)
  case (Cons c s)
  show ?case
  proof (cases "starts_with (c # s) p")
    case True
    with Cons.prems have "i = 0" "length (take (length p) (c # s)) = length p"
      by (simp_all add: starts_with_def)
    then show ?thesis by simp
  qed (use Cons in auto)
qed (auto split: if_splits)

lemma find_text_at: "starts_with (drop k s) p \<Longrightarrow> k \<le> length s \<Longrightarrow> \<exists>i\<le>k. find_text p s = Some i"
proof (induction s arbitrary: k)
  case (Cons c s)
  then show ?case by (cases k) (auto, fastforce)
qed (auto simp: starts_with_def)

section \<open>Lists in text\<close>

text \<open>The loops that put a comma before every element but the first.\<close>

fun comma_items :: "bool \<Rightarrow> string list \<Rightarrow> string" where
  "comma_items first [] = []"
| "comma_items first (x # xs) = (if first then [] else '','') @ x @ comma_items False xs"

section \<open>Character classes\<close>

definition is_letter :: "char \<Rightarrow> bool" where
  "is_letter c \<longleftrightarrow> (97 \<le> code_of c \<and> code_of c \<le> 122) \<or> (65 \<le> code_of c \<and> code_of c \<le> 90) \<or> c = CHR ''_''"

definition is_identifier_char :: "char \<Rightarrow> bool" where
  "is_identifier_char c \<longleftrightarrow> (97 \<le> code_of c \<and> code_of c \<le> 122) \<or> (65 \<le> code_of c \<and> code_of c \<le> 90) \<or>
     (48 \<le> code_of c \<and> code_of c \<le> 57) \<or> c = CHR ''_''"

lemma identifier_char: "is_identifier_char c \<longleftrightarrow> is_letter c \<or> is_digit c"
  by (auto simp: is_identifier_char_def is_letter_def is_digit_def)

text \<open>Printable ASCII.\<close>

definition graphic :: "char \<Rightarrow> bool" where
  "graphic c \<longleftrightarrow> 32 \<le> code_of c \<and> code_of c < 127"

lemma identifier_char_graphic: "is_identifier_char c \<Longrightarrow> graphic c"
  by (auto simp: is_identifier_char_def graphic_def code_of_def)

section \<open>Order\<close>

text \<open>Sorting a list by a key that is different for each element does not depend on its order.\<close>

lemma sort_key_unique: "mset xs = mset ys \<Longrightarrow> inj_on f (set xs) \<Longrightarrow> sort_key f xs = sort_key f ys"
  by (rule sort_key_inj_key_eq) simp_all

end
