(* ===== verification/Type_Names.thy ===== *)
theory Type_Names
  imports Strings
begin

text \<open>
  Names that the library takes from the signatures compilers give to its functions
  (\<open>core/name.h\<close>): types, members and enumerators. Compilers spell the same type differently;
  the names are keys of the registry and tags in documents, so they must not.
\<close>

section \<open>Frames\<close>

record signature_frame =
  frame_prefix :: nat
  frame_suffix :: nat
  frame_valid :: bool

definition make_signature_frame :: "string \<Rightarrow> string \<Rightarrow> signature_frame" where
  "make_signature_frame s probe =
     (case find_text probe s of
        None \<Rightarrow> \<lparr>frame_prefix = 0, frame_suffix = 0, frame_valid = False\<rparr>
      | Some i \<Rightarrow> \<lparr>frame_prefix = i, frame_suffix = length s - i - length probe, frame_valid = True\<rparr>)"

definition cut_frame :: "string \<Rightarrow> signature_frame \<Rightarrow> string" where
  "cut_frame s frame =
     (if \<not> frame_valid frame \<or> length s < frame_prefix frame + frame_suffix frame then []
      else take (length s - frame_prefix frame - frame_suffix frame) (drop (frame_prefix frame) s))"

section \<open>Identifiers\<close>

definition is_identifier :: "string \<Rightarrow> bool" where
  "is_identifier s \<longleftrightarrow> s \<noteq> [] \<and> \<not> is_digit (hd s) \<and> list_all is_identifier_char s"

section \<open>Names of types\<close>

definition type_keywords :: "string list" where
  "type_keywords = [''class '', ''struct '', ''enum '', ''union '']"

definition integer_spellings :: "(string \<times> string) list" where
  "integer_spellings = [(''long long unsigned int'', ''unsigned long long''),
     (''unsigned long long int'', ''unsigned long long''), (''long long int'', ''long long'')]"

definition at_word :: "string \<Rightarrow> string \<Rightarrow> bool" where
  "at_word rest word \<longleftrightarrow> starts_with rest word \<and>
     (length rest = length word \<or> \<not> is_identifier_char (rest ! length word))"

definition token_start :: "char option \<Rightarrow> bool" where
  "token_start before \<longleftrightarrow> (case before of None \<Rightarrow> True | Some c \<Rightarrow> \<not> is_identifier_char c)"

text \<open>
  What the loop does at one place, from the character before it and the one that was emitted
  last: the characters it emits and how many it consumes.
\<close>

definition respell :: "char \<Rightarrow> string \<Rightarrow> string" where
  "respell latest word = (if is_identifier_char latest then '' '' else []) @ word"

definition normalize_step :: "char option \<Rightarrow> char \<Rightarrow> string \<Rightarrow> string \<times> nat" where
  "normalize_step before latest rest =
     (case if token_start before then find (starts_with rest) type_keywords else None of
        Some keyword \<Rightarrow> ([], length keyword)
      | None \<Rightarrow>
     (case if token_start before then find (\<lambda>spelling. at_word rest (fst spelling)) integer_spellings else None of
        Some spelling \<Rightarrow> (respell latest (snd spelling), length (fst spelling))
      | None \<Rightarrow>
        if token_start before \<and> at_word rest ''__int64'' then (respell latest ''long long'', length ''__int64'')
        else if hd rest = CHR '' ''
        then (if is_identifier_char latest \<and> tl rest \<noteq> [] \<and> is_identifier_char (hd (tl rest)) then '' '' else [], 1)
        else ([hd rest], 1)))"

lemma normalize_step_consumes: "normalize_step before latest rest = (out, n) \<Longrightarrow> 0 < n"
  by (auto simp: normalize_step_def find_Some_iff type_keywords_def integer_spellings_def nth_Cons split: option.splits if_splits nat.splits)

function normalize_from :: "char option \<Rightarrow> char \<Rightarrow> string \<Rightarrow> string" where
  "normalize_from before latest rest =
     (if rest = [] then []
      else let (out, n) = normalize_step before latest rest
           in out @ normalize_from (Some (last (take n rest))) (if out = [] then latest else last out) (drop n rest))"
  by pat_completeness auto
termination
  by (relation "measure (\<lambda>(before, latest, rest). length rest)") (auto dest: normalize_step_consumes [OF sym])

declare normalize_from.simps [simp del]

definition normalize_type_name :: "string \<Rightarrow> string" where
  "normalize_type_name raw = normalize_from None (CHR 0x00) raw"

section \<open>Names of members and enumerators\<close>

definition rfind_text :: "string \<Rightarrow> string \<Rightarrow> nat option" where
  "rfind_text p s = find (\<lambda>i. starts_with (drop i s) p) (rev [0..<Suc (length s)])"

definition after_colons :: "string \<Rightarrow> string" where
  "after_colons s = (case rfind_text ''::'' s of None \<Rightarrow> s | Some i \<Rightarrow> drop (i + 2) s)"

definition member_name_from_raw :: "string \<Rightarrow> string" where
  "member_name_from_raw raw =
     (let name = (case find_text ''('' raw of None \<Rightarrow> raw | Some i \<Rightarrow> take i raw); name = after_colons name
      in if starts_with name ''operator'' \<and> (length name = 8 \<or> \<not> is_identifier_char (name ! 8)) then []
         else if is_identifier name then name else [])"

definition enumerator_name_from_raw :: "string \<Rightarrow> string" where
  "enumerator_name_from_raw raw =
     (if raw = [] \<or> find_text ''('' raw \<noteq> None then []
      else let name = after_colons raw in if is_identifier name then name else [])"

section \<open>The loop\<close>

text \<open>A character that is part of no word and no blank: what stands before it has no influence on what follows.\<close>

definition closing :: "char \<Rightarrow> bool" where
  "closing c \<longleftrightarrow> \<not> is_identifier_char c \<and> c \<noteq> CHR '' ''"

lemma starts_with_prefix [simp]:
  "starts_with s []" "starts_with [] (d # t) \<longleftrightarrow> False" "starts_with (c # s) (d # t) \<longleftrightarrow> c = d \<and> starts_with s t"
  by (auto simp: starts_with_def)

lemma before_irrelevant: "token_start b = token_start b' \<Longrightarrow> normalize_from b latest r = normalize_from b' latest r"
proof -
  assume "token_start b = token_start b'"
  then have "normalize_step b latest r = normalize_step b' latest r" by (simp only: normalize_step_def)
  then show ?thesis by (simp only: normalize_from.simps [of b latest r] normalize_from.simps [of b' latest r])
qed

lemma latest_irrelevant:
  "is_identifier_char latest = is_identifier_char latest' \<Longrightarrow> normalize_from b latest r = normalize_from b latest' r"
proof (induction b latest r arbitrary: latest' rule: normalize_from.induct)
  case (1 b latest r)
  have step: "normalize_step b latest' r = normalize_step b latest r"
    using 1(2) by (simp add: normalize_step_def respell_def cong: option.case_cong)
  obtain out n where out: "normalize_step b latest r = (out, n)" by fastforce
  show ?case
  proof (cases "r = []")
    case False
    have "normalize_from (Some (last (take n r))) (if out = [] then latest else last out) (drop n r) =
        normalize_from (Some (last (take n r))) (if out = [] then latest' else last out) (drop n r)"
      by (rule 1(1) [OF False out [symmetric] refl]) (simp add: 1(2))
    then show ?thesis using False
      by (simp add: normalize_from.simps [of b latest r] normalize_from.simps [of b latest' r] step out)
  qed (simp add: normalize_from.simps [of _ _ "[]"])
qed

lemma plain_char_step:
  assumes "normalize_step b latest (c # r) = ([c], 1)"
  shows "normalize_from b latest (c # r) = c # normalize_from (Some c) c r"
  using assms by (simp add: normalize_from.simps [of b latest "c # r"])

lemma identifier_not_blank: "is_identifier_char c \<Longrightarrow> c \<noteq> CHR '' ''"
  by (auto simp: is_identifier_char_def code_of_def)

lemma identifier_run:
  "list_all is_identifier_char w \<Longrightarrow> is_identifier_char b \<Longrightarrow>
     normalize_from (Some b) b (w @ r) = w @ normalize_from (Some (last (b # w))) (last (b # w)) r"
proof (induction w arbitrary: b)
  case (Cons c w)
  have "normalize_step (Some b) b (c # w @ r) = ([c], 1)"
    using Cons.prems identifier_not_blank [of c] by (simp add: normalize_step_def token_start_def)
  from plain_char_step [OF this] Cons show ?case by simp
qed simp

definition plain_word :: "string \<Rightarrow> string \<Rightarrow> bool" where
  "plain_word w r \<longleftrightarrow> w \<noteq> [] \<and> list_all is_identifier_char w \<and> (\<forall>k\<in>set type_keywords. \<not> starts_with (w @ r) k) \<and>
     (\<forall>s\<in>set integer_spellings. \<not> at_word (w @ r) (fst s)) \<and> \<not> at_word (w @ r) ''__int64''"

lemma find_None: "(\<forall>x\<in>set xs. \<not> P x) \<Longrightarrow> find P xs = None"
  by (simp add: find_None_iff)

lemma plain_word_run:
  assumes "plain_word w r"
  shows "normalize_from b latest (w @ r) = w @ normalize_from (Some (last w)) (last w) r"
proof -
  obtain c u where w: "w = c # u" using assms by (cases w) (auto simp: plain_word_def)
  have c: "is_identifier_char c" "list_all is_identifier_char u" using assms w by (simp_all add: plain_word_def)
  have "normalize_step b latest (w @ r) = ([c], 1)"
    using assms c(1) identifier_not_blank [of c] w
      find_None [of type_keywords "starts_with (w @ r)"] find_None [of integer_spellings "\<lambda>s. at_word (w @ r) (fst s)"]
    by (simp add: normalize_step_def plain_word_def)
  with w have "normalize_from b latest (w @ r) = c # normalize_from (Some c) c (u @ r)" by (simp add: plain_char_step)
  with identifier_run [OF c(2,1)] w show ?thesis by simp
qed

lemma blank_kept:
  assumes "is_identifier_char latest" "is_identifier_char c" "\<not> token_start b"
  shows "normalize_from b latest (CHR '' '' # c # r) = CHR '' '' # normalize_from (Some (CHR '' '')) (CHR '' '') (c # r)"
  using assms by (intro plain_char_step) (simp add: normalize_step_def)

lemma blank_dropped:
  assumes "r = [] \<or> \<not> is_identifier_char (hd r) \<or> \<not> is_identifier_char latest"
  shows "normalize_from b latest (CHR '' '' # r) = normalize_from (Some (CHR '' '')) latest r"
proof -
  have "find (starts_with (CHR '' '' # r)) type_keywords = None"
    by (rule find_None) (auto simp: type_keywords_def)
  moreover have "find (\<lambda>s. at_word (CHR '' '' # r) (fst s)) integer_spellings = None"
    by (rule find_None) (auto simp: integer_spellings_def at_word_def)
  moreover have "\<not> at_word (CHR '' '' # r) ''__int64''" by (simp add: at_word_def)
  moreover have "\<not> (is_identifier_char latest \<and> r \<noteq> [] \<and> is_identifier_char (hd r))" using assms by blast
  ultimately have "normalize_step b latest (CHR '' '' # r) = ([], 1)"
    unfolding normalize_step_def by (simp only: if_cancel option.case simp_thms list.sel if_False if_True)
  then show ?thesis by (simp add: normalize_from.simps [of b latest "CHR '' '' # r"])
qed

lemma keyword_dropped:
  assumes "k \<in> set type_keywords" "token_start b"
  shows "normalize_from b latest (k @ r) = normalize_from (Some (CHR '' '')) latest r"
proof -
  have "k = ''class '' \<or> k = ''struct '' \<or> k = ''enum '' \<or> k = ''union ''" using assms(1) by (simp add: type_keywords_def)
  then have "find (starts_with (k @ r)) type_keywords = Some k" by (elim disjE) (simp_all add: type_keywords_def)
  then have "normalize_step b latest (k @ r) = ([], length k)" using assms(2) by (simp add: normalize_step_def)
  moreover have "k \<noteq> []" "last k = CHR '' ''" using assms(1) by (auto simp: type_keywords_def)
  ultimately show ?thesis by (simp add: normalize_from.simps [of b latest "k @ r"])
qed

lemma no_identifier [simp]: "\<not> is_identifier_char (CHR 0x00)" "\<not> is_identifier_char (CHR '' '')"
  by (simp_all add: is_identifier_char_def code_of_def)

lemma token_start_simps [simp]: "token_start None" "token_start (Some c) \<longleftrightarrow> \<not> is_identifier_char c"
  by (simp_all add: token_start_def)

lemma letters: "is_identifier_char (CHR ''l'')" "is_identifier_char (CHR ''g'')" "is_identifier_char (CHR ''d'')"
  "is_identifier_char (CHR ''_'')" "is_identifier_char (CHR ''u'')" "is_identifier_char (CHR ''i'')" "is_identifier_char (CHR ''t'')"
  "is_identifier_char (CHR ''4'')"
  by (simp_all add: is_identifier_char_def code_of_def)

lemma normalize_int64:
  assumes "at_word (''__int64'' @ v) ''__int64''" "token_start b" "\<not> is_identifier_char l"
  shows "normalize_from b l (''__int64'' @ v) = ''long long'' @ normalize_from (Some (CHR ''g'')) (CHR ''g'') v"
proof -
  have "find (starts_with (''__int64'' @ v)) type_keywords = None" "find (\<lambda>s. at_word (''__int64'' @ v) (fst s)) integer_spellings = None"
    by (simp_all add: type_keywords_def integer_spellings_def at_word_def)
  then have "normalize_step b l (''__int64'' @ v) = (''long long'', length ''__int64'')"
    using assms by (simp add: normalize_step_def respell_def)
  then have "normalize_from b l (''__int64'' @ v) = ''long long'' @ normalize_from (Some (CHR ''4'')) (CHR ''g'') v"
    by (simp add: normalize_from.simps [of b l "''__int64'' @ v", simplified])
  then show ?thesis using before_irrelevant [of "Some (CHR ''4'')" "Some (CHR ''g'')"] letters by simp
qed

lemma nonword_start:
  assumes "v = [] \<or> \<not> is_identifier_char (hd v)"
  shows "normalize_from b l v = normalize_from b' l v"
proof (cases v)
  case Nil
  then show ?thesis by (simp add: normalize_from.simps [of _ _ "[]"])
next
  case (Cons c r)
  with assms have "c \<noteq> CHR ''c''" "c \<noteq> CHR ''s''" "c \<noteq> CHR ''e''" "c \<noteq> CHR ''u''" "c \<noteq> CHR ''l''" "c \<noteq> CHR ''_''"
    by (auto simp: is_identifier_char_def code_of_def)
  then have "find (starts_with v) type_keywords = None" "find (\<lambda>s. at_word v (fst s)) integer_spellings = None"
    "\<not> at_word v ''__int64''"
    by (simp_all add: Cons type_keywords_def integer_spellings_def at_word_def)
  then have "normalize_step b l v = normalize_step b' l v" by (simp add: normalize_step_def)
  then show ?thesis by (simp only: normalize_from.simps [of b l v] normalize_from.simps [of b' l v])
qed

lemma word_before_blank:
  assumes "starts_with (w @ r) (x @ CHR '' '' # t)" "list_all is_identifier_char w" "list_all is_identifier_char x"
    and "r = [] \<or> \<not> is_identifier_char (hd r)"
  shows "w = x \<and> starts_with r (CHR '' '' # t)"
proof -
  have run: "takeWhile is_identifier_char (w @ r) = w" using assms(2,4) by (cases r) (auto simp: list_all_iff takeWhile_append)
  obtain q where q: "w @ r = x @ CHR '' '' # t @ q" using assms(1) by (auto simp: starts_with_iff)
  then have "takeWhile is_identifier_char (w @ r) = x" using assms(3) by (simp add: list_all_iff takeWhile_append)
  with run q show ?thesis by (auto simp: starts_with_iff)
qed

section \<open>Spellings of types\<close>

text \<open>
  A reference for the loop, one level up: a type is a list of tokens. \<open>spelled\<close> says in which ways a list is written:
  adjacent words are separated by one blank (\<open>behind\<close>: the previous token is a word), every other place
  next to a character that is part of no word may have blanks. \<open>canonical\<close> is what the name keeps of the tokens.
\<close>

datatype spelling_token = Word string | Mark char

definition word :: "string \<Rightarrow> bool" where
  "word w \<longleftrightarrow> w \<noteq> [] \<and> list_all is_identifier_char w"

definition elaborating :: "string list" where
  "elaborating = [''class'', ''struct'', ''enum'', ''union'']"

fun starts_word :: "spelling_token list \<Rightarrow> bool" where
  "starts_word (Word w # ts) = True"
| "starts_word ts = False"

fun spelled :: "bool \<Rightarrow> spelling_token list \<Rightarrow> string \<Rightarrow> bool" where
  "spelled behind [] s \<longleftrightarrow> list_all (\<lambda>c. c = CHR '' '') s"
| "spelled behind (Mark c # ts) s \<longleftrightarrow> closing c \<and>
     (case dropWhile (\<lambda>c. c = CHR '' '') s of [] \<Rightarrow> False | d # r \<Rightarrow> d = c \<and> spelled False ts r)"
| "spelled behind (Word w # ts) s \<longleftrightarrow> word w \<and> (behind \<longrightarrow> starts_with s '' '') \<and>
     (let r = if behind then tl s else dropWhile (\<lambda>c. c = CHR '' '') s; s' = drop (length w) r
      in starts_with r w \<and> spelled True ts s' \<and> (w \<in> set elaborating \<and> \<not> starts_word ts \<longrightarrow> \<not> starts_with s' '' ''))"

function canonical :: "spelling_token list \<Rightarrow> spelling_token list" where
  "canonical [] = []"
| "canonical (Mark c # ts) = Mark c # canonical ts"
| "canonical (Word w # ts) =
     (if w \<in> set elaborating \<and> starts_word ts then canonical ts
      else if w = ''long'' \<and> starts_with ts (map Word [''long'', ''unsigned'', ''int'']) \<or>
        w = ''unsigned'' \<and> starts_with ts (map Word [''long'', ''long'', ''int''])
      then map Word [''unsigned'', ''long'', ''long''] @ canonical (drop 3 ts)
      else if w = ''long'' \<and> starts_with ts (map Word [''long'', ''int''])
      then map Word [''long'', ''long''] @ canonical (drop 2 ts)
      else if w = ''__int64'' then map Word [''long'', ''long''] @ canonical ts
      else Word w # canonical ts)"
  by pat_completeness auto
termination by (relation "measure length") auto

text \<open>The text of a name: a blank between adjacent words and none elsewhere.\<close>

fun render :: "bool \<Rightarrow> spelling_token list \<Rightarrow> string" where
  "render behind [] = []"
| "render behind (Mark c # ts) = c # render False ts"
| "render behind (Word w # ts) = (if behind then '' '' else []) @ w @ render True ts"

lemma starts_word_canonical: "starts_word ts \<Longrightarrow> starts_word (canonical ts)"
  by (induction ts rule: canonical.induct) auto

lemma render_behind: "starts_word ts \<Longrightarrow> render True ts = CHR '' '' # render False ts"
  by (cases ts rule: starts_word.cases) auto

lemma leading_blanks: "\<exists>k. s = replicate k (CHR '' '') @ dropWhile (\<lambda>c. c = CHR '' '') s"
proof (induction s)
  case (Cons c s)
  then obtain k where k: "s = replicate k (CHR '' '') @ dropWhile (\<lambda>c. c = CHR '' '') s" by blast
  show ?case
  proof (cases "c = CHR '' ''")
    case True
    with k have "c # s = replicate (Suc k) (CHR '' '') @ dropWhile (\<lambda>c. c = CHR '' '') (c # s)" by simp
    then show ?thesis by blast
  qed (auto intro: exI [of _ 0])
qed simp

lemma spelled_Mark:
  assumes "spelled p (Mark c # ts) s"
  obtains k r where "s = replicate k (CHR '' '') @ c # r" "closing c" "spelled False ts r"
proof -
  obtain k where k: "s = replicate k (CHR '' '') @ dropWhile (\<lambda>c. c = CHR '' '') s" using leading_blanks by blast
  obtain r where r: "dropWhile (\<lambda>c. c = CHR '' '') s = c # r" "closing c" "spelled False ts r"
    using assms by (auto split: list.splits)
  show ?thesis by (rule that [OF _ r(2,3)]) (use k in \<open>simp only: r(1)\<close>)
qed

lemma spelled_Word_behind:
  assumes "spelled True (Word w # ts) s"
  obtains s' where "s = CHR '' '' # w @ s'" "word w" "spelled True ts s'"
    "w \<in> set elaborating \<Longrightarrow> \<not> starts_word ts \<Longrightarrow> \<not> starts_with s' '' ''"
proof -
  from assms obtain q where q: "s = CHR '' '' # q" by (auto simp: starts_with_iff)
  with assms have "starts_with q w" by (simp add: Let_def)
  then obtain s' where s': "q = w @ s'" by (auto simp: starts_with_iff)
  show ?thesis by (rule that [of s']) (use assms q s' in \<open>simp_all add: Let_def\<close>)
qed

lemma spelled_Word:
  assumes "spelled False (Word w # ts) s"
  obtains k s' where "s = replicate k (CHR '' '') @ w @ s'" "word w" "spelled True ts s'"
    "w \<in> set elaborating \<Longrightarrow> \<not> starts_word ts \<Longrightarrow> \<not> starts_with s' '' ''"
proof -
  obtain k where k: "s = replicate k (CHR '' '') @ dropWhile (\<lambda>c. c = CHR '' '') s" using leading_blanks by blast
  from assms have "starts_with (dropWhile (\<lambda>c. c = CHR '' '') s) w" by (simp add: Let_def)
  then obtain s' where s': "dropWhile (\<lambda>c. c = CHR '' '') s = w @ s'" by (auto simp: starts_with_iff)
  show ?thesis by (rule that [of k s']) (use assms k s' in \<open>simp_all add: Let_def\<close>)
qed

declare spelled.simps [simp del]

text \<open>What is spelled behind a word does not continue the word.\<close>

lemma spelled_behind_boundary:
  assumes "spelled True ts s"
  shows "s = [] \<or> \<not> is_identifier_char (hd s)"
proof (cases ts)
  case Nil
  with assms show ?thesis by (cases s) (simp_all add: spelled.simps)
next
  case (Cons t us)
  show ?thesis
  proof (cases t)
    case (Word w)
    with assms Cons obtain s' where "s = CHR '' '' # w @ s'" by (auto elim: spelled_Word_behind)
    then show ?thesis by simp
  next
    case (Mark c)
    from assms obtain k r where "s = replicate k (CHR '' '') @ c # r" "closing c" unfolding Cons Mark by (rule spelled_Mark)
    then show ?thesis by (cases k) (simp_all add: closing_def)
  qed
qed

definition words_text :: "string list \<Rightarrow> string" where
  "words_text ws = concat (map (\<lambda>w. CHR '' '' # w) ws)"

lemma words_text_simps [simp]: "words_text [] = []" "words_text (w # ws) = CHR '' '' # w @ words_text ws"
  by (simp_all add: words_text_def)

lemma same_run:
  assumes "v @ s = w @ r" "word v" "word w" "s = [] \<or> \<not> is_identifier_char (hd s)" "r = [] \<or> \<not> is_identifier_char (hd r)"
  shows "v = w \<and> s = r"
proof -
  have "takeWhile is_identifier_char (v @ s) = v" using assms(2,4) by (cases s) (auto simp: word_def list_all_iff takeWhile_append)
  moreover have "takeWhile is_identifier_char (w @ r) = w" using assms(3,5) by (cases r) (auto simp: word_def list_all_iff takeWhile_append)
  ultimately show ?thesis using assms(1) by simp
qed

lemma spelled_words:
  assumes "spelled True ts s" "s = words_text ws @ r" "list_all word ws" "r = [] \<or> \<not> is_identifier_char (hd r)"
  shows "starts_with ts (map Word ws)"
  using assms
proof (induction ws arbitrary: ts s)
  case Nil
  then show ?case by (simp add: starts_with_def)
next
  case (Cons w ws)
  have w: "word w" using Cons.prems(3) by simp
  then obtain c w' where w': "w = c # w'" "is_identifier_char c" by (cases w) (auto simp: word_def)
  have tail: "words_text ws @ r = [] \<or> \<not> is_identifier_char (hd (words_text ws @ r))"
    using Cons.prems(4) by (cases ws) auto
  show ?case
  proof (cases ts)
    case Nil
    with Cons.prems(1,2) w' identifier_not_blank [of c] show ?thesis by (simp add: spelled.simps)
  next
    case (Cons t us)
    show ?thesis
    proof (cases t)
      case (Mark d)
      from Cons.prems(1) obtain k q where s: "s = replicate k (CHR '' '') @ d # q" "closing d"
        unfolding Cons Mark by (rule spelled_Mark)
      show ?thesis
      proof (cases k)
        case 0
        with s Cons.prems(2) show ?thesis by (auto simp: closing_def)
      next
        case (Suc j)
        with s Cons.prems(2) w' show ?thesis by (cases j) (auto simp: closing_def)
      qed
    next
      case (Word v)
      from Cons.prems(1) obtain s' where s: "s = CHR '' '' # v @ s'" "word v" "spelled True us s'"
        unfolding Cons Word by (rule spelled_Word_behind)
      have "v @ s' = w @ words_text ws @ r" using s(1) Cons.prems(2) by simp
      from same_run [OF this s(2) w spelled_behind_boundary [OF s(3)] tail] have v: "v = w" "s' = words_text ws @ r" by simp_all
      from Cons.IH [OF s(3) v(2)] Cons.prems(3,4) show ?thesis unfolding Cons Word v(1) by (auto simp: starts_with_iff)
    qed
  qed
qed

lemma words_spelled:
  assumes "spelled True (map Word ws @ ts) s"
  obtains s' where "s = words_text ws @ s'" "spelled True ts s'"
  using assms
proof (induction ws arbitrary: s thesis)
  case (Cons w ws)
  from Cons.prems(2) obtain s' where s: "s = CHR '' '' # w @ s'" "spelled True (map Word ws @ ts) s'"
    by (auto elim: spelled_Word_behind)
  obtain s2 where "s' = words_text ws @ s2" "spelled True ts s2" by (rule Cons.IH [OF _ s(2)])
  with s Cons.prems(1) show ?case by simp
qed simp

lemma at_word_spelled:
  assumes "at_word (w @ s) (x @ words_text ws)" "word w" "word x" "list_all word ws" "spelled True ts s"
  shows "w = x \<and> starts_with ts (map Word ws)"
proof -
  obtain r where r: "w @ s = (x @ words_text ws) @ r" using assms(1) by (auto simp: at_word_def starts_with_iff)
  have r': "r = [] \<or> \<not> is_identifier_char (hd r)" using assms(1) unfolding at_word_def r by (cases r) (simp_all add: nth_append)
  have tail: "words_text ws @ r = [] \<or> \<not> is_identifier_char (hd (words_text ws @ r))" using r' by (cases ws) auto
  have "w @ s = x @ words_text ws @ r" using r by simp
  from same_run [OF this assms(2,3) spelled_behind_boundary [OF assms(5)] tail]
  show ?thesis using spelled_words [OF assms(5) _ assms(4) r'] by blast
qed

lemma spelled_at_word:
  assumes "spelled True (map Word ws @ ts) s"
  obtains s' where "s = words_text ws @ s'" "spelled True ts s'" "at_word (x @ s) (x @ words_text ws)"
proof -
  obtain s' where s': "s = words_text ws @ s'" "spelled True ts s'" using assms by (rule words_spelled)
  with spelled_behind_boundary [OF s'(2)] have "at_word (x @ s) (x @ words_text ws)"
    by (cases s') (simp_all add: at_word_def nth_append starts_with_iff)
  with s' show ?thesis by (rule that)
qed

lemma words [simp]: "word ''class''" "word ''struct''" "word ''enum''" "word ''union''" "word ''long''" "word ''unsigned''" "word ''int''"
  "word ''__int64''"
  by (simp_all add: word_def is_identifier_char_def code_of_def)

text \<open>The words of the model are those of the code.\<close>

lemma spellings_of_words:
  "''long long unsigned int'' = ''long'' @ words_text [''long'', ''unsigned'', ''int'']"
  "''unsigned long long int'' = ''unsigned'' @ words_text [''long'', ''long'', ''int'']"
  "''long long int'' = ''long'' @ words_text [''long'', ''int'']"
  "''__int64'' = ''__int64'' @ words_text []"
  by simp_all

lemma keywords_of_words: "k \<in> set type_keywords \<longleftrightarrow> (\<exists>x\<in>set elaborating. k = x @ '' '')"
  by (auto simp: type_keywords_def elaborating_def)

lemma elaborating_word: "x \<in> set elaborating \<Longrightarrow> word x"
  by (auto simp: elaborating_def)

definition long_spelled :: "spelling_token list \<Rightarrow> bool" where
  "long_spelled ts \<longleftrightarrow> starts_with ts (map Word [''long'', ''long'', ''unsigned'', ''int'']) \<or>
     starts_with ts (map Word [''unsigned'', ''long'', ''long'', ''int'']) \<or> starts_with ts (map Word [''long'', ''long'', ''int''])"

lemma starts_with_Word: "starts_with (Word w # ts) (map Word (x # ws)) \<longleftrightarrow> w = x \<and> starts_with ts (map Word ws)"
  by (auto simp: starts_with_iff)

lemma plain_spelled:
  assumes "word w" "spelled True ts s" "w \<in> set elaborating \<Longrightarrow> \<not> starts_with s '' ''" "\<not> long_spelled (Word w # ts)" "w \<noteq> ''__int64''"
  shows "plain_word w s"
proof -
  have "\<not> starts_with (w @ s) k" if "k \<in> set type_keywords" for k
  proof
    assume st: "starts_with (w @ s) k"
    have "\<exists>x\<in>set elaborating. k = x @ '' ''" using that by (simp only: keywords_of_words)
    then obtain x where x: "x \<in> set elaborating" "k = x @ '' ''" by (elim bexE)
    have "starts_with (w @ s) (x @ CHR '' '' # [])" using st unfolding x(2) .
    moreover have "list_all is_identifier_char w" using assms(1) by (simp add: word_def)
    moreover have "list_all is_identifier_char x" using elaborating_word [OF x(1)] by (simp add: word_def)
    ultimately have "w = x \<and> starts_with s '' ''" by (rule word_before_blank) (rule spelled_behind_boundary [OF assms(2)])
    with assms(3) x(1) show False by blast
  qed
  moreover have no: "\<not> at_word (w @ s) (x @ words_text ws)"
    if "word x" "list_all word ws" "\<not> starts_with (Word w # ts) (map Word (x # ws))" for x ws
    using at_word_spelled [OF _ assms(1) that(1,2) assms(2)] that(3) starts_with_Word by blast
  have "\<not> at_word (w @ s) (fst q)" if "q \<in> set integer_spellings" for q
  proof -
    have "fst q \<in> {''long long unsigned int'', ''unsigned long long int'', ''long long int''}"
      using that by (auto simp: integer_spellings_def)
    then show ?thesis
      using no [of "''long''" "[''long'', ''unsigned'', ''int'']"] no [of "''unsigned''" "[''long'', ''long'', ''int'']"]
        no [of "''long''" "[''long'', ''int'']"] assms(4)
      unfolding long_spelled_def spellings_of_words(1-3) by auto
  qed
  moreover have "\<not> at_word (w @ s) ''__int64''"
    using no [of "''__int64''" "[]"] assms(5) by (auto simp: starts_with_iff)
  ultimately show ?thesis using assms(1) by (simp add: plain_word_def word_def)
qed

lemma blanks_dropped:
  assumes "\<not> is_identifier_char l" "token_start b"
  obtains b' where "token_start b'" "normalize_from b l (replicate k (CHR '' '') @ r) = normalize_from b' l r"
proof -
  have "\<exists>b'. token_start b' \<and> normalize_from b l (replicate k (CHR '' '') @ r) = normalize_from b' l r"
    using assms(2)
  proof (induction k arbitrary: b)
    case (Suc k)
    from Suc.IH [of "Some (CHR '' '')"] blank_dropped [of "replicate k (CHR '' '') @ r" l b] assms(1) show ?case by simp
  qed auto
  with that show ?thesis by blast
qed

lemma blanks_before_mark:
  assumes "closing c"
  shows "normalize_from b l (replicate k (CHR '' '') @ c # r) = c # normalize_from (Some c) c r"
proof (induction k arbitrary: b)
  case 0
  have c: "\<not> is_identifier_char c" "c \<noteq> CHR '' ''" using assms by (simp_all add: closing_def)
  have "normalize_from b l (c # r) = normalize_from (Some (CHR ''a'')) l (c # r)" by (rule nonword_start) (simp add: c)
  also have "normalize_step (Some (CHR ''a'')) l (c # r) = ([c], 1)"
    using c by (simp add: normalize_step_def is_identifier_char_def code_of_def)
  then have "normalize_from (Some (CHR ''a'')) l (c # r) = c # normalize_from (Some c) c r" by (rule plain_char_step)
  finally show ?case by simp
next
  case (Suc k)
  have "\<not> is_identifier_char (hd (replicate k (CHR '' '') @ c # r))" using assms by (cases k) (simp_all add: closing_def)
  with blank_dropped [of "replicate k (CHR '' '') @ c # r" l b] Suc.IH [of "Some (CHR '' '')"] show ?case by simp
qed

lemma blanks_only: "normalize_from b l (replicate k (CHR '' '')) = []"
proof (induction k arbitrary: b)
  case (Suc k)
  have "replicate k (CHR '' '') = [] \<or> \<not> is_identifier_char (hd (replicate k (CHR '' '')))" by (cases k) simp_all
  then have "normalize_from b l (CHR '' '' # replicate k (CHR '' '')) = normalize_from (Some (CHR '' '')) l (replicate k (CHR '' ''))"
    by (intro blank_dropped) blast
  then show ?case by (simp only: replicate_Suc Suc.IH)
qed (simp add: normalize_from.simps [of _ _ "[]"])

text \<open>A word that is followed by the rest of the spelling, at the start of a token.\<close>

lemma keyword_normalized:
  assumes "w \<in> set elaborating" "token_start b"
  shows "normalize_from b l (w @ CHR '' '' # r) = normalize_from (Some (CHR '' '')) l r"
proof -
  have "w @ '' '' \<in> set type_keywords" using assms(1) keywords_of_words by (metis (no_types))
  from keyword_dropped [OF this assms(2), of l r] show ?thesis by simp
qed

lemma behind_letter:
  "is_identifier_char c \<Longrightarrow> is_identifier_char c' \<Longrightarrow> is_identifier_char l \<Longrightarrow> is_identifier_char l' \<Longrightarrow>
     normalize_from (Some c) l r = normalize_from (Some c') l' r"
  using before_irrelevant [of "Some c" "Some c'"] latest_irrelevant [of l l'] by simp

lemma spelling_normalized:
  assumes "(x, y) \<in> set integer_spellings" "at_word (x @ r) x" "token_start b" "\<not> is_identifier_char l"
  shows "normalize_from b l (x @ r) = y @ normalize_from (Some (CHR ''g'')) (CHR ''g'') r"
proof -
  have cases: "(x, y) = (''long long unsigned int'', ''unsigned long long'') \<or> (x, y) = (''unsigned long long int'', ''unsigned long long'') \<or>
      (x, y) = (''long long int'', ''long long'')"
    using assms(1) by (simp add: integer_spellings_def)
  then have "find (starts_with (x @ r)) type_keywords = None" by (elim disjE) (simp_all add: type_keywords_def)
  moreover have "find (\<lambda>q. at_word (x @ r) (fst q)) integer_spellings = Some (x, y)"
    using cases assms(2) by (elim disjE) (simp_all add: integer_spellings_def at_word_def)
  ultimately have "normalize_step b l (x @ r) = (y, length x)"
    using assms(3,4) by (simp add: normalize_step_def respell_def)
  moreover have "x \<noteq> []" "y \<noteq> []" "last x = CHR ''t''" "last y = CHR ''g''" using cases by auto
  ultimately have "normalize_from b l (x @ r) = y @ normalize_from (Some (CHR ''t'')) (CHR ''g'') r"
    by (simp add: normalize_from.simps [of b l "x @ r"])
  with behind_letter [of "CHR ''t''" "CHR ''g''" "CHR ''g''" "CHR ''g''"] letters show ?thesis by simp
qed

lemma elaborated_normalized:
  assumes "spelled True (Word v # us) s"
  obtains r where "s = CHR '' '' # r" "spelled False (Word v # us) r"
proof -
  from assms obtain s' where s: "s = CHR '' '' # v @ s'" "word v" "spelled True us s'"
      "v \<in> set elaborating \<Longrightarrow> \<not> starts_word us \<Longrightarrow> \<not> starts_with s' '' ''"
    by (rule spelled_Word_behind) blast
  have "dropWhile (\<lambda>c. c = CHR '' '') (v @ s') = v @ s'"
    using s(2) identifier_not_blank by (cases v) (auto simp: word_def)
  then have "spelled False (Word v # us) (v @ s')" using s(2-4) by (simp add: spelled.simps(3) Let_def)
  with that [of "v @ s'"] s(1) show ?thesis by blast
qed

lemma drop_words: "starts_with ts (map Word ws) \<Longrightarrow> ts = map Word ws @ drop (length ws) ts"
  by (metis append_take_drop_id length_map starts_with_def)

lemma long_normalized:
  assumes behind: "\<And>us s. length us \<le> length ts \<Longrightarrow> spelled True us s \<Longrightarrow>
      normalize_from (Some (CHR ''g'')) (CHR ''g'') s = render True (canonical us)"
    and "starts_with ts (map Word ws)" "(x @ words_text ws, y) \<in> set integer_spellings" "spelled True ts s"
      "token_start b" "\<not> is_identifier_char l"
  shows "normalize_from b l (x @ s) = y @ render True (canonical (drop (length ws) ts))"
proof -
  have "spelled True (map Word ws @ drop (length ws) ts) s" using assms(4) drop_words [OF assms(2)] by metis
  then obtain s' where s': "s = words_text ws @ s'" "spelled True (drop (length ws) ts) s'" "at_word (x @ s) (x @ words_text ws)"
    by (rule spelled_at_word) blast
  have "normalize_from b l ((x @ words_text ws) @ s') = y @ normalize_from (Some (CHR ''g'')) (CHR ''g'') s'"
    by (rule spelling_normalized [OF assms(3) _ assms(5,6)]) (use s'(1,3) in simp)
  with behind [OF _ s'(2)] s'(1) show ?thesis by simp
qed

lemma word_normalized:
  assumes behind: "\<And>us s c l. length us \<le> length ts \<Longrightarrow> spelled True us s \<Longrightarrow> is_identifier_char c \<Longrightarrow> is_identifier_char l \<Longrightarrow>
      normalize_from (Some c) l s = render True (canonical us)"
    and fresh: "\<And>s b l. spelled False ts s \<Longrightarrow> token_start b \<Longrightarrow> \<not> is_identifier_char l \<Longrightarrow>
      normalize_from b l s = render False (canonical ts)"
    and w: "word w" "spelled True ts s" "w \<in> set elaborating \<Longrightarrow> \<not> starts_word ts \<Longrightarrow> \<not> starts_with s '' ''"
    and start: "token_start b" "\<not> is_identifier_char l"
  shows "normalize_from b l (w @ s) = render False (canonical (Word w # ts))"
proof (cases "w \<in> set elaborating \<and> starts_word ts")
  case True
  then obtain v us where ts: "ts = Word v # us" by (cases ts rule: starts_word.cases) auto
  with w(2) obtain r where r: "s = CHR '' '' # r" "spelled False ts r" by (metis elaborated_normalized)
  have "normalize_from b l (w @ s) = normalize_from (Some (CHR '' '')) l r"
    using keyword_normalized [OF _ start(1)] True r(1) by simp
  with fresh [OF r(2) _ start(2), of "Some (CHR '' '')"] True show ?thesis by simp
next
  case False
  have g: "normalize_from (Some (CHR ''g'')) (CHR ''g'') r = render True (canonical us)" if "length us \<le> length ts" "spelled True us r" for us r
    using behind [OF that] letters by simp
  have spellings: "(''long'' @ words_text [''long'', ''unsigned'', ''int''], ''unsigned long long'') \<in> set integer_spellings"
    "(''unsigned'' @ words_text [''long'', ''long'', ''int''], ''unsigned long long'') \<in> set integer_spellings"
    "(''long'' @ words_text [''long'', ''int''], ''long long'') \<in> set integer_spellings"
    by (simp_all add: integer_spellings_def)
  show ?thesis
  proof (cases "long_spelled (Word w # ts)")
    case True
    then consider "w = ''long''" "starts_with ts (map Word [''long'', ''unsigned'', ''int''])"
      | "w = ''unsigned''" "starts_with ts (map Word [''long'', ''long'', ''int''])"
      | "w = ''long''" "starts_with ts (map Word [''long'', ''int''])"
      unfolding long_spelled_def starts_with_Word by blast
    then show ?thesis
    proof cases
      case 1
      then show ?thesis using long_normalized [OF g 1(2) spellings(1) w(2) start]
        by (simp add: elaborating_def numeral_3_eq_3 numeral_2_eq_2)
    next
      case 2
      then show ?thesis using long_normalized [OF g 2(2) spellings(2) w(2) start]
        by (simp add: elaborating_def numeral_3_eq_3 numeral_2_eq_2)
    next
      case 3
      then have "\<not> starts_with ts (map Word [''long'', ''unsigned'', ''int''])" by (auto simp: starts_with_iff)
      then show ?thesis using 3(1,2) long_normalized [OF g 3(2) spellings(3) w(2) start]
        by (simp add: elaborating_def numeral_3_eq_3 numeral_2_eq_2)
    qed
  next
    case no: False
    show ?thesis
    proof (cases "w = ''__int64''")
      case True
      have "at_word (w @ s) w" using spelled_behind_boundary [OF w(2)] by (cases s) (simp_all add: at_word_def nth_append starts_with_iff)
      then have "normalize_from b l (w @ s) = ''long long'' @ normalize_from (Some (CHR ''g'')) (CHR ''g'') s"
        unfolding True using start by (rule normalize_int64)
      with g [OF order_refl w(2)] True show ?thesis by (simp add: elaborating_def)
    next
      case other: False
      have "plain_word w s"
        using w False by (intro plain_spelled [OF w(1,2) _ no other]) blast
      then have "normalize_from b l (w @ s) = w @ normalize_from (Some (last w)) (last w) s" by (rule plain_word_run)
      moreover have "is_identifier_char (last w)" using w(1) by (simp add: word_def list_all_iff)
      moreover have "canonical (Word w # ts) = Word w # canonical ts"
        using False no other unfolding long_spelled_def starts_with_Word
        by (simp only: canonical.simps de_Morgan_disj if_False) (simp only: de_Morgan_conj simp_thms if_False cong: if_cong, blast?)
      ultimately show ?thesis using behind [OF order_refl w(2)] by simp
    qed
  qed
qed

lemma spelled_normalized:
  "(spelled True ts s \<longrightarrow> is_identifier_char c \<longrightarrow> is_identifier_char l \<longrightarrow> normalize_from (Some c) l s = render True (canonical ts)) \<and>
   (spelled False ts s \<longrightarrow> token_start b \<longrightarrow> \<not> is_identifier_char l' \<longrightarrow> normalize_from b l' s = render False (canonical ts))"
proof (induction "length ts" arbitrary: ts s c l b l' rule: less_induct)
  case less
  show ?case
  proof (cases ts)
    case Nil
    have "spelled p [] s \<Longrightarrow> normalize_from b l s = []" for p b l
      using blanks_only [of b l "length s"] by (simp add: spelled.simps list_all_iff replicate_length_same)
    with Nil show ?thesis by simp
  next
    case (Cons t us)
    show ?thesis
    proof (cases t)
      case (Mark d)
      have "normalize_from b l s = render p (canonical ts)" if "spelled p ts s" for p b l
      proof -
        from that obtain k r where s: "s = replicate k (CHR '' '') @ d # r" "closing d" "spelled False us r"
          unfolding Cons Mark by (rule spelled_Mark)
        have "normalize_from (Some d) d r = render False (canonical us)"
          using less [of us r] s(2,3) Cons by (simp add: closing_def)
        with blanks_before_mark [OF s(2), of b l k r] s(1) show ?thesis by (simp add: Cons Mark)
      qed
      then show ?thesis by blast
    next
      case (Word w)
      have step: "normalize_from b l (w @ s') = render False (canonical ts)"
        if "word w" "spelled True us s'" "w \<in> set elaborating \<Longrightarrow> \<not> starts_word us \<Longrightarrow> \<not> starts_with s' '' ''"
          "token_start b" "\<not> is_identifier_char l" for s' b l
        unfolding Cons Word using that less Cons by (intro word_normalized) auto
      show ?thesis
      proof (intro conjI impI)
        assume s: "spelled True ts s" "is_identifier_char c" "is_identifier_char l"
        from s(1) obtain s' where s': "s = CHR '' '' # w @ s'" "word w" "spelled True us s'"
            "w \<in> set elaborating \<Longrightarrow> \<not> starts_word us \<Longrightarrow> \<not> starts_with s' '' ''"
          unfolding Cons Word by (rule spelled_Word_behind) blast
        obtain d w' where w: "w = d # w'" "is_identifier_char d" using s'(2) by (cases w) (auto simp: word_def)
        have "normalize_from (Some c) l s = CHR '' '' # normalize_from (Some (CHR '' '')) (CHR '' '') (w @ s')"
          using blank_kept [OF s(3) w(2), of "Some c"] s(2) s'(1) w(1) by simp
        also have "\<dots> = CHR '' '' # render False (canonical ts)" using step [OF s'(2-4)] by simp
        also have "\<dots> = render True (canonical ts)"
          using render_behind [OF starts_word_canonical] Cons Word by simp
        finally show "normalize_from (Some c) l s = render True (canonical ts)" .
      next
        assume s: "spelled False ts s" "token_start b" "\<not> is_identifier_char l'"
        from s(1) obtain k s' where s': "s = replicate k (CHR '' '') @ w @ s'" "word w" "spelled True us s'"
            "w \<in> set elaborating \<Longrightarrow> \<not> starts_word us \<Longrightarrow> \<not> starts_with s' '' ''"
          unfolding Cons Word by (rule spelled_Word) blast
        obtain b' where "token_start b'" "normalize_from b l' s = normalize_from b' l' (w @ s')"
          unfolding s'(1) by (rule blanks_dropped [OF s(3,2)]) blast
        with step [OF s'(2-4) _ s(3)] show "normalize_from b l' s = render False (canonical ts)" by simp
      qed
    qed
  qed
qed

section \<open>Different types\<close>

fun sound_tokens :: "spelling_token list \<Rightarrow> bool" where
  "sound_tokens [] = True"
| "sound_tokens (Word w # ts) \<longleftrightarrow> word w \<and> sound_tokens ts"
| "sound_tokens (Mark c # ts) \<longleftrightarrow> closing c \<and> sound_tokens ts"

lemma sound_append [simp]: "sound_tokens (ts @ us) \<longleftrightarrow> sound_tokens ts \<and> sound_tokens us"
  by (induction ts rule: sound_tokens.induct) auto

lemma sound_drop: "sound_tokens ts \<Longrightarrow> sound_tokens (drop n ts)"
  by (metis append_take_drop_id sound_append)

lemma sound_canonical: "sound_tokens ts \<Longrightarrow> sound_tokens (canonical ts)"
  by (induction ts rule: canonical.induct) (auto simp: sound_drop)

lemma spelled_sound: "spelled p ts s \<Longrightarrow> sound_tokens ts"
proof (induction ts arbitrary: p s)
  case (Cons t ts)
  show ?case
  proof (cases t)
    case (Word w)
    with Cons show ?thesis by (cases p) (auto elim!: spelled_Word spelled_Word_behind)
  next
    case (Mark c)
    with Cons show ?thesis by (auto elim!: spelled_Mark)
  qed
qed simp

lemma render_boundary: "sound_tokens ts \<Longrightarrow> render True ts = [] \<or> \<not> is_identifier_char (hd (render True ts))"
  by (cases ts rule: sound_tokens.cases) (auto simp: closing_def)

lemma render_Mark:
  assumes "sound_tokens us" "closing c" "render p us = c # s"
  shows "\<exists>vs. us = Mark c # vs \<and> render False vs = s"
proof (cases us rule: sound_tokens.cases)
  case (2 w vs)
  with assms show ?thesis by (cases w) (auto simp: word_def closing_def split: if_splits)
qed (use assms in auto)

lemma render_injective: "sound_tokens ts \<Longrightarrow> sound_tokens us \<Longrightarrow> render p ts = render p us \<Longrightarrow> ts = us"
proof (induction ts arbitrary: p us)
  case Nil
  then show ?case by (cases us rule: sound_tokens.cases) (auto simp: word_def)
next
  case (Cons t ts)
  show ?case
  proof (cases t)
    case (Mark c)
    with Cons.prems obtain vs where vs: "us = Mark c # vs" "render False vs = render False ts"
      using render_Mark [of us c p "render False ts"] by auto
    with Cons.IH [of vs False] Cons.prems Mark show ?thesis by simp
  next
    case (Word w)
    show ?thesis
    proof (cases us rule: sound_tokens.cases)
      case 1
      with Cons.prems Word show ?thesis by (simp add: word_def)
    next
      case (2 v vs)
      have "w @ render True ts = v @ render True vs" using Cons.prems(3) 2 Word by (simp split: if_splits)
      moreover have "word w" "sound_tokens ts" "word v" "sound_tokens vs" using Cons.prems(1,2) 2 Word by simp_all
      ultimately have "w = v" "render True ts = render True vs" "sound_tokens ts" "sound_tokens vs"
        using same_run [of w "render True ts" v "render True vs"] render_boundary by simp_all
      with Cons.IH 2 Word show ?thesis by blast
    next
      case (3 c vs)
      with Cons.prems have "\<exists>vs. t # ts = Mark c # vs"
        using render_Mark [of "t # ts" c p "render False vs"] by auto
      with Word show ?thesis by simp
    qed
  qed
qed

section \<open>Members\<close>

lemma find_rev_upt: "P k \<Longrightarrow> k < n \<Longrightarrow> (\<And>i. k < i \<Longrightarrow> i < n \<Longrightarrow> \<not> P i) \<Longrightarrow> find P (rev [0..<n]) = Some k"
proof (induction n)
  case (Suc n)
  then show ?case by (cases "k = n") (auto simp: less_Suc_eq)
qed simp

lemma starts_with_mem: "starts_with s p \<Longrightarrow> c \<in> set p \<Longrightarrow> c \<in> set s"
  by (auto simp: starts_with_iff)

lemma after_colons_last:
  assumes "CHR '':'' \<notin> set m"
  shows "after_colons (x @ ''::'' @ m) = m"
proof -
  have "rfind_text ''::'' (x @ ''::'' @ m) = Some (length x)"
    unfolding rfind_text_def
  proof (rule find_rev_upt)
    fix i assume i: "length x < i" "i < Suc (length (x @ ''::'' @ m))"
    then obtain j where j: "i = length x + Suc j" by (metis less_imp_Suc_add add_Suc_right)
    have "\<not> starts_with (drop j (CHR '':'' # m)) ''::''"
    proof (cases j)
      case 0
      then show ?thesis using assms by (cases m) auto
    next
      case (Suc k)
      then show ?thesis using assms starts_with_mem [of "drop k m" "''::''" "CHR '':''"] by (auto dest: in_set_dropD)
    qed
    then show "\<not> starts_with (drop i (x @ ''::'' @ m)) ''::''" by (simp add: j)
  qed simp_all
  then show ?thesis by (simp add: after_colons_def)
qed

lemma find_text_char: "find_text [c] s = (if c \<in> set s then Some (length (takeWhile (\<lambda>d. d \<noteq> c) s)) else None)"
  by (induction s) auto

lemma identifier_chars: "is_identifier m \<Longrightarrow> CHR '':'' \<notin> set m \<and> CHR ''('' \<notin> set m"
proof -
  have "\<not> is_identifier_char (CHR '':'')" "\<not> is_identifier_char (CHR ''('')" by (simp_all add: is_identifier_char_def code_of_def)
  then show "is_identifier m \<Longrightarrow> ?thesis" by (auto simp: is_identifier_def list_all_iff)
qed

text \<open>The first parenthesis ends the text even when it stands in a template argument of the class.\<close>

lemma member_of_function_template:
  "member_name_from_raw ''&ns::box<ns::fn(int)>::value'' = ''fn''"
  "member_name_from_raw ''int std::function<void __cdecl(int)>::call(int)'' = []"
  by code_simp+

text \<open>C38: A member pointer names its member. In a text that a compiler prints for \<open>&T::m\<close>, be it \<open>&ns::T::m\<close> or a whole
  signature with result, calling convention and a parameter list behind \<open>m\<close>, the name that is taken is \<open>m\<close>, provided
  that \<open>m\<close> is an identifier other than \<open>operator\<close>, that nothing or an opening parenthesis follows it and that no opening parenthesis stands before \<open>::m\<close>
  (one does when a function type is among the template arguments of the class or in the result type; there another name or none may be taken). Whatever the text, the name is an identifier or empty, in which case the library asks for an explicit name.\<close>

theorem member_names:
  assumes "is_identifier m" "m \<noteq> ''operator''" "CHR ''('' \<notin> set x" "rest = [] \<or> hd rest = CHR ''(''"
  shows "member_name_from_raw (x @ ''::'' @ m @ rest) = m \<and> (member_name_from_raw raw = [] \<or> is_identifier (member_name_from_raw raw))"
proof -
  let ?s = "x @ ''::'' @ m"
  have chars: "CHR '':'' \<notin> set m" "CHR ''('' \<notin> set m" using identifier_chars [OF assms(1)] by simp_all
  have cut: "(case find_text ''('' (?s @ rest) of None \<Rightarrow> ?s @ rest | Some i \<Rightarrow> take i (?s @ rest)) = ?s"
  proof (cases "rest = []")
    case True
    then show ?thesis using chars assms(3) by (simp add: find_text_char)
  next
    case False
    then obtain q where rest: "rest = CHR ''('' # q" using assms(4) by (cases rest) auto
    have "takeWhile (\<lambda>d. d \<noteq> CHR ''('') (?s @ rest) = ?s"
      using chars assms(3) by (subst takeWhile_append2) (auto simp: rest)
    then have "find_text ''('' (?s @ rest) = Some (length ?s)" by (simp only: find_text_char) (simp add: rest)
    then show ?thesis by simp
  qed
  have no: "\<not> (starts_with m ''operator'' \<and> (length m = 8 \<or> \<not> is_identifier_char (m ! 8)))"
  proof
    assume operator: "starts_with m ''operator'' \<and> (length m = 8 \<or> \<not> is_identifier_char (m ! 8))"
    then obtain r where r: "m = ''operator'' @ r" by (auto simp: starts_with_iff)
    with assms(1,2) operator show False by (cases r) (auto simp: is_identifier_def)
  qed
  have "member_name_from_raw (?s @ rest) = (if starts_with m ''operator'' \<and> (length m = 8 \<or> \<not> is_identifier_char (m ! 8)) then []
      else if is_identifier m then m else [])"
    by (simp only: member_name_from_raw_def Let_def cut after_colons_last [OF chars(1)])
  then have "member_name_from_raw (?s @ rest) = m" by (simp only: no assms(1) if_True if_False)
  moreover have "member_name_from_raw raw = [] \<or> is_identifier (member_name_from_raw raw)"
    by (simp add: member_name_from_raw_def Let_def)
  ultimately show ?thesis by simp
qed

theorem member_names_witness:
  "member_name_from_raw ''void __cdecl game::actor::damage(int,struct game::vector)'' = ''damage''"
  using member_names [of "''damage''" "''void __cdecl game::actor''" "''(int,struct game::vector)''"]
  by (simp add: is_identifier_def is_digit_def is_identifier_char_def code_of_def)

section \<open>Types\<close>

text \<open>The name of a type is the part of the signature that the compiler varies: the frame measured with the probe
  \<open>double\<close> cuts any other type out of the signature with the same beginning and end, as long as the probe first
  occurs where the argument stands.\<close>

theorem name_from_signature:
  assumes "find_text probe (before @ probe @ behind) = Some (length before)"
  shows "cut_frame (before @ type @ behind) (make_signature_frame (before @ probe @ behind) probe) = type"
  using assms by (simp add: make_signature_frame_def cut_frame_def)

theorem name_from_signature_witness:
  "cut_frame ''auto type_signature() [T = game::actor]'' (make_signature_frame ''auto type_signature() [T = double]'' ''double'') =
     ''game::actor''"
  using name_from_signature [of "''double''" "''auto type_signature() [T = ''" "'']''" "''game::actor''"] by simp

text \<open>C37: Compilers agree on the names of types, and confuse none. A text is spelled from tokens, words and
  other characters: one blank between adjacent words, any blanks (or none) before every other character, between it and
  a word behind it, and at both ends, and no blank behind a \<open>class\<close>, \<open>struct\<close>, \<open>enum\<close> or \<open>union\<close> that is not followed by
  a word. The name of such a text is its canonical list of tokens, printed with a blank between adjacent words only:
  without the elaborated type specifiers (those four before another word), and with the 64-bit integers of MSVC and GCC
  as \<open>long long\<close> and \<open>unsigned long long\<close>, also inside template arguments. Two texts get the same name if and only if these lists are the same:
  \<open>const char *\<close> and \<open>const char*\<close>, \<open>const __int64\<close> and \<open>const long long\<close>, but no two types that differ in anything else.\<close>

theorem compilers_agree:
  assumes "spelled False ts a" "spelled False us b"
  shows "normalize_type_name a = render False (canonical ts) \<and>
    (normalize_type_name a = normalize_type_name b \<longleftrightarrow> canonical ts = canonical us)"
proof -
  have same: "normalize_type_name s = render False (canonical vs)" if "spelled False vs s" for vs s
    using spelled_normalized [of vs s] that by (simp add: normalize_type_name_def)
  show ?thesis
    using same [OF assms(1)] same [OF assms(2)] render_injective [of "canonical ts" "canonical us" False]
      spelled_sound [OF assms(1)] spelled_sound [OF assms(2)] sound_canonical by metis
qed

theorem compilers_agree_witness:
  "normalize_type_name ''class pair<const unsigned __int64,struct actor * >'' = ''pair<const unsigned long long,actor*>'' \<and>
   normalize_type_name ''class pair<const unsigned __int64,struct actor * >'' = normalize_type_name ''pair<const long long unsigned int, actor*>'' \<and>
   normalize_type_name ''const char *'' = normalize_type_name ''const char*'' \<and>
   normalize_type_name ''const char *'' \<noteq> normalize_type_name ''char const *''"
proof (intro conjI)
  let ?ts = "[Word ''class'', Word ''pair'', Mark CHR ''<'', Word ''const'', Word ''unsigned'', Word ''__int64'', Mark CHR '','',
    Word ''struct'', Word ''actor'', Mark CHR ''*'', Mark CHR ''>'']"
  let ?us = "[Word ''pair'', Mark CHR ''<'', Word ''const'', Word ''long'', Word ''long'', Word ''unsigned'', Word ''int'', Mark CHR '','',
    Word ''actor'', Mark CHR ''*'', Mark CHR ''>'']"
  let ?vs = "[Word ''const'', Word ''char'', Mark CHR ''*'']" and ?ws = "[Word ''char'', Word ''const'', Mark CHR ''*'']"
  have ts: "spelled False ?ts ''class pair<const unsigned __int64,struct actor * >''" by code_simp
  have us: "spelled False ?us ''pair<const long long unsigned int, actor*>''" by code_simp
  have vs: "spelled False ?vs ''const char *''" "spelled False ?vs ''const char*''" by code_simp+
  have ws: "spelled False ?ws ''char const *''" by code_simp
  have canonical: "render False (canonical ?ts) = ''pair<const unsigned long long,actor*>''" "canonical ?ts = canonical ?us"
    "canonical ?vs \<noteq> canonical ?ws"
    by code_simp+
  show "normalize_type_name ''class pair<const unsigned __int64,struct actor * >'' = ''pair<const unsigned long long,actor*>''"
    using compilers_agree [OF ts us] canonical(1) by metis
  show "normalize_type_name ''class pair<const unsigned __int64,struct actor * >'' = normalize_type_name ''pair<const long long unsigned int, actor*>''"
    using compilers_agree [OF ts us] canonical(2) by metis
  show "normalize_type_name ''const char *'' = normalize_type_name ''const char*''" using compilers_agree [OF vs] by metis
  show "normalize_type_name ''const char *'' \<noteq> normalize_type_name ''char const *''" using compilers_agree [OF vs(1) ws] canonical(3) by metis
qed

end
