(* ===== verification/Attribute_Scan.thy ===== *)
theory Attribute_Scan
  imports Strings
begin

text \<open>
  Finding attributes in the tokens of a header (\<open>generator/src/attribute_scan.cpp\<close>). A position in
  the tokens is the list of tokens from there on; positions in the file are the offsets that
  tokens carry.
\<close>

section \<open>Tokens\<close>

datatype token_kind = Punctuation | Keyword | Identifier | Literal | Comment

record token =
  token_kind :: token_kind
  token_spelling :: string
  token_begin :: nat
  token_end :: nat

record scanned_attribute =
  scanned_scope :: string
  scanned_name :: string
  scanned_has_arguments :: bool
  arguments_begin :: nat
  arguments_end :: nat
  scanned_begin :: nat

record attribute_group =
  group_begin :: nat
  group_end :: nat
  group_attributes :: "scanned_attribute list"

definition is_mark :: "token \<Rightarrow> string \<Rightarrow> bool" where
  "is_mark t s \<longleftrightarrow> token_kind t = Punctuation \<and> token_spelling t = s"

definition is_name :: "token \<Rightarrow> bool" where
  "is_name t \<longleftrightarrow> token_kind t = Identifier \<or> token_kind t = Keyword"

section \<open>Groups\<close>

definition opens :: "token \<Rightarrow> bool" where
  "opens t \<longleftrightarrow> token_spelling t = ''('' \<or> token_spelling t = ''['' \<or> token_spelling t = ''{''"

definition closes :: "token \<Rightarrow> bool" where
  "closes t \<longleftrightarrow> token_spelling t = '')'' \<or> token_spelling t = '']'' \<or> token_spelling t = ''}''"

definition closer :: "token \<Rightarrow> char" where
  "closer t = (if token_spelling t = ''('' then CHR '')'' else if token_spelling t = ''['' then CHR '']'' else CHR ''}'')"

text \<open>The matching close of the first token, with what follows it; \<open>expected\<close> has the innermost bracket first.\<close>

fun matching_parenthesis :: "char list \<Rightarrow> token list \<Rightarrow> (token \<times> token list) option" where
  "matching_parenthesis expected [] = None"
| "matching_parenthesis expected (t # ts) =
     (if token_kind t \<noteq> Punctuation then matching_parenthesis expected ts
      else if opens t then matching_parenthesis (closer t # expected) ts
      else if closes t
      then (case expected of
          [] \<Rightarrow> None
        | e # es \<Rightarrow> if e \<noteq> hd (token_spelling t) then None
            else if es = [] then Some (t, ts) else matching_parenthesis es ts)
      else matching_parenthesis expected ts)"

lemma matching_shorter: "matching_parenthesis expected ts = Some (c, r) \<Longrightarrow> length r < length ts"
  by (induction expected ts rule: matching_parenthesis.induct) (auto split: if_splits list.splits)

text \<open>The name of an attribute with its scope, and the tokens behind it.\<close>

definition attribute_head :: "string \<Rightarrow> token list \<Rightarrow> string \<times> string \<times> token list" where
  "attribute_head scope ts =
     (case ts of
        t # c # n # rest \<Rightarrow> if is_mark c ''::'' \<and> is_name n then (token_spelling t, token_spelling n, rest)
          else (scope, token_spelling t, c # n # rest)
      | t # rest \<Rightarrow> (scope, token_spelling t, rest)
      | [] \<Rightarrow> (scope, [], []))"

lemma attribute_head_shorter: "attribute_head scope ts = (s, n, r) \<Longrightarrow> ts \<noteq> [] \<Longrightarrow> length r < length ts"
  by (auto simp: attribute_head_def split: list.splits if_splits)

definition attribute_at :: "token \<Rightarrow> string \<Rightarrow> string \<Rightarrow> scanned_attribute" where
  "attribute_at t scope name = \<lparr>scanned_scope = scope, scanned_name = name, scanned_has_arguments = False,
     arguments_begin = 0, arguments_end = 0, scanned_begin = token_begin t\<rparr>"

function parse_attributes :: "string \<Rightarrow> token list \<Rightarrow> (scanned_attribute list \<times> token \<times> token list) option" where
  "parse_attributes scope ts =
     (if ts = [] then None
      else let t = hd ts
      in if is_mark t '']'' \<and> tl ts \<noteq> [] \<and> is_mark (hd (tl ts)) '']'' then Some ([], hd (tl ts), tl (tl ts))
      else if is_mark t '','' then parse_attributes scope (tl ts)
      else if \<not> is_name t then None
      else let (s, n, rest) = attribute_head scope ts; attribute = attribute_at t s n
      in if rest \<noteq> [] \<and> is_mark (hd rest) ''(''
         then (case matching_parenthesis [] rest of
             None \<Rightarrow> None
           | Some (close, rest') \<Rightarrow>
               map_option (\<lambda>(attributes, fin, rest''). (attribute\<lparr>scanned_has_arguments := True,
                   arguments_begin := token_end (hd rest), arguments_end := token_begin close\<rparr> # attributes, fin, rest''))
                 (parse_attributes scope rest'))
         else map_option (\<lambda>(attributes, fin, rest''). (attribute # attributes, fin, rest'')) (parse_attributes scope rest))"
  by pat_completeness auto
termination
  by (relation "measure (length \<circ> snd)")
     (auto dest!: attribute_head_shorter [OF sym] matching_shorter)

declare parse_attributes.simps [simp del]

definition using_scope :: "token list \<Rightarrow> string \<times> token list" where
  "using_scope ts =
     (case ts of
        u # n # c # rest \<Rightarrow> if token_kind u = Keyword \<and> token_spelling u = ''using'' \<and> is_name n \<and> is_mark c '':''
          then (token_spelling n, rest) else ([], ts)
      | _ \<Rightarrow> ([], ts))"

definition parse_group :: "token list \<Rightarrow> (attribute_group \<times> token list) option" where
  "parse_group ts =
     (let (scope, body) = using_scope (drop 2 ts)
      in map_option (\<lambda>(attributes, fin, rest).
           (\<lparr>group_begin = token_begin (hd ts), group_end = token_end fin, group_attributes = attributes\<rparr>, rest))
         (parse_attributes scope body))"

lemma parse_attributes_shorter: "parse_attributes scope ts = Some (attributes, fin, rest) \<Longrightarrow> length rest < length ts"
proof (induction scope ts arbitrary: attributes fin rest rule: parse_attributes.induct)
  case (1 scope ts)
  note step = 1(4) [unfolded parse_attributes.simps [of scope ts]]
  show ?case
  proof (cases "ts = []")
    case False
    obtain s n r where h: "attribute_head scope ts = (s, n, r)" by (metis prod.exhaust)
    note less = attribute_head_shorter [OF h False]
    have tl: "length (tl ts) < length ts" using False by (cases ts) auto
    show ?thesis using step False 1(1) [OF False refl] 1(2) [OF False refl _ _ _ h [symmetric] refl refl]
        1(3) [OF False refl _ _ _ h [symmetric] refl refl] less tl
      by (auto simp: Let_def h dest!: matching_shorter split: if_splits option.splits) (force | linarith)+
  qed (use step in simp)
qed

lemma using_scope_shorter: "using_scope ts = (scope, body) \<Longrightarrow> length body \<le> length ts"
  by (auto simp: using_scope_def split: list.splits if_splits)

lemma parse_group_shorter: "parse_group ts = Some (g, rest) \<Longrightarrow> 2 \<le> length ts \<Longrightarrow> length rest < length ts"
  by (auto simp: parse_group_def dest!: parse_attributes_shorter using_scope_shorter split: prod.splits)

function scan_attribute_groups :: "token list \<Rightarrow> attribute_group list" where
  "scan_attribute_groups ts =
     (case ts of
        a # b # rest \<Rightarrow>
          if is_mark a ''['' \<and> is_mark b ''[''
          then (case parse_group ts of
              Some (g, rest') \<Rightarrow> g # scan_attribute_groups rest'
            | None \<Rightarrow> scan_attribute_groups (b # rest))
          else scan_attribute_groups (b # rest)
      | _ \<Rightarrow> [])"
  by pat_completeness auto
termination
  by (relation "measure length") (auto dest: parse_group_shorter)

declare scan_attribute_groups.simps [simp del]

section \<open>Quick tests of the text of a header\<close>

fun contains_word_from :: "char option \<Rightarrow> string \<Rightarrow> string \<Rightarrow> bool" where
  "contains_word_from before [] word \<longleftrightarrow> word = [] \<and> (case before of None \<Rightarrow> True | Some c \<Rightarrow> \<not> is_identifier_char c)"
| "contains_word_from before (c # s) word \<longleftrightarrow>
     (starts_with (c # s) word \<and> (case before of None \<Rightarrow> True | Some b \<Rightarrow> \<not> is_identifier_char b) \<and>
       (length word = length (c # s) \<or> \<not> is_identifier_char ((c # s) ! length word))) \<or>
     contains_word_from (Some c) s word"

definition contains_word :: "string \<Rightarrow> string \<Rightarrow> bool" where
  "contains_word s word \<longleftrightarrow> contains_word_from None s word"

definition is_blank :: "char \<Rightarrow> bool" where
  "is_blank c \<longleftrightarrow> c = CHR '' '' \<or> c = CHR 0x09 \<or> c = CHR 0x0D \<or> c = CHR 0x0A \<or> c = CHR 0x0C \<or> c = CHR 0x0B"

definition using_reflgen :: string where
  "using_reflgen = ''usingreflgen:''"

definition list_declares :: "string \<Rightarrow> string \<Rightarrow> bool" where
  "list_declares list name =
     (let compact = filter (\<lambda>c. \<not> is_blank c) list
      in if starts_with compact using_reflgen then contains_word (drop (length using_reflgen) compact) name
         else contains_word compact (''reflgen::'' @ name))"

text \<open>The argument begins where the next search for \<open>[[\<close> does.\<close>

function declares_from :: "string \<Rightarrow> string \<Rightarrow> bool" where
  "declares_from s name =
     (case find_text ''[['' s of
        None \<Rightarrow> False
      | Some open_at \<Rightarrow>
          let inside = drop (open_at + 2) s
          in case find_text '']]'' inside of
              None \<Rightarrow> False
            | Some n \<Rightarrow> list_declares (take n inside) name \<or> declares_from inside name)"
  by pat_completeness auto
termination
  by (relation "measure (length \<circ> fst)") (auto dest: find_text_less)

declare declares_from.simps [simp del]

definition declares_attribute :: "string \<Rightarrow> string \<Rightarrow> bool" where
  "declares_attribute s name = declares_from s name"

definition declares_reflection :: "string \<Rightarrow> bool" where
  "declares_reflection s \<longleftrightarrow> declares_attribute s ''reflect'' \<or> declares_attribute s ''runtime''"

definition declares_interop :: "string \<Rightarrow> bool" where
  "declares_interop s \<longleftrightarrow> declares_attribute s ''interop'' \<or> declares_attribute s ''lifetime'' \<or>
     declares_attribute s ''property_get'' \<or> declares_attribute s ''property_set'' \<or> declares_attribute s ''effect'' \<or>
     declares_attribute s ''owner'' \<or> declares_attribute s ''receiver'' \<or> declares_attribute s ''value'' \<or>
     declares_attribute s ''table''"

section \<open>The share of a declaration\<close>

text \<open>
  Tokens and groups are in the order of the file, so that the binary search of the code finds the
  first element that is not before the offset.
\<close>

definition first_token_from :: "nat \<Rightarrow> token list \<Rightarrow> token list" where
  "first_token_from offset ts = dropWhile (\<lambda>t. token_begin t < offset) ts"

definition first_group_from :: "nat \<Rightarrow> attribute_group list \<Rightarrow> attribute_group list" where
  "first_group_from offset gs = dropWhile (\<lambda>g. group_begin g < offset) gs"

definition next_token_offset :: "token list \<Rightarrow> nat \<Rightarrow> nat option" where
  "next_token_offset ts offset =
     (case first_token_from offset ts of
        t # n # _ \<Rightarrow> if token_begin t \<noteq> offset then None else Some (token_begin n)
      | _ \<Rightarrow> None)"

partial_function (option) run_at :: "token list \<Rightarrow> attribute_group list \<Rightarrow> nat \<Rightarrow> attribute_group list \<Rightarrow> attribute_group list option" where
  "run_at ts gs offset run =
     (case first_group_from offset gs of
        [] \<Rightarrow> Some run
      | g # _ \<Rightarrow>
          if group_begin g \<noteq> offset then Some run
          else case first_token_from (group_end g) ts of
              [] \<Rightarrow> Some (run @ [g])
            | n # _ \<Rightarrow> run_at ts gs (token_begin n) (run @ [g]))"

definition groups_run_at :: "token list \<Rightarrow> attribute_group list \<Rightarrow> nat \<Rightarrow> attribute_group list option" where
  "groups_run_at ts gs offset = run_at ts gs offset []"

text \<open>The tokens before the position, the nearest first.\<close>

definition skip_comments :: "token list \<Rightarrow> token list" where
  "skip_comments previous = dropWhile (\<lambda>t. token_kind t = Comment) previous"

definition tokens_before :: "nat \<Rightarrow> token list \<Rightarrow> token list" where
  "tokens_before offset ts = rev (takeWhile (\<lambda>t. token_begin t < offset) ts)"

partial_function (option) run_before :: "token list \<Rightarrow> attribute_group list \<Rightarrow> token list \<Rightarrow> attribute_group list \<Rightarrow> attribute_group list option" where
  "run_before ts gs previous run =
     (case skip_comments previous of
        [] \<Rightarrow> Some run
      | p # _ \<Rightarrow>
          (case find (\<lambda>g. group_end g = token_end p) gs of
             None \<Rightarrow> Some run
           | Some g \<Rightarrow> run_before ts gs (tokens_before (group_begin g) ts) (g # run)))"

definition groups_run_before :: "token list \<Rightarrow> attribute_group list \<Rightarrow> nat \<Rightarrow> attribute_group list option" where
  "groups_run_before ts gs offset =
     (case first_token_from offset ts of
        [] \<Rightarrow> Some []
      | t # _ \<Rightarrow> if token_begin t \<noteq> offset then Some [] else run_before ts gs (tokens_before offset ts) [])"

definition groups_between :: "attribute_group list \<Rightarrow> nat \<Rightarrow> nat \<Rightarrow> attribute_group list" where
  "groups_between gs first fin = filter (\<lambda>g. group_begin g \<ge> first \<and> group_end g \<le> fin) gs"

section \<open>Arguments\<close>

definition follows_member_access :: "token option \<Rightarrow> bool" where
  "follows_member_access previous =
     (case previous of
        None \<Rightarrow> False
      | Some t \<Rightarrow> token_kind t = Punctuation \<and> (token_spelling t = ''::'' \<or> token_spelling t = ''.'' \<or> token_spelling t = ''->'' \<or>
          token_spelling t = ''.*'' \<or> token_spelling t = ''->*''))"

definition tokens_between :: "token list \<Rightarrow> nat \<Rightarrow> nat \<Rightarrow> token list" where
  "tokens_between ts first fin = takeWhile (\<lambda>t. token_end t \<le> fin) (first_token_from first ts)"

text \<open>The qualifier of a member name is asked from the scope of the class: a parameter.\<close>

fun argument_from :: "(string \<Rightarrow> string) \<Rightarrow> token option \<Rightarrow> token list \<Rightarrow> string" where
  "argument_from qualifier_of previous [] = []"
| "argument_from qualifier_of previous (t # ts) =
     (if token_kind t = Comment then argument_from qualifier_of previous ts
      else (case previous of Some p \<Rightarrow> if token_end p < token_begin t then '' '' else [] | None \<Rightarrow> []) @
        (if token_kind t = Identifier \<and> \<not> follows_member_access previous then qualifier_of (token_spelling t) else []) @
        token_spelling t @ argument_from qualifier_of (Some t) ts)"

definition argument_text :: "(string \<Rightarrow> string) \<Rightarrow> token list \<Rightarrow> nat \<Rightarrow> nat \<Rightarrow> string" where
  "argument_text qualifier_of ts first fin = argument_from qualifier_of None (tokens_between ts first fin)"

fun external_from :: "(string \<Rightarrow> string) \<Rightarrow> token option \<Rightarrow> string list \<Rightarrow> token list \<Rightarrow> string list" where
  "external_from qualifier_of previous names [] = names"
| "external_from qualifier_of previous names (t # ts) =
     (if token_kind t = Comment then external_from qualifier_of previous names ts
      else let root = (token_kind t = Identifier \<and> \<not> follows_member_access previous);
               s = token_spelling t
           in external_from qualifier_of (Some t)
             (if root \<and> s \<noteq> ''reflgen'' \<and> s \<noteq> ''std'' \<and> qualifier_of s = [] \<and> s \<notin> set names then names @ [s] else names) ts)"

definition external_identifiers :: "(string \<Rightarrow> string) \<Rightarrow> token list \<Rightarrow> nat \<Rightarrow> nat \<Rightarrow> string list" where
  "external_identifiers qualifier_of ts first fin = external_from qualifier_of None [] (tokens_between ts first fin)"

end
