(* ===== verification/Attribute_Grammar.thy ===== *)
theory Attribute_Grammar
  imports Attribute_Scan
begin

text \<open>
  The groups of attributes as a grammar, and that the scanner finds exactly them; the share of a
  declaration as a run of adjacent groups.
\<close>

section \<open>The grammar\<close>

definition open_bracket :: "token \<Rightarrow> bool" where
  "open_bracket t \<longleftrightarrow> token_kind t = Punctuation \<and> opens t"

definition close_bracket :: "token \<Rightarrow> bool" where
  "close_bracket t \<longleftrightarrow> token_kind t = Punctuation \<and> closes t"

definition closed_by :: "char \<Rightarrow> token \<Rightarrow> bool" where
  "closed_by e c \<longleftrightarrow> token_kind c = Punctuation \<and> closes c \<and> token_spelling c = [e]"

inductive balanced :: "token list \<Rightarrow> bool" where
  balanced_nil: "balanced []"
| balanced_other: "\<not> open_bracket t \<Longrightarrow> \<not> close_bracket t \<Longrightarrow> balanced ts \<Longrightarrow> balanced (t # ts)"
| balanced_pair: "open_bracket t \<Longrightarrow> balanced us \<Longrightarrow> closed_by (closer t) c \<Longrightarrow> balanced ts \<Longrightarrow> balanced (t # us @ c # ts)"

inductive head_tokens :: "string \<Rightarrow> token list \<Rightarrow> scanned_attribute \<Rightarrow> bool" for scope where
  plain_head: "is_name t \<Longrightarrow> head_tokens scope [t] (attribute_at t scope (token_spelling t))"
| scoped_head: "is_name t \<Longrightarrow> is_mark c ''::'' \<Longrightarrow> is_name n \<Longrightarrow>
    head_tokens scope [t, c, n] (attribute_at t (token_spelling t) (token_spelling n))"

inductive list_tokens :: "string \<Rightarrow> token list \<Rightarrow> scanned_attribute list \<Rightarrow> bool" for scope where
  no_attribute: "list_tokens scope [] []"
| separator: "is_mark t '','' \<Longrightarrow> list_tokens scope ts as \<Longrightarrow> list_tokens scope (t # ts) as"
| without_arguments: "head_tokens scope hs a \<Longrightarrow> list_tokens scope ts as \<Longrightarrow> list_tokens scope (hs @ ts) (a # as)"
| with_arguments: "head_tokens scope hs a \<Longrightarrow> is_mark b ''('' \<Longrightarrow> balanced us \<Longrightarrow> is_mark c '')'' \<Longrightarrow> list_tokens scope ts as \<Longrightarrow>
    list_tokens scope (hs @ b # us @ c # ts)
      (a\<lparr>scanned_has_arguments := True, arguments_begin := token_end b, arguments_end := token_begin c\<rparr> # as)"

inductive scope_tokens :: "token list \<Rightarrow> string \<Rightarrow> bool" where
  no_scope: "scope_tokens [] []"
| using_scope: "token_kind u = Keyword \<Longrightarrow> token_spelling u = ''using'' \<Longrightarrow> is_name n \<Longrightarrow> is_mark c '':'' \<Longrightarrow>
    scope_tokens [u, n, c] (token_spelling n)"

inductive group_tokens :: "token list \<Rightarrow> attribute_group \<Rightarrow> bool" where
  "is_mark a ''['' \<Longrightarrow> is_mark b ''['' \<Longrightarrow> scope_tokens us scope \<Longrightarrow> list_tokens scope ts as \<Longrightarrow>
     is_mark c '']'' \<Longrightarrow> is_mark d '']'' \<Longrightarrow>
     group_tokens (a # b # us @ ts @ [c, d]) \<lparr>group_begin = token_begin a, group_end = token_end d, group_attributes = as\<rparr>"

text \<open>Every position is either the beginning of a group, whose tokens are consumed, or skipped.\<close>

inductive groups_of :: "token list \<Rightarrow> attribute_group list \<Rightarrow> bool" where
  no_tokens: "groups_of [] []"
| group: "group_tokens body g \<Longrightarrow> groups_of ts gs \<Longrightarrow> groups_of (body @ ts) (g # gs)"
| no_group: "\<nexists>body rest g. t # ts = body @ rest \<and> group_tokens body g \<Longrightarrow> groups_of ts gs \<Longrightarrow> groups_of (t # ts) gs"

section \<open>Brackets\<close>

lemma match_closing: "closed_by e c \<Longrightarrow> matching_parenthesis (e # es) (c # ts) = (if es = [] then Some (c, ts) else matching_parenthesis es ts)"
  by (auto simp: closed_by_def opens_def closes_def)

lemma match_opening: "open_bracket t \<Longrightarrow> matching_parenthesis es (t # ts) = matching_parenthesis (closer t # es) ts"
  by (simp add: open_bracket_def)

lemma match_other: "\<not> open_bracket t \<Longrightarrow> \<not> close_bracket t \<Longrightarrow> matching_parenthesis es (t # ts) = matching_parenthesis es ts"
  by (auto simp: open_bracket_def close_bracket_def)

lemma match_closing_iff: "close_bracket t \<Longrightarrow> \<not> open_bracket t \<Longrightarrow> matching_parenthesis (e # es) (t # ts) =
    (if e \<noteq> hd (token_spelling t) then None else if es = [] then Some (t, ts) else matching_parenthesis es ts)"
  by (auto simp: open_bracket_def close_bracket_def)

declare matching_parenthesis.simps(2) [simp del]

lemma match_balanced: "balanced us \<Longrightarrow> es \<noteq> [] \<Longrightarrow> matching_parenthesis es (us @ ts) = matching_parenthesis es ts"
  by (induction arbitrary: es ts rule: balanced.induct) (simp_all add: match_opening match_other match_closing)

lemma close_spelled: "close_bracket c \<Longrightarrow> closed_by (hd (token_spelling c)) c"
  by (auto simp: closed_by_def close_bracket_def closes_def)

lemma matching_decomposes:
  "matching_parenthesis (e # es) ts = Some (c, r) \<Longrightarrow>
    \<exists>us d ts'. ts = us @ d # ts' \<and> balanced us \<and> closed_by e d \<and>
      (if es = [] then c = d \<and> r = ts' else matching_parenthesis es ts' = Some (c, r))"
proof (induction "length ts" arbitrary: e es ts rule: less_induct)
  case less
  show ?case
  proof (cases ts)
    case Nil
    then show ?thesis using less.prems by simp
  next
    case (Cons t rest)
    consider "open_bracket t" | "close_bracket t" "\<not> open_bracket t" | "\<not> open_bracket t" "\<not> close_bracket t" by blast
    then show ?thesis
    proof cases
      case 1
      then have "matching_parenthesis (closer t # e # es) rest = Some (c, r)" using less.prems Cons by (simp add: match_opening)
      from less.hyps [OF _ this] obtain us d ts' where 2: "rest = us @ d # ts'" "balanced us" "closed_by (closer t) d"
          "matching_parenthesis (e # es) ts' = Some (c, r)" unfolding Cons by auto
      from less.hyps [OF _ 2(4)] obtain us' d' ts'' where 3: "ts' = us' @ d' # ts''" "balanced us'" "closed_by e d'"
          "if es = [] then c = d' \<and> r = ts'' else matching_parenthesis es ts'' = Some (c, r)" unfolding Cons 2 by auto
      have "ts = (t # us @ d # us') @ d' # ts''" "balanced (t # us @ d # us')"
        using Cons 1 2 3 by (auto intro: balanced_pair)
      with 3 show ?thesis by blast
    next
      case 2
      then have e: "e = hd (token_spelling t)" using less.prems Cons
        by (simp add: match_closing_iff split: if_splits)
      with close_spelled [OF 2(1)] have "closed_by e t" by simp
      with less.prems Cons show ?thesis by (intro exI [of _ "[]"] exI [of _ t] exI [of _ rest]) (auto simp: match_closing balanced_nil split: if_splits)
    next
      case 3
      then have "matching_parenthesis (e # es) rest = Some (c, r)" using less.prems Cons by (simp add: match_other)
      from less.hyps [OF _ this] obtain us d ts' where "rest = us @ d # ts'" "balanced us" "closed_by e d"
          "if es = [] then c = d \<and> r = ts' else matching_parenthesis es ts' = Some (c, r)" unfolding Cons by auto
      with 3 Cons show ?thesis by (intro exI [of _ "t # us"] exI [of _ d] exI [of _ ts']) (auto intro: balanced_other)
    qed
  qed
qed

lemma mark_bracket: "is_mark b ''('' \<Longrightarrow> open_bracket b" "is_mark b ''('' \<Longrightarrow> closer b = CHR '')''"
  "is_mark c '')'' \<longleftrightarrow> closed_by (CHR '')'') c"
  by (auto simp: is_mark_def open_bracket_def opens_def closer_def closed_by_def closes_def)

lemma matching_iff:
  assumes "is_mark b ''(''"
  shows "matching_parenthesis [] (b # ts) = Some (c, r) \<longleftrightarrow> (\<exists>us. ts = us @ c # r \<and> balanced us \<and> is_mark c '')'')"
proof
  assume "matching_parenthesis [] (b # ts) = Some (c, r)"
  then have "matching_parenthesis [CHR '')''] ts = Some (c, r)" using assms by (simp only: match_opening [OF mark_bracket(1)] mark_bracket(2))
  from matching_decomposes [OF this] show "\<exists>us. ts = us @ c # r \<and> balanced us \<and> is_mark c '')''" by (auto simp: mark_bracket(3))
next
  assume "\<exists>us. ts = us @ c # r \<and> balanced us \<and> is_mark c '')''"
  then show "matching_parenthesis [] (b # ts) = Some (c, r)"
    using assms by (auto simp: match_opening [OF mark_bracket(1)] mark_bracket(2,3) match_balanced match_closing)
qed

section \<open>Attributes\<close>

lemma comma_not_name: "is_mark t s \<Longrightarrow> \<not> is_name t"
  by (simp add: is_mark_def is_name_def)

lemma mark_unique: "is_mark t s \<Longrightarrow> is_mark t s' \<longleftrightarrow> s = s'"
  by (auto simp: is_mark_def)

lemma attribute_head_iff:
  assumes "ts \<noteq> []" "is_name (hd ts)"
  shows "\<exists>hs. attribute_head scope ts = (s, n, rest) \<longrightarrow> ts = hs @ rest \<and> head_tokens scope hs (attribute_at (hd ts) s n)"
proof -
  obtain t r where ts: "ts = t # r" using assms(1) by (cases ts) auto
  show ?thesis
  proof (cases "\<exists>c m q. r = c # m # q \<and> is_mark c ''::'' \<and> is_name m")
    case True
    then obtain c m q where "r = c # m # q" "is_mark c ''::''" "is_name m" by blast
    with assms show ?thesis
      by (intro exI [of _ "[t, c, m]"]) (auto simp: ts attribute_head_def intro: scoped_head)
  next
    case False
    then have "attribute_head scope ts = (scope, token_spelling t, r)"
      by (auto simp: ts attribute_head_def split: list.splits)
    with assms show ?thesis by (intro exI [of _ "[t]"]) (auto simp: ts intro: plain_head)
  qed
qed

text \<open>What can stand behind a name: never \<open>::\<close>.\<close>

definition behind_name :: "token list \<Rightarrow> bool" where
  "behind_name ts \<longleftrightarrow> ts = [] \<or> \<not> is_mark (hd ts) ''::''"

lemma head_attribute_head:
  assumes "head_tokens scope hs a" "behind_name ts"
  shows "\<exists>s n. hs \<noteq> [] \<and> is_name (hd hs) \<and> attribute_head scope (hs @ ts) = (s, n, ts) \<and> a = attribute_at (hd hs) s n"
  using assms by cases (auto simp: attribute_head_def behind_name_def split: list.splits)

lemma list_tokens_first: "list_tokens scope ts as \<Longrightarrow> ts = [] \<or> is_mark (hd ts) '','' \<or> is_name (hd ts)"
  by (induction rule: list_tokens.induct) (auto elim: head_tokens.cases)

lemma list_tokens_behind:
  assumes "list_tokens scope ts as" "is_mark c '']''"
  shows "behind_name (ts @ c # rest)" "\<not> is_mark (hd (ts @ c # rest)) ''(''"
  using list_tokens_first [OF assms(1)] assms(2) by (cases ts; auto simp: behind_name_def is_mark_def is_name_def)+

lemma parse_step_comma: "is_mark t '','' \<Longrightarrow> parse_attributes scope (t # ts) = parse_attributes scope ts"
  by (simp add: parse_attributes.simps [of scope "t # ts"] mark_unique)

lemma parse_step_end: "is_mark c '']'' \<Longrightarrow> is_mark d '']'' \<Longrightarrow> parse_attributes scope (c # d # rest) = Some ([], d, rest)"
  by (simp add: parse_attributes.simps [of scope "c # d # rest"])

lemma parse_step_plain:
  assumes "is_name (hd ts)" "ts \<noteq> []" "attribute_head scope ts = (s, n, rest)" "rest = [] \<or> \<not> is_mark (hd rest) ''(''"
  shows "parse_attributes scope ts =
    map_option (\<lambda>(as, fin, rest'). (attribute_at (hd ts) s n # as, fin, rest')) (parse_attributes scope rest)"
  using assms by (subst parse_attributes.simps) (auto dest: comma_not_name simp: Let_def)

lemma parse_step_arguments:
  assumes "is_name (hd ts)" "ts \<noteq> []" "attribute_head scope ts = (s, n, b # rest)" "is_mark b ''(''"
  shows "parse_attributes scope ts = (case matching_parenthesis [] (b # rest) of None \<Rightarrow> None | Some (c, rest') \<Rightarrow>
    map_option (\<lambda>(as, fin, rest''). ((attribute_at (hd ts) s n)\<lparr>scanned_has_arguments := True,
      arguments_begin := token_end b, arguments_end := token_begin c\<rparr> # as, fin, rest'')) (parse_attributes scope rest'))"
  using assms by (subst parse_attributes.simps) (auto dest: comma_not_name simp: Let_def split: option.splits)

lemma parse_complete:
  assumes "list_tokens scope ts as" "is_mark c '']''" "is_mark d '']''"
  shows "parse_attributes scope (ts @ c # d # rest) = Some (as, d, rest)"
  using assms(1)
proof induction
  case no_attribute
  then show ?case using assms by (simp add: parse_step_end)
next
  case (separator t ts as)
  then show ?case by (simp add: parse_step_comma)
next
  case (without_arguments hs a ts as)
  note behind = list_tokens_behind [OF without_arguments(2) assms(2), of "d # rest"]
  from head_attribute_head [OF without_arguments(1) behind(1)] obtain s n where
    "hs \<noteq> []" "is_name (hd hs)" "attribute_head scope (hs @ ts @ c # d # rest) = (s, n, ts @ c # d # rest)" "a = attribute_at (hd hs) s n"
    by blast
  with without_arguments behind(2) parse_step_plain [of "hs @ ts @ c # d # rest" scope s n "ts @ c # d # rest"] show ?case by simp
next
  case (with_arguments hs a b us e ts as)
  let ?rest = "us @ e # ts @ c # d # rest"
  have "behind_name (b # ?rest)" using with_arguments by (auto simp: behind_name_def mark_unique)
  from head_attribute_head [OF with_arguments(1) this] obtain s n where
    "hs \<noteq> []" "is_name (hd hs)" "attribute_head scope (hs @ b # ?rest) = (s, n, b # ?rest)" "a = attribute_at (hd hs) s n"
    by blast
  moreover have "matching_parenthesis [] (b # ?rest) = Some (e, ts @ c # d # rest)"
    using with_arguments by (auto simp: matching_iff)
  ultimately show ?case using with_arguments parse_step_arguments [of "hs @ b # ?rest" scope s n b ?rest] by simp
qed

lemma some_map_option: "Some y = map_option f x \<longleftrightarrow> (\<exists>z. x = Some z \<and> f z = y)"
  by (cases x) auto

lemma parse_sound:
  "parse_attributes scope ts = Some (as, fin, rest) \<Longrightarrow>
    \<exists>body c. ts = body @ c # fin # rest \<and> list_tokens scope body as \<and> is_mark c '']'' \<and> is_mark fin '']''"
proof (induction "length ts" arbitrary: ts as rule: less_induct)
  case less
  then have "ts \<noteq> []" by (auto simp: parse_attributes.simps [of scope "[]"])
  then obtain t tl where ts: "ts = t # tl" by (cases ts) auto
  consider (fin) d r where "is_mark t '']''" "tl = d # r" "is_mark d '']''" | (comma) "is_mark t '',''" | (name) "is_name t"
    using less.prems by (subst (asm) parse_attributes.simps) (auto simp: ts neq_Nil_conv split: if_splits)
  then show ?case
  proof cases
    case fin
    then show ?thesis using less.prems
      by (intro exI [of _ "[]"] exI [of _ t]) (simp add: ts parse_step_end no_attribute)
  next
    case comma
    then have "parse_attributes scope tl = Some (as, fin, rest)" using less.prems by (simp add: ts parse_step_comma)
    from less.hyps [OF _ this] obtain body c where
      "tl = body @ c # fin # rest" "list_tokens scope body as" "is_mark c '']''" "is_mark fin '']''" by (auto simp: ts)
    with comma show ?thesis by (intro exI [of _ "t # body"] exI [of _ c]) (simp add: ts separator)
  next
    case name
    then have hd: "is_name (hd ts)" by (simp add: ts)
    obtain s n r where h: "attribute_head scope ts = (s, n, r)" by (metis prod.exhaust)
    obtain hs where hs: "ts = hs @ r" "head_tokens scope hs (attribute_at (hd ts) s n)"
      using attribute_head_iff [OF \<open>ts \<noteq> []\<close> hd, of scope s n r] h by blast
    have short: "length r < length ts" using attribute_head_shorter [OF h \<open>ts \<noteq> []\<close>] .
    show ?thesis
    proof (cases "r = [] \<or> \<not> is_mark (hd r) ''(''")
      case True
      have "map_option (\<lambda>(as, fin, rest'). (attribute_at (hd ts) s n # as, fin, rest')) (parse_attributes scope r) = Some (as, fin, rest)"
        using parse_step_plain [OF hd \<open>ts \<noteq> []\<close> h True] less.prems by simp
      then obtain as' where as: "as = attribute_at (hd ts) s n # as'" "parse_attributes scope r = Some (as', fin, rest)" by auto
      from less.hyps [OF short as(2)] obtain body c where
        "r = body @ c # fin # rest" "list_tokens scope body as'" "is_mark c '']''" "is_mark fin '']''" by blast
      with hs as show ?thesis
        by (intro exI [of _ "hs @ body"] exI [of _ c]) (auto intro: without_arguments)
    next
      case False
      then obtain b q where r: "r = b # q" "is_mark b ''(''" by (cases r) auto
      with parse_step_arguments [OF hd \<open>ts \<noteq> []\<close> _ r(2), of scope s n q] h less.prems obtain e q' as' where
        e: "matching_parenthesis [] (b # q) = Some (e, q')" "parse_attributes scope q' = Some (as', fin, rest)"
          "as = (attribute_at (hd ts) s n)\<lparr>scanned_has_arguments := True, arguments_begin := token_end b,
            arguments_end := token_begin e\<rparr> # as'"
        by (auto simp: some_map_option split: option.splits)
      from e(1) obtain us where us: "q = us @ e # q'" "balanced us" "is_mark e '')''" by (auto simp: matching_iff [OF r(2)])
      from less.hyps [OF _ e(2)] short obtain body c where
        "q' = body @ c # fin # rest" "list_tokens scope body as'" "is_mark c '']''" "is_mark fin '']''" by (auto simp: r us)
      with hs e r us show ?thesis
        by (intro exI [of _ "hs @ b # us @ e # body"] exI [of _ c]) (auto intro: with_arguments)
    qed
  qed
qed

section \<open>Groups\<close>

lemma scope_tokens_iff: "using_scope ts = (scope, body) \<Longrightarrow> \<exists>us. ts = us @ body \<and> scope_tokens us scope"
  by (auto simp: using_scope_def intro: scope_tokens.intros split: list.splits if_splits)

lemma list_tokens_name:
  assumes "list_tokens scope (t # ts) as" "is_name t"
  shows "ts = [] \<or> (is_name (hd ts) \<and> (\<exists>as'. list_tokens scope ts as')) \<or>
    is_mark (hd ts) '','' \<or> is_mark (hd ts) ''('' \<or> is_mark (hd ts) ''::''"
  using assms
proof cases
  case separator
  then show ?thesis using assms(2) comma_not_name by blast
next
  case (without_arguments hs a ts' as')
  then show ?thesis using list_tokens_first [OF without_arguments(4)] by (auto elim!: head_tokens.cases)
next
  case (with_arguments hs a b us c ts' as')
  then show ?thesis by (auto elim!: head_tokens.cases)
qed

lemma mark_no_colon: "is_mark t s \<Longrightarrow> s \<noteq> '':'' \<Longrightarrow> \<not> is_mark t '':''"
  by (simp add: mark_unique)

lemma list_no_colon:
  assumes "list_tokens scope ts as" "is_mark c '']''" "ts @ c # rest = u # n # x # q" "is_name u" "is_name n"
  shows "\<not> is_mark x '':''"
proof -
  have no_c: "\<not> is_name c" "\<not> is_mark c '':''" using assms(2) by (simp_all add: comma_not_name mark_unique)
  obtain ts1 where ts: "ts = u # ts1" using assms no_c by (cases ts) auto
  have ts1: "ts1 @ c # rest = n # x # q" using assms(3) ts by simp
  obtain ts2 where "ts1 = n # ts2" using ts1 assms(5) no_c by (cases ts1) auto
  with list_tokens_name [of scope u ts1 as] assms ts obtain as' where "list_tokens scope (n # ts2) as'"
    by (auto dest: comma_not_name)
  from list_tokens_name [OF this assms(5)] no_c ts1 \<open>ts1 = n # ts2\<close> show ?thesis
    by (cases ts2) (auto dest: comma_not_name mark_no_colon)
qed

lemma scope_complete:
  assumes "scope_tokens us scope" "list_tokens scope ts as" "is_mark c '']''"
  shows "using_scope (us @ ts @ c # rest) = (scope, ts @ c # rest)"
  using assms(1)
proof cases
  case no_scope
  then show ?thesis using list_no_colon [OF assms(2,3), of rest]
    by (auto simp: using_scope_def is_name_def split: list.splits)
qed (simp add: using_scope_def)

lemma parse_group_iff:
  assumes "is_mark a ''[''" "is_mark b ''[''"
  shows "parse_group (a # b # ts) = Some (g, rest) \<longleftrightarrow> (\<exists>body. a # b # ts = body @ rest \<and> group_tokens body g)"
proof
  assume parsed: "parse_group (a # b # ts) = Some (g, rest)"
  obtain scope body where u: "using_scope ts = (scope, body)" by (metis prod.exhaust)
  obtain us where us: "ts = us @ body" "scope_tokens us scope" using scope_tokens_iff [OF u] by blast
  from parsed u obtain as fin where p: "parse_attributes scope body = Some (as, fin, rest)"
    "g = \<lparr>group_begin = token_begin a, group_end = token_end fin, group_attributes = as\<rparr>"
    by (auto simp: parse_group_def)
  from parse_sound [OF p(1)] obtain l c where l: "body = l @ c # fin # rest" "list_tokens scope l as" "is_mark c '']''" "is_mark fin '']''"
    by blast
  from group_tokens.intros [OF assms us(2) l(2-4)] us l p(2)
  show "\<exists>body. a # b # ts = body @ rest \<and> group_tokens body g"
    by (intro exI [of _ "a # b # us @ l @ [c, fin]"]) simp
next
  assume "\<exists>body. a # b # ts = body @ rest \<and> group_tokens body g"
  then show "parse_group (a # b # ts) = Some (g, rest)"
    by (auto simp: parse_group_def scope_complete parse_complete elim!: group_tokens.cases)
qed

lemma group_tokens_shape: "group_tokens body g \<Longrightarrow>
  \<exists>a b r. body = a # b # r @ [last body] \<and> is_mark a ''['' \<and> is_mark b ''['' \<and> group_begin g = token_begin a \<and> group_end g = token_end (last body)"
  by (erule group_tokens.cases) simp

lemma scan_step:
  assumes "ts = a # b # rest" "is_mark a ''['' \<and> is_mark b ''[''" "parse_group ts = Some (g, rest')"
  shows "scan_attribute_groups ts = g # scan_attribute_groups rest'"
  using assms by (subst scan_attribute_groups.simps) simp

lemma scan_skip:
  assumes "\<nexists>body rest g. t # ts = body @ rest \<and> group_tokens body g"
  shows "scan_attribute_groups (t # ts) = scan_attribute_groups ts"
proof (cases ts)
  case Nil
  then show ?thesis by (simp add: scan_attribute_groups.simps)
next
  case (Cons b rest)
  have "\<not> (is_mark t ''['' \<and> is_mark b ''['') \<or> parse_group (t # b # rest) = None"
    using assms parse_group_iff [of t b rest] unfolding Cons by (cases "parse_group (t # b # rest)") (auto, blast)
  then show ?thesis unfolding Cons by (subst scan_attribute_groups.simps) auto
qed

lemma scan_group:
  assumes "group_tokens body g"
  shows "scan_attribute_groups (body @ ts) = g # scan_attribute_groups ts"
proof -
  obtain a b r where body: "body = a # b # r" "is_mark a ''[''" "is_mark b ''[''" using group_tokens_shape [OF assms] by auto
  with assms have "parse_group (body @ ts) = Some (g, ts)" using parse_group_iff [of a b "r @ ts" g ts] by auto
  with body scan_step [of "body @ ts" a b "r @ ts" g ts] show ?thesis by simp
qed

lemma scan_complete: "groups_of ts gs \<Longrightarrow> scan_attribute_groups ts = gs"
proof (induction rule: groups_of.induct)
  case no_tokens
  then show ?case by (simp add: scan_attribute_groups.simps)
qed (simp_all add: scan_group scan_skip)

lemma groups_of_exists: "\<exists>gs. groups_of ts gs"
proof (induction "length ts" arbitrary: ts rule: less_induct)
  case less
  show ?case
  proof (cases "\<exists>body rest g. ts = body @ rest \<and> group_tokens body g")
    case True
    then obtain body rest g where ts: "ts = body @ rest" "group_tokens body g" by blast
    then have "length rest < length ts" using group_tokens_shape [OF ts(2)] by auto
    with less obtain gs where "groups_of rest gs" by blast
    with ts show ?thesis by (blast intro: groups_of.group)
  next
    case False
    show ?thesis
    proof (cases ts)
      case (Cons t r)
      then obtain gs where "groups_of r gs" using less by auto
      with False show ?thesis unfolding Cons by (blast intro: no_group)
    qed (blast intro: no_tokens)
  qed
qed

lemma scan_iff: "scan_attribute_groups ts = gs \<longleftrightarrow> groups_of ts gs"
  using scan_complete groups_of_exists by metis

section \<open>The order of groups\<close>

text \<open>The tokens of a file: each has characters, and they follow one another.\<close>

definition in_file_order :: "token list \<Rightarrow> bool" where
  "in_file_order ts \<longleftrightarrow> list_all (\<lambda>t. token_begin t < token_end t) ts \<and>
     sorted_wrt (\<lambda>s t. token_end s \<le> token_begin t) ts"

definition groups_ordered :: "attribute_group list \<Rightarrow> bool" where
  "groups_ordered gs \<longleftrightarrow> list_all (\<lambda>g. group_begin g < group_end g) gs \<and>
     sorted_wrt (\<lambda>g h. group_end g \<le> group_begin h) gs"

lemma in_file_order_append:
  "in_file_order (xs @ ys) \<longleftrightarrow> in_file_order xs \<and> in_file_order ys \<and> (\<forall>x\<in>set xs. \<forall>y\<in>set ys. token_end x \<le> token_begin y)"
  by (auto simp: in_file_order_def sorted_wrt_append)

lemma groups_of_located: "groups_of ts gs \<Longrightarrow> g \<in> set gs \<Longrightarrow> \<exists>pre body post. ts = pre @ body @ post \<and> group_tokens body g"
proof (induction rule: groups_of.induct)
  case (group body h ts gs)
  then show ?case by (auto) (metis append_Nil, metis append_assoc)
next
  case (no_group t ts gs)
  then show ?case by (metis append_Cons)
qed simp

lemma within_ends:
  assumes "in_file_order ts" "t \<in> set ts"
  shows "token_begin (hd ts) \<le> token_begin t" "token_begin t < token_end (last ts)"
proof -
  obtain x r where ts: "ts = x # r" using assms(2) by (cases ts) auto
  show "token_begin (hd ts) \<le> token_begin t" using assms by (fastforce simp: ts in_file_order_def)
  obtain r' z where ts: "ts = r' @ [z]" using assms(2) by (cases ts rule: rev_cases) auto
  show "token_begin t < token_end (last ts)" using assms
    by (fastforce simp: ts in_file_order_def sorted_wrt_append list_all_iff)
qed

lemma group_ends: "group_tokens body g \<Longrightarrow> body \<noteq> [] \<and> group_begin g = token_begin (hd body) \<and> group_end g = token_end (last body)"
  using group_tokens_shape [of body g] by (metis list.sel(1) list.distinct(1))

lemma group_span:
  assumes "in_file_order (pre @ body @ post)" "group_tokens body g"
  shows "group_begin g < group_end g" "\<forall>t\<in>set pre. token_end t \<le> group_begin g" "\<forall>t\<in>set body. token_begin t < group_end g"
    "\<forall>t\<in>set body. group_begin g \<le> token_begin t" "\<forall>t\<in>set post. group_end g \<le> token_begin t"
    "\<forall>t\<in>set pre. token_begin t < group_begin g"
proof -
  note ends = group_ends [OF assms(2)]
  have order: "in_file_order body" using assms(1) by (simp add: in_file_order_append)
  have hd: "hd body \<in> set body" "last body \<in> set body" using ends by simp_all
  show pre: "\<forall>t\<in>set pre. token_end t \<le> group_begin g" "\<forall>t\<in>set post. group_end g \<le> token_begin t"
    using assms(1) ends hd by (auto simp: in_file_order_append)
  have "list_all (\<lambda>t. token_begin t < token_end t) pre" using assms(1) by (simp add: in_file_order_def)
  with pre(1) show "\<forall>t\<in>set pre. token_begin t < group_begin g" by (fastforce simp: list_all_iff)
  show "\<forall>t\<in>set body. token_begin t < group_end g" "\<forall>t\<in>set body. group_begin g \<le> token_begin t"
    using within_ends [OF order] ends by auto
  then show "group_begin g < group_end g" using hd ends by auto
qed

lemma scan_ordered: "groups_of ts gs \<Longrightarrow> in_file_order ts \<Longrightarrow> groups_ordered gs \<and> (\<forall>g\<in>set gs. ts \<noteq> [] \<and> token_begin (hd ts) \<le> group_begin g)"
proof (induction rule: groups_of.induct)
  case no_tokens
  then show ?case by (simp add: groups_ordered_def)
next
  case (group body g ts gs)
  have "in_file_order ts" using group.prems by (simp add: in_file_order_append)
  note IH = group.IH [OF this]
  have g: "group_begin g < group_end g" using group_span(1) [of "[]" body ts g] group by simp
  have "group_end g \<le> group_begin h" if "h \<in> set gs" for h
  proof -
    have "ts \<noteq> []" "token_begin (hd ts) \<le> group_begin h" using IH that by auto
    with group_span(5) [of "[]" body ts g] group show ?thesis by (metis append_Nil hd_in_set order_trans)
  qed
  with g IH group_ends [OF group.hyps(1)] show ?case by (fastforce simp: groups_ordered_def)
next
  case (no_group t ts gs)
  then have "in_file_order ts" by (simp add: in_file_order_def)
  note IH = no_group.IH [OF this]
  have "token_begin t \<le> group_begin g" if "g \<in> set gs" for g
  proof -
    have "ts \<noteq> []" "token_begin (hd ts) \<le> group_begin g" using IH that by auto
    with within_ends(1) [OF no_group.prems, of "hd ts"] show ?thesis by simp
  qed
  with IH show ?case by simp
qed

section \<open>Runs of groups\<close>

text \<open>Groups one after another, with something from \<open>gap\<close> behind each.\<close>

inductive run_tokens :: "(token list \<Rightarrow> bool) \<Rightarrow> token list \<Rightarrow> attribute_group list \<Rightarrow> bool" for gap where
  empty_run: "run_tokens gap [] []"
| longer_run: "group_tokens body g \<Longrightarrow> gap cs \<Longrightarrow> run_tokens gap ts gs \<Longrightarrow> run_tokens gap (body @ cs @ ts) (g # gs)"

lemma run_tokens_append: "run_tokens gap ts gs \<Longrightarrow> run_tokens gap ts' gs' \<Longrightarrow> run_tokens gap (ts @ ts') (gs @ gs')"
  by (induction rule: run_tokens.induct) (auto intro: run_tokens.intros)

lemma first_token_split:
  "\<forall>t\<in>set xs. token_begin t < offset \<Longrightarrow> ys = [] \<or> offset \<le> token_begin (hd ys) \<Longrightarrow> first_token_from offset (xs @ ys) = ys"
  unfolding first_token_from_def by (subst dropWhile_append2) (cases ys; auto)+

lemma before_split:
  "\<forall>t\<in>set xs. token_begin t < offset \<Longrightarrow> ys = [] \<or> offset \<le> token_begin (hd ys) \<Longrightarrow> tokens_before offset (xs @ ys) = rev xs"
  unfolding tokens_before_def by (subst takeWhile_append2) (cases ys; auto)+

lemma first_group_iff:
  assumes "groups_ordered gs"
  shows "(case first_group_from offset gs of [] \<Rightarrow> \<forall>g\<in>set gs. group_begin g \<noteq> offset
    | g # _ \<Rightarrow> g \<in> set gs \<and> (group_begin g \<noteq> offset \<longrightarrow> (\<forall>h\<in>set gs. group_begin h \<noteq> offset)))"
  using assms
proof (induction gs)
  case (Cons g gs)
  then have IH: "case first_group_from offset gs of [] \<Rightarrow> \<forall>g\<in>set gs. group_begin g \<noteq> offset
    | g # _ \<Rightarrow> g \<in> set gs \<and> (group_begin g \<noteq> offset \<longrightarrow> (\<forall>h\<in>set gs. group_begin h \<noteq> offset))"
    by (simp add: groups_ordered_def)
  show ?case
  proof (cases "group_begin g < offset")
    case True
    then have "first_group_from offset (g # gs) = first_group_from offset gs" by (simp add: first_group_from_def)
    with IH True show ?thesis by (auto split: list.splits)
  next
    case False
    with Cons.prems show ?thesis by (fastforce simp: first_group_from_def groups_ordered_def)
  qed
qed (simp add: first_group_from_def)

definition no_group_at :: "attribute_group list \<Rightarrow> nat \<Rightarrow> bool" where
  "no_group_at gs offset \<longleftrightarrow> (\<forall>g\<in>set gs. group_begin g \<noteq> offset)"

lemma run_at_result:
  assumes "in_file_order ts" "gs = scan_attribute_groups ts" "ts = pre @ tail" "\<forall>t\<in>set pre. token_begin t < offset"
    "tail = [] \<or> offset \<le> token_begin (hd tail)"
  shows "\<exists>rts run post. tail = rts @ post \<and> run_tokens (\<lambda>c. c = []) rts run \<and> run_at ts gs offset acc = Some (acc @ run) \<and>
    (rts = [] \<longrightarrow> no_group_at gs offset) \<and>
    (rts \<noteq> [] \<longrightarrow> token_begin (hd tail) = offset \<and> (post = [] \<or> no_group_at gs (token_begin (hd post))))"
  using assms(3-)
proof (induction "length tail" arbitrary: pre tail offset acc rule: less_induct)
  case less
  have ordered: "groups_ordered gs" using scan_ordered assms(1,2) scan_iff by blast
  note first = first_group_iff [OF ordered, of offset]
  show ?case
  proof (cases "\<exists>g\<in>set gs. group_begin g = offset")
    case False
    then have "run_at ts gs offset acc = Some acc"
      using first by (subst run_at.simps) (auto split: list.splits)
    with False show ?thesis by (intro exI [of _ "[]"] exI [of _ tail]) (auto simp: no_group_at_def intro: empty_run)
  next
    case True
    with first obtain g gr where g: "first_group_from offset gs = g # gr" "g \<in> set gs" "group_begin g = offset"
      by (auto split: list.splits)
    obtain pre' body post where b: "ts = pre' @ body @ post" "group_tokens body g"
      using groups_of_located g(2) assms(2) scan_iff by metis
    note span = group_span [OF assms(1) [unfolded b(1)] b(2)] and ends = group_ends [OF b(2)]
    have "\<forall>t\<in>set pre'. token_begin t < offset" using span(6) g(3) by simp
    then have "first_token_from offset (pre' @ body @ post) = body @ post" using ends g(3) by (intro first_token_split) auto
    moreover have "first_token_from offset ts = tail" unfolding less.prems(1) using less.prems by (intro first_token_split) auto
    ultimately have tail: "tail = body @ post" "pre = pre'" using b(1) less.prems(1) by auto
    have before: "\<forall>t\<in>set (pre @ body). token_begin t < group_end g" using less.prems(2) span g(3) by fastforce
    have behind: "post = [] \<or> group_end g \<le> token_begin (hd post)" using span(5) by (cases post) auto
    have next_token: "first_token_from (group_end g) ts = post"
      unfolding b(1) using first_token_split [of "pre @ body" "group_end g" post] before behind tail by simp
    show ?thesis
    proof (cases "post = []")
      case True
      have "run_at ts gs offset acc = Some (acc @ [g])" by (subst run_at.simps) (simp add: g next_token True)
      moreover have "run_tokens (\<lambda>c. c = []) body [g]" using longer_run [OF b(2), of "\<lambda>c. c = []" "[]" "[]" "[]"] by (simp add: empty_run)
      ultimately show ?thesis using tail True ends g(3) by (intro exI [of _ body] exI [of _ "[g]"] exI [of _ "[]"]) auto
    next
      case False
      then obtain n q where post: "post = n # q" by (cases post) auto
      have run: "run_at ts gs offset acc = run_at ts gs (token_begin n) (acc @ [g])"
        by (subst run_at.simps) (simp add: g next_token post)
      have "\<forall>t\<in>set (pre @ body). token_begin t < token_begin n" using before behind post by fastforce
      from less.hyps [OF _ _ this, of post "acc @ [g]"] tail ends less.prems(1) post
      obtain rts run' post' where r: "post = rts @ post'" "run_tokens (\<lambda>c. c = []) rts run'"
        "run_at ts gs (token_begin n) (acc @ [g]) = Some ((acc @ [g]) @ run')"
        "rts = [] \<longrightarrow> no_group_at gs (token_begin n)"
        "rts \<noteq> [] \<longrightarrow> post' = [] \<or> no_group_at gs (token_begin (hd post'))"
        by (metis append_assoc length_append length_greater_0_conv less_add_same_cancel2 list.sel(1) order_refl)
      have "run_tokens (\<lambda>c. c = []) (body @ rts) (g # run')" using longer_run [OF b(2) _ r(2), of "[]"] by simp
      with run r tail ends g(3) post show ?thesis
        by (intro exI [of _ "body @ rts"] exI [of _ "g # run'"] exI [of _ post']) (cases "rts = []"; auto)
    qed
  qed
qed

lemma located_by_end:
  assumes "in_file_order ts" "ts = xs @ p # ys" "ts = xs' @ p' # ys'" "token_end p = token_end p'"
  shows "xs = xs' \<and> p = p' \<and> ys = ys'"
proof -
  have different: "token_end (ts ! i) < token_end (ts ! j)" if "i < j" "j < length ts" for i j
  proof -
    have "token_end (ts ! i) \<le> token_begin (ts ! j)" "token_begin (ts ! j) < token_end (ts ! j)"
      using assms(1) that by (auto simp: in_file_order_def list_all_length dest: sorted_wrt_nth_less)
    then show ?thesis by simp
  qed
  have "ts ! length xs = p" "ts ! length xs' = p'" "length xs < length ts" "length xs' < length ts"
    using assms(2) assms(3) by (simp, metis nth_append_length, simp, metis length_append length_Cons less_add_Suc1 add_Suc_right)
  with different [of "length xs" "length xs'"] different [of "length xs'" "length xs"] assms(4) have "length xs = length xs'"
    by (metis less_irrefl linorder_neqE_nat)
  with assms(2,3) show ?thesis by simp
qed

definition no_group_before :: "attribute_group list \<Rightarrow> token list \<Rightarrow> bool" where
  "no_group_before gs pre \<longleftrightarrow> (case skip_comments (rev pre) of [] \<Rightarrow> True | p # _ \<Rightarrow> \<forall>g\<in>set gs. group_end g \<noteq> token_end p)"

abbreviation comments :: "token list \<Rightarrow> bool" where
  "comments \<equiv> list_all (\<lambda>t. token_kind t = Comment)"

lemma skip_comments_split: "skip_comments (rev pre) = p # q \<Longrightarrow> \<exists>cs. pre = rev q @ p # cs \<and> comments cs"
proof -
  assume skipped: "skip_comments (rev pre) = p # q"
  let ?cs = "takeWhile (\<lambda>t. token_kind t = Comment) (rev pre)"
  have "rev pre = ?cs @ p # q" using skipped takeWhile_dropWhile_id [of "\<lambda>t. token_kind t = Comment" "rev pre"] by (simp add: skip_comments_def)
  then have "pre = rev q @ p # rev ?cs" by (metis append_Cons append_assoc append_Nil rev.simps(2) rev_append rev_rev_ident)
  moreover have "comments (rev ?cs)" by (auto simp: list_all_iff dest: set_takeWhileD)
  ultimately show ?thesis by blast
qed

lemma run_before_result:
  assumes "in_file_order ts" "gs = scan_attribute_groups ts" "ts = front @ rest"
  shows "\<exists>pre rts run. front = pre @ rts \<and> run_tokens comments rts run \<and> run_before ts gs (rev front) acc = Some (run @ acc) \<and>
    no_group_before gs pre"
  using assms(3)
proof (induction "length front" arbitrary: front rest acc rule: less_induct)
  case less
  show ?case
  proof (cases "no_group_before gs front")
    case True
    then have "run_before ts gs (rev front) acc = Some acc"
      by (subst run_before.simps) (auto simp: no_group_before_def find_None_iff find_Some_iff split: list.splits option.splits)
    with True show ?thesis by (intro exI [of _ front] exI [of _ "[]"]) (auto intro: empty_run)
  next
    case False
    then obtain p q where skipped: "skip_comments (rev front) = p # q" "\<exists>g\<in>set gs. group_end g = token_end p"
      by (auto simp: no_group_before_def split: list.splits)
    then obtain g where g: "find (\<lambda>g. group_end g = token_end p) gs = Some g" "g \<in> set gs" "group_end g = token_end p"
      by (cases "find (\<lambda>g. group_end g = token_end p) gs") (auto simp: find_None_iff find_Some_iff)
    obtain cs where cs: "front = rev q @ p # cs" "comments cs" using skip_comments_split [OF skipped(1)] by blast
    obtain pre body post where b: "ts = pre @ body @ post" "group_tokens body g"
      using groups_of_located g(2) assms(2) scan_iff by metis
    note span = group_span [OF assms(1) [unfolded b(1)] b(2)] and ends = group_ends [OF b(2)]
    have body: "body = butlast body @ [last body]" using ends by simp
    have "ts = rev q @ p # cs @ rest" using less.prems cs by simp
    moreover have "ts = (pre @ butlast body) @ last body # post" using b(1) body by (metis append.assoc append_Cons append_Nil)
    ultimately have eq: "rev q = pre @ butlast body" "p = last body"
      using located_by_end [OF assms(1)] ends g(3) by (metis, metis)
    then have front: "front = pre @ body @ cs" using cs body by (metis append.assoc append_Cons append_Nil)
    have "body @ post = [] \<or> group_begin g \<le> token_begin (hd (body @ post))" using ends by simp
    then have before: "tokens_before (group_begin g) ts = rev pre" unfolding b(1) by (rule before_split [OF span(6)])
    have step: "run_before ts gs (rev front) acc = run_before ts gs (rev pre) (g # acc)"
      by (subst run_before.simps) (simp add: skipped g before)
    have "length pre < length front" using front ends by simp
    from less.hyps [OF this b(1), of "g # acc"] obtain pre' rts run where r: "pre = pre' @ rts" "run_tokens comments rts run"
      "run_before ts gs (rev pre) (g # acc) = Some (run @ g # acc)" "no_group_before gs pre'" by blast
    have "run_tokens comments (body @ cs) [g]" using longer_run [OF b(2), of comments cs "[]" "[]"] cs(2) by (simp add: empty_run)
    with r(2) have "run_tokens comments (rts @ body @ cs) (run @ [g])" by (rule run_tokens_append)
    with r step front show ?thesis by (intro exI [of _ pre'] exI [of _ "rts @ body @ cs"] exI [of _ "run @ [g]"]) simp
  qed
qed

section \<open>Properties\<close>

text \<open>C39: The scanner finds exactly the attributes of a header. Its loop over positions with its three exits is
  equivalent to the grammar of attribute groups, with an optional \<open>using\<close>, scoped and unscoped names and arguments
  in balanced brackets of all kinds: the groups it reports, their places and the places of their arguments are those of
  the leftmost groups that do not overlap, and what is not a group is skipped.\<close>

theorem attributes_found: "scan_attribute_groups ts = gs \<longleftrightarrow> groups_of ts gs"
  by (rule scan_iff)

text \<open>C40: The two loops that collect the share of a declaration always return, with the whole run: the groups that follow one
  another without a gap from the given place on, up to a place where no group begins, and the groups that end
  right before a token, with comments between them, back to a token that ends no group. The first lie at or behind the
  place and the second before it, so that the frontend can add both and counts no attribute twice.\<close>

theorem share_of_declaration:
  assumes "in_file_order ts" "gs = scan_attribute_groups ts" "t \<in> set ts" "offset = token_begin t"
  shows "\<exists>pre earlier ahead post run run'. ts = pre @ earlier @ ahead @ post \<and> (\<forall>t\<in>set (pre @ earlier). token_begin t < offset) \<and>
    groups_run_before ts gs offset = Some run \<and> run_tokens comments earlier run \<and> no_group_before gs pre \<and>
    groups_run_at ts gs offset = Some run' \<and> run_tokens (\<lambda>c. c = []) ahead run' \<and>
    (if ahead = [] then no_group_at gs offset else post = [] \<or> no_group_at gs (token_begin (hd post)))"
proof -
  obtain xs ys where ts: "ts = xs @ t # ys" using split_list [OF assms(3)] by blast
  have before: "\<forall>s\<in>set xs. token_begin s < offset"
  proof
    fix s assume "s \<in> set xs"
    then have "token_begin s < token_end s" "token_end s \<le> token_begin t"
      using assms(1) unfolding ts by (auto simp: in_file_order_def sorted_wrt_append list_all_iff)
    then show "token_begin s < offset" using assms(4) by simp
  qed
  have at: "t # ys = [] \<or> offset \<le> token_begin (hd (t # ys))" using assms(4) by simp
  obtain ahead run' post where a: "t # ys = ahead @ post" "run_tokens (\<lambda>c. c = []) ahead run'" "groups_run_at ts gs offset = Some run'"
    "ahead = [] \<longrightarrow> no_group_at gs offset" "ahead \<noteq> [] \<longrightarrow> post = [] \<or> no_group_at gs (token_begin (hd post))"
    using run_at_result [OF assms(1,2) ts before at, of "[]"] by (auto simp: groups_run_at_def)
  obtain pre earlier run where b: "xs = pre @ earlier" "run_tokens comments earlier run" "run_before ts gs (rev xs) [] = Some run" "no_group_before gs pre"
    using run_before_result [OF assms(1,2) ts, of "[]"] by auto
  have "groups_run_before ts gs offset = Some run"
    using b(3) assms(4) first_token_split [OF before at] before_split [OF before at] by (simp add: groups_run_before_def ts)
  moreover have "ts = pre @ earlier @ ahead @ post" using ts a(1) b(1) by simp
  moreover have "\<forall>t\<in>set (pre @ earlier). token_begin t < offset" using before b(1) by simp
  moreover have "if ahead = [] then no_group_at gs offset else post = [] \<or> no_group_at gs (token_begin (hd post))" using a(4,5) by simp
  ultimately show ?thesis using a(2,3) b(2,4) by blast
qed

text \<open>The tokens of \<open>int hp /* health */ [[reflgen::transient]];\<close>.\<close>

definition commented_field :: "token list" where
  "commented_field =
     [\<lparr>token_kind = Keyword, token_spelling = ''int'', token_begin = 0, token_end = 3\<rparr>,
      \<lparr>token_kind = Identifier, token_spelling = ''hp'', token_begin = 4, token_end = 6\<rparr>,
      \<lparr>token_kind = Comment, token_spelling = ''/* health */'', token_begin = 7, token_end = 19\<rparr>,
      \<lparr>token_kind = Punctuation, token_spelling = ''['', token_begin = 20, token_end = 21\<rparr>,
      \<lparr>token_kind = Punctuation, token_spelling = ''['', token_begin = 21, token_end = 22\<rparr>,
      \<lparr>token_kind = Identifier, token_spelling = ''reflgen'', token_begin = 22, token_end = 29\<rparr>,
      \<lparr>token_kind = Punctuation, token_spelling = ''::'', token_begin = 29, token_end = 31\<rparr>,
      \<lparr>token_kind = Identifier, token_spelling = ''transient'', token_begin = 31, token_end = 40\<rparr>,
      \<lparr>token_kind = Punctuation, token_spelling = '']'', token_begin = 40, token_end = 41\<rparr>,
      \<lparr>token_kind = Punctuation, token_spelling = '']'', token_begin = 41, token_end = 42\<rparr>,
      \<lparr>token_kind = Punctuation, token_spelling = '';'', token_begin = 42, token_end = 43\<rparr>]"

theorem share_of_declaration_witness:
  "\<exists>run. groups_run_before commented_field (scan_attribute_groups commented_field) 42 = Some run"
proof -
  have "in_file_order commented_field" "last commented_field \<in> set commented_field" "42 = token_begin (last commented_field)"
    by (simp_all add: commented_field_def in_file_order_def)
  from share_of_declaration [OF this(1) refl this(2,3)] show ?thesis by blast
qed

lemma comment_hides_attribute:
  "map group_begin (scan_attribute_groups commented_field) = [20]"
  "next_token_offset commented_field 4 = Some 7"
  "groups_run_at commented_field (scan_attribute_groups commented_field) 7 = Some []"
proof -
  have scan: "scan_attribute_groups commented_field = [\<lparr>group_begin = 20, group_end = 42, group_attributes =
    [\<lparr>scanned_scope = ''reflgen'', scanned_name = ''transient'', scanned_has_arguments = False, arguments_begin = 0,
      arguments_end = 0, scanned_begin = 22\<rparr>]\<rparr>]"
    by (simp add: commented_field_def scan_attribute_groups.simps parse_group_def using_scope_def parse_attributes.simps
      attribute_head_def attribute_at_def is_mark_def is_name_def)
  show "map group_begin (scan_attribute_groups commented_field) = [20]" by (simp add: scan)
  show "next_token_offset commented_field 4 = Some 7" by (simp add: commented_field_def next_token_offset_def first_token_from_def)
  show "groups_run_at commented_field (scan_attribute_groups commented_field) 7 = Some []"
    unfolding scan groups_run_at_def by (subst run_at.simps) (simp add: first_group_from_def)
qed

lemma bracket_hides_attribute:
  "declares_reflection ''struct [[reflgen::reflect, game::slot(ids[0])]] actor {};''"
  "\<not> declares_reflection ''struct [[game::slot(ids[of[0]]), reflgen::reflect]] actor {};''"
  by code_simp+

end
