(* ===== verification/Generator_Model.thy ===== *)
theory Generator_Model
  imports Strings
begin

text \<open>
  What the parts of the generator exchange: source positions, the target, and the diagnostics
  (\<open>generator/src/model.h\<close>, \<open>generator/src/diagnostics.h\<close>). A function that reports
  returns the entries it adds.
\<close>

record source_position =
  pos_file :: string
  pos_line :: "32 word"
  pos_column :: "32 word"

definition nowhere :: source_position where
  "nowhere = \<lparr>pos_file = [], pos_line = 0, pos_column = 0\<rparr>"

record target_model =
  triple :: string
  pointer_width :: "32 word"

datatype severity = Note | Warning | Error

record diagnostic =
  diag_level :: severity
  diag_code :: string
  diag_position :: source_position
  diag_message :: string

definition error_at :: "string \<Rightarrow> source_position \<Rightarrow> string \<Rightarrow> diagnostic" where
  "error_at code place msg = \<lparr>diag_level = Error, diag_code = code, diag_position = place, diag_message = msg\<rparr>"

definition error_when :: "bool \<Rightarrow> string \<Rightarrow> source_position \<Rightarrow> string \<Rightarrow> diagnostic list" where
  "error_when condition code place msg = (if condition then [error_at code place msg] else [])"

definition has_errors :: "diagnostic list \<Rightarrow> bool" where
  "has_errors entries \<longleftrightarrow> list_ex (\<lambda>d. diag_level d = Error) entries"

lemma has_errors_simps [simp]:
  "has_errors [] = False" "has_errors (d # ds) \<longleftrightarrow> diag_level d = Error \<or> has_errors ds"
  "has_errors (ds @ es) \<longleftrightarrow> has_errors ds \<or> has_errors es"
  by (simp_all add: has_errors_def)

lemma has_errors_when [simp]: "has_errors (error_when b code place msg) \<longleftrightarrow> b"
  by (simp add: error_when_def error_at_def)

lemma has_errors_at [simp]: "diag_level (error_at code place msg) = Error"
  by (simp add: error_at_def)

end
