(* ===== verification/Declaration_Model.thy ===== *)
theory Declaration_Model
  imports Generator_Model
begin

text \<open>
  What the frontends of the generator read from a header or a compiled module interface
  (\<open>generator/src/model.h\<close>): the input of everything that is emitted. A field of a record
  whose name is too general to stand alone carries the name of its structure.
\<close>

record attribute_use =
  attribute_expression :: string
  attribute_position :: source_position
  attribute_scope :: string
  attribute_name :: string
  has_arguments :: bool
  argument_tokens :: "string list"

text \<open>
  A type refers to other types through shared pointers. The extractor builds them from the
  inside out, so that they form trees.
\<close>

datatype declaration_type = Declaration_Type
  (spelling: string) (canonical_spelling: string) (type_kind: string) (type_declaration: string)
  (type_is_const: bool) (type_is_volatile: bool) (size_bytes: "64 word")
  (pointee: "declaration_type option") (element_type: "declaration_type option") (array_size: "64 word")
  (enum_underlying: "declaration_type option") (align_bytes: "64 word")
  (function_result: "declaration_type option") (function_parameters: "declaration_type list")
  (function_calling_convention: string) (function_variadic: bool) (function_has_prototype: bool)
  (function_exception_specification: string)

record parameter_model =
  parameter_name :: string
  parameter_type :: declaration_type
  parameter_position :: source_position

record field_model =
  field_name :: string
  field_position :: source_position
  field_attributes :: "attribute_use list"
  field_type :: declaration_type
  field_owner :: string
  field_access :: string
  field_accessor :: bool

record method_model =
  method_name :: string
  method_parameters :: "string list"
  method_position :: source_position
  method_attributes :: "attribute_use list"
  return_type :: declaration_type
  parameter_declarations :: "parameter_model list"
  method_owner :: string
  method_access :: string
  is_static :: bool
  is_const :: bool
  is_volatile :: bool
  is_variadic :: bool
  ref_qualifier :: string
  signature :: string
  calling_convention :: string
  exception_specification :: string
  is_overloaded :: bool
  is_deleted :: bool
  qualifiers_known :: bool
  is_consteval :: bool
  declaration_specifiers_known :: bool
  pointer_type :: string

record type_reference =
  reference_qualified_name :: string
  reference_name :: string
  reference_class_key :: string
  enclosing_namespace :: string
  reference_nested :: bool
  templated :: bool

record class_model =
  class_qualified_name :: string
  class_name :: string
  class_key :: string
  class_schema_name :: string
  class_namespaces :: "string list"
  bases :: "type_reference list"
  fields_of :: "field_model list"
  methods_of :: "method_model list"
  class_attributes :: "attribute_use list"
  class_position :: source_position
  class_nested :: bool
  external_names :: "string list"
  required_header_reason :: string
  runtime_only :: bool
  public_fields :: bool

record enum_model =
  enum_qualified_name :: string
  enum_short_name :: string
  enum_namespaces :: "string list"
  enumerators :: "string list"
  enum_position :: source_position
  enum_nested :: bool
  scoped :: bool
  underlying_type :: string

record value_field_model =
  member_name :: string
  member_type :: declaration_type
  offset_bytes :: "64 word"
  is_public :: bool
  is_bitfield :: bool

record value_case_model =
  enumerator_name :: string
  enumerator_text :: string

record value_model =
  alias_name :: string
  alias_attributes :: "attribute_use list"
  target :: declaration_type
  value_align_bytes :: "64 word"
  has_bases :: bool
  alias_fields :: "value_field_model list"
  underlying :: declaration_type
  alias_cases :: "value_case_model list"
  alias_position :: source_position
  is_union :: bool
  has_virtual_members :: bool
  has_nontrivial_destructor :: bool

record header_model =
  header_path :: string
  classes :: "class_model list"
  enums :: "enum_model list"

end
