(* ===== verification/Sha256.thy ===== *)
theory Sha256
  imports Prelude
begin

text \<open>
  \<open>binding_sha256\<close> (\<open>generator/src/binding_hash.cpp\<close>): the digest that identifies the ABI of a
  bound call. The state is the array of eight 32-bit words; the loops over blocks, words and
  rounds are recursion over the data they visit.
\<close>

section \<open>The function\<close>

type_synonym sha_state = "32 word list"

text \<open>The round constants, each written as its two halves.\<close>

definition sha_constants :: "32 word list" where
  "sha_constants = map (\<lambda>(high, low). push_bit 16 high OR low)
     [(0x428a, 0x2f98), (0x7137, 0x4491), (0xb5c0, 0xfbcf), (0xe9b5, 0xdba5), (0x3956, 0xc25b), (0x59f1, 0x11f1),
      (0x923f, 0x82a4), (0xab1c, 0x5ed5), (0xd807, 0xaa98), (0x1283, 0x5b01), (0x2431, 0x85be), (0x550c, 0x7dc3),
      (0x72be, 0x5d74), (0x80de, 0xb1fe), (0x9bdc, 0x06a7), (0xc19b, 0xf174), (0xe49b, 0x69c1), (0xefbe, 0x4786),
      (0x0fc1, 0x9dc6), (0x240c, 0xa1cc), (0x2de9, 0x2c6f), (0x4a74, 0x84aa), (0x5cb0, 0xa9dc), (0x76f9, 0x88da),
      (0x983e, 0x5152), (0xa831, 0xc66d), (0xb003, 0x27c8), (0xbf59, 0x7fc7), (0xc6e0, 0x0bf3), (0xd5a7, 0x9147),
      (0x06ca, 0x6351), (0x1429, 0x2967), (0x27b7, 0x0a85), (0x2e1b, 0x2138), (0x4d2c, 0x6dfc), (0x5338, 0x0d13),
      (0x650a, 0x7354), (0x766a, 0x0abb), (0x81c2, 0xc92e), (0x9272, 0x2c85), (0xa2bf, 0xe8a1), (0xa81a, 0x664b),
      (0xc24b, 0x8b70), (0xc76c, 0x51a3), (0xd192, 0xe819), (0xd699, 0x0624), (0xf40e, 0x3585), (0x106a, 0xa070),
      (0x19a4, 0xc116), (0x1e37, 0x6c08), (0x2748, 0x774c), (0x34b0, 0xbcb5), (0x391c, 0x0cb3), (0x4ed8, 0xaa4a),
      (0x5b9c, 0xca4f), (0x682e, 0x6ff3), (0x748f, 0x82ee), (0x78a5, 0x636f), (0x84c8, 0x7814), (0x8cc7, 0x0208),
      (0x90be, 0xfffa), (0xa450, 0x6ceb), (0xbef9, 0xa3f7), (0xc671, 0x78f2)]"

definition sha_initial :: sha_state where
  "sha_initial = [0x6a09e667, 0xbb67ae85, 0x3c6ef372, 0xa54ff53a, 0x510e527f, 0x9b05688c, 0x1f83d9ab, 0x5be0cd19]"

lemma padding_shrinks:
  assumes "m < 64" "m \<noteq> 56"
  shows "(120 - Suc m mod 64) mod 64 < (120 - m) mod (64 :: nat)"
proof (cases "m < 56")
  case True
  then have "(120 - m) mod 64 = 56 - m" "(120 - Suc m mod 64) mod 64 = 55 - m"
    using mod_add_self2 [of "56 - m" 64] mod_add_self2 [of "55 - m" 64] by simp_all
  with True show ?thesis by simp
next
  case False
  with assms show ?thesis by (cases "m = 63") auto
qed

function pad_zeros :: "byte list \<Rightarrow> byte list" where
  "pad_zeros bytes = (if length bytes mod 64 \<noteq> 56 then pad_zeros (bytes @ [0]) else bytes)"
  by pat_completeness auto
termination
  using padding_shrinks [of "length bytes mod 64" for bytes :: "byte list"]
  by (relation "measure (\<lambda>bytes. (120 - length bytes mod 64) mod 64)") (simp_all add: mod_Suc_eq)

declare pad_zeros.simps [simp del]

definition length_bytes :: "64 word \<Rightarrow> byte list" where
  "length_bytes bit_length = map (\<lambda>shift. ucast (drop_bit shift bit_length)) [56, 48, 40, 32, 24, 16, 8, 0]"

definition sha_padded :: "string \<Rightarrow> byte list" where
  "sha_padded s = pad_zeros (map byte_of_char s @ [0x80]) @ length_bytes (word_of_nat (length s) * 8)"

definition big_endian_word :: "byte list \<Rightarrow> 32 word" where
  "big_endian_word bs = foldl (\<lambda>word b. push_bit 8 word OR ucast b) 0 bs"

fun first_words :: "nat \<Rightarrow> byte list \<Rightarrow> 32 word list" where
  "first_words 0 bytes = []"
| "first_words (Suc n) bytes = big_endian_word (take 4 bytes) # first_words n (drop 4 bytes)"

definition next_word :: "32 word list \<Rightarrow> nat \<Rightarrow> 32 word" where
  "next_word words i =
     (let x = words ! (i - 15); y = words ! (i - 2)
      in words ! (i - 16) + (word_rotr 7 x XOR word_rotr 18 x XOR drop_bit 3 x) + words ! (i - 7) +
         (word_rotr 17 y XOR word_rotr 19 y XOR drop_bit 10 y))"

definition schedule :: "byte list \<Rightarrow> 32 word list" where
  "schedule block = foldl (\<lambda>words i. words @ [next_word words i]) (first_words 16 block) [16..<64]"

fun sha_round :: "sha_state \<Rightarrow> 32 word \<times> 32 word \<Rightarrow> sha_state" where
  "sha_round [a, b, c, d, e, f, g, h] (k, w) =
     (let t1 = h + (word_rotr 6 e XOR word_rotr 11 e XOR word_rotr 25 e) + ((e AND f) XOR (NOT e AND g)) + k + w;
          t2 = (word_rotr 2 a XOR word_rotr 13 a XOR word_rotr 22 a) + ((a AND b) XOR (a AND c) XOR (b AND c))
      in [t1 + t2, a, b, c, d + t1, e, f, g])"
| "sha_round state kw = state"

definition sha_block :: "sha_state \<Rightarrow> byte list \<Rightarrow> sha_state" where
  "sha_block state block =
     map2 (+) state (foldl sha_round state (zip sha_constants (schedule block)))"

function sha_blocks :: "sha_state \<Rightarrow> byte list \<Rightarrow> sha_state" where
  "sha_blocks state bytes =
     (if bytes = [] then state else sha_blocks (sha_block state (take 64 bytes)) (drop 64 bytes))"
  by pat_completeness auto
termination
  by (relation "measure (length \<circ> snd)") auto

declare sha_blocks.simps [simp del]

definition hex_digits :: string where
  "hex_digits = ''0123456789abcdef''"

definition hex_word :: "32 word \<Rightarrow> string" where
  "hex_word w = map (\<lambda>shift. hex_digits ! unat (drop_bit shift w AND 15)) [28, 24, 20, 16, 12, 8, 4, 0]"

definition binding_sha256 :: "string \<Rightarrow> string" where
  "binding_sha256 s = concat (map hex_word (sha_blocks sha_initial (sha_padded s)))"

section \<open>Padding and output\<close>

text \<open>The padded message is the message, the bit 1, the fewest zeros that fill the last block, and the length.\<close>

lemma pad_zeros_fills:
  "\<exists>k<64. pad_zeros bytes = bytes @ replicate k 0 \<and> (length bytes + k) mod 64 = 56"
proof (induction bytes rule: pad_zeros.induct)
  case (1 bytes)
  show ?case
  proof (cases "length bytes mod 64 = 56")
    case True
    then show ?thesis by (intro exI [of _ 0]) (simp add: pad_zeros.simps)
  next
    case False
    with 1 obtain k where k: "k < 64" "pad_zeros (bytes @ [0]) = (bytes @ [0]) @ replicate k 0"
      "(length bytes + Suc k) mod 64 = 56" by auto
    have "Suc k < 64"
    proof (rule ccontr)
      assume "\<not> Suc k < 64"
      with k(1) have "Suc k = 64" by simp
      with k(3) False show False by simp
    qed
    with k False show ?thesis
      by (intro exI [of _ "Suc k"]) (simp add: pad_zeros.simps [of bytes])
  qed
qed

lemma length_bytes_length [simp]: "length (length_bytes w) = 8"
  by (simp add: length_bytes_def)

lemma sha_padded_length: "length (sha_padded s) mod 64 = 0"
proof -
  obtain k where k: "pad_zeros (map byte_of_char s @ [0x80]) = (map byte_of_char s @ [0x80]) @ replicate k 0"
    "(length (map byte_of_char s @ [0x80]) + k) mod 64 = 56"
    using pad_zeros_fills by blast
  have "length (sha_padded s) = (length (map byte_of_char s @ [0x80]) + k) + 8"
    unfolding sha_padded_def k(1) by (simp only: length_append length_replicate length_bytes_length)
  moreover have "n mod 64 = 56 \<Longrightarrow> (n + 8) mod 64 = 0" for n :: nat by presburger
  ultimately show ?thesis using k(2) by (simp only:)
qed

lemma sha_round_length: "length state = 8 \<Longrightarrow> length (sha_round state kw) = 8"
  by (cases "(state, kw)" rule: sha_round.cases) (auto simp: Let_def)

lemma sha_rounds_length: "length state = 8 \<Longrightarrow> length (foldl sha_round state kws) = 8"
  by (induction kws arbitrary: state) (simp_all add: sha_round_length)

lemma sha_blocks_length: "length state = 8 \<Longrightarrow> length (sha_blocks state bytes) = 8"
  by (induction state bytes rule: sha_blocks.induct)
    (subst sha_blocks.simps, simp add: sha_block_def sha_rounds_length)

lemma hex_word_digits: "length (hex_word w) = 8 \<and> set (hex_word w) \<subseteq> set hex_digits"
proof -
  have "unat (v AND 15) < length hex_digits" for v :: "32 word"
    using word_and_le1 [of v 15] by (simp add: hex_digits_def word_le_nat_alt)
  then show ?thesis by (auto simp: hex_word_def simp del: nth_Cons_0 intro!: nth_mem)
qed

lemma sha_hex: "length (binding_sha256 s) = 64 \<and> set (binding_sha256 s) \<subseteq> set hex_digits"
proof -
  have "length ws = n \<Longrightarrow> length (concat (map hex_word ws)) = 8 * n \<and> set (concat (map hex_word ws)) \<subseteq> set hex_digits" for ws n
    by (induction ws arbitrary: n) (auto dest: hex_word_digits [THEN conjunct2, THEN subsetD] simp: hex_word_digits)
  from this [of "sha_blocks sha_initial (sha_padded s)" 8] show ?thesis
    by (simp add: binding_sha256_def sha_blocks_length sha_initial_def)
qed

end
