(* ===== verification/Binding_Ir.thy ===== *)
theory Binding_Ir
  imports Generator_Model Sha256
begin

text \<open>
  The binding module of the script generator (\<open>generator/src/binding_ir.h\<close>,
  \<open>generator/src/binding_ir.cpp\<close>): the types, values and calls that a frontend selects, the
  checks of \<open>build_binding_module\<close>, and the descriptor whose digest is the identity of a
  call's ABI. A check is a function that returns the diagnostics it reports; the sets and maps
  that the builder fills on the way are arguments and results.
\<close>

section \<open>Data\<close>

datatype source_kind = Header | Named_Module

record binding_source =
  source_kind :: source_kind
  source_name :: string

datatype scalar = Void | Boolean | Int8 | Int16 | Int32 | Int64 | Uint8 | Uint16 | Uint32 | Uint64 | Float32 | Float64

datatype operation = Method | Getter | Setter | Owner

datatype effect = Read | Write

datatype receiver = Handle | Entity | Component

record binding_type =
  type_cpp_name :: string
  type_script_name :: string
  type_source :: nat
  type_receiver :: receiver

datatype value_kind = Record | Enumeration

record value_field =
  value_field_name :: string
  value_field_type :: scalar
  value_field_offset :: "64 word"

record value_case =
  case_name :: string
  case_value :: string

record binding_value =
  value_cpp_name :: string
  value_script_name :: string
  value_source :: nat
  value_kind :: value_kind
  value_size :: "64 word"
  value_align :: "64 word"
  value_fields :: "value_field list"
  value_underlying :: scalar
  value_cases :: "value_case list"

record callable =
  call_receiver :: string
  call_cpp_name :: string
  call_signature :: string
  call_script_name :: string
  call_symbol :: string
  call_operation :: operation
  call_effect :: effect
  call_result :: scalar
  call_parameters :: "scalar list"
  call_position :: source_position
  call_is_const :: bool
  call_is_noexcept :: bool
  call_native_result :: string
  call_native_parameters :: "string list"
  call_handle_result :: string
  call_receiver_kind :: receiver
  call_result_value :: string
  call_parameter_values :: "string list"

record module_input =
  module_identity :: string
  module_target :: target_model
  module_sources :: "binding_source list"
  module_types :: "binding_type list"
  module_values :: "binding_value list"
  module_callables :: "callable list"

record call_contract =
  contract_call :: callable
  abi_descriptor :: string
  abi_sha256 :: string

record binding_module =
  input_of :: module_input
  contracts :: "call_contract list"

section \<open>Names and numbers\<close>

definition cpp_identifier :: "string \<Rightarrow> bool" where
  "cpp_identifier s \<longleftrightarrow> s \<noteq> [] \<and> is_letter (hd s) \<and> list_all (\<lambda>c. is_letter c \<or> is_digit c) s"

function qualified_name :: "string \<Rightarrow> string \<Rightarrow> bool" where
  "qualified_name separator s =
     (case find_text separator s of
        None \<Rightarrow> cpp_identifier s
      | Some e \<Rightarrow> if cpp_identifier (take e s) then qualified_name separator (drop (e + length separator) s) else False)"
  by pat_completeness auto
termination
  by (relation "measure (length \<circ> snd)") (auto simp: cpp_identifier_def)

declare qualified_name.simps [simp del]

definition plain_text :: "string \<Rightarrow> bool" where
  "plain_text s \<longleftrightarrow> s \<noteq> [] \<and> length s \<le> 4096 \<and> list_all (\<lambda>c. \<not> (code_of c < 32 \<or> code_of c = 127)) s"

fun operation_name :: "operation \<Rightarrow> string" where
  "operation_name Method = ''method''"
| "operation_name Getter = ''getter''"
| "operation_name Setter = ''setter''"
| "operation_name Owner = ''owner''"

fun receiver_name :: "receiver \<Rightarrow> string" where
  "receiver_name Handle = ''handle''"
| "receiver_name Entity = ''entity''"
| "receiver_name Component = ''component''"

fun receiver_validation :: "receiver \<Rightarrow> string" where
  "receiver_validation Handle = ''domain_generation_nominal_type''"
| "receiver_validation Entity = ''entity_generation''"
| "receiver_validation Component = ''entity_generation_component_lookup''"

fun scalar_name :: "scalar \<Rightarrow> string" where
  "scalar_name Void = ''void''"
| "scalar_name Boolean = ''bool''"
| "scalar_name Int8 = ''int8''"
| "scalar_name Int16 = ''int16''"
| "scalar_name Int32 = ''int32''"
| "scalar_name Int64 = ''int64''"
| "scalar_name Uint8 = ''uint8''"
| "scalar_name Uint16 = ''uint16''"
| "scalar_name Uint32 = ''uint32''"
| "scalar_name Uint64 = ''uint64''"
| "scalar_name Float32 = ''float32''"
| "scalar_name Float64 = ''float64''"

definition numeric :: "scalar \<Rightarrow> bool" where
  "numeric t \<longleftrightarrow> t \<noteq> Void \<and> t \<noteq> Boolean"

fun scalar_width :: "scalar \<Rightarrow> nat" where
  "scalar_width Void = 0"
| "scalar_width Boolean = 1"
| "scalar_width Int8 = 1"
| "scalar_width Uint8 = 1"
| "scalar_width Int16 = 2"
| "scalar_width Uint16 = 2"
| "scalar_width Int32 = 4"
| "scalar_width Uint32 = 4"
| "scalar_width Float32 = 4"
| "scalar_width Int64 = 8"
| "scalar_width Uint64 = 8"
| "scalar_width Float64 = 8"

definition is_signed :: "scalar \<Rightarrow> bool" where
  "is_signed t \<longleftrightarrow> t \<in> {Int8, Int16, Int32, Int64}"

text \<open>The loop over the digits; the test before each step keeps the magnitude within 64 bits.\<close>

fun magnitude_of :: "nat \<Rightarrow> string \<Rightarrow> nat option" where
  "magnitude_of magnitude [] = Some magnitude"
| "magnitude_of magnitude (c # s) =
     (let digit = code_of c - 48
      in if magnitude > (2 ^ 64 - 1 - digit) div 10 then None else magnitude_of (magnitude * 10 + digit) s)"

definition enumerator_value :: "string \<Rightarrow> scalar \<Rightarrow> bool" where
  "enumerator_value s underlying =
     (let negative = (s \<noteq> [] \<and> hd s = CHR ''-'');
          digits = (if negative then tl s else s)
      in if digits = [] \<or> length digits > 20 \<or> (length digits > 1 \<and> hd digits = CHR ''0'') \<or>
            (negative \<and> digits = ''0'') \<or> \<not> list_all is_digit digits then False
         else if negative \<and> \<not> is_signed underlying then False
         else case magnitude_of 0 digits of
             None \<Rightarrow> False
           | Some magnitude \<Rightarrow>
               let bits = scalar_width underlying * 8
               in if \<not> is_signed underlying then bits = 64 \<or> magnitude < 2 ^ bits
                  else let limit = 2 ^ (bits - 1) in if negative then magnitude \<le> limit else magnitude < limit)"

section \<open>The descriptor of a call\<close>

text \<open>Every item is preceded by its length in bytes.\<close>

definition append_item :: "string \<Rightarrow> string \<Rightarrow> string" where
  "append_item out s = out @ show_nat (length s) @ '':'' @ s @ '';''"

definition append_items :: "string \<Rightarrow> string list \<Rightarrow> string" where
  "append_items out ss = foldl append_item out ss"

definition find_value :: "binding_value list \<Rightarrow> string \<Rightarrow> binding_value option" where
  "find_value values name = find (\<lambda>v. value_cpp_name v = name) values"

definition slot_token :: "binding_value list \<Rightarrow> scalar \<Rightarrow> string \<Rightarrow> string" where
  "slot_token values scalar name =
     (if name = [] then scalar_name scalar
      else case find_value values name of
          None \<Rightarrow> []
        | Some found \<Rightarrow> (if value_kind found = Record then ''value:'' else ''enum:'') @ name)"

text \<open>
  An index behind the end of a list that is too short is not checked in the code; \<open>!\<close> leaves
  its result open in the same way.
\<close>

definition parameter_value :: "callable \<Rightarrow> nat \<Rightarrow> string" where
  "parameter_value call i = (if call_parameter_values call = [] then [] else call_parameter_values call ! i)"

definition note_name :: "string list \<Rightarrow> string \<Rightarrow> string list" where
  "note_name order name = (if name \<noteq> [] \<and> name \<notin> set order then order @ [name] else order)"

definition referenced_values :: "callable \<Rightarrow> string list" where
  "referenced_values call = foldl note_name (note_name [] (call_result_value call)) (call_parameter_values call)"

definition append_value :: "string \<Rightarrow> binding_value \<Rightarrow> string" where
  "append_value out v =
     (case value_kind v of
        Record \<Rightarrow>
          foldl (\<lambda>out f. append_items out
              [value_field_name f, scalar_name (value_field_type f), show_nat (unat (value_field_offset f))])
            (append_items out [''record'', value_cpp_name v, show_nat (unat (value_size v)),
              show_nat (unat (value_align v)), show_nat (length (value_fields v))])
            (value_fields v)
      | Enumeration \<Rightarrow>
          foldl (\<lambda>out c. append_item (append_item out (case_name c)) (case_value c))
            (append_items out [''enum'', value_cpp_name v, scalar_name (value_underlying v),
              show_nat (length (value_cases v))])
            (value_cases v))"

definition append_values :: "string \<Rightarrow> module_input \<Rightarrow> callable \<Rightarrow> string" where
  "append_values out m call =
     foldl (\<lambda>out name. append_value out (the (find_value (module_values m) name))) out (referenced_values call)"

definition descriptor :: "module_input \<Rightarrow> callable \<Rightarrow> string" where
  "descriptor m call =
     (let out = append_items [] [''reflgen.prsm.call.v1'', ''cdecl'', ''int32'', ''0'', ''typed_out_pointer'',
            ''no_out_pointer'', ''generational_u64''];
          out = append_item out (receiver_validation (call_receiver_kind call));
          out = append_items out [''borrowed_call_guard'', ''game_thread'', ''caught_to_status'',
            ''u8_nonzero_in_normalized_out'', ''untouched'', ''synchronous''];
          out = append_items out [module_identity m, triple (module_target m), show_int (sint (pointer_width (module_target m))),
            call_symbol call, operation_name (call_operation call), call_receiver call, call_cpp_name call,
            call_signature call, if call_effect call = Read then ''read'' else ''write'',
            if call_handle_result call = [] then slot_token (module_values m) (call_result call) (call_result_value call)
            else ''handle:'' @ call_handle_result call,
            show_nat (length (call_parameters call))];
          out = foldl (\<lambda>out i. append_item out
              (slot_token (module_values m) (call_parameters call ! i) (parameter_value call i)))
            out [0..<length (call_parameters call)]
      in append_values out m call)"

section \<open>The builder\<close>

definition fail_if :: "bool \<Rightarrow> source_position \<Rightarrow> string \<Rightarrow> diagnostic list" where
  "fail_if condition place msg =
     (if condition then [\<lparr>diag_level = Error, diag_code = ''RG0300'', diag_position = place, diag_message = msg\<rparr>] else [])"

definition module_targets :: "string set" where
  "module_targets = {''x86_64-pc-windows-msvc'', ''x86_64-unknown-linux-gnu'', ''x86_64-pc-linux-gnu'',
     ''aarch64-unknown-linux-gnu''}"

definition check_identity :: "module_input \<Rightarrow> diagnostic list" where
  "check_identity m = fail_if (\<not> plain_text (module_identity m) \<or> \<not> qualified_name ''::'' (module_identity m)) nowhere
     ''invalid PrSM binding module identity''"

definition check_target :: "module_input \<Rightarrow> diagnostic list" where
  "check_target m = fail_if (pointer_width (module_target m) \<noteq> 64 \<or> triple (module_target m) \<notin> module_targets) nowhere
     ''unsupported PrSM binding target; an exact supported 64-bit target is required''"

definition over_budget :: "module_input \<Rightarrow> bool" where
  "over_budget m \<longleftrightarrow> module_sources m = [] \<or> length (module_sources m) > 4096 \<or> length (module_types m) > 4096 \<or>
     length (module_callables m) > 4096"

fun check_sources :: "(source_kind \<times> string) set \<Rightarrow> binding_source list \<Rightarrow> diagnostic list" where
  "check_sources names [] = []"
| "check_sources names (s # ss) =
     (if \<not> plain_text (source_name s) \<or> (source_kind s = Named_Module \<and> \<not> qualified_name ''.'' (source_name s))
      then fail_if True nowhere ''invalid or duplicate PrSM binding source'' @ check_sources names ss
      else fail_if ((source_kind s, source_name s) \<in> names) nowhere ''invalid or duplicate PrSM binding source'' @
        check_sources (insert (source_kind s, source_name s) names) ss)"

text \<open>
  What types and values have in common: proper names, a source, and a C++ and a script name that
  no other has. The names are only taken while no test before has failed.
\<close>

definition proper_names :: "nat \<Rightarrow> string \<Rightarrow> string \<Rightarrow> nat \<Rightarrow> bool" where
  "proper_names sources cpp script source \<longleftrightarrow> plain_text cpp \<and> qualified_name ''::'' cpp \<and> plain_text script \<and>
     qualified_name ''::'' script \<and> source < sources"

definition take_names ::
  "nat \<Rightarrow> string \<Rightarrow> string \<Rightarrow> nat \<Rightarrow> string set \<times> string set \<Rightarrow> bool \<times> string set \<times> string set" where
  "take_names sources cpp script source = (\<lambda>(cpp_types, script_types).
     if \<not> proper_names sources cpp script source then (False, cpp_types, script_types)
     else if cpp \<in> cpp_types then (False, cpp_types, script_types)
     else if script \<in> script_types then (False, insert cpp cpp_types, script_types)
     else (True, insert cpp cpp_types, insert script script_types))"

fun check_types :: "nat \<Rightarrow> string set \<times> string set \<Rightarrow> binding_type list \<Rightarrow> diagnostic list \<times> string set \<times> string set" where
  "check_types sources taken [] = ([], taken)"
| "check_types sources taken (t # ts) =
     (let (ok, taken) = take_names sources (type_cpp_name t) (type_script_name t) (type_source t) taken;
          (report, taken) = check_types sources taken ts
      in (fail_if (\<not> ok) nowhere (''invalid or duplicate PrSM nominal binding type: '' @ type_cpp_name t) @ report, taken))"

definition receiver_kinds :: "binding_type list \<Rightarrow> string \<Rightarrow> receiver option" where
  "receiver_kinds types = foldl (\<lambda>kinds t. kinds(type_cpp_name t \<mapsto> type_receiver t)) Map.empty types"

text \<open>Records. The sum of an offset and a width wraps around at 64 bits.\<close>

fun check_fields :: "binding_value \<Rightarrow> string set \<Rightarrow> 64 word \<Rightarrow> value_field list \<Rightarrow> diagnostic list" where
  "check_fields v names fin [] = []"
| "check_fields v names fin (f # fs) =
     (let width = word_of_nat (scalar_width (value_field_type f))
      in fail_if (\<not> cpp_identifier (value_field_name f) \<or> value_field_name f \<in> names \<or> \<not> numeric (value_field_type f) \<or>
           value_field_offset f < fin \<or> value_field_offset f mod width \<noteq> 0 \<or> value_field_offset f + width > value_size v)
           nowhere (''unsupported PrSM value record field: '' @ value_cpp_name v @ ''::'' @ value_field_name f) @
         check_fields v (if cpp_identifier (value_field_name f) then insert (value_field_name f) names else names)
           (value_field_offset f + width) fs)"

definition check_record :: "binding_value \<Rightarrow> diagnostic list" where
  "check_record v =
     (let aligned = value_align v \<ge> 1 \<and> value_align v \<le> 16 \<and> (value_align v AND (value_align v - 1)) = 0
      in fail_if (value_fields v = [] \<or> length (value_fields v) > 64 \<or> \<not> aligned \<or> value_size v = 0 \<or>
           value_size v > 4096 \<or> value_size v mod value_align v \<noteq> 0 \<or> value_cases v \<noteq> [])
           nowhere (''unsupported PrSM value record layout: '' @ value_cpp_name v)) @
     check_fields v {} 0 (value_fields v)"

fun check_cases :: "binding_value \<Rightarrow> string set \<Rightarrow> string set \<Rightarrow> value_case list \<Rightarrow> diagnostic list" where
  "check_cases v names numbers [] = []"
| "check_cases v names numbers (c # cs) =
     (let named = cpp_identifier (case_name c); fresh = named \<and> case_name c \<notin> names;
          valued = fresh \<and> enumerator_value (case_value c) (value_underlying v)
      in fail_if (\<not> (valued \<and> case_value c \<notin> numbers)) nowhere
           (''invalid or duplicate PrSM enumerator (each case needs a distinct value): '' @ value_cpp_name v @ ''::'' @ case_name c) @
         check_cases v (if named then insert (case_name c) names else names)
           (if valued then insert (case_value c) numbers else numbers) cs)"

definition check_enumeration :: "binding_value \<Rightarrow> diagnostic list" where
  "check_enumeration v =
     fail_if (value_cases v = [] \<or> length (value_cases v) > 4096 \<or> \<not> numeric (value_underlying v) \<or>
       value_underlying v = Float32 \<or> value_underlying v = Float64 \<or> value_fields v \<noteq> [])
       nowhere (''unsupported PrSM value enumeration: '' @ value_cpp_name v) @
     check_cases v {} {} (value_cases v)"

fun check_values :: "nat \<Rightarrow> string set \<times> string set \<Rightarrow> binding_value list \<Rightarrow> diagnostic list \<times> string set \<times> string set" where
  "check_values sources taken [] = ([], taken)"
| "check_values sources taken (v # vs) =
     (let (ok, taken) = take_names sources (value_cpp_name v) (value_script_name v) (value_source v) taken;
          (report, taken) = check_values sources taken vs
      in ((if \<not> ok then fail_if True nowhere (''invalid or duplicate PrSM value type: '' @ value_cpp_name v)
           else case value_kind v of Record \<Rightarrow> check_record v | Enumeration \<Rightarrow> check_enumeration v) @ report, taken))"

subsection \<open>Calls\<close>

definition native_types :: "string set" where
  "native_types = {''void'', ''bool'', ''char'', ''signed char'', ''unsigned char'', ''short'', ''short int'',
     ''unsigned short'', ''unsigned short int'', ''int'', ''unsigned int'', ''long'', ''long int'', ''unsigned long'',
     ''unsigned long int'', ''long long'', ''long long int'', ''unsigned long long'', ''unsigned long long int'',
     ''float'', ''double'', ''__int64'', ''unsigned __int64''}"

definition value_slot :: "module_input \<Rightarrow> string \<Rightarrow> bool" where
  "value_slot m name \<longleftrightarrow> name = [] \<or> find_value (module_values m) name \<noteq> None"

definition has_values :: "callable \<Rightarrow> bool" where
  "has_values call \<longleftrightarrow> call_result_value call \<noteq> [] \<or> list_ex (\<lambda>v. v \<noteq> []) (call_parameter_values call)"

definition void_result :: "callable \<Rightarrow> bool" where
  "void_result call \<longleftrightarrow> call_result_value call = [] \<and> call_result call = Void"

definition check_slots :: "module_input \<Rightarrow> callable \<Rightarrow> diagnostic list" where
  "check_slots m call =
     fail_if (call_parameter_values call \<noteq> [] \<and> length (call_parameter_values call) \<noteq> length (call_parameters call))
       (call_position call) ''invalid PrSM value slot list'' @
     fail_if (\<not> value_slot m (call_result_value call) \<or> \<not> list_all (value_slot m) (call_parameter_values call))
       (call_position call) ''PrSM value slot does not name a selected value type'' @
     fail_if ((call_native_result call \<noteq> [] \<and> call_result_value call = [] \<and> call_native_result call \<notin> native_types) \<or>
        (call_result_value call \<noteq> [] \<and> \<not> plain_text (call_native_result call)) \<or>
        (call_native_parameters call \<noteq> [] \<and> length (call_native_parameters call) \<noteq> length (call_parameters call)))
       (call_position call) ''invalid PrSM native scalar signature'' @
     concat (map (\<lambda>i. fail_if
         (let name = call_native_parameters call ! i
          in if parameter_value call i = [] then name = ''void'' \<or> name \<notin> native_types else \<not> plain_text name)
         (call_position call) ''invalid PrSM native parameter'')
       [0..<length (call_native_parameters call)])"

definition check_owner :: "(string \<Rightarrow> receiver option) \<Rightarrow> callable \<Rightarrow> diagnostic list" where
  "check_owner kinds call =
     fail_if (call_operation call = Owner \<and>
         (call_receiver call \<noteq> [] \<or> kinds (call_handle_result call) = None \<or> has_values call \<or>
          call_result call \<noteq> Uint64 \<or> call_parameters call \<noteq> [] \<or> call_effect call \<noteq> Read \<or>
          call_is_const call \<or> call_is_noexcept call \<or> call_cpp_name call \<noteq> ''binding_owner''))
       (call_position call) ''invalid PrSM owner ingress'' @
     fail_if (call_operation call \<noteq> Owner \<and> call_handle_result call \<noteq> [])
       (call_position call) ''handle results require owner ingress in v1'' @
     fail_if (case kinds (if call_operation call = Owner then call_handle_result call else call_receiver call) of
         None \<Rightarrow> False | Some kind \<Rightarrow> kind \<noteq> call_receiver_kind call)
       (call_position call) (''PrSM callable receiver kind disagrees with its nominal type: '' @ call_symbol call)"

definition proper_call :: "(string \<Rightarrow> receiver option) \<Rightarrow> callable \<Rightarrow> bool" where
  "proper_call kinds call \<longleftrightarrow>
     (call_operation call = Owner \<or> kinds (call_receiver call) \<noteq> None) \<and>
     plain_text (call_cpp_name call) \<and> cpp_identifier (call_cpp_name call) \<and> plain_text (call_signature call) \<and>
     plain_text (call_script_name call) \<and>
     (if call_operation call = Owner then qualified_name ''::'' (call_script_name call) else cpp_identifier (call_script_name call)) \<and>
     plain_text (call_symbol call) \<and> cpp_identifier (call_symbol call) \<and> starts_with (call_symbol call) ''ce_prsm_bind_''"

definition cpp_member :: "callable \<Rightarrow> string \<times> string" where
  "cpp_member call =
     (if call_operation call = Owner then ''owner:'' @ call_handle_result call else call_receiver call, call_cpp_name call)"

definition take_symbol ::
  "(string \<Rightarrow> receiver option) \<Rightarrow> callable \<Rightarrow> string set \<times> (string \<times> string) set \<Rightarrow>
     bool \<times> string set \<times> (string \<times> string) set" where
  "take_symbol kinds call = (\<lambda>(symbols, cpp_members).
     if \<not> proper_call kinds call then (False, symbols, cpp_members)
     else if call_symbol call \<in> symbols then (False, symbols, cpp_members)
     else (cpp_member call \<notin> cpp_members, insert (call_symbol call) symbols, insert (cpp_member call) cpp_members))"

definition check_operation :: "callable \<Rightarrow> diagnostic list" where
  "check_operation call =
     fail_if (operation_name (call_operation call) = [] \<or> scalar_name (call_result call) = [] \<or> length (call_parameters call) > 64)
       (call_position call) ''unsupported PrSM operation/effect/scalar or parameter budget'' @
     concat (map (\<lambda>i. fail_if
         (parameter_value call i = [] \<and>
          (call_parameters call ! i = Void \<or> scalar_name (call_parameters call ! i) = []))
         (call_position call) ''PrSM parameters require a supported non-void scalar or value type'')
       [0..<length (call_parameters call)]) @
     fail_if (call_operation call = Getter \<and> (call_parameters call \<noteq> [] \<or> void_result call \<or> call_effect call \<noteq> Read))
       (call_position call) ''PrSM getter requires read, no parameters and a non-void result'' @
     fail_if (call_operation call = Setter \<and>
         (length (call_parameters call) \<noteq> 1 \<or> \<not> void_result call \<or> call_effect call \<noteq> Write))
       (call_position call) ''PrSM setter requires write, one parameter and a void result''"

fun check_calls ::
  "module_input \<Rightarrow> (string \<Rightarrow> receiver option) \<Rightarrow> string set \<times> (string \<times> string) set \<Rightarrow> callable list \<Rightarrow> diagnostic list" where
  "check_calls m kinds taken [] = []"
| "check_calls m kinds taken (call # calls) =
     (let (ok, taken) = take_symbol kinds call taken
      in check_slots m call @ check_owner kinds call @
         fail_if (\<not> ok) (call_position call)
           (''invalid/duplicate PrSM callable, symbol, receiver or unsupported overload: '' @ call_symbol call) @
         check_operation call @ check_calls m kinds taken calls)"

subsection \<open>Members and global names\<close>

definition member_key :: "callable \<Rightarrow> string \<times> string" where
  "member_key call = (call_receiver call, call_script_name call)"

definition members_of :: "callable list \<Rightarrow> ((string \<times> string) \<times> callable list) list" where
  "members_of calls =
     (let members = filter (\<lambda>c. call_operation c \<noteq> Owner) calls
      in map (\<lambda>key. (key, filter (\<lambda>c. member_key c = key) members)) (sort (remdups (map member_key members))))"

definition consistent_property :: "module_input \<Rightarrow> callable list \<Rightarrow> bool" where
  "consistent_property m calls =
     (let front = hd calls; back = last calls;
          (getter, setter) = (if call_operation front = Setter then (back, front) else (front, back))
      in length calls = 2 \<and> call_operation getter = Getter \<and> call_operation setter = Setter \<and>
         length (call_parameters setter) = 1 \<and>
         slot_token (module_values m) (hd (call_parameters setter)) (parameter_value setter 0) =
           slot_token (module_values m) (call_result getter) (call_result_value getter))"

definition check_members :: "module_input \<Rightarrow> diagnostic list" where
  "check_members m = concat (map (\<lambda>(name, calls).
       if length calls = 1 \<and> call_operation (hd calls) \<noteq> Setter then []
       else fail_if (\<not> consistent_property m calls) (call_position (hd calls))
         (''duplicate member or inconsistent PrSM getter/setter: '' @ snd name))
     (members_of (module_callables m)))"

definition reserved_names :: "string set" where
  "reserved_names = {''void'', ''bool'', ''int'', ''uint'', ''float'', ''double'', ''int8'', ''int16'', ''int32'',
     ''int64'', ''uint8'', ''uint16'', ''uint32'', ''uint64'', ''float32'', ''float64''}"

definition clash :: "string \<Rightarrow> string \<Rightarrow> bool" where
  "clash a b \<longleftrightarrow> a = b \<or> starts_with a (b @ ''::'') \<or> starts_with b (a @ ''::'')"

fun check_global_names :: "string list \<Rightarrow> diagnostic list" where
  "check_global_names [] = []"
| "check_global_names (a # names) =
     fail_if (a \<in> reserved_names \<or> starts_with a ''std::'') nowhere (''reserved PrSM global identity: '' @ a) @
     concat (map (\<lambda>b. fail_if (clash a b) nowhere (''conflicting PrSM type/owner identity: '' @ a)) names) @
     check_global_names names"

definition owner_names :: "callable list \<Rightarrow> string list" where
  "owner_names calls = map call_script_name (filter (\<lambda>c. call_operation c = Owner) calls)"

subsection \<open>The module\<close>

definition contract_of :: "module_input \<Rightarrow> callable \<Rightarrow> call_contract" where
  "contract_of m call =
     (let abi = descriptor m call
      in \<lparr>contract_call = call, abi_descriptor = abi, abi_sha256 = binding_sha256 abi\<rparr>)"

definition sorted_input :: "module_input \<Rightarrow> module_input" where
  "sorted_input m = m\<lparr>module_types := sort_key type_cpp_name (module_types m),
     module_values := sort_key value_cpp_name (module_values m),
     module_callables := sort_key call_symbol (module_callables m)\<rparr>"

definition module_of :: "module_input \<Rightarrow> binding_module" where
  "module_of m = \<lparr>input_of = m, contracts = map (contract_of m) (module_callables m)\<rparr>"

definition check_contents :: "module_input \<Rightarrow> diagnostic list" where
  "check_contents m =
     (let (type_report, taken) = check_types (length (module_sources m)) ({}, {}) (module_types m);
          (value_report, cpp_types, script_types) = check_values (length (module_sources m)) taken (module_values m)
      in check_sources {} (module_sources m) @ type_report @
         fail_if (length (module_values m) > 4096) nowhere ''PrSM binding value budget exceeded'' @ value_report @
         check_calls m (receiver_kinds (module_types m)) ({}, {}) (module_callables m) @
         check_members m @
         check_global_names (sorted_list_of_set script_types @ owner_names (module_callables m)))"

definition build_binding_module :: "module_input \<Rightarrow> diagnostic list \<Rightarrow> binding_module option \<times> diagnostic list" where
  "build_binding_module m report =
     (let report = report @ check_identity m @ check_target m
      in if over_budget m
         then (None, report @ fail_if True nowhere ''PrSM binding source/type/callable budget exceeded or no source supplied'')
         else let report = report @ check_contents m
              in if has_errors report then (None, report) else (Some (module_of (sorted_input m)), report))"

end
