(* ===== verification/Prsm_Catalog.thy ===== *)
theory Prsm_Catalog
  imports Binding_Ir
begin

text \<open>
  The catalog of a binding module, which the compiler of the script language reads, and the table
  of native entry points (\<open>generator/src/prsm_catalog.cpp\<close>).
\<close>

definition catalog_quoted :: "string \<Rightarrow> string" where
  "catalog_quoted s = foldl (\<lambda>result c. (if c = CHR 0x5C \<or> c = CHR 0x22 then result @ [CHR 0x5C] else result) @ [c])
     [CHR 0x22] s @ [CHR 0x22]"

definition hex_text :: "string \<Rightarrow> string" where
  "hex_text s = foldl (\<lambda>result c. result @
     [''0123456789abcdef'' ! drop_bit 4 (code_of c), ''0123456789abcdef'' ! (code_of c AND 15)]) [] s"

definition catalog_type :: "binding_type \<Rightarrow> string" where
  "catalog_type t = ''{\"name\":'' @ catalog_quoted (type_script_name t) @
     '',\"cpp_name\":'' @ catalog_quoted (type_cpp_name t) @
     '',\"receiver\":'' @ catalog_quoted (receiver_name (type_receiver t)) @ ''}''"

definition catalog_field :: "value_field \<Rightarrow> string" where
  "catalog_field f = ''{\"name\":'' @ catalog_quoted (value_field_name f) @
     '',\"type\":'' @ catalog_quoted (scalar_name (value_field_type f)) @
     '',\"offset\":'' @ show_nat (unat (value_field_offset f)) @ ''}''"

definition catalog_case :: "value_case \<Rightarrow> string" where
  "catalog_case c = ''{\"name\":'' @ catalog_quoted (case_name c) @ '',\"value\":'' @ catalog_quoted (case_value c) @ ''}''"

definition catalog_value :: "binding_value \<Rightarrow> string" where
  "catalog_value v = ''{\"name\":'' @ catalog_quoted (value_script_name v) @
     '',\"cpp_name\":'' @ catalog_quoted (value_cpp_name v) @
     (case value_kind v of
        Record \<Rightarrow> '',\"kind\":\"record\",\"size\":'' @ show_nat (unat (value_size v)) @
          '',\"align\":'' @ show_nat (unat (value_align v)) @
          '',\"fields\":['' @ comma_items True (map catalog_field (value_fields v))
      | Enumeration \<Rightarrow> '',\"kind\":\"enum\",\"underlying\":'' @ catalog_quoted (scalar_name (value_underlying v)) @
          '',\"cases\":['' @ comma_items True (map catalog_case (value_cases v))) @ '']}''"

definition catalog_call :: "module_input \<Rightarrow> call_contract \<Rightarrow> string" where
  "catalog_call m k =
     (let c = contract_call k; owner = (call_operation c = Owner);
          kind = (if owner then ''owner'' else if call_operation c = Method then ''method''
                  else if call_operation c = Getter then ''getter'' else ''setter'')
      in ''{\"name\":'' @ catalog_quoted (call_script_name c) @ '',\"cpp_name\":'' @ catalog_quoted (call_cpp_name c) @
         '',\"receiver\":'' @ (if owner then ''null'' else catalog_quoted (call_receiver c)) @
         '',\"operation\":'' @ catalog_quoted kind @ '',\"signature\":'' @ catalog_quoted (call_signature c) @
         '',\"const\":'' @ (if call_is_const c then ''true'' else ''false'') @
         '',\"noexcept\":'' @ (if call_is_noexcept c then ''true'' else ''false'') @
         '',\"effect\":'' @ catalog_quoted (if call_effect c = Read then ''read'' else ''write'') @
         '',\"result\":'' @ catalog_quoted (if owner then ''handle:'' @ call_handle_result c
           else slot_token (module_values m) (call_result c) (call_result_value c)) @
         '',\"params\":['' @ comma_items True (map (\<lambda>i. catalog_quoted
             (slot_token (module_values m) (call_parameters c ! i) (parameter_value c i))) [0..<length (call_parameters c)]) @
         ''],\"symbol\":'' @ catalog_quoted (call_symbol c) @ '',\"abi_sha256\":'' @ catalog_quoted (abi_sha256 k) @ ''}'')"

definition emit_prsm_catalog :: "binding_module \<Rightarrow> string" where
  "emit_prsm_catalog b =
     (let m = input_of b
      in ''{\"format\":\"reflgen.prsm.bindings\",\"version\":1,\"abi\":\"reflgen.prsm.abi.v1\",\"module\":'' @
         catalog_quoted (module_identity m) @ '',\"target\":{\"triple\":'' @ catalog_quoted (triple (module_target m)) @
         '',\"pointer_width\":64},\"types\":['' @ comma_items True (map catalog_type (module_types m)) @ '']'' @
         (if module_values m \<noteq> []
          then '',\"values\":['' @ comma_items True (map catalog_value (module_values m)) @ '']'' else []) @
         '',\"callables\":['' @ comma_items True (map (catalog_call m) (contracts b)) @ '']}'' @ [CHR 0x0A])"

text \<open>The entries of the table: the two digits of each byte of the digest, in steps of two.\<close>

definition native_entry :: "call_contract \<Rightarrow> string" where
  "native_entry k =
     (let symbol = call_symbol (contract_call k); sha = abi_sha256 k
      in ''    {'' @ catalog_quoted symbol @ '', '' @ show_nat (length symbol) @ '', {'' @
         comma_items True (map (\<lambda>j. ''0x'' @ take 2 (drop (2 * j) sha)) [0..<(length sha + 1) div 2]) @
         ''}, reinterpret_cast<uintptr_t>(&'' @ symbol @ '')},'' @ [CHR 0x0A])"

definition emit_prsm_native_table :: "binding_module \<Rightarrow> string" where
  "emit_prsm_native_table b =
     (let calls = contracts b
      in (if calls \<noteq> []
          then ''static const reflgen_prsm_binding_entry binding_entries[] = {'' @ [CHR 0x0A] @
            concat (map native_entry calls) @ ''};'' @ [CHR 0x0A] else []) @
         ''extern \"C\" const reflgen_prsm_binding_entry* REFLGEN_PRSM_BINDING_CDECL ce_prsm_table_'' @
         hex_text (module_identity (input_of b)) @
         ''(uint32_t* count) noexcept { if (!count) return nullptr; *count = '' @ show_nat (length calls) @ ''; return '' @
         (if calls = [] then ''nullptr'' else ''binding_entries'') @ ''; }'' @ [CHR 0x0A])"

end
