(* ===== verification/Prsm_Lowering.thy ===== *)
theory Prsm_Lowering
  imports Declaration_Model Prsm_Catalog
begin

text \<open>
  The lowering of declarations to a binding module (\<open>lower_prsm\<close> of \<open>generator/src/prsm.cpp\<close>), which
  both frontends share: attributes select types, values and methods and give them their roles.
  A function returns what it adds to the input of the builder and what it reports.
\<close>

section \<open>Directives\<close>

definition directive :: "string \<Rightarrow> bool" where
  "directive name \<longleftrightarrow> name = ''interop'' \<or> name = ''lifetime'' \<or> name = ''property_get'' \<or> name = ''property_set'' \<or>
     name = ''effect'' \<or> name = ''owner'' \<or> name = ''receiver'' \<or> name = ''value''"

text \<open>A policy maps directives to their arguments; the list has each directive at most once.\<close>

type_synonym policy = "(string \<times> string) list"

definition contains :: "policy \<Rightarrow> string \<Rightarrow> bool" where
  "contains p name \<longleftrightarrow> map_of p name \<noteq> None"

definition at :: "policy \<Rightarrow> string \<Rightarrow> string" where
  "at p name = the (map_of p name)"

definition string_literal :: "attribute_use \<Rightarrow> bool" where
  "string_literal a \<longleftrightarrow> has_arguments a \<and> length (argument_tokens a) = 1 \<and>
     (let token = hd (argument_tokens a)
      in length token \<ge> 3 \<and> hd token = CHR 0x22 \<and> last token = CHR 0x22 \<and> CHR 0x5C \<notin> set token)"

fun policy_from :: "policy \<Rightarrow> attribute_use list \<Rightarrow> policy \<times> diagnostic list" where
  "policy_from result [] = (result, [])"
| "policy_from result (a # as) =
     (if attribute_scope a \<noteq> ''reflgen'' \<or> \<not> directive (attribute_name a) then policy_from result as
      else if \<not> string_literal a \<or> contains result (attribute_name a)
      then let (p, report) = policy_from result as
           in (p, error_at ''RG0301'' (attribute_position a)
                (''PrSM directive requires one nonempty ordinary string literal, once: '' @ attribute_name a) # report)
      else let token = hd (argument_tokens a)
           in policy_from (result @ [(attribute_name a, take (length token - 2) (drop 1 token))]) as)"

definition policy_of :: "attribute_use list \<Rightarrow> policy \<times> diagnostic list" where
  "policy_of attributes = policy_from [] attributes"

section \<open>Types\<close>

definition integer_scalar :: "bool \<Rightarrow> int \<Rightarrow> scalar option" where
  "integer_scalar b n =
     (if n = 1 then Some (if b then Int8 else Uint8)
      else if n = 2 then Some (if b then Int16 else Uint16)
      else if n = 4 then Some (if b then Int32 else Uint32)
      else if n = 8 then Some (if b then Int64 else Uint64)
      else None)"

definition scalar_of :: "declaration_type \<Rightarrow> scalar option" where
  "scalar_of t =
     (if type_is_volatile t \<or> type_is_const t then None
      else if type_kind t = ''void'' then Some Void
      else if type_kind t = ''bool'' \<and> size_bytes t = 1 then Some Boolean
      else if type_kind t = ''floating_point''
      then if canonical_spelling t = ''float'' \<and> size_bytes t = 4 then Some Float32
           else if canonical_spelling t = ''double'' \<and> size_bytes t = 8 then Some Float64
           else None
      else if type_kind t \<noteq> ''signed_integer'' \<and> type_kind t \<noteq> ''unsigned_integer'' then None
      else integer_scalar (type_kind t = ''signed_integer'') (sint (size_bytes t)))"

text \<open>
  A value slot is a selected value by value or by reference to const; the result names the value
  and is empty for every other type.
\<close>

definition slot_target :: "declaration_type \<Rightarrow> declaration_type" where
  "slot_target t =
     (case pointee t of
        Some p \<Rightarrow> if type_kind t = ''lvalue_reference'' \<and> type_is_const p then p else t
      | None \<Rightarrow> t)"

definition value_slot_of :: "binding_value list \<Rightarrow> declaration_type \<Rightarrow> string" where
  "value_slot_of selected t =
     (let target = slot_target t
      in if (type_kind target \<noteq> ''record'' \<and> type_kind target \<noteq> ''enum'') \<or> type_is_volatile target then []
         else case find_value selected (type_declaration target) of None \<Rightarrow> [] | Some v \<Rightarrow> value_cpp_name v)"

section \<open>Targets and sources\<close>

definition windows_profile :: string where
  "windows_profile = ''x86_64-pc-windows-msvc''"

definition normal_target :: "target_model \<Rightarrow> target_model" where
  "normal_target t =
     (if starts_with (triple t) windows_profile
      then let suffix = drop (length windows_profile) (triple t)
           in if suffix \<noteq> [] \<and> is_digit (hd suffix) \<and> list_all (\<lambda>c. is_digit c \<or> c = CHR ''.'') suffix
              then t\<lparr>triple := windows_profile\<rparr> else t
      else t)"

definition has_headers :: "binding_source list \<Rightarrow> bool" where
  "has_headers sources \<longleftrightarrow> sources \<noteq> [] \<and> source_kind (hd sources) = Header"

fun find_source :: "string \<Rightarrow> binding_source list \<Rightarrow> nat option" where
  "find_source name [] = None"
| "find_source name (s # ss) = (if source_name s = name then Some 0 else map_option Suc (find_source name ss))"

definition source_index :: "binding_source list \<Rightarrow> source_position \<Rightarrow> nat option" where
  "source_index sources place = (if \<not> has_headers sources then Some 0 else find_source (pos_file place) sources)"

section \<open>Values\<close>

fun lower_fields :: "value_model \<Rightarrow> value_field_model list \<Rightarrow> value_field list \<times> diagnostic list" where
  "lower_fields a [] = ([], [])"
| "lower_fields a (f # fs) =
     (let t = scalar_of (member_type f); (fields, report) = lower_fields a fs
      in if \<not> is_public f \<or> is_bitfield f \<or> sint (offset_bytes f) < 0 \<or> t = None \<or> t = Some Void \<or> t = Some Boolean
         then (fields, error_at ''RG0302'' (alias_position a)
           (''PrSM value record fields must be public, non-bit-field numeric scalars: '' @
              type_declaration (target a) @ ''::'' @ member_name f) # report)
         else (\<lparr>value_field_name = member_name f, value_field_type = the t, value_field_offset = offset_bytes f\<rparr> # fields, report))"

definition positive_size :: "64 word \<Rightarrow> 64 word" where
  "positive_size w = (if sint w > 0 then w else 0)"

definition lower_record :: "value_model \<Rightarrow> string \<Rightarrow> nat \<Rightarrow> binding_value \<times> diagnostic list" where
  "lower_record a name source =
     (let (fields, report) = lower_fields a (alias_fields a)
      in (\<lparr>value_cpp_name = type_declaration (target a), value_script_name = name, value_source = source, value_kind = Record,
            value_size = positive_size (size_bytes (target a)), value_align = positive_size (value_align_bytes a),
            value_fields = fields, value_underlying = Int32, value_cases = []\<rparr>,
          error_when (has_bases a) ''RG0302'' (alias_position a) ''a PrSM value record cannot have base classes'' @ report))"

definition lower_enumeration :: "value_model \<Rightarrow> string \<Rightarrow> nat \<Rightarrow> binding_value \<times> diagnostic list" where
  "lower_enumeration a name source =
     (let t = scalar_of (underlying a); bad = (t = None \<or> t = Some Void \<or> t = Some Boolean)
      in (\<lparr>value_cpp_name = type_declaration (target a), value_script_name = name, value_source = source,
            value_kind = Enumeration, value_size = 0, value_align = 0, value_fields = [],
            value_underlying = if bad then Int32 else the t,
            value_cases = map (\<lambda>c. \<lparr>case_name = enumerator_name c, case_value = enumerator_text c\<rparr>) (alias_cases a)\<rparr>,
          error_when bad ''RG0302'' (alias_position a) ''unsupported PrSM value enumeration underlying type''))"

definition lower_value :: "binding_source list \<Rightarrow> value_model \<Rightarrow> binding_value list \<times> diagnostic list" where
  "lower_value sources a =
     (let (p, report) = policy_of (alias_attributes a)
      in if contains p ''interop'' \<and> at p ''interop'' = ''fsharp'' then ([], report)
         else if length p \<noteq> 2 \<or> \<not> contains p ''interop'' \<or> at p ''interop'' \<noteq> ''prsm'' \<or> \<not> contains p ''value''
         then ([], report @ [error_at ''RG0301'' (alias_position a)
           (''a PrSM value alias requires exactly interop(\"prsm\") and value(\"Name\"): '' @ alias_name a)])
         else case source_index sources (alias_position a) of
             None \<Rightarrow> ([], report @ [error_at ''RG0301'' (alias_position a) ''PrSM value alias source is not a selected input''])
           | Some source \<Rightarrow>
               if type_kind (target a) = ''record''
               then let (v, ds) = lower_record a (at p ''value'') source in ([v], report @ ds)
               else if type_kind (target a) = ''enum''
               then let (v, ds) = lower_enumeration a (at p ''value'') source in ([v], report @ ds)
               else ([], report @ [error_at ''RG0302'' (alias_position a)
                 (''a PrSM value alias must name a record or an enumeration: '' @ alias_name a)]))"

fun collect :: "('a \<Rightarrow> 'b list \<times> diagnostic list) \<Rightarrow> 'a list \<Rightarrow> 'b list \<times> diagnostic list" where
  "collect f [] = ([], [])"
| "collect f (x # xs) = (let (ys, ds) = f x; (zs, es) = collect f xs in (ys @ zs, ds @ es))"

section \<open>Methods\<close>

definition unsupported_method :: "class_model \<Rightarrow> method_model \<Rightarrow> policy \<Rightarrow> bool" where
  "unsupported_method c m p \<longleftrightarrow>
     method_access m \<noteq> ''public'' \<or> method_owner m \<noteq> class_qualified_name c \<or> is_static m \<or> is_deleted m \<or>
     is_consteval m \<or> is_overloaded m \<or> is_variadic m \<or> is_volatile m \<or> ref_qualifier m \<noteq> ''none'' \<or>
     \<not> qualifiers_known m \<or> \<not> declaration_specifiers_known m \<or> contains p ''lifetime'' \<or> contains p ''owner'' \<or>
     contains p ''receiver'' \<or>
     (calling_convention m \<noteq> ''c'' \<and> calling_convention m \<noteq> ''default'') \<or>
     (exception_specification m \<noteq> ''none'' \<and> exception_specification m \<noteq> ''basic_noexcept'')"

definition call_symbol_of :: "string \<Rightarrow> string \<Rightarrow> string \<Rightarrow> string" where
  "call_symbol_of identity type member =
     ''ce_prsm_bind_'' @ hex_text identity @ ''_'' @ hex_text type @ ''_'' @ hex_text member"

definition owner_symbol_of :: "string \<Rightarrow> string \<Rightarrow> string" where
  "owner_symbol_of identity type =
     ''ce_prsm_bind_'' @ hex_text identity @ ''_'' @ hex_text type @ ''_owner''"

text \<open>The parameters that are slots, with their scalar, value and spelling.\<close>

fun lower_parameters ::
  "binding_value list \<Rightarrow> parameter_model list \<Rightarrow> (scalar \<times> string \<times> string) list \<times> diagnostic list" where
  "lower_parameters selected [] = ([], [])"
| "lower_parameters selected (x # xs) =
     (let slot = value_slot_of selected (parameter_type x);
          t = (if slot = [] then scalar_of (parameter_type x) else Some Int32);
          (ys, report) = lower_parameters selected xs
      in case t of
          None \<Rightarrow> (ys, error_at ''RG0302'' (parameter_position x) ''unsupported PrSM parameter type'' # report)
        | Some s \<Rightarrow> if s = Void
            then (ys, error_at ''RG0302'' (parameter_position x) ''unsupported PrSM parameter type'' # report)
            else ((s, slot, canonical_spelling (parameter_type x)) # ys, report))"

definition normal_signature :: "binding_value list \<Rightarrow> callable \<Rightarrow> string" where
  "normal_signature selected c =
     slot_token selected (call_result c) (call_result_value c) @ ''('' @
     comma_items True (map (\<lambda>i. slot_token selected (call_parameters c ! i) (parameter_value c i))
       [0..<length (call_parameters c)]) @ '')'' @
     (if call_is_const c then '' const'' else []) @ (if call_is_noexcept c then '' noexcept'' else [])"

definition lower_call ::
  "string \<Rightarrow> binding_value list \<Rightarrow> class_model \<Rightarrow> receiver \<Rightarrow> method_model \<Rightarrow> policy \<Rightarrow> scalar \<Rightarrow> callable \<times> diagnostic list" where
  "lower_call identity selected c kind m p result =
     (let (slots, parameter_report) = lower_parameters selected (parameter_declarations m);
          any_value = list_ex (\<lambda>(s, slot, t). slot \<noteq> []) slots;
          getter = contains p ''property_get''; setter = contains p ''property_set'';
          known_effect = (at p ''effect'' = ''read'' \<or> at p ''effect'' = ''write'');
          call = \<lparr>call_receiver = class_qualified_name c, call_cpp_name = method_name m, call_signature = [],
            call_script_name = (if setter then at p ''property_set'' else if getter then at p ''property_get'' else method_name m),
            call_symbol = call_symbol_of identity (class_qualified_name c) (method_name m),
            call_operation = (if setter then Setter else if getter then Getter else Method),
            call_effect = (if contains p ''effect'' \<and> known_effect then if at p ''effect'' = ''read'' then Read else Write
              else if getter then Read else Write),
            call_result = result, call_parameters = map fst slots, call_position = method_position m,
            call_is_const = is_const m, call_is_noexcept = (exception_specification m \<noteq> ''none''),
            call_native_result = canonical_spelling (return_type m), call_native_parameters = map (snd \<circ> snd) slots,
            call_handle_result = [], call_receiver_kind = kind, call_result_value = value_slot_of selected (return_type m),
            call_parameter_values = (if any_value then map (fst \<circ> snd) slots else [])\<rparr>
      in (call\<lparr>call_signature := normal_signature selected call\<rparr>,
          parameter_report @
          error_when (getter \<and> setter) ''RG0301'' (method_position m) ''a method cannot be both getter and setter'' @
          error_when (contains p ''effect'' \<and> \<not> known_effect) ''RG0301'' (method_position m) ''unknown PrSM effect''))"

definition lower_method ::
  "string \<Rightarrow> binding_value list \<Rightarrow> class_model \<Rightarrow> receiver \<Rightarrow> method_model \<Rightarrow> callable list \<times> diagnostic list" where
  "lower_method identity selected c kind m =
     (let (p, report) = policy_of (method_attributes m)
      in if \<not> contains p ''interop''
         then ([], report @ error_when (contains p ''property_get'' \<or> contains p ''property_set'' \<or> contains p ''effect'' \<or>
             contains p ''lifetime'' \<or> contains p ''owner'' \<or> contains p ''receiver'')
             ''RG0301'' (method_position m) ''PrSM method directives require interop(\"prsm\")'')
         else if at p ''interop'' \<noteq> ''prsm''
         then ([], report @ error_when (at p ''interop'' \<notin> {''c'', ''csharp'', ''fsharp''}) ''RG0301'' (method_position m)
             ''unknown interop target'')
         else if unsupported_method c m p
         then ([], report @ [error_at ''RG0301'' (method_position m)
             (''unsupported or unknown PrSM method declaration: '' @ method_name m)])
         else case (if value_slot_of selected (return_type m) = [] then scalar_of (return_type m) else Some Void) of
             None \<Rightarrow> ([], report @ [error_at ''RG0302'' (method_position m) ''unsupported PrSM return type''])
           | Some result \<Rightarrow>
               let (call, ds) = lower_call identity selected c kind m p result in ([call], report @ ds))"

section \<open>Classes\<close>

text \<open>The methods of a class that is not selected must not be selected either.\<close>

definition unselected_method :: "method_model \<Rightarrow> diagnostic list" where
  "unselected_method m =
     (let (p, report) = policy_of (method_attributes m)
      in report @ error_when ((contains p ''interop'' \<and> at p ''interop'' = ''prsm'') \<or> contains p ''property_get'' \<or>
           contains p ''property_set'' \<or> contains p ''effect'' \<or> contains p ''owner'')
           ''RG0301'' (method_position m) ''PrSM method requires an explicitly selected PrSM type'')"

definition receiver_of :: "policy \<Rightarrow> receiver" where
  "receiver_of p =
     (if contains p ''receiver''
      then if at p ''receiver'' = ''entity'' then Entity
           else if at p ''receiver'' = ''component'' then Component else Handle
      else Handle)"

definition owner_of :: "string \<Rightarrow> class_model \<Rightarrow> policy \<Rightarrow> callable" where
  "owner_of identity c p = \<lparr>call_receiver = [], call_cpp_name = ''binding_owner'',
     call_signature = ''handle:'' @ class_qualified_name c @ ''()'', call_script_name = at p ''owner'',
     call_symbol = owner_symbol_of identity (class_qualified_name c), call_operation = Owner, call_effect = Read,
     call_result = Uint64, call_parameters = [], call_position = class_position c, call_is_const = False,
     call_is_noexcept = False, call_native_result = [], call_native_parameters = [],
     call_handle_result = class_qualified_name c, call_receiver_kind = receiver_of p, call_result_value = [],
     call_parameter_values = []\<rparr>"

definition selected_class :: "policy \<Rightarrow> bool" where
  "selected_class p \<longleftrightarrow> contains p ''interop'' \<and> at p ''interop'' = ''prsm''"

definition lower_class ::
  "string \<Rightarrow> binding_source list \<Rightarrow> binding_value list \<Rightarrow> class_model \<Rightarrow>
     (binding_type list \<times> callable list) \<times> diagnostic list" where
  "lower_class identity sources selected c =
     (let (p, report) = policy_of (class_attributes c);
          place = class_position c;
          report = report @
            error_when (contains p ''owner'' \<and> \<not> selected_class p) ''RG0301'' place
              ''owner requires an explicitly selected PrSM type'' @
            error_when (contains p ''interop'' \<and> at p ''interop'' \<notin> {''prsm'', ''c'', ''csharp'', ''fsharp''}) ''RG0301'' place
              ''unknown interop target''
      in if \<not> selected_class p
         then (([], []), report @ concat (map unselected_method (methods_of c)))
         else let found = (if has_headers sources then find_source (pos_file place) sources else Some 0);
                  source = (case found of None \<Rightarrow> 0 | Some i \<Rightarrow> i);
                  (calls, method_report) =
                    collect (lower_method identity selected c (receiver_of p)) (methods_of c)
              in (([\<lparr>type_cpp_name = class_qualified_name c, type_script_name = class_qualified_name c,
                     type_source = source, type_receiver = receiver_of p\<rparr>],
                   (if contains p ''owner'' then [owner_of identity c p] else []) @ calls),
                  report @
                  error_when (class_nested c \<or> \<not> contains p ''lifetime'' \<or> at p ''lifetime'' \<noteq> ''borrowed'' \<or>
                      contains p ''property_get'' \<or> contains p ''property_set'' \<or> contains p ''effect'')
                    ''RG0301'' place ''PrSM type requires borrowed lifetime and an ordinary nonnested class'' @
                  error_when (contains p ''receiver'' \<and> at p ''receiver'' \<notin> {''entity'', ''component'', ''handle''})
                    ''RG0301'' place (''unknown PrSM receiver kind: '' @ at p ''receiver'') @
                  error_when (found = None) ''RG0301'' place ''PrSM type source is not a selected input'' @
                  method_report))"

fun lower_classes ::
  "string \<Rightarrow> binding_source list \<Rightarrow> binding_value list \<Rightarrow> class_model list \<Rightarrow>
     (binding_type list \<times> callable list) \<times> diagnostic list" where
  "lower_classes identity sources selected [] = (([], []), [])"
| "lower_classes identity sources selected (c # cs) =
     (let ((ts, calls), ds) = lower_class identity sources selected c;
          ((ts', calls'), ds') = lower_classes identity sources selected cs
      in ((ts @ ts', calls @ calls'), ds @ ds'))"

section \<open>Used sources\<close>

text \<open>The new index of each source that was seen, and the sources kept so far.\<close>

type_synonym renumbering = "(nat \<Rightarrow> nat option) \<times> binding_source list"

definition keep :: "binding_source list \<Rightarrow> nat \<Rightarrow> renumbering \<Rightarrow> nat \<times> renumbering" where
  "keep sources source = (\<lambda>(remap, used).
     case remap source of
       Some i \<Rightarrow> (i, (remap, used))
     | None \<Rightarrow> (length used, (remap(source \<mapsto> length used), used @ [sources ! source])))"

fun keep_types :: "binding_source list \<Rightarrow> binding_type list \<Rightarrow> renumbering \<Rightarrow> binding_type list \<times> renumbering" where
  "keep_types sources [] r = ([], r)"
| "keep_types sources (t # ts) r =
     (let (i, r) = keep sources (type_source t) r; (ts, r) = keep_types sources ts r
      in (t\<lparr>type_source := i\<rparr> # ts, r))"

fun keep_values :: "binding_source list \<Rightarrow> binding_value list \<Rightarrow> renumbering \<Rightarrow> binding_value list \<times> renumbering" where
  "keep_values sources [] r = ([], r)"
| "keep_values sources (v # vs) r =
     (let (i, r) = keep sources (value_source v) r; (vs, r) = keep_values sources vs r
      in (v\<lparr>value_source := i\<rparr> # vs, r))"

definition used_sources :: "module_input \<Rightarrow> module_input" where
  "used_sources m =
     (let (types, r) = keep_types (module_sources m) (module_types m) (Map.empty, []);
          (vals, _, used) = keep_values (module_sources m) (module_values m) r
      in m\<lparr>module_sources := used, module_types := types, module_values := vals\<rparr>)"

section \<open>The whole\<close>

definition lowered ::
  "class_model list \<Rightarrow> target_model \<Rightarrow> string \<Rightarrow> binding_source list \<Rightarrow> value_model list \<Rightarrow>
     module_input \<times> diagnostic list" where
  "lowered declarations t identity sources values =
     (let (vals, ds) = collect (lower_value sources) values;
          ((types, calls), es) = lower_classes identity sources vals declarations
      in (\<lparr>module_identity = identity, module_target = normal_target t, module_sources = sources,
            module_types = types, module_values = vals, module_callables = calls\<rparr>, ds @ es))"

definition lower_prsm ::
  "class_model list \<Rightarrow> target_model \<Rightarrow> string \<Rightarrow> binding_source list \<Rightarrow> diagnostic list \<Rightarrow> value_model list \<Rightarrow>
     binding_module option \<times> diagnostic list" where
  "lower_prsm declarations t identity sources report values =
     (let (m, ds) = lowered declarations t identity sources values; report = report @ ds
      in build_binding_module
           (if \<not> has_errors report \<and> (module_types m \<noteq> [] \<or> module_values m \<noteq> []) \<and> has_headers (module_sources m)
            then used_sources m else m) report)"

end
