(* ===== verification/Json_Emit.thy ===== *)
theory Json_Emit
  imports Json_Backend Strings
begin

text \<open>
  JSON that the generator writes by appending strings, without the JSON writer: when such a
  string is the text of a document, and which value of the data model the document denotes.
\<close>

section \<open>Texts that say a value\<close>

definition says :: "string \<Rightarrow> node \<Rightarrow> bool" where
  "says s n \<longleftrightarrow> (\<exists>t. json_valid t \<and> denotes t n \<and> json_text t = s)"

lemma says_null: "says ''null'' NNull"
  unfolding says_def by (intro exI [of _ JNull]) simp

lemma says_bool: "says (if b then ''true'' else ''false'') (NBool b)"
  unfolding says_def by (intro exI [of _ "JBool b"]) simp

lemma says_int: "says (show_int (sint i)) (NInt i)"
  unfolding says_def by (intro exI [of _ "JNumber (integer_number (sint i))"]) (simp add: integer_number)

lemma says_nat: "n < 2 ^ 64 \<Longrightarrow> says (show_nat n) (NUint (word_of_nat n))"
  unfolding says_def
  by (intro exI [of _ "JNumber (integer_number (int n))"])
     (simp add: integer_number, simp add: integer_number_def show_int_def number_text_def token_integer_def unat_of_nat uint_nat)

definition says_chars :: "string \<Rightarrow> string \<Rightarrow> bool" where
  "says_chars body s \<longleftrightarrow> (\<exists>cs. list_all char_valid cs \<and> body_text cs = body \<and> body_value cs = s)"

lemma says_string: "says_chars body s \<Longrightarrow> says (CHR 0x22 # body @ [CHR 0x22]) (NString s)"
  unfolding says_def says_chars_def
  by (elim exE conjE, rule_tac x = "JString cs" in exI) (simp add: quoted_def)

lemma says_chars_plain: "list_all plain_char s \<Longrightarrow> says_chars s s"
  unfolding says_chars_def using plain_tree [of s] by blast

lemma says_chars_append: "says_chars a s \<Longrightarrow> says_chars b t \<Longrightarrow> says_chars (a @ b) (s @ t)"
  unfolding says_chars_def
proof (elim exE conjE)
  fix cs ds
  assume "list_all char_valid cs" "body_text cs = a" "body_value cs = s"
    "list_all char_valid ds" "body_text ds = b" "body_value ds = t"
  then show "\<exists>cs. list_all char_valid cs \<and> body_text cs = a @ b \<and> body_value cs = s @ t"
    by (intro exI [of _ "cs @ ds"]) (auto simp: body_text_def body_value_def)
qed

section \<open>Arrays\<close>

definition array_text :: "string list \<Rightarrow> string" where
  "array_text xs = ''['' @ comma_items True xs @ '']''"

lemma items_commas: "items_text (map (\<lambda>t. Item [] t []) ts) = comma_items True (map json_text ts)"
proof (induction ts)
  case (Cons t ts)
  then show ?case by (cases ts) simp_all
qed simp

lemma says_array:
  assumes "list_all2 says xs ns"
  shows "says (array_text xs) (NArray ns)"
proof -
  have "\<exists>ts. items_valid (map (\<lambda>t. Item [] t []) ts) \<and> items_denote (map (\<lambda>t. Item [] t []) ts) ns \<and> map json_text ts = xs"
    using assms
  proof (induction rule: list_all2_induct)
    case (Cons x xs n ns)
    from Cons(1,3) show ?case unfolding says_def
      by (elim exE conjE, rule_tac x = "t # ts" in exI) simp
  qed simp
  then obtain ts where ts: "items_valid (map (\<lambda>t. Item [] t []) ts)" "items_denote (map (\<lambda>t. Item [] t []) ts) ns"
    "map json_text ts = xs" by blast
  then show ?thesis unfolding says_def array_text_def
    by (intro exI [of _ "JArray [] (map (\<lambda>t. Item [] t []) ts)"]) (auto simp: items_commas)
qed

lemma says_array_map:
  "(\<And>x. x \<in> set xs \<Longrightarrow> says (f x) (g x)) \<Longrightarrow> says (array_text (map f xs)) (NArray (map g xs))"
  by (intro says_array) (simp add: list_all2_map1 list_all2_map2 list_all2_same)

section \<open>Objects\<close>

text \<open>A member: the blanks before its key, the key, its text and its value.\<close>

type_synonym member = "string \<times> string \<times> string \<times> node"

definition member_text :: "member \<Rightarrow> string" where
  "member_text = (\<lambda>(u, key, x, n). u @ CHR 0x22 # key @ CHR 0x22 # CHR '':'' # x)"

definition object_text :: "member list \<Rightarrow> string \<Rightarrow> string" where
  "object_text ms v = ''{'' @ comma_items True (map member_text ms) @ v @ ''}''"

definition member_okay :: "member \<Rightarrow> bool" where
  "member_okay = (\<lambda>(u, key, x, n). blanks u \<and> list_all plain_char key \<and> says x n)"

fun entries_of :: "string \<Rightarrow> (member \<times> json) list \<Rightarrow> json_entry list" where
  "entries_of v [] = []"
| "entries_of v (((u, key, x, n), t) # ms) =
     Entry u (map (\<lambda>c. Raw (code_of c)) key) [] [] t (if ms = [] then v else []) # entries_of v ms"

lemma entries_of_Nil [simp]: "entries_of v ms = [] \<longleftrightarrow> ms = []"
  by (cases "(v, ms)" rule: entries_of.cases) simp_all

lemma entries_commas:
  "list_all (\<lambda>((u, key, x, n), t). list_all plain_char key \<and> json_text t = x) ms \<Longrightarrow> ms \<noteq> [] \<Longrightarrow>
     entries_text (entries_of v ms) = comma_items True (map (\<lambda>m. member_text (fst m)) ms) @ v"
proof (induction v ms rule: entries_of.induct)
  case (2 v u key x n t ms)
  have key: "quoted (map (\<lambda>c. Raw (code_of c)) key) = CHR 0x22 # key @ [CHR 0x22]"
    using 2(2) plain_tree [of key] by (simp add: quoted_def)
  show ?case
  proof (cases ms)
    case Nil
    with 2 key show ?thesis by (simp add: member_text_def)
  next
    case (Cons m ms')
    with 2 key have "entries_text (entries_of v ms) = comma_items True (map (\<lambda>m. member_text (fst m)) ms) @ v" by simp
    with Cons 2(2) key show ?thesis by (simp add: member_text_def)
  qed
qed simp

lemma says_object:
  assumes "list_all member_okay ms" "blanks v" "ms \<noteq> []"
  shows "says (object_text ms v) (NObject (map (\<lambda>(u, key, x, n). (key, n)) ms))"
proof -
  define good where "good = (\<lambda>((u, key, x, n), t). blanks u \<and> list_all plain_char key \<and> json_text t = x \<and> json_valid t \<and> denotes t n)"
  have "\<exists>ts. list_all good ts \<and> map fst ts = ms" using assms(1)
  proof (induction ms)
    case (Cons m ms)
    then obtain ts where ts: "list_all good ts" "map fst ts = ms" by auto
    obtain u key x n where m: "m = (u, key, x, n)" by (cases m)
    with Cons(2) obtain t where "json_text t = x \<and> json_valid t \<and> denotes t n" by (auto simp: member_okay_def says_def)
    with m Cons(2) ts show ?case
      by (intro exI [of _ "(m, t) # ts"]) (auto simp: member_okay_def good_def)
  qed simp
  then obtain ts where ts: "list_all good ts" "map fst ts = ms" by blast
  have valid: "entries_valid (entries_of v ts) \<and> entries_denote (entries_of v ts) (map (\<lambda>(u, key, x, n). (key, n)) (map fst ts))"
    using ts(1)
  proof (induction ts)
    case (Cons m ms)
    obtain u key x n t where m: "m = ((u, key, x, n), t)" by (metis prod.exhaust)
    with Cons.prems have head: "list_all plain_char key" "blanks u" "json_valid t" "denotes t n" and rest: "list_all good ms"
      by (simp_all add: good_def)
    from Cons.IH [OF rest] m head plain_tree [OF head(1)] assms(2) show ?case by simp
  qed simp
  have "list_all (\<lambda>((u, key, x, n), t). list_all plain_char key \<and> json_text t = x) ts"
    using ts(1) by (auto simp: list_all_iff good_def)
  from entries_commas [OF this, of v] have "entries_text (entries_of v ts) = comma_items True (map member_text ms) @ v"
    using ts(2) assms(3) by (auto simp flip: ts(2) simp: comp_def)
  with valid ts(2) assms show ?thesis unfolding says_def object_text_def
    by (intro exI [of _ "JObject [] (entries_of v ts)"]) auto
qed

end
