(* ===== verification/Declarations.thy ===== *)
theory Declarations
  imports Declaration_Model
begin

text \<open>
  The optional document of declarations for other tools (\<open>generator/src/declarations.cpp\<close>), one
  function per function of the file.
\<close>

definition hex_digit_of :: "nat \<Rightarrow> char" where
  "hex_digit_of d = ''0123456789abcdef'' ! d"

definition declared_char :: "char \<Rightarrow> string" where
  "declared_char c =
     (if c = CHR 0x22 \<or> c = CHR 0x5C then [CHR 0x5C, c]
      else if code_of c < 0x20
      then CHR 0x5C # ''u00'' @ [hex_digit_of (drop_bit 4 (code_of c)), hex_digit_of (code_of c AND 0x0F)]
      else [c])"

definition declared_text :: "string \<Rightarrow> string" where
  "declared_text s = CHR 0x22 # foldl (\<lambda>result c. result @ declared_char c) [] s @ [CHR 0x22]"

definition boolean :: "bool \<Rightarrow> string" where
  "boolean b = (if b then ''true'' else ''false'')"

definition array :: "'a list \<Rightarrow> ('a \<Rightarrow> string) \<Rightarrow> string" where
  "array xs emit = ''['' @ comma_items True (map emit xs) @ '']''"

definition source_json :: "source_position \<Rightarrow> string" where
  "source_json p = ''{\"file\":'' @ declared_text (pos_file p) @ '',\"line\":'' @ show_nat (unat (pos_line p)) @
     '',\"column\":'' @ show_nat (unat (pos_column p)) @ ''}''"

fun type_json :: "declaration_type \<Rightarrow> string" where
  "type_json (Declaration_Type sp canonical kind declaration c v s p e n u a fr fp fc fv fh fe) =
     ''{\"spelling\":'' @ declared_text sp @ '',\"canonical_spelling\":'' @ declared_text canonical @
     '',\"kind\":'' @ declared_text kind @ '',\"declaration\":'' @ declared_text declaration @
     '',\"is_const\":'' @ boolean c @ '',\"is_volatile\":'' @ boolean v @
     '',\"size_bytes\":'' @ show_int (sint s) @
     '',\"pointee\":'' @ (case p of Some t \<Rightarrow> type_json t | None \<Rightarrow> ''null'') @
     '',\"element_type\":'' @ (case e of Some t \<Rightarrow> type_json t | None \<Rightarrow> ''null'') @
     '',\"array_size\":'' @ show_int (sint n) @ ''}''"

definition attribute_json :: "attribute_use \<Rightarrow> string" where
  "attribute_json a = ''{\"scope\":'' @ declared_text (attribute_scope a) @ '',\"name\":'' @ declared_text (attribute_name a) @
     '',\"has_arguments\":'' @ boolean (has_arguments a) @
     '',\"argument_tokens\":'' @ array (argument_tokens a) declared_text @
     '',\"expression\":'' @ declared_text (attribute_expression a) @
     '',\"source\":'' @ source_json (attribute_position a) @ ''}''"

definition field_json :: "field_model \<Rightarrow> string" where
  "field_json f = ''{\"name\":'' @ declared_text (field_name f) @ '',\"owner\":'' @ declared_text (field_owner f) @
     '',\"access\":'' @ declared_text (field_access f) @ '',\"source\":'' @ source_json (field_position f) @
     '',\"type\":'' @ type_json (field_type f) @ '',\"accessor\":'' @ boolean (field_accessor f) @
     '',\"attributes\":'' @ array (field_attributes f) attribute_json @ ''}''"

definition parameter_json :: "parameter_model \<Rightarrow> string" where
  "parameter_json p = ''{\"name\":'' @ declared_text (parameter_name p) @ '',\"type\":'' @ type_json (parameter_type p) @
     '',\"source\":'' @ source_json (parameter_position p) @ ''}''"

definition method_json :: "method_model \<Rightarrow> string" where
  "method_json m = ''{\"name\":'' @ declared_text (method_name m) @ '',\"owner\":'' @ declared_text (method_owner m) @
     '',\"access\":'' @ declared_text (method_access m) @ '',\"source\":'' @ source_json (method_position m) @
     '',\"signature\":'' @ declared_text (signature m) @
     '',\"calling_convention\":'' @ declared_text (calling_convention m) @
     '',\"exception_specification\":'' @ declared_text (exception_specification m) @
     '',\"is_static\":'' @ boolean (is_static m) @ '',\"is_const\":'' @ boolean (is_const m) @
     '',\"is_volatile\":'' @ boolean (is_volatile m) @ '',\"is_variadic\":'' @ boolean (is_variadic m) @
     '',\"qualifiers_known\":'' @ boolean (qualifiers_known m) @
     '',\"is_overloaded\":'' @ boolean (is_overloaded m) @ '',\"is_deleted\":'' @ boolean (is_deleted m) @
     '',\"ref_qualifier\":'' @ declared_text (ref_qualifier m) @
     '',\"return_type\":'' @ type_json (return_type m) @
     '',\"parameters\":'' @ array (parameter_declarations m) parameter_json @
     '',\"attributes\":'' @ array (method_attributes m) attribute_json @ ''}''"

definition class_json :: "class_model \<Rightarrow> string" where
  "class_json c = ''{\"name\":'' @ declared_text (class_name c) @
     '',\"qualified_name\":'' @ declared_text (class_qualified_name c) @
     '',\"class_key\":'' @ declared_text (class_key c) @ '',\"schema_name\":'' @ declared_text (class_schema_name c) @
     '',\"source\":'' @ source_json (class_position c) @ '',\"nested\":'' @ boolean (class_nested c) @
     '',\"runtime_only\":'' @ boolean (runtime_only c) @ '',\"public_fields\":'' @ boolean (public_fields c) @
     '',\"bases\":'' @ array (bases c) (\<lambda>base. declared_text (reference_qualified_name base)) @
     '',\"attributes\":'' @ array (class_attributes c) attribute_json @
     '',\"fields\":'' @ array (fields_of c) field_json @ '',\"methods\":'' @ array (methods_of c) method_json @ ''}''"

definition enum_json :: "enum_model \<Rightarrow> string" where
  "enum_json e = ''{\"name\":'' @ declared_text (enum_short_name e) @
     '',\"qualified_name\":'' @ declared_text (enum_qualified_name e) @
     '',\"source\":'' @ source_json (enum_position e) @ '',\"nested\":'' @ boolean (enum_nested e) @
     '',\"scoped\":'' @ boolean (scoped e) @ '',\"underlying_type\":'' @ declared_text (underlying_type e) @
     '',\"enumerators\":'' @ array (enumerators e) declared_text @ ''}''"

definition header_json :: "header_model \<Rightarrow> string" where
  "header_json h = ''{\"path\":'' @ declared_text (header_path h) @ '',\"classes\":'' @ array (classes h) class_json @
     '',\"enums\":'' @ array (enums h) enum_json @ ''}''"

definition declarations_format_version :: int where
  "declarations_format_version = 1"

text \<open>
  The headers are sorted by path. \<open>std::ranges::sort\<close> leaves the order of headers with the same
  path open; here it is that of the input.
\<close>

definition emit_declarations_json :: "string \<Rightarrow> header_model list \<Rightarrow> target_model \<Rightarrow> string" where
  "emit_declarations_json module_identity headers t =
     (let ordered = sort_key header_path headers
      in ''{'' @ [CHR 0x0A] @ ''  \"format\":\"reflgen.declarations\",'' @ [CHR 0x0A] @ ''  \"version\":'' @
         show_int declarations_format_version @ '','' @ [CHR 0x0A] @ ''  \"module\":'' @ declared_text module_identity @
         '','' @ [CHR 0x0A] @ ''  \"target\":{\"triple\":'' @ declared_text (triple t) @ '',\"pointer_width\":'' @
         show_int (sint (pointer_width t)) @ ''},'' @ [CHR 0x0A] @ ''  \"headers\":'' @ array ordered header_json @
         [CHR 0x0A] @ ''}'' @ [CHR 0x0A])"

end
