(* ===== verification/Declarations_Json.thy ===== *)
theory Declarations_Json
  imports Json_Emit Declarations
begin

text \<open>
  The document of declarations is a JSON text: the value of the data model that each part of a
  declaration stands for, and the proof that \<open>declarations.cpp\<close> writes a text of exactly that value.
\<close>

section \<open>Strings\<close>

definition declared_tree :: "nat \<Rightarrow> json_char" where
  "declared_tree cp =
     (if cp = 0x22 \<or> cp = 0x5C then Short (char_of cp)
      else if cp < 0x20 then Unicode [CHR ''0'', CHR ''0'', hex_digit_of (cp div 16), hex_digit_of (cp mod 16)]
      else Raw cp)"

lemma hex_digit_of_value: "d < 16 \<Longrightarrow> hex_digit (hex_digit_of d) = Some d"
proof -
  have "list_all (\<lambda>k. hex_digit (hex_digit_of k) = Some k) [0..<16]"
    by (simp add: hex_digit_of_def hex_digit_def upt_rec numeral_nat(1) code_of_def Let_def)
  then show "d < 16 \<Longrightarrow> ?thesis" by (simp add: list_all_iff)
qed

lemma special_codes: "code_of c = 0x22 \<longleftrightarrow> c = CHR 0x22" "code_of c = 0x5C \<longleftrightarrow> c = CHR 0x5C"
  using code_of_inj [of c "CHR 0x22"] code_of_inj [of c "CHR 0x5C"] by (auto simp: code_of_def)

lemma declared_ascii:
  assumes "cp < 0x80"
  shows "char_valid (declared_tree cp) \<and> char_value (declared_tree cp) = utf8_bytes cp \<and>
    char_text (declared_tree cp) = declared_char (char_of cp)"
proof -
  have one: "utf8_bytes cp = [char_of cp]" using assms by (simp add: utf8_bytes_def)
  have code: "code_of (char_of cp :: char) = cp" using assms by (simp add: code_of_char_of)
  then have special: "char_of cp = CHR 0x22 \<longleftrightarrow> cp = 0x22" "char_of cp = CHR 0x5C \<longleftrightarrow> cp = 0x5C"
    using special_codes [of "char_of cp"] by simp_all
  consider "cp = 0x22" | "cp = 0x5C" | "cp < 0x20" | "0x20 \<le> cp" "cp \<noteq> 0x22" "cp \<noteq> 0x5C" by linarith
  then show ?thesis
  proof cases
    case 3
    have digits: "drop_bit 4 cp AND 15 = cp div 16" "cp AND 15 = cp mod 16" "cp div 16 < 16" "cp mod 16 < 16"
      "drop_bit 4 cp = cp div 16"
      using 3 by (simp_all add: bits drop_bit_eq_div)
    let ?hs = "[CHR ''0'', CHR ''0'', hex_digit_of (cp div 16), hex_digit_of (cp mod 16)]"
    have zero: "hex_digit (CHR ''0'') = Some 0" by (simp add: hex_digit_def code_of_def)
    have "hex4 ?hs" "hex_value ?hs = cp"
      using hex_digit_of_value [OF digits(3)] hex_digit_of_value [OF digits(4)] zero
      by (simp_all add: hex4_def hex_value_def)
    then show ?thesis using 3 special code digits
      by (simp add: declared_tree_def declared_char_def is_surrogate_def)
  next
    case 4
    then show ?thesis using special code assms one
      by (simp add: declared_tree_def declared_char_def is_scalar_def is_surrogate_def)
  qed (use special in \<open>simp_all add: declared_tree_def declared_char_def utf8_bytes_def short_escapes_def\<close>)
qed

lemma declared_wide: "0x80 \<le> code_of c \<Longrightarrow> declared_char c = [c]"
  using special_codes [of c] by (auto simp: declared_char_def)

lemma declared_scalar:
  assumes "is_scalar cp"
  shows "char_valid (declared_tree cp) \<and> char_value (declared_tree cp) = utf8_bytes cp \<and>
    char_text (declared_tree cp) = concat (map declared_char (utf8_bytes cp))"
proof (cases "cp < 0x80")
  case True
  then have "utf8_bytes cp = [char_of cp]" by (simp add: utf8_bytes_def)
  with declared_ascii [OF True] show ?thesis by simp
next
  case False
  have "concat (map declared_char s) = s" if "\<forall>c\<in>set s. 0x80 \<le> code_of c" for s
    using that by (induction s) (simp_all add: declared_wide)
  with utf8_bytes_wide [of cp] False assms show ?thesis by (simp add: declared_tree_def)
qed

lemma declared_text_eq: "declared_text s = CHR 0x22 # concat (map declared_char s) @ [CHR 0x22]"
proof -
  have "foldl (\<lambda>result c. result @ declared_char c) r s = r @ concat (map declared_char s)" for r
    by (induction s arbitrary: r) simp_all
  then show ?thesis by (simp add: declared_text_def)
qed

lemma says_declared: "validate_utf8 s = Inr () \<Longrightarrow> says (declared_text s) (NString s)"
proof -
  assume "validate_utf8 s = Inr ()"
  then obtain cps where cps: "list_all is_scalar cps" "s = concat (map utf8_bytes cps)"
    by (auto simp: validate_utf8_def decode_all_iff list_all_iff)
  have "list_all char_valid (map declared_tree cps) \<and> body_value (map declared_tree cps) = concat (map utf8_bytes cps) \<and>
      body_text (map declared_tree cps) = concat (map declared_char (concat (map utf8_bytes cps)))"
    using cps(1) by (induction cps) (auto simp: body_value_def body_text_def declared_scalar)
  with cps(2) have "says_chars (concat (map declared_char s)) s" unfolding says_chars_def by blast
  from says_string [OF this] show ?thesis by (simp add: declared_text_eq)
qed

section \<open>The values\<close>

definition source_node :: "source_position \<Rightarrow> node" where
  "source_node p = NObject [(''file'', NString (pos_file p)), (''line'', NUint (ucast (pos_line p))),
     (''column'', NUint (ucast (pos_column p)))]"

fun type_node :: "declaration_type \<Rightarrow> node" where
  "type_node (Declaration_Type sp canonical kind declaration c v s p e n u a fr fp fc fv fh fe) =
     NObject [(''spelling'', NString sp), (''canonical_spelling'', NString canonical), (''kind'', NString kind),
       (''declaration'', NString declaration), (''is_const'', NBool c), (''is_volatile'', NBool v),
       (''size_bytes'', NInt s),
       (''pointee'', case p of Some t \<Rightarrow> type_node t | None \<Rightarrow> NNull),
       (''element_type'', case e of Some t \<Rightarrow> type_node t | None \<Rightarrow> NNull), (''array_size'', NInt n)]"

definition attribute_node :: "attribute_use \<Rightarrow> node" where
  "attribute_node a = NObject [(''scope'', NString (attribute_scope a)), (''name'', NString (attribute_name a)),
     (''has_arguments'', NBool (has_arguments a)), (''argument_tokens'', NArray (map NString (argument_tokens a))),
     (''expression'', NString (attribute_expression a)), (''source'', source_node (attribute_position a))]"

definition field_node :: "field_model \<Rightarrow> node" where
  "field_node f = NObject [(''name'', NString (field_name f)), (''owner'', NString (field_owner f)),
     (''access'', NString (field_access f)), (''source'', source_node (field_position f)), (''type'', type_node (field_type f)),
     (''accessor'', NBool (field_accessor f)), (''attributes'', NArray (map attribute_node (field_attributes f)))]"

definition parameter_node :: "parameter_model \<Rightarrow> node" where
  "parameter_node p = NObject [(''name'', NString (parameter_name p)), (''type'', type_node (parameter_type p)),
     (''source'', source_node (parameter_position p))]"

definition method_node :: "method_model \<Rightarrow> node" where
  "method_node m = NObject [(''name'', NString (method_name m)), (''owner'', NString (method_owner m)),
     (''access'', NString (method_access m)), (''source'', source_node (method_position m)),
     (''signature'', NString (signature m)), (''calling_convention'', NString (calling_convention m)),
     (''exception_specification'', NString (exception_specification m)), (''is_static'', NBool (is_static m)),
     (''is_const'', NBool (is_const m)), (''is_volatile'', NBool (is_volatile m)), (''is_variadic'', NBool (is_variadic m)),
     (''qualifiers_known'', NBool (qualifiers_known m)), (''is_overloaded'', NBool (is_overloaded m)),
     (''is_deleted'', NBool (is_deleted m)), (''ref_qualifier'', NString (ref_qualifier m)),
     (''return_type'', type_node (return_type m)), (''parameters'', NArray (map parameter_node (parameter_declarations m))),
     (''attributes'', NArray (map attribute_node (method_attributes m)))]"

definition class_node :: "class_model \<Rightarrow> node" where
  "class_node c = NObject [(''name'', NString (class_name c)), (''qualified_name'', NString (class_qualified_name c)),
     (''class_key'', NString (class_key c)), (''schema_name'', NString (class_schema_name c)),
     (''source'', source_node (class_position c)), (''nested'', NBool (class_nested c)),
     (''runtime_only'', NBool (runtime_only c)), (''public_fields'', NBool (public_fields c)),
     (''bases'', NArray (map (\<lambda>base. NString (reference_qualified_name base)) (bases c))),
     (''attributes'', NArray (map attribute_node (class_attributes c))), (''fields'', NArray (map field_node (fields_of c))),
     (''methods'', NArray (map method_node (methods_of c)))]"

definition enum_node :: "enum_model \<Rightarrow> node" where
  "enum_node e = NObject [(''name'', NString (enum_short_name e)), (''qualified_name'', NString (enum_qualified_name e)),
     (''source'', source_node (enum_position e)), (''nested'', NBool (enum_nested e)), (''scoped'', NBool (scoped e)),
     (''underlying_type'', NString (underlying_type e)), (''enumerators'', NArray (map NString (enumerators e)))]"

definition header_node :: "header_model \<Rightarrow> node" where
  "header_node h = NObject [(''path'', NString (header_path h)), (''classes'', NArray (map class_node (classes h))),
     (''enums'', NArray (map enum_node (enums h)))]"

definition declarations_node :: "string \<Rightarrow> header_model list \<Rightarrow> target_model \<Rightarrow> node" where
  "declarations_node module_identity headers t = NObject
     [(''format'', NString ''reflgen.declarations''), (''version'', NInt 1), (''module'', NString module_identity),
      (''target'', NObject [(''triple'', NString (triple t)), (''pointer_width'', NInt (scast (pointer_width t)))]),
      (''headers'', NArray (map header_node (sort_key header_path headers)))]"

section \<open>What is written\<close>

named_theorems written \<open>the texts of the parts of a document\<close>

lemma array_array_text: "array xs show_item = array_text (map show_item xs)"
  by (simp add: array_def array_text_def)

lemma expressible_array:
  "expressible (NArray (map f xs)) \<Longrightarrow> (\<And>x. expressible (f x) \<Longrightarrow> says (show_item x) (f x)) \<Longrightarrow> says (array xs show_item) (NArray (map f xs))"
  unfolding array_array_text by (rule says_array_map) (simp add: list_all_iff)

lemma says_boolean: "says (boolean b) (NBool b)"
  by (simp only: boolean_def says_bool)

lemma says_unsigned: "says (show_nat (unat (w :: 32 word))) (NUint (ucast w))"
proof -
  have "unat w < 2 ^ 64" by (rule less_trans [OF unsigned_less]) simp
  moreover have "(ucast w :: 64 word) = word_of_nat (unat w)" by (simp add: unsigned_of_nat of_nat_unat)
  ultimately show ?thesis using says_nat by metis
qed

lemma says_small_int: "says (show_int (sint (w :: 32 word))) (NInt (scast w))"
  using says_int [of "scast w"] by (simp add: sint_up_scast is_up)

text \<open>Objects without blanks: the members as pairs of key and value.\<close>

lemma says_members:
  assumes "list_all (\<lambda>(key, x, n). list_all plain_char key \<and> says x n) ms" "ms \<noteq> []"
    and "ns = map (\<lambda>(key, x, n). (key, n)) ms"
    and "s = ''{'' @ comma_items True (map (\<lambda>(key, x, n). CHR 0x22 # key @ CHR 0x22 # CHR '':'' # x) ms) @ ''}''"
  shows "says s (NObject ns)"
proof -
  let ?ms = "map (\<lambda>m. ([] :: string, m)) ms"
  have "list_all member_okay ?ms" using assms(1) by (auto simp: list_all_iff member_okay_def)
  from says_object [OF this, of "[]"] assms(2) have
    "says (object_text ?ms []) (NObject (map (\<lambda>(u, key, x, n). (key, n)) ?ms))" by simp
  moreover have "object_text ?ms [] = s" by (simp add: assms(4) object_text_def member_text_def comp_def split_def)
  moreover have "map (\<lambda>(u, key, x, n). (key, n)) ?ms = ns" by (simp add: assms(3) comp_def split_def)
  ultimately show ?thesis by metis
qed

text \<open>The keys are plain; every line of the lemmas below gives a key, its text and its value.\<close>

lemmas plain_key = plain_char_def code_of_def

lemmas [written] = says_declared says_boolean says_int says_unsigned says_small_int

lemma says_source [written]: "expressible (source_node p) \<Longrightarrow> says (source_json p) (source_node p)"
  unfolding source_node_def
  by (rule says_members [where ms = "[(''file'', declared_text (pos_file p), NString (pos_file p)),
        (''line'', show_nat (unat (pos_line p)), NUint (ucast (pos_line p))),
        (''column'', show_nat (unat (pos_column p)), NUint (ucast (pos_column p)))]"])
    (simp_all add: written source_json_def plain_key)

lemma says_strings [written]:
  "list_all expressible (map NString xs) \<Longrightarrow> says (array xs declared_text) (NArray (map NString xs))"
  unfolding array_array_text by (rule says_array_map) (simp add: list_all_iff says_declared)

lemma says_optional_type:
  "(\<And>t. p = Some t \<Longrightarrow> says (type_json t) (type_node t)) \<Longrightarrow>
     says (case p of Some t \<Rightarrow> type_json t | None \<Rightarrow> ''null'') (case p of Some t \<Rightarrow> type_node t | None \<Rightarrow> NNull)"
  by (simp add: says_null split: option.split)

lemma says_type [written]: "expressible (type_node t) \<Longrightarrow> says (type_json t) (type_node t)"
proof (induction t rule: type_json.induct)
  case (1 sp canonical kind decl c v s p e n u a fr fp fc fv fh fe)
  have "says (case p of Some t \<Rightarrow> type_json t | None \<Rightarrow> ''null'') (case p of Some t \<Rightarrow> type_node t | None \<Rightarrow> NNull)"
    by (rule says_optional_type, rule 1(1)) (use 1(3) in auto)
  moreover have "says (case e of Some t \<Rightarrow> type_json t | None \<Rightarrow> ''null'') (case e of Some t \<Rightarrow> type_node t | None \<Rightarrow> NNull)"
    by (rule says_optional_type, rule 1(2)) (use 1(3) in auto)
  ultimately show ?case using 1(3) unfolding type_node.simps
    by (intro says_members [where ms = "[(''spelling'', declared_text sp, NString sp),
          (''canonical_spelling'', declared_text canonical, NString canonical),
          (''kind'', declared_text kind, NString kind),
          (''declaration'', declared_text decl, NString decl),
          (''is_const'', boolean c, NBool c),
          (''is_volatile'', boolean v, NBool v),
          (''size_bytes'', show_int (sint s), NInt s),
          (''pointee'',
            (case p of Some t \<Rightarrow> type_json t | None \<Rightarrow> ''null''), (case p of Some t \<Rightarrow> type_node t | None \<Rightarrow> NNull)),
          (''element_type'',
            (case e of Some t \<Rightarrow> type_json t | None \<Rightarrow> ''null''), (case e of Some t \<Rightarrow> type_node t | None \<Rightarrow> NNull)),
          (''array_size'', show_int (sint n), NInt n)]"])
      (simp_all add: written plain_key)
qed

lemma says_attribute [written]: "expressible (attribute_node a) \<Longrightarrow> says (attribute_json a) (attribute_node a)"
  unfolding attribute_node_def
  by (rule says_members [where ms = "[(''scope'', declared_text (attribute_scope a), NString (attribute_scope a)),
        (''name'', declared_text (attribute_name a), NString (attribute_name a)),
        (''has_arguments'', boolean (has_arguments a), NBool (has_arguments a)),
        (''argument_tokens'', array (argument_tokens a) declared_text, NArray (map NString (argument_tokens a))),
        (''expression'', declared_text (attribute_expression a), NString (attribute_expression a)),
        (''source'', source_json (attribute_position a), source_node (attribute_position a))]"])
    (simp_all add: written attribute_json_def plain_key)

lemma says_attributes [written]:
  "list_all expressible (map attribute_node as) \<Longrightarrow> says (array as attribute_json) (NArray (map attribute_node as))"
  by (rule expressible_array) (simp_all add: written)

lemma says_field [written]: "expressible (field_node f) \<Longrightarrow> says (field_json f) (field_node f)"
  unfolding field_node_def
  by (rule says_members [where ms = "[(''name'', declared_text (field_name f), NString (field_name f)),
        (''owner'', declared_text (field_owner f), NString (field_owner f)),
        (''access'', declared_text (field_access f), NString (field_access f)),
        (''source'', source_json (field_position f), source_node (field_position f)),
        (''type'', type_json (field_type f), type_node (field_type f)),
        (''accessor'', boolean (field_accessor f), NBool (field_accessor f)),
        (''attributes'', array (field_attributes f) attribute_json, NArray (map attribute_node (field_attributes f)))]"])
    (simp_all add: written field_json_def plain_key)

lemma says_parameter [written]: "expressible (parameter_node p) \<Longrightarrow> says (parameter_json p) (parameter_node p)"
  unfolding parameter_node_def
  by (rule says_members [where ms = "[(''name'', declared_text (parameter_name p), NString (parameter_name p)),
        (''type'', type_json (parameter_type p), type_node (parameter_type p)),
        (''source'', source_json (parameter_position p), source_node (parameter_position p))]"])
    (simp_all add: written parameter_json_def plain_key)

lemma says_fields [written]:
  "list_all expressible (map field_node fs) \<Longrightarrow> says (array fs field_json) (NArray (map field_node fs))"
  by (rule expressible_array) (simp_all add: written)

lemma says_parameters [written]:
  "list_all expressible (map parameter_node ps) \<Longrightarrow> says (array ps parameter_json) (NArray (map parameter_node ps))"
  by (rule expressible_array) (simp_all add: written)

lemma says_method [written]: "expressible (method_node m) \<Longrightarrow> says (method_json m) (method_node m)"
  unfolding method_node_def
  by (rule says_members [where ms = "[(''name'', declared_text (method_name m), NString (method_name m)),
        (''owner'', declared_text (method_owner m), NString (method_owner m)),
        (''access'', declared_text (method_access m), NString (method_access m)),
        (''source'', source_json (method_position m), source_node (method_position m)),
        (''signature'', declared_text (signature m), NString (signature m)),
        (''calling_convention'', declared_text (calling_convention m), NString (calling_convention m)),
        (''exception_specification'', declared_text (exception_specification m), NString (exception_specification m)),
        (''is_static'', boolean (is_static m), NBool (is_static m)),
        (''is_const'', boolean (is_const m), NBool (is_const m)),
        (''is_volatile'', boolean (is_volatile m), NBool (is_volatile m)),
        (''is_variadic'', boolean (is_variadic m), NBool (is_variadic m)),
        (''qualifiers_known'', boolean (qualifiers_known m), NBool (qualifiers_known m)),
        (''is_overloaded'', boolean (is_overloaded m), NBool (is_overloaded m)),
        (''is_deleted'', boolean (is_deleted m), NBool (is_deleted m)),
        (''ref_qualifier'', declared_text (ref_qualifier m), NString (ref_qualifier m)),
        (''return_type'', type_json (return_type m), type_node (return_type m)),
        (''parameters'', array (parameter_declarations m) parameter_json, NArray (map parameter_node (parameter_declarations m))),
        (''attributes'', array (method_attributes m) attribute_json, NArray (map attribute_node (method_attributes m)))]"])
    (simp_all add: written method_json_def plain_key)

lemma says_methods [written]:
  "list_all expressible (map method_node ms) \<Longrightarrow> says (array ms method_json) (NArray (map method_node ms))"
  by (rule expressible_array) (simp_all add: written)

lemma says_bases [written]:
  "list_all expressible (map (\<lambda>b. NString (reference_qualified_name b)) bs) \<Longrightarrow>
     says (array bs (\<lambda>b. declared_text (reference_qualified_name b))) (NArray (map (\<lambda>b. NString (reference_qualified_name b)) bs))"
  unfolding array_array_text by (rule says_array_map) (simp add: list_all_iff says_declared)

lemma says_class [written]: "expressible (class_node c) \<Longrightarrow> says (class_json c) (class_node c)"
  unfolding class_node_def
  by (rule says_members [where ms = "[(''name'', declared_text (class_name c), NString (class_name c)),
        (''qualified_name'', declared_text (class_qualified_name c), NString (class_qualified_name c)),
        (''class_key'', declared_text (class_key c), NString (class_key c)),
        (''schema_name'', declared_text (class_schema_name c), NString (class_schema_name c)),
        (''source'', source_json (class_position c), source_node (class_position c)),
        (''nested'', boolean (class_nested c), NBool (class_nested c)),
        (''runtime_only'', boolean (runtime_only c), NBool (runtime_only c)),
        (''public_fields'', boolean (public_fields c), NBool (public_fields c)),
        (''bases'', array (bases c) (\<lambda>base. declared_text (reference_qualified_name base)), NArray (map (\<lambda>base. NString (reference_qualified_name base)) (bases c))),
        (''attributes'', array (class_attributes c) attribute_json, NArray (map attribute_node (class_attributes c))),
        (''fields'', array (fields_of c) field_json, NArray (map field_node (fields_of c))),
        (''methods'', array (methods_of c) method_json, NArray (map method_node (methods_of c)))]"])
    (simp_all add: written class_json_def plain_key)

lemma says_enum [written]: "expressible (enum_node e) \<Longrightarrow> says (enum_json e) (enum_node e)"
  unfolding enum_node_def
  by (rule says_members [where ms = "[(''name'', declared_text (enum_short_name e), NString (enum_short_name e)),
        (''qualified_name'', declared_text (enum_qualified_name e), NString (enum_qualified_name e)),
        (''source'', source_json (enum_position e), source_node (enum_position e)),
        (''nested'', boolean (enum_nested e), NBool (enum_nested e)),
        (''scoped'', boolean (scoped e), NBool (scoped e)),
        (''underlying_type'', declared_text (underlying_type e), NString (underlying_type e)),
        (''enumerators'', array (enumerators e) declared_text, NArray (map NString (enumerators e)))]"])
    (simp_all add: written enum_json_def plain_key)

lemma says_classes [written]:
  "list_all expressible (map class_node cs) \<Longrightarrow> says (array cs class_json) (NArray (map class_node cs))"
  by (rule expressible_array) (simp_all add: written)

lemma says_enums [written]:
  "list_all expressible (map enum_node es) \<Longrightarrow> says (array es enum_json) (NArray (map enum_node es))"
  by (rule expressible_array) (simp_all add: written)

lemma says_header [written]: "expressible (header_node h) \<Longrightarrow> says (header_json h) (header_node h)"
  unfolding header_node_def
  by (rule says_members [where ms = "[(''path'', declared_text (header_path h), NString (header_path h)),
        (''classes'', array (classes h) class_json, NArray (map class_node (classes h))),
        (''enums'', array (enums h) enum_json, NArray (map enum_node (enums h)))]"])
    (simp_all add: written header_json_def plain_key)

lemma says_headers [written]:
  "list_all expressible (map header_node hs) \<Longrightarrow> says (array hs header_json) (NArray (map header_node hs))"
  by (rule expressible_array) (simp_all add: written)

section \<open>The document\<close>

lemma says_target [written]:
  "validate_utf8 (triple t) = Inr () \<Longrightarrow>
     says (''{\"triple\":'' @ declared_text (triple t) @ '',\"pointer_width\":'' @ show_int (sint (pointer_width t)) @ ''}'')
       (NObject [(''triple'', NString (triple t)), (''pointer_width'', NInt (scast (pointer_width t)))])"
  by (rule says_members [where ms = "[(''triple'', declared_text (triple t), NString (triple t)),
        (''pointer_width'', show_int (sint (pointer_width t)), NInt (scast (pointer_width t)))]"])
    (simp_all add: written plain_key)

lemma says_plain_string: "list_all plain_char s \<Longrightarrow> says (CHR 0x22 # s @ [CHR 0x22]) (NString s)"
  by (intro says_string says_chars_plain)

lemma says_one: "says (show_int 1) (NInt 1)"
  using says_int [of 1] by simp

lemma says_declarations:
  assumes "expressible (declarations_node module_identity headers t)"
  shows "\<exists>s. says s (declarations_node module_identity headers t) \<and> emit_declarations_json module_identity headers t = s @ [CHR 0x0A]"
proof -
  let ?nl = "CHR 0x0A # ''  ''"
  let ?hs = "sort_key header_path headers"
  let ?ms = "[(?nl, ''format'', CHR 0x22 # ''reflgen.declarations'' @ [CHR 0x22], NString ''reflgen.declarations''),
      (?nl, ''version'', show_int (sint (1 :: 64 word)), NInt 1),
      (?nl, ''module'', declared_text module_identity, NString module_identity),
      (?nl, ''target'', ''{\"triple\":'' @ declared_text (triple t) @ '',\"pointer_width\":'' @ show_int (sint (pointer_width t)) @ ''}'',
        NObject [(''triple'', NString (triple t)), (''pointer_width'', NInt (scast (pointer_width t)))]),
      (?nl, ''headers'', array ?hs header_json, NArray (map header_node ?hs))]"
  note ok = assms [unfolded declarations_node_def, simplified]
  have "list_all member_okay ?ms"
    using ok by (simp add: member_okay_def written says_one says_plain_string plain_key del: append.simps)
  from says_object [OF this, of "[CHR 0x0A]"]
  have "says (object_text ?ms [CHR 0x0A]) (declarations_node module_identity headers t)"
    by (simp add: declarations_node_def)
  moreover have "emit_declarations_json module_identity headers t = object_text ?ms [CHR 0x0A] @ [CHR 0x0A]"
    by (simp add: emit_declarations_json_def declarations_format_version_def object_text_def member_text_def)
  ultimately show ?thesis by blast
qed

end
