(* ===== verification/Binding_Valid.thy ===== *)
theory Binding_Valid
  imports Binding_Ir
begin

text \<open>
  What the builder of a binding module accepts, without the order in which it looks: the
  conditions on the names taken together, and the checks of each source, value and call on its
  own. A module is built exactly when they hold, and the result does not depend on the order in
  which the frontend delivered types, values and calls.
\<close>

section \<open>The specification\<close>

definition proper_source :: "binding_source \<Rightarrow> bool" where
  "proper_source s \<longleftrightarrow> plain_text (source_name s) \<and> (source_kind s = Named_Module \<longrightarrow> qualified_name ''.'' (source_name s))"

definition value_report :: "binding_value \<Rightarrow> diagnostic list" where
  "value_report v = (case value_kind v of Record \<Rightarrow> check_record v | Enumeration \<Rightarrow> check_enumeration v)"

definition call_report :: "module_input \<Rightarrow> callable \<Rightarrow> diagnostic list" where
  "call_report m call =
     check_slots m call @ check_owner (receiver_kinds (module_types m)) call @ check_operation call"

definition cpp_names :: "module_input \<Rightarrow> string list" where
  "cpp_names m = map type_cpp_name (module_types m) @ map value_cpp_name (module_values m)"

definition script_names :: "module_input \<Rightarrow> string list" where
  "script_names m = map type_script_name (module_types m) @ map value_script_name (module_values m)"

definition global_names :: "module_input \<Rightarrow> string list" where
  "global_names m = script_names m @ owner_names (module_callables m)"

definition proper_members :: "module_input \<Rightarrow> bool" where
  "proper_members m \<longleftrightarrow> (\<forall>call\<in>set (module_callables m). call_operation call \<noteq> Owner \<longrightarrow>
     (let calls = filter (\<lambda>c. call_operation c \<noteq> Owner \<and> member_key c = member_key call) (module_callables m)
      in length calls = 1 \<and> call_operation (hd calls) \<noteq> Setter \<or> consistent_property m calls))"

definition valid_module :: "module_input \<Rightarrow> bool" where
  "valid_module m \<longleftrightarrow>
     plain_text (module_identity m) \<and> qualified_name ''::'' (module_identity m) \<and>
     pointer_width (module_target m) = 64 \<and> triple (module_target m) \<in> module_targets \<and>
     \<not> over_budget m \<and> length (module_values m) \<le> 4096 \<and>
     (\<forall>s\<in>set (module_sources m). proper_source s) \<and>
     distinct (map (\<lambda>s. (source_kind s, source_name s)) (module_sources m)) \<and>
     (\<forall>t\<in>set (module_types m). proper_names (length (module_sources m)) (type_cpp_name t) (type_script_name t) (type_source t)) \<and>
     (\<forall>v\<in>set (module_values m). proper_names (length (module_sources m)) (value_cpp_name v) (value_script_name v) (value_source v) \<and>
        value_report v = []) \<and>
     distinct (cpp_names m) \<and> distinct (global_names m) \<and>
     (\<forall>a\<in>set (global_names m). a \<notin> reserved_names \<and> \<not> starts_with a ''std::'') \<and>
     (\<forall>a\<in>set (global_names m). \<forall>b\<in>set (global_names m). a \<noteq> b \<longrightarrow> \<not> clash a b) \<and>
     (\<forall>call\<in>set (module_callables m). proper_call (receiver_kinds (module_types m)) call \<and> call_report m call = []) \<and>
     distinct (map call_symbol (module_callables m)) \<and> distinct (map cpp_member (module_callables m)) \<and>
     proper_members m"

section \<open>The checks\<close>

lemma fail_if_Nil [simp]: "fail_if b place msg = [] \<longleftrightarrow> \<not> b"
  by (simp add: fail_if_def)

lemma fail_if_errors [simp]: "has_errors (fail_if b place msg) \<longleftrightarrow> b"
  by (simp add: fail_if_def)

text \<open>Whatever is reported is an error.\<close>

definition all_errors :: "diagnostic list \<Rightarrow> bool" where
  "all_errors ds \<longleftrightarrow> list_all (\<lambda>d. diag_level d = Error) ds"

lemma all_errors_simps [simp]:
  "all_errors []" "all_errors (ds @ es) \<longleftrightarrow> all_errors ds \<and> all_errors es" "all_errors (fail_if b place msg)"
  "all_errors (concat dss) \<longleftrightarrow> (\<forall>ds\<in>set dss. all_errors ds)"
  by (auto simp: all_errors_def fail_if_def list_all_iff)

lemma has_errors_all: "all_errors ds \<Longrightarrow> has_errors ds \<longleftrightarrow> ds \<noteq> []"
  by (cases ds) (auto simp: all_errors_def)

lemma check_sources_Nil:
  "check_sources names ss = [] \<longleftrightarrow> (\<forall>s\<in>set ss. proper_source s) \<and>
     distinct (map (\<lambda>s. (source_kind s, source_name s)) ss) \<and>
     (\<lambda>s. (source_kind s, source_name s)) ` set ss \<inter> names = {}"
proof (induction names ss rule: check_sources.induct)
  case (2 names s ss)
  show ?case
  proof (cases "proper_source s")
    case True
    with 2(2) show ?thesis by (simp add: proper_source_def) blast
  next
    case False
    then show ?thesis by (simp add: proper_source_def)
  qed
qed simp

lemma check_sources_errors: "all_errors (check_sources names ss)"
  by (induction names ss rule: check_sources.induct) auto

lemma take_names_ok:
  "fst (take_names n cpp script source taken) \<longleftrightarrow>
     proper_names n cpp script source \<and> cpp \<notin> fst taken \<and> script \<notin> snd taken"
  "fst (take_names n cpp script source taken) \<Longrightarrow>
     snd (take_names n cpp script source taken) = (insert cpp (fst taken), insert script (snd taken))"
  by (auto simp: take_names_def split: prod.splits if_splits)

lemma check_types_Nil:
  "fst (check_types n taken ts) = [] \<longleftrightarrow>
     (\<forall>t\<in>set ts. proper_names n (type_cpp_name t) (type_script_name t) (type_source t)) \<and>
     distinct (map type_cpp_name ts) \<and> distinct (map type_script_name ts) \<and>
     type_cpp_name ` set ts \<inter> fst taken = {} \<and> type_script_name ` set ts \<inter> snd taken = {}"
  "fst (check_types n taken ts) = [] \<Longrightarrow>
     snd (check_types n taken ts) = (type_cpp_name ` set ts \<union> fst taken, type_script_name ` set ts \<union> snd taken)"
proof (induction n taken ts rule: check_types.induct)
  case (2 n taken t ts)
  obtain ok now where take: "take_names n (type_cpp_name t) (type_script_name t) (type_source t) taken = (ok, now)"
    by (cases "take_names n (type_cpp_name t) (type_script_name t) (type_source t) taken") auto
  obtain rest after where rest: "check_types n now ts = (rest, after)" by (cases "check_types n now ts") auto
  have ok: "ok \<longleftrightarrow> proper_names n (type_cpp_name t) (type_script_name t) (type_source t) \<and>
      type_cpp_name t \<notin> fst taken \<and> type_script_name t \<notin> snd taken"
    "ok \<Longrightarrow> now = (insert (type_cpp_name t) (fst taken), insert (type_script_name t) (snd taken))"
    using take_names_ok [of n "type_cpp_name t" "type_script_name t" "type_source t" taken] take by simp_all
  note IH = 2 [OF take [symmetric] refl]
  {
    case 1
    show ?case
    proof (cases ok)
      case True
      with IH(1) ok rest show ?thesis by (simp add: take) blast
    next
      case False
      with ok(1) show ?thesis by (simp add: take rest) blast
    qed
  next
    case 2
    then have "ok" "rest = []" using take rest by simp_all
    with IH(2) ok(2) rest show ?case by (simp add: take)
  }
qed auto

lemma check_types_errors: "all_errors (fst (check_types n taken ts))"
  by (induction n taken ts rule: check_types.induct) (auto split: prod.splits)

lemma check_fields_errors: "all_errors (check_fields v names fin fs)"
  by (induction v names fin fs rule: check_fields.induct) (simp_all add: Let_def)

lemma check_cases_errors: "all_errors (check_cases v names numbers cs)"
  by (induction v names numbers cs rule: check_cases.induct) (simp_all add: Let_def)

lemma value_report_errors: "all_errors (value_report v)"
  by (simp add: value_report_def check_record_def check_enumeration_def check_fields_errors check_cases_errors Let_def
      split: value_kind.split)

lemma check_values_Nil:
  "fst (check_values n taken vs) = [] \<longleftrightarrow>
     (\<forall>v\<in>set vs. proper_names n (value_cpp_name v) (value_script_name v) (value_source v) \<and> value_report v = []) \<and>
     distinct (map value_cpp_name vs) \<and> distinct (map value_script_name vs) \<and>
     value_cpp_name ` set vs \<inter> fst taken = {} \<and> value_script_name ` set vs \<inter> snd taken = {}"
  "fst (check_values n taken vs) = [] \<Longrightarrow>
     snd (check_values n taken vs) = (value_cpp_name ` set vs \<union> fst taken, value_script_name ` set vs \<union> snd taken)"
proof (induction n taken vs rule: check_values.induct)
  case (2 n taken v vs)
  obtain ok now where take: "take_names n (value_cpp_name v) (value_script_name v) (value_source v) taken = (ok, now)"
    by (cases "take_names n (value_cpp_name v) (value_script_name v) (value_source v) taken") auto
  obtain rest after where rest: "check_values n now vs = (rest, after)" by (cases "check_values n now vs") auto
  have ok: "ok \<longleftrightarrow> proper_names n (value_cpp_name v) (value_script_name v) (value_source v) \<and>
      value_cpp_name v \<notin> fst taken \<and> value_script_name v \<notin> snd taken"
    "ok \<Longrightarrow> now = (insert (value_cpp_name v) (fst taken), insert (value_script_name v) (snd taken))"
    using take_names_ok [of n "value_cpp_name v" "value_script_name v" "value_source v" taken] take by simp_all
  have step: "fst (check_values n taken (v # vs)) = [] \<longleftrightarrow> ok \<and> value_report v = [] \<and> rest = []"
    by (simp add: take rest value_report_def)
  note IH = 2 [OF take [symmetric] refl]
  {
    case 1
    show ?case
    proof (cases ok)
      case True
      with IH(1) ok rest show ?thesis unfolding step by simp blast
    next
      case False
      with ok(1) show ?thesis unfolding step by simp blast
    qed
  next
    case 2
    then have "ok" "rest = []" using step by simp_all
    with IH(2) ok(2) rest show ?case by (simp add: take)
  }
qed auto

lemma check_values_errors: "all_errors (fst (check_values n taken vs))"
proof (induction n taken vs rule: check_values.induct)
  case (2 n taken v vs)
  then show ?case
    using value_report_errors [of v] by (auto simp: value_report_def split: prod.splits)
qed auto

lemma take_symbol_ok:
  "fst (take_symbol kinds call taken) \<longleftrightarrow>
     proper_call kinds call \<and> call_symbol call \<notin> fst taken \<and> cpp_member call \<notin> snd taken"
  "fst (take_symbol kinds call taken) \<Longrightarrow>
     snd (take_symbol kinds call taken) = (insert (call_symbol call) (fst taken), insert (cpp_member call) (snd taken))"
  by (auto simp: take_symbol_def split: prod.splits if_splits)

lemma call_report_errors: "all_errors (call_report m call)"
  by (simp add: call_report_def check_slots_def check_owner_def check_operation_def)

lemma check_calls_Nil:
  "check_calls m (receiver_kinds (module_types m)) taken calls = [] \<longleftrightarrow>
     (\<forall>call\<in>set calls. proper_call (receiver_kinds (module_types m)) call \<and> call_report m call = []) \<and>
     distinct (map call_symbol calls) \<and> distinct (map cpp_member calls) \<and>
     call_symbol ` set calls \<inter> fst taken = {} \<and> cpp_member ` set calls \<inter> snd taken = {}"
proof (induction calls arbitrary: taken)
  case (Cons call calls)
  let ?kinds = "receiver_kinds (module_types m)"
  obtain ok now where take: "take_symbol ?kinds call taken = (ok, now)" by (cases "take_symbol ?kinds call taken") auto
  have ok: "ok \<longleftrightarrow> proper_call ?kinds call \<and> call_symbol call \<notin> fst taken \<and> cpp_member call \<notin> snd taken"
    "ok \<Longrightarrow> now = (insert (call_symbol call) (fst taken), insert (cpp_member call) (snd taken))"
    using take_symbol_ok [of ?kinds call taken] take by simp_all
  have step: "check_calls m ?kinds taken (call # calls) = [] \<longleftrightarrow>
      ok \<and> call_report m call = [] \<and> check_calls m ?kinds now calls = []"
    by (auto simp: take call_report_def)
  show ?case
  proof (cases ok)
    case True
    with Cons.IH [of now] ok show ?thesis unfolding step by simp blast
  next
    case False
    with ok(1) show ?thesis unfolding step by simp blast
  qed
qed simp

lemma check_calls_errors: "all_errors (check_calls m kinds taken calls)"
  by (induction m kinds taken calls rule: check_calls.induct)
    (auto simp: check_slots_def check_owner_def check_operation_def split: prod.splits)

lemma check_global_names_Nil:
  "check_global_names names = [] \<longleftrightarrow>
     (\<forall>a\<in>set names. a \<notin> reserved_names \<and> \<not> starts_with a ''std::'') \<and> distinct names \<and>
     (\<forall>a\<in>set names. \<forall>b\<in>set names. a \<noteq> b \<longrightarrow> \<not> clash a b)"
proof (induction names)
  case (Cons a names)
  have "(\<forall>b\<in>set names. \<not> clash a b) \<longleftrightarrow> a \<notin> set names \<and> (\<forall>b\<in>set names. a \<noteq> b \<longrightarrow> \<not> clash a b \<and> \<not> clash b a)"
    by (auto simp: clash_def)
  with Cons show ?case by auto
qed simp

lemma check_global_names_errors: "all_errors (check_global_names names)"
  by (induction names) auto

lemma check_members_Nil: "check_members m = [] \<longleftrightarrow> proper_members m"
proof -
  let ?members = "filter (\<lambda>c. call_operation c \<noteq> Owner) (module_callables m)"
  have "check_members m = [] \<longleftrightarrow> (\<forall>(name, calls)\<in>set (members_of (module_callables m)).
      length calls = 1 \<and> call_operation (hd calls) \<noteq> Setter \<or> consistent_property m calls)"
    unfolding check_members_def concat_eq_Nil_conv set_map ball_simps(9) by (rule ball_cong) (auto split: if_splits)
  also have "\<dots> \<longleftrightarrow> (\<forall>call\<in>set ?members.
      let calls = filter (\<lambda>c. member_key c = member_key call) ?members
      in length calls = 1 \<and> call_operation (hd calls) \<noteq> Setter \<or> consistent_property m calls)"
    by (simp add: members_of_def Let_def)
  finally show ?thesis unfolding proper_members_def Let_def by auto
qed

lemma check_members_errors: "all_errors (check_members m)"
  by (auto simp: check_members_def)

section \<open>The builder accepts exactly the valid modules\<close>

lemma check_contents_Nil:
  "check_contents m = [] \<longleftrightarrow>
     (\<forall>s\<in>set (module_sources m). proper_source s) \<and>
     distinct (map (\<lambda>s. (source_kind s, source_name s)) (module_sources m)) \<and>
     length (module_values m) \<le> 4096 \<and>
     (\<forall>t\<in>set (module_types m). proper_names (length (module_sources m)) (type_cpp_name t) (type_script_name t) (type_source t)) \<and>
     (\<forall>v\<in>set (module_values m). proper_names (length (module_sources m)) (value_cpp_name v) (value_script_name v) (value_source v) \<and>
        value_report v = []) \<and>
     distinct (cpp_names m) \<and> distinct (global_names m) \<and>
     (\<forall>a\<in>set (global_names m). a \<notin> reserved_names \<and> \<not> starts_with a ''std::'') \<and>
     (\<forall>a\<in>set (global_names m). \<forall>b\<in>set (global_names m). a \<noteq> b \<longrightarrow> \<not> clash a b) \<and>
     (\<forall>call\<in>set (module_callables m). proper_call (receiver_kinds (module_types m)) call \<and> call_report m call = []) \<and>
     distinct (map call_symbol (module_callables m)) \<and> distinct (map cpp_member (module_callables m)) \<and>
     proper_members m"
proof -
  let ?n = "length (module_sources m)"
  obtain tr taken where type_run: "check_types ?n ({}, {}) (module_types m) = (tr, taken)"
    by (cases "check_types ?n ({}, {}) (module_types m)") auto
  obtain vr ct st where value_run: "check_values ?n taken (module_values m) = (vr, ct, st)"
    by (cases "check_values ?n taken (module_values m)") auto
  have report: "check_contents m = [] \<longleftrightarrow> check_sources {} (module_sources m) = [] \<and> tr = [] \<and>
      length (module_values m) \<le> 4096 \<and> vr = [] \<and>
      check_calls m (receiver_kinds (module_types m)) ({}, {}) (module_callables m) = [] \<and> check_members m = [] \<and>
      check_global_names (sorted_list_of_set st @ owner_names (module_callables m)) = []"
    by (auto simp: check_contents_def type_run value_run)
  note tr = check_types_Nil [of ?n "({}, {})" "module_types m", unfolded type_run fst_conv snd_conv]
  note vr = check_values_Nil [of ?n taken "module_values m", unfolded value_run fst_conv snd_conv]
  have names: "tr = [] \<and> vr = [] \<longleftrightarrow>
      (\<forall>t\<in>set (module_types m). proper_names ?n (type_cpp_name t) (type_script_name t) (type_source t)) \<and>
      (\<forall>v\<in>set (module_values m). proper_names ?n (value_cpp_name v) (value_script_name v) (value_source v) \<and> value_report v = []) \<and>
      distinct (cpp_names m) \<and> distinct (script_names m)"
  proof (cases "tr = []")
    case True
    with tr(2) have "taken = (type_cpp_name ` set (module_types m), type_script_name ` set (module_types m))" by simp
    with True tr(1) vr(1) show ?thesis by (simp add: cpp_names_def script_names_def) blast
  next
    case False
    with tr(1) show ?thesis by (auto simp: cpp_names_def script_names_def)
  qed
  have scripts: "tr = [] \<Longrightarrow> vr = [] \<Longrightarrow> st = set (script_names m)"
    using tr(2) vr(2) by (auto simp: script_names_def)
  have globals: "check_global_names (sorted_list_of_set st @ owner_names (module_callables m)) = [] \<longleftrightarrow>
      (\<forall>a\<in>set (global_names m). a \<notin> reserved_names \<and> \<not> starts_with a ''std::'') \<and> distinct (global_names m) \<and>
      (\<forall>a\<in>set (global_names m). \<forall>b\<in>set (global_names m). a \<noteq> b \<longrightarrow> \<not> clash a b)"
    if "tr = []" "vr = []"
  proof -
    have "distinct (script_names m)" using names that by blast
    then show ?thesis
      using scripts [OF that] by (simp add: check_global_names_Nil global_names_def)
  qed
  have distinct_scripts: "distinct (global_names m) \<Longrightarrow> distinct (script_names m)" by (simp add: global_names_def)
  show ?thesis
    unfolding report using names globals distinct_scripts
    by (auto simp: check_sources_Nil check_calls_Nil check_members_Nil)
qed

lemma check_contents_errors: "all_errors (check_contents m)"
  using check_types_errors check_values_errors
  by (auto simp: check_contents_def check_sources_errors check_calls_errors check_members_errors check_global_names_errors
      split: prod.split) (metis fst_conv)+

lemma build_iff:
  "fst (build_binding_module m report) =
     (if \<not> has_errors report \<and> valid_module m then Some (module_of (sorted_input m)) else None)"
proof -
  have "has_errors (check_contents m) \<longleftrightarrow> check_contents m \<noteq> []"
    by (rule has_errors_all [OF check_contents_errors])
  then show ?thesis
    by (simp add: build_binding_module_def check_identity_def check_target_def Let_def check_contents_Nil valid_module_def)
qed

end
