(* ===== verification/Binding_Order.thy ===== *)
theory Binding_Order
  imports Binding_Valid
begin

text \<open>
  The frontend delivers types, values and calls in the order of the headers. The module does not
  depend on it: \<open>permuted m m'\<close> are inputs that differ in it, and building either gives the same.
\<close>

definition permuted :: "module_input \<Rightarrow> module_input \<Rightarrow> bool" where
  "permuted m m' \<longleftrightarrow> module_identity m = module_identity m' \<and> module_target m = module_target m' \<and>
     module_sources m = module_sources m' \<and> mset (module_types m) = mset (module_types m') \<and>
     mset (module_values m) = mset (module_values m') \<and> mset (module_callables m) = mset (module_callables m')"

lemma permuted_sym: "permuted m m' \<Longrightarrow> permuted m' m"
  by (simp add: permuted_def)

lemma permuted_sets:
  assumes "permuted m m'"
  shows "set (module_types m') = set (module_types m)" "set (module_values m') = set (module_values m)"
    "set (module_callables m') = set (module_callables m)"
    "length (module_types m') = length (module_types m)" "length (module_values m') = length (module_values m)"
    "length (module_callables m') = length (module_callables m)"
  using assms by (auto simp: permuted_def dest: mset_eq_setD mset_eq_length)

lemma distinct_mset: "mset xs = mset ys \<Longrightarrow> distinct (map f xs) \<longleftrightarrow> distinct (map f ys)"
  by (metis mset_eq_imp_distinct_iff mset_map)

lemma find_unique:
  "inj_on f (set xs) \<Longrightarrow> find (\<lambda>x. f x = k) xs = Some x \<longleftrightarrow> x \<in> set xs \<and> f x = k"
proof (induction xs)
  case (Cons y ys)
  then show ?case by (auto simp: inj_on_def)
qed simp

lemma find_value_permuted:
  assumes "mset vs = mset vs'" "distinct (map value_cpp_name vs)"
  shows "find_value vs = find_value vs'"
proof
  fix name
  have "inj_on value_cpp_name (set vs)" "inj_on value_cpp_name (set vs')"
    using assms by (auto simp: distinct_map dest: mset_eq_setD)
  then have "find_value vs name = Some v \<longleftrightarrow> find_value vs' name = Some v" for v
    using mset_eq_setD [OF assms(1)] by (simp add: find_value_def find_unique)
  then show "find_value vs name = find_value vs' name" by (metis not_Some_eq)
qed

lemma receiver_kinds_eq: "receiver_kinds types = map_of (rev (map (\<lambda>t. (type_cpp_name t, type_receiver t)) types))"
proof -
  have "foldl (\<lambda>kinds t. kinds(type_cpp_name t \<mapsto> type_receiver t)) k types =
      k ++ map_of (rev (map (\<lambda>t. (type_cpp_name t, type_receiver t)) types))" for k
    by (induction types arbitrary: k) simp_all
  then show ?thesis by (simp add: receiver_kinds_def)
qed

lemma receiver_kinds_permuted:
  assumes "mset ts = mset ts'" "distinct (map type_cpp_name ts)"
  shows "receiver_kinds ts = receiver_kinds ts'"
proof
  fix k
  let ?pairs = "\<lambda>ts. rev (map (\<lambda>t. (type_cpp_name t, type_receiver t)) ts)"
  have "distinct (map type_cpp_name ts')" using distinct_mset [OF assms(1)] assms(2) by blast
  then have "distinct (map fst (?pairs ts))" "distinct (map fst (?pairs ts'))"
    using assms(2) by (simp_all add: comp_def flip: rev_map)
  then have "map_of (?pairs ts) k = Some r \<longleftrightarrow> map_of (?pairs ts') k = Some r" for r
    using mset_eq_setD [OF assms(1)] by (simp only: map_of_eq_Some_iff) simp
  then show "receiver_kinds ts k = receiver_kinds ts' k"
    unfolding receiver_kinds_eq by (metis not_Some_eq)
qed

text \<open>The members of a property: one, or a getter and a setter in either order.\<close>

lemma consistent_property_swap: "consistent_property m [a, b] \<Longrightarrow> consistent_property m [b, a]"
  by (auto simp: consistent_property_def Let_def split: if_splits)

lemma members_permuted:
  assumes "mset xs = mset ys"
  shows "length xs = 1 \<and> call_operation (hd xs) \<noteq> Setter \<or> consistent_property m xs \<Longrightarrow>
    length ys = 1 \<and> call_operation (hd ys) \<noteq> Setter \<or> consistent_property m ys"
proof -
  assume *: "length xs = 1 \<and> call_operation (hd xs) \<noteq> Setter \<or> consistent_property m xs"
  then consider a where "xs = [a]" | a b where "xs = [a, b]"
    by (auto simp: consistent_property_def Let_def length_Suc_conv numeral_2_eq_2 split: if_splits)
  then show ?thesis
  proof cases
    case 1
    with assms * show ?thesis by simp
  next
    case (2 a b)
    with mset_eq_length [OF assms] have "length ys = Suc (Suc 0)" by simp
    then obtain c d where ys: "ys = [c, d]" by (auto simp: length_Suc_conv)
    then have "c = a \<and> d = b \<or> c = b \<and> d = a"
      using assms 2 by (auto simp: add_eq_conv_ex)
    then have "consistent_property m [c, d]"
      using * 2 consistent_property_swap [of m a b] by (elim disjE conjE) simp_all
    with ys show ?thesis by simp
  qed
qed

lemma valid_permuted:
  assumes "permuted m m'" "valid_module m"
  shows "valid_module m'"
proof -
  note valid = assms(2) [unfolded valid_module_def] and sets = permuted_sets [OF assms(1)]
  note same = assms(1) [unfolded permuted_def]
  have distinct: "distinct (map type_cpp_name (module_types m))" "distinct (map value_cpp_name (module_values m))"
    using valid by (auto simp: cpp_names_def)
  have kinds: "receiver_kinds (module_types m) = receiver_kinds (module_types m')"
    and find: "find_value (module_values m) = find_value (module_values m')"
    using receiver_kinds_permuted find_value_permuted distinct same by blast+
  have token: "slot_token (module_values m) = slot_token (module_values m')"
    by (intro ext) (simp add: slot_token_def find)
  have report: "call_report m' call = call_report m call" for call
    by (simp add: call_report_def kinds check_slots_def value_slot_def [abs_def] find)
  have names: "mset (cpp_names m') = mset (cpp_names m)" "mset (global_names m') = mset (global_names m)"
    using same by (auto simp: cpp_names_def global_names_def script_names_def owner_names_def)
  have members: "proper_members m'"
    unfolding proper_members_def Let_def
  proof (intro ballI impI)
    fix call assume call: "call \<in> set (module_callables m')" "call_operation call \<noteq> Owner"
    let ?p = "\<lambda>c. call_operation c \<noteq> Owner \<and> member_key c = member_key call"
    have "mset (filter ?p (module_callables m)) = mset (filter ?p (module_callables m'))" using same by simp
    moreover have "length (filter ?p (module_callables m)) = 1 \<and> call_operation (hd (filter ?p (module_callables m))) \<noteq> Setter \<or>
        consistent_property m (filter ?p (module_callables m))"
      using valid call sets by (auto simp: proper_members_def Let_def)
    ultimately have "length (filter ?p (module_callables m')) = 1 \<and> call_operation (hd (filter ?p (module_callables m'))) \<noteq> Setter \<or>
        consistent_property m (filter ?p (module_callables m'))"
      by (rule members_permuted)
    moreover have "consistent_property m' = consistent_property m"
      by (rule ext) (simp add: consistent_property_def token)
    ultimately show "length (filter ?p (module_callables m')) = 1 \<and> call_operation (hd (filter ?p (module_callables m'))) \<noteq> Setter \<or>
        consistent_property m' (filter ?p (module_callables m'))"
      by simp
  qed
  have "set (global_names m') = set (global_names m)" "distinct (cpp_names m')" "distinct (global_names m')"
    using mset_eq_setD [OF names(2)] mset_eq_imp_distinct_iff [OF names(1)] mset_eq_imp_distinct_iff [OF names(2)] valid
    by simp_all
  moreover have "distinct (map call_symbol (module_callables m'))" "distinct (map cpp_member (module_callables m'))"
    using valid same distinct_mset [of "module_callables m" "module_callables m'" call_symbol]
      distinct_mset [of "module_callables m" "module_callables m'" cpp_member] by simp_all
  ultimately show ?thesis
    using valid same members
    by (simp add: valid_module_def over_budget_def sets report kinds)
qed

lemma sorted_permuted:
  assumes "permuted m m'" "valid_module m"
  shows "sorted_input m' = sorted_input m"
proof -
  note same = assms(1) [unfolded permuted_def]
  have "inj_on type_cpp_name (set (module_types m))" "inj_on value_cpp_name (set (module_values m))"
    "inj_on call_symbol (set (module_callables m))"
    using assms(2) by (auto simp: valid_module_def cpp_names_def distinct_map)
  then have "sort_key type_cpp_name (module_types m) = sort_key type_cpp_name (module_types m')"
    "sort_key value_cpp_name (module_values m) = sort_key value_cpp_name (module_values m')"
    "sort_key call_symbol (module_callables m) = sort_key call_symbol (module_callables m')"
    using same by (intro sort_key_unique; simp)+
  with same show ?thesis by (simp add: sorted_input_def)
qed

lemma build_permuted:
  assumes "permuted m m'"
  shows "fst (build_binding_module m report) = fst (build_binding_module m' report)"
  using valid_permuted [OF assms] valid_permuted [OF permuted_sym [OF assms]] sorted_permuted [OF assms]
  by (simp add: build_iff)

end
