(* ===== verification/Binding_Abi.thy ===== *)
theory Binding_Abi
  imports Binding_Order
begin

text \<open>
  What the checks of a binding module give: the values of enumerators are the numerals of their
  type, the fields of a record lie in it and apart from each other, and the descriptor of a call
  tells two ABIs apart.
\<close>

section \<open>Enumerator values\<close>

lemma digits_grow: "m \<le> foldl (\<lambda>n c. 10 * n + (code_of c - 48)) m s"
proof (induction s arbitrary: m)
  case (Cons c s)
  show ?case using Cons [of "10 * m + (code_of c - 48)"] by simp
qed simp

lemma magnitude_of_value:
  assumes "list_all is_digit s" "n < 2 ^ 64"
  shows "magnitude_of n s =
    (let v = foldl (\<lambda>n c. 10 * n + (code_of c - 48)) n s in if v < 2 ^ 64 then Some v else None)"
  using assms
proof (induction s arbitrary: n)
  case (Cons c s)
  define d where "d = code_of c - 48"
  have "d \<le> 9" using Cons.prems(1) by (auto simp: is_digit_def d_def)
  then have test: "n > (2 ^ 64 - 1 - d) div 10 \<longleftrightarrow> 2 ^ 64 \<le> 10 * n + d"
    by (simp add: div_less_iff_less_mult) linarith
  show ?case
  proof (cases "2 ^ 64 \<le> 10 * n + d")
    case True
    with digits_grow [of "10 * n + d" s] test show ?thesis by (simp add: Let_def flip: d_def)
  next
    case False
    with Cons.IH [of "10 * n + d"] Cons.prems(1) test show ?thesis by (simp add: Let_def mult.commute flip: d_def)
  qed
qed simp

text \<open>A run of digits without a superfluous zero is the numeral of its value.\<close>

lemma show_nat_snoc: "0 < n \<Longrightarrow> d < 10 \<Longrightarrow> show_nat (10 * n + d) = show_nat n @ [char_of (48 + d)]"
  by (subst show_nat.simps) (simp add: div_mult_self4)

lemma digit_char: "is_digit c \<Longrightarrow> char_of (48 + (code_of c - 48)) = c"
  by (simp add: is_digit_def)

lemma decimal_value_snoc: "decimal_value (s @ [c]) = 10 * decimal_value s + (code_of c - 48)"
  by (simp add: decimal_value_def)

lemma canonical_digits:
  "s \<noteq> [] \<Longrightarrow> list_all is_digit s \<Longrightarrow> length s > 1 \<longrightarrow> hd s \<noteq> CHR ''0'' \<Longrightarrow> show_nat (decimal_value s) = s"
proof (induction s rule: rev_induct)
  case (snoc c s)
  show ?case
  proof (cases "s = []")
    case True
    with snoc.prems show ?thesis
      by (subst show_nat.simps) (auto simp: decimal_value_def is_digit_def digit_char)
  next
    case False
    then have s: "show_nat (decimal_value s) = s" and zero: "hd s \<noteq> CHR ''0''"
      using snoc.IH snoc.prems by (auto simp: hd_append)
    have "0 < decimal_value s" using s zero show_nat_leading_zero [of "decimal_value s"] by simp
    moreover have "is_digit c" using snoc.prems by simp
    ultimately show ?thesis
      using s digit_char [of c] show_nat_snoc [of "decimal_value s" "code_of c - 48"]
      by (simp add: decimal_value_snoc) (auto simp: is_digit_def)
  qed
qed simp

lemma show_nat_length: "n < 10 ^ k \<Longrightarrow> 0 < k \<Longrightarrow> length (show_nat n) \<le> k"
proof (induction k arbitrary: n)
  case (Suc k)
  show ?case
  proof (cases "n < 10")
    case True
    then show ?thesis by (simp add: show_nat.simps)
  next
    case False
    then have "0 < k" using Suc.prems(1) by (cases k) simp_all
    moreover have "n div 10 < 10 ^ k" using Suc.prems(1) by (simp add: less_mult_imp_div_less mult.commute)
    ultimately show ?thesis using Suc.IH False by (subst show_nat.simps) simp
  qed
qed simp

definition scalar_range :: "scalar \<Rightarrow> int \<times> int" where
  "scalar_range t = (if is_signed t then (- (2 ^ (scalar_width t * 8 - 1)), 2 ^ (scalar_width t * 8 - 1))
     else (0, 2 ^ (scalar_width t * 8)))"

lemma canonical_numeral:
  "s \<noteq> [] \<and> list_all is_digit s \<and> \<not> (length s > 1 \<and> hd s = CHR ''0'') \<longleftrightarrow> s = show_nat (decimal_value s)"
proof
  assume "s = show_nat (decimal_value s)"
  then show "s \<noteq> [] \<and> list_all is_digit s \<and> \<not> (length s > 1 \<and> hd s = CHR ''0'')"
    using show_nat_leading_zero [of "decimal_value s"] show_nat_digits [of _ "decimal_value s"] show_nat_not_Nil [of "decimal_value s"]
    by (auto simp: list_all_iff show_nat.simps [of 0])
qed (use canonical_digits in auto)

lemma minus_not_digit: "\<not> is_digit (CHR ''-'')"
  by (simp add: is_digit_def code_of_def)

lemma widths: "is_signed t \<Longrightarrow> 0 < scalar_width t" "scalar_width t \<le> 8"
  by (cases t; simp add: is_signed_def)+

text \<open>The tests on the digits and the loop over them, together.\<close>

lemma numeral_test:
  "\<not> (d = [] \<or> length d > 20 \<or> (length d > 1 \<and> hd d = CHR ''0'') \<or> \<not> list_all is_digit d) \<and> magnitude_of 0 d = Some m \<longleftrightarrow>
     d = show_nat m \<and> m < 2 ^ 64"
proof
  assume *: "\<not> (d = [] \<or> length d > 20 \<or> (length d > 1 \<and> hd d = CHR ''0'') \<or> \<not> list_all is_digit d) \<and> magnitude_of 0 d = Some m"
  then have "d = show_nat (decimal_value d)" by (intro canonical_numeral [THEN iffD1]) auto
  with * magnitude_of_value [of d 0] show "d = show_nat m \<and> m < 2 ^ 64"
    by (auto simp: Let_def decimal_value_def split: if_splits)
next
  assume *: "d = show_nat m \<and> m < 2 ^ 64"
  then have "d = show_nat (decimal_value d)" by simp
  then have "d \<noteq> [] \<and> list_all is_digit d \<and> \<not> (length d > 1 \<and> hd d = CHR ''0'')" by (rule canonical_numeral [THEN iffD2])
  moreover have "length d \<le> 20" using * show_nat_length [of m 20] by simp
  moreover have "decimal_value d = m" using * by simp
  ultimately show "\<not> (d = [] \<or> length d > 20 \<or> (length d > 1 \<and> hd d = CHR ''0'') \<or> \<not> list_all is_digit d) \<and> magnitude_of 0 d = Some m"
    using * magnitude_of_value [of d 0] by (auto simp: Let_def simp flip: decimal_value_def)
qed

lemma show_zero: "show_nat m = ''0'' \<longleftrightarrow> m = 0"
  using show_nat_inj [of m 0] by (simp add: show_nat.simps [of 0] char_of_def bit_Suc_0_iff)

lemma enumerator_value_cases:
  "enumerator_value s t \<longleftrightarrow>
     (if s \<noteq> [] \<and> hd s = CHR ''-''
      then \<exists>m. tl s = show_nat m \<and> m \<noteq> 0 \<and> is_signed t \<and> m < 2 ^ 64 \<and> m \<le> 2 ^ (scalar_width t * 8 - 1)
      else \<exists>m. s = show_nat m \<and> m < 2 ^ 64 \<and>
        (if is_signed t then m < 2 ^ (scalar_width t * 8 - 1) else scalar_width t * 8 = 64 \<or> m < 2 ^ (scalar_width t * 8)))"
proof -
  have parts: "enumerator_value s t \<longleftrightarrow>
      (\<exists>m. (\<not> (d = [] \<or> length d > 20 \<or> (length d > 1 \<and> hd d = CHR ''0'') \<or> \<not> list_all is_digit d) \<and> magnitude_of 0 d = Some m) \<and>
        (neg \<longrightarrow> d \<noteq> ''0'' \<and> is_signed t) \<and>
        (if \<not> is_signed t then scalar_width t * 8 = 64 \<or> m < 2 ^ (scalar_width t * 8)
         else if neg then m \<le> 2 ^ (scalar_width t * 8 - 1) else m < 2 ^ (scalar_width t * 8 - 1)))"
    if "neg = (s \<noteq> [] \<and> hd s = CHR ''-'')" "d = (if neg then tl s else s)" for neg d
    unfolding enumerator_value_def Let_def that(1) [symmetric] that(2) [symmetric]
    by (auto split: option.splits)
  show ?thesis
    unfolding parts [OF refl refl] numeral_test by (auto simp: show_zero)
qed

lemma scalar_bounds:
  "2 ^ (scalar_width t * 8) \<le> (2 ^ 64 :: nat)" "2 ^ (scalar_width t * 8 - 1) < (2 ^ 64 :: nat)"
  "scalar_width t * 8 = 64 \<Longrightarrow> 2 ^ (scalar_width t * 8) = (2 ^ 64 :: nat)"
  by (cases t; simp)+

lemma enumerator_value_numeral:
  "enumerator_value s t \<longleftrightarrow> (\<exists>i. s = show_int i \<and> fst (scalar_range t) \<le> i \<and> i < snd (scalar_range t))"
proof (cases "s \<noteq> [] \<and> hd s = CHR ''-''")
  case True
  have "(\<exists>i. s = show_int i \<and> fst (scalar_range t) \<le> i \<and> i < snd (scalar_range t)) \<longleftrightarrow>
      (\<exists>m. tl s = show_nat m \<and> m \<noteq> 0 \<and> is_signed t \<and> m \<le> 2 ^ (scalar_width t * 8 - 1))"
  proof (intro iffI; elim exE)
    fix i assume i: "s = show_int i \<and> fst (scalar_range t) \<le> i \<and> i < snd (scalar_range t)"
    have "i < 0"
    proof (rule ccontr)
      assume "\<not> i < 0"
      with i True show False using show_nat_digits [OF list.set_sel(1) [OF show_nat_not_Nil], of "nat i"] minus_not_digit
        by (simp add: show_int_def)
    qed
    moreover have "nat (- i) \<le> 2 ^ (scalar_width t * 8 - 1)"
      using i \<open>i < 0\<close> by (auto simp: scalar_range_def nat_le_iff split: if_splits)
    ultimately show "\<exists>m. tl s = show_nat m \<and> m \<noteq> 0 \<and> is_signed t \<and> m \<le> 2 ^ (scalar_width t * 8 - 1)"
      using i by (intro exI [of _ "nat (- i)"]) (auto simp: show_int_def scalar_range_def split: if_splits)
  next
    fix m assume m: "tl s = show_nat m \<and> m \<noteq> 0 \<and> is_signed t \<and> m \<le> 2 ^ (scalar_width t * 8 - 1)"
    define p where "p = (2 :: int) ^ (scalar_width t * 8 - 1)"
    have range: "fst (scalar_range t) = - p" "snd (scalar_range t) = p" "0 < p"
      using m by (simp_all add: scalar_range_def p_def)
    have "int m \<le> p" unfolding p_def using m by (simp only: of_nat_le_iff [of _ "2 ^ n" for n, simplified])
    then have "- p \<le> - int m \<and> - int m < p" using \<open>0 < p\<close> by linarith
    moreover have "s = CHR ''-'' # show_nat m" using m True by (cases s) simp_all
    then have "s = show_int (- int m)" using m by (simp add: show_int_def)
    ultimately show "\<exists>i. s = show_int i \<and> fst (scalar_range t) \<le> i \<and> i < snd (scalar_range t)"
      unfolding range by blast
  qed
  moreover have "m < 2 ^ 64" if "m \<le> 2 ^ (scalar_width t * 8 - 1)" for m :: nat
    using that scalar_bounds(2) [of t] by simp
  ultimately show ?thesis using True unfolding enumerator_value_cases by auto
next
  case False
  have "(\<exists>i. s = show_int i \<and> fst (scalar_range t) \<le> i \<and> i < snd (scalar_range t)) \<longleftrightarrow>
      (\<exists>m. s = show_nat m \<and> (if is_signed t then m < 2 ^ (scalar_width t * 8 - 1) else m < 2 ^ (scalar_width t * 8)))"
  proof (intro iffI; elim exE)
    fix i assume i: "s = show_int i \<and> fst (scalar_range t) \<le> i \<and> i < snd (scalar_range t)"
    with False have "0 \<le> i" by (auto simp: show_int_def split: if_splits)
    with i show "\<exists>m. s = show_nat m \<and> (if is_signed t then m < 2 ^ (scalar_width t * 8 - 1) else m < 2 ^ (scalar_width t * 8))"
      by (intro exI [of _ "nat i"]) (auto simp: show_int_def scalar_range_def nat_less_iff split: if_splits)
  next
    fix m assume m: "s = show_nat m \<and> (if is_signed t then m < 2 ^ (scalar_width t * 8 - 1) else m < 2 ^ (scalar_width t * 8))"
    then have "if is_signed t then int m < 2 ^ (scalar_width t * 8 - 1) else int m < 2 ^ (scalar_width t * 8)"
      by (auto simp only: of_nat_less_iff [of _ "2 ^ n" for n, simplified] split: if_splits)
    with m show "\<exists>i. s = show_int i \<and> fst (scalar_range t) \<le> i \<and> i < snd (scalar_range t)"
      by (intro exI [of _ "int m"]) (auto simp: show_int_def scalar_range_def intro: order_trans [of _ 0])
  qed
  moreover have "m < 2 ^ 64" if "if is_signed t then m < 2 ^ (scalar_width t * 8 - 1) else m < 2 ^ (scalar_width t * 8)" for m :: nat
    using that scalar_bounds(1,2) [of t] by (simp split: if_splits)
  ultimately show ?thesis using False scalar_bounds(3) [of t] unfolding enumerator_value_cases by (auto split: if_splits)
qed

section \<open>Record layout\<close>

text \<open>
  As long as no offset lies in the last eight bytes of the address space, no sum of an offset
  and a width wraps around, and the fields of an accepted record follow each other inside it.
\<close>

definition no_wrap :: "value_field \<Rightarrow> bool" where
  "no_wrap f \<longleftrightarrow> unat (value_field_offset f) + 8 < 2 ^ 64"

definition field_end :: "value_field \<Rightarrow> nat" where
  "field_end f = unat (value_field_offset f) + scalar_width (value_field_type f)"

lemma field_step:
  fixes offset :: "64 word" and width :: nat
  assumes "unat offset + 8 < 2 ^ 64" "width \<le> 8"
  shows "unat (offset + word_of_nat width) = unat offset + width"
proof -
  have "unat (word_of_nat width :: 64 word) = width" using assms(2) by (simp add: unat_of_nat)
  with assms show ?thesis by (simp add: unat_plus_if')
qed

lemma check_fields_layout:
  assumes "check_fields v names fin fs = []" "\<forall>f\<in>set fs. no_wrap f"
  shows "(\<forall>f\<in>set fs. unat fin \<le> unat (value_field_offset f) \<and> field_end f \<le> unat (value_size v) \<and> numeric (value_field_type f) \<and>
      unat (value_field_offset f) mod scalar_width (value_field_type f) = 0) \<and>
    sorted_wrt (\<lambda>f g. field_end f \<le> unat (value_field_offset g)) fs"
  using assms
proof (induction v names fin fs rule: check_fields.induct)
  case (2 v names fin f fs)
  let ?w = "scalar_width (value_field_type f)"
  have w: "?w \<le> 8" by (rule widths)
  then have width: "unat (word_of_nat ?w :: 64 word) = ?w" by (simp add: unat_of_nat)
  have sum: "unat (value_field_offset f + word_of_nat ?w) = field_end f"
    using 2(3) w by (simp add: field_end_def field_step no_wrap_def)
  have "check_fields v (if cpp_identifier (value_field_name f) then insert (value_field_name f) names else names)
      (value_field_offset f + word_of_nat ?w) fs = []"
    using 2(2) by (auto simp: Let_def)
  from 2(1) [OF refl this] 2(3) have rest: "(\<forall>g\<in>set fs. field_end f \<le> unat (value_field_offset g) \<and> field_end g \<le> unat (value_size v) \<and>
      numeric (value_field_type g) \<and> unat (value_field_offset g) mod scalar_width (value_field_type g) = 0) \<and>
      sorted_wrt (\<lambda>f g. field_end f \<le> unat (value_field_offset g)) fs"
    by (simp add: Let_def sum)
  have "numeric (value_field_type f)" "fin \<le> value_field_offset f" "value_field_offset f mod word_of_nat ?w = 0"
    "value_field_offset f + word_of_nat ?w \<le> value_size v"
    using 2(2) by (auto simp: Let_def not_less)
  then have here: "numeric (value_field_type f)" "unat fin \<le> unat (value_field_offset f)"
    "unat (value_field_offset f) mod ?w = 0" "field_end f \<le> unat (value_size v)"
    by (simp_all add: word_le_nat_alt sum unat_mod width flip: unat_eq_0)
  have "unat fin \<le> field_end f" using here(2) by (simp add: field_end_def)
  with here rest show ?case by (auto intro: order_trans)
qed simp

lemma record_layout:
  assumes "check_record v = []" "\<forall>f\<in>set (value_fields v). no_wrap f"
  shows "\<forall>f\<in>set (value_fields v). field_end f \<le> unat (value_size v) \<and> numeric (value_field_type f) \<and>
      unat (value_field_offset f) mod scalar_width (value_field_type f) = 0"
    "sorted_wrt (\<lambda>f g. field_end f \<le> unat (value_field_offset g)) (value_fields v)"
  using assms check_fields_layout [of v "{}" 0 "value_fields v"] by (auto simp: check_record_def)

section \<open>Items\<close>

text \<open>An item is its length, a colon, its bytes and a semicolon; reading one takes exactly the bytes it announces.\<close>

definition item :: "string \<Rightarrow> string" where
  "item s = show_nat (length s) @ '':'' @ s @ '';''"

definition read_item :: "string \<Rightarrow> nat \<Rightarrow> unit + (string \<times> nat)" where
  "read_item s i =
     (let digits = takeWhile is_digit (drop i s); n = decimal_value digits; first = i + length digits + 1
      in Inr (take n (drop first s), first + n + 1))"

interpretation items: prefix_code item read_item "\<lambda>_. True"
proof
  fix x s i rest assume at: "drop i s = item x @ rest"
  have digits: "takeWhile is_digit (drop i s) = show_nat (length x)"
    unfolding at item_def using show_nat_digits [of _ "length x"] by (simp add: takeWhile_append is_digit_def code_of_def)
  have "drop (i + length (show_nat (length x) @ '':'')) s = x @ '';'' @ rest"
    by (rule drop_append_shift) (simp add: at item_def)
  with digits show "read_item s i = Inr (x, i + length (item x))"
    by (simp add: read_item_def Let_def item_def)
qed (simp add: item_def)

lemma append_item_item: "append_item out s = out @ item s"
  by (simp add: append_item_def item_def)

lemma append_items_items: "append_items out ss = out @ concat (map item ss)"
  by (induction ss arbitrary: out) (simp_all add: append_items_def append_item_item)

definition field_items :: "value_field \<Rightarrow> string list" where
  "field_items f = [value_field_name f, scalar_name (value_field_type f), show_nat (unat (value_field_offset f))]"

definition value_items :: "binding_value \<Rightarrow> string list" where
  "value_items v =
     (case value_kind v of
        Record \<Rightarrow> [''record'', value_cpp_name v, show_nat (unat (value_size v)), show_nat (unat (value_align v)),
            show_nat (length (value_fields v))] @ concat (map field_items (value_fields v))
      | Enumeration \<Rightarrow> [''enum'', value_cpp_name v, scalar_name (value_underlying v), show_nat (length (value_cases v))] @
          concat (map (\<lambda>c. [case_name c, case_value c]) (value_cases v)))"

lemma append_value_items: "append_value out v = out @ concat (map item (value_items v))"
proof -
  have "foldl (\<lambda>out f. append_items out [value_field_name f, scalar_name (value_field_type f), show_nat (unat (value_field_offset f))])
      out fs = out @ concat (map item (concat (map field_items fs)))" for out fs
    by (induction fs arbitrary: out) (simp_all add: append_items_items field_items_def)
  moreover have "foldl (\<lambda>out c. append_item (append_item out (case_name c)) (case_value c)) out cs =
      out @ concat (map item (concat (map (\<lambda>c. [case_name c, case_value c]) cs)))" for out and cs :: "value_case list"
    by (induction cs arbitrary: out) (simp_all add: append_item_item)
  ultimately show ?thesis
    by (simp add: append_value_def value_items_def append_items_items split: value_kind.split)
qed

section \<open>Descriptors tell ABIs apart\<close>

definition same_layout :: "binding_value \<Rightarrow> binding_value \<Rightarrow> bool" where
  "same_layout v v' \<longleftrightarrow> value_cpp_name v = value_cpp_name v' \<and> value_kind v = value_kind v' \<and>
     (if value_kind v = Record
      then value_size v = value_size v' \<and> value_align v = value_align v' \<and> value_fields v = value_fields v'
      else value_underlying v = value_underlying v' \<and> value_cases v = value_cases v')"

lemma scalar_name_inj [simp]: "scalar_name a = scalar_name b \<longleftrightarrow> a = b"
  by (cases a; cases b; simp)

lemma operation_name_inj [simp]: "operation_name a = operation_name b \<longleftrightarrow> a = b"
  by (cases a; cases b; simp)

lemma receiver_validation_inj [simp]: "receiver_validation a = receiver_validation b \<longleftrightarrow> a = b"
  by (cases a; cases b; simp)

lemma unat_inj [simp]: "unat (a :: 64 word) = unat b \<longleftrightarrow> a = b"
  by (simp add: word_unat_eq_iff)

lemma blocks_inj:
  assumes "\<And>x y r s. f x @ r = f y @ s \<Longrightarrow> x = y \<and> r = s" "length xs = length ys"
    "concat (map f xs) @ r = concat (map f ys) @ s"
  shows "xs = ys \<and> r = s"
  using assms(2,3)
proof (induction xs ys rule: list_induct2)
  case (Cons x xs y ys)
  then have "f x @ concat (map f xs) @ r = f y @ concat (map f ys) @ s" by simp
  from assms(1) [OF this] Cons.IH show ?case by simp
qed simp

lemma field_items_inj: "field_items f @ r = field_items g @ s \<Longrightarrow> f = g \<and> r = s"
  by (simp add: field_items_def)

lemma case_items_inj: "[case_name c, case_value c] @ r = [case_name d, case_value d] @ s \<Longrightarrow> (c :: value_case) = d \<and> r = s"
  by simp

lemma value_items_inj:
  assumes "value_items v @ r = value_items v' @ s"
  shows "same_layout v v' \<and> r = s"
proof (cases "value_kind v")
  case Record
  with assms have k: "value_kind v' = Record" by (cases "value_kind v'") (simp_all add: value_items_def)
  from assms have heads: "value_cpp_name v = value_cpp_name v'" "value_size v = value_size v'" "value_align v = value_align v'"
    "length (value_fields v) = length (value_fields v')"
    and rest: "concat (map field_items (value_fields v)) @ r = concat (map field_items (value_fields v')) @ s"
    by (simp_all add: value_items_def Record k)
  from blocks_inj [OF field_items_inj heads(4) rest] heads show ?thesis by (simp add: same_layout_def Record k)
next
  case Enumeration
  with assms have k: "value_kind v' = Enumeration" by (cases "value_kind v'") (simp_all add: value_items_def)
  from assms have heads: "value_cpp_name v = value_cpp_name v'" "value_underlying v = value_underlying v'"
    "length (value_cases v) = length (value_cases v')"
    and rest: "concat (map (\<lambda>c. [case_name c, case_value c]) (value_cases v)) @ r =
      concat (map (\<lambda>c. [case_name c, case_value c]) (value_cases v')) @ s"
    by (simp_all add: value_items_def Enumeration k)
  from blocks_inj [OF case_items_inj heads(3) rest] heads show ?thesis by (simp add: same_layout_def Enumeration k)
qed

lemma value_items_same: "same_layout v v' \<Longrightarrow> value_items v = value_items v'"
  by (auto simp: same_layout_def value_items_def split: value_kind.splits if_splits)

subsection \<open>The items of a descriptor\<close>

definition slot_tokens :: "module_input \<Rightarrow> callable \<Rightarrow> string list" where
  "slot_tokens m call =
     map (\<lambda>i. slot_token (module_values m) (call_parameters call ! i) (parameter_value call i)) [0..<length (call_parameters call)]"

definition value_named :: "module_input \<Rightarrow> string \<Rightarrow> binding_value" where
  "value_named m name = the (find_value (module_values m) name)"

definition head_items :: "module_input \<Rightarrow> callable \<Rightarrow> string list" where
  "head_items m call = [module_identity m, triple (module_target m), show_int (sint (pointer_width (module_target m))),
     call_symbol call, operation_name (call_operation call), call_receiver call, call_cpp_name call,
     call_signature call, if call_effect call = Read then ''read'' else ''write'',
     if call_handle_result call = [] then slot_token (module_values m) (call_result call) (call_result_value call)
     else ''handle:'' @ call_handle_result call,
     show_nat (length (call_parameters call))]"

definition descriptor_items :: "module_input \<Rightarrow> callable \<Rightarrow> string list" where
  "descriptor_items m call =
     [''reflgen.prsm.call.v1'', ''cdecl'', ''int32'', ''0'', ''typed_out_pointer'', ''no_out_pointer'', ''generational_u64'',
      receiver_validation (call_receiver_kind call), ''borrowed_call_guard'', ''game_thread'', ''caught_to_status'',
      ''u8_nonzero_in_normalized_out'', ''untouched'', ''synchronous''] @
     head_items m call @ slot_tokens m call @ concat (map (\<lambda>name. value_items (value_named m name)) (referenced_values call))"

lemma foldl_item: "foldl (\<lambda>out x. out @ item (f x)) out xs = out @ concat (map item (map f xs))"
  by (induction xs arbitrary: out) simp_all

lemma foldl_append_value:
  "foldl (\<lambda>out x. append_value out (f x)) out xs = out @ concat (map item (concat (map (\<lambda>x. value_items (f x)) xs)))"
  by (induction xs arbitrary: out) (simp_all add: append_value_items)

lemma descriptor_is_items: "descriptor m call = concat (map item (descriptor_items m call))"
  unfolding descriptor_def Let_def append_values_def foldl_append_value append_items_items append_item_item foldl_item
    descriptor_items_def head_items_def slot_tokens_def value_named_def
  by (simp only: map_append concat_append append.assoc list.map concat.simps append_Nil append_Nil2)

lemma descriptor_eq_iff: "descriptor m call = descriptor m' call' \<longleftrightarrow> descriptor_items m call = descriptor_items m' call'"
  using items.concat_inj [of "descriptor_items m call" "descriptor_items m' call'"] by (auto simp: descriptor_is_items)

subsection \<open>The part of a call that is its ABI\<close>

definition same_abi :: "module_input \<Rightarrow> callable \<Rightarrow> module_input \<Rightarrow> callable \<Rightarrow> bool" where
  "same_abi m c m' c' \<longleftrightarrow>
     module_identity m = module_identity m' \<and> module_target m = module_target m' \<and>
     call_receiver_kind c = call_receiver_kind c' \<and> call_symbol c = call_symbol c' \<and> call_operation c = call_operation c' \<and>
     call_receiver c = call_receiver c' \<and> call_cpp_name c = call_cpp_name c' \<and> call_signature c = call_signature c' \<and>
     call_effect c = call_effect c' \<and> call_handle_result c = call_handle_result c' \<and>
     call_result_value c = call_result_value c' \<and> (call_result_value c = [] \<longrightarrow> call_result c = call_result c') \<and>
     length (call_parameters c) = length (call_parameters c') \<and>
     (\<forall>i<length (call_parameters c). parameter_value c i = parameter_value c' i \<and>
        (parameter_value c i = [] \<longrightarrow> call_parameters c ! i = call_parameters c' ! i)) \<and>
     (\<forall>name\<in>set (referenced_values c). same_layout (value_named m name) (value_named m' name))"

text \<open>What the checks guarantee of a call.\<close>

definition sound_call :: "module_input \<Rightarrow> callable \<Rightarrow> bool" where
  "sound_call m c \<longleftrightarrow> value_slot m (call_result_value c) \<and> list_all (value_slot m) (call_parameter_values c) \<and>
     (call_parameter_values c = [] \<or> length (call_parameter_values c) = length (call_parameters c)) \<and>
     (call_handle_result c \<noteq> [] \<longleftrightarrow> call_operation c = Owner) \<and>
     (call_operation c = Owner \<longrightarrow> call_result c = Uint64 \<and> call_result_value c = [])"

lemma show_int_inj: "show_int a = show_int b \<Longrightarrow> a = b"
  using from_chars_show_int [of "- \<bar>a\<bar> - \<bar>b\<bar> - 1" a "\<bar>a\<bar> + \<bar>b\<bar>" "[]"]
    from_chars_show_int [of "- \<bar>a\<bar> - \<bar>b\<bar> - 1" b "\<bar>a\<bar> + \<bar>b\<bar>" "[]"] by simp

lemma slot_token_inj:
  assumes "value_slot m n" "value_slot m' n'" "slot_token (module_values m) s n = slot_token (module_values m') s' n'"
  shows "n = n' \<and> (n = [] \<longrightarrow> s = s')"
proof -
  have scalar: "scalar_name s \<noteq> (if b then ''value:'' else ''enum:'') @ x" for s b x
    by (cases s; cases b; simp)
  show ?thesis
    using assms scalar scalar [symmetric]
    by (auto simp: slot_token_def value_slot_def split: if_splits option.splits)
qed

lemma slot_token_same:
  assumes "n = [] \<longrightarrow> s = s'" "n \<noteq> [] \<longrightarrow> value_slot m n \<and> value_slot m' n \<and> same_layout (value_named m n) (value_named m' n)"
  shows "slot_token (module_values m) s n = slot_token (module_values m') s' n"
  using assms by (auto simp: slot_token_def value_slot_def value_named_def same_layout_def)

lemma set_note_name: "set (foldl note_name order names) = set order \<union> (set names - {[]})"
  by (induction names arbitrary: order) (auto simp: note_name_def)

lemma set_referenced: "set (referenced_values c) = ({call_result_value c} \<union> set (call_parameter_values c)) - {[]}"
  by (auto simp: referenced_values_def set_note_name note_name_def)

lemma note_nothing: "foldl note_name order (replicate n []) = order"
  by (induction n arbitrary: order) (simp_all add: note_name_def)

lemma referenced_by_slots:
  assumes "call_parameter_values c = [] \<or> length (call_parameter_values c) = length (call_parameters c)"
  shows "referenced_values c = foldl note_name (note_name [] (call_result_value c))
    (map (parameter_value c) [0..<length (call_parameters c)])"
proof (cases "call_parameter_values c = []")
  case True
  have "map (parameter_value c) [0..<n] = replicate n []" for n
    by (rule nth_equalityI) (simp_all add: parameter_value_def True)
  then show ?thesis by (simp add: referenced_values_def True note_nothing)
next
  case False
  then have "map (parameter_value c) [0..<length (call_parameters c)] = call_parameter_values c"
    using assms by (intro nth_equalityI) (simp_all add: parameter_value_def)
  then show ?thesis by (simp add: referenced_values_def)
qed

lemma referenced_same:
  assumes "sound_call m c" "sound_call m' c'" "call_result_value c = call_result_value c'"
    "length (call_parameters c) = length (call_parameters c')"
    "\<And>i. i < length (call_parameters c) \<Longrightarrow> parameter_value c i = parameter_value c' i"
  shows "referenced_values c = referenced_values c'"
proof -
  have "map (parameter_value c) [0..<length (call_parameters c)] = map (parameter_value c') [0..<length (call_parameters c')]"
    using assms(4,5) by (intro nth_equalityI) simp_all
  moreover have "referenced_values c = foldl note_name (note_name [] (call_result_value c))
      (map (parameter_value c) [0..<length (call_parameters c)])"
    "referenced_values c' = foldl note_name (note_name [] (call_result_value c'))
      (map (parameter_value c') [0..<length (call_parameters c')])"
    using assms(1,2) by (simp_all only: sound_call_def referenced_by_slots)
  ultimately show ?thesis using assms(3) by (simp only:)
qed

lemma parameter_slots:
  assumes "sound_call m c" "i < length (call_parameters c)"
  shows "value_slot m (parameter_value c i)" "parameter_value c i \<noteq> [] \<longrightarrow> parameter_value c i \<in> set (referenced_values c)"
  using assms by (auto simp: sound_call_def parameter_value_def list_all_length set_referenced value_slot_def)

lemma descriptor_same_abi:
  assumes "sound_call m c" "sound_call m' c'" "same_abi m c m' c'"
  shows "descriptor m c = descriptor m' c'"
proof -
  note same = assms(3) [unfolded same_abi_def]
  have "call_handle_result c = [] \<Longrightarrow> slot_token (module_values m) (call_result c) (call_result_value c) =
      slot_token (module_values m') (call_result c') (call_result_value c')"
    using assms(1,2) same slot_token_same [of "call_result_value c" "call_result c" "call_result c'" m m']
    by (simp add: sound_call_def set_referenced)
  then have "head_items m c = head_items m' c'" using same by (simp add: head_items_def)
  moreover have "slot_tokens m c = slot_tokens m' c'"
  proof (rule nth_equalityI)
    fix i assume "i < length (slot_tokens m c)"
    then have i: "i < length (call_parameters c)" "i < length (call_parameters c')" using same by (simp_all add: slot_tokens_def)
    with same have v: "parameter_value c i = parameter_value c' i"
      "parameter_value c i = [] \<longrightarrow> call_parameters c ! i = call_parameters c' ! i" by auto
    have "slot_token (module_values m) (call_parameters c ! i) (parameter_value c i) =
        slot_token (module_values m') (call_parameters c' ! i) (parameter_value c i)"
      using v parameter_slots [OF assms(1) i(1)] parameter_slots [OF assms(2) i(2)] same
      by (intro slot_token_same) auto
    then show "slot_tokens m c ! i = slot_tokens m' c' ! i" using i v(1) by (simp add: slot_tokens_def)
  qed (use same in \<open>simp add: slot_tokens_def\<close>)
  moreover have "referenced_values c = referenced_values c'"
    using same by (intro referenced_same [OF assms(1,2)]) simp_all
  moreover have "concat (map (\<lambda>name. value_items (value_named m name)) (referenced_values c)) =
      concat (map (\<lambda>name. value_items (value_named m' name)) (referenced_values c))"
    using same value_items_same by (intro arg_cong [where f = concat] map_cong) auto
  ultimately show ?thesis using same by (simp add: descriptor_eq_iff descriptor_items_def)
qed

lemma same_abi_descriptor:
  assumes "sound_call m c" "sound_call m' c'" "descriptor m c = descriptor m' c'"
  shows "same_abi m c m' c'"
proof -
  have items: "descriptor_items m c = descriptor_items m' c'" using assms(3) by (simp add: descriptor_eq_iff)
  then have heads: "head_items m c = head_items m' c'" "call_receiver_kind c = call_receiver_kind c'"
    and tail: "slot_tokens m c @ concat (map (\<lambda>name. value_items (value_named m name)) (referenced_values c)) =
      slot_tokens m' c' @ concat (map (\<lambda>name. value_items (value_named m' name)) (referenced_values c'))"
    by (simp_all add: descriptor_items_def head_items_def)
  have length: "length (call_parameters c) = length (call_parameters c')" using heads by (simp add: head_items_def)
  then have tokens: "slot_tokens m c = slot_tokens m' c'"
    and blocks: "concat (map (\<lambda>name. value_items (value_named m name)) (referenced_values c)) =
      concat (map (\<lambda>name. value_items (value_named m' name)) (referenced_values c'))"
    using tail by (simp_all add: slot_tokens_def)
  have parts: "module_identity m = module_identity m'" "triple (module_target m) = triple (module_target m')"
    "show_int (sint (pointer_width (module_target m))) = show_int (sint (pointer_width (module_target m')))" "call_symbol c = call_symbol c'"
    "call_operation c = call_operation c'" "call_receiver c = call_receiver c'" "call_cpp_name c = call_cpp_name c'"
    "call_signature c = call_signature c'"
    "(if call_effect c = Read then ''read'' else ''write'') = (if call_effect c' = Read then ''read'' else ''write'')"
    using heads(1) by (simp_all only: head_items_def list.inject operation_name_inj)
  have target: "module_target m = module_target m'"
    using parts(2) signed_word_eqI [OF show_int_inj [OF parts(3)]] by (intro target_model.equality) simp_all
  have effect: "call_effect c = call_effect c'"
    using parts(9) by (cases "call_effect c"; cases "call_effect c'") simp_all
  note simple = parts(1) target parts(4-8) effect
  have owner: "call_handle_result c = [] \<longleftrightarrow> call_handle_result c' = []"
    using assms(1,2) simple by (auto simp: sound_call_def)
  then have handle: "call_handle_result c = call_handle_result c'"
    using heads by (simp add: head_items_def split: if_splits)
  have result: "call_result_value c = call_result_value c' \<and> (call_result_value c = [] \<longrightarrow> call_result c = call_result c')"
  proof (cases "call_handle_result c = []")
    case True
    with heads owner have "slot_token (module_values m) (call_result c) (call_result_value c) =
        slot_token (module_values m') (call_result c') (call_result_value c')" by (simp add: head_items_def)
    then show ?thesis using assms(1,2) by (intro slot_token_inj) (auto simp: sound_call_def)
  next
    case False
    with assms(1,2) owner show ?thesis by (simp add: sound_call_def)
  qed
  have slots: "parameter_value c i = parameter_value c' i \<and> (parameter_value c i = [] \<longrightarrow> call_parameters c ! i = call_parameters c' ! i)"
    if "i < length (call_parameters c)" for i
  proof -
    have "slot_tokens m c ! i = slot_tokens m' c' ! i" using tokens by simp
    then show ?thesis
      using that length parameter_slots(1) [OF assms(1)] parameter_slots(1) [OF assms(2)]
      by (intro slot_token_inj) (simp_all add: slot_tokens_def)
  qed
  have referenced: "referenced_values c = referenced_values c'"
    using length result slots by (intro referenced_same [OF assms(1,2)]) simp_all
  have "\<forall>name\<in>set names. same_layout (value_named m name) (value_named m' name)"
    if "concat (map (\<lambda>name. value_items (value_named m name)) names) = concat (map (\<lambda>name. value_items (value_named m' name)) names)"
    for names
    using that
  proof (induction names)
    case (Cons name names)
    then have "value_items (value_named m name) @ concat (map (\<lambda>name. value_items (value_named m name)) names) =
        value_items (value_named m' name) @ concat (map (\<lambda>name. value_items (value_named m' name)) names)" by simp
    from value_items_inj [OF this] Cons.IH show ?case by simp
  qed simp
  from this [of "referenced_values c"] have "\<forall>name\<in>set (referenced_values c). same_layout (value_named m name) (value_named m' name)"
    using blocks referenced by simp
  with simple heads(2) handle result length slots show ?thesis by (simp add: same_abi_def)
qed

subsection \<open>Descriptors of built modules\<close>

lemma valid_sound:
  assumes "valid_module m" "c \<in> set (module_callables m)"
  shows "sound_call m c"
proof -
  have valid: "call_report m c = []" "proper_call (receiver_kinds (module_types m)) c"
    "\<forall>t\<in>set (module_types m). type_cpp_name t \<noteq> []"
    using assms by (auto simp: valid_module_def proper_names_def plain_text_def)
  have "receiver_kinds (module_types m) (call_handle_result c) \<noteq> None \<Longrightarrow> call_handle_result c \<noteq> []"
    using valid(3) by (auto simp: receiver_kinds_eq map_of_eq_None_iff dest!: map_of_SomeD)
  with valid show ?thesis
    by (auto simp: sound_call_def call_report_def check_slots_def check_owner_def has_values_def)
qed

lemma valid_sorted: "valid_module m \<Longrightarrow> valid_module (sorted_input m)"
  by (rule valid_permuted [of m]) (auto simp: permuted_def sorted_input_def)

lemma built_sound:
  assumes "fst (build_binding_module m report) = Some b" "k \<in> set (contracts b)"
  shows "sound_call (input_of b) (contract_call k)" "abi_descriptor k = descriptor (input_of b) (contract_call k)"
    "abi_sha256 k = binding_sha256 (abi_descriptor k)" "valid_module (input_of b)"
    "contract_call k \<in> set (module_callables (input_of b))"
proof -
  have "valid_module m" and b: "b = module_of (sorted_input m)" using assms(1) by (auto simp: build_iff split: if_splits)
  then show valid: "valid_module (input_of b)" by (simp add: module_of_def valid_sorted)
  show "abi_descriptor k = descriptor (input_of b) (contract_call k)" "abi_sha256 k = binding_sha256 (abi_descriptor k)"
    and call: "contract_call k \<in> set (module_callables (input_of b))"
    using assms(2) by (auto simp: b module_of_def contract_of_def Let_def)
  from valid call show "sound_call (input_of b) (contract_call k)" by (rule valid_sound)
qed

end
