(* ===== verification/Catalog_Json.thy ===== *)
theory Catalog_Json
  imports Declarations_Json Prsm_Catalog Binding_Abi
begin

text \<open>
  The catalog of a built module is a JSON text. The catalog escapes only quotes and
  backslashes; that is enough because the builder admits no control character.
\<close>

section \<open>Printable strings\<close>

definition printable :: "string \<Rightarrow> bool" where
  "printable s \<longleftrightarrow> validate_utf8 s = Inr () \<and> list_all (\<lambda>c. 0x20 \<le> code_of c) s"

lemma catalog_quoted_eq:
  "list_all (\<lambda>c. 0x20 \<le> code_of c) s \<Longrightarrow> catalog_quoted s = declared_text s"
proof -
  have "foldl (\<lambda>result c. (if c = CHR 0x5C \<or> c = CHR 0x22 then result @ [CHR 0x5C] else result) @ [c]) r s =
      r @ concat (map declared_char s)" if "list_all (\<lambda>c. 0x20 \<le> code_of c) s" for r
    using that by (induction s arbitrary: r) (auto simp: declared_char_def)
  then show "list_all (\<lambda>c. 0x20 \<le> code_of c) s \<Longrightarrow> ?thesis" by (simp add: catalog_quoted_def declared_text_eq)
qed

lemma says_printable: "printable s \<Longrightarrow> says (catalog_quoted s) (NString s)"
  by (simp add: printable_def catalog_quoted_eq says_declared)

lemma printable_graphic: "list_all graphic s \<Longrightarrow> printable s"
  unfolding printable_def
  by (intro conjI ascii_utf8) (auto simp: list_all_iff graphic_def code_of_def)

lemma printable_append: "list_all graphic s \<Longrightarrow> list_all graphic t \<Longrightarrow> printable (s @ t)"
  by (simp add: printable_graphic)

lemma graphic_identifier: "cpp_identifier s \<Longrightarrow> list_all graphic s"
  by (auto simp: cpp_identifier_def list_all_iff identifier_char [symmetric] intro: identifier_char_graphic)

lemma graphic_qualified: "qualified_name separator s \<Longrightarrow> list_all graphic separator \<Longrightarrow> list_all graphic s"
proof (induction separator s rule: qualified_name.induct)
  case (1 separator s)
  show ?case
  proof (cases "find_text separator s")
    case None
    with 1(2) show ?thesis by (simp add: qualified_name.simps [of separator s] graphic_identifier)
  next
    case (Some e)
    with 1(2) have parts: "cpp_identifier (take e s)" "qualified_name separator (drop (e + length separator) s)"
      by (simp_all add: qualified_name.simps [of separator s] split: if_splits)
    have "list_all graphic (take e s @ separator @ drop (e + length separator) s)"
      using 1(1) [OF Some parts] graphic_identifier [OF parts(1)] 1(3) by simp
    with find_text_Some [OF Some] show ?thesis by simp
  qed
qed

lemma graphic_scope: "qualified_name ''::'' s \<Longrightarrow> list_all graphic s"
  using graphic_qualified [of "''::''" s] by (simp add: graphic_def code_of_def)

lemma graphic_scalar: "list_all graphic (scalar_name t)"
  by (cases t) (simp_all add: graphic_def code_of_def)

lemma graphic_receiver: "list_all graphic (receiver_name r)"
  by (cases r) (simp_all add: graphic_def code_of_def)

lemma graphic_digit: "is_digit c \<Longrightarrow> graphic c"
  by (auto simp: is_digit_def graphic_def)

lemma graphic_enumerator: "enumerator_value s t \<Longrightarrow> list_all graphic s"
proof -
  assume "enumerator_value s t"
  then obtain i where "s = show_int i" by (auto simp: enumerator_value_numeral)
  moreover have "list_all graphic (show_nat n)" for n
    using show_nat_digits graphic_digit by (auto simp: list_all_iff)
  moreover have "graphic (CHR ''-'')" by (simp add: graphic_def code_of_def)
  ultimately show ?thesis by (simp add: show_int_def)
qed

lemma graphic_digest: "list_all graphic (binding_sha256 s)"
proof -
  have "list_all graphic hex_digits" by (simp add: hex_digits_def graphic_def code_of_def)
  then show ?thesis using sha_hex [of s] by (auto simp: list_all_iff)
qed

lemma graphic_target: "s \<in> module_targets \<Longrightarrow> list_all graphic s"
  by (auto simp: module_targets_def graphic_def code_of_def)

section \<open>The values\<close>

definition catalog_type_node :: "binding_type \<Rightarrow> node" where
  "catalog_type_node t = NObject [(''name'', NString (type_script_name t)), (''cpp_name'', NString (type_cpp_name t)),
     (''receiver'', NString (receiver_name (type_receiver t)))]"

definition catalog_field_node :: "value_field \<Rightarrow> node" where
  "catalog_field_node f = NObject [(''name'', NString (value_field_name f)),
     (''type'', NString (scalar_name (value_field_type f))), (''offset'', NUint (value_field_offset f))]"

definition catalog_case_node :: "value_case \<Rightarrow> node" where
  "catalog_case_node c = NObject [(''name'', NString (case_name c)), (''value'', NString (case_value c))]"

definition catalog_value_node :: "binding_value \<Rightarrow> node" where
  "catalog_value_node v = NObject ([(''name'', NString (value_script_name v)), (''cpp_name'', NString (value_cpp_name v))] @
     (case value_kind v of
        Record \<Rightarrow> [(''kind'', NString ''record''), (''size'', NUint (value_size v)), (''align'', NUint (value_align v)),
          (''fields'', NArray (map catalog_field_node (value_fields v)))]
      | Enumeration \<Rightarrow> [(''kind'', NString ''enum''), (''underlying'', NString (scalar_name (value_underlying v))),
          (''cases'', NArray (map catalog_case_node (value_cases v)))]))"

definition catalog_call_node :: "module_input \<Rightarrow> call_contract \<Rightarrow> node" where
  "catalog_call_node m k =
     (let c = contract_call k; owner = (call_operation c = Owner)
      in NObject [(''name'', NString (call_script_name c)), (''cpp_name'', NString (call_cpp_name c)),
        (''receiver'', if owner then NNull else NString (call_receiver c)),
        (''operation'', NString (operation_name (call_operation c))), (''signature'', NString (call_signature c)),
        (''const'', NBool (call_is_const c)), (''noexcept'', NBool (call_is_noexcept c)),
        (''effect'', NString (if call_effect c = Read then ''read'' else ''write'')),
        (''result'', NString (if owner then ''handle:'' @ call_handle_result c
           else slot_token (module_values m) (call_result c) (call_result_value c))),
        (''params'', NArray (map (\<lambda>i. NString (slot_token (module_values m) (call_parameters c ! i) (parameter_value c i)))
           [0..<length (call_parameters c)])),
        (''symbol'', NString (call_symbol c)), (''abi_sha256'', NString (abi_sha256 k))])"

definition catalog_node :: "binding_module \<Rightarrow> node" where
  "catalog_node b =
     (let m = input_of b
      in NObject ([(''format'', NString ''reflgen.prsm.bindings''), (''version'', NInt 1), (''abi'', NString ''reflgen.prsm.abi.v1''),
          (''module'', NString (module_identity m)),
          (''target'', NObject [(''triple'', NString (triple (module_target m))), (''pointer_width'', NInt 64)]),
          (''types'', NArray (map catalog_type_node (module_types m)))] @
        (if module_values m \<noteq> [] then [(''values'', NArray (map catalog_value_node (module_values m)))] else []) @
        [(''callables'', NArray (map (catalog_call_node m) (contracts b)))]))"

section \<open>What is written\<close>

lemma says_commas:
  "(\<And>x. x \<in> set xs \<Longrightarrow> says (f x) (g x)) \<Longrightarrow> says (''['' @ comma_items True (map f xs) @ '']'') (NArray (map g xs))"
  using says_array_map [of xs f g] by (simp add: array_text_def)

lemma says_word: "says (show_nat (unat (w :: 64 word))) (NUint w)"
  using says_nat [of "unat w"] unsigned_less [of w] by simp

lemma says_catalog_type:
  "printable (type_script_name t) \<Longrightarrow> printable (type_cpp_name t) \<Longrightarrow> says (catalog_type t) (catalog_type_node t)"
  unfolding catalog_type_node_def
  by (rule says_members [where ms = "[(''name'', catalog_quoted (type_script_name t), NString (type_script_name t)),
        (''cpp_name'', catalog_quoted (type_cpp_name t), NString (type_cpp_name t)),
        (''receiver'', catalog_quoted (receiver_name (type_receiver t)), NString (receiver_name (type_receiver t)))]"])
    (simp_all add: says_printable printable_graphic graphic_receiver catalog_type_def plain_key)

lemma says_catalog_field: "printable (value_field_name f) \<Longrightarrow> says (catalog_field f) (catalog_field_node f)"
  unfolding catalog_field_node_def
  by (rule says_members [where ms = "[(''name'', catalog_quoted (value_field_name f), NString (value_field_name f)),
        (''type'', catalog_quoted (scalar_name (value_field_type f)), NString (scalar_name (value_field_type f))),
        (''offset'', show_nat (unat (value_field_offset f)), NUint (value_field_offset f))]"])
    (simp_all add: says_printable printable_graphic graphic_scalar says_word catalog_field_def plain_key)

lemma says_catalog_case:
  "printable (case_name c) \<Longrightarrow> printable (case_value c) \<Longrightarrow> says (catalog_case c) (catalog_case_node c)"
  unfolding catalog_case_node_def
  by (rule says_members [where ms = "[(''name'', catalog_quoted (case_name c), NString (case_name c)),
        (''value'', catalog_quoted (case_value c), NString (case_value c))]"])
    (simp_all add: says_printable catalog_case_def plain_key)

lemma says_catalog_value:
  assumes "printable (value_script_name v)" "printable (value_cpp_name v)"
    and "\<And>f. f \<in> set (value_fields v) \<Longrightarrow> value_kind v = Record \<Longrightarrow> printable (value_field_name f)"
    and "\<And>c. c \<in> set (value_cases v) \<Longrightarrow> value_kind v = Enumeration \<Longrightarrow> printable (case_name c) \<and> printable (case_value c)"
  shows "says (catalog_value v) (catalog_value_node v)"
proof (cases "value_kind v")
  case Record
  have "says (''['' @ comma_items True (map catalog_field (value_fields v)) @ '']'') (NArray (map catalog_field_node (value_fields v)))"
    by (rule says_commas) (simp add: says_catalog_field assms(3) Record)
  then show ?thesis using assms(1,2) unfolding catalog_value_node_def
    by (intro says_members [where ms = "[(''name'', catalog_quoted (value_script_name v), NString (value_script_name v)),
          (''cpp_name'', catalog_quoted (value_cpp_name v), NString (value_cpp_name v)),
          (''kind'', CHR 0x22 # ''record'' @ [CHR 0x22], NString ''record''),
          (''size'', show_nat (unat (value_size v)), NUint (value_size v)),
          (''align'', show_nat (unat (value_align v)), NUint (value_align v)),
          (''fields'', ''['' @ comma_items True (map catalog_field (value_fields v)) @ '']'',
            NArray (map catalog_field_node (value_fields v)))]"])
      (simp_all add: Record says_printable says_word says_plain_string [of "''record''", simplified] catalog_value_def plain_key)
next
  case Enumeration
  have "says (''['' @ comma_items True (map catalog_case (value_cases v)) @ '']'') (NArray (map catalog_case_node (value_cases v)))"
    by (rule says_commas) (simp add: says_catalog_case assms(4) Enumeration)
  then show ?thesis using assms(1,2) unfolding catalog_value_node_def
    by (intro says_members [where ms = "[(''name'', catalog_quoted (value_script_name v), NString (value_script_name v)),
          (''cpp_name'', catalog_quoted (value_cpp_name v), NString (value_cpp_name v)),
          (''kind'', CHR 0x22 # ''enum'' @ [CHR 0x22], NString ''enum''),
          (''underlying'', catalog_quoted (scalar_name (value_underlying v)), NString (scalar_name (value_underlying v))),
          (''cases'', ''['' @ comma_items True (map catalog_case (value_cases v)) @ '']'',
            NArray (map catalog_case_node (value_cases v)))]"])
      (simp_all add: Enumeration says_printable says_plain_string [of "''enum''", simplified] printable_graphic graphic_scalar
        catalog_value_def plain_key)
qed

text \<open>A call of a built module.\<close>

lemma says_catalog_call:
  assumes "list_all printable [call_script_name c, call_cpp_name c, call_receiver c, call_signature c, call_symbol c, abi_sha256 k]"
    and "call_operation c = Owner \<Longrightarrow> list_all graphic (call_handle_result c)"
    and "\<And>t name. list_all graphic (slot_token (module_values m) t name)" and c: "c = contract_call k"
  shows "says (catalog_call m k) (catalog_call_node m k)"
proof -
  let ?owner = "call_operation c = Owner"
  let ?param = "\<lambda>i. slot_token (module_values m) (call_parameters c ! i) (parameter_value c i)"
  let ?result = "if ?owner then ''handle:'' @ call_handle_result c
      else slot_token (module_values m) (call_result c) (call_result_value c)"
  let ?receiver = "if ?owner then ''null'' else catalog_quoted (call_receiver c)"
  have params: "says (''['' @ comma_items True (map (\<lambda>i. catalog_quoted (?param i)) [0..<length (call_parameters c)]) @ '']'')
      (NArray (map (\<lambda>i. NString (?param i)) [0..<length (call_parameters c)]))"
    by (rule says_commas) (simp add: says_printable printable_graphic assms(3))
  have "list_all graphic ''handle:''" by (simp add: graphic_def code_of_def)
  then have result: "says (catalog_quoted ?result) (NString ?result)"
    using assms(2,3) by (simp add: says_printable printable_graphic)
  have receiver: "says ?receiver (if ?owner then NNull else NString (call_receiver c))"
    using assms(1) by (simp add: says_null says_printable)
  have names: "list_all graphic (operation_name (call_operation c))"
    "list_all graphic (if call_effect c = Read then ''read'' else ''write'')"
    by (cases "call_operation c", simp_all add: graphic_def code_of_def)
  have kind: "(if ?owner then ''owner'' else if call_operation c = Method then ''method''
      else if call_operation c = Getter then ''getter'' else ''setter'') = operation_name (call_operation c)"
    by (cases "call_operation c") simp_all
  note strings = assms(1) [simplified]
  show ?thesis unfolding catalog_call_node_def Let_def c [symmetric]
    by (rule says_members [where ms = "[(''name'', catalog_quoted (call_script_name c), NString (call_script_name c)),
          (''cpp_name'', catalog_quoted (call_cpp_name c), NString (call_cpp_name c)),
          (''receiver'', ?receiver, if ?owner then NNull else NString (call_receiver c)),
          (''operation'', catalog_quoted (operation_name (call_operation c)), NString (operation_name (call_operation c))),
          (''signature'', catalog_quoted (call_signature c), NString (call_signature c)),
          (''const'', if call_is_const c then ''true'' else ''false'', NBool (call_is_const c)),
          (''noexcept'', if call_is_noexcept c then ''true'' else ''false'', NBool (call_is_noexcept c)),
          (''effect'', catalog_quoted (if call_effect c = Read then ''read'' else ''write''),
            NString (if call_effect c = Read then ''read'' else ''write'')),
          (''result'', catalog_quoted ?result, NString ?result),
          (''params'', ''['' @ comma_items True (map (\<lambda>i. catalog_quoted (?param i)) [0..<length (call_parameters c)]) @ '']'',
            NArray (map (\<lambda>i. NString (?param i)) [0..<length (call_parameters c)])),
          (''symbol'', catalog_quoted (call_symbol c), NString (call_symbol c)),
          (''abi_sha256'', catalog_quoted (abi_sha256 k), NString (abi_sha256 k))]"])
      (simp_all add: strings params [simplified] result receiver says_printable printable_graphic names says_bool
        says_bool [where b = True, simplified] says_bool [where b = False, simplified]
        plain_key catalog_call_def Let_def c [symmetric] kind split del: if_split)
qed

section \<open>Built modules\<close>

lemma check_fields_names: "check_fields v names fin fs = [] \<Longrightarrow> f \<in> set fs \<Longrightarrow> cpp_identifier (value_field_name f)"
  by (induction v names fin fs rule: check_fields.induct) (auto simp: Let_def)

lemma check_cases_names:
  "check_cases v names numbers cs = [] \<Longrightarrow> c \<in> set cs \<Longrightarrow>
     cpp_identifier (case_name c) \<and> enumerator_value (case_value c) (value_underlying v)"
  by (induction v names numbers cs rule: check_cases.induct) (auto simp: Let_def)

lemma graphic_slot:
  assumes "valid_module m"
  shows "list_all graphic (slot_token (module_values m) t name)"
proof -
  have "list_all graphic (value_cpp_name v)" if "v \<in> set (module_values m)" for v
    using assms that by (auto simp: valid_module_def proper_names_def intro: graphic_scope)
  moreover have "list_all graphic ''value:''" "list_all graphic ''enum:''" by (simp_all add: graphic_def code_of_def)
  ultimately show ?thesis
    by (auto simp: slot_token_def find_value_def find_Some_iff graphic_scalar split: option.split)
qed

lemma says_catalog_values:
  assumes "valid_module m" "v \<in> set (module_values m)"
  shows "says (catalog_value v) (catalog_value_node v)"
proof -
  have v: "proper_names (length (module_sources m)) (value_cpp_name v) (value_script_name v) (value_source v)" "value_report v = []"
    using assms by (auto simp: valid_module_def)
  show ?thesis
  proof (rule says_catalog_value)
    show "printable (value_script_name v)" "printable (value_cpp_name v)"
      using v(1) by (simp_all add: proper_names_def printable_graphic graphic_scope)
    show "printable (value_field_name f)" if "f \<in> set (value_fields v)" "value_kind v = Record" for f
      using v(2) that check_fields_names [of v "{}" 0 "value_fields v" f]
      by (simp add: value_report_def check_record_def printable_graphic graphic_identifier)
    show "printable (case_name c) \<and> printable (case_value c)" if "c \<in> set (value_cases v)" "value_kind v = Enumeration" for c
      using v(2) that check_cases_names [of v "{}" "{}" "value_cases v" c]
      by (auto simp: value_report_def check_enumeration_def printable_graphic graphic_identifier graphic_enumerator)
  qed
qed

lemma says_catalog_calls:
  assumes "fst (build_binding_module m report) = Some b" "k \<in> set (contracts b)"
    and "validate_utf8 (call_signature (contract_call k)) = Inr ()"
  shows "says (catalog_call (input_of b) k) (catalog_call_node (input_of b) k)"
proof -
  let ?c = "contract_call k"
  let ?kinds = "receiver_kinds (module_types (input_of b))"
  note built = built_sound [OF assms(1,2)]
  have call: "proper_call ?kinds ?c" "call_report (input_of b) ?c = []"
    using built(4,5) by (auto simp: valid_module_def)
  have type: "list_all graphic name" if "?kinds name \<noteq> None" for name
  proof -
    from that obtain t where "t \<in> set (module_types (input_of b))" "type_cpp_name t = name"
      by (auto simp: receiver_kinds_eq map_of_eq_None_iff dest!: map_of_SomeD)
    then show ?thesis using built(4) by (auto simp: valid_module_def proper_names_def intro: graphic_scope)
  qed
  have "list_all graphic (call_script_name ?c)" "list_all graphic (call_cpp_name ?c)" "list_all graphic (call_symbol ?c)"
    using call(1) by (auto simp: proper_call_def graphic_identifier graphic_scope split: if_splits)
  moreover have "list_all graphic (call_receiver ?c)"
  proof (cases "call_operation ?c = Owner")
    case True
    with call(2) show ?thesis by (simp add: call_report_def check_owner_def)
  next
    case False
    with call(1) show ?thesis by (intro type) (simp add: proper_call_def)
  qed
  moreover have "printable (call_signature ?c)"
    using call(1) assms(3) by (auto simp: printable_def proper_call_def plain_text_def list_all_iff not_less)
  moreover have "list_all graphic (abi_sha256 k)" by (simp add: built(3) graphic_digest)
  ultimately have strings:
    "list_all printable [call_script_name ?c, call_cpp_name ?c, call_receiver ?c, call_signature ?c, call_symbol ?c, abi_sha256 k]"
    by (simp add: printable_graphic)
  show ?thesis
  proof (rule says_catalog_call [OF strings _ graphic_slot [OF built(4)] refl])
    assume "call_operation ?c = Owner"
    with call(2) show "list_all graphic (call_handle_result ?c)"
      by (intro type) (auto simp: call_report_def check_owner_def)
  qed
qed

lemma says_catalog:
  assumes "fst (build_binding_module m report) = Some b"
    and "\<And>k. k \<in> set (contracts b) \<Longrightarrow> validate_utf8 (call_signature (contract_call k)) = Inr ()"
  shows "\<exists>s. says s (catalog_node b) \<and> emit_prsm_catalog b = s @ [CHR 0x0A]"
proof -
  let ?m = "input_of b"
  have "valid_module m" "b = module_of (sorted_input m)" using assms(1) by (auto simp: build_iff split: if_splits)
  then have valid: "valid_module ?m" by (simp add: module_of_def valid_sorted)
  have head: "printable (module_identity ?m)" "printable (triple (module_target ?m))"
    using valid by (auto simp: valid_module_def intro: printable_graphic graphic_scope graphic_target)
  define types where "types = ''['' @ comma_items True (map catalog_type (module_types ?m)) @ '']''"
  define vals where "vals = ''['' @ comma_items True (map catalog_value (module_values ?m)) @ '']''"
  define calls where "calls = ''['' @ comma_items True (map (catalog_call ?m) (contracts b)) @ '']''"
  define tgt where "tgt = ''{\"triple\":'' @ catalog_quoted (triple (module_target ?m)) @ '',\"pointer_width\":64}''"
  have "says types (NArray (map catalog_type_node (module_types ?m)))" unfolding types_def
    using valid by (intro says_commas says_catalog_type)
      (auto simp: valid_module_def proper_names_def intro: printable_graphic graphic_scope)
  moreover have "says vals (NArray (map catalog_value_node (module_values ?m)))" unfolding vals_def
    by (rule says_commas) (rule says_catalog_values [OF valid])
  moreover have "says calls (NArray (map (catalog_call_node ?m) (contracts b)))" unfolding calls_def
    by (rule says_commas) (rule says_catalog_calls [OF assms(1) _ assms(2)])
  moreover have sixty_four: "says ''64'' (NInt 64)"
    using says_int [of 64] by (simp add: show_int_def show_nat.simps char_of_def bit_Suc_0_iff)
  have "says tgt (NObject [(''triple'', NString (triple (module_target ?m))), (''pointer_width'', NInt 64)])"
    by (rule says_members [where ms = "[(''triple'', catalog_quoted (triple (module_target ?m)), NString (triple (module_target ?m))),
          (''pointer_width'', ''64'', NInt 64)]"])
      (simp_all add: tgt_def head says_printable sixty_four plain_key)
  moreover have "says (CHR 0x22 # ''reflgen.prsm.bindings'' @ [CHR 0x22]) (NString ''reflgen.prsm.bindings'')"
    "says (CHR 0x22 # ''reflgen.prsm.abi.v1'' @ [CHR 0x22]) (NString ''reflgen.prsm.abi.v1'')"
    by (rule says_plain_string; simp add: plain_key)+
  moreover have "says ''1'' (NInt 1)"
    using says_int [of 1] by (simp add: show_int_def show_nat.simps char_of_def bit_Suc_0_iff)
  moreover define ms where "ms = [(''format'', CHR 0x22 # ''reflgen.prsm.bindings'' @ [CHR 0x22], NString ''reflgen.prsm.bindings''),
      (''version'', ''1'', NInt 1), (''abi'', CHR 0x22 # ''reflgen.prsm.abi.v1'' @ [CHR 0x22], NString ''reflgen.prsm.abi.v1''),
      (''module'', catalog_quoted (module_identity ?m), NString (module_identity ?m)),
      (''target'', tgt, NObject [(''triple'', NString (triple (module_target ?m))), (''pointer_width'', NInt 64)]),
      (''types'', types, NArray (map catalog_type_node (module_types ?m)))] @
    (if module_values ?m \<noteq> [] then [(''values'', vals, NArray (map catalog_value_node (module_values ?m)))] else []) @
    [(''callables'', calls, NArray (map (catalog_call_node ?m) (contracts b)))]"
  ultimately have all: "list_all (\<lambda>(key, x, n). list_all plain_char key \<and> says x n) ms"
    using head by (simp add: says_printable plain_key)
  let ?s = "''{'' @ comma_items True (map (\<lambda>(key, x, n). CHR 0x22 # key @ CHR 0x22 # CHR '':'' # x) ms) @ ''}''"
  have "says ?s (catalog_node b)" unfolding catalog_node_def Let_def
    by (rule says_members [OF all _ _ refl]) (simp_all add: ms_def)
  moreover have "emit_prsm_catalog b = ?s @ [CHR 0x0A]"
    by (simp add: emit_prsm_catalog_def ms_def types_def vals_def calls_def tgt_def Let_def)
  ultimately show ?thesis by blast
qed

end
