(* ===== verification/Prsm_Selection.thy ===== *)
theory Prsm_Selection
  imports Prsm_Lowering Catalog_Json
begin

text \<open>
  What lowering promises: nothing is exposed to scripts that its author did not select, symbols
  identify members, and every type and value of a module is declared in the source it refers to.
\<close>

section \<open>Directives\<close>

text \<open>An attribute \<open>[[reflgen::name("argument")]]\<close>.\<close>

definition requests :: "attribute_use list \<Rightarrow> string \<Rightarrow> string \<Rightarrow> bool" where
  "requests attributes name argument \<longleftrightarrow> (\<exists>a\<in>set attributes. attribute_scope a = ''reflgen'' \<and> attribute_name a = name \<and>
     has_arguments a \<and> argument_tokens a = [CHR 0x22 # argument @ [CHR 0x22]])"

lemma literal_token:
  assumes "string_literal a"
  shows "argument_tokens a = [CHR 0x22 # take (length (hd (argument_tokens a)) - 2) (drop 1 (hd (argument_tokens a))) @ [CHR 0x22]]"
proof -
  obtain t where t: "argument_tokens a = [t]" "length t \<ge> 3" "hd t = CHR 0x22" "last t = CHR 0x22"
    using assms by (auto simp: string_literal_def Let_def length_Suc_conv)
  then obtain u where u: "t = CHR 0x22 # u" "u \<noteq> []" by (cases t; cases "tl t") auto
  then have "u = butlast u @ [CHR 0x22]" using t(4) by (metis append_butlast_last_id last_ConsR)
  with u t(1) show ?thesis by (simp add: butlast_conv_take)
qed

lemma policy_from_requests:
  "map_of (fst (policy_from result as)) name = Some v \<Longrightarrow> map_of result name = Some v \<or> requests as name v"
proof (induction result as rule: policy_from.induct)
  case (2 result a as)
  consider (skip) "attribute_scope a \<noteq> ''reflgen'' \<or> \<not> directive (attribute_name a)"
    | (bad) "attribute_scope a = ''reflgen''" "directive (attribute_name a)"
        "\<not> string_literal a \<or> contains result (attribute_name a)"
    | (good) "attribute_scope a = ''reflgen''" "directive (attribute_name a)" "string_literal a" "\<not> contains result (attribute_name a)"
    by blast
  then show ?case
  proof cases
    case good
    define arg where "arg = take (length (hd (argument_tokens a)) - 2) (drop 1 (hd (argument_tokens a)))"
    have IH: "map_of (result @ [(attribute_name a, arg)]) name = Some v \<or> requests as name v"
      using 2(3) [of "hd (argument_tokens a)"] 2(4) good by (simp add: Let_def arg_def)
    have "requests (a # as) (attribute_name a) arg"
      using good literal_token [OF good(3)] by (auto simp: requests_def arg_def string_literal_def)
    with IH show ?thesis by (auto simp: map_of_append map_add_def requests_def split: option.splits if_splits)
  qed (use 2 in \<open>auto simp: requests_def split: prod.splits\<close>)
qed simp

lemma policy_requests: "contains (fst (policy_of as)) name \<Longrightarrow> requests as name (at (fst (policy_of as)) name)"
  using policy_from_requests [of "[]" as name] by (auto simp: contains_def at_def policy_of_def)

section \<open>The parts of a lowered module\<close>

lemma collect_concat: "collect f xs = (concat (map (fst \<circ> f) xs), concat (map (snd \<circ> f) xs))"
  by (induction xs) (simp_all add: split_def Let_def)

lemma lower_classes_concat:
  "lower_classes identity sources selected cs =
     ((concat (map (fst \<circ> fst \<circ> lower_class identity sources selected) cs),
       concat (map (snd \<circ> fst \<circ> lower_class identity sources selected) cs)),
      concat (map (snd \<circ> lower_class identity sources selected) cs))"
  by (induction cs) (simp_all add: split_def Let_def)

lemma has_errors_concat [simp]: "has_errors (concat dss) \<longleftrightarrow> (\<exists>ds\<in>set dss. has_errors ds)"
  by (induction dss) auto

text \<open>The conditions under which a class and a method contribute without an error.\<close>

definition exposed_class :: "class_model \<Rightarrow> bool" where
  "exposed_class c \<longleftrightarrow> requests (class_attributes c) ''interop'' ''prsm'' \<and>
     requests (class_attributes c) ''lifetime'' ''borrowed'' \<and> \<not> class_nested c"

definition exposed_method :: "class_model \<Rightarrow> method_model \<Rightarrow> bool" where
  "exposed_method c m \<longleftrightarrow> requests (method_attributes m) ''interop'' ''prsm'' \<and> method_owner m = class_qualified_name c \<and>
     method_access m = ''public'' \<and> \<not> is_static m \<and> \<not> is_deleted m \<and> \<not> is_consteval m \<and> \<not> is_overloaded m \<and>
     \<not> is_variadic m \<and> \<not> is_volatile m \<and> ref_qualifier m = ''none''"

lemma normal_signature_update: "normal_signature selected (c\<lparr>call_signature := s\<rparr>) = normal_signature selected c"
proof -
  have "parameter_value (c\<lparr>call_signature := s\<rparr>) = parameter_value c" by (rule ext) (simp add: parameter_value_def)
  then show ?thesis by (simp add: normal_signature_def)
qed

lemma lower_call_fields:
  assumes "call = fst (lower_call identity selected c kind m p result)"
  shows "call_receiver call = class_qualified_name c" "call_cpp_name call = method_name m"
    "call_symbol call = call_symbol_of identity (class_qualified_name c) (method_name m)" "call_operation call \<noteq> Owner"
    "call_signature call = normal_signature selected call"
  unfolding assms lower_call_def Let_def split_def fst_conv normal_signature_update by simp_all

lemma lower_method_exposed:
  assumes "call \<in> set (fst (lower_method identity selected c kind m))"
  shows "exposed_method c m \<and> call_receiver call = class_qualified_name c \<and> call_cpp_name call = method_name m \<and>
    call_symbol call = call_symbol_of identity (class_qualified_name c) (method_name m) \<and> call_operation call \<noteq> Owner \<and>
    call_signature call = normal_signature selected call"
proof -
  obtain p ds where p: "policy_of (method_attributes m) = (p, ds)" by fastforce
  have shape: "contains p ''interop''" "at p ''interop'' = ''prsm''" "\<not> unsupported_method c m p"
    using assms by (auto simp: lower_method_def p Let_def split: if_splits)
  then have "requests (method_attributes m) ''interop'' ''prsm''"
    using policy_requests [of "method_attributes m" "''interop''"] by (simp add: p)
  then have exposed: "exposed_method c m" using shape(3) by (simp add: exposed_method_def unsupported_method_def)
  obtain result where result: "call = fst (lower_call identity selected c kind m p result)"
    using assms shape by (auto simp: lower_method_def p split_def Let_def split: option.splits if_splits)
  from exposed lower_call_fields [OF result] show ?thesis by (intro conjI)
qed

lemma lower_class_type:
  assumes "t \<in> set (fst (fst (lower_class identity sources selected c)))"
    and "\<not> has_errors (snd (lower_class identity sources selected c))"
  shows "exposed_class c \<and> type_cpp_name t = class_qualified_name c \<and> type_script_name t = class_qualified_name c \<and>
    (has_headers sources \<longrightarrow> find_source (pos_file (class_position c)) sources = Some (type_source t)) \<and>
    (\<not> has_headers sources \<longrightarrow> type_source t = 0)"
proof -
  obtain p ds where p: "policy_of (class_attributes c) = (p, ds)" by fastforce
  have selected: "selected_class p" using assms(1) by (auto simp: lower_class_def p Let_def split: if_splits)
  then have requested: "requests (class_attributes c) ''interop'' ''prsm''"
    using policy_requests [of "class_attributes c" "''interop''"] by (simp add: p selected_class_def)
  have clean: "\<not> class_nested c" "contains p ''lifetime''" "at p ''lifetime'' = ''borrowed''"
    "(if has_headers sources then find_source (pos_file (class_position c)) sources else Some 0) \<noteq> None"
    using assms(2) selected by (auto simp: lower_class_def p Let_def split_def)
  then have "requests (class_attributes c) ''lifetime'' ''borrowed''"
    using policy_requests [of "class_attributes c" "''lifetime''"] by (simp add: p)
  with requested clean assms(1) selected show ?thesis
    by (auto simp: exposed_class_def lower_class_def p Let_def split_def split: if_splits option.splits)
qed

definition comes_from :: "string \<Rightarrow> class_model \<Rightarrow> callable \<Rightarrow> bool" where
  "comes_from identity c call \<longleftrightarrow>
     (if call_operation call = Owner
      then requests (class_attributes c) ''owner'' (call_script_name call) \<and> call_handle_result call = class_qualified_name c \<and>
        call_cpp_name call = ''binding_owner'' \<and> call_symbol call = owner_symbol_of identity (class_qualified_name c)
      else call_receiver call = class_qualified_name c \<and>
        (\<exists>m\<in>set (methods_of c). exposed_method c m \<and> call_cpp_name call = method_name m) \<and>
        call_symbol call = call_symbol_of identity (class_qualified_name c) (call_cpp_name call))"

lemma lower_class_call:
  assumes "call \<in> set (snd (fst (lower_class identity sources selected c)))"
    and "\<not> has_errors (snd (lower_class identity sources selected c))"
  shows "exposed_class c \<and> comes_from identity c call \<and>
    (call_operation call \<noteq> Owner \<longrightarrow> call_signature call = normal_signature selected call) \<and>
    (call_operation call = Owner \<longrightarrow> call_signature call = ''handle:'' @ class_qualified_name c @ ''()'')"
proof -
  obtain p ds where p: "policy_of (class_attributes c) = (p, ds)" by fastforce
  have selected: "selected_class p" using assms(1) by (auto simp: lower_class_def p Let_def split: if_splits)
  then have "fst (fst (lower_class identity sources selected c)) \<noteq> []"
    by (simp add: lower_class_def p Let_def split_def)
  then have "exposed_class c" using lower_class_type [OF _ assms(2)] by (metis list.set_intros(1) neq_Nil_conv)
  moreover consider "contains p ''owner''" "call = owner_of identity c p"
    | m where "m \<in> set (methods_of c)" "call \<in> set (fst (lower_method identity selected c (receiver_of p) m))"
    using assms(1) selected by (auto simp: lower_class_def p Let_def collect_concat split: if_splits)
  then have "comes_from identity c call \<and>
    (call_operation call \<noteq> Owner \<longrightarrow> call_signature call = normal_signature selected call) \<and>
    (call_operation call = Owner \<longrightarrow> call_signature call = ''handle:'' @ class_qualified_name c @ ''()'')"
  proof cases
    case 1
    with policy_requests [of "class_attributes c" "''owner''"] show ?thesis by (simp add: p comes_from_def owner_of_def)
  next
    case 2
    from lower_method_exposed [OF 2(2)] 2(1) show ?thesis by (auto simp: comes_from_def)
  qed
  ultimately show ?thesis by blast
qed

definition exposed_value :: "value_model \<Rightarrow> bool" where
  "exposed_value a \<longleftrightarrow> requests (alias_attributes a) ''interop'' ''prsm'' \<and> (type_kind (target a) = ''record'' \<or> type_kind (target a) = ''enum'')"

lemma lower_value_exposed:
  assumes "v \<in> set (fst (lower_value sources a))"
  shows "exposed_value a \<and> value_cpp_name v = type_declaration (target a) \<and>
    requests (alias_attributes a) ''value'' (value_script_name v) \<and>
    source_index sources (alias_position a) = Some (value_source v)"
proof -
  obtain p ds where p: "policy_of (alias_attributes a) = (p, ds)" by fastforce
  have shape: "contains p ''interop''" "at p ''interop'' = ''prsm''" "contains p ''value''"
    using assms by (auto simp: lower_value_def p Let_def split: if_splits)
  then have "requests (alias_attributes a) ''interop'' ''prsm''" "requests (alias_attributes a) ''value'' (at p ''value'')"
    using policy_requests [of "alias_attributes a" "''interop''"] policy_requests [of "alias_attributes a" "''value''"]
    by (simp_all add: p)
  with assms shape show ?thesis
    by (auto simp: lower_value_def p Let_def exposed_value_def lower_record_def lower_enumeration_def
      split: if_splits option.splits prod.splits)
qed

section \<open>Symbols\<close>

lemma hex_text_concat:
  "hex_text s = concat (map (\<lambda>c. [''0123456789abcdef'' ! (code_of c div 16), ''0123456789abcdef'' ! (code_of c mod 16)]) s)"
proof -
  have "foldl (\<lambda>result c. result @ [''0123456789abcdef'' ! drop_bit 4 (code_of c), ''0123456789abcdef'' ! (code_of c AND 15)]) r s =
      r @ concat (map (\<lambda>c. [''0123456789abcdef'' ! (code_of c div 16), ''0123456789abcdef'' ! (code_of c mod 16)]) s)" for r
    by (induction s arbitrary: r) (simp_all add: bits drop_bit_eq_div)
  then show ?thesis by (simp add: hex_text_def)
qed

lemma hex_digit_inj: "d < 16 \<Longrightarrow> e < 16 \<Longrightarrow> ''0123456789abcdef'' ! d = ''0123456789abcdef'' ! e \<Longrightarrow> d = e"
  by (rule nth_eq_iff_index_eq [THEN iffD1, of "''0123456789abcdef''"]) simp_all

lemma hex_digit_plain: "d < 16 \<Longrightarrow> ''0123456789abcdef'' ! d \<notin> {CHR ''_'', CHR ''o''}"
proof -
  have "\<forall>c\<in>set ''0123456789abcdef''. c \<notin> {CHR ''_'', CHR ''o''}" by simp
  moreover have "d < 16 \<Longrightarrow> ''0123456789abcdef'' ! d \<in> set ''0123456789abcdef''" by (rule nth_mem) simp
  ultimately show "d < 16 \<Longrightarrow> ?thesis" by blast
qed

lemma high_nibble [simp]: "code_of c div 16 < 16"
  using code_of_less [of c] by (simp add: less_mult_imp_div_less)

lemma hex_text_Cons: "hex_text (c # s) = ''0123456789abcdef'' ! (code_of c div 16) # ''0123456789abcdef'' ! (code_of c mod 16) # hex_text s"
  by (simp add: hex_text_concat)

lemma hex_text_Nil [simp]: "hex_text [] = []"
  by (simp add: hex_text_def)

text \<open>A hexadecimal text ends at the first underscore, so that its string can be read back.\<close>

lemma hex_text_prefix:
  "hex_text s @ CHR ''_'' # r = hex_text t @ CHR ''_'' # q \<Longrightarrow> s = t \<and> r = q"
proof (induction s arbitrary: t)
  case Nil
  then show ?case
    using hex_digit_plain [of "code_of (hd t) div 16"]
    by (cases t) (auto simp: hex_text_Cons)
next
  case (Cons c s)
  show ?case
  proof (cases t)
    case Nil
    with Cons.prems show ?thesis
      using hex_digit_plain [of "code_of c div 16"] by (auto simp: hex_text_Cons)
  next
    case (Cons d t')
    with Cons.prems have eq: "''0123456789abcdef'' ! (code_of c div 16) = ''0123456789abcdef'' ! (code_of d div 16)"
      "''0123456789abcdef'' ! (code_of c mod 16) = ''0123456789abcdef'' ! (code_of d mod 16)"
      "hex_text s @ CHR ''_'' # r = hex_text t' @ CHR ''_'' # q"
      by (simp_all add: hex_text_Cons)
    have "code_of c div 16 = code_of d div 16" "code_of c mod 16 = code_of d mod 16"
      using eq(1,2) by (auto intro!: hex_digit_inj)
    then have "code_of c = code_of d" by (metis div_mult_mod_eq)
    with Cons.IH [OF eq(3)] Cons show ?thesis by (simp add: code_of_inj)
  qed
qed

lemma hex_text_inj: "hex_text s = hex_text t \<Longrightarrow> s = t"
  using hex_text_prefix [of s "[]" t "[]"] by simp

lemma hex_text_no_owner: "hex_text s \<noteq> ''owner''"
proof (cases s)
  case (Cons c t)
  then show ?thesis using hex_digit_plain [of "code_of c div 16"] by (auto simp: hex_text_Cons)
qed simp

lemma call_symbol_inj:
  "call_symbol_of i t m = call_symbol_of i' t' m' \<longleftrightarrow> i = i' \<and> t = t' \<and> m = m'"
  "owner_symbol_of i t = owner_symbol_of i' t' \<longleftrightarrow> i = i' \<and> t = t'"
  "call_symbol_of i t m \<noteq> owner_symbol_of i' t'"
proof -
  show "call_symbol_of i t m = call_symbol_of i' t' m' \<longleftrightarrow> i = i' \<and> t = t' \<and> m = m'"
    by (auto simp: call_symbol_of_def dest!: hex_text_prefix hex_text_inj)
  show "owner_symbol_of i t = owner_symbol_of i' t' \<longleftrightarrow> i = i' \<and> t = t'"
    by (auto simp: owner_symbol_of_def dest!: hex_text_prefix hex_text_inj)
  show "call_symbol_of i t m \<noteq> owner_symbol_of i' t'"
    using hex_text_no_owner by (auto simp: call_symbol_of_def owner_symbol_of_def dest!: hex_text_prefix)
qed

end
