(* ===== verification/Prsm_Properties.thy ===== *)
theory Prsm_Properties
  imports Prsm_Selection
begin

text \<open>
  The properties of the script frontend from declarations to the catalog: the renumbering of
  sources, then lowering, building and emission taken together.
\<close>

section \<open>Renumbering\<close>

definition kept :: "binding_source list \<Rightarrow> renumbering \<Rightarrow> bool" where
  "kept sources r \<longleftrightarrow> (\<forall>s i. fst r s = Some i \<longrightarrow> i < length (snd r) \<and> snd r ! i = sources ! s) \<and>
     (\<forall>i<length (snd r). \<exists>s. fst r s = Some i)"

definition grows :: "renumbering \<Rightarrow> renumbering \<Rightarrow> bool" where
  "grows r r' \<longleftrightarrow> (\<exists>more. snd r' = snd r @ more) \<and> fst r \<subseteq>\<^sub>m fst r'"

lemma grows_refl: "grows r r"
  by (simp add: grows_def)

lemma grows_trans: "grows r q \<Longrightarrow> grows q u \<Longrightarrow> grows r u"
  by (auto simp: grows_def intro: map_le_trans)

lemma grows_at: "grows r r' \<Longrightarrow> fst r s = Some i \<Longrightarrow> fst r' s = Some i"
  unfolding grows_def map_le_def by (metis domI)

lemma keep_kept:
  assumes "keep sources s r = (i, r')" "kept sources r"
  shows "kept sources r' \<and> grows r r' \<and> fst r' s = Some i \<and> dom (fst r') = insert s (dom (fst r))"
proof (cases "fst r s")
  case None
  obtain remap used where r: "r = (remap, used)" by (cases r)
  with None assms(1) have r': "r' = (remap(s \<mapsto> length used), used @ [sources ! s])" "i = length used" by (auto simp: keep_def)
  have "kept sources r'"
    unfolding kept_def r'(1)
  proof (intro conjI allI impI)
    fix t j assume "fst (remap(s \<mapsto> length used), used @ [sources ! s]) t = Some j"
    then show "j < length (snd (remap(s \<mapsto> length used), used @ [sources ! s]))"
      "snd (remap(s \<mapsto> length used), used @ [sources ! s]) ! j = sources ! t"
      using assms(2) r by (auto simp: kept_def nth_append intro: less_SucI split: if_splits)
  next
    fix j assume "j < length (snd (remap(s \<mapsto> length used), used @ [sources ! s]))"
    then have "j = length used \<or> (\<exists>t. remap t = Some j)" using assms(2) r by (auto simp: kept_def less_Suc_eq)
    then show "\<exists>t. fst (remap(s \<mapsto> length used), used @ [sources ! s]) t = Some j"
      using None r by (auto simp: fun_upd_def) (metis option.distinct(1))
  qed
  then show ?thesis using None r r' by (auto simp: grows_def map_le_def dom_def)
qed (use assms in \<open>auto simp: keep_def grows_refl split: prod.splits option.splits\<close>)

lemma keep_types_kept:
  assumes "keep_types sources ts r = (ts', r')" "kept sources r"
  shows "kept sources r' \<and> grows r r' \<and> dom (fst r') = dom (fst r) \<union> type_source ` set ts \<and>
    list_all2 (\<lambda>t t'. t' = t\<lparr>type_source := type_source t'\<rparr> \<and> fst r' (type_source t) = Some (type_source t')) ts ts'"
  using assms
proof (induction ts arbitrary: r ts')
  case Nil
  then show ?case by (simp add: grows_refl)
next
  case (Cons t ts)
  obtain i r1 where k: "keep sources (type_source t) r = (i, r1)" by (cases "keep sources (type_source t) r")
  obtain us where us: "keep_types sources ts r1 = (us, r')" "ts' = t\<lparr>type_source := i\<rparr> # us"
    using Cons.prems(1) k by (auto split: prod.splits)
  note k1 = keep_kept [OF k Cons.prems(2)]
  note IH = Cons.IH [OF us(1) conjunct1 [OF k1]]
  have "fst r' (type_source t) = Some i" using k1 IH by (auto simp: grows_def map_le_def)
  then show ?case using k1 IH us(2) by (auto intro: grows_trans)
qed

lemma keep_values_kept:
  assumes "keep_values sources ts r = (ts', r')" "kept sources r"
  shows "kept sources r' \<and> grows r r' \<and> dom (fst r') = dom (fst r) \<union> value_source ` set ts \<and>
    list_all2 (\<lambda>t t'. t' = t\<lparr>value_source := value_source t'\<rparr> \<and> fst r' (value_source t) = Some (value_source t')) ts ts'"
  using assms
proof (induction ts arbitrary: r ts')
  case Nil
  then show ?case by (simp add: grows_refl)
next
  case (Cons t ts)
  obtain i r1 where k: "keep sources (value_source t) r = (i, r1)" by (cases "keep sources (value_source t) r")
  obtain us where us: "keep_values sources ts r1 = (us, r')" "ts' = t\<lparr>value_source := i\<rparr> # us"
    using Cons.prems(1) k by (auto split: prod.splits)
  note k1 = keep_kept [OF k Cons.prems(2)]
  note IH = Cons.IH [OF us(1) conjunct1 [OF k1]]
  have "fst r' (value_source t) = Some i" using k1 IH by (auto simp: grows_def map_le_def)
  then show ?case using k1 IH us(2) by (auto intro: grows_trans)
qed

lemma list_all2_back: "list_all2 P xs ys \<Longrightarrow> y \<in> set ys \<Longrightarrow> \<exists>x\<in>set xs. P x y"
  by (induction rule: list_all2_induct) auto

lemma list_all2_forth: "list_all2 P xs ys \<Longrightarrow> x \<in> set xs \<Longrightarrow> \<exists>y\<in>set ys. P x y"
  by (induction rule: list_all2_induct) auto

text \<open>
  After renumbering, each type and each value refers to the same source as before, and each
  source that is left is referred to.
\<close>

lemma used_sources_correct:
  defines "m' \<equiv> \<lambda>m. used_sources m"
  shows "t' \<in> set (module_types (m' m)) \<Longrightarrow> \<exists>t\<in>set (module_types m). t' = t\<lparr>type_source := type_source t'\<rparr> \<and>
      type_source t' < length (module_sources (m' m)) \<and> module_sources (m' m) ! type_source t' = module_sources m ! type_source t"
    and "v' \<in> set (module_values (m' m)) \<Longrightarrow> \<exists>v\<in>set (module_values m). v' = v\<lparr>value_source := value_source v'\<rparr> \<and>
      value_source v' < length (module_sources (m' m)) \<and> module_sources (m' m) ! value_source v' = module_sources m ! value_source v"
    and "i < length (module_sources (m' m)) \<Longrightarrow> (\<exists>t'\<in>set (module_types (m' m)). type_source t' = i) \<or>
      (\<exists>v'\<in>set (module_values (m' m)). value_source v' = i)"
    and "module_callables (m' m) = module_callables m" "module_identity (m' m) = module_identity m"
    "module_target (m' m) = module_target m"
proof -
  let ?sources = "module_sources m"
  obtain types r where types: "keep_types ?sources (module_types m) (Map.empty, []) = (types, r)"
    by (cases "keep_types ?sources (module_types m) (Map.empty, [])")
  obtain vals r' where vals: "keep_values ?sources (module_values m) r = (vals, r')"
    by (cases "keep_values ?sources (module_values m) r")
  have m': "m' m = m\<lparr>module_sources := snd r', module_types := types, module_values := vals\<rparr>"
    by (simp add: m'_def used_sources_def types vals split_def)
  have "kept ?sources (Map.empty, [])" by (simp add: kept_def)
  note t = keep_types_kept [OF types this]
  note v = keep_values_kept [OF vals conjunct1 [OF t]]
  have kept: "kept ?sources r'" and later: "\<And>s i. fst r s = Some i \<Longrightarrow> fst r' s = Some i"
    using v grows_at by blast+
  show "module_callables (m' m) = module_callables m" "module_identity (m' m) = module_identity m"
    "module_target (m' m) = module_target m" by (simp_all add: m')
  show "\<exists>t\<in>set (module_types m). t' = t\<lparr>type_source := type_source t'\<rparr> \<and>
      type_source t' < length (module_sources (m' m)) \<and> module_sources (m' m) ! type_source t' = ?sources ! type_source t"
    if t': "t' \<in> set (module_types (m' m))"
  proof -
    obtain x where x: "x \<in> set (module_types m)" "t' = x\<lparr>type_source := type_source t'\<rparr>" "fst r (type_source x) = Some (type_source t')"
      using list_all2_back [OF conjunct2 [OF conjunct2 [OF conjunct2 [OF t]]], of t'] t' by (auto simp: m')
    have "type_source t' < length (snd r') \<and> snd r' ! type_source t' = ?sources ! type_source x"
      using kept later [OF x(3)] by (simp add: kept_def)
    with x(1,2) show ?thesis unfolding m' by (intro bexI [of _ x] conjI) simp_all
  qed
  show "\<exists>v\<in>set (module_values m). v' = v\<lparr>value_source := value_source v'\<rparr> \<and>
      value_source v' < length (module_sources (m' m)) \<and> module_sources (m' m) ! value_source v' = ?sources ! value_source v"
    if v': "v' \<in> set (module_values (m' m))"
  proof -
    obtain x where x: "x \<in> set (module_values m)" "v' = x\<lparr>value_source := value_source v'\<rparr>" "fst r' (value_source x) = Some (value_source v')"
      using list_all2_back [OF conjunct2 [OF conjunct2 [OF conjunct2 [OF v]]], of v'] v' by (auto simp: m')
    have "value_source v' < length (snd r') \<and> snd r' ! value_source v' = ?sources ! value_source x"
      using kept x(3) by (simp add: kept_def)
    with x(1,2) show ?thesis unfolding m' by (intro bexI [of _ x] conjI) simp_all
  qed
  show "(\<exists>t'\<in>set (module_types (m' m)). type_source t' = i) \<or> (\<exists>v'\<in>set (module_values (m' m)). value_source v' = i)"
    if i: "i < length (module_sources (m' m))"
  proof -
    obtain s where s: "fst r' s = Some i" using i kept by (auto simp: m' kept_def)
    then have "s \<in> type_source ` set (module_types m) \<or> s \<in> value_source ` set (module_values m)" using t v by auto
    then show ?thesis
    proof
      assume "s \<in> type_source ` set (module_types m)"
      then obtain x where "x \<in> set (module_types m)" "type_source x = s" by auto
      with list_all2_forth [OF conjunct2 [OF conjunct2 [OF conjunct2 [OF t]]], of x]
      obtain y where "y \<in> set types" "fst r s = Some (type_source y)" by blast
      with s later [of s] show ?thesis unfolding m' by (intro disjI1 bexI [of _ y]) simp_all
    next
      assume "s \<in> value_source ` set (module_values m)"
      then obtain x where "x \<in> set (module_values m)" "value_source x = s" by auto
      with list_all2_forth [OF conjunct2 [OF conjunct2 [OF conjunct2 [OF v]]], of x]
      obtain y where "y \<in> set vals" "fst r' s = Some (value_source y)" by blast
      with s show ?thesis unfolding m' by (intro disjI2 bexI [of _ y]) simp_all
    qed
  qed
qed

section \<open>Lowering and building\<close>

definition built_input :: "module_input \<Rightarrow> module_input" where
  "built_input m = (if (module_types m \<noteq> [] \<or> module_values m \<noteq> []) \<and> has_headers (module_sources m) then used_sources m else m)"

lemma lower_prsm_built:
  assumes "fst (lower_prsm declarations t identity sources report values) = Some b"
  defines "m \<equiv> fst (lowered declarations t identity sources values)"
  shows "\<not> has_errors (snd (lowered declarations t identity sources values))"
    "fst (build_binding_module (built_input m) (report @ snd (lowered declarations t identity sources values))) = Some b"
    "b = module_of (sorted_input (built_input m))" "valid_module (built_input m)"
proof -
  obtain ds where ds: "lowered declarations t identity sources values = (m, ds)"
    unfolding m_def by (cases "lowered declarations t identity sources values") simp
  have "\<exists>m'. fst (build_binding_module m' (report @ ds)) = Some b \<and>
      m' = (if \<not> has_errors (report @ ds) \<and> (module_types m \<noteq> [] \<or> module_values m \<noteq> []) \<and> has_headers (module_sources m)
        then used_sources m else m)"
    using assms(1) by (simp add: lower_prsm_def ds Let_def)
  then obtain m' where m': "fst (build_binding_module m' (report @ ds)) = Some b"
    "m' = (if \<not> has_errors (report @ ds) \<and> (module_types m \<noteq> [] \<or> module_values m \<noteq> []) \<and> has_headers (module_sources m)
        then used_sources m else m)" by blast
  have built: "\<not> has_errors (report @ ds)" "valid_module m'" "b = module_of (sorted_input m')"
    using m'(1) by (auto simp: build_iff split: if_splits)
  then have same: "m' = built_input m" by (simp add: m'(2) built_input_def)
  show "\<not> has_errors (snd (lowered declarations t identity sources values))" using built(1) ds by simp
  show "fst (build_binding_module (built_input m) (report @ snd (lowered declarations t identity sources values))) = Some b"
    using m'(1) same ds by simp
  show "b = module_of (sorted_input (built_input m))" "valid_module (built_input m)" using built(2,3) same by simp_all
qed

lemma built_input_callables [simp]: "module_callables (built_input m) = module_callables m"
  by (simp add: built_input_def used_sources_correct)

lemma lowered_origin:
  assumes "\<not> has_errors (snd (lowered declarations t identity sources values))"
  defines "m \<equiv> fst (lowered declarations t identity sources values)"
  shows "x \<in> set (module_types m) \<Longrightarrow> \<exists>c\<in>set declarations. x \<in> set (fst (fst (lower_class identity sources (module_values m) c))) \<and>
      \<not> has_errors (snd (lower_class identity sources (module_values m) c))"
    and "call \<in> set (module_callables m) \<Longrightarrow>
      \<exists>c\<in>set declarations. call \<in> set (snd (fst (lower_class identity sources (module_values m) c))) \<and>
      \<not> has_errors (snd (lower_class identity sources (module_values m) c))"
    and "v \<in> set (module_values m) \<Longrightarrow> \<exists>a\<in>set values. v \<in> set (fst (lower_value sources a))"
    and "module_sources m = sources" "module_identity m = identity"
  using assms by (auto simp: lowered_def Let_def collect_concat lower_classes_concat)

lemma keep_values_names: "map value_cpp_name (fst (keep_values sources vs r)) = map value_cpp_name vs"
  by (induction vs arbitrary: r) (simp_all add: split_def Let_def)

lemma keep_types_names: "map type_cpp_name (fst (keep_types sources ts r)) = map type_cpp_name ts"
  by (induction ts arbitrary: r) (simp_all add: split_def Let_def)

lemma built_input_type_names: "type_cpp_name ` set (module_types (built_input m)) = type_cpp_name ` set (module_types m)"
proof -
  have "map type_cpp_name (module_types (used_sources m)) = map type_cpp_name (module_types m)"
    by (simp add: used_sources_def split_def Let_def keep_types_names)
  then have "set (map type_cpp_name (module_types (used_sources m))) = set (map type_cpp_name (module_types m))" by simp
  then show ?thesis by (simp add: built_input_def)
qed

lemma built_input_value_names: "value_cpp_name ` set (module_values (built_input m)) = value_cpp_name ` set (module_values m)"
proof -
  have "map value_cpp_name (module_values (used_sources m)) = map value_cpp_name (module_values m)"
    by (simp add: used_sources_def split_def Let_def keep_values_names)
  then have "set (map value_cpp_name (module_values (used_sources m))) = set (map value_cpp_name (module_values m))" by simp
  then show ?thesis by (simp add: built_input_def)
qed

text \<open>The signature of a lowered call is printable ASCII.\<close>

lemma graphic_commas: "list_all (list_all graphic) xs \<Longrightarrow> list_all graphic (comma_items first xs)"
  by (induction first xs rule: comma_items.induct) (simp_all add: graphic_def code_of_def)

lemma graphic_signature:
  assumes "\<And>t name. list_all graphic (slot_token selected t name)"
  shows "list_all graphic (normal_signature selected c)"
proof -
  have "list_all graphic (comma_items True (map (\<lambda>i. slot_token selected (call_parameters c ! i) (parameter_value c i))
      [0..<length (call_parameters c)]))"
    by (rule graphic_commas) (simp add: list_all_iff assms [unfolded list_all_iff])
  with assms show ?thesis by (simp add: normal_signature_def graphic_def code_of_def)
qed

lemma graphic_slots:
  assumes "\<forall>v\<in>set selected. list_all graphic (value_cpp_name v)"
  shows "list_all graphic (slot_token selected t name)"
proof -
  have "list_all graphic ''value:''" "list_all graphic ''enum:''" by (simp_all add: graphic_def code_of_def)
  with assms show ?thesis
    by (auto simp: slot_token_def find_value_def find_Some_iff graphic_scalar split: option.split)
qed

lemma lowered_signature:
  assumes "fst (lower_prsm declarations t identity sources report values) = Some b" "k \<in> set (contracts b)"
  shows "validate_utf8 (call_signature (contract_call k)) = Inr ()"
proof -
  define m where "m = fst (lowered declarations t identity sources values)"
  note built = lower_prsm_built [OF assms(1), folded m_def]
  have valid: "valid_module (built_input m)" by (rule built(4))
  have "list_all graphic (value_cpp_name v)" if "v \<in> set (module_values m)" for v
  proof -
    have "value_cpp_name v \<in> value_cpp_name ` set (module_values (built_input m))"
      using that by (simp add: built_input_value_names)
    then show ?thesis using valid by (auto simp: valid_module_def proper_names_def intro: graphic_scope)
  qed
  then have slots: "list_all graphic (slot_token (module_values m) t name)" for t name by (simp add: graphic_slots)
  have call: "contract_call k \<in> set (module_callables m)"
    using assms(2) built(3) by (auto simp: module_of_def sorted_input_def contract_of_def Let_def)
  then obtain c where c: "contract_call k \<in> set (snd (fst (lower_class identity sources (module_values m) c)))"
    "\<not> has_errors (snd (lower_class identity sources (module_values m) c))"
    using lowered_origin(2) [OF built(1), folded m_def] by blast
  note origin = lower_class_call [OF c]
  have "list_all graphic (call_signature (contract_call k))"
  proof (cases "call_operation (contract_call k) = Owner")
    case False
    with origin have "call_signature (contract_call k) = normal_signature (module_values m) (contract_call k)" by blast
    then show ?thesis using graphic_signature [OF slots] by simp
  next
    case True
    have "call_report (built_input m) (contract_call k) = []"
      using valid call by (auto simp: valid_module_def)
    with True have "receiver_kinds (module_types (built_input m)) (call_handle_result (contract_call k)) \<noteq> None"
      by (simp add: call_report_def check_owner_def)
    then obtain x where "x \<in> set (module_types (built_input m))" "type_cpp_name x = call_handle_result (contract_call k)"
      by (auto simp: receiver_kinds_eq map_of_eq_None_iff dest!: map_of_SomeD)
    moreover from this valid have "qualified_name ''::'' (type_cpp_name x)" by (auto simp: valid_module_def proper_names_def)
    ultimately have "list_all graphic (call_handle_result (contract_call k))" using graphic_scope by metis
    moreover have "call_handle_result (contract_call k) = class_qualified_name c"
      using True origin by (simp add: comes_from_def)
    ultimately show ?thesis using True origin by (simp add: graphic_def code_of_def)
  qed
  from printable_graphic [OF this] show ?thesis by (simp add: printable_def)
qed

section \<open>A sample declaration\<close>

definition attribute :: "string \<Rightarrow> string \<Rightarrow> attribute_use" where
  "attribute name argument = \<lparr>attribute_expression = [], attribute_position = nowhere, attribute_scope = ''reflgen'',
     attribute_name = name, has_arguments = True, argument_tokens = [CHR 0x22 # argument @ [CHR 0x22]]\<rparr>"

definition int_type :: declaration_type where
  "int_type = Declaration_Type ''int'' ''int'' ''signed_integer'' [] False False 4 None None (-1) None 4 None [] [] False False ''none''"

definition void_type :: declaration_type where
  "void_type = Declaration_Type ''void'' ''void'' ''void'' [] False False (-1) None None (-1) None (-1) None [] [] False False ''none''"

definition damage_method :: method_model where
  "damage_method = \<lparr>method_name = ''damage'', method_parameters = [''amount''], method_position = nowhere,
     method_attributes = [attribute ''interop'' ''prsm''], return_type = void_type,
     parameter_declarations = [\<lparr>parameter_name = ''amount'', parameter_type = int_type, parameter_position = nowhere\<rparr>],
     method_owner = ''actor'', method_access = ''public'', is_static = False, is_const = False, is_volatile = False,
     is_variadic = False, ref_qualifier = ''none'', signature = ''void (int)'', calling_convention = ''c'',
     exception_specification = ''none'', is_overloaded = False, is_deleted = False, qualifiers_known = True,
     is_consteval = False, declaration_specifiers_known = True, pointer_type = []\<rparr>"

definition actor_class :: class_model where
  "actor_class = \<lparr>class_qualified_name = ''actor'', class_name = ''actor'', class_key = ''class'', class_schema_name = ''actor'',
     class_namespaces = [], bases = [], fields_of = [], methods_of = [damage_method],
     class_attributes = [attribute ''interop'' ''prsm'', attribute ''lifetime'' ''borrowed'', attribute ''owner'' ''Player''],
     class_position = nowhere\<lparr>pos_file := ''actor.h''\<rparr>, class_nested = False, external_names = [],
     required_header_reason = [], runtime_only = False, public_fields = False\<rparr>"

definition linux_target :: target_model where
  "linux_target = \<lparr>triple = ''x86_64-unknown-linux-gnu'', pointer_width = 64\<rparr>"

definition two_sources :: "binding_source list" where
  "two_sources = [\<lparr>source_kind = Header, source_name = ''other.h''\<rparr>, \<lparr>source_kind = Header, source_name = ''actor.h''\<rparr>]"

definition damage_call :: callable where
  "damage_call = \<lparr>call_receiver = ''actor'', call_cpp_name = ''damage'', call_signature = ''void(int32)'',
     call_script_name = ''damage'', call_symbol = call_symbol_of ''game'' ''actor'' ''damage'', call_operation = Method,
     call_effect = Write, call_result = Void, call_parameters = [Int32], call_position = nowhere, call_is_const = False,
     call_is_noexcept = False, call_native_result = ''void'', call_native_parameters = [''int''], call_handle_result = [],
     call_receiver_kind = Handle, call_result_value = [], call_parameter_values = []\<rparr>"

definition actor_owner :: callable where
  "actor_owner = \<lparr>call_receiver = [], call_cpp_name = ''binding_owner'', call_signature = ''handle:actor()'',
     call_script_name = ''Player'', call_symbol = owner_symbol_of ''game'' ''actor'', call_operation = Owner, call_effect = Read,
     call_result = Uint64, call_parameters = [], call_position = nowhere\<lparr>pos_file := ''actor.h''\<rparr>, call_is_const = False,
     call_is_noexcept = False, call_native_result = [], call_native_parameters = [],
     call_handle_result = ''actor'', call_receiver_kind = Handle, call_result_value = [], call_parameter_values = []\<rparr>"

definition actor_input :: module_input where
  "actor_input = \<lparr>module_identity = ''game'', module_target = linux_target,
     module_sources = [\<lparr>source_kind = Header, source_name = ''actor.h''\<rparr>],
     module_types = [\<lparr>type_cpp_name = ''actor'', type_script_name = ''actor'', type_source = 0, type_receiver = Handle\<rparr>],
     module_values = [], module_callables = [actor_owner, damage_call]\<rparr>"

lemma attribute_simps [simp]:
  "attribute_scope (attribute n v) = ''reflgen''" "attribute_name (attribute n v) = n"
  "argument_tokens (attribute n v) = [CHR 0x22 # v @ [CHR 0x22]]" "has_arguments (attribute n v)"
  by (simp_all add: attribute_def)

lemma policy_of_single: "policy_of [attribute ''interop'' ''prsm''] = ([(''interop'', ''prsm'')], [])"
  by (simp add: policy_of_def directive_def string_literal_def contains_def Let_def)

lemma policy_of_actor:
  "policy_of (class_attributes actor_class) = ([(''interop'', ''prsm''), (''lifetime'', ''borrowed''), (''owner'', ''Player'')], [])"
  by (simp add: actor_class_def policy_of_def directive_def string_literal_def contains_def Let_def)

lemma lower_damage: "lower_method ''game'' [] actor_class Handle damage_method = ([damage_call], [])"
proof -
  have p: "policy_of (method_attributes damage_method) = ([(''interop'', ''prsm'')], [])"
    by (simp add: damage_method_def policy_of_single)
  have r: "value_slot_of [] (return_type damage_method) = []" "scalar_of (return_type damage_method) = Some Void"
    by (simp_all add: damage_method_def void_type_def value_slot_of_def slot_target_def scalar_of_def)
  have x: "lower_parameters [] (parameter_declarations damage_method) = ([(Int32, [], ''int'')], [])"
    by (simp add: damage_method_def int_type_def value_slot_of_def slot_target_def scalar_of_def integer_scalar_def)
  show ?thesis
    by (simp add: lower_method_def p r x lower_call_def contains_def at_def unsupported_method_def normal_signature_def
      slot_token_def parameter_value_def error_when_def Let_def damage_call_def)
       (simp add: damage_method_def actor_class_def void_type_def)
qed

lemma lower_actor:
  "lower_class ''game'' two_sources [] actor_class =
     (([\<lparr>type_cpp_name = ''actor'', type_script_name = ''actor'', type_source = 1, type_receiver = Handle\<rparr>],
       [actor_owner, damage_call]), [])"
proof -
  have "methods_of actor_class = [damage_method]" "class_qualified_name actor_class = ''actor''" "\<not> class_nested actor_class"
    "pos_file (class_position actor_class) = ''actor.h''" "class_position actor_class = nowhere\<lparr>pos_file := ''actor.h''\<rparr>"
    by (simp_all add: actor_class_def)
  then show ?thesis
    by (simp add: lower_class_def policy_of_actor contains_def at_def selected_class_def receiver_of_def lower_damage
      owner_of_def actor_owner_def two_sources_def has_headers_def error_when_def)
qed

definition actor_module :: binding_module where
  "actor_module = module_of (sorted_input actor_input)"

lemma sample_hex: "hex_text ''game'' = ''67616d65''" "hex_text ''actor'' = ''6163746f72''" "hex_text ''damage'' = ''64616d616765''"
  by (simp_all add: hex_text_concat code_of_def)

lemma sample_symbols:
  "call_symbol_of ''game'' ''actor'' ''damage'' = ''ce_prsm_bind_67616d65_6163746f72_64616d616765''"
  "owner_symbol_of ''game'' ''actor'' = ''ce_prsm_bind_67616d65_6163746f72_owner''"
  by (simp_all add: call_symbol_of_def owner_symbol_of_def sample_hex)

lemmas sample_text = plain_text_def cpp_identifier_def qualified_name.simps is_letter_def is_digit_def code_of_def Strings.starts_with_def

lemma sample_plain:
  "plain_text ''game'' \<and> qualified_name ''::'' ''game''" "plain_text ''actor.h''"
  "plain_text ''actor'' \<and> qualified_name ''::'' ''actor''" "plain_text ''Player'' \<and> qualified_name ''::'' ''Player''"
  "plain_text ''damage'' \<and> cpp_identifier ''damage''" "plain_text ''binding_owner'' \<and> cpp_identifier ''binding_owner''"
  "plain_text ''void(int32)''" "plain_text ''handle:actor()''"
  "plain_text ''ce_prsm_bind_67616d65_6163746f72_64616d616765'' \<and> cpp_identifier ''ce_prsm_bind_67616d65_6163746f72_64616d616765''"
  "plain_text ''ce_prsm_bind_67616d65_6163746f72_owner'' \<and> cpp_identifier ''ce_prsm_bind_67616d65_6163746f72_owner''"
  by (simp_all add: sample_text)

lemma actor_calls:
  "proper_call (receiver_kinds (module_types actor_input)) damage_call" "call_report actor_input damage_call = []"
  "proper_call (receiver_kinds (module_types actor_input)) actor_owner" "call_report actor_input actor_owner = []"
proof -
  have kinds: "receiver_kinds (module_types actor_input) = [''actor'' \<mapsto> Handle]"
    by (simp add: receiver_kinds_def actor_input_def)
  show "proper_call (receiver_kinds (module_types actor_input)) damage_call"
    "proper_call (receiver_kinds (module_types actor_input)) actor_owner"
    using sample_plain by (simp_all add: kinds proper_call_def damage_call_def actor_owner_def sample_symbols Strings.starts_with_def)
  show "call_report actor_input damage_call = []" "call_report actor_input actor_owner = []"
    by (simp_all add: call_report_def kinds check_slots_def check_owner_def check_operation_def value_slot_def find_value_def
      parameter_value_def void_result_def has_values_def native_types_def damage_call_def actor_owner_def)
qed

lemma actor_valid: "valid_module actor_input"
proof -
  have members: "proper_members actor_input"
    by (simp add: proper_members_def member_key_def actor_input_def damage_call_def actor_owner_def)
  have calls: "module_callables actor_input = [actor_owner, damage_call]" by (simp add: actor_input_def)
  have names: "global_names actor_input = [''actor'', ''Player'']" "cpp_names actor_input = [''actor'']"
    "map call_symbol [actor_owner, damage_call] = [''ce_prsm_bind_67616d65_6163746f72_owner'', ''ce_prsm_bind_67616d65_6163746f72_64616d616765'']"
    "map cpp_member [actor_owner, damage_call] = [(''owner:actor'', ''binding_owner''), (''actor'', ''damage'')]"
    by (simp_all add: global_names_def script_names_def cpp_names_def owner_names_def cpp_member_def actor_input_def
      damage_call_def actor_owner_def sample_symbols)
  show ?thesis
    unfolding valid_module_def names calls
    using sample_plain actor_calls members
    by (simp add: over_budget_def module_targets_def proper_source_def proper_names_def reserved_names_def clash_def
      Strings.starts_with_def names actor_input_def linux_target_def)
qed

lemma actor_lowered:
  "lowered [actor_class] linux_target ''game'' two_sources [] =
     (actor_input\<lparr>module_sources := two_sources,
        module_types := [\<lparr>type_cpp_name = ''actor'', type_script_name = ''actor'', type_source = 1, type_receiver = Handle\<rparr>]\<rparr>, [])"
  by (simp add: lowered_def lower_actor actor_input_def normal_target_def windows_profile_def linux_target_def Strings.starts_with_def)

lemma actor_used:
  "used_sources (actor_input\<lparr>module_sources := two_sources,
      module_types := [\<lparr>type_cpp_name = ''actor'', type_script_name = ''actor'', type_source = 1, type_receiver = Handle\<rparr>]\<rparr>) = actor_input"
  by (simp add: used_sources_def keep_def two_sources_def actor_input_def)

lemma actor_built: "fst (lower_prsm [actor_class] linux_target ''game'' two_sources [] []) = Some actor_module"
proof -
  have "has_headers two_sources" by (simp add: two_sources_def has_headers_def)
  then show ?thesis
    by (simp add: lower_prsm_def actor_lowered actor_used [simplified] build_iff actor_valid actor_module_def Let_def)
qed

section \<open>Origins\<close>

definition class_of :: "callable \<Rightarrow> string" where
  "class_of call = (if call_operation call = Owner then call_handle_result call else call_receiver call)"

lemma lowered_call:
  assumes "fst (lower_prsm declarations t identity sources report values) = Some b" "k \<in> set (contracts b)"
  shows "\<exists>c\<in>set declarations. exposed_class c \<and> comes_from identity c (contract_call k)"
proof -
  define m where "m = fst (lowered declarations t identity sources values)"
  note built = lower_prsm_built [OF assms(1), folded m_def]
  have "contract_call k \<in> set (module_callables m)"
    using assms(2) built(3) by (auto simp: module_of_def sorted_input_def contract_of_def Let_def)
  with lowered_origin(2) [OF built(1), folded m_def] lower_class_call show ?thesis by blast
qed

lemma find_source_name: "find_source name ss = Some i \<Longrightarrow> i < length ss \<and> source_name (ss ! i) = name"
  by (induction ss arbitrary: i) (auto split: if_splits)

section \<open>Properties\<close>

text \<open>C22: Scripts see only what its author selected. Every call of a module that the frontend lowers and the builder accepts
  comes from a class that carries \<open>interop("prsm")\<close> and \<open>lifetime("borrowed")\<close> and is not nested: it is the
  owner function that the class asks for, or a method of the class that carries \<open>interop("prsm")\<close> itself
  and is public, not static, deleted, consteval, overloaded, variadic, volatile or ref-qualified. Types and
  values are selected in the same way.\<close>

theorem exposed_by_author:
  assumes "fst (lower_prsm declarations t identity sources report values) = Some b"
  shows "(\<forall>k\<in>set (contracts b). \<exists>c\<in>set declarations. exposed_class c \<and> comes_from identity c (contract_call k)) \<and>
    (\<forall>x\<in>set (module_types (input_of b)). \<exists>c\<in>set declarations. exposed_class c \<and> type_cpp_name x = class_qualified_name c) \<and>
    (\<forall>v\<in>set (module_values (input_of b)). \<exists>a\<in>set values. exposed_value a \<and> value_cpp_name v = type_declaration (target a))"
proof -
  define m where "m = fst (lowered declarations t identity sources values)"
  note built = lower_prsm_built [OF assms, folded m_def]
  note origin = lowered_origin [OF built(1), folded m_def]
  have b: "set (module_types (input_of b)) = set (module_types (built_input m))"
    "set (module_values (input_of b)) = set (module_values (built_input m))"
    by (simp_all add: built(3) module_of_def sorted_input_def contract_of_def Let_def image_image)
  have types: "\<exists>y\<in>set (module_types m). type_cpp_name x = type_cpp_name y" if "x \<in> set (module_types (built_input m))" for x
  proof -
    have "type_cpp_name x \<in> type_cpp_name ` set (module_types m)" using that built_input_type_names [of m] by blast
    then show ?thesis by auto
  qed
  have vals: "\<exists>y\<in>set (module_values m). value_cpp_name v = value_cpp_name y" if "v \<in> set (module_values (built_input m))" for v
  proof -
    have "value_cpp_name v \<in> value_cpp_name ` set (module_values m)" using that built_input_value_names [of m] by blast
    then show ?thesis by auto
  qed
  have "\<exists>c\<in>set declarations. exposed_class c \<and> comes_from identity c (contract_call k)" if "k \<in> set (contracts b)" for k
    by (rule lowered_call [OF assms that])
  moreover have "\<exists>c\<in>set declarations. exposed_class c \<and> type_cpp_name x = class_qualified_name c"
    if x: "x \<in> set (module_types (input_of b))" for x
  proof -
    obtain y where y: "y \<in> set (module_types m)" "type_cpp_name x = type_cpp_name y" using types x b(1) by auto
    from origin(1) [OF y(1)] lower_class_type y(2) show ?thesis by metis
  qed
  moreover have "\<exists>a\<in>set values. exposed_value a \<and> value_cpp_name v = type_declaration (target a)"
    if v: "v \<in> set (module_values (input_of b))" for v
  proof -
    obtain y where y: "y \<in> set (module_values m)" "value_cpp_name v = value_cpp_name y" using vals v b(2) by auto
    from origin(3) [OF y(1)] lower_value_exposed y(2) show ?thesis by metis
  qed
  ultimately show ?thesis by blast
qed

theorem exposed_by_author_witness:
  "\<exists>m\<in>set (methods_of actor_class). exposed_method actor_class m \<and> method_name m = ''damage''"
proof -
  have "contract_of (sorted_input actor_input) damage_call \<in> set (contracts actor_module)"
    by (auto simp: actor_module_def module_of_def sorted_input_def actor_input_def)
  with exposed_by_author [OF actor_built]
  have "comes_from ''game'' actor_class (contract_call (contract_of (sorted_input actor_input) damage_call))" by auto
  then show ?thesis by (auto simp: comes_from_def contract_of_def Let_def damage_call_def)
qed

text \<open>C23: The symbol of a call identifies it. For two calls of lowered modules, of the same or of different ones, the
  symbols are equal exactly when the calls belong to the same module and the same class and are both its owner
  function or methods of the same name; so that no choice of names makes two libraries define the same symbol.\<close>

theorem symbols_identify_members:
  assumes "fst (lower_prsm declarations t identity sources report values) = Some b" "k \<in> set (contracts b)"
    and "fst (lower_prsm declarations' t' identity' sources' report' values') = Some b'" "k' \<in> set (contracts b')"
  shows "call_symbol (contract_call k) = call_symbol (contract_call k') \<longleftrightarrow>
    identity = identity' \<and> class_of (contract_call k) = class_of (contract_call k') \<and>
    (call_operation (contract_call k) = Owner \<longleftrightarrow> call_operation (contract_call k') = Owner) \<and>
    call_cpp_name (contract_call k) = call_cpp_name (contract_call k')"
proof -
  note origin = lowered_call [OF assms(1,2)] lowered_call [OF assms(3,4)]
  then show ?thesis
    by (cases "call_operation (contract_call k) = Owner"; cases "call_operation (contract_call k') = Owner")
      (auto simp: comes_from_def class_of_def call_symbol_inj call_symbol_inj(3) [symmetric])
qed

theorem symbols_identify_members_witness:
  "call_symbol_of ''game'' ''actor'' ''damage'' \<noteq> owner_symbol_of ''game'' ''actor''"
proof -
  have "contract_of (sorted_input actor_input) c \<in> set (contracts actor_module)" if "c \<in> {damage_call, actor_owner}" for c
    using that by (auto simp: actor_module_def module_of_def sorted_input_def actor_input_def)
  from symbols_identify_members [OF actor_built this actor_built this, of damage_call actor_owner]
  show ?thesis by (simp add: contract_of_def Let_def damage_call_def actor_owner_def)
qed

text \<open>C24: Every type and value of a module refers to the source that declares it, and a bridge includes nothing else: when a
  module is lowered from headers, the source of each type is the header that its class stands in, the source of each
  value the header of its alias, and, if there is any type or value, each source that is left is the source of one of them. Where nothing
  is selected, all the given sources are kept, as they were given.\<close>

theorem declared_in_source:
  assumes "fst (lower_prsm declarations t identity sources report values) = Some b" "has_headers sources"
  shows "(\<forall>x\<in>set (module_types (input_of b)). type_source x < length (module_sources (input_of b)) \<and>
      (\<exists>c\<in>set declarations. type_cpp_name x = class_qualified_name c \<and>
        source_name (module_sources (input_of b) ! type_source x) = pos_file (class_position c))) \<and>
    (\<forall>v\<in>set (module_values (input_of b)). value_source v < length (module_sources (input_of b)) \<and>
      (\<exists>a\<in>set values. value_cpp_name v = type_declaration (target a) \<and>
        source_name (module_sources (input_of b) ! value_source v) = pos_file (alias_position a))) \<and>
    (if module_types (input_of b) = [] \<and> module_values (input_of b) = [] then module_sources (input_of b) = sources
     else \<forall>i<length (module_sources (input_of b)). (\<exists>x\<in>set (module_types (input_of b)). type_source x = i) \<or>
        (\<exists>v\<in>set (module_values (input_of b)). value_source v = i))"
proof -
  define m where "m = fst (lowered declarations t identity sources values)"
  note built = lower_prsm_built [OF assms(1), folded m_def]
  note origin = lowered_origin [OF built(1), folded m_def]
  have b: "set (module_types (input_of b)) = set (module_types (built_input m))"
    "set (module_values (input_of b)) = set (module_values (built_input m))"
    "module_sources (input_of b) = module_sources (built_input m)"
    by (simp_all add: built(3) module_of_def sorted_input_def)
  show ?thesis
  proof (cases "module_types m \<noteq> [] \<or> module_values m \<noteq> []")
    case True
    then have used: "built_input m = used_sources m" using assms(2) origin(4) by (simp add: built_input_def)
    have "type_source x < length (module_sources (used_sources m)) \<and>
      (\<exists>c\<in>set declarations. type_cpp_name x = class_qualified_name c \<and>
        source_name (module_sources (used_sources m) ! type_source x) = pos_file (class_position c))"
      if x: "x \<in> set (module_types (used_sources m))" for x
    proof -
      obtain y where y: "y \<in> set (module_types m)" "x = y\<lparr>type_source := type_source x\<rparr>"
        "type_source x < length (module_sources (used_sources m))"
        "module_sources (used_sources m) ! type_source x = sources ! type_source y"
        using used_sources_correct(1) [OF x] origin(4) by auto
      obtain c where c: "c \<in> set declarations" "y \<in> set (fst (fst (lower_class identity sources (module_values m) c)))"
        "\<not> has_errors (snd (lower_class identity sources (module_values m) c))" using origin(1) [OF y(1)] by blast
      have "type_cpp_name x = type_cpp_name y" by (subst y(2)) simp
      with lower_class_type [OF c(2,3)] assms(2) find_source_name y(3,4) c(1) show ?thesis by (intro conjI bexI [of _ c]) auto
    qed
    moreover have "value_source v < length (module_sources (used_sources m)) \<and>
      (\<exists>a\<in>set values. value_cpp_name v = type_declaration (target a) \<and>
        source_name (module_sources (used_sources m) ! value_source v) = pos_file (alias_position a))"
      if v: "v \<in> set (module_values (used_sources m))" for v
    proof -
      obtain y where y: "y \<in> set (module_values m)" "v = y\<lparr>value_source := value_source v\<rparr>"
        "value_source v < length (module_sources (used_sources m))"
        "module_sources (used_sources m) ! value_source v = sources ! value_source y"
        using used_sources_correct(2) [OF v] origin(4) by auto
      obtain a where a: "a \<in> set values" "y \<in> set (fst (lower_value sources a))" using origin(3) [OF y(1)] by blast
      have "value_cpp_name v = value_cpp_name y" by (subst y(2)) simp
      with lower_value_exposed [OF a(2)] assms(2) find_source_name y(3,4) a(1) show ?thesis
        by (intro conjI bexI [of _ a]) (auto simp: source_index_def)
    qed
    moreover have "\<not> (module_types (input_of b) = [] \<and> module_values (input_of b) = [])"
    proof
      assume "module_types (input_of b) = [] \<and> module_values (input_of b) = []"
      then have "type_cpp_name ` set (module_types m) = {}" "value_cpp_name ` set (module_values m) = {}"
        using built_input_type_names [of m] built_input_value_names [of m] by (simp_all flip: b(1,2))
      with True show False by simp
    qed
    ultimately show ?thesis using used_sources_correct(3) [of _ m] by (simp only: if_False) (auto simp: b used)
  next
    case False
    then have "module_types (input_of b) = []" "module_values (input_of b) = []" "module_sources (input_of b) = sources"
      using b origin(4) by (auto simp: built_input_def)
    then show ?thesis by simp
  qed
qed

theorem declared_in_source_witness:
  "source_name (module_sources (input_of actor_module) ! 0) = ''actor.h''"
proof -
  have "has_headers two_sources" by (simp add: two_sources_def has_headers_def)
  from declared_in_source [OF actor_built this] show ?thesis
    by (auto simp: actor_module_def module_of_def sorted_input_def actor_input_def actor_class_def)
qed

text \<open>C25: The catalog of every module that is lowered and built is one JSON text and a newline. The text denotes the
  contracts of the module: each type, value with its layout or cases, and call, with the token of each slot
  and the digest of its ABI. Although the catalog escapes only quotes and backslashes, no name or signature that
  passed the builder can break it.\<close>

theorem catalog_is_json:
  assumes "fst (lower_prsm declarations t identity sources report values) = Some b"
  shows "\<exists>tree. json_valid tree \<and> denotes tree (catalog_node b) \<and> emit_prsm_catalog b = json_text tree @ [CHR 0x0A]"
proof -
  note built = lower_prsm_built [OF assms]
  from says_catalog [OF built(2)] lowered_signature [OF assms] show ?thesis by (auto simp: says_def)
qed

theorem catalog_is_json_witness: "\<exists>tree. json_valid tree \<and> emit_prsm_catalog actor_module = json_text tree @ [CHR 0x0A]"
  using catalog_is_json [OF actor_built] by blast

text \<open>C27: The document of declarations is one JSON text and a newline for every model whose strings are UTF-8, control
  characters and all; it denotes exactly the module's name, target and declarations, and it does not depend
  on the order in which the build system lists headers with different paths.\<close>

theorem declarations_are_json:
  assumes "expressible (declarations_node identity headers t)" "mset headers' = mset headers" "distinct (map header_path headers)"
  shows "\<exists>tree. json_valid tree \<and> denotes tree (declarations_node identity headers t) \<and>
    emit_declarations_json identity headers' t = json_text tree @ [CHR 0x0A]"
proof -
  have "sort_key header_path headers' = sort_key header_path headers"
    using assms(2,3) by (intro sort_key_unique) (simp_all add: distinct_map flip: mset_eq_setD [OF assms(2)])
  then have "emit_declarations_json identity headers' t = emit_declarations_json identity headers t"
    by (simp add: emit_declarations_json_def)
  with says_declarations [OF assms(1)] show ?thesis by (auto simp: says_def)
qed

theorem declarations_are_json_witness:
  "\<exists>tree. json_valid tree \<and> emit_declarations_json ''game''
     [\<lparr>header_path = ''b.h'', classes = [], enums = []\<rparr>, \<lparr>header_path = ''a.h'', classes = [actor_class], enums = []\<rparr>] linux_target =
     json_text tree @ [CHR 0x0A]"
proof -
  let ?a = "\<lparr>header_path = ''a.h'', classes = [actor_class], enums = []\<rparr>"
  let ?b = "\<lparr>header_path = ''b.h'', classes = [], enums = []\<rparr>"
  have "expressible (class_node actor_class)"
    by (simp add: class_node_def actor_class_def method_node_def damage_method_def attribute_node_def attribute_def
      parameter_node_def int_type_def void_type_def source_node_def nowhere_def ascii_utf8)
  then have "expressible (declarations_node ''game'' [?a, ?b] linux_target)"
    by (simp add: declarations_node_def header_node_def linux_target_def ascii_utf8)
  from declarations_are_json [OF this, of "[?b, ?a]"] show ?thesis by (auto simp: add_mset_commute)
qed

end
