(* ===== verification/Interop_Lowering.thy ===== *)
theory Interop_Lowering
  imports Declaration_Model Binding_Ir
begin

text \<open>
  The selection of methods for a C interface with C# and F# views, and the lowering of their types
  (\<open>generator/src/interop.cpp\<close>, up to the point where text is printed). A function returns what it lowers,
  the items it adds to the contract and what it reports; the symbols it reserves stand between its reports,
  in the order of the code.
\<close>

section \<open>Text\<close>

definition has_control_character :: "string \<Rightarrow> bool" where
  "has_control_character s \<longleftrightarrow> list_ex (\<lambda>c. code_of c < 32 \<or> code_of c = 127) s \<or>
     find_text [CHR 0xC2, CHR 0x85] s \<noteq> None \<or> find_text [CHR 0xE2, CHR 0x80, CHR 0xA8] s \<noteq> None \<or>
     find_text [CHR 0xE2, CHR 0x80, CHR 0xA9] s \<noteq> None"

definition quoted_literal :: "string \<Rightarrow> string" where
  "quoted_literal s = ''\"'' @ concat (map (\<lambda>c. if c = CHR 0x5C \<or> c = CHR 0x22 then [CHR 0x5C, c] else [c]) s) @ ''\"''"

definition apostrophes :: "string \<Rightarrow> string" where
  "apostrophes s = CHR 0x27 # s @ [CHR 0x27]"

fun symbol_component :: "string \<Rightarrow> string" where
  "symbol_component (c # d # s) =
     (if c = CHR '':'' \<and> d = CHR '':'' then CHR ''_'' # symbol_component s else c # symbol_component (d # s))"
| "symbol_component s = s"

definition uppercase :: "string \<Rightarrow> string" where
  "uppercase s = map (\<lambda>c. if 97 \<le> code_of c \<and> code_of c \<le> 122 then char_of (code_of c - 32) else c) s"

definition escaped_namespace :: "string \<Rightarrow> string" where
  "escaped_namespace s = ''@'' @ concat (map (\<lambda>c. if c = CHR ''.'' then ''.@'' else [c]) s)"

section \<open>Directives\<close>

datatype interop_target = No_Target | C_Target | Csharp_Target | Fsharp_Target

record annotation_policy =
  policy_target :: interop_target
  has_interop :: bool
  has_lifetime :: bool
  borrowed :: bool
  owned :: bool
  synchronous_callback :: bool
  has_callback :: bool
  owned_return :: bool
  has_return_ownership :: bool
  consume_first :: bool
  has_consume_ownership :: bool

definition no_policy :: annotation_policy where
  "no_policy = \<lparr>policy_target = No_Target, has_interop = False, has_lifetime = False, borrowed = False, owned = False,
     synchronous_callback = False, has_callback = False, owned_return = False, has_return_ownership = False,
     consume_first = False, has_consume_ownership = False\<rparr>"

definition annotation_argument :: "attribute_use \<Rightarrow> string \<times> diagnostic list" where
  "annotation_argument a =
     (if \<not> has_arguments a \<or> length (argument_tokens a) \<noteq> 1
      then ([], [error_at ''RG0200'' (attribute_position a)
        (''reflgen::'' @ attribute_name a @ '' requires one ordinary string literal argument'')])
      else let token = hd (argument_tokens a)
      in if length token < 2 \<or> hd token \<noteq> CHR 0x22 \<or> last token \<noteq> CHR 0x22 \<or> CHR 0x5C \<in> set token \<or> has_control_character token
         then ([], [error_at ''RG0200'' (attribute_position a)
           (''reflgen::'' @ attribute_name a @ '' requires an unescaped ordinary string literal'')])
         else (take (length token - 2) (drop 1 token), []))"

definition interop_directives :: "string set" where
  "interop_directives = {''interop'', ''lifetime'', ''callback'', ''return_ownership'', ''consume_ownership''}"

definition policy_step :: "bool \<Rightarrow> attribute_use \<Rightarrow> annotation_policy \<Rightarrow> annotation_policy \<times> diagnostic list" where
  "policy_step is_class a p =
     (let name = attribute_name a; place = attribute_position a; (argument, report) = annotation_argument a in
      if attribute_scope a \<noteq> ''reflgen'' \<or> name \<notin> interop_directives then (p, [])
      else if name = ''consume_ownership''
      then let first = (argument = ''0'')
        in (p\<lparr>has_consume_ownership := True, consume_first := first\<rparr>,
            error_when (has_consume_ownership p) ''RG0200'' place ''duplicate consume ownership contract'' @ report @
            error_when (is_class \<or> \<not> first) ''RG0200'' place ''consume_ownership supports only method parameter zero'')
      else if name = ''return_ownership''
      then let result_owned = (argument = ''owned'')
        in (p\<lparr>has_return_ownership := True, owned_return := result_owned\<rparr>,
            error_when (has_return_ownership p) ''RG0200'' place ''duplicate return ownership contract'' @ report @
            error_when (is_class \<or> \<not> result_owned) ''RG0200'' place ''return_ownership requires a method and the owned contract'')
      else if name = ''callback''
      then let synchronous = (argument = ''synchronous'')
        in (p\<lparr>has_callback := True, synchronous_callback := synchronous\<rparr>,
            error_when (has_callback p) ''RG0200'' place ''duplicate callback contract'' @ report @
            error_when (is_class \<or> \<not> synchronous) ''RG0200'' place ''callback requires a method and the synchronous contract'')
      else if name = ''interop''
      then let known = (argument = ''c'' \<or> argument = ''csharp'' \<or> argument = ''fsharp'')
        in (p\<lparr>has_interop := True,
              policy_target := if \<not> known then policy_target p
                else if argument = ''c'' then C_Target else if argument = ''csharp'' then Csharp_Target else Fsharp_Target\<rparr>,
            error_when (has_interop p) ''RG0200'' place (''duplicate or conflicting reflgen::'' @ name @ '' annotation'') @ report @
            error_when (\<not> known) ''RG0200'' place ''reflgen::interop supports only \"c\", \"csharp\" or \"fsharp\"'')
      else (p\<lparr>has_lifetime := True, borrowed := argument = ''borrowed'', owned := argument = ''owned''\<rparr>,
            error_when (has_lifetime p) ''RG0200'' place (''duplicate or conflicting reflgen::'' @ name @ '' annotation'') @ report @
            error_when (\<not> is_class) ''RG0200'' place ''reflgen::lifetime is supported only on an interop class'' @
            error_when (argument \<noteq> ''borrowed'' \<and> argument \<noteq> ''owned'') ''RG0200'' place
              ''reflgen::lifetime requires borrowed or owned; ownership is not inferred''))"

fun read_policy_from :: "bool \<Rightarrow> annotation_policy \<Rightarrow> attribute_use list \<Rightarrow> annotation_policy \<times> diagnostic list" where
  "read_policy_from is_class p [] = (p, [])"
| "read_policy_from is_class p (a # as) =
     (let (p', report) = policy_step is_class a p; (p'', report') = read_policy_from is_class p' as
      in (p'', report @ report'))"

definition read_policy :: "attribute_use list \<Rightarrow> bool \<Rightarrow> annotation_policy \<times> diagnostic list" where
  "read_policy attributes is_class = read_policy_from is_class no_policy attributes"

section \<open>Types\<close>

record lowered_type =
  native_type :: string
  c_type :: string
  csharp_type :: string
  native_size :: "64 word"
  is_owned_argument :: bool
  is_owned_result :: bool
  is_record_value :: bool
  is_callback :: bool
  is_enum :: bool
  is_pointer :: bool
  is_bool :: bool
  is_signed_type :: bool
  is_floating :: bool

definition no_type :: lowered_type where
  "no_type = \<lparr>native_type = [], c_type = [], csharp_type = [], native_size = -1, is_owned_argument = False,
     is_owned_result = False, is_record_value = False, is_callback = False, is_enum = False, is_pointer = False,
     is_bool = False, is_signed_type = False, is_floating = False\<rparr>"

definition ends_with :: "string \<Rightarrow> string \<Rightarrow> bool" where
  "ends_with s q \<longleftrightarrow> starts_with (rev s) (rev q)"

definition unqualified_primitive :: "string \<Rightarrow> string" where
  "unqualified_primitive s =
     (let t = (if starts_with s ''const '' then drop 6 s else s)
      in if ends_with t '' const'' then take (length t - 6) t else t)"

definition signed_types :: "string set" where
  "signed_types = {''char'', ''signed char'', ''short'', ''int'', ''long'', ''long long''}"

definition unsigned_types :: "string set" where
  "unsigned_types = {''char'', ''unsigned char'', ''unsigned short'', ''unsigned int'', ''unsigned long'', ''unsigned long long''}"

text \<open>The width in bits, and the name in C#, of an integer with so many bytes.\<close>

definition integer_width :: "bool \<Rightarrow> int \<Rightarrow> (string \<times> string) option" where
  "integer_width s n =
     (if n = 1 then Some (''8'', if s then ''sbyte'' else ''byte'')
      else if n = 2 then Some (''16'', if s then ''short'' else ''ushort'')
      else if n = 4 then Some (''32'', if s then ''int'' else ''uint'')
      else if n = 8 then Some (''64'', if s then ''long'' else ''ulong'')
      else None)"

definition callback_pointer :: "declaration_type \<Rightarrow> bool" where
  "callback_pointer t \<longleftrightarrow> type_kind t = ''pointer'' \<and>
     (case pointee t of
        None \<Rightarrow> False
      | Some p \<Rightarrow> type_kind p = ''function'' \<and> canonical_spelling t = ''int (*)(int)'' \<and> canonical_spelling p = ''int (int)'')"

definition object_kinds :: "string set" where
  "object_kinds = {''void'', ''bool'', ''signed_integer'', ''unsigned_integer'', ''floating_point'', ''record'', ''enum''}"

definition object_pointer :: "declaration_type \<Rightarrow> declaration_type option" where
  "object_pointer t =
     (if type_kind t = ''pointer''
      then case pointee t of
          None \<Rightarrow> None
        | Some p \<Rightarrow> if type_kind p \<in> object_kinds \<and> \<not> type_is_volatile p then Some p else None
      else None)"

definition integer_lowering :: "declaration_type \<Rightarrow> string \<Rightarrow> (string \<times> string) option" where
  "integer_lowering t native =
     (if (type_kind t = ''signed_integer'' \<and> native \<in> signed_types) \<or> (type_kind t = ''unsigned_integer'' \<and> native \<in> unsigned_types)
      then integer_width (type_kind t = ''signed_integer'') (sint (size_bytes t))
      else None)"

definition unlowered :: "declaration_type \<Rightarrow> lowered_type" where
  "unlowered t = no_type\<lparr>native_type := unqualified_primitive (canonical_spelling t), native_size := size_bytes t\<rparr>"

definition lower_integer :: "declaration_type \<Rightarrow> lowered_type option" where
  "lower_integer t =
     (let s = (type_kind t = ''signed_integer'') in
      map_option (\<lambda>(width, csharp). (unlowered t)\<lparr>c_type := (if s then ''int'' else ''uint'') @ width @ ''_t'', csharp_type := csharp, is_signed_type := s\<rparr>)
        (integer_lowering t (native_type (unlowered t))))"

text \<open>Everything but enumerations: the first case that applies.\<close>

definition lower_plain :: "declaration_type \<Rightarrow> bool \<Rightarrow> lowered_type option" where
  "lower_plain t allow_void =
     (let base = unlowered t; native = native_type base in
      if type_is_volatile t then None
      else if \<not> allow_void \<and> callback_pointer t
      then Some (base\<lparr>native_type := canonical_spelling t, c_type := ''callback_i32_i32'', csharp_type := ''nint'', is_callback := True\<rparr>)
      else if \<not> allow_void \<and> object_pointer t \<noteq> None
      then Some (base\<lparr>native_type := canonical_spelling t,
             c_type := if type_is_const (the (object_pointer t)) then ''const void*'' else ''void*'', csharp_type := ''nint'', is_pointer := True\<rparr>)
      else if type_kind t = ''void'' \<and> allow_void \<and> native = ''void'' then Some (base\<lparr>c_type := ''void'', csharp_type := ''void''\<rparr>)
      else if type_kind t = ''bool'' \<and> native = ''bool'' \<and> sint (size_bytes t) > 0
      then Some (base\<lparr>c_type := ''uint8_t'', csharp_type := ''byte'', is_bool := True\<rparr>)
      else if lower_integer t \<noteq> None then lower_integer t
      else if type_kind t = ''floating_point'' \<and> ((native = ''float'' \<and> size_bytes t = 4) \<or> (native = ''double'' \<and> size_bytes t = 8))
      then Some (base\<lparr>c_type := native, csharp_type := native, is_floating := True\<rparr>)
      else None)"

definition enumeration_type :: "declaration_type \<Rightarrow> declaration_type option" where
  "enumeration_type t =
     (if \<not> type_is_volatile t \<and> type_kind t = ''enum'' \<and> type_declaration t \<noteq> [] then enum_underlying t else None)"

lemma underlying_smaller: "enumeration_type t = Some u \<Longrightarrow> size u < size t"
  by (cases t) (auto simp: enumeration_type_def split: if_splits)

function lower_type :: "declaration_type \<Rightarrow> bool \<Rightarrow> source_position \<Rightarrow> lowered_type \<times> diagnostic list" where
  "lower_type t allow_void place =
     (case enumeration_type t of
        Some e \<Rightarrow>
          let (u, report) = lower_type e False place
          in if report \<noteq> [] then (unlowered t, report)
             else ((unlowered t)\<lparr>c_type := c_type u, csharp_type := csharp_type u, native_type := canonical_spelling t,
               is_signed_type := is_signed_type u, is_enum := True\<rparr>, [])
      | None \<Rightarrow>
          case lower_plain t allow_void of
            Some l \<Rightarrow> (l, [])
          | None \<Rightarrow> (unlowered t, [error_at ''RG0202'' place
              (''unsupported interop type '' @ apostrophes (spelling t) @ '' (canonical '' @ apostrophes (canonical_spelling t) @
               ''); only bool, 8/16/32/64-bit integers, float and double by value are supported'' @
               (if allow_void then '', or void as a return type'' else []))]))"
  by pat_completeness auto
termination
  by (relation "measure (\<lambda>(t, allow_void, place). size t)") (auto simp: underlying_smaller)

declare lower_type.simps [simp del]

section \<open>The contract\<close>

text \<open>Every item is preceded by its length in bytes.\<close>

definition append_contract :: "string \<Rightarrow> string \<Rightarrow> string" where
  "append_contract contract s = contract @ show_nat (length s) @ '':'' @ s @ '';''"

definition type_note :: "lowered_type \<Rightarrow> string" where
  "type_note t =
     (if is_owned_argument t then ''unique-owned-native-argument-v1''
      else if is_owned_result t then ''unique-owned-native-result-v1''
      else if is_record_value t then ''fsharp-record-value-bytes-v1''
      else if is_callback t then ''cdecl-i32-i32-synchronous-same-thread''
      else if is_pointer t then ''borrowed-object-pointer''
      else if is_bool t then ''bool:nonzero-input:zero-or-one-output'' else ''numeric-value'')"

definition type_contract :: "lowered_type \<Rightarrow> string list" where
  "type_contract t = [native_type t, show_int (sint (native_size t)), c_type t, csharp_type t, type_note t]"

definition fnv1a :: "string \<Rightarrow> 64 word" where
  "fnv1a s = foldl (\<lambda>hash c. (hash XOR of_nat (code_of c)) * 1099511628211) 14695981039346656037 s"

fun hex_nibbles :: "nat \<Rightarrow> 64 word \<Rightarrow> string" where
  "hex_nibbles 0 hash = []"
| "hex_nibbles (Suc n) hash = hex_nibbles n (drop_bit 4 hash) @ [''0123456789abcdef'' ! unat (hash AND 15)]"

definition fingerprint_of :: "string \<Rightarrow> string" where
  "fingerprint_of contract = hex_nibbles 16 (fnv1a contract)"

definition language_name :: "interop_target \<Rightarrow> string" where
  "language_name t = (case t of Csharp_Target \<Rightarrow> ''csharp'' | Fsharp_Target \<Rightarrow> ''fsharp'' | _ \<Rightarrow> ''c'')"

section \<open>Symbols\<close>

text \<open>A report, or the reservation of a symbol, which is reported when the symbol is taken.\<close>

datatype interop_event = Reported diagnostic | Reserved string source_position

fun settle :: "string list \<Rightarrow> interop_event list \<Rightarrow> diagnostic list" where
  "settle taken [] = []"
| "settle taken (Reported d # es) = d # settle taken es"
| "settle taken (Reserved s place # es) =
     (if s \<in> set taken
      then error_at ''RG0203'' place (''generated interop symbol collision: '' @ apostrophes s) # settle taken es
      else settle (s # taken) es)"

section \<open>Methods\<close>

record lowered_method =
  method_of :: method_model
  method_symbol :: string
  method_target :: interop_target
  method_result :: lowered_type
  method_arguments :: "lowered_type list"

record lowered_class =
  class_of :: class_model
  class_handle :: string
  class_owned :: bool
  class_methods :: "lowered_method list"

text \<open>Classes whose objects are handed over are recognised by the tokens of their attributes.\<close>

definition has_directive :: "string \<Rightarrow> string \<Rightarrow> attribute_use list \<Rightarrow> bool" where
  "has_directive name token attributes \<longleftrightarrow>
     list_ex (\<lambda>a. attribute_scope a = ''reflgen'' \<and> attribute_name a = name \<and> has_arguments a \<and> argument_tokens a = [token]) attributes"

definition owned_class_pointer :: "class_model list \<Rightarrow> declaration_type \<Rightarrow> bool" where
  "owned_class_pointer exports t \<longleftrightarrow> type_kind t = ''pointer'' \<and>
     (case pointee t of
        None \<Rightarrow> False
      | Some p \<Rightarrow> type_kind p = ''record'' \<and> \<not> type_is_const p \<and> \<not> type_is_volatile p \<and>
          list_ex (\<lambda>c. class_qualified_name c = type_declaration p \<and>
            has_directive ''interop'' ''\"fsharp\"'' (class_attributes c) \<and>
            has_directive ''lifetime'' ''\"owned\"'' (class_attributes c)) exports)"

definition lower_record_value :: "value_model list \<Rightarrow> declaration_type \<Rightarrow> interop_target \<Rightarrow> bool \<Rightarrow> lowered_type option" where
  "lower_record_value vs t language result =
     (if type_kind t \<noteq> ''record'' \<or> type_is_volatile t \<or> language \<noteq> Fsharp_Target then None
      else if \<not> list_ex (\<lambda>v. type_declaration (target v) = type_declaration t \<and>
          has_directive ''interop'' ''\"fsharp\"'' (alias_attributes v)) vs then None
      else Some (no_type\<lparr>native_type := canonical_spelling t, native_size := size_bytes t,
        c_type := if result then ''void*'' else ''const void*'', csharp_type := ''nint'', is_record_value := True\<rparr>))"

definition lower_value_or_type :: "value_model list \<Rightarrow> declaration_type \<Rightarrow> interop_target \<Rightarrow> bool \<Rightarrow> source_position \<Rightarrow> lowered_type \<times> diagnostic list" where
  "lower_value_or_type vs t language result place =
     (case lower_record_value vs t language result of Some l \<Rightarrow> (l, []) | None \<Rightarrow> lower_type t result place)"

definition owned_pointer :: "declaration_type \<Rightarrow> lowered_type" where
  "owned_pointer t = no_type\<lparr>native_type := canonical_spelling t, native_size := size_bytes t, csharp_type := ''nint'', is_pointer := True\<rparr>"

definition lower_result :: "class_model list \<Rightarrow> value_model list \<Rightarrow> annotation_policy \<Rightarrow> method_model \<Rightarrow> lowered_type \<times> diagnostic list" where
  "lower_result exports vs p m =
     (if owned_return p
      then if policy_target p \<noteq> Fsharp_Target \<or> \<not> owned_class_pointer exports (return_type m)
        then (no_type, [error_at ''RG0202'' (method_position m) ''owned return requires a pointer to a selected F# owned class''])
        else ((owned_pointer (return_type m))\<lparr>c_type := ''void*'', is_owned_result := True\<rparr>, [])
      else lower_value_or_type vs (return_type m) (policy_target p) True (method_position m))"

definition lower_argument :: "class_model list \<Rightarrow> value_model list \<Rightarrow> annotation_policy \<Rightarrow> nat \<Rightarrow> parameter_model \<Rightarrow> lowered_type \<times> diagnostic list" where
  "lower_argument exports vs p i parameter =
     (let t = parameter_type parameter; place = parameter_position parameter in
      if i = 0 \<and> consume_first p
      then if policy_target p \<noteq> Fsharp_Target \<or> \<not> owned_class_pointer exports t
        then (no_type, [error_at ''RG0202'' place ''consumed parameter must be a pointer to a selected F# owned class''])
        else ((owned_pointer t)\<lparr>c_type := ''void**'', is_owned_argument := True\<rparr>, [])
      else lower_value_or_type vs t (policy_target p) False place)"

definition lower_arguments :: "class_model list \<Rightarrow> value_model list \<Rightarrow> annotation_policy \<Rightarrow> parameter_model list \<Rightarrow> (lowered_type \<times> diagnostic list) list" where
  "lower_arguments exports vs p parameters =
     map (\<lambda>(i, parameter). lower_argument exports vs p i parameter) (enumerate 0 parameters)"

text \<open>What a method must be; \<open>same_name\<close> counts the methods of its name.\<close>

definition unsupported_interop_method :: "nat \<Rightarrow> method_model \<Rightarrow> bool" where
  "unsupported_interop_method same_name m \<longleftrightarrow>
     method_access m \<noteq> ''public'' \<or> is_static m \<or> is_deleted m \<or> is_consteval m \<or>
     \<not> declaration_specifiers_known m \<or> \<not> qualifiers_known m \<or> is_volatile m \<or> is_variadic m \<or>
     ref_qualifier m \<noteq> ''none'' \<or> is_overloaded m \<or> same_name > 1 \<or> \<not> cpp_identifier (method_name m)"

definition method_contract :: "lowered_method \<Rightarrow> string list" where
  "method_contract l =
     [''method'', method_symbol l, language_name (method_target l), signature (method_of l),
      if is_const (method_of l) then ''const'' else ''mutable'', calling_convention (method_of l),
      exception_specification (method_of l)] @ type_contract (method_result l) @
     [show_nat (length (method_arguments l))] @ concat (map type_contract (method_arguments l))"

text \<open>A method of a class that is not selected adds only reports.\<close>

definition lower_interop_method :: "class_model list \<Rightarrow> value_model list \<Rightarrow> string \<Rightarrow> class_model \<Rightarrow> annotation_policy \<Rightarrow> method_model
    \<Rightarrow> lowered_method list \<times> interop_event list" where
  "lower_interop_method exports vs prefix c class_policy m =
     (let (p, report) = read_policy (method_attributes m) False; place = method_position m in
      if \<not> has_interop p
      then ([], map Reported (report @ error_when (has_callback p \<or> has_return_ownership p \<or> has_consume_ownership p) ''RG0200'' place
        ''callback or return ownership contract requires a selected interop method''))
      else
        let symbol = prefix @ ''_'' @ symbol_component (class_qualified_name c) @ ''_'' @ method_name m;
            (result, result_report) = lower_result exports vs p m;
            arguments = lower_arguments exports vs p (parameter_declarations m);
            callbacks = length (filter is_callback (map fst arguments))
        in ([\<lparr>method_of = m, method_symbol = symbol, method_target = policy_target p, method_result = result,
              method_arguments = map fst arguments\<rparr>],
            map Reported (report @
              error_when (\<not> has_interop class_policy) ''RG0200'' place ''selected interop method requires reflgen::interop on its class'' @
              error_when (policy_target p = Csharp_Target \<and> policy_target class_policy \<noteq> Csharp_Target) ''RG0200'' place
                ''a C# method requires a C# interop class target'' @
              error_when (policy_target p = Fsharp_Target \<and> policy_target class_policy \<noteq> Fsharp_Target) ''RG0200'' place
                ''an F# method requires an F# interop class target'' @
              error_when (unsupported_interop_method (length (filter (\<lambda>n. method_name n = method_name m) (methods_of c))) m) ''RG0201'' place
                (''interop supports only public, nonstatic, non-deleted, non-consteval, non-overloaded '' @
                 ''ordinary methods with known declaration specifiers and qualifiers and without '' @
                 ''volatile/ref qualifiers or variadic parameters '' @ ''(const methods are supported)'')) @
            [Reserved symbol place] @
            map Reported (result_report @ concat (map snd arguments) @
              error_when (consume_first p \<and> parameter_declarations m = []) ''RG0202'' place ''consumed parameter zero does not exist'' @
              error_when ((callbacks \<noteq> 0) \<noteq> synchronous_callback p \<or> callbacks > 1) ''RG0200'' place
                ''one callback requires explicit callback(\"synchronous\")'')))"

section \<open>Classes\<close>

definition includable :: "string \<Rightarrow> bool" where
  "includable file \<longleftrightarrow> file \<noteq> [] \<and> \<not> has_control_character file \<and> CHR 0x22 \<notin> set file \<and> CHR 0x5C \<notin> set file"

definition class_reports :: "class_model \<Rightarrow> annotation_policy \<Rightarrow> diagnostic list" where
  "class_reports c p =
     (let place = class_position c in
      error_when (has_lifetime p \<and> \<not> has_interop p) ''RG0200'' place ''reflgen::lifetime requires reflgen::interop on the class'' @
      error_when (has_interop p \<and> (\<not> has_lifetime p \<or> (\<not> borrowed p \<and> \<not> owned p))) ''RG0200'' place
        ''interop classes require an explicit lifetime'' @
      error_when (owned p \<and> policy_target p \<noteq> Fsharp_Target) ''RG0200'' place ''owned lifetime is supported only on F# interop classes'' @
      error_when (has_interop p \<and> (class_nested c \<or> \<not> qualified_name ''::'' (class_qualified_name c))) ''RG0201'' place
        ''interop requires a non-nested, non-template class with an ASCII qualified name'' @
      error_when (has_interop p \<and> \<not> includable (pos_file place)) ''RG0201'' place
        ''interop requires a normalized, includable source header path'')"

definition class_contract :: "class_model \<Rightarrow> interop_target \<Rightarrow> bool \<Rightarrow> string list" where
  "class_contract c language owner =
     [''class'', class_qualified_name c, language_name language, if owner then ''owned-unique-delete-exact-type-v1'' else ''borrowed'']"

definition field_reports :: "field_model \<Rightarrow> diagnostic list" where
  "field_reports f =
     (let (p, report) = read_policy (field_attributes f) False
      in report @ error_when (has_interop p) ''RG0201'' (field_position f) ''interop field exports are not supported; select a method'')"

record class_plan =
  planned_class :: "lowered_class option"
  planned_policy :: annotation_policy
  planned_contract :: "string list"
  planned_events :: "interop_event list"

definition lower_interop_class :: "class_model list \<Rightarrow> value_model list \<Rightarrow> string \<Rightarrow> class_model \<Rightarrow> class_plan" where
  "lower_interop_class exports vs prefix c =
     (let (p, report) = read_policy (class_attributes c) True;
          handle = prefix @ ''_'' @ symbol_component (class_qualified_name c) @ ''_handle'';
          ms = map (lower_interop_method exports vs prefix c p) (sort_key method_name (methods_of c));
          lowered = concat (map fst ms)
      in \<lparr>planned_class = (if has_interop p
            then Some \<lparr>class_of = c, class_handle = handle, class_owned = owned p, class_methods = lowered\<rparr> else None),
          planned_policy = p,
          planned_contract = (if has_interop p then class_contract c (policy_target p) (owned p) else []) @
            concat (map method_contract lowered),
          planned_events = map Reported (report @ class_reports c p) @
            (if has_interop p then Reserved handle (class_position c) #
               (if owned p then [Reserved (handle @ ''_destroy'') (class_position c)] else []) else []) @
            map Reported (concat (map field_reports (fields_of c))) @ concat (map snd ms)\<rparr>)"

section \<open>Values\<close>

record value_layout =
  layout_of :: value_model
  layout_name :: string
  layout_fields :: "lowered_type list"

text \<open>The last attribute of the name counts; more than one is reported.\<close>

definition value_directive :: "string \<Rightarrow> value_model \<Rightarrow> attribute_use option" where
  "value_directive name v =
     (let found = filter (\<lambda>a. attribute_scope a = ''reflgen'' \<and> attribute_name a = name) (alias_attributes v)
      in if found = [] then None else Some (last found))"

fun value_directive_reports :: "bool \<Rightarrow> bool \<Rightarrow> attribute_use list \<Rightarrow> diagnostic list" where
  "value_directive_reports selected named [] = []"
| "value_directive_reports selected named (a # as) =
     (if attribute_scope a \<noteq> ''reflgen'' then value_directive_reports selected named as
      else if attribute_name a = ''interop''
      then error_when selected ''RG0200'' (attribute_position a) ''duplicate value interop selection'' @ value_directive_reports True named as
      else if attribute_name a = ''value''
      then error_when named ''RG0200'' (attribute_position a) ''duplicate value name'' @ value_directive_reports selected True as
      else value_directive_reports selected named as)"

definition fsharp_value :: "value_model \<Rightarrow> bool" where
  "fsharp_value v \<longleftrightarrow>
     (case value_directive ''interop'' v of None \<Rightarrow> False | Some a \<Rightarrow> has_arguments a \<and> argument_tokens a = [''\"fsharp\"''])"

definition value_name_of :: "value_model \<Rightarrow> string \<times> diagnostic list" where
  "value_name_of v = (case value_directive ''value'' v of None \<Rightarrow> ([], []) | Some a \<Rightarrow> annotation_argument a)"

definition unsupported_layout :: "value_model \<Rightarrow> bool" where
  "unsupported_layout v \<longleftrightarrow>
     type_kind (target v) \<noteq> ''record'' \<or> \<not> qualified_name ''::'' (type_declaration (target v)) \<or>
     sint (size_bytes (target v)) \<le> 0 \<or> sint (value_align_bytes v) \<le> 0 \<or> has_bases v \<or> alias_fields v = [] \<or>
     \<not> includable (pos_file (alias_position v))"

definition unsupported_layout_field :: "value_field_model \<Rightarrow> bool" where
  "unsupported_layout_field f \<longleftrightarrow>
     \<not> is_public f \<or> is_bitfield f \<or> sint (offset_bytes f) < 0 \<or> \<not> cpp_identifier (member_name f) \<or>
     type_is_const (member_type f) \<or> type_is_volatile (member_type f) \<or>
     (type_kind (member_type f) \<noteq> ''signed_integer'' \<and> type_kind (member_type f) \<noteq> ''unsigned_integer'' \<and>
      type_kind (member_type f) \<noteq> ''floating_point'')"

definition lower_layout_field :: "source_position \<Rightarrow> value_field_model \<Rightarrow> lowered_type list \<times> string list \<times> diagnostic list" where
  "lower_layout_field place f =
     (if unsupported_layout_field f
      then ([], [], [error_at ''RG0202'' place ''F# value layout requires public non-bit-field numeric fields''])
      else let (l, report) = lower_type (member_type f) False place
        in if report \<noteq> [] then ([], [], report)
           else ([l], [member_name f, show_int (sint (offset_bytes f))] @ type_contract l, []))"

definition layout_contract :: "string \<Rightarrow> value_model \<Rightarrow> string list" where
  "layout_contract name v =
     [''fsharp-value-layout-v1'', name, type_declaration (target v), show_int (sint (size_bytes (target v))), show_int (sint (value_align_bytes v))]"

fun lower_layouts :: "string list \<Rightarrow> value_model list \<Rightarrow> value_layout list \<times> string list \<times> diagnostic list" where
  "lower_layouts names [] = ([], [], [])"
| "lower_layouts names (v # vs) =
     (let duplicates = value_directive_reports False False (alias_attributes v) in
      if \<not> fsharp_value v
      then let (ls, contract, report) = lower_layouts names vs in (ls, contract, duplicates @ report)
      else let (name, name_report) = value_name_of v;
          names' = (if cpp_identifier name then name # names else names)
        in if \<not> cpp_identifier name \<or> name \<in> set names \<or> unsupported_layout v
           then let (ls, contract, report) = lower_layouts names' vs
             in (ls, contract, duplicates @ name_report @ [error_at ''RG0202'' (alias_position v)
               ''F# value layout requires a uniquely named, complete record without bases and with public numeric fields''] @ report)
           else let fs = map (lower_layout_field (alias_position v)) (alias_fields v); (ls, contract, report) = lower_layouts names' vs
             in (\<lparr>layout_of = v, layout_name = name, layout_fields = concat (map fst fs)\<rparr> # ls,
                 layout_contract name v @ concat (map (fst \<circ> snd) fs) @ contract,
                 duplicates @ name_report @ concat (map (snd \<circ> snd) fs) @ report))"

section \<open>The target\<close>

definition mentions :: "string \<Rightarrow> string \<Rightarrow> bool" where
  "mentions s part \<longleftrightarrow> find_text part s \<noteq> None"

definition windows_target :: "string \<Rightarrow> bool" where
  "windows_target t \<longleftrightarrow> mentions t ''windows'' \<or> mentions t ''mingw'' \<or> mentions t ''win32''"

definition linux_target :: "string \<Rightarrow> bool" where
  "linux_target t \<longleftrightarrow> mentions t ''-linux''"

definition macos_target :: "string \<Rightarrow> bool" where
  "macos_target t \<longleftrightarrow> mentions t ''-apple-'' \<and> (mentions t ''darwin'' \<or> mentions t ''macos'')"

definition architecture :: "string \<Rightarrow> string" where
  "architecture t = (case find_text ''-'' t of None \<Rightarrow> t | Some n \<Rightarrow> take n t)"

definition x86_target :: "string \<Rightarrow> bool" where
  "x86_target t \<longleftrightarrow> architecture t \<in> {''i386'', ''i486'', ''i586'', ''i686''}"

definition x64_target :: "string \<Rightarrow> bool" where
  "x64_target t \<longleftrightarrow> architecture t \<in> {''x86_64'', ''amd64''}"

definition arm64_target :: "string \<Rightarrow> bool" where
  "arm64_target t \<longleftrightarrow> architecture t \<in> {''aarch64'', ''arm64''}"

definition supported_target :: "string \<Rightarrow> bool" where
  "supported_target t \<longleftrightarrow> (linux_target t \<and> (x86_target t \<or> x64_target t \<or> arm64_target t)) \<or>
     ((windows_target t \<or> macos_target t) \<and> (x64_target t \<or> arm64_target t))"

definition target_reports :: "class_model list \<Rightarrow> target_model \<Rightarrow> diagnostic list" where
  "target_reports exports t =
     (if exports = [] then []
      else let place = class_position (hd exports); width = pointer_width t in
        error_when (triple t = [] \<or> (width \<noteq> 32 \<and> width \<noteq> 64)) ''RG0202'' place
          ''interop requires a known target triple with 32-bit or 64-bit pointers'' @
        (if windows_target (triple t) \<and> width = 32
         then [error_at ''RG0202'' place ''32-bit Windows interop is not supported yet because exported symbol decoration varies'']
         else error_when (\<not> supported_target (triple t) \<or> (x86_target (triple t) \<and> width \<noteq> 32) \<or>
             ((x64_target (triple t) \<or> arm64_target (triple t)) \<and> width \<noteq> 64)) ''RG0202'' place
           ''interop supports only x86/x64/arm64 Linux and x64/arm64 Windows or macOS targets''))"

section \<open>The module\<close>

record interop_options =
  interop_module :: string
  library_name :: string
  csharp_namespace :: string

definition library_of :: "interop_options \<Rightarrow> string" where
  "library_of options = (if library_name options = [] then interop_module options else library_name options)"

definition prefix_of :: "interop_options \<Rightarrow> string" where
  "prefix_of options = ''reflgen_'' @ interop_module options"

definition module_contract :: "interop_options \<Rightarrow> target_model \<Rightarrow> string list" where
  "module_contract options t =
     [''reflgen-primitive-interop-v1'', interop_module options, library_of options, csharp_namespace options, triple t,
      show_int (sint (pointer_width t)), ''cdecl'', ''borrowed-exact-live-object-address-no-destruction'',
      ''status-int32:ok=0:null=1:exception=2:wrapper-writes-output-only-on-success'']"

definition own_symbols :: "string \<Rightarrow> interop_event list" where
  "own_symbols prefix = map (\<lambda>s. Reserved (prefix @ s) nowhere)
     [''_abi_fingerprint'', ''_status_ok'', ''_status_invalid_argument'', ''_status_exception'']"

record interop_plan =
  plan_classes :: "lowered_class list"
  plan_layouts :: "value_layout list"
  plan_csharp :: bool
  plan_fsharp :: bool
  plan_contract :: "string list"
  plan_report :: "diagnostic list"

definition option_reports :: "interop_options \<Rightarrow> diagnostic list" where
  "option_reports options =
     error_when (\<not> cpp_identifier (interop_module options)) ''RG0200'' nowhere ''interop module name must be an ASCII identifier'' @
     error_when (has_control_character (library_of options)) ''RG0200'' nowhere ''interop library name must not contain control characters''"

definition plan_interop :: "class_model list \<Rightarrow> target_model \<Rightarrow> interop_options \<Rightarrow> value_model list \<Rightarrow> interop_plan" where
  "plan_interop exports t options vs =
     (let prefix = prefix_of options;
          cs = map (lower_interop_class exports vs prefix) (sort_key class_qualified_name exports);
          (layouts, layout_items, layout_report) = lower_layouts [] (sort_key alias_name vs);
          has_csharp = list_ex (\<lambda>c. policy_target (planned_policy c) = Csharp_Target) cs;
          has_fsharp = (list_ex (\<lambda>c. policy_target (planned_policy c) = Fsharp_Target) cs \<or> list_ex fsharp_value vs)
      in \<lparr>plan_classes = List.map_filter planned_class cs, plan_layouts = layouts, plan_csharp = has_csharp, plan_fsharp = has_fsharp,
          plan_contract = module_contract options t @ concat (map planned_contract cs) @ layout_items,
          plan_report = option_reports options @ target_reports exports t @
            settle [] (own_symbols prefix @ concat (map planned_events cs)) @ layout_report @
            error_when ((has_csharp \<or> has_fsharp) \<and> \<not> qualified_name ''.'' (csharp_namespace options)) ''RG0200'' nowhere
              ''C# namespace must contain dot-separated ASCII identifiers''\<rparr>)"

end
