(* ===== verification/Interop_Emit.thy ===== *)
theory Interop_Emit
  imports Interop_Lowering
begin

text \<open>
  The files of the interface (\<open>generator/src/interop.cpp\<close>, from the header on): a C header, the C++ functions
  behind it, and the declarations for C# and F#. The code looks names up in constant maps and indexes
  the fields of layouts; a look-up that would throw or read outside a list is None here.
\<close>

section \<open>Pieces of text\<close>

definition text_lines :: "string list \<Rightarrow> string" where
  "text_lines ls = concat (map (\<lambda>l. l @ [CHR 0x0A]) ls)"

fun join :: "string option list \<Rightarrow> string option" where
  "join [] = Some []"
| "join (None # ts) = None"
| "join (Some s # ts) = map_option ((@) s) (join ts)"

definition interop_banner :: string where
  "interop_banner = ''// <auto-generated/> Generated by reflgen. Do not edit; edit the source header instead.''"

definition number :: "64 word \<Rightarrow> string" where
  "number n = show_int (sint n)"

definition calling_convention_macro :: "string \<Rightarrow> string" where
  "calling_convention_macro macro = text_lines
     [''#if defined(_MSC_VER)'', ''#define '' @ macro @ '' __cdecl'',
      ''#elif defined(__i386__)'', ''#define '' @ macro @ '' __attribute__((cdecl))'',
      ''#else'', ''#define '' @ macro, ''#endif'']"

definition export_macro :: "string \<Rightarrow> string" where
  "export_macro macro = text_lines
     [''#if defined('' @ macro @ ''_BUILD)'', ''#if defined(_WIN32)'', ''#define '' @ macro @ ''_API __declspec(dllexport)'',
      ''#else'', ''#define '' @ macro @ ''_API __attribute__((visibility(\"default\")))'', ''#endif'', ''#else'',
      ''#define '' @ macro @ ''_API'', ''#endif'']"

definition argument_name :: "nat \<Rightarrow> string" where
  "argument_name i = ''argument_'' @ show_nat i"

definition arguments_of :: "lowered_method \<Rightarrow> (nat \<times> lowered_type) list" where
  "arguments_of m = enumerate 0 (method_arguments m)"

definition has_result :: "lowered_method \<Rightarrow> bool" where
  "has_result m \<longleftrightarrow> c_type (method_result m) \<noteq> ''void''"

definition c_argument :: "string \<Rightarrow> nat \<times> lowered_type \<Rightarrow> string" where
  "c_argument macro a =
     (if is_callback (snd a) then '', int32_t ('' @ macro @ ''_CDECL *'' @ argument_name (fst a) @ '')(int32_t)''
      else '', '' @ c_type (snd a) @ '' '' @ argument_name (fst a))"

definition c_parameters :: "lowered_class \<Rightarrow> lowered_method \<Rightarrow> string \<Rightarrow> string" where
  "c_parameters c m macro =
     class_handle c @ ''* receiver'' @ concat (map (c_argument macro) (arguments_of m)) @
     (if has_result m then if is_record_value (method_result m) then '', void* result'' else '', '' @ c_type (method_result m) @ ''* result''
      else [])"

section \<open>The C header\<close>

definition c_method :: "string \<Rightarrow> lowered_class \<Rightarrow> lowered_method \<Rightarrow> string" where
  "c_method macro c m = text_lines
     [''int32_t '' @ macro @ ''_API '' @ macro @ ''_CDECL '' @ method_symbol m @ ''('' @ c_parameters c m macro @ '');'']"

definition c_class :: "string \<Rightarrow> lowered_class \<Rightarrow> string" where
  "c_class macro c =
     text_lines [(if class_owned c then ''// Uniquely owned '' else ''// Borrowed '') @ class_qualified_name (class_of c),
       ''typedef struct '' @ class_handle c @ '' '' @ class_handle c @ '';''] @
     (if class_owned c
      then text_lines [''int32_t '' @ macro @ ''_API '' @ macro @ ''_CDECL '' @ class_handle c @ ''_destroy('' @ class_handle c @ ''** receiver);'']
      else []) @
     concat (map (c_method macro c) (class_methods c)) @ text_lines [[]]"

definition c_preamble :: "string \<Rightarrow> string \<Rightarrow> string \<Rightarrow> string" where
  "c_preamble target_triple prefix macro = text_lines
     [interop_banner, ''#pragma once'', ''#include <stdint.h>'', [],
      ''// Target: '' @ target_triple @ ''; regenerate for another target.'',
      ''// Handles contain the exact address of a live object of the stated C++ type.'',
      ''// The caller owns its lifetime, alignment, thread safety and correct type.'',
      ''// Null is checked; dangling, wrong-type and arbitrary nonnull pointers are undefined behavior.'',
      ''// Owned classes provide an explicit destroy operation; no stale-handle registry is provided.'',
      ''// bool uses uint8_t: any nonzero input is true; output is 0 or 1.'',
      ''// Wrappers write results only after successful invocation. Exceptions become status_exception.'',
      ''// The fingerprint detects contract changes, not malicious code or invalid handles.'', []] @
     calling_convention_macro (macro @ ''_CDECL'') @ export_macro macro @ text_lines
     [[], ''#ifdef __cplusplus'', ''extern \"C\"'', ''{'', ''#endif'', [],
      ''enum'', ''{'', ''    '' @ prefix @ ''_status_ok = 0,'', ''    '' @ prefix @ ''_status_invalid_argument = 1,'',
      ''    '' @ prefix @ ''_status_exception = 2'', ''};'', [],
      ''uint64_t '' @ macro @ ''_API '' @ macro @ ''_CDECL '' @ prefix @ ''_abi_fingerprint(void);'', []]"

definition c_header :: "string \<Rightarrow> string \<Rightarrow> string \<Rightarrow> lowered_class list \<Rightarrow> string" where
  "c_header target_triple prefix macro cs =
     c_preamble target_triple prefix macro @ concat (map (c_class macro) cs) @ text_lines
     [''#ifdef __cplusplus'', ''}'', ''#endif'', [], ''#undef '' @ macro @ ''_API'', ''#undef '' @ macro @ ''_CDECL'']"

section \<open>The C++ functions\<close>

definition type_asserts :: "lowered_type \<Rightarrow> string" where
  "type_asserts t =
     text_lines [''static_assert(sizeof('' @ native_type t @ '') == '' @ number (native_size t) @
       '', \"reflgen interop: regenerate bindings for this target\");''] @
     (if is_enum t
      then text_lines
        [''static_assert(::std::is_enum_v<'' @ native_type t @ ''> && sizeof(::std::underlying_type_t<'' @ native_type t @ ''>) == '' @
           number (native_size t) @ '', \"reflgen interop: enum representation changed\");'',
         ''static_assert(::std::numeric_limits<::std::underlying_type_t<'' @ native_type t @ ''>>::is_signed == '' @
           (if is_signed_type t then ''true'' else ''false'') @ '', \"reflgen interop: enum signedness changed\");'']
      else if is_floating t
      then text_lines
        [''static_assert(::std::numeric_limits<'' @ native_type t @ ''>::is_iec559 && ::std::numeric_limits<'' @ native_type t @
           ''>::radix == 2 && ::std::numeric_limits<'' @ native_type t @ ''>::digits == '' @
           (if native_type t = ''float'' then ''24'' else ''53'') @ '', \"reflgen interop requires IEEE 754 binary32/binary64\");'']
      else if \<not> is_bool t
      then text_lines
        [''static_assert(::std::numeric_limits<'' @ native_type t @ ''>::is_signed == '' @
           (if is_signed_type t then ''true'' else ''false'') @ '', \"reflgen interop: native integer signedness changed\");'',
         ''static_assert(::std::numeric_limits<'' @ native_type t @ ''>::digits == '' @
           number (native_size t * 8 - (if is_signed_type t then 1 else 0)) @
           '', \"reflgen interop requires integers without padding bits\");'']
      else [])"

text \<open>Each type is asserted once; \<open>seen\<close> holds those that were.\<close>

fun append_static_asserts :: "string list \<Rightarrow> lowered_type list \<Rightarrow> string" where
  "append_static_asserts seen [] = []"
| "append_static_asserts seen (t # ts) =
     (if is_callback t
      then if ''callback_i32_i32'' \<in> set seen then append_static_asserts seen ts
        else text_lines [''static_assert(sizeof(int) == 4 && ::std::numeric_limits<int>::is_signed && '' @
            ''::std::numeric_limits<int>::digits == 31, \"reflgen callback requires a 32-bit int\");''] @
          append_static_asserts (''callback_i32_i32'' # seen) ts
      else if c_type t = ''void'' \<or> is_pointer t \<or> is_record_value t \<or> native_type t \<in> set seen then append_static_asserts seen ts
      else type_asserts t @ append_static_asserts (native_type t # seen) ts)"

definition null_check :: "nat \<times> lowered_type \<Rightarrow> string" where
  "null_check a =
     (let n = argument_name (fst a) in
      if is_callback (snd a) \<or> is_record_value (snd a) \<or> is_owned_argument (snd a)
      then '' || '' @ n @ '' == nullptr'' @
        (if is_owned_argument (snd a) then '' || *'' @ n @ '' == nullptr || reinterpret_cast<void*>(receiver) == *'' @ n else [])
      else [])"

definition copy_record :: "nat \<times> lowered_type \<Rightarrow> string" where
  "copy_record a =
     (let n = show_nat (fst a) in
      if is_record_value (snd a)
      then text_lines
        [''        ::std::array<::std::byte, sizeof('' @ native_type (snd a) @ '')> bytes_'' @ n @ ''{};'',
         ''        ::std::memcpy(bytes_'' @ n @ ''.data(), argument_'' @ n @ '', bytes_'' @ n @ ''.size());'',
         ''        const auto record_'' @ n @ '' = ::std::bit_cast<'' @ native_type (snd a) @ ''>(bytes_'' @ n @ '');'']
      else [])"

definition take_owned :: "nat \<times> lowered_type \<Rightarrow> string" where
  "take_owned a =
     (let n = show_nat (fst a) in
      if is_owned_argument (snd a)
      then text_lines [''        auto owned_'' @ n @ '' = static_cast<'' @ native_type (snd a) @ ''>(*argument_'' @ n @ '');'',
        ''        *argument_'' @ n @ '' = nullptr;'']
      else [])"

definition pass_argument :: "nat \<times> lowered_type \<Rightarrow> string" where
  "pass_argument a =
     (let t = snd a; argument = argument_name (fst a) in
      if is_owned_argument t then ''owned_'' @ show_nat (fst a)
      else if is_record_value t then ''record_'' @ show_nat (fst a)
      else if is_callback t then ''reinterpret_cast<'' @ native_type t @ ''>('' @ argument @ '')''
      else if is_pointer t then ''static_cast<'' @ native_type t @ ''>('' @ argument @ '')''
      else if is_bool t then ''('' @ argument @ '' != 0)''
      else ''static_cast<'' @ native_type t @ ''>('' @ argument @ '')'')"

fun separated :: "string \<Rightarrow> string list \<Rightarrow> string" where
  "separated between [] = []"
| "separated between [x] = x"
| "separated between (x # y # xs) = x @ between @ separated between (y # xs)"

definition append_thunk :: "string \<Rightarrow> string \<Rightarrow> lowered_class \<Rightarrow> lowered_method \<Rightarrow> string" where
  "append_thunk prefix macro c m =
     text_lines [''extern \"C\" int32_t '' @ macro @ ''_CDECL '' @ method_symbol m @ ''('' @ c_parameters c m macro @ '')'', ''{''] @
     text_lines [''    if (receiver == nullptr'' @ (if has_result m then '' || result == nullptr'' else []) @
         concat (map null_check (arguments_of m)) @ '')'',
       ''    {'', ''        return '' @ prefix @ ''_status_invalid_argument;'', ''    }'', ''    try'', ''    {''] @
     concat (map copy_record (arguments_of m)) @ concat (map take_owned (arguments_of m)) @
     text_lines [''        '' @ (if has_result m then ''const auto value = '' else []) @
       ''(reinterpret_cast<::'' @ class_qualified_name (class_of c) @ ''*>(receiver)->'' @ method_name (method_of m) @ '')('' @
       separated '', '' (map pass_argument (arguments_of m)) @ '');''] @
     (if has_result m
      then text_lines
        [if is_record_value (method_result m) then ''        ::std::memcpy(result, &value, sizeof(value));''
         else ''        *result = static_cast<'' @ c_type (method_result m) @ ''>('' @
           (if is_bool (method_result m) then ''value ? 1 : 0'' else ''value'') @ '');'']
      else []) @
     text_lines [''        return '' @ prefix @ ''_status_ok;'', ''    }'', ''    catch (...)'', ''    {'',
       ''        return '' @ prefix @ ''_status_exception;'', ''    }'', ''}'', []]"

definition destroy_function :: "string \<Rightarrow> string \<Rightarrow> lowered_class \<Rightarrow> string" where
  "destroy_function prefix macro c =
     (if class_owned c
      then text_lines
        [''extern \"C\" int32_t '' @ macro @ ''_CDECL '' @ class_handle c @ ''_destroy('' @ class_handle c @ ''** receiver)'', ''{'',
         ''    if (receiver == nullptr || *receiver == nullptr) return '' @ prefix @ ''_status_invalid_argument;'',
         ''    auto* object = reinterpret_cast<::'' @ class_qualified_name (class_of c) @ ''*>(*receiver);'',
         ''    *receiver = nullptr;'', ''    delete object;'', ''    return '' @ prefix @ ''_status_ok;'', ''}'', []]
      else [])"

fun includes_of :: "string list \<Rightarrow> string list \<Rightarrow> string" where
  "includes_of seen [] = []"
| "includes_of seen (file # files) =
     (if file \<in> set seen then includes_of seen files
      else text_lines [''#include '' @ quoted_literal file] @ includes_of (file # seen) files)"

definition target_guard :: "target_model \<Rightarrow> string" where
  "target_guard t =
     (if supported_target (triple t) \<and> pointer_width t \<noteq> 0
      then text_lines
        [''#if !('' @ (if windows_target (triple t) then ''defined(_WIN32)''
             else if linux_target (triple t) then ''defined(__linux__)'' else ''defined(__APPLE__) && defined(__MACH__)'') @
           '') || !('' @ (if x86_target (triple t) then ''defined(__i386__) || defined(_M_IX86)''
             else if x64_target (triple t) then ''defined(__x86_64__) || defined(_M_X64)''
             else ''defined(__aarch64__) || defined(__arm64__) || defined(_M_ARM64)'') @
           '') || defined(_M_ARM64EC) || defined(__arm64ec__)'',
         ''#error reflgen interop: regenerate with the matching compiler --target'', ''#endif'', []] @
        (if macos_target (triple t)
         then text_lines
           [''#if defined(__APPLE__) && defined(__MACH__)'', ''#include <TargetConditionals.h>'', ''#if !TARGET_OS_OSX'',
            ''#error reflgen interop: macOS bindings cannot target another Apple OS'', ''#endif'', ''#endif'', []]
         else [])
      else [])"

text \<open>The code indexes the lowered fields with the index of the field.\<close>

definition element :: "'a list \<Rightarrow> nat \<Rightarrow> 'a option" where
  "element xs i = (if i < length xs then Some (xs ! i) else None)"

definition field_assert :: "value_layout \<Rightarrow> nat \<times> value_field_model \<Rightarrow> string option" where
  "field_assert l f =
     (let cpp = ''::'' @ type_declaration (target (layout_of l)); name = member_name (snd f) in
      map_option (\<lambda>t. text_lines
        [''static_assert(offsetof('' @ cpp @ '', '' @ name @ '') == '' @ number (offset_bytes (snd f)) @
           '', \"reflgen value field offset changed\");'',
         ''static_assert(::std::is_same_v<decltype('' @ cpp @ ''::'' @ name @ ''), '' @ native_type t @
           ''>, \"reflgen value field type changed\");''])
        (element (layout_fields l) (fst f)))"

definition layout_assert :: "value_layout \<Rightarrow> string option" where
  "layout_assert l =
     (let v = layout_of l; cpp = ''::'' @ type_declaration (target v) in
      join (Some (text_lines
        [''static_assert(!::std::is_union_v<'' @ cpp @ ''> && ::std::is_standard_layout_v<'' @ cpp @ ''> && ::std::is_trivially_copyable_v<'' @
           cpp @ ''>, \"reflgen value must be a non-union standard layout trivially copyable record\");'',
         ''static_assert(sizeof('' @ cpp @ '') == '' @ number (size_bytes (target v)) @ '' && alignof('' @ cpp @ '') == '' @
           number (value_align_bytes v) @ '', \"reflgen value layout changed\");'']) #
        map (field_assert l) (enumerate 0 (alias_fields v))))"

definition cpp_source :: "target_model \<Rightarrow> string \<Rightarrow> string \<Rightarrow> string \<Rightarrow> lowered_class list \<Rightarrow> value_layout list \<Rightarrow> string option" where
  "cpp_source t prefix macro fingerprint cs layouts = join
     ([Some (text_lines
        [interop_banner, ''// Exports come from the header declarations; definitions inherit them.'', ''#define '' @ macro @ ''_BUILD'',
         ''#include '' @ quoted_literal (prefix @ ''.h''), ''#include '' @ quoted_literal (prefix @ ''_interop.h'')] @
        includes_of [] (map (\<lambda>c. pos_file (class_position (class_of c))) cs @ map (\<lambda>l. pos_file (alias_position (layout_of l))) layouts) @
        text_lines
        [''#include <array>'', ''#include <bit>'', ''#include <cstddef>'', ''#include <cstring>'', ''#include <climits>'',
         ''#include <limits>'', ''#include <type_traits>'', []] @
        target_guard t @ calling_convention_macro (macro @ ''_CDECL'') @ text_lines
        [[], ''static_assert(CHAR_BIT == 8, \"reflgen interop requires 8-bit bytes\");''] @
        (if pointer_width t \<noteq> 0
         then text_lines [''static_assert(sizeof(void*) * CHAR_BIT == '' @ show_int (sint (pointer_width t)) @
           '', \"reflgen interop: regenerate bindings for this target\");'']
         else []) @
        append_static_asserts [] (concat (map (\<lambda>m. method_result m # method_arguments m) (concat (map class_methods cs)))) @
        concat (map (\<lambda>c. if class_owned c then text_lines [''static_assert(::std::is_nothrow_destructible_v<::'' @
          class_qualified_name (class_of c) @ ''>, \"owned interop requires a public nonthrowing destructor\");''] else []) cs))] @
      map layout_assert layouts @
      [Some (text_lines
        [[], ''// ABI contract fingerprint (FNV-1a 64-bit); this is not a cryptographic signature.'',
         ''extern \"C\" uint64_t '' @ macro @ ''_CDECL '' @ prefix @ ''_abi_fingerprint(void)'', ''{'',
         ''    return 0x'' @ fingerprint @ ''ULL;'', ''}'', []] @
        concat (map (\<lambda>c. destroy_function prefix macro c @ concat (map (append_thunk prefix macro c) (class_methods c))) cs) @
        text_lines [''#undef '' @ macro @ ''_CDECL'', ''#undef '' @ macro @ ''_BUILD''])])"

section \<open>C#\<close>

definition csharp_import :: "string \<Rightarrow> string" where
  "csharp_import symbol = text_lines
     [''        [global::System.Runtime.InteropServices.DllImport(LibraryName, EntryPoint = '' @ quoted_literal symbol @
      '', ExactSpelling = true, CallingConvention = '' @ ''global::System.Runtime.InteropServices.CallingConvention.Cdecl)]'']"

definition csharp_argument :: "nat \<times> lowered_type \<Rightarrow> string" where
  "csharp_argument a = '', '' @ csharp_type (snd a) @ '' '' @ argument_name (fst a)"

definition csharp_method :: "lowered_method \<Rightarrow> string" where
  "csharp_method m =
     (if method_target m \<noteq> Csharp_Target then []
      else text_lines [[]] @ csharp_import (method_symbol m) @ text_lines
        [''        public static extern int '' @ method_symbol m @ ''(nint receiver'' @ concat (map csharp_argument (arguments_of m)) @
         (if has_result m then '', out '' @ csharp_type (method_result m) @ '' result'' else []) @ '');''])"

definition csharp_source :: "interop_options \<Rightarrow> string \<Rightarrow> string \<Rightarrow> bool \<Rightarrow> lowered_class list \<Rightarrow> string" where
  "csharp_source options prefix fingerprint has_csharp cs =
     (if \<not> has_csharp then text_lines [interop_banner, ''// No C# types were selected for this module.'']
      else text_lines
        [interop_banner, [], ''namespace '' @ escaped_namespace (csharp_namespace options), ''{'',
         ''    // Raw C ABI declarations; receiver is a borrowed native address, never a managed object.'',
         ''    // The caller must keep the exact native object alive and coordinate concurrent access.'',
         ''    // There is no ownership, Dispose, stale-handle validation or automatic error translation.'',
         ''    // Compare the native fingerprint with AbiFingerprint before exchanging handles.'',
         ''    // bool parameters/results are bytes: nonzero input is true; output is 0 or 1.'',
         ''    // Output values are valid only on StatusOk. DllImport does not promise NativeAOT support.'',
         ''    public static class '' @ prefix @ ''_interop'', ''    {'',
         ''        public const string LibraryName = '' @ quoted_literal (library_of options) @ '';'',
         ''        public const ulong AbiFingerprint = 0x'' @ fingerprint @ ''UL;'',
         ''        public const int StatusOk = 0;'', ''        public const int StatusInvalidArgument = 1;'',
         ''        public const int StatusException = 2;'', []] @
        csharp_import (prefix @ ''_abi_fingerprint'') @
        text_lines [''        public static extern ulong '' @ prefix @ ''_abi_fingerprint();''] @
        concat (map csharp_method (concat (map class_methods cs))) @ text_lines [''    }'', ''}''])"

section \<open>F#\<close>

fun quoted_namespace :: "string \<Rightarrow> string \<Rightarrow> string" where
  "quoted_namespace part [] = ''``'' @ part @ ''``''"
| "quoted_namespace part (c # s) =
     (if c = CHR ''.'' then ''``'' @ part @ ''``.'' @ quoted_namespace [] s else quoted_namespace (part @ [c]) s)"

definition system_types :: "(string \<times> string) list" where
  "system_types = [(''sbyte'', ''System.SByte''), (''byte'', ''System.Byte''), (''short'', ''System.Int16''), (''ushort'', ''System.UInt16''),
     (''int'', ''System.Int32''), (''uint'', ''System.UInt32''), (''long'', ''System.Int64''), (''ulong'', ''System.UInt64''),
     (''float'', ''System.Single''), (''double'', ''System.Double'')]"

definition fsharp_types :: "(string \<times> string) list" where
  "fsharp_types = [(''sbyte'', ''int8''), (''byte'', ''uint8''), (''short'', ''int16''), (''ushort'', ''uint16''),
     (''int'', ''int32''), (''uint'', ''uint32''), (''long'', ''int64''), (''ulong'', ''uint64''),
     (''float'', ''float32''), (''double'', ''float''), (''nint'', ''nativeint'')]"

definition fs_type :: "lowered_type \<Rightarrow> string option" where
  "fs_type t = map_of fsharp_types (csharp_type t)"

definition fsharp_preamble :: "interop_options \<Rightarrow> string \<Rightarrow> string \<Rightarrow> string" where
  "fsharp_preamble options prefix fingerprint =
     text_lines
     [interop_banner, ''namespace '' @ quoted_namespace [] (csharp_namespace options), [], ''open System.Runtime.InteropServices'', [],
      ''module '' @ prefix @ ''_interop ='',
      ''    // Receivers must be live native objects; compare the fingerprint before use.'',
      ''    [<Literal>]'', ''    let LibraryName = '' @ quoted_literal (library_of options),
      ''    [<Literal>]'', ''    let AbiFingerprint = 0x'' @ fingerprint @ ''UL'',
      ''    [<Literal>]'', ''    let StatusOk = 0'', ''    [<Literal>]'', ''    let StatusInvalidArgument = 1'',
      ''    [<Literal>]'', ''    let StatusException = 2'', [],
      ''    // The native function must not retain this address. Embedded NUL and invalid UTF-16 are rejected.'',
      ''    let withUtf8 (text: string) (invoke: nativeint -> '' @ [CHR 0x27] @ ''T) : '' @ [CHR 0x27] @ ''T ='',
      ''        if isNull text then nullArg \"text\"'',
      ''        if text.IndexOf('' @ [CHR 0x27, CHR 0x5C] @ ''000'' @ [CHR 0x27] @ '') >= 0 then invalidArg \"text\" \"Embedded NUL is not supported\"'',
      ''        let bytes = System.Text.UTF8Encoding(false, true).GetBytes(text)'',
      ''        let size = System.Convert.ToInt32(int64 bytes.Length + 1L)'',
      ''        let address = Marshal.AllocCoTaskMem(size)'', ''        try'', ''            Marshal.Copy(bytes, 0, address, bytes.Length)'',
      ''            Marshal.WriteByte(address, bytes.Length, 0uy)'', ''            invoke address'',
      ''        finally Marshal.FreeCoTaskMem(address)'', []]"

definition layout_check :: "value_layout \<Rightarrow> nat \<times> value_field_model \<Rightarrow> string option" where
  "layout_check l f =
     Option.bind (element (layout_fields l) (fst f)) (\<lambda>t. map_option (\<lambda>system. text_lines
       [''            (let f = t.GetField('' @ quoted_literal (member_name (snd f)) @ '') in not (isNull f) && f.FieldType = typeof<'' @ system @ ''>) &&'',
        ''            Marshal.OffsetOf(t, '' @ quoted_literal (member_name (snd f)) @ '').ToInt64() = '' @ number (offset_bytes (snd f)) @ ''L &&''])
       (map_of system_types (csharp_type t)))"

definition fsharp_layout :: "value_layout \<Rightarrow> string option" where
  "fsharp_layout l =
     (let v = layout_of l; name = layout_name l in join
       ([Some (text_lines
          [''    // Check both layout and native allocation alignment before passing this record.'',
           ''    let validate'' @ name @ ''Layout (t: System.Type) ='', ''        try'',
           ''            t.IsValueType && (t.IsLayoutSequential || t.IsExplicitLayout) && Marshal.SizeOf(t) = '' @ number (size_bytes (target v)) @ '' &&'',
           ''            t.GetFields(System.Reflection.BindingFlags.Instance ||| System.Reflection.BindingFlags.Public ||| '' @
             ''System.Reflection.BindingFlags.NonPublic).Length = '' @ show_nat (length (alias_fields v)) @ '' &&''])] @
        map (layout_check l) (enumerate 0 (alias_fields v)) @
        [Some (text_lines
          [''            true'', ''        with _ -> false'',
           ''    let is'' @ name @ ''Aligned (address: nativeint) = address <> 0n && (address.ToInt64() % '' @ number (value_align_bytes v) @ ''L = 0L)'', []])]))"

definition fsharp_callback :: string where
  "fsharp_callback = text_lines
     [''    [<UnmanagedFunctionPointer(CallingConvention.Cdecl)>]'', ''    type SynchronousCallback = delegate of int32 -> int32'', [],
      ''    // The native function must invoke only on this thread and must not retain the callback.'',
      ''    let withSynchronousCallback (callback: int32 -> int32) (invoke: nativeint -> '' @ [CHR 0x27] @ ''T) : '' @ [CHR 0x27] @ ''T ='',
      ''        let mutable failure: exn option = None'', ''        let callbackThread = System.Environment.CurrentManagedThreadId'',
      ''        let thunk = SynchronousCallback(fun value ->'', ''            try'',
      ''                if System.Environment.CurrentManagedThreadId <> callbackThread then invalidOp \"callback on another thread\"'',
      ''                callback value'', ''            with e -> failure <- Some e; 0)'',
      ''        let address = Marshal.GetFunctionPointerForDelegate(thunk)'', ''        try'', ''            let result = invoke address'',
      ''            match failure with Some e -> raise e | None -> result'', ''        finally System.GC.KeepAlive(thunk)'', []]"

definition fsharp_import :: "string \<Rightarrow> string" where
  "fsharp_import symbol = text_lines
     [''    [<DllImport(LibraryName, EntryPoint = '' @ quoted_literal symbol @
      '', ExactSpelling = true, CallingConvention = CallingConvention.Cdecl)>]'']"

definition fsharp_argument :: "nat \<times> lowered_type \<Rightarrow> string option" where
  "fsharp_argument a = map_option (\<lambda>t. '', '' @ t @ (if is_owned_argument (snd a) then ''& argument_'' else '' argument_'') @ show_nat (fst a))
     (fs_type (snd a))"

definition fsharp_method :: "lowered_method \<Rightarrow> string option" where
  "fsharp_method m =
     (if method_target m \<noteq> Fsharp_Target then Some []
      else join ([Some (text_lines [[]] @ fsharp_import (method_symbol m) @ ''    extern int32 '' @ method_symbol m @ ''(nativeint receiver'')] @
        map fsharp_argument (arguments_of m) @
        (if has_result m
         then [map_option (\<lambda>t. '', '' @ t @ (if is_record_value (method_result m) then '' result'' else ''& result'')) (fs_type (method_result m))]
         else []) @
        [Some (text_lines ['')''])]))"

definition fsharp_externs :: "lowered_class \<Rightarrow> string option" where
  "fsharp_externs c = join
     ([Some (if class_owned c
         then text_lines [[]] @ fsharp_import (class_handle c @ ''_destroy'') @
           text_lines [''    extern int32 '' @ class_handle c @ ''_destroy(nativeint& receiver)'']
         else [])] @ map fsharp_method (class_methods c))"

definition owned_type_name :: "string \<Rightarrow> string" where
  "owned_type_name declaration = ''Owned_'' @ symbol_component declaration"

definition fsharp_owned :: "string \<Rightarrow> lowered_class \<Rightarrow> string" where
  "fsharp_owned prefix c =
     (let name = owned_type_name (class_qualified_name (class_of c)); quote = [CHR 0x27] in
      if \<not> class_owned c then []
      else text_lines
        [[], ''    // Takes exactly one unique ownership reference from a compatible native factory.'',
         ''    type '' @ name @ '' private (address: nativeint) as this ='', ''        inherit SafeHandle(System.IntPtr.Zero, true)'',
         ''        let gate = obj()'', ''        let mutable active = false'', ''        do this.SetHandle(address)'',
         ''        member internal _.Gate = gate'', ''        member internal _.Active with get() = active and set(value) = active <- value'',
         ''        override this.IsInvalid = this.handle = 0n'', ''        override this.ReleaseHandle() ='',
         ''            let mutable address = this.handle'',
         ''            try '' @ class_handle c @ ''_destroy(&address) = StatusOk with _ -> false'',
         ''        static member TakeOwnership(address: nativeint) ='',
         ''            if address = 0n then invalidArg \"address\" \"null owned address\"'',
         ''            if '' @ prefix @ ''_abi_fingerprint() <> AbiFingerprint then invalidOp \"ABI fingerprint mismatch\"'',
         ''            new '' @ name @ ''(address)'', [],
         ''    let with'' @ name @ '' (owner: '' @ name @ '') (invoke: nativeint -> '' @ quote @ ''T) ='',
         ''        if isNull (box owner) then nullArg \"owner\"'', ''        lock owner.Gate (fun () ->'',
         ''            if owner.Active then invalidOp \"reentrant owned handle access\"'', ''            owner.Active <- true'',
         ''            let mutable acquired = false'', ''            try'', ''                owner.DangerousAddRef(&acquired)'',
         ''                invoke (owner.DangerousGetHandle())'', ''            finally'',
         ''                if acquired then owner.DangerousRelease()'', ''                owner.Active <- false)'', [],
         ''    // The callback must pass this slot directly to the matching consuming ABI; never modify it.'',
         ''    let transfer'' @ name @ '' (owner: '' @ name @ '') (invoke: nativeint ref -> '' @ quote @ ''T) ='',
         ''        if isNull (box owner) then nullArg \"owner\"'', ''        lock owner.Gate (fun () ->'',
         ''            if owner.Active then invalidOp \"reentrant owned handle access\"'', ''            owner.Active <- true'',
         ''            let mutable acquired = false'', ''            try'', ''                owner.DangerousAddRef(&acquired)'',
         ''                let original = owner.DangerousGetHandle()'', ''                let slot = ref original'', ''                try'',
         ''                    let result = invoke slot'',
         ''                    if slot.Value <> 0n && slot.Value <> original then invalidOp \"consuming ABI changed the ownership slot unexpectedly\"'',
         ''                    result'', ''                finally'', ''                    if slot.Value = 0n then owner.SetHandleAsInvalid()'',
         ''            finally'', ''                if acquired then owner.DangerousRelease()'', ''                owner.Active <- false)''])"

text \<open>The type that is handed over is the target of the first parameter; a parameter without target would be a null pointer.\<close>

definition consumed_type :: "lowered_method \<Rightarrow> string option" where
  "consumed_type m =
     Option.bind (element (parameter_declarations (method_of m)) 0) (\<lambda>parameter.
       map_option (\<lambda>p. owned_type_name (type_declaration p)) (pointee (parameter_type parameter)))"

definition helper_argument :: "nat \<times> lowered_type \<Rightarrow> string option" where
  "helper_argument a = map_option (\<lambda>t. '' (argument_'' @ show_nat (fst a) @ '': '' @ t @ '')'') (fs_type (snd a))"

definition fsharp_transfer :: "lowered_method \<Rightarrow> string option" where
  "fsharp_transfer m =
     (if method_target m \<noteq> Fsharp_Target \<or> method_arguments m = [] \<or> \<not> is_owned_argument (hd (method_arguments m)) then Some []
      else Option.bind (consumed_type m) (\<lambda>owned_type.
        let scalar = (has_result m \<and> \<not> is_record_value (method_result m)) in join
        ([Some (text_lines [[], ''    // Returns status and a value only when the native method has a scalar result.''] @
            ''    let transfer_'' @ method_symbol m @ '' (receiver: nativeint) (owner: '' @ owned_type @ '')'')] @
         map helper_argument (tl (arguments_of m)) @
         [Some (if is_record_value (method_result m) then '' (resultAddress: nativeint)'' else []),
          Some (text_lines ['' ='', ''        transfer'' @ owned_type @ '' owner (fun slot ->'']),
          if scalar then map_option (\<lambda>t. text_lines [''            let mutable result = Unchecked.defaultof<'' @ t @ ''>'']) (fs_type (method_result m))
          else Some [],
          Some (''            let status = '' @ method_symbol m @ ''(receiver, &slot.contents'' @
            concat (map (\<lambda>a. '', '' @ argument_name (fst a)) (tl (arguments_of m))) @
            (if has_result m then if is_record_value (method_result m) then '', resultAddress'' else '', &result'' else []) @
            text_lines ['')'', ''            '' @ (if scalar then ''status, result)'' else ''status)'')])])))"

definition passes_callback :: "lowered_class list \<Rightarrow> bool" where
  "passes_callback cs \<longleftrightarrow>
     list_ex (\<lambda>m. method_target m = Fsharp_Target \<and> list_ex is_callback (method_arguments m)) (concat (map class_methods cs))"

definition fsharp_source :: "interop_options \<Rightarrow> string \<Rightarrow> string \<Rightarrow> bool \<Rightarrow> lowered_class list \<Rightarrow> value_layout list \<Rightarrow> string option" where
  "fsharp_source options prefix fingerprint has_fsharp cs layouts =
     (if \<not> has_fsharp then Some (text_lines [interop_banner, ''// No F# types were selected for this module.''])
      else join
        ([Some (fsharp_preamble options prefix fingerprint)] @ map fsharp_layout layouts @
         [Some (if passes_callback cs then fsharp_callback else []),
          Some (fsharp_import (prefix @ ''_abi_fingerprint'') @ text_lines [''    extern uint64 '' @ prefix @ ''_abi_fingerprint()''])] @
         map fsharp_externs cs @ [Some (concat (map (fsharp_owned prefix) cs))] @
         map fsharp_transfer (concat (map class_methods cs))))"

section \<open>The output\<close>

record interop_output =
  output_header :: string
  output_source :: string
  output_csharp :: string
  output_fsharp :: string
  output_fingerprint :: string

definition no_output :: interop_output where
  "no_output = \<lparr>output_header = [], output_source = [], output_csharp = [], output_fsharp = [], output_fingerprint = []\<rparr>"

text \<open>The diagnostics that came before are handed in; with an error among all of them nothing is printed.\<close>

definition emit_interop :: "class_model list \<Rightarrow> target_model \<Rightarrow> interop_options \<Rightarrow> diagnostic list \<Rightarrow> value_model list
    \<Rightarrow> (interop_output \<times> diagnostic list) option" where
  "emit_interop exports t options report vs =
     (let plan = plan_interop exports t options vs; entries = report @ plan_report plan in
      if has_errors entries then Some (no_output, entries)
      else let prefix = prefix_of options; macro = uppercase prefix @ ''_INTEROP'';
          fingerprint = fingerprint_of (foldl append_contract [] (plan_contract plan)); cs = plan_classes plan; layouts = plan_layouts plan
        in Option.bind (cpp_source t prefix macro fingerprint cs layouts) (\<lambda>cpp.
           map_option (\<lambda>fs.
             (\<lparr>output_header = c_header (triple t) prefix macro cs, output_source = cpp,
               output_csharp = csharp_source options prefix fingerprint (plan_csharp plan) cs,
               output_fsharp = fs, output_fingerprint = fingerprint\<rparr>, entries))
             (fsharp_source options prefix fingerprint (plan_fsharp plan) cs layouts)))"

end
