(* ===== verification/Interop_Valid.thy ===== *)
theory Interop_Valid
  imports Interop_Emit
begin

text \<open>
  What the absence of errors says about the lowered classes, methods and values: the types agree in the
  three languages, every look-up of the emitters succeeds, and names are distinct.
\<close>

section \<open>Reports\<close>

lemma has_errors_iff: "has_errors ds \<longleftrightarrow> (\<exists>d\<in>set ds. diag_level d = Error)"
  by (simp add: has_errors_def list_ex_iff)

definition reserved :: "interop_event list \<Rightarrow> string list" where
  "reserved es = concat (map (\<lambda>e. case e of Reserved s place \<Rightarrow> [s] | Reported d \<Rightarrow> []) es)"

definition reported :: "interop_event list \<Rightarrow> diagnostic list" where
  "reported es = concat (map (\<lambda>e. case e of Reserved s place \<Rightarrow> [] | Reported d \<Rightarrow> [d]) es)"

lemma reserved_simps [simp]: "reserved [] = []" "reserved (Reserved s place # es) = s # reserved es" "reserved (Reported d # es) = reserved es"
  "reserved (es @ es') = reserved es @ reserved es'" "reserved (map Reported ds) = []"
  by (simp_all add: reserved_def comp_def)

lemma reported_simps [simp]: "reported [] = []" "reported (Reserved s place # es) = reported es" "reported (Reported d # es) = d # reported es"
  "reported (es @ es') = reported es @ reported es'" "reported (map Reported ds) = ds"
  by (simp_all add: reported_def comp_def)

lemma events_concat [simp]: "reserved (concat ess) = concat (map reserved ess)" "reported (concat ess) = concat (map reported ess)"
  by (induction ess) simp_all

lemma settle_errors:
  "has_errors (settle taken es) \<longleftrightarrow> has_errors (reported es) \<or> \<not> distinct (reserved es) \<or> set (reserved es) \<inter> set taken \<noteq> {}"
  by (induction taken es rule: settle.induct) auto

section \<open>Representations\<close>

text \<open>How a value crosses the boundary.\<close>

datatype abi = Signed_Integer nat | Unsigned_Integer nat | Floating_Point nat | Address | No_Value

definition c_abi :: "string \<Rightarrow> abi option" where
  "c_abi = map_of [(''int8_t'', Signed_Integer 1), (''int16_t'', Signed_Integer 2), (''int32_t'', Signed_Integer 4), (''int64_t'', Signed_Integer 8),
     (''uint8_t'', Unsigned_Integer 1), (''uint16_t'', Unsigned_Integer 2), (''uint32_t'', Unsigned_Integer 4), (''uint64_t'', Unsigned_Integer 8),
     (''float'', Floating_Point 4), (''double'', Floating_Point 8), (''void*'', Address), (''const void*'', Address), (''void**'', Address),
     (''callback_i32_i32'', Address), (''void'', No_Value)]"

definition csharp_abi :: "string \<Rightarrow> abi option" where
  "csharp_abi = map_of [(''sbyte'', Signed_Integer 1), (''short'', Signed_Integer 2), (''int'', Signed_Integer 4), (''long'', Signed_Integer 8),
     (''byte'', Unsigned_Integer 1), (''ushort'', Unsigned_Integer 2), (''uint'', Unsigned_Integer 4), (''ulong'', Unsigned_Integer 8),
     (''float'', Floating_Point 4), (''double'', Floating_Point 8), (''nint'', Address), (''void'', No_Value)]"

definition fsharp_abi :: "string \<Rightarrow> abi option" where
  "fsharp_abi = map_of [(''int8'', Signed_Integer 1), (''int16'', Signed_Integer 2), (''int32'', Signed_Integer 4), (''int64'', Signed_Integer 8),
     (''uint8'', Unsigned_Integer 1), (''uint16'', Unsigned_Integer 2), (''uint32'', Unsigned_Integer 4), (''uint64'', Unsigned_Integer 8),
     (''float32'', Floating_Point 4), (''float'', Floating_Point 8), (''nativeint'', Address)]"

text \<open>The bytes of a native number, when they are copied as they are.\<close>

fun abi_bytes :: "abi \<Rightarrow> nat option" where
  "abi_bytes (Signed_Integer n) = Some n"
| "abi_bytes (Unsigned_Integer n) = Some n"
| "abi_bytes (Floating_Point n) = Some n"
| "abi_bytes _ = None"

definition views_agree :: "lowered_type \<Rightarrow> abi \<Rightarrow> bool" where
  "views_agree l a \<longleftrightarrow> c_abi (c_type l) = Some a \<and> csharp_abi (csharp_type l) = Some a \<and>
     (a = No_Value \<longleftrightarrow> c_type l = ''void'') \<and>
     (a \<noteq> No_Value \<longrightarrow> (\<exists>f. fs_type l = Some f \<and> fsharp_abi f = Some a)) \<and>
     (\<forall>n. abi_bytes a = Some n \<and> \<not> is_bool l \<and> \<not> is_enum l \<longrightarrow> sint (native_size l) = int n)"

text \<open>At most one of the ways in which a value is passed.\<close>

definition one_way :: "lowered_type \<Rightarrow> bool" where
  "one_way l \<longleftrightarrow> (is_owned_argument l \<longrightarrow> \<not> is_owned_result l \<and> \<not> is_record_value l \<and> \<not> is_callback l) \<and>
     (is_owned_result l \<longrightarrow> \<not> is_record_value l \<and> \<not> is_callback l) \<and> (is_record_value l \<longrightarrow> \<not> is_callback l)"

lemma no_type_simps [simp]:
  "\<not> is_owned_argument no_type" "\<not> is_owned_result no_type" "\<not> is_record_value no_type" "\<not> is_callback no_type" "\<not> is_enum no_type"
  "\<not> is_pointer no_type" "\<not> is_bool no_type" "\<not> is_signed_type no_type" "\<not> is_floating no_type"
  by (simp_all add: no_type_def)

lemma lower_type_report: "lower_type t v place = (l, r) \<Longrightarrow> r = [] \<or> has_errors r"
proof (induction t v place arbitrary: l r rule: lower_type.induct)
  case (1 t v place)
  then show ?case
    by (subst (asm) (2) lower_type.simps) (auto split: option.splits prod.splits if_splits)
qed

lemma lower_type_cases:
  assumes "lower_type t v place = (l, [])"
  obtains (enumeration) e u where "enumeration_type t = Some e" "lower_type e False place = (u, [])"
      "l = (unlowered t)\<lparr>c_type := c_type u, csharp_type := csharp_type u, native_type := canonical_spelling t,
        is_signed_type := is_signed_type u, is_enum := True\<rparr>"
    | (plain) "enumeration_type t = None" "lower_plain t v = Some l"
  using assms by (subst (asm) lower_type.simps) (auto split: option.splits prod.splits if_splits)

lemma integer_width_cases:
  assumes "integer_width s n = Some (w, cs)"
  obtains "n = 1" "w = ''8''" "cs = (if s then ''sbyte'' else ''byte'')" | "n = 2" "w = ''16''" "cs = (if s then ''short'' else ''ushort'')"
    | "n = 4" "w = ''32''" "cs = (if s then ''int'' else ''uint'')" | "n = 8" "w = ''64''" "cs = (if s then ''long'' else ''ulong'')"
  using assms by (auto simp: integer_width_def split: if_splits)

lemmas abi_tables = c_abi_def csharp_abi_def fsharp_abi_def fs_type_def fsharp_types_def views_agree_def

lemma unlowered_simps [simp]:
  "native_size (unlowered t) = size_bytes t" "\<not> is_owned_argument (unlowered t)" "\<not> is_owned_result (unlowered t)" "\<not> is_record_value (unlowered t)"
  "\<not> is_callback (unlowered t)" "\<not> is_enum (unlowered t)" "\<not> is_pointer (unlowered t)" "\<not> is_bool (unlowered t)" "\<not> is_floating (unlowered t)"
  by (simp_all add: unlowered_def)

lemma lower_integer_views:
  assumes "lower_integer t = Some l"
  shows "\<exists>a. a \<noteq> No_Value \<and> views_agree l a \<and> csharp_type l \<in> fst ` set system_types" "one_way l"
proof -
  obtain w cs where w: "integer_width (type_kind t = ''signed_integer'') (sint (size_bytes t)) = Some (w, cs)"
    "l = (unlowered t)\<lparr>c_type := (if type_kind t = ''signed_integer'' then ''int'' else ''uint'') @ w @ ''_t'', csharp_type := cs,
      is_signed_type := (type_kind t = ''signed_integer'')\<rparr>"
    using assms by (auto simp: lower_integer_def integer_lowering_def Let_def split: if_splits)
  let ?a = "\<lambda>n. if type_kind t = ''signed_integer'' then Signed_Integer n else Unsigned_Integer n"
  from w(1) show "\<exists>a. a \<noteq> No_Value \<and> views_agree l a \<and> csharp_type l \<in> fst ` set system_types"
  proof (cases rule: integer_width_cases)
    case 1
    then have "views_agree l (?a 1)" by (simp add: w(2) abi_tables)
    then show ?thesis by (intro exI [of _ "?a 1"]) (simp add: w(2) 1 system_types_def)
  next
    case 2
    then have "views_agree l (?a 2)" by (simp add: w(2) abi_tables)
    then show ?thesis by (intro exI [of _ "?a 2"]) (simp add: w(2) 2 system_types_def)
  next
    case 3
    then have "views_agree l (?a 4)" by (simp add: w(2) abi_tables)
    then show ?thesis by (intro exI [of _ "?a 4"]) (simp add: w(2) 3 system_types_def)
  next
    case 4
    then have "views_agree l (?a 8)" by (simp add: w(2) abi_tables)
    then show ?thesis by (intro exI [of _ "?a 8"]) (simp add: w(2) 4 system_types_def)
  qed
  show "one_way l" by (simp add: w(2) one_way_def)
qed

lemma if_caseE: "(if b then x else y) = z \<Longrightarrow> (b \<Longrightarrow> x = z \<Longrightarrow> R) \<Longrightarrow> (\<not> b \<Longrightarrow> y = z \<Longrightarrow> R) \<Longrightarrow> R"
  by (simp split: if_splits)

lemma lower_plain_cases:
  assumes "lower_plain t v = Some l"
  obtains (callback) "\<not> v" "callback_pointer t"
      "l = (unlowered t)\<lparr>native_type := canonical_spelling t, c_type := ''callback_i32_i32'', csharp_type := ''nint'', is_callback := True\<rparr>"
    | (pointer) b where "\<not> v" "type_kind t = ''pointer''"
      "l = (unlowered t)\<lparr>native_type := canonical_spelling t, c_type := if b then ''const void*'' else ''void*'', csharp_type := ''nint'', is_pointer := True\<rparr>"
    | (void) "v" "type_kind t = ''void''" "l = (unlowered t)\<lparr>c_type := ''void'', csharp_type := ''void''\<rparr>"
    | (bool) "type_kind t = ''bool''" "l = (unlowered t)\<lparr>c_type := ''uint8_t'', csharp_type := ''byte'', is_bool := True\<rparr>"
    | (integer) "lower_integer t = Some l"
    | (float) "size_bytes t = 4" "l = (unlowered t)\<lparr>c_type := ''float'', csharp_type := ''float'', is_floating := True\<rparr>"
    | (double) "size_bytes t = 8" "l = (unlowered t)\<lparr>c_type := ''double'', csharp_type := ''double'', is_floating := True\<rparr>"
  using assms unfolding lower_plain_def Let_def
proof (elim if_caseE, goal_cases)
  case 3
  then have "type_kind t = ''pointer''" by (simp add: object_pointer_def split: if_splits)
  with 3 show ?case by (blast dest: sym)
qed (blast | metis option.sel)+

lemma lower_plain_views:
  assumes "lower_plain t v = Some l"
  shows "(\<exists>a. views_agree l a \<and> (a = No_Value \<longrightarrow> v)) \<and> one_way l"
  using assms
proof (cases rule: lower_plain_cases)
  case callback
  then have "views_agree l Address" by (simp add: abi_tables)
  then show ?thesis using callback by (auto simp: one_way_def)
next
  case (pointer b)
  then have "views_agree l Address" by (auto simp: abi_tables)
  then show ?thesis using pointer by (auto simp: one_way_def)
next
  case void
  then have "views_agree l No_Value" by (simp add: abi_tables)
  then show ?thesis using void by (auto simp: one_way_def)
next
  case bool
  then have "views_agree l (Unsigned_Integer 1)" by (simp add: abi_tables)
  then show ?thesis using bool by (auto simp: one_way_def)
next
  case integer
  from lower_integer_views [OF this] show ?thesis by blast
next
  case float
  then have "views_agree l (Floating_Point 4)" by (simp add: abi_tables)
  then show ?thesis using float by (auto simp: one_way_def)
next
  case double
  then have "views_agree l (Floating_Point 8)" by (simp add: abi_tables)
  then show ?thesis using double by (auto simp: one_way_def)
qed

lemma lower_type_views:
  "lower_type t v place = (l, []) \<Longrightarrow> (\<exists>a. views_agree l a \<and> (a = No_Value \<longrightarrow> v)) \<and> one_way l"
proof (induction t v place arbitrary: l rule: lower_type.induct)
  case (1 t v place)
  from 1(2) show ?case
  proof (cases rule: lower_type_cases)
    case (enumeration e u)
    from 1(1) [OF enumeration(1,2)] obtain a where "views_agree u a" "a \<noteq> No_Value" by blast
    then have "views_agree l a" by (simp add: enumeration(3) views_agree_def fs_type_def)
    then show ?thesis using \<open>a \<noteq> No_Value\<close> by (auto simp: enumeration(3) one_way_def)
  next
    case plain
    then show ?thesis by (blast dest: lower_plain_views)
  qed
qed

lemma layout_field_type:
  assumes "lower_type t False place = (l, [])" "type_kind t = ''signed_integer'' \<or> type_kind t = ''unsigned_integer'' \<or> type_kind t = ''floating_point''"
  shows "\<exists>s. map_of system_types (csharp_type l) = Some s"
proof -
  have "lower_plain t False = Some l" using assms(1)
  proof (cases rule: lower_type_cases)
    case (enumeration e u)
    then show ?thesis using assms(2) by (auto simp: enumeration_type_def split: if_splits)
  qed
  then have "csharp_type l \<in> fst ` set system_types"
  proof (cases rule: lower_plain_cases)
    case callback
    then show ?thesis using assms(2) by (auto simp: callback_pointer_def)
  next
    case integer
    from lower_integer_views(1) [OF this] show ?thesis by blast
  next
    case float
    then show ?thesis by (simp add: system_types_def)
  next
    case double
    then show ?thesis by (simp add: system_types_def)
  qed (use assms(2) in auto)
  then show ?thesis by (auto simp: image_iff dest: weak_map_of_SomeI)
qed

section \<open>Methods\<close>

lemma no_errors_lower_type: "lower_type t v place = (l, r) \<Longrightarrow> \<not> has_errors r \<Longrightarrow> lower_type t v place = (l, [])"
  using lower_type_report by fastforce

lemma record_value_views:
  assumes "lower_record_value vs t language result = Some l"
  shows "views_agree l Address" "one_way l" "\<not> is_owned_argument l"
  using assms by (auto simp: lower_record_value_def abi_tables one_way_def split: if_splits)

lemma value_or_type_views:
  assumes "lower_value_or_type vs t language v place = (l, r)" "\<not> has_errors r"
  shows "(\<exists>a. views_agree l a \<and> (a = No_Value \<longrightarrow> v)) \<and> one_way l"
proof (cases "lower_record_value vs t language v")
  case None
  then have "lower_type t v place = (l, r)" using assms(1) by (simp add: lower_value_or_type_def)
  from lower_type_views [OF no_errors_lower_type [OF this assms(2)]] show ?thesis .
next
  case (Some k)
  then have "k = l" using assms(1) by (simp add: lower_value_or_type_def)
  with Some record_value_views [of vs t language v l] show ?thesis by blast
qed

lemma owned_pointer_views:
  "views_agree ((owned_pointer t)\<lparr>c_type := ''void*'', is_owned_result := True\<rparr>) Address"
  "views_agree ((owned_pointer t)\<lparr>c_type := ''void**'', is_owned_argument := True\<rparr>) Address"
  "one_way ((owned_pointer t)\<lparr>c_type := ''void*'', is_owned_result := True\<rparr>)"
  "one_way ((owned_pointer t)\<lparr>c_type := ''void**'', is_owned_argument := True\<rparr>)"
  by (simp_all add: owned_pointer_def abi_tables one_way_def)

lemma lower_result_views:
  assumes "lower_result exports vs p m = (l, r)" "\<not> has_errors r"
  shows "(\<exists>a. views_agree l a) \<and> one_way l"
proof (cases "owned_return p")
  case True
  then have "l = (owned_pointer (return_type m))\<lparr>c_type := ''void*'', is_owned_result := True\<rparr>"
    using assms by (auto simp: lower_result_def split: if_splits)
  then show ?thesis using owned_pointer_views by blast
next
  case False
  then have "lower_value_or_type vs (return_type m) (policy_target p) True (method_position m) = (l, r)" using assms by (simp add: lower_result_def)
  from value_or_type_views [OF this assms(2)] show ?thesis by blast
qed

lemma lower_argument_views:
  assumes "lower_argument exports vs p i q = (l, r)" "\<not> has_errors r"
  shows "(\<exists>a. views_agree l a \<and> a \<noteq> No_Value) \<and> one_way l"
proof (cases "i = 0 \<and> consume_first p")
  case True
  then have "l = (owned_pointer (parameter_type q))\<lparr>c_type := ''void**'', is_owned_argument := True\<rparr>"
    using assms by (auto simp: lower_argument_def Let_def split: if_splits)
  then show ?thesis using owned_pointer_views by blast
next
  case False
  then have "lower_value_or_type vs (parameter_type q) (policy_target p) False (parameter_position q) = (l, r)"
    using assms by (auto simp: lower_argument_def Let_def)
  from value_or_type_views [OF this assms(2)] show ?thesis by blast
qed

lemma lower_type_not_owned:
  assumes "lower_type t v place = (l, [])"
  shows "\<not> is_owned_argument l \<and> \<not> is_owned_result l \<and> \<not> is_record_value l"
  using assms
proof (cases rule: lower_type_cases)
  case plain
  from plain(2) show ?thesis
    by (cases rule: lower_plain_cases) (auto simp: lower_integer_def Let_def)
qed simp_all

text \<open>An argument that is consumed points to a class that is handed over.\<close>

lemma lower_argument_owned:
  assumes "lower_argument exports vs p i q = (l, r)" "\<not> has_errors r" "is_owned_argument l"
  shows "i = 0" "owned_class_pointer exports (parameter_type q)" "consume_first p"
proof -
  have "i = 0 \<and> consume_first p"
  proof (rule ccontr)
    assume "\<not> (i = 0 \<and> consume_first p)"
    then have v: "lower_value_or_type vs (parameter_type q) (policy_target p) False (parameter_position q) = (l, r)"
      using assms by (auto simp: lower_argument_def Let_def)
    show False
    proof (cases "lower_record_value vs (parameter_type q) (policy_target p) False")
      case None
      then show ?thesis using v assms(2,3) lower_type_not_owned no_errors_lower_type by (fastforce simp: lower_value_or_type_def)
    next
      case (Some k)
      then show ?thesis using v assms(3) record_value_views(3) [OF Some] by (simp add: lower_value_or_type_def)
    qed
  qed
  then show "i = 0" "owned_class_pointer exports (parameter_type q)" "consume_first p"
    using assms by (auto simp: lower_argument_def Let_def split: if_splits)
qed

lemma arguments_lowered:
  assumes "(i, l) \<in> set (enumerate 0 (map fst (lower_arguments exports vs p qs)))" "\<not> has_errors (concat (map snd (lower_arguments exports vs p qs)))"
  shows "i < length qs \<and> (\<exists>r. lower_argument exports vs p i (qs ! i) = (l, r) \<and> \<not> has_errors r)"
proof -
  let ?as = "lower_arguments exports vs p qs"
  have i: "i < length qs" "l = fst (?as ! i)" "?as ! i = lower_argument exports vs p i (qs ! i)"
    using assms(1) by (auto simp: in_set_enumerate_eq lower_arguments_def nth_enumerate_eq)
  have "length ?as = length qs" by (simp add: lower_arguments_def)
  then have "?as ! i \<in> set ?as" using i(1) nth_mem [of i ?as] by simp
  then have "\<not> has_errors (snd (?as ! i))" using assms(2) by (auto simp: has_errors_iff)
  with i show ?thesis by (intro conjI exI [of _ "snd (?as ! i)"]) (simp_all add: prod_eq_iff)
qed

definition lowered_from :: "class_model list \<Rightarrow> value_model list \<Rightarrow> string \<Rightarrow> class_model \<Rightarrow> annotation_policy \<Rightarrow> method_model \<Rightarrow> lowered_method \<Rightarrow> bool" where
  "lowered_from exports vs prefix c cp m l \<longleftrightarrow>
     (let p = fst (read_policy (method_attributes m) False) in
      has_interop p \<and> has_interop cp \<and> \<not> has_errors (snd (read_policy (method_attributes m) False)) \<and>
      (policy_target p = Csharp_Target \<longrightarrow> policy_target cp = Csharp_Target) \<and>
      (policy_target p = Fsharp_Target \<longrightarrow> policy_target cp = Fsharp_Target) \<and>
      \<not> unsupported_interop_method (length (filter (\<lambda>n. method_name n = method_name m) (methods_of c))) m \<and>
      method_of l = m \<and> method_symbol l = prefix @ ''_'' @ symbol_component (class_qualified_name c) @ ''_'' @ method_name m \<and>
      method_target l = policy_target p \<and> (\<exists>r. lower_result exports vs p m = (method_result l, r) \<and> \<not> has_errors r) \<and>
      method_arguments l = map fst (lower_arguments exports vs p (parameter_declarations m)) \<and>
      \<not> has_errors (concat (map snd (lower_arguments exports vs p (parameter_declarations m)))))"

lemma has_errors_whens: "has_errors (error_when b code place msg @ ds) \<longleftrightarrow> b \<or> has_errors ds" by simp

lemma lower_method_valid:
  assumes "\<not> has_errors (reported (snd (lower_interop_method exports vs prefix c cp m)))" "l \<in> set (fst (lower_interop_method exports vs prefix c cp m))"
  shows "lowered_from exports vs prefix c cp m l"
proof -
  obtain p r where p: "read_policy (method_attributes m) False = (p, r)" by (metis prod.exhaust)
  obtain k q where k: "lower_result exports vs p m = (k, q)" by (metis prod.exhaust)
  have "has_interop p" using assms(2) by (auto simp: lower_interop_method_def p Let_def split: if_splits)
  with assms show ?thesis
    by (auto simp: lower_interop_method_def lowered_from_def p k Let_def)
qed

lemma lower_method_reserved:
  "reserved (snd (lower_interop_method exports vs prefix c cp m)) = map method_symbol (fst (lower_interop_method exports vs prefix c cp m))"
  by (simp add: lower_interop_method_def Let_def split: prod.split)

lemma lowered_views:
  assumes "lowered_from exports vs prefix c cp m l" "t \<in> set (method_result l # method_arguments l)"
  shows "\<exists>a. views_agree t a" "one_way t"
proof -
  have "(\<exists>a. views_agree t a) \<and> one_way t"
  proof (cases "t = method_result l")
    case True
    then show ?thesis using assms(1) lower_result_views by (auto simp: lowered_from_def Let_def)
  next
    case False
    then have "t \<in> set (method_arguments l)" using assms(2) by simp
    then have "t \<in> snd ` set (enumerate 0 (method_arguments l))" by (metis list.set_map map_snd_enumerate)
    then obtain i where "(i, t) \<in> set (enumerate 0 (method_arguments l))" by auto
    with assms(1) obtain i' q r where "lower_argument exports vs (fst (read_policy (method_attributes m) False)) i' q = (t, r)" "\<not> has_errors r"
      by (auto simp: lowered_from_def Let_def dest!: arguments_lowered)
    from lower_argument_views [OF this] show ?thesis by blast
  qed
  then show "\<exists>a. views_agree t a" "one_way t" by blast+
qed

section \<open>Classes\<close>

definition class_policy :: "class_model \<Rightarrow> annotation_policy" where
  "class_policy c = fst (read_policy (class_attributes c) True)"

lemma planned_policy_class: "planned_policy (lower_interop_class exports vs prefix c) = class_policy c"
  by (simp add: lower_interop_class_def class_policy_def Let_def split: prod.split)

definition class_lowered :: "class_model list \<Rightarrow> value_model list \<Rightarrow> string \<Rightarrow> class_model \<Rightarrow> lowered_class \<Rightarrow> bool" where
  "class_lowered exports vs prefix c l \<longleftrightarrow>
     has_interop (class_policy c) \<and> \<not> has_errors (snd (read_policy (class_attributes c) True)) \<and>
     \<not> has_errors (class_reports c (class_policy c)) \<and>
     class_of l = c \<and> class_handle l = prefix @ ''_'' @ symbol_component (class_qualified_name c) @ ''_handle'' \<and> class_owned l = owned (class_policy c) \<and>
     class_methods l = concat (map (fst \<circ> lower_interop_method exports vs prefix c (class_policy c)) (sort_key method_name (methods_of c))) \<and>
     (\<forall>m\<in>set (class_methods l). method_of m \<in> set (methods_of c) \<and> lowered_from exports vs prefix c (class_policy c) (method_of m) m)"

lemma lowered_method_of: "lowered_from exports vs prefix c cp m l \<Longrightarrow> method_of l = m"
  by (simp add: lowered_from_def Let_def)

lemma lower_class_valid:
  assumes "\<not> has_errors (reported (planned_events (lower_interop_class exports vs prefix c)))"
  shows "(case planned_class (lower_interop_class exports vs prefix c) of
      None \<Rightarrow> \<not> has_interop (class_policy c) \<and> planned_contract (lower_interop_class exports vs prefix c) = [] \<and>
        reserved (planned_events (lower_interop_class exports vs prefix c)) = []
    | Some l \<Rightarrow> class_lowered exports vs prefix c l \<and>
        planned_contract (lower_interop_class exports vs prefix c) =
          class_contract c (policy_target (class_policy c)) (class_owned l) @ concat (map method_contract (class_methods l)) \<and>
        reserved (planned_events (lower_interop_class exports vs prefix c)) =
          class_handle l # (if class_owned l then [class_handle l @ ''_destroy''] else []) @ map method_symbol (class_methods l))"
proof -
  obtain p r where p: "read_policy (class_attributes c) True = (p, r)" by (metis prod.exhaust)
  then have cp: "class_policy c = p" by (simp add: class_policy_def)
  let ?ms = "map (lower_interop_method exports vs prefix c p) (sort_key method_name (methods_of c))"
  have no: "\<not> has_errors r" "\<not> has_errors (class_reports c p)" "\<not> has_errors (concat (map (reported \<circ> snd) ?ms))"
    using assms by (auto simp: lower_interop_class_def p Let_def comp_def)
  have lowered: "method_of l \<in> set (methods_of c) \<and> lowered_from exports vs prefix c p (method_of l) l"
    if "m \<in> set (methods_of c)" "l \<in> set (fst (lower_interop_method exports vs prefix c p m))" for m l
  proof -
    have "lowered_from exports vs prefix c p m l"
      using that(2) no(3) that(1) by (intro lower_method_valid) (auto simp: has_errors_iff)
    with that(1) show ?thesis using lowered_method_of by blast
  qed
  have all: "\<forall>l\<in>set (concat (map fst ?ms)). method_of l \<in> set (methods_of c) \<and> lowered_from exports vs prefix c p (method_of l) l"
    using lowered by auto
  have reserved_ms: "concat (map (reserved \<circ> snd) ?ms) = map method_symbol (concat (map fst ?ms))"
    by (simp add: comp_def lower_method_reserved map_concat)
  show ?thesis
  proof (cases "has_interop p")
    case True
    with no all reserved_ms show ?thesis
      by (simp add: lower_interop_class_def p Let_def cp class_lowered_def comp_def)
  next
    case False
    then have "l \<notin> set (concat (map fst ?ms))" for l using all unfolding lowered_from_def Let_def by blast
    then have "concat (map fst ?ms) = []" by (metis list.set_intros(1) neq_Nil_conv)
    with False reserved_ms show ?thesis
      by (simp add: lower_interop_class_def p Let_def cp comp_def del: concat_eq_Nil_conv)
  qed
qed

section \<open>Values\<close>

definition layout_lowered :: "value_layout \<Rightarrow> bool" where
  "layout_lowered l \<longleftrightarrow>
     (let v = layout_of l in
      fsharp_value v \<and> cpp_identifier (layout_name l) \<and> layout_name l = fst (value_name_of v) \<and> \<not> unsupported_layout v \<and>
      length (layout_fields l) = length (alias_fields v) \<and>
      (\<forall>i<length (alias_fields v). \<not> unsupported_layout_field (alias_fields v ! i) \<and>
        lower_type (member_type (alias_fields v ! i)) False (alias_position v) = (layout_fields l ! i, [])))"

definition layout_items :: "value_layout \<Rightarrow> string list" where
  "layout_items l = layout_contract (layout_name l) (layout_of l) @
     concat (map (\<lambda>(f, t). [member_name f, show_int (sint (offset_bytes f))] @ type_contract t) (zip (alias_fields (layout_of l)) (layout_fields l)))"

lemma lower_layout_field_valid:
  assumes "\<not> has_errors (snd (snd (lower_layout_field place f)))"
  shows "\<exists>t. lower_layout_field place f = ([t], [member_name f, show_int (sint (offset_bytes f))] @ type_contract t, []) \<and>
    \<not> unsupported_layout_field f \<and> lower_type (member_type f) False place = (t, [])"
  using assms no_errors_lower_type
  by (cases "lower_type (member_type f) False place") (auto simp: lower_layout_field_def split: if_splits dest: lower_type_report)

lemma lower_fields_valid:
  assumes "\<not> has_errors (concat (map (snd \<circ> snd) (map (lower_layout_field place) fs)))"
  shows "\<exists>ts. length ts = length fs \<and> concat (map fst (map (lower_layout_field place) fs)) = ts \<and>
    concat (map (fst \<circ> snd) (map (lower_layout_field place) fs)) =
      concat (map (\<lambda>(f, t). [member_name f, show_int (sint (offset_bytes f))] @ type_contract t) (zip fs ts)) \<and>
    (\<forall>i<length fs. \<not> unsupported_layout_field (fs ! i) \<and> lower_type (member_type (fs ! i)) False place = (ts ! i, []))"
  using assms
proof (induction fs)
  case (Cons f fs)
  from lower_layout_field_valid [of place f] Cons.prems obtain t where
    t: "lower_layout_field place f = ([t], [member_name f, show_int (sint (offset_bytes f))] @ type_contract t, [])"
      "\<not> unsupported_layout_field f" "lower_type (member_type f) False place = (t, [])" by auto
  have "\<not> has_errors (concat (map (snd \<circ> snd) (map (lower_layout_field place) fs)))" using Cons.prems by (auto simp: has_errors_iff)
  from Cons.IH [OF this] obtain ts where ts: "length ts = length fs" "concat (map fst (map (lower_layout_field place) fs)) = ts"
    "concat (map (fst \<circ> snd) (map (lower_layout_field place) fs)) =
      concat (map (\<lambda>(f, t). [member_name f, show_int (sint (offset_bytes f))] @ type_contract t) (zip fs ts))"
    "\<forall>i<length fs. \<not> unsupported_layout_field (fs ! i) \<and> lower_type (member_type (fs ! i)) False place = (ts ! i, [])" by blast
  then have "\<forall>i<length (f # fs). \<not> unsupported_layout_field ((f # fs) ! i) \<and> lower_type (member_type ((f # fs) ! i)) False place = ((t # ts) ! i, [])"
    using t by (auto simp: less_Suc_eq_0_disj)
  with t ts show ?case by (intro exI [of _ "t # ts"]) (simp add: comp_def)
qed simp

lemma lower_layouts_valid:
  assumes "lower_layouts names vs = (ls, items, r)" "\<not> has_errors r"
  shows "map layout_of ls = filter fsharp_value vs \<and> list_all layout_lowered ls \<and> items = concat (map layout_items ls) \<and>
    distinct (map layout_name ls) \<and> set (map layout_name ls) \<inter> set names = {}"
  using assms
proof (induction vs arbitrary: names ls items r)
  case (Cons v vs)
  show ?case
  proof (cases "fsharp_value v")
    case False
    obtain ls' items' r' where "lower_layouts names vs = (ls', items', r')" by (metis prod.exhaust)
    moreover from this Cons.prems False have "ls = ls'" "items = items'" "\<not> has_errors r'" by auto
    ultimately show ?thesis using Cons.IH False by simp
  next
    case True
    obtain name nr where n: "value_name_of v = (name, nr)" by (metis prod.exhaust)
    define names' where "names' = (if cpp_identifier name then name # names else names)"
    obtain ls' items' r' where rest: "lower_layouts names' vs = (ls', items', r')" by (metis prod.exhaust)
    let ?fs = "map (lower_layout_field (alias_position v)) (alias_fields v)"
    have ok: "\<not> (\<not> cpp_identifier name \<or> name \<in> set names \<or> unsupported_layout v)"
      using Cons.prems True n rest by (auto simp: names'_def [symmetric] Let_def split: if_splits)
    then have rest': "lower_layouts (name # names) vs = (ls', items', r')" using rest by (simp add: names'_def)
    with ok Cons.prems True n have step: "ls = \<lparr>layout_of = v, layout_name = name, layout_fields = concat (map fst ?fs)\<rparr> # ls'"
      "items = layout_contract name v @ concat (map (fst \<circ> snd) ?fs) @ items'" "\<not> has_errors (concat (map (snd \<circ> snd) ?fs))" "\<not> has_errors r'"
      by auto
    note IH = Cons.IH [OF rest step(4)]
    from lower_fields_valid [OF step(3)] obtain ts where ts: "length ts = length (alias_fields v)" "concat (map fst ?fs) = ts"
      "concat (map (fst \<circ> snd) ?fs) =
        concat (map (\<lambda>(f, t). [member_name f, show_int (sint (offset_bytes f))] @ type_contract t) (zip (alias_fields v) ts))"
      "\<forall>i<length (alias_fields v). \<not> unsupported_layout_field (alias_fields v ! i) \<and>
        lower_type (member_type (alias_fields v ! i)) False (alias_position v) = (ts ! i, [])" by blast
    with IH step(1,2) ok True n show ?thesis by (simp add: layout_lowered_def layout_items_def names'_def)
  qed
qed simp

section \<open>The plan\<close>

lemma sort_errors: "has_errors (concat (map f (sort_key k xs))) \<longleftrightarrow> (\<exists>x\<in>set xs. has_errors (f x))"
  by (auto simp: has_errors_iff)

definition selected_classes :: "class_model list \<Rightarrow> class_model list" where
  "selected_classes exports = filter (\<lambda>c. has_interop (class_policy c)) (sort_key class_qualified_name exports)"

definition lowered_symbols :: "lowered_class \<Rightarrow> string list" where
  "lowered_symbols l = class_handle l # (if class_owned l then [class_handle l @ ''_destroy''] else []) @ map method_symbol (class_methods l)"

definition status_symbols :: "string \<Rightarrow> string list" where
  "status_symbols prefix = map ((@) prefix) [''_abi_fingerprint'', ''_status_ok'', ''_status_invalid_argument'', ''_status_exception'']"

definition lowered_contract :: "lowered_class \<Rightarrow> string list" where
  "lowered_contract l =
     class_contract (class_of l) (policy_target (class_policy (class_of l))) (class_owned l) @ concat (map method_contract (class_methods l))"

lemma class_plans:
  assumes "\<forall>c\<in>set cs. \<not> has_errors (reported (planned_events (lower_interop_class exports vs prefix c)))"
    "ls = List.map_filter planned_class (map (lower_interop_class exports vs prefix) cs)"
  shows "map class_of ls = filter (\<lambda>c. has_interop (class_policy c)) cs \<and>
    (\<forall>l\<in>set ls. class_of l \<in> set cs \<and> class_lowered exports vs prefix (class_of l) l) \<and>
    concat (map (\<lambda>c. planned_contract (lower_interop_class exports vs prefix c)) cs) = concat (map lowered_contract ls) \<and>
    concat (map (\<lambda>c. reserved (planned_events (lower_interop_class exports vs prefix c))) cs) = concat (map lowered_symbols ls)"
  using assms
proof (induction cs arbitrary: ls)
  case (Cons c cs)
  have c: "\<not> has_errors (reported (planned_events (lower_interop_class exports vs prefix c)))" using Cons.prems by simp
  note valid = lower_class_valid [OF c]
  have "\<forall>c\<in>set cs. \<not> has_errors (reported (planned_events (lower_interop_class exports vs prefix c)))" using Cons.prems by simp
  note IH = Cons.IH [OF this refl]
  show ?case
  proof (cases "planned_class (lower_interop_class exports vs prefix c)")
    case None
    with IH valid show ?thesis by (simp add: Cons.prems(2) List.map_filter_simps)
  next
    case (Some l)
    with valid have l: "class_lowered exports vs prefix c l" "class_of l = c" "has_interop (class_policy c)"
      by (simp_all add: class_lowered_def)
    with IH valid Some show ?thesis
      by (simp add: Cons.prems(2) List.map_filter_simps lowered_contract_def lowered_symbols_def)
  qed
qed (simp add: List.map_filter_simps)

lemma own_reserved [simp]: "reserved (own_symbols prefix) = status_symbols prefix" "reported (own_symbols prefix) = []"
  by (simp_all add: own_symbols_def status_symbols_def)

lemma plan_valid:
  assumes "plan = plan_interop exports t options vs" "\<not> has_errors (plan_report plan)"
  shows "map class_of (plan_classes plan) = selected_classes exports"
    "\<forall>l\<in>set (plan_classes plan). class_of l \<in> set exports \<and> class_lowered exports vs (prefix_of options) (class_of l) l"
    "distinct (status_symbols (prefix_of options) @ concat (map lowered_symbols (plan_classes plan)))"
    "map layout_of (plan_layouts plan) = filter fsharp_value (sort_key alias_name vs)"
    "list_all layout_lowered (plan_layouts plan)" "distinct (map layout_name (plan_layouts plan))"
    "plan_contract plan = module_contract options t @ concat (map lowered_contract (plan_classes plan)) @ concat (map layout_items (plan_layouts plan))"
    "plan_csharp plan \<longleftrightarrow> (\<exists>c\<in>set exports. policy_target (class_policy c) = Csharp_Target)"
    "plan_fsharp plan \<longleftrightarrow> (\<exists>c\<in>set exports. policy_target (class_policy c) = Fsharp_Target) \<or> list_ex fsharp_value vs"
    "\<not> has_errors (option_reports options)" "\<not> has_errors (target_reports exports t)"
proof -
  let ?sorted = "sort_key class_qualified_name exports" and ?lower = "lower_interop_class exports vs (prefix_of options)"
  obtain ls items r where layouts: "lower_layouts [] (sort_key alias_name vs) = (ls, items, r)" by (metis prod.exhaust)
  have report: "\<not> has_errors (option_reports options)" "\<not> has_errors (target_reports exports t)"
    "\<not> has_errors (settle [] (own_symbols (prefix_of options) @ concat (map planned_events (map ?lower ?sorted))))" "\<not> has_errors r"
    using assms by (simp_all add: plan_interop_def Let_def layouts)
  then show "\<not> has_errors (option_reports options)" "\<not> has_errors (target_reports exports t)" by blast+
  have "\<not> has_errors (reported (concat (map planned_events (map ?lower ?sorted))))" using report(3) by (simp add: settle_errors)
  then have ok: "\<forall>c\<in>set ?sorted. \<not> has_errors (reported (planned_events (?lower c)))" by (auto simp: has_errors_iff)
  have plan: "plan_classes plan = List.map_filter planned_class (map ?lower ?sorted)" "plan_layouts plan = ls"
    "plan_contract plan = module_contract options t @ concat (map (\<lambda>c. planned_contract (?lower c)) ?sorted) @ items"
    by (simp_all add: assms(1) plan_interop_def Let_def layouts comp_def)
  note classes = class_plans [OF ok plan(1)] and layouts_ok = lower_layouts_valid [OF layouts report(4)]
  show "map class_of (plan_classes plan) = selected_classes exports" using classes by (simp add: selected_classes_def)
  show "\<forall>l\<in>set (plan_classes plan). class_of l \<in> set exports \<and> class_lowered exports vs (prefix_of options) (class_of l) l"
    using classes by simp
  show "distinct (status_symbols (prefix_of options) @ concat (map lowered_symbols (plan_classes plan)))"
    using report(3) classes by (simp add: settle_errors comp_def del: distinct_append)
  show "map layout_of (plan_layouts plan) = filter fsharp_value (sort_key alias_name vs)" "list_all layout_lowered (plan_layouts plan)"
    "distinct (map layout_name (plan_layouts plan))"
    using layouts_ok plan(2) by simp_all
  show "plan_contract plan = module_contract options t @ concat (map lowered_contract (plan_classes plan)) @ concat (map layout_items (plan_layouts plan))"
    using layouts_ok plan classes by simp
  show "plan_csharp plan \<longleftrightarrow> (\<exists>c\<in>set exports. policy_target (class_policy c) = Csharp_Target)"
    "plan_fsharp plan \<longleftrightarrow> (\<exists>c\<in>set exports. policy_target (class_policy c) = Fsharp_Target) \<or> list_ex fsharp_value vs"
    by (auto simp: assms(1) plan_interop_def Let_def layouts list_ex_iff planned_policy_class)
qed

section \<open>Look-ups\<close>

lemma join_Some: "join ts \<noteq> None \<longleftrightarrow> (\<forall>t\<in>set ts. t \<noteq> None)"
  by (induction ts rule: join.induct) auto

lemma join_parts:
  "join (ts @ us) \<noteq> None \<longleftrightarrow> join ts \<noteq> None \<and> join us \<noteq> None"
  "join (t # ts) \<noteq> None \<longleftrightarrow> t \<noteq> None \<and> join ts \<noteq> None" "join [] \<noteq> None" "Some s \<noteq> None"
  "join (map f xs) \<noteq> None \<longleftrightarrow> (\<forall>x\<in>set xs. f x \<noteq> None)" "map_option g y \<noteq> None \<longleftrightarrow> y \<noteq> None"
  "(if b then y else z) \<noteq> None \<longleftrightarrow> (b \<longrightarrow> y \<noteq> None) \<and> (\<not> b \<longrightarrow> z \<noteq> None)"
  by (auto simp: join_Some simp del: not_None_eq)

lemma lowered_argument_of:
  assumes "lowered_from exports vs prefix c cp m l" "(i, t) \<in> set (arguments_of l)"
  shows "i < length (parameter_declarations m) \<and> (\<exists>r. lower_argument exports vs (fst (read_policy (method_attributes m) False)) i
    (parameter_declarations m ! i) = (t, r) \<and> \<not> has_errors r)"
  using assms arguments_lowered by (fastforce simp: lowered_from_def Let_def arguments_of_def)

lemma argument_fs_type:
  assumes "lowered_from exports vs prefix c cp m l" "(i, t) \<in> set (arguments_of l)"
  shows "fs_type t \<noteq> None"
  using lowered_argument_of [OF assms] lower_argument_views by (fastforce simp: views_agree_def)

lemma result_fs_type:
  assumes "lowered_from exports vs prefix c cp m l" "has_result l"
  shows "fs_type (method_result l) \<noteq> None"
  using lowered_views(1) [OF assms(1), of "method_result l"] assms(2) by (auto simp: views_agree_def has_result_def)

lemma bind_Some: "Option.bind x f \<noteq> None \<longleftrightarrow> (\<exists>y. x = Some y \<and> f y \<noteq> None)"
  by (cases x) auto

lemma layout_texts:
  assumes "layout_lowered l"
  shows "layout_assert l \<noteq> None" "fsharp_layout l \<noteq> None"
proof -
  let ?fs = "alias_fields (layout_of l)"
  have field: "element (layout_fields l) i = Some (layout_fields l ! i)" "\<exists>s. map_of system_types (csharp_type (layout_fields l ! i)) = Some s"
    if "i < length ?fs" for i
    using assms that layout_field_type by (auto simp: layout_lowered_def Let_def element_def unsupported_layout_field_def)
  have "field_assert l f \<noteq> None \<and> layout_check l f \<noteq> None" if "f \<in> set (enumerate 0 ?fs)" for f
  proof -
    have "fst f < length ?fs" using that by (auto simp: in_set_enumerate_eq)
    with field obtain s where "element (layout_fields l) (fst f) = Some (layout_fields l ! fst f)"
      "map_of system_types (csharp_type (layout_fields l ! fst f)) = Some s" by blast
    then show ?thesis unfolding field_assert_def layout_check_def Let_def
      by (simp only: option.map bind.bind_lunit option.distinct simp_thms)
  qed
  then show "layout_assert l \<noteq> None" "fsharp_layout l \<noteq> None"
    unfolding layout_assert_def fsharp_layout_def Let_def by (simp_all only: join_parts) blast+
qed

lemma method_texts:
  assumes "lowered_from exports vs prefix c cp m l"
  shows "fsharp_method l \<noteq> None" "fsharp_transfer l \<noteq> None"
proof -
  have arguments: "fsharp_argument a \<noteq> None \<and> helper_argument a \<noteq> None" if "a \<in> set (arguments_of l)" for a
    using argument_fs_type [OF assms, of "fst a" "snd a"] that by (auto simp: fsharp_argument_def helper_argument_def)
  have tail: "helper_argument a \<noteq> None" if "a \<in> set (tl (arguments_of l))" for a
  proof -
    have "a \<in> set (arguments_of l)" using that by (cases "arguments_of l") auto
    with arguments show ?thesis by blast
  qed
  show "fsharp_method l \<noteq> None"
  proof (cases "has_result l")
    case True
    with arguments result_fs_type [OF assms] show ?thesis unfolding fsharp_method_def
      by (simp only: join_parts if_True) blast
  next
    case False
    with arguments show ?thesis unfolding fsharp_method_def by (simp only: join_parts if_False) blast
  qed
  have consumed: "consumed_type l \<noteq> None" if "method_arguments l \<noteq> []" "is_owned_argument (hd (method_arguments l))"
  proof -
    have "(0, hd (method_arguments l)) \<in> set (arguments_of l)" using that(1) by (cases "method_arguments l") (auto simp: arguments_of_def)
    from lowered_argument_of [OF assms this] obtain r where "0 < length (parameter_declarations m)" and
      a: "lower_argument exports vs (fst (read_policy (method_attributes m) False)) 0 (parameter_declarations m ! 0) = (hd (method_arguments l), r)"
        "\<not> has_errors r" by blast
    moreover have "method_of l = m" using assms lowered_method_of by blast
    ultimately show ?thesis using lower_argument_owned(2) [OF a that(2)]
      by (auto simp: consumed_type_def element_def owned_class_pointer_def split: option.splits)
  qed
  show "fsharp_transfer l \<noteq> None"
  proof (cases "method_target l \<noteq> Fsharp_Target \<or> method_arguments l = [] \<or> \<not> is_owned_argument (hd (method_arguments l))")
    case False
    then obtain owned_type where "consumed_type l = Some owned_type" using consumed by blast
    moreover have "(if has_result l \<and> \<not> is_record_value (method_result l) then map_option f (fs_type (method_result l)) else Some []) \<noteq> None"
      for f :: "string \<Rightarrow> string"
      using result_fs_type [OF assms] by simp
    ultimately show ?thesis using False tail
      unfolding fsharp_transfer_def Let_def by (simp only: if_False bind.bind_lunit join_parts) blast
  qed (simp add: fsharp_transfer_def)
qed

lemma emission_total_lemma: "emit_interop exports t options report vs \<noteq> None"
proof (cases "has_errors (report @ plan_report (plan_interop exports t options vs))")
  case False
  define plan where "plan = plan_interop exports t options vs"
  note valid = plan_valid [OF plan_def]
  have no: "\<not> has_errors (plan_report plan)" using False by (simp add: plan_def)
  have layouts: "layout_assert l \<noteq> None \<and> fsharp_layout l \<noteq> None" if "l \<in> set (plan_layouts plan)" for l
    using valid(5) [OF no] that layout_texts by (auto simp: list_all_iff)
  have methods: "fsharp_method m \<noteq> None \<and> fsharp_transfer m \<noteq> None" if "l \<in> set (plan_classes plan)" "m \<in> set (class_methods l)" for l m
    using valid(2) [OF no] that method_texts unfolding class_lowered_def by blast
  have externs: "fsharp_externs l \<noteq> None" if "l \<in> set (plan_classes plan)" for l
    using methods [OF that] unfolding fsharp_externs_def by (simp only: join_parts) blast
  have "cpp_source t prefix macro fp (plan_classes plan) (plan_layouts plan) \<noteq> None" for prefix macro fp
    unfolding cpp_source_def using layouts by (simp only: join_parts) blast
  moreover have "fsharp_source options prefix fp b (plan_classes plan) (plan_layouts plan) \<noteq> None" for prefix fp b
  proof (cases b)
    case True
    have "\<forall>m\<in>set (concat (map class_methods (plan_classes plan))). fsharp_transfer m \<noteq> None" using methods by auto
    with True layouts externs show ?thesis
      unfolding fsharp_source_def by (simp only: join_parts not_True_eq_False if_False) blast
  qed (simp add: fsharp_source_def)
  ultimately show ?thesis using False
    unfolding emit_interop_def Let_def plan_def [symmetric] by (simp only: if_False bind_Some join_parts) blast
qed (simp add: emit_interop_def Let_def)

end
