(* ===== verification/Interop_Contract.thy ===== *)
theory Interop_Contract
  imports Interop_Valid Binding_Abi
begin

text \<open>
  The contract of an interface determines what consumers see: its items can be read back, and the
  declarations for C, C# and F# are functions of them.
\<close>

section \<open>Items\<close>

lemma append_contract_items: "foldl append_contract out parts = out @ concat (map item parts)"
  by (induction parts arbitrary: out) (simp_all add: append_contract_def item_def)

lemma contract_inj: "foldl append_contract [] xs = foldl append_contract [] ys \<Longrightarrow> xs = ys"
  using items.concat_inj [of xs ys] by (simp add: append_contract_items)

section \<open>Blocks\<close>

text \<open>Blocks that can be told from what follows by their first item.\<close>

lemma tagged_blocks_inj:
  assumes one: "\<And>x y r s. x \<in> set xs \<Longrightarrow> y \<in> set ys \<Longrightarrow> ok r \<Longrightarrow> ok s \<Longrightarrow> f x @ r = f y @ s \<Longrightarrow> f x = f y \<and> r = s"
    and first: "\<And>x. x \<in> set xs \<union> set ys \<Longrightarrow> f x \<noteq> [] \<and> P (hd (f x))"
    and ok: "\<And>x r. x \<in> set xs \<union> set ys \<Longrightarrow> ok r \<Longrightarrow> ok (f x @ r)" "ok r" "ok s"
    and behind: "r = [] \<or> \<not> P (hd r)" "s = [] \<or> \<not> P (hd s)"
    and same: "concat (map f xs) @ r = concat (map f ys) @ s"
  shows "map f xs = map f ys \<and> r = s"
  using one first ok(1) same
proof (induction xs arbitrary: ys)
  case Nil
  show ?case
  proof (cases ys)
    case (Cons y ys')
    then have "f y \<noteq> []" "P (hd (f y))" using Nil.prems(2) [of y] by simp_all
    with Nil.prems(4) Cons have "r \<noteq> []" "P (hd r)" by auto
    with behind(1) show ?thesis by blast
  qed (use Nil in simp)
next
  case (Cons x xs)
  show ?case
  proof (cases ys)
    case Nil
    have "f x \<noteq> []" "P (hd (f x))" using Cons.prems(2) [of x] by simp_all
    with Cons.prems(4) Nil have "s \<noteq> []" "P (hd s)" by auto
    with behind(2) show ?thesis by blast
  next
    case (Cons y ys')
    have rest: "ok (concat (map f zs) @ q)" if "set zs \<subseteq> set (x # xs) \<union> set ys" "ok q" for zs q
      using that by (induction zs) (auto intro: Cons.prems(3))
    have split: "f x @ concat (map f xs) @ r = f y @ concat (map f ys') @ s" using Cons.prems(4) Cons by simp
    have "f x = f y \<and> concat (map f xs) @ r = concat (map f ys') @ s"
      by (rule Cons.prems(1) [OF _ _ _ _ split]) (use rest ok(2,3) in \<open>auto simp: Cons\<close>)
    moreover have "map f xs = map f ys' \<and> r = s"
    proof (rule Cons.IH)
      show "f a = f b \<and> p = q" if "a \<in> set xs" "b \<in> set ys'" "ok p" "ok q" "f a @ p = f b @ q" for a b p q
        by (rule Cons.prems(1)) (use that in \<open>simp_all add: Cons\<close>)
    qed (use calculation Cons.prems(2,3) in \<open>simp_all add: Cons\<close>)
    ultimately show ?thesis by (simp add: Cons)
  qed
qed

lemma length_type_contract [simp]: "length (type_contract t) = 5"
  by (simp add: type_contract_def)

lemma length_type_contracts: "length (concat (map type_contract ts)) = 5 * length ts"
  by (induction ts) simp_all

lemma fixed_blocks: "\<forall>x\<in>set xs \<union> set ys. length (f x) = n \<Longrightarrow> 0 < n \<Longrightarrow> length xs = length ys \<Longrightarrow>
  concat (map f xs) = concat (map f ys) \<Longrightarrow> map f xs = map f ys"
  by (induction xs ys rule: list_induct2') auto

lemma method_contract_prefix:
  assumes "method_contract a @ r = method_contract b @ s"
  shows "method_contract a = method_contract b \<and> r = s"
proof -
  define ha where "ha m = take 13 (method_contract m)" for m
  have split: "method_contract m = ha m @ concat (map type_contract (method_arguments m))" "length (ha m) = 13"
    "ha m ! 12 = show_nat (length (method_arguments m))" for m
    by (simp_all add: ha_def method_contract_def type_contract_def)
  have "ha a = ha b" "concat (map type_contract (method_arguments a)) @ r = concat (map type_contract (method_arguments b)) @ s"
    using assms by (simp_all add: split)
  moreover from this(1) have "length (method_arguments a) = length (method_arguments b)" using split(3) show_nat_inj by metis
  ultimately show ?thesis by (simp add: split length_type_contracts)
qed

section \<open>Equal contracts\<close>

definition same_type :: "lowered_type \<Rightarrow> lowered_type \<Rightarrow> bool" where
  "same_type a b \<longleftrightarrow> native_type a = native_type b \<and> c_type a = c_type b \<and> csharp_type a = csharp_type b \<and>
     is_owned_argument a = is_owned_argument b \<and> is_record_value a = is_record_value b \<and> is_callback a = is_callback b"

lemma type_notes:
  assumes "one_way t"
  shows "is_owned_argument t \<longleftrightarrow> type_note t = ''unique-owned-native-argument-v1''"
    "is_record_value t \<longleftrightarrow> type_note t = ''fsharp-record-value-bytes-v1''"
    "is_callback t \<longleftrightarrow> type_note t = ''cdecl-i32-i32-synchronous-same-thread''"
  using assms by (simp_all add: type_note_def one_way_def)

lemma same_type_contract: "type_contract a = type_contract b \<Longrightarrow> one_way a \<Longrightarrow> one_way b \<Longrightarrow> same_type a b"
  by (simp add: same_type_def type_contract_def type_notes)

definition same_method :: "lowered_method \<Rightarrow> lowered_method \<Rightarrow> bool" where
  "same_method a b \<longleftrightarrow> method_symbol a = method_symbol b \<and>
     (method_target a = Csharp_Target \<longleftrightarrow> method_target b = Csharp_Target) \<and>
     (method_target a = Fsharp_Target \<longleftrightarrow> method_target b = Fsharp_Target) \<and>
     same_type (method_result a) (method_result b) \<and> list_all2 same_type (method_arguments a) (method_arguments b)"

lemma language_name_eq: "language_name a = language_name b \<Longrightarrow>
  (a = Csharp_Target \<longleftrightarrow> b = Csharp_Target) \<and> (a = Fsharp_Target \<longleftrightarrow> b = Fsharp_Target)"
  by (cases a; cases b) (simp_all add: language_name_def)

lemma same_method_contract:
  assumes "method_contract a = method_contract b" "\<forall>t\<in>set (method_result a # method_arguments a). one_way t"
    "\<forall>t\<in>set (method_result b # method_arguments b). one_way t"
  shows "same_method a b"
proof -
  have head: "method_symbol a = method_symbol b" "language_name (method_target a) = language_name (method_target b)"
    "type_contract (method_result a) = type_contract (method_result b)"
    "show_nat (length (method_arguments a)) = show_nat (length (method_arguments b))"
    "concat (map type_contract (method_arguments a)) = concat (map type_contract (method_arguments b))"
    using assms(1) by (simp_all add: method_contract_def type_contract_def)
  then have "map type_contract (method_arguments a) = map type_contract (method_arguments b)"
    by (intro fixed_blocks [where n = 5]) (auto simp: show_nat_inj)
  then have "list_all2 (\<lambda>s t. type_contract s = type_contract t) (method_arguments a) (method_arguments b)"
    by (simp add: list_all2_map1 list_all2_map2 flip: list.rel_eq)
  then have "list_all2 same_type (method_arguments a) (method_arguments b)"
    by (rule list.rel_mono_strong) (use assms(2,3) in \<open>simp add: same_type_contract\<close>)
  moreover have "same_type (method_result a) (method_result b)" using head(3) assms(2,3) by (simp add: same_type_contract)
  ultimately show ?thesis using head(1) language_name_eq [OF head(2)] by (simp only: same_method_def simp_thms)
qed

definition same_class :: "lowered_class \<Rightarrow> lowered_class \<Rightarrow> bool" where
  "same_class a b \<longleftrightarrow> class_qualified_name (class_of a) = class_qualified_name (class_of b) \<and> class_handle a = class_handle b \<and>
     class_owned a = class_owned b \<and> list_all2 same_method (class_methods a) (class_methods b)"

lemma class_contract_prefix:
  assumes "lowered_contract a @ r = lowered_contract b @ s" "r = [] \<or> hd r \<noteq> ''method''" "s = [] \<or> hd s \<noteq> ''method''"
  shows "lowered_contract a = lowered_contract b \<and> r = s"
proof -
  let ?head = "\<lambda>l. class_contract (class_of l) (policy_target (class_policy (class_of l))) (class_owned l)"
  have "?head a = ?head b" "concat (map method_contract (class_methods a)) @ r = concat (map method_contract (class_methods b)) @ s"
    using assms(1) by (simp_all add: lowered_contract_def class_contract_def)
  moreover from this(2) have "map method_contract (class_methods a) = map method_contract (class_methods b) \<and> r = s"
  proof (rule tagged_blocks_inj [where P = "\<lambda>i. i = ''method''" and ok = "\<lambda>r. True", rotated 7])
    show "method_contract x = method_contract y \<and> p = q" if "method_contract x @ p = method_contract y @ q" for x y p q
      using that by (rule method_contract_prefix)
    show "method_contract x \<noteq> [] \<and> hd (method_contract x) = ''method''" for x by (simp add: method_contract_def)
  qed (use assms(2,3) in simp_all)
  ultimately show ?thesis by (simp add: lowered_contract_def)
qed

lemma lowered_contract_first: "lowered_contract l \<noteq> [] \<and> hd (lowered_contract l) = ''class''"
  by (simp add: lowered_contract_def class_contract_def)

lemma class_contracts:
  assumes "concat (map lowered_contract as) @ r = concat (map lowered_contract bs) @ s"
    "r = [] \<or> hd r = ''fsharp-value-layout-v1''" "s = [] \<or> hd s = ''fsharp-value-layout-v1''"
  shows "map lowered_contract as = map lowered_contract bs \<and> r = s"
proof (rule tagged_blocks_inj [where P = "\<lambda>i. i = ''class''" and ok = "\<lambda>r. r = [] \<or> hd r \<noteq> ''method''", rotated 7])
  show "lowered_contract x = lowered_contract y \<and> p = q"
    if "p = [] \<or> hd p \<noteq> ''method''" "q = [] \<or> hd q \<noteq> ''method''" "lowered_contract x @ p = lowered_contract y @ q" for x y p q
    using that(3,1,2) by (rule class_contract_prefix)
qed (use assms lowered_contract_first in auto)

lemma method_contract_first: "method_contract m \<noteq> [] \<and> hd (method_contract m) = ''method''"
  by (simp add: method_contract_def)

lemma list_all2_of_map:
  assumes "map f xs = map f ys" "\<And>x y. x \<in> set xs \<Longrightarrow> y \<in> set ys \<Longrightarrow> f x = f y \<Longrightarrow> R x y"
  shows "list_all2 R xs ys"
proof -
  have "list_all2 (\<lambda>x y. f x = f y) xs ys" using assms(1) by (simp add: list_all2_map1 list_all2_map2 flip: list.rel_eq)
  then show ?thesis by (rule list.rel_mono_strong) (use assms(2) in blast)
qed

lemma same_class_contract:
  assumes "lowered_contract a = lowered_contract b" "class_lowered es vs prefix (class_of a) a" "class_lowered es' vs' prefix (class_of b) b"
  shows "same_class a b"
proof -
  have head: "class_qualified_name (class_of a) = class_qualified_name (class_of b)"
    "(if class_owned a then ''owned-unique-delete-exact-type-v1'' else ''borrowed'') = (if class_owned b then ''owned-unique-delete-exact-type-v1'' else ''borrowed'')"
    "concat (map method_contract (class_methods a)) = concat (map method_contract (class_methods b))"
    using assms(1) by (simp_all only: lowered_contract_def class_contract_def append_Cons append_Nil list.inject)
  have "map method_contract (class_methods a) = map method_contract (class_methods b) \<and> ([] :: string list) = []"
  proof (rule tagged_blocks_inj [where P = "\<lambda>i. i = ''method''" and ok = "\<lambda>r. True", rotated 7])
    show "method_contract x = method_contract y \<and> p = q" if "method_contract x @ p = method_contract y @ q" for x y p q
      using that by (rule method_contract_prefix)
  qed (use head(3) method_contract_first in simp_all)
  then have "list_all2 same_method (class_methods a) (class_methods b)"
  proof (rule list_all2_of_map [OF conjunct1])
    fix x y assume "x \<in> set (class_methods a)" "y \<in> set (class_methods b)" "method_contract x = method_contract y"
    moreover from this assms(2,3) have "lowered_from es vs prefix (class_of a) (class_policy (class_of a)) (method_of x) x"
      "lowered_from es' vs' prefix (class_of b) (class_policy (class_of b)) (method_of y) y" by (simp_all add: class_lowered_def)
    ultimately show "same_method x y" using same_method_contract lowered_views(2) by blast
  qed
  moreover have "class_owned a = class_owned b" using head(2) by (simp split: if_splits)
  ultimately show ?thesis using head(1) assms(2,3) by (simp add: same_class_def class_lowered_def)
qed

section \<open>Values\<close>

definition field_items :: "value_field_model \<times> lowered_type \<Rightarrow> string list" where
  "field_items = (\<lambda>(f, t). [member_name f, show_int (sint (offset_bytes f))] @ type_contract t)"

definition same_layout :: "value_layout \<Rightarrow> value_layout \<Rightarrow> bool" where
  "same_layout a b \<longleftrightarrow> layout_name a = layout_name b \<and>
     number (size_bytes (target (layout_of a))) = number (size_bytes (target (layout_of b))) \<and>
     number (value_align_bytes (layout_of a)) = number (value_align_bytes (layout_of b)) \<and>
     length (layout_fields a) = length (alias_fields (layout_of a)) \<and> length (layout_fields b) = length (alias_fields (layout_of b)) \<and>
     map field_items (zip (alias_fields (layout_of a)) (layout_fields a)) = map field_items (zip (alias_fields (layout_of b)) (layout_fields b))"

lemma length_field_items [simp]: "length (field_items p) = 7"
  by (simp add: field_items_def split: prod.split)

lemma layout_prefix:
  assumes "layout_items a @ r = layout_items b @ s" "layout_lowered a" "layout_lowered b"
    "r = [] \<or> hd r = ''fsharp-value-layout-v1''" "s = [] \<or> hd s = ''fsharp-value-layout-v1''"
  shows "same_layout a b \<and> layout_items a = layout_items b \<and> r = s"
proof -
  let ?z = "\<lambda>l. zip (alias_fields (layout_of l)) (layout_fields l)"
  have named: "field_items p \<noteq> [] \<and> hd (field_items p) \<noteq> ''fsharp-value-layout-v1''" if l: "layout_lowered l" and p: "p \<in> set (?z l)" for l p
  proof -
    obtain i where "i < length (alias_fields (layout_of l))" "fst p = alias_fields (layout_of l) ! i"
      using p by (auto simp: set_zip)
    with l have "cpp_identifier (member_name (fst p))" by (auto simp: layout_lowered_def Let_def unsupported_layout_field_def)
    moreover have "\<not> cpp_identifier ''fsharp-value-layout-v1''"
      by (simp add: cpp_identifier_def is_letter_def is_digit_def code_of_def)
    ultimately show ?thesis by (auto simp: field_items_def split: prod.split)
  qed
  have items: "layout_items l = layout_contract (layout_name l) (layout_of l) @ concat (map field_items (?z l))" for l
    by (simp add: layout_items_def field_items_def)
  have head: "layout_contract (layout_name a) (layout_of a) = layout_contract (layout_name b) (layout_of b)"
    "concat (map field_items (?z a)) @ r = concat (map field_items (?z b)) @ s"
    using assms(1) by (simp_all add: items layout_contract_def)
  have "map field_items (?z a) = map field_items (?z b) \<and> r = s"
  proof (rule tagged_blocks_inj [where P = "\<lambda>i. i \<noteq> ''fsharp-value-layout-v1''" and ok = "\<lambda>r. True", rotated 7])
    show "field_items x = field_items y \<and> p = q" if "field_items x @ p = field_items y @ q" for x y p q
      using that by (simp add: append_eq_append_conv)
  qed (use named assms head(2) in auto)
  with head assms(2,3) show ?thesis
    by (simp add: same_layout_def items) (simp add: layout_contract_def number_def layout_lowered_def Let_def)
qed

lemma layout_items_first: "layout_items l \<noteq> [] \<and> hd (layout_items l) = ''fsharp-value-layout-v1''"
  by (simp add: layout_items_def layout_contract_def)

lemma same_layouts:
  assumes "concat (map layout_items as) = concat (map layout_items bs)" "list_all layout_lowered as" "list_all layout_lowered bs"
  shows "list_all2 same_layout as bs"
proof -
  let ?ok = "\<lambda>r. r = [] \<or> hd r = ''fsharp-value-layout-v1''"
  have "map layout_items as = map layout_items bs \<and> ([] :: string list) = []"
  proof (rule tagged_blocks_inj [where P = "\<lambda>i. i = ''fsharp-value-layout-v1''" and ok = ?ok, rotated 7])
    show "layout_items x = layout_items y \<and> p = q"
      if "x \<in> set as" "y \<in> set bs" "?ok p" "?ok q" "layout_items x @ p = layout_items y @ q" for x y p q
      using layout_prefix [OF that(5) _ _ that(3,4)] that(1,2) assms(2,3) by (simp add: list_all_iff)
  qed (use assms(1) layout_items_first in auto)
  then show ?thesis
  proof (rule list_all2_of_map [OF conjunct1])
    show "same_layout x y" if "x \<in> set as" "y \<in> set bs" "layout_items x = layout_items y" for x y
      using layout_prefix [of x "[]" y "[]"] that assms(2,3) by (simp add: list_all_iff)
  qed
qed

section \<open>Equal texts\<close>

lemma map_enumerate_cong:
  assumes "list_all2 R xs ys" "\<And>i x y. R x y \<Longrightarrow> f (i, x) = f (i, y)"
  shows "map f (enumerate n xs) = map f (enumerate n ys)"
  using assms(1) by (induction arbitrary: n rule: list_all2_induct) (simp_all add: assms(2))

lemma layout_text:
  assumes "same_layout a b"
  shows "fsharp_layout a = fsharp_layout b"
proof -
  let ?fa = "alias_fields (layout_of a)" and ?fb = "alias_fields (layout_of b)"
  have lengths: "length ?fa = length ?fb" "length (layout_fields a) = length ?fa" "length (layout_fields b) = length ?fb"
    using assms unfolding same_layout_def by (auto dest: map_eq_imp_length_eq)
  have check: "layout_check a (i, ?fa ! i) = layout_check b (i, ?fb ! i)" if "i < length ?fa" for i
  proof -
    have "map field_items (zip ?fa (layout_fields a)) ! i = map field_items (zip ?fb (layout_fields b)) ! i"
      using assms by (simp add: same_layout_def)
    then have items: "field_items (?fa ! i, layout_fields a ! i) = field_items (?fb ! i, layout_fields b ! i)"
      using that lengths by simp
    then have "member_name (?fa ! i) = member_name (?fb ! i)" "number (offset_bytes (?fa ! i)) = number (offset_bytes (?fb ! i))"
      "csharp_type (layout_fields a ! i) = csharp_type (layout_fields b ! i)"
      by (simp_all add: field_items_def type_contract_def number_def)
    moreover have "element (layout_fields a) i = Some (layout_fields a ! i)" "element (layout_fields b) i = Some (layout_fields b ! i)"
      using that lengths by (simp_all add: element_def)
    ultimately show ?thesis unfolding layout_check_def by (simp only: fst_conv snd_conv bind.bind_lunit)
  qed
  have "map (layout_check a) (enumerate 0 ?fa) = map (layout_check b) (enumerate 0 ?fb)"
    by (rule nth_equalityI) (use lengths check in \<open>simp_all add: nth_enumerate_eq\<close>)
  with assms lengths(1) show ?thesis unfolding fsharp_layout_def Let_def same_layout_def by (simp only:)
qed

lemma arguments_texts:
  assumes "same_method a b"
  shows "map (c_argument macro) (arguments_of a) = map (c_argument macro) (arguments_of b)"
    "map csharp_argument (arguments_of a) = map csharp_argument (arguments_of b)"
    "map fsharp_argument (arguments_of a) = map fsharp_argument (arguments_of b)"
    "map helper_argument (arguments_of a) = map helper_argument (arguments_of b)"
    "map (\<lambda>a. '', '' @ argument_name (fst a)) (arguments_of a) = map (\<lambda>a. '', '' @ argument_name (fst a)) (arguments_of b)"
  using assms unfolding same_method_def arguments_of_def
  by (auto intro!: map_enumerate_cong [where R = same_type] simp: same_type_def c_argument_def csharp_argument_def fsharp_argument_def
    helper_argument_def fs_type_def)

lemma result_texts:
  assumes "same_method a b"
  shows "has_result a = has_result b" "c_type (method_result a) = c_type (method_result b)"
    "csharp_type (method_result a) = csharp_type (method_result b)" "fs_type (method_result a) = fs_type (method_result b)"
    "is_record_value (method_result a) = is_record_value (method_result b)"
  using assms by (simp_all add: same_method_def same_type_def has_result_def fs_type_def)

lemma method_texts_eq:
  assumes "same_method a b"
  shows "method_symbol a = method_symbol b" "(method_target a \<noteq> Csharp_Target) = (method_target b \<noteq> Csharp_Target)"
    "(method_target a \<noteq> Fsharp_Target) = (method_target b \<noteq> Fsharp_Target)" "(method_arguments a = []) = (method_arguments b = [])"
  using assms by (auto simp: same_method_def)

lemmas same_texts = arguments_texts result_texts method_texts_eq

lemma c_method_text: "same_method a b \<Longrightarrow> class_handle c = class_handle d \<Longrightarrow> c_method macro c a = c_method macro d b"
  unfolding c_method_def c_parameters_def by (simp only: same_texts [of a b])

lemma csharp_method_text: "same_method a b \<Longrightarrow> csharp_method a = csharp_method b"
  unfolding csharp_method_def by (simp only: same_texts [of a b])

lemma fsharp_method_text: "same_method a b \<Longrightarrow> fsharp_method a = fsharp_method b"
  unfolding fsharp_method_def by (simp only: same_texts [of a b])

text \<open>
  The canonical spelling of a pointer names the class it points to. Clang prints it so; the model does not
  know how, and takes the naming as a parameter.
\<close>

definition spelled_by :: "(string \<Rightarrow> string) \<Rightarrow> class_model list \<Rightarrow> bool" where
  "spelled_by name_of exports \<longleftrightarrow>
     list_all (\<lambda>c. list_all (\<lambda>m. list_all (\<lambda>q. case pointee (parameter_type q) of
         None \<Rightarrow> True | Some p \<Rightarrow> type_kind p = ''record'' \<longrightarrow> type_declaration p = name_of (canonical_spelling (parameter_type q)))
       (parameter_declarations m)) (methods_of c)) exports"

lemma consumed_type_spelled:
  assumes "lowered_from es vs prefix c cp (method_of m) m" "c \<in> set exports" "method_of m \<in> set (methods_of c)" "spelled_by name_of exports"
    "method_arguments m \<noteq> []" "is_owned_argument (hd (method_arguments m))"
  shows "consumed_type m = Some (owned_type_name (name_of (native_type (hd (method_arguments m)))))"
proof -
  have "(0, hd (method_arguments m)) \<in> set (arguments_of m)" using assms(5) by (cases "method_arguments m") (auto simp: arguments_of_def)
  from lowered_argument_of [OF assms(1) this] obtain r where q: "0 < length (parameter_declarations (method_of m))"
    "lower_argument es vs (fst (read_policy (method_attributes (method_of m)) False)) 0 (parameter_declarations (method_of m) ! 0) =
       (hd (method_arguments m), r)" "\<not> has_errors r" by blast
  let ?q = "parameter_declarations (method_of m) ! 0"
  from lower_argument_owned(2) [OF q(2,3) assms(6)] obtain p where p: "pointee (parameter_type ?q) = Some p" "type_kind p = ''record''"
    by (auto simp: owned_class_pointer_def split: option.splits)
  have "?q \<in> set (parameter_declarations (method_of m))" using q(1) by simp
  with assms(2-4) p have "type_declaration p = name_of (canonical_spelling (parameter_type ?q))"
    by (fastforce simp: spelled_by_def list_all_iff split: option.splits)
  moreover have "native_type (hd (method_arguments m)) = canonical_spelling (parameter_type ?q)"
  proof -
    have "consume_first (fst (read_policy (method_attributes (method_of m)) False))"
      using lower_argument_owned(3) [OF q(2,3) assms(6)] .
    then have "(owned_pointer (parameter_type ?q))\<lparr>c_type := ''void**'', is_owned_argument := True\<rparr> = hd (method_arguments m)"
      using q(2,3) by (auto simp: lower_argument_def Let_def split: if_splits)
    from arg_cong [where f = native_type, OF this] show ?thesis by (simp add: owned_pointer_def)
  qed
  ultimately show ?thesis using p q(1) by (simp add: consumed_type_def element_def)
qed

lemma fsharp_transfer_text:
  assumes "same_method a b" "consumed_type a = consumed_type b \<or> method_arguments a = [] \<or> \<not> is_owned_argument (hd (method_arguments a))"
  shows "fsharp_transfer a = fsharp_transfer b"
proof -
  have hd: "is_owned_argument (hd (method_arguments a)) = is_owned_argument (hd (method_arguments b))" if "method_arguments a \<noteq> []"
    using assms(1) that by (cases "method_arguments a"; cases "method_arguments b") (auto simp: same_method_def same_type_def)
  have guard: "(method_target a \<noteq> Fsharp_Target \<or> method_arguments a = [] \<or> \<not> is_owned_argument (hd (method_arguments a))) =
    (method_target b \<noteq> Fsharp_Target \<or> method_arguments b = [] \<or> \<not> is_owned_argument (hd (method_arguments b)))"
    using hd method_texts_eq [OF assms(1)] by auto
  show ?thesis
  proof (cases "method_target a \<noteq> Fsharp_Target \<or> method_arguments a = [] \<or> \<not> is_owned_argument (hd (method_arguments a))")
    case True
    with guard show ?thesis unfolding fsharp_transfer_def by (simp only: if_True)
  next
    case False
    then have "consumed_type a = consumed_type b" using assms(2) by blast
    then show ?thesis using False guard unfolding fsharp_transfer_def Let_def
      by (simp only: if_False map_tl same_texts [OF assms(1)])
  qed
qed

lemma concat_map_cong2:
  assumes "list_all2 R xs ys" "\<And>x y. x \<in> set xs \<Longrightarrow> y \<in> set ys \<Longrightarrow> R x y \<Longrightarrow> f x = g y"
  shows "map f xs = map g ys"
proof -
  have "list_all2 (\<lambda>x y. f x = g y) xs ys" using assms(1) by (rule list.rel_mono_strong) (use assms(2) in blast)
  then show ?thesis by (simp add: list_all2_map1 list_all2_map2 flip: list.rel_eq)
qed

lemma class_texts:
  assumes "same_class a b"
  shows "c_class macro a = c_class macro b" "map csharp_method (class_methods a) = map csharp_method (class_methods b)"
    "fsharp_externs a = fsharp_externs b" "fsharp_owned prefix a = fsharp_owned prefix b"
    "list_ex (\<lambda>m. method_target m = Fsharp_Target \<and> list_ex is_callback (method_arguments m)) (class_methods a) =
     list_ex (\<lambda>m. method_target m = Fsharp_Target \<and> list_ex is_callback (method_arguments m)) (class_methods b)"
proof -
  have same: "class_qualified_name (class_of a) = class_qualified_name (class_of b)" "class_handle a = class_handle b" "class_owned a = class_owned b"
    "list_all2 same_method (class_methods a) (class_methods b)"
    using assms by (simp_all add: same_class_def)
  have "map (c_method macro a) (class_methods a) = map (c_method macro b) (class_methods b)"
    by (rule concat_map_cong2 [OF same(4)]) (rule c_method_text [OF _ same(2)])
  then show "c_class macro a = c_class macro b" unfolding c_class_def by (simp only: same)
  show "map csharp_method (class_methods a) = map csharp_method (class_methods b)"
    by (rule concat_map_cong2 [OF same(4)]) (rule csharp_method_text)
  have "map fsharp_method (class_methods a) = map fsharp_method (class_methods b)"
    by (rule concat_map_cong2 [OF same(4)]) (rule fsharp_method_text)
  then show "fsharp_externs a = fsharp_externs b" unfolding fsharp_externs_def by (simp only: same)
  show "fsharp_owned prefix a = fsharp_owned prefix b" unfolding fsharp_owned_def by (simp only: same)
  have callback: "list_ex is_callback xs = list_ex is_callback ys" if "list_all2 same_type xs ys" for xs ys
    using that by induction (simp_all add: same_type_def)
  show "list_ex (\<lambda>m. method_target m = Fsharp_Target \<and> list_ex is_callback (method_arguments m)) (class_methods a) =
     list_ex (\<lambda>m. method_target m = Fsharp_Target \<and> list_ex is_callback (method_arguments m)) (class_methods b)"
    using same(4) by induction (auto simp: same_method_def callback)
qed

lemma transfer_texts:
  assumes "same_class a b" "class_lowered es vs prefix (class_of a) a" "class_lowered es' vs' prefix (class_of b) b"
    "class_of a \<in> set es" "class_of b \<in> set es'" "spelled_by name_of es" "spelled_by name_of es'"
  shows "map fsharp_transfer (class_methods a) = map fsharp_transfer (class_methods b)"
proof (rule concat_map_cong2)
  show "list_all2 same_method (class_methods a) (class_methods b)" using assms(1) by (simp add: same_class_def)
  fix x y assume xy: "x \<in> set (class_methods a)" "y \<in> set (class_methods b)" "same_method x y"
  have x: "lowered_from es vs prefix (class_of a) (class_policy (class_of a)) (method_of x) x" "method_of x \<in> set (methods_of (class_of a))"
    and y: "lowered_from es' vs' prefix (class_of b) (class_policy (class_of b)) (method_of y) y" "method_of y \<in> set (methods_of (class_of b))"
    using assms(2,3) xy by (simp_all add: class_lowered_def)
  show "fsharp_transfer x = fsharp_transfer y"
  proof (rule fsharp_transfer_text [OF xy(3)], cases "method_arguments x = [] \<or> \<not> is_owned_argument (hd (method_arguments x))")
    case False
    with xy(3) have "method_arguments y \<noteq> []" "is_owned_argument (hd (method_arguments y))"
      "native_type (hd (method_arguments x)) = native_type (hd (method_arguments y))"
      by (cases "method_arguments x"; cases "method_arguments y"; auto simp: same_method_def same_type_def)+
    with False consumed_type_spelled [OF x(1) assms(4) x(2) assms(6)] consumed_type_spelled [OF y(1) assms(5) y(2) assms(7)]
    show "consumed_type x = consumed_type y \<or> method_arguments x = [] \<or> \<not> is_owned_argument (hd (method_arguments x))" by simp
  qed simp
qed

end
