(* ===== verification/Interop_Properties.thy ===== *)
theory Interop_Properties
  imports Interop_Contract
begin

text \<open>The properties of the interface that is generated for C, C# and F#.\<close>

section \<open>Directives\<close>

lemma annotation_token:
  assumes "annotation_argument a = (s, r)" "\<not> has_errors r"
  shows "argument_tokens a = [CHR 0x22 # s @ [CHR 0x22]]"
proof -
  obtain t where t: "argument_tokens a = [t]" "2 \<le> length t" "hd t = CHR 0x22" "last t = CHR 0x22" "s = take (length t - 2) (drop 1 t)"
    using assms by (auto simp: annotation_argument_def Let_def length_Suc_conv split: if_splits)
  then obtain u where u: "t = CHR 0x22 # u" "u \<noteq> []" by (cases t; cases "tl t") auto
  then have "u = butlast u @ [CHR 0x22]" using t(4) by (metis append_butlast_last_id last_ConsR)
  with u t(1,5) show ?thesis by (simp add: butlast_conv_take)
qed

text \<open>An attribute \<open>[[reflgen::interop("language")]]\<close>.\<close>

definition requests_interop :: "interop_target \<Rightarrow> attribute_use \<Rightarrow> bool" where
  "requests_interop language a \<longleftrightarrow> language \<noteq> No_Target \<and> attribute_scope a = ''reflgen'' \<and> attribute_name a = ''interop'' \<and>
     argument_tokens a = [CHR 0x22 # language_name language @ [CHR 0x22]]"

lemma policy_step_interop:
  assumes "policy_step is_class a p = (p', r)" "\<not> has_errors r"
  shows "has_interop p' = has_interop p \<and> policy_target p' = policy_target p \<or>
    \<not> has_interop p \<and> has_interop p' \<and> requests_interop (policy_target p') a"
proof (cases "attribute_scope a = ''reflgen'' \<and> attribute_name a = ''interop''")
  case True
  obtain s q where s: "annotation_argument a = (s, q)" by (metis prod.exhaust)
  have facts: "p' = p\<lparr>has_interop := True, policy_target := if \<not> (s = ''c'' \<or> s = ''csharp'' \<or> s = ''fsharp'') then policy_target p
      else if s = ''c'' then C_Target else if s = ''csharp'' then Csharp_Target else Fsharp_Target\<rparr>"
    "\<not> has_interop p" "\<not> has_errors q" "s = ''c'' \<or> s = ''csharp'' \<or> s = ''fsharp''"
    using assms True s by (auto simp: policy_step_def interop_directives_def Let_def)
  with annotation_token [OF s facts(3)] True show ?thesis by (auto simp: requests_interop_def language_name_def)
next
  case False
  have "has_interop p' = has_interop p \<and> policy_target p' = policy_target p"
  proof (cases "attribute_scope a \<noteq> ''reflgen'' \<or> attribute_name a \<notin> interop_directives")
    case True
    with assms(1) show ?thesis by (simp add: policy_step_def Let_def split: prod.splits)
  next
    case other: False
    with False consider "attribute_name a = ''consume_ownership''" | "attribute_name a = ''return_ownership''" | "attribute_name a = ''callback''"
      | "attribute_name a = ''lifetime''" by (auto simp: interop_directives_def)
    then show ?thesis
      using assms(1) other by cases (auto simp: policy_step_def interop_directives_def Let_def split: prod.splits)
  qed
  then show ?thesis by blast
qed

lemma read_policy_from_interop:
  assumes "read_policy_from is_class p as = (p', r)" "\<not> has_errors r"
  shows "has_interop p' = has_interop p \<and> policy_target p' = policy_target p \<or>
    has_interop p' \<and> (\<exists>a\<in>set as. requests_interop (policy_target p') a)"
  using assms
proof (induction as arbitrary: p r)
  case (Cons a as)
  obtain p1 r1 where one: "policy_step is_class a p = (p1, r1)" by (metis prod.exhaust)
  obtain r2 where rest: "read_policy_from is_class p1 as = (p', r2)" using Cons.prems one by (auto split: prod.splits)
  have "\<not> has_errors r1" "\<not> has_errors r2" using Cons.prems one rest by auto
  with policy_step_interop [OF one] Cons.IH [OF rest] show ?case by auto
qed simp

lemma read_policy_interop:
  assumes "\<not> has_errors (snd (read_policy as is_class))" "p = fst (read_policy as is_class)"
  shows "has_interop p \<longleftrightarrow> policy_target p \<noteq> No_Target" "has_interop p \<Longrightarrow> \<exists>a\<in>set as. requests_interop (policy_target p) a"
proof -
  obtain r where "read_policy_from is_class no_policy as = (p, r)" "\<not> has_errors r"
    using assms by (metis prod.collapse read_policy_def)
  from read_policy_from_interop [OF this]
  show "has_interop p \<longleftrightarrow> policy_target p \<noteq> No_Target" "has_interop p \<Longrightarrow> \<exists>a\<in>set as. requests_interop (policy_target p) a"
    by (auto simp: no_policy_def requests_interop_def)
qed

section \<open>What is emitted\<close>

lemma emitted:
  assumes "emit_interop exports t options report vs = Some (out, entries)" "\<not> has_errors entries" "plan = plan_interop exports t options vs"
  shows "\<not> has_errors (plan_report plan)" "entries = report @ plan_report plan" "\<not> has_errors report"
    "output_fingerprint out = fingerprint_of (foldl append_contract [] (plan_contract plan))"
    "output_header out = c_header (triple t) (prefix_of options) (uppercase (prefix_of options) @ ''_INTEROP'') (plan_classes plan)"
    "output_csharp out = csharp_source options (prefix_of options) (output_fingerprint out) (plan_csharp plan) (plan_classes plan)"
    "fsharp_source options (prefix_of options) (output_fingerprint out) (plan_fsharp plan) (plan_classes plan) (plan_layouts plan) = Some (output_fsharp out)"
  using assms by (auto simp: emit_interop_def Let_def bind_eq_Some_conv split: if_splits)

lemma selected_class:
  assumes "class_lowered exports vs prefix c l"
  shows "\<exists>a\<in>set (class_attributes c). requests_interop (policy_target (class_policy c)) a"
  using assms read_policy_interop(2) [of "class_attributes c" True "class_policy c"] by (simp add: class_lowered_def class_policy_def)

section \<open>An example\<close>

text \<open>A class with one method for C#, and one that is not selected.\<close>

definition sample_place :: source_position where
  "sample_place = \<lparr>pos_file = ''engine.h'', pos_line = 1, pos_column = 1\<rparr>"

definition sample_attribute :: "string \<Rightarrow> string \<Rightarrow> attribute_use" where
  "sample_attribute name argument = \<lparr>attribute_expression = [], attribute_position = sample_place, attribute_scope = ''reflgen'',
     attribute_name = name, has_arguments = True, argument_tokens = [CHR 0x22 # argument @ [CHR 0x22]]\<rparr>"

definition int_type :: declaration_type where
  "int_type = Declaration_Type ''int'' ''int'' ''signed_integer'' [] False False 4 None None (-1) None 4 None [] [] False False []"

definition sample_method :: method_model where
  "sample_method = \<lparr>method_name = ''add'', method_parameters = [''int''], method_position = sample_place,
     method_attributes = [sample_attribute ''interop'' ''csharp''], return_type = int_type,
     parameter_declarations = [\<lparr>parameter_name = ''n'', parameter_type = int_type, parameter_position = sample_place\<rparr>],
     method_owner = ''engine'', method_access = ''public'', is_static = False, is_const = False, is_volatile = False,
     is_variadic = False, ref_qualifier = ''none'', signature = ''int (int)'', calling_convention = ''cdecl'',
     exception_specification = ''none'', is_overloaded = False, is_deleted = False, qualifiers_known = True,
     is_consteval = False, declaration_specifiers_known = True, pointer_type = []\<rparr>"

definition sample_class :: class_model where
  "sample_class = \<lparr>class_qualified_name = ''engine'', class_name = ''engine'', class_key = ''class'', class_schema_name = ''engine'',
     class_namespaces = [], bases = [], fields_of = [], methods_of = [sample_method],
     class_attributes = [sample_attribute ''interop'' ''csharp'', sample_attribute ''lifetime'' ''borrowed''],
     class_position = sample_place, class_nested = False, external_names = [], required_header_reason = [],
     runtime_only = False, public_fields = False\<rparr>"

definition other_class :: class_model where
  "other_class = sample_class\<lparr>class_qualified_name := ''clock'', class_name := ''clock'', methods_of := [], class_attributes := []\<rparr>"

definition sample_interop_target :: target_model where
  "sample_interop_target = \<lparr>triple = ''x86_64-linux'', pointer_width = 64\<rparr>"

definition sample_options :: interop_options where
  "sample_options = \<lparr>interop_module = ''game'', library_name = [], csharp_namespace = ''Game''\<rparr>"

abbreviation sample_plan :: "class_model list \<Rightarrow> interop_plan" where
  "sample_plan exports \<equiv> plan_interop exports sample_interop_target sample_options []"

abbreviation symbols_of :: "interop_plan \<Rightarrow> string list list" where
  "symbols_of plan \<equiv> map (\<lambda>c. map method_symbol (class_methods c)) (plan_classes plan)"

lemma sample_plans:
  "\<not> has_errors (plan_report (sample_plan [sample_class, other_class])) \<and> symbols_of (sample_plan [sample_class, other_class]) = [[''reflgen_game_engine_add'']]"
  "\<not> has_errors (plan_report (sample_plan [sample_class]))"
  "plan_contract (sample_plan [sample_class, other_class]) = plan_contract (sample_plan [sample_class])"
  by code_simp+

lemma planned_emission:
  assumes "\<not> has_errors (plan_report (plan_interop exports t options vs))"
  obtains out entries where "emit_interop exports t options [] vs = Some (out, entries)" "\<not> has_errors entries"
proof -
  obtain r where r: "emit_interop exports t options [] vs = Some r" using emission_total_lemma by blast
  then obtain out entries where "r = (out, entries)" by (cases r)
  with r assms that show thesis by (auto simp: emit_interop_def Let_def bind_eq_Some_conv split: if_splits)
qed

lemma sample_emission:
  obtains out entries c m where "emit_interop [sample_class, other_class] sample_interop_target sample_options [] [] = Some (out, entries)"
    "\<not> has_errors entries" "c \<in> set (plan_classes (sample_plan [sample_class, other_class]))" "m \<in> set (class_methods c)"
    "method_symbol m = ''reflgen_game_engine_add''"
proof -
  obtain c m where "c \<in> set (plan_classes (sample_plan [sample_class, other_class]))" "m \<in> set (class_methods c)"
    "method_symbol m = ''reflgen_game_engine_add''"
    using sample_plans(1) by (auto simp: map_eq_Cons_conv)
  moreover obtain out entries where "emit_interop [sample_class, other_class] sample_interop_target sample_options [] [] = Some (out, entries)"
    "\<not> has_errors entries"
    using planned_emission sample_plans(1) by blast
  ultimately show thesis by (rule that [rotated 2])
qed

section \<open>Emission\<close>

text \<open>C32: Generation does not fail. Whatever the declarations, the look-ups that the emitters make without testing, of names of
  types in constant tables, of lowered fields by index and of the target of a pointer that is handed over, succeed
  whenever the emitters run, so that the call returns and throws no exception: with an error among the diagnostics the output is empty, else it
  has the fingerprint of the contract.\<close>

theorem interop_emission_total:
  "\<exists>out entries. emit_interop exports t options report vs = Some (out, entries) \<and>
     (if has_errors entries then out = no_output
      else output_fingerprint out = fingerprint_of (foldl append_contract [] (plan_contract (plan_interop exports t options vs))))"
proof -
  obtain r where r: "emit_interop exports t options report vs = Some r" using emission_total_lemma by blast
  obtain out entries where "r = (out, entries)" by (cases r)
  with r show ?thesis
    by (auto simp: emit_interop_def Let_def bind_eq_Some_conv split: if_splits)
qed

text \<open>C29: The three languages agree on how a value crosses the boundary. For every parameter and result of an emitted method
  the types named in the C header, in C# and in F# have the same representation, number of bytes and sign included; a
  result is left out exactly when there is none; and a number that is copied as it is has as many bytes as in C++.\<close>

theorem languages_agree:
  assumes "emit_interop exports t options report vs = Some (out, entries)" "\<not> has_errors entries"
    "c \<in> set (plan_classes (plan_interop exports t options vs))" "m \<in> set (class_methods c)" "l \<in> set (method_result m # method_arguments m)"
  shows "\<exists>a. views_agree l a"
proof -
  note no = emitted(1) [OF assms(1,2) refl]
  have "class_lowered exports vs (prefix_of options) (class_of c) c" using plan_valid(2) [OF refl no] assms(3) by blast
  with assms(4) have "lowered_from exports vs (prefix_of options) (class_of c) (class_policy (class_of c)) (method_of m) m"
    by (simp add: class_lowered_def)
  from lowered_views(1) [OF this assms(5)] show ?thesis .
qed

theorem languages_agree_witness:
  "\<exists>c\<in>set (plan_classes (plan_interop [sample_class, other_class] sample_interop_target sample_options [])).
     \<exists>m\<in>set (class_methods c). method_symbol m = ''reflgen_game_engine_add'' \<and> (\<exists>a. views_agree (method_result m) a)"
proof -
  obtain out entries c m where s: "emit_interop [sample_class, other_class] sample_interop_target sample_options [] [] = Some (out, entries)"
    "\<not> has_errors entries" "c \<in> set (plan_classes (sample_plan [sample_class, other_class]))" "m \<in> set (class_methods c)"
    "method_symbol m = ''reflgen_game_engine_add''" by (rule sample_emission)
  from languages_agree [OF s(1-4), of "method_result m"] s(3-5) show ?thesis by auto
qed

text \<open>C30: Nothing is exported that the author did not select. A method that is emitted for a language belongs to one of the given
  classes; an attribute on the method asks for that language and one on its class for an interface; it is public, no
  static or deleted function and the only one of its name; and all symbols of the module, the fixed ones
  included, are different.\<close>

theorem only_selected_exports:
  assumes "emit_interop exports t options report vs = Some (out, entries)" "\<not> has_errors entries"
    "c \<in> set (plan_classes (plan_interop exports t options vs))" "m \<in> set (class_methods c)"
  shows "class_of c \<in> set exports \<and> method_of m \<in> set (methods_of (class_of c)) \<and>
    (\<exists>a\<in>set (method_attributes (method_of m)). requests_interop (method_target m) a) \<and>
    (\<exists>a\<in>set (class_attributes (class_of c)). \<exists>language. requests_interop language a) \<and>
    method_access (method_of m) = ''public'' \<and> \<not> is_static (method_of m) \<and> \<not> is_deleted (method_of m) \<and>
    length (filter (\<lambda>n. method_name n = method_name (method_of m)) (methods_of (class_of c))) \<le> 1 \<and>
    distinct (status_symbols (prefix_of options) @ concat (map lowered_symbols (plan_classes (plan_interop exports t options vs))))"
proof -
  note no = emitted(1) [OF assms(1,2) refl]
  have given: "class_of c \<in> set exports" "class_lowered exports vs (prefix_of options) (class_of c) c"
    using plan_valid(2) [OF refl no] assms(3) by blast+
  with assms(4) have m: "method_of m \<in> set (methods_of (class_of c))"
    "lowered_from exports vs (prefix_of options) (class_of c) (class_policy (class_of c)) (method_of m) m"
    by (simp_all add: class_lowered_def)
  have "\<exists>a\<in>set (method_attributes (method_of m)). requests_interop (method_target m) a"
    using read_policy_interop(2) [of "method_attributes (method_of m)" False] m(2) by (simp add: lowered_from_def Let_def)
  moreover have "method_access (method_of m) = ''public'' \<and> \<not> is_static (method_of m) \<and> \<not> is_deleted (method_of m) \<and>
      length (filter (\<lambda>n. method_name n = method_name (method_of m)) (methods_of (class_of c))) \<le> 1"
    using m(2) unfolding lowered_from_def unsupported_interop_method_def Let_def by (simp add: not_less)
  ultimately show ?thesis using given m(1) selected_class [OF given(2)] plan_valid(3) [OF refl no] by blast
qed

theorem only_selected_exports_witness:
  "\<exists>c\<in>set (plan_classes (plan_interop [sample_class, other_class] sample_interop_target sample_options [])).
     \<exists>m\<in>set (class_methods c). method_symbol m = ''reflgen_game_engine_add'' \<and> method_access (method_of m) = ''public'' \<and>
       class_of c \<in> {sample_class, other_class}"
proof -
  obtain out entries c m where s: "emit_interop [sample_class, other_class] sample_interop_target sample_options [] [] = Some (out, entries)"
    "\<not> has_errors entries" "c \<in> set (plan_classes (sample_plan [sample_class, other_class]))" "m \<in> set (class_methods c)"
    "method_symbol m = ''reflgen_game_engine_add''" by (rule sample_emission)
  from only_selected_exports [OF s(1-4)] s(3-5) show ?thesis by auto
qed

section \<open>Order\<close>

lemma lower_class_same_sets:
  assumes "set exports = set exports'" "set vs = set vs'"
  shows "lower_interop_class exports vs prefix = lower_interop_class exports' vs' prefix"
proof -
  have owned: "owned_class_pointer exports = owned_class_pointer exports'" and records: "lower_record_value vs = lower_record_value vs'"
    using assms by (auto simp: owned_class_pointer_def lower_record_value_def list_ex_iff fun_eq_iff split: option.splits)
  have lowered: "lower_value_or_type vs = lower_value_or_type vs'" unfolding lower_value_or_type_def fun_eq_iff by (simp only: records simp_thms)
  have result: "lower_result exports vs = lower_result exports' vs'" unfolding lower_result_def fun_eq_iff by (simp only: owned lowered simp_thms)
  have argument: "lower_argument exports vs = lower_argument exports' vs'"
    unfolding lower_argument_def fun_eq_iff by (simp only: owned lowered simp_thms)
  have arguments: "lower_arguments exports vs = lower_arguments exports' vs'"
    unfolding lower_arguments_def fun_eq_iff by (simp only: argument simp_thms)
  have by_method: "lower_interop_method exports vs = lower_interop_method exports' vs'"
    unfolding lower_interop_method_def fun_eq_iff by (simp only: result arguments simp_thms)
  show ?thesis unfolding lower_interop_class_def fun_eq_iff by (simp only: by_method simp_thms)
qed

lemma target_reports_order: "set exports = set exports' \<Longrightarrow> has_errors (target_reports exports t) = has_errors (target_reports exports' t)"
proof -
  assume same: "set exports = set exports'"
  have "has_errors (target_reports exports t) = (exports \<noteq> [] \<and> has_errors (target_reports [c] t))" for exports c
    by (simp add: target_reports_def Let_def)
  from this [of exports] this [of exports'] show ?thesis using same by (metis set_empty)
qed

text \<open>C31: The files do not depend on the order in which the headers were read. If the classes and the values are given in
  another order, the same four texts with the same fingerprint are generated, provided that classes and
  values have different names.\<close>

theorem interop_order_independent:
  assumes "mset exports = mset exports'" "mset vs = mset vs'" "distinct (map class_qualified_name exports)" "distinct (map alias_name vs)"
    "emit_interop exports t options report vs = Some (out, entries)" "\<not> has_errors entries"
  shows "\<exists>entries'. emit_interop exports' t options report vs' = Some (out, entries') \<and> \<not> has_errors entries'"
proof -
  have sets: "set exports = set exports'" "set vs = set vs'" using assms(1,2) by (metis set_mset_mset)+
  have sorted: "sort_key class_qualified_name exports = sort_key class_qualified_name exports'" "sort_key alias_name vs = sort_key alias_name vs'"
    using assms(1-4) by (simp_all add: sort_key_unique distinct_map)
  note same = lower_class_same_sets [OF sets] sorted
  let ?p = "plan_interop exports t options vs" and ?q = "plan_interop exports' t options vs'"
  have "list_ex fsharp_value vs = list_ex fsharp_value vs'" using sets by (simp add: list_ex_iff)
  then have plans: "plan_classes ?q = plan_classes ?p" "plan_layouts ?q = plan_layouts ?p" "plan_csharp ?q = plan_csharp ?p" "plan_fsharp ?q = plan_fsharp ?p"
    "plan_contract ?q = plan_contract ?p" "has_errors (plan_report ?q) = has_errors (plan_report ?p)"
    using target_reports_order [OF sets(1)] by (simp_all add: plan_interop_def Let_def same split: prod.split)
  note out = emitted [OF assms(5,6) refl]
  then have "\<not> has_errors (report @ plan_report ?q)" using plans by simp
  then show ?thesis using assms(5,6) out(1-3) plans by (simp add: emit_interop_def Let_def split: if_splits) (auto simp: bind_eq_Some_conv)
qed

theorem interop_order_independent_witness:
  "\<exists>out entries. emit_interop [other_class, sample_class] sample_interop_target sample_options [] [] = Some (out, entries) \<and> \<not> has_errors entries"
proof -
  obtain out entries c m where s: "emit_interop [sample_class, other_class] sample_interop_target sample_options [] [] = Some (out, entries)"
    "\<not> has_errors entries" by (rule sample_emission)
  have "mset [sample_class, other_class] = mset [other_class, sample_class]" "mset ([] :: value_model list) = mset []"
    "distinct (map class_qualified_name [sample_class, other_class])" "distinct (map alias_name [])"
    by (simp_all add: sample_class_def other_class_def)
  from interop_order_independent [OF this s] show ?thesis by blast
qed

section \<open>The contract\<close>

lemma target_without_interop: "policy_target (fst (read_policy as is_class)) \<noteq> No_Target \<Longrightarrow> has_interop (fst (read_policy as is_class))"
proof -
  have step: "policy_target (fst (policy_step is_class a p)) = No_Target \<or> has_interop (fst (policy_step is_class a p))"
    if "policy_target p = No_Target \<or> has_interop p" for a p
    using that by (simp add: policy_step_def Let_def split: prod.split)
  have "policy_target (fst (read_policy_from is_class p as)) = No_Target \<or> has_interop (fst (read_policy_from is_class p as))"
    if "policy_target p = No_Target \<or> has_interop p" for p
    using that
  proof (induction as arbitrary: p)
    case (Cons a as)
    with step [OF Cons.prems, of a] show ?case by (simp add: split_beta)
  qed simp
  from this [of no_policy] show "policy_target (fst (read_policy as is_class)) \<noteq> No_Target \<Longrightarrow> has_interop (fst (read_policy as is_class))"
    by (auto simp: read_policy_def no_policy_def)
qed

definition has_target :: "interop_target \<Rightarrow> lowered_class \<Rightarrow> bool" where
  "has_target language l \<longleftrightarrow> policy_target (class_policy (class_of l)) = language"

lemma plan_languages:
  assumes "plan = plan_interop exports t options vs" "\<not> has_errors (plan_report plan)"
  shows "plan_csharp plan \<longleftrightarrow> list_ex (has_target Csharp_Target) (plan_classes plan)"
    "plan_fsharp plan \<longleftrightarrow> list_ex (has_target Fsharp_Target) (plan_classes plan) \<or> plan_layouts plan \<noteq> []"
proof -
  note valid = plan_valid [OF assms]
  have selected: "(\<exists>c\<in>set exports. policy_target (class_policy c) = language) \<longleftrightarrow> list_ex (has_target language) (plan_classes plan)"
    if "language \<noteq> No_Target" for language
  proof -
    have "(\<exists>c\<in>set exports. policy_target (class_policy c) = language) \<longleftrightarrow>
        (\<exists>c\<in>set (selected_classes exports). policy_target (class_policy c) = language)"
      using that target_without_interop by (auto simp: selected_classes_def class_policy_def)
    also have "\<dots> \<longleftrightarrow> list_ex (has_target language) (plan_classes plan)"
      unfolding valid(1) [symmetric] by (auto simp: list_ex_iff has_target_def)
    finally show ?thesis .
  qed
  have "list_ex fsharp_value vs \<longleftrightarrow> map layout_of (plan_layouts plan) \<noteq> []"
    unfolding valid(4) by (simp add: list_ex_iff filter_empty_conv)
  with valid(8,9) selected show "plan_csharp plan \<longleftrightarrow> list_ex (has_target Csharp_Target) (plan_classes plan)"
    "plan_fsharp plan \<longleftrightarrow> list_ex (has_target Fsharp_Target) (plan_classes plan) \<or> plan_layouts plan \<noteq> []"
    by simp_all
qed

text \<open>Two plans whose contracts consist of the same items.\<close>

definition same_plan :: "interop_plan \<Rightarrow> interop_plan \<Rightarrow> bool" where
  "same_plan p q \<longleftrightarrow> plan_csharp p = plan_csharp q \<and> plan_fsharp p = plan_fsharp q \<and>
     list_all2 same_class (plan_classes p) (plan_classes q) \<and> list_all2 same_layout (plan_layouts p) (plan_layouts q)"

lemma same_contract_plan:
  assumes p: "p = plan_interop exports t options vs" "\<not> has_errors (plan_report p)"
    and q: "q = plan_interop exports' t' options' vs'" "\<not> has_errors (plan_report q)"
    and same: "plan_contract p = plan_contract q"
  shows "module_contract options t = module_contract options' t' \<and> same_plan p q"
proof -
  note vp = plan_valid [OF p] and vq = plan_valid [OF q]
  have parts: "module_contract options t = module_contract options' t'"
    "concat (map lowered_contract (plan_classes p)) @ concat (map layout_items (plan_layouts p)) =
     concat (map lowered_contract (plan_classes q)) @ concat (map layout_items (plan_layouts q))"
    using same unfolding vp(7) vq(7) by (simp_all add: module_contract_def)
  have prefix: "prefix_of options' = prefix_of options" using parts(1) by (simp add: module_contract_def prefix_of_def)
  have first: "concat (map layout_items ls) = [] \<or> hd (concat (map layout_items ls)) = ''fsharp-value-layout-v1''" for ls
    using layout_items_first by (cases ls) auto
  from class_contracts [OF parts(2) first first]
  have equal: "map lowered_contract (plan_classes p) = map lowered_contract (plan_classes q)"
    "concat (map layout_items (plan_layouts p)) = concat (map layout_items (plan_layouts q))" by blast+
  have classes: "list_all2 same_class (plan_classes p) (plan_classes q)"
    using equal(1)
  proof (rule list_all2_of_map)
    show "same_class x y" if "x \<in> set (plan_classes p)" "y \<in> set (plan_classes q)" "lowered_contract x = lowered_contract y" for x y
      using same_class_contract [OF that(3)] vp(2) vq(2) that(1,2) prefix by metis
  qed
  have layouts: "list_all2 same_layout (plan_layouts p) (plan_layouts q)" using same_layouts [OF equal(2) vp(5) vq(5)] .
  have "map (\<lambda>l. language_name (policy_target (class_policy (class_of l)))) (plan_classes p) =
      map (\<lambda>l. language_name (policy_target (class_policy (class_of l)))) (plan_classes q)"
    using arg_cong [where f = "map (\<lambda>items. items ! 2)", OF equal(1)] by (simp add: lowered_contract_def class_contract_def comp_def)
  then have "list_all2 (\<lambda>a b. has_target Csharp_Target a = has_target Csharp_Target b \<and> has_target Fsharp_Target a = has_target Fsharp_Target b)
      (plan_classes p) (plan_classes q)"
    by (rule list_all2_of_map) (unfold has_target_def, erule language_name_eq)
  then have "list_ex (has_target Csharp_Target) (plan_classes p) = list_ex (has_target Csharp_Target) (plan_classes q) \<and>
      list_ex (has_target Fsharp_Target) (plan_classes p) = list_ex (has_target Fsharp_Target) (plan_classes q)"
    by induction auto
  moreover have "plan_layouts p = [] \<longleftrightarrow> plan_layouts q = []" using layouts by auto
  ultimately show ?thesis using parts(1) classes layouts by (simp add: same_plan_def plan_languages [OF p] plan_languages [OF q])
qed

lemma same_plan_texts:
  assumes "same_plan p q" "p = plan_interop exports t options vs" "\<not> has_errors (plan_report p)"
    "q = plan_interop exports' t' options' vs'" "\<not> has_errors (plan_report q)"
    "prefix_of options' = prefix_of options" "spelled_by name_of exports" "spelled_by name_of exports'"
  shows "map (c_class macro) (plan_classes p) = map (c_class macro) (plan_classes q)"
    "map csharp_method (concat (map class_methods (plan_classes p))) = map csharp_method (concat (map class_methods (plan_classes q)))"
    "map fsharp_layout (plan_layouts p) = map fsharp_layout (plan_layouts q)"
    "map fsharp_externs (plan_classes p) = map fsharp_externs (plan_classes q)"
    "map (fsharp_owned prefix) (plan_classes p) = map (fsharp_owned prefix) (plan_classes q)"
    "map fsharp_transfer (concat (map class_methods (plan_classes p))) = map fsharp_transfer (concat (map class_methods (plan_classes q)))"
    "passes_callback (plan_classes p) = passes_callback (plan_classes q)"
proof -
  note vp = plan_valid(2) [OF assms(2,3)] and vq = plan_valid(2) [OF assms(4,5)]
  have classes: "list_all2 same_class (plan_classes p) (plan_classes q)" and layouts: "list_all2 same_layout (plan_layouts p) (plan_layouts q)"
    using assms(1) by (simp_all add: same_plan_def)
  note texts = concat_map_cong2 [OF classes]
  show "map (c_class macro) (plan_classes p) = map (c_class macro) (plan_classes q)" by (rule texts) (rule class_texts(1))
  show "map fsharp_externs (plan_classes p) = map fsharp_externs (plan_classes q)" by (rule texts) (rule class_texts(3))
  show "map (fsharp_owned prefix) (plan_classes p) = map (fsharp_owned prefix) (plan_classes q)" by (rule texts) (rule class_texts(4))
  show "map fsharp_layout (plan_layouts p) = map fsharp_layout (plan_layouts q)"
    by (rule concat_map_cong2 [OF layouts]) (rule layout_text)
  have "map (\<lambda>c. map csharp_method (class_methods c)) (plan_classes p) = map (\<lambda>c. map csharp_method (class_methods c)) (plan_classes q)"
    by (rule texts) (rule class_texts(2))
  then show "map csharp_method (concat (map class_methods (plan_classes p))) = map csharp_method (concat (map class_methods (plan_classes q)))"
    by (simp only: map_concat list.map_comp comp_def)
  have "map (\<lambda>c. map fsharp_transfer (class_methods c)) (plan_classes p) = map (\<lambda>c. map fsharp_transfer (class_methods c)) (plan_classes q)"
    by (rule texts) (use transfer_texts vp vq assms(6-8) in metis)
  then show "map fsharp_transfer (concat (map class_methods (plan_classes p))) = map fsharp_transfer (concat (map class_methods (plan_classes q)))"
    by (simp only: map_concat list.map_comp comp_def)
  let ?passes = "\<lambda>c. list_ex (\<lambda>m. method_target m = Fsharp_Target \<and> list_ex is_callback (method_arguments m)) (class_methods c)"
  have "passes_callback cs = list_ex ?passes cs" for cs by (auto simp: passes_callback_def list_ex_iff)
  moreover have "list_ex ?passes (plan_classes p) = list_ex ?passes (plan_classes q)"
    using classes by (induction rule: list_all2_induct) (simp_all only: list_ex_Nil_iff list_ex_Cons_iff class_texts(5))
  ultimately show "passes_callback (plan_classes p) = passes_callback (plan_classes q)" by simp
qed

text \<open>C28: The fingerprint stands for everything that consumers see. If two modules, from whatever headers, have contracts that
  are the same string, from which the fingerprint is computed, then the C header, the C# file and the F# file are the same, provided that
  the spelling of a pointer determines the name of the class it points to, which is true for Clang. Equal contracts
  mean equal declarations although the items of classes, methods and values stand one behind the other without brackets.\<close>

theorem contract_fixes_interface:
  assumes "emit_interop exports t options report vs = Some (out, entries)" "\<not> has_errors entries"
    "emit_interop exports' t' options' report' vs' = Some (out', entries')" "\<not> has_errors entries'"
    "foldl append_contract [] (plan_contract (plan_interop exports t options vs)) =
     foldl append_contract [] (plan_contract (plan_interop exports' t' options' vs'))"
    "spelled_by name_of exports" "spelled_by name_of exports'"
  shows "output_header out = output_header out' \<and> output_csharp out = output_csharp out' \<and> output_fsharp out = output_fsharp out' \<and>
    output_fingerprint out = output_fingerprint out'"
proof -
  let ?p = "plan_interop exports t options vs" and ?q = "plan_interop exports' t' options' vs'"
  note p = emitted [OF assms(1,2) refl] and q = emitted [OF assms(3,4) refl]
  have plans: "module_contract options t = module_contract options' t'" "same_plan ?p ?q"
    using same_contract_plan [OF refl p(1) refl q(1) contract_inj [OF assms(5)]] by blast+
  have options: "prefix_of options' = prefix_of options" "library_of options' = library_of options"
    "csharp_namespace options' = csharp_namespace options" "triple t' = triple t"
    using plans(1) by (simp_all add: module_contract_def prefix_of_def)
  note texts = same_plan_texts [OF plans(2) refl p(1) refl q(1) options(1) assms(6,7)]
  have flags: "plan_csharp ?p = plan_csharp ?q" "plan_fsharp ?p = plan_fsharp ?q" using plans(2) by (simp_all add: same_plan_def)
  have same: "output_fingerprint out = output_fingerprint out'" using p(4) q(4) assms(5) by simp
  moreover have "output_header out = output_header out'" unfolding p(5) q(5) c_header_def by (simp only: options texts)
  moreover have "output_csharp out = output_csharp out'"
    unfolding p(6) q(6) csharp_source_def by (simp only: options texts flags same)
  moreover have "Some (output_fsharp out) = Some (output_fsharp out')"
    unfolding p(7) [symmetric] q(7) [symmetric] fsharp_source_def fsharp_preamble_def by (simp only: options texts flags same)
  ultimately show ?thesis by simp
qed

theorem contract_fixes_interface_witness:
  "\<exists>out entries out' entries'. emit_interop [sample_class, other_class] sample_interop_target sample_options [] [] = Some (out, entries) \<and>
     emit_interop [sample_class] sample_interop_target sample_options [] [] = Some (out', entries') \<and> output_header out = output_header out'"
proof -
  obtain out entries c m where s: "emit_interop [sample_class, other_class] sample_interop_target sample_options [] [] = Some (out, entries)"
    "\<not> has_errors entries" by (rule sample_emission)
  obtain out' entries' where s': "emit_interop [sample_class] sample_interop_target sample_options [] [] = Some (out', entries')"
    "\<not> has_errors entries'" by (rule planned_emission [OF sample_plans(2)])
  have "spelled_by id [sample_class, other_class]" "spelled_by id [sample_class]"
    by (simp_all add: spelled_by_def sample_class_def other_class_def sample_method_def int_type_def)
  from contract_fixes_interface [OF s s' _ this] s(1) s'(1) sample_plans(3) show ?thesis by auto
qed

end
