(* ===== verification/Table_Lowering.thy ===== *)
theory Table_Lowering
  imports Interop_Emit "HOL-Library.Signed_Division"
begin

text \<open>
  Tables of native function pointers for F# (\<open>generator/src/fsharp_table.cpp\<close>): which types a table
  may use, and the declarations they need, in an order in which every type is declared before it is used.
  The members of the emitter that change are the record \<open>table_state\<close>. An exception, of which
  \<open>map::at\<close> is the only source, is None.
\<close>

section \<open>Input\<close>

record native_table =
  table_alias :: string
  managed_name :: string
  version_field :: string
  size_field :: string
  version_expression :: string
  table_version :: "64 word"
  table_record :: value_model
  table_values :: "value_model list"
  table_position :: source_position

record table_options =
  table_module :: string
  managed_namespace :: string

text \<open>What is not changed after the values have been collected: the target, and the values by name.\<close>

record table_context =
  table_target :: target_model
  table_models :: "(string \<times> value_model) list"

definition targets_windows :: "target_model \<Rightarrow> bool" where
  "targets_windows t \<longleftrightarrow> mentions (triple t) ''windows'' \<or> mentions (triple t) ''mingw''"

definition targets_linux :: "target_model \<Rightarrow> bool" where
  "targets_linux t \<longleftrightarrow> mentions (triple t) ''linux''"

definition pointer_bytes :: "target_model \<Rightarrow> int" where
  "pointer_bytes t = sint (pointer_width t) sdiv 8"

definition supported_table_target :: "target_model \<Rightarrow> bool" where
  "supported_table_target t \<longleftrightarrow> (targets_windows t \<or> targets_linux t) \<and> x64_target (triple t) \<and> pointer_width t = 64"

text \<open>Paths that can be written between quotes in an include directive.\<close>

definition table_includable :: "string \<Rightarrow> bool" where
  "table_includable path \<longleftrightarrow> path \<noteq> [] \<and> list_all (\<lambda>c. c \<notin> {CHR 0x22, CHR 0x5C, CHR 0x0D, CHR 0x0A}) path \<and>
     list_all (\<lambda>c. \<not> (code_of c < 32 \<or> code_of c = 127)) path"

section \<open>Output\<close>

record table_type =
  type_text :: string
  type_size :: int
  type_alignment :: int

definition no_table_type :: table_type where
  "no_table_type = \<lparr>type_text = [], type_size = -1, type_alignment = -1\<rparr>"

text \<open>
  The declarations of arrays and of values are kept in two lists, and a third list of indices tells in which
  order they were made; each index is the last one of its list at that time, so that one list
  holds the same.
\<close>

datatype table_definition =
  Array_Definition (array_name: string) (array_element: table_type) (array_count: int) (array_bytes: int) (array_alignment: int)
| Value_Definition (value_of: value_model) (value_name: string) (value_types: "table_type list")

record function_layout =
  layout_field :: value_field_model
  delegate_name :: string
  delegate_convention :: string
  delegate_result :: table_type
  delegate_arguments :: "table_type list"

record table_layout =
  table_of :: native_table
  version_offset :: int
  size_offset :: int
  table_functions :: "function_layout list"

record table_state =
  completed_values :: "(string \<times> value_model) list"
  visiting_values :: "string list"
  pointed_values :: "string list"
  generated_names :: "string list"
  table_definitions :: "table_definition list"
  table_layouts :: "table_layout list"
  table_report :: "diagnostic list"

definition table_error :: "string \<Rightarrow> source_position \<Rightarrow> string \<Rightarrow> table_state \<Rightarrow> table_state" where
  "table_error code place msg s = s\<lparr>table_report := table_report s @ [error_at code place msg]\<rparr>"

definition reserve_name :: "string \<Rightarrow> source_position \<Rightarrow> table_state \<Rightarrow> table_state" where
  "reserve_name name place s =
     (if \<not> cpp_identifier name
      then table_error ''RG0400'' place (''generated F# name must be an ASCII identifier: '' @ apostrophes name) s
      else if name \<in> set (generated_names s)
      then table_error ''RG0403'' place (''generated native-table name collision: '' @ apostrophes name) s
      else s\<lparr>generated_names := name # generated_names s\<rparr>)"

text \<open>The members of a \<open>std::map\<close> in the order of their keys.\<close>

definition in_key_order :: "(string \<times> 'a) list \<Rightarrow> (string \<times> 'a) list" where
  "in_key_order m = sort_key fst m"

definition emplace :: "string \<Rightarrow> 'a \<Rightarrow> (string \<times> 'a) list \<Rightarrow> (string \<times> 'a) list" where
  "emplace k v m = (if k \<in> fst ` set m then m else m @ [(k, v)])"

section \<open>Values that F# can represent\<close>

definition number_bytes :: "declaration_type \<Rightarrow> bool" where
  "number_bytes t \<longleftrightarrow> sint (size_bytes t) \<in> {1, 2, 4, 8}"

definition float_shape :: "declaration_type \<Rightarrow> bool" where
  "float_shape t \<longleftrightarrow> (canonical_spelling t = ''float'' \<and> size_bytes t = 4) \<or> (canonical_spelling t = ''double'' \<and> size_bytes t = 8)"

definition wide_character :: "declaration_type \<Rightarrow> bool" where
  "wide_character t \<longleftrightarrow> canonical_spelling t = ''char16_t'' \<or> canonical_spelling t = ''char32_t''"

text \<open>\<open>named\<close> decides for a class or enumeration with a name.\<close>

function simple_shape :: "target_model \<Rightarrow> (string \<Rightarrow> bool) \<Rightarrow> declaration_type \<Rightarrow> bool" where
  "simple_shape tgt named t =
     (if type_is_volatile t \<or> sint (size_bytes t) \<le> 0 \<or> sint (align_bytes t) \<le> 0 \<or> sint (align_bytes t) > 8 then False
      else if type_kind t = ''pointer'' then pointee t \<noteq> None \<and> sint (size_bytes t) = pointer_bytes tgt
      else if type_kind t = ''record'' \<or> type_kind t = ''enum'' then named (type_declaration t)
      else if type_kind t = ''array''
      then sint (array_size t) > 0 \<and> sint (array_size t) \<le> 16384 \<and>
        (case element_type t of None \<Rightarrow> False | Some e \<Rightarrow> simple_shape tgt named e)
      else if type_kind t = ''signed_integer'' \<or> type_kind t = ''unsigned_integer'' then number_bytes t
      else if type_kind t = ''character'' then wide_character t
      else type_kind t = ''floating_point'' \<and> float_shape t)"
  by pat_completeness auto

lemma element_smaller: "element_type t = Some e \<Longrightarrow> size e < size t"
  by (cases t) auto

termination simple_shape
  by (relation "measure (\<lambda>(tgt, named, t). size t)") (auto simp: element_smaller)

declare simple_shape.simps [simp del]

text \<open>The greatest alignment of the fields, if they lie one behind the other within the value.\<close>

fun fields_fit :: "(declaration_type \<Rightarrow> bool) \<Rightarrow> int \<Rightarrow> int \<Rightarrow> int \<Rightarrow> value_field_model list \<Rightarrow> int option" where
  "fields_fit shape whole alignment fin [] = Some alignment"
| "fields_fit shape whole alignment fin (f # fs) =
     (let t = member_type f; at = sint (offset_bytes f) in
      if \<not> is_public f \<or> is_bitfield f \<or> \<not> cpp_identifier (member_name f) \<or> at < fin \<or> \<not> shape t \<or>
         at mod sint (align_bytes t) \<noteq> 0 \<or> at > whole - sint (size_bytes t)
      then None
      else fields_fit shape whole (max alignment (sint (align_bytes t))) (at + sint (size_bytes t)) fs)"

definition plain_value :: "value_model \<Rightarrow> bool" where
  "plain_value v \<longleftrightarrow> sint (size_bytes (target v)) > 0 \<and> sint (size_bytes (target v)) \<le> 2147483647 \<and>
     sint (value_align_bytes v) > 0 \<and> sint (value_align_bytes v) \<le> 8 \<and>
     \<not> is_union v \<and> \<not> has_bases v \<and> \<not> has_virtual_members v \<and> \<not> has_nontrivial_destructor v"

function representable :: "table_context \<Rightarrow> string list \<Rightarrow> string \<Rightarrow> bool" where
  "representable ctx seen name =
     (case map_of (table_models ctx) name of
        None \<Rightarrow> False
      | Some v \<Rightarrow>
          if name \<in> set seen \<or> length (name # seen) > 64 \<or> \<not> qualified_name ''::'' name then False
          else let shape = simple_shape (table_target ctx) (\<lambda>d. representable ctx (name # seen) d);
            whole = sint (size_bytes (target v))
          in if \<not> plain_value v then False
             else if type_kind (target v) = ''enum'' then shape (underlying v)
             else if alias_fields v = [] then False
             else case fields_fit shape whole 1 0 (alias_fields v) of
                 None \<Rightarrow> False
               | Some alignment \<Rightarrow> alignment = sint (value_align_bytes v) \<and> whole mod alignment = 0)"
  by pat_completeness auto
termination
  by (relation "measure (\<lambda>(ctx, seen, name). 65 - length seen)") auto

declare representable.simps [simp del]

section \<open>Types\<close>

definition call_convention :: "target_model \<Rightarrow> string \<Rightarrow> string option" where
  "call_convention t convention =
     (if convention = ''c'' \<or> convention = ''default'' then Some ''Cdecl''
      else if convention = ''x86_stdcall'' \<and> targets_windows t then Some ''StdCall''
      else if convention = ''win64'' \<and> targets_windows t \<and> pointer_width t = 64 then Some ''StdCall''
      else if convention = ''x86_64_sysv'' \<and> targets_linux t \<and> architecture (triple t) = ''x86_64'' then Some ''Cdecl''
      else None)"

definition lower_convention :: "target_model \<Rightarrow> declaration_type \<Rightarrow> source_position \<Rightarrow> table_state \<Rightarrow> string \<times> table_state" where
  "lower_convention t f place s =
     (case call_convention t (function_calling_convention f) of
        Some c \<Rightarrow> (c, s)
      | None \<Rightarrow> ([], table_error ''RG0402'' place
          (''unsupported native function calling convention: '' @ apostrophes (function_calling_convention f)) s))"

definition callable_function :: "declaration_type \<Rightarrow> bool" where
  "callable_function f \<longleftrightarrow> function_has_prototype f \<and> \<not> function_variadic f \<and> function_result f \<noteq> None \<and>
     (function_exception_specification f = ''none'' \<or> function_exception_specification f = ''noexcept'')"

definition fs_name :: "string \<Rightarrow> string" where
  "fs_name name = ''``'' @ name @ ''``''"

definition reject_type :: "declaration_type \<Rightarrow> string \<Rightarrow> source_position \<Rightarrow> table_state \<Rightarrow> table_type \<times> table_state" where
  "reject_type t context place s = (no_table_type, table_error ''RG0402'' place
     (''unsupported native table type '' @ apostrophes (canonical_spelling t) @ '' in '' @ context) s)"

text \<open>A pointer to a value that F# can represent asks for the declaration of the value, later.\<close>

definition lower_pointer :: "table_context \<Rightarrow> declaration_type \<Rightarrow> declaration_type \<Rightarrow> string \<Rightarrow> source_position \<Rightarrow> table_state
    \<Rightarrow> table_type \<times> table_state" where
  "lower_pointer ctx t p context place s =
     (if type_kind p = ''function'' \<and> \<not> callable_function p then reject_type t context place s
      else
        let s' = (if type_kind p = ''function'' then snd (lower_convention (table_target ctx) p place s) else s);
            asked = ((type_kind p = ''record'' \<or> type_kind p = ''enum'') \<and> representable ctx [] (type_declaration p) \<and>
              type_declaration p \<notin> fst ` set (completed_values s') \<and> type_declaration p \<notin> set (visiting_values s'))
        in (\<lparr>type_text = ''nativeint'', type_size = sint (size_bytes t), type_alignment = sint (align_bytes t)\<rparr>,
            if asked then s'\<lparr>pointed_values := List.insert (type_declaration p) (pointed_values s')\<rparr> else s'))"

definition array_fits :: "declaration_type \<Rightarrow> declaration_type \<Rightarrow> bool" where
  "array_fits t e \<longleftrightarrow> 0 < sint (array_size t) \<and> sint (array_size t) \<le> 16384 \<and> 0 < sint (size_bytes e) \<and>
     sint (array_size t) \<le> 2147483647 div sint (size_bytes e) \<and> size_bytes t = array_size t * size_bytes e"

definition lower_number :: "declaration_type \<Rightarrow> table_type option" where
  "lower_number t =
     (let made = (\<lambda>name. Some \<lparr>type_text = name, type_size = sint (size_bytes t), type_alignment = sint (align_bytes t)\<rparr>) in
      if type_kind t = ''signed_integer'' \<or> type_kind t = ''unsigned_integer'' \<or> (type_kind t = ''character'' \<and> wide_character t)
      then if number_bytes t
        then made ((if type_kind t = ''signed_integer'' then ''int'' else ''uint'') @ show_int (sint (size_bytes t) * 8))
        else None
      else if type_kind t = ''floating_point'' \<and> float_shape t
      then made (if canonical_spelling t = ''float'' then ''float32'' else ''float'')
      else None)"

text \<open>\<open>declare_value\<close> declares a class or enumeration.\<close>

function lower_table_type :: "table_context \<Rightarrow> (string \<Rightarrow> source_position \<Rightarrow> table_state \<Rightarrow> table_state option) \<Rightarrow> declaration_type
    \<Rightarrow> string \<Rightarrow> source_position \<Rightarrow> bool \<Rightarrow> table_state \<Rightarrow> (table_type \<times> table_state) option" where
  "lower_table_type ctx declare_value t context place allow_void s =
     (if type_is_volatile t then Some (reject_type t context place s)
      else if type_kind t = ''void'' \<and> allow_void then Some (\<lparr>type_text = ''unit'', type_size = 0, type_alignment = 1\<rparr>, s)
      else if type_kind t = ''pointer'' \<and> pointee t \<noteq> None \<and> sint (size_bytes t) = pointer_bytes (table_target ctx)
      then Some (lower_pointer ctx t (the (pointee t)) context place s)
      else if type_kind t = ''record'' \<or> type_kind t = ''enum''
      then if \<not> representable ctx [] (type_declaration t) then Some (reject_type t context place s)
        else map_option (\<lambda>s. (\<lparr>type_text = fs_name (symbol_component (type_declaration t)), type_size = sint (size_bytes t),
            type_alignment = sint (align_bytes t)\<rparr>, s))
          (declare_value (type_declaration t) place s)
      else if type_kind t = ''array''
      then case element_type t of
          None \<Rightarrow> Some (reject_type t context place s)
        | Some e \<Rightarrow>
            if \<not> array_fits t e then Some (reject_type t context place s)
            else let name = context @ ''_Array'' in
              map_option (\<lambda>(l, s). (\<lparr>type_text = fs_name name, type_size = sint (size_bytes t), type_alignment = sint (align_bytes t)\<rparr>,
                  s\<lparr>table_definitions := table_definitions s @
                    [Array_Definition name l (sint (array_size t)) (sint (size_bytes t)) (sint (align_bytes t))]\<rparr>))
                (lower_table_type ctx declare_value e (name @ ''_Element'') place False (reserve_name name place s))
      else case lower_number t of
          Some l \<Rightarrow> Some (l, s)
        | None \<Rightarrow> Some (reject_type t context place s))"
  by pat_completeness auto
termination
  by (relation "measure (\<lambda>(ctx, declare_value, t, rest). size t)") (auto simp: element_smaller)

declare lower_table_type.simps [simp del]

section \<open>Values\<close>

text \<open>The types of some fields, each with the place where it stands.\<close>

fun lower_each :: "(declaration_type \<Rightarrow> string \<Rightarrow> table_state \<Rightarrow> (table_type \<times> table_state) option) \<Rightarrow> (declaration_type \<times> string) list
    \<Rightarrow> table_state \<Rightarrow> (table_type list \<times> table_state) option" where
  "lower_each lower [] s = Some ([], s)"
| "lower_each lower ((t, context) # ts) s =
     Option.bind (lower t context s) (\<lambda>(l, s). map_option (\<lambda>(ls, s). (l # ls, s)) (lower_each lower ts s))"

fun check_cases :: "source_position \<Rightarrow> string list \<Rightarrow> value_case_model list \<Rightarrow> table_state \<Rightarrow> table_state" where
  "check_cases place seen [] s = s"
| "check_cases place seen (c # cs) s =
     (if \<not> cpp_identifier (enumerator_name c) \<or> enumerator_name c \<in> set seen
      then check_cases place seen cs (table_error ''RG0401'' place ''enum case names must be unique ASCII identifiers'' s)
      else check_cases place (enumerator_name c # seen) cs s)"

definition value_parts :: "string \<Rightarrow> value_model \<Rightarrow> (declaration_type \<times> string) list" where
  "value_parts name v =
     (if type_kind (target v) = ''enum'' then [(underlying v, name)]
      else map (\<lambda>f. (member_type f, name @ ''_'' @ member_name f)) (alias_fields v))"

text \<open>
  A value is declared after the values it contains. The first argument bounds the depth of the nesting.
\<close>

fun lower_table_value :: "nat \<Rightarrow> table_context \<Rightarrow> string \<Rightarrow> source_position \<Rightarrow> table_state \<Rightarrow> table_state option" where
  "lower_table_value 0 ctx name place s = None"
| "lower_table_value (Suc depth) ctx name place s =
     (if name \<in> fst ` set (completed_values s) \<or> name \<in> set (visiting_values s) then Some s
      else case map_of (table_models ctx) name of
          None \<Rightarrow> None
        | Some v \<Rightarrow>
            if \<not> qualified_name ''::'' name
            then Some (table_error ''RG0401'' place ''native value requires a named non-template declaration'' s)
            else
              let flat = symbol_component name;
                  s = reserve_name flat (alias_position v) (s\<lparr>visiting_values := name # visiting_values s\<rparr>)
              in map_option (\<lambda>(ls, s).
                   let s = (if type_kind (target v) = ''enum'' then check_cases (alias_position v) [] (alias_cases v) s else s)
                   in s\<lparr>table_definitions := table_definitions s @ [Value_Definition v flat ls],
                        visiting_values := remove1 name (visiting_values s),
                        completed_values := emplace name v (completed_values s)\<rparr>)
                 (lower_each (\<lambda>t context s. lower_table_type ctx (lower_table_value depth ctx) t context (alias_position v) False s)
                   (value_parts flat v) s))"

text \<open>The depth that is enough: values that are nested more than 64 deep are not representable.\<close>

definition value_depth :: nat where
  "value_depth = 65"

abbreviation lower_type_in :: "table_context \<Rightarrow> source_position \<Rightarrow> bool \<Rightarrow> declaration_type \<Rightarrow> string \<Rightarrow> table_state \<Rightarrow> (table_type \<times> table_state) option" where
  "lower_type_in ctx place allow_void t context s \<equiv>
     lower_table_type ctx (lower_table_value value_depth ctx) t context place allow_void s"

section \<open>Tables\<close>

definition valid_table :: "target_model \<Rightarrow> native_table \<Rightarrow> bool" where
  "valid_table tgt n \<longleftrightarrow>
     (let v = table_record n; t = target v; e = version_expression n in
      qualified_name ''::'' (table_alias n) \<and> qualified_name ''::'' (type_declaration t) \<and>
      cpp_identifier (version_field n) \<and> cpp_identifier (size_field n) \<and> version_field n \<noteq> size_field n \<and>
      0 \<le> sint (table_version n) \<and> sint (table_version n) \<le> 2147483647 \<and>
      qualified_name ''::'' (if starts_with e ''::'' then drop 2 e else e) \<and>
      table_includable (pos_file (table_position n)) \<and> type_kind t = ''record'' \<and> \<not> type_is_const t \<and> \<not> type_is_volatile t \<and>
      8 \<le> sint (size_bytes t) \<and> sint (size_bytes t) \<le> 2147483647 \<and>
      sint (value_align_bytes v) = pointer_bytes tgt \<and> \<not> has_bases v \<and> \<not> is_union v \<and>
      \<not> has_virtual_members v \<and> \<not> has_nontrivial_destructor v)"

record table_progress =
  fields_end :: int
  fields_seen :: "string list"
  version_at :: int
  size_at :: int
  functions_found :: "function_layout list"

definition no_progress :: table_progress where
  "no_progress = \<lparr>fields_end = 0, fields_seen = [], version_at = -1, size_at = -1, functions_found = []\<rparr>"

definition is_header_field :: "native_table \<Rightarrow> value_field_model \<Rightarrow> bool" where
  "is_header_field n f \<longleftrightarrow> member_name f = version_field n \<or> member_name f = size_field n"

definition header_field :: "native_table \<Rightarrow> value_field_model \<Rightarrow> table_progress \<Rightarrow> table_state \<Rightarrow> table_progress \<times> table_state" where
  "header_field n f p s =
     (let t = member_type f; at = sint (offset_bytes f) in
      (if member_name f = version_field n then p\<lparr>version_at := at\<rparr> else p\<lparr>size_at := at\<rparr>,
       if type_kind t \<noteq> ''signed_integer'' \<or> size_bytes t \<noteq> 4 \<or> type_is_const t \<or> type_is_volatile t \<or> at mod 4 \<noteq> 0 \<or> at > 4
       then table_error ''RG0401'' (table_position n) ''version and size must be the first two int32 fields of the native table'' s
       else s))"

definition function_field :: "target_model \<Rightarrow> value_field_model \<Rightarrow> bool" where
  "function_field tgt f \<longleftrightarrow>
     (let t = member_type f; at = sint (offset_bytes f) in
      type_kind t = ''pointer'' \<and> \<not> type_is_const t \<and> \<not> type_is_volatile t \<and>
      (case pointee t of None \<Rightarrow> False | Some p \<Rightarrow> type_kind p = ''function'') \<and>
      sint (size_bytes t) = pointer_bytes tgt \<and> at mod pointer_bytes tgt = 0 \<and> 8 \<le> at)"

text \<open>A parameter that is an array is reported, and lowered all the same.\<close>

definition lower_parameter :: "table_context \<Rightarrow> native_table \<Rightarrow> declaration_type \<Rightarrow> string \<Rightarrow> table_state \<Rightarrow> (table_type \<times> table_state) option" where
  "lower_parameter ctx n t context s =
     lower_type_in ctx (table_position n) False t context
       (if type_kind t = ''array''
        then table_error ''RG0402'' (table_position n) ''function parameters must use pointers rather than array values'' s else s)"

definition lower_function :: "table_context \<Rightarrow> native_table \<Rightarrow> value_field_model \<Rightarrow> declaration_type \<Rightarrow> table_state
    \<Rightarrow> (function_layout \<times> table_state) option" where
  "lower_function ctx n f function s =
     (let place = table_position n;
          stem = managed_name n @ ''_'' @ member_name f;
          delegate = stem @ ''_Delegate'';
          (convention, s) = lower_convention (table_target ctx) function place s;
          s = reserve_name (''root_'' @ stem @ ''_callback'') place (reserve_name delegate place s)
      in Option.bind (lower_type_in ctx place True (the (function_result function)) (delegate @ ''_Result'') s) (\<lambda>(result, s).
         map_option (\<lambda>(arguments, s).
           (\<lparr>layout_field = f, delegate_name = delegate, delegate_convention = convention, delegate_result = result,
             delegate_arguments = arguments\<rparr>,
            if member_name f = ''Bind'' \<or> member_name f = ''Address'' \<or> member_name f = ''AvailableBytes''
            then table_error ''RG0403'' place (''native table field conflicts with a generated binding member: '' @ apostrophes (member_name f)) s
            else s))
           (lower_each (lower_parameter ctx n)
             (map (\<lambda>(i, t). (t, delegate @ ''_Argument'' @ show_nat i)) (enumerate 0 (function_parameters function))) s)))"

definition lower_table_field :: "table_context \<Rightarrow> native_table \<Rightarrow> value_field_model \<Rightarrow> table_progress \<Rightarrow> table_state
    \<Rightarrow> (table_progress \<times> table_state) option" where
  "lower_table_field ctx n f p s =
     (let t = member_type f; at = sint (offset_bytes f); place = table_position n;
          named = (is_public f \<and> \<not> is_bitfield f \<and> cpp_identifier (member_name f));
          twice = (member_name f \<in> set (fields_seen p));
          p = (if named then p\<lparr>fields_seen := List.insert (member_name f) (fields_seen p)\<rparr> else p)
      in if \<not> named \<or> twice \<or> at < fields_end p \<or> sint (size_bytes t) \<le> 0 \<or>
           at > sint (size_bytes (target (table_record n))) - sint (size_bytes t)
         then Some (p, table_error ''RG0401'' place ''native table fields must be public, nonoverlapping, named fields with known offsets'' s)
         else
           let p = p\<lparr>fields_end := at + sint (size_bytes t)\<rparr> in
           if is_header_field n f then Some (header_field n f p s)
           else if \<not> function_field (table_target ctx) f
           then Some (p, table_error ''RG0401'' place ''native table payload fields must be naturally aligned function pointers'' s)
           else let function = the (pointee t) in
             if \<not> callable_function function
             then Some (p, table_error ''RG0402'' place
               ''native table functions require complete nonvariadic prototypes and known exception specifications'' s)
             else map_option (\<lambda>(l, s). (p\<lparr>functions_found := functions_found p @ [l]\<rparr>, s)) (lower_function ctx n f function s))"

fun lower_table_fields :: "table_context \<Rightarrow> native_table \<Rightarrow> value_field_model list \<Rightarrow> table_progress \<Rightarrow> table_state
    \<Rightarrow> (table_progress \<times> table_state) option" where
  "lower_table_fields ctx n [] p s = Some (p, s)"
| "lower_table_fields ctx n (f # fs) p s =
     Option.bind (lower_table_field ctx n f p s) (\<lambda>(p, s). lower_table_fields ctx n fs p s)"

definition lower_table :: "table_context \<Rightarrow> native_table \<Rightarrow> table_state \<Rightarrow> table_state option" where
  "lower_table ctx n s =
     (if \<not> valid_table (table_target ctx) n
      then Some (table_error ''RG0401'' (table_position n)
        (''native table requires a named naturally aligned record, two int32 header fields and '' @ ''a compiler-evaluated version'') s)
      else map_option (\<lambda>(p, s).
        let s = (if version_at p < 0 \<or> size_at p < 0 \<or> version_at p = size_at p \<or> functions_found p = []
          then table_error ''RG0401'' (table_position n)
            ''native table must contain both header fields and at least one function pointer'' s
          else s)
        in s\<lparr>table_layouts := table_layouts s @
             [\<lparr>table_of = n, version_offset = version_at p, size_offset = size_at p, table_functions = functions_found p\<rparr>]\<rparr>)
        (lower_table_fields ctx n (alias_fields (table_record n)) no_progress s))"

end
