(* ===== verification/Table_Emit.thy ===== *)
theory Table_Emit
  imports Table_Lowering
begin

text \<open>
  What is written for tables of native functions (\<open>generator/src/fsharp_table.cpp\<close>): the manifest, from
  which the fingerprint is computed, the assertions for the C++ compiler, and the F# module. A look-up that
  would throw, or read outside a list or through a null pointer, is None.
\<close>

section \<open>Manifest\<close>

definition table_quote :: "string \<Rightarrow> string" where
  "table_quote s = ''\"'' @ concat (map (\<lambda>c.
     if c = CHR 0x5C \<or> c = CHR 0x22 then [CHR 0x5C, c]
     else if code_of c < 32 \<or> code_of c = 127
     then [CHR 0x5C] @ ''u00'' @ [''0123456789abcdef'' ! (code_of c div 16), ''0123456789abcdef'' ! (code_of c mod 16)]
     else [c]) s) @ ''\"''"

definition table_flag :: "bool \<Rightarrow> string" where
  "table_flag b = (if b then ''true'' else ''false'')"

definition table_array :: "string list \<Rightarrow> string" where
  "table_array items = ''['' @ comma_items True items @ '']''"

text \<open>The types a type is made of, in the order in which the code visits them.\<close>

definition subtypes :: "declaration_type \<Rightarrow> declaration_type list" where
  "subtypes t = concat (map (\<lambda>x. case x of None \<Rightarrow> [] | Some u \<Rightarrow> [u])
     [pointee t, element_type t, enum_underlying t, function_result t]) @ function_parameters t"

lemma parameter_smaller: "p \<in> set (function_parameters t) \<Longrightarrow> size p < size t"
  by (cases t) (auto dest!: size_list_estimation' [where f = size, OF _ order_refl])

lemma subtype_smaller: "s \<in> set (subtypes t) \<Longrightarrow> size s < size t"
  unfolding subtypes_def by (cases t) (auto split: option.splits dest!: size_list_estimation' [where f = size, OF _ order_refl])

lemma part_smaller:
  "pointee t = Some p \<Longrightarrow> size p < size t" "element_type t = Some p \<Longrightarrow> size p < size t"
  "enum_underlying t = Some p \<Longrightarrow> size p < size t" "function_result t = Some p \<Longrightarrow> size p < size t"
  by (cases t; auto)+

function type_json :: "declaration_type \<Rightarrow> string" where
  "type_json t =
     ''{\"kind\":'' @ table_quote (type_kind t) @ '',\"canonical\":'' @ table_quote (canonical_spelling t) @
     '',\"declaration\":'' @ table_quote (type_declaration t) @ '',\"size\":'' @ number (size_bytes t) @
     '',\"alignment\":'' @ number (align_bytes t) @ '',\"const\":'' @ table_flag (type_is_const t) @
     '',\"volatile\":'' @ table_flag (type_is_volatile t) @
     '',\"pointee\":'' @ (case pointee t of None \<Rightarrow> ''null'' | Some u \<Rightarrow> type_json u) @
     '',\"element\":'' @ (case element_type t of None \<Rightarrow> ''null'' | Some u \<Rightarrow> type_json u) @
     '',\"length\":'' @ number (array_size t) @
     '',\"underlying\":'' @ (case enum_underlying t of None \<Rightarrow> ''null'' | Some u \<Rightarrow> type_json u) @
     '',\"result\":'' @ (case function_result t of None \<Rightarrow> ''null'' | Some u \<Rightarrow> type_json u) @
     '',\"parameters\":'' @ table_array (map type_json (function_parameters t)) @
     '',\"calling_convention\":'' @ table_quote (function_calling_convention t) @
     '',\"exception_specification\":'' @ table_quote (function_exception_specification t) @
     '',\"variadic\":'' @ table_flag (function_variadic t) @ '',\"prototype\":'' @ table_flag (function_has_prototype t) @ ''}''"
  by pat_completeness auto
termination
  by (relation "measure size") (auto simp: part_smaller parameter_smaller)

declare type_json.simps [simp del]

definition field_json :: "value_field_model \<Rightarrow> string" where
  "field_json f = ''{\"name\":'' @ table_quote (member_name f) @ '',\"offset\":'' @ number (offset_bytes f) @
     '',\"type\":'' @ type_json (member_type f) @ ''}''"

definition case_json :: "value_case_model \<Rightarrow> string" where
  "case_json c = ''{\"name\":'' @ table_quote (enumerator_name c) @ '',\"value\":'' @ table_quote (enumerator_text c) @ ''}''"

definition value_json :: "value_model \<Rightarrow> string" where
  "value_json v =
     ''{\"name\":'' @ table_quote (symbol_component (type_declaration (target v))) @
     '',\"native_type\":'' @ table_quote (type_declaration (target v)) @ '',\"kind\":'' @ table_quote (type_kind (target v)) @
     '',\"size\":'' @ number (size_bytes (target v)) @ '',\"alignment\":'' @ number (value_align_bytes v) @
     '',\"fields\":'' @ table_array (map field_json (alias_fields v)) @ '',\"underlying\":'' @ type_json (underlying v) @
     '',\"cases\":'' @ table_array (map case_json (alias_cases v)) @ ''}''"

definition table_json :: "native_table \<Rightarrow> string" where
  "table_json n =
     (let v = table_record n in
      ''{\"name\":'' @ table_quote (managed_name n) @ '',\"native_type\":'' @ table_quote (type_declaration (target v)) @
      '',\"version\":'' @ number (table_version n) @ '',\"version_expression\":'' @ table_quote (version_expression n) @
      '',\"size\":'' @ number (size_bytes (target v)) @ '',\"alignment\":'' @ number (value_align_bytes v) @
      '',\"version_field\":'' @ table_quote (version_field n) @ '',\"size_field\":'' @ table_quote (size_field n) @
      '',\"fields\":'' @ table_array (map field_json (alias_fields v)) @ ''}'')"

text \<open>The members of the manifest before the fingerprint; the fingerprint is that of the closed object.\<close>

definition manifest_members :: "target_model \<Rightarrow> table_options \<Rightarrow> native_table list \<Rightarrow> value_model list \<Rightarrow> string" where
  "manifest_members t options ns vs =
     ''{\"format\":\"reflgen.fsharp-native\",\"version\":1,\"module\":'' @ table_quote (table_module options) @
     '',\"namespace\":'' @ table_quote (managed_namespace options) @ '',\"target\":'' @ table_quote (triple t) @
     '',\"pointer_width\":'' @ show_int (sint (pointer_width t)) @ '',\"tables\":'' @ table_array (map table_json ns) @
     '',\"values\":'' @ table_array (map value_json vs)"

definition table_contract :: "target_model \<Rightarrow> table_options \<Rightarrow> native_table list \<Rightarrow> value_model list \<Rightarrow> string" where
  "table_contract t options ns vs = manifest_members t options ns vs @ ''}''"

definition manifest_json :: "string \<Rightarrow> string \<Rightarrow> string" where
  "manifest_json contract fingerprint =
     take (length contract - 1) contract @ '',\"fingerprint\":'' @ table_quote fingerprint @ ''}'' @ [CHR 0x0A]"

section \<open>C++\<close>

definition table_banner :: string where
  "table_banner = ''// <auto-generated/> Generated by reflgen. Do not edit; edit the native ABI header instead.''"

function cpp_type :: "declaration_type \<Rightarrow> string option" where
  "cpp_type t =
     (case pointee t of
        None \<Rightarrow> Some (canonical_spelling t)
      | Some f \<Rightarrow>
          if type_kind t = ''pointer'' \<and> type_kind f = ''function''
          then join [case function_result f of None \<Rightarrow> None | Some r \<Rightarrow> cpp_type r,
            Some ('' (REFLGEN_NATIVE_'' @
              (if function_calling_convention f = ''x86_stdcall'' \<or> function_calling_convention f = ''win64'' then ''STDCALL'' else ''CDECL'') @
              ''*)(''),
            map_option (separated '', '') (those (map cpp_type (function_parameters f))),
            Some ('')'' @ (if function_exception_specification f = ''noexcept'' then '' noexcept'' else []))]
          else Some (canonical_spelling t))"
  by pat_completeness auto
termination
  by (relation "measure size") (auto dest!: part_smaller parameter_smaller)

declare cpp_type.simps [simp del]

text \<open>Each number type once, by its spelling; the first one that is met counts.\<close>

definition primitive_kind :: "declaration_type \<Rightarrow> bool" where
  "primitive_kind t \<longleftrightarrow> type_kind t = ''signed_integer'' \<or> type_kind t = ''unsigned_integer'' \<or> type_kind t = ''character'' \<or>
     type_kind t = ''floating_point''"

function primitives_of :: "declaration_type \<Rightarrow> declaration_type list" where
  "primitives_of t = (if primitive_kind t then [t] else []) @ concat (map primitives_of (subtypes t))"
  by pat_completeness auto
termination
  by (relation "measure size") (auto simp: subtype_smaller)

declare primitives_of.simps [simp del]

definition collect_primitives :: "table_layout list \<Rightarrow> (string \<times> value_model) list \<Rightarrow> (string \<times> declaration_type) list" where
  "collect_primitives layouts completed =
     fold (\<lambda>t. emplace (canonical_spelling t) t)
       (concat (map primitives_of
         (concat (map (\<lambda>l. map member_type (alias_fields (table_record (table_of l)))) layouts) @
          concat (map (\<lambda>(name, v). underlying v # map member_type (alias_fields v)) (in_key_order completed)))))
       []"

definition primitive_asserts :: "string \<times> declaration_type \<Rightarrow> string" where
  "primitive_asserts = (\<lambda>(name, t).
     (let type = ''std::remove_cv_t<'' @ name @ ''>''; kind = type_kind t in
      text_lines [''static_assert(sizeof('' @ type @ '') == '' @ number (size_bytes t) @ '' && alignof('' @ type @ '') == '' @
        number (align_bytes t) @ '', \"reflgen native table: primitive layout changed\");''] @
      (if kind = ''signed_integer'' \<or> kind = ''unsigned_integer'' \<or> (kind = ''character'' \<and> (name = ''char16_t'' \<or> name = ''char32_t''))
       then text_lines [''static_assert(std::numeric_limits<'' @ type @ ''>::is_signed == '' @ table_flag (kind = ''signed_integer'') @
         '' && std::numeric_limits<'' @ type @ ''>::digits == '' @ number (size_bytes t * 8 - (if kind = ''signed_integer'' then 1 else 0)) @
         '', \"reflgen native table: integer signedness or representation changed\");'']
       else [])))"

text \<open>A literal for the value of an enumerator; the least number of 64 bits has none.\<close>

definition case_literal :: "declaration_type \<Rightarrow> string \<Rightarrow> string" where
  "case_literal t text =
     (if type_kind t = ''unsigned_integer'' then text @ ''ULL''
      else if text = ''-9223372036854775808'' then ''(-9223372036854775807LL - 1)'' else ''('' @ text @ ''LL)'')"

definition record_field_asserts :: "string \<Rightarrow> value_field_model \<Rightarrow> string option" where
  "record_field_asserts name f = join
     [Some (text_lines [''static_assert(offsetof('' @ name @ '', '' @ member_name f @ '') == '' @ number (offset_bytes f) @
        '', \"reflgen native table: field offset changed\");'']),
      Some (''static_assert(std::is_same_v<decltype('' @ name @ ''::'' @ member_name f @ ''), ''), cpp_type (member_type f),
      Some (text_lines [''>, \"reflgen native table: field type or calling convention changed\");''])]"

definition enum_case_asserts :: "string \<Rightarrow> declaration_type \<Rightarrow> value_case_model \<Rightarrow> string option" where
  "enum_case_asserts name t c = join
     [Some ''static_assert(static_cast<'', cpp_type t,
      Some (text_lines [''>('' @ name @ ''::'' @ enumerator_name c @ '') == '' @ case_literal t (enumerator_text c) @
        '', \"reflgen native table: enum value changed\");''])]"

definition append_layout :: "value_model \<Rightarrow> string \<Rightarrow> string option" where
  "append_layout v name = join
     (Some (text_lines [''static_assert(sizeof('' @ name @ '') == '' @ number (size_bytes (target v)) @ '' && alignof('' @ name @ '') == '' @
        number (value_align_bytes v) @ '', \"reflgen native table: size/alignment changed\");'']) #
      (if type_kind (target v) = ''record''
       then Some (text_lines [''static_assert(std::is_standard_layout_v<'' @ name @ ''> && std::is_trivially_copyable_v<'' @ name @
          ''> && !std::is_union_v<'' @ name @ ''>, \"reflgen native table requires a standard-layout trivially-copyable non-union\");'']) #
         map (record_field_asserts name) (alias_fields v)
       else [Some (''static_assert(std::is_enum_v<'' @ name @ ''> && std::is_same_v<std::underlying_type_t<'' @ name @ ''>, ''),
         cpp_type (underlying v), Some (text_lines [''>, \"reflgen native table: enum underlying type changed\");''])] @
         map (enum_case_asserts name (underlying v)) (alias_cases v)))"

fun table_includes :: "string list \<Rightarrow> string list \<Rightarrow> string" where
  "table_includes seen [] = []"
| "table_includes seen (file # files) =
     (if file \<in> set seen then table_includes seen files
      else text_lines [''#include '' @ table_quote file] @ table_includes (file # seen) files)"

definition native_preamble :: "table_layout list \<Rightarrow> string" where
  "native_preamble layouts =
     text_lines [table_banner, ''#include <cstddef>'', ''#include <cstdint>'', ''#include <climits>'', ''#include <limits>'',
       ''#include <type_traits>''] @
     table_includes [] (map (\<lambda>l. pos_file (table_position (table_of l))) layouts) @
     text_lines
       [[], ''#if defined(_MSC_VER)'', ''#define REFLGEN_NATIVE_CDECL __cdecl'', ''#define REFLGEN_NATIVE_STDCALL __stdcall'',
        ''#elif defined(__i386__)'', ''#define REFLGEN_NATIVE_CDECL __attribute__((cdecl))'',
        ''#define REFLGEN_NATIVE_STDCALL __attribute__((stdcall))'', ''#else'', ''#define REFLGEN_NATIVE_CDECL'',
        ''#define REFLGEN_NATIVE_STDCALL'', ''#endif'', ''#if defined(_WIN32)'',
        ''#define REFLGEN_NATIVE_EXPORT __declspec(dllexport)'', ''#else'',
        ''#define REFLGEN_NATIVE_EXPORT __attribute__((visibility(\"default\")))'', ''#endif'']"

definition native_guard :: "target_model \<Rightarrow> string" where
  "native_guard t =
     (let a = architecture (triple t) in text_lines
       [''#if !('' @ (if targets_windows t then ''defined(_WIN32)'' else ''defined(__linux__)'') @ '') || !('' @
        (if pointer_width t = 32 then ''defined(__i386__) || defined(_M_IX86)''
         else if a = ''aarch64'' \<or> a = ''arm64'' then ''defined(__aarch64__) || defined(_M_ARM64)''
         else ''defined(__x86_64__) || defined(_M_X64)'') @ '') || defined(_M_ARM64EC)'',
        ''#error reflgen native table: regenerate for this target'', ''#endif'',
        ''static_assert(CHAR_BIT == 8 && sizeof(void*) * CHAR_BIT == '' @ show_int (sint (pointer_width t)) @
          '', \"reflgen native table: target byte/pointer width changed\");'',
        ''static_assert(std::numeric_limits<float>::is_iec559 && sizeof(float) == 4 && '' @
          ''std::numeric_limits<double>::is_iec559 && sizeof(double) == 8, \"reflgen native table requires IEEE binary32/binary64\");''])"

definition table_asserts :: "table_layout \<Rightarrow> string option" where
  "table_asserts l =
     (let n = table_of l in join
       [append_layout (table_record n) (''::'' @ table_alias n),
        Some (text_lines [''static_assert('' @ version_expression n @ '' == '' @ number (table_version n) @
          '', \"reflgen native table: API version changed; regenerate bindings\");''])])"

definition native_source :: "target_model \<Rightarrow> table_options \<Rightarrow> string \<Rightarrow> table_layout list \<Rightarrow> (string \<times> value_model) list \<Rightarrow> string option" where
  "native_source t options fingerprint layouts completed = join
     ([Some (native_preamble layouts @ (if layouts = [] then [] else native_guard t) @
        concat (map primitive_asserts (in_key_order (collect_primitives layouts completed))))] @
      map (\<lambda>(name, v). append_layout v (''::'' @ name)) (in_key_order completed) @
      map table_asserts layouts @
      [Some (text_lines
        [[], ''// ABI identity only, not an authenticity or pointer-validity check.'',
         ''extern \"C\" REFLGEN_NATIVE_EXPORT std::uint64_t REFLGEN_NATIVE_CDECL reflgen_'' @ table_module options @
           ''_native_abi_fingerprint(void)'',
         ''{'', ''    return 0x'' @ fingerprint @ ''ULL;'', ''}'', ''#undef REFLGEN_NATIVE_EXPORT'', ''#undef REFLGEN_NATIVE_STDCALL'',
         ''#undef REFLGEN_NATIVE_CDECL''])])"

section \<open>F#\<close>

definition delegate_parameters :: "function_layout \<Rightarrow> bool \<Rightarrow> string" where
  "delegate_parameters m function_type =
     (if delegate_arguments m = [] then ''unit''
      else separated (if function_type then '' -> '' else '' * '') (map type_text (delegate_arguments m)))"

definition literal_suffixes :: "(string \<times> string) list" where
  "literal_suffixes = [(''int8'', ''y''), (''uint8'', ''uy''), (''int16'', ''s''), (''uint16'', ''us''), (''int32'', []), (''uint32'', ''u''),
     (''int64'', ''L''), (''uint64'', ''UL'')]"

text \<open>Classes and arrays are structures with explicit offsets, enumerations are unions of named numbers.\<close>

definition struct_head :: "string \<Rightarrow> int \<Rightarrow> string" where
  "struct_head name bytes = text_lines
     [''    [<Struct; StructLayout(LayoutKind.Explicit, Size = '' @ show_int bytes @ '')>]'', ''    type '' @ fs_name name @ '' =''] "

definition struct_field :: "int \<Rightarrow> string \<Rightarrow> string \<Rightarrow> string" where
  "struct_field at name type = text_lines
     [''        [<FieldOffset('' @ show_int at @ '')>]'', ''        val mutable '' @ name @ '': '' @ type]"

definition enum_case_line :: "table_type list \<Rightarrow> value_case_model \<Rightarrow> string option" where
  "enum_case_line types c =
     Option.bind (element types 0) (\<lambda>t. map_option
       (\<lambda>suffix. text_lines [''        | '' @ fs_name (enumerator_name c) @ '' = '' @ enumerator_text c @ suffix])
       (map_of literal_suffixes (type_text t)))"

definition value_field_line :: "table_type list \<Rightarrow> nat \<times> value_field_model \<Rightarrow> string option" where
  "value_field_line types f =
     map_option (\<lambda>t. struct_field (sint (offset_bytes (snd f))) (fs_name (member_name (snd f))) (type_text t)) (element types (fst f))"

fun definition_text :: "table_definition \<Rightarrow> string option" where
  "definition_text (Array_Definition name e n bytes alignment) =
     Some (struct_head name bytes @
       concat (map (\<lambda>i. struct_field (int i * type_size e) (''Item'' @ show_nat i) (type_text e)) [0..<nat n]) @ text_lines [[]])"
| "definition_text (Value_Definition v name types) = join
     ((if type_kind (target v) = ''enum''
       then Some (''    type '' @ fs_name name @ '' ='') #
         (if alias_cases v = [] then [map_option (\<lambda>t. text_lines ['' '' @ type_text t]) (element types 0)]
          else Some (text_lines [[]]) # map (enum_case_line types) (alias_cases v))
       else Some (struct_head name (sint (size_bytes (target v)))) # map (value_field_line types) (enumerate 0 (alias_fields v))) @
      [Some (text_lines [[]])])"

definition delegate_text :: "function_layout \<Rightarrow> string" where
  "delegate_text m = text_lines
     [''    [<UnmanagedFunctionPointer(CallingConvention.'' @ delegate_convention m @ '')>]'',
      ''    type '' @ fs_name (delegate_name m) @ '' = delegate of '' @ delegate_parameters m False @ '' -> '' @ type_text (delegate_result m), []]"

definition rooted_callback :: string where
  "rooted_callback = (let quote = [CHR 0x27] in text_lines
     [''    // Dispose only after the host has unregistered the callback and finished every in-flight invocation.'',
      ''    // Forgetting Dispose retains the delegate; native code must never call Address after disposal.'',
      ''    type RootedCallback<'' @ quote @ ''T when '' @ quote @ ''T :> Delegate>(callback: '' @ quote @ ''T, ?failure: (unit -> exn option)) ='',
      ''        let gate = obj()'',
      ''        let callback = if isNull (box callback) then nullArg \"callback\" else callback'',
      ''        let pointer = Marshal.GetFunctionPointerForDelegate(callback)'',
      ''        let mutable root = GCHandle.Alloc(callback, GCHandleType.Normal)'',
      ''        let failure = defaultArg failure (fun () -> None)'',
      ''        member _.Address ='', ''            lock gate (fun () ->'',
      ''                if not root.IsAllocated then raise (ObjectDisposedException(\"RootedCallback\"))'', ''                pointer)'',
      ''        member _.LastException = failure()'',
      ''        member _.Dispose() = lock gate (fun () -> if root.IsAllocated then root.Free())'',
      ''        interface IDisposable with member this.Dispose() = this.Dispose()'', []])"

definition callback_root :: "native_table \<Rightarrow> function_layout \<Rightarrow> string" where
  "callback_root n m =
     (let indices = [0..<length (delegate_arguments m)] in
      text_lines
        [''    // Managed exceptions are contained and the explicitly supplied fallback crosses the native boundary.'',
         ''    let '' @ fs_name (''root_'' @ managed_name n @ ''_'' @ member_name (layout_field m) @ ''_callback'') @ '' (callback: '' @
           delegate_parameters m True @ '' -> '' @ type_text (delegate_result m) @ '') (fallback: '' @ type_text (delegate_result m) @ '') ='',
         ''        let errorGate = obj()'', ''        let mutable failure: exn option = None'',
         ''        let thunk = '' @ fs_name (delegate_name m) @ ''(fun '' @ (if indices = [] then ''()'' else []) @
           concat (map (\<lambda>i. (if i = 0 then [] else '' '') @ argument_name i) indices) @ '' ->'',
         ''            try callback'' @ (if indices = [] then '' ()'' else []) @ concat (map (\<lambda>i. '' '' @ argument_name i) indices),
         ''            with error ->'', ''                lock errorGate (fun () -> failure <- Some error)'', ''                fallback)'',
         ''        new RootedCallback<'' @ fs_name (delegate_name m) @ ''>(thunk, fun () -> lock errorGate (fun () -> failure))'', []])"

definition validate_target :: "target_model \<Rightarrow> table_layout list \<Rightarrow> string" where
  "validate_target t layouts =
     (let a = architecture (triple t) in text_lines
       (''    let private validateTarget () ='' #
        (if layouts = [] then [''        ()'']
         else [''        if IntPtr.Size <> '' @ show_int (pointer_bytes t) @ '' ||'',
           ''           RuntimeInformation.ProcessArchitecture <> Architecture.'' @
             (if pointer_width t = 32 then ''X86'' else if a = ''arm64'' \<or> a = ''aarch64'' then ''Arm64'' else ''X64'') @ '' ||'',
           ''           not (RuntimeInformation.IsOSPlatform(OSPlatform.'' @ (if targets_windows t then ''Windows'' else ''Linux'') @ '')) then'',
           ''            invalidOp \"Native table was generated for a different operating system or architecture\"'']) @ [[]]))"

definition check_size :: "string \<Rightarrow> int \<Rightarrow> string \<Rightarrow> string" where
  "check_size name bytes what = text_lines
     [''        if Marshal.SizeOf<'' @ fs_name name @ ''>() <> '' @ show_int bytes @ '' then invalidOp \"'' @ what @ '' size mismatch\"'']"

definition check_offset :: "string \<Rightarrow> string \<Rightarrow> int \<Rightarrow> string \<Rightarrow> string" where
  "check_offset name field at what = text_lines
     [''        if Marshal.OffsetOf<'' @ fs_name name @ ''>('' @ table_quote field @ '').ToInt64() <> '' @ show_int at @
      ''L then invalidOp \"'' @ what @ '' offset mismatch\"'']"

fun definition_check :: "table_definition \<Rightarrow> string" where
  "definition_check (Array_Definition name e n bytes alignment) =
     check_size name bytes ''Inline array'' @
     concat (map (\<lambda>i. check_offset name (''Item'' @ show_nat i) (int i * type_size e) ''Inline array'') [0..<nat n])"
| "definition_check (Value_Definition v name types) =
     (if type_kind (target v) = ''enum'' then []
      else check_size name (sint (size_bytes (target v))) ''Native record'' @
        concat (map (\<lambda>f. check_offset name (member_name f) (sint (offset_bytes f)) ''Native record field'') (alias_fields v)))"

definition binding_entry :: "function_layout \<Rightarrow> string" where
  "binding_entry m =
     (let f = layout_field m; d = fs_name (delegate_name m) in text_lines
       [''        let '' @ fs_name (''entry_'' @ member_name f) @ '' ='',
        ''            let pointer = Marshal.ReadIntPtr(address, '' @ number (offset_bytes f) @ '')'',
        ''            if pointer = 0n then Unchecked.defaultof<'' @ d @ ''> else Marshal.GetDelegateForFunctionPointer<'' @ d @ ''>(pointer)''])"

definition binding_guard :: "function_layout \<Rightarrow> string" where
  "binding_guard m =
     (let f = layout_field m in text_lines
       [''            if Marshal.ReadIntPtr(address, '' @ number (offset_bytes f) @ '') = 0n && not (isOptional '' @ table_quote (member_name f) @
        '') then invalidArg \"address\" '' @ table_quote (''Required native function is null: '' @ member_name f)])"

definition binding_text :: "table_layout \<Rightarrow> string" where
  "binding_text l =
     (let n = table_of l; name = fs_name (managed_name n); v = table_record n; ms = table_functions l in
      text_lines [''    type '' @ name @ '' private (address: nativeint, availableBytes: unativeint) =''] @
      concat (map binding_entry ms) @
      text_lines [''        member _.Address = address'', ''        member _.AvailableBytes = availableBytes''] @
      concat (map (\<lambda>m. text_lines [''        member _.'' @ fs_name (member_name (layout_field m)) @ '' = '' @
        fs_name (''entry_'' @ member_name (layout_field m))]) ms) @
      text_lines
        [''        static member Bind(address: nativeint, availableBytes: unativeint, fingerprint: uint64) ='',
         ''            '' @ name @ ''.BindWithOptional(address, availableBytes, fingerprint, fun _ -> false)'',
         ''        static member BindWithOptional(address: nativeint, availableBytes: unativeint, fingerprint: uint64, '' @
           ''isOptional: string -> bool) ='',
         ''            if isNull (box isOptional) then nullArg \"isOptional\"'',
         ''            validateTarget()'',
         ''            if fingerprint <> AbiFingerprint then invalidArg \"fingerprint\" \"Native table ABI fingerprint mismatch\"'',
         ''            if address = 0n then invalidArg \"address\" \"Null native table\"'',
         ''            if availableBytes < 8un then invalidArg \"availableBytes\" \"Native table header is truncated\"'',
         ''            if uint64 (unativeint address) > uint64 UIntPtr.MaxValue - uint64 availableBytes then '' @
           ''invalidArg \"availableBytes\" \"Native table address range overflows\"'',
         ''            if uint64 (unativeint address) % '' @ number (value_align_bytes v) @
           ''UL <> 0UL then invalidArg \"address\" \"Misaligned native table\"'',
         ''            if Marshal.ReadInt32(address, '' @ show_int (version_offset l) @ '') <> '' @ fs_name (managed_name n @ ''Version'') @
           '' then invalidArg \"address\" \"Native table API version mismatch\"'',
         ''            if Marshal.ReadInt32(address, '' @ show_int (size_offset l) @ '') <> '' @ fs_name (managed_name n @ ''Size'') @
           '' then invalidArg \"address\" \"Native table structSize mismatch\"'',
         ''            if availableBytes < '' @ number (size_bytes (target v)) @
           ''un then invalidArg \"availableBytes\" \"Native table payload is truncated\"'',
         ''            validateLayouts()''] @
      concat (map binding_guard ms) @
      text_lines [''            new '' @ name @ ''(address, availableBytes)'', []])"

definition managed_head :: "table_options \<Rightarrow> string \<Rightarrow> table_layout list \<Rightarrow> string" where
  "managed_head options fingerprint layouts =
     text_lines
       [table_banner,
        ''// Explicit blittable layouts intentionally use native interop constructs. This warning suppression is file-local.'',
        ''#nowarn \"9\"'', ''namespace '' @ quoted_namespace [] (managed_namespace options), [], ''open System'',
        ''open System.Runtime.InteropServices'', [], ''module reflgen_'' @ table_module options @ ''_native ='',
        ''    [<Literal>]'', ''    let AbiFingerprint = 0x'' @ fingerprint @ ''UL'', [],
        ''    // Bind only readable borrowed native memory and keep the host code loaded while any binding is used.'',
        ''    // A copied delegate table does not own native objects, stop concurrent mutation, or translate native exceptions.''] @
     concat (map (\<lambda>l. text_lines
       [''    [<Literal>]'', ''    let '' @ fs_name (managed_name (table_of l) @ ''Version'') @ '' = '' @ number (table_version (table_of l)),
        ''    [<Literal>]'', ''    let '' @ fs_name (managed_name (table_of l) @ ''Size'') @ '' = '' @
          number (size_bytes (target (table_record (table_of l))))]) layouts) @ text_lines [[]]"

definition managed_source :: "target_model \<Rightarrow> table_options \<Rightarrow> string \<Rightarrow> table_definition list \<Rightarrow> table_layout list \<Rightarrow> string option" where
  "managed_source t options fingerprint ds layouts = join
     ([Some (managed_head options fingerprint layouts)] @ map definition_text ds @
      [Some (concat (map (\<lambda>l. concat (map delegate_text (table_functions l))) layouts) @ rooted_callback @
         concat (map (\<lambda>l. concat (map (callback_root (table_of l)) (table_functions l))) layouts) @
         validate_target t layouts @ text_lines [''    let private validateLayouts () =''] @ concat (map definition_check ds) @
         text_lines [''        ()'', []] @ concat (map binding_text layouts))])"

section \<open>The whole\<close>

record table_output =
  table_fsharp :: string
  table_cpp :: string
  table_manifest :: string
  table_fingerprint :: string

definition no_table_output :: table_output where
  "no_table_output = \<lparr>table_fsharp = [], table_cpp = [], table_manifest = [], table_fingerprint = []\<rparr>"

definition in_table_order :: "native_table list \<Rightarrow> native_table list" where
  "in_table_order ns = sort_key managed_name ns"

text \<open>The first value of a name counts; another one with a different layout is reported.\<close>

fun collect_models :: "value_model list \<Rightarrow> (string \<times> value_model) list \<Rightarrow> (string \<times> value_model) list \<times> diagnostic list" where
  "collect_models [] m = (m, [])"
| "collect_models (v # vs) m =
     (let name = type_declaration (target v);
          conflict = (case map_of m name of None \<Rightarrow> False | Some w \<Rightarrow> value_json w \<noteq> value_json v);
          (m', report) = collect_models vs (emplace name v m)
      in (m', error_when conflict ''RG0401'' (alias_position v) (''conflicting native layouts for '' @ apostrophes name) @ report))"

definition fixed_names :: "string list" where
  "fixed_names = [''RootedCallback'', ''AbiFingerprint'', ''validateLayouts'', ''validateTarget'']"

fun lower_tables :: "table_context \<Rightarrow> native_table list \<Rightarrow> table_state \<Rightarrow> table_state option" where
  "lower_tables ctx [] s = Some s"
| "lower_tables ctx (n # ns) s =
     (let place = table_position n;
          s = reserve_name (managed_name n @ ''Size'') place (reserve_name (managed_name n @ ''Version'') place (reserve_name (managed_name n) place s))
      in Option.bind (lower_table ctx n s) (lower_tables ctx ns))"

text \<open>
  The values that pointers ask for, smallest name first. Each name is taken out at most once, so that the number of
  values bounds the rounds.
\<close>

fun lower_pointed :: "nat \<Rightarrow> table_context \<Rightarrow> table_state \<Rightarrow> table_state option" where
  "lower_pointed rounds ctx s =
     (if pointed_values s = [] then Some s
      else case rounds of
          0 \<Rightarrow> None
        | Suc rounds \<Rightarrow>
            let name = Min (set (pointed_values s)) in
            case map_of (table_models ctx) name of
              None \<Rightarrow> None
            | Some v \<Rightarrow> Option.bind
                (lower_table_value value_depth ctx name (alias_position v) (s\<lparr>pointed_values := removeAll name (pointed_values s)\<rparr>))
                (lower_pointed rounds ctx))"

definition start_state :: "diagnostic list \<Rightarrow> table_state" where
  "start_state report = \<lparr>completed_values = [], visiting_values = [], pointed_values = [], generated_names = fixed_names,
     table_definitions = [], table_layouts = [], table_report = report\<rparr>"

definition first_reports :: "native_table list \<Rightarrow> target_model \<Rightarrow> table_options \<Rightarrow> diagnostic list" where
  "first_reports ns t options =
     error_when (\<not> cpp_identifier (table_module options) \<or> \<not> qualified_name ''.'' (managed_namespace options)) ''RG0400'' nowhere
       ''F# table module and namespace must contain ASCII identifiers'' @
     (if ns \<noteq> [] \<and> (\<not> supported_table_target t \<or> triple t = [])
      then [error_at ''RG0402'' (table_position (hd ns)) ''native tables currently support x64 Windows and Linux with 64-bit pointers'']
      else [])"

definition table_context_of :: "native_table list \<Rightarrow> target_model \<Rightarrow> table_context" where
  "table_context_of ns t =
     \<lparr>table_target = t, table_models = fst (collect_models (concat (map table_values (in_table_order ns))) [])\<rparr>"

definition lower_all_tables :: "native_table list \<Rightarrow> target_model \<Rightarrow> table_options \<Rightarrow> diagnostic list \<Rightarrow> table_state option" where
  "lower_all_tables ns t options report =
     (let ctx = table_context_of ns t;
          s = start_state (report @ first_reports ns t options @ snd (collect_models (concat (map table_values (in_table_order ns))) []))
      in Option.bind (lower_tables ctx (in_table_order ns) s) (lower_pointed (length (table_models ctx)) ctx))"

text \<open>The diagnostics that came before are handed in; with an error among all of them the output is empty.\<close>

definition emit_fsharp_tables :: "native_table list \<Rightarrow> target_model \<Rightarrow> table_options \<Rightarrow> diagnostic list
    \<Rightarrow> (table_output \<times> diagnostic list) option" where
  "emit_fsharp_tables ns t options report =
     Option.bind (lower_all_tables ns t options report) (\<lambda>s.
       if has_errors (table_report s) then Some (no_table_output, table_report s)
       else
         let contract = table_contract t options (map table_of (table_layouts s)) (map snd (in_key_order (completed_values s)));
             fingerprint = fingerprint_of contract
         in Option.bind (native_source t options fingerprint (table_layouts s) (completed_values s)) (\<lambda>cpp.
            map_option (\<lambda>fs.
              (\<lparr>table_fsharp = fs, table_cpp = cpp, table_manifest = manifest_json contract fingerprint, table_fingerprint = fingerprint\<rparr>,
               table_report s))
              (managed_source t options fingerprint (table_definitions s) (table_layouts s))))"

end
