(* ===== verification/Table_Order.thy ===== *)
theory Table_Order
  imports Table_Emit
begin

text \<open>
  The order in which the declarations for F# are made: the recursion over the values ends, no value
  contains itself, every type is declared before it is used, and with the bytes it has in C++.
\<close>

section \<open>Values contain smaller ones\<close>

lemma fields_fit_shapes:
  "fields_fit shape whole alignment fin fs = Some a \<Longrightarrow> f \<in> set fs \<Longrightarrow> shape (member_type f)"
  by (induction fs arbitrary: alignment fin) (auto simp: Let_def split: if_splits)

lemma representable_value:
  assumes "representable ctx seen name"
  obtains v where "map_of (table_models ctx) name = Some v" "name \<notin> set seen" "length seen < 64" "qualified_name ''::'' name" "plain_value v"
    "\<forall>(t, context)\<in>set (value_parts flat v). simple_shape (table_target ctx) (representable ctx (name # seen)) t"
    "type_kind (target v) = ''enum'' \<or> alias_fields v \<noteq> [] \<and>
     fields_fit (simple_shape (table_target ctx) (representable ctx (name # seen))) (sint (size_bytes (target v))) 1 0 (alias_fields v) =
       Some (sint (value_align_bytes v)) \<and> sint (size_bytes (target v)) mod sint (value_align_bytes v) = 0"
proof -
  have r: "representable ctx seen name" by (rule assms)
  then obtain v where v: "map_of (table_models ctx) name = Some v"
    by (subst (asm) representable.simps) (auto split: option.splits)
  have parts: "name \<notin> set seen" "length seen < 64" "qualified_name ''::'' name" "plain_value v"
    "type_kind (target v) = ''enum'' \<and> simple_shape (table_target ctx) (representable ctx (name # seen)) (underlying v) \<or>
     type_kind (target v) \<noteq> ''enum'' \<and> alias_fields v \<noteq> [] \<and>
     fields_fit (simple_shape (table_target ctx) (representable ctx (name # seen))) (sint (size_bytes (target v))) 1 0 (alias_fields v) =
       Some (sint (value_align_bytes v)) \<and> sint (size_bytes (target v)) mod sint (value_align_bytes v) = 0"
    using r v by (subst (asm) representable.simps; auto simp: Let_def split: if_splits option.splits)+
  have "\<forall>(t, context)\<in>set (value_parts flat v). simple_shape (table_target ctx) (representable ctx (name # seen)) t"
    using parts(5) by (auto simp: value_parts_def dest: fields_fit_shapes)
  with v parts show thesis by (intro that [of v]) auto
qed

lemma simple_shape_named:
  assumes "simple_shape tgt named t" "type_kind t = ''record'' \<or> type_kind t = ''enum''"
  shows "named (type_declaration t)"
  using assms by (subst (asm) simple_shape.simps) (auto split: if_splits)

lemma simple_shape_element:
  assumes "simple_shape tgt named t" "type_kind t = ''array''" "element_type t = Some e"
  shows "simple_shape tgt named e"
  using assms by (subst (asm) simple_shape.simps) (auto split: if_splits)

lemma simple_shape_bytes:
  assumes "simple_shape tgt named t"
  shows "0 < sint (size_bytes t)" "0 < sint (align_bytes t)" "type_kind t \<noteq> ''void''"
  using assms by (subst (asm) simple_shape.simps; auto split: if_splits)+

section \<open>Declared names\<close>

definition definition_name :: "table_definition \<Rightarrow> string" where
  "definition_name d = (case d of Array_Definition name _ _ _ _ \<Rightarrow> name | Value_Definition _ name _ \<Rightarrow> name)"

definition used_types :: "table_definition \<Rightarrow> table_type list" where
  "used_types d = (case d of Array_Definition _ e _ _ _ \<Rightarrow> [e] | Value_Definition _ _ ts \<Rightarrow> ts)"

definition builtin_types :: "string set" where
  "builtin_types = {''int8'', ''int16'', ''int32'', ''int64'', ''uint8'', ''uint16'', ''uint32'', ''uint64'', ''float32'', ''float'',
     ''nativeint'', ''unit''}"

definition known_types :: "table_definition list \<Rightarrow> string set" where
  "known_types ds = builtin_types \<union> (\<lambda>d. fs_name (definition_name d)) ` set ds"

text \<open>Every declaration uses the types of F# and those declared before it.\<close>

fun in_order :: "table_definition list \<Rightarrow> table_definition list \<Rightarrow> bool" where
  "in_order before [] = True"
| "in_order before (d # ds) = (type_text ` set (used_types d) \<subseteq> known_types before \<and> in_order (before @ [d]) ds)"

lemma in_order_append: "in_order before (ds @ es) \<longleftrightarrow> in_order before ds \<and> in_order (before @ ds) es"
  by (induction ds arbitrary: before) auto

lemma known_types_append: "known_types (ds @ es) = known_types ds \<union> known_types es"
  by (auto simp: known_types_def)

text \<open>Fields, as offset, size and alignment, that lie one behind the other.\<close>

fun fields_apart :: "int \<Rightarrow> int \<Rightarrow> (int \<times> int \<times> int) list \<Rightarrow> bool" where
  "fields_apart fin whole [] = (fin \<le> whole)"
| "fields_apart fin whole ((at, n, a) # fs) = (fin \<le> at \<and> 0 < n \<and> at mod a = 0 \<and> fields_apart (at + n) whole fs)"

definition placed_fields :: "value_model \<Rightarrow> table_type list \<Rightarrow> (int \<times> int \<times> int) list" where
  "placed_fields v ts = map (\<lambda>(f, t). (sint (offset_bytes f), type_size t, type_alignment t)) (zip (alias_fields v) ts)"

definition definition_fits :: "table_definition \<Rightarrow> bool" where
  "definition_fits d = (case d of
     Array_Definition _ e n bytes _ \<Rightarrow> 0 < n \<and> 0 < type_size e \<and> bytes = n * type_size e
   | Value_Definition v _ ts \<Rightarrow>
       if type_kind (target v) = ''enum'' then length ts = 1
       else length ts = length (alias_fields v) \<and> fields_apart 0 (sint (size_bytes (target v))) (placed_fields v ts))"

text \<open>
  The size with which a type of F# is declared: that of a number or a pointer, the \<open>Size\<close> in the layout
  attribute of an array or a record, and for an enumeration that of the type it is declared over.
\<close>

definition builtin_sizes :: "target_model \<Rightarrow> (string \<times> int) list" where
  "builtin_sizes tgt = [(''int8'', 1), (''int16'', 2), (''int32'', 4), (''int64'', 8), (''uint8'', 1), (''uint16'', 2), (''uint32'', 4),
     (''uint64'', 8), (''float32'', 4), (''float'', 8), (''nativeint'', pointer_bytes tgt)]"

definition definition_bytes :: "table_definition \<Rightarrow> int" where
  "definition_bytes d = (case d of
     Array_Definition _ _ _ bytes _ \<Rightarrow> bytes
   | Value_Definition v _ ts \<Rightarrow> if type_kind (target v) = ''enum'' then type_size (hd ts) else sint (size_bytes (target v)))"

definition declared_sizes :: "target_model \<Rightarrow> table_definition list \<Rightarrow> (string \<times> int) list" where
  "declared_sizes tgt ds = builtin_sizes tgt @ map (\<lambda>d. (fs_name (definition_name d), definition_bytes d)) ds"

abbreviation sized :: "target_model \<Rightarrow> table_definition list \<Rightarrow> table_type \<Rightarrow> bool" where
  "sized tgt ds l \<equiv> (type_text l, type_size l) \<in> set (declared_sizes tgt ds)"

lemma declared_sizes_append: "set (declared_sizes tgt (ds @ es)) = set (declared_sizes tgt ds) \<union> set (declared_sizes tgt es)"
  by (auto simp: declared_sizes_def)

text \<open>
  A type agrees with the values when each use of a class or enumeration by value has the size of its
  definition, for an enumeration that of its underlying type. The reader of the headers asks the compiler for both.
\<close>

definition value_bytes :: "value_model \<Rightarrow> int" where
  "value_bytes v = sint (size_bytes (if type_kind (target v) = ''enum'' then underlying v else target v))"

function agrees :: "table_context \<Rightarrow> declaration_type \<Rightarrow> bool" where
  "agrees ctx t =
     (if type_kind t = ''record'' \<or> type_kind t = ''enum''
      then case map_of (table_models ctx) (type_declaration t) of None \<Rightarrow> True | Some v \<Rightarrow> sint (size_bytes t) = value_bytes v
      else if type_kind t = ''array'' then case element_type t of None \<Rightarrow> True | Some e \<Rightarrow> agrees ctx e
      else True)"
  by pat_completeness auto
termination
  by (relation "measure (\<lambda>(ctx, t). size t)") (auto simp: element_smaller)

declare agrees.simps [simp del]

definition values_agree :: "table_context \<Rightarrow> bool" where
  "values_agree ctx \<longleftrightarrow> list_all (\<lambda>(name, v). list_all (\<lambda>(t, _). agrees ctx t) (value_parts name v)) (table_models ctx)"

lemma agrees_value:
  "agrees ctx t \<Longrightarrow> type_kind t = ''record'' \<or> type_kind t = ''enum'' \<Longrightarrow> map_of (table_models ctx) (type_declaration t) = Some v \<Longrightarrow>
     sint (size_bytes t) = value_bytes v"
  by (subst (asm) agrees.simps) auto

lemma agrees_element:
  "agrees ctx t \<Longrightarrow> \<not> (type_kind t = ''record'' \<or> type_kind t = ''enum'') \<Longrightarrow> type_kind t = ''array'' \<Longrightarrow> element_type t = Some e \<Longrightarrow> agrees ctx e"
  by (subst (asm) agrees.simps) auto

lemma values_agree_parts:
  assumes "values_agree ctx" "map_of (table_models ctx) name = Some v" "(t, context) \<in> set (value_parts flat v)"
  shows "agrees ctx t"
proof -
  have "list_all (\<lambda>(t, _). agrees ctx t) (value_parts name v)"
    using assms(1) map_of_SomeD [OF assms(2)] by (auto simp: values_agree_def list_all_iff)
  with assms(3) show ?thesis by (auto simp: value_parts_def list_all_iff split: if_splits)
qed

section \<open>Steps\<close>

abbreviation keys_of :: "(string \<times> 'a) list \<Rightarrow> string set" where
  "keys_of m \<equiv> fst ` set m"

definition fresh_definitions :: "table_state \<Rightarrow> table_state \<Rightarrow> table_definition list \<Rightarrow> bool" where
  "fresh_definitions s s' ds \<longleftrightarrow> table_definitions s' = table_definitions s @ ds \<and> distinct (map definition_name ds) \<and>
     definition_name ` set ds \<inter> set (generated_names s) = {} \<and> definition_name ` set ds \<subseteq> set (generated_names s')"

definition representables :: "table_context \<Rightarrow> string set" where
  "representables ctx = {name. representable ctx [] name}"

text \<open>What every operation of the emitter does to the state.\<close>

definition advances :: "table_context \<Rightarrow> table_state \<Rightarrow> table_state \<Rightarrow> bool" where
  "advances ctx s s' \<longleftrightarrow> visiting_values s' = visiting_values s \<and> keys_of (completed_values s) \<subseteq> keys_of (completed_values s') \<and>
     set (pointed_values s') \<subseteq> set (pointed_values s) \<union>
       (representables ctx - keys_of (completed_values s) - set (visiting_values s)) \<and>
     (\<exists>r. table_report s' = table_report s @ r) \<and> table_layouts s' = table_layouts s \<and>
     set (generated_names s) \<subseteq> set (generated_names s') \<and> (has_errors (table_report s') \<or> (\<exists>ds. fresh_definitions s s' ds))"

lemma advances_refl [simp, intro]: "advances ctx s s"
  unfolding advances_def fresh_definitions_def by (auto intro: exI [of _ "[]"])

lemma freshD:
  assumes "fresh_definitions s s' ds"
  shows "table_definitions s' = table_definitions s @ ds" "distinct (map definition_name ds)"
    "definition_name ` set ds \<inter> set (generated_names s) = {}" "definition_name ` set ds \<subseteq> set (generated_names s')"
  using assms by (simp_all add: fresh_definitions_def)

lemma advancesD:
  assumes "advances ctx s s'"
  shows "visiting_values s' = visiting_values s" "keys_of (completed_values s) \<subseteq> keys_of (completed_values s')"
    "set (pointed_values s') \<subseteq> set (pointed_values s) \<union>
       (representables ctx - keys_of (completed_values s) - set (visiting_values s))"
    "\<exists>r. table_report s' = table_report s @ r" "table_layouts s' = table_layouts s"
    "set (generated_names s) \<subseteq> set (generated_names s')" "has_errors (table_report s') \<or> (\<exists>ds. fresh_definitions s s' ds)"
  using assms by (simp_all add: advances_def)

lemma fresh_trans:
  assumes "fresh_definitions s s' ds" "fresh_definitions s' s'' es" "set (generated_names s) \<subseteq> set (generated_names s')"
    "set (generated_names s') \<subseteq> set (generated_names s'')"
  shows "fresh_definitions s s'' (ds @ es)"
proof -
  note d = freshD [OF assms(1)] and e = freshD [OF assms(2)]
  have apart: "definition_name ` set ds \<inter> definition_name ` set es = {}" using d(4) e(3) by blast
  moreover have "definition_name ` set es \<inter> set (generated_names s) = {}" using e(3) assms(3) by blast
  moreover have "definition_name ` set ds \<subseteq> set (generated_names s'')" using d(4) assms(4) by blast
  ultimately show ?thesis using d(1,2,3) e(1,2,4) unfolding fresh_definitions_def by (simp add: image_Un Int_Un_distrib2)
qed

lemma advances_trans:
  assumes "advances ctx s s'" "advances ctx s' s''"
  shows "advances ctx s s''"
proof -
  note one = advancesD [OF assms(1)] and two = advancesD [OF assms(2)]
  obtain r q where r: "table_report s'' = table_report s' @ r" "table_report s' = table_report s @ q" using one(4) two(4) by blast
  have "has_errors (table_report s'') \<or> (\<exists>ds. fresh_definitions s s'' ds)"
  proof (cases "has_errors (table_report s'')")
    case False
    then have "\<not> has_errors (table_report s')" using r(1) by simp
    with False one(7) two(7) obtain ds es where "fresh_definitions s s' ds" "fresh_definitions s' s'' es" by blast
    from fresh_trans [OF this one(6) two(6)] show ?thesis by blast
  qed simp
  moreover have "P'' \<subseteq> P' \<union> (K - C' - V) \<Longrightarrow> P' \<subseteq> P \<union> (K - C - V) \<Longrightarrow> C \<subseteq> C' \<Longrightarrow> P'' \<subseteq> P \<union> (K - C - V)"
    for P P' P'' K C C' V :: "string set"
    by blast
  from this [OF two(3) [unfolded one(1)] one(3) one(2)]
  have "set (pointed_values s'') \<subseteq> set (pointed_values s) \<union>
      (representables ctx - keys_of (completed_values s) - set (visiting_values s))" .
  moreover have "table_report s'' = table_report s @ (q @ r)" using r by simp
  moreover note subset_trans [OF one(2) two(2)] subset_trans [OF one(6) two(6)]
  ultimately show ?thesis unfolding advances_def using one(1,5) two(1,5) by simp
qed

lemma advances_errors: "advances ctx s s' \<Longrightarrow> has_errors (table_report s) \<Longrightarrow> has_errors (table_report s')"
  by (auto simp: advances_def)

lemma table_error_simps [simp]:
  "completed_values (table_error c p m s) = completed_values s" "visiting_values (table_error c p m s) = visiting_values s"
  "pointed_values (table_error c p m s) = pointed_values s" "generated_names (table_error c p m s) = generated_names s"
  "table_definitions (table_error c p m s) = table_definitions s" "table_layouts (table_error c p m s) = table_layouts s"
  "has_errors (table_report (table_error c p m s))"
  by (simp_all add: table_error_def)

lemma advances_error [simp, intro]: "advances ctx s (table_error c p m s)"
  by (auto simp: advances_def) (simp add: table_error_def)

lemma advances_reserve [simp, intro]: "advances ctx s (reserve_name name p s)"
  by (auto simp: reserve_name_def) (auto simp: advances_def fresh_definitions_def intro: exI [of _ "[]"])

lemma reserve_name_cases:
  "has_errors (table_report (reserve_name name p s)) \<or>
     cpp_identifier name \<and> name \<notin> set (generated_names s) \<and> reserve_name name p s = s\<lparr>generated_names := name # generated_names s\<rparr>"
  by (simp add: reserve_name_def)

text \<open>\<open>P\<close> tells whether the given types agree with the values.\<close>

definition definitions_sized :: "table_context \<Rightarrow> table_state \<Rightarrow> bool" where
  "definitions_sized ctx s \<longleftrightarrow>
     (\<forall>d\<in>set (table_definitions s). \<forall>l\<in>set (used_types d). sized (table_target ctx) (table_definitions s) l) \<and>
     (\<forall>n\<in>keys_of (completed_values s). \<forall>v. map_of (table_models ctx) n = Some v \<longrightarrow>
        (fs_name (symbol_component n), value_bytes v) \<in> set (declared_sizes (table_target ctx) (table_definitions s)))"

definition sound :: "bool \<Rightarrow> table_context \<Rightarrow> table_state \<Rightarrow> bool" where
  "sound P ctx s \<longleftrightarrow> has_errors (table_report s) \<or>
     in_order [] (table_definitions s) \<and> list_all definition_fits (table_definitions s) \<and>
     (\<forall>n\<in>keys_of (completed_values s). fs_name (symbol_component n) \<in> known_types (table_definitions s)) \<and>
     (P \<longrightarrow> definitions_sized ctx s)"

lemma sound_errors [simp]: "has_errors (table_report s) \<Longrightarrow> sound P ctx s"
  by (simp add: sound_def)

lemma sound_reserve [simp]: "sound P ctx s \<Longrightarrow> sound P ctx (reserve_name name p s)"
  using reserve_name_cases [of name p s] by (elim disjE conjE) (simp_all add: sound_def definitions_sized_def)

lemma reserve_simps [simp]:
  "completed_values (reserve_name name p s) = completed_values s" "visiting_values (reserve_name name p s) = visiting_values s"
  "pointed_values (reserve_name name p s) = pointed_values s" "table_definitions (reserve_name name p s) = table_definitions s"
  "table_layouts (reserve_name name p s) = table_layouts s"
  by (simp_all add: reserve_name_def)

section \<open>Types\<close>

definition lowered_as :: "bool \<Rightarrow> table_context \<Rightarrow> bool \<Rightarrow> declaration_type \<Rightarrow> table_type \<Rightarrow> table_state \<Rightarrow> bool" where
  "lowered_as P ctx allow_void t l s \<longleftrightarrow> has_errors (table_report s) \<or> type_text l \<in> known_types (table_definitions s) \<and>
     (\<not> (allow_void \<and> type_kind t = ''void'') \<longrightarrow> type_size l = sint (size_bytes t) \<and> type_alignment l = sint (align_bytes t) \<and>
        (P \<longrightarrow> sized (table_target ctx) (table_definitions s) l))"

lemma lowered_as_error [simp]: "has_errors (table_report s) \<Longrightarrow> lowered_as P ctx allow_void t l s"
  by (simp add: lowered_as_def)

lemma builtin_known [simp, intro]: "x \<in> builtin_types \<Longrightarrow> x \<in> known_types ds"
  by (simp add: known_types_def)

lemma lowered_as_later:
  assumes "lowered_as P ctx allow_void t l s" "advances ctx s s'"
  shows "lowered_as P ctx allow_void t l s'"
proof (cases "has_errors (table_report s')")
  case False
  then obtain ds where "table_definitions s' = table_definitions s @ ds" "\<not> has_errors (table_report s)"
    using advancesD(4,7) [OF assms(2)] freshD(1) by fastforce
  with assms(1) show ?thesis by (auto simp: lowered_as_def known_types_append declared_sizes_append)
qed simp

definition made :: "bool \<Rightarrow> table_context \<Rightarrow> bool \<Rightarrow> declaration_type \<Rightarrow> table_state \<Rightarrow> table_type \<times> table_state \<Rightarrow> bool" where
  "made P ctx allow_void t s r \<longleftrightarrow> advances ctx s (snd r) \<and> sound P ctx (snd r) \<and> lowered_as P ctx allow_void t (fst r) (snd r)"

lemma made_reject [simp]: "made P ctx allow_void t s (reject_type t context place s)"
  by (simp add: made_def reject_type_def)

lemma lower_convention_state:
  assumes "lower_convention tgt f place s = (c, s')"
  shows "advances ctx s s'" "sound P ctx s \<Longrightarrow> sound P ctx s'"
    "completed_values s' = completed_values s \<and> visiting_values s' = visiting_values s \<and> pointed_values s' = pointed_values s"
    "has_errors (table_report s') \<or> s' = s"
  using assms by (auto simp: lower_convention_def split: option.splits)

lemma ask_pointed:
  assumes "representable ctx [] name" "name \<notin> keys_of (completed_values s)" "name \<notin> set (visiting_values s)"
  shows "advances ctx s (s\<lparr>pointed_values := List.insert name (pointed_values s)\<rparr>)"
    "sound P ctx s \<Longrightarrow> sound P ctx (s\<lparr>pointed_values := List.insert name (pointed_values s)\<rparr>)"
  using assms by (auto simp: advances_def fresh_definitions_def sound_def definitions_sized_def representables_def)

lemma lower_pointer_made:
  assumes "sound P ctx s" "sint (size_bytes t) = pointer_bytes (table_target ctx)"
  shows "made P ctx allow_void t s (lower_pointer ctx t p context place s)"
proof (cases "type_kind p = ''function'' \<and> \<not> callable_function p")
  case False
  define s' where "s' = (if type_kind p = ''function'' then snd (lower_convention (table_target ctx) p place s) else s)"
  have s': "advances ctx s s'" "sound P ctx s'"
    using assms lower_convention_state [OF prod.collapse [symmetric]] unfolding s'_def by auto
  define asked where "asked = ((type_kind p = ''record'' \<or> type_kind p = ''enum'') \<and> representable ctx [] (type_declaration p) \<and>
    type_declaration p \<notin> fst ` set (completed_values s') \<and> type_declaration p \<notin> set (visiting_values s'))"
  let ?q = "if asked then s'\<lparr>pointed_values := List.insert (type_declaration p) (pointed_values s')\<rparr> else s'"
  have "advances ctx s' ?q \<and> sound P ctx ?q"
    using ask_pointed [of ctx "type_declaration p" s'] s'(2) by (auto simp: asked_def)
  then have "advances ctx s ?q" "sound P ctx ?q" using advances_trans [OF s'(1)] by blast+
  moreover have "lower_pointer ctx t p context place s =
      (\<lparr>type_text = ''nativeint'', type_size = sint (size_bytes t), type_alignment = sint (align_bytes t)\<rparr>, ?q)"
    using False unfolding lower_pointer_def s'_def asked_def Let_def by (simp only: if_False)
  ultimately show ?thesis using assms(2) by (simp add: made_def lowered_as_def builtin_types_def declared_sizes_def builtin_sizes_def)
qed (simp add: lower_pointer_def)

lemma shown_widths: "show_int 8 = ''8''" "show_int 16 = ''16''" "show_int 32 = ''32''" "show_int 64 = ''64''"
  by code_simp+

lemma lower_number_known:
  assumes "lower_number t = Some l"
  shows "type_text l \<in> builtin_types" "type_size l = sint (size_bytes t)" "type_alignment l = sint (align_bytes t)"
    "(type_text l, type_size l) \<in> set (builtin_sizes tgt)"
proof -
  define spelled where "spelled = (if type_kind t = ''signed_integer'' \<or> type_kind t = ''unsigned_integer'' \<or> (type_kind t = ''character'' \<and> wide_character t)
    then (if type_kind t = ''signed_integer'' then ''int'' else ''uint'') @ show_int (sint (size_bytes t) * 8)
    else if canonical_spelling t = ''float'' then ''float32'' else ''float'')"
  have l: "l = \<lparr>type_text = spelled, type_size = sint (size_bytes t), type_alignment = sint (align_bytes t)\<rparr>"
    "spelled = ''float32'' \<and> sint (size_bytes t) = 4 \<or> spelled = ''float'' \<and> sint (size_bytes t) = 8 \<or>
      number_bytes t \<and> spelled = (if type_kind t = ''signed_integer'' then ''int'' else ''uint'') @ show_int (sint (size_bytes t) * 8)"
    using assms unfolding lower_number_def Let_def spelled_def float_shape_def by (auto split: if_splits)
  have size: "(spelled, sint (size_bytes t)) \<in> set (builtin_sizes tgt)"
    using l(2)
  proof (elim disjE conjE)
    assume bytes: "number_bytes t" and name: "spelled = (if type_kind t = ''signed_integer'' then ''int'' else ''uint'') @ show_int (sint (size_bytes t) * 8)"
    have "sint (size_bytes t) = 1 \<or> sint (size_bytes t) = 2 \<or> sint (size_bytes t) = 4 \<or> sint (size_bytes t) = 8"
      using bytes by (simp add: number_bytes_def)
    then show ?thesis unfolding name by (elim disjE) (simp_all add: shown_widths builtin_sizes_def)
  qed (simp_all add: builtin_sizes_def)
  moreover have "fst ` set (builtin_sizes tgt) \<subseteq> builtin_types" by (simp add: builtin_sizes_def builtin_types_def)
  ultimately have "spelled \<in> builtin_types" by force
  with size show "type_text l \<in> builtin_types" "type_size l = sint (size_bytes t)" "type_alignment l = sint (align_bytes t)"
    "(type_text l, type_size l) \<in> set (builtin_sizes tgt)"
    by (simp_all add: l(1))
qed

lemma number_made: "sound P ctx s \<Longrightarrow> lower_number t = Some l \<Longrightarrow> made P ctx allow_void t s (l, s)"
  using lower_number_known(4) [of t l "table_target ctx"]
  by (simp add: made_def lowered_as_def lower_number_known declared_sizes_def)

text \<open>A definition is added after those it uses.\<close>

lemma add_definition:
  assumes "advances ctx (reserve_name (definition_name d) place s) s'" "sound P ctx s'"
    "has_errors (table_report s') \<or> type_text ` set (used_types d) \<subseteq> known_types (table_definitions s') \<and> definition_fits d \<and>
      (P \<longrightarrow> (\<forall>l\<in>set (used_types d). sized (table_target ctx) (table_definitions s') l))"
  shows "advances ctx s (s'\<lparr>table_definitions := table_definitions s' @ [d]\<rparr>)" "sound P ctx (s'\<lparr>table_definitions := table_definitions s' @ [d]\<rparr>)"
proof -
  let ?r = "reserve_name (definition_name d) place s"
  have s: "advances ctx s s'" using assms(1) advances_reserve advances_trans by blast
  have "\<exists>ds. fresh_definitions s (s'\<lparr>table_definitions := table_definitions s' @ [d]\<rparr>) ds" if ok: "\<not> has_errors (table_report s')"
  proof -
    have no: "\<not> has_errors (table_report ?r)" using ok advances_errors [OF assms(1)] by blast
    with reserve_name_cases [of "definition_name d" place s] have new: "definition_name d \<notin> set (generated_names s)"
      "set (generated_names ?r) = insert (definition_name d) (set (generated_names s))" by auto
    obtain ds where ds: "fresh_definitions ?r s' ds" using ok advancesD(7) [OF assms(1)] by blast
    note fresh = freshD [OF this] and kept = advancesD(6) [OF assms(1)]
    have "fresh_definitions s (s'\<lparr>table_definitions := table_definitions s' @ [d]\<rparr>) (ds @ [d])"
      unfolding fresh_definitions_def using fresh new kept by auto
    then show ?thesis by blast
  qed
  then show "advances ctx s (s'\<lparr>table_definitions := table_definitions s' @ [d]\<rparr>)" using advancesD [OF s] unfolding advances_def by auto
  show "sound P ctx (s'\<lparr>table_definitions := table_definitions s' @ [d]\<rparr>)"
    using assms(2,3) unfolding sound_def definitions_sized_def
    by (elim disjE conjE) (auto simp: in_order_append known_types_append declared_sizes_append)
qed

lemma array_size_product:
  assumes "array_fits t e"
  shows "sint (size_bytes t) = sint (array_size t) * sint (size_bytes e)"
proof -
  let ?n = "sint (array_size t)" and ?m = "sint (size_bytes e)"
  have n: "0 < ?n" "0 < ?m" "?n \<le> 2147483647 div ?m" using assms by (simp_all add: array_fits_def)
  have "?n * ?m \<le> (2147483647 div ?m) * ?m" using n by (intro mult_right_mono) simp_all
  also have "\<dots> \<le> 2147483647" using pos_mod_sign [OF n(2), of 2147483647] by (simp flip: minus_mod_eq_div_mult)
  finally have small: "?n * ?m \<le> 2147483647" .
  have "size_bytes t = array_size t * size_bytes e" using assms by (simp add: array_fits_def)
  then have "size_bytes t = word_of_int (?n * ?m)" by (simp only: of_int_mult of_int_sint scast_id id_apply)
  moreover have "sint (word_of_int p :: 64 word) = p" if "0 < p" "p \<le> 2147483647" for p
    unfolding sint_sbintrunc' by (rule signed_take_bit_int_eq_self) (use that in simp_all)
  ultimately show ?thesis using small mult_pos_pos [OF n(1,2)] by (metis (no_types))
qed

lemma array_made:
  assumes "made P ctx False e (reserve_name (context @ ''_Array'') place s) (l, s')" "array_fits t e"
  shows "made P ctx allow_void t s (\<lparr>type_text = fs_name (context @ ''_Array''), type_size = sint (size_bytes t), type_alignment = sint (align_bytes t)\<rparr>,
    s'\<lparr>table_definitions := table_definitions s' @
      [Array_Definition (context @ ''_Array'') l (sint (array_size t)) (sint (size_bytes t)) (sint (align_bytes t))]\<rparr>)"
proof -
  let ?d = "Array_Definition (context @ ''_Array'') l (sint (array_size t)) (sint (size_bytes t)) (sint (align_bytes t))"
  have "has_errors (table_report s') \<or> type_text ` set (used_types ?d) \<subseteq> known_types (table_definitions s') \<and> definition_fits ?d \<and>
      (P \<longrightarrow> (\<forall>l\<in>set (used_types ?d). sized (table_target ctx) (table_definitions s') l))"
    using assms array_size_product [OF assms(2)]
    by (auto simp: made_def lowered_as_def used_types_def definition_fits_def array_fits_def)
  from add_definition [OF _ _ this, of place s] assms(1) show ?thesis
    by (auto simp: made_def lowered_as_def definition_name_def known_types_def declared_sizes_def definition_bytes_def)
qed

text \<open>What declaring a value promises, for the values that are being declared.\<close>

definition declares :: "bool \<Rightarrow> table_context \<Rightarrow> string list \<Rightarrow> (string \<Rightarrow> source_position \<Rightarrow> table_state \<Rightarrow> table_state option) \<Rightarrow> bool" where
  "declares P ctx seen declare_value \<longleftrightarrow> (\<forall>name place s. representable ctx seen name \<and> visiting_values s = seen \<and> sound P ctx s \<longrightarrow>
     (\<exists>s'. declare_value name place s = Some s' \<and> advances ctx s s' \<and> sound P ctx s' \<and> name \<in> keys_of (completed_values s') \<and>
       (name \<in> set (pointed_values s') \<longrightarrow> name \<in> set (pointed_values s))))"

lemma declaresD:
  assumes "declares P ctx seen declare_value" "representable ctx seen name" "visiting_values s = seen" "sound P ctx s"
  obtains s' where "declare_value name place s = Some s'" "advances ctx s s'" "sound P ctx s'" "name \<in> keys_of (completed_values s')"
    "name \<in> set (pointed_values s') \<Longrightarrow> name \<in> set (pointed_values s)"
  using assms unfolding declares_def by blast

definition makes :: "bool \<Rightarrow> table_context \<Rightarrow> bool \<Rightarrow> declaration_type \<Rightarrow> table_state \<Rightarrow> (table_type \<times> table_state) option \<Rightarrow> bool" where
  "makes P ctx allow_void t s x \<longleftrightarrow> (case x of None \<Rightarrow> False | Some r \<Rightarrow> made P ctx allow_void t s r)"

lemma makes_Some [simp]: "makes P ctx allow_void t s (Some r) = made P ctx allow_void t s r"
  by (simp add: makes_def)

lemma makesE:
  assumes "makes P ctx allow_void t s x"
  obtains l s' where "x = Some (l, s')" "made P ctx allow_void t s (l, s')"
  using assms by (cases x) (auto simp: makes_def)

lemma lower_table_type_made:
  assumes "declares P ctx seen declare_value" "visiting_values s = seen" "sound P ctx s"
    "seen = [] \<or> simple_shape (table_target ctx) (representable ctx seen) t" "P \<longrightarrow> agrees ctx t"
  shows "makes P ctx allow_void t s (lower_table_type ctx declare_value t context place allow_void s)"
  using assms
proof (induction ctx declare_value t "context" place allow_void s rule: lower_table_type.induct)
  case (1 ctx declare_value t "context" place allow_void s)
  let ?tgt = "table_target ctx"
  show ?case
  proof (cases "type_is_volatile t \<or> type_kind t = ''void'' \<and> allow_void \<or>
      type_kind t = ''pointer'' \<and> pointee t \<noteq> None \<and> sint (size_bytes t) = pointer_bytes ?tgt")
    case True
    then consider "type_is_volatile t" | "\<not> type_is_volatile t" "type_kind t = ''void''" "allow_void"
      | "\<not> type_is_volatile t" "type_kind t = ''pointer''" "pointee t \<noteq> None" "sint (size_bytes t) = pointer_bytes ?tgt" by blast
    then show ?thesis
    proof cases
      case 1
      then show ?thesis by (subst lower_table_type.simps) simp
    next
      case 2
      then show ?thesis using \<open>sound P ctx s\<close>
        by (subst lower_table_type.simps) (simp add: made_def lowered_as_def builtin_types_def)
    next
      case 3
      then show ?thesis using lower_pointer_made [OF \<open>sound P ctx s\<close> 3(4)] by (subst lower_table_type.simps) simp
    qed
  next
    case first: False
    show ?thesis
    proof (cases "type_kind t = ''record'' \<or> type_kind t = ''enum''")
      case True
      show ?thesis
      proof (cases "representable ctx [] (type_declaration t)")
        case False
        then show ?thesis using first True by (subst lower_table_type.simps) auto
      next
        case named: True
        then have "representable ctx seen (type_declaration t)" using 1(5) simple_shape_named True by blast
        then obtain s' where s': "declare_value (type_declaration t) place s = Some s'" "advances ctx s s'" "sound P ctx s'"
          "type_declaration t \<in> keys_of (completed_values s')"
          by (rule declaresD [OF 1(2) _ 1(3,4)])
        obtain v where v: "map_of (table_models ctx) (type_declaration t) = Some v" using named by (rule representable_value)
        have "sized (table_target ctx) (table_definitions s') \<lparr>type_text = fs_name (symbol_component (type_declaration t)),
            type_size = sint (size_bytes t), type_alignment = sint (align_bytes t)\<rparr>" if "P" "definitions_sized ctx s'"
        proof -
          have "agrees ctx t" using that(1) 1(6) by simp
          from agrees_value [OF this True v] show ?thesis using that(2) s'(4) v by (auto simp: definitions_sized_def)
        qed
        then have "made P ctx allow_void t s (\<lparr>type_text = fs_name (symbol_component (type_declaration t)), type_size = sint (size_bytes t),
            type_alignment = sint (align_bytes t)\<rparr>, s')"
          using s'(2-4) by (auto simp: made_def lowered_as_def sound_def)
        with s'(1) named first True show ?thesis by (subst lower_table_type.simps) auto
      qed
    next
      case second: False
      show ?thesis
      proof (cases "type_kind t = ''array''")
        case array: True
        show ?thesis
        proof (cases "\<exists>e. element_type t = Some e \<and> array_fits t e")
          case False
          then show ?thesis using first second array by (subst lower_table_type.simps) (auto split: option.splits)
        next
          case True
          then obtain e where e: "element_type t = Some e" "array_fits t e" by blast
          let ?name = "context @ ''_Array''"
          have shape: "seen = [] \<or> simple_shape ?tgt (representable ctx seen) e" using 1(5) simple_shape_element array e(1) by blast
          have "makes P ctx False e (reserve_name ?name place s)
              (lower_table_type ctx declare_value e (?name @ ''_Element'') place False (reserve_name ?name place s))"
            by (rule 1(1)) (use first second array e 1(2-4,6) shape agrees_element in auto)
          then obtain l s' where r: "lower_table_type ctx declare_value e (?name @ ''_Element'') place False (reserve_name ?name place s) = Some (l, s')"
            "made P ctx False e (reserve_name ?name place s) (l, s')" by (rule makesE)
          let ?d = "Array_Definition ?name l (sint (array_size t)) (sint (size_bytes t)) (sint (align_bytes t))"
          let ?s = "s'\<lparr>table_definitions := table_definitions s' @ [?d]\<rparr>"
          have "made P ctx allow_void t s (\<lparr>type_text = fs_name ?name, type_size = sint (size_bytes t), type_alignment = sint (align_bytes t)\<rparr>, ?s)"
            using array_made [OF r(2) e(2)] by simp
          then show ?thesis using first second array e r(1) by (subst lower_table_type.simps) (auto simp: Let_def)
        qed
      next
        case False
        then show ?thesis using first second number_made [OF 1(4)]
          by (subst lower_table_type.simps) (auto split: option.splits)
      qed
    qed
  qed
qed

section \<open>Values\<close>

lemma lower_each_made:
  assumes "\<And>t c s. (t, c) \<in> set ts \<Longrightarrow> visiting_values s = seen \<Longrightarrow> sound P ctx s \<Longrightarrow> makes P ctx False t s (lower t c s)"
    "visiting_values s = seen" "sound P ctx s"
  shows "\<exists>ls s'. lower_each lower ts s = Some (ls, s') \<and> advances ctx s s' \<and> sound P ctx s' \<and> list_all2 (\<lambda>p l. lowered_as P ctx False (fst p) l s') ts ls"
  using assms
proof (induction ts arbitrary: s)
  case (Cons p ts)
  obtain t c where p: "p = (t, c)" by (cases p)
  have "makes P ctx False t s (lower t c s)" using Cons.prems by (simp add: p)
  then obtain l s1 where one: "lower t c s = Some (l, s1)" "made P ctx False t s (l, s1)" by (rule makesE)
  then have s1: "advances ctx s s1" "sound P ctx s1" "lowered_as P ctx False t l s1" by (simp_all add: made_def)
  have "visiting_values s1 = seen" using advancesD(1) [OF s1(1)] Cons.prems(2) by simp
  moreover have "\<And>t c s. (t, c) \<in> set ts \<Longrightarrow> visiting_values s = seen \<Longrightarrow> sound P ctx s \<Longrightarrow> makes P ctx False t s (lower t c s)"
    using Cons.prems(1) by simp
  ultimately obtain ls s' where rest: "lower_each lower ts s1 = Some (ls, s')" "advances ctx s1 s'" "sound P ctx s'"
    "list_all2 (\<lambda>p l. lowered_as P ctx False (fst p) l s') ts ls"
    using Cons.IH [OF _ _ s1(2)] by blast
  with one(1) s1 show ?case by (auto simp: p intro: advances_trans lowered_as_later)
qed auto

lemma check_cases_state:
  "advances ctx s (check_cases place seen cs s)" "sound P ctx s \<Longrightarrow> sound P ctx (check_cases place seen cs s)"
  "visiting_values (check_cases place seen cs s) = visiting_values s" "table_definitions (check_cases place seen cs s) = table_definitions s"
  by (induction place seen cs s rule: check_cases.induct) (auto intro: advances_trans [OF advances_error])

lemma fields_fit_apart:
  assumes "fields_fit (simple_shape tgt named) whole a fin fs = Some b" "fin \<le> whole"
    "list_all2 (\<lambda>f l. type_size l = sint (size_bytes (member_type f)) \<and> type_alignment l = sint (align_bytes (member_type f))) fs ls"
  shows "fields_apart fin whole (map (\<lambda>(f, t). (sint (offset_bytes f), type_size t, type_alignment t)) (zip fs ls))"
  using assms(3,1,2)
  by (induction arbitrary: a fin rule: list_all2_induct) (auto simp: Let_def simple_shape_bytes split: if_splits)

lemma value_fits:
  assumes "list_all2 (\<lambda>p l. lowered_as P ctx False (fst p) l s) (value_parts flat v) ls" "\<not> has_errors (table_report s)" "plain_value v"
    "type_kind (target v) = ''enum'' \<or>
     fields_fit (simple_shape tgt named) (sint (size_bytes (target v))) 1 0 (alias_fields v) = Some b"
  shows "definition_fits (Value_Definition v name ls)"
proof (cases "type_kind (target v) = ''enum''")
  case True
  then show ?thesis using list_all2_lengthD [OF assms(1)] by (simp add: definition_fits_def value_parts_def)
next
  case False
  then have types: "list_all2 (\<lambda>f l. type_size l = sint (size_bytes (member_type f)) \<and> type_alignment l = sint (align_bytes (member_type f)))
      (alias_fields v) ls"
    using assms(1,2) by (simp add: value_parts_def list_all2_map1 lowered_as_def) (erule list.rel_mono_strong, simp)
  have "0 \<le> sint (size_bytes (target v))" using assms(3) by (simp add: plain_value_def)
  with False assms(4) fields_fit_apart [OF _ this types] list_all2_lengthD [OF types] show ?thesis
    by (auto simp: definition_fits_def placed_fields_def)
qed

lemma keys_emplace [simp]: "keys_of (emplace k v m) = insert k (keys_of m)"
  by (auto simp: emplace_def)

lemma lower_table_value_declares:
  "depth + length seen = value_depth \<Longrightarrow> P \<longrightarrow> values_agree ctx \<Longrightarrow> declares P ctx seen (lower_table_value depth ctx)"
proof (induction depth arbitrary: seen)
  case 0
  have "\<not> representable ctx seen name" for name using 0 representable_value by (fastforce simp: value_depth_def)
  then show ?case by (simp add: declares_def)
next
  case (Suc depth)
  have inner: "declares P ctx (name # seen) (lower_table_value depth ctx)" for name by (rule Suc.IH) (use Suc.prems in simp_all)
  show ?case unfolding declares_def
  proof (intro allI impI, elim conjE)
    fix name place s assume name: "representable ctx seen name" and s: "visiting_values s = seen" "sound P ctx s"
    from name obtain v where v: "map_of (table_models ctx) name = Some v" "name \<notin> set seen" "qualified_name ''::'' name" "plain_value v"
      "\<forall>(t, context)\<in>set (value_parts (symbol_component name) v). simple_shape (table_target ctx) (representable ctx (name # seen)) t"
      "type_kind (target v) = ''enum'' \<or> fields_fit (simple_shape (table_target ctx) (representable ctx (name # seen)))
         (sint (size_bytes (target v))) 1 0 (alias_fields v) = Some (sint (value_align_bytes v))"
      by (rule representable_value) blast
    show "\<exists>s'. lower_table_value (Suc depth) ctx name place s = Some s' \<and> advances ctx s s' \<and> sound P ctx s' \<and> name \<in> keys_of (completed_values s') \<and>
        (name \<in> set (pointed_values s') \<longrightarrow> name \<in> set (pointed_values s))"
    proof (cases "name \<in> keys_of (completed_values s)")
      case False
      let ?flat = "symbol_component name" and ?place = "alias_position v"
      let ?s1 = "s\<lparr>visiting_values := name # visiting_values s\<rparr>"
      let ?s2 = "reserve_name ?flat ?place ?s1"
      let ?lower = "\<lambda>t context s. lower_table_type ctx (lower_table_value depth ctx) t context ?place False s"
      have s1: "visiting_values ?s1 = name # seen" "sound P ctx ?s1" using s by (simp_all add: sound_def definitions_sized_def)
      have "\<exists>ls s'. lower_each ?lower (value_parts ?flat v) ?s2 = Some (ls, s') \<and> advances ctx ?s2 s' \<and> sound P ctx s' \<and>
          list_all2 (\<lambda>p l. lowered_as P ctx False (fst p) l s') (value_parts ?flat v) ls"
        by (rule lower_each_made [where seen = "name # seen"])
          (use inner s1 v(5) values_agree_parts [OF _ v(1)] Suc.prems(2) in \<open>auto intro!: lower_table_type_made\<close>)
      then obtain ls s3 where each: "lower_each ?lower (value_parts ?flat v) ?s2 = Some (ls, s3)" "advances ctx ?s2 s3" "sound P ctx s3"
        "list_all2 (\<lambda>p l. lowered_as P ctx False (fst p) l s3) (value_parts ?flat v) ls" by blast
      define s4 where "s4 = (if type_kind (target v) = ''enum'' then check_cases ?place [] (alias_cases v) s3 else s3)"
      have s4: "advances ctx s3 s4" "sound P ctx s4" "visiting_values s4 = name # seen"
        using each(3) check_cases_state advancesD(1) [OF each(2)] s1 by (auto simp: s4_def)
      note s24 = advances_trans [OF each(2) s4(1)]
      let ?d = "Value_Definition v ?flat ls"
      have "has_errors (table_report s4) \<or> type_text ` set (used_types ?d) \<subseteq> known_types (table_definitions s4) \<and> definition_fits ?d \<and>
        (P \<longrightarrow> (\<forall>l\<in>set (used_types ?d). sized (table_target ctx) (table_definitions s4) l))"
      proof (cases "has_errors (table_report s4)")
        case ok: False
        have types: "list_all2 (\<lambda>p l. lowered_as P ctx False (fst p) l s4) (value_parts ?flat v) ls"
          using each(4) by (rule list.rel_mono_strong) (use lowered_as_later [OF _ s4(1)] in blast)
        then have "type_text l \<in> known_types (table_definitions s4)" "P \<longrightarrow> sized (table_target ctx) (table_definitions s4) l"
          if "l \<in> set ls" for l
          using ok that by (auto simp: list_all2_conv_all_nth in_set_conv_nth lowered_as_def)
        then show ?thesis using value_fits [OF types ok v(4,6)] by (auto simp: used_types_def)
      qed simp
      then have five: "advances ctx ?s1 (s4\<lparr>table_definitions := table_definitions s4 @ [?d]\<rparr>)"
        "sound P ctx (s4\<lparr>table_definitions := table_definitions s4 @ [?d]\<rparr>)"
        using add_definition [of ctx ?d ?place ?s1 s4] s24 s4(2) by (simp_all add: definition_name_def)
      let ?s6 = "s4\<lparr>table_definitions := table_definitions s4 @ [?d], visiting_values := remove1 name (visiting_values s4),
        completed_values := emplace name v (completed_values s4)\<rparr>"
      have bytes: "definition_bytes ?d = value_bytes v" if ok: "\<not> has_errors (table_report s3)"
        using each(4) ok by (auto simp: definition_bytes_def value_bytes_def value_parts_def list_all2_Cons1 lowered_as_def)
      have "definitions_sized ctx ?s6"
        if old: "definitions_sized ctx (s4\<lparr>table_definitions := table_definitions s4 @ [?d]\<rparr>)" and ok: "\<not> has_errors (table_report s4)"
      proof -
        have "(fs_name ?flat, definition_bytes ?d) \<in> set (declared_sizes (table_target ctx) (table_definitions ?s6))"
          by (simp add: declared_sizes_def definition_name_def)
        moreover have "\<not> has_errors (table_report s3)" using ok advances_errors [OF s4(1)] by blast
        ultimately have "(fs_name ?flat, value_bytes v) \<in> set (declared_sizes (table_target ctx) (table_definitions ?s6))"
          using bytes by metis
        then show ?thesis using old v(1) unfolding definitions_sized_def by auto
      qed
      moreover have "lower_table_value (Suc depth) ctx name place s = Some ?s6"
        using False v(1,2,3) s(1) each(1) by (simp add: Let_def s4_def)
      moreover have "advances ctx s ?s6"
        using advancesD [OF five(1)] s4(3) s(1) by (auto simp: advances_def fresh_definitions_def)
      moreover have "sound P ctx ?s6"
        using five(2) calculation(1) by (auto simp: sound_def known_types_def definition_name_def)
      moreover have "name \<in> keys_of (completed_values ?s6)" by simp
      moreover have "name \<in> set (pointed_values ?s6) \<longrightarrow> name \<in> set (pointed_values s)" using advancesD(3) [OF five(1)] by auto
      ultimately show ?thesis by blast
    qed (use s in auto)
  qed
qed

lemma value_declares: "P \<longrightarrow> values_agree ctx \<Longrightarrow> declares P ctx [] (lower_table_value value_depth ctx)"
  by (rule lower_table_value_declares) simp_all

lemma lower_type_in_made:
  assumes "visiting_values s = []" "sound P ctx s" "P \<longrightarrow> values_agree ctx" "P \<longrightarrow> agrees ctx t"
  shows "makes P ctx allow_void t s (lower_type_in ctx place allow_void t context s)"
  by (rule lower_table_type_made [OF value_declares]) (use assms in simp_all)

end
