(* ===== verification/Table_Properties.thy ===== *)
theory Table_Properties
  imports Table_Order
begin

text \<open>The properties of the tables of native functions for F#.\<close>

section \<open>States between operations\<close>

definition function_known :: "table_definition list \<Rightarrow> function_layout \<Rightarrow> bool" where
  "function_known ds m \<longleftrightarrow> (\<forall>t\<in>set (delegate_result m # delegate_arguments m). type_text t \<in> known_types ds)"

text \<open>\<open>extra\<close> are the generated names that are no names of definitions, \<open>ms\<close> the functions so far.\<close>

definition state_ok :: "bool \<Rightarrow> table_context \<Rightarrow> string list \<Rightarrow> function_layout list \<Rightarrow> table_state \<Rightarrow> bool" where
  "state_ok P ctx extra ms s \<longleftrightarrow> visiting_values s = [] \<and> sound P ctx s \<and> set (pointed_values s) \<subseteq> representables ctx \<and>
     (has_errors (table_report s) \<or> distinct (map definition_name (table_definitions s) @ extra) \<and>
       definition_name ` set (table_definitions s) \<union> set extra \<subseteq> set (generated_names s) \<and>
       list_all (function_known (table_definitions s)) ms)"

lemma state_ok_advances:
  assumes "state_ok P ctx extra ms s" "advances ctx s s'" "sound P ctx s'"
  shows "state_ok P ctx extra ms s'"
proof -
  note a = advancesD [OF assms(2)]
  have s: "visiting_values s = []" "set (pointed_values s) \<subseteq> representables ctx" using assms(1) by (simp_all add: state_ok_def)
  then have "set (pointed_values s') \<subseteq> representables ctx" using a(3) by blast
  moreover have "distinct (map definition_name (table_definitions s') @ extra) \<and>
      definition_name ` set (table_definitions s') \<union> set extra \<subseteq> set (generated_names s') \<and>
      list_all (function_known (table_definitions s')) ms" if ok: "\<not> has_errors (table_report s')"
  proof -
    have "\<not> has_errors (table_report s)" using advances_errors [OF assms(2)] ok by blast
    with assms(1) have old: "distinct (map definition_name (table_definitions s) @ extra)"
      "definition_name ` set (table_definitions s) \<union> set extra \<subseteq> set (generated_names s)"
      "list_all (function_known (table_definitions s)) ms" by (simp_all add: state_ok_def)
    obtain ds where "fresh_definitions s s' ds" using a(7) ok by blast
    note f = freshD [OF this]
    have "definition_name ` set ds \<inter> (definition_name ` set (table_definitions s) \<union> set extra) = {}" using f(3) old(2) by blast
    then have "distinct (map definition_name (table_definitions s') @ extra)" using old(1) f(1,2) by (simp add: image_Un Int_Un_distrib Int_Un_distrib2) blast
    moreover have "definition_name ` set (table_definitions s') \<union> set extra \<subseteq> set (generated_names s')"
      using f(1,4) old(2) a(6) by (simp add: image_Un) blast
    moreover have "list_all (function_known (table_definitions s')) ms"
      using old(3) f(1) by (auto simp: list_all_iff function_known_def known_types_append)
    ultimately show ?thesis by blast
  qed
  ultimately show ?thesis unfolding state_ok_def using s(1) a(1) assms(3) by simp blast
qed

lemma sound_names [simp]: "sound P ctx (s\<lparr>generated_names := names\<rparr>) = sound P ctx s"
  by (simp add: sound_def definitions_sized_def)

lemma state_ok_reserve:
  assumes "state_ok P ctx extra ms s"
  shows "state_ok P ctx (extra @ [name]) ms (reserve_name name place s)"
  using assms reserve_name_cases [of name place s] by (elim disjE conjE) (auto simp: state_ok_def)

lemma state_ok_error: "state_ok P ctx extra ms s \<Longrightarrow> state_ok P ctx extra' ms' (table_error code place msg s)"
  by (simp add: state_ok_def)

section \<open>Functions\<close>

text \<open>The types in the signature of a function agree with the values.\<close>

definition function_agrees :: "table_context \<Rightarrow> declaration_type \<Rightarrow> bool" where
  "function_agrees ctx function \<longleftrightarrow>
     (case function_result function of None \<Rightarrow> True | Some r \<Rightarrow> agrees ctx r) \<and> list_all (agrees ctx) (function_parameters function)"

definition table_agrees :: "table_context \<Rightarrow> native_table \<Rightarrow> bool" where
  "table_agrees ctx n \<longleftrightarrow>
     list_all (\<lambda>f. case pointee (member_type f) of None \<Rightarrow> True | Some function \<Rightarrow> function_agrees ctx function) (alias_fields (table_record n))"

definition function_names :: "native_table \<Rightarrow> function_layout \<Rightarrow> string list" where
  "function_names n m = [delegate_name m, ''root_'' @ (managed_name n @ ''_'' @ member_name (layout_field m)) @ ''_callback'']"

lemma lower_parameter_made:
  assumes "visiting_values s = []" "sound P ctx s" "P \<longrightarrow> values_agree ctx" "P \<longrightarrow> agrees ctx t"
  shows "makes P ctx False t s (lower_parameter ctx n t context s)"
proof -
  define s1 where "s1 = (if type_kind t = ''array''
    then table_error ''RG0402'' (table_position n) ''function parameters must use pointers rather than array values'' s else s)"
  have "makes P ctx False t s1 (lower_type_in ctx (table_position n) False t context s1)"
    by (rule lower_type_in_made) (use assms in \<open>simp_all add: s1_def\<close>)
  then obtain l s' where l: "lower_type_in ctx (table_position n) False t context s1 = Some (l, s')" "made P ctx False t s1 (l, s')"
    by (rule makesE)
  have "advances ctx s s1" by (simp add: s1_def)
  then have "made P ctx False t s (l, s')" using l(2) advances_trans unfolding made_def by blast
  with l(1) show ?thesis by (simp add: lower_parameter_def s1_def [symmetric])
qed

lemma lower_function_ok:
  assumes "state_ok P ctx extra ms s" "function_result function = Some r" "P \<longrightarrow> values_agree ctx \<and> function_agrees ctx function"
  shows "\<exists>m s'. lower_function ctx n f function s = Some (m, s') \<and> state_ok P ctx (extra @ function_names n m) (ms @ [m]) s' \<and>
    layout_field m = f \<and> advances ctx s s'"
proof -
  let ?place = "table_position n" and ?stem = "managed_name n @ ''_'' @ member_name f"
  let ?delegate = "?stem @ ''_Delegate''"
  obtain convention s1 where one: "lower_convention (table_target ctx) function ?place s = (convention, s1)" by (metis prod.exhaust)
  define s2 where "s2 = reserve_name (''root_'' @ ?stem @ ''_callback'') ?place (reserve_name ?delegate ?place s1)"
  have "sound P ctx s" using assms(1) by (simp add: state_ok_def)
  note convention = lower_convention_state(1,2) [OF one]
  have s1: "advances ctx s s1" "state_ok P ctx extra ms s1"
    using convention(1) state_ok_advances [OF assms(1) convention(1) convention(2) [OF \<open>sound P ctx s\<close>]] by blast+
  let ?extra = "(extra @ [?delegate]) @ [''root_'' @ ?stem @ ''_callback'']"
  have s2: "advances ctx s s2" "state_ok P ctx ?extra ms s2" unfolding s2_def
    using advances_trans [OF advances_trans [OF s1(1) advances_reserve] advances_reserve] state_ok_reserve [OF state_ok_reserve [OF s1(2)]]
    by blast+
  then have "makes P ctx True r s2 (lower_type_in ctx ?place True r (?delegate @ ''_Result'') s2)"
    by (intro lower_type_in_made) (use assms(2,3) in \<open>simp_all add: state_ok_def function_agrees_def\<close>)
  then obtain result s3 where three: "lower_type_in ctx ?place True r (?delegate @ ''_Result'') s2 = Some (result, s3)"
    "made P ctx True r s2 (result, s3)" by (rule makesE)
  then have s3: "advances ctx s2 s3" "sound P ctx s3" "state_ok P ctx ?extra ms s3" using state_ok_advances [OF s2(2)] by (auto simp: made_def)
  let ?ts = "map (\<lambda>(i, t). (t, ?delegate @ ''_Argument'' @ show_nat i)) (enumerate 0 (function_parameters function))"
  have "\<exists>ls s'. lower_each (lower_parameter ctx n) ?ts s3 = Some (ls, s') \<and> advances ctx s3 s' \<and> sound P ctx s' \<and>
      list_all2 (\<lambda>p l. lowered_as P ctx False (fst p) l s') ?ts ls"
    by (rule lower_each_made [where seen = "[]"])
      (use lower_parameter_made s3 assms(3) in \<open>auto simp: state_ok_def function_agrees_def list_all_iff dest!: in_set_enumerate_eq [THEN iffD1]\<close>)
  then obtain ls s4 where four: "lower_each (lower_parameter ctx n) ?ts s3 = Some (ls, s4)" "advances ctx s3 s4" "sound P ctx s4"
    "list_all2 (\<lambda>p l. lowered_as P ctx False (fst p) l s4) ?ts ls" by blast
  note s4 = state_ok_advances [OF s3(3) four(2,3)]
  let ?m = "\<lparr>layout_field = f, delegate_name = ?delegate, delegate_convention = convention, delegate_result = result, delegate_arguments = ls\<rparr>"
  define s5 where "s5 = (if member_name f = ''Bind'' \<or> member_name f = ''Address'' \<or> member_name f = ''AvailableBytes''
    then table_error ''RG0403'' ?place (''native table field conflicts with a generated binding member: '' @ apostrophes (member_name f)) s4 else s4)"
  have made: "lower_function ctx n f function s = Some (?m, s5)"
    unfolding lower_function_def Let_def one s5_def using assms(2) three(1) four(1) by (simp add: s2_def)
  have "function_known (table_definitions s4) ?m" if ok: "\<not> has_errors (table_report s4)"
  proof -
    have "lowered_as P ctx True r result s4" using lowered_as_later [OF _ four(2)] three(2) by (simp add: made_def)
    moreover have "type_text l \<in> known_types (table_definitions s4)" if "l \<in> set ls" for l
      using four(4) ok that by (auto simp: list_all2_conv_all_nth in_set_conv_nth lowered_as_def)
    ultimately show ?thesis using ok by (simp add: function_known_def lowered_as_def)
  qed
  with s4 have "state_ok P ctx ?extra (ms @ [?m]) s4" unfolding state_ok_def by auto
  then have "state_ok P ctx (extra @ function_names n ?m) (ms @ [?m]) s5"
    using state_ok_error [of P ctx ?extra "ms @ [?m]"] by (simp add: s5_def function_names_def)
  moreover have "advances ctx s s5"
    using advances_trans [OF advances_trans [OF s2(1) s3(1)] four(2)] advances_trans [OF _ advances_error] by (simp add: s5_def)
  ultimately show ?thesis using made by (intro exI [of _ ?m] exI [of _ s5]) simp
qed

section \<open>Tables\<close>

definition function_place :: "target_model \<Rightarrow> function_layout \<Rightarrow> int \<times> int \<times> int" where
  "function_place tgt m = (sint (offset_bytes (layout_field m)), pointer_bytes tgt, pointer_bytes tgt)"

lemma fields_apart_mono: "fields_apart fin whole fs \<Longrightarrow> whole \<le> whole' \<Longrightarrow> fields_apart fin whole' fs"
  by (induction fin whole fs rule: fields_apart.induct) auto

lemma fields_apart_snoc:
  "fields_apart fin whole fs \<Longrightarrow> whole \<le> at \<Longrightarrow> 0 < n \<Longrightarrow> at mod a = 0 \<Longrightarrow> at + n \<le> whole' \<Longrightarrow> fields_apart fin whole' (fs @ [(at, n, a)])"
  by (induction fin whole fs rule: fields_apart.induct) auto

definition placed :: "target_model \<Rightarrow> native_table \<Rightarrow> table_progress \<Rightarrow> bool" where
  "placed tgt n p \<longleftrightarrow> 0 \<le> fields_end p \<and> fields_end p \<le> sint (size_bytes (target (table_record n))) \<and>
     version_at p \<in> {-1, 0, 4} \<and> size_at p \<in> {-1, 0, 4} \<and>
     fields_apart 8 (max 8 (fields_end p)) (map (function_place tgt) (functions_found p))"

abbreviation names_found :: "native_table \<Rightarrow> table_progress \<Rightarrow> string list" where
  "names_found n p \<equiv> concat (map (function_names n) (functions_found p))"

definition table_fits :: "target_model \<Rightarrow> table_layout \<Rightarrow> bool" where
  "table_fits tgt l \<longleftrightarrow> {version_offset l, size_offset l} = {0, 4} \<and> table_functions l \<noteq> [] \<and>
     fields_apart 8 (sint (size_bytes (target (table_record (table_of l))))) (map (function_place tgt) (table_functions l))"

definition progress_ok :: "bool \<Rightarrow> table_context \<Rightarrow> native_table \<Rightarrow> string list \<Rightarrow> function_layout list \<Rightarrow> table_layout list \<Rightarrow> table_progress \<times> table_state \<Rightarrow> bool" where
  "progress_ok P ctx n extra ms ls = (\<lambda>(p, s). state_ok P ctx (extra @ names_found n p) (ms @ functions_found p) s \<and>
     (has_errors (table_report s) \<or> placed (table_target ctx) n p \<and> list_all (table_fits (table_target ctx)) ls) \<and> table_layouts s = ls)"

lemma progress_error [simp]:
  "progress_ok P ctx n extra ms ls (p, s) \<Longrightarrow> progress_ok P ctx n extra ms ls (p', table_error code place msg s)"
  by (simp add: progress_ok_def) (blast intro: state_ok_error)

lemma header_field_ok:
  assumes "progress_ok P ctx n extra ms ls (p, s)" "fields_end p \<le> at" "at = sint (offset_bytes f)" "0 < bytes"
    "at \<le> sint (size_bytes (target (table_record n))) - bytes"
  shows "progress_ok P ctx n extra ms ls (header_field n f (p\<lparr>fields_end := at + bytes\<rparr>) s)"
proof (cases "type_kind (member_type f) \<noteq> ''signed_integer'' \<or> size_bytes (member_type f) \<noteq> 4 \<or> type_is_const (member_type f) \<or>
    type_is_volatile (member_type f) \<or> at mod 4 \<noteq> 0 \<or> at > 4")
  case True
  then show ?thesis using assms(1,3) by (auto simp: header_field_def Let_def)
next
  case False
  have "at \<in> {0, 4}" if "0 \<le> at"
  proof -
    obtain k where "at = 4 * k" using False by (metis mod_0_imp_dvd dvdE)
    with False that have "k = 0 \<or> k = 1" by linarith
    with \<open>at = 4 * k\<close> show ?thesis by auto
  qed
  moreover have "fields_apart 8 (max 8 (at + bytes)) (map (function_place (table_target ctx)) (functions_found p))"
    if "placed (table_target ctx) n p"
    using that assms(2,4) fields_apart_mono [of 8 "max 8 (fields_end p)"] by (simp add: placed_def max_def split: if_splits)
  ultimately have "placed (table_target ctx) n (fst (header_field n f (p\<lparr>fields_end := at + bytes\<rparr>) s))" if "placed (table_target ctx) n p"
    using that assms(2-5) unfolding placed_def header_field_def Let_def by auto
  moreover have "snd (header_field n f (p\<lparr>fields_end := at + bytes\<rparr>) s) = s" using False assms(3) by (simp add: header_field_def Let_def)
  moreover have "functions_found (fst (header_field n f (p\<lparr>fields_end := at + bytes\<rparr>) s)) = functions_found p"
    by (simp add: header_field_def Let_def)
  ultimately show ?thesis using assms(1) by (auto simp: progress_ok_def split: prod.splits)
qed

lemma function_field_ok:
  assumes "progress_ok P ctx n extra ms ls (p, s)" "fields_end p \<le> at" "at = sint (offset_bytes f)" "bytes = sint (size_bytes (member_type f))"
    "0 < bytes" "at \<le> sint (size_bytes (target (table_record n))) - bytes" "function_field (table_target ctx) f"
    "function_result function = Some r" "P \<longrightarrow> values_agree ctx \<and> function_agrees ctx function"
  shows "\<exists>m s'. lower_function ctx n f function s = Some (m, s') \<and>
    progress_ok P ctx n extra ms ls (p\<lparr>fields_end := at + bytes, functions_found := functions_found p @ [m]\<rparr>, s')"
proof -
  have "state_ok P ctx (extra @ names_found n p) (ms @ functions_found p) s" using assms(1) by (simp add: progress_ok_def)
  from lower_function_ok [OF this assms(8,9), of n f] obtain m s' where m: "lower_function ctx n f function s = Some (m, s')"
    "state_ok P ctx ((extra @ names_found n p) @ function_names n m) ((ms @ functions_found p) @ [m]) s'" "layout_field m = f" "advances ctx s s'"
    by blast
  let ?p = "p\<lparr>fields_end := at + bytes, functions_found := functions_found p @ [m]\<rparr>"
  have "placed (table_target ctx) n ?p" if "placed (table_target ctx) n p"
  proof -
    have place: "8 \<le> at" "at mod pointer_bytes (table_target ctx) = 0" "bytes = pointer_bytes (table_target ctx)"
      using assms(3,4,7) by (simp_all add: function_field_def Let_def)
    have "fields_apart 8 (max 8 (fields_end p)) (map (function_place (table_target ctx)) (functions_found p))"
      using that by (simp add: placed_def)
    from fields_apart_snoc [OF this, of at bytes "pointer_bytes (table_target ctx)" "at + bytes"] place assms(2,5)
    have "fields_apart 8 (at + bytes) (map (function_place (table_target ctx)) (functions_found ?p))"
      using assms(3) m(3) by (simp add: function_place_def)
    moreover have "max 8 (at + bytes) = at + bytes" using place(1) assms(5) by simp
    ultimately show ?thesis using that assms(2,5,6) by (simp add: placed_def)
  qed
  then have "has_errors (table_report s') \<or> placed (table_target ctx) n ?p \<and> list_all (table_fits (table_target ctx)) ls"
    using assms(1) advances_errors [OF m(4)] by (auto simp: progress_ok_def)
  moreover have "table_layouts s' = ls" using assms(1) advancesD(5) [OF m(4)] by (simp add: progress_ok_def)
  ultimately have "progress_ok P ctx n extra ms ls (?p, s')" using m(2) by (simp add: progress_ok_def)
  with m(1) show ?thesis by blast
qed

lemma progress_seen [simp]: "progress_ok P ctx n extra ms ls (p\<lparr>fields_seen := names\<rparr>, s) = progress_ok P ctx n extra ms ls (p, s)"
  by (simp add: progress_ok_def placed_def)

lemma lower_table_field_ok:
  assumes "progress_ok P ctx n extra ms ls (p, s)" "P \<longrightarrow> values_agree ctx"
    "P \<longrightarrow> (\<forall>function. pointee (member_type f) = Some function \<longrightarrow> function_agrees ctx function)"
  shows "\<exists>r. lower_table_field ctx n f p s = Some r \<and> progress_ok P ctx n extra ms ls r"
proof -
  let ?t = "member_type f" and ?at = "sint (offset_bytes f)"
  define named where "named = (is_public f \<and> \<not> is_bitfield f \<and> cpp_identifier (member_name f))"
  define p1 where "p1 = (if named then p\<lparr>fields_seen := List.insert (member_name f) (fields_seen p)\<rparr> else p)"
  have p1: "progress_ok P ctx n extra ms ls (p1, s)" "fields_end p1 = fields_end p" using assms(1) by (simp_all add: p1_def)
  define bad where "bad = (\<not> named \<or> member_name f \<in> set (fields_seen p) \<or> ?at < fields_end p1 \<or> sint (size_bytes ?t) \<le> 0 \<or>
    ?at > sint (size_bytes (target (table_record n))) - sint (size_bytes ?t))"
  let ?p2 = "p1\<lparr>fields_end := ?at + sint (size_bytes ?t)\<rparr>"
  have unfolded: "lower_table_field ctx n f p s =
     (if bad then Some (p1, table_error ''RG0401'' (table_position n) ''native table fields must be public, nonoverlapping, named fields with known offsets'' s)
      else if is_header_field n f then Some (header_field n f ?p2 s)
      else if \<not> function_field (table_target ctx) f
      then Some (?p2, table_error ''RG0401'' (table_position n) ''native table payload fields must be naturally aligned function pointers'' s)
      else if \<not> callable_function (the (pointee ?t))
      then Some (?p2, table_error ''RG0402'' (table_position n)
        ''native table functions require complete nonvariadic prototypes and known exception specifications'' s)
      else map_option (\<lambda>(l, s). (?p2\<lparr>functions_found := functions_found ?p2 @ [l]\<rparr>, s)) (lower_function ctx n f (the (pointee ?t)) s))"
    unfolding lower_table_field_def Let_def bad_def p1_def named_def by simp
  show ?thesis
  proof (cases "bad \<or> is_header_field n f \<or> \<not> function_field (table_target ctx) f \<or> \<not> callable_function (the (pointee ?t))")
    case True
    have "progress_ok P ctx n extra ms ls (header_field n f ?p2 s)" if "\<not> bad"
      using header_field_ok [OF p1(1), of ?at f "sint (size_bytes ?t)"] that by (simp add: bad_def not_less not_le)
    with True p1(1) show ?thesis unfolding unfolded by (auto simp del: split_paired_Ex)
  next
    case False
    then obtain r where "function_result (the (pointee ?t)) = Some r" by (auto simp: callable_function_def)
    have "P \<longrightarrow> values_agree ctx \<and> function_agrees ctx (the (pointee ?t))"
      using assms(2,3) False by (auto simp: function_field_def Let_def split: option.splits)
    from function_field_ok [OF p1(1) _ refl refl _ _ _ \<open>function_result (the (pointee ?t)) = Some r\<close> this, of f] False
    obtain m s' where "lower_function ctx n f (the (pointee ?t)) s = Some (m, s')"
      "progress_ok P ctx n extra ms ls (p1\<lparr>fields_end := ?at + sint (size_bytes ?t), functions_found := functions_found p1 @ [m]\<rparr>, s')"
      by (auto simp: bad_def not_less not_le)
    with False show ?thesis unfolding unfolded by simp
  qed
qed

lemma lower_table_fields_ok:
  "progress_ok P ctx n extra ms ls (p, s) \<Longrightarrow> P \<longrightarrow> values_agree ctx \<Longrightarrow>
     P \<longrightarrow> (\<forall>f\<in>set fs. \<forall>function. pointee (member_type f) = Some function \<longrightarrow> function_agrees ctx function) \<Longrightarrow>
     \<exists>r. lower_table_fields ctx n fs p s = Some r \<and> progress_ok P ctx n extra ms ls r"
proof (induction fs arbitrary: p s)
  case (Cons f fs)
  from lower_table_field_ok [OF Cons.prems(1,2), of f] Cons.prems(3) obtain p1 s1 where "lower_table_field ctx n f p s = Some (p1, s1)"
    "progress_ok P ctx n extra ms ls (p1, s1)" by (auto simp del: split_paired_Ex)
  with Cons.IH Cons.prems(2,3) show ?case by simp
qed simp

definition layout_names :: "table_layout \<Rightarrow> string list" where
  "layout_names l =
     (let n = table_of l in [managed_name n, managed_name n @ ''Version'', managed_name n @ ''Size''] @
        concat (map (function_names n) (table_functions l)))"

definition tables_ok :: "bool \<Rightarrow> table_context \<Rightarrow> table_state \<Rightarrow> bool" where
  "tables_ok P ctx s \<longleftrightarrow>
     state_ok P ctx (fixed_names @ concat (map layout_names (table_layouts s))) (concat (map table_functions (table_layouts s))) s \<and>
     (has_errors (table_report s) \<or> list_all (table_fits (table_target ctx)) (table_layouts s))"

lemma state_ok_layouts [simp]: "state_ok P ctx extra ms (s\<lparr>table_layouts := ls\<rparr>) = state_ok P ctx extra ms s"
  by (simp add: state_ok_def sound_def definitions_sized_def)

lemma tables_ok_errors: "state_ok P ctx extra ms s \<Longrightarrow> has_errors (table_report s) \<Longrightarrow> tables_ok P ctx s"
  by (simp add: tables_ok_def state_ok_def)

lemma lower_table_ok:
  assumes "tables_ok P ctx s" "P \<longrightarrow> values_agree ctx \<and> table_agrees ctx n"
  shows "\<exists>s'. lower_tables ctx [n] s = Some s' \<and> tables_ok P ctx s'"
proof -
  let ?place = "table_position n" and ?three = "[managed_name n, managed_name n @ ''Version'', managed_name n @ ''Size'']"
  let ?extra = "fixed_names @ concat (map layout_names (table_layouts s))" and ?ms = "concat (map table_functions (table_layouts s))"
  define s1 where "s1 = reserve_name (managed_name n @ ''Size'') ?place (reserve_name (managed_name n @ ''Version'') ?place
    (reserve_name (managed_name n) ?place s))"
  have "state_ok P ctx (((?extra @ [managed_name n]) @ [managed_name n @ ''Version'']) @ [managed_name n @ ''Size'']) ?ms s1"
    unfolding s1_def by (intro state_ok_reserve) (use assms(1) in \<open>simp add: tables_ok_def\<close>)
  then have ok: "state_ok P ctx (?extra @ ?three) ?ms s1" by simp
  have layouts: "table_layouts s1 = table_layouts s" by (simp add: s1_def)
  have errors: "has_errors (table_report s) \<Longrightarrow> has_errors (table_report s1)"
    unfolding s1_def by (intro advances_errors [OF advances_reserve])
  have step: "lower_tables ctx [n] s = lower_table ctx n s1" by (simp add: s1_def Let_def bind_eq_Some_conv split: bind_splits)
  show ?thesis
  proof (cases "valid_table (table_target ctx) n")
    case False
    then show ?thesis unfolding step lower_table_def using tables_ok_errors [OF state_ok_error [OF ok]] by simp
  next
    case True
    then have "8 \<le> sint (size_bytes (target (table_record n)))" by (simp add: valid_table_def Let_def)
    with ok layouts assms(1) errors have "progress_ok P ctx n (?extra @ ?three) ?ms (table_layouts s) (no_progress, s1)"
      by (auto simp: progress_ok_def placed_def no_progress_def tables_ok_def)
    have "P \<longrightarrow> (\<forall>f\<in>set (alias_fields (table_record n)). \<forall>function. pointee (member_type f) = Some function \<longrightarrow> function_agrees ctx function)"
      using assms(2) by (auto simp: table_agrees_def list_all_iff)
    from lower_table_fields_ok [OF \<open>progress_ok P ctx n (?extra @ ?three) ?ms (table_layouts s) (no_progress, s1)\<close> _ this] assms(2) obtain p s2 where fields: "lower_table_fields ctx n (alias_fields (table_record n)) no_progress s1 = Some (p, s2)"
      "progress_ok P ctx n (?extra @ ?three) ?ms (table_layouts s) (p, s2)" by (auto simp del: split_paired_Ex)
    let ?l = "\<lparr>table_of = n, version_offset = version_at p, size_offset = size_at p, table_functions = functions_found p\<rparr>"
    define s3 where "s3 = (if version_at p < 0 \<or> size_at p < 0 \<or> version_at p = size_at p \<or> functions_found p = []
      then table_error ''RG0401'' ?place ''native table must contain both header fields and at least one function pointer'' s2 else s2)"
    have made: "lower_table ctx n s1 = Some (s3\<lparr>table_layouts := table_layouts s3 @ [?l]\<rparr>)"
      unfolding lower_table_def s3_def using True fields(1) by simp
    have s2: "state_ok P ctx ((?extra @ ?three) @ names_found n p) (?ms @ functions_found p) s2" "table_layouts s2 = table_layouts s"
      using fields(2) by (simp_all add: progress_ok_def)
    have "tables_ok P ctx (s3\<lparr>table_layouts := table_layouts s3 @ [?l]\<rparr>)"
    proof (cases "has_errors (table_report s3)")
      case True
      have "state_ok P ctx ((?extra @ ?three) @ names_found n p) (?ms @ functions_found p) s3"
        using s2(1) state_ok_error [OF s2(1)] by (simp add: s3_def)
      then show ?thesis by (intro tables_ok_errors [of P ctx "(?extra @ ?three) @ names_found n p" "?ms @ functions_found p"]) (simp_all add: True)
    next
      case False
      then have s3: "s3 = s2" "0 \<le> version_at p" "0 \<le> size_at p" "version_at p \<noteq> size_at p" "functions_found p \<noteq> []"
        by (auto simp: s3_def split: if_splits)
      have p: "placed (table_target ctx) n p" using False s3(1) fields(2) by (simp add: progress_ok_def)
      have "table_fits (table_target ctx) ?l"
        using s3(2-5) p fields_apart_mono [of 8 "max 8 (fields_end p)"] True
        by (auto simp: table_fits_def placed_def valid_table_def Let_def)
      moreover have "list_all (table_fits (table_target ctx)) (table_layouts s)"
        using False s3(1) fields(2) by (simp add: progress_ok_def)
      ultimately show ?thesis using s2 s3(1) by (simp add: tables_ok_def layout_names_def Let_def)
    qed
    with made step show ?thesis by simp
  qed
qed

lemma lower_tables_ok: "tables_ok P ctx s \<Longrightarrow> P \<longrightarrow> values_agree ctx \<and> list_all (table_agrees ctx) ns \<Longrightarrow> \<exists>s'. lower_tables ctx ns s = Some s' \<and> tables_ok P ctx s'"
proof (induction ns arbitrary: s)
  case (Cons n ns)
  from lower_table_ok [OF Cons.prems(1), of n] Cons.prems(2) obtain s1 where s1: "lower_tables ctx [n] s = Some s1" "tables_ok P ctx s1" by auto
  have "lower_tables ctx (n # ns) s = Option.bind (lower_tables ctx [n] s) (lower_tables ctx ns)"
    by (simp add: Let_def split: bind_splits)
  with s1 Cons.IH [OF s1(2)] Cons.prems(2) show ?case by simp
qed simp

text \<open>Names that can still be taken out.\<close>

definition remaining :: "table_context \<Rightarrow> table_state \<Rightarrow> string set" where
  "remaining ctx s = set (pointed_values s) \<union> (representables ctx - keys_of (completed_values s))"

lemma representables_keys: "representables ctx \<subseteq> keys_of (table_models ctx)"
proof
  fix name assume "name \<in> representables ctx"
  then obtain v where "map_of (table_models ctx) name = Some v" unfolding representables_def by (auto elim: representable_value)
  then show "name \<in> keys_of (table_models ctx)" by (force dest: map_of_SomeD)
qed

lemma finite_remaining: "finite (remaining ctx s)"
  using finite_subset [OF representables_keys] by (simp add: remaining_def)

lemma state_ok_pointed: "state_ok P ctx extra ms s \<Longrightarrow> state_ok P ctx extra ms (s\<lparr>pointed_values := removeAll name (pointed_values s)\<rparr>)"
  by (auto simp: state_ok_def sound_def definitions_sized_def)

lemma lower_pointed_step:
  assumes "tables_ok P ctx s" "P \<longrightarrow> values_agree ctx" "name \<in> set (pointed_values s)"
  shows "\<exists>s'. lower_table_value value_depth ctx name place (s\<lparr>pointed_values := removeAll name (pointed_values s)\<rparr>) = Some s' \<and>
    tables_ok P ctx s' \<and> remaining ctx s' \<subset> remaining ctx s"
proof -
  let ?s = "s\<lparr>pointed_values := removeAll name (pointed_values s)\<rparr>"
  have ok: "state_ok P ctx (fixed_names @ concat (map layout_names (table_layouts s))) (concat (map table_functions (table_layouts s))) ?s"
    using assms(1) state_ok_pointed by (simp add: tables_ok_def)
  then have "visiting_values ?s = []" "sound P ctx ?s" by (simp_all add: state_ok_def)
  moreover have name: "representable ctx [] name" using assms(1,3) by (auto simp: tables_ok_def state_ok_def representables_def)
  ultimately obtain s' where s': "lower_table_value value_depth ctx name place ?s = Some s'" "advances ctx ?s s'" "sound P ctx s'"
    "name \<in> keys_of (completed_values s')" "name \<in> set (pointed_values s') \<Longrightarrow> name \<in> set (pointed_values ?s)"
    using declaresD [OF value_declares [OF assms(2)]] by blast
  note a = advancesD [OF s'(2)]
  have "tables_ok P ctx s'"
    using state_ok_advances [OF ok s'(2,3)] a(5) assms(1) advances_errors [OF s'(2)] by (auto simp: tables_ok_def)
  moreover have "remaining ctx s' \<subseteq> remaining ctx s" using a(2,3) by (auto simp: remaining_def)
  moreover have "name \<in> remaining ctx s" using assms(3) by (simp add: remaining_def)
  moreover have "name \<notin> remaining ctx s'" using s'(4,5) by (auto simp: remaining_def)
  ultimately show ?thesis using s'(1) by blast
qed

lemma lower_pointed_ok:
  "tables_ok P ctx s \<Longrightarrow> P \<longrightarrow> values_agree ctx \<Longrightarrow> card (remaining ctx s) \<le> rounds \<Longrightarrow> \<exists>s'. lower_pointed rounds ctx s = Some s' \<and> tables_ok P ctx s'"
proof (induction rounds arbitrary: s)
  case 0
  then have "pointed_values s = []" using finite_remaining [of ctx s] by (simp add: remaining_def)
  with 0 show ?case by (subst lower_pointed.simps) simp
next
  case (Suc rounds)
  show ?case
  proof (cases "pointed_values s = []")
    case False
    let ?name = "Min (set (pointed_values s))"
    have name: "?name \<in> set (pointed_values s)" using False by (intro Min_in) simp_all
    then have "representable ctx [] ?name" using Suc.prems(1) by (auto simp: tables_ok_def state_ok_def representables_def)
    then obtain v where v: "map_of (table_models ctx) ?name = Some v" by (rule representable_value)
    from lower_pointed_step [OF Suc.prems(1,2) name, of "alias_position v"] obtain s' where
      s': "lower_table_value value_depth ctx ?name (alias_position v) (s\<lparr>pointed_values := removeAll ?name (pointed_values s)\<rparr>) = Some s'"
      "tables_ok P ctx s'" "remaining ctx s' \<subset> remaining ctx s" by blast
    have "card (remaining ctx s') \<le> rounds" using psubset_card_mono [OF finite_remaining s'(3)] Suc.prems(3) by simp
    with Suc.IH [OF s'(2) Suc.prems(2)] s'(1) v False show ?thesis by (subst lower_pointed.simps) simp
  qed (use Suc.prems in \<open>subst lower_pointed.simps; simp\<close>)
qed

lemma start_ok: "tables_ok P ctx (start_state report)"
  by (simp add: tables_ok_def state_ok_def start_state_def sound_def definitions_sized_def fixed_names_def)

lemma card_keys: "card (keys_of m) \<le> length m"
  using card_length [of "map fst m"] by simp

text \<open>The given types agree with the values: every use by value of a class or enumeration has the size of its definition.\<close>

definition types_agree :: "native_table list \<Rightarrow> target_model \<Rightarrow> bool" where
  "types_agree ns t \<longleftrightarrow> values_agree (table_context_of ns t) \<and> list_all (table_agrees (table_context_of ns t)) ns"

lemma lower_all_ok:
  assumes "P \<longrightarrow> types_agree ns t"
  shows "\<exists>s. lower_all_tables ns t options report = Some s \<and> tables_ok P (table_context_of ns t) s"
proof -
  let ?ctx = "table_context_of ns t"
  have "set (in_table_order ns) \<subseteq> set ns" by (auto simp: in_table_order_def)
  then have agree: "P \<longrightarrow> values_agree ?ctx \<and> list_all (table_agrees ?ctx) (in_table_order ns)"
    using assms by (auto simp: types_agree_def list_all_iff)
  from lower_tables_ok [OF start_ok agree, of
      "report @ first_reports ns t options @ snd (collect_models (concat (map table_values (in_table_order ns))) [])"]
  obtain s where s: "lower_tables ?ctx (in_table_order ns)
      (start_state (report @ first_reports ns t options @ snd (collect_models (concat (map table_values (in_table_order ns))) []))) = Some s"
    "tables_ok P ?ctx s" by blast
  have "remaining ?ctx s \<subseteq> keys_of (table_models ?ctx)"
    using s(2) representables_keys [of ?ctx] by (auto simp: tables_ok_def state_ok_def remaining_def)
  then have "card (remaining ?ctx s) \<le> length (table_models ?ctx)"
    using card_mono [of "keys_of (table_models ?ctx)" "remaining ?ctx s"] card_keys [of "table_models ?ctx"] by simp
  with lower_pointed_ok [OF s(2)] agree have "\<exists>s'. lower_pointed (length (table_models ?ctx)) ?ctx s = Some s' \<and> tables_ok P ?ctx s'" by blast
  then show ?thesis
    unfolding lower_all_tables_def Let_def s(1) by (simp only: bind.bind_lunit)
qed

section \<open>Termination\<close>

text \<open>C35: The lowering of the tables ends. The recursion over values never goes deeper than 65, whatever the given records
  contain, even themselves; every name of a value that is looked up is there; and the
  loop over the values that pointers ask for needs at most as many rounds as there are given values.\<close>

theorem table_lowering_ends:
  "\<exists>s. lower_all_tables ns t options report = Some s"
  using lower_all_ok [of False ns t options report] by blast

section \<open>An example\<close>

text \<open>A table with one function, which takes a pointer to a record that contains another record and an array.\<close>

definition table_place :: source_position where
  "table_place = \<lparr>pos_file = ''api.h'', pos_line = 1, pos_column = 1\<rparr>"

definition plain_type :: "string \<Rightarrow> string \<Rightarrow> string \<Rightarrow> 64 word \<Rightarrow> 64 word \<Rightarrow> declaration_type" where
  "plain_type kind name declaration bytes alignment =
     Declaration_Type name name kind declaration False False bytes None None (-1) None alignment None [] [] False False []"

definition pointer_type :: "declaration_type \<Rightarrow> declaration_type" where
  "pointer_type t = Declaration_Type [] [] ''pointer'' [] False False 8 (Some t) None (-1) None 8 None [] [] False False []"

definition plain_field :: "string \<Rightarrow> declaration_type \<Rightarrow> 64 word \<Rightarrow> value_field_model" where
  "plain_field name t at = \<lparr>member_name = name, member_type = t, offset_bytes = at, is_public = True, is_bitfield = False\<rparr>"

definition plain_record :: "string \<Rightarrow> 64 word \<Rightarrow> 64 word \<Rightarrow> value_field_model list \<Rightarrow> value_model" where
  "plain_record name bytes alignment fs = \<lparr>alias_name = name, alias_attributes = [], target = plain_type ''record'' name name bytes alignment,
     value_align_bytes = alignment, has_bases = False, alias_fields = fs, underlying = plain_type [] [] [] 0 0, alias_cases = [],
     alias_position = table_place, is_union = False, has_virtual_members = False, has_nontrivial_destructor = False\<rparr>"

definition sample_values :: "value_model list" where
  "sample_values =
     [plain_record ''body'' 16 4 [plain_field ''position'' (plain_type ''record'' ''vec'' ''vec'' 8 4) 0,
        plain_field ''ids'' (Declaration_Type ''int[2]'' ''int[2]'' ''array'' [] False False 8 None
          (Some (plain_type ''signed_integer'' ''int'' [] 4 4)) 2 None 4 None [] [] False False []) 8],
      plain_record ''vec'' 8 4 [plain_field ''x'' (plain_type ''floating_point'' ''float'' [] 4 4) 0,
        plain_field ''y'' (plain_type ''floating_point'' ''float'' [] 4 4) 4]]"

definition sample_function :: declaration_type where
  "sample_function = Declaration_Type [] [] ''function'' [] False False 1 None None (-1) None 1
     (Some (plain_type ''record'' ''vec'' ''vec'' 8 4)) [pointer_type (plain_type ''record'' ''body'' ''body'' 16 4)] ''c'' False True ''noexcept''"

definition sample_table :: native_table where
  "sample_table = \<lparr>table_alias = ''api'', managed_name = ''Api'', version_field = ''version'', size_field = ''bytes'',
     version_expression = ''api_version'', table_version = 1,
     table_record = plain_record ''api'' 16 8 [plain_field ''version'' (plain_type ''signed_integer'' ''int'' [] 4 4) 0,
       plain_field ''bytes'' (plain_type ''signed_integer'' ''int'' [] 4 4) 4, plain_field ''move'' (pointer_type sample_function) 8],
     table_values = sample_values, table_position = table_place\<rparr>"

definition sample_table_target :: target_model where
  "sample_table_target = \<lparr>triple = ''x86_64-linux'', pointer_width = 64\<rparr>"

definition sample_table_options :: table_options where
  "sample_table_options = \<lparr>table_module = ''game'', managed_namespace = ''Game''\<rparr>"

lemma sample_lowered:
  "\<exists>s. lower_all_tables [sample_table] sample_table_target sample_table_options [] = Some s \<and> \<not> has_errors (table_report s) \<and>
     map definition_name (table_definitions s) = [''vec'', ''body_ids_Array'', ''body'']"
proof -
  have "case lower_all_tables [sample_table] sample_table_target sample_table_options [] of None \<Rightarrow> False
    | Some s \<Rightarrow> \<not> has_errors (table_report s) \<and> map definition_name (table_definitions s) = [''vec'', ''body_ids_Array'', ''body'']"
    by code_simp
  then show ?thesis by (simp split: option.splits)
qed

section \<open>Declarations\<close>

text \<open>C33: The F# file declares every type before it is used, and every name once. If there is no error, each declared array,
  record and enumeration is made of types of F# and of those declared before it, each delegate of types of F# and
  declared ones; and the names of declarations, bindings, delegates and helper functions are all different.\<close>

theorem fsharp_declarations_in_order:
  assumes "lower_all_tables ns t options report = Some s" "\<not> has_errors (table_report s)"
  shows "in_order [] (table_definitions s) \<and>
    list_all (function_known (table_definitions s)) (concat (map table_functions (table_layouts s))) \<and>
    distinct (map definition_name (table_definitions s) @ fixed_names @ concat (map layout_names (table_layouts s)))"
proof -
  have "tables_ok False (table_context_of ns t) s" using lower_all_ok [of False ns t options report] assms(1) by simp
  then show ?thesis using assms(2) unfolding tables_ok_def state_ok_def sound_def by blast
qed

theorem fsharp_declarations_in_order_witness:
  "\<exists>s. lower_all_tables [sample_table] sample_table_target sample_table_options [] = Some s \<and>
     map definition_name (table_definitions s) = [''vec'', ''body_ids_Array'', ''body''] \<and> in_order [] (table_definitions s)"
proof -
  obtain s where s: "lower_all_tables [sample_table] sample_table_target sample_table_options [] = Some s" "\<not> has_errors (table_report s)"
    "map definition_name (table_definitions s) = [''vec'', ''body_ids_Array'', ''body'']"
    using sample_lowered by (elim exE conjE) (rule that)
  with fsharp_declarations_in_order [OF s(1,2)] show ?thesis by (intro exI [of _ s] conjI) simp_all
qed

lemma declared_size_unique:
  assumes "distinct (map definition_name ds)" "(x, n) \<in> set (declared_sizes tgt ds)"
  shows "map_of (declared_sizes tgt ds) x = Some n"
proof (rule map_of_is_SomeI [OF _ assms(2)])
  have "fs_name x = fs_name y \<longleftrightarrow> x = y" for x y by (simp add: fs_name_def)
  then have "inj_on fs_name (set (map definition_name ds))" by (simp add: inj_on_def)
  with assms(1) have "distinct (map fs_name (map definition_name ds))" by (simp only: distinct_map)
  moreover have "distinct (map fst (builtin_sizes tgt))" by (simp add: builtin_sizes_def)
  moreover have "fs_name x \<notin> fst ` set (builtin_sizes tgt)" for x by (simp add: builtin_sizes_def fs_name_def)
  then have "fst ` set (builtin_sizes tgt) \<inter> fs_name ` definition_name ` set ds = {}" by (metis (no_types, lifting) disjoint_iff imageE)
  ultimately show "distinct (map fst (declared_sizes tgt ds))" by (simp add: declared_sizes_def o_def image_image)
qed

text \<open>C34: The declarations for F# have the layout of the C++ types. If there is no error, the fields of every declared record lie
  one behind the other at multiples of their alignment within the size of the record, although the sizes are computed
  with 64 bits; the elements of every array fill it; and a table reads its version and its size at 0 and 4, and
  each of its functions, of which there is at least one, at a multiple of the size of a pointer between 8 and the end of the table.
  The bytes counted for a field, an element or an enumeration are those with which its F# type is declared
  (a number by its name, \<open>nativeint\<close> as a pointer, a record or an array by its \<open>Size\<close>), provided that the given types agree with each other:
  in fields, elements, results and parameters each class used by value has the size of its
  definition, and each enumeration that of its underlying type, as the compiler that reads the headers reports them.\<close>

theorem fsharp_layouts_fit:
  assumes "lower_all_tables ns t options report = Some s" "\<not> has_errors (table_report s)"
  shows "list_all definition_fits (table_definitions s) \<and> list_all (table_fits t) (table_layouts s) \<and>
    (types_agree ns t \<longrightarrow> (\<forall>d\<in>set (table_definitions s). \<forall>l\<in>set (used_types d).
       map_of (declared_sizes t (table_definitions s)) (type_text l) = Some (type_size l)))"
proof -
  have ok: "tables_ok (types_agree ns t) (table_context_of ns t) s"
    using lower_all_ok [of "types_agree ns t" ns t options report] assms(1) by simp
  have tgt: "table_target (table_context_of ns t) = t" by (simp add: table_context_of_def)
  have "list_all definition_fits (table_definitions s)" "types_agree ns t \<longrightarrow> definitions_sized (table_context_of ns t) s"
    "distinct (map definition_name (table_definitions s))" "list_all (table_fits t) (table_layouts s)"
    using ok assms(2) tgt by (simp_all add: tables_ok_def state_ok_def sound_def)
  then show ?thesis using declared_size_unique unfolding definitions_sized_def tgt by blast
qed

theorem fsharp_layouts_fit_witness:
  "\<exists>s. lower_all_tables [sample_table] sample_table_target sample_table_options [] = Some s \<and>
     map definition_name (table_definitions s) = [''vec'', ''body_ids_Array'', ''body''] \<and>
     list_all definition_fits (table_definitions s) \<and> list_all (table_fits sample_table_target) (table_layouts s) \<and>
     (\<forall>d\<in>set (table_definitions s). \<forall>l\<in>set (used_types d).
       map_of (declared_sizes sample_table_target (table_definitions s)) (type_text l) = Some (type_size l))"
proof -
  have agree: "types_agree [sample_table] sample_table_target" by code_simp
  obtain s where s: "lower_all_tables [sample_table] sample_table_target sample_table_options [] = Some s" "\<not> has_errors (table_report s)"
    "map definition_name (table_definitions s) = [''vec'', ''body_ids_Array'', ''body'']"
    using sample_lowered by (elim exE conjE) (rule that)
  with fsharp_layouts_fit [OF s(1,2)] agree show ?thesis by (intro exI [of _ s] conjI) simp_all
qed

end
