(* ===== verification/Registration_Emit.thy ===== *)
theory Registration_Emit
  imports Interop_Emit
begin

text \<open>
  The registration code that is generated for the classes and enumerations of a header
  (\<open>generator/src/emit.cpp\<close>). A class whose overloaded method has no pointer type throws; this is None. What is emitted is
  the list of the calls that the code makes on its \<open>text_builder\<close>, which counts the lines.
\<close>

section \<open>Building a text\<close>

record text_builder =
  built :: string
  built_lines :: nat

definition add_line :: "string \<Rightarrow> text_builder \<Rightarrow> text_builder" where
  "add_line s b = \<lparr>built = built b @ s @ [CHR 0x0A], built_lines = built_lines b + count_list s (CHR 0x0A) + 1\<rparr>"

definition line_directive :: "nat \<Rightarrow> string \<Rightarrow> string" where
  "line_directive n file = ''#line '' @ show_nat n @ '' \"'' @ file @ ''\"''"

definition point_to :: "source_position \<Rightarrow> text_builder \<Rightarrow> text_builder" where
  "point_to place b = add_line (line_directive (unat (pos_line place)) (pos_file place)) b"

definition point_back :: "string \<Rightarrow> text_builder \<Rightarrow> text_builder" where
  "point_back path b = add_line (line_directive (built_lines b + 2) path) b"

datatype builder_call = Line string | Point_To source_position | Point_Back string

fun perform :: "builder_call \<Rightarrow> text_builder \<Rightarrow> text_builder" where
  "perform (Line s) b = add_line s b"
| "perform (Point_To place) b = point_to place b"
| "perform (Point_Back path) b = point_back path b"

definition build :: "builder_call list \<Rightarrow> string" where
  "build calls = built (fold perform calls \<lparr>built = [], built_lines = 0\<rparr>)"

section \<open>Classes\<close>

definition joined_attributes :: "attribute_use list \<Rightarrow> string" where
  "joined_attributes uses =
     foldl (\<lambda>out u. (if out = [] then [] else out @ '', '') @ attribute_expression u) [] uses"

definition with_attributes :: "attribute_use list \<Rightarrow> string" where
  "with_attributes uses = (if uses = [] then [] else ''.with('' @ joined_attributes uses @ '')'')"

definition incomplete_message :: "class_model \<Rightarrow> string" where
  "incomplete_message c =
     quoted_literal (''reflgen: '' @ apostrophes (class_qualified_name c) @ '' is described in '' @ pos_file (class_position c) @
       '' but is an incomplete type where its description is used. Include that header '' @
       ''before this use; if this is a registration function (reflgen_<module>.cpp), add '' @
       ''it to REGISTRATION_HEADERS (CMake) or ReflgenRegistrationHeaders (MSBuild).'') @ '');''"

definition only_for :: "string \<Rightarrow> string \<Rightarrow> string" where
  "only_for parameter name = ''    requires ::std::same_as<'' @ parameter @ '', ::'' @ name @ ''>''"

definition method_pointer :: "method_model \<Rightarrow> string option" where
  "method_pointer m =
     (let address = ''&T::'' @ method_name m in
      if pointer_type m \<noteq> [] then Some (''static_cast<'' @ pointer_type m @ ''>('' @ address @ '')'')
      else if is_overloaded m then None else Some address)"

text \<open>What a schema lists, with the position at which a compiler reports its errors.\<close>

definition base_entry :: "type_reference \<Rightarrow> string \<times> source_position option" where
  "base_entry b = (''::reflgen::base<::'' @ reference_qualified_name b @ ''>'', None)"

definition field_entry :: "field_model \<Rightarrow> string \<times> source_position option" where
  "field_entry f =
     ((if field_accessor f
       then ''::reflgen::accessor_field<T, [](auto& object) noexcept -> decltype(auto) { return (object.'' @ field_name f @
         ''); }>.named(\"'' @ field_name f @ ''\")''
       else ''::reflgen::field<&T::'' @ field_name f @ ''>.named(\"'' @ field_name f @ ''\")'') @
      with_attributes (field_attributes f), Some (field_position f))"

definition method_entry :: "method_model \<Rightarrow> (string \<times> source_position option) option" where
  "method_entry m = map_option (\<lambda>pointer.
     (''::reflgen::method<'' @ pointer @ ''>.named(\"'' @ method_name m @ ''\")'' @
      (if method_parameters m = [] then []
       else ''.parameters('' @ separated '', '' (map (\<lambda>p. ''\"'' @ p @ ''\"'') (method_parameters m)) @ '')'') @
      with_attributes (method_attributes m), Some (method_position m)))
     (method_pointer m)"

definition schema_entries :: "class_model \<Rightarrow> (string \<times> source_position option) list option" where
  "schema_entries c = map_option (\<lambda>ms. map base_entry (bases c) @ map field_entry (fields_of c) @ ms)
     (those (map method_entry (methods_of c)))"

fun entry_calls :: "(string \<times> source_position option) list \<Rightarrow> builder_call list" where
  "entry_calls [] = []"
| "entry_calls ((text, place) # es) =
     (case place of None \<Rightarrow> [] | Some p \<Rightarrow> [Point_To p]) @
     [Line (''            '' @ text @ (if es = [] then [] else '',''))] @ entry_calls es"

definition schema_calls :: "(string \<times> source_position option) list \<Rightarrow> string \<Rightarrow> builder_call list" where
  "schema_calls es path =
     (if es = [] then [Line ''        return ::reflgen::schema<T>()'']
      else [Line ''        return ::reflgen::schema<T>('' ] @ entry_calls es @
        (if list_ex (\<lambda>e. snd e \<noteq> None) es then [Point_Back path] else []) @ [Line ''        )''])"

definition tail_calls :: "class_model \<Rightarrow> string \<Rightarrow> builder_call list" where
  "tail_calls c path =
     (let tail = ''            .named('' @ class_schema_name c @ '')'' in
      case class_attributes c of
        [] \<Rightarrow> [Line (tail @ '';'')]
      | a # as \<Rightarrow> [Line tail, Point_To (attribute_position a),
          Line (''            .with('' @ joined_attributes (a # as) @ '');''), Point_Back path])"

definition position_comment :: "string \<Rightarrow> source_position \<Rightarrow> builder_call" where
  "position_comment name place =
     Line (''// '' @ name @ '' - '' @ pos_file place @ ''('' @ show_nat (unat (pos_line place)) @ '')'')"

definition emit_class :: "class_model \<Rightarrow> string \<Rightarrow> builder_call list option" where
  "emit_class c path = map_option (\<lambda>es.
     [position_comment (class_qualified_name c) (class_position c), Line ''template<class T>'',
      Line (only_for ''T'' (class_qualified_name c)), Line ''struct reflgen::access::describer<T>'', Line ''{'',
      Line ''    static consteval auto describe()'', Line ''    {''] @
     map (\<lambda>name. Line (''        using namespace '' @ name @ '';'')) (class_namespaces c) @
     [Line ''        // clang-format off''] @ schema_calls es path @ tail_calls c path @
     [Line ''        // clang-format on'', Line ''    }'', Line ''};'', Line [], Line ''template<class T>'',
      Line (only_for ''T'' (class_qualified_name c)),
      Line (if runtime_only c then ''struct reflgen::runtime_schema<T>'' else ''struct reflgen::reflection<T>''), Line ''{'',
      Line ''    static_assert(::reflgen::detail::complete_type<T>,'', Line (''        '' @ incomplete_message c),
      Line ''    static constexpr auto value = ::reflgen::detail::generated_description<T>();'', Line ''};'', Line []])
     (schema_entries c)"

section \<open>Enumerations\<close>

definition enumerator_lines :: "string list \<Rightarrow> builder_call list" where
  "enumerator_lines names = map (\<lambda>(i, name). Line (''        ::reflgen::enum_entry<E>{\"'' @ name @ ''\", E::'' @ name @ ''}'' @
     (if i + 1 < length names then '','' else []))) (enumerate 0 names)"

definition emit_enum :: "enum_model \<Rightarrow> builder_call list" where
  "emit_enum e =
     [position_comment (enum_qualified_name e) (enum_position e), Line ''template<class E>'', Line (only_for ''E'' (enum_qualified_name e)),
      Line ''struct reflgen::reflection<E>'', Line ''{''] @
     (if enumerators e = [] then [Line ''    static constexpr std::array<::reflgen::enum_entry<E>, 0> value{};'']
      else [Line ''    static constexpr std::array value = {''] @ enumerator_lines (enumerators e) @ [Line ''    };'']) @
     [Line ''};'', Line []]"

section \<open>Forward declarations\<close>

definition class_reason :: "class_model \<Rightarrow> string option" where
  "class_reason c =
     (if required_header_reason c \<noteq> [] then Some (required_header_reason c)
      else if class_nested c then Some (apostrophes (class_qualified_name c) @ '' is declared inside a class'')
      else if external_names c \<noteq> []
      then Some (''attribute arguments of '' @ apostrophes (class_qualified_name c) @ '' use '' @ apostrophes (hd (external_names c)))
      else map_option (\<lambda>b. ''the base '' @ apostrophes (reference_qualified_name b) @ '' of '' @ apostrophes (class_qualified_name c) @
          '' cannot be forward-declared'')
        (find (\<lambda>b. reference_nested b \<or> templated b) (bases c)))"

definition enum_reason :: "enum_model \<Rightarrow> string option" where
  "enum_reason e =
     (if enum_nested e then Some (apostrophes (enum_qualified_name e) @ '' is declared inside a class'')
      else if \<not> scoped e \<and> underlying_type e = []
      then Some (''the unscoped enum '' @ apostrophes (enum_qualified_name e) @ '' has no fixed underlying type'')
      else None)"

text \<open>The first reason why the header must be included; none if forward declarations are enough.\<close>

definition source_needed :: "header_model \<Rightarrow> string option" where
  "source_needed h =
     (case List.map_filter class_reason (classes h) @ List.map_filter enum_reason (enums h) of [] \<Rightarrow> None | r # rs \<Rightarrow> Some r)"

definition innermost :: "string list \<Rightarrow> string" where
  "innermost namespaces = (if namespaces = [] then [] else last namespaces)"

definition class_declarations :: "class_model \<Rightarrow> (string \<times> string) list" where
  "class_declarations c =
     map (\<lambda>b. (enclosing_namespace b, reference_class_key b @ '' '' @ reference_name b @ '';'')) (bases c) @
     [(innermost (class_namespaces c), class_key c @ '' '' @ class_name c @ '';'')]"

definition enum_declaration :: "enum_model \<Rightarrow> string \<times> string" where
  "enum_declaration e =
     (innermost (enum_namespaces e), (if scoped e then ''enum class '' else ''enum '') @ enum_short_name e @
      (if underlying_type e = [] then [] else '' : '' @ underlying_type e) @ '';'')"

definition forward_declarations :: "header_model \<Rightarrow> (string \<times> string) list" where
  "forward_declarations h = concat (map class_declarations (classes h)) @ map enum_declaration (enums h)"

text \<open>The lines of a namespace, each once, in the order in which they were added.\<close>

definition declared_in :: "string \<Rightarrow> (string \<times> string) list \<Rightarrow> string list" where
  "declared_in enclosing ds = rev (remdups (rev (map snd (filter (\<lambda>d. fst d = enclosing) ds))))"

definition namespace_calls :: "(string \<times> string) list \<Rightarrow> string \<Rightarrow> builder_call list" where
  "namespace_calls ds enclosing =
     (if enclosing = [] then map Line (declared_in enclosing ds)
      else [Line (''namespace '' @ enclosing), Line ''{''] @ map (\<lambda>l. Line (''    '' @ l)) (declared_in enclosing ds) @
        [Line (''} // namespace '' @ enclosing)])"

definition emit_forward_declarations :: "header_model \<Rightarrow> builder_call list" where
  "emit_forward_declarations h =
     (let ds = forward_declarations h in concat (map (namespace_calls ds) (sorted_list_of_set (fst ` set ds))) @ [Line []])"

section \<open>Files\<close>

definition registrations :: "header_model list \<Rightarrow> builder_call list" where
  "registrations hs = concat (map (\<lambda>h. map (\<lambda>c. Line (''        target.add<::'' @ class_qualified_name c @ ''>();'')) (classes h)) hs)"

definition emit_registration :: "string \<Rightarrow> header_model list \<Rightarrow> builder_call list" where
  "emit_registration name hs =
     [Line [], Line ''namespace reflgen::generated'', Line ''{'', Line (''    void register_'' @ name @ ''(::reflgen::registry& target)''),
      Line ''    {''] @ registrations hs @
     (if registrations hs = [] then [Line ''        static_cast<void>(target);''] else []) @
     [Line ''    }'', Line [], Line (''    void register_'' @ name @ ''()''), Line ''    {'',
      Line (''        register_'' @ name @ ''(::reflgen::default_registry());''), Line ''    }'', Line ''} // namespace reflgen::generated'']"

definition banner :: string where
  "banner = ''// <auto-generated/> Generated by reflgen. Do not edit; edit the source header instead.''"

definition include_line :: "string \<Rightarrow> builder_call" where
  "include_line path = Line (''#include \"'' @ path @ ''\"'')"

definition import_line :: "string \<Rightarrow> builder_call" where
  "import_line name = Line (''import '' @ name @ '';'')"

definition emit_types :: "header_model \<Rightarrow> string \<Rightarrow> builder_call list option" where
  "emit_types h path =
     map_option (\<lambda>cs. concat (map emit_enum (enums h)) @ concat cs) (those (map (\<lambda>c. emit_class c path) (classes h)))"

definition header_calls :: "header_model \<Rightarrow> string \<Rightarrow> builder_call list option" where
  "header_calls h path = map_option (\<lambda>types.
     [Line banner, Line (''// source: '' @ header_path h), Line ''#pragma once'', include_line ''reflgen/generated.h''] @
     (case source_needed h of
        None \<Rightarrow> [Line []] @ emit_forward_declarations h
      | Some reason \<Rightarrow> [Line (''// The source header is included because '' @ reason @ ''.''), include_line (header_path h), Line []]) @
     types)
     (emit_types h path)"

definition emit_header :: "header_model \<Rightarrow> string \<Rightarrow> string option" where
  "emit_header h path = map_option build (header_calls h path)"

definition generated_code_format :: nat where
  "generated_code_format = 2"

definition emit_module_header :: "string \<Rightarrow> string list \<Rightarrow> string list \<Rightarrow> string" where
  "emit_module_header name generated_paths attribute_headers =
     (let format = show_nat generated_code_format in build (
     [Line banner,
      Line (''// Force-included into every translation unit of module '' @ apostrophes name @
        '' by the build system; source headers never include it.''),
      Line ''#pragma once'', include_line ''reflgen/core/version.h'', include_line ''reflgen/generated.h'',
      Line (''static_assert(::reflgen::generated_code_format == '' @ format @ '',''),
      Line (''              \"reflgen: this code was generated for generated code format '' @ format @
        '', but the reflgen headers expect another format; regenerate it with the reflgen generator that '' @
        ''matches these headers\");'')] @
     map include_line attribute_headers @ map include_line generated_paths @
     [Line [], Line ''namespace reflgen::generated'', Line ''{'',
      Line (''    // Registers every [[reflgen::reflect]] class of module '' @ apostrophes name @ '' in target.''),
      Line ''    // Call it once at startup before reading polymorphic pointers.'',
      Line (''    void register_'' @ name @ ''(::reflgen::registry& target);''),
      Line ''    // Same as above, in reflgen::default_registry().'',
      Line (''    void register_'' @ name @ ''();''), Line ''} // namespace reflgen::generated'']))"

definition emit_module_source :: "string \<Rightarrow> header_model list \<Rightarrow> string list \<Rightarrow> string" where
  "emit_module_source name hs registration_headers = build (
     [Line banner, include_line (''reflgen_'' @ name @ ''.h'')] @
     (if list_ex (\<lambda>h. classes h \<noteq> []) hs then map include_line registration_headers else []) @
     [include_line ''reflgen/runtime/registry.h''] @
     map (\<lambda>h. include_line (header_path h)) (filter (\<lambda>h. classes h \<noteq> []) hs) @
     emit_registration name hs)"

section \<open>Files for compiled module interfaces\<close>

definition emit_ifc_header :: "header_model \<Rightarrow> string \<Rightarrow> string \<Rightarrow> string \<Rightarrow> string list \<Rightarrow> string option" where
  "emit_ifc_header h imported registration path attribute_imports = map_option (\<lambda>types. build (
     [Line banner, Line ''#pragma once'', include_line ''reflgen/generated.h'', import_line imported] @
     map import_line attribute_imports @ types @
     [Line ''namespace reflgen::generated {'', Line (''    void register_'' @ registration @ ''(::reflgen::registry&);''),
      Line (''    void register_'' @ registration @ ''();''), Line ''}'']))
     (emit_types h path)"

definition emit_ifc_source :: "header_model \<Rightarrow> string \<Rightarrow> string \<Rightarrow> string \<Rightarrow> string list \<Rightarrow> string list \<Rightarrow> string" where
  "emit_ifc_source h imported registration schema_text registration_headers registration_imports = build (
     [Line banner, Line (''// schema: '' @ show_nat (unat (fnv1a schema_text))), include_line ''reflgen/runtime/registry.h'',
      import_line imported] @
     (if classes h \<noteq> [] then map import_line registration_imports else []) @
     [include_line (''reflgen_'' @ registration @ ''.h'')] @
     (if classes h \<noteq> [] then map include_line registration_headers else []) @
     emit_registration registration [h])"

definition emit_ifc_module_interface ::
  "header_model \<Rightarrow> string \<Rightarrow> string \<Rightarrow> string \<Rightarrow> string \<Rightarrow> string list \<Rightarrow> string option" where
  "emit_ifc_module_interface h imported interface registration path attribute_imports = map_option (\<lambda>types. build (
     [Line ''// <auto-generated/> Generated by reflgen IFC. Do not edit.'', Line ''module;'',
      include_line ''reflgen/generated.h'', include_line ''reflgen/runtime/registry.h'',
      Line (''export module '' @ interface @ '';''), import_line imported] @
     map import_line attribute_imports @
     [Line (''static_assert(::reflgen::generated_code_format == '' @ show_nat generated_code_format @
        '', \"reflgen generated code format mismatch\");''), Line ''export {''] @
     types @
     [Line ''namespace reflgen::generated {'', Line (''void register_'' @ registration @ ''(::reflgen::registry& target) {'')] @
     map (\<lambda>c. Line (''    target.add<::'' @ class_qualified_name c @ ''>();'')) (classes h) @
     [Line ''    static_cast<void>(target);'', Line ''}'',
      Line (''void register_'' @ registration @ ''() { register_'' @ registration @ ''(::reflgen::default_registry()); }''),
      Line ''}'', Line ''}'']))
     (emit_types h path)"

end
