(* ===== verification/Registration_Lines.thy ===== *)
theory Registration_Lines
  imports Registration_Emit
begin

text \<open>
  The places at which a compiler reports the lines of the registration code: what \<open>#line\<close> means to a
  compiler, and that the lines which the text builder counts make every description of a member point to
  the declaration of the member and every other line to itself.
\<close>

section \<open>Lines\<close>

text \<open>The lines of a text, each ended by a newline.\<close>

function file_lines :: "string \<Rightarrow> string list" where
  "file_lines s =
     (if s = [] then [] else takeWhile (\<lambda>c. c \<noteq> CHR 0x0A) s # file_lines (tl (dropWhile (\<lambda>c. c \<noteq> CHR 0x0A) s)))"
  by pat_completeness auto
termination
proof (relation "measure length")
  fix s :: string
  assume "s \<noteq> []"
  moreover have "length (dropWhile (\<lambda>c. c \<noteq> CHR 0x0A) s) \<le> length s" by (rule length_dropWhile_le)
  ultimately show "(tl (dropWhile (\<lambda>c. c \<noteq> CHR 0x0A) s), s) \<in> measure length" by (cases s) auto
qed simp

declare file_lines.simps [simp del]

lemma file_lines_Nil [simp]: "file_lines [] = []"
  by (simp add: file_lines.simps)

lemma file_lines_row: "CHR 0x0A \<notin> set s \<Longrightarrow> file_lines (s @ CHR 0x0A # r) = s # file_lines r"
proof -
  assume "CHR 0x0A \<notin> set s"
  then have "takeWhile (\<lambda>c. c \<noteq> CHR 0x0A) (s @ CHR 0x0A # r) = s" "dropWhile (\<lambda>c. c \<noteq> CHR 0x0A) (s @ CHR 0x0A # r) = CHR 0x0A # r"
    by (auto simp: takeWhile_append dropWhile_append)
  then show ?thesis by (subst file_lines.simps) simp
qed

lemma row_cases [case_names no_newline newline]:
  assumes "CHR 0x0A \<notin> set s \<Longrightarrow> P" "\<And>row rest. s = row @ CHR 0x0A # rest \<Longrightarrow> CHR 0x0A \<notin> set row \<Longrightarrow> P"
  shows P
  using assms split_list_first [of "CHR 0x0A" s] by metis

lemma file_lines_append: "file_lines (s @ CHR 0x0A # r) = file_lines (s @ [CHR 0x0A]) @ file_lines r"
proof (induction s rule: length_induct)
  case (1 s)
  show ?case
  proof (cases s rule: row_cases)
    case no_newline
    then show ?thesis by (simp add: file_lines_row)
  next
    case (newline row rest)
    then have "length rest < length s" by simp
    with 1 newline show ?thesis by (simp add: file_lines_row)
  qed
qed

lemma count_lines: "length (file_lines (s @ [CHR 0x0A])) = count_list s (CHR 0x0A) + 1"
proof (induction s rule: length_induct)
  case (1 s)
  show ?case
  proof (cases s rule: row_cases)
    case no_newline
    then show ?thesis by (simp add: file_lines_row)
  next
    case (newline row rest)
    then have "length rest < length s" by simp
    with 1 newline show ?thesis by (simp add: file_lines_row count_list_append)
  qed
qed

section \<open>What a compiler reports\<close>

text \<open>A directive \<open>#line\<close> with a number and the name of a file, as the preprocessor reads it; a name with escapes is not read.\<close>

definition is_space :: "char \<Rightarrow> bool" where
  "is_space c \<longleftrightarrow> c = CHR '' '' \<or> c = CHR 0x09"

definition read_directive :: "string \<Rightarrow> (nat \<times> string) option" where
  "read_directive row =
     (let s = dropWhile is_space row; digits = takeWhile is_digit (drop 6 s); rest = dropWhile is_digit (drop 6 s);
        file = butlast (drop 2 rest) in
      if take 6 s = ''#line '' \<and> digits \<noteq> [] \<and> take 2 rest = '' \"'' \<and> drop 2 rest \<noteq> [] \<and> last (drop 2 rest) = CHR 0x22 \<and>
         CHR 0x22 \<notin> set file \<and> CHR 0x5C \<notin> set file
      then Some (decimal_value digits, file) else None)"

text \<open>The place that is reported for each line, from the place of the first one on.\<close>

fun presumed :: "string \<times> nat \<Rightarrow> string list \<Rightarrow> (string \<times> nat) list" where
  "presumed place [] = []"
| "presumed place (row # rows) = place #
     presumed (case read_directive row of None \<Rightarrow> (fst place, snd place + 1) | Some (n, file) \<Rightarrow> (file, n)) rows"

definition plain_file :: "string \<Rightarrow> bool" where
  "plain_file f \<longleftrightarrow> CHR 0x22 \<notin> set f \<and> CHR 0x5C \<notin> set f \<and> CHR 0x0A \<notin> set f"

lemma read_line_directive:
  assumes "plain_file f"
  shows "read_directive (line_directive n f) = Some (n, f)"
proof -
  have digits: "\<forall>c \<in> set (show_nat n). is_digit c" by (auto dest: show_nat_digits)
  have rest: "\<not> is_digit (CHR '' '')" by (simp add: is_digit_def code_of_def)
  have "takeWhile is_digit (show_nat n @ CHR '' '' # CHR 0x22 # f @ [CHR 0x22]) = show_nat n"
    "dropWhile is_digit (show_nat n @ CHR '' '' # CHR 0x22 # f @ [CHR 0x22]) = CHR '' '' # CHR 0x22 # f @ [CHR 0x22]"
    using digits rest by (simp_all add: takeWhile_append dropWhile_append)
  then show ?thesis using assms
    by (simp add: read_directive_def line_directive_def is_space_def plain_file_def Let_def butlast_append)
qed

lemma line_directive_newline: "plain_file f \<Longrightarrow> CHR 0x0A \<notin> set (line_directive n f)"
  using show_nat_digits [of "CHR 0x0A" n] by (auto simp: line_directive_def plain_file_def is_digit_def code_of_def)

section \<open>Texts without directives\<close>

text \<open>
  No line of a text begins with \<open>#\<close>, after blanks; the flag says that what precedes the text on its
  first line is blank.
\<close>

fun clean :: "bool \<Rightarrow> string \<Rightarrow> bool" where
  "clean b [] = True"
| "clean b (c # s) =
     (if c = CHR 0x0A then clean True s else \<not> (b \<and> c = CHR ''#'') \<and> clean (b \<and> is_space c) s)"

abbreviation clean_text :: "string \<Rightarrow> bool" where
  "clean_text s \<equiv> clean True s"

lemma clean_mono: "clean True s \<Longrightarrow> clean b s"
proof (induction s arbitrary: b)
  case (Cons c s)
  then show ?case by (cases b; cases "is_space c") (auto split: if_splits)
qed simp

lemma clean_append: "clean b s \<Longrightarrow> clean_text t \<Longrightarrow> clean b (s @ t)"
  by (induction s arbitrary: b) (auto simp: clean_mono split: if_splits)

lemma clean_directive: "clean b row \<Longrightarrow> b \<Longrightarrow> read_directive row = None"
proof -
  assume "clean b row" "b"
  then have "take 1 (dropWhile is_space row) \<noteq> ''#''"
    by (induction row arbitrary: b) (auto simp: is_space_def split: if_splits)
  then have "take 6 (dropWhile is_space row) \<noteq> ''#line ''"
    by (cases "dropWhile is_space row") (auto simp del: dropWhile_eq_Nil_conv)
  then show ?thesis by (simp add: read_directive_def Let_def)
qed

lemma clean_rows: "CHR 0x0A \<notin> set row \<Longrightarrow> clean b (row @ CHR 0x0A # rest) \<longleftrightarrow> clean b row \<and> clean_text rest"
  by (induction row arbitrary: b) (auto split: if_splits)

lemma clean_lines: "clean_text s \<Longrightarrow> row \<in> set (file_lines (s @ [CHR 0x0A])) \<Longrightarrow> read_directive row = None"
proof (induction s rule: length_induct)
  case (1 s)
  show ?case
  proof (cases s rule: row_cases)
    case no_newline
    then have "row = s" using 1(3) by (simp add: file_lines_row)
    with 1(2) show ?thesis by (simp add: clean_directive)
  next
    case (newline first rest)
    then have less: "length rest < length s" and c: "clean_text first" "clean_text rest" using 1(2) by (simp_all add: clean_rows)
    have "row = first \<or> row \<in> set (file_lines (rest @ [CHR 0x0A]))" using 1(3) newline by (simp add: file_lines_row)
    then show ?thesis using 1(1) less c by (auto simp: clean_directive)
  qed
qed

section \<open>Calls\<close>

text \<open>
  The places that the calls ask for: those of the source after \<open>point_to\<close>, of as many lines as the next text has, and
  otherwise the line of the generated file itself. Nothing is asked for the directives.
\<close>

definition places_from :: "string \<Rightarrow> nat \<Rightarrow> nat \<Rightarrow> (string \<times> nat) option list" where
  "places_from file first k = map (\<lambda>i. Some (file, first + i)) [0..<k]"

definition row_count :: "string \<Rightarrow> nat" where
  "row_count s = count_list s (CHR 0x0A) + 1"

fun intended :: "string \<Rightarrow> nat \<Rightarrow> source_position option \<Rightarrow> builder_call list \<Rightarrow> (string \<times> nat) option list" where
  "intended path n aim [] = []"
| "intended path n aim (Line s # calls) =
     (case aim of None \<Rightarrow> places_from path n (row_count s) | Some p \<Rightarrow> places_from (pos_file p) (unat (pos_line p)) (row_count s)) @
     intended path (n + row_count s) None calls"
| "intended path n aim (Point_To p # calls) = None # intended path (n + 1) (Some p) calls"
| "intended path n aim (Point_Back f # calls) = None # intended path (n + 1) None calls"

definition as_intended :: "(string \<times> nat) list \<Rightarrow> (string \<times> nat) option list \<Rightarrow> bool" where
  "as_intended reported wanted \<longleftrightarrow> list_all2 (\<lambda>r w. w = None \<or> w = Some r) reported wanted"

text \<open>
  What must follow what: after the text that \<open>point_to\<close> is for, the next one is pointed to the source or back.
\<close>

datatype aiming = Own | Aimed source_position | Away

fun aiming_after :: "string \<Rightarrow> builder_call list \<Rightarrow> aiming \<Rightarrow> aiming option" where
  "aiming_after path [] m = Some m"
| "aiming_after path (Line s # calls) m =
     (case m of Own \<Rightarrow> aiming_after path calls Own | Aimed p \<Rightarrow> aiming_after path calls Away | Away \<Rightarrow> None)"
| "aiming_after path (Point_To p # calls) m =
     (case m of Aimed q \<Rightarrow> None | _ \<Rightarrow> aiming_after path calls (Aimed p))"
| "aiming_after path (Point_Back f # calls) m =
     (if f = path \<and> (m = Own \<or> m = Away) then aiming_after path calls Own else None)"

lemma aiming_append: "aiming_after path (as @ bs) m = Option.bind (aiming_after path as m) (aiming_after path bs)"
  by (induction path as m rule: aiming_after.induct) (auto split: aiming.split)

fun undirected :: "builder_call \<Rightarrow> bool" where
  "undirected (Line s) \<longleftrightarrow> list_all (\<lambda>row. read_directive row = None) (file_lines (s @ [CHR 0x0A]))"
| "undirected (Point_To p) \<longleftrightarrow> plain_file (pos_file p)"
| "undirected (Point_Back f) \<longleftrightarrow> plain_file f"

fun rendered :: "nat \<Rightarrow> builder_call list \<Rightarrow> string" where
  "rendered n [] = []"
| "rendered n (Line s # calls) = s @ CHR 0x0A # rendered (n + row_count s) calls"
| "rendered n (Point_To p # calls) = line_directive (unat (pos_line p)) (pos_file p) @ CHR 0x0A # rendered (n + 1) calls"
| "rendered n (Point_Back f # calls) = line_directive (n + 1) f @ CHR 0x0A # rendered (n + 1) calls"

lemma directive_rows: "plain_file f \<Longrightarrow> count_list (line_directive n f) (CHR 0x0A) = 0"
  by (simp add: line_directive_newline count_list_0_iff)

lemma build_rendered:
  assumes "list_all undirected calls"
  shows "built (fold perform calls b) = built b @ rendered (built_lines b + 1) calls"
  using assms
proof (induction calls arbitrary: b)
  case (Cons call calls)
  then show ?case
    by (cases call) (simp_all add: add_line_def point_to_def point_back_def row_count_def directive_rows)
qed simp

lemma presumed_undirected:
  assumes "list_all (\<lambda>row. read_directive row = None) rows"
  shows "presumed (file, n) (rows @ tail) = map (\<lambda>i. (file, n + i)) [0..<length rows] @ presumed (file, n + length rows) tail"
  using assms
proof (induction rows arbitrary: n)
  case (Cons row rows)
  have "map (\<lambda>i. (file, n + i)) [0..<Suc (length rows)] = (file, n) # map (\<lambda>i. (file, Suc n + i)) [0..<length rows]"
    by (simp add: upt_conv_Cons map_Suc_upt [symmetric] del: upt_Suc map_Suc_upt)
  with Cons show ?case by simp
qed simp

lemma as_intended_Nil [simp]: "as_intended [] []"
  by (simp add: as_intended_def)

lemma as_intended_None [simp]: "as_intended (r # rs) (None # ws) \<longleftrightarrow> as_intended rs ws"
  by (simp add: as_intended_def)

lemma as_intended_places:
  "as_intended rs ws \<Longrightarrow> as_intended (map (\<lambda>i. (file, n + i)) [0..<k] @ rs) (places_from file n k @ ws)"
  by (auto simp: as_intended_def places_from_def list_all2_map1 list_all2_map2 list_all2_refl intro!: list_all2_appendI)

fun standing :: "string \<Rightarrow> nat \<Rightarrow> aiming \<Rightarrow> string \<times> nat \<Rightarrow> source_position option \<Rightarrow> bool" where
  "standing path n Own place aim \<longleftrightarrow> place = (path, n) \<and> aim = None"
| "standing path n (Aimed p) place aim \<longleftrightarrow> place = (pos_file p, unat (pos_line p)) \<and> aim = Some p"
| "standing path n Away place aim \<longleftrightarrow> aim = None"

lemma reported_as_intended:
  assumes "list_all undirected calls" "aiming_after path calls m = Some m'" "standing path n m place aim"
  shows "as_intended (presumed place (file_lines (rendered n calls))) (intended path n aim calls)"
  using assms
proof (induction calls arbitrary: n m place aim)
  case (Cons call calls)
  show ?case
  proof (cases call)
    case (Line s)
    let ?rows = "file_lines (s @ [CHR 0x0A])"
    have rows: "list_all (\<lambda>row. read_directive row = None) ?rows" "length ?rows = row_count s"
      using Cons.prems(1) Line by (simp_all add: count_lines row_count_def)
    obtain g k where place: "place = (g, k)" by (cases place)
    have own: "m = Own \<Longrightarrow> ?thesis"
      using Cons.IH [of Own "n + row_count s" "(path, n + row_count s)" None] Cons.prems Line place rows presumed_undirected [OF rows(1)]
      by (simp add: file_lines_append [of s "rendered n calls" for n] as_intended_places)
    have aimed: "m = Aimed p \<Longrightarrow> ?thesis" for p
      using Cons.IH [of Away "n + row_count s" "(g, k + row_count s)" None] Cons.prems Line place rows presumed_undirected [OF rows(1)]
      by (simp add: file_lines_append [of s "rendered n calls" for n] as_intended_places)
    show ?thesis using own aimed Cons.prems(2) Line by (cases m) auto
  next
    case (Point_To p)
    with Cons.IH [of "Aimed p" "n + 1" "(pos_file p, unat (pos_line p))" "Some p"] Cons.prems show ?thesis
      by (cases m) (auto simp: file_lines_row line_directive_newline read_line_directive)
  next
    case (Point_Back f)
    with Cons.IH [of Own "n + 1" "(path, n + 1)" None] Cons.prems show ?thesis
      by (auto simp: file_lines_row line_directive_newline read_line_directive split: if_splits)
  qed
qed simp

lemma build_as_intended:
  assumes "list_all undirected calls" "aiming_after path calls Own = Some m"
  shows "as_intended (presumed (path, 1) (file_lines (build calls))) (intended path 1 None calls)"
  using reported_as_intended [OF assms, of 1 "(path, 1)" None] build_rendered [OF assms(1), of "\<lparr>built = [], built_lines = 0\<rparr>"]
  by (simp add: build_def)

section \<open>Texts that are emitted\<close>

lemma clean_False: "clean_text s \<Longrightarrow> clean False s"
  by (rule clean_mono)

lemma undirected_clean: "clean_text s \<Longrightarrow> undirected (Line s)"
  by (auto simp: list_all_iff dest: clean_lines)

lemma undirected_include: "clean False path \<Longrightarrow> undirected (include_line path)"
proof -
  assume path: "clean False path"
  let ?s = "''de \"'' @ path @ ''\"''"
  have s: "clean False ?s" using clean_append [OF path, of "''\"''"] by (simp add: is_space_def)
  have first: "read_directive (''#inclu'' @ row) = None" for row
    by (simp add: read_directive_def is_space_def Let_def)
  have "read_directive row = None" if "row \<in> set (file_lines ((''#inclu'' @ ?s) @ [CHR 0x0A]))" for row
  proof (cases ?s rule: row_cases)
    case no_newline
    then have "file_lines ((''#inclu'' @ ?s) @ [CHR 0x0A]) = [''#inclu'' @ ?s]" using file_lines_row [of "''#inclu'' @ ?s" "[]"] by simp
    with that show ?thesis using first by simp
  next
    case (newline start rest)
    then have lines: "file_lines ((''#inclu'' @ ?s) @ [CHR 0x0A]) = (''#inclu'' @ start) # file_lines (rest @ [CHR 0x0A])"
      using file_lines_row [of "''#inclu'' @ start" "rest @ [CHR 0x0A]"] by simp
    have "clean_text rest" using s clean_rows [OF newline(2)] unfolding newline(1) by simp
    with that show ?thesis unfolding lines using first clean_lines by auto
  qed
  then show ?thesis by (simp add: include_line_def list_all_iff)
qed

lemma clean_concat: "list_all clean_text xs \<Longrightarrow> clean_text (concat xs)"
  by (induction xs) (simp_all add: clean_append)

lemma clean_separated: "clean_text between \<Longrightarrow> list_all clean_text xs \<Longrightarrow> clean_text (separated between xs)"
  by (induction between xs rule: separated.induct) (simp_all add: clean_append)

lemma clean_joined: "list_all (\<lambda>u. clean_text (attribute_expression u)) uses \<Longrightarrow> clean_text (joined_attributes uses)"
proof -
  assume uses: "list_all (\<lambda>u. clean_text (attribute_expression u)) uses"
  have "clean_text out \<Longrightarrow> clean_text (foldl (\<lambda>out u. (if out = [] then [] else out @ '', '') @ attribute_expression u) out uses)" for out
    using uses
  proof (induction uses arbitrary: out)
    case (Cons u uses)
    have "clean_text '', ''" by (simp add: is_space_def)
    with Cons.prems have "clean_text ((if out = [] then [] else out @ '', '') @ attribute_expression u)"
      by (simp add: clean_append del: append_assoc)
    with Cons show ?case by simp
  qed simp
  from this [of "[]"] show ?thesis by (simp add: joined_attributes_def)
qed

lemma clean_escaped: "clean b s \<Longrightarrow> clean b (concat (map (\<lambda>c. if c = CHR 0x5C \<or> c = CHR 0x22 then [CHR 0x5C, c] else [c]) s))"
  by (induction s arbitrary: b) (auto simp: is_space_def)

lemma clean_quoted: "clean_text s \<Longrightarrow> clean_text (quoted_literal s)"
  using clean_append [OF clean_escaped [OF clean_False], of s "''\"''"]
  by (simp add: quoted_literal_def is_space_def)

lemma clean_apostrophes: "clean_text s \<Longrightarrow> clean_text (apostrophes s)"
  using clean_append [OF clean_False, of s "[CHR 0x27]"] by (simp add: apostrophes_def is_space_def)

lemma clean_show_nat: "clean b (show_nat n)"
proof -
  have "list_all is_digit s \<Longrightarrow> clean b s" for s
    by (induction s arbitrary: b) (auto simp: is_digit_def code_of_def)
  then show ?thesis by (auto simp: list_all_iff dest: show_nat_digits)
qed

lemmas clean_parts = clean_append clean_False clean_concat clean_separated clean_joined clean_quoted clean_apostrophes clean_show_nat

lemma clean_field_entry:
  assumes "clean_text (field_name f)" "list_all (\<lambda>u. clean_text (attribute_expression u)) (field_attributes f)"
  shows "clean_text (fst (field_entry f))"
  using assms by (simp add: field_entry_def with_attributes_def is_space_def clean_parts)

lemma clean_method_entry:
  assumes "method_entry m = Some e" "clean_text (method_name m)" "clean_text (pointer_type m)" "list_all clean_text (method_parameters m)"
    "list_all (\<lambda>u. clean_text (attribute_expression u)) (method_attributes m)"
  shows "clean_text (fst e) \<and> snd e = Some (method_position m)"
proof -
  obtain p where p: "method_pointer m = Some p" using assms(1) by (auto simp: method_entry_def)
  then have "clean_text p" using assms(2,3)
    by (auto simp: method_pointer_def Let_def is_space_def clean_parts split: if_splits)
  moreover have "list_all clean_text (map (\<lambda>p. ''\"'' @ p @ ''\"'') (method_parameters m))"
    using assms(4) by (auto simp: list_all_iff is_space_def clean_parts)
  ultimately show ?thesis using assms p
    by (auto simp: method_entry_def with_attributes_def is_space_def clean_parts)
qed

text \<open>The strings of a model: no line of them begins with \<open>#\<close>, and the files of the places that are pointed to have plain names.\<close>

definition clean_uses :: "attribute_use list \<Rightarrow> bool" where
  "clean_uses uses \<longleftrightarrow> list_all (\<lambda>u. clean_text (attribute_expression u)) uses"

definition clean_base :: "type_reference \<Rightarrow> bool" where
  "clean_base b \<longleftrightarrow> list_all clean_text [reference_qualified_name b, reference_name b, reference_class_key b, enclosing_namespace b]"

definition clean_field :: "field_model \<Rightarrow> bool" where
  "clean_field f \<longleftrightarrow> clean_text (field_name f) \<and> clean_uses (field_attributes f) \<and> plain_file (pos_file (field_position f))"

definition clean_method :: "method_model \<Rightarrow> bool" where
  "clean_method m \<longleftrightarrow> list_all clean_text (method_name m # pointer_type m # method_parameters m) \<and>
     clean_uses (method_attributes m) \<and> plain_file (pos_file (method_position m))"

definition clean_class :: "class_model \<Rightarrow> bool" where
  "clean_class c \<longleftrightarrow>
     list_all clean_text ([class_qualified_name c, class_name c, class_key c, class_schema_name c, pos_file (class_position c),
       required_header_reason c] @ class_namespaces c @ external_names c) \<and>
     list_all clean_base (bases c) \<and> list_all clean_field (fields_of c) \<and> list_all clean_method (methods_of c) \<and>
     clean_uses (class_attributes c) \<and> list_all (\<lambda>u. plain_file (pos_file (attribute_position u))) (class_attributes c)"

definition clean_enum :: "enum_model \<Rightarrow> bool" where
  "clean_enum e \<longleftrightarrow> list_all clean_text ([enum_qualified_name e, enum_short_name e, pos_file (enum_position e), underlying_type e] @
     enum_namespaces e @ enumerators e)"

definition clean_header :: "header_model \<Rightarrow> bool" where
  "clean_header h \<longleftrightarrow> clean_text (header_path h) \<and> list_all clean_class (classes h) \<and> list_all clean_enum (enums h)"

lemma those_list_all2: "those (map f xs) = Some ys \<longleftrightarrow> list_all2 (\<lambda>x y. f x = Some y) xs ys"
  by (induction xs arbitrary: ys) (auto simp: list_all2_Cons1 split: option.splits)

definition clean_entry :: "string \<times> source_position option \<Rightarrow> bool" where
  "clean_entry e \<longleftrightarrow> clean_text (fst e) \<and> (case snd e of None \<Rightarrow> True | Some p \<Rightarrow> plain_file (pos_file p))"

lemma schema_entries_parts:
  assumes "schema_entries c = Some es" "clean_class c"
  obtains ms where "es = map base_entry (bases c) @ map field_entry (fields_of c) @ ms"
    "list_all2 (\<lambda>m e. method_entry m = Some e) (methods_of c) ms" "list_all clean_entry es"
proof -
  obtain ms where ms: "es = map base_entry (bases c) @ map field_entry (fields_of c) @ ms"
    "list_all2 (\<lambda>m e. method_entry m = Some e) (methods_of c) ms"
    using assms(1) by (auto simp: schema_entries_def those_list_all2)
  have "clean_entry (base_entry b)" if "b \<in> set (bases c)" for b
    using assms(2) that by (simp add: clean_class_def list_all_iff clean_base_def clean_entry_def base_entry_def is_space_def clean_parts)
  moreover have "clean_entry (field_entry f)" if "f \<in> set (fields_of c)" for f
    using assms(2) that clean_field_entry [of f]
    by (simp add: clean_class_def list_all_iff clean_field_def clean_uses_def clean_entry_def) (simp add: field_entry_def)
  moreover have "clean_entry e" if e: "e \<in> set ms" for e
  proof -
    obtain i where "i < length ms" "e = ms ! i" using e by (auto simp: in_set_conv_nth)
    with ms(2) have m: "methods_of c ! i \<in> set (methods_of c)" "method_entry (methods_of c ! i) = Some e"
      by (simp_all add: list_all2_conv_all_nth)
    have "clean_method (methods_of c ! i)" using assms(2) m(1) by (simp add: clean_class_def list_all_iff)
    with clean_method_entry [OF m(2)] show ?thesis by (simp add: clean_method_def clean_uses_def clean_entry_def)
  qed
  ultimately have "list_all clean_entry es" using ms(1) by (auto simp: list_all_iff)
  with ms that show thesis by blast
qed

section \<open>What is pointed at\<close>

fun aimed :: "builder_call list \<Rightarrow> (source_position \<times> string) list" where
  "aimed [] = []"
| "aimed (Point_To p # calls) = (case calls of Line s # rest \<Rightarrow> [(p, s)] | _ \<Rightarrow> []) @ aimed calls"
| "aimed (call # calls) = aimed calls"

definition is_line :: "builder_call \<Rightarrow> bool" where
  "is_line call \<longleftrightarrow> (case call of Line s \<Rightarrow> True | _ \<Rightarrow> False)"

lemma is_line_Line [simp]: "is_line (Line s)"
  by (simp add: is_line_def)

lemma lines_only:
  "list_all is_line calls \<Longrightarrow> aiming_after path (calls @ rest) Own = aiming_after path rest Own \<and> aimed (calls @ rest) = aimed rest"
proof (induction calls)
  case (Cons call calls)
  then show ?case by (cases call) (simp_all add: is_line_def)
qed simp

definition entry_marks :: "(string \<times> source_position option) list \<Rightarrow> (source_position \<times> string) list" where
  "entry_marks es = List.map_filter (\<lambda>e. map_option (\<lambda>p. (p, fst e)) (snd e)) es"

text \<open>A line that is emitted for a description: it is indented, and a comma may follow.\<close>

definition describes :: "source_position \<times> string \<Rightarrow> source_position \<times> string \<Rightarrow> bool" where
  "describes call mark \<longleftrightarrow> fst call = fst mark \<and>
     (snd call = ''            '' @ snd mark \<or> snd call = ''            '' @ snd mark @ '','')"

lemma entry_calls_bases:
  "list_all (\<lambda>e. snd e = None) bs \<Longrightarrow> aiming_after path (entry_calls (bs @ es) @ rest) Own = aiming_after path (entry_calls es @ rest) Own \<and>
     aimed (entry_calls (bs @ es) @ rest) = aimed (entry_calls es @ rest)"
  by (induction bs) auto

lemma entry_calls_aiming:
  assumes "list_all (\<lambda>e. snd e \<noteq> None) es" "m = Own \<or> m = Away"
  shows "aiming_after path (entry_calls es @ rest) m = aiming_after path rest (if es = [] then m else Away)"
  using assms by (induction es arbitrary: m) auto

lemma entry_calls_aimed:
  "list_all (\<lambda>e. snd e \<noteq> None) es \<Longrightarrow> \<exists>ls. aimed (entry_calls es @ rest) = ls @ aimed rest \<and> list_all2 describes ls (entry_marks es)"
proof (induction es)
  case (Cons e es)
  then obtain p ls where p: "e = (fst e, Some p)"
    and ls: "aimed (entry_calls es @ rest) = ls @ aimed rest" "list_all2 describes ls (entry_marks es)"
    by (cases e) auto
  let ?line = "''            '' @ fst e @ (if es = [] then [] else '','')"
  have "aimed (entry_calls (e # es) @ rest) = ((p, ?line) # ls) @ aimed rest"
    using ls(1) by (subst p) simp
  moreover have "entry_marks (e # es) = (p, fst e) # entry_marks es"
    by (subst p) (simp add: entry_marks_def map_filter_simps)
  moreover have "describes (p, ?line) (p, fst e)" by (simp add: describes_def)
  ultimately show ?case using ls(2) by (intro exI [of _ "(p, ?line) # ls"]) simp
qed (simp add: entry_marks_def map_filter_simps)

definition member_marks :: "class_model \<Rightarrow> (source_position \<times> string) list" where
  "member_marks c =
     map (\<lambda>f. (field_position f, fst (field_entry f))) (fields_of c) @
     map (\<lambda>m. (method_position m, fst (the (method_entry m)))) (methods_of c) @
     (case class_attributes c of [] \<Rightarrow> []
      | a # as \<Rightarrow> [(attribute_position a, ''.with('' @ joined_attributes (a # as) @ '');'')])"

text \<open>Some calls that end where they began, in the generated file, and point at the lines of \<open>marks\<close>.\<close>

definition closed_calls :: "string \<Rightarrow> (source_position \<times> string) list \<Rightarrow> builder_call list \<Rightarrow> bool" where
  "closed_calls path marks calls \<longleftrightarrow> list_all undirected calls \<and>
     (\<forall>rest. aiming_after path (calls @ rest) Own = aiming_after path rest Own) \<and>
     (\<forall>rest. \<exists>ls. aimed (calls @ rest) = ls @ aimed rest \<and> list_all2 describes ls marks)"

lemma closed_append: "closed_calls path ms as \<Longrightarrow> closed_calls path ns bs \<Longrightarrow> closed_calls path (ms @ ns) (as @ bs)"
  unfolding closed_calls_def by (simp add: list_all_append) (metis append_assoc list_all2_appendI)

lemma closed_lines: "list_all (\<lambda>call. is_line call \<and> undirected call) calls \<Longrightarrow> closed_calls path [] calls"
  using lines_only [of calls] by (auto simp: closed_calls_def list_all_iff)

lemma closed_concat: "list_all2 (\<lambda>x calls. closed_calls path (f x) calls) xs css \<Longrightarrow> closed_calls path (concat (map f xs)) (concat css)"
proof (induction rule: list_all2_induct)
  case Nil
  show ?case by (simp add: closed_lines)
next
  case (Cons x xs calls css)
  then show ?case by (simp add: closed_append)
qed

lemma undirected_entries: "list_all clean_entry es \<Longrightarrow> list_all undirected (entry_calls es)"
proof (induction es)
  case (Cons e es)
  obtain d place where e: "e = (d, place)" by (cases e)
  have "undirected (Line (''            '' @ d @ (if es = [] then [] else '','')))"
    using Cons.prems e by (intro undirected_clean) (simp add: clean_entry_def is_space_def clean_parts)
  then show ?case using Cons e by (auto simp del: undirected.simps(1) simp: clean_entry_def split: option.splits)
qed simp

lemma entry_marks_split:
  "list_all2 (\<lambda>m e. method_entry m = Some e) ms es \<Longrightarrow> list_all (\<lambda>m. clean_method m) ms \<Longrightarrow>
     entry_marks es = map (\<lambda>m. (method_position m, fst (the (method_entry m)))) ms \<and> list_all (\<lambda>e. snd e \<noteq> None) es"
proof (induction rule: list_all2_induct)
  case (Cons m ms e es)
  then have "snd e = Some (method_position m)"
    using clean_method_entry [OF Cons.hyps(1)] by (simp add: clean_method_def clean_uses_def)
  with Cons show ?case by (simp add: entry_marks_def map_filter_simps)
qed (simp add: entry_marks_def map_filter_simps)

lemma entry_marks_append: "entry_marks (as @ bs) = entry_marks as @ entry_marks bs"
  by (simp add: entry_marks_def map_filter_def)

lemma entry_marks_fields: "entry_marks (map field_entry fs) = map (\<lambda>f. (field_position f, fst (field_entry f))) fs"
  by (induction fs) (simp_all add: entry_marks_def map_filter_simps field_entry_def)

lemma entry_places [simp]: "snd (field_entry f) = Some (field_position f)" "snd (base_entry b) = None"
  by (simp_all add: field_entry_def base_entry_def)

lemma closed_schema:
  assumes "schema_entries c = Some es" "clean_class c" "plain_file path"
  shows "closed_calls path (map (\<lambda>f. (field_position f, fst (field_entry f))) (fields_of c) @
     map (\<lambda>m. (method_position m, fst (the (method_entry m)))) (methods_of c)) (schema_calls es path)"
proof -
  obtain ms where es: "es = map base_entry (bases c) @ map field_entry (fields_of c) @ ms"
    and ms: "list_all2 (\<lambda>m e. method_entry m = Some e) (methods_of c) ms" and clean: "list_all clean_entry es"
    using schema_entries_parts [OF assms(1,2)] by blast
  let ?bs = "map base_entry (bases c)" and ?ps = "map field_entry (fields_of c) @ ms"
  have bs: "list_all (\<lambda>e. snd e = None) ?bs" by (simp add: list_all_iff)
  have methods: "entry_marks ms = map (\<lambda>m. (method_position m, fst (the (method_entry m)))) (methods_of c)"
    "list_all (\<lambda>e. snd e \<noteq> None) ms"
    using entry_marks_split [OF ms] assms(2) by (simp_all add: clean_class_def)
  have ps: "list_all (\<lambda>e. snd e \<noteq> None) ?ps"
    using methods(2) by (auto simp: list_all_iff)
  have placed: "list_ex (\<lambda>e. snd e \<noteq> None) es \<longleftrightarrow> ?ps \<noteq> []"
  proof -
    have "\<not> list_ex (\<lambda>e. snd e \<noteq> None) ?bs" by (simp add: list_ex_iff)
    moreover have "list_ex (\<lambda>e. snd e \<noteq> None) ?ps \<longleftrightarrow> ?ps \<noteq> []" using ps by (cases ?ps) simp_all
    ultimately show ?thesis unfolding es list_ex_append by simp
  qed
  have lines: "undirected (Line ''        return ::reflgen::schema<T>()'')" "undirected (Line ''        return ::reflgen::schema<T>('')"
    "undirected (Line ''        )'')"
    by (intro undirected_clean, simp add: is_space_def)+
  have "list_all undirected (schema_calls es path)"
    using lines undirected_entries [OF clean] assms(3) by (simp add: schema_calls_def del: undirected.simps(1))
  moreover have "aiming_after path (schema_calls es path @ rest) Own = aiming_after path rest Own" for rest
    using entry_calls_bases [OF bs, of path ?ps] entry_calls_aiming [OF ps, of Own path] placed
    by (auto simp: schema_calls_def es)
  moreover have "\<exists>ls. aimed (schema_calls es path @ rest) = ls @ aimed rest \<and> list_all2 describes ls (entry_marks ?ps)" for rest
  proof (cases "es = []")
    case True
    then show ?thesis using es by (simp add: schema_calls_def entry_marks_def map_filter_simps)
  next
    case False
    let ?rest = "(if list_ex (\<lambda>e. snd e \<noteq> None) es then [Point_Back path] else []) @ [Line ''        )''] @ rest"
    have "aimed ?rest = aimed rest" by simp
    have "aimed (schema_calls es path @ rest) = aimed (entry_calls es @ ?rest)"
      using False by (simp add: schema_calls_def)
    also have "\<dots> = aimed (entry_calls ?ps @ ?rest)"
      using entry_calls_bases [OF bs, of path ?ps ?rest] es by simp
    finally show ?thesis using entry_calls_aimed [OF ps, of ?rest] by (simp only: \<open>aimed ?rest = aimed rest\<close>)
  qed
  ultimately show ?thesis
    by (simp add: closed_calls_def entry_marks_append entry_marks_fields methods(1))
qed

lemma clean_use_list: "clean_uses uses \<Longrightarrow> clean_text (joined_attributes uses)"
  unfolding clean_uses_def by (rule clean_joined)

lemma closed_tail:
  assumes "clean_class c" "plain_file path"
  shows "closed_calls path
     (case class_attributes c of [] \<Rightarrow> [] | a # as \<Rightarrow> [(attribute_position a, ''.with('' @ joined_attributes (a # as) @ '');'')])
     (tail_calls c path)"
proof -
  have name: "clean_text (class_schema_name c)" and uses: "clean_uses (class_attributes c)"
    and places: "list_all (\<lambda>u. plain_file (pos_file (attribute_position u))) (class_attributes c)"
    using assms(1) by (simp_all add: clean_class_def)
  have lines: "undirected (Line (''            .named('' @ class_schema_name c @ '')''))"
    "undirected (Line ((''            .named('' @ class_schema_name c @ '')'') @ '';''))"
    "undirected (Line (''            .with('' @ joined_attributes (class_attributes c) @ '');''))"
    using name clean_use_list [OF uses] by (intro undirected_clean; simp add: is_space_def clean_parts)+
  show ?thesis
  proof (cases "class_attributes c")
    case Nil
    with lines show ?thesis by (simp add: tail_calls_def Let_def closed_lines del: undirected.simps(1))
  next
    case (Cons a as)
    with lines places assms(2) show ?thesis
      by (simp add: tail_calls_def Let_def closed_calls_def describes_def del: undirected.simps(1))
  qed
qed

lemma closed_class:
  assumes "emit_class c path = Some calls" "clean_class c" "plain_file path"
  shows "closed_calls path (member_marks c) calls"
proof -
  obtain es where es: "schema_entries c = Some es" using assms(1) by (auto simp: emit_class_def)
  define first where "first = [position_comment (class_qualified_name c) (class_position c), Line ''template<class T>'',
      Line (only_for ''T'' (class_qualified_name c)), Line ''struct reflgen::access::describer<T>'', Line ''{'',
      Line ''    static consteval auto describe()'', Line ''    {''] @
     map (\<lambda>name. Line (''        using namespace '' @ name @ '';'')) (class_namespaces c) @
     [Line ''        // clang-format off'']"
  define final where "final = [Line ''        // clang-format on'', Line ''    }'', Line ''};'', Line [], Line ''template<class T>'',
      Line (only_for ''T'' (class_qualified_name c)),
      Line (if runtime_only c then ''struct reflgen::runtime_schema<T>'' else ''struct reflgen::reflection<T>''), Line ''{'',
      Line ''    static_assert(::reflgen::detail::complete_type<T>,'', Line (''        '' @ incomplete_message c),
      Line ''    static constexpr auto value = ::reflgen::detail::generated_description<T>();'', Line ''};'', Line []]"
  have calls: "calls = first @ schema_calls es path @ tail_calls c path @ final"
    using assms(1) unfolding emit_class_def es first_def final_def by simp
  have strings: "clean_text (class_qualified_name c)" "clean_text (pos_file (class_position c))" "list_all clean_text (class_namespaces c)"
    using assms(2) by (simp_all add: clean_class_def)
  have "list_all (\<lambda>call. is_line call \<and> undirected call) first"
    using strings unfolding first_def
    by (auto simp: list_all_iff position_comment_def only_for_def is_space_def clean_parts simp del: undirected.simps(1) intro!: undirected_clean)
  moreover have "list_all (\<lambda>call. is_line call \<and> undirected call) final"
    using strings unfolding final_def
    by (auto simp: only_for_def incomplete_message_def is_space_def clean_parts simp del: undirected.simps(1) intro!: undirected_clean)
  ultimately show ?thesis
    using closed_append [OF closed_lines closed_append [OF closed_schema [OF es assms(2,3)] closed_append [OF closed_tail [OF assms(2,3)] closed_lines]]]
    unfolding calls member_marks_def by simp
qed

end
