(* ===== verification/Registration_Properties.thy ===== *)
theory Registration_Properties
  imports Registration_Lines
begin

text \<open>
  The registration code of a header as a whole (\<open>generator/src/emit.cpp\<close>): where a compiler
  reports its lines, and an example.
\<close>

section \<open>Enumerations and forward declarations\<close>

lemma line_call: "clean_text s \<Longrightarrow> is_line (Line s) \<and> undirected (Line s)"
  by (simp add: undirected_clean del: undirected.simps)

lemma enumerate_member: "(i, x) \<in> set (enumerate 0 xs) \<Longrightarrow> x \<in> set xs"
  using nth_mem [of i xs] by (auto simp: in_set_enumerate_eq)

lemma closed_enum:
  assumes "clean_enum e"
  shows "list_all (\<lambda>call. is_line call \<and> undirected call) (emit_enum e)"
proof -
  have names: "list_all clean_text (enumerators e)" "clean_text (enum_qualified_name e)" "clean_text (pos_file (enum_position e))"
    using assms by (simp_all add: clean_enum_def)
  have "list_all (\<lambda>call. is_line call \<and> undirected call) (enumerator_lines (enumerators e))"
    using names(1) unfolding enumerator_lines_def
    by (auto simp: list_all_iff is_space_def clean_parts enumerate_member simp del: undirected.simps(1) intro!: undirected_clean)
  with names(2,3) show ?thesis unfolding emit_enum_def
    by (auto simp: position_comment_def only_for_def is_space_def clean_parts simp del: undirected.simps(1) intro!: undirected_clean)
qed

definition clean_declaration :: "string \<times> string \<Rightarrow> bool" where
  "clean_declaration d \<longleftrightarrow> clean_text (fst d) \<and> clean_text (snd d)"

lemma clean_last: "list_all clean_text names \<Longrightarrow> clean_text (innermost names)"
  by (simp add: innermost_def list_all_iff)

lemma clean_class_declarations: "clean_class c \<Longrightarrow> d \<in> set (class_declarations c) \<Longrightarrow> clean_declaration d"
  using clean_last [of "class_namespaces c"]
  by (auto simp: class_declarations_def clean_class_def clean_base_def clean_declaration_def list_all_iff is_space_def clean_parts)

lemma clean_enum_declaration: "clean_enum e \<Longrightarrow> clean_declaration (enum_declaration e)"
  using clean_last [of "enum_namespaces e"]
  by (auto simp: enum_declaration_def clean_enum_def clean_declaration_def is_space_def clean_parts)

lemma closed_forward_declarations:
  assumes "clean_header h"
  shows "list_all (\<lambda>call. is_line call \<and> undirected call) (emit_forward_declarations h)"
proof -
  let ?ds = "forward_declarations h"
  have clean: "clean_declaration d" if d: "d \<in> set ?ds" for d
  proof -
    consider c where "c \<in> set (classes h)" "d \<in> set (class_declarations c)" | e where "e \<in> set (enums h)" "d = enum_declaration e"
      using d unfolding forward_declarations_def by auto
    then show ?thesis
      using assms clean_class_declarations [of _ d] clean_enum_declaration
      unfolding clean_header_def list_all_iff by cases blast+
  qed
  have lines: "clean_text l" if "l \<in> set (declared_in enclosing ?ds)" for l enclosing
    using that clean by (fastforce simp: declared_in_def clean_declaration_def)
  have "list_all (\<lambda>call. is_line call \<and> undirected call) (namespace_calls ?ds enclosing)" if "enclosing \<in> fst ` set ?ds" for enclosing
  proof -
    have "clean_text enclosing" using that clean by (auto simp: clean_declaration_def)
    then show ?thesis using lines unfolding namespace_calls_def
      by (auto simp: list_all_iff is_space_def clean_parts simp del: undirected.simps(1) intro!: undirected_clean)
  qed
  then show ?thesis unfolding emit_forward_declarations_def Let_def
    by (auto simp: list_all_iff is_space_def simp del: undirected.simps(1) intro!: undirected_clean)
qed

lemma clean_reason:
  assumes "clean_header h" "source_needed h = Some reason"
  shows "clean_text reason"
proof -
  have "reason \<in> set (List.map_filter class_reason (classes h) @ List.map_filter enum_reason (enums h))"
    using assms(2) unfolding source_needed_def by (cases "List.map_filter class_reason (classes h) @ List.map_filter enum_reason (enums h)") simp_all
  then consider c where "c \<in> set (classes h)" "class_reason c = Some reason"
    | e where "e \<in> set (enums h)" "enum_reason e = Some reason"
    by (auto simp: map_filter_def)
  then show ?thesis
  proof cases
    case (1 c)
    have c: "clean_class c" using assms(1) 1(1) by (simp add: clean_header_def list_all_iff)
    have "clean_text (reference_qualified_name b)" if "find P (bases c) = Some b" for P b
      using c that by (auto simp: clean_class_def clean_base_def list_all_iff find_Some_iff)
    moreover have "clean_text (hd (external_names c))" if "external_names c \<noteq> []"
      using c that by (simp add: clean_class_def list_all_iff)
    ultimately show ?thesis using 1(2) c
      by (auto simp: class_reason_def clean_class_def is_space_def clean_parts split: if_splits)
  next
    case (2 e)
    then have "clean_enum e" using assms(1) by (simp add: clean_header_def list_all_iff)
    with 2(2) show ?thesis by (auto simp: enum_reason_def clean_enum_def is_space_def clean_parts split: if_splits)
  qed
qed

section \<open>Headers\<close>

lemma closed_header:
  assumes "header_calls h path = Some calls" "clean_header h" "plain_file path"
  shows "closed_calls path (concat (map member_marks (classes h))) calls"
proof -
  let ?ok = "list_all (\<lambda>call. is_line call \<and> undirected call)"
  obtain types where types: "emit_types h path = Some types" using assms(1) by (auto simp: header_calls_def)
  then obtain cs where cs: "list_all2 (\<lambda>c calls. emit_class c path = Some calls) (classes h) cs"
    and t: "types = concat (map emit_enum (enums h)) @ concat cs"
    by (auto simp: emit_types_def those_list_all2)
  have "?ok (concat (map emit_enum (enums h)))"
    using assms(2) closed_enum by (auto simp: clean_header_def list_all_iff)
  moreover have "closed_calls path (concat (map member_marks (classes h))) (concat cs)"
  proof (rule closed_concat)
    show "list_all2 (\<lambda>c calls. closed_calls path (member_marks c) calls) (classes h) cs"
      using cs assms(2,3) closed_class by (auto simp: list_all2_conv_all_nth clean_header_def list_all_iff)
  qed
  ultimately have rest: "closed_calls path (concat (map member_marks (classes h))) types"
    using closed_append [OF closed_lines] unfolding t by fastforce
  have h: "clean_text (header_path h)" using assms(2) by (simp add: clean_header_def)
  have fixed: "?ok [Line banner, Line (''// source: '' @ header_path h), Line ''#pragma once'', include_line ''reflgen/generated.h'']"
  proof -
    have "undirected (Line ''#pragma once'')" by code_simp
    moreover have "undirected (include_line ''reflgen/generated.h'')" by code_simp
    moreover have "clean_text banner" by code_simp
    ultimately show ?thesis using h
      by (auto simp: include_line_def is_space_def clean_parts simp del: undirected.simps(1) intro!: undirected_clean)
  qed
  have needed: "?ok (case source_needed h of
        None \<Rightarrow> [Line []] @ emit_forward_declarations h
      | Some reason \<Rightarrow> [Line (''// The source header is included because '' @ reason @ ''.''), include_line (header_path h), Line []])"
  proof (cases "source_needed h")
    case None
    then show ?thesis using closed_forward_declarations [OF assms(2)] line_call [of "[]"] by simp
  next
    case (Some reason)
    have "clean_text (''// The source header is included because '' @ reason @ ''.'')"
      using clean_reason [OF assms(2) Some] by (simp add: is_space_def clean_parts)
    then show ?thesis using line_call line_call [of "[]"] undirected_include [OF clean_False [OF h]] Some
      by (simp add: include_line_def del: undirected.simps)
  qed
  show ?thesis
    using assms(1) types closed_append [OF closed_lines [OF fixed] closed_append [OF closed_lines [OF needed] rest]]
    unfolding header_calls_def by (simp only: option.map option.inject append_assoc append_Nil)
qed

text \<open>C36: Errors in registration code are reported at the declarations. If the strings of a header model have no line that
  begins with \<open>#\<close>, and the files that are pointed to have names without quotes, backslashes and newlines, then a compiler that reads the generated header
  reports every description of a field, a method and the attributes of a class, over all its lines, at the position of that declaration,
  one description for each of them in their order, and every other line apart from the directives at its own line of the generated header: the
  line numbers that the text builder counts are right, and it always points back in time.\<close>

theorem errors_point_to_source:
  assumes "emit_header h path = Some generated" "clean_header h" "plain_file path"
  shows "\<exists>calls. header_calls h path = Some calls \<and> generated = build calls \<and>
    as_intended (presumed (path, 1) (file_lines generated)) (intended path 1 None calls) \<and>
    list_all2 describes (aimed calls) (concat (map member_marks (classes h)))"
proof -
  obtain calls where calls: "header_calls h path = Some calls" "generated = build calls"
    using assms(1) by (auto simp: emit_header_def)
  from closed_header [OF calls(1) assms(2,3)] have closed: "closed_calls path (concat (map member_marks (classes h))) calls" .
  then have "list_all undirected calls" "aiming_after path (calls @ []) Own = aiming_after path [] Own"
    "\<exists>ls. aimed (calls @ []) = ls @ aimed [] \<and> list_all2 describes ls (concat (map member_marks (classes h)))"
    unfolding closed_calls_def by blast+
  with calls build_as_intended [of calls path Own] show ?thesis by simp
qed

section \<open>An example\<close>

text \<open>A class with a base, two fields, of which one has an attribute over two lines, a method and an attribute, and an enumeration.\<close>

definition place_at :: "nat \<Rightarrow> source_position" where
  "place_at n = \<lparr>pos_file = ''/g/player.h'', pos_line = of_nat n, pos_column = 1\<rparr>"

definition sample_use :: "string \<Rightarrow> nat \<Rightarrow> attribute_use" where
  "sample_use expression n = \<lparr>attribute_expression = expression, attribute_position = place_at n, attribute_scope = [], attribute_name = [],
     has_arguments = True, argument_tokens = []\<rparr>"

definition int_type :: declaration_type where
  "int_type = Declaration_Type ''int'' ''int'' ''integer'' [] False False 4 None None (-1) None 4 None [] [] False False ''none''"

definition sample_field :: "string \<Rightarrow> nat \<Rightarrow> attribute_use list \<Rightarrow> field_model" where
  "sample_field name n uses = \<lparr>field_name = name, field_position = place_at n, field_attributes = uses, field_type = int_type,
     field_owner = ''game::player'', field_access = ''public'', field_accessor = False\<rparr>"

definition sample_heal :: method_model where
  "sample_heal = \<lparr>method_name = ''heal'', method_parameters = [''amount''], method_position = place_at 14, method_attributes = [],
     return_type = int_type, parameter_declarations = [], method_owner = ''game::player'', method_access = ''public'', is_static = False,
     is_const = False, is_volatile = False, is_variadic = False, ref_qualifier = ''none'', signature = [], calling_convention = [],
     exception_specification = ''none'', is_overloaded = True, is_deleted = False, qualifiers_known = True, is_consteval = False,
     declaration_specifiers_known = True, pointer_type = ''int (T::*)(int)''\<rparr>"

definition sample_player :: class_model where
  "sample_player = \<lparr>class_qualified_name = ''game::player'', class_name = ''player'', class_key = ''class'', class_schema_name = ''\"game::player\"'',
     class_namespaces = [''game''],
     bases = [\<lparr>reference_qualified_name = ''game::unit'', reference_name = ''unit'', reference_class_key = ''struct'',
       enclosing_namespace = ''game'', reference_nested = False, templated = False\<rparr>],
     fields_of = [sample_field ''hp'' 11 [sample_use (''note(R\"(a'' @ [CHR 0x0A] @ ''b)\")'') 11], sample_field ''mp'' 13 []],
     methods_of = [sample_heal], class_attributes = [sample_use ''game::saved{}'' 9], class_position = place_at 9, class_nested = False,
     external_names = [], required_header_reason = [], runtime_only = False, public_fields = False\<rparr>"

definition sample_header :: header_model where
  "sample_header = \<lparr>header_path = ''/g/player.h'', classes = [sample_player],
     enums = [\<lparr>enum_qualified_name = ''game::team'', enum_short_name = ''team'', enum_namespaces = [''game''], enumerators = [''red'', ''blue''],
       enum_position = place_at 3, enum_nested = False, scoped = True, underlying_type = []\<rparr>]\<rparr>"

theorem errors_point_to_source_witness:
  "\<exists>generated calls. emit_header sample_header ''player.reflgen.h'' = Some generated \<and>
     header_calls sample_header ''player.reflgen.h'' = Some calls \<and>
     as_intended (presumed (''player.reflgen.h'', 1) (file_lines generated)) (intended ''player.reflgen.h'' 1 None calls) \<and>
     list_all2 describes (aimed calls) (concat (map member_marks (classes sample_header)))"
proof -
  have "emit_header sample_header ''player.reflgen.h'' \<noteq> None" by code_simp
  then obtain generated where g: "emit_header sample_header ''player.reflgen.h'' = Some generated" by blast
  have "clean_header sample_header" by code_simp
  moreover have "plain_file ''player.reflgen.h''" by code_simp
  ultimately show ?thesis using errors_point_to_source [OF g] g by blast
qed

text \<open>A name with a quote, which a file may have, is not escaped in \<open>#line\<close>, so that the directive is not one.\<close>

lemma quoted_file_name:
  "read_directive (line_directive 7 ''a\"b.h'') = None"
  by code_simp

end
