(* ===== verification/Bridge_Emit.thy ===== *)
theory Bridge_Emit
  imports Prsm_Lowering Interop_Emit
begin

text \<open>
  The C++ bridge of a binding module (\<open>emit_prsm\<close> of \<open>generator/src/prsm.cpp\<close>): a header with the
  entry points, the source that implements them, and a table of the calls for people. The order of
  the pieces is that of the code; what is appended to one of the texts is a function of the call.
\<close>

section \<open>Types\<close>

definition c_type :: "scalar \<Rightarrow> bool \<Rightarrow> string" where
  "c_type t native =
     (let name = scalar_name t in
      if name = ''void'' then ''void'' else if name = ''bool'' then (if native then ''bool'' else ''uint8_t'')
      else if name = ''float32'' then ''float'' else if name = ''float64'' then ''double'' else name @ ''_t'')"

fun access_template :: "receiver \<Rightarrow> string" where
  "access_template Entity = ''entity_access''"
| "access_template Component = ''component_access''"
| "access_template Handle = ''binding_access''"

fun owner_template :: "receiver \<Rightarrow> string" where
  "owner_template Entity = ''entity_owner''"
| "owner_template Component = ''component_owner''"
| "owner_template Handle = ''binding_owner''"

definition case_table :: "string \<Rightarrow> string" where
  "case_table cpp_name = ''reflgen_prsm_cases_'' @ hex_text cpp_name"

text \<open>The image in 64 bits, of a number that \<open>std::stoull\<close> can read.\<close>

definition unsigned_image :: "string \<Rightarrow> string" where
  "unsigned_image s =
     (let negative = (hd s = CHR ''-'');
          magnitude = (word_of_nat (decimal_value (if negative then tl s else s)) :: 64 word)
      in show_nat (unat (if negative then NOT magnitude + 1 else magnitude)) @ ''ULL'')"

definition signed_scalar :: "scalar \<Rightarrow> bool" where
  "signed_scalar t \<longleftrightarrow> t = Int8 \<or> t = Int16 \<or> t = Int32 \<or> t = Int64"

definition scalar_size :: "scalar \<Rightarrow> nat" where
  "scalar_size t =
     (let name = scalar_name t in
      if name = ''int8'' \<or> name = ''uint8'' then 1 else if name = ''int16'' \<or> name = ''uint16'' then 2
      else if name = ''int64'' \<or> name = ''uint64'' \<or> name = ''float64'' then 8 else 4)"

definition truth :: "bool \<Rightarrow> string" where
  "truth b = (if b then ''true'' else ''false'')"

section \<open>Contracts of values\<close>

definition is_float :: "value_field \<Rightarrow> bool" where
  "is_float f \<longleftrightarrow> value_field_type f = Float32 \<or> value_field_type f = Float64"

definition field_contract :: "string \<Rightarrow> value_field \<Rightarrow> string" where
  "field_contract type f =
     (let member = ''decltype('' @ type @ ''::'' @ value_field_name f @ '')'' in
      ''static_assert(offsetof('' @ type @ '', '' @ value_field_name f @ '') == '' @ show_nat (unat (value_field_offset f)) @
      '' && sizeof('' @ member @ '') == '' @ show_nat (scalar_size (value_field_type f)) @ '' && '' @
      (if is_float f then ''std::is_floating_point_v<'' @ member @ ''>''
       else ''std::is_integral_v<'' @ member @ ''> && !std::is_same_v<'' @ member @ '', bool> && std::is_signed_v<'' @ member @ ''> == '' @
         truth (signed_scalar (value_field_type f))) @ '');'')"

definition case_contract :: "string \<Rightarrow> value_case \<Rightarrow> string" where
  "case_contract type c =
     ''static_assert(static_cast<unsigned long long>(static_cast<std::underlying_type_t<'' @ type @ ''>>('' @ type @ ''::'' @ case_name c @
     '')) == '' @ unsigned_image (case_value c) @ '');''"

definition value_contract :: "binding_value \<Rightarrow> string list" where
  "value_contract v =
     (let type = ''::'' @ value_cpp_name v in
      case value_kind v of
        Record \<Rightarrow>
          [''static_assert(std::is_trivially_copyable_v<'' @ type @ ''> && std::is_standard_layout_v<'' @ type @
             ''>, \"PrSM value records must be trivially copyable standard-layout types\");'',
           ''static_assert(sizeof('' @ type @ '') == '' @ show_nat (unat (value_size v)) @ '' && alignof('' @ type @ '') == '' @
             show_nat (unat (value_align v)) @ '');''] @ map (field_contract type) (value_fields v)
      | Enumeration \<Rightarrow>
          [''static_assert(std::is_enum_v<'' @ type @ ''> && sizeof('' @ type @ '') == '' @ show_nat (scalar_size (value_underlying v)) @
             '' && std::is_signed_v<std::underlying_type_t<'' @ type @ ''>> == '' @ truth (signed_scalar (value_underlying v)) @ '');'',
           ''namespace { constexpr '' @ type @ '' '' @ case_table (value_cpp_name v) @ ''[] = {'' @
             separated '', '' (map (\<lambda>c. type @ ''::'' @ case_name c) (value_cases v)) @ ''}; }''] @
          map (case_contract type) (value_cases v))"

definition emit_value_contracts :: "binding_module \<Rightarrow> string" where
  "emit_value_contracts b =
     (let vs = module_values (input_of b) in
      text_lines (concat (map value_contract vs) @
        (if list_ex (\<lambda>v. value_kind v = Record \<and> list_ex is_float (value_fields v)) vs
         then [''static_assert(std::numeric_limits<float>::is_iec559 && std::numeric_limits<double>::is_iec559);''] else [])))"

section \<open>Arguments and results\<close>

definition argument_value :: "module_input \<Rightarrow> callable \<Rightarrow> nat \<Rightarrow> binding_value option" where
  "argument_value m call i =
     (if call_parameter_values call = [] then None else find_value (module_values m) (call_parameter_values call ! i))"

definition result_slot :: "module_input \<Rightarrow> callable \<Rightarrow> binding_value option" where
  "result_slot m call = (if call_result_value call = [] then None else find_value (module_values m) (call_result_value call))"

definition argument_name :: "nat \<Rightarrow> string" where
  "argument_name i = ''arg'' @ show_nat i"

definition argument_declaration :: "module_input \<Rightarrow> callable \<Rightarrow> nat \<Rightarrow> string" where
  "argument_declaration m call i =
     (case argument_value m call i of
        None \<Rightarrow> '', '' @ c_type (call_parameters call ! i) False @ '' '' @ argument_name i
      | Some v \<Rightarrow> (if value_kind v = Record then '', const void* '' else '', uint32_t '') @ argument_name i)"

definition native_argument :: "callable \<Rightarrow> nat \<Rightarrow> string" where
  "native_argument call i =
     (if call_native_parameters call = [] then c_type (call_parameters call ! i) True else call_native_parameters call ! i)"

definition invoked_argument :: "module_input \<Rightarrow> callable \<Rightarrow> nat \<Rightarrow> string" where
  "invoked_argument m call i =
     (case argument_value m call i of
        None \<Rightarrow> (if call_parameters call ! i = Boolean then ''('' @ argument_name i @ '' != 0)'' else argument_name i)
      | Some v \<Rightarrow> (if value_kind v = Record then ''value'' @ show_nat i
                   else case_table (value_cpp_name v) @ ''['' @ argument_name i @ '']''))"

definition argument_check :: "module_input \<Rightarrow> callable \<Rightarrow> nat \<Rightarrow> string" where
  "argument_check m call i =
     (case argument_value m call i of
        None \<Rightarrow> []
      | Some v \<Rightarrow>
          if value_kind v = Record then text_lines [''    if (!'' @ argument_name i @ '') return REFLGEN_PRSM_BINDING_INVALID_ARGUMENT;'']
          else text_lines [''    if ('' @ argument_name i @ '' >= '' @ show_nat (length (value_cases v)) @
            ''u) return REFLGEN_PRSM_BINDING_INVALID_ARGUMENT;''])"

definition argument_conversion :: "module_input \<Rightarrow> callable \<Rightarrow> nat \<Rightarrow> string" where
  "argument_conversion m call i =
     (case argument_value m call i of
        None \<Rightarrow> []
      | Some v \<Rightarrow>
          if value_kind v \<noteq> Record then []
          else let type = ''::'' @ value_cpp_name v; n = show_nat i in text_lines
            [''        std::array<unsigned char, sizeof('' @ type @ '')> raw'' @ n @ '';'',
             ''        std::memcpy(raw'' @ n @ ''.data(), '' @ argument_name i @ '', raw'' @ n @ ''.size());'',
             ''        const auto value'' @ n @ '' = std::bit_cast<'' @ type @ ''>(raw'' @ n @ '');''])"

definition over_arguments :: "callable \<Rightarrow> (nat \<Rightarrow> string) \<Rightarrow> string list" where
  "over_arguments call f = map f [0..<length (call_parameters call)]"

definition result_declaration :: "module_input \<Rightarrow> callable \<Rightarrow> string" where
  "result_declaration m call =
     (case result_slot m call of
        Some v \<Rightarrow> if value_kind v = Record then '', void* out_value'' else '', uint32_t* out_value''
      | None \<Rightarrow> if call_result call \<noteq> Void then '', '' @ c_type (call_result call) False @ ''* out_value'' else [])"

definition call_prefix :: string where
  "call_prefix = ''int32_t REFLGEN_PRSM_BINDING_CDECL ''"

definition call_declaration :: "module_input \<Rightarrow> callable \<Rightarrow> string" where
  "call_declaration m call =
     (if call_operation call = Owner then call_prefix @ call_symbol call @ ''(uint64_t* out_value)''
      else call_prefix @ call_symbol call @ ''(uint64_t receiver'' @ concat (over_arguments call (argument_declaration m call)) @
        result_declaration m call @ '')'')"

section \<open>Functions\<close>

definition owner_function :: "module_input \<Rightarrow> callable \<Rightarrow> string" where
  "owner_function m call =
     (let handle = call_handle_result call; kind = call_receiver_kind call;
          getter = ''::reflgen::prsm::'' @ owner_template kind @ ''<::'' @ handle @ ''>::get'' in
      text_lines
      [''extern \"C\" '' @ call_declaration m call @ '' noexcept {'',
       ''    if (!out_value) return REFLGEN_PRSM_BINDING_INVALID_ARGUMENT;'',
       ''    try { uint64_t handle = 0;'',
       ''        static_assert(std::is_same_v<decltype(&'' @ getter @ ''), int32_t(*)(uint64_t*)> || '' @
         ''std::is_same_v<decltype(&'' @ getter @ ''), int32_t(*)(uint64_t*) noexcept>);'',
       ''        const auto status = '' @ getter @ ''(&handle);'',
       ''        if (status != 0) return status;'',
       ''        ::reflgen::prsm::'' @ access_template kind @ ''<::'' @ handle @ ''> access(handle);'',
       ''        static_assert(std::is_nothrow_destructible_v<decltype(access)>);'',
       ''        static_assert(noexcept(access.status()) && noexcept(access.get()));'',
       ''        static_assert(std::is_same_v<decltype(access.status()), int32_t> && '' @
         ''std::is_same_v<decltype(access.get()), ::'' @ handle @ ''*>);'',
       ''        const auto checked = access.status(); if (checked != 0) return checked;'',
       ''        if (!access.get()) return REFLGEN_PRSM_BINDING_INVALID_HANDLE;'',
       ''        *out_value = handle; return 0;'',
       ''    } catch (...) { return REFLGEN_PRSM_BINDING_NATIVE_FAILURE; }'', ''}''])"

definition invocation :: "module_input \<Rightarrow> callable \<Rightarrow> string" where
  "invocation m call =
     ''object->'' @ call_cpp_name call @ ''('' @ separated '', '' (over_arguments call (invoked_argument m call)) @ '')''"

definition result_conversion :: "module_input \<Rightarrow> callable \<Rightarrow> string" where
  "result_conversion m call =
     (case result_slot m call of
        Some v \<Rightarrow>
          let type = ''::'' @ value_cpp_name v; count = show_nat (length (value_cases v)) in
          if value_kind v = Record then text_lines
            [''const auto& result = '' @ invocation m call @ '';'',
             ''        static_assert(std::is_same_v<std::remove_cvref_t<decltype(result)>, '' @ type @ ''>);'',
             ''        std::memcpy(out_value, &result, sizeof('' @ type @ ''));'']
          else text_lines
            [''const '' @ type @ '' result = '' @ invocation m call @ '';'', ''        uint32_t index = 0;'',
             ''        while (index < '' @ count @ ''u && '' @ case_table (value_cpp_name v) @ ''[index] != result) ++index;'',
             ''        if (index == '' @ count @ ''u) return REFLGEN_PRSM_BINDING_NATIVE_FAILURE;'', ''        *out_value = index;'']
      | None \<Rightarrow>
          (if call_result call \<noteq> Void then ''const auto result = '' else []) @ text_lines [invocation m call @ '';''] @
          (if call_result call \<noteq> Void
           then text_lines [''        *out_value = '' @
             (if call_result call = Boolean then ''static_cast<uint8_t>(result ? 1 : 0)'' else ''result'') @ '';''] else []))"

definition uses_floats :: "callable \<Rightarrow> bool" where
  "uses_floats call \<longleftrightarrow> call_result call = Float32 \<or> call_result call = Float64 \<or>
     Float32 \<in> set (call_parameters call) \<or> Float64 \<in> set (call_parameters call)"

definition signature_assert :: "callable \<Rightarrow> string" where
  "signature_assert call =
     ''static_assert(std::is_same_v<decltype(&::'' @ call_receiver call @ ''::'' @ call_cpp_name call @ ''), '' @
     (if call_native_result call = [] then c_type (call_result call) True else call_native_result call) @
     '' (::'' @ call_receiver call @ ''::*)('' @ separated '', '' (over_arguments call (native_argument call)) @ '')'' @
     (if call_is_const call then '' const'' else []) @ (if call_is_noexcept call then '' noexcept'' else []) @ ''>);''"

definition method_function :: "module_input \<Rightarrow> callable \<Rightarrow> string" where
  "method_function m call =
     text_lines [signature_assert call] @
     (if uses_floats call then text_lines [''static_assert(sizeof(float) == 4 && sizeof(double) == 8 && '' @
        ''std::numeric_limits<float>::is_iec559 && std::numeric_limits<double>::is_iec559);''] else []) @
     text_lines [''extern \"C\" '' @ call_declaration m call @ '' noexcept'', ''{''] @
     (if call_result call \<noteq> Void \<or> result_slot m call \<noteq> None
      then text_lines [''    if (!out_value) return REFLGEN_PRSM_BINDING_INVALID_ARGUMENT;''] else []) @
     concat (over_arguments call (argument_check m call)) @
     text_lines
      [''    try {'', ''        ::reflgen::prsm::'' @ access_template (call_receiver_kind call) @ ''<::'' @ call_receiver call @ ''> access(receiver);'',
       ''        static_assert(std::is_nothrow_destructible_v<decltype(access)>);'',
       ''        static_assert(noexcept(access.status()) && noexcept(access.get()));'',
       ''        static_assert(std::is_same_v<decltype(access.status()), int32_t>);'',
       ''        static_assert(std::is_same_v<decltype(access.get()), ::'' @ call_receiver call @ ''*>);'',
       ''        const auto status = access.status();'', ''        if (status != 0) return status;'',
       ''        auto* object = access.get();'', ''        if (!object) return REFLGEN_PRSM_BINDING_INVALID_HANDLE;''] @
     concat (over_arguments call (argument_conversion m call)) @ ''        '' @ result_conversion m call @
     text_lines [''        return REFLGEN_PRSM_BINDING_OK;'', ''    } catch (...) { return REFLGEN_PRSM_BINDING_NATIVE_FAILURE; }'', ''}'']"

definition bridge_function :: "module_input \<Rightarrow> callable \<Rightarrow> string" where
  "bridge_function m call = (if call_operation call = Owner then owner_function m call else method_function m call)"

section \<open>The files\<close>

definition bridge_declaration :: "module_input \<Rightarrow> callable \<Rightarrow> string" where
  "bridge_declaration m call = ''REFLGEN_PRSM_API '' @ call_declaration m call @ '' REFLGEN_PRSM_NOEXCEPT;''"

definition table_row :: "call_contract \<Rightarrow> string" where
  "table_row k =
     (let call = contract_call k; tab = [CHR 0x09] in
      call_symbol call @ tab @ (if call_operation call = Owner then [] else call_receiver call) @ tab @ call_script_name call @ tab @
      abi_sha256 k @ tab @ abi_descriptor k)"

definition build_macro :: "binding_module \<Rightarrow> string" where
  "build_macro b = ''REFLGEN_PRSM_'' @ hex_text (module_identity (input_of b)) @ ''_BUILD''"

definition bridge_header :: "binding_module \<Rightarrow> string" where
  "bridge_header b = text_lines (
     [''// <auto-generated/> PrSM production binding ABI v1'', ''#pragma once'', ''#include <reflgen/prsm/binding_abi.h>'',
      ''#ifdef __cplusplus'', ''#define REFLGEN_PRSM_NOEXCEPT noexcept'', ''extern \"C\" {'', ''#else'', ''#define REFLGEN_PRSM_NOEXCEPT'',
      ''#endif'',
      ''#if defined('' @ build_macro b @ '') && defined(_WIN32)'', ''#define REFLGEN_PRSM_API __declspec(dllexport)'',
      ''#elif defined('' @ build_macro b @ '')'', ''#define REFLGEN_PRSM_API __attribute__((visibility(\"default\")))'',
      ''#else'', ''#define REFLGEN_PRSM_API'', ''#endif''] @
     map (\<lambda>k. bridge_declaration (input_of b) (contract_call k)) (contracts b) @
     [''REFLGEN_PRSM_API const reflgen_prsm_binding_entry* REFLGEN_PRSM_BINDING_CDECL ce_prsm_table_'' @
        hex_text (module_identity (input_of b)) @ ''(uint32_t* count) REFLGEN_PRSM_NOEXCEPT;'',
      ''#ifdef __cplusplus'', ''}'', ''#endif'', ''#undef REFLGEN_PRSM_NOEXCEPT'', ''#undef REFLGEN_PRSM_API''])"

definition bridge_guard :: "target_model \<Rightarrow> string list" where
  "bridge_guard t =
     [''static_assert(sizeof(void*) == 8);'',
      (if triple t = ''x86_64-pc-windows-msvc'' then ''#if !defined(_WIN32) || !defined(_M_X64)''
       else if starts_with (triple t) ''x86_64'' then ''#if !defined(__linux__) || !defined(__x86_64__)''
       else ''#if !defined(__linux__) || !defined(__aarch64__)''),
      ''#error PrSM binding target mismatch'', ''#endif'']"

definition source_line :: "binding_source \<Rightarrow> string" where
  "source_line s =
     (if source_kind s = Header then ''#include '' @ quoted_literal (source_name s) else ''import '' @ source_name s @ '';'')"

definition bridge_source :: "binding_module \<Rightarrow> string \<Rightarrow> string" where
  "bridge_source b adapter =
     (let m = input_of b in
      text_lines (
        [''// <auto-generated/> PrSM production binding ABI v1'', ''#define '' @ build_macro b,
         ''#include '' @ quoted_literal (''reflgen_'' @ module_identity m @ ''_prsm'' @ ''.h''), ''#include <reflgen/prsm/access.h>'',
         ''#include <type_traits>'', ''#include <limits>''] @
        bridge_guard (module_target m) @ map source_line (module_sources m) @ [''#include '' @ quoted_literal adapter]) @
      (if module_values m \<noteq> []
       then text_lines [''#include <array>'', ''#include <bit>'', ''#include <cstddef>'', ''#include <cstring>''] @ emit_value_contracts b
       else []) @
      concat (map (\<lambda>k. bridge_function m (contract_call k)) (contracts b)) @ emit_prsm_native_table b)"

definition abi_table :: "binding_module \<Rightarrow> string" where
  "abi_table b = text_lines ((''# reflgen.prsm.calls'' @ [CHR 0x09] @ ''1'') # map table_row (contracts b))"

record prsm_output =
  prsm_header :: string
  prsm_source :: string
  prsm_table :: string
  prsm_catalog :: string

definition safe_adapter :: "string \<Rightarrow> bool" where
  "safe_adapter s \<longleftrightarrow> s \<noteq> [] \<and> list_all (\<lambda>c. c \<notin> {CHR 0x0D, CHR 0x0A, CHR 0x22, CHR ''<'', CHR ''>''}) s"

definition emit_prsm :: "binding_module \<Rightarrow> string \<Rightarrow> diagnostic list \<Rightarrow> prsm_output \<times> diagnostic list" where
  "emit_prsm b adapter report =
     (if \<not> safe_adapter adapter
      then (\<lparr>prsm_header = [], prsm_source = [], prsm_table = [], prsm_catalog = []\<rparr>,
        report @ [error_at ''RG0301'' nowhere ''PrSM requires a safe adapter include path''])
      else (\<lparr>prsm_header = bridge_header b, prsm_source = bridge_source b adapter, prsm_table = abi_table b,
          prsm_catalog = emit_prsm_catalog b\<rparr>, report))"

end
