(* ===== verification/Binding_Properties.thy ===== *)
theory Binding_Properties
  imports Binding_Abi
begin

text \<open>
  The properties of binding modules, with a sample module that has a type, a record, an
  enumeration, a property and an owner.
\<close>

section \<open>A sample module\<close>

definition vector_value :: binding_value where
  "vector_value = \<lparr>value_cpp_name = ''game::vector'', value_script_name = ''creator::Vector'', value_source = 0,
     value_kind = Record, value_size = 8, value_align = 4,
     value_fields = [\<lparr>value_field_name = ''x'', value_field_type = Float32, value_field_offset = 0\<rparr>,
       \<lparr>value_field_name = ''y'', value_field_type = Float32, value_field_offset = 4\<rparr>],
     value_underlying = Int32, value_cases = []\<rparr>"

definition team_value :: binding_value where
  "team_value = \<lparr>value_cpp_name = ''game::team'', value_script_name = ''creator::Team'', value_source = 0,
     value_kind = Enumeration, value_size = 0, value_align = 0, value_fields = [], value_underlying = Int8,
     value_cases = [\<lparr>case_name = ''none'', case_value = ''-1''\<rparr>, \<lparr>case_name = ''red'', case_value = ''0''\<rparr>]\<rparr>"

definition position_getter :: callable where
  "position_getter = \<lparr>call_receiver = ''game::actor'', call_cpp_name = ''position'', call_signature = ''game::vector position() const'',
     call_script_name = ''Position'', call_symbol = ''ce_prsm_bind_a'', call_operation = Getter, call_effect = Read,
     call_result = Void, call_parameters = [], call_position = nowhere, call_is_const = True, call_is_noexcept = False,
     call_native_result = ''game::vector'', call_native_parameters = [], call_handle_result = [],
     call_receiver_kind = Handle, call_result_value = ''game::vector'', call_parameter_values = []\<rparr>"

definition position_setter :: callable where
  "position_setter = \<lparr>call_receiver = ''game::actor'', call_cpp_name = ''set_position'',
     call_signature = ''void set_position(const game::vector&)'', call_script_name = ''Position'',
     call_symbol = ''ce_prsm_bind_b'', call_operation = Setter, call_effect = Write,
     call_result = Void, call_parameters = [Void], call_position = nowhere, call_is_const = False, call_is_noexcept = False,
     call_native_result = ''void'', call_native_parameters = [''const game::vector&''], call_handle_result = [],
     call_receiver_kind = Handle, call_result_value = [], call_parameter_values = [''game::vector'']\<rparr>"

definition sample_module :: module_input where
  "sample_module = \<lparr>module_identity = ''game'', module_target = \<lparr>triple = ''x86_64-unknown-linux-gnu'', pointer_width = 64\<rparr>,
     module_sources = [\<lparr>source_kind = Header, source_name = ''game/actor.h''\<rparr>],
     module_types = [\<lparr>type_cpp_name = ''game::actor'', type_script_name = ''creator::Actor'', type_source = 0, type_receiver = Handle\<rparr>],
     module_values = [vector_value, team_value], module_callables = [position_setter, position_getter]\<rparr>"

lemmas sample_defs = sample_module_def vector_value_def team_value_def position_getter_def position_setter_def

lemmas text_evaluation = plain_text_def cpp_identifier_def qualified_name.simps is_letter_def is_digit_def code_of_def starts_with_def

lemma sample_names:
  "plain_text ''game'' \<and> qualified_name ''::'' ''game''" "plain_text ''game/actor.h''"
  "plain_text ''game::actor'' \<and> qualified_name ''::'' ''game::actor''"
  "plain_text ''creator::Actor'' \<and> qualified_name ''::'' ''creator::Actor''"
  "plain_text ''game::vector'' \<and> qualified_name ''::'' ''game::vector''"
  "plain_text ''creator::Vector'' \<and> qualified_name ''::'' ''creator::Vector''"
  "plain_text ''game::team'' \<and> qualified_name ''::'' ''game::team''"
  "plain_text ''creator::Team'' \<and> qualified_name ''::'' ''creator::Team''"
  by (simp_all add: text_evaluation)

lemma sample_values: "value_report vector_value = []" "value_report team_value = []"
proof -
  have "enumerator_value ''-1'' Int8" "enumerator_value ''0'' Int8"
    unfolding enumerator_value_numeral
    by (rule exI [of _ "-1"], simp add: show_int_def show_nat.simps char_of_def bit_Suc_0_iff scalar_range_def is_signed_def)
       (rule exI [of _ 0], simp add: show_int_def show_nat.simps char_of_def bit_Suc_0_iff scalar_range_def is_signed_def)
  then show "value_report team_value = []"
    by (simp add: value_report_def team_value_def check_enumeration_def numeric_def Let_def text_evaluation)
  show "value_report vector_value = []"
    by (simp add: value_report_def vector_value_def check_record_def numeric_def Let_def text_evaluation)
qed

lemma sample_calls:
  "proper_call (receiver_kinds (module_types sample_module)) position_getter" "call_report sample_module position_getter = []"
  "proper_call (receiver_kinds (module_types sample_module)) position_setter" "call_report sample_module position_setter = []"
proof -
  show "proper_call (receiver_kinds (module_types sample_module)) position_getter"
    "proper_call (receiver_kinds (module_types sample_module)) position_setter"
    by (simp_all add: proper_call_def receiver_kinds_def sample_defs text_evaluation)
  show "call_report sample_module position_getter = []" "call_report sample_module position_setter = []"
    by (simp_all add: call_report_def check_slots_def check_owner_def check_operation_def value_slot_def find_value_def
      receiver_kinds_def parameter_value_def void_result_def has_values_def native_types_def sample_defs text_evaluation)
qed

lemma sample_members: "proper_members sample_module"
  by (simp add: proper_members_def member_key_def consistent_property_def slot_token_def find_value_def parameter_value_def sample_defs)

lemma sample_valid: "valid_module sample_module"
  using sample_names sample_values sample_calls sample_members
  by (simp add: valid_module_def over_budget_def module_targets_def proper_source_def proper_names_def cpp_names_def global_names_def
      script_names_def owner_names_def reserved_names_def clash_def starts_with_def cpp_member_def sample_defs)

lemma sample_built: "fst (build_binding_module sample_module []) = Some (module_of (sorted_input sample_module))"
  by (simp add: build_iff sample_valid)

section \<open>Building\<close>

text \<open>C17: \<open>build_binding_module\<close> is a total decision procedure for the contract of a module: it returns a module exactly
  when no error was reported before and the input is valid, in which names are well formed and given once across
  types, values and owners, no global name contains another, symbols and members are unique, each value and
  call passes its own checks and each property has one getter and one setter of the same type. The module is
  the input with types, values and calls sorted, and a contract for each call.\<close>

theorem built_iff_valid:
  "fst (build_binding_module m report) =
     (if \<not> has_errors report \<and> valid_module m then Some (module_of (sorted_input m)) else None)"
  by (rule build_iff)

text \<open>C21: the builder fails loudly and only loudly. It adds to the report without changing what is there, and the report has
  an error afterwards exactly when no module is returned.\<close>

theorem build_reports:
  "(\<exists>ds. snd (build_binding_module m report) = report @ ds) \<and>
   (has_errors (snd (build_binding_module m report)) \<longleftrightarrow> fst (build_binding_module m report) = None)"
  by (simp add: build_binding_module_def Let_def)

text \<open>C18: the order in which types, values and calls are delivered has no influence on the module that is built, its
  descriptors and digests included, nor on whether one is built.\<close>

theorem build_order_independent:
  assumes "permuted m m'"
  shows "fst (build_binding_module m report) = fst (build_binding_module m' report)"
  using assms by (rule build_permuted)

theorem build_order_independent_witness:
  "fst (build_binding_module sample_module []) =
   fst (build_binding_module (sample_module\<lparr>module_values := [team_value, vector_value],
     module_callables := [position_getter, position_setter]\<rparr>) [])"
  by (rule build_order_independent) (simp add: permuted_def sample_module_def add_mset_commute)

section \<open>Values\<close>

text \<open>C20: the enumerator values that are accepted are exactly the decimal numerals, without plus sign, leading zero or
  negative zero, of the integers of the underlying type: no overflow of the 64-bit accumulator lets another
  string pass.\<close>

theorem enumerator_values:
  "enumerator_value s t \<longleftrightarrow> (\<exists>i. s = show_int i \<and> fst (scalar_range t) \<le> i \<and> i < snd (scalar_range t))"
  by (rule enumerator_value_numeral)

text \<open>C19: the fields of a record of a built module lie in the record, each aligned to its width, and follow each other
  without overlap, provided no offset is so large that adding a width to it wraps around.\<close>

theorem record_fields_disjoint:
  assumes "fst (build_binding_module m report) = Some b" "v \<in> set (module_values (input_of b))" "value_kind v = Record"
    and "\<forall>f\<in>set (value_fields v). no_wrap f"
  shows "(\<forall>f\<in>set (value_fields v). field_end f \<le> unat (value_size v) \<and> numeric (value_field_type f) \<and>
      unat (value_field_offset f) mod scalar_width (value_field_type f) = 0) \<and>
    sorted_wrt (\<lambda>f g. field_end f \<le> unat (value_field_offset g)) (value_fields v)"
proof -
  have "value_report v = []"
    using assms(1,2) by (auto simp: build_iff valid_module_def module_of_def sorted_input_def split: if_splits)
  with assms(3) have "check_record v = []" by (simp add: value_report_def)
  from record_layout [OF this assms(4)] show ?thesis by blast
qed

theorem record_fields_disjoint_witness:
  "field_end (value_fields vector_value ! 0) \<le> unat (value_field_offset (value_fields vector_value ! 1))"
  using record_fields_disjoint [OF sample_built, of vector_value]
  by (simp add: module_of_def sorted_input_def sample_defs no_wrap_def)

definition far_value :: binding_value where
  "far_value = \<lparr>value_cpp_name = ''game::far'', value_script_name = ''creator::Far'', value_source = 0,
     value_kind = Record, value_size = 8, value_align = 8,
     value_fields = [\<lparr>value_field_name = ''a'', value_field_type = Int64, value_field_offset = 0xFFFFFFFFFFFFFFF8\<rparr>,
       \<lparr>value_field_name = ''b'', value_field_type = Int64, value_field_offset = 0\<rparr>],
     value_underlying = Int32, value_cases = []\<rparr>"

text \<open>Without that proviso the checks do not keep a field in its record. The sum \<open>offset + width\<close> is a
  \<open>uint64_t\<close>; for an offset eight bytes below \<open>2^64\<close> it is zero, which passes both the test against the size and,
  for the next field, the test against the end.\<close>

lemma record_offset_wraps:
  "value_report far_value = [] \<and> (\<exists>f\<in>set (value_fields far_value). unat (value_size far_value) < field_end f)"
  by (simp add: value_report_def far_value_def check_record_def numeric_def Let_def field_end_def text_evaluation)

section \<open>Descriptors\<close>

text \<open>C16: the ABI descriptors of two calls, of the same or of two built modules, are equal exactly when the calls agree in
  everything their ABI consists of: module, target, receiver, symbol, operation, effect, signature, the type of
  every slot, and the complete layout of each value type that a slot refers to. Because each item carries its
  length, no choice of names makes two descriptors collide.\<close>

theorem descriptor_identifies_abi:
  assumes "fst (build_binding_module m report) = Some b" "k \<in> set (contracts b)"
    and "fst (build_binding_module m' report') = Some b'" "k' \<in> set (contracts b')"
  shows "abi_descriptor k = abi_descriptor k' \<longleftrightarrow> same_abi (input_of b) (contract_call k) (input_of b') (contract_call k')"
proof -
  note sound = built_sound [OF assms(1,2)] built_sound [OF assms(3,4)]
  show ?thesis
    using descriptor_same_abi [OF sound(1) sound(6)] same_abi_descriptor [OF sound(1) sound(6)] sound(2,7) by auto
qed

theorem descriptor_identifies_abi_witness:
  "descriptor (sorted_input sample_module) position_getter \<noteq> descriptor (sorted_input sample_module) position_setter"
proof -
  have "contract_of (sorted_input sample_module) c \<in> set (contracts (module_of (sorted_input sample_module)))"
    if "c \<in> {position_getter, position_setter}" for c
    using that by (auto simp: module_of_def sorted_input_def sample_module_def)
  from descriptor_identifies_abi [OF sample_built this sample_built this, of position_getter position_setter] show ?thesis
    by (simp add: contract_of_def Let_def same_abi_def position_getter_def position_setter_def)
qed

text \<open>a digest is made of the whole message: padding appends the bit 1, the fewest zeros that fill the last block of 64
  bytes, and the length, so that no byte is left out of the blocks; and the digest is always 64 lowercase
  hexadecimal digits.\<close>

theorem sha256_shape:
  "(\<exists>k<64. sha_padded s = map byte_of_char s @ [0x80] @ replicate k 0 @ length_bytes (word_of_nat (length s) * 8)) \<and>
   length (sha_padded s) mod 64 = 0 \<and> length (binding_sha256 s) = 64 \<and> set (binding_sha256 s) \<subseteq> set hex_digits"
proof -
  obtain k where "k < 64" "pad_zeros (map byte_of_char s @ [0x80]) = (map byte_of_char s @ [0x80]) @ replicate k 0"
    using pad_zeros_fills by blast
  then have "\<exists>k<64. sha_padded s = map byte_of_char s @ [0x80] @ replicate k 0 @ length_bytes (word_of_nat (length s) * 8)"
    by (intro exI [of _ k]) (simp add: sha_padded_def)
  then show ?thesis using sha_padded_length sha_hex by blast
qed

end
