(* ===== verification/Bridge_Properties.thy ===== *)
theory Bridge_Properties
  imports Bridge_Emit Prsm_Selection Binding_Properties Registration_Lines
begin

text \<open>
  The C++ bridge of a module: its header, its source and its table of calls are about the same calls, and
  the images of enumerators that the compiler compares are those of their values.
\<close>

section \<open>Texts without control characters\<close>

definition visible :: "string \<Rightarrow> bool" where
  "visible s \<longleftrightarrow> list_all (\<lambda>c. 32 \<le> code_of c) s"

lemma visible_simps [simp]:
  "visible []" "visible (c # s) \<longleftrightarrow> 32 \<le> code_of c \<and> visible s" "visible (s @ t) \<longleftrightarrow> visible s \<and> visible t"
  by (simp_all add: visible_def)

lemma visible_concat: "visible (concat ss) \<longleftrightarrow> list_all visible ss"
  by (induction ss) simp_all

lemma visible_plain: "plain_text s \<Longrightarrow> visible s"
  by (auto simp: plain_text_def visible_def list_all_iff)

lemma visible_identifier: "cpp_identifier s \<Longrightarrow> visible s"
proof -
  have "is_letter c \<or> is_digit c \<Longrightarrow> 32 \<le> code_of c" for c
    by (auto simp: is_letter_def is_digit_def code_of_def)
  then show "cpp_identifier s \<Longrightarrow> visible s" by (auto simp: cpp_identifier_def visible_def list_all_iff)
qed

lemma identifier_parenthesis: "cpp_identifier s \<Longrightarrow> CHR ''('' \<notin> set s"
  by (auto simp: cpp_identifier_def list_all_iff is_letter_def is_digit_def code_of_def)

lemma visible_digits: "list_all is_digit s \<Longrightarrow> visible s"
  by (auto simp: visible_def list_all_iff is_digit_def)

lemma visible_show_nat [simp]: "visible (show_nat n)"
  by (rule visible_digits) (auto simp: list_all_iff dest: show_nat_digits)

lemma visible_show_int [simp]: "visible (show_int i)"
  by (simp add: show_int_def) (simp add: code_of_def)

lemma visible_hex_digits: "set s \<subseteq> set ''0123456789abcdef'' \<Longrightarrow> visible s"
proof -
  assume s: "set s \<subseteq> set ''0123456789abcdef''"
  have "\<forall>c \<in> set ''0123456789abcdef''. 32 \<le> code_of c" by (simp add: code_of_def)
  with s show "visible s" unfolding visible_def list_all_iff by blast
qed

lemma visible_hex_text [simp]: "visible (hex_text s)"
proof -
  have "''0123456789abcdef'' ! d \<in> set ''0123456789abcdef''" if "d < 16" for d using that by (intro nth_mem) simp
  moreover have "\<forall>c \<in> set ''0123456789abcdef''. 32 \<le> code_of c" by (simp add: code_of_def)
  ultimately have "32 \<le> code_of (''0123456789abcdef'' ! d)" if "d < 16" for d using that by blast
  then show ?thesis by (induction s) (simp_all add: hex_text_Cons)
qed

lemma visible_sha [simp]: "visible (binding_sha256 s)"
  using sha_hex [of s] by (intro visible_hex_digits) (simp add: hex_digits_def)

lemma visible_quoted: "visible s \<Longrightarrow> visible (quoted_literal s)"
  by (induction s) (simp_all add: quoted_literal_def code_of_def)

lemma visible_catalog_quoted: "visible s \<Longrightarrow> visible (catalog_quoted s)"
proof -
  have "visible out \<Longrightarrow> visible s \<Longrightarrow> visible (foldl (\<lambda>result c. (if c = CHR 0x5C \<or> c = CHR 0x22 then result @ [CHR 0x5C] else result) @ [c]) out s)" for out
    by (induction s arbitrary: out) (simp_all add: code_of_def)
  then show "visible s \<Longrightarrow> visible (catalog_quoted s)" by (simp add: catalog_quoted_def code_of_def)
qed

lemma visible_scalar [simp]: "visible (scalar_name t)"
  by (cases t) (simp_all add: code_of_def)

lemma visible_separated: "visible between \<Longrightarrow> list_all visible xs \<Longrightarrow> visible (separated between xs)"
  by (induction between xs rule: separated.induct) simp_all

lemma visible_comma: "list_all visible xs \<Longrightarrow> visible (comma_items b xs)"
  by (induction b xs rule: comma_items.induct) (simp_all add: code_of_def)

lemma no_newline: "visible s \<Longrightarrow> CHR 0x0A \<notin> set s"
  by (auto simp: visible_def list_all_iff code_of_def)

lemma no_tab: "visible s \<Longrightarrow> CHR 0x09 \<notin> set s"
  by (auto simp: visible_def list_all_iff code_of_def)

lemma visible_item: "visible out \<Longrightarrow> visible s \<Longrightarrow> visible (append_item out s)"
  by (simp add: append_item_def) (simp add: code_of_def)

lemma visible_items: "visible out \<Longrightarrow> list_all visible ss \<Longrightarrow> visible (append_items out ss)"
  by (induction ss arbitrary: out) (simp_all add: append_items_def visible_item)

lemma visible_foldl:
  "visible out \<Longrightarrow> (\<And>out x. visible out \<Longrightarrow> x \<in> set xs \<Longrightarrow> visible (f out x)) \<Longrightarrow> visible (foldl f out xs)"
  by (induction xs arbitrary: out) simp_all

section \<open>Modules that are built\<close>

lemma kinds_visible:
  assumes "list_all (\<lambda>t. visible (type_cpp_name t)) types" "receiver_kinds types name \<noteq> None"
  shows "visible name"
proof -
  have "name \<in> fst ` set (rev (map (\<lambda>t. (type_cpp_name t, type_receiver t)) types))"
    using assms(2) unfolding receiver_kinds_eq by (simp only: map_of_eq_None_iff) simp
  with assms(1) show ?thesis by (auto simp: list_all_iff)
qed

lemma check_cases_each:
  "check_cases v names numbers cs = [] \<Longrightarrow> c \<in> set cs \<Longrightarrow> cpp_identifier (case_name c) \<and> enumerator_value (case_value c) (value_underlying v)"
  by (induction cs arbitrary: names numbers) (auto simp: Let_def)

lemma check_fields_each:
  "check_fields v names fin fs = [] \<Longrightarrow> f \<in> set fs \<Longrightarrow> cpp_identifier (value_field_name f)"
  by (induction fs arbitrary: names fin) (auto simp: Let_def)

lemma enumerator_digits:
  assumes "enumerator_value s t"
  shows "visible s"
proof -
  have "list_all is_digit (if s \<noteq> [] \<and> hd s = CHR ''-'' then tl s else s)"
    using assms by (simp add: enumerator_value_def Let_def split: if_splits)
  then show ?thesis
    by (cases s) (auto simp: code_of_def is_digit_def dest: visible_digits split: if_splits)
qed

definition visible_value :: "binding_value \<Rightarrow> bool" where
  "visible_value v \<longleftrightarrow> visible (value_cpp_name v) \<and> (\<forall>f\<in>set (value_fields v). visible (value_field_name f)) \<and>
     (\<forall>c\<in>set (value_cases v). visible (case_name c) \<and> visible (case_value c))"

lemma valid_value_visible:
  assumes "plain_text (value_cpp_name v)" "value_report v = []"
  shows "visible_value v"
proof (cases "value_kind v")
  case Record
  with assms have "value_cases v = []" "check_fields v {} 0 (value_fields v) = []"
    by (auto simp: value_report_def check_record_def Let_def)
  with assms(1) show ?thesis
    by (auto simp: visible_value_def visible_plain visible_identifier dest: check_fields_each)
next
  case Enumeration
  with assms have "value_fields v = []" "check_cases v {} {} (value_cases v) = []"
    by (auto simp: value_report_def check_enumeration_def)
  with assms(1) show ?thesis
    by (auto simp: visible_value_def visible_plain visible_identifier enumerator_digits dest: check_cases_each)
qed

definition visible_call :: "module_input \<Rightarrow> callable \<Rightarrow> bool" where
  "visible_call m call \<longleftrightarrow> list_all visible [call_symbol call, call_script_name call, call_cpp_name call, call_signature call,
     call_receiver call, call_handle_result call, call_native_result call] \<and> CHR ''('' \<notin> set (call_symbol call) \<and>
     (\<forall>i<length (call_parameters call). visible (native_argument call i)) \<and>
     (\<forall>name\<in>set (referenced_values call). find_value (module_values m) name \<noteq> None)"

definition visible_module :: "module_input \<Rightarrow> bool" where
  "visible_module m \<longleftrightarrow> visible (module_identity m) \<and> visible (triple (module_target m)) \<and>
     (\<forall>s\<in>set (module_sources m). visible (source_name s)) \<and> (\<forall>v\<in>set (module_values m). visible_value v) \<and>
     (\<forall>call\<in>set (module_callables m). visible_call m call)"

lemma native_types_visible: "s \<in> native_types \<Longrightarrow> visible s"
proof -
  have "\<forall>s\<in>native_types. visible s" by (simp add: native_types_def code_of_def)
  then show "s \<in> native_types \<Longrightarrow> visible s" by blast
qed

lemma c_type_visible [simp]: "visible (c_type t b)"
  by (cases t; cases b) (simp_all add: c_type_def Let_def code_of_def)

lemma referenced_found:
  assumes "value_slot m (call_result_value call)" "list_all (value_slot m) (call_parameter_values call)"
    "name \<in> set (referenced_values call)"
  shows "find_value (module_values m) name \<noteq> None"
  using assms by (auto simp: set_referenced value_slot_def list_all_iff)

lemma valid_call_visible:
  assumes types: "list_all (\<lambda>t. visible (type_cpp_name t)) (module_types m)"
    and proper: "proper_call (receiver_kinds (module_types m)) call" and report: "call_report m call = []"
  shows "visible_call m call"
proof -
  let ?kinds = "receiver_kinds (module_types m)"
  have slots: "check_slots m call = []" and owner: "check_owner ?kinds call = []"
    using report by (simp_all add: call_report_def)
  have receivers: "visible (call_receiver call)" "visible (call_handle_result call)"
    using owner proper kinds_visible [OF types, of "call_receiver call"] kinds_visible [OF types, of "call_handle_result call"]
    by (cases "call_operation call = Owner"; simp add: check_owner_def proper_call_def)+
  have native: "visible (call_native_result call)"
    using slots native_types_visible [of "call_native_result call"] visible_plain [of "call_native_result call"]
    by (cases "call_native_result call = []"; cases "call_result_value call = []") (simp_all add: check_slots_def)
  have arguments: "visible (native_argument call i)" if i: "i < length (call_parameters call)" for i
  proof (cases "call_native_parameters call = []")
    case True
    then show ?thesis by (simp add: native_argument_def)
  next
    case False
    with slots i have "i < length (call_native_parameters call)" by (simp add: check_slots_def)
    moreover have "\<forall>i<length (call_native_parameters call).
        \<not> (let name = call_native_parameters call ! i
           in if parameter_value call i = [] then name = ''void'' \<or> name \<notin> native_types else \<not> plain_text name)"
      using slots unfolding check_slots_def by (simp add: Let_def)
    ultimately have "call_native_parameters call ! i \<in> native_types \<or> plain_text (call_native_parameters call ! i)"
      by (auto simp: Let_def split: if_splits)
    with False show ?thesis using native_types_visible visible_plain by (auto simp: native_argument_def)
  qed
  have "value_slot m (call_result_value call)" "list_all (value_slot m) (call_parameter_values call)"
    using slots by (simp_all add: check_slots_def)
  then show ?thesis
    using receivers native arguments proper referenced_found [of m call]
    by (simp add: visible_call_def proper_call_def visible_plain identifier_parenthesis)
qed

lemma valid_module_visible:
  assumes "valid_module m"
  shows "visible_module m"
proof -
  have types: "list_all (\<lambda>t. visible (type_cpp_name t)) (module_types m)"
    using assms by (auto simp: valid_module_def proper_names_def list_all_iff visible_plain)
  moreover have "visible (triple (module_target m))"
  proof -
    have "\<forall>t\<in>module_targets. visible t" by (simp add: module_targets_def code_of_def)
    with assms show ?thesis by (simp add: valid_module_def)
  qed
  ultimately show ?thesis
    using assms valid_call_visible [OF types]
    by (simp add: valid_module_def visible_module_def proper_names_def proper_source_def visible_plain valid_value_visible)
qed

lemma built_visible:
  assumes "fst (build_binding_module m report) = Some b"
  shows "visible_module (input_of b) \<and> contracts b = map (contract_of (input_of b)) (module_callables (input_of b))"
proof -
  have "valid_module m" and b: "b = module_of (sorted_input m)" using assms by (auto simp: build_iff split: if_splits)
  then have visible: "visible_module m" by (simp add: valid_module_visible)
  have found: "find_value (sort_key value_cpp_name vs) name = None \<longleftrightarrow> find_value vs name = None" for vs name
    by (simp add: find_value_def find_None_iff)
  have "visible_call (sorted_input m) call \<longleftrightarrow> visible_call m call" for call
    by (simp add: visible_call_def sorted_input_def found)
  with visible show ?thesis by (simp add: b module_of_def visible_module_def) (simp add: sorted_input_def)
qed

section \<open>Lines that begin an entry point\<close>

text \<open>The symbol on a line that begins with a prefix, up to its parenthesis; the symbols of a text.\<close>

definition symbol_on :: "string \<Rightarrow> string \<Rightarrow> string option" where
  "symbol_on prefix row =
     (if take (length prefix) row = prefix then Some (takeWhile (\<lambda>c. c \<noteq> CHR ''('') (drop (length prefix) row)) else None)"

definition symbols_in :: "string \<Rightarrow> string \<Rightarrow> string list" where
  "symbols_in prefix file = List.map_filter (symbol_on prefix) (file_lines file)"

definition declaration_prefix :: string where
  "declaration_prefix = ''REFLGEN_PRSM_API int32_t REFLGEN_PRSM_BINDING_CDECL ''"

definition definition_prefix :: string where
  "definition_prefix = ''extern \"C\" int32_t REFLGEN_PRSM_BINDING_CDECL ''"

lemma symbol_on_other: "prefix \<noteq> [] \<Longrightarrow> c \<noteq> hd prefix \<Longrightarrow> symbol_on prefix (c # s) = None"
  by (cases prefix) (simp_all add: symbol_on_def)

lemma symbol_on_empty: "prefix \<noteq> [] \<Longrightarrow> symbol_on prefix [] = None"
  by (simp add: symbol_on_def)

lemma symbol_on_this: "CHR ''('' \<notin> set name \<Longrightarrow> symbol_on prefix (prefix @ name @ CHR ''('' # s) = Some name"
  by (simp add: symbol_on_def takeWhile_append)

lemma file_lines_text: "list_all visible ls \<Longrightarrow> file_lines (text_lines ls) = ls"
  by (induction ls) (simp_all add: text_lines_def file_lines_row no_newline)

text \<open>A text of whole lines without control characters, with these symbols.\<close>

definition listing :: "string \<Rightarrow> string list \<Rightarrow> string \<Rightarrow> bool" where
  "listing prefix symbols file \<longleftrightarrow>
     (\<exists>ls. file = text_lines ls \<and> list_all visible ls \<and> List.map_filter (symbol_on prefix) ls = symbols)"

lemma listing_symbols: "listing prefix symbols file \<Longrightarrow> symbols_in prefix file = symbols"
  by (auto simp: listing_def symbols_in_def file_lines_text)

lemma text_lines_append: "text_lines (as @ bs) = text_lines as @ text_lines bs"
  by (simp add: text_lines_def)

lemma listing_append:
  assumes "listing prefix as s" "listing prefix bs t"
  shows "listing prefix (as @ bs) (s @ t)"
proof -
  obtain ks ls where "s = text_lines ks" "list_all visible ks" "List.map_filter (symbol_on prefix) ks = as"
    "t = text_lines ls" "list_all visible ls" "List.map_filter (symbol_on prefix) ls = bs"
    using assms by (auto simp: listing_def)
  then show ?thesis unfolding listing_def
    by (intro exI [of _ "ks @ ls"]) (auto simp: text_lines_append map_filter_def)
qed

lemma listing_none: "list_all (\<lambda>l. visible l \<and> symbol_on prefix l = None) ls \<Longrightarrow> listing prefix [] (text_lines ls)"
proof -
  assume "list_all (\<lambda>l. visible l \<and> symbol_on prefix l = None) ls"
  then have "list_all visible ls" "List.map_filter (symbol_on prefix) ls = []"
    by (induction ls) (simp_all add: map_filter_simps)
  then show ?thesis by (auto simp: listing_def)
qed

lemma listing_Nil [simp]: "listing prefix [] []"
  using listing_none [of prefix "[]"] by (simp add: text_lines_def)

lemma listing_one: "visible l \<Longrightarrow> symbol_on prefix l = Some name \<Longrightarrow> listing prefix [name] (text_lines [l])"
  unfolding listing_def by (intro exI [of _ "[l]"]) (simp add: map_filter_simps)

lemma listing_concat: "\<forall>x\<in>set xs. listing prefix (f x) (g x) \<Longrightarrow> listing prefix (concat (map f xs)) (concat (map g xs))"
  by (induction xs) (simp_all add: listing_append)

lemma listing_concat_none: "\<forall>x\<in>set xs. listing prefix [] (g x) \<Longrightarrow> listing prefix [] (concat (map g xs))"
  by (induction xs) (use listing_append [of prefix "[]" _ "[]"] in simp_all)

section \<open>The pieces\<close>

lemma case_table_visible [simp]: "visible (case_table name)"
  by (simp add: case_table_def) (simp add: code_of_def)

lemma argument_value_visible: "visible_module m \<Longrightarrow> argument_value m call i = Some v \<Longrightarrow> visible_value v"
  by (auto simp: argument_value_def visible_module_def find_value_def find_Some_iff split: if_splits)

lemma result_slot_visible: "visible_module m \<Longrightarrow> result_slot m call = Some v \<Longrightarrow> visible_value v"
  by (auto simp: result_slot_def visible_module_def find_value_def find_Some_iff split: if_splits)

lemma argument_name_visible [simp]: "visible (argument_name i)"
  by (simp add: argument_name_def) (simp add: code_of_def)

lemma argument_declaration_visible [simp]: "visible (argument_declaration m call i)"
  by (simp add: argument_declaration_def split: option.split) (simp add: code_of_def)

lemma result_declaration_visible [simp]: "visible (result_declaration m call)"
  by (simp add: result_declaration_def split: option.split) (simp add: code_of_def)

lemma invoked_argument_visible [simp]: "visible (invoked_argument m call i)"
  by (simp add: invoked_argument_def split: option.split) (simp add: code_of_def)

lemma over_arguments_visible: "(\<And>i. i < length (call_parameters call) \<Longrightarrow> visible (f i)) \<Longrightarrow> list_all visible (over_arguments call f)"
  by (auto simp: over_arguments_def list_all_iff)

lemma invocation_visible: "visible_call m call \<Longrightarrow> visible (invocation m call)"
  using visible_separated [of "'', ''" "over_arguments call (invoked_argument m call)"] over_arguments_visible [of call "invoked_argument m call"]
  by (simp add: invocation_def visible_call_def) (simp add: code_of_def)

lemma call_declaration_parts:
  assumes "visible_call m call"
  obtains rest where "call_declaration m call = call_prefix @ call_symbol call @ CHR ''('' # rest" "visible rest"
proof -
  have "visible (concat (over_arguments call (argument_declaration m call)))"
    by (simp add: visible_concat over_arguments_visible)
  then have "visible (''uint64_t receiver'' @ concat (over_arguments call (argument_declaration m call)) @ result_declaration m call @ '')'')"
    by simp (simp add: code_of_def)
  moreover have "visible ''uint64_t* out_value)''" by (simp add: code_of_def)
  ultimately show thesis
    using that [of "''uint64_t* out_value)''"]
      that [of "''uint64_t receiver'' @ concat (over_arguments call (argument_declaration m call)) @ result_declaration m call @ '')''"]
    by (cases "call_operation call = Owner") (simp_all add: call_declaration_def)
qed

lemma declaration_listed:
  assumes "visible_call m call"
  shows "visible (bridge_declaration m call) \<and> symbol_on declaration_prefix (bridge_declaration m call) = Some (call_symbol call)"
proof -
  obtain rest where r: "call_declaration m call = call_prefix @ call_symbol call @ CHR ''('' # rest" "visible rest"
    using call_declaration_parts [OF assms] .
  have symbol: "visible (call_symbol call)" "CHR ''('' \<notin> set (call_symbol call)" using assms by (simp_all add: visible_call_def)
  have "bridge_declaration m call = declaration_prefix @ call_symbol call @ CHR ''('' # rest @ '' REFLGEN_PRSM_NOEXCEPT;''"
    by (simp add: bridge_declaration_def r(1) declaration_prefix_def call_prefix_def)
  moreover have "visible declaration_prefix" by (simp add: declaration_prefix_def code_of_def)
  ultimately show ?thesis using symbol r(2) symbol_on_this [OF symbol(2)] by simp (simp add: code_of_def)
qed

lemma definition_listed:
  assumes "visible_call m call" "visible tail"
  shows "listing definition_prefix [call_symbol call] (text_lines [''extern \"C\" '' @ call_declaration m call @ tail])"
proof (rule listing_one)
  obtain rest where r: "call_declaration m call = call_prefix @ call_symbol call @ CHR ''('' # rest" "visible rest"
    using call_declaration_parts [OF assms(1)] .
  have symbol: "visible (call_symbol call)" "CHR ''('' \<notin> set (call_symbol call)" using assms by (simp_all add: visible_call_def)
  have row: "''extern \"C\" '' @ call_declaration m call @ tail = definition_prefix @ call_symbol call @ CHR ''('' # rest @ tail"
    by (simp add: r(1) definition_prefix_def call_prefix_def)
  have "visible definition_prefix" by (simp add: definition_prefix_def code_of_def)
  then show "visible (''extern \"C\" '' @ call_declaration m call @ tail)"
    unfolding row using symbol r(2) assms(2) by simp (simp add: code_of_def)
  show "symbol_on definition_prefix (''extern \"C\" '' @ call_declaration m call @ tail) = Some (call_symbol call)"
    unfolding row by (rule symbol_on_this [OF symbol(2)])
qed

section \<open>Functions\<close>

lemma prefix_first: "definition_prefix \<noteq> []" "hd definition_prefix = CHR ''e''"
  by (simp_all add: definition_prefix_def)

lemmas other_row = symbol_on_other [OF prefix_first(1)] symbol_on_empty [OF prefix_first(1)] prefix_first(2) code_of_def

lemma template_visible [simp]: "visible (access_template kind)" "visible (owner_template kind)"
  by (cases kind; simp add: code_of_def)+

lemma text_lines_Cons: "text_lines (l # ls) = text_lines [l] @ text_lines ls"
  by (simp add: text_lines_def)

lemma owner_listed:
  assumes "visible_call m call"
  shows "listing definition_prefix [call_symbol call] (owner_function m call)"
proof -
  have handle: "visible (call_handle_result call)" using assms by (simp add: visible_call_def)
  have tail: "visible '' noexcept {''" by (simp add: code_of_def)
  show ?thesis
    unfolding owner_function_def Let_def
    by (subst text_lines_Cons, rule listing_append [OF definition_listed [OF assms tail], of "[]", simplified append_Nil2])
      (rule listing_none, simp add: handle other_row)
qed

lemma check_listed: "listing definition_prefix [] (argument_check m call i)"
  by (auto simp: argument_check_def other_row split: option.split intro!: listing_none)

lemma conversion_listed:
  assumes "visible_module m"
  shows "listing definition_prefix [] (argument_conversion m call i)"
proof (cases "argument_value m call i")
  case (Some v)
  then have "visible (value_cpp_name v)" using argument_value_visible [OF assms] by (simp add: visible_value_def)
  with Some show ?thesis
    by (auto simp: argument_conversion_def Let_def other_row intro!: listing_none)
qed (simp add: argument_conversion_def)

lemma indented_text: "''        '' @ text_lines (l # ls) = text_lines ((''        '' @ l) # ls)"
  by (simp add: text_lines_def)

lemma result_listed:
  assumes "visible_module m" "visible_call m call"
  shows "listing definition_prefix [] (''        '' @ result_conversion m call)"
proof (cases "result_slot m call")
  case None
  have "''        '' @ result_conversion m call = text_lines ((''        '' @ (if call_result call \<noteq> Void then ''const auto result = '' else []) @ invocation m call @ '';'') #
      (if call_result call \<noteq> Void then [''        *out_value = '' @
             (if call_result call = Boolean then ''static_cast<uint8_t>(result ? 1 : 0)'' else ''result'') @ '';''] else []))"
    using None by (simp add: result_conversion_def text_lines_def)
  also have "listing definition_prefix [] \<dots>"
    using invocation_visible [OF assms(2)] by (intro listing_none) (simp add: other_row)
  finally show ?thesis .
next
  case (Some v)
  then have v: "visible (value_cpp_name v)" using result_slot_visible [OF assms(1)] by (simp add: visible_value_def)
  show ?thesis
    unfolding result_conversion_def Some option.case Let_def
    using v invocation_visible [OF assms(2)]
    by (simp only: indented_text split: if_split) (simp add: other_row listing_none)
qed

lemma listing_none_append: "listing p [] s \<Longrightarrow> listing p bs t \<Longrightarrow> listing p bs (s @ t)"
  using listing_append [of p "[]" s bs t] by simp

lemma listing_append_none: "listing p as s \<Longrightarrow> listing p [] t \<Longrightarrow> listing p as (s @ t)"
  using listing_append [of p as s "[]" t] by simp

lemma over_listed: "(\<And>i. listing p [] (f i)) \<Longrightarrow> listing p [] (concat (over_arguments call f))"
  unfolding over_arguments_def by (rule listing_concat_none) simp

lemma signature_visible: "visible_call m call \<Longrightarrow> visible (signature_assert call)"
  using visible_separated [of "'', ''" "over_arguments call (native_argument call)"] over_arguments_visible [of call "native_argument call"]
  by (auto simp: signature_assert_def visible_call_def code_of_def)

lemma method_listed:
  assumes m: "visible_module m" and call: "visible_call m call"
  shows "listing definition_prefix [call_symbol call] (method_function m call)"
proof -
  have signature: "listing definition_prefix [] (text_lines [signature_assert call])"
    using signature_visible [OF call] by (intro listing_none) (simp add: signature_assert_def other_row)
  have receiver: "visible (call_receiver call)" using call by (simp add: visible_call_def)
  have header: "listing definition_prefix [call_symbol call] (text_lines [''extern \"C\" '' @ call_declaration m call @ '' noexcept'', ''{''])"
    by (subst text_lines_Cons, rule listing_append_none [OF definition_listed [OF call]]) (simp_all add: other_row listing_none)
  have floats: "listing definition_prefix [] (if uses_floats call then text_lines [''static_assert(sizeof(float) == 4 && sizeof(double) == 8 && '' @
        ''std::numeric_limits<float>::is_iec559 && std::numeric_limits<double>::is_iec559);''] else [])"
    by (simp add: other_row listing_none)
  have target: "listing definition_prefix [] (if call_result call \<noteq> Void \<or> result_slot m call \<noteq> None
      then text_lines [''    if (!out_value) return REFLGEN_PRSM_BINDING_INVALID_ARGUMENT;''] else [])"
    by (simp add: other_row listing_none)
  have guard: "listing definition_prefix [] (text_lines
      [''    try {'', ''        ::reflgen::prsm::'' @ access_template (call_receiver_kind call) @ ''<::'' @ call_receiver call @ ''> access(receiver);'',
       ''        static_assert(std::is_nothrow_destructible_v<decltype(access)>);'',
       ''        static_assert(noexcept(access.status()) && noexcept(access.get()));'',
       ''        static_assert(std::is_same_v<decltype(access.status()), int32_t>);'',
       ''        static_assert(std::is_same_v<decltype(access.get()), ::'' @ call_receiver call @ ''*>);'',
       ''        const auto status = access.status();'', ''        if (status != 0) return status;'',
       ''        auto* object = access.get();'', ''        if (!object) return REFLGEN_PRSM_BINDING_INVALID_HANDLE;''])"
    by (rule listing_none) (simp add: receiver other_row)
  have final: "listing definition_prefix [] (text_lines [''        return REFLGEN_PRSM_BINDING_OK;'',
      ''    } catch (...) { return REFLGEN_PRSM_BINDING_NATIVE_FAILURE; }'', ''}''])"
    by (rule listing_none) (simp add: other_row)
  have "listing definition_prefix [call_symbol call] (method_function m call)"
    if "s = ''        '' @ result_conversion m call" for s
  proof -
    note listing_none_append [OF signature listing_none_append [OF floats listing_append_none [OF header
      listing_none_append [OF target listing_none_append [OF over_listed [OF check_listed] listing_none_append [OF guard
      listing_none_append [OF over_listed [OF conversion_listed [OF m]] listing_none_append [OF result_listed [OF m call] final]]]]]]]]
    then show ?thesis unfolding method_function_def append_assoc .
  qed
  then show ?thesis by simp
qed

lemma bridge_listed: "visible_module m \<Longrightarrow> visible_call m call \<Longrightarrow> listing definition_prefix [call_symbol call] (bridge_function m call)"
  by (simp add: bridge_function_def owner_listed method_listed)

section \<open>The source\<close>

lemma unsigned_image_visible [simp]: "visible (unsigned_image s)"
  by (simp add: unsigned_image_def Let_def) (simp add: code_of_def)

lemma truth_visible [simp]: "visible (truth b)"
  by (simp add: truth_def code_of_def)

lemma value_contract_rows:
  assumes "visible_value v"
  shows "list_all (\<lambda>l. visible l \<and> symbol_on definition_prefix l = None) (value_contract v)"
proof (cases "value_kind v")
  case Record
  with assms show ?thesis
    by (simp add: value_contract_def Let_def visible_value_def field_contract_def list_all_iff other_row)
next
  case Enumeration
  have "list_all visible (map (\<lambda>c. ''::'' @ value_cpp_name v @ ''::'' @ case_name c) (value_cases v))"
    using assms by (simp add: list_all_iff visible_value_def code_of_def)
  from visible_separated [of "'', ''", OF _ this] have "visible (separated '', '' (map (\<lambda>c. ''::'' @ value_cpp_name v @ ''::'' @ case_name c) (value_cases v)))"
    by (simp add: code_of_def)
  with assms Enumeration show ?thesis
    by (simp add: value_contract_def Let_def visible_value_def case_contract_def list_all_iff other_row)
qed

lemma contracts_listed:
  assumes "visible_module (input_of b)"
  shows "listing definition_prefix [] (emit_value_contracts b)"
  unfolding emit_value_contracts_def Let_def
  using assms value_contract_rows by (intro listing_none) (auto simp: visible_module_def list_all_iff other_row)

lemma native_entry_row:
  assumes "visible_call m call"
  shows "\<exists>l. native_entry (contract_of m call) = text_lines [l] \<and> visible l \<and> symbol_on definition_prefix l = None"
proof -
  have symbol: "visible (call_symbol call)" using assms by (simp add: visible_call_def)
  have "visible (take n (drop k (abi_sha256 (contract_of m call))))" for n k
    using set_take_subset [of n "drop k (abi_sha256 (contract_of m call))"] set_drop_subset [of k "abi_sha256 (contract_of m call)"]
      visible_sha [of "descriptor m call"] by (auto simp: visible_def list_all_iff contract_of_def Let_def)
  then have "visible (comma_items True (map (\<lambda>j. ''0x'' @ take 2 (drop (2 * j) (abi_sha256 (contract_of m call)))) [0..<n]))" for n
    by (intro visible_comma) (simp add: list_all_iff code_of_def)
  with symbol show ?thesis
    by (intro exI) (auto simp: native_entry_def Let_def text_lines_def contract_of_def visible_catalog_quoted other_row)
qed

lemma table_listed:
  assumes "visible_module m" "\<forall>k\<in>set (contracts b). \<exists>call. k = contract_of m call \<and> visible_call m call"
  shows "listing definition_prefix [] (emit_prsm_native_table b)"
proof -
  let ?first = "''static const reflgen_prsm_binding_entry binding_entries[] = {''"
  let ?last = "''extern \"C\" const reflgen_prsm_binding_entry* REFLGEN_PRSM_BINDING_CDECL ce_prsm_table_'' @ hex_text (module_identity (input_of b)) @
     ''(uint32_t* count) noexcept { if (!count) return nullptr; *count = '' @ show_nat (length (contracts b)) @ ''; return '' @
     (if contracts b = [] then ''nullptr'' else ''binding_entries'') @ ''; }''"
  have rows: "listing definition_prefix [] (concat (map native_entry (contracts b)))"
    using assms native_entry_row by (intro listing_concat_none ballI) (fastforce intro: listing_none)
  have fixed: "listing definition_prefix [] (text_lines [?first])" "listing definition_prefix [] (text_lines [''};''])"
    by (rule listing_none, simp add: other_row)+
  have "listing definition_prefix [] (text_lines [?last])"
    by (rule listing_none) (simp add: symbol_on_def definition_prefix_def code_of_def)
  then show ?thesis
    using listing_none_append [OF listing_none_append [OF fixed(1) listing_none_append [OF rows fixed(2)]]]
    by (cases "contracts b = []") (simp_all add: emit_prsm_native_table_def Let_def text_lines_def)
qed

lemma source_listed:
  assumes m: "visible_module (input_of b)" and calls: "contracts b = map (contract_of (input_of b)) (module_callables (input_of b))"
    and adapter: "visible adapter"
  shows "listing definition_prefix (map call_symbol (module_callables (input_of b))) (bridge_source b adapter)"
proof -
  let ?m = "input_of b"
  have each: "visible_call ?m call" if "call \<in> set (module_callables ?m)" for call
    using m that by (simp add: visible_module_def)
  have strings: "visible (module_identity ?m)" "\<forall>s\<in>set (module_sources ?m). visible (source_name s)"
    using m by (simp_all add: visible_module_def)
  have preamble: "listing definition_prefix [] (text_lines (
        [''// <auto-generated/> PrSM production binding ABI v1'', ''#define '' @ build_macro b,
         ''#include '' @ quoted_literal (''reflgen_'' @ module_identity ?m @ ''_prsm'' @ ''.h''), ''#include <reflgen/prsm/access.h>'',
         ''#include <type_traits>'', ''#include <limits>''] @
        bridge_guard (module_target ?m) @ map source_line (module_sources ?m) @ [''#include '' @ quoted_literal adapter]))"
    using strings adapter
    by (intro listing_none) (auto simp: list_all_iff build_macro_def bridge_guard_def source_line_def visible_quoted other_row)
  have contracts: "listing definition_prefix [] (if module_values ?m \<noteq> []
      then text_lines [''#include <array>'', ''#include <bit>'', ''#include <cstddef>'', ''#include <cstring>''] @ emit_value_contracts b else [])"
    using contracts_listed [OF m] listing_none_append [of definition_prefix "text_lines [''#include <array>'', ''#include <bit>'', ''#include <cstddef>'', ''#include <cstring>'']"]
    by (simp add: listing_none other_row)
  have bodies: "listing definition_prefix (map call_symbol (module_callables ?m)) (concat (map (\<lambda>k. bridge_function ?m (contract_call k)) (contracts b)))"
    using listing_concat [of "module_callables ?m" definition_prefix "\<lambda>call. [call_symbol call]" "bridge_function ?m"] each bridge_listed [OF m]
    by (simp add: calls contract_of_def Let_def comp_def)
  have "listing definition_prefix [] (emit_prsm_native_table b)"
    using calls each by (intro table_listed [OF m]) auto
  from listing_none_append [OF preamble listing_none_append [OF contracts listing_append_none [OF bodies this]]]
  show ?thesis unfolding bridge_source_def Let_def .
qed

section \<open>The header\<close>

lemma header_listed:
  assumes m: "visible_module (input_of b)" and calls: "contracts b = map (contract_of (input_of b)) (module_callables (input_of b))"
  shows "listing declaration_prefix (map call_symbol (module_callables (input_of b))) (bridge_header b)"
proof -
  let ?m = "input_of b"
  let ?declared = "map (\<lambda>k. bridge_declaration ?m (contract_call k)) (contracts b)"
  have each: "visible (bridge_declaration ?m call) \<and> symbol_on declaration_prefix (bridge_declaration ?m call) = Some (call_symbol call)"
    if "call \<in> set (module_callables ?m)" for call
    using m that declaration_listed by (simp add: visible_module_def)
  have "listing declaration_prefix (map call_symbol (module_callables ?m)) (text_lines ?declared)"
  proof -
    have "list_all visible ?declared" using each by (auto simp: calls contract_of_def Let_def list_all_iff)
    moreover have "List.map_filter (symbol_on declaration_prefix) (map (bridge_declaration ?m) cs) = map call_symbol cs"
      if "set cs \<subseteq> set (module_callables ?m)" for cs
      using that each by (induction cs) (simp_all add: map_filter_simps)
    ultimately show ?thesis unfolding listing_def by (intro exI [of _ ?declared]) (simp add: calls contract_of_def Let_def comp_def)
  qed
  note declared = this
  have first: "listing declaration_prefix [] (text_lines
     [''// <auto-generated/> PrSM production binding ABI v1'', ''#pragma once'', ''#include <reflgen/prsm/binding_abi.h>'',
      ''#ifdef __cplusplus'', ''#define REFLGEN_PRSM_NOEXCEPT noexcept'', ''extern \"C\" {'', ''#else'', ''#define REFLGEN_PRSM_NOEXCEPT'',
      ''#endif'',
      ''#if defined('' @ build_macro b @ '') && defined(_WIN32)'', ''#define REFLGEN_PRSM_API __declspec(dllexport)'',
      ''#elif defined('' @ build_macro b @ '')'', ''#define REFLGEN_PRSM_API __attribute__((visibility(\"default\")))'',
      ''#else'', ''#define REFLGEN_PRSM_API'', ''#endif''])"
    by (rule listing_none) (simp add: build_macro_def symbol_on_def declaration_prefix_def code_of_def)
  have final: "listing declaration_prefix [] (text_lines
     [''REFLGEN_PRSM_API const reflgen_prsm_binding_entry* REFLGEN_PRSM_BINDING_CDECL ce_prsm_table_'' @
        hex_text (module_identity ?m) @ ''(uint32_t* count) REFLGEN_PRSM_NOEXCEPT;'',
      ''#ifdef __cplusplus'', ''}'', ''#endif'', ''#undef REFLGEN_PRSM_NOEXCEPT'', ''#undef REFLGEN_PRSM_API''])"
    by (rule listing_none) (simp add: symbol_on_def declaration_prefix_def code_of_def)
  from listing_none_append [OF first listing_append_none [OF declared final]]
  show ?thesis unfolding bridge_header_def text_lines_append .
qed

section \<open>The table\<close>

fun split_at :: "char \<Rightarrow> string \<Rightarrow> string list" where
  "split_at c [] = [[]]"
| "split_at c (x # xs) =
     (if x = c then [] # split_at c xs
      else case split_at c xs of [] \<Rightarrow> [[x]] | s # ss \<Rightarrow> (x # s) # ss)"

lemma split_at_end: "c \<notin> set s \<Longrightarrow> split_at c s = [s]"
  by (induction s) auto

lemma split_at_part: "c \<notin> set s \<Longrightarrow> split_at c (s @ c # r) = s # split_at c r"
  by (induction s) auto

definition table_fields :: "call_contract \<Rightarrow> string list" where
  "table_fields k =
     (let call = contract_call k in
      [call_symbol call, if call_operation call = Owner then [] else call_receiver call, call_script_name call, abi_sha256 k, abi_descriptor k])"

lemma file_lines_rows: "list_all (\<lambda>l. CHR 0x0A \<notin> set l) ls \<Longrightarrow> file_lines (text_lines ls) = ls"
  by (induction ls) (simp_all add: text_lines_def file_lines_row)

lemma value_appended: "visible out \<Longrightarrow> visible_value v \<Longrightarrow> visible (append_value out v)"
  unfolding append_value_def
  by (cases "value_kind v")
    (auto simp: visible_value_def code_of_def intro!: visible_foldl visible_items visible_item)

lemma slot_token_visible: "visible_module m \<Longrightarrow> visible (slot_token (module_values m) t name)"
  by (auto simp: slot_token_def visible_module_def visible_value_def find_value_def find_Some_iff code_of_def split: option.split)

lemma descriptor_visible:
  assumes m: "visible_module m" and call: "visible_call m call"
  shows "visible (descriptor m call)"
proof -
  have "visible (append_value out (the (find_value (module_values m) name)))"
    if "name \<in> set (referenced_values call)" "visible out" for out name
  proof -
    have "find_value (module_values m) name \<noteq> None" using call that(1) by (simp add: visible_call_def)
    then obtain v where "find_value (module_values m) name = Some v" by blast
    moreover from this have "visible_value v" using m by (auto simp: visible_module_def find_value_def find_Some_iff)
    ultimately show ?thesis using value_appended [OF that(2)] by simp
  qed
  moreover have "visible (operation_name (call_operation call))" "visible (receiver_validation (call_receiver_kind call))"
    by (cases "call_operation call"; simp add: code_of_def) (cases "call_receiver_kind call"; simp add: code_of_def)
  ultimately show ?thesis
    using m call slot_token_visible [OF m]
    by (auto simp: descriptor_def append_values_def Let_def visible_module_def visible_call_def code_of_def
        intro!: visible_foldl visible_items visible_item)
qed

lemma table_row_fields:
  assumes "visible_module m" "visible_call m call"
  shows "split_at (CHR 0x09) (table_row (contract_of m call)) = table_fields (contract_of m call) \<and>
     CHR 0x0A \<notin> set (table_row (contract_of m call))"
proof -
  let ?k = "contract_of m call"
  have fields: "list_all visible (table_fields ?k)"
    using assms descriptor_visible [OF assms] by (simp add: table_fields_def contract_of_def Let_def visible_call_def)
  obtain a b c d e where parts: "table_fields ?k = [a, b, c, d, e]" by (simp add: table_fields_def Let_def)
  then have row: "table_row ?k = a @ CHR 0x09 # b @ CHR 0x09 # c @ CHR 0x09 # d @ CHR 0x09 # e"
    by (simp add: table_fields_def table_row_def Let_def)
  show ?thesis using fields unfolding parts row by (simp add: split_at_part split_at_end no_tab no_newline)
qed

text \<open>C26: The files of a bridge agree. For every module that is built, with an include path for the adapter that has no control characters, the header declares, and
  the source defines, on a line of its own, exactly one entry point for each call, by its symbol and in the order of the calls; no name
  of a source, type, value or call, and no native type, can add a line that looks like one. The
  table of the calls has one line for each, which splits at the tabs into the symbol, the receiver, the script name, the digest and the descriptor of the call.\<close>

theorem bridge_files_agree:
  assumes "fst (build_binding_module m report) = Some b" "safe_adapter adapter" "visible adapter"
  shows "\<exists>out. emit_prsm b adapter entries = (out, entries) \<and>
    symbols_in declaration_prefix (prsm_header out) = map (\<lambda>k. call_symbol (contract_call k)) (contracts b) \<and>
    symbols_in definition_prefix (prsm_source out) = map (\<lambda>k. call_symbol (contract_call k)) (contracts b) \<and>
    map (split_at (CHR 0x09)) (file_lines (prsm_table out)) = [''# reflgen.prsm.calls'', ''1''] # map table_fields (contracts b)"
proof -
  let ?m = "input_of b"
  have visible: "visible_module ?m" and calls: "contracts b = map (contract_of ?m) (module_callables ?m)"
    using built_visible [OF assms(1)] by simp_all
  have symbols: "map (\<lambda>k. call_symbol (contract_call k)) (contracts b) = map call_symbol (module_callables ?m)"
    by (simp add: calls contract_of_def Let_def)
  have row: "split_at (CHR 0x09) (table_row k) = table_fields k" "CHR 0x0A \<notin> set (table_row k)" if "k \<in> set (contracts b)" for k
    using that table_row_fields [OF visible] visible by (auto simp: calls visible_module_def)
  have "file_lines (abi_table b) = (''# reflgen.prsm.calls'' @ [CHR 0x09] @ ''1'') # map table_row (contracts b)"
    unfolding abi_table_def by (rule file_lines_rows) (simp add: list_all_iff row(2))
  moreover have "split_at (CHR 0x09) (''# reflgen.prsm.calls'' @ [CHR 0x09] @ ''1'') = [''# reflgen.prsm.calls'', ''1'']" by simp
  ultimately have table: "map (split_at (CHR 0x09)) (file_lines (abi_table b)) = [''# reflgen.prsm.calls'', ''1''] # map table_fields (contracts b)"
    using row(1) by simp
  show ?thesis
    unfolding emit_prsm_def symbols
    using assms(2) table listing_symbols [OF header_listed [OF visible calls]] listing_symbols [OF source_listed [OF visible calls assms(3)]]
    by simp
qed

theorem bridge_files_agree_witness:
  "\<exists>out. emit_prsm (module_of (sorted_input sample_module)) ''game/adapter.h'' [] = (out, []) \<and>
    symbols_in definition_prefix (prsm_source out) = map (\<lambda>k. call_symbol (contract_call k)) (contracts (module_of (sorted_input sample_module)))"
proof -
  have "safe_adapter ''game/adapter.h''" "visible ''game/adapter.h''" by code_simp+
  from bridge_files_agree [OF sample_built this] show ?thesis by blast
qed

section \<open>Enumerators\<close>

text \<open>
  The literal that the compiler compares with an enumerator, as an unsigned number of 64 bits, is the image of its value; the
  value of an accepted enumerator is one that \<open>std::stoull\<close> can read.
\<close>

lemma unsigned_image_value:
  assumes "enumerator_value s t"
  shows "\<exists>i. s = show_int i \<and> nat \<bar>i\<bar> < 2 ^ 64 \<and> unsigned_image s = show_nat (unat (word_of_int i :: 64 word)) @ ''ULL''"
proof -
  obtain i where i: "s = show_int i" "fst (scalar_range t) \<le> i" "i < snd (scalar_range t)"
    using assms by (auto simp: enumerator_value_numeral)
  have range: "nat \<bar>i\<bar> < 2 ^ 64"
    using i(2,3) by (cases t) (auto simp: scalar_range_def is_signed_def)
  have first: "hd (show_nat n) \<noteq> CHR ''-''" for n
    using show_nat_digits [of "hd (show_nat n)" n] by (auto simp: is_digit_def code_of_def)
  have "unsigned_image s = show_nat (unat (word_of_int i :: 64 word)) @ ''ULL''"
  proof (cases "i < 0")
    case True
    have "NOT (word_of_nat (nat (- i)) :: 64 word) + 1 = word_of_int i"
      using True by (simp add: not_eq_complement)
    with True i(1) show ?thesis by (simp add: unsigned_image_def show_int_def Let_def)
  next
    case False
    then have "word_of_nat (nat i) = (word_of_int i :: 64 word)" by simp
    with False i(1) first show ?thesis by (simp add: unsigned_image_def show_int_def Let_def)
  qed
  with i(1) range show ?thesis by blast
qed

end
