(* ===== verification/Spec2Isabelle.thy ===== *)
theory Spec2Isabelle
  imports Base64 Documents Type_Names Attribute_Grammar Prsm_Properties Interop_Properties Table_Properties
    Registration_Properties Bridge_Properties Binding_Properties
begin

text \<open>
  A verification library for reflgen, a reflection and serialization library for C++20 with a
  generator of bindings. The program has three layers, and so has the library.

  \<^bold>\<open>The backends.\<close> Two document formats implement one abstract writer and one abstract reader
  (\<open>include/reflgen/serial/writer.h\<close>, \<open>reader.h\<close>).

  \<^item> \<open>Prelude\<close>: fallible results, bytes, bit fields, decimal numerals, index loops, and \<open>prefix_code\<close>, the
    interface of a self-delimiting code.
  \<^item> \<open>Error_Path\<close>: \<open>serial/error.h\<close>. \<open>Utf\<close>: \<open>serial/detail/utf.h\<close>. \<open>Base64\<close>: \<open>json/base64.h\<close>.
    \<open>Ieee\<close>, \<open>Float_Text\<close>: binary floating-point numbers and their shortest decimal texts, which stand for
    \<open>std::to_chars\<close> and \<open>std::from_chars\<close>.
  \<^item> \<open>Data_Model\<close>: the abstract writer and reader as records of functions over a state, the tree of
    values that a document denotes, and the interfaces \<open>pull_reader\<close> and \<open>format\<close>: what a backend
    promises, and what follows from it for every backend.
  \<^item> \<open>Binary\<close>: \<open>binary/writer.h\<close>, \<open>reader.h\<close>, \<open>format.h\<close>, \<open>detail/endian.h\<close>; a definition per operation,
    with the frame stacks. \<open>Binary_Format\<close> interprets the interfaces on it; \<open>Binary_Safety\<close> has bounds
    and termination.
  \<^item> \<open>Json\<close>: \<open>json/writer.h\<close>, \<open>json/reader.h\<close>. \<open>Json_Grammar\<close> defines the texts of RFC 8259 as trees,
    \<open>Json_Conformance\<close> shows that the reader accepts exactly them, \<open>Json_Format\<close> and \<open>Json_Backend\<close>
    interpret the interfaces.

  \<^bold>\<open>Serialization of C++ values.\<close> The templates of \<open>serial/\<close> are instantiated at types; here the types
  are data.

  \<^item> \<open>Serial_Types\<close>: the universe of types (one constructor per \<open>value_category\<close>), values, described
    classes (\<open>core/schema.h\<close>, \<open>core/enum.h\<close>), the registry (\<open>runtime/registry.h\<close>) and the heap behind pointers.
  \<^item> \<open>Serial_Write\<close>, \<open>Serial_Read\<close>: \<open>serializer<T>\<close> and everything it calls in \<open>serial/detail/\<close>. Writing
    terminates, because the guard against cyclic references leaves finitely many addresses. Reading runs
    on fuel, which bounds the depth of calls and the length of loops; the properties state results
    for every fuel from some bound on.
  \<^item> \<open>Serial_Fields\<close>: the walk over bases is the walk along the fields. \<open>Serial_Nodes\<close>: what is written is
    always one value. \<open>Serial_Meaning\<close>: the node a value stands for, with the texts and the
    keys of maps given by code points and numerals, apart from the code that converts them. \<open>Serial_Round_Trip\<close>: reading it back.
  \<^item> \<open>Type_Names\<close>: \<open>core/name.h\<close>, the names of types, members and enumerators from what compilers print; a type as a
    list of tokens, the texts that spell it, and the part of the tokens that the name keeps.
  \<^item> \<open>Documents\<close>: \<open>to_bytes\<close>, \<open>from_bytes\<close>, \<open>to_string\<close>, \<open>from_string\<close> (\<open>binary.h\<close>, \<open>json.h\<close>) and the properties.

  \<^bold>\<open>The generator's binding module.\<close>

  \<^item> \<open>Strings\<close>, \<open>Generator_Model\<close>: searching and ordering strings; positions and diagnostics
    (\<open>generator/src/model.h\<close>, \<open>diagnostics.h\<close>).
  \<^item> \<open>Sha256\<close>: \<open>binding_hash.cpp\<close>. \<open>Binding_Ir\<close>: \<open>binding_ir.h\<close>, \<open>binding_ir.cpp\<close>.
  \<^item> \<open>Binding_Valid\<close>: the builder accepts exactly the valid modules. \<open>Binding_Order\<close>: the order of the
    input does not matter. \<open>Binding_Abi\<close>: layouts, enumerators, descriptors. \<open>Binding_Properties\<close>: the properties.

  \<^bold>\<open>From declarations to scripts.\<close>

  \<^item> \<open>Attribute_Scan\<close>: \<open>attribute_scan.cpp\<close>, attributes in the tokens of a header. \<open>Attribute_Grammar\<close>: that exactly the
    groups of a grammar are found, and the share of a declaration.
  \<^item> \<open>Declaration_Model\<close>: what a frontend reads from headers (\<open>generator/src/model.h\<close>).
  \<^item> \<open>Prsm_Lowering\<close>: \<open>lower_prsm\<close> of \<open>prsm.cpp\<close>, from attributes to the input of the builder. \<open>Prsm_Selection\<close>:
    what is selected, and that symbols can be read back.
  \<^item> \<open>Prsm_Catalog\<close>: \<open>prsm_catalog.cpp\<close>. \<open>Declarations\<close>: \<open>declarations.cpp\<close>. \<open>Json_Emit\<close>: JSON text made by appending
    strings, and the values it denotes. \<open>Declarations_Json\<close>, \<open>Catalog_Json\<close>: the values of the two documents.
  \<^item> \<open>Prsm_Properties\<close>: the properties from declarations to the catalog.
  \<^item> \<open>Bridge_Emit\<close>: \<open>emit_prsm\<close> of \<open>prsm.cpp\<close>, the C++ bridge of a module. \<open>Bridge_Properties\<close>: its files agree.

  \<^bold>\<open>The interface for C, C# and F#.\<close>

  \<^item> \<open>Interop_Lowering\<close>: \<open>interop.cpp\<close> up to the first line that is printed: directives, types, the contract
    and all diagnostics. \<open>Interop_Emit\<close>: the C header, the C++ functions and the C# and F# declarations, as text.
  \<^item> \<open>Interop_Valid\<close>: what the absence of errors says. \<open>Interop_Contract\<close>: reading the items of a contract back.
    \<open>Interop_Properties\<close>: the properties.

  \<^bold>\<open>Tables of native functions for F#.\<close>

  \<^item> \<open>Table_Lowering\<close>: \<open>fsharp_table.cpp\<close> up to the diagnostics: which values F# can represent, and the declarations
    in the order in which they are reached. Values nest at most 64 deep in
    a representable one, so 65 levels are enough for the recursion over values, and as many rounds as there are values for the loop over those that
    pointers ask for, because every name is taken out at most once. A look-up of a missing key or index is None. \<open>Table_Emit\<close>: the text.
  \<^item> \<open>Table_Order\<close>: the order of the declarations, and the sizes with which they are declared and used. \<open>Table_Properties\<close>: termination and the properties.

  \<^bold>\<open>Registration code.\<close>

  \<^item> \<open>Registration_Emit\<close>: \<open>emit.cpp\<close>, the descriptions of classes and enumerations that are generated for a
    header, as the calls on a text builder that counts the lines. \<open>Registration_Lines\<close>: what \<open>#line\<close> means to a compiler.
    \<open>Registration_Properties\<close>: the places where errors are reported.

  \<^bold>\<open>Conventions.\<close> A call that may throw returns \<open>Inl\<close> of the error. An error with the empty message, which the
  code never throws, marks what the model cuts off: exhausted fuel, a call that does not compile, an address
  outside the heap. A read that throws leaves its target partly overwritten in the program; the model
  returns the error only. The containers are library or user code: iterating and inserting are
  parameters (\<open>sequence_traits\<close>, \<open>map_traits\<close>, \<open>adapter_traits\<close>), and the round trip asks of them only that
  inserting what was visited gives the container back. Paths have POSIX separators. A reference is
  not reached from its own target.

  \<^bold>\<open>Not modelled.\<close> The compile-time selection of overloads and the concepts that guard it; \<open>long double\<close> (converted to and from
  \<open>double\<close>) and specializations of \<open>serializer\<close> by the user, which are not in the universe of types; memory and locking; descriptors for editors (\<open>runtime/\<close> apart from the registry and the calls that serialization makes);
  the frontends of the generator, which ask libclang or read IFC files, and its command line; build integration and the Visual Studio extension.
\<close>

end
